(* ===== verification/Prelude.thy ===== *)
theory Prelude
  imports Main "HOL-Library.Word" "HOL-Library.Monad_Syntax"
begin

unbundle bit_operations_syntax

text \<open>
  Shared vocabulary of the development: the machine integer types of the code, the status
  codes the functions return, the counting of trailing zero bits, and the generic lemmas on
  lists, options and words that the component theories use.

  A C \<open>unsigned int\<close> is a \<open>32 word\<close>; an \<open>int\<close> is the same word read by \<open>sint\<close>. Array indices
  and sizes that the code keeps far below the width of their type are \<open>nat\<close>. A failed
  \<open>assert\<close>, an abort or a fault is the value \<open>None\<close> of an \<open>option\<close>.
\<close>

type_synonym u32 = "32 word"
type_synonym i32 = "32 word"
type_synonym u64 = "64 word"
type_synonym ntstatus = nat
type_synonym handle = nat

named_theorems shm_simps \<open>rewrite rules of the shared memory accesses\<close>
named_theorems inv_intros \<open>preservation of the component invariants\<close>

section \<open>Status codes\<close>

text \<open>
  The NTSTATUS values that the code returns or compares with, as the platform documents them.
  A wait returns the index of the object that satisfied it, or that index above
  \<open>STATUS_ABANDONED_WAIT_0\<close>, so the values are numbers and not an enumeration.
\<close>

abbreviation (input) STATUS_SUCCESS :: ntstatus where "STATUS_SUCCESS \<equiv> 0"
abbreviation (input) STATUS_WAIT_0 :: ntstatus where "STATUS_WAIT_0 \<equiv> 0"
abbreviation (input) STATUS_ABANDONED_WAIT_0 :: ntstatus where "STATUS_ABANDONED_WAIT_0 \<equiv> 0x80"
abbreviation (input) STATUS_ABANDONED :: ntstatus where "STATUS_ABANDONED \<equiv> 0x80"
abbreviation (input) STATUS_USER_APC :: ntstatus where "STATUS_USER_APC \<equiv> 0xC0"
abbreviation (input) STATUS_KERNEL_APC :: ntstatus where "STATUS_KERNEL_APC \<equiv> 0x100"
abbreviation (input) STATUS_TIMEOUT :: ntstatus where "STATUS_TIMEOUT \<equiv> 0x102"
abbreviation (input) STATUS_PENDING :: ntstatus where "STATUS_PENDING \<equiv> 0x103"
abbreviation (input) STATUS_OBJECT_NAME_EXISTS :: ntstatus where "STATUS_OBJECT_NAME_EXISTS \<equiv> 0x40000000"
abbreviation (input) STATUS_NOT_IMPLEMENTED :: ntstatus where "STATUS_NOT_IMPLEMENTED \<equiv> 0xC0000002"
abbreviation (input) STATUS_INVALID_HANDLE :: ntstatus where "STATUS_INVALID_HANDLE \<equiv> 0xC0000008"
abbreviation (input) STATUS_INVALID_PARAMETER :: ntstatus where "STATUS_INVALID_PARAMETER \<equiv> 0xC000000D"
abbreviation (input) STATUS_NO_MEMORY :: ntstatus where "STATUS_NO_MEMORY \<equiv> 0xC0000017"
abbreviation (input) STATUS_ACCESS_DENIED :: ntstatus where "STATUS_ACCESS_DENIED \<equiv> 0xC0000022"
abbreviation (input) STATUS_OBJECT_TYPE_MISMATCH :: ntstatus where "STATUS_OBJECT_TYPE_MISMATCH \<equiv> 0xC0000024"
abbreviation (input) STATUS_MUTANT_NOT_OWNED :: ntstatus where "STATUS_MUTANT_NOT_OWNED \<equiv> 0xC0000046"
abbreviation (input) STATUS_SEMAPHORE_LIMIT_EXCEEDED :: ntstatus where "STATUS_SEMAPHORE_LIMIT_EXCEEDED \<equiv> 0xC0000047"
abbreviation (input) STATUS_TOO_MANY_OPENED_FILES :: ntstatus where "STATUS_TOO_MANY_OPENED_FILES \<equiv> 0xC000011F"

section \<open>Time\<close>

abbreviation (input) TICKSPERSEC :: u64 where "TICKSPERSEC \<equiv> 10000000"
abbreviation (input) NSECPERSEC :: u64 where "NSECPERSEC \<equiv> 1000000000"
abbreviation (input) SECS_1601_TO_1970 :: u64 where "SECS_1601_TO_1970 \<equiv> 11644473600"
abbreviation (input) TIMEOUT_INFINITE :: u64 where "TIMEOUT_INFINITE \<equiv> 0x7FFFFFFFFFFFFFFF"

section \<open>Counting trailing zero bits\<close>

text \<open>\<open>__builtin_ctzll\<close>: the position of the lowest set bit; the code calls it on nonzero words only.\<close>

definition ctzll :: "u64 \<Rightarrow> nat" where
  "ctzll w = length (takeWhile (\<lambda>n. \<not> bit w n) [0..<64])"

lemma ctzll_prefix: "takeWhile (\<lambda>n. \<not> bit w n) [0..<64] = [0..<ctzll w]" for w :: u64
proof -
  have "takeWhile (\<lambda>n. \<not> bit w n) [0..<64] = take (ctzll w) [0..<64]"
    unfolding ctzll_def by (rule takeWhile_eq_take)
  moreover have "ctzll w \<le> 64"
    unfolding ctzll_def using length_takeWhile_le [of "\<lambda>n. \<not> bit w n" "[0..<64]"] by simp
  ultimately show ?thesis by (simp add: take_upt)
qed

lemma ctzll_below: "j < ctzll w \<Longrightarrow> \<not> bit w j"
proof -
  assume "j < ctzll w"
  then have "j \<in> set (takeWhile (\<lambda>n. \<not> bit w n) [0..<64])"
    by (simp add: ctzll_prefix)
  then show ?thesis by (blast dest: set_takeWhileD)
qed

lemma ctzll_less: "w \<noteq> 0 \<Longrightarrow> ctzll w < 64"
proof (rule ccontr)
  assume "w \<noteq> 0" and "\<not> ctzll w < 64"
  then have "\<not> bit w n" for n
    using ctzll_below [of n w] bit_imp_le_length [of w n] by fastforce
  then have "w = 0" by (simp add: bit_eq_iff)
  with \<open>w \<noteq> 0\<close> show False by contradiction
qed

lemma ctzll_bit: "w \<noteq> 0 \<Longrightarrow> bit w (ctzll w)"
proof -
  assume "w \<noteq> 0"
  then have "length (takeWhile (\<lambda>n. \<not> bit w n) [0..<64]) < length [0::nat..<64]"
    using ctzll_less by (simp add: ctzll_def)
  from nth_length_takeWhile [OF this] ctzll_less [OF \<open>w \<noteq> 0\<close>] show ?thesis
    by (simp add: ctzll_def)
qed

lemma word_nonzero_bit: "w \<noteq> 0 \<longleftrightarrow> (\<exists>j < 64. bit w j)" for w :: u64
  by (cases "w = 0") (auto intro: ctzll_bit ctzll_less)

section \<open>Words read as signed numbers\<close>

lemma sint_minus_one_i32 [simp]: "sint (- 1 :: i32) = -1"
  by simp

lemma sint_pos_pred: "0 < sint x \<Longrightarrow> sint (x - 1) = sint x - 1" for x :: i32
proof -
  assume "0 < sint x"
  moreover have "sint x < 2 ^ 31" using sint_lt [of x] by simp
  ultimately show ?thesis
    by (simp add: sint_word_ariths signed_take_bit_int_eq_self)
qed

lemma sint_eq_1_iff: "sint x = 1 \<longleftrightarrow> x = 1" for x :: i32
  using signed_word_eqI [of x 1] by auto

lemma sint_le_0_iff: "sint x \<le> 0 \<longleftrightarrow> x = 0 \<or> sint x < 0" for x :: i32
  using signed_word_eqI [of x 0] by auto

section \<open>Lists\<close>

lemma div_less_base [simp]: "j < b \<Longrightarrow> (i * b + j) div b = i" for i j b :: nat
  by simp

lemma mod_less_base [simp]: "j < b \<Longrightarrow> (i * b + j) mod b = j" for i j b :: nat
  by simp

lemma idx_split: "w < n \<Longrightarrow> b < 64 \<Longrightarrow> w * 64 + b < n * 64" for w n b :: nat
  by (metis (no_types) Suc_leI add.commute add_less_mono1 less_le_trans mult_Suc mult_le_mono1)

lemma idx_word_bit: "b < 64 \<Longrightarrow> i = w * 64 + b \<longleftrightarrow> i div 64 = w \<and> i mod 64 = b" for i w b :: nat
  by auto

end
