(* ===== verification/Shm_Memory.thy ===== *)
theory Shm_Memory
  imports Prelude
begin

text \<open>
  The shared memory of the synchronization objects and the atomic accesses to it.

  Each object owns one slot of four 32-bit integers in a file that the server and all clients
  map (server/fsync.c and dlls/ntdll/unix/fsync.c: \<open>get_shm\<close>, \<open>struct semaphore\<close>,
  \<open>struct event\<close>, \<open>struct mutex\<close>). An address is a slot and one of its four fields.

  Other threads and processes run concurrently. The state of a running operation therefore
  holds, beside the memory, the finite list of what the others do to it while the operation
  runs: every access of the code first lets the next of these interferences happen, then acts
  atomically. A theorem for all states is a theorem for every interleaving of every finite
  behaviour of the others. The field \<open>acts\<close> records the writes and wakes the operation itself
  performs, in order; the code never reads it.
\<close>

datatype field = W0 | W1 | W2 | W3

type_synonym addr = "nat \<times> field"
type_synonym mem = "addr \<Rightarrow> i32"

text \<open>\<open>struct semaphore\<close>, \<open>struct event\<close>, \<open>struct mutex\<close>: the meaning of the four fields.\<close>

abbreviation (input) sem_count :: "nat \<Rightarrow> addr" where "sem_count s \<equiv> (s, W0)"
abbreviation (input) sem_max :: "nat \<Rightarrow> addr" where "sem_max s \<equiv> (s, W1)"
abbreviation (input) ev_signaled :: "nat \<Rightarrow> addr" where "ev_signaled s \<equiv> (s, W0)"
abbreviation (input) mutex_tid :: "nat \<Rightarrow> addr" where "mutex_tid s \<equiv> (s, W0)"
abbreviation (input) mutex_count :: "nat \<Rightarrow> addr" where "mutex_count s \<equiv> (s, W1)"
abbreviation (input) shm_ref :: "nat \<Rightarrow> addr" where "shm_ref s \<equiv> (s, W2)"
abbreviation (input) shm_last_pid :: "nat \<Rightarrow> addr" where "shm_last_pid s \<equiv> (s, W3)"

text \<open>Own actions of an operation.\<close>

datatype act =
    Wr addr i32 i32      \<comment> \<open>an atomic write: address, value before, value after\<close>
  | Wake addr            \<comment> \<open>\<open>futex_wake( addr, INT_MAX )\<close>\<close>
  | SrvFree nat          \<comment> \<open>the server request \<open>fsync_free_shm_idx\<close>\<close>
  | Yield                \<comment> \<open>\<open>usleep( 0 )\<close>\<close>
  | SrvMsgwait bool      \<comment> \<open>the server request \<open>fsync_msgwait\<close>\<close>
  | FutexWait "(addr \<times> i32) option list"  \<comment> \<open>a wait on these words with these expected values\<close>

record world =
  mem :: mem
  intf :: "(mem \<Rightarrow> mem) list"
  acts :: "act list"

section \<open>Atomic accesses\<close>

definition interfere :: "'a world_scheme \<Rightarrow> 'a world_scheme" where
  "interfere w = (case intf w of [] \<Rightarrow> w | f # fs \<Rightarrow> w\<lparr>mem := f (mem w), intf := fs\<rparr>)"

definition emit :: "act \<Rightarrow> 'a world_scheme \<Rightarrow> 'a world_scheme" where
  "emit a w = w\<lparr>acts := acts w @ [a]\<rparr>"

definition put_mem :: "addr \<Rightarrow> i32 \<Rightarrow> 'a world_scheme \<Rightarrow> 'a world_scheme" where
  "put_mem p v w = w\<lparr>mem := (mem w)(p := v), acts := acts w @ [Wr p (mem w p) v]\<rparr>"

text \<open>\<open>__atomic_load_n\<close> and plain reads.\<close>

definition at_load :: "addr \<Rightarrow> 'a world_scheme \<Rightarrow> i32 \<times> 'a world_scheme" where
  "at_load p w = (let w' = interfere w in (mem w' p, w'))"

text \<open>\<open>__atomic_store_n\<close> and plain writes.\<close>

definition at_store :: "addr \<Rightarrow> i32 \<Rightarrow> 'a world_scheme \<Rightarrow> 'a world_scheme" where
  "at_store p v w = put_mem p v (interfere w)"

text \<open>\<open>__atomic_exchange_n\<close>: the old value is returned.\<close>

definition at_xchg :: "addr \<Rightarrow> i32 \<Rightarrow> 'a world_scheme \<Rightarrow> i32 \<times> 'a world_scheme" where
  "at_xchg p v w = (let w' = interfere w in (mem w' p, put_mem p v w'))"

text \<open>\<open>__sync_val_compare_and_swap\<close>: the old value is returned, the new one stored if it was \<open>old\<close>.\<close>

definition at_cas :: "addr \<Rightarrow> i32 \<Rightarrow> i32 \<Rightarrow> 'a world_scheme \<Rightarrow> i32 \<times> 'a world_scheme" where
  "at_cas p old new w =
     (let w' = interfere w
      in (mem w' p, if mem w' p = old then put_mem p new w' else w'))"

text \<open>\<open>__atomic_add_fetch\<close>, \<open>__atomic_sub_fetch\<close>, \<open>__sync_fetch_and_add\<close>: the new value is returned.\<close>

definition at_add :: "addr \<Rightarrow> i32 \<Rightarrow> 'a world_scheme \<Rightarrow> i32 \<times> 'a world_scheme" where
  "at_add p v w = (let w' = interfere w in (mem w' p + v, put_mem p (mem w' p + v) w'))"

section \<open>Rewriting without interference\<close>

lemma interfere_quiet [shm_simps]: "intf w = [] \<Longrightarrow> interfere w = w"
  by (simp add: interfere_def)

lemma put_mem_sel [simp]:
  "mem (put_mem p v w) = (mem w)(p := v)" "intf (put_mem p v w) = intf w"
  "acts (put_mem p v w) = acts w @ [Wr p (mem w p) v]"
  by (simp_all add: put_mem_def)

lemma emit_sel [simp]:
  "mem (emit a w) = mem w" "intf (emit a w) = intf w" "acts (emit a w) = acts w @ [a]"
  by (simp_all add: emit_def)

lemma interfere_acts [simp]: "acts (interfere w) = acts w"
  by (simp add: interfere_def split: list.split)

lemma interfere_length: "length (intf (interfere w)) = length (intf w) - 1"
  by (simp add: interfere_def split: list.split)

lemma at_load_quiet [shm_simps]: "intf w = [] \<Longrightarrow> at_load p w = (mem w p, w)"
  by (simp add: at_load_def interfere_quiet)

lemma at_store_quiet [shm_simps]: "intf w = [] \<Longrightarrow> at_store p v w = put_mem p v w"
  by (simp add: at_store_def interfere_quiet)

lemma at_xchg_quiet [shm_simps]: "intf w = [] \<Longrightarrow> at_xchg p v w = (mem w p, put_mem p v w)"
  by (simp add: at_xchg_def interfere_quiet)

lemma at_cas_quiet [shm_simps]:
  "intf w = [] \<Longrightarrow> at_cas p old new w = (mem w p, if mem w p = old then put_mem p new w else w)"
  by (simp add: at_cas_def interfere_quiet)

lemma at_add_quiet [shm_simps]:
  "intf w = [] \<Longrightarrow> at_add p v w = (mem w p + v, put_mem p (mem w p + v) w)"
  by (simp add: at_add_def interfere_quiet)

section \<open>What an access does under interference\<close>

text \<open>Reads leave no trace; the list of pending interferences never grows.\<close>

lemma at_load_acts [simp]: "acts (snd (at_load p w)) = acts w"
  by (simp add: at_load_def Let_def)

lemma at_access_intf:
  "length (intf (snd (at_load p w))) = length (intf w) - 1"
  "length (intf (at_store p v w)) = length (intf w) - 1"
  "length (intf (snd (at_xchg p v w))) = length (intf w) - 1"
  "length (intf (snd (at_cas p old new w))) = length (intf w) - 1"
  "length (intf (snd (at_add p v w))) = length (intf w) - 1"
  by (simp_all add: at_load_def at_store_def at_xchg_def at_cas_def at_add_def Let_def
      interfere_length)

text \<open>The same for the pairs that a \<open>let\<close> binds, as the termination proofs of the loops need it.\<close>

lemma intf_len:
  "(v, w') = at_load p w \<Longrightarrow> length (intf w') = length (intf w) - 1"
  "(v, w') = at_xchg p x w \<Longrightarrow> length (intf w') = length (intf w) - 1"
  "(v, w') = at_cas p old new w \<Longrightarrow> length (intf w') = length (intf w) - 1"
  "(v, w') = at_add p x w \<Longrightarrow> length (intf w') = length (intf w) - 1"
  by (metis at_access_intf(1) snd_conv, metis at_access_intf(3) snd_conv,
      metis at_access_intf(4) snd_conv, metis at_access_intf(5) snd_conv)

lemma at_cas_acts:
  "at_cas p old new w = (v, w') \<Longrightarrow>
     acts w' = acts w @ (if v = old then [Wr p old new] else [])"
  by (auto simp: at_cas_def Let_def)

lemma at_cas_success: "at_cas p old new w = (old, w') \<Longrightarrow> mem w' p = new"
  by (auto simp: at_cas_def Let_def)

lemma at_xchg_acts: "at_xchg p new w = (v, w') \<Longrightarrow> acts w' = acts w @ [Wr p v new]"
  by (auto simp: at_xchg_def Let_def)

lemma at_xchg_mem: "at_xchg p new w = (v, w') \<Longrightarrow> mem w' p = new"
  by (auto simp: at_xchg_def Let_def)

lemma at_add_acts: "at_add p d w = (v, w') \<Longrightarrow> acts w' = acts w @ [Wr p (v - d) v]"
  by (auto simp: at_add_def Let_def)

text \<open>
  A compare-and-swap that fails right after the value was loaded means that another thread
  intervened: so the list of pending interferences got strictly shorter. This is what makes
  the retry loops of the code terminate.
\<close>

lemma cas_after_load_progress:
  assumes "at_load p w = (v, w1)" and "at_cas p v new w1 = (v', w2)" and "v' \<noteq> v"
  shows "length (intf w2) < length (intf w)"
proof -
  have "intf w1 \<noteq> []"
    using assms by (auto simp: at_load_def at_cas_def Let_def interfere_quiet)
  moreover have "length (intf w2) = length (intf w1) - 1"
    using at_access_intf(4) [of p v new w1] assms(2) by simp
  moreover have "length (intf w1) \<le> length (intf w)"
    using at_access_intf(1) [of p w] assms(1) by simp
  moreover have "0 < length (intf w1)" using \<open>intf w1 \<noteq> []\<close> by simp
  ultimately show ?thesis by arith
qed

end
