(* ===== verification/Index_Pool.thy ===== *)
theory Index_Pool
  imports Prelude
begin

text \<open>
  The contract of an index allocator, as its clients rely on it: an allocation hands out an
  index that is not live and makes it live, a release takes the index out when its last
  reference goes. The shared memory indices of server/fsync.c are one provider.
\<close>

locale index_pool =
  fixes alloc :: "'s \<Rightarrow> (nat \<times> 's) option"
    and release :: "nat \<Rightarrow> 's \<Rightarrow> 's option"
    and live :: "'s \<Rightarrow> nat set"
    and inv :: "'s \<Rightarrow> bool"
    and ready :: "'s \<Rightarrow> bool"
    and last_ref :: "nat \<Rightarrow> 's \<Rightarrow> bool"
  assumes alloc_total: "inv s \<Longrightarrow> ready s \<Longrightarrow> alloc s \<noteq> None"
    and alloc_fresh: "inv s \<Longrightarrow> ready s \<Longrightarrow> alloc s = Some (i, s') \<Longrightarrow> i \<notin> live s"
    and alloc_live: "inv s \<Longrightarrow> ready s \<Longrightarrow> alloc s = Some (i, s') \<Longrightarrow> live s' = insert i (live s)"
    and alloc_inv: "inv s \<Longrightarrow> ready s \<Longrightarrow> alloc s = Some (i, s') \<Longrightarrow> inv s'"
    and alloc_last: "inv s \<Longrightarrow> ready s \<Longrightarrow> alloc s = Some (i, s') \<Longrightarrow> last_ref i s'"
    and release_total: "inv s \<Longrightarrow> i \<in> live s \<Longrightarrow> release i s \<noteq> None"
    and release_live: "inv s \<Longrightarrow> i \<in> live s \<Longrightarrow> release i s = Some s' \<Longrightarrow>
      live s' = (if last_ref i s then live s - {i} else live s)"
    and release_inv: "inv s \<Longrightarrow> i \<in> live s \<Longrightarrow> release i s = Some s' \<Longrightarrow> inv s'"
begin

lemma two_allocs_distinct:
  assumes "inv s" "ready s" "alloc s = Some (i, s1)" "ready s1" "alloc s1 = Some (j, s2)"
  shows "i \<noteq> j"
  using assms alloc_fresh [of s1 j s2] alloc_inv alloc_live by blast

lemma release_after_alloc:
  assumes "inv s" "ready s" "alloc s = Some (i, s1)"
  obtains s2 where "release i s1 = Some s2" "live s2 = live s" "inv s2"
proof -
  have "inv s1" "i \<in> live s1" "last_ref i s1" "live s1 - {i} = live s"
    using assms alloc_inv alloc_live alloc_last alloc_fresh by auto
  moreover from this obtain s2 where "release i s1 = Some s2"
    using release_total by blast
  ultimately show ?thesis using that release_live release_inv by metis
qed

lemma release_other:
  assumes "inv s" "i \<in> live s" "j \<in> live s" "i \<noteq> j" "release i s = Some s'"
  shows "j \<in> live s'"
  using assms release_live by auto

end

end
