(* ===== verification/Shm_Index.thy ===== *)
theory Shm_Index
  imports Shm_Memory Index_Pool
begin

text \<open>
  server/fsync.c: the allocator of shared memory indices. The server owns a bitmap with one
  bit per index (set: free), a hint where to start searching, the table of mapped pages and the
  size of the shared file; each allocated index carries a reference count in its slot, which
  the clients change concurrently. Modelled: \<open>get_shm\<close>, \<open>alloc_shm_idx_from_word\<close>,
  \<open>fsync_alloc_shm\<close>, \<open>fsync_free_shm_idx\<close>, \<open>fsync_cleanup_process_shm_indices\<close>, \<open>fsync_init\<close>
  and the request \<open>fsync_free_shm_idx\<close>.

  \<open>mmap\<close> and \<open>realloc\<close> are parameters that say whether they succeed. A failed \<open>mmap\<close> or a failed
  growth of the page table leaves a bad pointer that the next access faults on: \<open>None\<close>.
\<close>

section \<open>State\<close>

record fserver = world +
  is_fsync_initialized :: bool
  shm_size :: nat
  shm_addrs :: "bool list"     \<comment> \<open>which pages are mapped; its length is \<open>shm_addrs_size\<close>\<close>
  free_map :: "u64 list"       \<comment> \<open>\<open>shm_idx_free_map\<close>; its length is \<open>shm_idx_free_map_size\<close>\<close>
  search_hint :: nat           \<comment> \<open>\<open>shm_idx_free_search_start_hint\<close>\<close>

record os_env =
  mmap_ok :: "nat \<Rightarrow> bool"
  realloc_ok :: "nat \<Rightarrow> bool"

abbreviation (input) FSYNC_SHM_PAGE_SIZE :: nat where "FSYNC_SHM_PAGE_SIZE \<equiv> 0x10000"
abbreviation (input) BITS_IN_FREE_MAP_WORD :: nat where "BITS_IN_FREE_MAP_WORD \<equiv> 64"

definition fsync_init :: "mem \<Rightarrow> fserver" where
  "fsync_init m =
     \<lparr>mem = m, intf = [], acts = [],
      is_fsync_initialized = True, shm_size = FSYNC_SHM_PAGE_SIZE,
      shm_addrs = replicate 128 False,
      free_map = (replicate 256 (- 1))[0 := (- 1) AND NOT 1], search_hint = 0\<rparr>"

section \<open>Operations\<close>

definition srv_get_shm :: "os_env \<Rightarrow> nat \<Rightarrow> fserver \<Rightarrow> (nat \<times> fserver) option" where
  "srv_get_shm os idx s =
     (let off = (idx * 16) mod 2 ^ 32;
          entry = off div FSYNC_SHM_PAGE_SIZE;
          offset = off mod FSYNC_SHM_PAGE_SIZE
      in do {
        s1 \<leftarrow> (if length (shm_addrs s) \<le> entry then
                 (let new_size = max (length (shm_addrs s) * 2) (entry + 1)
                  in if realloc_ok os new_size
                     then Some (s\<lparr>shm_addrs := shm_addrs s @
                                    replicate (new_size - length (shm_addrs s)) False\<rparr>)
                     else None)
               else Some s);
        s2 \<leftarrow> (if shm_addrs s1 ! entry then Some s1
               else if mmap_ok os entry
               then Some (s1\<lparr>shm_addrs := (shm_addrs s1)[entry := True]\<rparr>)
               else None);
        Some ((entry * FSYNC_SHM_PAGE_SIZE + offset) div 16, s2)
      })"

definition alloc_shm_idx_from_word :: "nat \<Rightarrow> fserver \<Rightarrow> nat \<times> fserver" where
  "alloc_shm_idx_from_word word_index s =
     (if free_map s ! word_index = 0 then (0, s)
      else let ret = ctzll (free_map s ! word_index);
               w = free_map s ! word_index AND NOT (push_bit ret 1)
           in (word_index * BITS_IN_FREE_MAP_WORD + ret,
               s\<lparr>free_map := (free_map s)[word_index := w],
                 search_hint := (if w \<noteq> 0 then word_index else word_index + 1)\<rparr>))"

lemma alloc_from_word_length [simp]:
  "length (free_map (snd (alloc_shm_idx_from_word i s))) = length (free_map s)"
  by (simp add: alloc_shm_idx_from_word_def Let_def)

text \<open>
  The search loop of \<open>fsync_alloc_shm\<close>. The local variable \<open>shm_idx\<close> is not initialized before
  the loop: its value there is the first argument, and it is the result when the loop body
  never runs.
\<close>

function scan_words :: "nat \<Rightarrow> nat \<Rightarrow> fserver \<Rightarrow> nat \<times> fserver" where
  "scan_words shm_idx i s =
     (if i < length (free_map s) then
        (let r = alloc_shm_idx_from_word i s
         in if fst r \<noteq> 0 then r else scan_words (fst r) (Suc i) (snd r))
      else (shm_idx, s))"
  by pat_completeness auto
termination
  by (relation "measure (\<lambda>(shm_idx, i, s). length (free_map s) - i)") auto

declare scan_words.simps [simp del]

text \<open>The loop that expands the shared file until the slot lies inside it.\<close>

function expand_shm :: "nat \<Rightarrow> nat \<Rightarrow> nat" where
  "expand_shm shm_idx sz =
     (if sz \<le> shm_idx * 16 then expand_shm shm_idx (sz + FSYNC_SHM_PAGE_SIZE) else sz)"
  by pat_completeness auto
termination
  by (relation "measure (\<lambda>(shm_idx, sz). shm_idx * 16 + 1 - sz)") auto

declare expand_shm.simps [simp del]

definition init_slot :: "os_env \<Rightarrow> nat \<Rightarrow> i32 \<Rightarrow> i32 \<Rightarrow> fserver \<Rightarrow> (nat \<times> fserver) option" where
  "init_slot os shm_idx low high s =
     do {
       (slot, s1) \<leftarrow> srv_get_shm os shm_idx (s\<lparr>shm_size := expand_shm shm_idx (shm_size s)\<rparr>);
       let s2 = at_store (slot, W0) low s1;
       let s3 = at_store (slot, W1) high s2;
       let s4 = at_store (shm_ref slot) 1 s3;
       let s5 = at_store (shm_last_pid slot) 0 s4;
       Some (shm_idx, s5)
     }"

definition fsync_alloc_shm :: "os_env \<Rightarrow> nat \<Rightarrow> i32 \<Rightarrow> i32 \<Rightarrow> fserver \<Rightarrow> (nat \<times> fserver) option" where
  "fsync_alloc_shm os junk low high s =
     (if \<not> is_fsync_initialized s then Some (0, s)
      else let (shm_idx, s1) = scan_words junk (search_hint s) s
           in if shm_idx = 0 then
                (let old_size = length (free_map s1); new_size = old_size + 256
                 in if realloc_ok os new_size then
                      (let (shm_idx, s2) = alloc_shm_idx_from_word old_size
                             (s1\<lparr>free_map := free_map s1 @ replicate (new_size - old_size) (- 1)\<rparr>)
                       in init_slot os shm_idx low high s2)
                    else Some (0, s1))
              else init_slot os shm_idx low high s1)"

definition fsync_free_shm_idx :: "os_env \<Rightarrow> nat \<Rightarrow> fserver \<Rightarrow> fserver option" where
  "fsync_free_shm_idx os shm_idx s =
     (if shm_idx = 0 \<or> length (free_map s) * BITS_IN_FREE_MAP_WORD \<le> shm_idx then None
      else do {
        (slot, s1) \<leftarrow> srv_get_shm os shm_idx s;
        let (ref, s2) = at_load (shm_ref slot) s1;
        if sint ref \<le> 0 then Some s2
        else (let (left, s3) = at_add (shm_ref slot) (- 1) s2
              in if left \<noteq> 0 then Some s3
                 else let idx = shm_idx div BITS_IN_FREE_MAP_WORD;
                          b = shm_idx mod BITS_IN_FREE_MAP_WORD
                      in if bit (free_map s3 ! idx) b then None
                         else Some (s3\<lparr>free_map := (free_map s3)
                                         [idx := free_map s3 ! idx OR push_bit b 1],
                                       search_hint := (if idx < search_hint s3 then idx
                                                       else search_hint s3)\<rparr>))
      })"

text \<open>
  The cleanup after a killed process: for every allocated index whose slot was last used by that
  process and has one reference left. The outer loop reads a word of the bitmap once, before
  its bits are visited.
\<close>

fun cleanup_word :: "os_env \<Rightarrow> i32 \<Rightarrow> nat \<Rightarrow> u64 \<Rightarrow> nat \<Rightarrow> nat list \<Rightarrow> fserver \<Rightarrow> fserver option" where
  "cleanup_word os pid i free_word base [] s = Some s"
| "cleanup_word os pid i free_word base (j # js) s =
     (if bit free_word j then cleanup_word os pid i free_word base js s
      else let (lp, s1) = at_load (shm_last_pid (base + j)) s
           in if lp \<noteq> pid then cleanup_word os pid i free_word base js s1
              else let (ref, s2) = at_load (shm_ref (base + j)) s1
                   in if ref \<noteq> 1 then cleanup_word os pid i free_word base js s2
                      else do {
                        s3 \<leftarrow> fsync_free_shm_idx os (i * BITS_IN_FREE_MAP_WORD + j) s2;
                        cleanup_word os pid i free_word base js s3
                      })"

fun cleanup_words :: "os_env \<Rightarrow> i32 \<Rightarrow> nat list \<Rightarrow> fserver \<Rightarrow> fserver option" where
  "cleanup_words os pid [] s = Some s"
| "cleanup_words os pid (i # is) s =
     (let free_word = free_map s ! i
      in if free_word = - 1 then cleanup_words os pid is s
         else do {
           (base, s1) \<leftarrow> srv_get_shm os (i * BITS_IN_FREE_MAP_WORD) s;
           s2 \<leftarrow> cleanup_word os pid i free_word base
                   [if i = 0 then 1 else 0..<BITS_IN_FREE_MAP_WORD] s1;
           cleanup_words os pid is s2
         })"

definition fsync_cleanup_process_shm_indices :: "os_env \<Rightarrow> i32 \<Rightarrow> fserver \<Rightarrow> fserver option" where
  "fsync_cleanup_process_shm_indices os pid s =
     cleanup_words os pid [0..<length (free_map s)] s"

text \<open>The request \<open>fsync_free_shm_idx\<close> of the clients: the status is the request's error.\<close>

definition req_fsync_free_shm_idx :: "os_env \<Rightarrow> nat \<Rightarrow> fserver \<Rightarrow> (ntstatus \<times> fserver) option" where
  "req_fsync_free_shm_idx os shm_idx s =
     (if shm_idx = 0 \<or> length (free_map s) * BITS_IN_FREE_MAP_WORD \<le> shm_idx
      then Some (STATUS_INVALID_PARAMETER, s)
      else map_option (\<lambda>s'. (STATUS_SUCCESS, s')) (fsync_free_shm_idx os shm_idx s))"

section \<open>Free and live indices\<close>

definition idx_free :: "fserver \<Rightarrow> nat \<Rightarrow> bool" where
  "idx_free s i \<longleftrightarrow> i < length (free_map s) * BITS_IN_FREE_MAP_WORD \<and>
     bit (free_map s ! (i div BITS_IN_FREE_MAP_WORD)) (i mod BITS_IN_FREE_MAP_WORD)"

definition idx_live :: "fserver \<Rightarrow> nat \<Rightarrow> bool" where
  "idx_live s i \<longleftrightarrow> 0 < i \<and> i < length (free_map s) * BITS_IN_FREE_MAP_WORD \<and> \<not> idx_free s i"

text \<open>
  The invariant. The bitmap: index 0 is never free, and no word before the hint has a free
  bit (the comment on the hint in the code). The slots: a live index lies inside the file and
  has a positive reference count.
\<close>

definition map_wf :: "fserver \<Rightarrow> bool" where
  "map_wf s \<longleftrightarrow> 0 < length (free_map s) \<and> \<not> bit (free_map s ! 0) 0 \<and>
     search_hint s \<le> length (free_map s) \<and> (\<forall>w < search_hint s. free_map s ! w = 0)"

definition slots_wf :: "fserver \<Rightarrow> bool" where
  "slots_wf s \<longleftrightarrow>
     (\<forall>i. idx_live s i \<longrightarrow> i * 16 < shm_size s \<and> 0 < sint (mem s (shm_ref i)))"

definition pool_wf :: "fserver \<Rightarrow> bool" where
  "pool_wf s \<longleftrightarrow> is_fsync_initialized s \<and> map_wf s \<and> slots_wf s \<and>
     length (free_map s) * BITS_IN_FREE_MAP_WORD \<le> 2 ^ 28"

definition os_good :: "os_env \<Rightarrow> bool" where
  "os_good os \<longleftrightarrow> (\<forall>n. mmap_ok os n) \<and> (\<forall>n. realloc_ok os n)"

definition first_free :: "fserver \<Rightarrow> nat \<Rightarrow> bool" where
  "first_free s w \<longleftrightarrow> w < length (free_map s) \<and> free_map s ! w \<noteq> 0 \<and> (\<forall>v < w. free_map s ! v = 0)"

definition take_lowest :: "nat \<Rightarrow> fserver \<Rightarrow> fserver" where
  "take_lowest w s =
     s\<lparr>free_map := (free_map s)[w := unset_bit (ctzll (free_map s ! w)) (free_map s ! w)],
       search_hint := (if unset_bit (ctzll (free_map s ! w)) (free_map s ! w) \<noteq> 0
                       then w else w + 1)\<rparr>"

lemma alloc_from_word_zero:
  "free_map s ! w = 0 \<Longrightarrow> alloc_shm_idx_from_word w s = (0, s)"
  by (simp add: alloc_shm_idx_from_word_def)

lemma alloc_from_word_take:
  "free_map s ! w \<noteq> 0 \<Longrightarrow>
     alloc_shm_idx_from_word w s =
       (w * BITS_IN_FREE_MAP_WORD + ctzll (free_map s ! w), take_lowest w s)"
  by (simp add: alloc_shm_idx_from_word_def take_lowest_def unset_bit_eq_and_not Let_def)

lemma lowest_idx_pos:
  "map_wf s \<Longrightarrow> w < length (free_map s) \<Longrightarrow> free_map s ! w \<noteq> 0 \<Longrightarrow>
     0 < w * 64 + ctzll (free_map s ! w)"
  using ctzll_bit [of "free_map s ! w"] by (cases w) (auto simp: map_wf_def intro!: gr0I)

text \<open>The search loop finds the first word with a free bit, or reports that there is none.\<close>

lemma scan_words_spec:
  assumes "map_wf s" and "\<forall>v < i. v < length (free_map s) \<longrightarrow> free_map s ! v = 0"
    and "i < length (free_map s) \<or> shm_idx = 0"
  shows "(scan_words shm_idx i s = (0, s) \<and> (\<forall>v < length (free_map s). free_map s ! v = 0)) \<or>
    (\<exists>w. first_free s w \<and>
       scan_words shm_idx i s = (w * 64 + ctzll (free_map s ! w), take_lowest w s))"
  using assms
proof (induction shm_idx i s rule: scan_words.induct)
  case (1 shm_idx i s)
  show ?case
  proof (cases "i < length (free_map s)")
    case False
    have "scan_words shm_idx i s = (0, s)"
      using False "1.prems" by (subst scan_words.simps) simp
    moreover have "\<forall>v < length (free_map s). free_map s ! v = 0"
      using False "1.prems"(2) by simp
    ultimately show ?thesis by blast
  next
    case True
    show ?thesis
    proof (cases "free_map s ! i = 0")
      case zero: True
      from zero True have step: "scan_words shm_idx i s = scan_words 0 (Suc i) s"
        by (simp add: scan_words.simps [of shm_idx i s] alloc_from_word_zero)
      from "1.prems"(2) zero have "\<forall>v < Suc i. v < length (free_map s) \<longrightarrow> free_map s ! v = 0"
        by (simp add: less_Suc_eq)
      with "1.IH" [OF True refl] zero "1.prems"(1) step show ?thesis
        by (simp add: alloc_from_word_zero)
    next
      case False
      then have "first_free s i" using True "1.prems"(2) by (simp add: first_free_def)
      moreover have "scan_words shm_idx i s = (i * 64 + ctzll (free_map s ! i), take_lowest i s)"
        using True False lowest_idx_pos [OF "1.prems"(1) True False]
        by (simp add: scan_words.simps [of shm_idx i s] alloc_from_word_take)
      ultimately show ?thesis by blast
    qed
  qed
qed

lemma idx_free_take_lowest:
  assumes "first_free s w"
  shows "idx_free (take_lowest w s) i \<longleftrightarrow> idx_free s i \<and> i \<noteq> w * 64 + ctzll (free_map s ! w)"
proof -
  have "ctzll (free_map s ! w) < 64" using assms by (simp add: first_free_def ctzll_less)
  with assms show ?thesis
    by (cases "i div 64 = w")
      (auto simp: idx_free_def take_lowest_def bit_unset_bit_iff first_free_def idx_word_bit)
qed

lemma first_free_lowest:
  assumes "first_free s w" and "idx_free s j"
  shows "w * 64 + ctzll (free_map s ! w) \<le> j"
proof -
  have "\<not> j div 64 < w"
    using assms by (auto simp: first_free_def idx_free_def)
  moreover have "j div 64 = w \<Longrightarrow> ctzll (free_map s ! w) \<le> j mod 64"
    using assms by (metis ctzll_below idx_free_def not_le_imp_less)
  moreover have "ctzll (free_map s ! w) < 64" using assms by (simp add: first_free_def ctzll_less)
  moreover have "j = (j div 64) * 64 + j mod 64" by simp
  ultimately show ?thesis by arith
qed

lemma first_free_idx_free:
  assumes "first_free s w" shows "idx_free s (w * 64 + ctzll (free_map s ! w))"
  using assms ctzll_less [of "free_map s ! w"]
  by (simp add: idx_free_def first_free_def idx_split ctzll_bit)

lemma map_wf_take_lowest: "map_wf s \<Longrightarrow> first_free s w \<Longrightarrow> map_wf (take_lowest w s)"
  by (auto simp: map_wf_def take_lowest_def first_free_def nth_list_update bit_unset_bit_iff
      less_Suc_eq)

section \<open>Mapping a slot\<close>

text \<open>
  Below \<open>2 ^ 28\<close> the byte offset does not wrap, and the pointer that \<open>get_shm\<close> returns is the
  slot of the index; only the table of mapped pages changes.
\<close>

lemma get_shm_slot:
  assumes "os_good os" and "idx < 2 ^ 28"
  obtains t where "srv_get_shm os idx s = Some (idx, s\<lparr>shm_addrs := t\<rparr>)"
proof -
  have "idx * 16 < 2 ^ 32" using assms(2) by simp
  then have off: "(idx * 16) mod 2 ^ 32 = idx * 16" by simp
  define e where "e = idx * 16 div 65536"
  have slot: "(e * 65536 + idx * 16 mod 65536) div 16 = idx"
    unfolding e_def using div_mult_mod_eq [of "idx * 16" 65536] by simp
  have os: "mmap_ok os n" "realloc_ok os n" for n using assms(1) by (simp_all add: os_good_def)
  define t1 where "t1 = (if length (shm_addrs s) \<le> e
      then shm_addrs s @ replicate (max (length (shm_addrs s) * 2) (e + 1) - length (shm_addrs s)) False
      else shm_addrs s)"
  have "srv_get_shm os idx s = (if t1 ! e then Some (s\<lparr>shm_addrs := t1\<rparr>)
      else Some (s\<lparr>shm_addrs := t1[e := True]\<rparr>)) \<bind> (\<lambda>s2. Some (idx, s2))"
    using slot unfolding srv_get_shm_def off Let_def t1_def e_def [symmetric] by (simp add: os)
  then show ?thesis using that by (cases "t1 ! e") simp_all
qed

lemma expand_shm_enough: "shm_idx * 16 < expand_shm shm_idx sz"
proof (induction shm_idx sz rule: expand_shm.induct)
  case (1 shm_idx sz)
  then show ?case by (subst expand_shm.simps) simp
qed

lemma expand_shm_grows: "sz \<le> expand_shm shm_idx sz"
proof (induction shm_idx sz rule: expand_shm.induct)
  case (1 shm_idx sz)
  then show ?case by (cases "sz \<le> shm_idx * 16") (simp_all add: expand_shm.simps [of shm_idx sz])
qed

lemma init_slot_spec:
  assumes "os_good os" and "idx < 2 ^ 28" and "intf s = []"
  obtains s' where "init_slot os idx low high s = Some (idx, s')"
    and "mem s' = (mem s)((idx, W0) := low, (idx, W1) := high, (idx, W2) := 1, (idx, W3) := 0)"
    and "intf s' = []" and "free_map s' = free_map s" and "search_hint s' = search_hint s"
    and "shm_size s' = expand_shm idx (shm_size s)"
    and "is_fsync_initialized s' = is_fsync_initialized s"
proof -
  obtain t where t: "srv_get_shm os idx (s\<lparr>shm_size := expand_shm idx (shm_size s)\<rparr>) =
      Some (idx, s\<lparr>shm_size := expand_shm idx (shm_size s), shm_addrs := t\<rparr>)"
    using get_shm_slot [OF assms(1,2)] by metis
  define s1 where "s1 = s\<lparr>shm_size := expand_shm idx (shm_size s), shm_addrs := t\<rparr>"
  have "init_slot os idx low high s = Some (idx, put_mem (shm_last_pid idx) 0
      (put_mem (shm_ref idx) 1 (put_mem (idx, W1) high (put_mem (idx, W0) low s1))))"
    using assms(3) by (simp add: init_slot_def t shm_simps flip: s1_def) (simp add: s1_def shm_simps)
  then show ?thesis
    by (rule that) (simp_all add: s1_def put_mem_def assms(3))
qed

section \<open>Allocation\<close>

lemma pool_wf_slots:
  "pool_wf s \<Longrightarrow> idx_live s i \<Longrightarrow> i * 16 < shm_size s \<and> 0 < sint (mem s (shm_ref i))"
  by (simp add: pool_wf_def slots_wf_def)

text \<open>Taking the lowest free index of a well-formed map and initializing its slot.\<close>

lemma take_and_init:
  assumes os: "os_good os" and q: "intf t = []" and init: "is_fsync_initialized t"
    and wf: "map_wf t" and ff: "first_free t w"
    and bound: "length (free_map t) * 64 \<le> 2 ^ 28"
    and slots: "slots_wf t"
    and idx: "idx = w * 64 + ctzll (free_map t ! w)"
  obtains s' where "init_slot os idx low high (take_lowest w t) = Some (idx, s')"
    and "0 < idx" and "idx_free t idx" and "\<forall>j. idx_free t j \<longrightarrow> idx \<le> j"
    and "\<forall>j. idx_live s' j \<longleftrightarrow> idx_live t j \<or> j = idx"
    and "\<forall>j. idx_free s' j \<longleftrightarrow> idx_free t j \<and> j \<noteq> idx"
    and "mem s' = (mem t)((idx, W0) := low, (idx, W1) := high, (idx, W2) := 1, (idx, W3) := 0)"
    and "pool_wf s'" and "intf s' = []" and "length (free_map s') = length (free_map t)"
proof -
  have pos: "0 < idx" using lowest_idx_pos [OF wf, of w] ff by (simp add: idx first_free_def)
  have free: "idx_free t idx" unfolding idx by (rule first_free_idx_free [OF ff])
  then have lt: "idx < length (free_map t) * 64" by (simp add: idx_free_def)
  then have small: "idx < 2 ^ 28" using bound by linarith
  have q': "intf (take_lowest w t) = []" using q by (simp add: take_lowest_def)
  obtain s' where s': "init_slot os idx low high (take_lowest w t) = Some (idx, s')"
    and m: "mem s' = (mem t)((idx, W0) := low, (idx, W1) := high, (idx, W2) := 1, (idx, W3) := 0)"
    and q'': "intf s' = []" and fm: "free_map s' = free_map (take_lowest w t)"
    and hint: "search_hint s' = search_hint (take_lowest w t)"
    and size: "shm_size s' = expand_shm idx (shm_size t)" and init': "is_fsync_initialized s'"
    using init_slot_spec [OF os small q', of low high] init
    by (auto simp: take_lowest_def)
  have len: "length (free_map s') = length (free_map t)" using fm by (simp add: take_lowest_def)
  have fr: "idx_free s' j \<longleftrightarrow> idx_free t j \<and> j \<noteq> idx" for j
    using idx_free_take_lowest [OF ff, of j] unfolding idx by (simp add: idx_free_def fm)
  have lv: "idx_live s' j \<longleftrightarrow> idx_live t j \<or> j = idx" for j
    using fr [of j] lt pos len by (auto simp: idx_live_def)
  have "slots_wf s'"
    unfolding slots_wf_def lv size m
    using slots [unfolded slots_wf_def] expand_shm_enough [of idx] expand_shm_grows [of "shm_size t" idx]
    by (auto intro: less_le_trans)
  moreover have "map_wf s'"
    using map_wf_take_lowest [OF wf ff] by (simp add: map_wf_def fm hint)
  ultimately have "pool_wf s'"
    using init' bound len by (simp add: pool_wf_def)
  moreover have low: "idx_free t j \<Longrightarrow> idx \<le> j" for j
    unfolding idx by (rule first_free_lowest [OF ff])
  ultimately show ?thesis
    using low lv fr by (intro that [OF s' pos free _ _ _ m _ q'' len]) blast+
qed

definition grow_map :: "fserver \<Rightarrow> fserver" where
  "grow_map s = s\<lparr>free_map := free_map s @ replicate 256 (- 1)\<rparr>"

lemma grow_map_sel [simp]:
  "mem (grow_map s) = mem s" "intf (grow_map s) = intf s" "shm_size (grow_map s) = shm_size s"
  "is_fsync_initialized (grow_map s) = is_fsync_initialized s"
  "length (free_map (grow_map s)) = length (free_map s) + 256"
  by (simp_all add: grow_map_def)

lemma idx_free_grow:
  "idx_free (grow_map s) i \<longleftrightarrow>
     idx_free s i \<or> length (free_map s) * 64 \<le> i \<and> i < (length (free_map s) + 256) * 64"
  by (auto simp: idx_free_def grow_map_def nth_append bit_minus_1_iff less_mult_imp_div_less)

lemma idx_live_grow [simp]: "idx_live (grow_map s) i \<longleftrightarrow> idx_live s i"
  by (auto simp: idx_live_def idx_free_grow)

lemma map_wf_grow: "map_wf s \<Longrightarrow> map_wf (grow_map s)"
  by (auto simp: map_wf_def grow_map_def nth_append)

lemma first_free_grow:
  "(\<forall>v < length (free_map s). free_map s ! v = 0) \<Longrightarrow> first_free (grow_map s) (length (free_map s))"
  by (simp add: first_free_def grow_map_def nth_append)

text \<open>
  What an allocation does, when the search loop runs at least once (or the uninitialized
  variable happens to be 0): a fresh index, the lowest free one, whose slot is initialized.
\<close>

lemma fsync_alloc_shm_spec:
  assumes wf: "pool_wf s" and q: "intf s = []" and os: "os_good os"
    and hint: "search_hint s < length (free_map s) \<or> junk = 0"
    and room: "(length (free_map s) + 256) * 64 \<le> 2 ^ 28"
  obtains idx s' where "fsync_alloc_shm os junk low high s = Some (idx, s')"
    and "0 < idx" and "\<not> idx_live s idx" and "\<forall>j. idx_free s j \<longrightarrow> idx \<le> j"
    and "\<forall>j. idx_live s' j \<longleftrightarrow> idx_live s j \<or> j = idx"
    and "mem s' = (mem s)((idx, W0) := low, (idx, W1) := high, (idx, W2) := 1, (idx, W3) := 0)"
    and "pool_wf s'" and "intf s' = []"
    and "idx_free s idx \<or> (\<forall>j. \<not> idx_free s j)"
proof -
  have init: "is_fsync_initialized s" and mw: "map_wf s" and sw: "slots_wf s"
    and bound: "length (free_map s) * 64 \<le> 2 ^ 28"
    using wf by (simp_all add: pool_wf_def)
  have before: "\<forall>v < search_hint s. v < length (free_map s) \<longrightarrow> free_map s ! v = 0"
    using mw by (simp add: map_wf_def)
  have grown: "length (free_map (grow_map s)) * 64 \<le> 2 ^ 28" using room by simp
  from scan_words_spec [OF mw before hint] show ?thesis
  proof (elim disjE conjE exE)
    assume scan: "scan_words junk (search_hint s) s = (0, s)"
      and full: "\<forall>v < length (free_map s). free_map s ! v = 0"
    let ?t = "grow_map s" and ?w = "length (free_map s)"
    let ?i = "?w * 64 + ctzll (free_map ?t ! ?w)"
    have ff: "first_free ?t ?w" by (rule first_free_grow [OF full])
    have q': "intf ?t = []" and init': "is_fsync_initialized ?t" and mw': "map_wf ?t"
      using q init map_wf_grow [OF mw] by simp_all
    have slots': "slots_wf ?t"
      using sw by (simp add: slots_wf_def)
    obtain s' where s': "init_slot os ?i low high (take_lowest ?w ?t) = Some (?i, s')"
      and pos: "0 < ?i" and free: "idx_free ?t ?i" and "\<forall>j. idx_free ?t j \<longrightarrow> ?i \<le> j"
      and lv: "\<forall>j. idx_live s' j \<longleftrightarrow> idx_live ?t j \<or> j = ?i"
      and "\<forall>j. idx_free s' j \<longleftrightarrow> idx_free ?t j \<and> j \<noteq> ?i"
      and m: "mem s' = (mem ?t)((?i, W0) := low, (?i, W1) := high, (?i, W2) := 1, (?i, W3) := 0)"
      and wf': "pool_wf s'" and q'': "intf s' = []" and "length (free_map s') = length (free_map ?t)"
      using os q' init' mw' ff grown slots' refl by (rule take_and_init [where low = low and high = high])
    have none: "\<not> idx_free s j" for j
      using full by (auto simp: idx_free_def less_mult_imp_div_less)
    have "fsync_alloc_shm os junk low high s = Some (?i, s')"
      using init scan os s' ff alloc_from_word_take [of ?t ?w]
      by (simp add: fsync_alloc_shm_def os_good_def first_free_def flip: grow_map_def)
    moreover have "\<not> idx_live s ?i"
      using free none [of ?i] unfolding idx_live_def idx_free_grow by linarith
    moreover have "\<forall>j. idx_live s' j \<longleftrightarrow> idx_live s j \<or> j = ?i" using lv by simp
    moreover have "mem s' = (mem s)((?i, W0) := low, (?i, W1) := high, (?i, W2) := 1, (?i, W3) := 0)"
      using m by simp
    moreover have "\<forall>j. idx_free s j \<longrightarrow> ?i \<le> j" and "idx_free s ?i \<or> (\<forall>j. \<not> idx_free s j)"
      using none by simp_all
    ultimately show ?thesis using pos wf' q'' by (intro that)
  next
    fix w
    assume ff: "first_free s w"
      and scan: "scan_words junk (search_hint s) s = (w * 64 + ctzll (free_map s ! w), take_lowest w s)"
    let ?i = "w * 64 + ctzll (free_map s ! w)"
    obtain s' where s': "init_slot os ?i low high (take_lowest w s) = Some (?i, s')"
      and pos: "0 < ?i" and free: "idx_free s ?i" and least: "\<forall>j. idx_free s j \<longrightarrow> ?i \<le> j"
      and lv: "\<forall>j. idx_live s' j \<longleftrightarrow> idx_live s j \<or> j = ?i"
      and "\<forall>j. idx_free s' j \<longleftrightarrow> idx_free s j \<and> j \<noteq> ?i"
      and m: "mem s' = (mem s)((?i, W0) := low, (?i, W1) := high, (?i, W2) := 1, (?i, W3) := 0)"
      and wf': "pool_wf s'" and q': "intf s' = []" and "length (free_map s') = length (free_map s)"
      using os q init mw ff bound sw refl by (rule take_and_init [where low = low and high = high])
    have "fsync_alloc_shm os junk low high s = Some (?i, s')"
      using init scan s' pos by (auto simp: fsync_alloc_shm_def)
    moreover have "\<not> idx_live s ?i" using free by (simp add: idx_live_def)
    moreover have "idx_free s ?i \<or> (\<forall>j. \<not> idx_free s j)" using free by (rule disjI1)
    ultimately show ?thesis using pos least lv m wf' q' by (intro that)
  qed
qed

section \<open>Release\<close>

text \<open>
  Dropping a reference to a live index: the count in the slot goes down by one, and the bit is
  set exactly when this was the last reference.
\<close>

lemma fsync_free_shm_idx_spec:
  assumes wf: "pool_wf s" and q: "intf s = []" and os: "os_good os" and live: "idx_live s idx"
  obtains s' where "fsync_free_shm_idx os idx s = Some s'"
    and "mem s' = (mem s)(shm_ref idx := mem s (shm_ref idx) - 1)"
    and "\<forall>j. idx_free s' j \<longleftrightarrow> idx_free s j \<or> mem s (shm_ref idx) = 1 \<and> j = idx"
    and "\<forall>j. idx_live s' j \<longleftrightarrow> idx_live s j \<and> \<not> (mem s (shm_ref idx) = 1 \<and> j = idx)"
    and "pool_wf s'" and "intf s' = []" and "length (free_map s') = length (free_map s)"
proof -
  let ?r = "mem s (shm_ref idx)" and ?w = "idx div 64" and ?b = "idx mod 64"
  have lt: "idx < length (free_map s) * 64" and pos: "0 < idx" and busy: "\<not> idx_free s idx"
    using live by (simp_all add: idx_live_def)
  have bound: "length (free_map s) * 64 \<le> 2 ^ 28" using wf by (simp add: pool_wf_def)
  have small: "idx < 2 ^ 28" using lt bound by linarith
  have wlt: "?w < length (free_map s)" using lt by (simp add: less_mult_imp_div_less)
  have off: "\<not> bit (free_map s ! ?w) ?b" using busy lt by (simp add: idx_free_def)
  have rpos: "0 < sint ?r" using pool_wf_slots [OF wf live] by simp
  obtain t where t: "srv_get_shm os idx s = Some (idx, s\<lparr>shm_addrs := t\<rparr>)"
    using get_shm_slot [OF os small] by metis
  define s1 where "s1 = put_mem (shm_ref idx) (?r - 1) (s\<lparr>shm_addrs := t\<rparr>)"
  have s1: "mem s1 = (mem s)(shm_ref idx := ?r - 1)" "intf s1 = []" "free_map s1 = free_map s"
    "search_hint s1 = search_hint s" "shm_size s1 = shm_size s" "is_fsync_initialized s1 = is_fsync_initialized s"
    using q by (simp_all add: s1_def put_mem_def)
  have run: "fsync_free_shm_idx os idx s =
      (if ?r - 1 \<noteq> 0 then Some s1
       else Some (s1\<lparr>free_map := (free_map s)[?w := set_bit ?b (free_map s ! ?w)],
                     search_hint := (if ?w < search_hint s then ?w else search_hint s)\<rparr>))"
    using lt pos rpos off q t s1(2,3,4)
    by (simp add: fsync_free_shm_idx_def shm_simps s1_def [symmetric] set_bit_eq_or Let_def not_le)
  show ?thesis
  proof (cases "?r = 1")
    case False
    have fr: "idx_free s1 j \<longleftrightarrow> idx_free s j" for j by (simp add: idx_free_def s1)
    have lv: "idx_live s1 j \<longleftrightarrow> idx_live s j" for j by (simp add: idx_live_def fr s1)
    have "sint ?r \<noteq> 1" using False by (simp add: sint_eq_1_iff)
    then have "0 < sint (?r - 1)" using rpos by (simp add: sint_pos_pred)
    then have "slots_wf s1" using wf by (auto simp: pool_wf_def slots_wf_def lv s1)
    then have "pool_wf s1" using wf by (simp add: pool_wf_def map_wf_def s1)
    then show ?thesis using False run fr lv s1 by (intro that [of s1]) simp_all
  next
    case True
    let ?s = "s1\<lparr>free_map := (free_map s)[?w := set_bit ?b (free_map s ! ?w)],
                   search_hint := (if ?w < search_hint s then ?w else search_hint s)\<rparr>"
    have fr: "idx_free ?s j \<longleftrightarrow> idx_free s j \<or> j = idx" for j
    proof (cases "j div 64 = ?w")
      case same: True
      then have "j = idx \<longleftrightarrow> j mod 64 = ?b" by (metis div_mult_mod_eq)
      with same wlt lt show ?thesis
        by (auto simp: idx_free_def s1 bit_set_bit_iff)
    next
      case False
      then show ?thesis by (auto simp: idx_free_def)
    qed
    have lv: "idx_live ?s j \<longleftrightarrow> idx_live s j \<and> j \<noteq> idx" for j
      using fr [of j] by (auto simp: idx_live_def)
    have "slots_wf ?s"
      using wf unfolding slots_wf_def lv by (auto simp: pool_wf_def slots_wf_def s1)
    moreover have "map_wf ?s"
      using wf wlt pos off
      by (auto simp: pool_wf_def map_wf_def nth_list_update bit_set_bit_iff intro!: gr0I)
    ultimately have "pool_wf ?s" using wf by (simp add: pool_wf_def s1)
    then show ?thesis using True run fr lv s1 by (intro that [of ?s]) simp_all
  qed
qed

section \<open>Cleanup after a killed process\<close>

definition orphan :: "i32 \<Rightarrow> fserver \<Rightarrow> nat \<Rightarrow> bool" where
  "orphan pid s k \<longleftrightarrow> idx_live s k \<and> mem s (shm_last_pid k) = pid \<and> mem s (shm_ref k) = 1"

text \<open>The state \<open>s'\<close> is \<open>s\<close> with the orphaned indices of \<open>S\<close> released.\<close>

definition cleaned :: "i32 \<Rightarrow> nat set \<Rightarrow> fserver \<Rightarrow> fserver \<Rightarrow> bool" where
  "cleaned pid S s s' \<longleftrightarrow> pool_wf s' \<and> intf s' = [] \<and> length (free_map s') = length (free_map s) \<and>
     (\<forall>k. idx_live s' k \<longleftrightarrow> idx_live s k \<and> \<not> (k \<in> S \<and> orphan pid s k)) \<and>
     (\<forall>k f. mem s' (k, f) = (if k \<in> S \<and> f = W2 \<and> orphan pid s k then 0 else mem s (k, f)))"

lemma cleaned_refl: "pool_wf s \<Longrightarrow> intf s = [] \<Longrightarrow> cleaned pid {} s s"
  by (simp add: cleaned_def)

lemma cleaned_shm_addrs: "cleaned pid S s (s'\<lparr>shm_addrs := t\<rparr>) \<longleftrightarrow> cleaned pid S s s'"
  by (simp add: cleaned_def pool_wf_def map_wf_def slots_wf_def idx_live_def idx_free_def)

lemma cleaned_orphan:
  "cleaned pid S s s' \<Longrightarrow> k \<notin> S \<Longrightarrow> orphan pid s' k \<longleftrightarrow> orphan pid s k"
  by (simp add: cleaned_def orphan_def)

lemma cleaned_skip: "cleaned pid S s s' \<Longrightarrow> \<not> orphan pid s k \<Longrightarrow> cleaned pid (insert k S) s s'"
  by (auto simp: cleaned_def)

lemma cleaned_free:
  assumes c: "cleaned pid S s s'" and "k \<notin> S" and o: "orphan pid s k" and os: "os_good os"
  obtains s'' where "fsync_free_shm_idx os k s' = Some s''" and "cleaned pid (insert k S) s s''"
proof -
  have o': "orphan pid s' k" using cleaned_orphan [OF c] assms(2) o by simp
  have wf: "pool_wf s'" and q: "intf s' = []" using c by (simp_all add: cleaned_def)
  have lv: "idx_live s' k" and one: "mem s' (shm_ref k) = 1" using o' by (simp_all add: orphan_def)
  obtain s'' where r: "fsync_free_shm_idx os k s' = Some s''"
    and "mem s'' = (mem s')(shm_ref k := mem s' (shm_ref k) - 1)"
    and "\<forall>j. idx_live s'' j \<longleftrightarrow> idx_live s' j \<and> \<not> (mem s' (shm_ref k) = 1 \<and> j = k)"
    and "pool_wf s''" and "intf s'' = []" and "length (free_map s'') = length (free_map s')"
    by (rule fsync_free_shm_idx_spec [OF wf q os lv])
  then have "cleaned pid (insert k S) s s''"
    using c o one by (auto simp: cleaned_def)
  with r show ?thesis by (rule that)
qed

lemma cleaned_idx_free:
  assumes "cleaned pid S s s'" and "k \<notin> S" and "map_wf s"
  shows "idx_free s' k \<longleftrightarrow> idx_free s k"
proof -
  have "\<not> idx_free s 0" and "\<not> idx_free s' 0"
    using assms by (auto simp: cleaned_def pool_wf_def map_wf_def idx_free_def)
  moreover have "idx_live s' k \<longleftrightarrow> idx_live s k" "length (free_map s') = length (free_map s)"
    using assms by (simp_all add: cleaned_def)
  ultimately show ?thesis
    by (cases "k = 0") (auto simp: idx_live_def, auto simp: idx_free_def)
qed

lemma cleanup_word_spec:
  assumes os: "os_good os" and c: "cleaned pid S s s'" and wf: "map_wf s"
    and js: "distinct js" "\<forall>j \<in> set js. 0 < i * 64 + j \<and> i * 64 + j \<notin> S \<and>
      i * 64 + j < length (free_map s) * 64 \<and> (bit fw j \<longleftrightarrow> idx_free s (i * 64 + j))"
  shows "\<exists>s''. cleanup_word os pid i fw (i * 64) js s' = Some s'' \<and>
    cleaned pid (S \<union> (\<lambda>j. i * 64 + j) ` set js) s s''"
  using c js
proof (induction js arbitrary: S s')
  case Nil
  then show ?case by simp
next
  case (Cons j js)
  let ?k = "i * 64 + j"
  have k: "0 < ?k" "?k \<notin> S" "?k < length (free_map s) * 64" and fw: "bit fw j \<longleftrightarrow> idx_free s ?k"
    using Cons.prems(3) by simp_all
  have q: "intf s' = []" using Cons.prems(1) by (simp add: cleaned_def)
  have same: "mem s' (shm_last_pid ?k) = mem s (shm_last_pid ?k)" "mem s' (shm_ref ?k) = mem s (shm_ref ?k)"
    using Cons.prems(1) k(2) by (simp_all add: cleaned_def)
  have rest: "\<exists>s''. cleanup_word os pid i fw (i * 64) js t = Some s'' \<and>
      cleaned pid (insert ?k S \<union> (\<lambda>j. i * 64 + j) ` set js) s s''"
    if "cleaned pid (insert ?k S) s t" for t
    using Cons.prems(2,3) by (intro Cons.IH [OF that]) auto
  show ?case
  proof (cases "orphan pid s ?k")
    case False
    have "cleanup_word os pid i fw (i * 64) (j # js) s' = cleanup_word os pid i fw (i * 64) js s'"
      using False k fw same by (auto simp: shm_simps q orphan_def idx_live_def)
    with rest [OF cleaned_skip [OF Cons.prems(1) False]] show ?thesis by simp
  next
    case True
    obtain t where "fsync_free_shm_idx os ?k s' = Some t" and t: "cleaned pid (insert ?k S) s t"
      by (rule cleaned_free [OF Cons.prems(1) k(2) True os])
    then have "cleanup_word os pid i fw (i * 64) (j # js) s' = cleanup_word os pid i fw (i * 64) js t"
      using True fw same by (auto simp: shm_simps q orphan_def idx_live_def)
    with rest [OF t] show ?thesis by simp
  qed
qed

lemma cleaned_widen:
  "cleaned pid S s s' \<Longrightarrow> S \<subseteq> S' \<Longrightarrow> \<forall>k \<in> S' - S. \<not> orphan pid s k \<Longrightarrow> cleaned pid S' s s'"
  unfolding cleaned_def by (metis Diff_iff subset_iff)

text \<open>The indices of one word of the bitmap.\<close>

definition word_block :: "nat \<Rightarrow> nat set" where
  "word_block i = {k. k div 64 = i}"

lemma word_block_image:
  "word_block i = (\<lambda>j. i * 64 + j) ` set [if i = 0 then 1 else 0..<64] \<union> (if i = 0 then {0} else {})"
proof -
  have "k \<in> (\<lambda>j. i * 64 + j) ` {0..<64}" if "k div 64 = i" for k
    using that by (intro image_eqI [of _ _ "k mod 64"]) auto
  moreover have "k \<in> {Suc 0..<64}" if "k div 64 = 0" "k \<noteq> 0" for k :: nat
    using that by (simp add: div_eq_0_iff)
  ultimately show ?thesis
    by (auto simp: word_block_def)
qed

lemma cleanup_words_spec:
  assumes os: "os_good os" and c: "cleaned pid S s s'" and wf: "map_wf s"
    and bound: "length (free_map s) * 64 \<le> 2 ^ 28"
    and "distinct is" "\<forall>i \<in> set is. i < length (free_map s) \<and> word_block i \<inter> S = {}"
  shows "\<exists>s''. cleanup_words os pid is s' = Some s'' \<and>
    cleaned pid (S \<union> (\<Union>i \<in> set is. word_block i)) s s''"
  using c assms(5,6)
proof (induction "is" arbitrary: S s')
  case Nil
  then show ?case by simp
next
  case (Cons i "is")
  have i: "i < length (free_map s)" and S: "word_block i \<inter> S = {}" using Cons.prems(3) by simp_all
  have same: "idx_free s' k \<longleftrightarrow> idx_free s k" if "k div 64 = i" for k
    using that S by (intro cleaned_idx_free [OF Cons.prems(1) _ wf]) (auto simp: word_block_def)
  have len: "length (free_map s') = length (free_map s)" using Cons.prems(1) by (simp add: cleaned_def)
  have bit: "bit (free_map s' ! i) j \<longleftrightarrow> idx_free s (i * 64 + j)" if "j < 64" for j
    using same [of "i * 64 + j"] that i len by (simp add: idx_free_def idx_split)
  have zero: "\<not> orphan pid s 0" by (simp add: orphan_def idx_live_def)
  have rest: "\<exists>s''. cleanup_words os pid is t = Some s'' \<and>
      cleaned pid (S \<union> (\<Union>i \<in> set (i # is). word_block i)) s s''"
    if "cleaned pid (S \<union> word_block i) s t" for t
  proof -
    have "\<forall>i' \<in> set is. i' < length (free_map s) \<and> word_block i' \<inter> (S \<union> word_block i) = {}"
      using Cons.prems(2,3) by (auto simp: word_block_def)
    with Cons.IH [OF that] Cons.prems(2) show ?thesis by (simp add: Un_assoc)
  qed
  show ?case
  proof (cases "free_map s' ! i = - 1")
    case True
    then have "\<forall>k \<in> word_block i. \<not> orphan pid s k"
      using bit by (auto simp: orphan_def idx_live_def word_block_def bit_minus_1_iff)
        (metis div_mult_mod_eq mod_less_divisor zero_less_numeral)
    then have "cleaned pid (S \<union> word_block i) s s'"
      by (intro cleaned_widen [OF Cons.prems(1)]) auto
    with rest True show ?thesis by simp
  next
    case False
    let ?js = "[if i = 0 then 1 else 0..<64]"
    have "i * 64 < 2 ^ 28" using i bound by linarith
    then obtain t where t: "srv_get_shm os (i * 64) s' = Some (i * 64, s'\<lparr>shm_addrs := t\<rparr>)"
      using get_shm_slot [OF os] by metis
    have c': "cleaned pid S s (s'\<lparr>shm_addrs := t\<rparr>)" using Cons.prems(1) by (simp add: cleaned_shm_addrs)
    have js: "\<forall>j \<in> set ?js. 0 < i * 64 + j \<and> i * 64 + j \<notin> S \<and>
        i * 64 + j < length (free_map s) * 64 \<and> (bit (free_map s' ! i) j \<longleftrightarrow> idx_free s (i * 64 + j))"
      using S i bit by (auto simp: word_block_def idx_split disjoint_iff)
    obtain t' where t': "cleanup_word os pid i (free_map s' ! i) (i * 64) ?js (s'\<lparr>shm_addrs := t\<rparr>) = Some t'"
      and c'': "cleaned pid (S \<union> (\<lambda>j. i * 64 + j) ` set ?js) s t'"
      using cleanup_word_spec [OF os c' wf _ js] by auto
    have "cleaned pid (S \<union> word_block i) s t'"
      using zero by (intro cleaned_widen [OF c'']) (auto simp: word_block_image [of i] split: if_splits)
    with rest t t' False show ?thesis by (simp add: Let_def)
  qed
qed

section \<open>The initial state\<close>

lemma map_wf_init: "map_wf (fsync_init m)"
  by (simp add: map_wf_def fsync_init_def)

lemma bit_minus_2_u64: "bit (- 2 :: u64) n \<longleftrightarrow> 0 < n \<and> n < 64"
proof -
  have "(- 2 :: u64) = NOT 1" by simp
  then show ?thesis by (simp only: bit_simps) (auto simp: bit_1_iff)
qed

lemma idx_live_init [simp]: "\<not> idx_live (fsync_init m) i"
proof -
  have "i div 64 = 0 \<Longrightarrow> i mod 64 = i" for i :: nat by (simp add: div_eq_0_iff)
  then show ?thesis
    by (cases "i div 64 = 0")
      (auto simp: idx_live_def idx_free_def fsync_init_def less_mult_imp_div_less bit_minus_2_u64
        bit_minus_1_iff)
qed

lemma pool_wf_init: "pool_wf (fsync_init m)"
  by (simp add: pool_wf_def map_wf_init slots_wf_def) (simp add: fsync_init_def)

lemma fsync_init_quiet [simp]:
  "intf (fsync_init m) = []" "length (free_map (fsync_init m)) = 256" "search_hint (fsync_init m) = 0"
  by (simp_all add: fsync_init_def)

definition os_all_ok :: os_env where
  "os_all_ok = \<lparr>mmap_ok = \<lambda>_. True, realloc_ok = \<lambda>_. True\<rparr>"

lemma os_good_all_ok [simp]: "os_good os_all_ok"
  by (simp add: os_good_def os_all_ok_def)

section \<open>The bitmap allocator is an index pool\<close>

definition pool_inv :: "fserver \<Rightarrow> bool" where
  "pool_inv s \<longleftrightarrow> pool_wf s \<and> intf s = []"

text \<open>
  The state from which the search loop runs at least once, and the index space that one more
  growth of the bitmap does not overflow.
\<close>

definition pool_ready :: "fserver \<Rightarrow> bool" where
  "pool_ready s \<longleftrightarrow> search_hint s < length (free_map s) \<and> (length (free_map s) + 256) * 64 \<le> 2 ^ 28"

lemma fsync_alloc_pool:
  assumes "pool_inv s" and "pool_ready s" and "os_good os"
  obtains idx s' where "fsync_alloc_shm os junk low high s = Some (idx, s')"
    and "\<not> idx_live s idx" and "{i. idx_live s' i} = insert idx {i. idx_live s i}"
    and "mem s' (shm_ref idx) = 1" and "pool_inv s'"
proof -
  have h: "search_hint s < length (free_map s) \<or> junk = 0"
    and room: "(length (free_map s) + 256) * 64 \<le> 2 ^ 28" and wf: "pool_wf s" and q: "intf s = []"
    using assms by (simp_all add: pool_ready_def pool_inv_def)
  show ?thesis
    by (rule fsync_alloc_shm_spec [OF wf q assms(3) h room, of low high])
      (rule that, auto simp: pool_inv_def)
qed

interpretation fpool: index_pool
  "fsync_alloc_shm os_all_ok junk low high" "fsync_free_shm_idx os_all_ok" "\<lambda>s. {i. idx_live s i}"
  pool_inv pool_ready "\<lambda>i s. mem s (shm_ref i) = 1"
  for junk low high
proof (unfold_locales, goal_cases)
  case (1 s)
  then show ?case by (metis fsync_alloc_pool option.distinct(1) os_good_all_ok)
next
  case (2 s i s')
  then show ?case by (metis fsync_alloc_pool mem_Collect_eq old.prod.inject option.inject os_good_all_ok)
next
  case (3 s i s')
  then show ?case by (metis fsync_alloc_pool old.prod.inject option.inject os_good_all_ok)
next
  case (4 s i s')
  then show ?case by (metis fsync_alloc_pool old.prod.inject option.inject os_good_all_ok)
next
  case (5 s i s')
  then show ?case by (metis fsync_alloc_pool old.prod.inject option.inject os_good_all_ok)
next
  case (6 s i)
  then show ?case
    by (metis fsync_free_shm_idx_spec mem_Collect_eq option.distinct(1) os_good_all_ok pool_inv_def)
next
  case (7 s i s')
  then obtain s'' where "fsync_free_shm_idx os_all_ok i s = Some s''"
    and "\<forall>j. idx_live s'' j \<longleftrightarrow> idx_live s j \<and> \<not> (mem s (shm_ref i) = 1 \<and> j = i)"
    using fsync_free_shm_idx_spec [of s os_all_ok i] by (auto simp: pool_inv_def)
  with 7 show ?case by auto
next
  case (8 s i s')
  then obtain s'' where "fsync_free_shm_idx os_all_ok i s = Some s''" and "pool_inv s''"
    using fsync_free_shm_idx_spec [of s os_all_ok i] by (auto simp: pool_inv_def)
  with 8 show ?case by simp
qed

section \<open>The server and its clients over time\<close>

text \<open>
  The steps that change the allocator: the server allocates an index, serves a release request
  for any index a client names, cleans up after a killed process; and the clients change the
  shared memory, of which the only thing asked is that they take and drop references of live
  slots only and leave the last reference to the server (\<open>put_object\<close> of the client does).
\<close>

inductive fsrv_step :: "fserver \<Rightarrow> fserver \<Rightarrow> bool" where
  alloc: "pool_ready s \<Longrightarrow> fsync_alloc_shm os_all_ok junk low high s = Some (i, s') \<Longrightarrow> fsrv_step s s'"
| free: "req_fsync_free_shm_idx os_all_ok idx s = Some (st, s') \<Longrightarrow> fsrv_step s s'"
| cleanup: "fsync_cleanup_process_shm_indices os_all_ok pid s = Some s' \<Longrightarrow> fsrv_step s s'"
| client: "\<forall>i. idx_live s i \<longrightarrow> 0 < sint (m (shm_ref i)) \<Longrightarrow>
    \<forall>i. \<not> idx_live s i \<longrightarrow> m (shm_ref i) = mem s (shm_ref i) \<Longrightarrow> fsrv_step s (s\<lparr>mem := m\<rparr>)"

inductive fsrv_reachable :: "fserver \<Rightarrow> bool" where
  init: "fsrv_reachable (fsync_init (\<lambda>_. 0))"
| step: "fsrv_reachable s \<Longrightarrow> fsrv_step s s' \<Longrightarrow> fsrv_reachable s'"

definition fsrv_inv :: "fserver \<Rightarrow> bool" where
  "fsrv_inv s \<longleftrightarrow> pool_inv s \<and> (\<forall>i. \<not> idx_live s i \<longrightarrow> sint (mem s (shm_ref i)) \<le> 0)"

lemma fsrv_inv_init: "fsrv_inv (fsync_init (\<lambda>_. 0))"
  by (simp add: fsrv_inv_def pool_inv_def pool_wf_init) (simp add: fsync_init_def)

lemma idx_map_update [simp]:
  "idx_live (s\<lparr>mem := m\<rparr>) i \<longleftrightarrow> idx_live s i" "idx_live (s\<lparr>shm_addrs := t\<rparr>) i \<longleftrightarrow> idx_live s i"
  by (simp_all add: idx_live_def idx_free_def)

lemma fsrv_inv_alloc:
  assumes "fsrv_inv s" and "pool_ready s" and "fsync_alloc_shm os_all_ok junk low high s = Some (i, s')"
  shows "fsrv_inv s'"
proof -
  have h: "search_hint s < length (free_map s) \<or> junk = 0"
    and room: "(length (free_map s) + 256) * 64 \<le> 2 ^ 28" and wf: "pool_wf s" and q: "intf s = []"
    using assms by (simp_all add: pool_ready_def pool_inv_def fsrv_inv_def)
  show ?thesis
    by (rule fsync_alloc_shm_spec [OF wf q os_good_all_ok h room, of low high])
      (use assms in \<open>auto simp: fsrv_inv_def pool_inv_def\<close>)
qed

lemma fsync_free_idle:
  assumes inv: "fsrv_inv s" and idx: "0 < idx" "idx < length (free_map s) * 64" and "\<not> idx_live s idx"
  obtains t where "fsync_free_shm_idx os_all_ok idx s = Some (s\<lparr>shm_addrs := t\<rparr>)"
proof -
  have "idx < 2 ^ 28" using inv idx by (auto simp: fsrv_inv_def pool_inv_def pool_wf_def)
  then obtain t where "srv_get_shm os_all_ok idx s = Some (idx, s\<lparr>shm_addrs := t\<rparr>)"
    using get_shm_slot [OF os_good_all_ok] by metis
  then have "fsync_free_shm_idx os_all_ok idx s = Some (s\<lparr>shm_addrs := t\<rparr>)"
    using inv assms(4) idx by (simp add: fsync_free_shm_idx_def fsrv_inv_def pool_inv_def shm_simps)
  then show ?thesis by (rule that)
qed

lemma fsrv_inv_shm_addrs: "fsrv_inv (s\<lparr>shm_addrs := t\<rparr>) \<longleftrightarrow> fsrv_inv s"
  by (simp add: fsrv_inv_def pool_inv_def pool_wf_def map_wf_def slots_wf_def)

lemma fsrv_inv_free_req:
  assumes inv: "fsrv_inv s"
  obtains st s' where "req_fsync_free_shm_idx os_all_ok idx s = Some (st, s')" and "fsrv_inv s'"
proof (cases "idx = 0 \<or> length (free_map s) * 64 \<le> idx")
  case True
  then show ?thesis using inv that by (simp add: req_fsync_free_shm_idx_def)
next
  case False
  show ?thesis
  proof (cases "idx_live s idx")
    case True
    obtain s' where s': "fsync_free_shm_idx os_all_ok idx s = Some s'"
      and m: "mem s' = (mem s)(shm_ref idx := mem s (shm_ref idx) - 1)"
      and lv: "\<forall>j. idx_live s' j \<longleftrightarrow> idx_live s j \<and> \<not> (mem s (shm_ref idx) = 1 \<and> j = idx)"
      and wf: "pool_wf s'" and q: "intf s' = []"
      using fsync_free_shm_idx_spec [OF _ _ os_good_all_ok True] inv
      by (metis fsrv_inv_def pool_inv_def)
    have "fsrv_inv s'"
      using inv wf q True lv unfolding fsrv_inv_def pool_inv_def by (auto simp: m)
    with that False s' show ?thesis by (auto simp: req_fsync_free_shm_idx_def)
  next
    case idle: False
    obtain t where "fsync_free_shm_idx os_all_ok idx s = Some (s\<lparr>shm_addrs := t\<rparr>)"
      using fsync_free_idle [OF inv _ _ idle] False by auto
    with that False inv show ?thesis by (auto simp: req_fsync_free_shm_idx_def fsrv_inv_shm_addrs)
  qed
qed

lemma cleanup_total:
  assumes "pool_inv s" and "os_good os"
  obtains s' where "fsync_cleanup_process_shm_indices os pid s = Some s'"
    and "cleaned pid {0..<length (free_map s) * 64} s s'"
proof -
  have wf: "pool_wf s" and "intf s = []" and mw: "map_wf s"
    and bound: "length (free_map s) * 64 \<le> 2 ^ 28"
    using assms by (simp_all add: pool_inv_def pool_wf_def)
  obtain s' where s': "fsync_cleanup_process_shm_indices os pid s = Some s'"
    and "cleaned pid (\<Union>i \<in> {0..<length (free_map s)}. word_block i) s s'"
    using cleanup_words_spec [OF assms(2) cleaned_refl [OF wf \<open>intf s = []\<close>] mw bound,
        of "[0..<length (free_map s)]"]
    by (auto simp: fsync_cleanup_process_shm_indices_def)
  moreover have "(\<Union>i \<in> {0..<n}. word_block i) = {0..<n * 64}" for n
    by (auto simp: word_block_def less_mult_imp_div_less)
  ultimately show ?thesis using that by simp
qed

lemma fsrv_inv_cleanup:
  assumes inv: "fsrv_inv s" and "fsync_cleanup_process_shm_indices os_all_ok pid s = Some s'"
  shows "fsrv_inv s'"
proof -
  have "cleaned pid {0..<length (free_map s) * 64} s s'"
    using assms cleanup_total [OF _ os_good_all_ok, of s pid] by (auto simp: fsrv_inv_def)
  then show ?thesis using inv by (auto simp: cleaned_def fsrv_inv_def pool_inv_def)
qed

lemma fsrv_step_inv: "fsrv_step s s' \<Longrightarrow> fsrv_inv s \<Longrightarrow> fsrv_inv s'"
proof (induction rule: fsrv_step.induct)
  case (alloc s junk low high i s')
  then show ?case using fsrv_inv_alloc by blast
next
  case (free idx s st s')
  then show ?case by (metis fsrv_inv_free_req old.prod.inject option.inject)
next
  case (cleanup pid s s')
  then show ?case using fsrv_inv_cleanup by blast
next
  case (client s m)
  then show ?case
    by (auto simp: fsrv_inv_def pool_inv_def pool_wf_def map_wf_def slots_wf_def)
qed

lemma fsrv_reachable_inv: "fsrv_reachable s \<Longrightarrow> fsrv_inv s"
  by (induction rule: fsrv_reachable.induct) (auto intro: fsrv_inv_init fsrv_step_inv)

section \<open>Exhausting the bitmap\<close>

lemma sole_free_word_empty:
  assumes "idx_free s i" and "\<forall>j. idx_free s j \<longrightarrow> j = i" and "first_free s w"
  shows "i = w * 64 + ctzll (free_map s ! w)" and "i div 64 = w"
    and "search_hint (take_lowest w s) = w + 1"
proof -
  show i: "i = w * 64 + ctzll (free_map s ! w)"
    using first_free_idx_free [OF assms(3)] assms(2) by simp
  have w: "w < length (free_map s)" "free_map s ! w \<noteq> 0" using assms(3) by (simp_all add: first_free_def)
  then show "i div 64 = w" using i by (simp add: ctzll_less)
  have "j = ctzll (free_map s ! w)" if "j < 64" "bit (free_map s ! w) j" for j
  proof -
    have "idx_free s (w * 64 + j)" using that w by (simp add: idx_free_def idx_split)
    then have "w * 64 + j = i" using assms(2) by blast
    then show ?thesis using i by simp
  qed
  then have "\<not> (\<exists>j < 64. bit (unset_bit (ctzll (free_map s ! w)) (free_map s ! w)) j)"
    by (auto simp: bit_unset_bit_iff)
  then have "unset_bit (ctzll (free_map s ! w)) (free_map s ! w) = 0"
    using word_nonzero_bit by blast
  then show "search_hint (take_lowest w s) = w + 1" by (simp add: take_lowest_def)
qed

text \<open>Allocating the last free index, in the last word, leaves the hint at the end of the bitmap.\<close>

lemma alloc_sole_free:
  assumes inv: "pool_inv s" and os: "os_good os" and i: "idx_free s i"
    and sole: "\<forall>j. idx_free s j \<longrightarrow> j = i" and last: "i div 64 = length (free_map s) - 1"
  obtains s1 where "fsync_alloc_shm os 0 low high s = Some (i, s1)"
    and "\<forall>j. idx_live s1 j \<longleftrightarrow> idx_live s j \<or> j = i" and "pool_inv s1"
    and "search_hint s1 = length (free_map s1)" and "length (free_map s1) = length (free_map s)"
proof -
  have wf: "pool_wf s" and q: "intf s = []" and mw: "map_wf s" and init: "is_fsync_initialized s"
    and sw: "slots_wf s" and bound: "length (free_map s) * 64 \<le> 2 ^ 28"
    using inv by (simp_all add: pool_inv_def pool_wf_def)
  have before: "\<forall>v < search_hint s. v < length (free_map s) \<longrightarrow> free_map s ! v = 0"
    using mw by (simp add: map_wf_def)
  have "i div 64 < length (free_map s)" and "free_map s ! (i div 64) \<noteq> 0"
    using i by (auto simp: idx_free_def less_mult_imp_div_less)
  then have "\<not> (\<forall>v < length (free_map s). free_map s ! v = 0)" by blast
  then obtain w where ff: "first_free s w"
    and scan: "scan_words 0 (search_hint s) s = (w * 64 + ctzll (free_map s ! w), take_lowest w s)"
    using scan_words_spec [OF mw before, of 0] by blast
  note eq = sole_free_word_empty [OF i sole ff]
  have lt: "w + 1 = length (free_map s)" using last eq(2) ff unfolding first_free_def by arith
  obtain s1 where s1: "init_slot os i low high (take_lowest w s) = Some (i, s1)"
    and pos: "0 < i" and "idx_free s i" and "\<forall>j. idx_free s j \<longrightarrow> i \<le> j"
    and lv: "\<forall>j. idx_live s1 j \<longleftrightarrow> idx_live s j \<or> j = i"
    and "\<forall>j. idx_free s1 j \<longleftrightarrow> idx_free s j \<and> j \<noteq> i"
    and "mem s1 = (mem s)((i, W0) := low, (i, W1) := high, (i, W2) := 1, (i, W3) := 0)"
    and wf1: "pool_wf s1" and q1: "intf s1 = []" and len: "length (free_map s1) = length (free_map s)"
    using os q init mw ff bound sw eq(1) by (rule take_and_init [where low = low and high = high])
  have "i < 2 ^ 28" using i bound by (simp add: idx_free_def)
  moreover have "intf (take_lowest w s) = []" using q by (simp add: take_lowest_def)
  ultimately have "search_hint s1 = search_hint (take_lowest w s)"
    using init_slot_spec [OF os, of i "take_lowest w s" low high] s1 by auto
  then have hint: "search_hint s1 = length (free_map s1)" using eq(3) lt len by simp
  have "fsync_alloc_shm os 0 low high s = Some (i, s1)"
    using init scan s1 pos eq(1) by (auto simp: fsync_alloc_shm_def)
  then show ?thesis using that lv wf1 q1 hint len by (simp add: pool_inv_def)
qed

lemma alloc_at_end_returns_junk:
  assumes "pool_inv s" and "os_good os" and "search_hint s = length (free_map s)" and "idx_live s junk"
  obtains s' where "fsync_alloc_shm os junk low high s = Some (junk, s')"
    and "mem s' = (mem s)((junk, W0) := low, (junk, W1) := high, (junk, W2) := 1, (junk, W3) := 0)"
proof -
  have "junk < 2 ^ 28" and pos: "0 < junk" and q: "intf s = []" and init: "is_fsync_initialized s"
    using assms(1,4) by (auto simp: idx_live_def pool_inv_def pool_wf_def)
  then obtain s' where "init_slot os junk low high s = Some (junk, s')"
    and m: "mem s' = (mem s)((junk, W0) := low, (junk, W1) := high, (junk, W2) := 1, (junk, W3) := 0)"
    using init_slot_spec [OF assms(2) _ q] by metis
  then have "fsync_alloc_shm os junk low high s = Some (junk, s')"
    using assms(3) pos init by (simp add: fsync_alloc_shm_def scan_words.simps)
  then show ?thesis using m by (rule that)
qed

section \<open>Properties\<close>



text \<open>C25: When the last free index lies in the last word of the bitmap, the allocation that takes it
  leaves the search hint at the end of the bitmap; the next allocation never enters its search
  loop, reads its uninitialized variable, and if that holds an index in use returns this index a
  second time, overwriting the slot of the object that owns it.\<close>
theorem alloc_after_last_index_reuses_junk:
  assumes "pool_inv s" and "os_good os" and "idx_free s i" and "\<forall>j. idx_free s j \<longrightarrow> j = i"
    and "i div 64 = length (free_map s) - 1" and "idx_live s junk"
  shows "\<exists>s1 s2. fsync_alloc_shm os 0 low high s = Some (i, s1) \<and> idx_live s1 junk \<and>
    fsync_alloc_shm os junk low' high' s1 = Some (junk, s2) \<and>
    mem s2 (junk, W0) = low' \<and> mem s2 (junk, W1) = high'"
proof -
  obtain s1 where s1: "fsync_alloc_shm os 0 low high s = Some (i, s1)"
    and lv: "\<forall>j. idx_live s1 j \<longleftrightarrow> idx_live s j \<or> j = i" and inv: "pool_inv s1"
    and hint: "search_hint s1 = length (free_map s1)" and "length (free_map s1) = length (free_map s)"
    by (rule alloc_sole_free [OF assms(1-5)])
  have "idx_live s1 junk" using lv assms(6) by simp
  moreover from alloc_at_end_returns_junk [OF inv assms(2) hint this]
  obtain s2 where "fsync_alloc_shm os junk low' high' s1 = Some (junk, s2)"
    and "mem s2 = (mem s1)((junk, W0) := low', (junk, W1) := high', (junk, W2) := 1, (junk, W3) := 0)" .
  ultimately show ?thesis using s1 by auto
qed

definition almost_full :: fserver where
  "almost_full = \<lparr>mem = (\<lambda>_. 1), intf = [], acts = [], is_fsync_initialized = True,
     shm_size = FSYNC_SHM_PAGE_SIZE, shm_addrs = replicate 128 False,
     free_map = [push_bit 63 1], search_hint = 0\<rparr>"

lemma top_bit: "bit (push_bit 63 1 :: u64) n \<longleftrightarrow> n = 63"
  by (simp only: bit_push_bit_iff bit_1_iff) auto

lemma almost_full_free: "idx_free almost_full j \<longleftrightarrow> j = 63"
proof (cases "j < 64")
  case True
  then have "j div 64 = 0" and "j mod 64 = j" by simp_all
  then have "idx_free almost_full j \<longleftrightarrow> bit (push_bit 63 1 :: u64) j"
    using True by (simp only: idx_free_def almost_full_def fserver.simps list.size nth_Cons_0) simp
  then show ?thesis by (simp only: top_bit)
next
  case False
  then show ?thesis by (simp add: idx_free_def almost_full_def)
qed

lemma almost_full_inv: "pool_inv almost_full"
  using almost_full_free [of 0]
  by (auto simp: pool_inv_def pool_wf_def map_wf_def slots_wf_def idx_live_def almost_full_free)
    (auto simp: idx_free_def almost_full_def)

theorem alloc_after_last_index_reuses_junk_witness:
  "\<exists>s1 s2. fsync_alloc_shm os_all_ok 0 1 2 almost_full = Some (63, s1) \<and> idx_live s1 5 \<and>
    fsync_alloc_shm os_all_ok 5 3 4 s1 = Some (5, s2) \<and> mem s2 (5, W0) = 3 \<and> mem s2 (5, W1) = 4"
  by (rule alloc_after_last_index_reuses_junk)
    (simp_all add: almost_full_inv almost_full_free idx_live_def, simp_all add: almost_full_def)

text \<open>Releasing a live index takes one reference off its slot and touches nothing else in memory;
  the index becomes free exactly when this was the last reference, and the other live indices stay
  live.\<close>
theorem free_drops_one_reference:
  assumes "pool_inv s" and "os_good os" and "idx_live s idx"
  shows "\<exists>s'. fsync_free_shm_idx os idx s = Some s' \<and>
    mem s' = (mem s)(shm_ref idx := mem s (shm_ref idx) - 1) \<and>
    {j. idx_live s' j} = {j. idx_live s j} - (if mem s (shm_ref idx) = 1 then {idx} else {}) \<and>
    (idx_free s' idx \<longleftrightarrow> mem s (shm_ref idx) = 1) \<and> pool_inv s'"
proof -
  have wf: "pool_wf s" and q: "intf s = []" using assms(1) by (simp_all add: pool_inv_def)
  show ?thesis
    by (rule fsync_free_shm_idx_spec [OF wf q assms(2,3)])
      (use assms(3) in \<open>auto simp: pool_inv_def idx_live_def\<close>)
qed

theorem free_drops_one_reference_witness:
  "\<exists>s'. fsync_free_shm_idx os_all_ok 5 almost_full = Some s' \<and> idx_free s' 5 \<and> pool_inv s'"
proof -
  have "idx_live almost_full 5" and "mem almost_full (shm_ref 5) = 1"
    by (simp_all add: idx_live_def almost_full_free) (simp_all add: almost_full_def)
  then show ?thesis
    using free_drops_one_reference [OF almost_full_inv os_good_all_ok, of 5] by auto
qed

text \<open>The cleanup after a killed process releases exactly the live indices that the process used
  last and that have one reference left; every other live index and all other memory stay as they
  were.\<close>
theorem cleanup_releases_exactly_orphans:
  assumes "pool_inv s" and "os_good os"
  shows "\<exists>s'. fsync_cleanup_process_shm_indices os pid s = Some s' \<and>
    (\<forall>k. idx_live s' k \<longleftrightarrow>
       idx_live s k \<and> \<not> (mem s (shm_last_pid k) = pid \<and> mem s (shm_ref k) = 1)) \<and>
    (\<forall>k f. mem s' (k, f) = (if f = W2 \<and> orphan pid s k then 0 else mem s (k, f))) \<and> pool_inv s'"
proof -
  obtain s' where s': "fsync_cleanup_process_shm_indices os pid s = Some s'"
    and c: "cleaned pid {0..<length (free_map s) * 64} s s'"
    by (rule cleanup_total [OF assms])
  have "k \<in> {0..<length (free_map s) * 64}" if "orphan pid s k" for k
    using that by (simp add: orphan_def idx_live_def)
  then show ?thesis using s' c by (intro exI [of _ s']) (auto simp: cleaned_def orphan_def pool_inv_def)
qed

theorem cleanup_releases_exactly_orphans_witness:
  "\<exists>s'. fsync_cleanup_process_shm_indices os_all_ok 1 almost_full = Some s' \<and> \<not> idx_live s' 5"
proof -
  have "mem almost_full (shm_last_pid 5) = 1 \<and> mem almost_full (shm_ref 5) = 1"
    by (simp add: almost_full_def)
  then show ?thesis
    using cleanup_releases_exactly_orphans [OF almost_full_inv os_good_all_ok, of 1] by blast
qed



end
