(* ===== verification/Fsync_Server.thy ===== *)
theory Fsync_Server
  imports Shm_Index
begin

text \<open>
  server/fsync.c: the synchronization objects the server keeps on top of the index allocator.
  \<open>struct fsync\<close> is \<open>fsync_obj\<close>; the objects live in a table by object number, and the mutexes
  also in the list \<open>mutex_list\<close> that is walked when a thread dies.

  The object and handle functions the code calls (\<open>create_named_object\<close>, \<open>open_object\<close>,
  \<open>get_handle_obj\<close>, \<open>alloc_handle\<close>) are not part of this repository: what they return is an
  argument of the handlers, and the \<open>release_object\<close> calls are listed in the handler's result in
  the order the code makes them. The object manager calls \<open>fsync_destroy\<close> when the last reference
  of an object goes.
\<close>

section \<open>Object types\<close>

datatype fsync_type = FSYNC_SEMAPHORE | FSYNC_AUTO_EVENT | FSYNC_MANUAL_EVENT | FSYNC_MUTEX
  | FSYNC_AUTO_SERVER | FSYNC_MANUAL_SERVER | FSYNC_QUEUE

text \<open>The numbers of the enumeration, which travel in requests and in the clients' caches.\<close>

fun fsync_type_code :: "fsync_type \<Rightarrow> nat" where
  "fsync_type_code FSYNC_SEMAPHORE = 1"
| "fsync_type_code FSYNC_AUTO_EVENT = 2"
| "fsync_type_code FSYNC_MANUAL_EVENT = 3"
| "fsync_type_code FSYNC_MUTEX = 4"
| "fsync_type_code FSYNC_AUTO_SERVER = 5"
| "fsync_type_code FSYNC_MANUAL_SERVER = 6"
| "fsync_type_code FSYNC_QUEUE = 7"

lemma fsync_type_code_inj: "fsync_type_code a = fsync_type_code b \<Longrightarrow> a = b"
  by (cases a; cases b) simp_all

instantiation fsync_type :: linorder
begin

definition less_eq_fsync_type :: "fsync_type \<Rightarrow> fsync_type \<Rightarrow> bool" where
  "less_eq_fsync_type a b \<longleftrightarrow> fsync_type_code a \<le> fsync_type_code b"

definition less_fsync_type :: "fsync_type \<Rightarrow> fsync_type \<Rightarrow> bool" where
  "less_fsync_type a b \<longleftrightarrow> fsync_type_code a < fsync_type_code b"

instance
  by standard (auto simp: less_eq_fsync_type_def less_fsync_type_def intro: fsync_type_code_inj)

end

record fsync_obj =
  fo_shm_idx :: nat
  fo_type :: fsync_type

record fsrv =
  sv :: fserver
  fobjs :: "nat \<rightharpoonup> fsync_obj"
  mutex_list :: "nat list"

abbreviation (input) set_sv :: "fsrv \<Rightarrow> fserver \<Rightarrow> fsrv" where
  "set_sv st s \<equiv> st\<lparr>sv := s\<rparr>"

section \<open>Operations of the object\<close>

definition type_matches :: "fsync_type \<Rightarrow> fsync_type \<Rightarrow> bool" where
  "type_matches type1 type2 \<longleftrightarrow> type1 = type2 \<or>
     (type1 = FSYNC_AUTO_EVENT \<or> type1 = FSYNC_MANUAL_EVENT) \<and>
     (type2 = FSYNC_AUTO_EVENT \<or> type2 = FSYNC_MANUAL_EVENT)"

abbreviation (input) GENERIC_READ :: u32 where "GENERIC_READ \<equiv> 0x80000000"
abbreviation (input) GENERIC_WRITE :: u32 where "GENERIC_WRITE \<equiv> 0x40000000"
abbreviation (input) GENERIC_EXECUTE :: u32 where "GENERIC_EXECUTE \<equiv> 0x20000000"
abbreviation (input) GENERIC_ALL :: u32 where "GENERIC_ALL \<equiv> 0x10000000"
abbreviation (input) STANDARD_RIGHTS_READ :: u32 where "STANDARD_RIGHTS_READ \<equiv> 0x20000"
abbreviation (input) STANDARD_RIGHTS_ALL :: u32 where "STANDARD_RIGHTS_ALL \<equiv> 0x1F0000"
abbreviation (input) SYNCHRONIZE :: u32 where "SYNCHRONIZE \<equiv> 0x100000"
abbreviation (input) EVENT_QUERY_STATE :: u32 where "EVENT_QUERY_STATE \<equiv> 1"
abbreviation (input) EVENT_MODIFY_STATE :: u32 where "EVENT_MODIFY_STATE \<equiv> 2"

text \<open>The standard read, write and execute rights are the same bit.\<close>

definition fsync_map_access :: "u32 \<Rightarrow> u32" where
  "fsync_map_access access0 =
     (let access1 = (if access0 AND GENERIC_READ \<noteq> 0
                     then access0 OR STANDARD_RIGHTS_READ OR EVENT_QUERY_STATE else access0);
          access2 = (if access1 AND GENERIC_WRITE \<noteq> 0
                     then access1 OR STANDARD_RIGHTS_READ OR EVENT_MODIFY_STATE else access1);
          access3 = (if access2 AND GENERIC_EXECUTE \<noteq> 0
                     then access2 OR STANDARD_RIGHTS_READ OR SYNCHRONIZE else access2);
          access4 = (if access3 AND GENERIC_ALL \<noteq> 0
                     then access3 OR STANDARD_RIGHTS_ALL OR EVENT_QUERY_STATE OR EVENT_MODIFY_STATE
                     else access3)
      in access4 AND NOT (GENERIC_READ OR GENERIC_WRITE OR GENERIC_EXECUTE OR GENERIC_ALL))"

definition fsync_get_fsync_idx :: "fsync_obj \<Rightarrow> nat \<times> fsync_type" where
  "fsync_get_fsync_idx fs = (fo_shm_idx fs, fo_type fs)"

definition fsync_destroy :: "os_env \<Rightarrow> nat \<Rightarrow> fsync_obj \<Rightarrow> fsrv \<Rightarrow> fsrv option" where
  "fsync_destroy os oid fs st =
     (let st1 = (if fo_type fs = FSYNC_MUTEX then st\<lparr>mutex_list := remove1 oid (mutex_list st)\<rparr> else st)
      in do {
        s \<leftarrow> fsync_free_shm_idx os (fo_shm_idx fs) (sv st1);
        Some (st1\<lparr>sv := s, fobjs := (fobjs st1)(oid := None)\<rparr>)
      })"

text \<open>
  \<open>create_fsync\<close>: the argument \<open>named\<close> is what \<open>create_named_object\<close> returned: \<open>None\<close> for NULL, otherwise
  the object and whether the error is \<open>STATUS_OBJECT_NAME_EXISTS\<close>. The result is the pointer
  returned, the error set here if any, the objects released and the state.
\<close>

definition create_fsync ::
  "os_env \<Rightarrow> nat \<Rightarrow> (nat \<times> bool) option \<Rightarrow> i32 \<Rightarrow> i32 \<Rightarrow> fsync_type \<Rightarrow> fsrv \<Rightarrow>
     (nat option \<times> ntstatus option \<times> nat list \<times> fsrv) option" where
  "create_fsync os junk named low high type st =
     (case named of
        None \<Rightarrow> Some (None, None, [], st)
      | Some (oid, exists) \<Rightarrow>
          if \<not> exists then do {
            (idx, s) \<leftarrow> fsync_alloc_shm os junk low high (sv st);
            let st1 = st\<lparr>sv := s, fobjs := (fobjs st)(oid \<mapsto> \<lparr>fo_shm_idx = idx, fo_type = type\<rparr>)\<rparr>;
            Some (Some oid, None, [],
                  if type = FSYNC_MUTEX then st1\<lparr>mutex_list := mutex_list st1 @ [oid]\<rparr> else st1)
          }
          else do {
            fs \<leftarrow> fobjs st oid;
            if \<not> type_matches type (fo_type fs)
            then Some (None, Some STATUS_OBJECT_TYPE_MISMATCH, [oid], st)
            else Some (Some oid, None, [], st)
          })"

definition fsync_wake_futex :: "os_env \<Rightarrow> nat \<Rightarrow> fserver \<Rightarrow> fserver option" where
  "fsync_wake_futex os shm_idx s =
     (if shm_idx = 0 then Some s
      else do {
        (slot, s1) \<leftarrow> srv_get_shm os shm_idx s;
        let (old, s2) = at_xchg (ev_signaled slot) 1 s1;
        Some (if old = 0 then emit (Wake (ev_signaled slot)) s2 else s2)
      })"

definition fsync_clear_futex :: "os_env \<Rightarrow> nat \<Rightarrow> fserver \<Rightarrow> fserver option" where
  "fsync_clear_futex os shm_idx s =
     (if shm_idx = 0 then Some s
      else do {
        (slot, s1) \<leftarrow> srv_get_shm os shm_idx s;
        Some (at_store (ev_signaled slot) 0 s1)
      })"

text \<open>An object of the server: what its \<open>get_fsync_idx\<close> operation returns, if it has one.\<close>

type_synonym obj_idx = "(nat \<times> fsync_type) option"

definition fsync_wake_up :: "os_env \<Rightarrow> obj_idx \<Rightarrow> fserver \<Rightarrow> fserver option" where
  "fsync_wake_up os obj s = (case obj of None \<Rightarrow> Some s | Some (idx, type) \<Rightarrow> fsync_wake_futex os idx s)"

definition fsync_clear :: "os_env \<Rightarrow> obj_idx \<Rightarrow> fserver \<Rightarrow> fserver option" where
  "fsync_clear os obj s = (case obj of None \<Rightarrow> Some s | Some (idx, type) \<Rightarrow> fsync_clear_futex os idx s)"

definition fsync_set_event :: "os_env \<Rightarrow> fsync_obj \<Rightarrow> fserver \<Rightarrow> fserver option" where
  "fsync_set_event os fs s =
     do {
       (slot, s1) \<leftarrow> srv_get_shm os (fo_shm_idx fs) s;
       let (old, s2) = at_xchg (ev_signaled slot) 1 s1;
       Some (if old = 0 then emit (Wake (ev_signaled slot)) s2 else s2)
     }"

definition fsync_reset_event :: "os_env \<Rightarrow> fsync_obj \<Rightarrow> fserver \<Rightarrow> fserver option" where
  "fsync_reset_event os fs s =
     do {
       (slot, s1) \<leftarrow> srv_get_shm os (fo_shm_idx fs) s;
       Some (at_store (ev_signaled slot) 0 s1)
     }"

text \<open>The walk over the list of mutexes when the thread with id \<open>tid\<close> has died.\<close>

fun abandon_loop :: "os_env \<Rightarrow> i32 \<Rightarrow> (nat \<rightharpoonup> fsync_obj) \<Rightarrow> nat list \<Rightarrow> fserver \<Rightarrow> fserver option" where
  "abandon_loop os tid objs [] s = Some s"
| "abandon_loop os tid objs (oid # oids) s =
     do {
       fs \<leftarrow> objs oid;
       (slot, s1) \<leftarrow> srv_get_shm os (fo_shm_idx fs) s;
       let (owner, s2) = at_load (mutex_tid slot) s1;
       abandon_loop os tid objs oids
         (if owner = tid
          then emit (Wake (mutex_tid slot)) (at_store (mutex_count slot) 0 (at_store (mutex_tid slot) (- 1) s2))
          else s2)
     }"

definition fsync_abandon_mutexes :: "os_env \<Rightarrow> i32 \<Rightarrow> fsrv \<Rightarrow> fsrv option" where
  "fsync_abandon_mutexes os tid st =
     map_option (set_sv st) (abandon_loop os tid (fobjs st) (mutex_list st) (sv st))"

section \<open>Request handlers\<close>

text \<open>The reply of a request: the fields it sets, its error and the objects it released.\<close>

record fsync_reply =
  rp_handle :: handle
  rp_shm_idx :: nat
  rp_type :: "fsync_type option"
  rp_error :: "ntstatus option"
  rp_released :: "nat list"

definition empty_reply :: fsync_reply where
  "empty_reply = \<lparr>rp_handle = 0, rp_shm_idx = 0, rp_type = None, rp_error = None, rp_released = []\<rparr>"

text \<open>
  \<open>create_fsync\<close>: \<open>enabled\<close> is \<open>do_fsync()\<close>, \<open>objattr\<close> says whether the request's object attributes
  are valid, \<open>root\<close> is the root directory they name (whose reference the handler owns), and
  \<open>alloc_handle\<close> the handle allocation, told whether it checks the access.
\<close>

definition req_create_fsync ::
  "os_env \<Rightarrow> nat \<Rightarrow> bool \<Rightarrow> bool \<Rightarrow> nat option \<Rightarrow> (nat \<times> bool) option \<Rightarrow> (bool \<Rightarrow> nat \<Rightarrow> handle) \<Rightarrow>
     i32 \<Rightarrow> i32 \<Rightarrow> fsync_type \<Rightarrow> fsrv \<Rightarrow> (fsync_reply \<times> fsrv) option" where
  "req_create_fsync os junk enabled objattr root named alloc_handle low high type st =
     (if \<not> enabled then Some (empty_reply\<lparr>rp_error := Some STATUS_NOT_IMPLEMENTED\<rparr>, st)
      else if \<not> objattr then Some (empty_reply, st)
      else do {
        (obj, e, rel, st1) \<leftarrow> create_fsync os junk named low high type st;
        let root_rel = (case root of None \<Rightarrow> [] | Some r \<Rightarrow> [r]);
        case obj of
          None \<Rightarrow> Some (empty_reply\<lparr>rp_error := e, rp_released := rel @ root_rel\<rparr>, st1)
        | Some oid \<Rightarrow> do {
            fs \<leftarrow> fobjs st1 oid;
            let exists = (case named of Some (_, ex) \<Rightarrow> ex | None \<Rightarrow> False);
            Some (\<lparr>rp_handle = alloc_handle exists oid, rp_shm_idx = fo_shm_idx fs,
                   rp_type = Some (fo_type fs), rp_error = (if exists then Some STATUS_OBJECT_NAME_EXISTS else e),
                   rp_released = rel @ [oid] @ root_rel\<rparr>, st1)
          }
      })"

text \<open>
  \<open>open_fsync\<close>: \<open>opened\<close> is the handle that \<open>open_object\<close> returned (0: failed), \<open>looked_up\<close> what
  \<open>get_handle_obj\<close> returned for it.
\<close>

definition req_open_fsync :: "handle \<Rightarrow> nat option \<Rightarrow> fsync_type \<Rightarrow> fsrv \<Rightarrow> fsync_reply option" where
  "req_open_fsync opened looked_up type st =
     (if opened = 0 then Some empty_reply
      else case looked_up of
        None \<Rightarrow> Some (empty_reply\<lparr>rp_handle := opened\<rparr>)
      | Some oid \<Rightarrow> do {
          fs \<leftarrow> fobjs st oid;
          if \<not> type_matches type (fo_type fs)
          then Some (empty_reply\<lparr>rp_handle := opened, rp_error := Some STATUS_OBJECT_TYPE_MISMATCH,
                                 rp_released := [oid]\<rparr>)
          else Some \<lparr>rp_handle = opened, rp_shm_idx = fo_shm_idx fs, rp_type = Some (fo_type fs),
                     rp_error = None, rp_released = [oid]\<rparr>
        })"

text \<open>\<open>get_fsync_idx\<close>: the object of the handle with its \<open>get_fsync_idx\<close> operation; a reference is taken.\<close>

definition req_get_fsync_idx :: "os_env \<Rightarrow> (nat \<times> obj_idx) option \<Rightarrow> fserver \<Rightarrow> (fsync_reply \<times> fserver) option" where
  "req_get_fsync_idx os obj s =
     (case obj of
        None \<Rightarrow> Some (empty_reply, s)
      | Some (oid, None) \<Rightarrow>
          Some (empty_reply\<lparr>rp_error := Some STATUS_NOT_IMPLEMENTED, rp_released := [oid]\<rparr>, s)
      | Some (oid, Some (idx, type)) \<Rightarrow> do {
          (slot, s1) \<leftarrow> srv_get_shm os idx s;
          let (new, s2) = at_add (shm_ref slot) 1 s1;
          Some (empty_reply\<lparr>rp_shm_idx := idx, rp_type := Some type, rp_released := [oid]\<rparr>, s2)
        })"

definition req_get_fsync_apc_idx :: "nat \<Rightarrow> fsync_reply" where
  "req_get_fsync_apc_idx apc_idx = empty_reply\<lparr>rp_shm_idx := apc_idx\<rparr>"


section \<open>Access to a slot\<close>

text \<open>Two server states with the same allocator: the same bitmap and the same reference counts.\<close>

definition same_pool :: "fserver \<Rightarrow> fserver \<Rightarrow> bool" where
  "same_pool s s' \<longleftrightarrow> free_map s' = free_map s \<and> search_hint s' = search_hint s \<and>
     shm_size s' = shm_size s \<and> is_fsync_initialized s' = is_fsync_initialized s \<and> intf s' = intf s \<and>
     (\<forall>i. mem s' (shm_ref i) = mem s (shm_ref i))"

lemma same_pool_refl [simp]: "same_pool s s"
  by (simp add: same_pool_def)

lemma same_pool_trans: "same_pool s s' \<Longrightarrow> same_pool s' s'' \<Longrightarrow> same_pool s s''"
  by (simp add: same_pool_def)

lemma same_pool_live: "same_pool s s' \<Longrightarrow> idx_live s' i \<longleftrightarrow> idx_live s i"
  by (simp add: same_pool_def idx_live_def idx_free_def)

lemma same_pool_inv [inv_intros]: "same_pool s s' \<Longrightarrow> pool_inv s \<Longrightarrow> pool_inv s'"
  by (auto simp: same_pool_def pool_inv_def pool_wf_def map_wf_def slots_wf_def idx_live_def idx_free_def)

lemma same_pool_put: "f \<noteq> W2 \<Longrightarrow> same_pool s (put_mem (i, f) v s)"
  by (simp add: same_pool_def put_mem_def)

lemma same_pool_addrs: "same_pool s (s\<lparr>shm_addrs := t\<rparr>)"
  by (simp add: same_pool_def)

lemma same_pool_emit: "same_pool s (emit a s)"
  by (simp add: same_pool_def emit_def)

lemma pool_live_small: "pool_inv s \<Longrightarrow> idx_live s i \<Longrightarrow> i < 2 ^ 28"
  by (auto simp: pool_inv_def pool_wf_def idx_live_def)

lemma pool_inv_quiet: "pool_inv s \<Longrightarrow> intf s = []"
  by (simp add: pool_inv_def)

lemma get_live_slot:
  assumes "pool_inv s" and "os_good os" and "idx_live s i"
  obtains t where "srv_get_shm os i s = Some (i, s\<lparr>shm_addrs := t\<rparr>)"
  using get_shm_slot [OF assms(2) pool_live_small [OF assms(1,3)]] by metis

text \<open>What setting and clearing an event do to the slot, as one step.\<close>

lemma set_slot_spec:
  assumes "pool_inv s" and "os_good os" and "idx_live s i"
  obtains s' where
    "do { (slot, s1) \<leftarrow> srv_get_shm os i s; let (old, s2) = at_xchg (ev_signaled slot) 1 s1;
          Some (if old = 0 then emit (Wake (ev_signaled slot)) s2 else s2) } = Some s'"
    and "mem s' = (mem s)((i, W0) := 1)" and "same_pool s s'"
    and "acts s' = acts s @ [Wr (i, W0) (mem s (i, W0)) 1] @
           (if mem s (i, W0) = 0 then [Wake (i, W0)] else [])"
proof -
  obtain t where "srv_get_shm os i s = Some (i, s\<lparr>shm_addrs := t\<rparr>)"
    by (rule get_live_slot [OF assms])
  with pool_inv_quiet [OF assms(1)] show ?thesis
    by (intro that) (auto simp: shm_simps same_pool_def put_mem_def emit_def split: if_splits)
qed

lemma clear_slot_spec:
  assumes "pool_inv s" and "os_good os" and "idx_live s i"
  obtains s' where
    "do { (slot, s1) \<leftarrow> srv_get_shm os i s; Some (at_store (ev_signaled slot) 0 s1) } = Some s'"
    and "mem s' = (mem s)((i, W0) := 0)" and "same_pool s s'"
    and "acts s' = acts s @ [Wr (i, W0) (mem s (i, W0)) 0]"
proof -
  obtain t where "srv_get_shm os i s = Some (i, s\<lparr>shm_addrs := t\<rparr>)"
    by (rule get_live_slot [OF assms])
  with pool_inv_quiet [OF assms(1)] show ?thesis
    by (intro that) (auto simp: shm_simps same_pool_def put_mem_def emit_def)
qed

lemma live_pos: "idx_live s i \<Longrightarrow> i \<noteq> 0"
  by (simp add: idx_live_def)

section \<open>The table of objects\<close>

definition objs_wf :: "fsrv \<Rightarrow> bool" where
  "objs_wf st \<longleftrightarrow> distinct (mutex_list st) \<and>
     (\<forall>oid. oid \<in> set (mutex_list st) \<longleftrightarrow> (\<exists>fs. fobjs st oid = Some fs \<and> fo_type fs = FSYNC_MUTEX)) \<and>
     (\<forall>oid fs. fobjs st oid = Some fs \<longrightarrow> idx_live (sv st) (fo_shm_idx fs)) \<and>
     (\<forall>oid fs oid' fs'. fobjs st oid = Some fs \<longrightarrow> fobjs st oid' = Some fs' \<longrightarrow>
        fo_shm_idx fs = fo_shm_idx fs' \<longrightarrow> oid = oid')"

definition objs_inv :: "fsrv \<Rightarrow> bool" where
  "objs_inv st \<longleftrightarrow> pool_inv (sv st) \<and> objs_wf st"

lemma objs_inv_live: "objs_inv st \<Longrightarrow> fobjs st oid = Some fs \<Longrightarrow> idx_live (sv st) (fo_shm_idx fs)"
  by (auto simp: objs_inv_def objs_wf_def)

lemma objs_inv_mutex:
  "objs_inv st \<Longrightarrow> oid \<in> set (mutex_list st) \<longleftrightarrow> (\<exists>fs. fobjs st oid = Some fs \<and> fo_type fs = FSYNC_MUTEX)"
  by (simp add: objs_inv_def objs_wf_def)

lemma objs_inv_same_pool [inv_intros]:
  "objs_inv st \<Longrightarrow> same_pool (sv st) s \<Longrightarrow> objs_inv (st\<lparr>sv := s\<rparr>)"
  by (auto simp: objs_inv_def objs_wf_def same_pool_live intro: same_pool_inv)

text \<open>A new object gets an index that no other object has.\<close>

lemma create_fsync_new:
  assumes inv: "objs_inv st" and "pool_ready (sv st)" and "os_good os" and new: "fobjs st oid = None"
  obtains idx st' where "create_fsync os junk (Some (oid, False)) low high type st = Some (Some oid, None, [], st')"
    and "\<not> idx_live (sv st) idx" and "objs_inv st'"
    and "fobjs st' = (fobjs st)(oid \<mapsto> \<lparr>fo_shm_idx = idx, fo_type = type\<rparr>)"
    and "mutex_list st' = mutex_list st @ (if type = FSYNC_MUTEX then [oid] else [])"
    and "mem (sv st') = (mem (sv st))((idx, W0) := low, (idx, W1) := high, (idx, W2) := 1, (idx, W3) := 0)"
    and "\<forall>j. idx_live (sv st') j \<longleftrightarrow> idx_live (sv st) j \<or> j = idx"
proof -
  have wf: "pool_wf (sv st)" and q: "intf (sv st) = []" and ow: "objs_wf st"
    and h: "search_hint (sv st) < length (free_map (sv st)) \<or> junk = 0"
    and room: "(length (free_map (sv st)) + 256) * 64 \<le> 2 ^ 28"
    using assms(1,2) by (simp_all add: objs_inv_def pool_inv_def pool_ready_def)
  obtain idx s where s: "fsync_alloc_shm os junk low high (sv st) = Some (idx, s)"
    and "0 < idx" and fresh: "\<not> idx_live (sv st) idx" and "\<forall>j. idx_free (sv st) j \<longrightarrow> idx \<le> j"
    and lv: "\<forall>j. idx_live s j \<longleftrightarrow> idx_live (sv st) j \<or> j = idx"
    and m: "mem s = (mem (sv st))((idx, W0) := low, (idx, W1) := high, (idx, W2) := 1, (idx, W3) := 0)"
    and "pool_wf s" and "intf s = []" and "idx_free (sv st) idx \<or> (\<forall>j. \<not> idx_free (sv st) j)"
    by (rule fsync_alloc_shm_spec [OF wf q assms(3) h room, of low high])
  define st' where "st' = st\<lparr>sv := s, fobjs := (fobjs st)(oid \<mapsto> \<lparr>fo_shm_idx = idx, fo_type = type\<rparr>),
      mutex_list := mutex_list st @ (if type = FSYNC_MUTEX then [oid] else [])\<rparr>"
  have no_list: "oid \<notin> set (mutex_list st)" using objs_inv_mutex [OF inv] new by simp
  have other: "fo_shm_idx fs \<noteq> idx" if "fobjs st p = Some fs" for p fs
    using objs_inv_live [OF inv that] fresh by blast
  have "objs_wf st'"
    unfolding objs_wf_def
  proof (intro conjI allI impI)
    show "distinct (mutex_list st')"
      using ow no_list by (simp add: objs_wf_def st'_def)
    show "p \<in> set (mutex_list st') \<longleftrightarrow> (\<exists>fs. fobjs st' p = Some fs \<and> fo_type fs = FSYNC_MUTEX)" for p
      using objs_inv_mutex [OF inv, of p] no_list by (auto simp: st'_def)
    show "idx_live (sv st') (fo_shm_idx fs)" if "fobjs st' p = Some fs" for p fs
      using that objs_inv_live [OF inv, of p] lv by (auto simp: st'_def split: if_splits)
    show "p = p'" if "fobjs st' p = Some fs" "fobjs st' p' = Some fs'" "fo_shm_idx fs = fo_shm_idx fs'"
      for p p' fs fs'
      using that ow other [of p] other [of p'] by (auto simp: st'_def objs_wf_def split: if_splits)
  qed
  then have "objs_inv st'"
    using \<open>pool_wf s\<close> \<open>intf s = []\<close> by (simp add: objs_inv_def pool_inv_def st'_def)
  moreover have "create_fsync os junk (Some (oid, False)) low high type st = Some (Some oid, None, [], st')"
    by (simp add: create_fsync_def s st'_def)
  ultimately show ?thesis
    using that [of st' idx] fresh lv m by (simp add: st'_def)
qed

lemma fsync_destroy_spec:
  assumes inv: "objs_inv st" and os: "os_good os" and fs: "fobjs st oid = Some fs"
  obtains st' where "fsync_destroy os oid fs st = Some st'"
    and "objs_inv st'" and "fobjs st' = (fobjs st)(oid := None)"
    and "mutex_list st' = remove1 oid (mutex_list st)"
    and "\<forall>j. idx_live (sv st') j \<longleftrightarrow> idx_live (sv st) j \<and>
           \<not> (mem (sv st) (shm_ref (fo_shm_idx fs)) = 1 \<and> j = fo_shm_idx fs)"
    and "mem (sv st') = (mem (sv st))(shm_ref (fo_shm_idx fs) := mem (sv st) (shm_ref (fo_shm_idx fs)) - 1)"
proof -
  have wf: "pool_wf (sv st)" and q: "intf (sv st) = []" and ow: "objs_wf st"
    using inv by (simp_all add: objs_inv_def pool_inv_def)
  obtain s where s: "fsync_free_shm_idx os (fo_shm_idx fs) (sv st) = Some s"
    and m: "mem s = (mem (sv st))(shm_ref (fo_shm_idx fs) := mem (sv st) (shm_ref (fo_shm_idx fs)) - 1)"
    and "\<forall>j. idx_free s j \<longleftrightarrow> idx_free (sv st) j \<or> mem (sv st) (shm_ref (fo_shm_idx fs)) = 1 \<and> j = fo_shm_idx fs"
    and lv: "\<forall>j. idx_live s j \<longleftrightarrow> idx_live (sv st) j \<and> \<not> (mem (sv st) (shm_ref (fo_shm_idx fs)) = 1 \<and> j = fo_shm_idx fs)"
    and "pool_wf s" and "intf s = []" and "length (free_map s) = length (free_map (sv st))"
    by (rule fsync_free_shm_idx_spec [OF wf q os objs_inv_live [OF inv fs]])
  define st' where "st' = st\<lparr>sv := s, fobjs := (fobjs st)(oid := None), mutex_list := remove1 oid (mutex_list st)\<rparr>"
  have absent: "remove1 oid (mutex_list st) = mutex_list st" if "fo_type fs \<noteq> FSYNC_MUTEX"
    using objs_inv_mutex [OF inv, of oid] fs that by (simp add: remove1_idem)
  have "objs_wf st'"
    using ow lv fs unfolding objs_wf_def st'_def by (auto simp: set_remove1_eq)
  then have "objs_inv st'"
    using \<open>pool_wf s\<close> \<open>intf s = []\<close> by (simp add: objs_inv_def pool_inv_def st'_def)
  moreover have "fsync_destroy os oid fs st = Some st'"
    using absent by (auto simp: fsync_destroy_def s st'_def)
  ultimately show ?thesis using that [of st'] lv m by (simp add: st'_def)
qed

section \<open>Abandoned mutexes\<close>

definition aband_mem :: "i32 \<Rightarrow> nat set \<Rightarrow> mem \<Rightarrow> mem" where
  "aband_mem tid S m = (\<lambda>(k, f). if k \<in> S \<and> m (mutex_tid k) = tid \<and> f \<in> {W0, W1}
     then (if f = W0 then - 1 else 0) else m (k, f))"

definition aband_acts :: "i32 \<Rightarrow> mem \<Rightarrow> nat \<Rightarrow> act list" where
  "aband_acts tid m k = (if m (mutex_tid k) = tid
     then [Wr (mutex_tid k) tid (- 1), Wr (mutex_count k) (m (mutex_count k)) 0, Wake (mutex_tid k)] else [])"

lemma aband_mem_step:
  assumes "k \<notin> S"
  shows "aband_mem tid (insert k S) m = aband_mem tid S (aband_mem tid {k} m)"
  using assms by (auto simp: aband_mem_def fun_eq_iff)

lemma abandon_loop_spec:
  assumes "pool_inv s" and "os_good os" and "distinct (map (\<lambda>oid. fo_shm_idx (the (objs oid))) oids)"
    and "\<forall>oid \<in> set oids. \<exists>fs. objs oid = Some fs \<and> idx_live s (fo_shm_idx fs)"
  shows "\<exists>s'. abandon_loop os tid objs oids s = Some s' \<and> same_pool s s' \<and>
    mem s' = aband_mem tid ((\<lambda>oid. fo_shm_idx (the (objs oid))) ` set oids) (mem s) \<and>
    acts s' = acts s @ concat (map (\<lambda>oid. aband_acts tid (mem s) (fo_shm_idx (the (objs oid)))) oids)"
  using assms
proof (induction oids arbitrary: s)
  case Nil
  then show ?case by (simp add: aband_mem_def fun_eq_iff)
next
  case (Cons oid oids)
  obtain fs where fs: "objs oid = Some fs" and lv: "idx_live s (fo_shm_idx fs)"
    using Cons.prems(4) by auto
  let ?k = "fo_shm_idx fs"
  let ?ix = "\<lambda>oid. fo_shm_idx (the (objs oid))"
  obtain t where t: "srv_get_shm os ?k s = Some (?k, s\<lparr>shm_addrs := t\<rparr>)"
    by (rule get_live_slot [OF Cons.prems(1,2) lv])
  have q: "intf s = []" by (rule pool_inv_quiet [OF Cons.prems(1)])
  define s1 where "s1 = (if mem s (mutex_tid ?k) = tid
      then emit (Wake (mutex_tid ?k)) (put_mem (mutex_count ?k) 0 (put_mem (mutex_tid ?k) (- 1) (s\<lparr>shm_addrs := t\<rparr>)))
      else s\<lparr>shm_addrs := t\<rparr>)"
  have run: "abandon_loop os tid objs (oid # oids) s = abandon_loop os tid objs oids s1"
    using q by (simp add: fs t shm_simps s1_def)
  have pool: "same_pool s s1" by (simp add: same_pool_def s1_def put_mem_def emit_def)
  have m1: "mem s1 = aband_mem tid {?k} (mem s)"
    by (auto simp: s1_def aband_mem_def fun_eq_iff)
  have a1: "acts s1 = acts s @ aband_acts tid (mem s) ?k"
    by (simp add: s1_def aband_acts_def)
  have out: "?k \<notin> ?ix ` set oids" using Cons.prems(3) fs by simp
  have same: "aband_acts tid (mem s1) (?ix p) = aband_acts tid (mem s) (?ix p)" if "p \<in> set oids" for p
  proof -
    have "?ix p \<noteq> ?k" using out imageI [OF that, of ?ix] by metis
    then show ?thesis by (simp add: aband_acts_def m1 aband_mem_def)
  qed
  have acts_same: "map (\<lambda>p. aband_acts tid (mem s1) (?ix p)) oids = map (\<lambda>p. aband_acts tid (mem s) (?ix p)) oids"
    using same by simp
  have "\<exists>s'. abandon_loop os tid objs oids s1 = Some s' \<and> same_pool s1 s' \<and>
      mem s' = aband_mem tid (?ix ` set oids) (mem s1) \<and>
      acts s' = acts s1 @ concat (map (\<lambda>p. aband_acts tid (mem s1) (?ix p)) oids)"
    using Cons.prems pool by (intro Cons.IH) (auto simp: same_pool_live intro: same_pool_inv)
  then obtain s' where s': "abandon_loop os tid objs oids s1 = Some s'" "same_pool s1 s'"
      "mem s' = aband_mem tid (?ix ` set oids) (mem s1)"
      "acts s' = acts s1 @ concat (map (\<lambda>p. aband_acts tid (mem s1) (?ix p)) oids)"
    by blast
  have "mem s' = aband_mem tid (?ix ` set (oid # oids)) (mem s)"
    using s'(3) m1 aband_mem_step [OF out] fs by simp
  moreover have "acts s' = acts s @ concat (map (\<lambda>p. aband_acts tid (mem s) (?ix p)) (oid # oids))"
    using s'(4) a1 fs unfolding acts_same by simp
  ultimately show ?case
    unfolding run using s'(1) same_pool_trans [OF pool s'(2)] by blast
qed


section \<open>Properties\<close>

definition sample_srv :: fsrv where
  "sample_srv = \<lparr>sv = fsync_init (\<lambda>_. 0), fobjs = (\<lambda>_. None), mutex_list = []\<rparr>"

lemma sample_srv_inv: "objs_inv sample_srv"
  by (simp add: objs_inv_def objs_wf_def sample_srv_def pool_inv_def pool_wf_init)

lemma sample_srv_ready: "pool_ready (sv sample_srv)"
  by (simp add: sample_srv_def pool_ready_def)

text \<open>Creating a new object: it gets a shared memory index that no other object uses, its slot is
  initialized with the requested words and one reference, mutexes enter the list of mutexes, the
  other objects and their slots are unchanged; and destroying the object again gives the index
  back: the same objects, mutexes and live indices as before.\<close>
theorem create_destroy_roundtrip:
  assumes "objs_inv st" and "pool_ready (sv st)" and "os_good os" and "fobjs st oid = None"
  shows "\<exists>idx fs st1 st2.
    create_fsync os junk (Some (oid, False)) low high type st = Some (Some oid, None, [], st1) \<and>
    fs = \<lparr>fo_shm_idx = idx, fo_type = type\<rparr> \<and> fobjs st1 = (fobjs st)(oid \<mapsto> fs) \<and> objs_inv st1 \<and>
    mutex_list st1 = mutex_list st @ (if type = FSYNC_MUTEX then [oid] else []) \<and>
    (\<forall>p fs'. fobjs st p = Some fs' \<longrightarrow> fo_shm_idx fs' \<noteq> idx) \<and>
    mem (sv st1) = (mem (sv st))((idx, W0) := low, (idx, W1) := high, shm_ref idx := 1, shm_last_pid idx := 0) \<and>
    fsync_destroy os oid fs st1 = Some st2 \<and> objs_inv st2 \<and> fobjs st2 = fobjs st \<and>
    mutex_list st2 = mutex_list st \<and> (\<forall>j. idx_live (sv st2) j \<longleftrightarrow> idx_live (sv st) j)"
proof -
  obtain idx st1 where c: "create_fsync os junk (Some (oid, False)) low high type st = Some (Some oid, None, [], st1)"
    and fresh: "\<not> idx_live (sv st) idx" and inv1: "objs_inv st1"
    and objs1: "fobjs st1 = (fobjs st)(oid \<mapsto> \<lparr>fo_shm_idx = idx, fo_type = type\<rparr>)"
    and ml1: "mutex_list st1 = mutex_list st @ (if type = FSYNC_MUTEX then [oid] else [])"
    and m1: "mem (sv st1) = (mem (sv st))((idx, W0) := low, (idx, W1) := high, (idx, W2) := 1, (idx, W3) := 0)"
    and lv1: "\<forall>j. idx_live (sv st1) j \<longleftrightarrow> idx_live (sv st) j \<or> j = idx"
    by (rule create_fsync_new [OF assms])
  let ?fs = "\<lparr>fo_shm_idx = idx, fo_type = type\<rparr>"
  have o1: "fobjs st1 oid = Some ?fs" using objs1 by simp
  obtain st2 where d: "fsync_destroy os oid ?fs st1 = Some st2" and inv2: "objs_inv st2"
    and objs2: "fobjs st2 = (fobjs st1)(oid := None)" and ml2: "mutex_list st2 = remove1 oid (mutex_list st1)"
    and lv2: "\<forall>j. idx_live (sv st2) j \<longleftrightarrow> idx_live (sv st1) j \<and>
           \<not> (mem (sv st1) (shm_ref (fo_shm_idx ?fs)) = 1 \<and> j = fo_shm_idx ?fs)"
    and "mem (sv st2) = (mem (sv st1))(shm_ref (fo_shm_idx ?fs) := mem (sv st1) (shm_ref (fo_shm_idx ?fs)) - 1)"
    by (rule fsync_destroy_spec [OF inv1 assms(3) o1])
  have "oid \<notin> set (mutex_list st)" using objs_inv_mutex [OF assms(1)] assms(4) by simp
  then have ml: "mutex_list st2 = mutex_list st" by (simp add: ml2 ml1 remove1_append remove1_idem)
  have objs: "fobjs st2 = fobjs st" using assms(4) by (auto simp: objs2 objs1)
  have lv: "idx_live (sv st2) j \<longleftrightarrow> idx_live (sv st) j" for j using lv1 lv2 fresh m1 by auto
  have other: "fo_shm_idx fs' \<noteq> idx" if "fobjs st p = Some fs'" for p fs'
    using objs_inv_live [OF assms(1) that] fresh by blast
  show ?thesis
    by (intro exI conjI) (use c inv1 objs1 ml1 m1 d inv2 ml objs lv other in blast)+
qed

theorem create_destroy_roundtrip_witness:
  "\<exists>idx st1 st2. create_fsync os_all_ok 0 (Some (3, False)) 0 1 FSYNC_MUTEX sample_srv = Some (Some 3, None, [], st1) \<and>
    fsync_destroy os_all_ok 3 \<lparr>fo_shm_idx = idx, fo_type = FSYNC_MUTEX\<rparr> st1 = Some st2 \<and> mutex_list st2 = []"
proof -
  have "fobjs sample_srv 3 = None" and ml: "mutex_list sample_srv = []" by (simp_all add: sample_srv_def)
  from create_destroy_roundtrip [OF sample_srv_inv sample_srv_ready os_good_all_ok this(1),
      of 0 0 1 FSYNC_MUTEX, unfolded ml]
  show ?thesis by blast
qed



text \<open>Setting an event of the server signals its slot and wakes the waiters exactly when it was not
  signaled before; resetting clears it without a wake; waking an object by its index does the same
  as setting it; none of them touches any other memory, reference count or bitmap bit.\<close>
theorem server_event_set_reset:
  assumes "objs_inv st" and "os_good os" and "fobjs st oid = Some fs" and "idx = fo_shm_idx fs"
  shows "\<exists>s1 s2. fsync_set_event os fs (sv st) = Some s1 \<and> objs_inv (st\<lparr>sv := s1\<rparr>) \<and>
    fsync_wake_up os (Some (fsync_get_fsync_idx fs)) (sv st) = Some s1 \<and>
    mem s1 = (mem (sv st))(ev_signaled idx := 1) \<and>
    acts s1 = acts (sv st) @ [Wr (ev_signaled idx) (mem (sv st) (ev_signaled idx)) 1] @
      (if mem (sv st) (ev_signaled idx) = 0 then [Wake (ev_signaled idx)] else []) \<and>
    fsync_reset_event os fs (sv st) = Some s2 \<and> objs_inv (st\<lparr>sv := s2\<rparr>) \<and>
    fsync_clear os (Some (fsync_get_fsync_idx fs)) (sv st) = Some s2 \<and>
    mem s2 = (mem (sv st))(ev_signaled idx := 0) \<and>
    acts s2 = acts (sv st) @ [Wr (ev_signaled idx) (mem (sv st) (ev_signaled idx)) 0]"
proof -
  have pool: "pool_inv (sv st)" and lv: "idx_live (sv st) idx"
    using assms objs_inv_live by (auto simp: objs_inv_def)
  obtain s1 where s1: "fsync_set_event os fs (sv st) = Some s1" and m1: "mem s1 = (mem (sv st))(ev_signaled idx := 1)"
    and p1: "same_pool (sv st) s1"
    and a1: "acts s1 = acts (sv st) @ [Wr (ev_signaled idx) (mem (sv st) (ev_signaled idx)) 1] @
      (if mem (sv st) (ev_signaled idx) = 0 then [Wake (ev_signaled idx)] else [])"
    unfolding fsync_set_event_def assms(4) [symmetric] by (rule set_slot_spec [OF pool assms(2) lv])
  obtain s2 where s2: "fsync_reset_event os fs (sv st) = Some s2" and m2: "mem s2 = (mem (sv st))(ev_signaled idx := 0)"
    and p2: "same_pool (sv st) s2"
    and a2: "acts s2 = acts (sv st) @ [Wr (ev_signaled idx) (mem (sv st) (ev_signaled idx)) 0]"
    unfolding fsync_reset_event_def assms(4) [symmetric] by (rule clear_slot_spec [OF pool assms(2) lv])
  have "fsync_wake_up os (Some (fsync_get_fsync_idx fs)) (sv st) = fsync_set_event os fs (sv st)"
    "fsync_clear os (Some (fsync_get_fsync_idx fs)) (sv st) = fsync_reset_event os fs (sv st)"
    using live_pos [OF lv] assms(4)
    by (simp_all add: fsync_wake_up_def fsync_get_fsync_idx_def fsync_wake_futex_def fsync_set_event_def
        fsync_clear_def fsync_clear_futex_def fsync_reset_event_def)
  with s1 s2 m1 m2 a1 a2 objs_inv_same_pool [OF assms(1) p1] objs_inv_same_pool [OF assms(1) p2]
  show ?thesis by metis
qed

definition sample_obj :: fsrv where
  "sample_obj = \<lparr>sv = almost_full, fobjs = [9 \<mapsto> \<lparr>fo_shm_idx = 5, fo_type = FSYNC_MANUAL_EVENT\<rparr>], mutex_list = []\<rparr>"

lemma sample_obj_inv: "objs_inv sample_obj"
proof -
  have "idx_live almost_full 5" by (simp add: idx_live_def almost_full_free) (simp add: almost_full_def)
  then show ?thesis
    by (auto simp: objs_inv_def objs_wf_def sample_obj_def almost_full_inv split: if_splits)
qed

theorem server_event_set_reset_witness:
  "\<exists>s1. fsync_set_event os_all_ok \<lparr>fo_shm_idx = 5, fo_type = FSYNC_MANUAL_EVENT\<rparr> (sv sample_obj) = Some s1 \<and>
    mem s1 (5, W0) = 1"
proof -
  have "fobjs sample_obj 9 = Some \<lparr>fo_shm_idx = 5, fo_type = FSYNC_MANUAL_EVENT\<rparr>"
    by (simp add: sample_obj_def)
  from server_event_set_reset [OF sample_obj_inv os_good_all_ok this refl] show ?thesis by auto
qed

text \<open>The request for the index of an object takes one reference to its slot in the name of the
  client; the object may then be destroyed and the index stays live; the client's release request
  gives the last reference back and frees it.\<close>
theorem index_outlives_object_until_released:
  assumes "objs_inv st" and "os_good os" and "fobjs st oid = Some fs" and "idx = fo_shm_idx fs"
    and "mem (sv st) (shm_ref idx) = 1"
  shows "\<exists>s1 st2 s3. req_get_fsync_idx os (Some (oid, Some (fsync_get_fsync_idx fs))) (sv st) =
      Some (\<lparr>rp_handle = 0, rp_shm_idx = idx, rp_type = Some (fo_type fs), rp_error = None, rp_released = [oid]\<rparr>, s1) \<and>
    mem s1 = (mem (sv st))(shm_ref idx := 2) \<and>
    fsync_destroy os oid fs (st\<lparr>sv := s1\<rparr>) = Some st2 \<and> idx_live (sv st2) idx \<and>
    req_fsync_free_shm_idx os idx (sv st2) = Some (STATUS_SUCCESS, s3) \<and> idx_free s3 idx \<and> pool_inv s3"
proof -
  have pool: "pool_inv (sv st)" and lv: "idx_live (sv st) idx"
    using assms objs_inv_live by (auto simp: objs_inv_def)
  obtain t where t: "srv_get_shm os idx (sv st) = Some (idx, (sv st)\<lparr>shm_addrs := t\<rparr>)"
    by (rule get_live_slot [OF pool assms(2) lv])
  define s1 where "s1 = put_mem (shm_ref idx) 2 ((sv st)\<lparr>shm_addrs := t\<rparr>)"
  have run1: "req_get_fsync_idx os (Some (oid, Some (fsync_get_fsync_idx fs))) (sv st) =
      Some (\<lparr>rp_handle = 0, rp_shm_idx = idx, rp_type = Some (fo_type fs), rp_error = None, rp_released = [oid]\<rparr>, s1)"
    using t pool_inv_quiet [OF pool] assms(4,5)
    by (simp add: req_get_fsync_idx_def fsync_get_fsync_idx_def empty_reply_def shm_simps s1_def)
  have m1: "mem s1 = (mem (sv st))(shm_ref idx := 2)" by (simp add: s1_def)
  have lv1: "idx_live s1 j \<longleftrightarrow> idx_live (sv st) j" for j by (simp add: s1_def put_mem_def idx_live_def idx_free_def)
  have "pool_inv s1"
    using pool m1 lv1 unfolding pool_inv_def pool_wf_def slots_wf_def
    by (auto simp: s1_def put_mem_def map_wf_def)
  then have inv1: "objs_inv (st\<lparr>sv := s1\<rparr>)" using assms(1) lv1 by (simp add: objs_inv_def objs_wf_def)
  have o1: "fobjs (st\<lparr>sv := s1\<rparr>) oid = Some fs" using assms(3) by simp
  obtain st2 where d: "fsync_destroy os oid fs (st\<lparr>sv := s1\<rparr>) = Some st2" and inv2: "objs_inv st2"
    and "fobjs st2 = (fobjs (st\<lparr>sv := s1\<rparr>))(oid := None)"
    and "mutex_list st2 = remove1 oid (mutex_list (st\<lparr>sv := s1\<rparr>))"
    and lv2: "\<forall>j. idx_live (sv st2) j \<longleftrightarrow> idx_live (sv (st\<lparr>sv := s1\<rparr>)) j \<and>
       \<not> (mem (sv (st\<lparr>sv := s1\<rparr>)) (shm_ref (fo_shm_idx fs)) = 1 \<and> j = fo_shm_idx fs)"
    and m2: "mem (sv st2) = (mem (sv (st\<lparr>sv := s1\<rparr>)))
       (shm_ref (fo_shm_idx fs) := mem (sv (st\<lparr>sv := s1\<rparr>)) (shm_ref (fo_shm_idx fs)) - 1)"
    by (rule fsync_destroy_spec [OF inv1 assms(2) o1])
  have live2: "idx_live (sv st2) idx" using lv2 lv1 lv m1 assms(4) by simp
  have one: "mem (sv st2) (shm_ref idx) = 1" using m2 m1 assms(4) by simp
  have pool2: "pool_inv (sv st2)" using inv2 by (simp add: objs_inv_def)
  have wf2: "pool_wf (sv st2)" and q2: "intf (sv st2) = []" using pool2 by (simp_all add: pool_inv_def)
  obtain s3 where s3: "fsync_free_shm_idx os idx (sv st2) = Some s3"
    and "mem s3 = (mem (sv st2))(shm_ref idx := mem (sv st2) (shm_ref idx) - 1)"
    and fr: "\<forall>j. idx_free s3 j \<longleftrightarrow> idx_free (sv st2) j \<or> mem (sv st2) (shm_ref idx) = 1 \<and> j = idx"
    and "\<forall>j. idx_live s3 j \<longleftrightarrow> idx_live (sv st2) j \<and> \<not> (mem (sv st2) (shm_ref idx) = 1 \<and> j = idx)"
    and "pool_wf s3" and "intf s3 = []" and "length (free_map s3) = length (free_map (sv st2))"
    by (rule fsync_free_shm_idx_spec [OF wf2 q2 assms(2) live2])
  have "req_fsync_free_shm_idx os idx (sv st2) = Some (STATUS_SUCCESS, s3)"
    using s3 live2 by (simp add: req_fsync_free_shm_idx_def idx_live_def)
  moreover have "idx_free s3 idx" and "pool_inv s3"
    using fr one \<open>pool_wf s3\<close> \<open>intf s3 = []\<close> by (simp_all add: pool_inv_def)
  ultimately show ?thesis using run1 m1 d live2 by blast
qed

theorem index_outlives_object_until_released_witness:
  "\<exists>(st2 :: fsrv) s3. idx_live (sv st2) 5 \<and> req_fsync_free_shm_idx os_all_ok 5 (sv st2) = Some (STATUS_SUCCESS, s3) \<and>
    idx_free s3 5"
proof -
  have "fobjs sample_obj 9 = Some \<lparr>fo_shm_idx = 5, fo_type = FSYNC_MANUAL_EVENT\<rparr>"
    and "mem (sv sample_obj) (shm_ref (fo_shm_idx \<lparr>fo_shm_idx = 5, fo_type = FSYNC_MANUAL_EVENT\<rparr>)) = 1"
    by (simp_all add: sample_obj_def almost_full_def)
  from index_outlives_object_until_released [OF sample_obj_inv os_good_all_ok this(1) refl this(2),
      unfolded fsync_obj.simps]
  show ?thesis by blast
qed

text \<open>Opening or re-creating a named object under another type is refused: a create request that
  meets an existing object answers with that object only when the types agree (the two kinds of
  events count as one), otherwise with a type mismatch and no handle; an open request with the
  wrong type reports the mismatch but leaves the handle it opened in the reply. No request on an
  existing object changes the server's state.\<close>
theorem existing_object_type_checked:
  assumes "fobjs st oid = Some fs" and "h \<noteq> 0"
  shows "req_create_fsync os junk True True root (Some (oid, True)) ah low high type st =
      Some (if type_matches type (fo_type fs)
            then \<lparr>rp_handle = ah True oid, rp_shm_idx = fo_shm_idx fs, rp_type = Some (fo_type fs),
                  rp_error = Some STATUS_OBJECT_NAME_EXISTS,
                  rp_released = oid # (case root of None \<Rightarrow> [] | Some r \<Rightarrow> [r])\<rparr>
            else \<lparr>rp_handle = 0, rp_shm_idx = 0, rp_type = None, rp_error = Some STATUS_OBJECT_TYPE_MISMATCH,
                  rp_released = oid # (case root of None \<Rightarrow> [] | Some r \<Rightarrow> [r])\<rparr>, st) \<and>
    req_open_fsync h (Some oid) type st =
      Some (if type_matches type (fo_type fs)
            then \<lparr>rp_handle = h, rp_shm_idx = fo_shm_idx fs, rp_type = Some (fo_type fs),
                  rp_error = None, rp_released = [oid]\<rparr>
            else \<lparr>rp_handle = h, rp_shm_idx = 0, rp_type = None,
                  rp_error = Some STATUS_OBJECT_TYPE_MISMATCH, rp_released = [oid]\<rparr>)"
  using assms
  by (simp_all add: req_create_fsync_def create_fsync_def req_open_fsync_def empty_reply_def)

theorem existing_object_type_checked_witness:
  "req_open_fsync 44 (Some 9) FSYNC_MUTEX sample_obj =
     Some \<lparr>rp_handle = 44, rp_shm_idx = 0, rp_type = None,
           rp_error = Some STATUS_OBJECT_TYPE_MISMATCH, rp_released = [9]\<rparr>"
proof -
  have "fobjs sample_obj 9 = Some \<lparr>fo_shm_idx = 5, fo_type = FSYNC_MANUAL_EVENT\<rparr>"
    by (simp add: sample_obj_def)
  from existing_object_type_checked [OF this, of 44 os_all_ok 0 None "\<lambda>_ _. 0" 0 0 FSYNC_MUTEX] show ?thesis
    by (simp add: type_matches_def)
qed

end
