(* ===== verification/Handle_Cache.thy ===== *)
theory Handle_Cache
  imports Prelude
begin

text \<open>
  The caches of the clients that are indexed by handle: the list of blocks that
  dlls/ntdll/unix/fsync.c, dlls/ntdll/unix/esync.c and dlls/ntdll/unix/sync.c each keep. A handle
  is a multiple of four; its number selects a block and an entry of it. The first block is
  static, the others are mapped on demand (whether that succeeds is a parameter), and a handle
  beyond the last block is not cached.

  An entry is \<open>None\<close> while its words are zero. The locale \<open>handle_store\<close> is the contract the
  clients of such a cache use.
\<close>

type_synonym 'e cache = "nat \<Rightarrow> (nat \<Rightarrow> 'e option) option"

section \<open>The operations\<close>

definition handle_to_index :: "nat \<Rightarrow> u64 \<Rightarrow> nat \<times> nat" where
  "handle_to_index block_size handle =
     (let idx = unat (drop_bit 2 handle - 1) in (idx div block_size, idx mod block_size))"

definition cache_empty :: "'e cache" where
  "cache_empty = (\<lambda>_. None)"

definition cache_get :: "nat \<Rightarrow> nat \<Rightarrow> u64 \<Rightarrow> 'e cache \<Rightarrow> 'e option" where
  "cache_get entries block_size handle c =
     (let (entry, idx) = handle_to_index block_size handle
      in if entries \<le> entry then None
         else case c entry of None \<Rightarrow> None | Some block \<Rightarrow> block idx)"

definition cache_put :: "nat \<Rightarrow> nat \<Rightarrow> bool \<Rightarrow> u64 \<Rightarrow> 'e option \<Rightarrow> 'e cache \<Rightarrow> 'e cache" where
  "cache_put entries block_size mmap_ok handle v c =
     (let (entry, idx) = handle_to_index block_size handle
      in if entries \<le> entry then c
         else case c entry of
           Some block \<Rightarrow> c(entry \<mapsto> block(idx := v))
         | None \<Rightarrow> if entry = 0 \<or> mmap_ok then c(entry \<mapsto> (\<lambda>_. None)(idx := v)) else c)"

text \<open>The exchange with the zero entry that the close functions do: the old entry is returned.\<close>

definition cache_take :: "nat \<Rightarrow> nat \<Rightarrow> u64 \<Rightarrow> 'e cache \<Rightarrow> 'e option \<times> 'e cache" where
  "cache_take entries block_size handle c =
     (let (entry, idx) = handle_to_index block_size handle
      in if entries \<le> entry then (None, c)
         else case c entry of
           None \<Rightarrow> (None, c)
         | Some block \<Rightarrow> (block idx, c(entry \<mapsto> block(idx := None))))"

text \<open>Whether the entry of a handle lies inside the cache and its block can be had.\<close>

definition cacheable :: "nat \<Rightarrow> nat \<Rightarrow> bool \<Rightarrow> u64 \<Rightarrow> 'e cache \<Rightarrow> bool" where
  "cacheable entries block_size mmap_ok handle c =
     (let (entry, idx) = handle_to_index block_size handle
      in entry < entries \<and> (entry = 0 \<or> mmap_ok \<or> c entry \<noteq> None))"

section \<open>Handles and their entries\<close>

lemma handle_to_index_eq:
  "handle_to_index b h = handle_to_index b h' \<longleftrightarrow> drop_bit 2 h = drop_bit 2 h'" (is "?l = ?r")
proof
  assume ?l
  then have "unat (drop_bit 2 h - 1) = unat (drop_bit 2 h' - 1)"
    by (simp add: handle_to_index_def Let_def) (metis div_mult_mod_eq)
  then show ?r by (simp add: word_unat_eq_iff [symmetric])
qed (simp add: handle_to_index_def)

text \<open>Two proper handles, multiples of four, never share an entry.\<close>

definition proper_handle :: "u64 \<Rightarrow> bool" where
  "proper_handle h \<longleftrightarrow> take_bit 2 h = 0"

lemma proper_handle_entry:
  assumes "proper_handle h" and "proper_handle h'"
  shows "handle_to_index b h = handle_to_index b h' \<longleftrightarrow> h = h'"
proof -
  have "drop_bit 2 h = drop_bit 2 h' \<Longrightarrow> h = h'"
    using assms unfolding proper_handle_def by (metis bits_ident)
  then show ?thesis by (auto simp: handle_to_index_eq)
qed

lemma same_entry: "drop_bit 2 h = drop_bit 2 h' \<Longrightarrow> handle_to_index b h = handle_to_index b h'"
  by (simp add: handle_to_index_eq)

section \<open>The contract\<close>

locale handle_store =
  fixes get :: "u64 \<Rightarrow> 's \<Rightarrow> 'e option"
    and put :: "u64 \<Rightarrow> 'e option \<Rightarrow> 's \<Rightarrow> 's"
    and take :: "u64 \<Rightarrow> 's \<Rightarrow> 'e option \<times> 's"
    and fits :: "u64 \<Rightarrow> 's \<Rightarrow> bool"
  assumes get_put: "get h' (put h v s) =
      (if fits h s \<and> drop_bit 2 h = drop_bit 2 h' then v else get h' s)"
    and take_get: "fst (take h s) = get h s"
    and get_take: "get h' (snd (take h s)) = (if drop_bit 2 h = drop_bit 2 h' then None else get h' s)"
    and fits_put: "fits h' (put h v s) \<longleftrightarrow> fits h' s"
    and fits_take: "fits h' (snd (take h s)) \<longleftrightarrow> fits h' s"
    and get_fits: "get h s \<noteq> None \<Longrightarrow> fits h s"
begin

lemma get_put_same: "fits h s \<Longrightarrow> get h (put h v s) = v"
  by (simp add: get_put)

lemma put_unfit: "\<not> fits h s \<Longrightarrow> get h' (put h v s) = get h' s"
  by (simp add: get_put)

lemma get_put_other:
  assumes "proper_handle h" and "proper_handle h'" and "h \<noteq> h'"
  shows "get h' (put h v s) = get h' s"
  using proper_handle_entry [OF assms(1,2)] assms(3) by (simp add: get_put handle_to_index_eq)

lemma get_take_same: "get h (snd (take h s)) = None"
  by (simp add: get_take)

lemma get_take_other:
  assumes "proper_handle h" and "proper_handle h'" and "h \<noteq> h'"
  shows "get h' (snd (take h s)) = get h' s"
  using proper_handle_entry [OF assms(1,2)] assms(3) by (simp add: get_take handle_to_index_eq)

text \<open>Closing a handle twice finds nothing the second time; caching and closing is a round trip.\<close>

lemma take_twice: "fst (take h (snd (take h s))) = None"
  by (simp add: take_get get_take)

lemma put_take:
  assumes "fits h s"
  shows "fst (take h (put h v s)) = v"
  using assms by (simp add: take_get get_put)

end

section \<open>The block cache provides it\<close>

lemma handle_entry_cases:
  obtains e i where "handle_to_index b h = (e, i)"
  by (cases "handle_to_index b h") auto

lemma cache_get_put:
  "cache_get n b h' (cache_put n b ok h v c) =
     (if cacheable n b ok h c \<and> drop_bit 2 h = drop_bit 2 h' then v else cache_get n b h' c)"
proof -
  obtain e i where e: "handle_to_index b h = (e, i)" by (rule handle_entry_cases)
  obtain e' i' where e': "handle_to_index b h' = (e', i')" by (rule handle_entry_cases)
  have "drop_bit 2 h = drop_bit 2 h' \<longleftrightarrow> e = e' \<and> i = i'"
    using handle_to_index_eq [of b h h'] e e' by simp
  then show ?thesis
    by (cases "c e") (auto simp: cache_get_def cache_put_def cacheable_def e e' split: option.splits)
qed

lemma cache_take_get: "fst (cache_take n b h c) = cache_get n b h c"
  by (auto simp: cache_get_def cache_take_def Let_def split: option.splits prod.splits)

lemma cache_get_take:
  "cache_get n b h' (snd (cache_take n b h c)) =
     (if drop_bit 2 h = drop_bit 2 h' then None else cache_get n b h' c)"
proof -
  obtain e i where e: "handle_to_index b h = (e, i)" by (rule handle_entry_cases)
  obtain e' i' where e': "handle_to_index b h' = (e', i')" by (rule handle_entry_cases)
  have "drop_bit 2 h = drop_bit 2 h' \<longleftrightarrow> e = e' \<and> i = i'"
    using handle_to_index_eq [of b h h'] e e' by simp
  then show ?thesis
    by (cases "c e") (auto simp: cache_get_def cache_take_def e e' split: option.splits)
qed

lemma cacheable_put: "cacheable n b ok h' (cache_put n b ok h v c) \<longleftrightarrow> cacheable n b ok h' c"
  by (auto simp: cacheable_def cache_put_def Let_def split: option.splits prod.splits)

lemma cacheable_take: "cacheable n b ok h' (snd (cache_take n b h c)) \<longleftrightarrow> cacheable n b ok h' c"
  by (auto simp: cacheable_def cache_take_def Let_def split: option.splits prod.splits)

lemma cache_get_cacheable: "cache_get n b h c \<noteq> None \<Longrightarrow> cacheable n b ok h c"
  by (auto simp: cacheable_def cache_get_def Let_def split: option.splits prod.splits if_splits)

interpretation block_cache: handle_store
  "cache_get n b" "cache_put n b ok" "cache_take n b" "cacheable n b ok"
  for n b ok
  by unfold_locales
    (simp_all add: cache_get_put cache_take_get cache_get_take cacheable_put cacheable_take
      cache_get_cacheable)

end
