(* ===== verification/Fsync_Client.thy ===== *)
theory Fsync_Client
  imports Fsync_Server Handle_Cache
begin

text \<open>
  dlls/ntdll/unix/fsync.c: the client's side of the shared memory objects. A thread of the client
  finds the slot of a handle in the process's cache or asks the server, takes a reference to the
  slot for the time of the operation, works on the slot by atomic accesses and puts the
  reference back. \<open>struct fsync\<close> is \<open>fobj\<close>; its pointer into the shared memory is the number of
  the slot, which \<open>get_shm\<close> and \<open>shm_index_from_shm\<close> relate to addresses (last section of the
  definitions).

  The other threads of the process also change the cache: like the shared memory, it has its own
  list of pending interferences.
\<close>

section \<open>State\<close>

record fobj =
  ob_type :: fsync_type
  ob_shm :: nat

type_synonym fentry = "fsync_type \<times> nat"

record fclient = world +
  fcache :: "fentry cache"
  cintf :: "(fentry cache \<Rightarrow> fentry cache) list"
  apc_futex :: "addr option"   \<comment> \<open>the thread's \<open>fsync_apc_futex\<close>\<close>

text \<open>
  The process and thread ids, the switches read from the environment, whether a block of the cache
  can be mapped, the server's answers, and the clock.
\<close>

record fcfg =
  current_pid :: i32
  current_tid :: i32
  yield_to_waiters :: bool
  simulate_quantum :: bool
  help_pulse :: bool
  ac_odyssey :: bool
  anon_ok :: bool
  srv_idx :: "u64 \<Rightarrow> ntstatus + fentry"
  srv_create :: "fsync_type \<Rightarrow> i32 \<Rightarrow> i32 \<Rightarrow> ntstatus \<times> u64 \<times> fentry"
  srv_open :: "fsync_type \<Rightarrow> ntstatus \<times> u64 \<times> fentry"
  srv_apc_idx :: nat      \<comment> \<open>the reply of \<open>get_fsync_apc_idx\<close>, 0 if the call failed\<close>
  srv_wait :: ntstatus    \<comment> \<open>what \<open>server_wait\<close> returns for a zero timeout and no handles\<close>
  mono_now :: "u64 \<times> u64" \<comment> \<open>the monotonic clock when a wait starts: seconds, nanoseconds\<close>

abbreviation (input) FSYNC_LIST_ENTRIES :: nat where "FSYNC_LIST_ENTRIES \<equiv> 256"
abbreviation (input) FSYNC_LIST_BLOCK_SIZE :: nat where "FSYNC_LIST_BLOCK_SIZE \<equiv> 4096"

section \<open>Slots and references\<close>

text \<open>
  The slot of an index, or \<open>None\<close> where \<open>get_shm\<close> returns NULL, which its callers dereference.
\<close>

definition client_slot :: "nat \<Rightarrow> nat option" where
  "client_slot idx =
     (let off = (idx * 16) mod 2 ^ 32; entry = off div FSYNC_SHM_PAGE_SIZE
      in if 8192 \<le> entry then None else Some (off div 16))"

definition grab_object :: "fobj \<Rightarrow> fclient \<Rightarrow> fclient" where
  "grab_object obj w = snd (at_add (shm_ref (ob_shm obj)) 1 w)"

text \<open>
  The request \<open>fsync_free_shm_idx\<close> as the client sees it: the server takes one reference off a slot
  that has any. \<open>Shm_Index.fsync_free_shm_idx\<close> is the server's side of it.
\<close>

definition request_free :: "nat \<Rightarrow> fclient \<Rightarrow> fclient" where
  "request_free slot w =
     (let w1 = emit (SrvFree slot) (interfere w); r = mem w1 (shm_ref slot)
      in if sint r \<le> 0 then w1 else w1\<lparr>mem := (mem w1)(shm_ref slot := r - 1)\<rparr>)"

definition put_object :: "fobj \<Rightarrow> fclient \<Rightarrow> fclient" where
  "put_object obj w =
     (let (r, w1) = at_load (shm_ref (ob_shm obj)) w
      in if r = 1 then request_free (ob_shm obj) w1
         else snd (at_add (shm_ref (ob_shm obj)) (- 1) w1))"

definition put_object_from_wait :: "fcfg \<Rightarrow> fobj \<Rightarrow> fclient \<Rightarrow> fclient" where
  "put_object_from_wait cfg obj w =
     put_object obj (snd (at_cas (shm_last_pid (ob_shm obj)) (current_pid cfg) 0 w))"

section \<open>The cache of handles\<close>

definition add_to_list :: "fcfg \<Rightarrow> u64 \<Rightarrow> fentry \<Rightarrow> fclient \<Rightarrow> fclient" where
  "add_to_list cfg handle e w =
     w\<lparr>fcache := cache_put FSYNC_LIST_ENTRIES FSYNC_LIST_BLOCK_SIZE (anon_ok cfg) handle (Some e) (fcache w)\<rparr>"

text \<open>An atomic load of an entry, after the next change by another thread.\<close>

definition cache_interfere :: "fclient \<Rightarrow> fclient" where
  "cache_interfere w = (case cintf w of [] \<Rightarrow> w | f # fs \<Rightarrow> w\<lparr>fcache := f (fcache w), cintf := fs\<rparr>)"

definition cache_load :: "u64 \<Rightarrow> fclient \<Rightarrow> fentry option \<times> fclient" where
  "cache_load handle w =
     (let w1 = cache_interfere w
      in (cache_get FSYNC_LIST_ENTRIES FSYNC_LIST_BLOCK_SIZE handle (fcache w1), w1))"

partial_function (option) get_cached_object :: "u64 \<Rightarrow> fclient \<Rightarrow> (fobj option \<times> fclient) option" where
  "get_cached_object handle w =
     (let (cache, w1) = cache_load handle w
      in case cache of
           None \<Rightarrow> Some (None, w1)
         | Some (type, shm_idx) \<Rightarrow>
             if shm_idx = 0 then Some (None, w1)
             else do {
               slot \<leftarrow> client_slot shm_idx;
               let obj = \<lparr>ob_type = type, ob_shm = slot\<rparr>;
               let w2 = grab_object obj w1;
               let (r, w3) = at_load (shm_ref slot) w2;
               if sint r < 2 then get_cached_object handle (put_object obj w3)
               else (let (cache', w4) = cache_load handle w3
                     in if cache' \<noteq> cache then get_cached_object handle (put_object obj w4)
                        else Some (Some obj, w4))
             })"

text \<open>
  \<open>get_object\<close>: on a miss the server is asked; its handler has taken the reference to the slot.
  Pseudo-handles are negative.
\<close>

definition server_grab :: "nat \<Rightarrow> fclient \<Rightarrow> fclient" where
  "server_grab shm_idx w =
     (let w1 = interfere w; slot = shm_idx mod 2 ^ 28
      in w1\<lparr>mem := (mem w1)(shm_ref slot := mem w1 (shm_ref slot) + 1)\<rparr>)"

definition get_object :: "fcfg \<Rightarrow> u64 \<Rightarrow> fclient \<Rightarrow> ((ntstatus + fobj) \<times> fclient) option" where
  "get_object cfg handle w =
     do {
       (c, w1) \<leftarrow> get_cached_object handle w;
       case c of
         Some obj \<Rightarrow> Some (Inr obj, w1)
       | None \<Rightarrow>
           if sint handle < 0 then Some (Inl STATUS_NOT_IMPLEMENTED, w1)
           else if handle = 0 then Some (Inl STATUS_INVALID_HANDLE, w1)
           else do {
             (c2, w2) \<leftarrow> get_cached_object handle w1;
             case c2 of
               Some obj \<Rightarrow> Some (Inr obj, w2)
             | None \<Rightarrow>
                 (case srv_idx cfg handle of
                    Inl st \<Rightarrow> Some (Inl st, w2)
                  | Inr (type, shm_idx) \<Rightarrow> do {
                      let w3 = add_to_list cfg handle (type, shm_idx) (server_grab shm_idx w2);
                      slot \<leftarrow> client_slot shm_idx;
                      Some (Inr \<lparr>ob_type = type, ob_shm = slot\<rparr>, w3)
                    })
           }
     }"

text \<open>
  \<open>get_object_for_wait\<close>: the second result is \<open>prev_pid\<close>, which is written and read only when
  \<open>fsync_yield_to_waiters\<close> is set; it is 0 otherwise here.
\<close>

definition get_object_for_wait ::
  "fcfg \<Rightarrow> u64 \<Rightarrow> fclient \<Rightarrow> ((ntstatus + fobj \<times> i32) \<times> fclient) option" where
  "get_object_for_wait cfg handle w =
     do {
       (r, w1) \<leftarrow> get_object cfg handle w;
       case r of
         Inl st \<Rightarrow> Some (Inl st, w1)
       | Inr obj \<Rightarrow>
           if yield_to_waiters cfg
           then (let (prev, w2) = at_xchg (shm_last_pid (ob_shm obj)) (current_pid cfg) w1
                 in Some (Inr (obj, prev), w2))
           else Some (Inr (obj, 0), at_store (shm_last_pid (ob_shm obj)) (current_pid cfg) w1)
     }"

definition fsync_close :: "u64 \<Rightarrow> fclient \<Rightarrow> ntstatus \<times> fclient" where
  "fsync_close handle w =
     (let w1 = cache_interfere w;
          (old, c) = cache_take FSYNC_LIST_ENTRIES FSYNC_LIST_BLOCK_SIZE handle (fcache w1)
      in (if old \<noteq> None then STATUS_SUCCESS else STATUS_INVALID_HANDLE, w1\<lparr>fcache := c\<rparr>))"

section \<open>Creating and opening\<close>

text \<open>
  A server request that creates an object initializes its slot (\<open>Fsync_Server.create_fsync\<close>) when it
  answers with success; when the object existed its slot is left alone.
\<close>

definition server_init_slot :: "nat \<Rightarrow> i32 \<Rightarrow> i32 \<Rightarrow> fclient \<Rightarrow> fclient" where
  "server_init_slot shm_idx low high w =
     (let w1 = interfere w; slot = shm_idx mod 2 ^ 28
      in w1\<lparr>mem := (mem w1)((slot, W0) := low, (slot, W1) := high, (slot, W2) := 1, (slot, W3) := 0)\<rparr>)"

definition client_create_fsync ::
  "fcfg \<Rightarrow> ntstatus \<Rightarrow> fsync_type \<Rightarrow> i32 \<Rightarrow> i32 \<Rightarrow> fclient \<Rightarrow> (ntstatus \<times> u64 option) \<times> fclient" where
  "client_create_fsync cfg attr_status type low high w =
     (if attr_status \<noteq> 0 then ((attr_status, None), w)
      else let (ret, handle, type', shm_idx) = srv_create cfg type low high;
               w1 = (if ret = 0 then server_init_slot shm_idx low high w else w)
           in if ret = 0 \<or> ret = STATUS_OBJECT_NAME_EXISTS
              then ((ret, Some handle), add_to_list cfg handle (type', shm_idx) w1)
              else ((ret, None), w1))"

definition client_open_fsync :: "fcfg \<Rightarrow> fsync_type \<Rightarrow> fclient \<Rightarrow> (ntstatus \<times> u64 option) \<times> fclient" where
  "client_open_fsync cfg type w =
     (let (ret, handle, type', shm_idx) = srv_open cfg type
      in if ret = 0 then ((ret, Some handle), add_to_list cfg handle (type', shm_idx) w)
         else ((ret, None), w))"

definition fsync_create_semaphore ::
  "fcfg \<Rightarrow> ntstatus \<Rightarrow> i32 \<Rightarrow> i32 \<Rightarrow> fclient \<Rightarrow> (ntstatus \<times> u64 option) \<times> fclient" where
  "fsync_create_semaphore cfg attr_status initial maximum w =
     client_create_fsync cfg attr_status FSYNC_SEMAPHORE initial maximum w"

definition fsync_create_event ::
  "fcfg \<Rightarrow> ntstatus \<Rightarrow> bool \<Rightarrow> 8 word \<Rightarrow> fclient \<Rightarrow> (ntstatus \<times> u64 option) \<times> fclient" where
  "fsync_create_event cfg attr_status synchronization initial w =
     client_create_fsync cfg attr_status (if synchronization then FSYNC_AUTO_EVENT else FSYNC_MANUAL_EVENT)
       (ucast initial) 0xdeadbeef w"

definition fsync_create_mutex ::
  "fcfg \<Rightarrow> ntstatus \<Rightarrow> bool \<Rightarrow> fclient \<Rightarrow> (ntstatus \<times> u64 option) \<times> fclient" where
  "fsync_create_mutex cfg attr_status initial w =
     client_create_fsync cfg attr_status FSYNC_MUTEX
       (if initial then current_tid cfg else 0) (if initial then 1 else 0) w"

section \<open>Semaphores\<close>

text \<open>
  The retry loop of \<open>fsync_release_semaphore\<close>, until the compare-and-swap succeeds; the sum and the
  comparison are unsigned. A retry needs the interference of another thread.
\<close>

function release_loop :: "nat \<Rightarrow> u32 \<Rightarrow> fclient \<Rightarrow> u32 option \<times> fclient" where
  "release_loop slot count w =
     (let (current, w1) = at_load (sem_count slot) w;
          (mx, w2) = at_load (sem_max slot) w1
      in if count + current > mx then (None, w2)
         else let (old, w3) = at_cas (sem_count slot) current (count + current) w2
              in if old = current then (Some current, w3) else release_loop slot count w3)"
  by pat_completeness auto
termination
proof (relation "measure (\<lambda>(slot, count, w). length (intf w))", goal_cases)
  case 1
  show ?case by simp
next
  case (2 slot count w p current w1 p2 mx w2 p3 old w3)
  then have "intf w \<noteq> []" by (auto simp: shm_simps)
  moreover have "length (intf w1) = length (intf w) - 1" "length (intf w2) = length (intf w1) - 1"
    "length (intf w3) = length (intf w2) - 1"
    using 2 by (auto dest: intf_len)
  ultimately have "length (intf w3) < length (intf w)" by (cases "intf w") simp_all
  then show ?case by simp
qed

declare release_loop.simps [simp del]

definition fsync_release_semaphore ::
  "fcfg \<Rightarrow> u64 \<Rightarrow> u32 \<Rightarrow> fclient \<Rightarrow> ((ntstatus \<times> u32 option) \<times> fclient) option" where
  "fsync_release_semaphore cfg handle count w =
     do {
       (r, w1) \<leftarrow> get_object cfg handle w;
       case r of
         Inl st \<Rightarrow> Some ((st, None), w1)
       | Inr obj \<Rightarrow>
           (let (res, w2) = release_loop (ob_shm obj) count w1
            in case res of
                 None \<Rightarrow> Some ((STATUS_SEMAPHORE_LIMIT_EXCEEDED, None), put_object obj w2)
               | Some current \<Rightarrow>
                   Some ((STATUS_SUCCESS, Some current), put_object obj (emit (Wake (sem_count (ob_shm obj))) w2)))
     }"

definition fsync_query_semaphore ::
  "fcfg \<Rightarrow> u64 \<Rightarrow> fclient \<Rightarrow> ((ntstatus \<times> (i32 \<times> i32) option) \<times> fclient) option" where
  "fsync_query_semaphore cfg handle w =
     do {
       (r, w1) \<leftarrow> get_object cfg handle w;
       case r of
         Inl st \<Rightarrow> Some ((st, None), w1)
       | Inr obj \<Rightarrow>
           (let (c, w2) = at_load (sem_count (ob_shm obj)) w1; (m, w3) = at_load (sem_max (ob_shm obj)) w2
            in Some ((STATUS_SUCCESS, Some (c, m)), put_object obj w3))
     }"

section \<open>Events\<close>

definition is_event :: "fobj \<Rightarrow> bool" where
  "is_event obj \<longleftrightarrow> \<not> (ob_type obj \<noteq> FSYNC_MANUAL_EVENT \<and> ob_type obj \<noteq> FSYNC_AUTO_EVENT)"

definition signal_event :: "nat \<Rightarrow> fclient \<Rightarrow> i32 \<times> fclient" where
  "signal_event slot w =
     (let (current, w1) = at_xchg (ev_signaled slot) 1 w
      in (current, if current = 0 then emit (Wake (ev_signaled slot)) w1 else w1))"

definition client_set_event :: "fcfg \<Rightarrow> u64 \<Rightarrow> fclient \<Rightarrow> ((ntstatus \<times> i32 option) \<times> fclient) option" where
  "client_set_event cfg handle w =
     do {
       (r, w1) \<leftarrow> get_object cfg handle w;
       case r of
         Inl st \<Rightarrow> Some ((st, None), w1)
       | Inr obj \<Rightarrow>
           if \<not> is_event obj then Some ((STATUS_OBJECT_TYPE_MISMATCH, None), put_object obj w1)
           else (let (current, w2) = signal_event (ob_shm obj) w1
                 in Some ((STATUS_SUCCESS, Some current), put_object obj w2))
     }"

definition client_reset_event :: "fcfg \<Rightarrow> u64 \<Rightarrow> fclient \<Rightarrow> ((ntstatus \<times> i32 option) \<times> fclient) option" where
  "client_reset_event cfg handle w =
     do {
       (r, w1) \<leftarrow> get_object cfg handle w;
       case r of
         Inl st \<Rightarrow> Some ((st, None), w1)
       | Inr obj \<Rightarrow>
           if \<not> is_event obj then Some ((STATUS_OBJECT_TYPE_MISMATCH, None), put_object obj w1)
           else (let w4 = (if help_pulse cfg
                           then let (sg, w2) = at_load (ev_signaled (ob_shm obj)) w1
                                in if sg \<noteq> 0
                                   then let (lp, w3) = at_load (shm_last_pid (ob_shm obj)) w2
                                        in if lp = current_pid cfg then emit Yield w3 else w3
                                   else w2
                           else w1);
                     (current, w5) = at_xchg (ev_signaled (ob_shm obj)) 0 w4
                 in Some ((STATUS_SUCCESS, Some current), put_object obj w5))
     }"

definition client_pulse_event :: "fcfg \<Rightarrow> u64 \<Rightarrow> fclient \<Rightarrow> ((ntstatus \<times> i32 option) \<times> fclient) option" where
  "client_pulse_event cfg handle w =
     do {
       (r, w1) \<leftarrow> get_object cfg handle w;
       case r of
         Inl st \<Rightarrow> Some ((st, None), w1)
       | Inr obj \<Rightarrow>
           if \<not> is_event obj then Some ((STATUS_OBJECT_TYPE_MISMATCH, None), put_object obj w1)
           else (let (current, w2) = signal_event (ob_shm obj) w1;
                     w3 = at_store (ev_signaled (ob_shm obj)) 0 (emit Yield w2)
                 in Some ((STATUS_SUCCESS, Some current), put_object obj w3))
     }"

text \<open>The second component of the answer says whether the event is an auto-reset event.\<close>

definition client_query_event ::
  "fcfg \<Rightarrow> u64 \<Rightarrow> fclient \<Rightarrow> ((ntstatus \<times> (i32 \<times> bool) option) \<times> fclient) option" where
  "client_query_event cfg handle w =
     do {
       (r, w1) \<leftarrow> get_object cfg handle w;
       case r of
         Inl st \<Rightarrow> Some ((st, None), w1)
       | Inr obj \<Rightarrow>
           (let (sg, w2) = at_load (ev_signaled (ob_shm obj)) w1
            in Some ((STATUS_SUCCESS, Some (sg, ob_type obj = FSYNC_AUTO_EVENT)), put_object obj w2))
     }"

section \<open>Mutexes\<close>

definition fsync_release_mutex :: "fcfg \<Rightarrow> u64 \<Rightarrow> fclient \<Rightarrow> ((ntstatus \<times> i32 option) \<times> fclient) option" where
  "fsync_release_mutex cfg handle w =
     do {
       (r, w1) \<leftarrow> get_object cfg handle w;
       case r of
         Inl st \<Rightarrow> Some ((st, None), w1)
       | Inr obj \<Rightarrow>
           (let (tid, w2) = at_load (mutex_tid (ob_shm obj)) w1
            in if tid \<noteq> current_tid cfg then Some ((STATUS_MUTANT_NOT_OWNED, None), put_object obj w2)
               else let (c, w3) = at_load (mutex_count (ob_shm obj)) w2;
                        w4 = at_store (mutex_count (ob_shm obj)) (c - 1) w3;
                        w5 = (if c - 1 = 0
                              then emit (Wake (mutex_tid (ob_shm obj))) (at_store (mutex_tid (ob_shm obj)) 0 w4)
                              else w4)
                    in Some ((STATUS_SUCCESS, Some c), put_object obj w5))
     }"

text \<open>The current count, whether the caller owns it, whether it is abandoned.\<close>

definition fsync_query_mutex ::
  "fcfg \<Rightarrow> u64 \<Rightarrow> fclient \<Rightarrow> ((ntstatus \<times> (i32 \<times> bool \<times> bool) option) \<times> fclient) option" where
  "fsync_query_mutex cfg handle w =
     do {
       (r, w1) \<leftarrow> get_object cfg handle w;
       case r of
         Inl st \<Rightarrow> Some ((st, None), w1)
       | Inr obj \<Rightarrow>
           (let (c, w2) = at_load (mutex_count (ob_shm obj)) w1;
                (t1, w3) = at_load (mutex_tid (ob_shm obj)) w2;
                (t2, w4) = at_load (mutex_tid (ob_shm obj)) w3
            in Some ((STATUS_SUCCESS, Some (1 - c, t1 = current_tid cfg, t2 = - 1)), put_object obj w4))
     }"


section \<open>Pointers into the shared memory\<close>

text \<open>
  \<open>get_shm\<close> and \<open>shm_index_from_shm\<close> on addresses: \<open>addrs\<close> is the table \<open>shm_addrs\<close> of the pages mapped
  so far (0: not mapped) and \<open>mmap\<close> gives the address of a new mapping.
\<close>

definition client_get_shm :: "(nat \<Rightarrow> nat) \<Rightarrow> nat \<Rightarrow> nat list \<Rightarrow> nat option \<times> nat list" where
  "client_get_shm mmap idx addrs =
     (let off = (idx * 16) mod 2 ^ 32;
          entry = off div FSYNC_SHM_PAGE_SIZE;
          offset = off mod FSYNC_SHM_PAGE_SIZE
      in if length addrs \<le> entry then (None, addrs)
         else let addrs' = (if addrs ! entry = 0 then addrs[entry := mmap entry] else addrs)
              in (Some (addrs' ! entry + offset), addrs'))"

fun find_page :: "nat \<Rightarrow> nat \<Rightarrow> nat list \<Rightarrow> nat" where
  "find_page shm i [] = 2 ^ 32 - 1"
| "find_page shm i (a # as) =
     (if a \<le> shm \<and> shm < a + FSYNC_SHM_PAGE_SIZE
      then i * (FSYNC_SHM_PAGE_SIZE div 16) + (shm - a) div 16
      else find_page shm (Suc i) as)"

definition shm_index_from_shm :: "nat \<Rightarrow> nat list \<Rightarrow> nat" where
  "shm_index_from_shm shm addrs = find_page shm 0 addrs"

text \<open>Pages are mapped above the first page of the address space and do not overlap.\<close>

definition pages_ok :: "nat list \<Rightarrow> bool" where
  "pages_ok addrs \<longleftrightarrow> length addrs = 8192 \<and>
     (\<forall>i < length addrs. addrs ! i = 0 \<or> FSYNC_SHM_PAGE_SIZE \<le> addrs ! i) \<and>
     (\<forall>i < length addrs. \<forall>j < length addrs. i \<noteq> j \<longrightarrow> addrs ! i \<noteq> 0 \<longrightarrow> addrs ! j \<noteq> 0 \<longrightarrow>
        addrs ! i + FSYNC_SHM_PAGE_SIZE \<le> addrs ! j \<or> addrs ! j + FSYNC_SHM_PAGE_SIZE \<le> addrs ! i)"

lemma find_page_hit:
  assumes "j < length as" and "as ! j \<le> shm" and "shm < as ! j + 65536"
    and "\<forall>i < j. \<not> (as ! i \<le> shm \<and> shm < as ! i + 65536)"
  shows "find_page shm k as = (k + j) * 4096 + (shm - as ! j) div 16"
  using assms
proof (induction as arbitrary: j k)
  case (Cons a as)
  show ?case
  proof (cases j)
    case 0
    then show ?thesis using Cons.prems by simp
  next
    case (Suc i)
    have "\<not> (a \<le> shm \<and> shm < a + 65536)" using Cons.prems(4) Suc by fastforce
    moreover have "find_page shm (Suc k) as = (Suc k + i) * 4096 + (shm - as ! i) div 16"
      using Cons.prems Suc by (intro Cons.IH) auto
    ultimately show ?thesis using Suc by auto
  qed
qed simp

lemma find_page_pointer:
  assumes ok: "pages_ok addrs" and e: "e < 8192" and "addrs ! e \<noteq> 0" and off: "off < 65536"
  shows "shm_index_from_shm (addrs ! e + off) addrs = e * 4096 + off div 16"
proof -
  have len: "length addrs = 8192" using ok by (simp add: pages_ok_def)
  have "\<not> (addrs ! i \<le> addrs ! e + off \<and> addrs ! e + off < addrs ! i + 65536)" if "i < e" for i
  proof (cases "addrs ! i = 0")
    case True
    moreover have "65536 \<le> addrs ! e" using ok e assms(3) len by (auto simp: pages_ok_def)
    ultimately show ?thesis by simp
  next
    case False
    then have "addrs ! i + 65536 \<le> addrs ! e \<or> addrs ! e + 65536 \<le> addrs ! i"
      using ok e assms(3) len that by (auto simp: pages_ok_def)
    then show ?thesis using off by linarith
  qed
  then have "find_page (addrs ! e + off) 0 addrs = (0 + e) * 4096 + (addrs ! e + off - addrs ! e) div 16"
    using e len off by (intro find_page_hit) auto
  then show ?thesis by (simp add: shm_index_from_shm_def)
qed

lemma client_slot_small [simp]: "idx < 2 ^ 25 \<Longrightarrow> client_slot idx = Some idx"
proof -
  assume "idx < 2 ^ 25"
  then have "idx * 16 < 2 ^ 29" by simp
  then have "(idx * 16) mod 2 ^ 32 = idx * 16" and "idx * 16 div 65536 < 8192"
    by (simp_all add: less_mult_imp_div_less)
  then show ?thesis by (simp add: client_slot_def Let_def)
qed

section \<open>The trace of an operation\<close>

text \<open>
  What an operation does to the objects, apart from taking and putting back references and naming
  the process that uses a slot: its writes of the first two words of slots, its wakes and yields.
\<close>

fun payload :: "act \<Rightarrow> bool" where
  "payload (Wr (s, f) old new) \<longleftrightarrow> f = W0 \<or> f = W1"
| "payload (Wake p) \<longleftrightarrow> True"
| "payload Yield \<longleftrightarrow> True"
| "payload (SrvFree s) \<longleftrightarrow> False"
| "payload (SrvMsgwait b) \<longleftrightarrow> False"
| "payload (FutexWait fs) \<longleftrightarrow> False"

definition trace :: "'a world_scheme \<Rightarrow> act list" where
  "trace w = filter payload (acts w)"

lemma trace_interfere [simp]: "trace (interfere w) = trace w"
  by (simp add: trace_def)

lemma trace_emit [simp]: "trace (emit a w) = trace w @ (if payload a then [a] else [])"
  by (simp add: trace_def)

lemma trace_put [simp]:
  "trace (put_mem p v w) = trace w @ (if payload (Wr p (mem w p) v) then [Wr p (mem w p) v] else [])"
  by (simp add: trace_def)

lemma trace_load [simp]: "trace (snd (at_load p w)) = trace w"
  by (simp add: trace_def)

lemma trace_loadD: "at_load p w = (v, w') \<Longrightarrow> trace w' = trace w"
  by (metis snd_conv trace_load)

lemma trace_store [simp]:
  "trace (at_store (s, f) v w) = trace w @ (if f = W0 \<or> f = W1 then [Wr (s, f) (mem (interfere w) (s, f)) v] else [])"
  by (simp add: at_store_def)

lemma trace_xchg:
  "at_xchg (s, f) v w = (old, w') \<Longrightarrow>
     trace w' = trace w @ (if f = W0 \<or> f = W1 then [Wr (s, f) old v] else [])"
  by (auto simp: at_xchg_def Let_def)

lemma trace_cas:
  "at_cas (s, f) old new w = (v, w') \<Longrightarrow>
     trace w' = trace w @ (if (f = W0 \<or> f = W1) \<and> v = old then [Wr (s, f) old new] else [])"
  by (auto simp: at_cas_def Let_def)

lemma trace_add_ref [simp]: "trace (snd (at_add (s, W2) v w)) = trace w"
  by (simp add: at_add_def Let_def)

lemma trace_xchg_pid [simp]: "trace (snd (at_xchg (s, W3) v w)) = trace w"
  by (simp add: at_xchg_def Let_def)

lemma trace_cas_pid [simp]: "trace (snd (at_cas (s, W3) old new w)) = trace w"
  by (simp add: at_cas_def Let_def)

lemma trace_mem [simp]: "trace (w\<lparr>mem := m\<rparr>) = trace w" "trace (w\<lparr>fcache := c\<rparr>) = trace w"
  by (simp_all add: trace_def)

lemma trace_grab [simp]: "trace (grab_object obj w) = trace w"
  by (simp add: grab_object_def)

lemma trace_request [simp]: "trace (request_free s w) = trace w"
  by (simp add: request_free_def Let_def)

lemma trace_put_object [simp]: "trace (put_object obj w) = trace w"
  by (simp add: put_object_def Let_def split: prod.split) (metis trace_loadD)

lemma trace_put_wait [simp]: "trace (put_object_from_wait cfg obj w) = trace w"
  by (simp add: put_object_from_wait_def)

lemma trace_cache_load: "cache_load h w = (c, w') \<Longrightarrow> trace w' = trace w"
  by (auto simp: cache_load_def cache_interfere_def trace_def Let_def split: list.split)

lemma trace_add_to_list [simp]: "trace (add_to_list cfg h e w) = trace w"
  by (simp add: add_to_list_def trace_def)

lemma trace_server_grab [simp]: "trace (server_grab i w) = trace w"
  by (simp add: server_grab_def Let_def)

text \<open>Looking an object up leaves no trace.\<close>

lemma trace_get_cached_object:
  assumes "get_cached_object h w = Some y"
  shows "trace (snd y) = trace w"
  using assms
proof (rule get_cached_object.raw_induct [where P = "\<lambda>h w y. trace (snd y) = trace w", rotated])
  fix f h w y
  assume IH: "\<And>h w y. f h w = Some y \<Longrightarrow> trace (snd y) = trace w"
    and run: "(let (cache, w1) = cache_load h w
      in case cache of
           None \<Rightarrow> Some (None, w1)
         | Some (type, shm_idx) \<Rightarrow>
             if shm_idx = 0 then Some (None, w1)
             else do {
               slot \<leftarrow> client_slot shm_idx;
               let obj = \<lparr>ob_type = type, ob_shm = slot\<rparr>;
               let w2 = grab_object obj w1;
               let (r, w3) = at_load (shm_ref slot) w2;
               if sint r < 2 then f h (put_object obj w3)
               else (let (cache', w4) = cache_load h w3
                     in if cache' \<noteq> cache then f h (put_object obj w4)
                        else Some (Some obj, w4))
             }) = Some y"
  obtain c w1 where c: "cache_load h w = (c, w1)" by fastforce
  have w1: "trace w1 = trace w" using c by (rule trace_cache_load)
  show "trace (snd y) = trace w"
  proof (cases c)
    case None
    then show ?thesis using run c w1 by auto
  next
    case (Some e)
    obtain ty idx where e: "e = (ty, idx)" by fastforce
    show ?thesis
    proof (cases "idx = 0 \<or> client_slot idx = None")
      case True
      then show ?thesis using run c w1 Some e by (cases "idx = 0") auto
    next
      case False
      then obtain slot where slot: "client_slot idx = Some slot" and i: "idx \<noteq> 0" by auto
      let ?obj = "\<lparr>ob_type = ty, ob_shm = slot\<rparr>"
      obtain v w3 where v: "at_load (shm_ref slot) (grab_object ?obj w1) = (v, w3)" by fastforce
      have w3: "trace w3 = trace w" using trace_loadD [OF v] w1 by simp
      obtain c' w4 where c': "cache_load h w3 = (c', w4)" by fastforce
      have w4: "trace w4 = trace w" using trace_cache_load [OF c'] w3 by simp
      show ?thesis
        using run IH [of h "put_object ?obj w3" y] IH [of h "put_object ?obj w4" y] c Some e slot i v c' w3 w4
        by (auto simp: Let_def split: if_splits)
    qed
  qed
qed


lemma trace_get_object:
  assumes "get_object cfg h w = Some (r, w')"
  shows "trace w' = trace w"
proof -
  obtain c w1 where c: "get_cached_object h w = Some (c, w1)"
    using assms by (cases "get_cached_object h w") (auto simp: get_object_def)
  have w1: "trace w1 = trace w" using trace_get_cached_object [OF c] by simp
  show ?thesis
  proof (cases "c \<noteq> None \<or> sint h < 0 \<or> h = 0")
    case True
    then show ?thesis using assms c w1 by (auto simp: get_object_def split: option.splits if_splits)
  next
    case False
    then obtain c2 w2 where c2: "get_cached_object h w1 = Some (c2, w2)"
      using assms c by (cases "get_cached_object h w1") (auto simp: get_object_def)
    have w2: "trace w2 = trace w" using trace_get_cached_object [OF c2] w1 by simp
    show ?thesis
    proof (cases "srv_idx cfg h")
      case (Inl st)
      then show ?thesis using assms c c2 w2 False by (simp add: get_object_def split: option.splits)
    next
      case (Inr e)
      obtain ty idx where "e = (ty, idx)" by fastforce
      then show ?thesis
        using assms c c2 w2 False Inr
        by (cases "client_slot idx") (auto simp: get_object_def Let_def split: option.splits)
    qed
  qed
qed

section \<open>Looking up a cached handle undisturbed\<close>

definition at_rest :: "fclient \<Rightarrow> bool" where
  "at_rest w \<longleftrightarrow> intf w = [] \<and> cintf w = []"

text \<open>The handle is in the cache, and its slot has a reference and room for one more.\<close>

definition resolves :: "u64 \<Rightarrow> fclient \<Rightarrow> fobj \<Rightarrow> bool" where
  "resolves h w obj \<longleftrightarrow>
     (\<exists>idx. cache_get FSYNC_LIST_ENTRIES FSYNC_LIST_BLOCK_SIZE h (fcache w) = Some (ob_type obj, idx) \<and>
        idx \<noteq> 0 \<and> client_slot idx = Some (ob_shm obj)) \<and>
     0 < sint (mem w (shm_ref (ob_shm obj))) \<and> sint (mem w (shm_ref (ob_shm obj))) < 2 ^ 31 - 1"

lemma sint_suc: "sint x < 2 ^ 31 - 1 \<Longrightarrow> sint (x + 1) = sint x + 1" for x :: i32
proof -
  assume "sint x < 2 ^ 31 - 1"
  moreover have "- (2 ^ 31) \<le> sint x" using sint_ge [of x] by simp
  ultimately show ?thesis by (simp add: sint_word_ariths signed_take_bit_int_eq_self)
qed

definition held :: "fobj \<Rightarrow> fclient \<Rightarrow> fclient" where
  "held obj w = put_mem (shm_ref (ob_shm obj)) (mem w (shm_ref (ob_shm obj)) + 1) w"

lemma held_sel [simp]:
  "mem (held obj w) = (mem w)(shm_ref (ob_shm obj) := mem w (shm_ref (ob_shm obj)) + 1)"
  "intf (held obj w) = intf w" "trace (held obj w) = trace w" "fcache (held obj w) = fcache w"
  "cintf (held obj w) = cintf w" "at_rest (held obj w) \<longleftrightarrow> at_rest w"
  by (simp_all add: held_def at_rest_def put_mem_def trace_def)

lemma at_rest_intf [simp]: "at_rest w \<Longrightarrow> intf w = []" "at_rest w \<Longrightarrow> cintf w = []"
  by (simp_all add: at_rest_def)

lemma at_rest_put [simp]: "at_rest (put_mem p v w) \<longleftrightarrow> at_rest w" "at_rest (emit a w) \<longleftrightarrow> at_rest w"
  unfolding at_rest_def by (simp_all add: put_mem_def emit_def)

lemma get_cached_object_resolved:
  assumes "at_rest w" and "resolves h w obj"
  shows "get_cached_object h w = Some (Some obj, held obj w)"
proof -
  obtain idx where idx: "cache_get 256 4096 h (fcache w) = Some (ob_type obj, idx)" "idx \<noteq> 0"
      "client_slot idx = Some (ob_shm obj)"
    and r: "0 < sint (mem w (shm_ref (ob_shm obj)))" "sint (mem w (shm_ref (ob_shm obj))) < 2 ^ 31 - 1"
    using assms(2) by (auto simp: resolves_def)
  have eq: "\<lparr>ob_type = ob_type obj, ob_shm = ob_shm obj\<rparr> = obj" by simp
  have load: "cache_load h w = (Some (ob_type obj, idx), w)"
    "cache_load h (held obj w) = (Some (ob_type obj, idx), held obj w)"
    using idx assms(1) by (simp_all add: cache_load_def cache_interfere_def)
  have grab: "grab_object obj w = held obj w"
    using assms(1) by (simp add: grab_object_def held_def shm_simps)
  have "\<not> sint (mem w (shm_ref (ob_shm obj)) + 1) < 2" using r sint_suc [OF r(2)] by simp
  then show ?thesis
    using idx(2,3) assms(1)
    by (subst get_cached_object.simps) (simp add: load eq grab shm_simps Let_def)
qed

lemma get_object_resolved:
  "at_rest w \<Longrightarrow> resolves h w obj \<Longrightarrow> get_object cfg h w = Some (Inr obj, held obj w)"
  by (simp add: get_object_def get_cached_object_resolved)

text \<open>Putting back a reference that was taken from a slot with at least one.\<close>

lemma put_object_held:
  assumes "at_rest w" and "0 < sint r" and "sint r < 2 ^ 31 - 1" and "mem w (shm_ref (ob_shm obj)) = r + 1"
  shows "mem (put_object obj w) = (mem w)(shm_ref (ob_shm obj) := r)"
    and "at_rest (put_object obj w)" and "fcache (put_object obj w) = fcache w"
proof -
  have "r + 1 \<noteq> 1" using sint_suc [OF assms(3)] assms(2) by auto
  then have "put_object obj w = put_mem (shm_ref (ob_shm obj)) r w"
    using assms(1,4) by (simp add: put_object_def shm_simps)
  then show "mem (put_object obj w) = (mem w)(shm_ref (ob_shm obj) := r)"
    and "at_rest (put_object obj w)" and "fcache (put_object obj w) = fcache w"
    using assms(1) by simp_all (simp add: put_mem_def)
qed

text \<open>
  Every operation has the same shape: it takes a reference, works on other words of the slot, and
  puts the reference back. Its effect is that of the work alone.
\<close>

lemma put_object_after:
  assumes rest: "at_rest w" and res: "resolves h w obj" and "at_rest w2"
    and m: "mem w2 = (m(shm_ref (ob_shm obj) := mem w (shm_ref (ob_shm obj)) + 1))"
    and "m (shm_ref (ob_shm obj)) = mem w (shm_ref (ob_shm obj))"
  shows "mem (put_object obj w2) = m" and "at_rest (put_object obj w2)"
    and "fcache (put_object obj w2) = fcache w2"
proof -
  let ?r = "mem w (shm_ref (ob_shm obj))"
  have r: "0 < sint ?r" "sint ?r < 2 ^ 31 - 1" using res by (simp_all add: resolves_def)
  have "mem w2 (shm_ref (ob_shm obj)) = ?r + 1" using m by simp
  note held = put_object_held [OF assms(3) r this]
  show "mem (put_object obj w2) = m" using held(1) m assms(5) by (simp add: fun_upd_idem)
  show "at_rest (put_object obj w2)" and "fcache (put_object obj w2) = fcache w2" using held by simp_all
qed

lemma release_loop_quiet:
  assumes "intf w = []"
  shows "release_loop slot n w =
    (if n + mem w (sem_count slot) > mem w (sem_max slot) then (None, w)
     else (Some (mem w (sem_count slot)), put_mem (sem_count slot) (n + mem w (sem_count slot)) w))"
  using assms by (subst release_loop.simps) (simp add: shm_simps)

text \<open>Under interference: one successful write, of a value and a limit that were both read.\<close>

lemma release_loop_trace:
  "release_loop slot n w = (res, w') \<Longrightarrow>
     (case res of None \<Rightarrow> trace w' = trace w
      | Some c \<Rightarrow> trace w' = trace w @ [Wr (sem_count slot) c (n + c)])"
proof (induction slot n w arbitrary: res w' rule: release_loop.induct)
  case (1 slot n w)
  obtain c w1 where c: "at_load (sem_count slot) w = (c, w1)" by fastforce
  obtain m w2 where m: "at_load (sem_max slot) w1 = (m, w2)" by fastforce
  obtain old w3 where x: "at_cas (sem_count slot) c (n + c) w2 = (old, w3)" by fastforce
  have t: "trace w2 = trace w" "trace w3 = trace w2 @ (if old = c then [Wr (slot, W0) c (n + c)] else [])"
    using trace_loadD [OF c] trace_loadD [OF m] trace_cas [OF x] by simp_all
  have step: "release_loop slot n w =
      (if n + c > m then (None, w2) else if old = c then (Some c, w3) else release_loop slot n w3)"
    by (subst release_loop.simps) (simp add: c m x)
  show ?case
  proof (cases "n + c > m \<or> old = c")
    case True
    then show ?thesis using "1.prems" step t by (auto split: if_splits)
  next
    case False
    with "1.prems" step have run: "release_loop slot n w3 = (res, w')" by simp
    show ?thesis
      using "1.IH" [OF c [symmetric] refl m [symmetric] refl _ x [symmetric] refl] False run t
      by (auto split: option.splits)
  qed
qed


section \<open>Sample states\<close>

definition sample_client :: "fsync_type \<Rightarrow> mem \<Rightarrow> fclient" where
  "sample_client type m = \<lparr>mem = m, intf = [], acts = [],
     fcache = cache_put 256 4096 True 4 (Some (type, 7)) cache_empty, cintf = [],
     apc_futex = None\<rparr>"

definition sample_cfg :: fcfg where
  "sample_cfg = \<lparr>current_pid = 8, current_tid = 12, yield_to_waiters = False, simulate_quantum = False,
     help_pulse = False, ac_odyssey = False, anon_ok = True,
     srv_idx = (\<lambda>h. if h = 8 then Inr (FSYNC_MUTEX, 9) else Inl STATUS_INVALID_HANDLE),
     srv_create = (\<lambda>type low high. (STATUS_SUCCESS, 16, (type, 11))),
     srv_open = (\<lambda>type. (STATUS_SUCCESS, 20, (type, 13))),
     srv_apc_idx = 30, srv_wait = STATUS_TIMEOUT, mono_now = (100, 0)\<rparr>"

lemma sample_cached: "cacheable 256 4096 True 4 (cache_empty :: fentry cache)"
  by (simp add: cacheable_def handle_to_index_def)

lemma sample_client_rest [simp]: "at_rest (sample_client type m)"
  by (simp add: at_rest_def sample_client_def)

lemma sample_client_sel [simp]:
  "mem (sample_client type m) = m" "acts (sample_client type m) = []" "trace (sample_client type m) = []"
  by (simp_all add: sample_client_def trace_def)

lemma sample_client_resolves:
  "m (shm_ref 7) = 1 \<Longrightarrow> resolves 4 (sample_client type m) \<lparr>ob_type = type, ob_shm = 7\<rparr>"
  using block_cache.get_put_same [OF sample_cached, of "Some (type, 7)"]
  by (simp add: resolves_def sample_client_def)

definition sem_mem :: "i32 \<Rightarrow> i32 \<Rightarrow> mem" where
  "sem_mem c m = (\<lambda>p. if p = (7, W0) then c else if p = (7, W1) then m else 1)"

lemma sem_mem_sel [simp]: "sem_mem c m (7, W0) = c" "sem_mem c m (7, W1) = m" "sem_mem c m (7, W2) = 1"
  by (simp_all add: sem_mem_def)

section \<open>Properties\<close>

lemma release_semaphore_resolved:
  assumes rest: "at_rest w" and res: "resolves h w obj"
  defines "c \<equiv> mem w (sem_count (ob_shm obj))"
  shows "\<exists>w'. fsync_release_semaphore cfg h n w =
      Some (if n + c > mem w (sem_max (ob_shm obj)) then (STATUS_SEMAPHORE_LIMIT_EXCEEDED, None)
            else (STATUS_SUCCESS, Some c), w') \<and>
    at_rest w' \<and> fcache w' = fcache w \<and>
    mem w' = (if n + c > mem w (sem_max (ob_shm obj)) then mem w
              else (mem w)(sem_count (ob_shm obj) := n + c)) \<and>
    trace w' = trace w @ (if n + c > mem w (sem_max (ob_shm obj)) then []
              else [Wr (sem_count (ob_shm obj)) c (n + c), Wake (sem_count (ob_shm obj))])"
proof -
  let ?s = "ob_shm obj"
  have loop: "release_loop ?s n (held obj w) =
      (if n + c > mem w (?s, W1) then (None, held obj w)
       else (Some c, put_mem (?s, W0) (n + c) (held obj w)))"
    using rest by (simp add: release_loop_quiet c_def)
  show ?thesis
  proof (cases "n + c > mem w (?s, W1)")
    case True
    then have run: "fsync_release_semaphore cfg h n w =
        Some ((STATUS_SEMAPHORE_LIMIT_EXCEEDED, None), put_object obj (held obj w))"
      using rest by (simp add: fsync_release_semaphore_def get_object_resolved [OF rest res] loop)
    have m: "mem (held obj w) = (mem w)(shm_ref ?s := mem w (shm_ref ?s) + 1)" by simp
    note put = put_object_after [OF rest res _ m refl]
    show ?thesis using True run put rest by simp
  next
    case False
    let ?w = "emit (Wake (sem_count ?s)) (put_mem (?s, W0) (n + c) (held obj w))"
    have run: "fsync_release_semaphore cfg h n w = Some ((STATUS_SUCCESS, Some c), put_object obj ?w)"
      using rest False by (simp add: fsync_release_semaphore_def get_object_resolved [OF rest res] loop)
    have m: "mem ?w = ((mem w)((?s, W0) := n + c))(shm_ref ?s := mem w (shm_ref ?s) + 1)"
      by (simp add: fun_upd_twist)
    note put = put_object_after [OF rest res _ m]
    have "at_rest ?w" using rest by simp
    moreover have "fcache ?w = fcache w" by (simp add: put_mem_def emit_def held_def)
    ultimately show ?thesis using False run put rest by (simp add: c_def)
  qed
qed

text \<open>Releasing n permits of a semaphore, when the sum does not overflow 32 bits: if it stays
  within the maximum the call succeeds, returns the previous count, adds n to the count and wakes
  the waiters after the count was written; otherwise it fails with the limit status and changes
  nothing. Either way the reference taken to the slot is put back and no other memory changes.\<close>
theorem release_semaphore_within_limit:
  assumes "at_rest w" and "resolves h w obj" and "c = mem w (sem_count (ob_shm obj))"
    and "unat n + unat c < 2 ^ 32"
  shows "\<exists>w'. fsync_release_semaphore cfg h n w =
      Some (if unat n + unat c \<le> unat (mem w (sem_max (ob_shm obj)))
            then (STATUS_SUCCESS, Some c) else (STATUS_SEMAPHORE_LIMIT_EXCEEDED, None), w') \<and> at_rest w' \<and>
    mem w' = (if unat n + unat c \<le> unat (mem w (sem_max (ob_shm obj)))
              then (mem w)(sem_count (ob_shm obj) := n + c) else mem w) \<and>
    trace w' = trace w @ (if unat n + unat c \<le> unat (mem w (sem_max (ob_shm obj)))
              then [Wr (sem_count (ob_shm obj)) c (n + c), Wake (sem_count (ob_shm obj))] else [])"
proof -
  have "unat (n + c) = unat n + unat c" using assms(4) by (simp add: unat_add_lem [symmetric])
  then have "n + c > mem w (sem_max (ob_shm obj)) \<longleftrightarrow>
      \<not> unat n + unat c \<le> unat (mem w (sem_max (ob_shm obj)))"
    by (simp add: word_less_nat_alt not_le)
  then show ?thesis
    using release_semaphore_resolved [OF assms(1,2), of cfg n] assms(3) by auto
qed

theorem release_semaphore_within_limit_witness:
  "\<exists>w'. fsync_release_semaphore sample_cfg 4 2 (sample_client FSYNC_SEMAPHORE (sem_mem 3 10)) =
    Some ((STATUS_SUCCESS, Some 3), w') \<and> mem w' (7, W0) = 5"
  using release_semaphore_within_limit [OF sample_client_rest sample_client_resolves [of "sem_mem 3 10" FSYNC_SEMAPHORE] refl,
      of 2 sample_cfg]
  by auto

text \<open>The limit check of a release wraps: releasing a count of 2^32 - k, for any k up to the current
  count, passes the check and succeeds although it is far beyond the maximum; it takes k permits
  away from the semaphore instead of adding any.\<close>
theorem release_semaphore_wraps:
  assumes "at_rest w" and "resolves h w obj" and "c = mem w (sem_count (ob_shm obj))"
    and "0 < k" and "k \<le> c" and "c \<le> mem w (sem_max (ob_shm obj))"
  shows "\<exists>w'. fsync_release_semaphore cfg h (- k) w = Some ((STATUS_SUCCESS, Some c), w') \<and>
    mem w' (sem_count (ob_shm obj)) = c - k \<and> unat (c - k) = unat c - unat k \<and>
    unat (- k) + unat c \<ge> 2 ^ 32"
proof -
  have "c - k \<le> c" using assms(5) by (simp add: word_le_nat_alt unat_sub)
  then have "\<not> - k + c > mem w (sem_max (ob_shm obj))" using assms(6) by (simp add: not_less)
  moreover have "unat (- k) + unat c \<ge> 2 ^ 32"
  proof -
    have "unat (- k) = 2 ^ 32 - unat k"
      using assms(4) unat_sub_if' [of 0 k] by (simp add: word_gt_0 unat_eq_0)
    moreover have "unat k \<le> unat c" using assms(5) by (simp add: word_le_nat_alt)
    ultimately show ?thesis using unsigned_less [of k] by simp
  qed
  moreover have "unat (c - k) = unat c - unat k" using assms(5) by (simp add: unat_sub)
  ultimately show ?thesis
    using release_semaphore_resolved [OF assms(1,2), of cfg "- k"] assms(3) by auto
qed

theorem release_semaphore_wraps_witness:
  "\<exists>w'. fsync_release_semaphore sample_cfg 4 (- 1) (sample_client FSYNC_SEMAPHORE (sem_mem 3 10)) =
    Some ((STATUS_SUCCESS, Some 3), w') \<and> mem w' (7, W0) = 2"
  using release_semaphore_wraps [OF sample_client_rest sample_client_resolves [of "sem_mem 3 10" FSYNC_SEMAPHORE] refl,
      of 1 sample_cfg]
  by (auto simp: word_le_nat_alt)

text \<open>C26: Whatever other threads and processes do meanwhile to the memory and the handle cache, a
  release of a semaphore that succeeds writes the count exactly once, atomically from the previous
  count it reports to that count plus n, and then wakes the waiters; a release that fails writes
  no object and wakes nobody.\<close>
theorem release_semaphore_atomic:
  assumes "fsync_release_semaphore cfg h n w = Some ((st, prev), w')"
  shows "(\<exists>slot c. st = STATUS_SUCCESS \<and> prev = Some c \<and>
           trace w' = trace w @ [Wr (sem_count slot) c (n + c), Wake (sem_count slot)]) \<or>
    prev = None \<and> trace w' = trace w"
proof -
  obtain r w1 where r: "get_object cfg h w = Some (r, w1)"
    using assms by (cases "get_object cfg h w") (auto simp: fsync_release_semaphore_def)
  note t1 = trace_get_object [OF r]
  show ?thesis
  proof (cases r)
    case (Inl st')
    then show ?thesis using assms r t1 by (simp add: fsync_release_semaphore_def)
  next
    case (Inr obj)
    obtain res w2 where l: "release_loop (ob_shm obj) n w1 = (res, w2)" by fastforce
    show ?thesis
      using assms r Inr l release_loop_trace [OF l] t1
      by (cases res) (auto simp: fsync_release_semaphore_def)
  qed
qed

theorem release_semaphore_atomic_witness:
  "\<exists>w'. fsync_release_semaphore sample_cfg 4 2 (sample_client FSYNC_SEMAPHORE (sem_mem 3 10)) =
     Some ((STATUS_SUCCESS, Some 3), w') \<and> (\<exists>slot c. trace w' = [Wr (slot, W0) c (2 + c), Wake (slot, W0)])"
proof -
  obtain w' where run: "fsync_release_semaphore sample_cfg 4 2 (sample_client FSYNC_SEMAPHORE (sem_mem 3 10)) =
      Some ((STATUS_SUCCESS, Some 3), w')"
    using release_semaphore_resolved [OF sample_client_rest sample_client_resolves [of "sem_mem 3 10" FSYNC_SEMAPHORE],
        of sample_cfg 2] by auto
  from release_semaphore_atomic [OF run] run show ?thesis by auto
qed


definition set_effect :: "nat \<Rightarrow> i32 \<Rightarrow> act list" where
  "set_effect slot c = Wr (ev_signaled slot) c 1 # (if c = 0 then [Wake (ev_signaled slot)] else [])"

lemma signal_event_trace:
  "signal_event slot w = (c, w') \<Longrightarrow> trace w' = trace w @ set_effect slot c"
  by (auto simp: signal_event_def set_effect_def Let_def split: prod.splits dest!: trace_xchg)

lemma get_object_result:
  assumes "(get_object cfg h w \<bind> (\<lambda>(r, w1). case r of Inl st \<Rightarrow> Some ((st, None), w1) | Inr obj \<Rightarrow> f obj w1))
    = Some ((st, prev), w')"
  obtains (err) "prev = None" "trace w' = trace w"
  | (obj) obj w1 where "get_object cfg h w = Some (Inr obj, w1)" "f obj w1 = Some ((st, prev), w')" "trace w1 = trace w"
proof -
  obtain r w1 where r: "get_object cfg h w = Some (r, w1)"
    using assms by (cases "get_object cfg h w") auto
  show ?thesis
  proof (cases r)
    case (Inl st')
    then show ?thesis using assms r trace_get_object [OF r] err by simp
  next
    case (Inr ob)
    then show ?thesis using assms r trace_get_object [OF r] obj by simp
  qed
qed

lemma set_event_trace:
  assumes "client_set_event cfg h w = Some ((st, prev), w')"
  shows "prev = None \<and> trace w' = trace w \<or>
    (\<exists>slot c. st = STATUS_SUCCESS \<and> prev = Some c \<and> trace w' = trace w @ set_effect slot c)"
  using assms unfolding client_set_event_def
proof (cases rule: get_object_result)
  case (obj obj w1)
  obtain c w2 where c: "signal_event (ob_shm obj) w1 = (c, w2)" by fastforce
  show ?thesis
    using obj c signal_event_trace [OF c] by (cases "is_event obj") auto
qed simp

lemma pulse_event_trace:
  assumes "client_pulse_event cfg h w = Some ((st, prev), w')"
  shows "prev = None \<and> trace w' = trace w \<or>
    (\<exists>slot c v. st = STATUS_SUCCESS \<and> prev = Some c \<and>
       trace w' = trace w @ set_effect slot c @ [Yield, Wr (ev_signaled slot) v 0])"
  using assms unfolding client_pulse_event_def
proof (cases rule: get_object_result)
  case (obj obj w1)
  obtain c w2 where c: "signal_event (ob_shm obj) w1 = (c, w2)" by fastforce
  show ?thesis
    using obj c signal_event_trace [OF c] by (cases "is_event obj") auto
qed simp

lemma reset_event_trace:
  assumes "client_reset_event cfg h w = Some ((st, prev), w')"
  shows "prev = None \<and> trace w' = trace w \<or>
    (\<exists>slot c ys. st = STATUS_SUCCESS \<and> prev = Some c \<and> (ys = [] \<or> ys = [Yield] \<and> help_pulse cfg) \<and>
       trace w' = trace w @ ys @ [Wr (ev_signaled slot) c 0])"
  using assms unfolding client_reset_event_def
proof (cases rule: get_object_result)
  case (obj obj w1)
  let ?s = "ob_shm obj"
  obtain sg w2 where sg: "at_load (ev_signaled ?s) w1 = (sg, w2)" by fastforce
  obtain lp w3 where lp: "at_load (shm_last_pid ?s) w2 = (lp, w3)" by fastforce
  define w4 where "w4 = (if help_pulse cfg then if sg \<noteq> 0 then if lp = current_pid cfg then emit Yield w3 else w3 else w2 else w1)"
  have t4: "\<exists>ys. (ys = [] \<or> ys = [Yield] \<and> help_pulse cfg) \<and> trace w4 = trace w @ ys"
    using obj(3) trace_loadD [OF sg] trace_loadD [OF lp] by (simp add: w4_def)
  obtain c w5 where c: "at_xchg (ev_signaled ?s) 0 w4 = (c, w5)" by fastforce
  have t5: "trace w5 = trace w4 @ [Wr (ev_signaled ?s) c 0]" using trace_xchg [OF c] by simp
  show ?thesis
  proof (cases "is_event obj")
    case True
    then have "Some ((STATUS_SUCCESS, Some c), put_object obj w5) = Some ((st, prev), w')"
      using obj(2) sg lp c by (simp add: w4_def Let_def split: if_splits)
    then show ?thesis using t4 t5 by auto
  next
    case False
    then show ?thesis using obj by auto
  qed
qed simp

text \<open>Whatever others do meanwhile: setting an event writes it to 1 once and wakes the waiters
  exactly when it was clear, resetting writes it to 0 once (possibly after yielding to help a
  simulated pulse), pulsing does the first, yields, and clears it; each reports the value found by
  its exchange, and none of them touches an object when it reports none.\<close>
theorem event_operations_atomic:
  "(client_set_event cfg h w = Some ((st, prev), w') \<longrightarrow>
     prev = None \<and> trace w' = trace w \<or>
     (\<exists>slot c. st = STATUS_SUCCESS \<and> prev = Some c \<and> trace w' = trace w @ set_effect slot c)) \<and>
   (client_reset_event cfg h w = Some ((st, prev), w') \<longrightarrow>
     prev = None \<and> trace w' = trace w \<or>
     (\<exists>slot c ys. st = STATUS_SUCCESS \<and> prev = Some c \<and> (ys = [] \<or> ys = [Yield] \<and> help_pulse cfg) \<and>
        trace w' = trace w @ ys @ [Wr (ev_signaled slot) c 0])) \<and>
   (client_pulse_event cfg h w = Some ((st, prev), w') \<longrightarrow>
     prev = None \<and> trace w' = trace w \<or>
     (\<exists>slot c v. st = STATUS_SUCCESS \<and> prev = Some c \<and>
        trace w' = trace w @ set_effect slot c @ [Yield, Wr (ev_signaled slot) v 0]))"
  using set_event_trace [of cfg h w st prev w'] reset_event_trace [of cfg h w st prev w']
    pulse_event_trace [of cfg h w st prev w']
  by blast

theorem event_operations_atomic_witness:
  "\<exists>w'. client_set_event sample_cfg 4 (sample_client FSYNC_AUTO_EVENT (sem_mem 0 0)) = Some ((STATUS_SUCCESS, Some 0), w') \<and>
     (\<exists>slot. trace w' = [Wr (slot, W0) 0 1, Wake (slot, W0)])"
proof -
  let ?w = "sample_client FSYNC_AUTO_EVENT (sem_mem 0 0)"
  have "get_object sample_cfg 4 ?w = Some (Inr \<lparr>ob_type = FSYNC_AUTO_EVENT, ob_shm = 7\<rparr>, held \<lparr>ob_type = FSYNC_AUTO_EVENT, ob_shm = 7\<rparr> ?w)"
    by (rule get_object_resolved) (simp_all add: sample_client_resolves)
  then obtain w' where run: "client_set_event sample_cfg 4 ?w = Some ((STATUS_SUCCESS, Some 0), w')"
    by (simp add: client_set_event_def is_event_def signal_event_def shm_simps)
  from event_operations_atomic [of sample_cfg 4 ?w STATUS_SUCCESS "Some 0" w'] run
  show ?thesis by (auto simp: set_effect_def)
qed

section \<open>Mutexes undisturbed\<close>

lemma release_mutex_resolved:
  assumes "at_rest w" and "resolves h w obj" and "s = ob_shm obj" and "c = mem w (mutex_count s)"
  shows "\<exists>w'. fsync_release_mutex cfg h w =
      Some (if mem w (mutex_tid s) \<noteq> current_tid cfg then (STATUS_MUTANT_NOT_OWNED, None)
            else (STATUS_SUCCESS, Some c), w') \<and> at_rest w' \<and> fcache w' = fcache w \<and>
    mem w' = (if mem w (mutex_tid s) \<noteq> current_tid cfg then mem w
              else if c = 1 then (mem w)(mutex_count s := 0, mutex_tid s := 0)
              else (mem w)(mutex_count s := c - 1)) \<and>
    trace w' = trace w @
      (if mem w (mutex_tid s) \<noteq> current_tid cfg then []
       else if c = 1 then [Wr (mutex_count s) 1 0, Wr (mutex_tid s) (current_tid cfg) 0, Wake (mutex_tid s)]
       else [Wr (mutex_count s) c (c - 1)])"
proof -
  note get = get_object_resolved [OF assms(1,2), of cfg]
  consider (other) "mem w (mutex_tid s) \<noteq> current_tid cfg"
    | (last) "mem w (mutex_tid s) = current_tid cfg" "c = 1"
    | (nested) "mem w (mutex_tid s) = current_tid cfg" "c \<noteq> 1" by blast
  then show ?thesis
  proof cases
    case other
    have run: "fsync_release_mutex cfg h w = Some ((STATUS_MUTANT_NOT_OWNED, None), put_object obj (held obj w))"
      using other assms(1,3) by (simp add: fsync_release_mutex_def get shm_simps)
    have m: "mem (held obj w) = (mem w)(shm_ref (ob_shm obj) := mem w (shm_ref (ob_shm obj)) + 1)" by simp
    show ?thesis using other run put_object_after [OF assms(1,2) _ m refl] assms(1) by simp
  next
    case last
    let ?w = "emit (Wake (mutex_tid s)) (put_mem (mutex_tid s) 0 (put_mem (mutex_count s) 0 (held obj w)))"
    have run: "fsync_release_mutex cfg h w = Some ((STATUS_SUCCESS, Some c), put_object obj ?w)"
      using last assms by (simp add: fsync_release_mutex_def get shm_simps)
    have m: "mem ?w = ((mem w)(mutex_count s := 0, mutex_tid s := 0))(shm_ref (ob_shm obj) := mem w (shm_ref (ob_shm obj)) + 1)"
      by (simp add: fun_upd_twist)
    have "at_rest ?w" using assms(1) by simp
    moreover have "fcache ?w = fcache w" by (simp add: put_mem_def emit_def held_def)
    ultimately show ?thesis using last run put_object_after [OF assms(1,2) _ m] assms by simp
  next
    case nested
    let ?w = "put_mem (mutex_count s) (c - 1) (held obj w)"
    have run: "fsync_release_mutex cfg h w = Some ((STATUS_SUCCESS, Some c), put_object obj ?w)"
      using nested assms by (simp add: fsync_release_mutex_def get shm_simps)
    have m: "mem ?w = ((mem w)(mutex_count s := c - 1))(shm_ref (ob_shm obj) := mem w (shm_ref (ob_shm obj)) + 1)"
      by (simp add: fun_upd_twist)
    have "at_rest ?w" using assms(1) by simp
    moreover have "fcache ?w = fcache w" by (simp add: put_mem_def emit_def held_def)
    ultimately show ?thesis using nested run put_object_after [OF assms(1,2) _ m] assms by simp
  qed
qed

text \<open>Releasing a mutex: a caller that is not its owner gets an error and changes nothing; the owner
  gets the recursion count, which goes down by one; when it reaches zero the owner field is cleared
  and only then are the waiters woken. The reference to the slot is put back in every case.\<close>
theorem release_mutex_by_owner_only:
  assumes "at_rest w" and "resolves h w obj" and "s = ob_shm obj" and "c = mem w (mutex_count s)"
  shows "\<exists>w'. fsync_release_mutex cfg h w =
      Some (if mem w (mutex_tid s) \<noteq> current_tid cfg then (STATUS_MUTANT_NOT_OWNED, None)
            else (STATUS_SUCCESS, Some c), w') \<and> at_rest w' \<and> fcache w' = fcache w \<and>
    mem w' = (if mem w (mutex_tid s) \<noteq> current_tid cfg then mem w
              else if c = 1 then (mem w)(mutex_count s := 0, mutex_tid s := 0)
              else (mem w)(mutex_count s := c - 1)) \<and>
    trace w' = trace w @
      (if mem w (mutex_tid s) \<noteq> current_tid cfg then []
       else if c = 1 then [Wr (mutex_count s) 1 0, Wr (mutex_tid s) (current_tid cfg) 0, Wake (mutex_tid s)]
       else [Wr (mutex_count s) c (c - 1)])"
  by (rule release_mutex_resolved [OF assms])

theorem release_mutex_by_owner_only_witness:
  "\<exists>w'. fsync_release_mutex sample_cfg 4 (sample_client FSYNC_MUTEX (sem_mem 12 1)) =
     Some ((STATUS_SUCCESS, Some 1), w') \<and> mem w' (7, W0) = 0 \<and>
     trace w' = [Wr (7, W1) 1 0, Wr (7, W0) 12 0, Wake (7, W0)]"
proof -
  have tid: "current_tid sample_cfg = 12" by (simp add: sample_cfg_def)
  show ?thesis
    using release_mutex_by_owner_only [OF sample_client_rest sample_client_resolves [of "sem_mem 12 1" FSYNC_MUTEX]
        refl refl, of sample_cfg]
    by (auto simp: tid)
qed


section \<open>Pointers and handles\<close>

text \<open>The index recovered from a pointer is the index it was made for: mapping the page of an index
  on demand keeps the mapped pages disjoint, and looking the returned pointer up in the table gives
  back the index, for every index the table can hold; beyond it the pointer is NULL.\<close>
theorem shm_pointer_roundtrip:
  assumes "pages_ok addrs" and "idx < 2 ^ 28"
    and "\<forall>e < 8192. addrs ! e = 0 \<longrightarrow> pages_ok (addrs[e := mmap e]) \<and> mmap e \<noteq> 0"
  shows "\<exists>p addrs'. client_get_shm mmap idx addrs = (p, addrs') \<and> pages_ok addrs' \<and>
    (if idx < 2 ^ 25 then \<exists>a. p = Some a \<and> shm_index_from_shm a addrs' = idx else p = None)"
proof -
  have off: "(idx * 16) mod 2 ^ 32 = idx * 16" using assms(2) by simp
  let ?e = "idx * 16 div 65536" and ?o = "idx * 16 mod 65536"
  have len: "length addrs = 8192" using assms(1) by (simp add: pages_ok_def)
  have e: "?e < 8192 \<longleftrightarrow> idx < 2 ^ 25" by (simp add: div_less_iff_less_mult)
  show ?thesis
  proof (cases "idx < 2 ^ 25")
    case False
    then show ?thesis using e len assms(1) unfolding client_get_shm_def off Let_def by simp
  next
    case True
    define addrs' where "addrs' = (if addrs ! ?e = 0 then addrs[?e := mmap ?e] else addrs)"
    have ok: "pages_ok addrs'" and "addrs' ! ?e \<noteq> 0"
      using assms(1,3) True e len by (auto simp: addrs'_def)
    then have "shm_index_from_shm (addrs' ! ?e + ?o) addrs' = ?e * 4096 + ?o div 16"
      using True e by (intro find_page_pointer) auto
    also have "\<dots> = idx" using div_mult_mod_eq [of "idx * 16" 65536] by simp
    finally have "shm_index_from_shm (addrs' ! ?e + ?o) addrs' = idx" .
    then show ?thesis
      using True e len ok unfolding client_get_shm_def off addrs'_def Let_def by auto
  qed
qed

theorem shm_pointer_roundtrip_witness:
  "\<exists>a addrs'. client_get_shm (\<lambda>e. (e + 1) * 65536) 5000 (replicate 8192 0) = (Some a, addrs') \<and>
     shm_index_from_shm a addrs' = 5000"
proof -
  have "pages_ok (replicate 8192 0)" by (simp add: pages_ok_def)
  moreover have "\<forall>e < 8192. replicate 8192 (0 :: nat) ! e = 0 \<longrightarrow>
      pages_ok ((replicate 8192 0)[e := (e + 1) * 65536]) \<and> (e + 1) * 65536 \<noteq> 0"
    by (auto simp: pages_ok_def nth_list_update)
  ultimately show ?thesis
    using shm_pointer_roundtrip [of "replicate 8192 0" 5000 "\<lambda>e. (e + 1) * 65536"] by auto
qed

lemma cache_load_rest: "cintf w = [] \<Longrightarrow> cache_load h w = (cache_get 256 4096 h (fcache w), w)"
  by (simp add: cache_load_def cache_interfere_def)

lemma fsync_close_rest:
  "cintf w = [] \<Longrightarrow> fsync_close h w =
     (if cache_get 256 4096 h (fcache w) \<noteq> None then STATUS_SUCCESS else STATUS_INVALID_HANDLE,
      w\<lparr>fcache := snd (cache_take 256 4096 h (fcache w))\<rparr>)"
  by (simp add: fsync_close_def cache_interfere_def cache_take_get [symmetric] split: prod.split)

text \<open>The handle cache: an object opened under a handle is found under it until the handle is
  closed; closing reports success once and an invalid handle after that; no other handle's entry is
  changed by either.\<close>
theorem handle_cached_until_closed:
  assumes "cintf w = []" and "srv_open cfg type = (STATUS_SUCCESS, h, e)"
    and "cacheable FSYNC_LIST_ENTRIES FSYNC_LIST_BLOCK_SIZE (anon_ok cfg) h (fcache w)"
    and "proper_handle h" and "proper_handle h'" and "h \<noteq> h'"
  shows "\<exists>w1 w2. client_open_fsync cfg type w = ((STATUS_SUCCESS, Some h), w1) \<and>
    cache_load h w1 = (Some e, w1) \<and> fst (cache_load h' w1) = fst (cache_load h' w) \<and>
    fsync_close h w1 = (STATUS_SUCCESS, w2) \<and> cache_load h w2 = (None, w2) \<and>
    fst (fsync_close h w2) = STATUS_INVALID_HANDLE \<and> fst (cache_load h' w2) = fst (cache_load h' w)"
proof -
  obtain ty idx where e: "e = (ty, idx)" by fastforce
  define w1 where "w1 = add_to_list cfg h e w"
  define w2 where "w2 = w1\<lparr>fcache := snd (cache_take 256 4096 h (fcache w1))\<rparr>"
  have q: "cintf w1 = []" "cintf w2 = []" using assms(1) by (simp_all add: w1_def w2_def add_to_list_def)
  have c1: "fcache w1 = cache_put 256 4096 (anon_ok cfg) h (Some e) (fcache w)"
    by (simp add: w1_def add_to_list_def)
  have hit: "cache_get 256 4096 h (fcache w1) = Some e"
    unfolding c1 by (rule block_cache.get_put_same [OF assms(3)])
  have other1: "cache_get 256 4096 h' (fcache w1) = cache_get 256 4096 h' (fcache w)"
    unfolding c1 by (rule block_cache.get_put_other [OF assms(4-6)])
  have miss: "cache_get 256 4096 h (fcache w2) = None"
    by (simp add: w2_def block_cache.get_take_same)
  have other2: "cache_get 256 4096 h' (fcache w2) = cache_get 256 4096 h' (fcache w1)"
    using block_cache.get_take_other [OF assms(4-6)] by (simp add: w2_def)
  have "client_open_fsync cfg type w = ((STATUS_SUCCESS, Some h), w1)"
    using assms(2) by (simp add: client_open_fsync_def e w1_def)
  moreover have "fsync_close h w1 = (STATUS_SUCCESS, w2)"
    using hit q by (simp add: fsync_close_rest w2_def)
  ultimately show ?thesis
    using hit other1 miss other2 q assms(1) by (simp add: cache_load_rest fsync_close_rest)
qed

theorem handle_cached_until_closed_witness:
  "\<exists>w1. client_open_fsync sample_cfg FSYNC_MUTEX (sample_client FSYNC_QUEUE (\<lambda>_. 1)) = ((STATUS_SUCCESS, Some 20), w1) \<and>
     cache_load 20 w1 = (Some (FSYNC_MUTEX, 13), w1)"
proof -
  let ?w = "sample_client FSYNC_QUEUE (\<lambda>_. 1)"
  have "cintf ?w = []" and "srv_open sample_cfg FSYNC_MUTEX = (STATUS_SUCCESS, 20, (FSYNC_MUTEX, 13))"
    and "cacheable 256 4096 (anon_ok sample_cfg) 20 (fcache ?w)"
    and "proper_handle 20" and "proper_handle 4" and "(20 :: u64) \<noteq> 4"
    by (simp_all add: sample_client_def sample_cfg_def cacheable_put proper_handle_def)
      (simp add: cacheable_def handle_to_index_def)
  from handle_cached_until_closed [OF this] show ?thesis by blast
qed

text \<open>
  A cached handle whose slot was freed on the server: the lookup takes a reference, finds that it is
  the only one, gives it back to the server and starts over.
\<close>

definition stale :: "u64 \<Rightarrow> fclient \<Rightarrow> bool" where
  "stale h w \<longleftrightarrow> at_rest w \<and> (\<exists>type idx slot.
     cache_get FSYNC_LIST_ENTRIES FSYNC_LIST_BLOCK_SIZE h (fcache w) = Some (type, idx) \<and> idx \<noteq> 0 \<and>
     client_slot idx = Some slot \<and> mem w (shm_ref slot) = 0)"

lemma get_cached_object_stale:
  assumes "get_cached_object h w = Some y"
  shows "\<not> stale h w"
  using assms
proof (rule get_cached_object.raw_induct [where P = "\<lambda>h w y. \<not> stale h w", rotated])
  fix f h w y
  assume IH: "\<And>h w y. f h w = Some y \<Longrightarrow> \<not> stale h w"
    and run: "(let (cache, w1) = cache_load h w
      in case cache of
           None \<Rightarrow> Some (None, w1)
         | Some (type, shm_idx) \<Rightarrow>
             if shm_idx = 0 then Some (None, w1)
             else do {
               slot \<leftarrow> client_slot shm_idx;
               let obj = \<lparr>ob_type = type, ob_shm = slot\<rparr>;
               let w2 = grab_object obj w1;
               let (r, w3) = at_load (shm_ref slot) w2;
               if sint r < 2 then f h (put_object obj w3)
               else (let (cache', w4) = cache_load h w3
                     in if cache' \<noteq> cache then f h (put_object obj w4)
                        else Some (Some obj, w4))
             }) = Some y"
  show "\<not> stale h w"
  proof
    assume st: "stale h w"
    then obtain ty idx slot where e: "cache_get 256 4096 h (fcache w) = Some (ty, idx)" "idx \<noteq> 0"
      "client_slot idx = Some slot" "mem w (shm_ref slot) = 0" and rest: "at_rest w"
      by (auto simp: stale_def)
    let ?obj = "\<lparr>ob_type = ty, ob_shm = slot\<rparr>"
    let ?w2 = "put_mem (shm_ref slot) 1 w"
    let ?w3 = "(emit (SrvFree slot) ?w2)\<lparr>mem := (mem w)(shm_ref slot := 0)\<rparr>"
    have grab: "grab_object ?obj w = ?w2" using rest e(4) by (simp add: grab_object_def shm_simps)
    have put: "put_object ?obj ?w2 = ?w3"
      using rest by (simp add: put_object_def shm_simps request_free_def)
    have "f h ?w3 = Some y"
      using run e rest by (simp add: cache_load_rest grab put shm_simps Let_def)
    moreover have "stale h ?w3"
      using e rest unfolding stale_def at_rest_def by (simp add: put_mem_def emit_def)
    ultimately show False using IH by blast
  qed
qed

text \<open>A handle that is still in the cache after the server freed its index (no references left in the
  slot) makes every operation on it spin forever, with no other thread interfering: the lookup
  keeps taking a reference, handing it back to the server and retrying.\<close>
theorem stale_handle_never_returns:
  assumes "at_rest w" and "cache_get FSYNC_LIST_ENTRIES FSYNC_LIST_BLOCK_SIZE h (fcache w) = Some (type, idx)"
    and "idx \<noteq> 0" and "client_slot idx = Some slot" and "mem w (shm_ref slot) = 0"
  shows "get_object cfg h w = None \<and> fsync_release_mutex cfg h w = None"
proof -
  have "stale h w" using assms by (auto simp: stale_def)
  then have "get_cached_object h w = None"
    using get_cached_object_stale [of h w] by (cases "get_cached_object h w") auto
  then show ?thesis by (simp add: get_object_def fsync_release_mutex_def)
qed

theorem stale_handle_never_returns_witness:
  "get_object sample_cfg 4 (sample_client FSYNC_MUTEX (\<lambda>_. 0)) = None"
  using stale_handle_never_returns [of "sample_client FSYNC_MUTEX (\<lambda>_. 0)" 4 FSYNC_MUTEX 7 7]
    block_cache.get_put_same [OF sample_cached, of "Some (FSYNC_MUTEX, 7)"]
  by (simp add: sample_client_def at_rest_def)

end
