(* ===== verification/Fsync_Wait.thy ===== *)
theory Fsync_Wait
  imports Fsync_Client "HOL-Library.Signed_Division"
begin

text \<open>
  dlls/ntdll/unix/fsync.c: waiting. A wait takes a reference to the slot of every handle, tries to
  grab the objects by atomic operations, and sleeps on their words with \<open>futex_waitv\<close> while it
  cannot. What the kernel answers to the successive sleeps is an argument: a list of outcomes; a
  wait that needs more of them than the list has is still asleep, which is \<open>None\<close>. The words and
  the expected values that are passed to the kernel are recorded as the action \<open>FutexWait\<close>.
\<close>

section \<open>Timeouts\<close>


datatype clockid = CLOCK_REALTIME | CLOCK_MONOTONIC

definition ticks_from_time_t :: "u64 \<Rightarrow> u64" where
  "ticks_from_time_t t = (t + SECS_1601_TO_1970) * TICKSPERSEC"

definition nt_time_from_ts :: "u64 \<times> u64 \<Rightarrow> u64" where
  "nt_time_from_ts ts = ticks_from_time_t (fst ts) + word_of_int (sint (snd ts + 50) sdiv 100)"

text \<open>The resulting timeout pointer (\<open>None\<close>: NULL), end time and clock.\<close>

definition get_wait_end_time ::
  "u64 \<times> u64 \<Rightarrow> u64 option \<Rightarrow> (u64 \<times> (u64 \<times> u64) \<times> clockid) option" where
  "get_wait_end_time now timeout =
     (case timeout of
        None \<Rightarrow> None
      | Some q \<Rightarrow>
          if q = TIMEOUT_INFINITE then None
          else let (nt_end, clock_id) = (if 0 < sint q then (q, CLOCK_REALTIME)
                                         else (nt_time_from_ts now - q, CLOCK_MONOTONIC));
                   nt_end = nt_end - SECS_1601_TO_1970 * TICKSPERSEC
               in Some (q, (nt_end div TICKSPERSEC, (nt_end mod TICKSPERSEC) * 100), clock_id))"

definition update_timeout :: "u64 \<times> u64 \<Rightarrow> u64 \<times> u64 \<Rightarrow> u64" where
  "update_timeout end_ts now =
     (let timeleft = nt_time_from_ts end_ts - nt_time_from_ts now
      in if sint timeleft < 0 then 0 else timeleft)"

section \<open>Sleeping\<close>

text \<open>\<open>futex_waitv\<close> returns the index of the word that was woken, or an error.\<close>

datatype fwres = FWoken nat | FAgain | FTimedOut

type_synonym wobj = "(fobj \<times> i32) option"

text \<open>An element of \<open>objs\<close> with its \<open>prev_pid\<close>, or \<open>None\<close> for a handle that only the server can wait on.\<close>

definition try_yield_to_waiters :: "fcfg \<Rightarrow> i32 \<Rightarrow> fclient \<Rightarrow> fclient" where
  "try_yield_to_waiters cfg prev_pid w =
     (if \<not> yield_to_waiters cfg then w
      else if prev_pid = current_pid cfg then emit Yield w else w)"

definition simulate_sched_quantum :: "fcfg \<Rightarrow> fclient \<Rightarrow> fclient" where
  "simulate_sched_quantum cfg w = (if \<not> simulate_quantum cfg then w else emit Yield w)"

definition put_objects :: "fcfg \<Rightarrow> wobj list \<Rightarrow> fclient \<Rightarrow> fclient" where
  "put_objects cfg objs w =
     fold (\<lambda>o' w. case o' of None \<Rightarrow> w | Some (obj, _) \<Rightarrow> put_object_from_wait cfg obj w) objs w"

text \<open>The APC event of the thread; its pointer is NULL when the server did not supply one.\<close>

definition apc_pending :: "bool \<Rightarrow> fclient \<Rightarrow> (bool \<times> fclient) option" where
  "apc_pending alertable w =
     (if \<not> alertable then Some (False, w)
      else case apc_futex w of
        None \<Rightarrow> None
      | Some a \<Rightarrow> (let (v, w1) = at_load a w in Some (v \<noteq> 0, w1)))"

definition apc_word :: "bool \<Rightarrow> fclient \<Rightarrow> (addr \<times> i32) option list" where
  "apc_word alertable w = (if alertable then [map_option (\<lambda>a. (a, 0)) (apc_futex w)] else [])"

section \<open>Grabbing one object\<close>

text \<open>The outcome: grabbed, with what is added to the index in the status, or the word to sleep on.\<close>

datatype grab = Got nat | Contended addr i32

text \<open>
  Taking a permit: retry while the count read is not zero. \<open>current\<close> is the last value read; after
  the first failure a retry needs the interference of another thread.
\<close>

function sem_loop :: "nat \<Rightarrow> i32 \<Rightarrow> fclient \<Rightarrow> bool \<times> fclient" where
  "sem_loop slot current w =
     (if current = 0 then (False, w)
      else let (new, w1) = at_cas (sem_count slot) current (current - 1) w
           in if new = current then (True, w1) else sem_loop slot new w1)"
  by pat_completeness auto
termination
proof (relation "measure (\<lambda>(slot, current, w). 2 * length (intf w) + (if mem w (sem_count slot) = current then 0 else 1))", goal_cases)
  case 1
  show ?case by simp
next
  case (2 slot current w p new w1)
  then show ?case
    by (cases "intf w") (auto simp: at_cas_def interfere_def Let_def split: if_splits)
qed

declare sem_loop.simps [simp del]

definition try_semaphore :: "fcfg \<Rightarrow> bool \<Rightarrow> i32 \<Rightarrow> nat \<Rightarrow> fclient \<Rightarrow> grab \<times> fclient" where
  "try_semaphore cfg waited prev slot w =
     (let (new, w1) = at_load (sem_count slot) w;
          w2 = (if \<not> waited \<and> new \<noteq> 0 then try_yield_to_waiters cfg prev w1 else w1);
          (ok, w3) = sem_loop slot new w2
      in if ok then (Got 0, if waited then simulate_sched_quantum cfg w3 else w3)
         else (Contended (sem_count slot) 0, w3))"

definition try_mutex :: "fcfg \<Rightarrow> bool \<Rightarrow> i32 \<Rightarrow> nat \<Rightarrow> fclient \<Rightarrow> grab \<times> fclient" where
  "try_mutex cfg waited prev slot w =
     (let (t, w1) = at_load (mutex_tid slot) w
      in if t = current_tid cfg
         then let (c, w2) = at_load (mutex_count slot) w1; w3 = at_store (mutex_count slot) (c + 1) w2
              in (Got 0, if waited then simulate_sched_quantum cfg w3 else w3)
         else let w2 = (if waited then w1
                        else let (t', w') = at_load (mutex_tid slot) w1
                             in if t' = 0 then try_yield_to_waiters cfg prev w' else w');
                  (tid, w3) = at_cas (mutex_tid slot) 0 (current_tid cfg) w2
              in if tid = 0
                 then let w4 = at_store (mutex_count slot) 1 w3
                      in (Got 0, if waited then simulate_sched_quantum cfg w4 else w4)
                 else let (tid', w4) = (if tid = - 1 then at_cas (mutex_tid slot) (- 1) (current_tid cfg) w3
                                        else (tid, w3))
                      in if tid = - 1 \<and> tid' = - 1
                         then (Got STATUS_ABANDONED_WAIT_0, at_store (mutex_count slot) 1 w4)
                         else let w5 = (if yield_to_waiters cfg \<and> waited
                                        then let (lp, w') = at_load (shm_last_pid slot) w4
                                             in if lp = 0 then snd (at_cas (shm_last_pid slot) 0 (current_pid cfg) w')
                                                else w'
                                        else w4)
                              in (Contended (mutex_tid slot) tid', w5))"

definition odyssey_yield :: "fcfg \<Rightarrow> bool \<Rightarrow> fclient \<Rightarrow> fclient" where
  "odyssey_yield cfg alertable w = (if ac_odyssey cfg \<and> alertable then emit Yield w else w)"

definition try_auto_event :: "fcfg \<Rightarrow> bool \<Rightarrow> bool \<Rightarrow> i32 \<Rightarrow> nat \<Rightarrow> fclient \<Rightarrow> grab \<times> fclient" where
  "try_auto_event cfg waited alertable prev slot w =
     (let w1 = (if waited then w
                else let (sg, w') = at_load (ev_signaled slot) w
                     in if sg \<noteq> 0 then try_yield_to_waiters cfg prev w' else w');
          (v, w2) = at_cas (ev_signaled slot) 1 0 w1
      in if v \<noteq> 0
         then let w3 = odyssey_yield cfg alertable w2
              in (Got 0, if waited then simulate_sched_quantum cfg w3 else w3)
         else (Contended (ev_signaled slot) 0, w2))"

definition try_manual_event :: "fcfg \<Rightarrow> bool \<Rightarrow> bool \<Rightarrow> nat \<Rightarrow> fclient \<Rightarrow> grab \<times> fclient" where
  "try_manual_event cfg waited alertable slot w =
     (let (v, w1) = at_load (ev_signaled slot) w
      in if v \<noteq> 0
         then let w3 = odyssey_yield cfg alertable w1
              in (Got 0, if waited then simulate_sched_quantum cfg w3 else w3)
         else (Contended (ev_signaled slot) 0, w1))"

definition try_grab :: "fcfg \<Rightarrow> bool \<Rightarrow> bool \<Rightarrow> i32 \<Rightarrow> fobj \<Rightarrow> fclient \<Rightarrow> grab \<times> fclient" where
  "try_grab cfg waited alertable prev obj w =
     (case ob_type obj of
        FSYNC_SEMAPHORE \<Rightarrow> try_semaphore cfg waited prev (ob_shm obj) w
      | FSYNC_MUTEX \<Rightarrow> try_mutex cfg waited prev (ob_shm obj) w
      | FSYNC_AUTO_EVENT \<Rightarrow> try_auto_event cfg waited alertable prev (ob_shm obj) w
      | FSYNC_AUTO_SERVER \<Rightarrow> try_auto_event cfg waited alertable prev (ob_shm obj) w
      | _ \<Rightarrow> try_manual_event cfg waited alertable (ob_shm obj) w)"

section \<open>Waiting for any object\<close>

text \<open>One pass over the objects: the status of the first one grabbed, or the words to sleep on.\<close>

fun scan_any :: "fcfg \<Rightarrow> bool \<Rightarrow> bool \<Rightarrow> nat \<Rightarrow> wobj list \<Rightarrow> (addr \<times> i32) option list \<Rightarrow> fclient \<Rightarrow>
    (ntstatus + (addr \<times> i32) option list) \<times> fclient" where
  "scan_any cfg waited alertable i [] fs w = (Inr fs, w)"
| "scan_any cfg waited alertable i (None # objs) fs w =
     scan_any cfg waited alertable (Suc i) objs (fs @ [None]) w"
| "scan_any cfg waited alertable i (Some (obj, prev) # objs) fs w =
     (case try_grab cfg waited alertable prev obj w of
        (Got st, w1) \<Rightarrow> (Inl (st + i), w1)
      | (Contended a v, w1) \<Rightarrow> scan_any cfg waited alertable (Suc i) objs (fs @ [Some (a, v)]) w1)"

text \<open>The end of a wait that an APC interrupts.\<close>

definition user_apc :: "fcfg \<Rightarrow> wobj list \<Rightarrow> fclient \<Rightarrow> ntstatus \<times> fclient" where
  "user_apc cfg objs w =
     (let w1 = put_objects cfg objs w
      in (if srv_wait cfg = STATUS_TIMEOUT then STATUS_USER_APC else srv_wait cfg, w1))"

text \<open>
  One round of the loop up to the sleep: \<open>Inl\<close> is a return, \<open>Inr\<close> means that the thread goes to sleep.
  \<open>poll\<close> says that the timeout is zero.
\<close>

definition any_round :: "fcfg \<Rightarrow> bool \<Rightarrow> bool \<Rightarrow> wobj list \<Rightarrow> bool \<Rightarrow> fclient \<Rightarrow>
    (ntstatus \<times> fclient + fclient) option" where
  "any_round cfg alertable poll objs waited w =
     do {
       (apc, w1) \<leftarrow> apc_pending alertable w;
       if apc then Some (Inl (user_apc cfg objs w1))
       else case scan_any cfg waited alertable 0 objs [] w1 of
         (Inl st, w2) \<Rightarrow> Some (Inl (st, put_objects cfg objs w2))
       | (Inr fs, w2) \<Rightarrow>
           let w3 = odyssey_yield cfg alertable w2
           in if poll then Some (Inl (STATUS_TIMEOUT, put_objects cfg objs w3))
              else Some (Inr (emit (FutexWait (fs @ apc_word alertable w3)) w3))
     }"

fun any_loop :: "fcfg \<Rightarrow> bool \<Rightarrow> bool \<Rightarrow> wobj list \<Rightarrow> bool \<Rightarrow> fwres list \<Rightarrow> fclient \<Rightarrow>
    (ntstatus \<times> fclient) option" where
  "any_loop cfg alertable poll objs waited [] w =
     do {
       r \<leftarrow> any_round cfg alertable poll objs waited w;
       case r of Inl res \<Rightarrow> Some res | Inr w1 \<Rightarrow> None
     }"
| "any_loop cfg alertable poll objs waited (out # outs) w =
     do {
       r \<leftarrow> any_round cfg alertable poll objs waited w;
       case r of
         Inl res \<Rightarrow> Some res
       | Inr w1 \<Rightarrow> if out = FTimedOut then Some (STATUS_TIMEOUT, put_objects cfg objs w1)
                   else any_loop cfg alertable poll objs True outs w1
     }"


section \<open>Timeouts are exact\<close>

lemma sint_small: "uint x < 2 ^ 63 \<Longrightarrow> sint x = uint x" for x :: u64
proof -
  assume "uint x < 2 ^ 63"
  moreover have "- (2 ^ 63) \<le> uint x" by (rule order_trans [OF _ uint_ge_0]) simp
  ultimately show ?thesis by (simp add: sint_uint signed_take_bit_int_eq_self)
qed

lemma nsec_to_ticks:
  assumes "n < 10000000"
  shows "word_of_int (sint (n * 100 + 50 :: u64) sdiv 100) = n"
proof -
  have u: "uint n < 10000000" using assms by (simp add: word_less_def)
  have x: "uint (n * 100 + 50) = uint n * 100 + 50"
    using u by (simp add: uint_word_ariths)
  then have "sint (n * 100 + 50) = uint n * 100 + 50"
    using u by (subst sint_small) simp_all
  moreover have "(uint n * 100 + 50) sdiv 100 = uint n"
  proof -
    have "0 < uint n * 100 + 50" using uint_ge_0 [of n] by linarith
    then show ?thesis using u by (simp add: signed_divide_int_def)
  qed
  ultimately show ?thesis by (simp only: word_of_int_uint)
qed

lemma move_epoch: "(a + s) * t + r = (a * t + r) + s * t" for a s t r :: u64
  by (simp add: algebra_simps)

lemma end_time_exact:
  "nt_time_from_ts (x div TICKSPERSEC, (x mod TICKSPERSEC) * 100) = x + SECS_1601_TO_1970 * TICKSPERSEC"
proof -
  have "uint (10000000 :: u64) = 10000000" by simp
  then have "x mod TICKSPERSEC < 10000000" by (simp add: word_less_def uint_mod_distrib)
  then have "word_of_int (sint ((x mod TICKSPERSEC) * 100 + 50) sdiv 100) = x mod TICKSPERSEC"
    by (rule nsec_to_ticks)
  then have "nt_time_from_ts (x div TICKSPERSEC, (x mod TICKSPERSEC) * 100) =
      (x div TICKSPERSEC + SECS_1601_TO_1970) * TICKSPERSEC + x mod TICKSPERSEC"
    by (simp only: nt_time_from_ts_def ticks_from_time_t_def fst_conv snd_conv)
  also have "\<dots> = (x div TICKSPERSEC * TICKSPERSEC + x mod TICKSPERSEC) + SECS_1601_TO_1970 * TICKSPERSEC"
    by (rule move_epoch)
  also have "\<dots> = x + SECS_1601_TO_1970 * TICKSPERSEC" by (simp only: div_mult_mod_eq)
  finally show ?thesis .
qed

lemma sint_neg:
  fixes q :: u64
  assumes "q \<noteq> 0x8000000000000000"
  shows "sint (- q) = - sint q"
proof -
  have "sint q \<noteq> - (2 ^ 63)"
  proof
    assume "sint q = - (2 ^ 63)"
    then have "sint q = sint (0x8000000000000000 :: u64)" by simp
    with assms show False using signed_word_eqI by blast
  qed
  moreover have "- (2 ^ 63) \<le> sint q" "sint q < 2 ^ 63" using sint_ge [of q] sint_lt [of q] by simp_all
  ultimately show ?thesis by (simp add: sint_word_ariths signed_take_bit_int_eq_self)
qed

text \<open>Timeouts: for a relative timeout (zero or negative ticks) the time left at the moment the wait
  starts is exactly the requested number of ticks, for every clock reading and without any loss in
  the conversion to seconds and nanoseconds; for an absolute one the time left is the distance to
  it, or zero when it has passed.\<close>
theorem wait_end_time_exact:
  assumes "q \<noteq> TIMEOUT_INFINITE" and "q \<noteq> 0x8000000000000000"
  shows "\<exists>end_ts clock. get_wait_end_time now (Some q) = Some (q, end_ts, clock) \<and>
    (sint q \<le> 0 \<longrightarrow> clock = CLOCK_MONOTONIC \<and> update_timeout end_ts now = - q) \<and>
    (0 < sint q \<longrightarrow> clock = CLOCK_REALTIME \<and>
       update_timeout end_ts real = (if sint (q - nt_time_from_ts real) < 0 then 0 else q - nt_time_from_ts real))"
proof (cases "0 < sint q")
  case True
  then show ?thesis
    using assms by (simp add: get_wait_end_time_def update_timeout_def Let_def end_time_exact)
next
  case False
  have "sint (- q) \<ge> 0" using False sint_neg [OF assms(2)] by simp
  then show ?thesis
    using assms False by (simp add: get_wait_end_time_def update_timeout_def Let_def end_time_exact)
qed

theorem wait_end_time_exact_witness:
  "\<exists>end_ts. get_wait_end_time (1000, 7) (Some (- 5)) = Some (- 5, end_ts, CLOCK_MONOTONIC) \<and>
     update_timeout end_ts (1000, 7) = 5"
  using wait_end_time_exact [of "- 5" "(1000, 7)"] by auto

text \<open>An absolute timeout before 1970, which has passed, is not turned into an expired one: the
  subtraction of the epoch wraps and the end time passed to the kernel lies more than fifty
  thousand years ahead.\<close>
theorem wait_end_time_before_1970:
  assumes "0 < q" and "q < SECS_1601_TO_1970 * TICKSPERSEC"
  shows "\<exists>sec nsec. get_wait_end_time now (Some q) = Some (q, (sec, nsec), CLOCK_REALTIME) \<and>
    50000 * 365 * 86400 < uint sec \<and> 0 < sint sec"
proof -
  let ?x = "q - SECS_1601_TO_1970 * TICKSPERSEC"
  have q: "0 < uint q" "uint q < 116444736000000000" using assms by (simp_all add: word_less_def)
  have pos: "0 < sint q" and fin: "q \<noteq> TIMEOUT_INFINITE"
    using q sint_small [of q] assms(2) by auto
  have "uint ?x = uint q - 116444736000000000 + 2 ^ 64"
  proof -
    have "uint ?x = (uint q - 116444736000000000) mod 2 ^ 64" by (simp add: uint_word_ariths)
    also have "\<dots> = (uint q - 116444736000000000 + 2 ^ 64) mod 2 ^ 64" by (simp only: mod_add_self2)
    also have "\<dots> = uint q - 116444736000000000 + 2 ^ 64" using q by (intro mod_pos_pos_trivial) simp_all
    finally show ?thesis .
  qed
  then have sec: "uint (?x div TICKSPERSEC) = (uint q - 116444736000000000 + 2 ^ 64) div 10000000"
    by (simp add: uint_div_distrib)
  have "(2 ^ 64 - 116444736000000000) div 10000000 \<le> (uint q - 116444736000000000 + 2 ^ 64) div 10000000"
    using q by (intro zdiv_mono1) auto
  then have lo: "50000 * 365 * 86400 < uint (?x div TICKSPERSEC)" unfolding sec by simp
  have "(uint q - 116444736000000000 + 2 ^ 64) div 10000000 \<le> 2 ^ 64 div 10000000"
    using q by (intro zdiv_mono1) auto
  then have "uint (?x div TICKSPERSEC) < 2 ^ 63" unfolding sec by simp
  then have "0 < sint (?x div TICKSPERSEC)" using lo by (subst sint_small) simp_all
  moreover have "get_wait_end_time now (Some q) = Some (q, (?x div TICKSPERSEC, (?x mod TICKSPERSEC) * 100), CLOCK_REALTIME)"
    using pos fin by (simp add: get_wait_end_time_def Let_def)
  ultimately show ?thesis using lo by blast
qed

theorem wait_end_time_before_1970_witness:
  "\<exists>sec nsec. get_wait_end_time (0, 0) (Some 1) = Some (1, (sec, nsec), CLOCK_REALTIME) \<and> 0 < sint sec"
  using wait_end_time_before_1970 [of 1 "(0, 0)"] by auto

end
