(* ===== verification/Fsync_Wait_All.thy ===== *)
theory Fsync_Wait_All
  imports Fsync_Wait
begin

text \<open>
  dlls/ntdll/unix/fsync.c: waiting for all objects, and the entry points of waiting. The code waits
  on the objects one after the other, checks that all are still signaled, then grabs them one by
  one and puts back what it grabbed when it is too late for one of them, and starts over.
\<close>

section \<open>Sleeping on one object\<close>

definition do_single_wait :: "bool \<Rightarrow> addr \<Rightarrow> i32 \<Rightarrow> fwres list \<Rightarrow> fclient \<Rightarrow>
    (ntstatus \<times> fwres list \<times> fclient) option" where
  "do_single_wait alertable a val outs w =
     do {
       (apc, w1) \<leftarrow> apc_pending alertable w;
       if apc then Some (STATUS_USER_APC, outs, w1)
       else case outs of
         [] \<Rightarrow> None
       | out # outs' \<Rightarrow> do {
           (apc', w2) \<leftarrow> apc_pending alertable (emit (FutexWait (Some (a, val) # apc_word alertable w1)) w1);
           if apc' then Some (STATUS_USER_APC, outs', w2)
           else Some (case out of FWoken n \<Rightarrow> if n = 0 then STATUS_SUCCESS else STATUS_PENDING
                                | FTimedOut \<Rightarrow> STATUS_TIMEOUT
                                | FAgain \<Rightarrow> STATUS_PENDING, outs', w2)
         }
     }"

lemma do_single_wait_shrinks:
  "do_single_wait alertable a val outs w = Some (st, outs', w') \<Longrightarrow> st = STATUS_PENDING \<Longrightarrow>
     length outs' < length outs"
  by (auto simp: do_single_wait_def split: Option.bind_splits if_splits list.splits prod.splits)

text \<open>
  The inner loops of the first step: while the mutex has an owner, or the event is not signaled.
  A status of 0 or a timeout ends the loop; only \<open>STATUS_PENDING\<close> looks again.
\<close>

function wait_until :: "bool \<Rightarrow> bool \<Rightarrow> addr \<Rightarrow> ntstatus \<Rightarrow> fwres list \<Rightarrow> fclient \<Rightarrow>
    (ntstatus \<times> fwres list \<times> fclient) option" where
  "wait_until alertable is_mutex a status outs w =
     (let (current, w1) = at_load a w
      in if (if is_mutex then current = 0 else current \<noteq> 0) then Some (status, outs, w1)
         else do {
           (st, outs', w2) \<leftarrow> do_single_wait alertable a current outs w1;
           if st \<noteq> STATUS_PENDING then Some (st, outs', w2)
           else wait_until alertable is_mutex a st outs' w2
         })"
  by pat_completeness auto
termination
  by (relation "measure (\<lambda>(alertable, is_mutex, a, status, outs, w). length outs)")
    (auto dest: do_single_wait_shrinks)

declare wait_until.simps [simp del]

section \<open>The three steps\<close>

fun wait_sequence :: "fcfg \<Rightarrow> bool \<Rightarrow> wobj list \<Rightarrow> wobj list \<Rightarrow> ntstatus \<Rightarrow> fwres list \<Rightarrow> fclient \<Rightarrow>
    (ntstatus \<times> fclient + ntstatus \<times> fwres list \<times> fclient) option" where
  "wait_sequence cfg alertable objs [] status outs w = Some (Inr (status, outs, w))"
| "wait_sequence cfg alertable objs (o1 # os) status outs w =
     do {
       (own, status', outs', w') \<leftarrow>
         (case o1 of
            None \<Rightarrow> Some (False, status, outs, w)
          | Some (obj, _) \<Rightarrow>
              if ob_type obj = FSYNC_MUTEX
              then (let (t, w1) = at_load (mutex_tid (ob_shm obj)) w
                    in if t = current_tid cfg then Some (True, status, outs, w1)
                       else map_option (Pair False) (wait_until alertable True (mutex_tid (ob_shm obj)) status outs w1))
              else map_option (Pair False) (wait_until alertable False (ev_signaled (ob_shm obj)) status outs w));
       if own then wait_sequence cfg alertable objs os status' outs' w'
       else if status' = STATUS_TIMEOUT then Some (Inl (status', put_objects cfg objs w'))
       else if status' = STATUS_USER_APC then Some (Inl (user_apc cfg objs w'))
       else wait_sequence cfg alertable objs os status' outs' w'
     }"

fun still_signaled :: "fcfg \<Rightarrow> wobj list \<Rightarrow> fclient \<Rightarrow> bool \<times> fclient" where
  "still_signaled cfg [] w = (True, w)"
| "still_signaled cfg (None # os) w = still_signaled cfg os w"
| "still_signaled cfg (Some (obj, p) # os) w =
     (if ob_type obj = FSYNC_MUTEX
      then let (tid, w1) = at_load (mutex_tid (ob_shm obj)) w
           in if tid \<noteq> 0 \<and> tid \<noteq> - 1 \<and> tid \<noteq> current_tid cfg then (False, w1)
              else still_signaled cfg os w1
      else let (sg, w1) = at_load (ev_signaled (ob_shm obj)) w
           in if sg = 0 then (False, w1) else still_signaled cfg os w1)"

text \<open>
  Grabbing one object: whether it succeeded, and whether it was an abandoned mutex. The recursion
  counts of the mutexes are raised only when everything was grabbed.
\<close>

definition grab_one :: "fcfg \<Rightarrow> fobj \<Rightarrow> fclient \<Rightarrow> (bool \<times> bool) \<times> fclient" where
  "grab_one cfg obj w =
     (let s = ob_shm obj in
      case ob_type obj of
        FSYNC_MUTEX \<Rightarrow>
          (let (tid, w1) = at_load (mutex_tid s) w
           in if tid = current_tid cfg then ((True, False), w1)
              else if tid \<noteq> 0 \<and> tid \<noteq> - 1 then ((False, False), w1)
              else let (old, w2) = at_cas (mutex_tid s) tid (current_tid cfg) w1
                   in if old \<noteq> tid then ((False, False), w2) else ((True, tid = - 1), w2))
      | FSYNC_SEMAPHORE \<Rightarrow>
          (let (new, w1) = at_load (sem_count s) w; (ok, w2) = sem_loop s new w1 in ((ok, False), w2))
      | FSYNC_AUTO_EVENT \<Rightarrow> (let (v, w1) = at_cas (ev_signaled s) 1 0 w in ((v \<noteq> 0, False), w1))
      | FSYNC_AUTO_SERVER \<Rightarrow> (let (v, w1) = at_cas (ev_signaled s) 1 0 w in ((v \<noteq> 0, False), w1))
      | _ \<Rightarrow> ((True, False), w))"

text \<open>\<open>Inl i\<close>: too slow for the object at position \<open>i\<close>; \<open>Inr\<close> all grabbed, and whether one was abandoned.\<close>

fun grab_all :: "fcfg \<Rightarrow> nat \<Rightarrow> bool \<Rightarrow> wobj list \<Rightarrow> fclient \<Rightarrow> (nat + bool) \<times> fclient" where
  "grab_all cfg i abandoned [] w = (Inr abandoned, w)"
| "grab_all cfg i abandoned (None # os) w = grab_all cfg (Suc i) abandoned os w"
| "grab_all cfg i abandoned (Some (obj, p) # os) w =
     (let ((ok, ab), w1) = grab_one cfg obj w
      in if ok then grab_all cfg (Suc i) (abandoned \<or> ab) os w1 else (Inl i, w1))"

fun count_mutexes :: "wobj list \<Rightarrow> fclient \<Rightarrow> fclient" where
  "count_mutexes [] w = w"
| "count_mutexes (None # os) w = count_mutexes os w"
| "count_mutexes (Some (obj, p) # os) w =
     (if ob_type obj = FSYNC_MUTEX
      then let (c, w1) = at_load (mutex_count (ob_shm obj)) w
           in count_mutexes os (at_store (mutex_count (ob_shm obj)) (c + 1) w1)
      else count_mutexes os w)"

definition put_back :: "fobj \<Rightarrow> fclient \<Rightarrow> fclient" where
  "put_back obj w =
     (case ob_type obj of
        FSYNC_MUTEX \<Rightarrow> at_store (mutex_tid (ob_shm obj)) 0 w
      | FSYNC_SEMAPHORE \<Rightarrow> snd (at_add (sem_count (ob_shm obj)) 1 w)
      | FSYNC_AUTO_EVENT \<Rightarrow> at_store (ev_signaled (ob_shm obj)) 1 w
      | FSYNC_AUTO_SERVER \<Rightarrow> at_store (ev_signaled (ob_shm obj)) 1 w
      | _ \<Rightarrow> w)"

text \<open>The loop after \<open>tooslow\<close>, from the last object grabbed back to the first.\<close>

fun put_back_all :: "wobj list \<Rightarrow> fclient \<Rightarrow> fclient" where
  "put_back_all [] w = w"
| "put_back_all (None # os) w = put_back_all os w"
| "put_back_all (Some (obj, p) # os) w = put_back_all os (put_back obj w)"

section \<open>The loop\<close>

definition all_round :: "fcfg \<Rightarrow> bool \<Rightarrow> wobj list \<Rightarrow> ntstatus \<Rightarrow> fwres list \<Rightarrow> fclient \<Rightarrow>
    (ntstatus \<times> fclient + ntstatus \<times> fwres list \<times> fclient) option" where
  "all_round cfg alertable objs status outs w =
     do {
       r \<leftarrow> wait_sequence cfg alertable objs objs status outs w;
       case r of
         Inl res \<Rightarrow> Some (Inl res)
       | Inr (status', outs', w1) \<Rightarrow>
           (let (still, w2) = still_signaled cfg objs w1
            in if \<not> still then Some (Inr (status', outs', w2))
               else case grab_all cfg 0 False objs w2 of
                 (Inl i, w3) \<Rightarrow> Some (Inr (status', outs', put_back_all (rev (take i objs)) w3))
               | (Inr abandoned, w3) \<Rightarrow>
                   Some (Inl (if abandoned then STATUS_ABANDONED else STATUS_SUCCESS,
                              put_objects cfg objs (count_mutexes objs w3))))
     }"

partial_function (option) all_loop :: "fcfg \<Rightarrow> bool \<Rightarrow> wobj list \<Rightarrow> ntstatus \<Rightarrow> fwres list \<Rightarrow> fclient \<Rightarrow>
    (ntstatus \<times> fclient) option" where
  "all_loop cfg alertable objs status outs w =
     do {
       r \<leftarrow> all_round cfg alertable objs status outs w;
       case r of
         Inl res \<Rightarrow> Some res
       | Inr (status', outs', w') \<Rightarrow> all_loop cfg alertable objs status' outs' w'
     }"

section \<open>Entry points\<close>

fun get_objects_for_wait :: "fcfg \<Rightarrow> u64 list \<Rightarrow> wobj list \<Rightarrow> fclient \<Rightarrow>
    (ntstatus \<times> fclient + wobj list \<times> fclient) option" where
  "get_objects_for_wait cfg [] objs w = Some (Inr (objs, w))"
| "get_objects_for_wait cfg (h # hs) objs w =
     do {
       (r, w1) \<leftarrow> get_object_for_wait cfg h w;
       case r of
         Inr (obj, prev) \<Rightarrow> get_objects_for_wait cfg hs (objs @ [Some (obj, prev)]) w1
       | Inl st \<Rightarrow> if st = STATUS_NOT_IMPLEMENTED then get_objects_for_wait cfg hs (objs @ [None]) w1
                   else Some (Inl (st, put_objects cfg objs w1))
     }"

definition get_apc_futex :: "fcfg \<Rightarrow> bool \<Rightarrow> fclient \<Rightarrow> fclient" where
  "get_apc_futex cfg alertable w =
     (if alertable \<and> apc_futex w = None \<and> srv_apc_idx cfg \<noteq> 0
      then w\<lparr>apc_futex := map_option (\<lambda>s. (s, W0)) (client_slot (srv_apc_idx cfg))\<rparr> else w)"

definition only_server :: "wobj list \<Rightarrow> bool" where
  "only_server objs \<longleftrightarrow> None \<in> set objs \<and> \<not> (\<exists>o1 \<in> set objs. o1 \<noteq> None)"

definition do_wait_objects :: "fcfg \<Rightarrow> u64 list \<Rightarrow> bool \<Rightarrow> bool \<Rightarrow> u64 option \<Rightarrow> fwres list \<Rightarrow> fclient \<Rightarrow>
    (ntstatus \<times> fclient) option" where
  "do_wait_objects cfg handles wait_any alertable timeout outs w =
     (let w0 = get_apc_futex cfg alertable w;
          limit = get_wait_end_time (mono_now cfg) timeout;
          poll = (case limit of None \<Rightarrow> False | Some (q, _) \<Rightarrow> q = 0)
      in do {
        r \<leftarrow> get_objects_for_wait cfg handles [] w0;
        case r of
          Inl res \<Rightarrow> Some res
        | Inr (objs, w1) \<Rightarrow>
            if only_server objs
            then Some (STATUS_NOT_IMPLEMENTED, put_objects cfg objs w1)
            else if wait_any \<or> length handles \<le> 1 then any_loop cfg alertable poll objs False outs w1
            else all_loop cfg alertable objs STATUS_SUCCESS outs w1
      })"

definition server_set_msgwait :: "bool \<Rightarrow> fclient \<Rightarrow> fclient" where
  "server_set_msgwait in_msgwait w = emit (SrvMsgwait in_msgwait) w"

definition fsync_wait_objects :: "fcfg \<Rightarrow> u64 list \<Rightarrow> bool \<Rightarrow> bool \<Rightarrow> u64 option \<Rightarrow> fwres list \<Rightarrow> fclient \<Rightarrow>
    (ntstatus \<times> fclient) option" where
  "fsync_wait_objects cfg handles wait_any alertable timeout outs w =
     do {
       (msgwait, w1) \<leftarrow>
         (if handles = [] then Some (False, w)
          else do {
            (r, w') \<leftarrow> get_object cfg (last handles) w;
            case r of
              Inl _ \<Rightarrow> Some (False, w')
            | Inr obj \<Rightarrow> let q = (ob_type obj = FSYNC_QUEUE)
                         in Some (q, put_object obj (if q then server_set_msgwait True w' else w'))
          });
       (ret, w2) \<leftarrow> do_wait_objects cfg handles wait_any alertable timeout outs w1;
       Some (ret, if msgwait then server_set_msgwait False w2 else w2)
     }"

definition fsync_signal_and_wait :: "fcfg \<Rightarrow> u64 \<Rightarrow> u64 \<Rightarrow> bool \<Rightarrow> u64 option \<Rightarrow> fwres list \<Rightarrow> fclient \<Rightarrow>
    (ntstatus \<times> fclient) option" where
  "fsync_signal_and_wait cfg signal wait alertable timeout outs w =
     do {
       (r, w1) \<leftarrow> get_object cfg signal w;
       case r of
         Inl st \<Rightarrow> Some (st, w1)
       | Inr obj \<Rightarrow> do {
           (ret, w2) \<leftarrow>
             (case ob_type obj of
                FSYNC_SEMAPHORE \<Rightarrow> map_option (\<lambda>((st, _), w'). (st, w')) (fsync_release_semaphore cfg signal 1 w1)
              | FSYNC_AUTO_EVENT \<Rightarrow> map_option (\<lambda>((st, _), w'). (st, w')) (client_set_event cfg signal w1)
              | FSYNC_MANUAL_EVENT \<Rightarrow> map_option (\<lambda>((st, _), w'). (st, w')) (client_set_event cfg signal w1)
              | FSYNC_MUTEX \<Rightarrow> map_option (\<lambda>((st, _), w'). (st, w')) (fsync_release_mutex cfg signal w1)
              | _ \<Rightarrow> Some (STATUS_OBJECT_TYPE_MISMATCH, w1));
           let w3 = put_object obj w2;
           if ret \<noteq> 0 then Some (ret, w3)
           else fsync_wait_objects cfg [wait] True alertable timeout outs w3
         }
     }"

end
