(* ===== verification/Fsync_Grab.thy ===== *)
theory Fsync_Grab
  imports Fsync_Wait_All
begin

text \<open>
  What a wait does to the objects (fsync.c of the client), whatever other threads do at the same
  time. The effects of an operation are its trace without the yields; a successful wait for any
  of several objects has the effects of exactly one acquisition, all other ends of it none.
\<close>

definition effects :: "'a world_scheme \<Rightarrow> act list" where
  "effects w = filter (\<lambda>a. a \<noteq> Yield) (trace w)"

lemma effects_trace: "trace w' = trace w \<Longrightarrow> effects w' = effects w"
  by (simp add: effects_def)

lemma effects_simps [simp]:
  "effects (emit Yield w) = effects w" "effects (emit (FutexWait fs) w) = effects w"
  "effects (emit (SrvMsgwait b) w) = effects w"
  "effects (put_object obj w) = effects w" "effects (put_object_from_wait cfg obj w) = effects w"
  "effects (snd (at_cas (s, W3) old new w)) = effects w"
  "effects (at_store (s, W3) v w) = effects w"
  by (simp_all add: effects_def)

lemma effects_load: "at_load p w = (v, w') \<Longrightarrow> effects w' = effects w"
  by (simp add: effects_def trace_loadD)

lemma effects_xchg_pid: "at_xchg (s, W3) v w = (x, w') \<Longrightarrow> effects w' = effects w"
  by (simp add: effects_def trace_xchg)

lemma effects_cas:
  "at_cas (s, f) old new w = (v, w') \<Longrightarrow>
     effects w' = effects w @ (if (f = W0 \<or> f = W1) \<and> v = old then [Wr (s, f) old new] else [])"
  by (simp add: effects_def trace_cas)

lemma effects_store_count:
  "\<exists>c. effects (at_store (s, W1) v w) = effects w @ [Wr (s, W1) c v]"
  by (simp add: effects_def)

lemma effects_store:
  "effects (at_store (s, W0) v w) = effects w @ [Wr (s, W0) (mem (interfere w) (s, W0)) v]"
  by (simp add: effects_def)

lemma effects_yields [simp]:
  "effects (try_yield_to_waiters cfg prev w) = effects w"
  "effects (simulate_sched_quantum cfg w) = effects w"
  "effects (odyssey_yield cfg alertable w) = effects w"
  by (simp_all add: try_yield_to_waiters_def simulate_sched_quantum_def odyssey_yield_def)

lemma effects_put_objects [simp]: "effects (put_objects cfg objs w) = effects w"
  unfolding put_objects_def by (induction objs arbitrary: w) (auto split: option.split)

lemma effects_apc: "apc_pending alertable w = Some (b, w') \<Longrightarrow> effects w' = effects w"
  by (auto simp: apc_pending_def Let_def split: if_splits option.splits prod.splits dest: effects_load)

section \<open>Acquiring one object\<close>

text \<open>
  The writes by which the caller acquires an object, with the offset this adds to the status: a permit
  is taken, a free or abandoned mutex gets the caller as its owner with count one, a mutex of the
  caller is counted up, an auto-reset event is reset, a manual-reset event is left alone. (An
  auto-reset event whose word is neither 0 nor 1 counts as signaled and is not reset.)
\<close>

definition acquires :: "fcfg \<Rightarrow> fobj \<Rightarrow> nat \<Rightarrow> act list \<Rightarrow> bool" where
  "acquires cfg obj k es \<longleftrightarrow>
     (let s = ob_shm obj; me = current_tid cfg in
      case ob_type obj of
        FSYNC_SEMAPHORE \<Rightarrow> k = 0 \<and> (\<exists>c. c \<noteq> 0 \<and> es = [Wr (sem_count s) c (c - 1)])
      | FSYNC_MUTEX \<Rightarrow>
          k = 0 \<and> (\<exists>c c'. es = [Wr (mutex_count s) c (c' + 1)]) \<or>
          k = 0 \<and> (\<exists>c. es = [Wr (mutex_tid s) 0 me, Wr (mutex_count s) c 1]) \<or>
          k = STATUS_ABANDONED_WAIT_0 \<and> (\<exists>c. es = [Wr (mutex_tid s) (- 1) me, Wr (mutex_count s) c 1])
      | FSYNC_AUTO_EVENT \<Rightarrow> k = 0 \<and> (es = [Wr (ev_signaled s) 1 0] \<or> es = [])
      | FSYNC_AUTO_SERVER \<Rightarrow> k = 0 \<and> (es = [Wr (ev_signaled s) 1 0] \<or> es = [])
      | _ \<Rightarrow> k = 0 \<and> es = [])"

definition grab_result :: "fcfg \<Rightarrow> fobj \<Rightarrow> fclient \<Rightarrow> grab \<Rightarrow> fclient \<Rightarrow> bool" where
  "grab_result cfg obj w g w' \<longleftrightarrow>
     (case g of
        Got k \<Rightarrow> \<exists>es. acquires cfg obj k es \<and> effects w' = effects w @ es
      | Contended a v \<Rightarrow> effects w' = effects w \<and> a = (ob_shm obj, W0) \<and>
          (ob_type obj \<noteq> FSYNC_MUTEX \<longrightarrow> v = 0))"

lemma sem_loop_effects:
  "sem_loop s current w = (ok, w') \<Longrightarrow>
     if ok then \<exists>c. c \<noteq> 0 \<and> effects w' = effects w @ [Wr (sem_count s) c (c - 1)]
     else effects w' = effects w"
proof (induction s current w arbitrary: ok w' rule: sem_loop.induct)
  case (1 s current w)
  show ?case
  proof (cases "current = 0")
    case True
    then show ?thesis using "1.prems" by (simp add: sem_loop.simps [of s 0 w])
  next
    case False
    obtain new w1 where x: "at_cas (sem_count s) current (current - 1) w = (new, w1)" by fastforce
    note ef = effects_cas [OF x]
    show ?thesis
    proof (cases "new = current")
      case True
      then show ?thesis
        using "1.prems" False x ef by (auto simp: sem_loop.simps [of s current w])
    next
      case new: False
      then have "sem_loop s new w1 = (ok, w')"
        using "1.prems" False x by (simp add: sem_loop.simps [of s current w])
      from "1.IH" [OF False x [symmetric] refl new this] ef new show ?thesis by (cases ok) simp_all
    qed
  qed
qed

lemma try_semaphore_result:
  assumes "try_semaphore cfg waited prev (ob_shm obj) w = (g, w')" and "ob_type obj = FSYNC_SEMAPHORE"
  shows "grab_result cfg obj w g w'"
proof -
  obtain new w1 where l: "at_load (sem_count (ob_shm obj)) w = (new, w1)" by fastforce
  define w2 where "w2 = (if \<not> waited \<and> new \<noteq> 0 then try_yield_to_waiters cfg prev w1 else w1)"
  obtain ok w3 where s: "sem_loop (ob_shm obj) new w2 = (ok, w3)" by fastforce
  have e2: "effects w2 = effects w" using effects_load [OF l] by (simp add: w2_def)
  show ?thesis
    using assms sem_loop_effects [OF s] e2 l s
    by (auto simp: try_semaphore_def w2_def [symmetric] grab_result_def acquires_def Let_def split: if_splits)
qed

lemma try_mutex_result:
  assumes run: "try_mutex cfg waited prev (ob_shm obj) w = (g, w')" and ty: "ob_type obj = FSYNC_MUTEX"
  shows "grab_result cfg obj w g w'"
proof -
  let ?s = "ob_shm obj" and ?me = "current_tid cfg"
  obtain t w1 where l: "at_load (mutex_tid ?s) w = (t, w1)" by fastforce
  have e1: "effects w1 = effects w" by (rule effects_load [OF l])
  show ?thesis
  proof (cases "t = ?me")
    case True
    obtain c w2 where c: "at_load (mutex_count ?s) w1 = (c, w2)" by fastforce
    obtain c' where "effects (at_store (mutex_count ?s) (c + 1) w2) = effects w2 @ [Wr (?s, W1) c' (c + 1)]"
      using effects_store_count by blast
    then show ?thesis
      using run True l c e1 effects_load [OF c]
      by (auto simp: try_mutex_def grab_result_def acquires_def ty Let_def)
  next
    case False
    obtain t' w1' where l': "at_load (mutex_tid ?s) w1 = (t', w1')" by fastforce
    define w2 where "w2 = (if waited then w1 else if t' = 0 then try_yield_to_waiters cfg prev w1' else w1')"
    have e2: "effects w2 = effects w" using e1 effects_load [OF l'] by (simp add: w2_def)
    obtain tid w3 where x: "at_cas (mutex_tid ?s) 0 ?me w2 = (tid, w3)" by fastforce
    note e3 = effects_cas [OF x]
    have run': "try_mutex cfg waited prev ?s w =
        (if tid = 0
         then let w4 = at_store (mutex_count ?s) 1 w3
              in (Got 0, if waited then simulate_sched_quantum cfg w4 else w4)
         else let (tid', w4) = (if tid = - 1 then at_cas (mutex_tid ?s) (- 1) ?me w3 else (tid, w3))
              in if tid = - 1 \<and> tid' = - 1
                 then (Got STATUS_ABANDONED_WAIT_0, at_store (mutex_count ?s) 1 w4)
                 else let w5 = (if yield_to_waiters cfg \<and> waited
                                then let (lp, w') = at_load (shm_last_pid ?s) w4
                                     in if lp = 0 then snd (at_cas (shm_last_pid ?s) 0 (current_pid cfg) w')
                                        else w'
                                else w4)
                      in (Contended (mutex_tid ?s) tid', w5))"
      using False x by (cases waited) (simp_all add: try_mutex_def l l' w2_def Let_def split del: if_split cong: if_cong)
    show ?thesis
    proof (cases "tid = 0")
      case True
      obtain c' where "effects (at_store (mutex_count ?s) 1 w3) = effects w3 @ [Wr (?s, W1) c' 1]"
        using effects_store_count by blast
      then show ?thesis
        using run run' True e3 e2 by (auto simp: grab_result_def acquires_def ty Let_def)
    next
      case busy: False
      obtain tid' w4 where y: "(if tid = - 1 then at_cas (mutex_tid ?s) (- 1) ?me w3 else (tid, w3)) = (tid', w4)"
        by fastforce
      have e4: "effects w4 = effects w @ (if tid = - 1 \<and> tid' = - 1 then [Wr (?s, W0) (- 1) ?me] else [])"
        using y e3 e2 busy effects_cas [of ?s W0 "- 1" ?me w3 tid' w4] by (auto split: if_splits)
      show ?thesis
      proof (cases "tid = - 1 \<and> tid' = - 1")
        case True
        obtain c' where "effects (at_store (mutex_count ?s) 1 w4) = effects w4 @ [Wr (?s, W1) c' 1]"
          using effects_store_count by blast
        then show ?thesis
          using run run' busy y True e4 by (auto simp: grab_result_def acquires_def ty Let_def)
      next
        case lost: False
        obtain lp w5 where lp: "at_load (shm_last_pid ?s) w4 = (lp, w5)" by fastforce
        show ?thesis
          using run run' busy y lost e4 lp effects_load [OF lp]
          by (auto simp: grab_result_def ty Let_def split: if_splits)
      qed
    qed
  qed
qed

lemma try_auto_event_result:
  assumes "try_auto_event cfg waited alertable prev (ob_shm obj) w = (g, w')"
    and "ob_type obj = FSYNC_AUTO_EVENT \<or> ob_type obj = FSYNC_AUTO_SERVER"
  shows "grab_result cfg obj w g w'"
proof -
  obtain sg w0 where l: "at_load (ev_signaled (ob_shm obj)) w = (sg, w0)" by fastforce
  define w1 where "w1 = (if waited then w else if sg \<noteq> 0 then try_yield_to_waiters cfg prev w0 else w0)"
  have e1: "effects w1 = effects w" using effects_load [OF l] by (simp add: w1_def)
  obtain v w2 where x: "at_cas (ev_signaled (ob_shm obj)) 1 0 w1 = (v, w2)" by fastforce
  have "try_auto_event cfg waited alertable prev (ob_shm obj) w =
      (if v \<noteq> 0 then (Got 0, if waited then simulate_sched_quantum cfg (odyssey_yield cfg alertable w2)
                             else odyssey_yield cfg alertable w2)
       else (Contended (ev_signaled (ob_shm obj)) 0, w2))"
    using x by (cases waited) (simp_all add: try_auto_event_def l w1_def Let_def split del: if_split cong: if_cong)
  then show ?thesis
    using assms effects_cas [OF x] e1
    by (auto simp: grab_result_def acquires_def Let_def split: if_splits)
qed

lemma try_manual_event_result:
  assumes "try_manual_event cfg waited alertable (ob_shm obj) w = (g, w')"
    and "ob_type obj \<in> {FSYNC_MANUAL_EVENT, FSYNC_MANUAL_SERVER, FSYNC_QUEUE}"
  shows "grab_result cfg obj w g w'"
proof -
  obtain v w1 where l: "at_load (ev_signaled (ob_shm obj)) w = (v, w1)" by fastforce
  show ?thesis
    using assms effects_load [OF l]
    by (auto simp: try_manual_event_def l grab_result_def acquires_def Let_def split: if_splits)
qed

lemma try_grab_result:
  assumes "try_grab cfg waited alertable prev obj w = (g, w')"
  shows "grab_result cfg obj w g w'"
  using assms
  by (cases "ob_type obj")
    (auto simp: try_grab_def intro: try_semaphore_result try_mutex_result try_auto_event_result
      try_manual_event_result)


section \<open>Waiting for any object\<close>

text \<open>The effects of a wait that ended with status \<open>st\<close>: one acquisition that the status names, or none.\<close>

definition one_or_none :: "fcfg \<Rightarrow> nat \<Rightarrow> ntstatus \<Rightarrow> act list \<Rightarrow> bool" where
  "one_or_none cfg n st es \<longleftrightarrow>
     es = [] \<or> (\<exists>i k obj. i < n \<and> st = k + i \<and> acquires cfg obj k es)"

text \<open>The object at position \<open>j\<close> was acquired; and the words a thread sleeps on when none was.\<close>

definition scan_hit :: "fcfg \<Rightarrow> nat \<Rightarrow> wobj list \<Rightarrow> ntstatus \<Rightarrow> act list \<Rightarrow> bool" where
  "scan_hit cfg i objs st es \<longleftrightarrow>
     (\<exists>j k obj prev. j < length objs \<and> objs ! j = Some (obj, prev) \<and> st = k + (i + j) \<and> acquires cfg obj k es)"

definition sleep_word :: "wobj \<Rightarrow> (addr \<times> i32) option \<Rightarrow> bool" where
  "sleep_word o1 f \<longleftrightarrow>
     (case o1 of None \<Rightarrow> f = None
      | Some (obj, prev) \<Rightarrow> \<exists>v. f = Some ((ob_shm obj, W0), v) \<and> (ob_type obj \<noteq> FSYNC_MUTEX \<longrightarrow> v = 0))"

lemma scan_hit_head: "acquires cfg obj k es \<Longrightarrow> scan_hit cfg i (Some (obj, prev) # objs) (k + i) es"
  unfolding scan_hit_def by (rule exI [of _ 0], rule exI [of _ k], rule exI [of _ obj]) simp

lemma scan_hit_tail:
  assumes "scan_hit cfg (Suc i) objs st es"
  shows "scan_hit cfg i (o1 # objs) st es"
proof -
  obtain j k obj prev where "j < length objs" "objs ! j = Some (obj, prev)" "st = k + (Suc i + j)" "acquires cfg obj k es"
    using assms by (auto simp: scan_hit_def)
  then show ?thesis
    unfolding scan_hit_def by - (rule exI [of _ "Suc j"], rule exI [of _ k], rule exI [of _ obj], simp)
qed

lemma scan_any_result:
  "scan_any cfg waited alertable i objs fs w = (r, w') \<Longrightarrow>
     (case r of
        Inl st \<Rightarrow> \<exists>es. scan_hit cfg i objs st es \<and> effects w' = effects w @ es
      | Inr fs' \<Rightarrow> effects w' = effects w \<and> (\<exists>new. fs' = fs @ new \<and> list_all2 sleep_word objs new))"
proof (induction cfg waited alertable i objs fs w arbitrary: r w' rule: scan_any.induct)
  case (1 cfg waited alertable i fs w)
  then show ?case by auto
next
  case (2 cfg waited alertable i objs fs w)
  have run: "scan_any cfg waited alertable (Suc i) objs (fs @ [None]) w = (r, w')"
    using "2.prems" by simp
  show ?case
  proof (cases r)
    case (Inl st)
    then show ?thesis using "2.IH" [OF run] by (auto intro: scan_hit_tail)
  next
    case (Inr fs')
    then obtain new where "fs' = (fs @ [None]) @ new" "list_all2 sleep_word objs new" "effects w' = effects w"
      using "2.IH" [OF run] by auto
    then show ?thesis using Inr by (auto simp: sleep_word_def intro!: exI [of _ "None # new"])
  qed
next
  case (3 cfg waited alertable i obj prev objs fs w)
  obtain g w1 where g: "try_grab cfg waited alertable prev obj w = (g, w1)" by fastforce
  note res = try_grab_result [OF g]
  show ?case
  proof (cases g)
    case (Got k)
    then have "r = Inl (k + i)" and "w' = w1" using "3.prems" g by simp_all
    then show ?thesis using res Got by (auto simp: grab_result_def intro: scan_hit_head)
  next
    case (Contended a v)
    have e1: "effects w1 = effects w" and s: "sleep_word (Some (obj, prev)) (Some (a, v))"
      using res Contended by (simp_all add: grab_result_def sleep_word_def)
    have run: "scan_any cfg waited alertable (Suc i) objs (fs @ [Some (a, v)]) w1 = (r, w')"
      using "3.prems" g Contended by simp
    note IH = "3.IH" [OF g [symmetric] Contended run]
    show ?thesis
    proof (cases r)
      case (Inl st)
      then show ?thesis using IH e1 by (auto intro: scan_hit_tail)
    next
      case (Inr fs')
      then obtain new where "fs' = (fs @ [Some (a, v)]) @ new" "list_all2 sleep_word objs new" "effects w' = effects w1"
        using IH by auto
      then show ?thesis using Inr e1 s by (auto intro!: exI [of _ "Some (a, v) # new"])
    qed
  qed
qed

lemma scan_hit_one: "scan_hit cfg 0 objs st es \<Longrightarrow> one_or_none cfg (length objs) st es"
  by (auto simp: scan_hit_def one_or_none_def)

lemma user_apc_effects: "user_apc cfg objs w = (st, w') \<Longrightarrow> effects w' = effects w"
  by (auto simp: user_apc_def Let_def)

lemma any_round_result:
  assumes "any_round cfg alertable poll objs waited w = Some r"
  shows "case r of Inl (st, w') \<Rightarrow> \<exists>es. one_or_none cfg (length objs) st es \<and> effects w' = effects w @ es
    | Inr w' \<Rightarrow> effects w' = effects w"
proof -
  obtain b w1 where apc: "apc_pending alertable w = Some (b, w1)"
    using assms by (cases "apc_pending alertable w") (auto simp: any_round_def)
  have e1: "effects w1 = effects w" by (rule effects_apc [OF apc])
  obtain q w2 where sc: "scan_any cfg waited alertable 0 objs [] w1 = (q, w2)" by fastforce
  show ?thesis
  proof (cases b)
    case True
    then show ?thesis
      using assms apc e1 by (auto simp: any_round_def user_apc_def one_or_none_def Let_def)
  next
    case False
    show ?thesis
    proof (cases q)
      case (Inl st)
      obtain es where "scan_hit cfg 0 objs st es" "effects w2 = effects w1 @ es"
        using scan_any_result [OF sc] Inl by auto
      then show ?thesis
        using assms apc False sc Inl e1 by (auto simp: any_round_def dest: scan_hit_one)
    next
      case (Inr fs)
      have "effects w2 = effects w1" using scan_any_result [OF sc] Inr by simp
      then show ?thesis
        using assms apc False sc Inr e1
        by (auto simp: any_round_def one_or_none_def Let_def split: if_splits)
    qed
  qed
qed

lemma any_loop_result:
  "any_loop cfg alertable poll objs waited outs w = Some (st, w') \<Longrightarrow>
     \<exists>es. one_or_none cfg (length objs) st es \<and> effects w' = effects w @ es"
proof (induction cfg alertable poll objs waited outs w rule: any_loop.induct)
  case (1 cfg alertable poll objs waited w)
  then obtain r where r: "any_round cfg alertable poll objs waited w = Some r"
    by (cases "any_round cfg alertable poll objs waited w") auto
  then show ?case using 1 any_round_result [OF r] by (cases r) auto
next
  case (2 cfg alertable poll objs waited out outs w)
  then obtain r where r: "any_round cfg alertable poll objs waited w = Some r"
    by (cases "any_round cfg alertable poll objs waited w") auto
  show ?case
  proof (cases r)
    case (Inl res)
    then show ?thesis using "2.prems" r any_round_result [OF r] by auto
  next
    case (Inr w1)
    then have e1: "effects w1 = effects w" using any_round_result [OF r] by simp
    show ?thesis
    proof (cases "out = FTimedOut")
      case True
      then show ?thesis using "2.prems" r Inr e1 by (auto simp: one_or_none_def)
    next
      case False
      then have "any_loop cfg alertable poll objs True outs w1 = Some (st, w')"
        using "2.prems" r Inr by simp
      then show ?thesis using "2.IH" [OF r Inr False] e1 by simp
    qed
  qed
qed

section \<open>The whole call\<close>

lemma effects_get_object: "get_object cfg h w = Some (r, w') \<Longrightarrow> effects w' = effects w"
  by (rule effects_trace) (rule trace_get_object)

lemma effects_get_object_for_wait:
  assumes "get_object_for_wait cfg h w = Some (r, w')"
  shows "effects w' = effects w"
proof -
  obtain q w1 where q: "get_object cfg h w = Some (q, w1)"
    using assms by (cases "get_object cfg h w") (auto simp: get_object_for_wait_def)
  show ?thesis
    using assms q effects_get_object [OF q]
    by (cases q) (auto simp: get_object_for_wait_def Let_def split: if_splits prod.splits dest: effects_xchg_pid)
qed

lemma effects_get_objects:
  "get_objects_for_wait cfg hs objs w = Some r \<Longrightarrow>
     (case r of Inl (st, w') \<Rightarrow> effects w' = effects w
      | Inr (objs', w') \<Rightarrow> effects w' = effects w \<and> length objs' = length objs + length hs)"
proof (induction cfg hs objs w rule: get_objects_for_wait.induct)
  case (1 cfg objs w)
  then show ?case by auto
next
  case (2 cfg h hs objs w)
  obtain q w1 where q: "get_object_for_wait cfg h w = Some (q, w1)"
    using "2.prems" by (cases "get_object_for_wait cfg h w") auto
  note e1 = effects_get_object_for_wait [OF q]
  show ?case
  proof (cases q)
    case (Inr o1)
    obtain obj prev where o1: "o1 = (obj, prev)" by fastforce
    have "get_objects_for_wait cfg hs (objs @ [Some (obj, prev)]) w1 = Some r"
      using "2.prems" q Inr o1 by simp
    from "2.IH" (2) [OF q refl Inr o1 [symmetric] this] e1 show ?thesis by (auto split: sum.splits)
  next
    case (Inl st)
    show ?thesis
    proof (cases "st = STATUS_NOT_IMPLEMENTED")
      case True
      then have "get_objects_for_wait cfg hs (objs @ [None]) w1 = Some r"
        using "2.prems" q Inl by simp
      from "2.IH" (1) [OF q refl Inl True this] e1 show ?thesis by (auto split: sum.splits)
    next
      case False
      then show ?thesis using "2.prems" q Inl e1 by auto
    qed
  qed
qed

lemma effects_apc_futex [simp]: "effects (get_apc_futex cfg alertable w) = effects w"
  by (simp add: get_apc_futex_def effects_def trace_def)

lemma do_wait_any_effects:
  assumes run: "do_wait_objects cfg hs wait_any alertable timeout outs w = Some (st, w')"
    and any: "wait_any \<or> length hs \<le> 1"
  shows "\<exists>es. one_or_none cfg (length hs) st es \<and> effects w' = effects w @ es"
proof -
  obtain r where r: "get_objects_for_wait cfg hs [] (get_apc_futex cfg alertable w) = Some r"
    using run by (cases "get_objects_for_wait cfg hs [] (get_apc_futex cfg alertable w)") (auto simp: do_wait_objects_def)
  note e = effects_get_objects [OF r]
  show ?thesis
  proof (cases r)
    case (Inl res)
    then show ?thesis using run r e by (cases res) (auto simp: do_wait_objects_def one_or_none_def)
  next
    case (Inr res)
    obtain objs w1 where res: "res = (objs, w1)" by fastforce
    have e1: "effects w1 = effects w" "length objs = length hs" using e Inr res by simp_all
    show ?thesis
    proof (cases "only_server objs")
      case True
      then have "Some (st, w') = Some (STATUS_NOT_IMPLEMENTED, put_objects cfg objs w1)"
        using run r Inr res by (simp add: do_wait_objects_def Let_def)
      then show ?thesis using e1 by (auto simp: one_or_none_def)
    next
      case False
      then obtain poll where "any_loop cfg alertable poll objs False outs w1 = Some (st, w')"
        using run r Inr res any by (auto simp: do_wait_objects_def Let_def)
      from any_loop_result [OF this] e1 show ?thesis by simp
    qed
  qed
qed


end
