(* ===== verification/Waitable.thy ===== *)
theory Waitable
  imports Prelude
begin

text \<open>
  The contract that waiting for all objects relies on (fsync.c and esync.c of the client): grabbing an
  available object can be put back. The code grabs the objects in order and, when one of them is
  not available any more, puts back those it grabbed from the last to the first.
\<close>

text \<open>The objects grabbed before the first one that is not available, and the state then.\<close>

fun grab_prefix :: "('o \<Rightarrow> 's \<Rightarrow> bool) \<Rightarrow> ('o \<Rightarrow> 's \<Rightarrow> 's) \<Rightarrow> 'o list \<Rightarrow> 's \<Rightarrow> 'o list \<times> 's" where
  "grab_prefix avail grab [] s = ([], s)"
| "grab_prefix avail grab (x # xs) s =
     (if avail x s then (let (ys, s') = grab_prefix avail grab xs (grab x s) in (x # ys, s')) else ([], s))"

text \<open>Every object is clean at the moment it is grabbed.\<close>

fun grabs_cleanly :: "('o \<Rightarrow> 's \<Rightarrow> bool) \<Rightarrow> ('o \<Rightarrow> 's \<Rightarrow> bool) \<Rightarrow> ('o \<Rightarrow> 's \<Rightarrow> 's) \<Rightarrow> 'o list \<Rightarrow> 's \<Rightarrow> bool" where
  "grabs_cleanly avail clean grab [] s \<longleftrightarrow> True"
| "grabs_cleanly avail clean grab (x # xs) s \<longleftrightarrow>
     (avail x s \<longrightarrow> clean x s \<and> grabs_cleanly avail clean grab xs (grab x s))"

lemma grab_prefix_take: "grab_prefix avail grab xs s = (ys, s') \<Longrightarrow> ys = take (length ys) xs"
  by (induction xs arbitrary: s ys) (auto split: if_splits prod.splits)

lemma grab_prefix_length: "grab_prefix avail grab xs s = (ys, s') \<Longrightarrow> length ys \<le> length xs"
  by (induction xs arbitrary: s ys) (auto split: if_splits prod.splits)

locale waitable =
  fixes avail :: "'o \<Rightarrow> 's \<Rightarrow> bool"
    and clean :: "'o \<Rightarrow> 's \<Rightarrow> bool"
    and grab :: "'o \<Rightarrow> 's \<Rightarrow> 's"
    and undo :: "'o \<Rightarrow> 's \<Rightarrow> 's"
  assumes undo_grab: "avail x s \<Longrightarrow> clean x s \<Longrightarrow> undo x (grab x s) = s"
begin

text \<open>Putting back in reverse order what was grabbed restores the state.\<close>

lemma rollback:
  assumes "grab_prefix avail grab xs s = (ys, s')" and "grabs_cleanly avail clean grab xs s"
  shows "fold undo (rev ys) s' = s"
  using assms
proof (induction xs arbitrary: s ys)
  case (Cons x xs)
  show ?case
  proof (cases "avail x s")
    case True
    obtain zs where z: "grab_prefix avail grab xs (grab x s) = (zs, s')" and ys: "ys = x # zs"
      using Cons.prems(1) True by (auto split: prod.splits)
    have "fold undo (rev zs) s' = grab x s"
      using Cons.IH [OF z] Cons.prems(2) True by simp
    then show ?thesis using undo_grab [OF True] Cons.prems(2) True by (simp add: ys)
  next
    case False
    then show ?thesis using Cons.prems by simp
  qed
qed simp

lemma rollback_one: "avail x s \<Longrightarrow> clean x s \<Longrightarrow> \<not> avail y (grab x s) \<Longrightarrow>
   fold undo (rev (fst (grab_prefix avail grab [x, y] s))) (snd (grab_prefix avail grab [x, y] s)) = s"
  by (simp add: undo_grab)

end

end
