(* ===== verification/Fsync_Quiet.thy ===== *)
theory Fsync_Quiet
  imports Fsync_Grab Waitable
begin

text \<open>
  Waiting on objects (fsync.c of the client) when no other thread interferes: which object a wait
  acquires, what the memory is afterwards, and that the put-back of a wait for all objects restores
  the state. \<open>signaled\<close> and \<open>acquire_mem\<close> are the abstract semantics of the objects.
\<close>

section \<open>The abstract semantics\<close>

definition signaled :: "fcfg \<Rightarrow> fobj \<Rightarrow> mem \<Rightarrow> bool" where
  "signaled cfg obj m \<longleftrightarrow>
     (if ob_type obj = FSYNC_MUTEX
      then m (mutex_tid (ob_shm obj)) \<in> {current_tid cfg, 0, - 1}
      else m (ev_signaled (ob_shm obj)) \<noteq> 0)"

definition acquire_mem :: "fcfg \<Rightarrow> fobj \<Rightarrow> mem \<Rightarrow> mem" where
  "acquire_mem cfg obj m =
     (let s = ob_shm obj in
      case ob_type obj of
        FSYNC_SEMAPHORE \<Rightarrow> m(sem_count s := m (sem_count s) - 1)
      | FSYNC_MUTEX \<Rightarrow>
          if m (mutex_tid s) = current_tid cfg then m(mutex_count s := m (mutex_count s) + 1)
          else m(mutex_tid s := current_tid cfg, mutex_count s := 1)
      | FSYNC_AUTO_EVENT \<Rightarrow> if m (ev_signaled s) = 1 then m(ev_signaled s := 0) else m
      | FSYNC_AUTO_SERVER \<Rightarrow> if m (ev_signaled s) = 1 then m(ev_signaled s := 0) else m
      | _ \<Rightarrow> m)"

definition acquire_status :: "fcfg \<Rightarrow> fobj \<Rightarrow> mem \<Rightarrow> ntstatus" where
  "acquire_status cfg obj m =
     (if ob_type obj = FSYNC_MUTEX \<and> m (mutex_tid (ob_shm obj)) = - 1 \<and> current_tid cfg \<noteq> - 1
      then STATUS_ABANDONED_WAIT_0 else 0)"

text \<open>The state \<open>w'\<close> is \<open>w\<close> with the memory \<open>m\<close>, apart from the record of actions.\<close>

definition calm :: "fclient \<Rightarrow> mem \<Rightarrow> fclient \<Rightarrow> bool" where
  "calm w m w' \<longleftrightarrow> intf w' = intf w \<and> cintf w' = cintf w \<and> fcache w' = fcache w \<and>
     apc_futex w' = apc_futex w \<and> mem w' = m"

lemma calm_refl [simp]: "calm w (mem w) w"
  by (simp add: calm_def)

lemma calm_trans: "calm w m w' \<Longrightarrow> calm w' m' w'' \<Longrightarrow> calm w m' w''"
  by (simp add: calm_def)

lemma calm_rest: "calm w m w' \<Longrightarrow> at_rest w \<Longrightarrow> at_rest w'"
  unfolding calm_def at_rest_def by simp

lemma calm_put: "calm w ((mem w)(p := v)) (put_mem p v w)"
  by (simp add: calm_def put_mem_def)

lemma calm_emit [simp]: "calm w m (emit a w') \<longleftrightarrow> calm w m w'"
  by (simp add: calm_def emit_def)

lemma calm_put_in: "calm w m w' \<Longrightarrow> calm w (m(p := v)) (put_mem p v w')"
  by (simp add: calm_def put_mem_def)

lemma calm_yields [simp]:
  "calm w m (try_yield_to_waiters cfg prev w') \<longleftrightarrow> calm w m w'"
  "calm w m (simulate_sched_quantum cfg w') \<longleftrightarrow> calm w m w'"
  "calm w m (odyssey_yield cfg alertable w') \<longleftrightarrow> calm w m w'"
  by (simp_all add: try_yield_to_waiters_def simulate_sched_quantum_def odyssey_yield_def)

lemma calm_intf: "calm w m w' \<Longrightarrow> intf w = [] \<Longrightarrow> intf w' = []"
  by (simp add: calm_def)

lemma calm_fcache: "calm w m w' \<Longrightarrow> fcache w' = fcache w"
  by (simp add: calm_def)

lemma calm_mem: "calm w m w' \<Longrightarrow> mem w' = m"
  by (simp add: calm_def)

section \<open>Grabbing one object\<close>

lemma sem_loop_quiet:
  assumes "intf w = []"
  shows "sem_loop s (mem w (sem_count s)) w =
    (if mem w (sem_count s) = 0 then (False, w) else (True, put_mem (sem_count s) (mem w (sem_count s) - 1) w))"
  using assms by (subst sem_loop.simps) (simp add: shm_simps)

lemma yield_intf [simp]:
  "intf (try_yield_to_waiters cfg prev w) = intf w" "mem (try_yield_to_waiters cfg prev w) = mem w"
  "intf (simulate_sched_quantum cfg w) = intf w" "mem (simulate_sched_quantum cfg w) = mem w"
  "intf (odyssey_yield cfg alertable w) = intf w" "mem (odyssey_yield cfg alertable w) = mem w"
  by (simp_all add: try_yield_to_waiters_def simulate_sched_quantum_def odyssey_yield_def)

lemma try_grab_quiet:
  assumes q: "intf w = []" and sg: "signaled cfg obj (mem w)"
  shows "\<exists>w'. try_grab cfg waited alertable prev obj w = (Got (acquire_status cfg obj (mem w)), w') \<and>
    calm w (acquire_mem cfg obj (mem w)) w'"
proof -
  let ?s = "ob_shm obj"
  consider (sem) "ob_type obj = FSYNC_SEMAPHORE" | (mutex) "ob_type obj = FSYNC_MUTEX"
    | (auto) "ob_type obj = FSYNC_AUTO_EVENT \<or> ob_type obj = FSYNC_AUTO_SERVER"
    | (manual) "ob_type obj \<in> {FSYNC_MANUAL_EVENT, FSYNC_MANUAL_SERVER, FSYNC_QUEUE}"
    by (cases "ob_type obj") auto
  then show ?thesis
  proof cases
    case sem
    define w2 where "w2 = (if \<not> waited \<and> mem w (?s, W0) \<noteq> 0 then try_yield_to_waiters cfg prev w else w)"
    have w2: "intf w2 = []" "mem w2 = mem w" "calm w (mem w) w2" using q by (simp_all add: w2_def)
    have nz: "mem w (?s, W0) \<noteq> 0" using sg sem by (simp add: signaled_def)
    have "sem_loop ?s (mem w (?s, W0)) w2 = (True, put_mem (?s, W0) (mem w (?s, W0) - 1) w2)"
      using sem_loop_quiet [OF w2(1), of ?s] nz by (simp add: w2(2))
    then have "try_grab cfg waited alertable prev obj w =
        (Got 0, if waited then simulate_sched_quantum cfg (put_mem (?s, W0) (mem w (?s, W0) - 1) w2)
                else put_mem (?s, W0) (mem w (?s, W0) - 1) w2)"
      using q by (simp add: try_grab_def sem try_semaphore_def shm_simps w2_def)
    moreover have "acquire_mem cfg obj (mem w) = (mem w)((?s, W0) := mem w (?s, W0) - 1)"
      by (simp add: acquire_mem_def sem Let_def)
    moreover have "calm w ((mem w)((?s, W0) := mem w (?s, W0) - 1)) (put_mem (?s, W0) (mem w (?s, W0) - 1) w2)"
      by (rule calm_put_in [OF w2(3)])
    ultimately show ?thesis by (simp add: acquire_status_def sem)
  next
    case mutex
    show ?thesis
    proof (cases "mem w (?s, W0) = current_tid cfg")
      case True
      then show ?thesis
        using q by (auto simp: try_grab_def mutex try_mutex_def shm_simps acquire_status_def acquire_mem_def Let_def
            intro: calm_put)
    next
      case False
      define w2 where "w2 = (if waited then w else if mem w (?s, W0) = 0 then try_yield_to_waiters cfg prev w else w)"
      have w2: "intf w2 = []" "mem w2 = mem w" "calm w (mem w) w2" using q by (simp_all add: w2_def)
      have t: "mem w (?s, W0) = 0 \<or> mem w (?s, W0) = - 1"
        using sg False by (simp add: signaled_def mutex)
      have acq: "acquire_mem cfg obj (mem w) = (mem w)((?s, W0) := current_tid cfg, (?s, W1) := 1)"
        using False by (simp add: acquire_mem_def mutex Let_def)
      have cw: "calm w ((mem w)((?s, W0) := current_tid cfg, (?s, W1) := 1))
          (put_mem (?s, W1) 1 (put_mem (?s, W0) (current_tid cfg) w2))"
        by (intro calm_put_in w2(3))
      show ?thesis
      proof (cases "mem w (?s, W0) = 0")
        case True
        have "try_grab cfg waited alertable prev obj w =
          (Got 0, if waited then simulate_sched_quantum cfg (put_mem (?s, W1) 1 (put_mem (?s, W0) (current_tid cfg) w2))
                  else put_mem (?s, W1) 1 (put_mem (?s, W0) (current_tid cfg) w2))"
          using q True False
          by (cases waited) (simp_all add: try_grab_def mutex try_mutex_def shm_simps w2_def Let_def)
        then show ?thesis using acq cw True by (simp add: acquire_status_def)
      next
        case abandoned: False
        then have m1: "mem w (?s, W0) = - 1" using t by simp
        have "try_grab cfg waited alertable prev obj w =
          (Got STATUS_ABANDONED_WAIT_0, put_mem (?s, W1) 1 (put_mem (?s, W0) (current_tid cfg) w2))"
          using q m1 False
          by (cases waited) (simp_all add: try_grab_def mutex try_mutex_def shm_simps w2_def Let_def)
        then show ?thesis using acq cw m1 False by (simp add: acquire_status_def mutex)
      qed
    qed
  next
    case auto
    define w1 where "w1 = (if waited then w else if mem w (?s, W0) \<noteq> 0 then try_yield_to_waiters cfg prev w else w)"
    have w1: "intf w1 = []" "mem w1 = mem w" "calm w (mem w) w1" using q by (simp_all add: w1_def)
    have nz: "mem w (?s, W0) \<noteq> 0" using sg auto by (auto simp: signaled_def)
    let ?w2 = "odyssey_yield cfg alertable (if mem w (?s, W0) = 1 then put_mem (?s, W0) 0 w1 else w1)"
    have x: "at_cas (?s, W0) 1 0 w1 = (mem w (?s, W0), if mem w (?s, W0) = 1 then put_mem (?s, W0) 0 w1 else w1)"
      using w1 by (simp add: at_cas_quiet)
    have "try_grab cfg waited alertable prev obj w = try_auto_event cfg waited alertable prev ?s w"
      using auto by (auto simp: try_grab_def)
    also have "\<dots> = (Got 0, if waited then simulate_sched_quantum cfg ?w2 else ?w2)"
      using q nz x by (cases waited) (simp_all add: try_auto_event_def at_load_quiet w1_def Let_def)
    finally have run: "try_grab cfg waited alertable prev obj w =
        (Got 0, if waited then simulate_sched_quantum cfg ?w2 else ?w2)" .
    have acq: "acquire_mem cfg obj (mem w) = (if mem w (?s, W0) = 1 then (mem w)((?s, W0) := 0) else mem w)"
      using auto by (auto simp: acquire_mem_def Let_def)
    have st: "acquire_status cfg obj (mem w) = 0" using auto by (auto simp: acquire_status_def)
    have "calm w (acquire_mem cfg obj (mem w)) ?w2"
      using acq w1 calm_put_in [OF w1(3), of "(?s, W0)" 0] by simp
    then show ?thesis using run st by auto
  next
    case manual
    then have nz: "mem w (?s, W0) \<noteq> 0" and st: "acquire_status cfg obj (mem w) = 0"
      and acq: "acquire_mem cfg obj (mem w) = mem w"
      using sg by (auto simp: signaled_def acquire_status_def acquire_mem_def Let_def)
    have "try_grab cfg waited alertable prev obj w = try_manual_event cfg waited alertable ?s w"
      using manual by (auto simp: try_grab_def)
    then show ?thesis using q nz st acq by (simp add: try_manual_event_def at_load_quiet Let_def)
  qed
qed

text \<open>On the first pass an object that is not signaled is left as it is.\<close>

lemma try_grab_unsignaled:
  assumes q: "intf w = []" and "\<not> signaled cfg obj (mem w)"
  shows "\<exists>w'. try_grab cfg False alertable prev obj w =
      (Contended (ob_shm obj, W0) (mem w (ob_shm obj, W0)), w') \<and> calm w (mem w) w'"
proof -
  let ?s = "ob_shm obj"
  show ?thesis
  proof (cases "ob_type obj = FSYNC_MUTEX")
    case True
    then have "mem w (?s, W0) \<noteq> current_tid cfg" "mem w (?s, W0) \<noteq> 0" "mem w (?s, W0) \<noteq> - 1"
      using assms(2) by (simp_all add: signaled_def)
    then show ?thesis
      using q True by (simp add: try_grab_def try_mutex_def shm_simps Let_def)
  next
    case False
    then have z: "mem w (?s, W0) = 0" using assms(2) by (simp add: signaled_def)
    then show ?thesis
      using q False sem_loop_quiet [OF q, of ?s]
      by (cases "ob_type obj")
        (simp_all add: try_grab_def try_semaphore_def try_auto_event_def try_manual_event_def shm_simps Let_def)
  qed
qed


section \<open>Taking and putting back the references of a wait\<close>

text \<open>
  The memory while a wait holds the slots \<open>S\<close>: one more reference in each, used by this process; and
  after it: the references are back and no process is named.
\<close>

definition held_mem :: "i32 \<Rightarrow> nat set \<Rightarrow> mem \<Rightarrow> mem" where
  "held_mem pid S m = (\<lambda>(s, f). if s \<in> S then (case f of W2 \<Rightarrow> m (s, W2) + 1 | W3 \<Rightarrow> pid | _ \<Rightarrow> m (s, f)) else m (s, f))"

definition left_mem :: "nat set \<Rightarrow> mem \<Rightarrow> mem" where
  "left_mem S m = (\<lambda>(s, f). if s \<in> S \<and> f = W3 then 0 else m (s, f))"

definition ref_ok :: "mem \<Rightarrow> nat \<Rightarrow> bool" where
  "ref_ok m s \<longleftrightarrow> 0 < sint (m (shm_ref s)) \<and> sint (m (shm_ref s)) < 2 ^ 31 - 1"

lemma resolves_ref: "resolves h w obj \<Longrightarrow> ref_ok (mem w) (ob_shm obj)"
  by (simp add: resolves_def ref_ok_def)

lemma held_mem_empty [simp]: "held_mem pid {} m = m"
  by (simp add: held_mem_def fun_eq_iff)

lemma left_mem_empty [simp]: "left_mem {} m = m"
  by (simp add: left_mem_def fun_eq_iff)

lemma held_mem_sel [simp]:
  "held_mem pid S m (s, W0) = m (s, W0)" "held_mem pid S m (s, W1) = m (s, W1)"
  "s \<notin> S \<Longrightarrow> held_mem pid S m (s, f) = m (s, f)"
  "s \<in> S \<Longrightarrow> held_mem pid S m (s, W2) = m (s, W2) + 1" "s \<in> S \<Longrightarrow> held_mem pid S m (s, W3) = pid"
  by (simp_all add: held_mem_def)

lemma held_mem_insert:
  assumes "s \<notin> S"
  shows "held_mem pid (insert s S) m = (held_mem pid S m)((s, W2) := m (s, W2) + 1, (s, W3) := pid)"
proof
  fix a :: addr
  obtain t f where "a = (t, f)" by fastforce
  then show "held_mem pid (insert s S) m a = ((held_mem pid S m)((s, W2) := m (s, W2) + 1, (s, W3) := pid)) a"
    using assms by (cases f) (auto simp: held_mem_def)
qed

lemma left_mem_insert:
  "left_mem (insert s S) m = (left_mem S m)((s, W3) := 0)"
  by (auto simp: left_mem_def fun_eq_iff)

lemma get_object_for_wait_quiet:
  assumes rest: "at_rest w" and res: "resolves h w obj"
  shows "\<exists>w' prev. get_object_for_wait cfg h w = Some (Inr (obj, prev), w') \<and>
    calm w ((mem w)(shm_ref (ob_shm obj) := mem w (shm_ref (ob_shm obj)) + 1, shm_last_pid (ob_shm obj) := current_pid cfg)) w'"
proof -
  let ?s = "ob_shm obj"
  have held: "calm w ((mem w)(shm_ref ?s := mem w (shm_ref ?s) + 1)) (held obj w)"
    unfolding held_def by (rule calm_put)
  note put = calm_put_in [OF held, of "shm_last_pid ?s" "current_pid cfg"]
  have q: "intf (held obj w) = []" using rest by simp
  show ?thesis
    using put q
    by (auto simp: get_object_for_wait_def get_object_resolved [OF rest res] at_xchg_quiet at_store_quiet)
qed

lemma resolves_calm:
  assumes "resolves h w obj" and "calm w m w'" and "m (shm_ref (ob_shm obj)) = mem w (shm_ref (ob_shm obj))"
  shows "resolves h w' obj"
  using assms by (simp add: resolves_def calm_def)

lemma get_objects_quiet:
  assumes "at_rest w" and "list_all2 (\<lambda>h obj. resolves h w obj) hs objs" and "distinct (map ob_shm objs)"
  shows "\<exists>w' prevs. get_objects_for_wait cfg hs acc w = Some (Inr (acc @ map Some (zip objs prevs), w')) \<and>
    length prevs = length objs \<and> calm w (held_mem (current_pid cfg) (ob_shm ` set objs) (mem w)) w'"
  using assms
proof (induction hs arbitrary: objs acc w)
  case Nil
  then show ?case by simp
next
  case (Cons h hs)
  obtain obj rest where objs: "objs = obj # rest" and res: "resolves h w obj"
    and ress: "list_all2 (\<lambda>h obj. resolves h w obj) hs rest"
    using Cons.prems(2) by (auto simp: list_all2_Cons1)
  let ?s = "ob_shm obj"
  let ?m = "(mem w)(shm_ref ?s := mem w (shm_ref ?s) + 1, shm_last_pid ?s := current_pid cfg)"
  have fresh: "?s \<notin> ob_shm ` set rest" and dist: "distinct (map ob_shm rest)"
    using Cons.prems(3) by (auto simp: objs)
  obtain w1 prev where g: "get_object_for_wait cfg h w = Some (Inr (obj, prev), w1)" and c1: "calm w ?m w1"
    using get_object_for_wait_quiet [OF Cons.prems(1) res] by blast
  have "list_all2 (\<lambda>h obj. resolves h w1 obj) hs rest"
  proof (rule list.rel_mono_strong [OF ress])
    fix h' obj'
    assume "obj' \<in> set rest" and "resolves h' w obj'"
    moreover from this have "ob_shm obj' \<noteq> ?s" using fresh by (metis imageI)
    ultimately show "resolves h' w1 obj'" by (intro resolves_calm [OF _ c1]) simp_all
  qed
  then obtain w2 prevs where run: "get_objects_for_wait cfg hs (acc @ [Some (obj, prev)]) w1 =
        Some (Inr ((acc @ [Some (obj, prev)]) @ map Some (zip rest prevs), w2))"
    and len: "length prevs = length rest"
    and c2: "calm w1 (held_mem (current_pid cfg) (ob_shm ` set rest) (mem w1)) w2"
    using Cons.IH [OF calm_rest [OF c1 Cons.prems(1)] _ dist] by blast
  have "held_mem (current_pid cfg) (ob_shm ` set rest) ?m = held_mem (current_pid cfg) (ob_shm ` set objs) (mem w)"
    using held_mem_insert [OF fresh, of "current_pid cfg" "mem w"] fresh
    by (auto simp: objs held_mem_def fun_eq_iff split: field.splits)
  then have "calm w (held_mem (current_pid cfg) (ob_shm ` set objs) (mem w)) w2"
    using calm_trans [OF c1 c2] by (simp add: calm_mem [OF c1])
  then show ?case
    using g run len by (auto simp: objs intro!: exI [of _ "prev # prevs"])
qed

lemma put_wait_quiet:
  assumes "at_rest w" and "ref_ok m (ob_shm obj)" and "mem w = held_mem (current_pid cfg) (insert (ob_shm obj) S) m"
    and "ob_shm obj \<notin> S" and "current_pid cfg \<noteq> 0"
  shows "calm w (held_mem (current_pid cfg) S (left_mem {ob_shm obj} m)) (put_object_from_wait cfg obj w)"
proof -
  let ?s = "ob_shm obj" and ?pid = "current_pid cfg"
  have m: "mem w = (held_mem ?pid S m)((?s, W2) := m (?s, W2) + 1, (?s, W3) := ?pid)"
    using assms(3) held_mem_insert [OF assms(4)] by simp
  define w1 where "w1 = put_mem (?s, W3) 0 w"
  have c1: "calm w ((mem w)((?s, W3) := 0)) w1" unfolding w1_def by (rule calm_put)
  have rest1: "at_rest w1" using assms(1) by (simp add: w1_def)
  have ref1: "mem w1 (shm_ref ?s) = m (shm_ref ?s) + 1" by (simp add: w1_def m)
  have run: "put_object_from_wait cfg obj w = put_object obj w1"
    using assms(1) by (simp add: put_object_from_wait_def shm_simps w1_def m)
  have r: "0 < sint (m (shm_ref ?s))" "sint (m (shm_ref ?s)) < 2 ^ 31 - 1" using assms(2) by (simp_all add: ref_ok_def)
  have "m (shm_ref ?s) + 1 \<noteq> 1" using sint_suc [OF r(2)] r(1) by auto
  then have "put_object obj w1 = put_mem (shm_ref ?s) (m (shm_ref ?s)) w1"
    using rest1 ref1 by (simp add: put_object_def shm_simps)
  then have "calm w (((mem w)((?s, W3) := 0))((?s, W2) := m (?s, W2))) (put_object_from_wait cfg obj w)"
    unfolding run using calm_put_in [OF c1] by simp
  moreover have "((mem w)((?s, W3) := 0))((?s, W2) := m (?s, W2)) = held_mem ?pid S (left_mem {?s} m)"
  proof
    fix a :: addr
    obtain t f where "a = (t, f)" by fastforce
    then show "(((mem w)((?s, W3) := 0))((?s, W2) := m (?s, W2))) a = held_mem ?pid S (left_mem {?s} m) a"
      using assms(4) by (cases f) (auto simp: m held_mem_def left_mem_def)
  qed
  ultimately show ?thesis by simp
qed

lemma put_objects_quiet:
  assumes "at_rest w" and "distinct (map ob_shm objs)" and "\<forall>obj \<in> set objs. ref_ok m (ob_shm obj)"
    and "mem w = held_mem (current_pid cfg) (ob_shm ` set objs) m" and "current_pid cfg \<noteq> 0"
    and "length prevs = length objs"
  shows "calm w (left_mem (ob_shm ` set objs) m) (put_objects cfg (map Some (zip objs prevs)) w)"
  using assms
proof (induction objs arbitrary: w m prevs)
  case Nil
  then show ?case by (simp add: put_objects_def calm_def)
next
  case (Cons obj objs)
  obtain prev ps where prevs: "prevs = prev # ps" using Cons.prems(6) by (cases prevs) auto
  let ?w1 = "put_object_from_wait cfg obj w" and ?m1 = "left_mem {ob_shm obj} m"
  have fresh: "ob_shm obj \<notin> ob_shm ` set objs" and dist: "distinct (map ob_shm objs)"
    using Cons.prems(2) by auto
  have c1: "calm w (held_mem (current_pid cfg) (ob_shm ` set objs) ?m1) ?w1"
    using Cons.prems fresh by (intro put_wait_quiet) auto
  have "calm ?w1 (left_mem (ob_shm ` set objs) ?m1) (put_objects cfg (map Some (zip objs ps)) ?w1)"
    using Cons.prems c1 dist calm_rest [OF c1 Cons.prems(1)] prevs
    by (intro Cons.IH) (auto simp: calm_mem [OF c1] ref_ok_def left_mem_def)
  moreover have "left_mem (ob_shm ` set objs) ?m1 = left_mem (ob_shm ` set (obj # objs)) m"
    by (auto simp: left_mem_def fun_eq_iff)
  ultimately show ?case
    using calm_trans [OF c1] by (simp add: prevs put_objects_def)
qed


section \<open>Waiting for any object\<close>

lemma signaled_held [simp]: "signaled cfg obj (held_mem pid S m) \<longleftrightarrow> signaled cfg obj m"
  by (simp add: signaled_def)

lemma status_held [simp]: "acquire_status cfg obj (held_mem pid S m) = acquire_status cfg obj m"
  by (simp add: acquire_status_def)

lemma held_mem_upd:
  "held_mem pid S (m((s, W0) := v)) = (held_mem pid S m)((s, W0) := v)"
  "held_mem pid S (m((s, W1) := v)) = (held_mem pid S m)((s, W1) := v)"
  by (auto simp: held_mem_def fun_eq_iff split: field.splits)

lemma acquire_held: "acquire_mem cfg obj (held_mem pid S m) = held_mem pid S (acquire_mem cfg obj m)"
  by (cases "ob_type obj") (simp_all add: acquire_mem_def Let_def held_mem_upd)

lemma acquire_ref [simp]: "acquire_mem cfg obj m (s, W2) = m (s, W2)"
  by (cases "ob_type obj") (simp_all add: acquire_mem_def Let_def)

lemma scan_any_signaled:
  assumes "intf w = []" and "i < length objs" and "length prevs = length objs"
    and "signaled cfg (objs ! i) (mem w)" and "\<forall>j < i. \<not> signaled cfg (objs ! j) (mem w)"
  shows "\<exists>w'. scan_any cfg False alertable k (map Some (zip objs prevs)) fs w =
      (Inl (acquire_status cfg (objs ! i) (mem w) + (k + i)), w') \<and> calm w (acquire_mem cfg (objs ! i) (mem w)) w'"
  using assms
proof (induction objs arbitrary: i prevs k fs w)
  case (Cons obj objs)
  obtain prev ps where prevs: "prevs = prev # ps" and len: "length ps = length objs"
    using Cons.prems(3) by (cases prevs) auto
  show ?case
  proof (cases i)
    case 0
    obtain w' where "try_grab cfg False alertable prev obj w = (Got (acquire_status cfg obj (mem w)), w')"
      and "calm w (acquire_mem cfg obj (mem w)) w'"
      using try_grab_quiet [OF Cons.prems(1), of cfg obj] Cons.prems(4) 0 by fastforce
    then show ?thesis using 0 by (simp add: prevs)
  next
    case (Suc i')
    obtain w1 where g: "try_grab cfg False alertable prev obj w = (Contended (ob_shm obj, W0) (mem w (ob_shm obj, W0)), w1)"
      and c1: "calm w (mem w) w1"
      using try_grab_unsignaled [OF Cons.prems(1), of cfg obj] Cons.prems(5) Suc by fastforce
    have m1: "mem w1 = mem w" by (rule calm_mem [OF c1])
    have below: "\<forall>j < i'. \<not> signaled cfg (objs ! j) (mem w)"
    proof (intro allI impI)
      fix j
      assume "j < i'"
      then show "\<not> signaled cfg (objs ! j) (mem w)" using Cons.prems(5) [rule_format, of "Suc j"] Suc by simp
    qed
    obtain w' where "scan_any cfg False alertable (Suc k) (map Some (zip objs ps))
          (fs @ [Some ((ob_shm obj, W0), mem w (ob_shm obj, W0))]) w1 =
        (Inl (acquire_status cfg (objs ! i') (mem w) + (Suc k + i')), w')"
      and "calm w1 (acquire_mem cfg (objs ! i') (mem w)) w'"
      using Cons.IH [OF calm_intf [OF c1 Cons.prems(1)], of i' ps "Suc k"] Cons.prems(2,4) below Suc len m1 by auto
    then show ?thesis using g Suc calm_trans [OF c1] by (auto simp: prevs)
  qed
qed simp

lemma scan_any_none:
  assumes "intf w = []" and "length prevs = length objs" and "\<forall>obj \<in> set objs. \<not> signaled cfg obj (mem w)"
  shows "\<exists>fs' w'. scan_any cfg False alertable k (map Some (zip objs prevs)) fs w = (Inr fs', w') \<and> calm w (mem w) w'"
  using assms
proof (induction objs arbitrary: prevs k fs w)
  case Nil
  then show ?case by simp
next
  case (Cons obj objs)
  obtain prev ps where prevs: "prevs = prev # ps" and len: "length ps = length objs"
    using Cons.prems(2) by (cases prevs) auto
  obtain w1 where g: "try_grab cfg False alertable prev obj w = (Contended (ob_shm obj, W0) (mem w (ob_shm obj, W0)), w1)"
    and c1: "calm w (mem w) w1"
    using try_grab_unsignaled [OF Cons.prems(1), of cfg obj] Cons.prems(3) by fastforce
  have m1: "mem w1 = mem w" by (rule calm_mem [OF c1])
  obtain fs' w' where "scan_any cfg False alertable (Suc k) (map Some (zip objs ps))
        (fs @ [Some ((ob_shm obj, W0), mem w (ob_shm obj, W0))]) w1 = (Inr fs', w')"
    and "calm w1 (mem w) w'"
    using Cons.IH [OF calm_intf [OF c1 Cons.prems(1)] len] Cons.prems(3) m1 by fastforce
  then show ?case using g calm_trans [OF c1] by (auto simp: prevs)
qed

text \<open>The message-wait notice that \<open>fsync_wait_objects\<close> sends around the wait leaves the memory alone.\<close>

lemma fsync_wait_lift:
  assumes "at_rest w" and "hs \<noteq> []" and "resolves (last hs) w obj"
  shows "\<exists>w1. calm w (mem w) w1 \<and>
    (\<forall>timeout outs st w2 m. do_wait_objects cfg hs wait_any alertable timeout outs w1 = Some (st, w2) \<longrightarrow> calm w1 m w2 \<longrightarrow>
       (\<exists>w3. fsync_wait_objects cfg hs wait_any alertable timeout outs w = Some (st, w3) \<and> calm w m w3))"
proof -
  let ?q = "ob_type obj = FSYNC_QUEUE"
  let ?w = "put_object obj (if ?q then server_set_msgwait True (held obj w) else held obj w)"
  have held: "calm w ((mem w)(shm_ref (ob_shm obj) := mem w (shm_ref (ob_shm obj)) + 1)) (held obj w)"
    unfolding held_def by (rule calm_put)
  have r: "0 < sint (mem w (shm_ref (ob_shm obj)))" "sint (mem w (shm_ref (ob_shm obj))) < 2 ^ 31 - 1"
    using assms(3) by (simp_all add: resolves_def)
  have put: "put_object obj v = put_mem (shm_ref (ob_shm obj)) (mem w (shm_ref (ob_shm obj))) v"
    if "at_rest v" and "mem v (shm_ref (ob_shm obj)) = mem w (shm_ref (ob_shm obj)) + 1" for v
  proof -
    have "mem w (shm_ref (ob_shm obj)) + 1 \<noteq> 1" using sint_suc [OF r(2)] r(1) by auto
    then show ?thesis using that by (simp add: put_object_def shm_simps)
  qed
  let ?v = "if ?q then server_set_msgwait True (held obj w) else held obj w"
  have cv: "calm w ((mem w)(shm_ref (ob_shm obj) := mem w (shm_ref (ob_shm obj)) + 1)) ?v"
    using held by (simp add: server_set_msgwait_def)
  have "?w = put_mem (shm_ref (ob_shm obj)) (mem w (shm_ref (ob_shm obj))) ?v"
    using calm_rest [OF cv assms(1)] calm_mem [OF cv] by (intro put) simp_all
  moreover have "calm w (mem w) (put_mem (shm_ref (ob_shm obj)) (mem w (shm_ref (ob_shm obj))) ?v)"
    using calm_put_in [OF cv, of "shm_ref (ob_shm obj)" "mem w (shm_ref (ob_shm obj))"] by simp
  ultimately have c1: "calm w (mem w) ?w" by metis
  moreover have "fsync_wait_objects cfg hs wait_any alertable timeout outs w =
      do { (ret, w2) \<leftarrow> do_wait_objects cfg hs wait_any alertable timeout outs ?w;
           Some (ret, if ?q then server_set_msgwait False w2 else w2) }" for timeout outs
    using assms(2) by (simp add: fsync_wait_objects_def get_object_resolved [OF assms(1,3)] Let_def)
  ultimately show ?thesis
    by (intro exI [of _ ?w]) (auto simp: server_set_msgwait_def intro: calm_trans)
qed

lemma only_server_objs [simp]: "only_server (map Some xs) \<longleftrightarrow> False"
  by (auto simp: only_server_def)

text \<open>
  The frame of a wait: the references are taken and the slots marked (\<open>w2\<close>); whatever the wait does to
  the objects then, putting the references back leaves just that.
\<close>

lemma wait_frame:
  assumes "at_rest w" and "hs \<noteq> []" and "list_all2 (\<lambda>h obj. resolves h w obj) hs objs"
    and "distinct (map ob_shm objs)" and "current_pid cfg \<noteq> 0"
  shows "\<exists>w1 w2 prevs. (\<forall>timeout outs st w3 m.
      do_wait_objects cfg hs wait_any alertable timeout outs w1 = Some (st, w3) \<longrightarrow> calm w1 m w3 \<longrightarrow>
      (\<exists>w4. fsync_wait_objects cfg hs wait_any alertable timeout outs w = Some (st, w4) \<and> calm w m w4)) \<and>
    calm w (mem w) w1 \<and> length prevs = length objs \<and>
    get_objects_for_wait cfg hs [] w1 = Some (Inr (map Some (zip objs prevs), w2)) \<and>
    calm w1 (held_mem (current_pid cfg) (ob_shm ` set objs) (mem w)) w2 \<and>
    (\<forall>m w3. calm w2 (held_mem (current_pid cfg) (ob_shm ` set objs) m) w3 \<longrightarrow> (\<forall>s. m (s, W2) = mem w (s, W2)) \<longrightarrow>
       calm w1 (left_mem (ob_shm ` set objs) m) (put_objects cfg (map Some (zip objs prevs)) w3))"
proof -
  let ?pid = "current_pid cfg" and ?S = "ob_shm ` set objs"
  have len: "length objs = length hs" using assms(3) by (simp add: list_all2_lengthD)
  then have ne: "objs \<noteq> []" using assms(2) by auto
  have lastres: "resolves (last hs) w (last objs)"
    using assms(2,3) ne len by (simp add: list_all2_conv_all_nth last_conv_nth)
  obtain w1 where c1: "calm w (mem w) w1"
    and lift: "\<forall>timeout outs st w3 m. do_wait_objects cfg hs wait_any alertable timeout outs w1 = Some (st, w3) \<longrightarrow>
       calm w1 m w3 \<longrightarrow>
       (\<exists>w4. fsync_wait_objects cfg hs wait_any alertable timeout outs w = Some (st, w4) \<and> calm w m w4)"
    using fsync_wait_lift [OF assms(1,2) lastres] by blast
  have rest1: "at_rest w1" and m1: "mem w1 = mem w" using c1 assms(1) by (simp_all add: calm_rest calm_mem)
  have res1: "list_all2 (\<lambda>h obj. resolves h w1 obj) hs objs"
    by (rule list.rel_mono_strong [OF assms(3)]) (auto intro: resolves_calm [OF _ c1])
  obtain w2 prevs where get: "get_objects_for_wait cfg hs [] w1 = Some (Inr (map Some (zip objs prevs), w2))"
    and lenp: "length prevs = length objs" and c2: "calm w1 (held_mem ?pid ?S (mem w)) w2"
    using get_objects_quiet [OF rest1 res1 assms(4), of cfg "[]"] by (auto simp: m1)
  have rest2: "at_rest w2" by (rule calm_rest [OF c2 rest1])
  have refs: "ref_ok (mem w) (ob_shm obj)" if obj: "obj \<in> set objs" for obj
  proof -
    obtain i where "i < length objs" "objs ! i = obj" using obj by (auto simp: in_set_conv_nth)
    then show ?thesis using assms(3) resolves_ref [of "hs ! i" w obj] by (auto simp: list_all2_conv_all_nth)
  qed
  have "calm w1 (left_mem ?S m) (put_objects cfg (map Some (zip objs prevs)) w3)"
    if "calm w2 (held_mem ?pid ?S m) w3" and "\<forall>s. m (s, W2) = mem w (s, W2)" for w3 m
  proof -
    have "calm w3 (left_mem ?S m) (put_objects cfg (map Some (zip objs prevs)) w3)"
      using refs that(2) calm_rest [OF that(1) rest2] calm_mem [OF that(1)] assms(4,5) lenp
      by (intro put_objects_quiet) (auto simp: ref_ok_def)
    then show ?thesis using calm_trans [OF c2 calm_trans [OF that(1)]] by blast
  qed
  then show ?thesis using lift c1 get lenp c2 by blast
qed

lemma wait_any_quiet:
  assumes "at_rest w" and "hs \<noteq> []" and "list_all2 (\<lambda>h obj. resolves h w obj) hs objs"
    and "distinct (map ob_shm objs)" and "current_pid cfg \<noteq> 0"
  shows "(\<forall>i < length objs. signaled cfg (objs ! i) (mem w) \<longrightarrow> (\<forall>j < i. \<not> signaled cfg (objs ! j) (mem w)) \<longrightarrow>
      (\<exists>w'. fsync_wait_objects cfg hs True False timeout outs w =
           Some (acquire_status cfg (objs ! i) (mem w) + i, w') \<and>
         at_rest w' \<and> fcache w' = fcache w \<and> mem w' = left_mem (ob_shm ` set objs) (acquire_mem cfg (objs ! i) (mem w)))) \<and>
    ((\<forall>obj \<in> set objs. \<not> signaled cfg obj (mem w)) \<longrightarrow>
      (\<exists>w'. fsync_wait_objects cfg hs True False (Some 0) outs w = Some (STATUS_TIMEOUT, w') \<and>
         at_rest w' \<and> fcache w' = fcache w \<and> mem w' = left_mem (ob_shm ` set objs) (mem w)))"
proof -
  let ?pid = "current_pid cfg" and ?S = "ob_shm ` set objs"
  obtain w1 w2 prevs where lift: "\<forall>timeout outs st w3 m.
      do_wait_objects cfg hs True False timeout outs w1 = Some (st, w3) \<longrightarrow> calm w1 m w3 \<longrightarrow>
      (\<exists>w4. fsync_wait_objects cfg hs True False timeout outs w = Some (st, w4) \<and> calm w m w4)"
    and c1: "calm w (mem w) w1" and lenp: "length prevs = length objs"
    and get: "get_objects_for_wait cfg hs [] w1 = Some (Inr (map Some (zip objs prevs), w2))"
    and c2: "calm w1 (held_mem ?pid ?S (mem w)) w2"
    and finish: "\<forall>m w3. calm w2 (held_mem ?pid ?S m) w3 \<longrightarrow> (\<forall>s. m (s, W2) = mem w (s, W2)) \<longrightarrow>
       calm w1 (left_mem ?S m) (put_objects cfg (map Some (zip objs prevs)) w3)"
    using wait_frame [OF assms] by blast
  have rest1: "at_rest w1" and m1: "mem w1 = mem w" using c1 assms(1) by (simp_all add: calm_rest calm_mem)
  have q2: "intf w2 = []" and m2: "mem w2 = held_mem ?pid ?S (mem w)"
    using c2 rest1 by (simp_all add: calm_intf calm_mem)
  have hit: "\<exists>w'. fsync_wait_objects cfg hs True False timeout outs w = Some (acquire_status cfg (objs ! i) (mem w) + i, w') \<and>
      at_rest w' \<and> fcache w' = fcache w \<and> mem w' = left_mem ?S (acquire_mem cfg (objs ! i) (mem w))"
    if i: "i < length objs" "signaled cfg (objs ! i) (mem w)" "\<forall>j < i. \<not> signaled cfg (objs ! j) (mem w)" for i
  proof -
    obtain w3 where sc: "scan_any cfg False False 0 (map Some (zip objs prevs)) [] w2 =
        (Inl (acquire_status cfg (objs ! i) (mem w) + i), w3)"
      and c3: "calm w2 (held_mem ?pid ?S (acquire_mem cfg (objs ! i) (mem w))) w3"
      using scan_any_signaled [OF q2 i(1) lenp, of cfg False 0 "[]"] i by (auto simp: m2 acquire_held)
    have "do_wait_objects cfg hs True False timeout outs w1 =
        Some (acquire_status cfg (objs ! i) (mem w) + i, put_objects cfg (map Some (zip objs prevs)) w3)"
      by (cases outs) (simp_all add: do_wait_objects_def get_apc_futex_def get Let_def any_round_def apc_pending_def sc)
    moreover have "calm w1 (left_mem ?S (acquire_mem cfg (objs ! i) (mem w))) (put_objects cfg (map Some (zip objs prevs)) w3)"
      using finish c3 by simp
    ultimately obtain w4 where "fsync_wait_objects cfg hs True False timeout outs w = Some (acquire_status cfg (objs ! i) (mem w) + i, w4)"
      and "calm w (left_mem ?S (acquire_mem cfg (objs ! i) (mem w))) w4"
      using lift by blast
    then show ?thesis using assms(1) by (auto simp: calm_rest calm_mem calm_fcache)
  qed
  have none: "\<exists>w'. fsync_wait_objects cfg hs True False (Some 0) outs w = Some (STATUS_TIMEOUT, w') \<and>
      at_rest w' \<and> fcache w' = fcache w \<and> mem w' = left_mem ?S (mem w)" if idle: "\<forall>obj \<in> set objs. \<not> signaled cfg obj (mem w)"
  proof -
    obtain fs w3 where sc: "scan_any cfg False False 0 (map Some (zip objs prevs)) [] w2 = (Inr fs, w3)"
      and c3: "calm w2 (held_mem ?pid ?S (mem w)) w3"
      using scan_any_none [OF q2 lenp, of cfg False 0 "[]"] idle by (auto simp: m2)
    have poll: "get_wait_end_time (mono_now cfg) (Some 0) \<noteq> None \<and> fst (the (get_wait_end_time (mono_now cfg) (Some 0))) = 0"
      by (simp add: get_wait_end_time_def Let_def split: prod.split)
    then obtain r where r: "get_wait_end_time (mono_now cfg) (Some 0) = Some (0, r)"
      by (cases "get_wait_end_time (mono_now cfg) (Some 0)") auto
    have "do_wait_objects cfg hs True False (Some 0) outs w1 =
        Some (STATUS_TIMEOUT, put_objects cfg (map Some (zip objs prevs)) (odyssey_yield cfg False w3))"
      by (cases outs) (simp_all add: do_wait_objects_def get_apc_futex_def get Let_def any_round_def apc_pending_def sc r)
    moreover have "calm w2 (held_mem ?pid ?S (mem w)) (odyssey_yield cfg False w3)" using c3 by simp
    ultimately obtain w4 where "fsync_wait_objects cfg hs True False (Some 0) outs w = Some (STATUS_TIMEOUT, w4)"
      and "calm w (left_mem ?S (mem w)) w4"
      using lift finish by blast
    then show ?thesis using assms(1) by (auto simp: calm_rest calm_mem calm_fcache)
  qed
  from hit none show ?thesis by blast
qed


text \<open>Waiting for any of several distinct objects, undisturbed: the wait returns at once with the
  position of the first object in the list that is signaled (plus the abandoned offset for a mutex
  whose owner died); exactly that object is acquired, and no object before or after it is touched.
  If none is signaled and the timeout is zero it reports a timeout and changes no object. In both
  cases every reference taken for the wait is given back and the slots name no process any more.\<close>
theorem wait_any_takes_first_signaled:
  assumes "at_rest w" and "hs \<noteq> []" and "list_all2 (\<lambda>h obj. resolves h w obj) hs objs"
    and "distinct (map ob_shm objs)" and "current_pid cfg \<noteq> 0"
  shows "(\<forall>i < length objs. signaled cfg (objs ! i) (mem w) \<longrightarrow> (\<forall>j < i. \<not> signaled cfg (objs ! j) (mem w)) \<longrightarrow>
      (\<exists>w'. fsync_wait_objects cfg hs True False timeout outs w =
           Some (acquire_status cfg (objs ! i) (mem w) + i, w') \<and>
         at_rest w' \<and> fcache w' = fcache w \<and> mem w' = left_mem (ob_shm ` set objs) (acquire_mem cfg (objs ! i) (mem w)))) \<and>
    ((\<forall>obj \<in> set objs. \<not> signaled cfg obj (mem w)) \<longrightarrow>
      (\<exists>w'. fsync_wait_objects cfg hs True False (Some 0) outs w = Some (STATUS_TIMEOUT, w') \<and>
         at_rest w' \<and> fcache w' = fcache w \<and> mem w' = left_mem (ob_shm ` set objs) (mem w)))"
  by (rule wait_any_quiet [OF assms])

lemma sample_wait:
  "\<exists>w'. fsync_wait_objects sample_cfg [4] True False (Some 0) [] (sample_client FSYNC_AUTO_EVENT (sem_mem 1 0)) =
     Some (0, w') \<and> mem w' (7, W0) = 0"
  using wait_any_quiet [OF sample_client_rest, of "[4]" FSYNC_AUTO_EVENT "sem_mem 1 0"
      "[\<lparr>ob_type = FSYNC_AUTO_EVENT, ob_shm = 7\<rparr>]" sample_cfg "Some 0" "[]"]
  by (auto simp: sample_client_resolves sample_cfg_def signaled_def acquire_status_def acquire_mem_def left_mem_def)

theorem wait_any_takes_first_signaled_witness:
  "\<exists>w'. fsync_wait_objects sample_cfg [4] True False (Some 0) [] (sample_client FSYNC_AUTO_EVENT (sem_mem 1 0)) =
     Some (0, w') \<and> mem w' (7, W0) = 0"
  using wait_any_takes_first_signaled [OF sample_client_rest, of "[4]" FSYNC_AUTO_EVENT "sem_mem 1 0"
      "[\<lparr>ob_type = FSYNC_AUTO_EVENT, ob_shm = 7\<rparr>]" sample_cfg "Some 0" "[]"]
  by (auto simp: sample_client_resolves sample_cfg_def signaled_def acquire_status_def acquire_mem_def left_mem_def)


end
