(* ===== verification/Fsync_All_Quiet.thy ===== *)
theory Fsync_All_Quiet
  imports Fsync_Quiet
begin

text \<open>
  Waiting for all objects (fsync.c of the client): the grab of all objects when they are signaled, the
  put-back when one is not available any more, and three interleavings in which the code loses a
  wake-up, ignores an abandoned mutex, or gives up a mutex that its caller owns.
\<close>

section \<open>Grabbing one object, undisturbed\<close>

definition grab_avail :: "fcfg \<Rightarrow> fobj \<Rightarrow> mem \<Rightarrow> bool" where
  "grab_avail cfg obj m \<longleftrightarrow>
     (case ob_type obj of
        FSYNC_MUTEX \<Rightarrow> m (mutex_tid (ob_shm obj)) \<in> {current_tid cfg, 0, - 1}
      | FSYNC_SEMAPHORE \<Rightarrow> m (sem_count (ob_shm obj)) \<noteq> 0
      | FSYNC_AUTO_EVENT \<Rightarrow> m (ev_signaled (ob_shm obj)) \<noteq> 0
      | FSYNC_AUTO_SERVER \<Rightarrow> m (ev_signaled (ob_shm obj)) \<noteq> 0
      | _ \<Rightarrow> True)"

definition grab_mem :: "fcfg \<Rightarrow> fobj \<Rightarrow> mem \<Rightarrow> mem" where
  "grab_mem cfg obj m =
     (let s = ob_shm obj in
      case ob_type obj of
        FSYNC_MUTEX \<Rightarrow> m(mutex_tid s := current_tid cfg)
      | FSYNC_SEMAPHORE \<Rightarrow> m(sem_count s := m (sem_count s) - 1)
      | FSYNC_AUTO_EVENT \<Rightarrow> if m (ev_signaled s) = 1 then m(ev_signaled s := 0) else m
      | FSYNC_AUTO_SERVER \<Rightarrow> if m (ev_signaled s) = 1 then m(ev_signaled s := 0) else m
      | _ \<Rightarrow> m)"

definition undo_mem :: "fobj \<Rightarrow> mem \<Rightarrow> mem" where
  "undo_mem obj m =
     (let s = ob_shm obj in
      case ob_type obj of
        FSYNC_MUTEX \<Rightarrow> m(mutex_tid s := 0)
      | FSYNC_SEMAPHORE \<Rightarrow> m(sem_count s := m (sem_count s) + 1)
      | FSYNC_AUTO_EVENT \<Rightarrow> m(ev_signaled s := 1)
      | FSYNC_AUTO_SERVER \<Rightarrow> m(ev_signaled s := 1)
      | _ \<Rightarrow> m)"

text \<open>The states of an object in which putting it back undoes the grab: a mutex without any owner.\<close>

definition grab_clean :: "fobj \<Rightarrow> mem \<Rightarrow> bool" where
  "grab_clean obj m \<longleftrightarrow>
     (case ob_type obj of
        FSYNC_MUTEX \<Rightarrow> m (mutex_tid (ob_shm obj)) = 0
      | FSYNC_AUTO_EVENT \<Rightarrow> m (ev_signaled (ob_shm obj)) = 1
      | FSYNC_AUTO_SERVER \<Rightarrow> m (ev_signaled (ob_shm obj)) = 1
      | _ \<Rightarrow> True)"

interpretation fsync_all: waitable "grab_avail cfg" grab_clean "grab_mem cfg" undo_mem
  for cfg
  by unfold_locales
    (auto simp: grab_avail_def grab_clean_def grab_mem_def undo_mem_def Let_def fun_upd_idem
      split: fsync_type.splits)

lemma grab_one_quiet:
  assumes q: "intf w = []"
  shows "\<exists>ab w'. grab_one cfg obj w = ((grab_avail cfg obj (mem w), ab), w') \<and>
    (ab \<longrightarrow> ob_type obj = FSYNC_MUTEX \<and> mem w (mutex_tid (ob_shm obj)) = - 1) \<and>
    calm w (if grab_avail cfg obj (mem w) then grab_mem cfg obj (mem w) else mem w) w'"
proof (cases "ob_type obj")
  case FSYNC_SEMAPHORE
  then show ?thesis
    using q sem_loop_quiet [OF q, of "ob_shm obj"] calm_put [of w "(ob_shm obj, W0)" "mem w (ob_shm obj, W0) - 1"]
    by (auto simp: grab_one_def grab_avail_def grab_mem_def at_load_quiet Let_def)
next
  case FSYNC_MUTEX
  then show ?thesis
    using q calm_put [of w "(ob_shm obj, W0)" "current_tid cfg"]
    by (auto simp: grab_one_def grab_avail_def grab_mem_def shm_simps Let_def fun_upd_idem)
next
  case FSYNC_AUTO_EVENT
  then show ?thesis
    using q calm_put [of w "(ob_shm obj, W0)" 0]
    by (auto simp: grab_one_def grab_avail_def grab_mem_def at_cas_quiet Let_def)
next
  case FSYNC_AUTO_SERVER
  then show ?thesis
    using q calm_put [of w "(ob_shm obj, W0)" 0]
    by (auto simp: grab_one_def grab_avail_def grab_mem_def at_cas_quiet Let_def)
qed (auto simp: grab_one_def grab_avail_def grab_mem_def Let_def)

lemma put_back_quiet:
  "intf w = [] \<Longrightarrow> calm w (undo_mem obj (mem w)) (put_back obj w)"
  by (cases "ob_type obj") (simp_all add: put_back_def undo_mem_def shm_simps calm_put Let_def)

section \<open>The loops\<close>

text \<open>A mutex whose owner died.\<close>

definition ownerless :: "fcfg \<Rightarrow> fobj \<Rightarrow> mem \<Rightarrow> bool" where
  "ownerless cfg obj m \<longleftrightarrow> ob_type obj = FSYNC_MUTEX \<and> m (mutex_tid (ob_shm obj)) = - 1"

lemma grab_mem_other: "s \<noteq> ob_shm obj \<Longrightarrow> grab_mem cfg obj m (s, f) = m (s, f)"
  by (simp add: grab_mem_def Let_def split: fsync_type.split)

lemma grab_all_quiet:
  assumes "intf w = []" and "length prevs = length objs"
    and "grab_prefix (grab_avail cfg) (grab_mem cfg) objs (mem w) = (ys, m')"
  shows "\<exists>w' ab'. calm w m' w' \<and> grab_all cfg i ab (map Some (zip objs prevs)) w =
      (if length ys < length objs then Inl (i + length ys) else Inr ab', w') \<and>
    (distinct (map ob_shm objs) \<and> (\<forall>obj \<in> set objs. \<not> ownerless cfg obj (mem w)) \<longrightarrow> ab' = ab)"
  using assms
proof (induction objs arbitrary: w prevs ys i ab)
  case Nil
  then have "calm w m' w" and "ys = []" by auto
  then show ?case using Nil by auto
next
  case (Cons obj objs)
  obtain prev ps where prevs: "prevs = prev # ps" and len: "length ps = length objs"
    using Cons.prems(2) by (cases prevs) auto
  obtain a w1 where g: "grab_one cfg obj w = ((grab_avail cfg obj (mem w), a), w1)"
    and ab: "a \<longrightarrow> ob_type obj = FSYNC_MUTEX \<and> mem w (mutex_tid (ob_shm obj)) = - 1"
    and c1: "calm w (if grab_avail cfg obj (mem w) then grab_mem cfg obj (mem w) else mem w) w1"
    using grab_one_quiet [OF Cons.prems(1)] by blast
  show ?case
  proof (cases "grab_avail cfg obj (mem w)")
    case False
    then have "ys = []" and "m' = mem w" using Cons.prems(3) by auto
    then show ?thesis using False g c1 by (auto simp: prevs intro!: exI [of _ w1] exI [of _ False])
  next
    case True
    obtain zs where z: "grab_prefix (grab_avail cfg) (grab_mem cfg) objs (mem w1) = (zs, m')" and ys: "ys = obj # zs"
      using Cons.prems(3) True calm_mem [OF c1] by (auto split: prod.splits)
    obtain w2 ab' where c2: "calm w1 m' w2"
      and run: "grab_all cfg (Suc i) (ab \<or> a) (map Some (zip objs ps)) w1 =
        (if length zs < length objs then Inl (Suc i + length zs) else Inr ab', w2)"
      and ab': "distinct (map ob_shm objs) \<and> (\<forall>o1 \<in> set objs. \<not> ownerless cfg o1 (mem w1)) \<longrightarrow> ab' = (ab \<or> a)"
      using Cons.IH [OF calm_intf [OF c1 Cons.prems(1)] len z] by blast
    have "grab_all cfg i ab (map Some (zip (obj # objs) prevs)) w =
        (if length ys < length (obj # objs) then Inl (i + length ys) else Inr ab', w2)"
      using g True run by (simp add: prevs ys)
    moreover have "ab' = ab" if d: "distinct (map ob_shm (obj # objs))"
      and live: "\<forall>o1 \<in> set (obj # objs). \<not> ownerless cfg o1 (mem w)"
    proof -
      have "\<not> a" using ab live by (auto simp: ownerless_def)
      moreover have "\<not> ownerless cfg o1 (mem w1)" if o1: "o1 \<in> set objs" for o1
      proof -
        have "ob_shm o1 \<noteq> ob_shm obj" using d o1 by (metis distinct.simps(2) image_eqI list.set_map list.simps(9))
        then show ?thesis using live o1 True calm_mem [OF c1] by (simp add: ownerless_def grab_mem_other)
      qed
      ultimately show ?thesis using ab' d by simp
    qed
    ultimately show ?thesis using calm_trans [OF c1 c2] by blast
  qed
qed

lemma put_back_all_quiet:
  assumes "intf w = []" and "length prevs = length objs"
  shows "calm w (fold undo_mem objs (mem w)) (put_back_all (map Some (zip objs prevs)) w)"
  using assms
proof (induction objs arbitrary: w prevs)
  case (Cons obj objs)
  obtain prev ps where prevs: "prevs = prev # ps" and len: "length ps = length objs"
    using Cons.prems(2) by (cases prevs) auto
  have c1: "calm w (undo_mem obj (mem w)) (put_back obj w)" by (rule put_back_quiet [OF Cons.prems(1)])
  from Cons.IH [OF calm_intf [OF c1 Cons.prems(1)] len] calm_trans [OF c1] show ?case
    by (simp add: prevs calm_mem [OF c1])
qed simp

text \<open>C10: Putting back after a failed attempt, undisturbed: when the grab of all objects stops at one that
  is not available, the objects before it that were grabbed are put back in reverse order and the
  memory is as before the attempt, provided every mutex among them had no owner and every
  auto-reset event held exactly 1 when it was grabbed (the same object may occur several times).\<close>
theorem failed_attempt_restores_state:
  assumes "intf w = []" and "length prevs = length objs" and "os = map Some (zip objs prevs)"
    and "grabs_cleanly (grab_avail cfg) grab_clean (grab_mem cfg) objs (mem w)"
    and "grab_all cfg 0 False os w = (Inl i, w')"
  shows "i < length objs \<and> mem (put_back_all (rev (take i os)) w') = mem w"
proof -
  obtain ys m' where pre: "grab_prefix (grab_avail cfg) (grab_mem cfg) objs (mem w) = (ys, m')" by fastforce
  obtain w1 ab where c1: "calm w m' w1" and run: "grab_all cfg 0 False os w =
      (if length ys < length objs then Inl (0 + length ys) else Inr ab, w1)"
    using grab_all_quiet [OF assms(1,2) pre] assms(3) by blast
  have i: "i = length ys" "i < length objs" "w' = w1" using run assms(5) by (auto split: if_splits)
  have ys: "ys = take i objs" using grab_prefix_take [OF pre] i by simp
  have "rev (take i os) = map Some (zip (rev ys) (rev (take i prevs)))"
    using assms(2,3) i by (simp add: ys take_map take_zip rev_map zip_rev)
  moreover have "calm w1 (fold undo_mem (rev ys) (mem w1)) (put_back_all (map Some (zip (rev ys) (rev (take i prevs)))) w1)"
    using calm_intf [OF c1 assms(1)] assms(2) i by (intro put_back_all_quiet) (simp_all add: ys)
  ultimately have "mem (put_back_all (rev (take i os)) w') = fold undo_mem (rev ys) m'"
    using i calm_mem [OF c1] by (simp add: calm_def)
  also have "\<dots> = mem w" by (rule fsync_all.rollback [OF pre assms(4)])
  finally show ?thesis using i by simp
qed


section \<open>Waiting for all objects\<close>

text \<open>What the first step waits for: a mutex of the caller or without owner, a nonzero word otherwise.\<close>

definition ready :: "fcfg \<Rightarrow> fobj \<Rightarrow> mem \<Rightarrow> bool" where
  "ready cfg obj m \<longleftrightarrow>
     (if ob_type obj = FSYNC_MUTEX then m (mutex_tid (ob_shm obj)) \<in> {current_tid cfg, 0}
      else m (ev_signaled (ob_shm obj)) \<noteq> 0)"

definition count_mem :: "fobj \<Rightarrow> mem \<Rightarrow> mem" where
  "count_mem obj m =
     (if ob_type obj = FSYNC_MUTEX
      then m(mutex_count (ob_shm obj) := m (mutex_count (ob_shm obj)) + 1) else m)"

definition all_mem :: "fcfg \<Rightarrow> fobj list \<Rightarrow> mem \<Rightarrow> mem" where
  "all_mem cfg objs m = fold count_mem objs (fold (grab_mem cfg) objs m)"

lemma ready_avail: "ready cfg obj m \<Longrightarrow> grab_avail cfg obj m"
  by (auto simp: ready_def grab_avail_def split: fsync_type.splits if_splits)

lemma wait_until_ready:
  assumes "intf w = []" and "if is_mutex then mem w a = 0 else mem w a \<noteq> 0"
  shows "wait_until alertable is_mutex a status outs w = Some (status, outs, w)"
  using assms by (subst wait_until.simps) (simp add: at_load_quiet)

lemma wait_sequence_ready:
  assumes "intf w = []" and "length prevs = length objs" and "\<forall>obj \<in> set objs. ready cfg obj (mem w)"
  shows "wait_sequence cfg alertable os (map Some (zip objs prevs)) 0 outs w = Some (Inr (0, outs, w))"
  using assms
proof (induction objs arbitrary: prevs)
  case (Cons obj objs)
  obtain prev ps where prevs: "prevs = prev # ps" and len: "length ps = length objs"
    using Cons.prems(2) by (cases prevs) auto
  have r: "ready cfg obj (mem w)" using Cons.prems(3) by simp
  have IH: "wait_sequence cfg alertable os (map Some (zip objs ps)) 0 outs w = Some (Inr (0, outs, w))"
    using Cons.IH [OF Cons.prems(1) len] Cons.prems(3) by simp
  show ?case
  proof (cases "ob_type obj = FSYNC_MUTEX")
    case True
    then show ?thesis
      using r IH Cons.prems(1) wait_until_ready [OF Cons.prems(1), of True "(ob_shm obj, W0)" alertable 0 outs]
      by (auto simp: prevs ready_def at_load_quiet)
  next
    case False
    then show ?thesis
      using r IH wait_until_ready [OF Cons.prems(1), of False "(ob_shm obj, W0)" alertable 0 outs]
      by (simp add: prevs ready_def)
  qed
qed simp

lemma still_signaled_ready:
  assumes "intf w = []" and "length prevs = length objs" and "\<forall>obj \<in> set objs. ready cfg obj (mem w)"
  shows "still_signaled cfg (map Some (zip objs prevs)) w = (True, w)"
  using assms
proof (induction objs arbitrary: prevs)
  case (Cons obj objs)
  obtain prev ps where prevs: "prevs = prev # ps" and len: "length ps = length objs"
    using Cons.prems(2) by (cases prevs) auto
  then show ?case
    using Cons.IH [OF Cons.prems(1) len] Cons.prems by (auto simp: ready_def at_load_quiet)
qed simp

lemma ready_other: "ob_shm obj \<noteq> ob_shm obj' \<Longrightarrow> ready cfg obj (grab_mem cfg obj' m) \<longleftrightarrow> ready cfg obj m"
  by (simp add: ready_def grab_mem_other)

lemma grab_prefix_ready:
  assumes "\<forall>obj \<in> set objs. ready cfg obj m" and "distinct (map ob_shm objs)"
  shows "grab_prefix (grab_avail cfg) (grab_mem cfg) objs m = (objs, fold (grab_mem cfg) objs m)"
  using assms
proof (induction objs arbitrary: m)
  case (Cons obj objs)
  have "ready cfg o1 (grab_mem cfg obj m)" if "o1 \<in> set objs" for o1
  proof -
    have "ob_shm o1 \<noteq> ob_shm obj"
      using Cons.prems(2) that by (metis distinct.simps(2) image_eqI list.set_map list.simps(9))
    then show ?thesis using Cons.prems(1) that by (simp add: ready_other)
  qed
  then show ?case using Cons ready_avail [of cfg obj m] by simp
qed simp

lemma count_mutexes_quiet:
  assumes "intf w = []" and "length prevs = length objs"
  shows "calm w (fold count_mem objs (mem w)) (count_mutexes (map Some (zip objs prevs)) w)"
  using assms
proof (induction objs arbitrary: w prevs)
  case (Cons obj objs)
  obtain prev ps where prevs: "prevs = prev # ps" and len: "length ps = length objs"
    using Cons.prems(2) by (cases prevs) auto
  define w1 where "w1 = (if ob_type obj = FSYNC_MUTEX
      then put_mem (mutex_count (ob_shm obj)) (mem w (mutex_count (ob_shm obj)) + 1) w else w)"
  have c1: "calm w (count_mem obj (mem w)) w1" by (simp add: w1_def count_mem_def calm_put)
  have "count_mutexes (map Some (zip (obj # objs) prevs)) w = count_mutexes (map Some (zip objs ps)) w1"
    using Cons.prems(1) by (simp add: prevs w1_def shm_simps)
  with Cons.IH [OF calm_intf [OF c1 Cons.prems(1)] len] calm_trans [OF c1] show ?case
    by (simp add: calm_mem [OF c1])
qed simp

lemma grab_held: "grab_mem cfg obj (held_mem pid S m) = held_mem pid S (grab_mem cfg obj m)"
  by (cases "ob_type obj") (simp_all add: grab_mem_def Let_def held_mem_upd)

lemma count_held: "count_mem obj (held_mem pid S m) = held_mem pid S (count_mem obj m)"
  by (simp add: count_mem_def held_mem_upd)

lemma all_held: "all_mem cfg objs (held_mem pid S m) = held_mem pid S (all_mem cfg objs m)"
proof -
  have "fold (grab_mem cfg) xs (held_mem pid S m) = held_mem pid S (fold (grab_mem cfg) xs m)" for xs m
    by (induction xs arbitrary: m) (simp_all add: grab_held)
  moreover have "fold count_mem xs (held_mem pid S m) = held_mem pid S (fold count_mem xs m)" for xs m
    by (induction xs arbitrary: m) (simp_all add: count_held)
  ultimately show ?thesis by (simp add: all_mem_def)
qed

lemma all_ref [simp]: "all_mem cfg objs m (s, W2) = m (s, W2)"
proof -
  have "fold (grab_mem cfg) xs m (s, W2) = m (s, W2)" for xs m
    by (induction xs arbitrary: m) (simp_all add: grab_mem_def Let_def split: fsync_type.split)
  moreover have "fold count_mem xs m (s, W2) = m (s, W2)" for xs m
    by (induction xs arbitrary: m) (simp_all add: count_mem_def)
  ultimately show ?thesis by (simp add: all_mem_def)
qed

lemma all_loop_ready:
  assumes "intf w = []" and "length prevs = length objs" and "\<forall>obj \<in> set objs. ready cfg obj (mem w)"
    and "distinct (map ob_shm objs)" and "\<forall>obj \<in> set objs. \<not> ownerless cfg obj (mem w)"
  shows "\<exists>w'. all_loop cfg alertable (map Some (zip objs prevs)) 0 outs w =
      Some (STATUS_SUCCESS, put_objects cfg (map Some (zip objs prevs)) w') \<and> calm w (all_mem cfg objs (mem w)) w'"
proof -
  let ?os = "map Some (zip objs prevs)"
  obtain w1 ab where c1: "calm w (fold (grab_mem cfg) objs (mem w)) w1"
    and g: "grab_all cfg 0 False ?os w = (Inr ab, w1)" and ab: "ab = False"
    using grab_all_quiet [OF assms(1,2) grab_prefix_ready [OF assms(3,4)], of 0 False] assms(4,5) by auto
  have c2: "calm w1 (fold count_mem objs (mem w1)) (count_mutexes ?os w1)"
    by (rule count_mutexes_quiet [OF calm_intf [OF c1 assms(1)] assms(2)])
  have "all_loop cfg alertable ?os 0 outs w = Some (STATUS_SUCCESS, put_objects cfg ?os (count_mutexes ?os w1))"
    using wait_sequence_ready [OF assms(1-3)] still_signaled_ready [OF assms(1-3)] g ab
    by (subst all_loop.simps) (simp add: all_round_def)
  moreover have "calm w (all_mem cfg objs (mem w)) (count_mutexes ?os w1)"
    using calm_trans [OF c1 c2] by (simp add: all_mem_def calm_mem [OF c1])
  ultimately show ?thesis by blast
qed


text \<open>C6: Waiting for all of several distinct objects, undisturbed, when every mutex among them is free
  or the caller's and every other object is signaled: the wait succeeds at once, without sleeping
  and whatever the timeout; every semaphore loses one permit, every auto-reset event is reset, every
  mutex belongs to the caller with its count raised by one, nothing else in memory changes, and the
  references are given back.\<close>
theorem wait_all_takes_all:
  assumes "at_rest w" and "1 < length hs" and "list_all2 (\<lambda>h obj. resolves h w obj) hs objs"
    and "distinct (map ob_shm objs)" and "current_pid cfg \<noteq> 0" and "current_tid cfg \<noteq> - 1"
    and "\<forall>obj \<in> set objs. ready cfg obj (mem w)"
  shows "\<exists>w'. fsync_wait_objects cfg hs False False timeout outs w = Some (STATUS_SUCCESS, w') \<and>
    at_rest w' \<and> mem w' = left_mem (ob_shm ` set objs) (all_mem cfg objs (mem w))"
proof -
  let ?pid = "current_pid cfg" and ?S = "ob_shm ` set objs"
  have ne: "hs \<noteq> []" using assms(2) by auto
  obtain w1 w2 prevs where lift: "\<forall>timeout outs st w3 m.
      do_wait_objects cfg hs False False timeout outs w1 = Some (st, w3) \<longrightarrow> calm w1 m w3 \<longrightarrow>
      (\<exists>w4. fsync_wait_objects cfg hs False False timeout outs w = Some (st, w4) \<and> calm w m w4)"
    and c1: "calm w (mem w) w1" and lenp: "length prevs = length objs"
    and get: "get_objects_for_wait cfg hs [] w1 = Some (Inr (map Some (zip objs prevs), w2))"
    and c2: "calm w1 (held_mem ?pid ?S (mem w)) w2"
    and finish: "\<forall>m w3. calm w2 (held_mem ?pid ?S m) w3 \<longrightarrow> (\<forall>s. m (s, W2) = mem w (s, W2)) \<longrightarrow>
       calm w1 (left_mem ?S m) (put_objects cfg (map Some (zip objs prevs)) w3)"
    using wait_frame [OF assms(1) ne assms(3-5)] by blast
  have rest1: "at_rest w1" using c1 assms(1) by (simp add: calm_rest)
  have q2: "intf w2 = []" and m2: "mem w2 = held_mem ?pid ?S (mem w)"
    using c2 rest1 by (simp_all add: calm_intf calm_mem)
  have rd: "\<forall>obj \<in> set objs. ready cfg obj (mem w2)" using assms(7) by (auto simp: m2 ready_def split: if_splits)
  have live: "\<forall>obj \<in> set objs. \<not> ownerless cfg obj (mem w2)"
  proof
    fix obj
    assume "obj \<in> set objs"
    then show "\<not> ownerless cfg obj (mem w2)"
      using assms(6,7) by (auto simp: m2 ready_def ownerless_def split: if_splits)
  qed
  obtain w3 where run: "all_loop cfg False (map Some (zip objs prevs)) 0 outs w2 =
      Some (STATUS_SUCCESS, put_objects cfg (map Some (zip objs prevs)) w3)"
    and c3: "calm w2 (held_mem ?pid ?S (all_mem cfg objs (mem w))) w3"
    using all_loop_ready [OF q2 lenp rd assms(4) live, of False outs] by (auto simp: m2 all_held)
  have "do_wait_objects cfg hs False False timeout outs w1 =
      Some (STATUS_SUCCESS, put_objects cfg (map Some (zip objs prevs)) w3)"
    using assms(2) run by (simp add: do_wait_objects_def get_apc_futex_def get Let_def not_le)
  moreover have "calm w1 (left_mem ?S (all_mem cfg objs (mem w))) (put_objects cfg (map Some (zip objs prevs)) w3)"
    using finish c3 by simp
  ultimately obtain w4 where "fsync_wait_objects cfg hs False False timeout outs w = Some (STATUS_SUCCESS, w4)"
    and "calm w (left_mem ?S (all_mem cfg objs (mem w))) w4"
    using lift by blast
  then show ?thesis using assms(1) by (auto simp: calm_rest calm_mem)
qed

text \<open>Two handles: 4 an auto-reset event in slot 7, 8 a mutex in slot 9.\<close>

definition sample_pair :: fclient where
  "sample_pair = \<lparr>mem = (\<lambda>p. if p = (7, W0) then 1 else if p = (9, W0) \<or> p = (9, W1) then 0 else 1),
     intf = [], acts = [],
     fcache = cache_put 256 4096 True 8 (Some (FSYNC_MUTEX, 9))
                (cache_put 256 4096 True 4 (Some (FSYNC_AUTO_EVENT, 7)) cache_empty),
     cintf = [], apc_futex = None\<rparr>"

lemma sample_pair_resolves:
  "resolves 4 sample_pair \<lparr>ob_type = FSYNC_AUTO_EVENT, ob_shm = 7\<rparr>"
  "resolves 8 sample_pair \<lparr>ob_type = FSYNC_MUTEX, ob_shm = 9\<rparr>"
  by (simp_all add: resolves_def sample_pair_def cache_get_put cacheable_put)
    (simp_all add: cacheable_def handle_to_index_def)

theorem wait_all_takes_all_witness:
  "\<exists>w'. fsync_wait_objects sample_cfg [4, 8] False False None [] sample_pair = Some (STATUS_SUCCESS, w') \<and>
     mem w' (7, W0) = 0 \<and> mem w' (9, W0) = 12 \<and> mem w' (9, W1) = 1"
proof -
  let ?e = "\<lparr>ob_type = FSYNC_AUTO_EVENT, ob_shm = 7\<rparr>" and ?m = "\<lparr>ob_type = FSYNC_MUTEX, ob_shm = 9\<rparr>"
  have "at_rest sample_pair" by (simp add: at_rest_def sample_pair_def)
  moreover have "list_all2 (\<lambda>h obj. resolves h sample_pair obj) [4, 8] [?e, ?m]"
    by (simp add: sample_pair_resolves)
  moreover have "\<forall>obj \<in> set [?e, ?m]. ready sample_cfg obj (mem sample_pair)"
    by (simp add: ready_def sample_pair_def)
  moreover have "current_pid sample_cfg \<noteq> 0" and "current_tid sample_cfg \<noteq> - 1" and "current_tid sample_cfg = 12"
    by (simp_all add: sample_cfg_def)
  ultimately obtain w' where "fsync_wait_objects sample_cfg [4, 8] False False None [] sample_pair = Some (STATUS_SUCCESS, w')"
    and "mem w' = left_mem (ob_shm ` set [?e, ?m]) (all_mem sample_cfg [?e, ?m] (mem sample_pair))"
    using wait_all_takes_all [of sample_pair "[4, 8]" "[?e, ?m]" sample_cfg None "[]"] by auto
  then show ?thesis
    by (simp add: left_mem_def all_mem_def grab_mem_def count_mem_def sample_pair_def sample_cfg_def)
qed

theorem failed_attempt_restores_state_witness:
  "\<exists>i w'. grab_all sample_cfg 0 False (map Some (zip [\<lparr>ob_type = FSYNC_AUTO_EVENT, ob_shm = 7\<rparr>,
       \<lparr>ob_type = FSYNC_AUTO_EVENT, ob_shm = 7\<rparr>] [0, 0])) sample_pair = (Inl i, w') \<and>
     mem w' (7, W0) = 0 \<and>
     mem (put_back_all (rev (take i (map Some (zip [\<lparr>ob_type = FSYNC_AUTO_EVENT, ob_shm = 7\<rparr>,
       \<lparr>ob_type = FSYNC_AUTO_EVENT, ob_shm = 7\<rparr>] [0, 0])))) w') = mem sample_pair"
proof -
  let ?e = "\<lparr>ob_type = FSYNC_AUTO_EVENT, ob_shm = 7\<rparr>"
  have q: "intf sample_pair = []" and one: "mem sample_pair (7, W0) = 1" by (simp_all add: sample_pair_def)
  have "grab_all sample_cfg 0 False (map Some (zip [?e, ?e] [0, 0])) sample_pair =
      (Inl 1, put_mem (7, W0) 0 sample_pair)"
    using q one by (simp add: grab_one_def at_cas_quiet)
  moreover have "grabs_cleanly (grab_avail sample_cfg) grab_clean (grab_mem sample_cfg) [?e, ?e] (mem sample_pair)"
    using one by (simp add: grab_avail_def grab_clean_def grab_mem_def)
  ultimately show ?thesis
    using failed_attempt_restores_state [OF q _ refl, of "[0, 0]" "[?e, ?e]" sample_cfg 1 "put_mem (7, W0) 0 sample_pair"]
    by auto
qed

section \<open>Three interleavings\<close>

text \<open>A wait for an abandoned mutex can miss its release: when another thread takes the abandoned
  mutex and releases it between the two compare-and-swaps of the waiter, the waiter goes to sleep on
  the word with the expected value 0, which is the value it has: the mutex is free, nobody else
  will wake the sleeper, and it does not return.\<close>
theorem abandoned_mutex_lost_wakeup:
  assumes "ob_type obj = FSYNC_MUTEX" and "current_tid cfg \<notin> {0, - 1}"
    and "mem w (mutex_tid (ob_shm obj)) = - 1"
    and "intf w = [id, id, \<lambda>m. m(mutex_tid (ob_shm obj) := 0)]" and "\<not> yield_to_waiters cfg"
  shows "\<exists>w'. try_grab cfg True alertable prev obj w = (Contended (mutex_tid (ob_shm obj)) 0, w') \<and>
    mem w' (mutex_tid (ob_shm obj)) = 0 \<and> effects w' = effects w \<and>
    any_loop cfg False False [Some (obj, prev)] True [] w = None"
proof -
  let ?a = "mutex_tid (ob_shm obj)"
  let ?w = "w\<lparr>mem := (mem w)(?a := 0), intf := []\<rparr>"
  have run: "try_grab cfg True al prev obj w = (Contended ?a 0, ?w)" for al
    using assms by (auto simp: try_grab_def try_mutex_def at_load_def at_cas_def interfere_def Let_def)
  have "effects ?w = effects w" by (simp add: effects_def trace_def)
  moreover have "any_loop cfg False False [Some (obj, prev)] True [] w = None"
    by (simp add: any_round_def apc_pending_def run Let_def)
  ultimately show ?thesis using run by simp
qed

theorem abandoned_mutex_lost_wakeup_witness:
  "\<exists>w. any_loop sample_cfg False False [Some (\<lparr>ob_type = FSYNC_MUTEX, ob_shm = 7\<rparr>, 0)] True [] w = None"
  using abandoned_mutex_lost_wakeup [of "\<lparr>ob_type = FSYNC_MUTEX, ob_shm = 7\<rparr>" sample_cfg
      "(sample_client FSYNC_MUTEX (\<lambda>_. - 1))\<lparr>intf := [id, id, \<lambda>m. m((7, W0) := 0)]\<rparr>" False 0]
  by (auto simp: sample_cfg_def)

lemma wait_until_abandoned:
  assumes "intf w = []" and "mem w a = - 1" and "set outs \<subseteq> {FAgain}"
  shows "wait_until False True a st outs w = None"
  using assms
proof (induction outs arbitrary: w st)
  case Nil
  then show ?case by (subst wait_until.simps) (simp add: at_load_quiet do_single_wait_def apc_pending_def)
next
  case (Cons out outs)
  have "wait_until False True a STATUS_PENDING outs (emit (FutexWait (Some (a, - 1) # apc_word False w)) w) = None"
    using Cons.prems by (intro Cons.IH) simp_all
  then show ?case
    using Cons.prems by (subst wait_until.simps) (simp add: at_load_quiet do_single_wait_def apc_pending_def)
qed

text \<open>A wait for all objects never acquires a mutex that is already abandoned: although a wait for any
  object takes it at once, the wait for all sleeps on it, and every spurious wake-up sends it back to
  sleep, as long as nobody else changes the mutex.\<close>
theorem wait_all_ignores_abandoned_mutex:
  assumes "ob_type obj = FSYNC_MUTEX" and "current_tid cfg \<noteq> - 1" and "intf w = []"
    and "mem w (mutex_tid (ob_shm obj)) = - 1" and "set outs \<subseteq> {FAgain}"
  shows "all_loop cfg False (Some (obj, prev) # os) 0 outs w = None \<and>
    (\<exists>w'. scan_any cfg False False 0 (Some (obj, prev) # os) [] w = (Inl STATUS_ABANDONED_WAIT_0, w') \<and>
       mem w' (mutex_tid (ob_shm obj)) = current_tid cfg)"
proof -
  have sg: "signaled cfg obj (mem w)" using assms(1,4) by (simp add: signaled_def)
  have "\<exists>w'. try_grab cfg False False prev obj w = (Got STATUS_ABANDONED_WAIT_0, w') \<and>
      mem w' (mutex_tid (ob_shm obj)) = current_tid cfg"
    using try_grab_quiet [OF assms(3) sg, of False False prev] assms(1,2,4)
    by (auto simp: acquire_status_def acquire_mem_def calm_def Let_def)
  moreover have "all_loop cfg False (Some (obj, prev) # os) 0 outs w = None"
    using assms by (subst all_loop.simps) (simp add: all_round_def at_load_quiet wait_until_abandoned)
  ultimately show ?thesis by auto
qed

theorem wait_all_ignores_abandoned_mutex_witness:
  "all_loop sample_cfg False [Some (\<lparr>ob_type = FSYNC_MUTEX, ob_shm = 7\<rparr>, 0), None] 0 [FAgain, FAgain]
     (sample_client FSYNC_MUTEX (\<lambda>_. - 1)) = None"
  using wait_all_ignores_abandoned_mutex [of "\<lparr>ob_type = FSYNC_MUTEX, ob_shm = 7\<rparr>" sample_cfg
      "sample_client FSYNC_MUTEX (\<lambda>_. - 1)" "[FAgain, FAgain]" 0 "[None]"]
  by (simp add: sample_cfg_def)

text \<open>A failed attempt of a wait for all objects takes away a mutex its caller owned before the
  wait: when an auto-reset event of the set is consumed by someone else between the check and the
  grab, putting back clears the owner of the mutex (its recursion count stays), so another thread
  can acquire it while this one still believes to own it.\<close>
theorem wait_all_gives_up_owned_mutex:
  assumes "ob_type mtx = FSYNC_MUTEX" and "ob_type ev = FSYNC_AUTO_EVENT" and "ob_shm mtx \<noteq> ob_shm ev"
    and "current_tid cfg \<noteq> 0" and "mem w (mutex_tid (ob_shm mtx)) = current_tid cfg"
    and "mem w (ev_signaled (ob_shm ev)) = 1"
    and "intf w = [id, id, id, id, id, \<lambda>m. m(ev_signaled (ob_shm ev) := 0)]"
  shows "\<exists>w'. all_round cfg False [Some (mtx, p), Some (ev, q)] 0 outs w = Some (Inr (0, outs, w')) \<and>
    mem w' (mutex_tid (ob_shm mtx)) = 0 \<and> mem w' (mutex_count (ob_shm mtx)) = mem w (mutex_count (ob_shm mtx))"
proof -
  let ?os = "[Some (mtx, p), Some (ev, q)]" and ?e = "ev_signaled (ob_shm ev)" and ?t = "mutex_tid (ob_shm mtx)"
  let ?fs = "\<lambda>n. drop n [id, id, id, id, id, \<lambda>m. m(?e := 0)]"
  let ?w = "\<lambda>n. w\<lparr>intf := ?fs n\<rparr>"
  have "wait_until False False ?e 0 outs (?w 1) = Some (0, outs, ?w 2)"
    using assms(6) by (subst wait_until.simps) (simp add: at_load_def interfere_def)
  then have s1: "wait_sequence cfg False ?os ?os 0 outs w = Some (Inr (0, outs, ?w 2))"
    using assms by (simp add: at_load_def interfere_def)
  have s2: "still_signaled cfg ?os (?w 2) = (True, ?w 4)"
    using assms by (simp add: at_load_def interfere_def)
  have s3: "grab_all cfg 0 False ?os (?w 4) = (Inl 1, w\<lparr>intf := [], mem := (mem w)(?e := 0)\<rparr>)"
    using assms by (simp add: grab_one_def at_load_def at_cas_def interfere_def Let_def)
  show ?thesis
    using s1 s2 s3 assms(1,3)
    by (simp add: all_round_def put_back_def at_store_quiet)
qed

theorem wait_all_gives_up_owned_mutex_witness:
  "\<exists>w w'. mem w (9, W0) = current_tid sample_cfg \<and>
     all_round sample_cfg False [Some (\<lparr>ob_type = FSYNC_MUTEX, ob_shm = 9\<rparr>, 0),
       Some (\<lparr>ob_type = FSYNC_AUTO_EVENT, ob_shm = 7\<rparr>, 0)] 0 [] w = Some (Inr (0, [], w')) \<and> mem w' (9, W0) = 0"
proof -
  let ?w = "sample_pair\<lparr>mem := (\<lambda>_. 1)((9, W0) := 12), intf := [id, id, id, id, id, \<lambda>m. m((7, W0) := 0)]\<rparr>"
  have "mem ?w (9, W0) = current_tid sample_cfg" by (simp add: sample_cfg_def)
  moreover from this have "\<exists>w'. all_round sample_cfg False [Some (\<lparr>ob_type = FSYNC_MUTEX, ob_shm = 9\<rparr>, 0),
       Some (\<lparr>ob_type = FSYNC_AUTO_EVENT, ob_shm = 7\<rparr>, 0)] 0 [] ?w = Some (Inr (0, [], w')) \<and> mem w' (9, W0) = 0"
    using wait_all_gives_up_owned_mutex [of "\<lparr>ob_type = FSYNC_MUTEX, ob_shm = 9\<rparr>"
        "\<lparr>ob_type = FSYNC_AUTO_EVENT, ob_shm = 7\<rparr>" sample_cfg ?w 0 0 "[]"]
    by (auto simp: sample_cfg_def)
  ultimately show ?thesis by blast
qed

end
