(* ===== verification/Fsync_Machine.thy ===== *)
theory Fsync_Machine
  imports Fsync_All_Quiet
begin

text \<open>
  Any number of threads on one mutex and on one semaphore, as state machines whose steps are single
  atomic accesses. A thread follows the protocol that the traces of fsync.c show (\<open>pc_step\<close>; the
  trace theorems below say that acquiring and releasing do follow it), and the server may at any
  time abandon the mutex of a dead thread by its two separate writes.
\<close>

section \<open>The protocol of one thread\<close>

datatype mpc = Idle | Taking | Owning | Dropping | Dead

inductive pc_step :: "i32 \<Rightarrow> nat \<Rightarrow> mpc \<Rightarrow> act \<Rightarrow> mpc \<Rightarrow> bool" for me k where
  take: "v = 0 \<or> v = - 1 \<Longrightarrow> pc_step me k Idle (Wr (mutex_tid k) v me) Taking"
| counted: "pc_step me k Taking (Wr (mutex_count k) c 1) Owning"
| nested: "pc_step me k Owning (Wr (mutex_count k) c n) Owning"
| drop: "pc_step me k Owning (Wr (mutex_count k) c 0) Dropping"
| free: "pc_step me k Dropping (Wr (mutex_tid k) v 0) Idle"
| wake: "pc_step me k pc (Wake p) pc"

inductive_cases pc_step_WrE: "pc_step me k pc (Wr p v n) pc'"

inductive pc_run :: "i32 \<Rightarrow> nat \<Rightarrow> mpc \<Rightarrow> act list \<Rightarrow> mpc \<Rightarrow> bool" for me k where
  nil: "pc_run me k pc [] pc"
| more: "pc_step me k pc a pc' \<Longrightarrow> pc_run me k pc' as pc'' \<Longrightarrow> pc_run me k pc (a # as) pc''"

lemmas pc_run_intros = pc_run.intros pc_step.intros

section \<open>The code follows it\<close>

text \<open>The trace of a release under interference: the last one clears the owner and then wakes.\<close>

lemma release_mutex_effects:
  assumes "fsync_release_mutex cfg h w = Some ((st, prev), w')"
  shows "prev = None \<and> effects w' = effects w \<or>
    (\<exists>k c c' v. st = STATUS_SUCCESS \<and> prev = Some c \<and>
       effects w' = effects w @ Wr (mutex_count k) c' (c - 1) #
         (if c - 1 = 0 then [Wr (mutex_tid k) v 0, Wake (mutex_tid k)] else []))"
  using assms unfolding fsync_release_mutex_def
proof (cases rule: get_object_result)
  case err
  then show ?thesis using effects_trace by blast
next
  case (obj obj w1)
  let ?k = "ob_shm obj"
  have e1: "effects w1 = effects w" by (rule effects_trace [OF obj(3)])
  obtain t w2 where t: "at_load (mutex_tid ?k) w1 = (t, w2)" by fastforce
  obtain c w3 where c: "at_load (mutex_count ?k) w2 = (c, w3)" by fastforce
  have e3: "effects w3 = effects w" using e1 effects_load [OF t] effects_load [OF c] by simp
  obtain c' where e4: "effects (at_store (mutex_count ?k) (c - 1) w3) = effects w3 @ [Wr (mutex_count ?k) c' (c - 1)]"
    using effects_store_count by blast
  define w4 where "w4 = at_store (mutex_count ?k) (c - 1) w3"
  define w5 where "w5 = (if c - 1 = 0 then emit (Wake (mutex_tid ?k)) (at_store (mutex_tid ?k) 0 w4) else w4)"
  have e5: "effects w5 = effects w @ Wr (mutex_count ?k) c' (c - 1) #
      (if c - 1 = 0 then [Wr (mutex_tid ?k) (mem (interfere w4) (mutex_tid ?k)) 0, Wake (mutex_tid ?k)] else [])"
    using e3 e4 by (simp add: w5_def w4_def [symmetric] effects_store) (simp add: effects_def)
  show ?thesis
  proof (cases "t = current_tid cfg")
    case True
    then have "st = STATUS_SUCCESS" "prev = Some c" "w' = put_object obj w5"
      using obj(2) by (auto simp: t c w5_def w4_def Let_def)
    then show ?thesis using e5 by auto
  next
    case False
    then show ?thesis using obj(2) e1 effects_load [OF t] by (auto simp: t)
  qed
qed

lemma acquire_follows_protocol:
  assumes "acquires cfg obj k es" and "ob_type obj = FSYNC_MUTEX"
  shows "pc_run (current_tid cfg) (ob_shm obj) Idle es Owning \<or>
    pc_run (current_tid cfg) (ob_shm obj) Owning es Owning"
  using assms by (auto simp: acquires_def Let_def intro!: pc_run_intros)

lemma release_follows_protocol:
  "pc_run me k Owning (Wr (mutex_count k) c' (c - 1) #
     (if c - 1 = 0 then [Wr (mutex_tid k) v 0, Wake (mutex_tid k)] else []))
   (if c - 1 = 0 then Idle else Owning)"
  by (auto intro!: pc_run_intros)

section \<open>All threads together\<close>

record mutex_state =
  mword :: i32              \<comment> \<open>the word \<open>tid\<close> of the slot\<close>
  mcnt :: i32               \<comment> \<open>the word \<open>count\<close>\<close>
  mpcs :: "i32 \<Rightarrow> mpc"

definition mget :: "mutex_state \<Rightarrow> field \<Rightarrow> i32" where
  "mget s f = (if f = W0 then mword s else mcnt s)"

definition mset :: "field \<Rightarrow> i32 \<Rightarrow> mutex_state \<Rightarrow> mutex_state" where
  "mset f v s = (if f = W0 then s\<lparr>mword := v\<rparr> else s\<lparr>mcnt := v\<rparr>)"

text \<open>
  A thread makes a step of its protocol, the write taking effect on the value it names; a thread dies;
  the server gives the word of a dead thread the abandoned mark; the server clears the count.
\<close>

inductive mutex_step :: "nat \<Rightarrow> mutex_state \<Rightarrow> mutex_state \<Rightarrow> bool" for k where
  thread: "t \<noteq> 0 \<Longrightarrow> t \<noteq> - 1 \<Longrightarrow> pc_step t k (mpcs s t) (Wr (k, f) v n) pc' \<Longrightarrow> mget s f = v \<Longrightarrow>
    mutex_step k s (mset f n (s\<lparr>mpcs := (mpcs s)(t := pc')\<rparr>))"
| die: "mutex_step k s (s\<lparr>mpcs := (mpcs s)(t := Dead)\<rparr>)"
| abandon_tid: "mpcs s t = Dead \<Longrightarrow> mword s = t \<Longrightarrow> mutex_step k s (s\<lparr>mword := - 1\<rparr>)"
| abandon_count: "mutex_step k s (s\<lparr>mcnt := 0\<rparr>)"

definition mutex_start :: mutex_state where
  "mutex_start = \<lparr>mword = 0, mcnt = 0, mpcs = (\<lambda>_. Idle)\<rparr>"

inductive mutex_reachable :: "nat \<Rightarrow> mutex_state \<Rightarrow> bool" for k where
  start: "mutex_reachable k mutex_start"
| step: "mutex_reachable k s \<Longrightarrow> mutex_step k s s' \<Longrightarrow> mutex_reachable k s'"

definition holds :: "mutex_state \<Rightarrow> i32 \<Rightarrow> bool" where
  "holds s t \<longleftrightarrow> mpcs s t \<in> {Taking, Owning, Dropping}"

definition mutex_inv :: "mutex_state \<Rightarrow> bool" where
  "mutex_inv s \<longleftrightarrow> (\<forall>t. holds s t \<longrightarrow> mword s = t \<and> t \<noteq> 0 \<and> t \<noteq> - 1)"

lemma mutex_step_inv [inv_intros]: "mutex_step k s s' \<Longrightarrow> mutex_inv s \<Longrightarrow> mutex_inv s'"
proof (induction rule: mutex_step.induct)
  case (thread t s f v n pc')
  have inv: "holds s u \<Longrightarrow> mword s = u \<and> u \<noteq> 0 \<and> u \<noteq> - 1" for u
    using thread.prems by (simp add: mutex_inv_def)
  have other: "holds (mset f n (s\<lparr>mpcs := (mpcs s)(t := pc')\<rparr>)) u \<longleftrightarrow> (if u = t then pc' \<in> {Taking, Owning, Dropping} else holds s u)" for u
    by (simp add: holds_def mset_def)
  from thread(3) show ?case
  proof cases
    case take
    then have "mword s = 0 \<or> mword s = - 1" using thread(4) by (simp add: mget_def)
    then have "\<not> holds s u" for u using inv by metis
    then show ?thesis using take thread(1,2) unfolding mutex_inv_def other by (simp add: mset_def)
  next
    case free
    then have "holds s t" by (simp add: holds_def)
    then have "holds s u \<longrightarrow> u = t" for u using inv by metis
    then show ?thesis using free unfolding mutex_inv_def other by (auto simp: mset_def)
  qed (use inv [of t] inv in \<open>auto simp: mutex_inv_def other holds_def mset_def\<close>)
next
  case (die s t)
  then show ?case by (auto simp: mutex_inv_def holds_def)
next
  case (abandon_tid s t)
  have "\<not> holds s u" for u
  proof
    assume "holds s u"
    then have "u = t" using abandon_tid by (simp add: mutex_inv_def)
    with \<open>holds s u\<close> abandon_tid(1) show False by (simp add: holds_def)
  qed
  then show ?case by (simp add: mutex_inv_def holds_def)
next
  case (abandon_count s)
  then show ?case by (simp add: mutex_inv_def holds_def)
qed

lemma mutex_inv_start: "mutex_inv mutex_start"
  by (simp add: mutex_inv_def mutex_start_def holds_def)

lemma mutex_reachable_inv: "mutex_reachable k s \<Longrightarrow> mutex_inv s"
  by (induction rule: mutex_reachable.induct)
    (auto intro: mutex_step_inv mutex_inv_start)




section \<open>The server's abandoning of a mutex is not atomic\<close>



section \<open>Semaphores\<close>

text \<open>
  The accesses to the count of one semaphore: a permit is taken, or \<open>n\<close> are released within the
  maximum and without overflow, which is what the code checks when the sum does not wrap. The other
  component is the number of permits taken minus those released, over all threads.
\<close>

inductive sem_step :: "nat \<Rightarrow> i32 \<Rightarrow> i32 \<times> int \<Rightarrow> act \<Rightarrow> i32 \<times> int \<Rightarrow> bool" for k maximum where
  take: "c \<noteq> 0 \<Longrightarrow> sem_step k maximum (c, out) (Wr (sem_count k) c (c - 1)) (c - 1, out + 1)"
| give: "n + c \<le> maximum \<Longrightarrow> unat n + unat c < 2 ^ 32 \<Longrightarrow>
    sem_step k maximum (c, out) (Wr (sem_count k) c (n + c)) (n + c, out - int (unat n))"

inductive sem_run :: "nat \<Rightarrow> i32 \<Rightarrow> i32 \<times> int \<Rightarrow> act list \<Rightarrow> i32 \<times> int \<Rightarrow> bool" for k maximum where
  nil: "sem_run k maximum s [] s"
| more: "sem_step k maximum s a s' \<Longrightarrow> sem_run k maximum s' as s'' \<Longrightarrow> sem_run k maximum s (a # as) s''"

inductive_simps sem_step_simp: "sem_step k maximum s a s'"

lemma sem_step_balance:
  assumes "sem_step k maximum (c, out) a (c', out')" and "c \<le> maximum"
  shows "int (unat c') + out' = int (unat c) + out \<and> c' \<le> maximum"
  using assms
proof cases
  case take
  then have "unat (c - 1) = unat c - 1" and "0 < unat c" by (simp_all add: unat_minus_one unat_gt_0)
  moreover have "c - 1 \<le> maximum" using calculation assms(2) by (simp add: word_le_nat_alt)
  ultimately show ?thesis using take by simp
next
  case (give n)
  then have "unat (n + c) = unat n + unat c" by (simp add: unat_add_lem [symmetric])
  then show ?thesis using give by simp
qed



end
