(* ===== verification/Sync_Spec.thy ===== *)
theory Sync_Spec
  imports Prelude
begin

text \<open>
  What the synchronization objects promise, whoever implements them: a semaphore is a bounded number of
  permits, an event a flag, a mutex has an owner and a recursion count. The operations work on a
  table of objects by handle and return a status. \<open>sync_objects\<close> is the contract of an
  implementation: each operation ends, with the status and the effect of the specification. Both
  implementations of the repository, the futex objects and the eventfd objects, are shown to meet it
  (theories \<open>Fsync_Refine\<close> and \<open>Esync_Refine\<close>).
\<close>

section \<open>Abstract objects\<close>

datatype mstate = MFree | MAbandoned | MOwned i32 nat

text \<open>The owner word and the recursion count that both implementations keep in shared memory.\<close>

definition owner_state :: "i32 \<Rightarrow> i32 \<Rightarrow> mstate" where
  "owner_state t n = (if t = 0 then MFree else if t = - 1 then MAbandoned else MOwned t (unat n))"

datatype aobj =
    ASemaphore nat nat      \<comment> \<open>count, maximum\<close>
  | AEvent bool bool        \<comment> \<open>manual reset, signaled\<close>
  | AMutex mstate

type_synonym astate = "u64 \<Rightarrow> aobj option"

datatype sop =
    Release u64 u32
  | SetEv u64
  | ResetEv u64
  | ReleaseMut u64
  | TryAny "u64 list"       \<comment> \<open>wait for any of the handles with a zero timeout\<close>

fun a_release :: "u32 \<Rightarrow> aobj \<Rightarrow> ntstatus \<times> aobj" where
  "a_release n (ASemaphore c m) =
     (if m < c + unat n then (STATUS_SEMAPHORE_LIMIT_EXCEEDED, ASemaphore c m) else (0, ASemaphore (c + unat n) m))"
| "a_release n x = (0, x)"

fun a_signal :: "bool \<Rightarrow> aobj \<Rightarrow> ntstatus \<times> aobj" where
  "a_signal b (AEvent man s) = (0, AEvent man b)"
| "a_signal b x = (STATUS_OBJECT_TYPE_MISMATCH, x)"

fun a_unlock :: "i32 \<Rightarrow> aobj \<Rightarrow> ntstatus \<times> aobj" where
  "a_unlock me (AMutex (MOwned t n)) =
     (if t \<noteq> me then (STATUS_MUTANT_NOT_OWNED, AMutex (MOwned t n))
      else (0, AMutex (if n = 1 then MFree else MOwned t (n - 1))))"
| "a_unlock me x = (STATUS_MUTANT_NOT_OWNED, x)"

text \<open>Acquiring by a wait: \<open>None\<close> if the object is not signaled for the thread.\<close>

fun a_acquire :: "i32 \<Rightarrow> aobj \<Rightarrow> (ntstatus \<times> aobj) option" where
  "a_acquire me (ASemaphore c m) = (if c = 0 then None else Some (0, ASemaphore (c - 1) m))"
| "a_acquire me (AEvent man s) = (if s then Some (0, AEvent man man) else None)"
| "a_acquire me (AMutex MFree) = Some (0, AMutex (MOwned me 1))"
| "a_acquire me (AMutex MAbandoned) = Some (STATUS_ABANDONED_WAIT_0, AMutex (MOwned me 1))"
| "a_acquire me (AMutex (MOwned t n)) = (if t = me then Some (0, AMutex (MOwned t (n + 1))) else None)"

fun a_try :: "i32 \<Rightarrow> nat \<Rightarrow> u64 list \<Rightarrow> astate \<Rightarrow> ntstatus \<times> astate" where
  "a_try me i [] a = (STATUS_TIMEOUT, a)"
| "a_try me i (h # hs) a =
     (case Option.bind (a h) (a_acquire me) of
        Some (st, x) \<Rightarrow> (st + i, a(h \<mapsto> x))
      | None \<Rightarrow> a_try me (Suc i) hs a)"

text \<open>Acquiring all of several objects; the flag says whether one of them was an abandoned mutex.\<close>

fun a_all :: "i32 \<Rightarrow> u64 list \<Rightarrow> astate \<Rightarrow> (bool \<times> astate) option" where
  "a_all me [] a = Some (False, a)"
| "a_all me (h # hs) a =
     (case Option.bind (a h) (a_acquire me) of
        None \<Rightarrow> None
      | Some (st, x) \<Rightarrow> map_option (\<lambda>(ab, a'). (st \<noteq> 0 \<or> ab, a')) (a_all me hs (a(h \<mapsto> x))))"

definition a_on :: "u64 \<Rightarrow> (aobj \<Rightarrow> ntstatus \<times> aobj) \<Rightarrow> astate \<Rightarrow> ntstatus \<times> astate" where
  "a_on h f a = (case a h of None \<Rightarrow> (STATUS_INVALID_HANDLE, a) | Some x \<Rightarrow> (fst (f x), a(h \<mapsto> snd (f x))))"

fun a_op :: "i32 \<Rightarrow> sop \<Rightarrow> astate \<Rightarrow> ntstatus \<times> astate" where
  "a_op me (Release h n) a = a_on h (a_release n) a"
| "a_op me (SetEv h) a = a_on h (a_signal True) a"
| "a_op me (ResetEv h) a = a_on h (a_signal False) a"
| "a_op me (ReleaseMut h) a = a_on h (a_unlock me) a"
| "a_op me (TryAny hs) a = a_try me 0 hs a"

text \<open>
  The calls the contract speaks of: on known objects, permits released to a semaphore and mutexes to a
  mutex, counts below \<open>2 ^ 31\<close>; a wait names each handle once.
\<close>

fun a_ok :: "sop \<Rightarrow> astate \<Rightarrow> bool" where
  "a_ok (Release h n) a \<longleftrightarrow> (case a h of Some (ASemaphore c m) \<Rightarrow> unat n < 2 ^ 31 | _ \<Rightarrow> False)"
| "a_ok (SetEv h) a \<longleftrightarrow> a h \<noteq> None"
| "a_ok (ResetEv h) a \<longleftrightarrow> a h \<noteq> None"
| "a_ok (ReleaseMut h) a \<longleftrightarrow> (case a h of Some (AMutex m) \<Rightarrow> True | _ \<Rightarrow> False)"
| "a_ok (TryAny hs) a \<longleftrightarrow> hs \<noteq> [] \<and> distinct hs \<and>
     list_all (\<lambda>h. case a h of None \<Rightarrow> False | Some (AMutex (MOwned t n)) \<Rightarrow> n < 2 ^ 31 - 1 | Some _ \<Rightarrow> True) hs"

section \<open>Counts at their width\<close>

lemma no_wrap_add:
  fixes n c m :: u32
  assumes "unat n < 2 ^ 31" and "unat c \<le> unat m" and "unat m < 2 ^ 31"
  shows "unat (n + c) = unat n + unat c" and "n + c > m \<longleftrightarrow> unat m < unat c + unat n"
proof -
  show u: "unat (n + c) = unat n + unat c"
    using assms by (intro unat_add_lem [THEN iffD1]) simp
  show "n + c > m \<longleftrightarrow> unat m < unat c + unat n"
    unfolding word_less_nat_alt u by linarith
qed

lemma unat_minus_1: "x \<noteq> 0 \<Longrightarrow> unat (x - 1) = unat x - 1" for x :: i32
  by (simp add: unat_minus_one)

lemma a_try_none:
  "\<forall>h \<in> set ks. Option.bind (a h) (a_acquire me) = None \<Longrightarrow> a_try me k ks a = (STATUS_TIMEOUT, a)"
  by (induction ks arbitrary: k) auto

lemma a_try_hit:
  assumes "i < length ks" and "Option.bind (a (ks ! i)) (a_acquire me) = Some (st, x)"
    and "\<forall>j < i. Option.bind (a (ks ! j)) (a_acquire me) = None"
  shows "a_try me k ks a = (st + (k + i), a(ks ! i \<mapsto> x))"
  using assms
proof (induction ks arbitrary: i k)
  case (Cons h hs)
  show ?case
  proof (cases i)
    case 0
    then show ?thesis using Cons.prems by (simp add: fun_upd_def)
  next
    case (Suc j)
    have "Option.bind (a h) (a_acquire me) = None" using Cons.prems(3) Suc by fastforce
    moreover have "a_try me (Suc k) hs a = (st + (Suc k + j), a(hs ! j \<mapsto> x))"
      using Cons.prems Suc by (intro Cons.IH) auto
    ultimately show ?thesis using Suc by (simp add: fun_upd_def)
  qed
qed simp

lemma a_all_distinct:
  assumes "distinct ks" and "\<forall>h \<in> set ks. Option.bind (a h) (a_acquire me) = Some (st h, x h)"
  shows "a_all me ks a = Some (\<exists>h \<in> set ks. st h \<noteq> 0, \<lambda>h. if h \<in> set ks then Some (x h) else a h)"
  using assms
proof (induction ks arbitrary: a)
  case (Cons k ks)
  have "\<forall>h \<in> set ks. Option.bind ((a(k \<mapsto> x k)) h) (a_acquire me) = Some (st h, x h)"
    using Cons.prems by auto
  then have "a_all me ks (a(k \<mapsto> x k)) =
      Some (\<exists>h \<in> set ks. st h \<noteq> 0, \<lambda>h. if h \<in> set ks then Some (x h) else (a(k \<mapsto> x k)) h)"
    using Cons.prems(1) by (intro Cons.IH) simp_all
  then show ?case using Cons.prems by (auto simp: fun_eq_iff)
qed simp

section \<open>Sequences of calls\<close>

fun a_run :: "i32 \<Rightarrow> sop list \<Rightarrow> astate \<Rightarrow> ntstatus list \<times> astate" where
  "a_run me [] a = ([], a)"
| "a_run me (op # ops) a = (let (st, a1) = a_op me op a; (sts, a2) = a_run me ops a1 in (st # sts, a2))"

fun a_run_ok :: "i32 \<Rightarrow> sop list \<Rightarrow> astate \<Rightarrow> bool" where
  "a_run_ok me [] a \<longleftrightarrow> True"
| "a_run_ok me (op # ops) a \<longleftrightarrow> a_ok op a \<and> a_run_ok me ops (snd (a_op me op a))"

fun run_calls :: "(sop \<Rightarrow> 's \<Rightarrow> (ntstatus \<times> 's) option) \<Rightarrow> sop list \<Rightarrow> 's \<Rightarrow> (ntstatus list \<times> 's) option" where
  "run_calls run [] s = Some ([], s)"
| "run_calls run (op # ops) s =
     do {
       (st, s1) \<leftarrow> run op s;
       (sts, s2) \<leftarrow> run_calls run ops s1;
       Some (st # sts, s2)
     }"

section \<open>The contract\<close>

locale sync_objects =
  fixes inv :: "'s \<Rightarrow> bool"
    and abs :: "'s \<Rightarrow> astate"
    and me :: i32
    and run :: "sop \<Rightarrow> 's \<Rightarrow> (ntstatus \<times> 's) option"
  assumes step: "inv s \<Longrightarrow> a_ok op (abs s) \<Longrightarrow>
    \<exists>st s'. run op s = Some (st, s') \<and> inv s' \<and> a_op me op (abs s) = (st, abs s')"
begin

text \<open>Every sequence of calls ends, with the statuses and the final objects of the specification.\<close>

lemma run_refines:
  assumes "inv s" and "a_run_ok me ops (abs s)"
  shows "\<exists>sts s'. run_calls run ops s = Some (sts, s') \<and> inv s' \<and> a_run me ops (abs s) = (sts, abs s')"
  using assms
proof (induction ops arbitrary: s)
  case (Cons op ops)
  obtain st s1 where s1: "run op s = Some (st, s1)" "inv s1" "a_op me op (abs s) = (st, abs s1)"
    using step [OF Cons.prems(1), of op] Cons.prems(2) by auto
  then obtain sts s2 where "run_calls run ops s1 = Some (sts, s2)" "inv s2" "a_run me ops (abs s1) = (sts, abs s2)"
    using Cons.IH [OF s1(2)] Cons.prems(2) by auto
  with s1 show ?case by (intro exI [of _ "st # sts"] exI [of _ s2]) simp
qed simp

end

text \<open>Two implementations with equal abstract states give the same answers for ever.\<close>

locale sync_objects_pair =
  one: sync_objects inv1 abs1 me run1 + two: sync_objects inv2 abs2 me run2
  for inv1 :: "'s \<Rightarrow> bool" and abs1 me run1 and inv2 :: "'t \<Rightarrow> bool" and abs2 run2
begin

lemma same_answers:
  assumes "inv1 s" and "inv2 t" and "abs1 s = abs2 t" and "a_run_ok me ops (abs1 s)"
  shows "\<exists>sts s' t'. run_calls run1 ops s = Some (sts, s') \<and> run_calls run2 ops t = Some (sts, t') \<and>
    abs1 s' = abs2 t'"
proof -
  obtain sts s' where "run_calls run1 ops s = Some (sts, s')" and a: "a_run me ops (abs1 s) = (sts, abs1 s')"
    using one.run_refines [OF assms(1,4)] by blast
  moreover have "a_run_ok me ops (abs2 t)" using assms(3,4) by simp
  then obtain sts' t' where "run_calls run2 ops t = Some (sts', t')" and "a_run me ops (abs2 t) = (sts', abs2 t')"
    using two.run_refines [OF assms(2)] by blast
  ultimately show ?thesis using assms(3) by simp
qed

end

section \<open>The specification keeps its objects well formed\<close>

definition a_wf :: "aobj \<Rightarrow> bool" where
  "a_wf x \<longleftrightarrow> (case x of ASemaphore c m \<Rightarrow> c \<le> m | AMutex (MOwned t n) \<Rightarrow> 0 < n | _ \<Rightarrow> True)"

lemma a_release_wf: "a_wf x \<Longrightarrow> a_wf (snd (a_release n x))"
  by (cases x) (auto simp: a_wf_def)

lemma a_signal_wf: "a_wf x \<Longrightarrow> a_wf (snd (a_signal b x))"
  by (cases x) (auto simp: a_wf_def)

lemma a_unlock_wf: "a_wf x \<Longrightarrow> a_wf (snd (a_unlock me x))"
  by (cases "(me, x)" rule: a_unlock.cases) (auto simp: a_wf_def)

lemma a_acquire_wf: "a_wf x \<Longrightarrow> a_acquire me x = Some (st, y) \<Longrightarrow> a_wf y"
  by (cases "(me, x)" rule: a_acquire.cases) (auto simp: a_wf_def split: if_splits)


section \<open>A sample program\<close>

definition sample_calls :: "sop list" where
  "sample_calls = [TryAny [4, 8], TryAny [4, 8], TryAny [4], Release 4 2, Release 4 2, ReleaseMut 8, ReleaseMut 8, SetEv 4]"

lemma sample_calls_run: "a_run 12 sample_calls [4 \<mapsto> ASemaphore 1 3, 8 \<mapsto> AMutex MFree] =
    ([0, 1, STATUS_TIMEOUT, 0, STATUS_SEMAPHORE_LIMIT_EXCEEDED, 0, STATUS_MUTANT_NOT_OWNED, STATUS_OBJECT_TYPE_MISMATCH],
     [4 \<mapsto> ASemaphore 2 3, 8 \<mapsto> AMutex MFree])"
  by (simp add: sample_calls_def a_on_def fun_eq_iff)

lemma sample_calls_ok: "a_run_ok 12 sample_calls [4 \<mapsto> ASemaphore 1 3, 8 \<mapsto> AMutex MFree]"
  by (simp add: sample_calls_def a_on_def)

end
