(* ===== verification/Fsync_Refine.thy ===== *)
theory Fsync_Refine
  imports Fsync_Quiet Sync_Spec
begin

text \<open>
  The futex objects of the client implement the specification of \<open>Sync_Spec\<close>, when nobody else acts at
  the same time. The state of an object is the first two words of its slot; the references and the
  last user that the other two words record are restored or irrelevant.
\<close>

section \<open>Abstraction and invariant\<close>

definition fobj_abs :: "fobj \<Rightarrow> mem \<Rightarrow> aobj" where
  "fobj_abs obj m =
     (case ob_type obj of
        FSYNC_SEMAPHORE \<Rightarrow> ASemaphore (unat (m (sem_count (ob_shm obj)))) (unat (m (sem_max (ob_shm obj))))
      | FSYNC_MUTEX \<Rightarrow> AMutex (owner_state (m (mutex_tid (ob_shm obj))) (m (mutex_count (ob_shm obj))))
      | t \<Rightarrow> AEvent (t = FSYNC_MANUAL_EVENT) (m (ev_signaled (ob_shm obj)) \<noteq> 0))"

definition fobj_ok :: "fobj \<Rightarrow> mem \<Rightarrow> bool" where
  "fobj_ok obj m \<longleftrightarrow>
     (case ob_type obj of
        FSYNC_SEMAPHORE \<Rightarrow> unat (m (sem_count (ob_shm obj))) \<le> unat (m (sem_max (ob_shm obj))) \<and>
          unat (m (sem_max (ob_shm obj))) < 2 ^ 31
      | FSYNC_MUTEX \<Rightarrow> m (mutex_tid (ob_shm obj)) \<notin> {0, - 1} \<longrightarrow> m (mutex_count (ob_shm obj)) \<noteq> 0
      | t \<Rightarrow> (t = FSYNC_AUTO_EVENT \<or> t = FSYNC_MANUAL_EVENT) \<and> m (ev_signaled (ob_shm obj)) \<in> {0, 1})"

definition fsync_inv :: "fcfg \<Rightarrow> u64 list \<Rightarrow> fobj list \<Rightarrow> fclient \<Rightarrow> bool" where
  "fsync_inv cfg hs objs w \<longleftrightarrow> at_rest w \<and> current_tid cfg \<notin> {0, - 1} \<and> current_pid cfg \<noteq> 0 \<and>
     list_all2 (\<lambda>h obj. resolves h w obj) hs objs \<and> distinct hs \<and> distinct (map ob_shm objs) \<and>
     (\<forall>obj \<in> set objs. fobj_ok obj (mem w))"

definition fsync_abs :: "u64 list \<Rightarrow> fobj list \<Rightarrow> fclient \<Rightarrow> astate" where
  "fsync_abs hs objs w = (\<lambda>h. map_option (\<lambda>obj. fobj_abs obj (mem w)) (map_of (zip hs objs) h))"

fun fsync_run :: "fcfg \<Rightarrow> sop \<Rightarrow> fclient \<Rightarrow> (ntstatus \<times> fclient) option" where
  "fsync_run cfg (Release h n) w = map_option (\<lambda>((st, _), w'). (st, w')) (fsync_release_semaphore cfg h n w)"
| "fsync_run cfg (SetEv h) w = map_option (\<lambda>((st, _), w'). (st, w')) (client_set_event cfg h w)"
| "fsync_run cfg (ResetEv h) w = map_option (\<lambda>((st, _), w'). (st, w')) (client_reset_event cfg h w)"
| "fsync_run cfg (ReleaseMut h) w = map_option (\<lambda>((st, _), w'). (st, w')) (fsync_release_mutex cfg h w)"
| "fsync_run cfg (TryAny hs) w = fsync_wait_objects cfg hs True False (Some 0) [] w"

section \<open>The frame of an operation\<close>

definition fframe :: "fobj \<Rightarrow> mem \<Rightarrow> mem \<Rightarrow> bool" where
  "fframe obj m m' \<longleftrightarrow> (\<forall>s. m' (s, W2) = m (s, W2)) \<and>
     (\<forall>s. s \<noteq> ob_shm obj \<longrightarrow> m' (s, W0) = m (s, W0) \<and> m' (s, W1) = m (s, W1))"

lemma fframe_refl [simp]: "fframe obj m m"
  by (simp add: fframe_def)

lemma fframe_upd [simp]:
  "fframe obj m m' \<Longrightarrow> s = ob_shm obj \<Longrightarrow> f \<noteq> W2 \<Longrightarrow> fframe obj m (m'((s, f) := v))"
  by (simp add: fframe_def)

lemma fframe_left: "fframe obj m (left_mem S m') \<longleftrightarrow> fframe obj m m'"
  by (simp add: fframe_def left_mem_def)

lemma fframe_acquire: "fframe obj m (acquire_mem cfg obj m)"
  by (cases "ob_type obj") (simp_all add: acquire_mem_def Let_def)

lemma fobj_same:
  assumes "m' (ob_shm x, W0) = m (ob_shm x, W0)" and "m' (ob_shm x, W1) = m (ob_shm x, W1)"
  shows "fobj_abs x m' = fobj_abs x m" and "fobj_ok x m' = fobj_ok x m"
  using assms by (simp_all add: fobj_abs_def fobj_ok_def cong: fsync_type.case_cong)

lemma fsync_step:
  assumes inv: "fsync_inv cfg hs objs w" and h: "map_of (zip hs objs) h = Some obj"
    and w': "at_rest w'" "fcache w' = fcache w" "fframe obj (mem w) (mem w')" and ok: "fobj_ok obj (mem w')"
  shows "fsync_inv cfg hs objs w'"
    and "fsync_abs hs objs w' = (fsync_abs hs objs w)(h \<mapsto> fobj_abs obj (mem w'))"
proof -
  have mem_obj: "obj \<in> set objs" using h by (meson in_set_zipE map_of_SomeD)
  have inj: "ob_shm x \<noteq> ob_shm obj" if "x \<in> set objs" "x \<noteq> obj" for x
    using inv that mem_obj by (auto simp: fsync_inv_def distinct_map inj_on_def)
  have others: "fobj_abs x (mem w') = fobj_abs x (mem w) \<and> fobj_ok x (mem w') = fobj_ok x (mem w)"
    if "x \<in> set objs" "x \<noteq> obj" for x
    using fobj_same [of "mem w'" x "mem w"] w'(3) inj [OF that] by (simp add: fframe_def)
  have "\<forall>x \<in> set objs. fobj_ok x (mem w')" using ok others inv by (metis fsync_inv_def)
  moreover have "resolves k w' x" if "resolves k w x" for k x
    using that w'(2,3) by (simp add: resolves_def fframe_def)
  then have "list_all2 (\<lambda>h obj. resolves h w' obj) hs objs"
    using inv by (auto simp: fsync_inv_def elim: list.rel_mono_strong)
  ultimately show "fsync_inv cfg hs objs w'" using inv w'(1) by (simp add: fsync_inv_def)
  have uniq: "h' = h" if h': "map_of (zip hs objs) h' = Some obj" for h'
  proof -
    have "(h, obj) \<in> set (zip hs objs)" "(h', obj) \<in> set (zip hs objs)"
      using h h' by (simp_all add: map_of_SomeD)
    then obtain i j where "i < length hs" "hs ! i = h" "objs ! i = obj" "j < length hs" "hs ! j = h'" "objs ! j = obj"
      and "i < length objs" "j < length objs"
      unfolding in_set_zip by auto
    moreover have "distinct objs" using inv by (simp add: fsync_inv_def distinct_map)
    ultimately show ?thesis by (metis nth_eq_iff_index_eq)
  qed
  show "fsync_abs hs objs w' = (fsync_abs hs objs w)(h \<mapsto> fobj_abs obj (mem w'))"
  proof
    fix h'
    show "fsync_abs hs objs w' h' = ((fsync_abs hs objs w)(h \<mapsto> fobj_abs obj (mem w'))) h'"
    proof (cases "h' = h")
      case True
      then show ?thesis by (simp add: fsync_abs_def h)
    next
      case False
      have "\<And>x. map_of (zip hs objs) h' = Some x \<Longrightarrow> x \<in> set objs \<and> x \<noteq> obj"
        using uniq False by (meson in_set_zipE map_of_SomeD)
      then show ?thesis using others False by (cases "map_of (zip hs objs) h'") (auto simp: fsync_abs_def)
    qed
  qed
qed

lemma fsync_lookup:
  assumes inv: "fsync_inv cfg hs objs w" and h: "map_of (zip hs objs) h = Some obj"
  shows "at_rest w" and "resolves h w obj" and "fobj_ok obj (mem w)"
    and "current_tid cfg \<noteq> 0" and "current_tid cfg \<noteq> - 1"
proof -
  have z: "(h, obj) \<in> set (zip hs objs)" using h by (rule map_of_SomeD)
  then show "resolves h w obj" using inv by (auto simp: fsync_inv_def list_all2_iff)
  show "fobj_ok obj (mem w)" using inv z by (auto simp: fsync_inv_def dest: set_zip_rightD)
qed (use inv in \<open>auto simp: fsync_inv_def\<close>)

section \<open>The operations\<close>

lemma fsync_release_step:
  assumes inv: "fsync_inv cfg hs objs w" and h: "map_of (zip hs objs) h = Some obj"
    and ty: "ob_type obj = FSYNC_SEMAPHORE" and n: "unat n < 2 ^ 31"
  shows "\<exists>st pv w'. fsync_release_semaphore cfg h n w = Some ((st, pv), w') \<and>
    at_rest w' \<and> fcache w' = fcache w \<and> fframe obj (mem w) (mem w') \<and> fobj_ok obj (mem w') \<and>
    a_release n (fobj_abs obj (mem w)) = (st, fobj_abs obj (mem w'))"
proof -
  note look = fsync_lookup [OF inv h]
  let ?c = "mem w (ob_shm obj, W0)" and ?m = "mem w (ob_shm obj, W1)"
  have c: "unat ?c \<le> unat ?m" "unat ?m < 2 ^ 31" using look(3) ty by (simp_all add: fobj_ok_def)
  note nw = no_wrap_add [OF n c]
  obtain w' where w': "fsync_release_semaphore cfg h n w =
      Some (if n + ?c > ?m then (STATUS_SEMAPHORE_LIMIT_EXCEEDED, None) else (STATUS_SUCCESS, Some ?c), w')"
    "at_rest w'" "fcache w' = fcache w"
    "mem w' = (if n + ?c > ?m then mem w else (mem w)((ob_shm obj, W0) := n + ?c))"
    using release_semaphore_resolved [OF look(1,2), of cfg n] by blast
  show ?thesis
  proof (cases "n + ?c > ?m")
    case True
    then show ?thesis using w' look(3) nw(2) by (auto simp: fobj_abs_def ty)
  next
    case False
    then have le: "\<not> unat ?m < unat ?c + unat n" using nw by simp
    then have "fobj_ok obj (mem w')" using False w'(4) c nw(1) by (simp add: fobj_ok_def ty add.commute)
    moreover have "a_release n (fobj_abs obj (mem w)) = (0, fobj_abs obj (mem w'))"
      using False w'(4) le nw(1) by (simp add: fobj_abs_def ty add.commute)
    moreover have "fframe obj (mem w) (mem w')" using False w'(4) by simp
    ultimately show ?thesis using w' False by auto
  qed
qed

lemma set_quiet:
  assumes rest: "at_rest w" and res: "resolves h w obj" and ev: "is_event obj"
  shows "\<exists>pv w'. client_set_event cfg h w = Some ((0, pv), w') \<and> at_rest w' \<and> fcache w' = fcache w \<and>
    mem w' = (mem w)((ob_shm obj, W0) := 1)"
proof -
  let ?s = "ob_shm obj"
  define w2 where "w2 = snd (signal_event ?s (held obj w))"
  have q: "intf (held obj w) = []" using rest by simp
  have c: "calm (held obj w) ((mem (held obj w))((?s, W0) := 1)) w2"
    using calm_put [of "held obj w" "(?s, W0)" 1] q by (simp add: w2_def signal_event_def at_xchg_quiet)
  have run: "client_set_event cfg h w = Some ((0, Some (fst (signal_event ?s (held obj w)))), put_object obj w2)"
    using ev by (simp add: client_set_event_def get_object_resolved [OF rest res] w2_def split: prod.split)
  have r2: "at_rest w2" using calm_rest [OF c] rest by simp
  have "mem w2 = ((mem w)((?s, W0) := 1))(shm_ref ?s := mem w (shm_ref ?s) + 1)"
    using calm_mem [OF c] by (simp add: fun_upd_twist)
  note put = put_object_after [OF rest res r2 this]
  have "fcache w2 = fcache w" using calm_fcache [OF c] by simp
  then show ?thesis using run put by simp
qed

lemma reset_quiet:
  assumes rest: "at_rest w" and res: "resolves h w obj" and ev: "is_event obj"
  shows "\<exists>pv w'. client_reset_event cfg h w = Some ((0, pv), w') \<and> at_rest w' \<and> fcache w' = fcache w \<and>
    mem w' = (mem w)((ob_shm obj, W0) := 0)"
proof -
  let ?s = "ob_shm obj" and ?w = "held obj w"
  define w1 where "w1 = (if help_pulse cfg then if mem ?w (?s, W0) \<noteq> 0 then
      if mem ?w (?s, W3) = current_pid cfg then emit Yield ?w else ?w else ?w else ?w)"
  have q: "intf ?w = []" using rest by simp
  have c1: "calm ?w (mem ?w) w1" using calm_refl [of ?w] by (simp add: w1_def)
  have q1: "intf w1 = []" by (rule calm_intf [OF c1 q])
  have m1: "mem w1 = mem ?w" by (rule calm_mem [OF c1])
  let ?w2 = "put_mem (?s, W0) 0 w1"
  have c: "calm ?w ((mem ?w)((?s, W0) := 0)) ?w2" by (rule calm_put_in [OF c1])
  have run: "client_reset_event cfg h w = Some ((0, Some (mem w1 (?s, W0))), put_object obj ?w2)"
    using ev q q1 unfolding client_reset_event_def get_object_resolved [OF rest res]
    by (simp add: at_load_quiet at_xchg_quiet w1_def Let_def)
  have r2: "at_rest ?w2" using calm_rest [OF c] rest by simp
  have "mem ?w2 = ((mem w)((?s, W0) := 0))(shm_ref ?s := mem w (shm_ref ?s) + 1)"
    using calm_mem [OF c] by (simp add: fun_upd_twist)
  note put = put_object_after [OF rest res r2 this]
  have "fcache ?w2 = fcache w" using calm_fcache [OF c] by simp
  then show ?thesis using run put by simp
qed


lemma fobj_event:
  "fobj_ok obj m \<Longrightarrow> is_event obj \<Longrightarrow>
     m (ob_shm obj, W0) \<in> {0, 1} \<and> fobj_abs obj m = AEvent (ob_type obj = FSYNC_MANUAL_EVENT) (m (ob_shm obj, W0) \<noteq> 0)"
  by (cases "ob_type obj") (simp_all add: fobj_ok_def fobj_abs_def is_event_def)

lemma fobj_event_ok:
  "is_event obj \<Longrightarrow> m (ob_shm obj, W0) \<in> {0, 1} \<Longrightarrow>
     fobj_ok obj m \<and> fobj_abs obj m = AEvent (ob_type obj = FSYNC_MANUAL_EVENT) (m (ob_shm obj, W0) \<noteq> 0)"
  by (cases "ob_type obj") (simp_all add: fobj_ok_def fobj_abs_def is_event_def)

text \<open>Setting and resetting an object that is no event.\<close>

lemma not_event_quiet:
  assumes rest: "at_rest w" and res: "resolves h w obj" and "\<not> is_event obj"
  shows "\<exists>w'. client_set_event cfg h w = Some ((STATUS_OBJECT_TYPE_MISMATCH, None), w') \<and>
    client_reset_event cfg h w = Some ((STATUS_OBJECT_TYPE_MISMATCH, None), w') \<and>
    at_rest w' \<and> fcache w' = fcache w \<and> mem w' = mem w"
proof -
  have m: "mem (held obj w) = (mem w)(shm_ref (ob_shm obj) := mem w (shm_ref (ob_shm obj)) + 1)" by simp
  show ?thesis
    using put_object_after [OF rest res _ m refl] rest assms(3)
    by (simp add: client_set_event_def client_reset_event_def get_object_resolved [OF rest res])
qed

lemma fsync_signal_step:
  assumes inv: "fsync_inv cfg hs objs w" and h: "map_of (zip hs objs) h = Some obj"
  shows "\<exists>st pv w'. (if b then client_set_event cfg h w else client_reset_event cfg h w) = Some ((st, pv), w') \<and>
    at_rest w' \<and> fcache w' = fcache w \<and> fframe obj (mem w) (mem w') \<and> fobj_ok obj (mem w') \<and>
    a_signal b (fobj_abs obj (mem w)) = (st, fobj_abs obj (mem w'))"
proof -
  note look = fsync_lookup [OF inv h]
  show ?thesis
  proof (cases "is_event obj")
    case False
    have "a_signal b (fobj_abs obj (mem w)) = (STATUS_OBJECT_TYPE_MISMATCH, fobj_abs obj (mem w))"
      using False look(3) by (cases "ob_type obj") (simp_all add: fobj_abs_def is_event_def fobj_ok_def)
    then show ?thesis using not_event_quiet [OF look(1,2) False, of cfg] look(3) by auto
  next
    case True
    obtain pv w' where w': "(if b then client_set_event cfg h w else client_reset_event cfg h w) = Some ((0, pv), w')"
      "at_rest w'" "fcache w' = fcache w" "mem w' = (mem w)((ob_shm obj, W0) := if b then 1 else 0)"
      using set_quiet [OF look(1,2) True, of cfg] reset_quiet [OF look(1,2) True, of cfg] by (cases b) auto
    have "fobj_ok obj (mem w') \<and> fobj_abs obj (mem w') = AEvent (ob_type obj = FSYNC_MANUAL_EVENT) b"
      using fobj_event_ok [OF True, of "mem w'"] w'(4) by simp
    moreover have "fframe obj (mem w) (mem w')" by (simp add: w'(4))
    ultimately show ?thesis using w'(1-3) fobj_event [OF look(3) True] by auto
  qed
qed

lemma fsync_unlock_step:
  assumes inv: "fsync_inv cfg hs objs w" and h: "map_of (zip hs objs) h = Some obj"
    and ty: "ob_type obj = FSYNC_MUTEX"
  shows "\<exists>st pv w'. fsync_release_mutex cfg h w = Some ((st, pv), w') \<and>
    at_rest w' \<and> fcache w' = fcache w \<and> fframe obj (mem w) (mem w') \<and> fobj_ok obj (mem w') \<and>
    a_unlock (current_tid cfg) (fobj_abs obj (mem w)) = (st, fobj_abs obj (mem w'))"
proof -
  note look = fsync_lookup [OF inv h]
  let ?s = "ob_shm obj"
  let ?t = "mem w (?s, W0)" and ?n = "mem w (?s, W1)"
  obtain w' where w': "fsync_release_mutex cfg h w =
      Some (if ?t \<noteq> current_tid cfg then (STATUS_MUTANT_NOT_OWNED, None) else (STATUS_SUCCESS, Some ?n), w')"
    "at_rest w'" "fcache w' = fcache w"
    "mem w' = (if ?t \<noteq> current_tid cfg then mem w
              else if ?n = 1 then (mem w)((?s, W1) := 0, (?s, W0) := 0) else (mem w)((?s, W1) := ?n - 1))"
    using release_mutex_resolved [OF look(1,2) refl refl, of cfg] by blast
  have abs: "fobj_abs obj m = AMutex (owner_state (m (?s, W0)) (m (?s, W1)))" for m
    by (simp add: fobj_abs_def ty)
  have own: "?t = current_tid cfg \<Longrightarrow> ?n \<noteq> 0" using look(3-5) by (simp add: fobj_ok_def ty)
  have fr: "fframe obj (mem w) (mem w')" by (simp add: w'(4))
  have ok: "fobj_ok obj (mem w')" using look(3) own by (auto simp: w'(4) fobj_ok_def ty)
  have "unat ?n = 1 \<longleftrightarrow> ?n = 1" by (simp add: word_unat_eq_iff)
  then have "a_unlock (current_tid cfg) (fobj_abs obj (mem w)) =
      (if ?t \<noteq> current_tid cfg then STATUS_MUTANT_NOT_OWNED else 0, fobj_abs obj (mem w'))"
    using look(4,5) own unat_minus_1 [of ?n] by (auto simp: abs w'(4) owner_state_def)
  then show ?thesis using w'(1-3) fr ok by (auto split: if_splits)
qed

lemma fsync_acquire_spec:
  assumes ok: "fobj_ok obj m" and me: "current_tid cfg \<noteq> 0" "current_tid cfg \<noteq> - 1"
    and bound: "\<And>t n. fobj_abs obj m = AMutex (MOwned t n) \<Longrightarrow> n < 2 ^ 31 - 1"
  shows "case a_acquire (current_tid cfg) (fobj_abs obj m) of
      None \<Rightarrow> \<not> signaled cfg obj m
    | Some (st, x) \<Rightarrow> signaled cfg obj m \<and> acquire_status cfg obj m = st \<and>
        fobj_ok obj (acquire_mem cfg obj m) \<and> fobj_abs obj (acquire_mem cfg obj m) = x"
proof -
  let ?s = "ob_shm obj"
  consider (sem) "ob_type obj = FSYNC_SEMAPHORE" | (mutex) "ob_type obj = FSYNC_MUTEX" | (event) "is_event obj"
    using ok by (cases "ob_type obj") (simp_all add: fobj_ok_def is_event_def)
  then show ?thesis
  proof cases
    case sem
    then have "unat (m (?s, W0)) \<le> unat (m (?s, W1))" "unat (m (?s, W1)) < 2 ^ 31" using ok by (simp_all add: fobj_ok_def)
    then show ?thesis
      using sem unat_minus_1 [of "m (?s, W0)"]
      by (auto simp: fobj_abs_def signaled_def acquire_status_def acquire_mem_def fobj_ok_def unat_eq_zero Let_def)
  next
    case mutex
    let ?t = "m (?s, W0)" and ?n = "m (?s, W1)"
    have u: "?t = current_tid cfg \<Longrightarrow> unat (?n + 1) = unat ?n + 1"
      using bound [of ?t "unat ?n"] me unat_add_lem [of ?n 1] by (simp add: fobj_abs_def mutex owner_state_def)
    then have "?t = current_tid cfg \<Longrightarrow> ?n + 1 \<noteq> 0" by (metis add_eq_0_iff_both_eq_0 unat_0 zero_neq_one)
    then show ?thesis
      using me u
      by (auto simp: fobj_abs_def signaled_def acquire_status_def acquire_mem_def fobj_ok_def mutex owner_state_def Let_def)
  next
    case event
    then have "ob_type obj = FSYNC_AUTO_EVENT \<or> ob_type obj = FSYNC_MANUAL_EVENT" by (auto simp: is_event_def)
    then show ?thesis
      using fobj_event [OF ok event]
      by (auto simp: fobj_abs_def signaled_def acquire_status_def acquire_mem_def fobj_ok_def Let_def)
  qed
qed


section \<open>Waiting for any object\<close>

lemma fsync_try_step:
  assumes inv: "fsync_inv cfg hs objs w" and ok: "a_ok (TryAny ks) (fsync_abs hs objs w)"
  shows "\<exists>st w'. fsync_run cfg (TryAny ks) w = Some (st, w') \<and> fsync_inv cfg hs objs w' \<and>
    a_op (current_tid cfg) (TryAny ks) (fsync_abs hs objs w) = (st, fsync_abs hs objs w')"
proof -
  let ?a = "fsync_abs hs objs w" and ?me = "current_tid cfg"
  have ne: "ks \<noteq> []" and dist: "distinct ks" and known: "\<forall>k \<in> set ks. ?a k \<noteq> None"
    and bound: "\<forall>h \<in> set ks. \<forall>t n. ?a h = Some (AMutex (MOwned t n)) \<longrightarrow> n < 2 ^ 31 - 1"
    using ok by (auto simp: list_all_iff split: option.splits)
  define os where "os = map (\<lambda>k. the (map_of (zip hs objs) k)) ks"
  have len: "length os = length ks" by (simp add: os_def)
  have at: "map_of (zip hs objs) (ks ! i) = Some (os ! i)" if "i < length ks" for i
    using known nth_mem [OF that] that by (force simp: os_def fsync_abs_def)
  have a: "?a (ks ! i) = Some (fobj_abs (os ! i) (mem w))" if "i < length ks" for i
    by (simp add: fsync_abs_def at [OF that])
  have res: "list_all2 (\<lambda>h obj. resolves h w obj) ks os"
    using fsync_lookup(2) [OF inv at] len by (simp add: list_all2_conv_all_nth)
  have shm: "distinct (map ob_shm os)"
  proof -
    have inj: "ob_shm (os ! i) \<noteq> ob_shm (os ! j)" if ij: "i < length ks" "j < length ks" "i \<noteq> j" for i j
    proof -
      obtain m n where mn: "hs ! m = ks ! i" "objs ! m = os ! i" "hs ! n = ks ! j" "objs ! n = os ! j"
          "m < length objs" "n < length objs"
        using map_of_SomeD [OF at [OF ij(1)]] map_of_SomeD [OF at [OF ij(2)]] unfolding in_set_zip by auto
      have "ks ! i \<noteq> ks ! j" using dist ij by (simp add: nth_eq_iff_index_eq)
      then have "m \<noteq> n" using mn by auto
      moreover have "distinct (map ob_shm objs)" using inv by (simp add: fsync_inv_def)
      ultimately show ?thesis using mn by (metis (no_types) length_map nth_eq_iff_index_eq nth_map)
    qed
    then show ?thesis using len by (simp add: distinct_conv_nth)
  qed
  have pid: "current_pid cfg \<noteq> 0" and rest: "at_rest w" using inv by (simp_all add: fsync_inv_def)
  have me: "?me \<noteq> 0" "?me \<noteq> - 1" using inv by (auto simp: fsync_inv_def)
  note quiet = wait_any_quiet [OF rest ne res shm pid, of "Some 0" "[]"]
  have spec: "case a_acquire ?me (fobj_abs (os ! i) (mem w)) of
      None \<Rightarrow> \<not> signaled cfg (os ! i) (mem w)
    | Some (st, x) \<Rightarrow> signaled cfg (os ! i) (mem w) \<and> acquire_status cfg (os ! i) (mem w) = st \<and>
        fobj_ok (os ! i) (acquire_mem cfg (os ! i) (mem w)) \<and> fobj_abs (os ! i) (acquire_mem cfg (os ! i) (mem w)) = x"
    if "i < length ks" for i
    using fsync_lookup [OF inv at [OF that]] bound a [OF that] nth_mem [OF that]
    by (intro fsync_acquire_spec) auto
  have left: "fobj_abs x (left_mem S m) = fobj_abs x m" "fobj_ok x (left_mem S m) = fobj_ok x m" for x S m
    by (rule fobj_same; simp add: left_mem_def)+
  show ?thesis
  proof (cases "\<exists>i. i < length ks \<and> signaled cfg (os ! i) (mem w)")
    case True
    then obtain i where i: "i < length ks" "signaled cfg (os ! i) (mem w)"
      and "\<forall>m < i. \<not> (m < length ks \<and> signaled cfg (os ! m) (mem w))"
      using exists_least_iff [of "\<lambda>i. i < length ks \<and> signaled cfg (os ! i) (mem w)"] by blast
    then have before: "\<forall>j < i. \<not> signaled cfg (os ! j) (mem w)" by auto
    then obtain w' where w': "fsync_wait_objects cfg ks True False (Some 0) [] w =
          Some (acquire_status cfg (os ! i) (mem w) + i, w')" "at_rest w'" "fcache w' = fcache w"
        "mem w' = left_mem (ob_shm ` set os) (acquire_mem cfg (os ! i) (mem w))"
      using quiet i len by auto
    obtain st x where acq: "a_acquire ?me (fobj_abs (os ! i) (mem w)) = Some (st, x)"
      and x: "acquire_status cfg (os ! i) (mem w) = st" "fobj_ok (os ! i) (acquire_mem cfg (os ! i) (mem w))"
        "fobj_abs (os ! i) (acquire_mem cfg (os ! i) (mem w)) = x"
      using spec [OF i(1)] i(2) by (auto split: option.splits prod.splits)
    have none: "\<forall>j < i. Option.bind (?a (ks ! j)) (a_acquire ?me) = None"
    proof (intro allI impI)
      fix j
      assume "j < i"
      then have "j < length ks" "\<not> signaled cfg (os ! j) (mem w)" using i before by auto
      then show "Option.bind (?a (ks ! j)) (a_acquire ?me) = None"
        using spec [of j] a [of j] by (auto split: option.splits prod.splits)
    qed
    have "a_try ?me 0 ks ?a = (st + (0 + i), ?a(ks ! i \<mapsto> x))"
      by (rule a_try_hit [OF i(1) _ none]) (simp add: a [OF i(1)] acq)
    moreover have "fframe (os ! i) (mem w) (mem w')" by (simp add: w'(4) fframe_left fframe_acquire)
    moreover have "fobj_ok (os ! i) (mem w')" "fobj_abs (os ! i) (mem w') = x" using x by (simp_all add: w'(4) left)
    ultimately show ?thesis
      using fsync_step [OF inv at [OF i(1)] w'(2,3)] w'(1) x(1) by simp
  next
    case False
    then have idle: "\<forall>obj \<in> set os. \<not> signaled cfg obj (mem w)" using len by (auto simp: in_set_conv_nth)
    then obtain w' where w': "fsync_wait_objects cfg ks True False (Some 0) [] w = Some (STATUS_TIMEOUT, w')"
        "at_rest w'" "fcache w' = fcache w" "mem w' = left_mem (ob_shm ` set os) (mem w)"
      using quiet by blast
    have "\<forall>h \<in> set ks. Option.bind (?a h) (a_acquire ?me) = None"
    proof
      fix h
      assume "h \<in> set ks"
      then obtain j where "j < length ks" "ks ! j = h" by (auto simp: in_set_conv_nth)
      then show "Option.bind (?a h) (a_acquire ?me) = None"
        using spec [of j] a [of j] False by (auto split: option.splits prod.splits)
    qed
    then have "a_try ?me 0 ks ?a = (STATUS_TIMEOUT, ?a)" by (rule a_try_none)
    moreover have h0: "0 < length ks" using ne by simp
    have "fframe (os ! 0) (mem w) (mem w')" by (simp add: w'(4) fframe_left)
    moreover have "fobj_ok (os ! 0) (mem w')" using fsync_lookup(3) [OF inv at [OF h0]] by (simp add: w'(4) left)
    moreover have "?a(ks ! 0 \<mapsto> fobj_abs (os ! 0) (mem w')) = ?a"
      using a [OF h0] by (simp add: w'(4) left fun_upd_idem)
    ultimately show ?thesis using fsync_step [OF inv at [OF h0] w'(2,3)] w'(1) by simp
  qed
qed

section \<open>The contract\<close>

lemma fsync_call_step:
  assumes inv: "fsync_inv cfg hs objs w" and ok: "a_ok op (fsync_abs hs objs w)"
  shows "\<exists>st w'. fsync_run cfg op w = Some (st, w') \<and> fsync_inv cfg hs objs w' \<and>
    a_op (current_tid cfg) op (fsync_abs hs objs w) = (st, fsync_abs hs objs w')"
proof -
  have finish: ?thesis
    if h: "map_of (zip hs objs) h = Some obj"
      and r: "fsync_run cfg op w = Some (st, w')" "at_rest w'" "fcache w' = fcache w" "fframe obj (mem w) (mem w')"
        "fobj_ok obj (mem w')"
      and a: "a_op (current_tid cfg) op (fsync_abs hs objs w) = a_on h f (fsync_abs hs objs w)"
        "f (fobj_abs obj (mem w)) = (st, fobj_abs obj (mem w'))" for h obj st w' f
  proof -
    have "a_on h f (fsync_abs hs objs w) = (st, (fsync_abs hs objs w)(h \<mapsto> fobj_abs obj (mem w')))"
      using h a(2) by (simp add: a_on_def fsync_abs_def)
    then show ?thesis using r a(1) fsync_step [OF inv h r(2-5)] by simp
  qed
  show ?thesis
  proof (cases op)
    case (Release h n)
    then obtain obj where h: "map_of (zip hs objs) h = Some obj" and ty: "ob_type obj = FSYNC_SEMAPHORE"
      and n: "unat n < 2 ^ 31"
      using ok by (auto simp: fsync_abs_def fobj_abs_def split: option.splits aobj.splits fsync_type.splits)
    from fsync_release_step [OF inv h ty n] show ?thesis
      by (elim exE conjE) (rule finish [OF h, where f = "a_release n"], simp_all add: Release)
  next
    case (SetEv h)
    then obtain obj where h: "map_of (zip hs objs) h = Some obj" using ok by (auto simp: fsync_abs_def)
    from fsync_signal_step [OF inv h, of True] show ?thesis
      by (elim exE conjE) (rule finish [OF h, where f = "a_signal True"], simp_all add: SetEv)
  next
    case (ResetEv h)
    then obtain obj where h: "map_of (zip hs objs) h = Some obj" using ok by (auto simp: fsync_abs_def)
    from fsync_signal_step [OF inv h, of False] show ?thesis
      by (elim exE conjE) (rule finish [OF h, where f = "a_signal False"], simp_all add: ResetEv)
  next
    case (ReleaseMut h)
    then obtain obj where h: "map_of (zip hs objs) h = Some obj" and ty: "ob_type obj = FSYNC_MUTEX"
      using ok by (auto simp: fsync_abs_def fobj_abs_def split: option.splits aobj.splits fsync_type.splits)
    from fsync_unlock_step [OF inv h ty] show ?thesis
      by (elim exE conjE) (rule finish [OF h, where f = "a_unlock (current_tid cfg)"], simp_all add: ReleaseMut)
  next
    case (TryAny ks)
    then show ?thesis using fsync_try_step [OF inv] ok by simp
  qed
qed

interpretation fsync_contract: sync_objects
  "fsync_inv cfg hs objs" "fsync_abs hs objs" "current_tid cfg" "fsync_run cfg"
  for cfg hs objs
  by unfold_locales (rule fsync_call_step)


section \<open>A sample process\<close>

text \<open>Handle 4 is a semaphore with the given count and maximum 3 in slot 7, handle 8 a free mutex in slot 9.\<close>

definition sample_fobjs :: "fobj list" where
  "sample_fobjs = [\<lparr>ob_type = FSYNC_SEMAPHORE, ob_shm = 7\<rparr>, \<lparr>ob_type = FSYNC_MUTEX, ob_shm = 9\<rparr>]"

definition sample_fcache :: "fentry cache" where
  "sample_fcache = cache_put 256 4096 True 8 (Some (FSYNC_MUTEX, 9))
     (cache_put 256 4096 True 4 (Some (FSYNC_SEMAPHORE, 7)) cache_empty)"

definition sample_fclient :: "nat \<Rightarrow> fclient" where
  "sample_fclient c = \<lparr>mem = (\<lambda>(s, f). if f = W2 then 1 else 0)((7, W0) := word_of_nat c, (7, W1) := 3),
     intf = [], acts = [], fcache = sample_fcache, cintf = [], apc_futex = None\<rparr>"

lemma sample_fcached [simp]:
  "cache_get 256 4096 4 sample_fcache = Some (FSYNC_SEMAPHORE, 7)" "cache_get 256 4096 8 sample_fcache = Some (FSYNC_MUTEX, 9)"
  by (simp_all add: sample_fcache_def cache_get_put cacheable_def handle_to_index_def cache_empty_def cache_put_def
      cache_get_def)

lemma sample_fclient_sel [simp]:
  "at_rest (sample_fclient c)" "fcache (sample_fclient c) = sample_fcache"
  "mem (sample_fclient c) (s, W2) = 1" "mem (sample_fclient c) (7, W0) = word_of_nat c"
  "mem (sample_fclient c) (7, W1) = 3" "mem (sample_fclient c) (9, W0) = 0" "mem (sample_fclient c) (9, W1) = 0"
  by (simp_all add: sample_fclient_def at_rest_def)

lemma sample_finv:
  assumes "c \<le> 3"
  shows "fsync_inv sample_cfg [4, 8] sample_fobjs (sample_fclient c)"
  using assms
  by (simp add: fsync_inv_def sample_fobjs_def resolves_def fobj_ok_def sample_cfg_def unat_of_nat take_bit_nat_eq_self)

lemma sample_fabs: "c \<le> 3 \<Longrightarrow> fsync_abs [4, 8] sample_fobjs (sample_fclient c) =
    [4 \<mapsto> ASemaphore c 3, 8 \<mapsto> AMutex MFree]"
  by (auto simp: fsync_abs_def fobj_abs_def sample_fobjs_def owner_state_def fun_eq_iff unat_of_nat take_bit_nat_eq_self)

section \<open>Properties\<close>

text \<open>C3: The futex implementation refines the specification of the objects: for every sequence of calls
  that release permits, set and reset events, release mutexes and try to acquire any of several
  objects, undisturbed, the code runs to the end, each call returns the status of the specification
  and the objects end as the specification says, with every reference put back.\<close>
theorem fsync_implements_objects:
  assumes "fsync_inv cfg hs objs w" and "a_run_ok (current_tid cfg) ops (fsync_abs hs objs w)"
  shows "\<exists>sts w'. run_calls (fsync_run cfg) ops w = Some (sts, w') \<and> fsync_inv cfg hs objs w' \<and>
    a_run (current_tid cfg) ops (fsync_abs hs objs w) = (sts, fsync_abs hs objs w')"
  by (rule fsync_contract.run_refines [OF assms])

theorem fsync_implements_objects_witness:
  "\<exists>w'. run_calls (fsync_run sample_cfg) sample_calls (sample_fclient 1) =
     Some ([0, 1, STATUS_TIMEOUT, 0, STATUS_SEMAPHORE_LIMIT_EXCEEDED, 0, STATUS_MUTANT_NOT_OWNED,
            STATUS_OBJECT_TYPE_MISMATCH], w')"
proof -
  have "current_tid sample_cfg = 12" by (simp add: sample_cfg_def)
  then show ?thesis
    using fsync_implements_objects [OF sample_finv [of 1], of sample_calls] sample_calls_ok sample_calls_run
    by (auto simp: sample_fabs)
qed

end
