(* ===== verification/Eventfd.thy ===== *)
theory Eventfd
  imports Shm_Memory
begin

text \<open>
  The kernel objects that server/esync.c and dlls/ntdll/unix/esync.c rely on: event file descriptors,
  as their manual page documents them. An eventfd is a 64-bit counter. A read takes the whole
  counter, or 1 in semaphore mode, and fails with EAGAIN while it is zero; a write adds to the
  counter and fails with EAGAIN when that would reach \<open>2 ^ 64 - 1\<close>; poll reports the descriptor readable
  while the counter is positive. All descriptors are opened non-blocking.

  Several descriptors, of one process or of many, can refer to the same counter: \<open>fdtab\<close> is the
  descriptor table of the running process, \<open>files\<close> the counters. What other threads do to the counters
  while an operation runs is a second list of interferences, next to the one of the memory: every
  system call on a descriptor first lets the next of them happen. \<open>kacts\<close> records the system calls
  that change something and the timeouts of polls; the code never reads it.
\<close>

section \<open>State\<close>

record efd =
  ef_count :: nat
  ef_sem :: bool

datatype errno = EAGAIN | EBADF | EINTR | EMFILE

datatype kact =
    KWrite nat nat       \<comment> \<open>counter, value written\<close>
  | KRead nat nat        \<comment> \<open>counter, value read\<close>
  | KUsleep
  | KClose int
  | KPoll "(u64 \<times> u64) option"  \<comment> \<open>a poll that starts, with its timeout in seconds and nanoseconds\<close>
  | KMsgwait bool        \<comment> \<open>the server request \<open>esync_msgwait\<close>\<close>

record kworld = world +
  fdtab :: "int \<Rightarrow> nat option"
  files :: "nat \<Rightarrow> efd"
  kintf :: "((nat \<Rightarrow> efd) \<Rightarrow> (nat \<Rightarrow> efd)) list"
  kacts :: "kact list"

definition kinterfere :: "'a kworld_scheme \<Rightarrow> 'a kworld_scheme" where
  "kinterfere w = (case kintf w of [] \<Rightarrow> w | f # fs \<Rightarrow> w\<lparr>files := f (files w), kintf := fs\<rparr>)"

definition kemit :: "kact \<Rightarrow> 'a kworld_scheme \<Rightarrow> 'a kworld_scheme" where
  "kemit a w = w\<lparr>kacts := kacts w @ [a]\<rparr>"

definition set_count :: "nat \<Rightarrow> nat \<Rightarrow> 'a kworld_scheme \<Rightarrow> 'a kworld_scheme" where
  "set_count f n w = w\<lparr>files := (files w)(f := (files w f)\<lparr>ef_count := n\<rparr>)\<rparr>"

section \<open>System calls\<close>

definition EFD_MAX :: nat where "EFD_MAX = 2 ^ 64 - 2"

text \<open>\<open>write\<close> of the 8 bytes of \<open>v\<close>, \<open>read\<close> of 8 bytes, \<open>close\<close>.\<close>

definition fd_write :: "int \<Rightarrow> nat \<Rightarrow> 'a kworld_scheme \<Rightarrow> (errno + unit) \<times> 'a kworld_scheme" where
  "fd_write fd v w =
     (let w1 = kinterfere w in
      case fdtab w1 fd of
        None \<Rightarrow> (Inl EBADF, w1)
      | Some f \<Rightarrow> if EFD_MAX < ef_count (files w1 f) + v then (Inl EAGAIN, w1)
                  else (Inr (), kemit (KWrite f v) (set_count f (ef_count (files w1 f) + v) w1)))"

definition fd_read :: "int \<Rightarrow> 'a kworld_scheme \<Rightarrow> (errno + nat) \<times> 'a kworld_scheme" where
  "fd_read fd w =
     (let w1 = kinterfere w in
      case fdtab w1 fd of
        None \<Rightarrow> (Inl EBADF, w1)
      | Some f \<Rightarrow>
          let n = ef_count (files w1 f); v = (if ef_sem (files w1 f) then 1 else n)
          in if n = 0 then (Inl EAGAIN, w1)
             else (Inr v, kemit (KRead f v) (set_count f (n - v) w1)))"

definition fd_close :: "int \<Rightarrow> 'a kworld_scheme \<Rightarrow> 'a kworld_scheme" where
  "fd_close fd w = kemit (KClose fd) (w\<lparr>fdtab := (fdtab w)(fd := None)\<rparr>)"

text \<open>
  \<open>eventfd\<close>: the kernel chooses a free descriptor and a fresh counter, or fails. \<open>receive_fd\<close> installs a
  descriptor sent by the server.
\<close>

definition sys_eventfd :: "errno + int \<times> nat \<Rightarrow> u32 \<Rightarrow> bool \<Rightarrow> 'a kworld_scheme \<Rightarrow> (errno + int) \<times> 'a kworld_scheme" where
  "sys_eventfd res initval semaphore w =
     (case res of
        Inl e \<Rightarrow> (Inl e, w)
      | Inr (fd, f) \<Rightarrow> (Inr fd, w\<lparr>fdtab := (fdtab w)(fd \<mapsto> f),
                                   files := (files w)(f := \<lparr>ef_count = unat initval, ef_sem = semaphore\<rparr>)\<rparr>))"

definition install_fd :: "int \<Rightarrow> nat \<Rightarrow> 'a kworld_scheme \<Rightarrow> 'a kworld_scheme" where
  "install_fd fd f w = w\<lparr>fdtab := (fdtab w)(fd \<mapsto> f)\<rparr>"

section \<open>Polling\<close>

text \<open>\<open>revents\<close>: a negative descriptor is ignored, a closed one is reported invalid.\<close>

datatype revents = RNone | RIn | RNval

definition fd_revents :: "'a kworld_scheme \<Rightarrow> int \<Rightarrow> revents" where
  "fd_revents w fd =
     (if fd < 0 then RNone
      else case fdtab w fd of
        None \<Rightarrow> RNval
      | Some f \<Rightarrow> if 0 < ef_count (files w f) then RIn else RNone)"

text \<open>What ends a sleep in poll, when no descriptor is ready as the call starts.\<close>

datatype pollout = PWake | PIntr | PExpire | PErr errno

datatype pollret = PReady "revents list" | PTimedOut | PFailed errno

fun sys_poll :: "int list \<Rightarrow> bool \<Rightarrow> pollout list \<Rightarrow> 'a kworld_scheme \<Rightarrow>
    (pollret \<times> pollout list \<times> 'a kworld_scheme) option" where
  "sys_poll fds timed [] w =
     (let w1 = kinterfere w; rev = map (fd_revents w1) fds
      in if \<exists>r \<in> set rev. r \<noteq> RNone then Some (PReady rev, [], w1) else None)"
| "sys_poll fds timed (out # outs) w =
     (let w1 = kinterfere w; rev = map (fd_revents w1) fds
      in if \<exists>r \<in> set rev. r \<noteq> RNone then Some (PReady rev, out # outs, w1)
         else case out of
           PWake \<Rightarrow> sys_poll fds timed outs w1
         | PIntr \<Rightarrow> Some (PFailed EINTR, outs, w1)
         | PExpire \<Rightarrow> if timed then Some (PTimedOut, outs, w1) else sys_poll fds timed outs w1
         | PErr e \<Rightarrow> Some (PFailed e, outs, w1))"

text \<open>\<open>poll\<close> with a zero timeout: the number of descriptors with events.\<close>

definition poll_now :: "int list \<Rightarrow> 'a kworld_scheme \<Rightarrow> nat \<times> 'a kworld_scheme" where
  "poll_now fds w =
     (let w1 = kinterfere w in (length (filter (\<lambda>fd. fd_revents w1 fd \<noteq> RNone) fds), w1))"

section \<open>Rewriting\<close>

text \<open>A state that nobody else touches.\<close>

definition kcalm :: "'a kworld_scheme \<Rightarrow> bool" where
  "kcalm w \<longleftrightarrow> intf w = [] \<and> kintf w = []"

lemma kcalm_intf [simp]: "kcalm w \<Longrightarrow> intf w = []" "kcalm w \<Longrightarrow> kintf w = []"
  by (simp_all add: kcalm_def)

lemma kinterfere_calm [shm_simps]: "kintf w = [] \<Longrightarrow> kinterfere w = w"
  by (simp add: kinterfere_def)

lemma kemit_sel [simp]:
  "mem (kemit a w) = mem w" "intf (kemit a w) = intf w" "acts (kemit a w) = acts w"
  "fdtab (kemit a w) = fdtab w" "files (kemit a w) = files w" "kintf (kemit a w) = kintf w"
  by (simp_all add: kemit_def)

lemma set_count_sel [simp]:
  "mem (set_count f n w) = mem w" "intf (set_count f n w) = intf w" "acts (set_count f n w) = acts w"
  "fdtab (set_count f n w) = fdtab w" "kintf (set_count f n w) = kintf w"
  "files (set_count f n w) = (files w)(f := (files w f)\<lparr>ef_count := n\<rparr>)"
  by (simp_all add: set_count_def)

lemma put_mem_ksel [simp]:
  "fdtab (put_mem p v w) = fdtab w" "files (put_mem p v w) = files w" "kintf (put_mem p v w) = kintf w"
  by (simp_all add: put_mem_def)

lemma kcalm_upd [simp]:
  "kcalm (kemit a w) = kcalm w" "kcalm (set_count f n w) = kcalm w" "kcalm (put_mem p v w) = kcalm w"
  unfolding kcalm_def by simp_all

lemma fd_write_calm [shm_simps]:
  "kintf w = [] \<Longrightarrow> fdtab w fd = Some f \<Longrightarrow>
     fd_write fd v w = (if EFD_MAX < ef_count (files w f) + v then (Inl EAGAIN, w)
        else (Inr (), kemit (KWrite f v) (set_count f (ef_count (files w f) + v) w)))"
  by (simp add: fd_write_def kinterfere_calm)

lemma fd_read_calm [shm_simps]:
  "kintf w = [] \<Longrightarrow> fdtab w fd = Some f \<Longrightarrow>
     fd_read fd w = (if ef_count (files w f) = 0 then (Inl EAGAIN, w)
        else let v = (if ef_sem (files w f) then 1 else ef_count (files w f))
             in (Inr v, kemit (KRead f v) (set_count f (ef_count (files w f) - v) w)))"
  by (simp add: fd_read_def kinterfere_calm)

text \<open>A write followed by a read gives the written value back and leaves the counter as it was.\<close>

lemma write_then_read:
  assumes "kintf w = []" and "fdtab w fd = Some f" and "\<not> ef_sem (files w f)"
    and "ef_count (files w f) = 0" and "0 < v" and "v \<le> EFD_MAX"
  shows "fst (fd_read fd (snd (fd_write fd v w))) = Inr v"
    and "files (snd (fd_read fd (snd (fd_write fd v w)))) = files w"
  using assms by (auto simp: shm_simps Let_def fun_eq_iff)

text \<open>With a descriptor ready nothing is consumed; without one, nothing ready is ever reported.\<close>

lemma sys_poll_ready:
  assumes "kintf w = []" and "\<exists>fd \<in> set fds. fd_revents w fd \<noteq> RNone"
  shows "sys_poll fds timed outs w = Some (PReady (map (fd_revents w) fds), outs, w)"
  using assms by (cases outs) (auto simp: kinterfere_calm Let_def)

lemma sys_poll_idle:
  assumes "kintf w = []" and "\<forall>fd \<in> set fds. fd_revents w fd = RNone"
    and "sys_poll fds timed outs w = Some (r, outs', w')"
  shows "w' = w \<and> (\<forall>rev. r \<noteq> PReady rev) \<and> (r = PTimedOut \<longrightarrow> timed)"
  using assms(3)
proof (induction outs)
  case Nil
  then show ?case using assms(1,2) by (auto simp: kinterfere_calm Let_def split: if_splits)
next
  case (Cons out outs)
  then show ?case using assms(1,2) by (cases out) (auto simp: kinterfere_calm Let_def split: if_splits)
qed

end
