(* ===== verification/Esync_Server.thy ===== *)
theory Esync_Server
  imports Eventfd
begin

text \<open>
  server/esync.c: objects whose state is an eventfd and a slot of eight bytes in a file that the server
  and all clients map. The kernel counter is the truth; the slot is a hint for events and semaphores
  and holds owner and recursion count of a mutex. The slot of an object is the number of its
  descriptor in the server plus one.

  An object is named by a number; what the object manager of the server answers (whether the named
  object existed, which handle it gets) is a parameter. A fault, a failed assert or an endless spin
  is \<open>None\<close>.
\<close>

section \<open>State\<close>

datatype esync_type =
    ESYNC_SEMAPHORE | ESYNC_AUTO_EVENT | ESYNC_MANUAL_EVENT | ESYNC_MUTEX
  | ESYNC_AUTO_SERVER | ESYNC_MANUAL_SERVER | ESYNC_QUEUE

text \<open>\<open>struct semaphore\<close>, \<open>struct mutex\<close> and \<open>struct event\<close>: two integers each.\<close>

abbreviation (input) esem_max :: "nat \<Rightarrow> addr" where "esem_max s \<equiv> (s, W0)"
abbreviation (input) esem_count :: "nat \<Rightarrow> addr" where "esem_count s \<equiv> (s, W1)"
abbreviation (input) emutex_tid :: "nat \<Rightarrow> addr" where "emutex_tid s \<equiv> (s, W0)"
abbreviation (input) emutex_count :: "nat \<Rightarrow> addr" where "emutex_count s \<equiv> (s, W1)"
abbreviation (input) eev_signaled :: "nat \<Rightarrow> addr" where "eev_signaled s \<equiv> (s, W0)"
abbreviation (input) eev_locked :: "nat \<Rightarrow> addr" where "eev_locked s \<equiv> (s, W1)"

record esync_obj =
  eo_fd :: int
  eo_type :: esync_type
  eo_shm_idx :: nat

text \<open>
  \<open>eshm_size\<close> is the variable \<open>shm_size\<close>, \<open>efile_size\<close> the size the file really has, \<open>epages\<close> the array
  \<open>shm_addrs\<close>: which pages are mapped.
\<close>

record esrv = kworld +
  eobjs :: "nat \<Rightarrow> esync_obj option"
  emutexes :: "nat list"
  eshm_size :: nat
  efile_size :: nat
  epages :: "bool list"

record eos =
  e_pagesize :: nat
  e_realloc_ok :: bool
  e_mmap_ok :: "nat \<Rightarrow> bool"
  e_ftruncate_ok :: "nat \<Rightarrow> bool"

definition esync_type_matches :: "esync_type \<Rightarrow> esync_type \<Rightarrow> bool" where
  "esync_type_matches type1 type2 \<longleftrightarrow> type1 = type2 \<or>
     (type1 = ESYNC_AUTO_EVENT \<or> type1 = ESYNC_MANUAL_EVENT) \<and>
     (type2 = ESYNC_AUTO_EVENT \<or> type2 = ESYNC_MANUAL_EVENT)"

section \<open>The shared memory\<close>

definition grow_pages :: "nat \<Rightarrow> bool list \<Rightarrow> bool list" where
  "grow_pages entry pages =
     (if length pages \<le> entry
      then pages @ replicate (max (length pages * 2) (entry + 1) - length pages) False else pages)"

text \<open>
  \<open>get_shm\<close>: the slot of an index. A mapping that failed leaves an invalid address in the array, and a
  page behind the end of the file is mapped but faults: both are \<open>None\<close> here, since every caller
  accesses the slot at once.
\<close>

definition esync_get_shm :: "eos \<Rightarrow> nat \<Rightarrow> esrv \<Rightarrow> (nat \<times> esrv) option" where
  "esync_get_shm os idx st =
     (let off = (idx * 8) mod 2 ^ 32;
          entry = off div e_pagesize os
      in if length (epages st) \<le> entry \<and> \<not> e_realloc_ok os then None
         else let pages = grow_pages entry (epages st)
              in if \<not> pages ! entry \<and> \<not> e_mmap_ok os entry then None
                 else if efile_size st \<le> off then None
                 else Some (off div 8, st\<lparr>epages := pages[entry := True]\<rparr>))"

text \<open>The loop that expands the file until the slot lies inside.\<close>

partial_function (option) esync_expand_shm :: "eos \<Rightarrow> nat \<Rightarrow> esrv \<Rightarrow> esrv option" where
  "esync_expand_shm os idx st =
     (if (idx * 8) mod 2 ^ 32 < eshm_size st then Some st
      else let size = eshm_size st + e_pagesize os
           in esync_expand_shm os idx (st\<lparr>eshm_size := size,
                efile_size := (if e_ftruncate_ok os size then size else efile_size st)\<rparr>))"

section \<open>Creating and destroying objects\<close>

definition esync_destroy :: "nat \<Rightarrow> esync_obj \<Rightarrow> esrv \<Rightarrow> esrv" where
  "esync_destroy oid es st =
     fd_close (eo_fd es)
       ((if eo_type es = ESYNC_MUTEX then st\<lparr>emutexes := remove1 oid (emutexes st)\<rparr> else st)
        \<lparr>eobjs := (eobjs st)(oid := None)\<rparr>)"

text \<open>The initialization of the slot; an object of another type fails the assert.\<close>

definition esync_init_slot :: "eos \<Rightarrow> i32 \<Rightarrow> nat \<Rightarrow> esync_obj \<Rightarrow> i32 \<Rightarrow> i32 \<Rightarrow> esrv \<Rightarrow> esrv option" where
  "esync_init_slot os current_id oid es initval maximum st =
     (case eo_type es of
        ESYNC_SEMAPHORE \<Rightarrow> do {
          (slot, st1) \<leftarrow> esync_get_shm os (eo_shm_idx es) st;
          Some (at_store (esem_count slot) initval (at_store (esem_max slot) maximum st1))
        }
      | ESYNC_AUTO_EVENT \<Rightarrow> do {
          (slot, st1) \<leftarrow> esync_get_shm os (eo_shm_idx es) st;
          Some (at_store (eev_locked slot) 0
                 (at_store (eev_signaled slot) (if initval \<noteq> 0 then 1 else 0) st1))
        }
      | ESYNC_MANUAL_EVENT \<Rightarrow> do {
          (slot, st1) \<leftarrow> esync_get_shm os (eo_shm_idx es) st;
          Some (at_store (eev_locked slot) 0
                 (at_store (eev_signaled slot) (if initval \<noteq> 0 then 1 else 0) st1))
        }
      | ESYNC_MUTEX \<Rightarrow> do {
          (slot, st1) \<leftarrow> esync_get_shm os (eo_shm_idx es) st;
          let st2 = at_store (emutex_count slot) (if initval \<noteq> 0 then 0 else 1)
                      (at_store (emutex_tid slot) (if initval \<noteq> 0 then 0 else current_id) st1);
          Some (st2\<lparr>emutexes := emutexes st2 @ [oid]\<rparr>)
        }
      | _ \<Rightarrow> None)"

text \<open>
  \<open>create_esync\<close>: \<open>named\<close> is the object that \<open>create_named_object\<close> returned and whether it existed, \<open>evfd\<close> the
  kernel's answer to \<open>eventfd\<close>. When that failed, the new object is released with its type not yet
  set: \<open>junk\<close> is the type its memory happens to hold. The result is the pointer returned, the error set
  here, the objects released and the state.
\<close>

definition esync_create ::
  "eos \<Rightarrow> i32 \<Rightarrow> (errno \<Rightarrow> ntstatus) \<Rightarrow> esync_type option \<Rightarrow> (errno + int \<times> nat) \<Rightarrow> (nat \<times> bool) option \<Rightarrow>
     i32 \<Rightarrow> i32 \<Rightarrow> esync_type \<Rightarrow> esrv \<Rightarrow> (nat option \<times> ntstatus option \<times> nat list \<times> esrv) option" where
  "esync_create os current_id file_error junk evfd named initval maximum type st =
     (case named of
        None \<Rightarrow> Some (None, None, [], st)
      | Some (oid, exists) \<Rightarrow>
          if \<not> exists then
            (case sys_eventfd evfd initval (type = ESYNC_SEMAPHORE) st of
               (Inl e, st1) \<Rightarrow>
                 if junk = Some ESYNC_MUTEX then None
                 else Some (None, Some (file_error e), [oid], fd_close (- 1) st1)
             | (Inr fd, st1) \<Rightarrow>
                 let es = \<lparr>eo_fd = fd, eo_type = type, eo_shm_idx = nat (fd + 1)\<rparr>;
                     st2 = st1\<lparr>eobjs := (eobjs st1)(oid \<mapsto> es)\<rparr>
                 in do {
                   st3 \<leftarrow> esync_expand_shm os (eo_shm_idx es) st2;
                   st4 \<leftarrow> esync_init_slot os current_id oid es initval maximum st3;
                   Some (Some oid, None, [], st4)
                 })
          else do {
            es \<leftarrow> eobjs st oid;
            if \<not> esync_type_matches type (eo_type es)
            then Some (None, Some STATUS_OBJECT_TYPE_MISMATCH, [oid], st)
            else Some (Some oid, None, [], st)
          })"

section \<open>Signaling\<close>

definition esync_create_fd :: "(errno + int \<times> nat) \<Rightarrow> u32 \<Rightarrow> bool \<Rightarrow> esrv \<Rightarrow> int \<times> esrv" where
  "esync_create_fd evfd initval semaphore st =
     (case sys_eventfd evfd initval semaphore st of
        (Inl e, st1) \<Rightarrow> (- 1, st1)
      | (Inr fd, st1) \<Rightarrow> (fd, st1))"

definition esync_wake_fd :: "int \<Rightarrow> esrv \<Rightarrow> esrv" where
  "esync_wake_fd fd st = snd (fd_write fd 1 st)"

definition esync_clear :: "int \<Rightarrow> esrv \<Rightarrow> esrv" where
  "esync_clear fd st = snd (fd_read fd st)"

text \<open>An object of the server: what its \<open>get_esync_fd\<close> operation returns, if it has one.\<close>

definition esync_wake_up :: "(int \<times> esync_type) option \<Rightarrow> esrv \<Rightarrow> esrv" where
  "esync_wake_up obj st = (case obj of None \<Rightarrow> st | Some (fd, type) \<Rightarrow> esync_wake_fd fd st)"

definition esync_get_esync_fd :: "esync_obj \<Rightarrow> int \<times> esync_type" where
  "esync_get_esync_fd es = (eo_fd es, eo_type es)"

text \<open>The spin lock of a manual-reset event: it spins until a compare-and-swap finds it free.\<close>

partial_function (option) spin_lock :: "addr \<Rightarrow> 'a world_scheme \<Rightarrow> 'a world_scheme option" where
  "spin_lock a w = (let (old, w1) = at_cas a 0 1 w in if old \<noteq> 0 then spin_lock a w1 else Some w1)"

definition lock_event :: "esync_type \<Rightarrow> nat \<Rightarrow> 'a world_scheme \<Rightarrow> 'a world_scheme option" where
  "lock_event type slot w = (if type = ESYNC_MANUAL_EVENT then spin_lock (eev_locked slot) w else Some w)"

definition unlock_event :: "esync_type \<Rightarrow> nat \<Rightarrow> 'a world_scheme \<Rightarrow> 'a world_scheme" where
  "unlock_event type slot w = (if type = ESYNC_MANUAL_EVENT then at_store (eev_locked slot) 0 w else w)"

definition esync_set_event :: "eos \<Rightarrow> esync_obj \<Rightarrow> esrv \<Rightarrow> esrv option" where
  "esync_set_event os es st =
     do {
       (slot, st1) \<leftarrow> esync_get_shm os (eo_shm_idx es) st;
       st2 \<leftarrow> lock_event (eo_type es) slot st1;
       let (old, st3) = at_xchg (eev_signaled slot) 1 st2;
       Some (unlock_event (eo_type es) slot (if old = 0 then snd (fd_write (eo_fd es) 1 st3) else st3))
     }"

definition esync_reset_event :: "eos \<Rightarrow> esync_obj \<Rightarrow> esrv \<Rightarrow> esrv option" where
  "esync_reset_event os es st =
     do {
       (slot, st1) \<leftarrow> esync_get_shm os (eo_shm_idx es) st;
       st2 \<leftarrow> lock_event (eo_type es) slot st1;
       let (old, st3) = at_xchg (eev_signaled slot) 0 st2;
       Some (unlock_event (eo_type es) slot (if old \<noteq> 0 then snd (fd_read (eo_fd es) st3) else st3))
     }"

fun esync_abandon_loop :: "eos \<Rightarrow> i32 \<Rightarrow> nat list \<Rightarrow> esrv \<Rightarrow> esrv option" where
  "esync_abandon_loop os tid [] st = Some st"
| "esync_abandon_loop os tid (oid # oids) st =
     do {
       es \<leftarrow> eobjs st oid;
       (slot, st1) \<leftarrow> esync_get_shm os (eo_shm_idx es) st;
       let (owner, st2) = at_load (emutex_tid slot) st1;
       esync_abandon_loop os tid oids
         (if owner = tid
          then esync_wake_fd (eo_fd es) (at_store (emutex_count slot) 0 (at_store (emutex_tid slot) (- 1) st2))
          else st2)
     }"

definition esync_abandon_mutexes :: "eos \<Rightarrow> i32 \<Rightarrow> esrv \<Rightarrow> esrv option" where
  "esync_abandon_mutexes os tid st = esync_abandon_loop os tid (emutexes st) st"

section \<open>Request handlers\<close>

text \<open>The reply: the fields, the error, the descriptor sent to the client, the objects released.\<close>

record esync_reply =
  er_handle :: handle
  er_type :: "esync_type option"
  er_shm_idx :: nat
  er_error :: "ntstatus option"
  er_sent :: "(int \<times> handle) option"
  er_released :: "nat list"

definition no_reply :: esync_reply where
  "no_reply = \<lparr>er_handle = 0, er_type = None, er_shm_idx = 0, er_error = None, er_sent = None, er_released = []\<rparr>"

definition req_create_esync ::
  "eos \<Rightarrow> i32 \<Rightarrow> (errno \<Rightarrow> ntstatus) \<Rightarrow> esync_type option \<Rightarrow> (errno + int \<times> nat) \<Rightarrow> bool \<Rightarrow> bool \<Rightarrow> nat option \<Rightarrow>
     (nat \<times> bool) option \<Rightarrow> (bool \<Rightarrow> nat \<Rightarrow> handle) \<Rightarrow> i32 \<Rightarrow> i32 \<Rightarrow> esync_type option \<Rightarrow> esrv \<Rightarrow>
     (esync_reply \<times> esrv) option" where
  "req_create_esync os current_id file_error junk evfd enabled objattr root named alloc_handle initval maximum rtype st =
     (if \<not> enabled then Some (no_reply\<lparr>er_error := Some STATUS_NOT_IMPLEMENTED\<rparr>, st)
      else case rtype of
        None \<Rightarrow> Some (no_reply\<lparr>er_error := Some STATUS_INVALID_PARAMETER\<rparr>, st)
      | Some type \<Rightarrow>
          if \<not> objattr then Some (no_reply, st)
          else do {
            (obj, e, rel, st1) \<leftarrow> esync_create os current_id file_error junk evfd named initval maximum type st;
            let root_rel = (case root of None \<Rightarrow> [] | Some r \<Rightarrow> [r]);
            case obj of
              None \<Rightarrow> Some (no_reply\<lparr>er_error := e, er_released := rel @ root_rel\<rparr>, st1)
            | Some oid \<Rightarrow> do {
                es \<leftarrow> eobjs st1 oid;
                let exists = (case named of Some (_, ex) \<Rightarrow> ex | None \<Rightarrow> False);
                let h = alloc_handle exists oid;
                Some (\<lparr>er_handle = h, er_type = Some (eo_type es), er_shm_idx = eo_shm_idx es,
                       er_error = (if exists then Some STATUS_OBJECT_NAME_EXISTS else e),
                       er_sent = Some (eo_fd es, h), er_released = rel @ [oid] @ root_rel\<rparr>, st1)
              }
          })"

definition req_open_esync :: "handle \<Rightarrow> nat option \<Rightarrow> esync_type \<Rightarrow> esrv \<Rightarrow> esync_reply option" where
  "req_open_esync opened looked_up type st =
     (if opened = 0 then Some no_reply
      else case looked_up of
        None \<Rightarrow> Some (no_reply\<lparr>er_handle := opened\<rparr>)
      | Some oid \<Rightarrow> do {
          es \<leftarrow> eobjs st oid;
          if \<not> esync_type_matches type (eo_type es)
          then Some (no_reply\<lparr>er_handle := opened, er_error := Some STATUS_OBJECT_TYPE_MISMATCH,
                              er_released := [oid]\<rparr>)
          else Some \<lparr>er_handle = opened, er_type = Some (eo_type es), er_shm_idx = eo_shm_idx es,
                     er_error = None, er_sent = Some (eo_fd es, opened), er_released = [oid]\<rparr>
        })"

text \<open>
  \<open>get_esync_fd\<close>: the object of the handle is an esync object, another object with a \<open>get_esync_fd\<close>
  operation, or one without.
\<close>

datatype waited_obj = EsyncObj nat | ServerObj nat int esync_type | PlainObj nat

definition req_get_esync_fd :: "handle \<Rightarrow> waited_obj option \<Rightarrow> esrv \<Rightarrow> esync_reply option" where
  "req_get_esync_fd h obj st =
     (case obj of
        None \<Rightarrow> Some no_reply
      | Some (EsyncObj oid) \<Rightarrow> do {
          es \<leftarrow> eobjs st oid;
          let (fd, type) = esync_get_esync_fd es;
          Some (no_reply\<lparr>er_type := Some type, er_shm_idx := eo_shm_idx es, er_sent := Some (fd, h),
                         er_released := [oid]\<rparr>)
        }
      | Some (ServerObj oid fd type) \<Rightarrow>
          Some (no_reply\<lparr>er_type := Some type, er_shm_idx := 0, er_sent := Some (fd, h), er_released := [oid]\<rparr>)
      | Some (PlainObj oid) \<Rightarrow>
          Some (no_reply\<lparr>er_error := Some STATUS_NOT_IMPLEMENTED, er_released := [oid]\<rparr>))"

definition req_get_esync_apc_fd :: "int \<Rightarrow> handle \<Rightarrow> esync_reply" where
  "req_get_esync_apc_fd apc_fd current_id = no_reply\<lparr>er_sent := Some (apc_fd, current_id)\<rparr>"

end
