(* ===== verification/Esync_Client.thy ===== *)
theory Esync_Client
  imports Esync_Server Handle_Cache
begin

text \<open>
  dlls/ntdll/unix/esync.c: the client's side of the eventfd objects. A handle is looked up in the cache
  of the process or asked from the server, which sends a descriptor of the object's eventfd; the
  operations then work on the slot in the shared memory and on the descriptor.

  A pointer to an entry of the cache is its content at the time of the lookup: an operation that
  runs while another thread closes the handle it was given is outside the model. A pointer into the
  shared memory is the number of the slot, or \<open>None\<close> where it is NULL or points into a page that could
  not be mapped; following such a pointer, or the NULL object of a handle that cannot be cached, is
  the fault \<open>None\<close>.
\<close>

section \<open>State\<close>

record eentry =
  en_type :: esync_type
  en_fd :: int
  en_shm :: "nat option"

datatype page = PageUnmapped | PageMapped | PageFailed

record eclient = kworld +
  ecache :: "eentry cache"
  ecintf :: "(eentry cache \<Rightarrow> eentry cache) list"
  epgs :: "page list"           \<comment> \<open>\<open>shm_addrs\<close>\<close>
  eapc_fd :: int                \<comment> \<open>the thread's \<open>esync_apc_fd\<close>\<close>
  eclock :: nat                 \<comment> \<open>how often the clock was read\<close>

text \<open>The answers of the server name the object's counter beside the descriptor it is received as.\<close>

record ecfg =
  e_tid :: i32
  e_page :: nat
  e_realloc :: bool
  e_mmap :: "nat \<Rightarrow> bool"
  e_anon :: bool
  e_odyssey :: bool
  e_errno :: "errno \<Rightarrow> ntstatus"
  esrv_fd :: "u64 \<Rightarrow> ntstatus + (esync_type \<times> nat \<times> int \<times> nat)"
  esrv_create :: "esync_type \<Rightarrow> i32 \<Rightarrow> i32 \<Rightarrow> ntstatus \<times> u64 \<times> esync_type \<times> nat \<times> int \<times> nat"
  esrv_open :: "esync_type \<Rightarrow> ntstatus \<times> u64 \<times> esync_type \<times> nat \<times> int \<times> nat"
  esrv_apc :: "(int \<times> nat) option"
  esrv_wait :: ntstatus
  e_now :: "nat \<Rightarrow> u64"

abbreviation (input) ESYNC_LIST_ENTRIES :: nat where "ESYNC_LIST_ENTRIES \<equiv> 256"
abbreviation (input) ESYNC_LIST_BLOCK_SIZE :: nat where "ESYNC_LIST_BLOCK_SIZE \<equiv> 4096"

section \<open>The shared memory and the cache\<close>

definition eclient_get_shm :: "ecfg \<Rightarrow> nat \<Rightarrow> eclient \<Rightarrow> (nat option \<times> eclient) option" where
  "eclient_get_shm cfg idx w =
     (let off = (idx * 8) mod 2 ^ 32;
          entry = off div e_page cfg;
          n = length (epgs w)
      in if n \<le> entry \<and> \<not> e_realloc cfg then None
         else let pgs = (if n \<le> entry then epgs w @ replicate (max (n * 2) (entry + 1) - n) PageUnmapped
                         else epgs w);
                  pgs' = (if pgs ! entry = PageUnmapped
                          then pgs[entry := if e_mmap cfg entry then PageMapped else PageFailed] else pgs)
              in Some (if pgs' ! entry = PageMapped then Some (off div 8) else None, w\<lparr>epgs := pgs'\<rparr>))"

text \<open>
  The entry is written only if it was free; the pointer to it is returned, or NULL when the handle
  cannot be cached.
\<close>

definition eadd_to_list :: "ecfg \<Rightarrow> u64 \<Rightarrow> eentry \<Rightarrow> eclient \<Rightarrow> eentry option \<times> eclient" where
  "eadd_to_list cfg handle e w =
     (if \<not> cacheable ESYNC_LIST_ENTRIES ESYNC_LIST_BLOCK_SIZE (e_anon cfg) handle (ecache w) then (None, w)
      else case cache_get ESYNC_LIST_ENTRIES ESYNC_LIST_BLOCK_SIZE handle (ecache w) of
        Some old \<Rightarrow> (Some old, w)
      | None \<Rightarrow> (Some e, w\<lparr>ecache := cache_put ESYNC_LIST_ENTRIES ESYNC_LIST_BLOCK_SIZE (e_anon cfg) handle
                                      (Some e) (ecache w)\<rparr>))"

definition ecache_interfere :: "eclient \<Rightarrow> eclient" where
  "ecache_interfere w = (case ecintf w of [] \<Rightarrow> w | f # fs \<Rightarrow> w\<lparr>ecache := f (ecache w), ecintf := fs\<rparr>)"

definition eget_cached_object :: "u64 \<Rightarrow> eclient \<Rightarrow> eentry option \<times> eclient" where
  "eget_cached_object handle w =
     (let w1 = ecache_interfere w
      in (cache_get ESYNC_LIST_ENTRIES ESYNC_LIST_BLOCK_SIZE handle (ecache w1), w1))"

text \<open>The tail of the lookups: the descriptor is received and the entry made; index 0 has no slot.\<close>

definition cache_received :: "ecfg \<Rightarrow> u64 \<Rightarrow> esync_type \<times> nat \<times> int \<times> nat \<Rightarrow> eclient \<Rightarrow>
    (eentry option \<times> eclient) option" where
  "cache_received cfg handle r w =
     (let (type, shm_idx, fd, file) = r;
          w1 = install_fd fd file w
      in do {
        (slot, w2) \<leftarrow> (if shm_idx = 0 then Some (None, w1) else eclient_get_shm cfg shm_idx w1);
        Some (eadd_to_list cfg handle \<lparr>en_type = type, en_fd = fd, en_shm = slot\<rparr> (ecache_interfere w2))
      })"

definition eget_object :: "ecfg \<Rightarrow> u64 \<Rightarrow> eclient \<Rightarrow> ((ntstatus + eentry option) \<times> eclient) option" where
  "eget_object cfg handle w =
     (let (c, w1) = eget_cached_object handle w in
      case c of
        Some obj \<Rightarrow> Some (Inr (Some obj), w1)
      | None \<Rightarrow>
          if sint handle < 0 then Some (Inl STATUS_NOT_IMPLEMENTED, w1)
          else if handle = 0 then Some (Inl STATUS_INVALID_HANDLE, w1)
          else let (c2, w2) = eget_cached_object handle w1 in
            case c2 of
              Some obj \<Rightarrow> Some (Inr (Some obj), w2)
            | None \<Rightarrow>
                (case esrv_fd cfg handle of
                   Inl st \<Rightarrow> Some (Inl st, w2)
                 | Inr r \<Rightarrow> map_option (\<lambda>(e, w3). (Inr e, w3)) (cache_received cfg handle r w2)))"

text \<open>How the operations use it: an error is returned, the NULL object faults.\<close>

definition with_object :: "ecfg \<Rightarrow> u64 \<Rightarrow> (ntstatus \<Rightarrow> 'r) \<Rightarrow> (eentry \<Rightarrow> eclient \<Rightarrow> ('r \<times> eclient) option) \<Rightarrow>
    eclient \<Rightarrow> ('r \<times> eclient) option" where
  "with_object cfg handle bad body w =
     do {
       (r, w1) \<leftarrow> eget_object cfg handle w;
       case r of
         Inl st \<Rightarrow> Some (bad st, w1)
       | Inr None \<Rightarrow> None
       | Inr (Some obj) \<Rightarrow> body obj w1
     }"

definition esync_close :: "u64 \<Rightarrow> eclient \<Rightarrow> ntstatus \<times> eclient" where
  "esync_close handle w =
     (let w1 = ecache_interfere w;
          (old, c) = cache_take ESYNC_LIST_ENTRIES ESYNC_LIST_BLOCK_SIZE handle (ecache w1)
      in case old of
           Some e \<Rightarrow> (STATUS_SUCCESS, fd_close (en_fd e) (w1\<lparr>ecache := c\<rparr>))
         | None \<Rightarrow> (STATUS_INVALID_HANDLE, w1\<lparr>ecache := c\<rparr>))"

section \<open>Creating and opening\<close>

text \<open>
  What \<open>Esync_Server.esync_create\<close> does to the counter and the slot when it answers with success, seen
  from the client.
\<close>

definition eserver_slot :: "esync_type \<Rightarrow> i32 \<Rightarrow> i32 \<Rightarrow> i32 \<Rightarrow> i32 \<times> i32" where
  "eserver_slot type current_id initval maximum =
     (case type of
        ESYNC_SEMAPHORE \<Rightarrow> (maximum, initval)
      | ESYNC_MUTEX \<Rightarrow> if initval \<noteq> 0 then (0, 0) else (current_id, 1)
      | _ \<Rightarrow> (if initval \<noteq> 0 then 1 else 0, 0))"

definition eserver_init :: "ecfg \<Rightarrow> esync_type \<Rightarrow> i32 \<Rightarrow> i32 \<Rightarrow> nat \<Rightarrow> nat \<Rightarrow> eclient \<Rightarrow> eclient" where
  "eserver_init cfg type initval maximum slot file w =
     (let w1 = kinterfere (interfere w); (a, b) = eserver_slot type (e_tid cfg) initval maximum
      in w1\<lparr>mem := (mem w1)((slot, W0) := a, (slot, W1) := b),
            files := (files w1)(file := \<lparr>ef_count = unat initval, ef_sem = (type = ESYNC_SEMAPHORE)\<rparr>)\<rparr>)"

definition eclient_create ::
  "ecfg \<Rightarrow> ntstatus \<Rightarrow> esync_type \<Rightarrow> i32 \<Rightarrow> i32 \<Rightarrow> eclient \<Rightarrow> ((ntstatus \<times> u64 option) \<times> eclient) option" where
  "eclient_create cfg attr_status type initval maximum w =
     (if attr_status \<noteq> 0 then Some ((attr_status, None), w)
      else let (ret, handle, r) = esrv_create cfg type initval maximum;
               (type', shm_idx, fd, file) = r;
               w1 = (if ret = 0 then eserver_init cfg type initval maximum shm_idx file w else w)
           in if ret = 0 \<or> ret = STATUS_OBJECT_NAME_EXISTS
              then map_option (\<lambda>(e, w2). ((ret, Some handle), w2)) (cache_received cfg handle r w1)
              else Some ((ret, None), w1))"

definition eclient_open :: "ecfg \<Rightarrow> esync_type \<Rightarrow> eclient \<Rightarrow> ((ntstatus \<times> u64 option) \<times> eclient) option" where
  "eclient_open cfg type w =
     (let (ret, handle, r) = esrv_open cfg type
      in if ret = 0 then map_option (\<lambda>(e, w2). ((ret, Some handle), w2)) (cache_received cfg handle r w)
         else Some ((ret, None), w))"

definition esync_create_semaphore ::
  "ecfg \<Rightarrow> ntstatus \<Rightarrow> i32 \<Rightarrow> i32 \<Rightarrow> eclient \<Rightarrow> ((ntstatus \<times> u64 option) \<times> eclient) option" where
  "esync_create_semaphore cfg attr_status initial maximum w =
     eclient_create cfg attr_status ESYNC_SEMAPHORE initial maximum w"

definition esync_open_semaphore :: "ecfg \<Rightarrow> eclient \<Rightarrow> ((ntstatus \<times> u64 option) \<times> eclient) option" where
  "esync_open_semaphore cfg w = eclient_open cfg ESYNC_SEMAPHORE w"

definition esync_create_event ::
  "ecfg \<Rightarrow> ntstatus \<Rightarrow> bool \<Rightarrow> 8 word \<Rightarrow> eclient \<Rightarrow> ((ntstatus \<times> u64 option) \<times> eclient) option" where
  "esync_create_event cfg attr_status synchronization initial w =
     eclient_create cfg attr_status (if synchronization then ESYNC_AUTO_EVENT else ESYNC_MANUAL_EVENT)
       (ucast initial) 0 w"

definition esync_open_event :: "ecfg \<Rightarrow> eclient \<Rightarrow> ((ntstatus \<times> u64 option) \<times> eclient) option" where
  "esync_open_event cfg w = eclient_open cfg ESYNC_AUTO_EVENT w"

definition esync_create_mutex ::
  "ecfg \<Rightarrow> ntstatus \<Rightarrow> bool \<Rightarrow> eclient \<Rightarrow> ((ntstatus \<times> u64 option) \<times> eclient) option" where
  "esync_create_mutex cfg attr_status initial w =
     eclient_create cfg attr_status ESYNC_MUTEX (if initial then 0 else 1) 0 w"

definition esync_open_mutex :: "ecfg \<Rightarrow> eclient \<Rightarrow> ((ntstatus \<times> u64 option) \<times> eclient) option" where
  "esync_open_mutex cfg w = eclient_open cfg ESYNC_MUTEX w"

section \<open>Semaphores\<close>

function erelease_loop :: "nat \<Rightarrow> u32 \<Rightarrow> 'a world_scheme \<Rightarrow> u32 option \<times> 'a world_scheme" where
  "erelease_loop slot count w =
     (let (current, w1) = at_load (esem_count slot) w;
          (mx, w2) = at_load (esem_max slot) w1
      in if count + current > mx then (None, w2)
         else let (old, w3) = at_cas (esem_count slot) current (count + current) w2
              in if old = current then (Some current, w3) else erelease_loop slot count w3)"
  by pat_completeness auto
termination
proof (relation "measure (\<lambda>(slot, count, w). length (intf w))", goal_cases)
  case 1
  show ?case by simp
next
  case (2 slot count w p current w1 p2 mx w2 p3 old w3)
  then have "intf w \<noteq> []" by (auto simp: shm_simps)
  moreover have "length (intf w1) = length (intf w) - 1" "length (intf w2) = length (intf w1) - 1"
    "length (intf w3) = length (intf w2) - 1"
    using 2 by (auto dest: intf_len)
  ultimately have "length (intf w3) < length (intf w)" by (cases "intf w") simp_all
  then show ?case by simp
qed

declare erelease_loop.simps [simp del]

definition esync_release_semaphore ::
  "ecfg \<Rightarrow> u64 \<Rightarrow> u32 \<Rightarrow> eclient \<Rightarrow> ((ntstatus \<times> u32 option) \<times> eclient) option" where
  "esync_release_semaphore cfg handle count =
     with_object cfg handle (\<lambda>st. (st, None)) (\<lambda>obj w. do {
       slot \<leftarrow> en_shm obj;
       let (res, w1) = erelease_loop slot count w;
       case res of
         None \<Rightarrow> Some ((STATUS_SEMAPHORE_LIMIT_EXCEEDED, None), w1)
       | Some current \<Rightarrow>
           (case fd_write (en_fd obj) (unat count) w1 of
              (Inl e, w2) \<Rightarrow> Some ((e_errno cfg e, Some current), w2)
            | (Inr _, w2) \<Rightarrow> Some ((STATUS_SUCCESS, Some current), w2))
     })"

definition esync_query_semaphore ::
  "ecfg \<Rightarrow> u64 \<Rightarrow> eclient \<Rightarrow> ((ntstatus \<times> (i32 \<times> i32) option) \<times> eclient) option" where
  "esync_query_semaphore cfg handle =
     with_object cfg handle (\<lambda>st. (st, None)) (\<lambda>obj w. do {
       slot \<leftarrow> en_shm obj;
       let (c, w1) = at_load (esem_count slot) w;
       let (m, w2) = at_load (esem_max slot) w1;
       Some ((STATUS_SUCCESS, Some (c, m)), w2)
     })"

section \<open>Events\<close>

definition eis_event :: "esync_type \<Rightarrow> bool" where
  "eis_event type \<longleftrightarrow> \<not> (type \<noteq> ESYNC_MANUAL_EVENT \<and> type \<noteq> ESYNC_AUTO_EVENT)"

definition eclient_set_event :: "ecfg \<Rightarrow> u64 \<Rightarrow> eclient \<Rightarrow> (ntstatus \<times> eclient) option" where
  "eclient_set_event cfg handle =
     with_object cfg handle (\<lambda>st. st) (\<lambda>obj w.
       if \<not> eis_event (en_type obj) then Some (STATUS_OBJECT_TYPE_MISMATCH, w)
       else do {
         slot \<leftarrow> en_shm obj;
         w1 \<leftarrow> lock_event (en_type obj) slot w;
         let (old, w2) = at_xchg (eev_signaled slot) 1 w1;
         let w3 = (if old = 0 \<or> en_type obj = ESYNC_AUTO_EVENT then snd (fd_write (en_fd obj) 1 w2) else w2);
         Some (STATUS_SUCCESS, unlock_event (en_type obj) slot w3)
       })"

definition eclient_reset_event :: "ecfg \<Rightarrow> u64 \<Rightarrow> eclient \<Rightarrow> (ntstatus \<times> eclient) option" where
  "eclient_reset_event cfg handle =
     with_object cfg handle (\<lambda>st. st) (\<lambda>obj w.
       if \<not> eis_event (en_type obj) then Some (STATUS_OBJECT_TYPE_MISMATCH, w)
       else do {
         slot \<leftarrow> en_shm obj;
         w1 \<leftarrow> lock_event (en_type obj) slot w;
         let (old, w2) = at_xchg (eev_signaled slot) 0 w1;
         let w3 = (if old \<noteq> 0 \<or> en_type obj = ESYNC_AUTO_EVENT then snd (fd_read (en_fd obj) w2) else w2);
         Some (STATUS_SUCCESS, unlock_event (en_type obj) slot w3)
       })"

definition eclient_pulse_event :: "ecfg \<Rightarrow> u64 \<Rightarrow> eclient \<Rightarrow> (ntstatus \<times> eclient) option" where
  "eclient_pulse_event cfg handle =
     with_object cfg handle (\<lambda>st. st) (\<lambda>obj w.
       if \<not> eis_event (en_type obj) then Some (STATUS_OBJECT_TYPE_MISMATCH, w)
       else case fd_write (en_fd obj) 1 w of
         (Inl e, w1) \<Rightarrow> Some (e_errno cfg e, w1)
       | (Inr _, w1) \<Rightarrow> Some (STATUS_SUCCESS, snd (fd_read (en_fd obj) (kemit KUsleep w1))))"

text \<open>\<open>EventState\<close> is what \<open>poll\<close> returns; \<open>True\<close> stands for a synchronization event.\<close>

definition eclient_query_event ::
  "ecfg \<Rightarrow> u64 \<Rightarrow> eclient \<Rightarrow> ((ntstatus \<times> (nat \<times> bool) option) \<times> eclient) option" where
  "eclient_query_event cfg handle =
     with_object cfg handle (\<lambda>st. (st, None)) (\<lambda>obj w.
       (let (n, w1) = poll_now [en_fd obj] w
        in Some ((STATUS_SUCCESS, Some (n, en_type obj = ESYNC_AUTO_EVENT)), w1)))"

section \<open>Mutexes\<close>

definition esync_release_mutex :: "ecfg \<Rightarrow> u64 \<Rightarrow> eclient \<Rightarrow> ((ntstatus \<times> i32 option) \<times> eclient) option" where
  "esync_release_mutex cfg handle =
     with_object cfg handle (\<lambda>st. (st, None)) (\<lambda>obj w. do {
       slot \<leftarrow> en_shm obj;
       let (t, w1) = at_load (emutex_tid slot) w;
       if t \<noteq> e_tid cfg then Some ((STATUS_MUTANT_NOT_OWNED, None), w1)
       else do {
         let (prev, w2) = at_load (emutex_count slot) w1;
         let (c, w3) = at_load (emutex_count slot) w2;
         let w4 = at_store (emutex_count slot) (c - 1) w3;
         let (c', w5) = at_load (emutex_count slot) w4;
         if c' = 0
         then (case fd_write (en_fd obj) 1 (at_store (emutex_tid slot) 0 w5) of
                 (Inl e, w6) \<Rightarrow> Some ((e_errno cfg e, Some prev), w6)
               | (Inr _, w6) \<Rightarrow> Some ((STATUS_SUCCESS, Some prev), w6))
         else Some ((STATUS_SUCCESS, Some prev), w5)
       }
     })"

definition esync_query_mutex ::
  "ecfg \<Rightarrow> u64 \<Rightarrow> eclient \<Rightarrow> ((ntstatus \<times> (i32 \<times> bool \<times> bool) option) \<times> eclient) option" where
  "esync_query_mutex cfg handle =
     with_object cfg handle (\<lambda>st. (st, None)) (\<lambda>obj w. do {
       slot \<leftarrow> en_shm obj;
       let (c, w1) = at_load (emutex_count slot) w;
       let (t1, w2) = at_load (emutex_tid slot) w1;
       let (t2, w3) = at_load (emutex_tid slot) w2;
       Some ((STATUS_SUCCESS, Some (1 - c, t1 = e_tid cfg, t2 = - 1)), w3)
     })"

end
