(* ===== verification/Esync_Wait.thy ===== *)
theory Esync_Wait
  imports Esync_Client "HOL-Library.Signed_Division"
begin

text \<open>
  dlls/ntdll/unix/esync.c: waiting. A wait for any object first tries the objects with the hints of the
  shared memory, then sleeps in poll and reads the descriptors that are ready; a wait for all polls
  the objects one after the other, polls all of them at once, reads all of them and writes back what
  it read when one read fails. What ends the successive sleeps in poll is a list of outcomes. The
  loops may run for ever, so that \<open>None\<close> stands for that too (and for a fault, and for a list of
  outcomes that is too short).
\<close>

section \<open>Timeouts and polling\<close>


definition query_system_time :: "ecfg \<Rightarrow> eclient \<Rightarrow> u64 \<times> eclient" where
  "query_system_time cfg w = (e_now cfg (eclock w), w\<lparr>eclock := Suc (eclock w)\<rparr>)"

definition esync_update_timeout :: "ecfg \<Rightarrow> u64 \<Rightarrow> eclient \<Rightarrow> u64 \<times> eclient" where
  "esync_update_timeout cfg end w =
     (let (now, w1) = query_system_time cfg w;
          timeleft = end - now
      in (if sint timeleft < 0 then 0 else timeleft, w1))"

definition poll_timeout :: "ecfg \<Rightarrow> u64 option \<Rightarrow> eclient \<Rightarrow> eclient" where
  "poll_timeout cfg end w =
     (case end of
        None \<Rightarrow> kemit (KPoll None) w
      | Some e \<Rightarrow>
          let (timeleft, w1) = esync_update_timeout cfg e w
          in kemit (KPoll (Some (timeleft div TICKSPERSEC,
               word_of_int (sint timeleft smod 10000000 * 100)))) w1)"

lemma sys_poll_eintr:
  "sys_poll fds timed outs w = Some (PFailed e, outs', w') \<Longrightarrow> length outs' < length outs"
proof (induction outs arbitrary: w)
  case Nil
  then show ?case by (auto simp: Let_def split: if_splits)
next
  case (Cons out outs)
  then show ?case
    by (cases out) (fastforce simp: Let_def split: if_splits)+
qed

function do_poll :: "ecfg \<Rightarrow> int list \<Rightarrow> u64 option \<Rightarrow> pollout list \<Rightarrow> eclient \<Rightarrow>
    (pollret \<times> pollout list \<times> eclient) option" where
  "do_poll cfg fds end outs w =
     do {
       (ret, outs', w1) \<leftarrow> sys_poll fds (end \<noteq> None) outs (poll_timeout cfg end w);
       if ret = PFailed EINTR then do_poll cfg fds end outs' w1 else Some (ret, outs', w1)
     }"
  by pat_completeness auto
termination
  by (relation "measure (\<lambda>(cfg, fds, end, outs, w). length outs)") (auto dest: sys_poll_eintr)

declare do_poll.simps [simp del]

section \<open>Grabbing\<close>

definition incr :: "addr \<Rightarrow> 'a world_scheme \<Rightarrow> 'a world_scheme" where
  "incr a w = (let (c, w1) = at_load a w in at_store a (c + 1) w1)"

definition update_grabbed_object :: "ecfg \<Rightarrow> eentry \<Rightarrow> eclient \<Rightarrow> (bool \<times> eclient) option" where
  "update_grabbed_object cfg obj w =
     (case en_type obj of
        ESYNC_MUTEX \<Rightarrow> do {
          slot \<leftarrow> en_shm obj;
          let (t, w1) = at_load (emutex_tid slot) w;
          Some (t = - 1, incr (emutex_count slot) (at_store (emutex_tid slot) (e_tid cfg) w1))
        }
      | ESYNC_SEMAPHORE \<Rightarrow> do {
          slot \<leftarrow> en_shm obj;
          Some (False, snd (at_add (esem_count slot) (- 1) w))
        }
      | ESYNC_AUTO_EVENT \<Rightarrow> do {
          slot \<leftarrow> en_shm obj;
          Some (False, at_store (eev_signaled slot) 0 w)
        }
      | _ \<Rightarrow> Some (False, w))"

text \<open>
  The check of one object before the first poll: grabbed, with what is added to the index in the
  status, or not.
\<close>

definition check_mutex :: "ecfg \<Rightarrow> int \<Rightarrow> nat \<Rightarrow> eclient \<Rightarrow> nat option \<times> eclient" where
  "check_mutex cfg fd slot w =
     (let (t, w1) = at_load (emutex_tid slot) w
      in if t = e_tid cfg then (Some 0, incr (emutex_count slot) w1)
         else let (c, w2) = at_load (emutex_count slot) w1
              in if c = 0
                 then (case fd_read fd w2 of
                         (Inl e, w3) \<Rightarrow> (None, w3)
                       | (Inr v, w3) \<Rightarrow>
                           let (t', w4) = at_load (emutex_tid slot) w3
                           in (Some (if t' = - 1 then STATUS_ABANDONED_WAIT_0 else 0),
                               incr (emutex_count slot) (at_store (emutex_tid slot) (e_tid cfg) w4)))
                 else (None, w2))"

definition check_semaphore :: "int \<Rightarrow> nat \<Rightarrow> eclient \<Rightarrow> nat option \<times> eclient" where
  "check_semaphore fd slot w =
     (let (c, w1) = at_load (esem_count slot) w
      in if c \<noteq> 0
         then (case fd_read fd w1 of
                 (Inl e, w2) \<Rightarrow> (None, w2)
               | (Inr v, w2) \<Rightarrow> (Some 0, snd (at_add (esem_count slot) (- 1) w2)))
         else (None, w1))"

definition eyield :: "ecfg \<Rightarrow> bool \<Rightarrow> eclient \<Rightarrow> eclient" where
  "eyield cfg alertable w = (if e_odyssey cfg \<and> alertable then kemit KUsleep w else w)"

definition check_auto_event :: "ecfg \<Rightarrow> bool \<Rightarrow> int \<Rightarrow> nat \<Rightarrow> eclient \<Rightarrow> nat option \<times> eclient" where
  "check_auto_event cfg alertable fd slot w =
     (let (s, w1) = at_load (eev_signaled slot) w
      in if s \<noteq> 0
         then (case fd_read fd (eyield cfg alertable w1) of
                 (Inl e, w2) \<Rightarrow> (None, w2)
               | (Inr v, w2) \<Rightarrow> (Some 0, at_store (eev_signaled slot) 0 w2))
         else (None, w1))"

definition check_manual_event :: "ecfg \<Rightarrow> bool \<Rightarrow> nat \<Rightarrow> eclient \<Rightarrow> nat option \<times> eclient" where
  "check_manual_event cfg alertable slot w =
     (let (s, w1) = at_load (eev_signaled slot) w
      in if s \<noteq> 0
         then if e_odyssey cfg \<and> alertable
              then let (s', w2) = at_load (eev_signaled slot) (kemit KUsleep w1)
                   in (if s' = 0 then None else Some 0, w2)
              else (Some 0, w1)
         else (None, w1))"

definition check_object :: "ecfg \<Rightarrow> bool \<Rightarrow> eentry \<Rightarrow> eclient \<Rightarrow> (nat option \<times> eclient) option" where
  "check_object cfg alertable obj w =
     (case en_type obj of
        ESYNC_MUTEX \<Rightarrow> map_option (\<lambda>slot. check_mutex cfg (en_fd obj) slot w) (en_shm obj)
      | ESYNC_SEMAPHORE \<Rightarrow> map_option (\<lambda>slot. check_semaphore (en_fd obj) slot w) (en_shm obj)
      | ESYNC_AUTO_EVENT \<Rightarrow> map_option (\<lambda>slot. check_auto_event cfg alertable (en_fd obj) slot w) (en_shm obj)
      | ESYNC_MANUAL_EVENT \<Rightarrow> map_option (\<lambda>slot. check_manual_event cfg alertable slot w) (en_shm obj)
      | _ \<Rightarrow> Some (None, w))"

section \<open>Waiting for any object\<close>

fun check_any :: "ecfg \<Rightarrow> bool \<Rightarrow> nat \<Rightarrow> eentry option list \<Rightarrow> eclient \<Rightarrow> (ntstatus option \<times> eclient) option" where
  "check_any cfg alertable i [] w = Some (None, w)"
| "check_any cfg alertable i (None # objs) w = check_any cfg alertable (Suc i) objs w"
| "check_any cfg alertable i (Some obj # objs) w =
     do {
       (r, w1) \<leftarrow> check_object cfg alertable obj w;
       case r of
         Some st \<Rightarrow> Some (Some (st + i), w1)
       | None \<Rightarrow> check_any cfg alertable (Suc i) objs w1
     }"

definition obj_fd :: "eentry option \<Rightarrow> int" where
  "obj_fd o1 = (case o1 of None \<Rightarrow> - 1 | Some obj \<Rightarrow> en_fd obj)"

definition any_fds :: "bool \<Rightarrow> eentry option list \<Rightarrow> eclient \<Rightarrow> int list" where
  "any_fds alertable objs w = map obj_fd objs @ (if alertable then [eapc_fd w] else [])"

text \<open>After a poll: which object ended the wait, if none stole it.\<close>

definition only_checked :: "esync_type \<Rightarrow> bool" where
  "only_checked type \<longleftrightarrow> type = ESYNC_MANUAL_EVENT \<or> type = ESYNC_MANUAL_SERVER \<or> type = ESYNC_QUEUE"

fun find_signaled :: "ecfg \<Rightarrow> nat \<Rightarrow> eentry option list \<Rightarrow> revents list \<Rightarrow> eclient \<Rightarrow>
    (ntstatus option \<times> eclient) option" where
  "find_signaled cfg i (o1 # objs) (r # revs) w =
     (if r = RNval then Some (Some STATUS_INVALID_HANDLE, w)
      else case o1 of
        None \<Rightarrow> find_signaled cfg (Suc i) objs revs w
      | Some obj \<Rightarrow>
          if only_checked (en_type obj)
          then if r = RIn then Some (Some i, w) else find_signaled cfg (Suc i) objs revs w
          else case fd_read (en_fd obj) w of
            (Inl e, w1) \<Rightarrow> find_signaled cfg (Suc i) objs revs w1
          | (Inr v, w1) \<Rightarrow> do {
              (abandoned, w2) \<leftarrow> update_grabbed_object cfg obj w1;
              Some (Some (if abandoned then STATUS_ABANDONED_WAIT_0 + i else i), w2)
            })"
| "find_signaled cfg i objs revs w = Some (None, w)"

definition euser_apc :: "ecfg \<Rightarrow> eclient \<Rightarrow> ntstatus \<times> eclient" where
  "euser_apc cfg w = (if esrv_wait cfg = STATUS_TIMEOUT then STATUS_USER_APC else esrv_wait cfg, w)"

definition poll_error :: "ecfg \<Rightarrow> pollret \<Rightarrow> ntstatus" where
  "poll_error cfg ret = (case ret of PFailed e \<Rightarrow> e_errno cfg e | _ \<Rightarrow> STATUS_TIMEOUT)"

partial_function (option) poll_loop :: "ecfg \<Rightarrow> bool \<Rightarrow> eentry option list \<Rightarrow> u64 option \<Rightarrow> pollout list \<Rightarrow>
    eclient \<Rightarrow> (ntstatus \<times> eclient) option" where
  "poll_loop cfg alertable objs end outs w =
     do {
       (ret, outs', w1) \<leftarrow> do_poll cfg (any_fds alertable objs w) end outs (eyield cfg alertable w);
       case ret of
         PReady revs \<Rightarrow>
           if alertable \<and> last revs = RIn then Some (euser_apc cfg w1)
           else do {
             (r, w2) \<leftarrow> find_signaled cfg 0 objs revs w1;
             case r of
               Some st \<Rightarrow> Some (st, w2)
             | None \<Rightarrow> poll_loop cfg alertable objs end outs' (snd (query_system_time cfg w2))
           }
       | _ \<Rightarrow> Some (poll_error cfg ret, w1)
     }"

definition esync_wait_any :: "ecfg \<Rightarrow> bool \<Rightarrow> eentry option list \<Rightarrow> u64 option \<Rightarrow> pollout list \<Rightarrow> eclient \<Rightarrow>
    (ntstatus \<times> eclient) option" where
  "esync_wait_any cfg alertable objs end outs w =
     do {
       (r, w1) \<leftarrow> check_any cfg alertable 0 objs w;
       case r of Some st \<Rightarrow> Some (st, w1) | None \<Rightarrow> poll_loop cfg alertable objs end outs w1
     }"

section \<open>Waiting for all objects\<close>

text \<open>The first step: \<open>Inl\<close> is a return.\<close>

fun poll_sequence :: "ecfg \<Rightarrow> bool \<Rightarrow> u64 option \<Rightarrow> eentry option list \<Rightarrow> pollout list \<Rightarrow> eclient \<Rightarrow>
    (ntstatus \<times> eclient + pollout list \<times> eclient) option" where
  "poll_sequence cfg alertable end [] outs w = Some (Inr (outs, w))"
| "poll_sequence cfg alertable end (o1 # objs) outs w =
     do {
       (own, w1) \<leftarrow>
         (case o1 of
            None \<Rightarrow> Some (False, w)
          | Some obj \<Rightarrow>
              if en_type obj = ESYNC_MUTEX
              then do { slot \<leftarrow> en_shm obj; let (t, w') = at_load (emutex_tid slot) w; Some (t = e_tid cfg, w') }
              else Some (False, w));
       if own then poll_sequence cfg alertable end objs outs w1
       else do {
         (ret, outs', w2) \<leftarrow> do_poll cfg (obj_fd o1 # (if alertable then [eapc_fd w1] else [])) end outs w1;
         case ret of
           PReady revs \<Rightarrow>
             if alertable \<and> last revs = RIn then Some (Inl (euser_apc cfg w2))
             else if hd revs = RNval then Some (Inl (STATUS_INVALID_HANDLE, w2))
             else poll_sequence cfg alertable end objs outs' w2
         | _ \<Rightarrow> Some (Inl (poll_error cfg ret, w2))
       }
     }"

text \<open>Reading one object; the mutexes of the caller and the objects that stay signaled are not read.\<close>

definition read_one :: "ecfg \<Rightarrow> eentry \<Rightarrow> eclient \<Rightarrow> (bool \<times> eclient) option" where
  "read_one cfg obj w =
     (let read_fd = (\<lambda>w. case fd_read (en_fd obj) w of (Inl e, w1) \<Rightarrow> (False, w1) | (Inr v, w1) \<Rightarrow> (True, w1))
      in case en_type obj of
        ESYNC_MUTEX \<Rightarrow> do {
          slot \<leftarrow> en_shm obj;
          let (t, w1) = at_load (emutex_tid slot) w;
          Some (if t = e_tid cfg then (True, w1) else read_fd w1)
        }
      | ESYNC_SEMAPHORE \<Rightarrow> Some (read_fd w)
      | ESYNC_AUTO_EVENT \<Rightarrow> Some (read_fd w)
      | _ \<Rightarrow> Some (True, w))"

text \<open>\<open>Some i\<close>: too slow for the object at position \<open>i\<close>.\<close>

fun read_all :: "ecfg \<Rightarrow> nat \<Rightarrow> eentry option list \<Rightarrow> eclient \<Rightarrow> (nat option \<times> eclient) option" where
  "read_all cfg i [] w = Some (None, w)"
| "read_all cfg i (None # objs) w = None"
| "read_all cfg i (Some obj # objs) w =
     do {
       (ok, w1) \<leftarrow> read_one cfg obj w;
       if ok then read_all cfg (Suc i) objs w1 else Some (Some i, w1)
     }"

text \<open>Writing back, in the order of the list; \<open>Some\<close> is the status of a write that failed.\<close>

definition write_back_one :: "ecfg \<Rightarrow> eentry \<Rightarrow> eclient \<Rightarrow> (ntstatus option \<times> eclient) option" where
  "write_back_one cfg obj w =
     (let write_fd = (\<lambda>w. case fd_write (en_fd obj) 1 w of
                            (Inl e, w1) \<Rightarrow> (Some (e_errno cfg e), w1) | (Inr _, w1) \<Rightarrow> (None, w1))
      in if en_type obj = ESYNC_MUTEX
         then do {
           slot \<leftarrow> en_shm obj;
           let (t, w1) = at_load (emutex_tid slot) w;
           Some (if t = e_tid cfg then (None, w1) else write_fd w1)
         }
         else Some (write_fd w))"

fun write_back :: "ecfg \<Rightarrow> eentry option list \<Rightarrow> eclient \<Rightarrow> (ntstatus option \<times> eclient) option" where
  "write_back cfg [] w = Some (None, w)"
| "write_back cfg (None # objs) w = None"
| "write_back cfg (Some obj # objs) w =
     do {
       (r, w1) \<leftarrow> write_back_one cfg obj w;
       case r of Some st \<Rightarrow> Some (Some st, w1) | None \<Rightarrow> write_back cfg objs w1
     }"

fun update_all :: "ecfg \<Rightarrow> bool \<Rightarrow> eentry option list \<Rightarrow> eclient \<Rightarrow> (bool \<times> eclient) option" where
  "update_all cfg abandoned [] w = Some (abandoned, w)"
| "update_all cfg abandoned (None # objs) w = None"
| "update_all cfg abandoned (Some obj # objs) w =
     do {
       (ab, w1) \<leftarrow> update_grabbed_object cfg obj w;
       update_all cfg (abandoned \<or> ab) objs w1
     }"

text \<open>One turn of the loop: \<open>Inl\<close> is a return, \<open>Inr\<close> starts over.\<close>

definition eall_round :: "ecfg \<Rightarrow> bool \<Rightarrow> u64 option \<Rightarrow> eentry option list \<Rightarrow> pollout list \<Rightarrow> eclient \<Rightarrow>
    (ntstatus \<times> eclient + pollout list \<times> eclient) option" where
  "eall_round cfg alertable end objs outs w =
     do {
       r \<leftarrow> poll_sequence cfg alertable end objs outs w;
       case r of
         Inl res \<Rightarrow> Some (Inl res)
       | Inr (outs', w1) \<Rightarrow>
           let (n, w2) = poll_now (map obj_fd objs) w1
           in if n \<noteq> length objs then Some (Inr (outs', w2))
              else do {
                (late, w3) \<leftarrow> read_all cfg 0 objs w2;
                case late of
                  Some i \<Rightarrow> do {
                    (err, w4) \<leftarrow> write_back cfg (rev (take i objs)) w3;
                    Some (case err of Some st \<Rightarrow> Inl (st, w4) | None \<Rightarrow> Inr (outs', w4))
                  }
                | None \<Rightarrow> do {
                    (abandoned, w4) \<leftarrow> update_all cfg False objs w3;
                    Some (Inl (if abandoned then STATUS_ABANDONED else STATUS_SUCCESS, w4))
                  }
              }
     }"

partial_function (option) eall_loop :: "ecfg \<Rightarrow> bool \<Rightarrow> u64 option \<Rightarrow> eentry option list \<Rightarrow> pollout list \<Rightarrow>
    eclient \<Rightarrow> (ntstatus \<times> eclient) option" where
  "eall_loop cfg alertable end objs outs w =
     do {
       r \<leftarrow> eall_round cfg alertable end objs outs w;
       case r of Inl res \<Rightarrow> Some res | Inr (outs', w') \<Rightarrow> eall_loop cfg alertable end objs outs' w'
     }"

section \<open>Entry points\<close>

fun eget_objects :: "ecfg \<Rightarrow> u64 list \<Rightarrow> eentry option list \<Rightarrow> bool \<Rightarrow> bool \<Rightarrow> eclient \<Rightarrow>
    (ntstatus \<times> eclient + eentry option list \<times> bool \<times> bool \<times> eclient) option" where
  "eget_objects cfg [] objs has_esync has_server w = Some (Inr (objs, has_esync, has_server, w))"
| "eget_objects cfg (h # hs) objs has_esync has_server w =
     do {
       (r, w1) \<leftarrow> eget_object cfg h w;
       case r of
         Inr obj \<Rightarrow> eget_objects cfg hs (objs @ [obj]) True has_server w1
       | Inl st \<Rightarrow> if st = STATUS_NOT_IMPLEMENTED then eget_objects cfg hs (objs @ [None]) has_esync True w1
                   else Some (Inl (st, w1))
     }"

definition eget_apc_fd :: "ecfg \<Rightarrow> bool \<Rightarrow> eclient \<Rightarrow> eclient" where
  "eget_apc_fd cfg alertable w =
     (if alertable \<and> eapc_fd w = - 1
      then case esrv_apc cfg of
             None \<Rightarrow> w\<lparr>eapc_fd := - 1\<rparr>
           | Some (fd, f) \<Rightarrow> (install_fd fd f w)\<lparr>eapc_fd := fd\<rparr>
      else w)"

definition end_of_timeout :: "u64 \<Rightarrow> u64 option \<Rightarrow> u64 option" where
  "end_of_timeout now timeout =
     (case timeout of
        None \<Rightarrow> None
      | Some q \<Rightarrow> if q = TIMEOUT_INFINITE then None else if 0 \<le> sint q then Some q else Some (now - q))"

definition edo_wait_objects :: "ecfg \<Rightarrow> u64 list \<Rightarrow> bool \<Rightarrow> bool \<Rightarrow> u64 option \<Rightarrow> pollout list \<Rightarrow> eclient \<Rightarrow>
    (ntstatus \<times> eclient) option" where
  "edo_wait_objects cfg handles wait_any alertable timeout outs w =
     (let (now, w0) = query_system_time cfg (eget_apc_fd cfg alertable w);
          end = end_of_timeout now timeout
      in do {
        r \<leftarrow> eget_objects cfg handles [] False False w0;
        case r of
          Inl res \<Rightarrow> Some res
        | Inr (objs, has_esync, has_server, w1) \<Rightarrow>
            if \<not> has_esync \<and> has_server then Some (STATUS_NOT_IMPLEMENTED, w1)
            else if wait_any \<or> length handles \<le> 1 then esync_wait_any cfg alertable objs end outs w1
            else eall_loop cfg alertable end objs outs w1
      })"

definition eserver_set_msgwait :: "bool \<Rightarrow> eclient \<Rightarrow> eclient" where
  "eserver_set_msgwait in_msgwait w = kemit (KMsgwait in_msgwait) w"

definition esync_wait_objects :: "ecfg \<Rightarrow> u64 list \<Rightarrow> bool \<Rightarrow> bool \<Rightarrow> u64 option \<Rightarrow> pollout list \<Rightarrow> eclient \<Rightarrow>
    (ntstatus \<times> eclient) option" where
  "esync_wait_objects cfg handles wait_any alertable timeout outs w =
     do {
       (msgwait, w1) \<leftarrow>
         (if handles = [] then Some (False, w)
          else with_object cfg (last handles) (\<lambda>st. False)
                 (\<lambda>obj w'. let q = (en_type obj = ESYNC_QUEUE)
                           in Some (q, if q then eserver_set_msgwait True w' else w')) w);
       (ret, w2) \<leftarrow> edo_wait_objects cfg handles wait_any alertable timeout outs w1;
       Some (ret, if msgwait then eserver_set_msgwait False w2 else w2)
     }"

definition esync_signal_and_wait :: "ecfg \<Rightarrow> u64 \<Rightarrow> u64 \<Rightarrow> bool \<Rightarrow> u64 option \<Rightarrow> pollout list \<Rightarrow> eclient \<Rightarrow>
    (ntstatus \<times> eclient) option" where
  "esync_signal_and_wait cfg signal wait alertable timeout outs =
     with_object cfg signal (\<lambda>st. st) (\<lambda>obj w. do {
       (ret, w1) \<leftarrow>
         (case en_type obj of
            ESYNC_SEMAPHORE \<Rightarrow> map_option (\<lambda>((st, _), w'). (st, w')) (esync_release_semaphore cfg signal 1 w)
          | ESYNC_AUTO_EVENT \<Rightarrow> eclient_set_event cfg signal w
          | ESYNC_MANUAL_EVENT \<Rightarrow> eclient_set_event cfg signal w
          | ESYNC_MUTEX \<Rightarrow> map_option (\<lambda>((st, _), w'). (st, w')) (esync_release_mutex cfg signal w)
          | _ \<Rightarrow> Some (STATUS_OBJECT_TYPE_MISMATCH, w));
       if ret \<noteq> 0 then Some (ret, w1)
       else esync_wait_objects cfg [wait] True alertable timeout outs w1
     })"

end
