(* ===== verification/Esync_Refine.thy ===== *)
theory Esync_Refine
  imports Esync_Wait Sync_Spec
begin

text \<open>
  The eventfd objects of the client implement the specification of \<open>Sync_Spec\<close>, when nobody else acts at
  the same time: the slot of an object and its kernel counter agree before and after every operation,
  and the operation does to the object what the specification says. The abstraction reads the
  semaphores and events from the kernel counters and the mutexes from the slots.
\<close>

section \<open>Abstraction and invariant\<close>

definition slot_of :: "eentry \<Rightarrow> nat" where "slot_of obj = the (en_shm obj)"
definition file_of :: "eentry \<Rightarrow> eclient \<Rightarrow> nat" where "file_of obj w = the (fdtab w (en_fd obj))"
definition ecount :: "eentry \<Rightarrow> eclient \<Rightarrow> nat" where "ecount obj w = ef_count (files w (file_of obj w))"

definition eobj_abs :: "eentry \<Rightarrow> eclient \<Rightarrow> aobj" where
  "eobj_abs obj w =
     (case en_type obj of
        ESYNC_SEMAPHORE \<Rightarrow> ASemaphore (ecount obj w) (unat (mem w (esem_max (slot_of obj))))
      | ESYNC_MUTEX \<Rightarrow> AMutex (owner_state (mem w (emutex_tid (slot_of obj))) (mem w (emutex_count (slot_of obj))))
      | t \<Rightarrow> AEvent (t = ESYNC_MANUAL_EVENT) (0 < ecount obj w))"

text \<open>Slot and counter of an object agree.\<close>

definition eobj_ok :: "eentry \<Rightarrow> eclient \<Rightarrow> bool" where
  "eobj_ok obj w \<longleftrightarrow> 0 \<le> en_fd obj \<and> en_shm obj = Some (slot_of obj) \<and> fdtab w (en_fd obj) = Some (file_of obj w) \<and>
     ecount obj w \<le> EFD_MAX \<and> ef_sem (files w (file_of obj w)) = (en_type obj = ESYNC_SEMAPHORE) \<and>
     (case en_type obj of
        ESYNC_SEMAPHORE \<Rightarrow> ecount obj w = unat (mem w (esem_count (slot_of obj))) \<and>
          ecount obj w \<le> unat (mem w (esem_max (slot_of obj))) \<and> unat (mem w (esem_max (slot_of obj))) < 2 ^ 31
      | ESYNC_MUTEX \<Rightarrow>
          (if mem w (emutex_tid (slot_of obj)) \<in> {0, - 1}
           then ecount obj w = 1 \<and> mem w (emutex_count (slot_of obj)) = 0
           else ecount obj w = 0 \<and> mem w (emutex_count (slot_of obj)) \<noteq> 0)
      | t \<Rightarrow> (t = ESYNC_AUTO_EVENT \<or> t = ESYNC_MANUAL_EVENT) \<and>
          (0 < ecount obj w \<longleftrightarrow> mem w (eev_signaled (slot_of obj)) \<noteq> 0) \<and>
          mem w (eev_locked (slot_of obj)) = 0)"

text \<open>The handles of the process and their objects; different objects have different slots and counters.\<close>

definition esync_inv :: "ecfg \<Rightarrow> u64 list \<Rightarrow> eentry list \<Rightarrow> eclient \<Rightarrow> bool" where
  "esync_inv cfg hs objs w \<longleftrightarrow> kcalm w \<and> ecintf w = [] \<and> e_tid cfg \<notin> {0, - 1} \<and>
     list_all2 (\<lambda>h obj. cache_get ESYNC_LIST_ENTRIES ESYNC_LIST_BLOCK_SIZE h (ecache w) = Some obj) hs objs \<and>
     distinct hs \<and> distinct (map slot_of objs) \<and> distinct (map (\<lambda>obj. file_of obj w) objs) \<and>
     (\<forall>obj \<in> set objs. eobj_ok obj w)"

definition esync_abs :: "u64 list \<Rightarrow> eentry list \<Rightarrow> eclient \<Rightarrow> astate" where
  "esync_abs hs objs w = (\<lambda>h. map_option (\<lambda>obj. eobj_abs obj w) (map_of (zip hs objs) h))"

text \<open>The calls of the program.\<close>

fun esync_run :: "ecfg \<Rightarrow> sop \<Rightarrow> eclient \<Rightarrow> (ntstatus \<times> eclient) option" where
  "esync_run cfg (Release h n) w = map_option (\<lambda>((st, _), w'). (st, w')) (esync_release_semaphore cfg h n w)"
| "esync_run cfg (SetEv h) w = eclient_set_event cfg h w"
| "esync_run cfg (ResetEv h) w = eclient_reset_event cfg h w"
| "esync_run cfg (ReleaseMut h) w = map_option (\<lambda>((st, _), w'). (st, w')) (esync_release_mutex cfg h w)"
| "esync_run cfg (TryAny hs) w = esync_wait_objects cfg hs True False (Some 0) [PExpire] w"

section \<open>The frame of an operation\<close>

text \<open>The state \<open>w'\<close> differs from \<open>w\<close> at most in the slot and the counter of the object.\<close>

definition eframe :: "eentry \<Rightarrow> eclient \<Rightarrow> eclient \<Rightarrow> bool" where
  "eframe obj w w' \<longleftrightarrow> intf w' = intf w \<and> kintf w' = kintf w \<and> ecintf w' = ecintf w \<and>
     ecache w' = ecache w \<and> fdtab w' = fdtab w \<and>
     (\<forall>s f. s \<noteq> slot_of obj \<longrightarrow> mem w' (s, f) = mem w (s, f)) \<and>
     (\<forall>f. f \<noteq> file_of obj w \<longrightarrow> files w' f = files w f)"

lemma eframe_refl [simp]: "eframe obj w w"
  by (simp add: eframe_def)

lemma eframe_trans: "eframe obj w w' \<Longrightarrow> eframe obj w' w'' \<Longrightarrow> eframe obj w w''"
  by (simp add: eframe_def file_of_def)

lemma eframe_put [simp]: "eframe obj w (put_mem (s, f) v w') \<longleftrightarrow> eframe obj w w'" if "s = slot_of obj"
  using that by (auto simp: eframe_def put_mem_def)

lemma eframe_kemit [simp]: "eframe obj w (kemit a w') \<longleftrightarrow> eframe obj w w'"
  by (simp add: eframe_def kemit_def)

lemma eframe_count [simp]: "eframe obj w (set_count f n w') \<longleftrightarrow> eframe obj w w'" if "f = file_of obj w"
  using that by (auto simp: eframe_def set_count_def)

lemma eframe_clock [simp]: "eframe obj w (w'\<lparr>eclock := c\<rparr>) \<longleftrightarrow> eframe obj w w'"
  by (simp add: eframe_def)

lemma eframe_file: "eframe obj w w' \<Longrightarrow> file_of x w' = file_of x w"
  by (simp add: eframe_def file_of_def)

lemma eframe_calm:
  "eframe obj w w' \<Longrightarrow> kcalm w \<Longrightarrow> kcalm w' \<and> ecintf w' = ecintf w \<and> ecache w' = ecache w"
  unfolding eframe_def kcalm_def by simp

lemma eframe_other:
  assumes "eframe obj w w'" and "slot_of x \<noteq> slot_of obj" and "file_of x w \<noteq> file_of obj w"
  shows "eobj_abs x w' = eobj_abs x w" and "eobj_ok x w' = eobj_ok x w"
proof -
  have f: "file_of x w' = file_of x w" by (rule eframe_file [OF assms(1)])
  have e: "ecount x w' = ecount x w" "fdtab w' = fdtab w" "files w' (file_of x w) = files w (file_of x w)"
    "\<And>i. mem w' (slot_of x, i) = mem w (slot_of x, i)"
    using assms f by (simp_all add: eframe_def ecount_def)
  show "eobj_abs x w' = eobj_abs x w" by (simp add: eobj_abs_def e cong: esync_type.case_cong)
  show "eobj_ok x w' = eobj_ok x w" by (simp add: eobj_ok_def e f cong: esync_type.case_cong)
qed

lemma eobj_differ:
  assumes "esync_inv cfg hs objs w" and "x \<in> set objs" and "y \<in> set objs" and "x \<noteq> y"
  shows "slot_of x \<noteq> slot_of y" and "file_of x w \<noteq> file_of y w"
  using assms by (auto simp: esync_inv_def distinct_map inj_on_def)

text \<open>An operation that keeps its object well formed keeps the invariant and changes one entry.\<close>

lemma esync_step:
  assumes inv: "esync_inv cfg hs objs w" and h: "map_of (zip hs objs) h = Some obj"
    and fr: "eframe obj w w'" and ok: "eobj_ok obj w'"
  shows "esync_inv cfg hs objs w'" and "esync_abs hs objs w' = (esync_abs hs objs w)(h \<mapsto> eobj_abs obj w')"
proof -
  have mem_obj: "obj \<in> set objs" using h by (meson in_set_zipE map_of_SomeD)
  have others: "eobj_abs x w' = eobj_abs x w \<and> eobj_ok x w' = eobj_ok x w" if "x \<in> set objs" "x \<noteq> obj" for x
    using eframe_other [OF fr] eobj_differ [OF inv that(1) mem_obj that(2)] by simp
  then have oks: "\<forall>x \<in> set objs. eobj_ok x w'" using ok inv by (metis esync_inv_def)
  moreover have "kcalm w' \<and> ecintf w' = ecintf w \<and> ecache w' = ecache w"
    using inv by (intro eframe_calm [OF fr]) (simp add: esync_inv_def)
  moreover have "(\<lambda>x. file_of x w') = (\<lambda>x. file_of x w)"
    by (rule ext) (rule eframe_file [OF fr])
  ultimately show "esync_inv cfg hs objs w'" using inv by (simp add: esync_inv_def)
  have uniq: "h' = h" if h': "map_of (zip hs objs) h' = Some obj" for h'
  proof -
    have len: "length hs = length objs" using inv by (auto simp: esync_inv_def dest: list_all2_lengthD)
    have "(h, obj) \<in> set (zip hs objs)" "(h', obj) \<in> set (zip hs objs)"
      using h h' by (simp_all add: map_of_SomeD)
    then obtain i j where "i < length hs" "hs ! i = h" "objs ! i = obj" "j < length hs" "hs ! j = h'" "objs ! j = obj"
      unfolding in_set_zip by auto
    moreover have "distinct objs" using inv by (simp add: esync_inv_def distinct_map)
    ultimately show ?thesis using len by (metis nth_eq_iff_index_eq)
  qed
  show "esync_abs hs objs w' = (esync_abs hs objs w)(h \<mapsto> eobj_abs obj w')"
  proof
    fix h'
    show "esync_abs hs objs w' h' = ((esync_abs hs objs w)(h \<mapsto> eobj_abs obj w')) h'"
    proof (cases "h' = h")
      case True
      then show ?thesis by (simp add: esync_abs_def h)
    next
      case False
      have "\<And>x. map_of (zip hs objs) h' = Some x \<Longrightarrow> x \<in> set objs \<and> x \<noteq> obj"
        using uniq False by (meson in_set_zipE map_of_SomeD)
      then show ?thesis using others False by (cases "map_of (zip hs objs) h'") (auto simp: esync_abs_def)
    qed
  qed
qed

lemma esync_lookup:
  assumes inv: "esync_inv cfg hs objs w" and h: "map_of (zip hs objs) h = Some obj"
  shows "eget_object cfg h w = Some (Inr (Some obj), w)" and "eobj_ok obj w" and "kcalm w"
    and "e_tid cfg \<noteq> 0" and "e_tid cfg \<noteq> - 1"
proof -
  have "(h, obj) \<in> set (zip hs objs)" using h by (rule map_of_SomeD)
  moreover have "list_all2 (\<lambda>h obj. cache_get 256 4096 h (ecache w) = Some obj) hs objs" and "ecintf w = []"
    using inv by (simp_all add: esync_inv_def)
  ultimately have "cache_get 256 4096 h (ecache w) = Some obj" by (auto simp: list_all2_iff)
  then show "eget_object cfg h w = Some (Inr (Some obj), w)"
    using \<open>ecintf w = []\<close> by (simp add: eget_object_def eget_cached_object_def ecache_interfere_def)
  show "eobj_ok obj w" using inv h by (meson esync_inv_def in_set_zipE map_of_SomeD)
qed (use inv in \<open>auto simp: esync_inv_def\<close>)

lemma esync_abs_Some:
  "esync_abs hs objs w h = Some x \<longleftrightarrow> (\<exists>obj. map_of (zip hs objs) h = Some obj \<and> x = eobj_abs obj w)"
  by (auto simp: esync_abs_def)

text \<open>The object of an operation, with its slot and counter.\<close>

lemma eobj_okD:
  assumes "eobj_ok obj w"
  shows "en_shm obj = Some (slot_of obj)" and "fdtab w (en_fd obj) = Some (file_of obj w)"
    and "ef_count (files w (file_of obj w)) \<le> EFD_MAX"
    and "ef_sem (files w (file_of obj w)) = (en_type obj = ESYNC_SEMAPHORE)"
  using assms by (simp_all add: eobj_ok_def ecount_def)


lemma frame_sel:
  "file_of obj (put_mem p v w) = file_of obj w" "file_of obj (kemit a w) = file_of obj w"
  "file_of obj (set_count f n w) = file_of obj w"
  by (simp_all add: file_of_def)

lemma count_sel [simp]:
  "ecount obj (put_mem p v w) = ecount obj w" "ecount obj (kemit a w) = ecount obj w"
  "ecount obj (set_count (file_of obj w) n w) = n"
  by (simp_all add: ecount_def frame_sel)

section \<open>Semaphores\<close>

lemma esync_release_step:
  assumes inv: "esync_inv cfg hs objs w" and h: "map_of (zip hs objs) h = Some obj"
    and ty: "en_type obj = ESYNC_SEMAPHORE" and n: "unat n < 2 ^ 31"
  shows "\<exists>st pv w'. esync_release_semaphore cfg h n w = Some ((st, pv), w') \<and> eframe obj w w' \<and>
    eobj_ok obj w' \<and> a_release n (eobj_abs obj w) = (st, eobj_abs obj w')"
proof -
  note look = esync_lookup [OF inv h]
  note ok = eobj_okD [OF look(2)]
  let ?s = "slot_of obj" and ?f = "file_of obj w"
  let ?c = "mem w (?s, W1)" and ?m = "mem w (?s, W0)"
  have c: "ecount obj w = unat ?c" "unat ?c \<le> unat ?m" "unat ?m < 2 ^ 31"
    using look(2) ty by (simp_all add: eobj_ok_def)
  note nw = no_wrap_add [OF n c(2,3)]
  have run: "esync_release_semaphore cfg h n w = do {
      let (res, w1) = erelease_loop ?s n w;
      case res of None \<Rightarrow> Some ((STATUS_SEMAPHORE_LIMIT_EXCEEDED, None), w1)
      | Some current \<Rightarrow> (case fd_write (en_fd obj) (unat n) w1 of
            (Inl e, w2) \<Rightarrow> Some ((e_errno cfg e, Some current), w2)
          | (Inr _, w2) \<Rightarrow> Some ((STATUS_SUCCESS, Some current), w2)) }"
    by (simp add: esync_release_semaphore_def with_object_def look(1) ok(1))
  show ?thesis
  proof (cases "n + ?c > ?m")
    case True
    then have "erelease_loop ?s n w = (None, w)"
      using look(3) by (subst erelease_loop.simps) (simp add: shm_simps)
    then show ?thesis using run look(2) True nw c by (auto simp: eobj_abs_def ty)
  next
    case False
    let ?w1 = "put_mem (?s, W1) (n + ?c) w"
    let ?w2 = "kemit (KWrite ?f (unat n)) (set_count ?f (ecount obj w + unat n) ?w1)"
    have loop: "erelease_loop ?s n w = (Some ?c, ?w1)"
      using look(3) False by (subst erelease_loop.simps) (simp add: shm_simps)
    have "unat ?c + unat n < 2 ^ 32" using c n by simp
    then have small: "\<not> EFD_MAX < ecount obj w + unat n" using c by (simp add: EFD_MAX_def)
    then have "fd_write (en_fd obj) (unat n) ?w1 = (Inr (), ?w2)"
      using look(3) ok by (simp add: shm_simps ecount_def)
    then have r: "esync_release_semaphore cfg h n w = Some ((0, Some ?c), ?w2)"
      using run loop by simp
    have le: "unat ?c + unat n \<le> unat ?m" using False nw by simp
    have "eframe obj w ?w2" by simp
    moreover have "eobj_ok obj ?w2"
      using look(2) ty small le nw c by (simp add: eobj_ok_def frame_sel ecount_def)
    moreover have "a_release n (eobj_abs obj w) = (0, eobj_abs obj ?w2)"
      using le c by (simp add: eobj_abs_def ty) (simp add: ecount_def frame_sel)
    ultimately show ?thesis using r by blast
  qed
qed


section \<open>Events\<close>

lemma spin_lock_free: "intf w = [] \<Longrightarrow> mem w a = 0 \<Longrightarrow> spin_lock a w = Some (put_mem a 1 w)"
  by (subst spin_lock.simps) (simp add: shm_simps)

lemma eevent_okD:
  assumes "eobj_ok obj w" and "eis_event (en_type obj)"
  shows "0 < ecount obj w \<longleftrightarrow> mem w (slot_of obj, W0) \<noteq> 0" and "mem w (slot_of obj, W1) = 0"
    and "\<not> ef_sem (files w (file_of obj w))" and "ecount obj w \<le> EFD_MAX"
  using assms by (cases "en_type obj"; simp add: eobj_ok_def eis_event_def)+

lemma eevent_abs:
  "eis_event (en_type obj) \<Longrightarrow>
     eobj_abs obj w = AEvent (en_type obj = ESYNC_MANUAL_EVENT) (0 < ecount obj w)"
  by (cases "en_type obj") (simp_all add: eobj_abs_def eis_event_def)

lemma eevent_okI:
  assumes "eobj_ok obj w" and "eis_event (en_type obj)" and "eframe obj w w'"
    and "\<not> ef_sem (files w' (file_of obj w))"
    and "ecount obj w' \<le> EFD_MAX" and "0 < ecount obj w' \<longleftrightarrow> mem w' (slot_of obj, W0) \<noteq> 0"
    and "mem w' (slot_of obj, W1) = 0"
  shows "eobj_ok obj w'"
proof -
  have "file_of obj w' = file_of obj w" "fdtab w' = fdtab w"
    using eframe_file [OF assms(3)] assms(3) by (simp_all add: eframe_def)
  then show ?thesis
    using assms by (cases "en_type obj") (simp_all add: eobj_ok_def eis_event_def)
qed

text \<open>The state after the lock is taken and the flag exchanged.\<close>

definition flagged :: "i32 \<Rightarrow> eentry \<Rightarrow> eclient \<Rightarrow> eclient" where
  "flagged b obj w = put_mem (slot_of obj, W0) b
     (if en_type obj = ESYNC_MANUAL_EVENT then put_mem (slot_of obj, W1) 1 w else w)"

lemma flagged_sel [simp]:
  "kintf (flagged b obj w) = kintf w" "intf (flagged b obj w) = intf w" "fdtab (flagged b obj w) = fdtab w"
  "files (flagged b obj w) = files w" "eframe obj w (flagged b obj w)" "file_of x (flagged b obj w) = file_of x w"
  "mem (flagged b obj w) (slot_of obj, W0) = b"
  by (simp_all add: flagged_def frame_sel)

lemma unlock_quiet:
  assumes "intf w' = []" and "eframe obj w w'"
    and "en_type obj = ESYNC_MANUAL_EVENT \<or> mem w' (slot_of obj, W1) = 0"
  shows "eframe obj w (unlock_event (en_type obj) (slot_of obj) w')"
    and "mem (unlock_event (en_type obj) (slot_of obj) w') = (mem w')((slot_of obj, W1) := 0)"
    and "files (unlock_event (en_type obj) (slot_of obj) w') = files w'"
    and "fdtab (unlock_event (en_type obj) (slot_of obj) w') = fdtab w'"
  using assms by (auto simp: unlock_event_def shm_simps)

lemma eevent_finish:
  assumes ok: "eobj_ok obj w" and ev: "eis_event (en_type obj)" and q: "intf w = []"
    and fr: "eframe obj w w'" and sem: "\<not> ef_sem (files w' (file_of obj w))"
    and cnt: "ecount obj w' \<le> EFD_MAX" "0 < ecount obj w' \<longleftrightarrow> mem w' (slot_of obj, W0) \<noteq> 0"
    and l: "en_type obj = ESYNC_MANUAL_EVENT \<or> mem w' (slot_of obj, W1) = 0"
  shows "\<exists>w''. unlock_event (en_type obj) (slot_of obj) w' = w'' \<and> eframe obj w w'' \<and> eobj_ok obj w'' \<and>
    eobj_abs obj w'' = AEvent (en_type obj = ESYNC_MANUAL_EVENT) (0 < ecount obj w')"
proof -
  let ?w = "unlock_event (en_type obj) (slot_of obj) w'"
  have q': "intf w' = []" using fr q by (simp add: eframe_def)
  note u = unlock_quiet [OF q' fr l]
  have c: "ecount obj ?w = ecount obj w'" by (simp add: ecount_def file_of_def u)
  have "eobj_ok obj ?w" using sem cnt by (intro eevent_okI [OF ok ev u(1)]) (simp_all add: u c)
  then show ?thesis using u(1) c by (simp add: eevent_abs [OF ev])
qed

lemma lock_quiet:
  assumes "intf w = []" and "eobj_ok obj w" and "eis_event (en_type obj)"
  shows "do { w1 \<leftarrow> lock_event (en_type obj) (slot_of obj) w;
              let (old, w2) = at_xchg (eev_signaled (slot_of obj)) b w1; f old w2 } =
         f (mem w (slot_of obj, W0)) (flagged b obj w)"
  using assms eevent_okD(2) [OF assms(2,3)]
  by (simp add: lock_event_def spin_lock_free shm_simps flagged_def)

lemma esync_set_step:
  assumes inv: "esync_inv cfg hs objs w" and h: "map_of (zip hs objs) h = Some obj"
  shows "\<exists>st w'. eclient_set_event cfg h w = Some (st, w') \<and> eframe obj w w' \<and>
    eobj_ok obj w' \<and> a_signal True (eobj_abs obj w) = (st, eobj_abs obj w')"
proof (cases "eis_event (en_type obj)")
  case False
  note look = esync_lookup [OF inv h]
  have "a_signal True (eobj_abs obj w) = (STATUS_OBJECT_TYPE_MISMATCH, eobj_abs obj w)"
    using False look(2) by (cases "en_type obj") (simp_all add: eobj_abs_def eis_event_def eobj_ok_def)
  then show ?thesis using look False by (simp add: eclient_set_event_def with_object_def)
next
  case ev: True
  note look = esync_lookup [OF inv h]
  note ok = eobj_okD [OF look(2)] eevent_okD [OF look(2) ev]
  let ?w2 = "flagged 1 obj w"
  define w3 where "w3 = (if mem w (slot_of obj, W0) = 0 \<or> en_type obj = ESYNC_AUTO_EVENT
                         then snd (fd_write (en_fd obj) 1 ?w2) else ?w2)"
  have run: "eclient_set_event cfg h w = Some (0, unlock_event (en_type obj) (slot_of obj) w3)"
    by (simp add: eclient_set_event_def with_object_def look(1) ev ok(1) w3_def Let_def
        lock_quiet [OF kcalm_intf(1) [OF look(3)] look(2) ev, unfolded Let_def] split del: if_split)
  have c2: "ecount obj ?w2 = ecount obj w" by (simp add: ecount_def)
  have "eframe obj w w3 \<and> \<not> ef_sem (files w3 (file_of obj w)) \<and> 0 < ecount obj w3 \<and>
      ecount obj w3 \<le> EFD_MAX \<and> mem w3 = mem ?w2"
  proof (cases "mem w (slot_of obj, W0) = 0 \<or> en_type obj = ESYNC_AUTO_EVENT")
    case True
    then show ?thesis
      using look(3) ok c2
      by (auto simp: w3_def fd_write_calm [of _ _ "file_of obj w"] ecount_def frame_sel EFD_MAX_def)
  next
    case False
    then show ?thesis using ok c2 by (simp add: w3_def)
  qed
  moreover have "en_type obj = ESYNC_MANUAL_EVENT \<or> mem ?w2 (slot_of obj, W1) = 0"
    using ok by (simp add: flagged_def)
  ultimately show ?thesis
    using run eevent_finish [OF look(2) ev, of w3] look(3) by (auto simp: eevent_abs [OF ev])
qed

lemma esync_reset_step:
  assumes inv: "esync_inv cfg hs objs w" and h: "map_of (zip hs objs) h = Some obj"
  shows "\<exists>st w'. eclient_reset_event cfg h w = Some (st, w') \<and> eframe obj w w' \<and>
    eobj_ok obj w' \<and> a_signal False (eobj_abs obj w) = (st, eobj_abs obj w')"
proof (cases "eis_event (en_type obj)")
  case False
  note look = esync_lookup [OF inv h]
  have "a_signal False (eobj_abs obj w) = (STATUS_OBJECT_TYPE_MISMATCH, eobj_abs obj w)"
    using False look(2) by (cases "en_type obj") (simp_all add: eobj_abs_def eis_event_def eobj_ok_def)
  then show ?thesis using look False by (simp add: eclient_reset_event_def with_object_def)
next
  case ev: True
  note look = esync_lookup [OF inv h]
  note ok = eobj_okD [OF look(2)] eevent_okD [OF look(2) ev]
  let ?w2 = "flagged 0 obj w"
  define w3 where "w3 = (if mem w (slot_of obj, W0) \<noteq> 0 \<or> en_type obj = ESYNC_AUTO_EVENT
                         then snd (fd_read (en_fd obj) ?w2) else ?w2)"
  have run: "eclient_reset_event cfg h w = Some (0, unlock_event (en_type obj) (slot_of obj) w3)"
    by (simp add: eclient_reset_event_def with_object_def look(1) ev ok(1) w3_def Let_def
        lock_quiet [OF kcalm_intf(1) [OF look(3)] look(2) ev, unfolded Let_def] split del: if_split)
  have c2: "ecount obj ?w2 = ecount obj w" by (simp add: ecount_def)
  have "eframe obj w w3 \<and> \<not> ef_sem (files w3 (file_of obj w)) \<and> ecount obj w3 = 0 \<and> mem w3 = mem ?w2"
  proof (cases "mem w (slot_of obj, W0) \<noteq> 0 \<or> en_type obj = ESYNC_AUTO_EVENT")
    case True
    then show ?thesis
      using look(3) ok c2
      by (auto simp: w3_def fd_read_calm [of _ _ "file_of obj w"] ecount_def frame_sel Let_def)
  next
    case False
    then show ?thesis using ok c2 by (simp add: w3_def)
  qed
  moreover have "en_type obj = ESYNC_MANUAL_EVENT \<or> mem ?w2 (slot_of obj, W1) = 0"
    using ok by (simp add: flagged_def)
  ultimately show ?thesis
    using run eevent_finish [OF look(2) ev, of w3] look(3) by (auto simp: eevent_abs [OF ev])
qed


section \<open>Mutexes\<close>

lemma emutex_okD:
  assumes "eobj_ok obj w" and "en_type obj = ESYNC_MUTEX"
  shows "mem w (slot_of obj, W0) \<in> {0, - 1} \<Longrightarrow> ecount obj w = 1"
    and "mem w (slot_of obj, W0) \<in> {0, - 1} \<Longrightarrow> mem w (slot_of obj, W1) = 0"
    and "mem w (slot_of obj, W0) \<notin> {0, - 1} \<Longrightarrow> ecount obj w = 0"
    and "mem w (slot_of obj, W0) \<notin> {0, - 1} \<Longrightarrow> mem w (slot_of obj, W1) \<noteq> 0"
    and "\<not> ef_sem (files w (file_of obj w))"
  using assms by (simp_all add: eobj_ok_def split: if_splits)

lemma emutex_abs:
  "en_type obj = ESYNC_MUTEX \<Longrightarrow>
     eobj_abs obj w = AMutex (owner_state (mem w (slot_of obj, W0)) (mem w (slot_of obj, W1)))"
  by (simp add: eobj_abs_def)

lemma emutex_okI:
  assumes "eobj_ok obj w" and "en_type obj = ESYNC_MUTEX" and "eframe obj w w'"
    and "\<not> ef_sem (files w' (file_of obj w))"
    and "if mem w' (slot_of obj, W0) \<in> {0, - 1}
         then ecount obj w' = 1 \<and> mem w' (slot_of obj, W1) = 0
         else ecount obj w' = 0 \<and> mem w' (slot_of obj, W1) \<noteq> 0"
  shows "eobj_ok obj w'"
proof -
  have "file_of obj w' = file_of obj w" "fdtab w' = fdtab w"
    using eframe_file [OF assms(3)] assms(3) by (simp_all add: eframe_def)
  then show ?thesis
    using assms by (simp add: eobj_ok_def EFD_MAX_def split: if_splits)
qed

lemma esync_unlock_step:
  assumes inv: "esync_inv cfg hs objs w" and h: "map_of (zip hs objs) h = Some obj"
    and ty: "en_type obj = ESYNC_MUTEX"
  shows "\<exists>st pv w'. esync_release_mutex cfg h w = Some ((st, pv), w') \<and> eframe obj w w' \<and>
    eobj_ok obj w' \<and> a_unlock (e_tid cfg) (eobj_abs obj w) = (st, eobj_abs obj w')"
proof -
  note look = esync_lookup [OF inv h]
  note ok = eobj_okD [OF look(2)]
  note mx = emutex_okD [OF look(2) ty]
  let ?s = "slot_of obj" and ?f = "file_of obj w"
  let ?t = "mem w (?s, W0)" and ?n = "mem w (?s, W1)"
  consider (other) "?t \<noteq> e_tid cfg" | (last) "?t = e_tid cfg" "?n = 1" | (nested) "?t = e_tid cfg" "?n \<noteq> 1"
    by blast
  then show ?thesis
  proof cases
    case other
    then have "a_unlock (e_tid cfg) (eobj_abs obj w) = (STATUS_MUTANT_NOT_OWNED, eobj_abs obj w)"
      by (simp add: emutex_abs [OF ty] owner_state_def)
    then show ?thesis using other look by (simp add: esync_release_mutex_def with_object_def ok shm_simps)
  next
    case last
    let ?w1 = "put_mem (?s, W0) 0 (put_mem (?s, W1) 0 w)"
    let ?w2 = "kemit (KWrite ?f 1) (set_count ?f 1 ?w1)"
    have z: "ecount obj w = 0" using mx last look by simp
    then have "fd_write (en_fd obj) 1 ?w1 = (Inr (), ?w2)"
      using look(3) ok by (simp add: shm_simps ecount_def EFD_MAX_def)
    then have "esync_release_mutex cfg h w = Some ((0, Some 1), ?w2)"
      using last look by (simp add: esync_release_mutex_def with_object_def ok shm_simps)
    moreover have "eframe obj w ?w2" by simp
    moreover have "eobj_ok obj ?w2"
      using mx(5) z by (intro emutex_okI [OF look(2) ty]) (simp_all add: ecount_def frame_sel)
    moreover have "a_unlock (e_tid cfg) (eobj_abs obj w) = (0, eobj_abs obj ?w2)"
      using last look by (simp add: emutex_abs [OF ty] owner_state_def)
    ultimately show ?thesis by blast
  next
    case nested
    let ?w1 = "put_mem (?s, W1) (?n - 1) w"
    have nz: "?n \<noteq> 0" "?n - 1 \<noteq> 0" using mx nested look by auto
    have "esync_release_mutex cfg h w = Some ((0, Some ?n), ?w1)"
      using nested look nz by (simp add: esync_release_mutex_def with_object_def ok shm_simps)
    moreover have "eframe obj w ?w1" by simp
    moreover have "eobj_ok obj ?w1"
      using mx nz nested look by (intro emutex_okI [OF look(2) ty]) (simp_all add: frame_sel)
    moreover have "unat ?n \<noteq> 1" using nested by (simp add: word_unat_eq_iff)
    then have "a_unlock (e_tid cfg) (eobj_abs obj w) = (0, eobj_abs obj ?w1)"
      using nested look nz unat_minus_1 [OF nz(1)] by (simp add: emutex_abs [OF ty] owner_state_def)
    ultimately show ?thesis by blast
  qed
qed


section \<open>Acquiring\<close>

text \<open>
  The check of one object before the first poll: an object that is signaled for the thread is acquired,
  any other is left alone and its descriptor is not ready.
\<close>

definition acquires_as_spec :: "ecfg \<Rightarrow> eentry \<Rightarrow> eclient \<Rightarrow> bool" where
  "acquires_as_spec cfg obj w \<longleftrightarrow>
     (case a_acquire (e_tid cfg) (eobj_abs obj w) of
        None \<Rightarrow> check_object cfg False obj w = Some (None, w) \<and> fd_revents w (en_fd obj) = RNone
      | Some (st, x) \<Rightarrow> \<exists>w'. check_object cfg False obj w = Some (Some st, w') \<and> eframe obj w w' \<and>
          eobj_ok obj w' \<and> eobj_abs obj w' = x)"

lemma idle_revents:
  "fdtab w (en_fd obj) = Some (file_of obj w) \<Longrightarrow> ecount obj w = 0 \<Longrightarrow> fd_revents w (en_fd obj) = RNone"
  by (simp add: fd_revents_def ecount_def)

lemma acquire_semaphore:
  assumes ok: "eobj_ok obj w" and q: "kcalm w" and ty: "en_type obj = ESYNC_SEMAPHORE"
  shows "acquires_as_spec cfg obj w"
proof -
  note d = eobj_okD [OF ok]
  let ?s = "slot_of obj" and ?f = "file_of obj w"
  have c: "ecount obj w = unat (mem w (?s, W1))" "ecount obj w \<le> unat (mem w (?s, W0))"
      "unat (mem w (?s, W0)) < 2 ^ 31"
    using ok ty by (simp_all add: eobj_ok_def)
  show ?thesis
  proof (cases "mem w (?s, W1) = 0")
    case True
    then show ?thesis
      using c q d idle_revents [of w obj]
      by (simp add: acquires_as_spec_def eobj_abs_def ty check_object_def check_semaphore_def shm_simps)
  next
    case False
    let ?w = "put_mem (?s, W1) (mem w (?s, W1) - 1) (kemit (KRead ?f 1) (set_count ?f (ecount obj w - 1) w))"
    have nz: "ecount obj w \<noteq> 0" using False c by (simp add: unat_eq_zero)
    have "check_object cfg False obj w = Some (Some 0, ?w)"
      using False nz q d ty by (simp add: check_object_def check_semaphore_def shm_simps ecount_def)
    moreover have "eframe obj w ?w" by simp
    moreover have "eobj_ok obj ?w"
      using ok ty c unat_minus_1 [OF False] by (simp add: eobj_ok_def frame_sel) (simp add: ecount_def frame_sel, linarith)
    moreover have "eobj_abs obj ?w = ASemaphore (ecount obj w - 1) (unat (mem w (?s, W0)))"
      by (simp add: eobj_abs_def ty ecount_def frame_sel)
    moreover have "eobj_abs obj w = ASemaphore (ecount obj w) (unat (mem w (?s, W0)))"
      by (simp add: eobj_abs_def ty)
    ultimately show ?thesis using nz by (auto simp: acquires_as_spec_def)
  qed
qed

lemma acquire_event:
  assumes ok: "eobj_ok obj w" and q: "kcalm w" and ev: "eis_event (en_type obj)"
  shows "acquires_as_spec cfg obj w"
proof -
  note d = eobj_okD [OF ok] eevent_okD [OF ok ev]
  let ?s = "slot_of obj" and ?f = "file_of obj w"
  have ty: "en_type obj = ESYNC_AUTO_EVENT \<or> en_type obj = ESYNC_MANUAL_EVENT"
    using ev by (auto simp: eis_event_def)
  consider (idle) "ecount obj w = 0" | (manual) "0 < ecount obj w" "en_type obj = ESYNC_MANUAL_EVENT"
    | (auto) "0 < ecount obj w" "en_type obj = ESYNC_AUTO_EVENT"
    using ty by blast
  then show ?thesis
  proof cases
    case idle
    then have "check_object cfg False obj w = Some (None, w)"
      using ty q d by (auto simp: check_object_def check_auto_event_def check_manual_event_def shm_simps)
    then show ?thesis using idle idle_revents [OF d(2) idle] by (simp add: acquires_as_spec_def eevent_abs [OF ev])
  next
    case manual
    then have "check_object cfg False obj w = Some (Some 0, w)"
      using q d by (simp add: check_object_def check_manual_event_def shm_simps)
    then show ?thesis using manual ok by (simp add: acquires_as_spec_def eevent_abs [OF ev])
  next
    case auto
    let ?w = "put_mem (?s, W0) 0 (kemit (KRead ?f (ecount obj w)) (set_count ?f 0 w))"
    have "check_object cfg False obj w = Some (Some 0, ?w)"
      using auto q d by (simp add: check_object_def check_auto_event_def shm_simps eyield_def ecount_def Let_def)
    moreover have "eframe obj w ?w" by simp
    moreover have "ecount obj ?w = 0" by (simp add: ecount_def frame_sel)
    moreover from this have "eobj_ok obj ?w" using d by (intro eevent_okI [OF ok ev]) simp_all
    ultimately show ?thesis using auto by (auto simp: acquires_as_spec_def eevent_abs [OF ev])
  qed
qed

lemma acquire_mutex:
  assumes ok: "eobj_ok obj w" and q: "kcalm w" and ty: "en_type obj = ESYNC_MUTEX"
    and me: "e_tid cfg \<noteq> 0" "e_tid cfg \<noteq> - 1"
    and bound: "mem w (slot_of obj, W0) = e_tid cfg \<Longrightarrow> unat (mem w (slot_of obj, W1)) < 2 ^ 31 - 1"
  shows "acquires_as_spec cfg obj w"
proof -
  note d = eobj_okD [OF ok]
  note mx = emutex_okD [OF ok ty]
  let ?s = "slot_of obj" and ?f = "file_of obj w"
  let ?t = "mem w (?s, W0)" and ?n = "mem w (?s, W1)"
  consider (own) "?t = e_tid cfg" | (free) "?t \<in> {0, - 1}" | (other) "?t \<noteq> e_tid cfg" "?t \<notin> {0, - 1}" by blast
  then show ?thesis
  proof cases
    case own
    let ?w = "put_mem (?s, W1) (?n + 1) w"
    have u: "unat (?n + 1) = unat ?n + 1"
      using bound [OF own] unat_add_lem [of ?n 1] by simp
    then have nz: "?n + 1 \<noteq> 0" by (metis add_eq_0_iff_both_eq_0 unat_0 zero_neq_one)
    have "check_object cfg False obj w = Some (Some 0, ?w)"
      using own q d ty by (simp add: check_object_def check_mutex_def shm_simps incr_def)
    moreover have "eobj_ok obj ?w" using mx own me nz by (intro emutex_okI [OF ok ty]) (simp_all add: frame_sel)
    moreover have "eframe obj w ?w" by simp
    ultimately show ?thesis using own me u by (simp add: acquires_as_spec_def emutex_abs [OF ty] owner_state_def)
  next
    case free
    let ?w1 = "kemit (KRead ?f 1) (set_count ?f 0 w)"
    let ?w = "put_mem (?s, W1) 1 (put_mem (?s, W0) (e_tid cfg) ?w1)"
    have "fd_read (en_fd obj) w = (Inr 1, ?w1)"
      using q d mx free ty by (simp add: shm_simps ecount_def Let_def)
    then have "check_object cfg False obj w = Some (Some (if ?t = - 1 then STATUS_ABANDONED_WAIT_0 else 0), ?w)"
      using free q d ty me mx(2) by (auto simp: check_object_def check_mutex_def shm_simps incr_def)
    moreover have "eframe obj w ?w" by simp
    moreover have "eobj_ok obj ?w"
      using mx me by (intro emutex_okI [OF ok ty]) (simp_all add: ecount_def frame_sel)
    ultimately show ?thesis
      using free me by (auto simp: acquires_as_spec_def emutex_abs [OF ty] owner_state_def)
  next
    case other
    then have "check_object cfg False obj w = Some (None, w)"
      using q d ty mx(4) by (simp add: check_object_def check_mutex_def shm_simps)
    then show ?thesis
      using other mx(3) idle_revents [OF d(2)] by (simp add: acquires_as_spec_def emutex_abs [OF ty] owner_state_def)
  qed
qed

lemma acquire_any_type:
  assumes ok: "eobj_ok obj w" and q: "kcalm w" and me: "e_tid cfg \<noteq> 0" "e_tid cfg \<noteq> - 1"
    and bound: "\<And>t n. eobj_abs obj w = AMutex (MOwned t n) \<Longrightarrow> n < 2 ^ 31 - 1"
  shows "acquires_as_spec cfg obj w"
proof (cases "en_type obj = ESYNC_MUTEX")
  case True
  then show ?thesis
    using acquire_mutex [OF ok q True me] bound [of "e_tid cfg"] me by (simp add: emutex_abs owner_state_def)
next
  case False
  show ?thesis
  proof (cases "en_type obj = ESYNC_SEMAPHORE")
    case True
    then show ?thesis by (rule acquire_semaphore [OF ok q])
  next
    case False
    then have "eis_event (en_type obj)"
      using ok \<open>en_type obj \<noteq> ESYNC_MUTEX\<close> by (cases "en_type obj") (simp_all add: eobj_ok_def eis_event_def)
    then show ?thesis by (rule acquire_event [OF ok q])
  qed
qed


section \<open>Waiting for any object\<close>

lemma check_any_step:
  assumes inv: "esync_inv cfg hs objs w"
    and os: "list_all2 (\<lambda>h obj. map_of (zip hs objs) h = Some obj) ks os"
    and bound: "\<forall>h \<in> set ks. \<forall>t n. esync_abs hs objs w h = Some (AMutex (MOwned t n)) \<longrightarrow> n < 2 ^ 31 - 1"
  shows "(\<exists>st w'. check_any cfg False i (map Some os) w = Some (Some st, w') \<and> esync_inv cfg hs objs w' \<and>
      a_try (e_tid cfg) i ks (esync_abs hs objs w) = (st, esync_abs hs objs w')) \<or>
    check_any cfg False i (map Some os) w = Some (None, w) \<and>
      a_try (e_tid cfg) i ks (esync_abs hs objs w) = (STATUS_TIMEOUT, esync_abs hs objs w) \<and>
      (\<forall>obj \<in> set os. fd_revents w (en_fd obj) = RNone)"
  using os bound
proof (induction ks os arbitrary: i rule: list_all2_induct)
  case Nil
  then show ?case by simp
next
  case (Cons k ks obj os)
  note look = esync_lookup [OF inv Cons.hyps(1)]
  have a: "esync_abs hs objs w k = Some (eobj_abs obj w)" by (simp add: esync_abs_def Cons.hyps(1))
  have spec: "acquires_as_spec cfg obj w"
    using Cons.prems a by (intro acquire_any_type look) auto
  show ?case
  proof (cases "a_acquire (e_tid cfg) (eobj_abs obj w)")
    case None
    then show ?thesis using spec a Cons.IH [of "Suc i"] Cons.prems by (simp add: acquires_as_spec_def)
  next
    case (Some r)
    obtain st x where r: "r = (st, x)" by fastforce
    obtain w' where w': "check_object cfg False obj w = Some (Some st, w')" "eframe obj w w'" "eobj_ok obj w'"
        "eobj_abs obj w' = x"
      using spec Some by (auto simp: acquires_as_spec_def r)
    then show ?thesis using esync_step [OF inv Cons.hyps(1) w'(2,3)] Some a r by simp
  qed
qed

lemma eget_objects_cached:
  assumes inv: "esync_inv cfg hs objs w" and "list_all2 (\<lambda>h obj. map_of (zip hs objs) h = Some obj) ks os"
  shows "eget_objects cfg ks acc e s w = Some (Inr (acc @ map Some os, e \<or> ks \<noteq> [], s, w))"
  using assms(2)
proof (induction ks os arbitrary: acc e rule: list_all2_induct)
  case (Cons k ks obj os)
  then show ?case using esync_lookup(1) [OF inv Cons.hyps(1)] by simp
qed simp

text \<open>Bookkeeping that the specification does not see.\<close>

definition unseen :: "eclient \<Rightarrow> eclient \<Rightarrow> bool" where
  "unseen w w' \<longleftrightarrow> mem w' = mem w \<and> intf w' = intf w \<and> fdtab w' = fdtab w \<and> files w' = files w \<and>
     kintf w' = kintf w \<and> ecache w' = ecache w \<and> ecintf w' = ecintf w \<and> epgs w' = epgs w \<and> eapc_fd w' = eapc_fd w"

lemma unseen_intros [simp]:
  "unseen w w" "unseen w (kemit a w') = unseen w w'" "unseen w (w'\<lparr>eclock := c\<rparr>) = unseen w w'"
  by (simp_all add: unseen_def kemit_def)

lemma unseen_sel:
  assumes "unseen w w'"
  shows "esync_inv cfg hs objs w' = esync_inv cfg hs objs w" and "esync_abs hs objs w' = esync_abs hs objs w"
    and "fd_revents w' fd = fd_revents w fd" and "kintf w' = kintf w"
proof -
  have eq: "mem w' = mem w" "fdtab w' = fdtab w" "files w' = files w"
    "intf w' = intf w" "kintf w' = kintf w" "ecintf w' = ecintf w" "ecache w' = ecache w"
    using assms by (simp_all add: unseen_def)
  have f: "file_of x w' = file_of x w" for x by (simp add: file_of_def eq(2))
  have c: "ecount x w' = ecount x w" for x by (simp add: ecount_def f eq(3))
  have "eobj_ok x w' = eobj_ok x w" for x unfolding eobj_ok_def f c eq(1-3) by (rule refl)
  moreover have "kcalm w' = kcalm w" unfolding kcalm_def eq(4,5) by (rule refl)
  ultimately show "esync_inv cfg hs objs w' = esync_inv cfg hs objs w"
    unfolding esync_inv_def f eq(6,7) by metis
  have "eobj_abs x w' = eobj_abs x w" for x unfolding eobj_abs_def c eq(1) by (rule refl)
  then show "esync_abs hs objs w' = esync_abs hs objs w" by (simp add: esync_abs_def)
  show "fd_revents w' fd = fd_revents w fd" unfolding fd_revents_def eq(2,3) by (rule refl)
  show "kintf w' = kintf w" by (rule eq(5))
qed

lemma unseen_yield [simp]: "unseen w (eyield cfg alertable w') = unseen w w'"
  by (simp add: eyield_def)

lemma unseen_poll [simp]: "unseen w (poll_timeout cfg end w') = unseen w w'"
  by (simp add: poll_timeout_def esync_update_timeout_def query_system_time_def Let_def split: option.split)

text \<open>With a zero timeout and nothing ready the wait times out at the first poll.\<close>

lemma do_poll_expires:
  assumes "kintf w = []" and "\<forall>fd \<in> set fds. fd_revents w fd = RNone"
  shows "\<exists>w'. do_poll cfg fds (Some e) [PExpire] w = Some (PTimedOut, [], w') \<and> unseen w w'"
proof -
  have u: "unseen w (poll_timeout cfg (Some e) w)" by simp
  have k: "kintf (poll_timeout cfg (Some e) w) = []" using unseen_sel(4) [OF u] assms(1) by simp
  have "\<forall>fd \<in> set fds. fd_revents (poll_timeout cfg (Some e) w) fd = RNone"
    using unseen_sel(3) [OF u] assms(2) by simp
  then have "sys_poll fds True [PExpire] (poll_timeout cfg (Some e) w) = Some (PTimedOut, [], poll_timeout cfg (Some e) w)"
    by (simp add: kinterfere_calm [OF k] Let_def)
  then show ?thesis using u by (subst do_poll.simps) simp
qed

text \<open>The way into a wait: the objects are found in the cache, the clock is read.\<close>

lemma esync_wait_entry:
  assumes inv: "esync_inv cfg hs objs w" and ne: "ks \<noteq> []" and known: "\<forall>k \<in> set ks. esync_abs hs objs w k \<noteq> None"
  shows "\<exists>os w0. list_all2 (\<lambda>h obj. map_of (zip hs objs) h = Some obj) ks os \<and> unseen w w0 \<and>
    (\<forall>wait_any timeout outs. esync_wait_objects cfg ks wait_any False timeout outs w =
       (if wait_any \<or> length ks \<le> 1
        then esync_wait_any cfg False (map Some os) (end_of_timeout (e_now cfg (eclock w)) timeout) outs w0
        else eall_loop cfg False (end_of_timeout (e_now cfg (eclock w)) timeout) (map Some os) outs w0))"
proof -
  define os where "os = map (\<lambda>k. the (map_of (zip hs objs) k)) ks"
  have os: "list_all2 (\<lambda>h obj. map_of (zip hs objs) h = Some obj) ks os"
    using known by (auto simp: os_def list_all2_conv_all_nth esync_abs_def)
  have len: "length os = length ks" by (simp add: os_def)
  have "map_of (zip hs objs) (last ks) = Some (last os)"
  proof -
    have "os \<noteq> []" using ne len by auto
    then show ?thesis using os ne len by (simp add: list_all2_conv_all_nth last_conv_nth)
  qed
  then have look: "eget_object cfg (last ks) w = Some (Inr (Some (last os)), w)" and "eobj_ok (last os) w"
    using esync_lookup [OF inv] by blast+
  then have noq: "en_type (last os) \<noteq> ESYNC_QUEUE" by (auto simp: eobj_ok_def)
  define w0 where "w0 = w\<lparr>eclock := Suc (eclock w)\<rparr>"
  have u0: "unseen w w0" by (simp add: w0_def)
  have inv0: "esync_inv cfg hs objs w0" using inv unseen_sel(1) [OF u0] by simp
  have "esync_wait_objects cfg ks wait_any False timeout outs w =
      (if wait_any \<or> length ks \<le> 1
       then esync_wait_any cfg False (map Some os) (end_of_timeout (e_now cfg (eclock w)) timeout) outs w0
       else eall_loop cfg False (end_of_timeout (e_now cfg (eclock w)) timeout) (map Some os) outs w0)"
    for wait_any timeout outs
    using ne noq eget_objects_cached [OF inv0 os, of "[]" False False]
    by (simp add: esync_wait_objects_def with_object_def look edo_wait_objects_def eget_apc_fd_def
        query_system_time_def w0_def [symmetric] Let_def split del: if_split)
  then show ?thesis using os u0 by blast
qed

lemma esync_try_step:
  assumes inv: "esync_inv cfg hs objs w" and ok: "a_ok (TryAny ks) (esync_abs hs objs w)"
  shows "\<exists>st w'. esync_run cfg (TryAny ks) w = Some (st, w') \<and> esync_inv cfg hs objs w' \<and>
    a_op (e_tid cfg) (TryAny ks) (esync_abs hs objs w) = (st, esync_abs hs objs w')"
proof -
  have ne: "ks \<noteq> []" and known: "\<forall>k \<in> set ks. esync_abs hs objs w k \<noteq> None"
    and bound: "\<forall>h \<in> set ks. \<forall>t n. esync_abs hs objs w h = Some (AMutex (MOwned t n)) \<longrightarrow> n < 2 ^ 31 - 1"
    using ok by (auto simp: list_all_iff split: option.splits)
  obtain os w0 where os: "list_all2 (\<lambda>h obj. map_of (zip hs objs) h = Some obj) ks os" and u0: "unseen w w0"
    and entry: "esync_run cfg (TryAny ks) w =
      esync_wait_any cfg False (map Some os) (end_of_timeout (e_now cfg (eclock w)) (Some 0)) [PExpire] w0"
    using esync_wait_entry [OF inv ne known] by auto
  note i0 = unseen_sel [OF u0]
  have inv0: "esync_inv cfg hs objs w0" using inv i0 by simp
  have run: "esync_run cfg (TryAny ks) w = esync_wait_any cfg False (map Some os) (Some 0) [PExpire] w0"
    using entry by (simp add: end_of_timeout_def)
  have b0: "\<forall>h \<in> set ks. \<forall>t n. esync_abs hs objs w0 h = Some (AMutex (MOwned t n)) \<longrightarrow> n < 2 ^ 31 - 1"
    using bound i0 by simp
  from check_any_step [OF inv0 os b0, of 0] show ?thesis
  proof (elim disjE exE conjE)
    fix st w'
    assume "check_any cfg False 0 (map Some os) w0 = Some (Some st, w')" and "esync_inv cfg hs objs w'"
      and "a_try (e_tid cfg) 0 ks (esync_abs hs objs w0) = (st, esync_abs hs objs w')"
    then show ?thesis using run i0(2) by (simp add: esync_wait_any_def)
  next
    assume c: "check_any cfg False 0 (map Some os) w0 = Some (None, w0)"
      and t: "a_try (e_tid cfg) 0 ks (esync_abs hs objs w0) = (STATUS_TIMEOUT, esync_abs hs objs w0)"
      and idle: "\<forall>obj \<in> set os. fd_revents w0 (en_fd obj) = RNone"
    let ?fds = "any_fds False (map Some os) w0"
    let ?y = "eyield cfg False w0"
    have uy: "unseen w0 ?y" by simp
    have "\<forall>fd \<in> set ?fds. fd_revents ?y fd = RNone"
      using idle unseen_sel(3) [OF uy] by (auto simp: any_fds_def obj_fd_def)
    moreover have "kintf ?y = []" using unseen_sel(4) [OF uy] i0(4) inv by (simp add: esync_inv_def)
    ultimately obtain w' where "do_poll cfg ?fds (Some 0) [PExpire] ?y = Some (PTimedOut, [], w')" and u: "unseen ?y w'"
      using do_poll_expires by blast
    then have "esync_wait_any cfg False (map Some os) (Some 0) [PExpire] w0 = Some (STATUS_TIMEOUT, w')"
      using c by (simp add: esync_wait_any_def) (subst poll_loop.simps, simp add: poll_error_def)
    moreover have "esync_inv cfg hs objs w'" "esync_abs hs objs w' = esync_abs hs objs w0"
      using unseen_sel [OF u] unseen_sel [OF uy] inv0 by simp_all
    ultimately show ?thesis using run t i0(2) by simp
  qed
qed

section \<open>The contract\<close>

lemma esync_call_step:
  assumes inv: "esync_inv cfg hs objs w" and ok: "a_ok op (esync_abs hs objs w)"
  shows "\<exists>st w'. esync_run cfg op w = Some (st, w') \<and> esync_inv cfg hs objs w' \<and>
    a_op (e_tid cfg) op (esync_abs hs objs w) = (st, esync_abs hs objs w')"
proof -
  have finish: ?thesis
    if h: "map_of (zip hs objs) h = Some obj"
      and r: "esync_run cfg op w = Some (st, w')" "eframe obj w w'" "eobj_ok obj w'"
      and a: "a_op (e_tid cfg) op (esync_abs hs objs w) = a_on h f (esync_abs hs objs w)"
        "f (eobj_abs obj w) = (st, eobj_abs obj w')" for h obj st w' f
  proof -
    have "a_on h f (esync_abs hs objs w) = (st, (esync_abs hs objs w)(h \<mapsto> eobj_abs obj w'))"
      using h a(2) by (simp add: a_on_def esync_abs_def)
    then show ?thesis using r a(1) esync_step [OF inv h r(2,3)] by simp
  qed
  show ?thesis
  proof (cases op)
    case (Release h n)
    then obtain obj where h: "map_of (zip hs objs) h = Some obj" and ty: "en_type obj = ESYNC_SEMAPHORE"
      and n: "unat n < 2 ^ 31"
      using ok by (auto simp: esync_abs_def eobj_abs_def split: option.splits aobj.splits esync_type.splits)
    from esync_release_step [OF inv h ty n] show ?thesis
      by (elim exE conjE) (rule finish [OF h, where f = "a_release n"], simp_all add: Release)
  next
    case (SetEv h)
    then obtain obj where h: "map_of (zip hs objs) h = Some obj" using ok by (auto simp: esync_abs_def)
    from esync_set_step [OF inv h] show ?thesis
      by (elim exE conjE) (rule finish [OF h, where f = "a_signal True"], simp_all add: SetEv)
  next
    case (ResetEv h)
    then obtain obj where h: "map_of (zip hs objs) h = Some obj" using ok by (auto simp: esync_abs_def)
    from esync_reset_step [OF inv h] show ?thesis
      by (elim exE conjE) (rule finish [OF h, where f = "a_signal False"], simp_all add: ResetEv)
  next
    case (ReleaseMut h)
    then obtain obj where h: "map_of (zip hs objs) h = Some obj" and ty: "en_type obj = ESYNC_MUTEX"
      using ok by (auto simp: esync_abs_def eobj_abs_def split: option.splits aobj.splits esync_type.splits)
    from esync_unlock_step [OF inv h ty] show ?thesis
      by (elim exE conjE) (rule finish [OF h, where f = "a_unlock (e_tid cfg)"], simp_all add: ReleaseMut)
  next
    case (TryAny ks)
    then show ?thesis using esync_try_step [OF inv] ok by simp
  qed
qed

interpretation esync_contract: sync_objects
  "esync_inv cfg hs objs" "esync_abs hs objs" "e_tid cfg" "esync_run cfg"
  for cfg hs objs
  by unfold_locales (rule esync_call_step)


section \<open>A sample process\<close>

text \<open>Handle 4 is a semaphore with the given count and maximum 3, handle 8 a free mutex.\<close>

definition sample_sem :: eentry where
  "sample_sem = \<lparr>en_type = ESYNC_SEMAPHORE, en_fd = 10, en_shm = Some 11\<rparr>"

definition sample_mutex :: eentry where
  "sample_mutex = \<lparr>en_type = ESYNC_MUTEX, en_fd = 12, en_shm = Some 13\<rparr>"

definition sample_ecache :: "eentry cache" where
  "sample_ecache = cache_put 256 4096 True 8 (Some sample_mutex) (cache_put 256 4096 True 4 (Some sample_sem) cache_empty)"

definition sample_eclient :: "nat \<Rightarrow> eclient" where
  "sample_eclient c = \<lparr>mem = (\<lambda>_. 0)((11, W0) := 3, (11, W1) := word_of_nat c), intf = [], acts = [],
     fdtab = (\<lambda>fd. if fd = 10 then Some 1 else if fd = 12 then Some 2 else None),
     files = (\<lambda>f. if f = 1 then \<lparr>ef_count = c, ef_sem = True\<rparr> else \<lparr>ef_count = 1, ef_sem = False\<rparr>),
     kintf = [], kacts = [], ecache = sample_ecache, ecintf = [], epgs = [], eapc_fd = - 1, eclock = 0\<rparr>"

definition sample_ecfg :: ecfg where
  "sample_ecfg = \<lparr>e_tid = 12, e_page = 4096, e_realloc = True, e_mmap = (\<lambda>_. True), e_anon = True,
     e_odyssey = False, e_errno = (\<lambda>_. STATUS_INVALID_PARAMETER), esrv_fd = (\<lambda>_. Inl STATUS_INVALID_HANDLE),
     esrv_create = (\<lambda>type a b. (STATUS_SUCCESS, 16, type, 21, 20, 5)),
     esrv_open = (\<lambda>type. (STATUS_SUCCESS, 20, type, 23, 22, 6)), esrv_apc = None, esrv_wait = STATUS_TIMEOUT,
     e_now = (\<lambda>n. 1000)\<rparr>"

lemma sample_ecached [simp]:
  "cache_get 256 4096 4 sample_ecache = Some sample_sem" "cache_get 256 4096 8 sample_ecache = Some sample_mutex"
  by (simp_all add: sample_ecache_def cache_get_put cacheable_def handle_to_index_def cache_empty_def cache_put_def
      cache_get_def)

lemma sample_entry_sel [simp]:
  "en_type sample_sem = ESYNC_SEMAPHORE" "en_fd sample_sem = 10" "en_shm sample_sem = Some 11" "slot_of sample_sem = 11"
  "en_type sample_mutex = ESYNC_MUTEX" "en_fd sample_mutex = 12" "en_shm sample_mutex = Some 13" "slot_of sample_mutex = 13"
  by (simp_all add: sample_sem_def sample_mutex_def slot_of_def)

lemma sample_file_sel [simp]: "file_of sample_sem (sample_eclient c) = 1" "file_of sample_mutex (sample_eclient c) = 2"
  by (simp_all add: file_of_def sample_eclient_def)

lemma sample_count_sel [simp]: "ecount sample_sem (sample_eclient c) = c" "ecount sample_mutex (sample_eclient c) = 1"
  by (simp_all add: ecount_def) (simp_all add: sample_eclient_def)

lemma sample_eobj_ok: "c \<le> 3 \<Longrightarrow> eobj_ok sample_sem (sample_eclient c)" "eobj_ok sample_mutex (sample_eclient c)"
  by (simp_all add: eobj_ok_def EFD_MAX_def) (simp_all add: sample_eclient_def unat_of_nat take_bit_nat_eq_self)

lemma sample_world_sel [simp]:
  "kcalm (sample_eclient c)" "ecintf (sample_eclient c) = []" "ecache (sample_eclient c) = sample_ecache"
  "e_tid sample_ecfg = 12"
  by (simp_all add: kcalm_def sample_eclient_def sample_ecfg_def)

lemma sample_einv:
  assumes "c \<le> 3"
  shows "esync_inv sample_ecfg [4, 8] [sample_sem, sample_mutex] (sample_eclient c)"
  unfolding esync_inv_def using sample_eobj_ok(1) [OF assms] sample_eobj_ok(2) [of c] by simp

lemma sample_eabs: "c \<le> 3 \<Longrightarrow> esync_abs [4, 8] [sample_sem, sample_mutex] (sample_eclient c) =
    [4 \<mapsto> ASemaphore c 3, 8 \<mapsto> AMutex MFree]"
  by (auto simp: esync_abs_def eobj_abs_def fun_eq_iff) (simp_all add: sample_eclient_def owner_state_def)

section \<open>Properties\<close>

text \<open>C2: The eventfd implementation refines the specification of the objects: for every sequence of calls
  that release permits, set and reset events, release mutexes and try to acquire any of several
  objects, undisturbed, the code runs to the end, each call returns the status of the specification,
  the objects end as the specification says, and slots and kernel counters still agree.\<close>
theorem esync_implements_objects:
  assumes "esync_inv cfg hs objs w" and "a_run_ok (e_tid cfg) ops (esync_abs hs objs w)"
  shows "\<exists>sts w'. run_calls (esync_run cfg) ops w = Some (sts, w') \<and> esync_inv cfg hs objs w' \<and>
    a_run (e_tid cfg) ops (esync_abs hs objs w) = (sts, esync_abs hs objs w')"
  by (rule esync_contract.run_refines [OF assms])

theorem esync_implements_objects_witness:
  "\<exists>w'. run_calls (esync_run sample_ecfg) sample_calls (sample_eclient 1) =
     Some ([0, 1, STATUS_TIMEOUT, 0, STATUS_SEMAPHORE_LIMIT_EXCEEDED, 0, STATUS_MUTANT_NOT_OWNED,
            STATUS_OBJECT_TYPE_MISMATCH], w')"
proof -
  have "e_tid sample_ecfg = 12" by (simp add: sample_ecfg_def)
  then show ?thesis
    using esync_implements_objects [OF sample_einv [of 1], of sample_calls] sample_calls_ok sample_calls_run
    by (auto simp: sample_eabs)
qed

end
