(* ===== verification/Sync_Equiv.thy ===== *)
theory Sync_Equiv
  imports Fsync_Refine Esync_Refine
begin

text \<open>
  The two implementations of the synchronization objects, by futexes and by event descriptors, are
  interchangeable: both meet the contract of \<open>Sync_Spec\<close>, so that on equal objects every sequence of
  calls gets the same answers from both.
\<close>

interpretation fsync_esync: sync_objects_pair
  "fsync_inv cfg hs objs" "fsync_abs hs objs" "current_tid cfg" "fsync_run cfg"
  "esync_inv (conf\<lparr>e_tid := current_tid cfg\<rparr>) hs entries" "esync_abs hs entries" "esync_run (conf\<lparr>e_tid := current_tid cfg\<rparr>)"
  for cfg hs objs conf entries
  apply (rule sync_objects_pair.intro)
   apply (rule fsync_contract.sync_objects_axioms)
  using esync_contract.sync_objects_axioms [of "conf\<lparr>e_tid := current_tid cfg\<rparr>"] apply simp
  done

text \<open>C4: The two implementations are equivalent: a process of a thread that holds the same objects under
  the same handles as futex objects and as eventfd objects gets, for every sequence of calls, the
  same list of statuses from both, and both leave the same objects behind.\<close>
theorem fsync_esync_equivalent:
  assumes "fsync_inv cfg hs objs w" and "esync_inv (conf\<lparr>e_tid := current_tid cfg\<rparr>) hs entries v"
    and "fsync_abs hs objs w = esync_abs hs entries v" and "a_run_ok (current_tid cfg) ops (fsync_abs hs objs w)"
  shows "\<exists>sts w' v'. run_calls (fsync_run cfg) ops w = Some (sts, w') \<and>
    run_calls (esync_run (conf\<lparr>e_tid := current_tid cfg\<rparr>)) ops v = Some (sts, v') \<and>
    fsync_abs hs objs w' = esync_abs hs entries v'"
  by (rule fsync_esync.same_answers [OF assms])

theorem fsync_esync_equivalent_witness:
  "\<exists>sts w' v'. run_calls (fsync_run sample_cfg) sample_calls (sample_fclient 1) = Some (sts, w') \<and>
    run_calls (esync_run sample_ecfg) sample_calls (sample_eclient 1) = Some (sts, v') \<and>
    fsync_abs [4, 8] sample_fobjs w' = esync_abs [4, 8] [sample_sem, sample_mutex] v'"
proof -
  have t: "current_tid sample_cfg = 12" "sample_ecfg\<lparr>e_tid := 12\<rparr> = sample_ecfg"
    by (simp_all add: sample_cfg_def sample_ecfg_def)
  have "esync_inv (sample_ecfg\<lparr>e_tid := current_tid sample_cfg\<rparr>) [4, 8] [sample_sem, sample_mutex] (sample_eclient 1)"
    using sample_einv [of 1] by (simp add: t)
  then show ?thesis
    using fsync_esync_equivalent [OF sample_finv [of 1], of sample_ecfg "[sample_sem, sample_mutex]" "sample_eclient 1" sample_calls]
      sample_calls_ok
    by (simp add: t sample_fabs sample_eabs)
qed

end
