(* ===== verification/Esync_All.thy ===== *)
theory Esync_All
  imports Esync_Refine Waitable
begin

text \<open>
  Waiting for all of several eventfd objects (esync.c of the client), undisturbed: the wait takes all
  objects at once when all are signaled, spins for ever when the caller owns one of the mutexes, and
  the writing back after a failed attempt restores the counters, with one exception.
\<close>

section \<open>The first step\<close>

definition eowned :: "ecfg \<Rightarrow> eentry \<Rightarrow> eclient \<Rightarrow> bool" where
  "eowned cfg obj w \<longleftrightarrow> en_type obj = ESYNC_MUTEX \<and> mem w (emutex_tid (slot_of obj)) = e_tid cfg"

definition esignaled :: "ecfg \<Rightarrow> eentry \<Rightarrow> eclient \<Rightarrow> bool" where
  "esignaled cfg obj w \<longleftrightarrow> a_acquire (e_tid cfg) (eobj_abs obj w) \<noteq> None"

lemma ready_revents:
  assumes ok: "eobj_ok obj w" and "esignaled cfg obj w" and "\<not> eowned cfg obj w"
  shows "fd_revents w (en_fd obj) = RIn" and "0 < ecount obj w"
proof -
  show "0 < ecount obj w"
    using assms
    by (cases "en_type obj") (auto simp: esignaled_def eowned_def eobj_abs_def eobj_ok_def owner_state_def split: if_splits)
  then show "fd_revents w (en_fd obj) = RIn"
    using ok by (simp add: fd_revents_def eobj_ok_def ecount_def)
qed

lemma owned_revents:
  assumes "eobj_ok obj w" and "eowned cfg obj w" and "e_tid cfg \<noteq> 0" and "e_tid cfg \<noteq> - 1"
  shows "fd_revents w (en_fd obj) = RNone"
  using assms by (intro idle_revents) (simp_all add: eobj_ok_def eowned_def)

lemma unseen_obj:
  assumes "unseen w w'"
  shows "eobj_ok obj w' = eobj_ok obj w" and "eowned cfg obj w' = eowned cfg obj w"
    and "esignaled cfg obj w' = esignaled cfg obj w" and "kcalm w' = kcalm w"
proof -
  have eq: "mem w' = mem w" "fdtab w' = fdtab w" "files w' = files w" "intf w' = intf w" "kintf w' = kintf w"
    using assms by (simp_all add: unseen_def)
  have f: "file_of x w' = file_of x w" for x by (simp add: file_of_def eq(2))
  have c: "ecount x w' = ecount x w" for x by (simp add: ecount_def f eq(3))
  show "eobj_ok obj w' = eobj_ok obj w" unfolding eobj_ok_def f c eq(1-3) by (rule refl)
  show "eowned cfg obj w' = eowned cfg obj w" unfolding eowned_def eq(1) by (rule refl)
  show "esignaled cfg obj w' = esignaled cfg obj w" unfolding esignaled_def eobj_abs_def c eq(1) by (rule refl)
  show "kcalm w' = kcalm w" unfolding kcalm_def eq(4,5) by (rule refl)
qed

lemma unseen_trans: "unseen w w' \<Longrightarrow> unseen w' w'' \<Longrightarrow> unseen w w''"
  by (simp add: unseen_def)

lemma do_poll_ready:
  assumes "kintf w = []" and "\<exists>fd \<in> set fds. fd_revents w fd \<noteq> RNone"
  shows "do_poll cfg fds e outs w = Some (PReady (map (fd_revents w) fds), outs, poll_timeout cfg e w)"
proof -
  have u: "unseen w (poll_timeout cfg e w)" by simp
  have "sys_poll fds (e \<noteq> None) outs (poll_timeout cfg e w) =
      Some (PReady (map (fd_revents (poll_timeout cfg e w)) fds), outs, poll_timeout cfg e w)"
    using assms unseen_sel(3,4) [OF u] by (intro sys_poll_ready) simp_all
  then show ?thesis
    using unseen_sel(3) [OF u] by (subst do_poll.simps) (simp cong: map_cong)
qed

text \<open>When every object is signaled or owned, the first step runs through and consumes nothing.\<close>

lemma poll_sequence_ready:
  assumes "kcalm w" and "\<forall>obj \<in> set os. eobj_ok obj w \<and> esignaled cfg obj w"
  shows "\<exists>w'. poll_sequence cfg False e (map Some os) outs w = Some (Inr (outs, w')) \<and> unseen w w'"
  using assms
proof (induction os arbitrary: w)
  case (Cons obj os)
  have ok: "eobj_ok obj w" and sg: "esignaled cfg obj w" using Cons.prems(2) by simp_all
  show ?case
  proof (cases "eowned cfg obj w")
    case True
    then show ?thesis
      using Cons.IH [OF Cons.prems(1)] Cons.prems eobj_okD(1) [OF ok] by (simp add: eowned_def shm_simps)
  next
    case False
    let ?w = "poll_timeout cfg e w"
    have u: "unseen w ?w" by simp
    have rdy: "do_poll cfg [en_fd obj] e outs w = Some (PReady [RIn], outs, ?w)"
      using do_poll_ready [of w "[en_fd obj]"] ready_revents(1) [OF ok sg False] Cons.prems(1) by simp
    obtain w' where w': "poll_sequence cfg False e (map Some os) outs ?w = Some (Inr (outs, w'))" "unseen ?w w'"
      using Cons.IH [of ?w] Cons.prems unseen_obj [OF u] by auto
    have "poll_sequence cfg False e (map Some (obj # os)) outs w = Some (Inr (outs, w'))"
      using False eobj_okD(1) [OF ok] Cons.prems(1) w'(1)
      by (auto simp: eowned_def shm_simps obj_fd_def rdy)
    then show ?thesis using unseen_trans [OF u w'(2)] by blast
  qed
qed simp

section \<open>A mutex that the caller owns\<close>

text \<open>The second step polls every descriptor, that of the owned mutex too, which is not ready.\<close>

lemma eall_round_owned:
  assumes q: "kcalm w" and ok: "\<forall>obj \<in> set os. eobj_ok obj w \<and> esignaled cfg obj w"
    and own: "obj \<in> set os" "eowned cfg obj w" and me: "e_tid cfg \<noteq> 0" "e_tid cfg \<noteq> - 1"
  shows "\<exists>w'. eall_round cfg False e (map Some os) outs w = Some (Inr (outs, w')) \<and> unseen w w'"
proof -
  obtain w' where w': "poll_sequence cfg False e (map Some os) outs w = Some (Inr (outs, w'))" "unseen w w'"
    using poll_sequence_ready [OF q ok] by blast
  have k: "kintf w' = []" using unseen_obj(4) [OF w'(2)] q by simp
  have "fd_revents w' (en_fd obj) = RNone"
    using owned_revents [OF _ own(2) me] ok own(1) unseen_sel(3) [OF w'(2)] by simp
  then have "length (filter (\<lambda>fd. fd_revents w' fd \<noteq> RNone) (map obj_fd (map Some os))) < length os"
    using own(1) length_filter_less [of "en_fd obj" "map obj_fd (map Some os)" "\<lambda>fd. fd_revents w' fd \<noteq> RNone"]
    by (force simp: obj_fd_def)
  then have "poll_now (map obj_fd (map Some os)) w' = (length (filter (\<lambda>fd. fd_revents w' fd \<noteq> RNone) (map obj_fd (map Some os))), w')"
    and "length (filter (\<lambda>fd. fd_revents w' fd \<noteq> RNone) (map obj_fd (map Some os))) \<noteq> length (map Some os)"
    using kinterfere_calm [OF k] by (simp_all add: poll_now_def Let_def)
  then show ?thesis using w' by (simp add: eall_round_def)
qed

lemma eall_loop_spins:
  assumes "eall_loop cfg alertable e objs outs w = Some y"
  shows "alertable \<or> \<not> (\<exists>os obj. objs = map Some os \<and> kcalm w \<and> (\<forall>obj \<in> set os. eobj_ok obj w \<and> esignaled cfg obj w) \<and>
    obj \<in> set os \<and> eowned cfg obj w \<and> e_tid cfg \<noteq> 0 \<and> e_tid cfg \<noteq> - 1)"
  using assms
proof (rule eall_loop.raw_induct [where P = "\<lambda>cfg alertable e objs outs w y. alertable \<or>
    \<not> (\<exists>os obj. objs = map Some os \<and> kcalm w \<and> (\<forall>obj \<in> set os. eobj_ok obj w \<and> esignaled cfg obj w) \<and>
      obj \<in> set os \<and> eowned cfg obj w \<and> e_tid cfg \<noteq> 0 \<and> e_tid cfg \<noteq> - 1)", rotated])
  fix f cfg al e objs outs w y
  assume IH: "\<And>cfg al e objs outs w y. f cfg al e objs outs w = Some y \<Longrightarrow> al \<or>
      \<not> (\<exists>os obj. objs = map Some os \<and> kcalm w \<and> (\<forall>obj \<in> set os. eobj_ok obj w \<and> esignaled cfg obj w) \<and>
        obj \<in> set os \<and> eowned cfg obj w \<and> e_tid cfg \<noteq> 0 \<and> e_tid cfg \<noteq> - 1)"
    and run: "do { r \<leftarrow> eall_round cfg al e objs outs w;
                   case r of Inl res \<Rightarrow> Some res | Inr (outs', w') \<Rightarrow> f cfg al e objs outs' w' } = Some y"
  show "al \<or> \<not> (\<exists>os obj. objs = map Some os \<and> kcalm w \<and> (\<forall>obj \<in> set os. eobj_ok obj w \<and> esignaled cfg obj w) \<and>
      obj \<in> set os \<and> eowned cfg obj w \<and> e_tid cfg \<noteq> 0 \<and> e_tid cfg \<noteq> - 1)"
  proof (rule ccontr)
    assume neg: "\<not> ?thesis"
    then obtain os obj where o: "objs = map Some os" "kcalm w" "\<forall>obj \<in> set os. eobj_ok obj w \<and> esignaled cfg obj w"
        "obj \<in> set os" "eowned cfg obj w" "e_tid cfg \<noteq> 0" "e_tid cfg \<noteq> - 1" and al: "\<not> al" by blast
    obtain w' where w': "eall_round cfg False e (map Some os) outs w = Some (Inr (outs, w'))" "unseen w w'"
      using eall_round_owned [OF o(2-7)] by blast
    have "f cfg False e (map Some os) outs w' = Some y" using run w'(1) o(1) al by simp
    from IH [OF this] show False using o unseen_obj [OF w'(2)] by blast
  qed
qed

section \<open>Reading and updating all objects\<close>

text \<open>What a successful read leaves of the counter.\<close>

definition left_count :: "eentry \<Rightarrow> nat \<Rightarrow> nat" where
  "left_count obj n = (case en_type obj of
     ESYNC_SEMAPHORE \<Rightarrow> n - 1 | ESYNC_AUTO_EVENT \<Rightarrow> 0 | ESYNC_MUTEX \<Rightarrow> 0 | _ \<Rightarrow> n)"

definition taken :: "eentry \<Rightarrow> eclient \<Rightarrow> eclient \<Rightarrow> bool" where
  "taken obj v w \<longleftrightarrow> file_of obj w = file_of obj v \<and> fdtab w = fdtab v \<and> ecount obj w = left_count obj (ecount obj v) \<and>
     ef_sem (files w (file_of obj v)) = ef_sem (files v (file_of obj v)) \<and>
     (\<forall>f. mem w (slot_of obj, f) = mem v (slot_of obj, f))"

lemma read_one_ready:
  assumes ok: "eobj_ok obj w" and sg: "esignaled cfg obj w" and own: "\<not> eowned cfg obj w" and q: "kcalm w"
  shows "\<exists>w'. read_one cfg obj w = Some (True, w') \<and> eframe obj w w' \<and> taken obj w w' \<and> mem w' = mem w"
proof -
  note d = eobj_okD [OF ok]
  note rdy = ready_revents(2) [OF ok sg own]
  let ?f = "file_of obj w"
  have rd: "fd_read (en_fd obj) w = (Inr (if en_type obj = ESYNC_SEMAPHORE then 1 else ecount obj w),
      kemit (KRead ?f (if en_type obj = ESYNC_SEMAPHORE then 1 else ecount obj w))
        (set_count ?f (if en_type obj = ESYNC_SEMAPHORE then ecount obj w - 1 else 0) w))"
    using q d rdy by (simp add: shm_simps ecount_def Let_def)
  show ?thesis
  proof (cases "en_type obj \<in> {ESYNC_SEMAPHORE, ESYNC_AUTO_EVENT, ESYNC_MUTEX}")
    case True
    let ?w = "kemit (KRead ?f (if en_type obj = ESYNC_SEMAPHORE then 1 else ecount obj w))
        (set_count ?f (if en_type obj = ESYNC_SEMAPHORE then ecount obj w - 1 else 0) w)"
    have "read_one cfg obj w = Some (True, ?w)"
      using True own q d rd by (auto simp: read_one_def eowned_def shm_simps)
    moreover have "taken obj w ?w" using True by (auto simp: taken_def frame_sel left_count_def ecount_def)
    ultimately show ?thesis by (intro exI [of _ ?w]) simp
  next
    case False
    then have "read_one cfg obj w = Some (True, w) \<and> taken obj w w"
      by (cases "en_type obj") (simp_all add: read_one_def taken_def left_count_def)
    then show ?thesis by (intro exI [of _ w]) simp
  qed
qed

lemma update_taken:
  assumes ok: "eobj_ok obj v" and sg: "esignaled cfg obj v" and own: "\<not> eowned cfg obj v"
    and t: "taken obj v w" and q: "kcalm w" and me: "e_tid cfg \<noteq> 0" "e_tid cfg \<noteq> - 1"
  shows "\<exists>st w'. update_grabbed_object cfg obj w = Some (st \<noteq> 0, w') \<and> eframe obj w w' \<and> files w' = files w \<and>
    eobj_ok obj w' \<and> a_acquire (e_tid cfg) (eobj_abs obj v) = Some (st, eobj_abs obj w')"
proof -
  note d = eobj_okD [OF ok]
  let ?s = "slot_of obj"
  have m: "\<And>f. mem w (?s, f) = mem v (?s, f)" and shm: "en_shm obj = Some ?s"
    using t d by (simp_all add: taken_def)
  have c: "ecount obj w = left_count obj (ecount obj v)" and f: "file_of obj w = file_of obj v" "fdtab w = fdtab v"
    and sem: "ef_sem (files w (file_of obj v)) = ef_sem (files v (file_of obj v))"
    using t by (simp_all add: taken_def)
  have pos: "0 < ecount obj v" by (rule ready_revents(2) [OF ok sg own])
  have okI: "eobj_ok obj w'" if "eobj_ok obj v" "fdtab w' = fdtab v" "file_of obj w' = file_of obj v"
      "ef_sem (files w' (file_of obj v)) = ef_sem (files v (file_of obj v))" "ecount obj w' \<le> EFD_MAX"
      "case en_type obj of
        ESYNC_SEMAPHORE \<Rightarrow> ecount obj w' = unat (mem w' (?s, W1)) \<and> ecount obj w' \<le> unat (mem w' (?s, W0)) \<and>
          unat (mem w' (?s, W0)) < 2 ^ 31
      | ESYNC_MUTEX \<Rightarrow> (if mem w' (?s, W0) \<in> {0, - 1} then ecount obj w' = 1 \<and> mem w' (?s, W1) = 0
           else ecount obj w' = 0 \<and> mem w' (?s, W1) \<noteq> 0)
      | _ \<Rightarrow> (0 < ecount obj w' \<longleftrightarrow> mem w' (?s, W0) \<noteq> 0) \<and> mem w' (?s, W1) = 0" for w'
    using that by (cases "en_type obj") (simp_all add: eobj_ok_def split: if_splits)
  show ?thesis
  proof (cases "en_type obj")
    case ESYNC_SEMAPHORE
    let ?w = "put_mem (?s, W1) (mem v (?s, W1) - 1) w"
    have n: "ecount obj v = unat (mem v (?s, W1))" "ecount obj v \<le> unat (mem v (?s, W0))" "unat (mem v (?s, W0)) < 2 ^ 31"
        "ecount obj v \<le> EFD_MAX"
      using ok ESYNC_SEMAPHORE by (simp_all add: eobj_ok_def)
    have "mem v (?s, W1) \<noteq> 0" using pos n(1) by auto
    then have u: "unat (mem v (?s, W1) - 1) = ecount obj v - 1" using n(1) unat_minus_1 by simp
    have cs: "ecount obj w = ecount obj v - 1" using c ESYNC_SEMAPHORE by (simp add: left_count_def)
    have "eobj_ok obj ?w"
    proof (rule okI [OF ok])
      show "fdtab ?w = fdtab v" "file_of obj ?w = file_of obj v"
        "ef_sem (files ?w (file_of obj v)) = ef_sem (files v (file_of obj v))"
        using f sem by (simp_all add: frame_sel)
      show "ecount obj ?w \<le> EFD_MAX" using cs n(4) by simp
      have "ecount obj v - 1 \<le> unat (mem v (?s, W0))" using n(2) by simp
      then show "case en_type obj of
        ESYNC_SEMAPHORE \<Rightarrow> ecount obj ?w = unat (mem ?w (?s, W1)) \<and> ecount obj ?w \<le> unat (mem ?w (?s, W0)) \<and>
          unat (mem ?w (?s, W0)) < 2 ^ 31
      | ESYNC_MUTEX \<Rightarrow> (if mem ?w (?s, W0) \<in> {0, - 1} then ecount obj ?w = 1 \<and> mem ?w (?s, W1) = 0
           else ecount obj ?w = 0 \<and> mem ?w (?s, W1) \<noteq> 0)
      | _ \<Rightarrow> (0 < ecount obj ?w \<longleftrightarrow> mem ?w (?s, W0) \<noteq> 0) \<and> mem ?w (?s, W1) = 0"
        using n(3) m cs u ESYNC_SEMAPHORE by simp
    qed
    moreover have "update_grabbed_object cfg obj w = Some ((0::nat) \<noteq> 0, ?w)"
      using q shm m ESYNC_SEMAPHORE by (simp add: update_grabbed_object_def shm_simps)
    moreover have "a_acquire (e_tid cfg) (eobj_abs obj v) = Some (0, eobj_abs obj ?w)"
      using pos cs m [of W0] by (simp add: eobj_abs_def ESYNC_SEMAPHORE)
    moreover have "eframe obj w ?w" "files ?w = files w" by simp_all
    ultimately show ?thesis by blast
  next
    case ESYNC_AUTO_EVENT
    let ?w = "put_mem (?s, W0) 0 w"
    have "eobj_ok obj ?w"
      using ok c f sem m ESYNC_AUTO_EVENT by - (rule okI [OF ok], simp_all add: frame_sel left_count_def eobj_ok_def)
    moreover have "update_grabbed_object cfg obj w = Some (False, ?w)"
      using q shm ESYNC_AUTO_EVENT by (simp add: update_grabbed_object_def shm_simps)
    ultimately show ?thesis
      using pos c ESYNC_AUTO_EVENT by (intro exI [of _ 0] exI [of _ ?w]) (simp add: eobj_abs_def left_count_def)
  next
    case ESYNC_MANUAL_EVENT
    have "eobj_ok obj w"
      using ok c f sem m ESYNC_MANUAL_EVENT by - (rule okI [OF ok], simp_all add: left_count_def eobj_ok_def)
    then show ?thesis
      using pos c ESYNC_MANUAL_EVENT
      by (intro exI [of _ 0] exI [of _ w]) (simp add: eobj_abs_def left_count_def update_grabbed_object_def)
  next
    case ESYNC_MUTEX
    let ?t = "mem v (?s, W0)"
    let ?w = "put_mem (?s, W1) (mem v (?s, W1) + 1) (put_mem (?s, W0) (e_tid cfg) w)"
    have free: "?t \<in> {0, - 1}" and n: "mem v (?s, W1) = 0"
      using ok pos ESYNC_MUTEX by (simp_all add: eobj_ok_def split: if_splits)
    have "eobj_ok obj ?w"
      using ok c f sem n me ESYNC_MUTEX by - (rule okI [OF ok], simp_all add: frame_sel left_count_def)
    moreover have "update_grabbed_object cfg obj w = Some (?t = - 1, ?w)"
      using q shm m ESYNC_MUTEX by (simp add: update_grabbed_object_def shm_simps incr_def)
    ultimately show ?thesis
      using free n me ESYNC_MUTEX
      by (intro exI [of _ "if ?t = - 1 then STATUS_ABANDONED_WAIT_0 else 0"] exI [of _ ?w])
        (auto simp: eobj_abs_def owner_state_def)
  qed (use ok in \<open>simp_all add: eobj_ok_def\<close>)
qed

text \<open>The same for a list of objects with different slots and counters.\<close>

definition lframe :: "eentry list \<Rightarrow> eclient \<Rightarrow> eclient \<Rightarrow> bool" where
  "lframe os w w' \<longleftrightarrow> intf w' = intf w \<and> kintf w' = kintf w \<and> ecintf w' = ecintf w \<and>
     ecache w' = ecache w \<and> fdtab w' = fdtab w \<and>
     (\<forall>s f. s \<notin> slot_of ` set os \<longrightarrow> mem w' (s, f) = mem w (s, f)) \<and>
     (\<forall>f. f \<notin> (\<lambda>o1. file_of o1 w) ` set os \<longrightarrow> files w' f = files w f)"

lemma lframe_file: "lframe os w w' \<Longrightarrow> file_of x w' = file_of x w"
  by (simp add: lframe_def file_of_def)

lemma lframe_cons: "eframe obj w w' \<Longrightarrow> lframe os w' w'' \<Longrightarrow> lframe (obj # os) w w''"
  by (auto simp: lframe_def eframe_def file_of_def)

lemma lframe_calm: "lframe os w w' \<Longrightarrow> kcalm w' = kcalm w"
  unfolding lframe_def kcalm_def by simp

lemma lframe_trans:
  assumes "lframe os w w'" and "lframe os w' w''"
  shows "lframe os w w''"
proof -
  have "file_of x w' = file_of x w" for x by (rule lframe_file [OF assms(1)])
  then show ?thesis using assms by (simp add: lframe_def)
qed

lemma lframe_other:
  assumes "lframe os w w'" and "slot_of x \<notin> slot_of ` set os" and "file_of x w \<notin> (\<lambda>o1. file_of o1 w) ` set os"
  shows "eobj_abs x w' = eobj_abs x w" and "eobj_ok x w' = eobj_ok x w"
    and "taken x v w' = taken x v w"
proof -
  have f: "file_of x w' = file_of x w" by (rule lframe_file [OF assms(1)])
  have e: "ecount x w' = ecount x w" "fdtab w' = fdtab w" "files w' (file_of x w) = files w (file_of x w)"
    "\<And>i. mem w' (slot_of x, i) = mem w (slot_of x, i)"
    using assms f by (simp_all add: lframe_def ecount_def)
  show "eobj_abs x w' = eobj_abs x w" by (simp add: eobj_abs_def e cong: esync_type.case_cong)
  show "eobj_ok x w' = eobj_ok x w" by (simp add: eobj_ok_def e f cong: esync_type.case_cong)
  show "taken x v w' = taken x v w" using e by (auto simp: taken_def f)
qed

lemma eframe_other_taken:
  assumes "eframe obj w w'" and "slot_of x \<noteq> slot_of obj" and "file_of x w \<noteq> file_of obj w"
  shows "taken x v w' = taken x v w" and "taken x w' w'' = taken x w w''"
proof -
  have f: "file_of x w' = file_of x w" by (rule eframe_file [OF assms(1)])
  have e: "ecount x w' = ecount x w" "fdtab w' = fdtab w" "files w' (file_of x w) = files w (file_of x w)"
    "\<And>i. mem w' (slot_of x, i) = mem w (slot_of x, i)"
    using assms f by (simp_all add: eframe_def ecount_def)
  show "taken x v w' = taken x v w" using e by (auto simp: taken_def f)
  show "taken x w' w'' = taken x w w''" using e by (auto simp: taken_def f)
qed

definition separate :: "eentry list \<Rightarrow> eclient \<Rightarrow> bool" where
  "separate os w \<longleftrightarrow> distinct (map slot_of os) \<and> distinct (map (\<lambda>o1. file_of o1 w) os)"

lemma separate_frame: "fdtab w' = fdtab w \<Longrightarrow> separate os w' = separate os w"
  by (simp add: separate_def file_of_def)

lemma separate_cons:
  "separate (obj # os) w \<Longrightarrow> x \<in> set os \<Longrightarrow> slot_of x \<noteq> slot_of obj \<and> file_of x w \<noteq> file_of obj w"
  unfolding separate_def by simp (metis imageI)

lemma read_all_ready:
  assumes "kcalm w" and "separate os w" and "\<forall>obj \<in> set os. eobj_ok obj w \<and> esignaled cfg obj w \<and> \<not> eowned cfg obj w"
  shows "\<exists>w'. read_all cfg i (map Some os) w = Some (None, w') \<and> lframe os w w' \<and> mem w' = mem w \<and>
    (\<forall>obj \<in> set os. taken obj w w')"
  using assms
proof (induction os arbitrary: w i)
  case Nil
  then show ?case by (simp add: lframe_def)
next
  case (Cons obj os)
  obtain w1 where r: "read_one cfg obj w = Some (True, w1)" "eframe obj w w1" "taken obj w w1" "mem w1 = mem w"
    using read_one_ready [of obj w cfg] Cons.prems by auto
  have sep: "slot_of x \<noteq> slot_of obj \<and> file_of x w \<noteq> file_of obj w" if "x \<in> set os" for x
    by (rule separate_cons [OF Cons.prems(2) that])
  have fd: "fdtab w1 = fdtab w" and q: "kcalm w1" using r(2) Cons.prems(1) eframe_calm [OF r(2)] by (simp_all add: eframe_def)
  have "eobj_ok x w1 \<and> esignaled cfg x w1 \<and> \<not> eowned cfg x w1" if "x \<in> set os" for x
    using eframe_other [OF r(2)] sep [OF that] Cons.prems(3) that r(4) by (simp add: esignaled_def eowned_def)
  moreover have "separate os w1" using Cons.prems(2) separate_frame [OF fd, of os] by (simp add: separate_def)
  ultimately obtain w' where w': "read_all cfg (Suc i) (map Some os) w1 = Some (None, w')" "lframe os w1 w'" "mem w' = mem w1"
      "\<forall>x \<in> set os. taken x w1 w'"
    using Cons.IH [OF q] by blast
  have fo: "file_of x w1 = file_of x w" for x by (rule eframe_file [OF r(2)])
  have "slot_of obj \<notin> slot_of ` set os" "file_of obj w1 \<notin> (\<lambda>o1. file_of o1 w1) ` set os"
    using sep by (force simp: fo)+
  then have "taken obj w w'" using lframe_other(3) [OF w'(2)] r(3) by simp
  moreover have "taken x w w'" if "x \<in> set os" for x
    using w'(4) eframe_other_taken(2) [OF r(2)] sep [OF that] that by blast
  ultimately show ?case using r w' lframe_cons [OF r(2) w'(2)] by simp
qed

lemma update_all_taken:
  assumes "kcalm w" and "separate os w" and "e_tid cfg \<noteq> 0" and "e_tid cfg \<noteq> - 1"
    and "\<forall>obj \<in> set os. eobj_ok obj v \<and> esignaled cfg obj v \<and> \<not> eowned cfg obj v \<and> taken obj v w"
  shows "\<exists>w' st. update_all cfg ab (map Some os) w = Some (ab \<or> (\<exists>obj \<in> set os. st obj \<noteq> 0), w') \<and> lframe os w w' \<and>
    (\<forall>obj \<in> set os. eobj_ok obj w' \<and> a_acquire (e_tid cfg) (eobj_abs obj v) = Some (st obj, eobj_abs obj w'))"
  using assms
proof (induction os arbitrary: w ab)
  case Nil
  then show ?case by (simp add: lframe_def)
next
  case (Cons obj os)
  obtain st1 w1 where u: "update_grabbed_object cfg obj w = Some (st1 \<noteq> 0, w1)" "eframe obj w w1" "eobj_ok obj w1"
      "a_acquire (e_tid cfg) (eobj_abs obj v) = Some (st1, eobj_abs obj w1)"
    using update_taken [of obj v cfg w] Cons.prems by auto
  have sep: "slot_of x \<noteq> slot_of obj \<and> file_of x w \<noteq> file_of obj w" if "x \<in> set os" for x
    by (rule separate_cons [OF Cons.prems(2) that])
  have fd: "fdtab w1 = fdtab w" and q: "kcalm w1" using u(2) Cons.prems(1) eframe_calm [OF u(2)] by (simp_all add: eframe_def)
  have "taken x v w1" if "x \<in> set os" for x
    using eframe_other_taken(1) [OF u(2)] sep [OF that] Cons.prems(5) that by simp
  then have "\<forall>x \<in> set os. eobj_ok x v \<and> esignaled cfg x v \<and> \<not> eowned cfg x v \<and> taken x v w1"
    using Cons.prems(5) by simp
  moreover have "separate os w1" using Cons.prems(2) separate_frame [OF fd, of os] by (simp add: separate_def)
  ultimately obtain w' st where w': "update_all cfg (ab \<or> st1 \<noteq> 0) (map Some os) w1 =
        Some ((ab \<or> st1 \<noteq> 0) \<or> (\<exists>x \<in> set os. st x \<noteq> 0), w')" "lframe os w1 w'"
      "\<forall>x \<in> set os. eobj_ok x w' \<and> a_acquire (e_tid cfg) (eobj_abs x v) = Some (st x, eobj_abs x w')"
    using Cons.IH [OF q _ Cons.prems(3,4)] by blast
  have fo: "file_of x w1 = file_of x w" for x by (rule eframe_file [OF u(2)])
  have "slot_of obj \<notin> slot_of ` set os" "file_of obj w1 \<notin> (\<lambda>o1. file_of o1 w1) ` set os"
    using sep by (force simp: fo)+
  then have obj: "eobj_ok obj w' \<and> eobj_abs obj w' = eobj_abs obj w1" using lframe_other [OF w'(2)] u(3) by simp
  have notin: "obj \<notin> set os" using sep by blast
  let ?st = "st(obj := st1)"
  have "\<forall>x \<in> set (obj # os). eobj_ok x w' \<and> a_acquire (e_tid cfg) (eobj_abs x v) = Some (?st x, eobj_abs x w')"
    using obj u(4) w'(3) notin by auto
  moreover have "(\<exists>x \<in> set (obj # os). ?st x \<noteq> 0) \<longleftrightarrow> st1 \<noteq> 0 \<or> (\<exists>x \<in> set os. st x \<noteq> 0)"
    using notin by auto
  moreover have "update_all cfg ab (map Some (obj # os)) w = Some (ab \<or> (st1 \<noteq> 0 \<or> (\<exists>x \<in> set os. st x \<noteq> 0)), w')"
    using u(1) w'(1) by (simp add: disj_assoc)
  ultimately show ?case using lframe_cons [OF u(2) w'(2)] by (intro exI [of _ w'] exI [of _ ?st]) simp
qed

section \<open>Waiting for all, undisturbed\<close>

lemma eall_round_ready:
  assumes q: "kcalm w" and sep: "separate os w" and me: "e_tid cfg \<noteq> 0" "e_tid cfg \<noteq> - 1"
    and rdy: "\<forall>obj \<in> set os. eobj_ok obj w \<and> esignaled cfg obj w \<and> \<not> eowned cfg obj w"
  shows "\<exists>w1 w' st. eall_round cfg False e (map Some os) outs w =
      Some (Inl (if \<exists>obj \<in> set os. st obj \<noteq> 0 then STATUS_ABANDONED else STATUS_SUCCESS, w')) \<and>
    unseen w w1 \<and> lframe os w1 w' \<and>
    (\<forall>obj \<in> set os. eobj_ok obj w' \<and> a_acquire (e_tid cfg) (eobj_abs obj w) = Some (st obj, eobj_abs obj w'))"
proof -
  obtain w1 where w1: "poll_sequence cfg False e (map Some os) outs w = Some (Inr (outs, w1))" and u: "unseen w w1"
    using poll_sequence_ready [OF q] rdy by blast
  note un = unseen_obj [OF u]
  have q1: "kcalm w1" using un q by simp
  have sep1: "separate os w1" using sep separate_frame [of w1 w os] u by (simp add: unseen_def)
  have rdy1: "\<forall>obj \<in> set os. eobj_ok obj w1 \<and> esignaled cfg obj w1 \<and> \<not> eowned cfg obj w1" using rdy un by simp
  have "filter (\<lambda>fd. fd_revents w1 fd \<noteq> RNone) (map obj_fd (map Some os)) = map obj_fd (map Some os)"
    using rdy1 ready_revents(1) by (auto simp: filter_id_conv obj_fd_def)
  then have "length (filter (\<lambda>fd. fd_revents w1 fd \<noteq> RNone) (map obj_fd (map Some os))) = length (map Some os)"
    by (metis length_map)
  then have poll: "poll_now (map obj_fd (map Some os)) w1 = (length (map Some os), w1)"
    unfolding poll_now_def kinterfere_calm [OF kcalm_intf(2) [OF q1]] Let_def by (rule arg_cong2 [where f = Pair, OF _ refl])
  obtain w2 where w2: "read_all cfg 0 (map Some os) w1 = Some (None, w2)" "lframe os w1 w2" "\<forall>obj \<in> set os. taken obj w1 w2"
    using read_all_ready [OF q1 sep1 rdy1] by blast
  have q2: "kcalm w2" using lframe_calm [OF w2(2)] q1 by simp
  have sep2: "separate os w2" using sep1 separate_frame [of w2 w1 os] w2(2) by (simp add: lframe_def)
  have "\<forall>obj \<in> set os. eobj_ok obj w1 \<and> esignaled cfg obj w1 \<and> \<not> eowned cfg obj w1 \<and> taken obj w1 w2"
    using rdy1 w2(3) by simp
  from update_all_taken [OF q2 sep2 me this, of False]
  obtain w' st where w': "update_all cfg False (map Some os) w2 = Some (False \<or> (\<exists>obj \<in> set os. st obj \<noteq> 0), w')"
      "lframe os w2 w'"
      "\<forall>obj \<in> set os. eobj_ok obj w' \<and> a_acquire (e_tid cfg) (eobj_abs obj w1) = Some (st obj, eobj_abs obj w')"
    by blast
  have eq: "eobj_abs x w1 = eobj_abs x w" for x
  proof -
    have a: "mem w1 = mem w" "fdtab w1 = fdtab w" "files w1 = files w" using u by (simp_all add: unseen_def)
    have c: "ecount x w1 = ecount x w" unfolding ecount_def file_of_def a by (rule refl)
    show ?thesis unfolding eobj_abs_def a(1) c by (rule refl)
  qed
  have "eall_round cfg False e (map Some os) outs w =
      Some (Inl (if \<exists>obj \<in> set os. st obj \<noteq> 0 then STATUS_ABANDONED else STATUS_SUCCESS, w'))"
    using w'(1) unfolding eall_round_def w1 by (simp only: bind.bind_lunit sum.case prod.case poll Let_def w2(1) option.case if_not_P simp_thms if_False)
  then show ?thesis using u lframe_trans [OF w2(2) w'(2)] w'(3) eq by auto
qed

text \<open>An operation on several objects that keeps them well formed keeps the invariant.\<close>

lemma esync_list_step:
  assumes inv: "esync_inv cfg hs objs w" and os: "list_all2 (\<lambda>h obj. map_of (zip hs objs) h = Some obj) ks os"
    and fr: "lframe os w w'" and ok: "\<forall>obj \<in> set os. eobj_ok obj w'"
  shows "esync_inv cfg hs objs w'"
    and "esync_abs hs objs w' = (\<lambda>h. if h \<in> set ks then map_option (\<lambda>obj. eobj_abs obj w') (map_of (zip hs objs) h)
          else esync_abs hs objs w h)"
proof -
  have sub: "set os \<subseteq> set objs"
  proof
    fix x
    assume "x \<in> set os"
    then obtain k where "map_of (zip hs objs) k = Some x"
      using os by (auto simp: in_set_conv_nth list_all2_conv_all_nth)
    then show "x \<in> set objs" by (meson in_set_zipE map_of_SomeD)
  qed
  have out: "slot_of x \<notin> slot_of ` set os \<and> file_of x w \<notin> (\<lambda>o1. file_of o1 w) ` set os"
    if "x \<in> set objs" "x \<notin> set os" for x
    using eobj_differ [OF inv that(1)] sub that(2) by blast
  have others: "eobj_abs x w' = eobj_abs x w" "eobj_ok x w' = eobj_ok x w" if "x \<in> set objs" "x \<notin> set os" for x
    using lframe_other [OF fr] out [OF that] by simp_all
  have "\<forall>x \<in> set objs. eobj_ok x w'" using ok others inv by (metis esync_inv_def)
  moreover have "(\<lambda>x. file_of x w') = (\<lambda>x. file_of x w)" by (rule ext) (rule lframe_file [OF fr])
  moreover have "kcalm w' = kcalm w \<and> ecintf w' = ecintf w \<and> ecache w' = ecache w"
    using fr lframe_calm [OF fr] by (simp add: lframe_def)
  ultimately show "esync_inv cfg hs objs w'" using inv by (simp add: esync_inv_def)
  have keys: "h \<in> set ks" if h: "map_of (zip hs objs) h = Some x" and x: "x \<in> set os" for h x
  proof -
    obtain i where i: "i < length ks" "os ! i = x" using x os by (auto simp: in_set_conv_nth dest: list_all2_lengthD)
    then have "map_of (zip hs objs) (ks ! i) = Some x" using os by (auto simp: list_all2_conv_all_nth)
    then have "(ks ! i, x) \<in> set (zip hs objs)" "(h, x) \<in> set (zip hs objs)" using h by (simp_all add: map_of_SomeD)
    then obtain m n where "hs ! m = ks ! i" "objs ! m = x" "hs ! n = h" "objs ! n = x" "m < length objs" "n < length objs"
      unfolding in_set_zip by auto
    moreover have "distinct objs" using inv by (simp add: esync_inv_def distinct_map)
    ultimately have "h = ks ! i" by (metis nth_eq_iff_index_eq)
    then show ?thesis using i(1) by simp
  qed
  show "esync_abs hs objs w' = (\<lambda>h. if h \<in> set ks then map_option (\<lambda>obj. eobj_abs obj w') (map_of (zip hs objs) h)
          else esync_abs hs objs w h)"
  proof
    fix h
    show "esync_abs hs objs w' h = (if h \<in> set ks then map_option (\<lambda>obj. eobj_abs obj w') (map_of (zip hs objs) h)
          else esync_abs hs objs w h)"
    proof (cases "h \<in> set ks")
      case True
      then show ?thesis by (simp add: esync_abs_def)
    next
      case False
      have "\<And>x. map_of (zip hs objs) h = Some x \<Longrightarrow> x \<in> set objs \<and> x \<notin> set os"
        using keys False by (meson in_set_zipE map_of_SomeD)
      then show ?thesis using False others(1) by (cases "map_of (zip hs objs) h") (simp_all add: esync_abs_def)
    qed
  qed
qed

text \<open>The objects of the handles of a wait.\<close>

lemma wait_handles:
  assumes inv: "esync_inv cfg hs objs w" and os: "list_all2 (\<lambda>h obj. map_of (zip hs objs) h = Some obj) ks os"
    and dist: "distinct ks" and sg: "\<forall>k \<in> set ks. Option.bind (esync_abs hs objs w k) (a_acquire (e_tid cfg)) \<noteq> None"
  shows "separate os w" and "\<forall>obj \<in> set os. eobj_ok obj w \<and> esignaled cfg obj w"
proof -
  have at: "map_of (zip hs objs) (ks ! i) = Some (os ! i)" and len: "length os = length ks" if "i < length os" for i
    using os that by (auto simp: list_all2_conv_all_nth)
  have l: "length os = length ks" using os by (simp add: list_all2_lengthD)
  have in_objs: "os ! i \<in> set objs" if "i < length os" for i
    using at [OF that] by (meson in_set_zipE map_of_SomeD)
  have ne: "os ! i \<noteq> os ! j" if ij: "i < length os" "j < length os" "i \<noteq> j" for i j
  proof
    assume eq: "os ! i = os ! j"
    have "(ks ! i, os ! i) \<in> set (zip hs objs)" "(ks ! j, os ! i) \<in> set (zip hs objs)"
      using at [OF ij(1)] at [OF ij(2)] eq by (simp_all add: map_of_SomeD)
    then obtain m n where "hs ! m = ks ! i" "objs ! m = os ! i" "hs ! n = ks ! j" "objs ! n = os ! i" "m < length objs" "n < length objs"
      unfolding in_set_zip by auto
    moreover have "distinct objs" using inv by (simp add: esync_inv_def distinct_map)
    ultimately have "ks ! i = ks ! j" by (metis nth_eq_iff_index_eq)
    then show False using dist ij l by (simp add: nth_eq_iff_index_eq)
  qed
  then show "separate os w"
    using eobj_differ [OF inv in_objs in_objs] by (simp add: separate_def distinct_conv_nth)
  show "\<forall>obj \<in> set os. eobj_ok obj w \<and> esignaled cfg obj w"
  proof
    fix obj
    assume "obj \<in> set os"
    then obtain i where i: "i < length os" "os ! i = obj" by (auto simp: in_set_conv_nth)
    have "esync_abs hs objs w (ks ! i) = Some (eobj_abs obj w)" using at [OF i(1)] i(2) by (simp add: esync_abs_def)
    then show "eobj_ok obj w \<and> esignaled cfg obj w"
      using bspec [OF sg nth_mem [of i ks]] i l esync_lookup(2) [OF inv at [OF i(1)]] by (simp add: esignaled_def)
  qed
qed

lemma eowned_abs: "eobj_ok obj w \<Longrightarrow> e_tid cfg \<noteq> 0 \<Longrightarrow> e_tid cfg \<noteq> - 1 \<Longrightarrow>
    eowned cfg obj w \<longleftrightarrow> (\<exists>n. eobj_abs obj w = AMutex (MOwned (e_tid cfg) n))"
  by (cases "en_type obj") (auto simp: eowned_def eobj_abs_def owner_state_def)

lemma esync_all_taken:
  assumes inv: "esync_inv cfg hs objs w" and dist: "distinct ks" and two: "2 \<le> length ks"
    and sg: "\<forall>k \<in> set ks. Option.bind (esync_abs hs objs w k) (a_acquire (e_tid cfg)) \<noteq> None"
    and own: "\<forall>k \<in> set ks. \<forall>n. esync_abs hs objs w k \<noteq> Some (AMutex (MOwned (e_tid cfg) n))"
  shows "\<exists>ab w'. esync_wait_objects cfg ks False False timeout outs w =
      Some (if ab then STATUS_ABANDONED else STATUS_SUCCESS, w') \<and> esync_inv cfg hs objs w' \<and>
    a_all (e_tid cfg) ks (esync_abs hs objs w) = Some (ab, esync_abs hs objs w')"
proof -
  let ?me = "e_tid cfg"
  have ne: "ks \<noteq> []" using two by auto
  have known: "\<forall>k \<in> set ks. esync_abs hs objs w k \<noteq> None"
  proof
    fix k
    assume "k \<in> set ks"
    from bspec [OF sg this] show "esync_abs hs objs w k \<noteq> None" by (cases "esync_abs hs objs w k") simp_all
  qed
  obtain os w0 where os: "list_all2 (\<lambda>h obj. map_of (zip hs objs) h = Some obj) ks os" and u0: "unseen w w0"
    and run: "esync_wait_objects cfg ks False False timeout outs w =
      eall_loop cfg False (end_of_timeout (e_now cfg (eclock w)) timeout) (map Some os) outs w0"
    using esync_wait_entry [OF inv ne known] two by fastforce
  let ?e = "end_of_timeout (e_now cfg (eclock w)) timeout"
  note i0 = unseen_sel(1,2) [OF u0, where hs = hs and objs = objs]
  have inv0: "esync_inv cfg hs objs w0" using inv i0 by simp
  have me: "?me \<noteq> 0" "?me \<noteq> - 1" and q0: "kcalm w0" using inv0 by (auto simp: esync_inv_def)
  note wh = wait_handles [OF inv0 os dist]
  have sg0: "\<forall>k \<in> set ks. Option.bind (esync_abs hs objs w0 k) (a_acquire ?me) \<noteq> None" using sg i0 by simp
  have free: "\<not> eowned cfg obj w0" if obj: "obj \<in> set os" for obj
  proof -
    obtain i where i: "i < length ks" "map_of (zip hs objs) (ks ! i) = Some obj"
      using obj os by (auto simp: in_set_conv_nth list_all2_conv_all_nth)
    have "esync_abs hs objs w0 (ks ! i) = Some (eobj_abs obj w0)" by (simp add: esync_abs_def i(2))
    then have "\<forall>n. eobj_abs obj w0 \<noteq> AMutex (MOwned ?me n)"
      using bspec [OF own nth_mem [OF i(1)]] unfolding i0(2) by simp
    moreover have "eobj_ok obj w0" using wh(2) [OF sg0] obj by simp
    ultimately show ?thesis using eowned_abs [OF _ me] by blast
  qed
  then have "\<forall>obj \<in> set os. eobj_ok obj w0 \<and> esignaled cfg obj w0 \<and> \<not> eowned cfg obj w0" using wh(2) [OF sg0] by simp
  from eall_round_ready [OF q0 wh(1) [OF sg0] me this, of ?e outs] obtain w1 w' st
    where rnd: "eall_round cfg False ?e (map Some os) outs w0 =
        Some (Inl (if \<exists>obj \<in> set os. st obj \<noteq> 0 then STATUS_ABANDONED else STATUS_SUCCESS, w'))"
      and u1: "unseen w0 w1" and fr: "lframe os w1 w'"
      and acq: "\<forall>obj \<in> set os. eobj_ok obj w' \<and> a_acquire ?me (eobj_abs obj w0) = Some (st obj, eobj_abs obj w')"
    by (elim exE conjE) (rule that)
  note i1 = unseen_sel(1,2) [OF u1, where hs = hs and objs = objs]
  have inv1: "esync_inv cfg hs objs w1" using inv0 i1 by simp
  note fin = esync_list_step [OF inv1 os fr]
  have ok': "\<forall>obj \<in> set os. eobj_ok obj w'" using acq by simp
  define ob where "ob = (\<lambda>k. the (map_of (zip hs objs) k))"
  have ob: "map_of (zip hs objs) k = Some (ob k) \<and> ob k \<in> set os" if k: "k \<in> set ks" for k
    using k os by (auto simp: in_set_conv_nth list_all2_conv_all_nth ob_def)
  have ks_os: "(\<exists>k \<in> set ks. st (ob k) \<noteq> 0) \<longleftrightarrow> (\<exists>obj \<in> set os. st obj \<noteq> 0)"
  proof
    assume "\<exists>obj \<in> set os. st obj \<noteq> 0"
    then obtain i where "i < length os" "st (os ! i) \<noteq> 0" by (auto simp: in_set_conv_nth)
    then have "i < length ks" "ob (ks ! i) = os ! i" using os by (auto simp: list_all2_conv_all_nth ob_def)
    then show "\<exists>k \<in> set ks. st (ob k) \<noteq> 0" using \<open>st (os ! i) \<noteq> 0\<close> by (metis nth_mem)
  qed (use ob in blast)
  have "\<forall>k \<in> set ks. Option.bind (esync_abs hs objs w0 k) (a_acquire ?me) = Some (st (ob k), eobj_abs (ob k) w')"
    using ob acq by (simp add: esync_abs_def)
  from a_all_distinct [OF dist this]
  have "a_all ?me ks (esync_abs hs objs w0) =
      Some (\<exists>k \<in> set ks. st (ob k) \<noteq> 0, \<lambda>h. if h \<in> set ks then Some (eobj_abs (ob h) w') else esync_abs hs objs w0 h)" .
  moreover have "esync_abs hs objs w' = (\<lambda>h. if h \<in> set ks then Some (eobj_abs (ob h) w') else esync_abs hs objs w0 h)"
    using fin(2) [OF ok'] ob i1(2) by (auto simp: fun_eq_iff)
  ultimately have "a_all ?me ks (esync_abs hs objs w) = Some (\<exists>obj \<in> set os. st obj \<noteq> 0, esync_abs hs objs w')"
    using ks_os i0(2) by simp
  moreover have "esync_wait_objects cfg ks False False timeout outs w =
      Some (if \<exists>obj \<in> set os. st obj \<noteq> 0 then STATUS_ABANDONED else STATUS_SUCCESS, w')"
    unfolding run by (subst eall_loop.simps) (simp add: rnd)
  ultimately show ?thesis using fin(1) [OF ok'] by blast
qed

lemma esync_all_owned:
  assumes inv: "esync_inv cfg hs objs w" and dist: "distinct ks" and two: "2 \<le> length ks"
    and sg: "\<forall>k \<in> set ks. Option.bind (esync_abs hs objs w k) (a_acquire (e_tid cfg)) \<noteq> None"
    and own: "k \<in> set ks" "esync_abs hs objs w k = Some (AMutex (MOwned (e_tid cfg) n))"
  shows "esync_wait_objects cfg ks False False timeout outs w = None"
proof -
  have ne: "ks \<noteq> []" using two by auto
  have known: "\<forall>k \<in> set ks. esync_abs hs objs w k \<noteq> None"
  proof
    fix k
    assume "k \<in> set ks"
    from bspec [OF sg this] show "esync_abs hs objs w k \<noteq> None" by (cases "esync_abs hs objs w k") simp_all
  qed
  obtain os w0 where os: "list_all2 (\<lambda>h obj. map_of (zip hs objs) h = Some obj) ks os" and u0: "unseen w w0"
    and run: "esync_wait_objects cfg ks False False timeout outs w =
      eall_loop cfg False (end_of_timeout (e_now cfg (eclock w)) timeout) (map Some os) outs w0"
    using esync_wait_entry [OF inv ne known] two by fastforce
  note i0 = unseen_sel(1,2) [OF u0, where hs = hs and objs = objs]
  have inv0: "esync_inv cfg hs objs w0" using inv i0 by simp
  have me: "e_tid cfg \<noteq> 0" "e_tid cfg \<noteq> - 1" and q0: "kcalm w0" using inv0 by (auto simp: esync_inv_def)
  have ok: "\<forall>obj \<in> set os. eobj_ok obj w0 \<and> esignaled cfg obj w0"
    using wait_handles(2) [OF inv0 os dist] sg i0(2) by simp
  obtain i where i: "i < length ks" "ks ! i = k" using own(1) by (auto simp: in_set_conv_nth)
  then have at: "map_of (zip hs objs) k = Some (os ! i)" and mem_os: "os ! i \<in> set os"
    using os by (auto simp: list_all2_conv_all_nth)
  have "eobj_abs (os ! i) w0 = AMutex (MOwned (e_tid cfg) n)"
    using own(2) unfolding i0(2) [symmetric] by (simp add: esync_abs_def at)
  moreover have "eobj_ok (os ! i) w0" using ok mem_os by simp
  ultimately have "eowned cfg (os ! i) w0" using eowned_abs [OF _ me] by blast
  then have "eall_loop cfg False e (map Some os) outs w0 = None" for e
    using eall_loop_spins [of cfg False e "map Some os" outs w0] q0 ok mem_os me
    by (cases "eall_loop cfg False e (map Some os) outs w0") blast+
  then show ?thesis by (simp add: run)
qed

section \<open>Writing back after a failed attempt\<close>

definition ereads :: "esync_type \<Rightarrow> bool" where
  "ereads t \<longleftrightarrow> t = ESYNC_MUTEX \<or> t = ESYNC_SEMAPHORE \<or> t = ESYNC_AUTO_EVENT"

text \<open>One attempt on the counters alone, with the descriptors and owners as they are in \<open>v\<close>.\<close>

definition e_avail :: "ecfg \<Rightarrow> eclient \<Rightarrow> eentry \<Rightarrow> (nat \<Rightarrow> efd) \<Rightarrow> bool" where
  "e_avail cfg v obj fs \<longleftrightarrow> eowned cfg obj v \<or> \<not> ereads (en_type obj) \<or> ef_count (fs (file_of obj v)) \<noteq> 0"

definition e_clean :: "ecfg \<Rightarrow> eclient \<Rightarrow> eentry \<Rightarrow> (nat \<Rightarrow> efd) \<Rightarrow> bool" where
  "e_clean cfg v obj fs \<longleftrightarrow> eowned cfg obj v \<or> ereads (en_type obj) \<and>
     (ef_sem (fs (file_of obj v)) \<or> ef_count (fs (file_of obj v)) = 1)"

definition e_grab :: "ecfg \<Rightarrow> eclient \<Rightarrow> eentry \<Rightarrow> (nat \<Rightarrow> efd) \<Rightarrow> nat \<Rightarrow> efd" where
  "e_grab cfg v obj fs =
     (if eowned cfg obj v \<or> \<not> ereads (en_type obj) then fs
      else fs(file_of obj v := (fs (file_of obj v))\<lparr>ef_count :=
             (if ef_sem (fs (file_of obj v)) then ef_count (fs (file_of obj v)) - 1 else 0)\<rparr>))"

definition e_undo :: "ecfg \<Rightarrow> eclient \<Rightarrow> eentry \<Rightarrow> (nat \<Rightarrow> efd) \<Rightarrow> nat \<Rightarrow> efd" where
  "e_undo cfg v obj fs =
     (if eowned cfg obj v then fs
      else fs(file_of obj v := (fs (file_of obj v))\<lparr>ef_count := ef_count (fs (file_of obj v)) + 1\<rparr>))"

interpretation esync_all: waitable "e_avail cfg v" "e_clean cfg v" "e_grab cfg v" "e_undo cfg v"
  for cfg v
  by unfold_locales (auto simp: e_avail_def e_clean_def e_grab_def e_undo_def fun_eq_iff)

text \<open>The state \<open>w\<close> is \<open>v\<close> with the counters \<open>fs\<close>.\<close>

definition with_files :: "eclient \<Rightarrow> (nat \<Rightarrow> efd) \<Rightarrow> eclient \<Rightarrow> bool" where
  "with_files v fs w \<longleftrightarrow> intf w = [] \<and> kintf w = [] \<and> mem w = mem v \<and> fdtab w = fdtab v \<and> files w = fs"

definition reachable_fds :: "eclient \<Rightarrow> eentry list \<Rightarrow> bool" where
  "reachable_fds v os \<longleftrightarrow> (\<forall>obj \<in> set os. en_shm obj = Some (slot_of obj) \<and> fdtab v (en_fd obj) = Some (file_of obj v))"

lemma read_all_files:
  assumes "with_files v fs w" and "reachable_fds v os" and "read_all cfg k (map Some os) w = Some (late, w')"
  shows "\<exists>ys fs'. grab_prefix (e_avail cfg v) (e_grab cfg v) os fs = (ys, fs') \<and> with_files v fs' w' \<and>
    (case late of None \<Rightarrow> ys = os | Some i \<Rightarrow> i = k + length ys \<and> length ys < length os)"
  using assms
proof (induction os arbitrary: w fs k)
  case Nil
  then show ?case by simp
next
  case (Cons obj os)
  let ?f = "file_of obj v"
  have shm: "en_shm obj = Some (slot_of obj)" and fd: "fdtab v (en_fd obj) = Some ?f" and os: "reachable_fds v os"
    using Cons.prems(2) by (auto simp: reachable_fds_def)
  have w: "intf w = []" "kintf w = []" "mem w = mem v" "fdtab w (en_fd obj) = Some ?f" "files w = fs" "fdtab w = fdtab v"
    using Cons.prems(1) fd by (simp_all add: with_files_def)
  obtain w1 where one: "read_one cfg obj w = Some (e_avail cfg v obj fs, w1)"
    and w1: "e_avail cfg v obj fs \<Longrightarrow> with_files v (e_grab cfg v obj fs) w1"
            "\<not> e_avail cfg v obj fs \<Longrightarrow> with_files v fs w1"
  proof (cases "eowned cfg obj v \<or> \<not> ereads (en_type obj)")
    case True
    then have "read_one cfg obj w = Some (True, w)"
      using shm w by (cases "en_type obj") (auto simp: read_one_def ereads_def eowned_def shm_simps)
    then show thesis
      using True Cons.prems(1) by (intro that [of w]) (auto simp: e_avail_def e_grab_def)
  next
    case False
    let ?r = "fd_read (en_fd obj) w"
    have "read_one cfg obj w = Some (case ?r of (Inl e, w1) \<Rightarrow> (False, w1) | (Inr v, w1) \<Rightarrow> (True, w1))"
      using False shm w by (cases "en_type obj") (auto simp: read_one_def ereads_def eowned_def shm_simps)
    then show thesis
      using False w
      by (intro that [of "snd ?r"])
        (auto simp: fd_read_calm e_avail_def e_grab_def with_files_def Let_def kemit_def set_count_def)
  qed
  show ?case
  proof (cases "e_avail cfg v obj fs")
    case True
    then have "read_all cfg (Suc k) (map Some os) w1 = Some (late, w')" using Cons.prems(3) one by simp
    from Cons.IH [OF w1(1) [OF True] os this] show ?thesis using True by (auto split: option.splits)
  next
    case False
    then show ?thesis using Cons.prems(3) one w1(2) by auto
  qed
qed

lemma write_back_one_files:
  assumes "with_files v fs w" and "reachable_fds v [obj]"
    and room: "\<not> eowned cfg obj v \<Longrightarrow> ef_count (fs (file_of obj v)) < EFD_MAX"
  shows "\<exists>w'. write_back_one cfg obj w = Some (None, w') \<and> with_files v (e_undo cfg v obj fs) w'"
proof -
  let ?f = "file_of obj v"
  have shm: "en_shm obj = Some (slot_of obj)" and fd: "fdtab v (en_fd obj) = Some ?f"
    using assms(2) by (auto simp: reachable_fds_def)
  have w: "intf w = []" "kintf w = []" "mem w = mem v" "fdtab w (en_fd obj) = Some ?f" "files w = fs" "fdtab w = fdtab v"
    using assms(1) fd by (simp_all add: with_files_def)
  show ?thesis
  proof (cases "eowned cfg obj v")
    case True
    then have "write_back_one cfg obj w = Some (None, w)"
      using shm w by (simp add: write_back_one_def eowned_def shm_simps)
    then show ?thesis using True assms(1) by (simp add: e_undo_def)
  next
    case False
    let ?w = "kemit (KWrite ?f 1) (set_count ?f (ef_count (fs ?f) + 1) w)"
    have "fd_write (en_fd obj) 1 w = (Inr (), ?w)"
      using w room [OF False] by (simp add: fd_write_calm)
    then have "write_back_one cfg obj w = Some (None, ?w)"
      using False shm w by (auto simp: write_back_one_def eowned_def shm_simps)
    moreover have "with_files v (e_undo cfg v obj fs) ?w"
      using w False by (simp add: with_files_def e_undo_def)
    ultimately show ?thesis by blast
  qed
qed

lemma write_back_append:
  assumes "write_back cfg (map Some xs) w = Some (None, w1)"
  shows "write_back cfg (map Some (xs @ ys)) w = write_back cfg (map Some ys) w1"
  using assms
proof (induction xs arbitrary: w)
  case (Cons x xs)
  then show ?case by (auto split: Option.bind_splits option.splits)
qed simp

text \<open>Writing back in reverse order what an attempt read, from the contract of \<open>Waitable\<close>.\<close>

lemma write_back_restores:
  assumes "grab_prefix (e_avail cfg v) (e_grab cfg v) os fs = (ys, fs')"
    and "grabs_cleanly (e_avail cfg v) (e_clean cfg v) (e_grab cfg v) os fs"
    and "\<forall>f. ef_count (fs f) \<le> EFD_MAX" and "reachable_fds v os" and "with_files v fs' w"
  shows "\<exists>w'. write_back cfg (map Some (rev ys)) w = Some (None, w') \<and> with_files v fs w'"
  using assms
proof (induction os arbitrary: fs ys)
  case Nil
  then show ?case by simp
next
  case (Cons x os)
  show ?case
  proof (cases "e_avail cfg v x fs")
    case True
    obtain zs where z: "grab_prefix (e_avail cfg v) (e_grab cfg v) os (e_grab cfg v x fs) = (zs, fs')" and ys: "ys = x # zs"
      using Cons.prems(1) True by (auto split: prod.splits)
    have clean: "e_clean cfg v x fs" and rest: "grabs_cleanly (e_avail cfg v) (e_clean cfg v) (e_grab cfg v) os (e_grab cfg v x fs)"
      using Cons.prems(2) True by simp_all
    have le: "ef_count (e_grab cfg v x fs f) \<le> EFD_MAX" for f
      using Cons.prems(3) [rule_format, of f] by (auto simp: e_grab_def)
    have fds: "reachable_fds v os" "reachable_fds v [x]" using Cons.prems(4) by (simp_all add: reachable_fds_def)
    obtain w1 where w1: "write_back cfg (map Some (rev zs)) w = Some (None, w1)" "with_files v (e_grab cfg v x fs) w1"
      using Cons.IH [OF z rest _ fds(1) Cons.prems(5)] le by blast
    have "\<not> eowned cfg x v \<Longrightarrow> ef_count (e_grab cfg v x fs (file_of x v)) < EFD_MAX"
      using Cons.prems(3) [rule_format, of "file_of x v"] clean True
      by (auto simp: e_grab_def e_clean_def e_avail_def EFD_MAX_def)
    then obtain w2 where "write_back_one cfg x w1 = Some (None, w2)" "with_files v (e_undo cfg v x (e_grab cfg v x fs)) w2"
      using write_back_one_files [OF w1(2) fds(2)] by blast
    moreover have "e_undo cfg v x (e_grab cfg v x fs) = fs" by (rule esync_all.undo_grab [OF True clean])
    ultimately show ?thesis using write_back_append [OF w1(1), of "[x]"] by (simp add: ys)
  next
    case False
    then show ?thesis using Cons.prems by simp
  qed
qed

section \<open>Properties\<close>

text \<open>C7: Waiting for all of several objects, undisturbed: when all are signaled and the caller owns none of
  the mutexes, the wait returns at once, reports an abandoned mutex if there was one, and has acquired
  every object exactly as acquiring them one after the other does; slots and counters still agree.\<close>
theorem esync_wait_all_takes_all:
  assumes "esync_inv cfg hs objs w" and "distinct ks" and "2 \<le> length ks"
    and "\<forall>k \<in> set ks. Option.bind (esync_abs hs objs w k) (a_acquire (e_tid cfg)) \<noteq> None"
    and "\<forall>k \<in> set ks. \<forall>n. esync_abs hs objs w k \<noteq> Some (AMutex (MOwned (e_tid cfg) n))"
  shows "\<exists>ab w'. esync_wait_objects cfg ks False False timeout outs w =
      Some (if ab then STATUS_ABANDONED else STATUS_SUCCESS, w') \<and> esync_inv cfg hs objs w' \<and>
    a_all (e_tid cfg) ks (esync_abs hs objs w) = Some (ab, esync_abs hs objs w')"
  by (rule esync_all_taken [OF assms])

theorem esync_wait_all_takes_all_witness:
  "\<exists>w'. esync_wait_objects sample_ecfg [8, 4] False False None [] (sample_eclient 2) = Some (0, w') \<and>
    esync_abs [4, 8] [sample_sem, sample_mutex] w' = [4 \<mapsto> ASemaphore 1 3, 8 \<mapsto> AMutex (MOwned 12 1)]"
proof -
  have a: "esync_abs [4, 8] [sample_sem, sample_mutex] (sample_eclient 2) = [4 \<mapsto> ASemaphore 2 3, 8 \<mapsto> AMutex MFree]"
    by (rule sample_eabs) simp
  have run: "a_all 12 [8, 4] [4 \<mapsto> ASemaphore 2 3, 8 \<mapsto> AMutex MFree] =
      Some (False, [4 \<mapsto> ASemaphore 1 3, 8 \<mapsto> AMutex (MOwned 12 1)])"
    by (simp add: fun_eq_iff)
  from esync_wait_all_takes_all [OF sample_einv [of 2], of "[8, 4]" None "[]"] a run
  show ?thesis by (auto split: if_splits)
qed

text \<open>C15: A wait for all of several objects that includes a mutex the caller owns does not return, although
  every object is signaled for the caller and the wait should succeed: the first step skips the owned
  mutex, but the check that all descriptors are ready counts it, so the loop starts over for ever,
  with every timeout and every sequence of wakeups.\<close>
theorem esync_wait_all_owned_mutex_hangs:
  assumes "esync_inv cfg hs objs w" and "distinct ks" and "2 \<le> length ks"
    and "\<forall>k \<in> set ks. Option.bind (esync_abs hs objs w k) (a_acquire (e_tid cfg)) \<noteq> None"
    and "k \<in> set ks" and "esync_abs hs objs w k = Some (AMutex (MOwned (e_tid cfg) n))"
  shows "esync_wait_objects cfg ks False False timeout outs w = None"
  by (rule esync_all_owned [OF assms])

theorem esync_wait_all_owned_mutex_hangs_witness:
  "\<exists>w. esync_wait_objects sample_ecfg [8] True False None [] (sample_eclient 2) = Some (0, w) \<and>
     esync_wait_objects sample_ecfg [8, 4] False False (Some 0) [] w = None"
proof -
  let ?hs = "[4, 8] :: u64 list" and ?objs = "[sample_sem, sample_mutex]" and ?w = "sample_eclient 2"
  have a: "esync_abs ?hs ?objs ?w = [4 \<mapsto> ASemaphore 2 3, 8 \<mapsto> AMutex MFree]" by (rule sample_eabs) simp
  have inv: "esync_inv sample_ecfg ?hs ?objs ?w" by (rule sample_einv) simp
  obtain os w0 where os: "list_all2 (\<lambda>h obj. map_of (zip ?hs ?objs) h = Some obj) [8] os" and u: "unseen ?w w0"
    and run: "esync_wait_objects sample_ecfg [8] True False None [] ?w =
      esync_wait_any sample_ecfg False (map Some os) (end_of_timeout (e_now sample_ecfg (eclock ?w)) None) [] w0"
    using esync_wait_entry [OF inv, of "[8]"] a by auto
  note u0 = unseen_sel(1,2) [OF u, where hs = ?hs and objs = ?objs]
  have inv0: "esync_inv sample_ecfg ?hs ?objs w0" using inv u0 by simp
  have "a_try (e_tid sample_ecfg) 0 [8] (esync_abs ?hs ?objs w0) = (0, [4 \<mapsto> ASemaphore 2 3, 8 \<mapsto> AMutex (MOwned 12 1)])"
    using a u0 by (simp add: fun_eq_iff)
  then obtain w' where c: "check_any sample_ecfg False 0 (map Some os) w0 = Some (Some 0, w')"
      and inv': "esync_inv sample_ecfg ?hs ?objs w'"
      and a': "esync_abs ?hs ?objs w' = [4 \<mapsto> ASemaphore 2 3, 8 \<mapsto> AMutex (MOwned 12 1)]"
    using check_any_step [OF inv0 os, of 0] a u0 by auto
  have "esync_wait_objects sample_ecfg [8] True False None [] ?w = Some (0, w')"
    using run c by (simp add: esync_wait_any_def)
  moreover have "esync_wait_objects sample_ecfg [8, 4] False False (Some 0) [] w' = None"
    using esync_wait_all_owned_mutex_hangs [OF inv', of "[8, 4]" 8 1] a' by simp
  ultimately show ?thesis by blast
qed

text \<open>C9: A failed attempt of a wait for all objects leaves nothing behind, when the objects it read are
  mutexes, semaphores and auto-reset events whose counters held one (any number for a semaphore):
  after the objects before the one that was too late are written back, in reverse order, all
  counters, the memory and the descriptors are as before, and a mutex the caller owned is not touched.\<close>
theorem esync_failed_attempt_restores_counters:
  assumes "kcalm w" and "reachable_fds w os" and "\<forall>f. ef_count (files w f) \<le> EFD_MAX"
    and "grabs_cleanly (e_avail cfg w) (e_clean cfg w) (e_grab cfg w) os (files w)"
    and "read_all cfg 0 (map Some os) w = Some (Some i, w')"
  shows "\<exists>w''. write_back cfg (rev (take i (map Some os))) w' = Some (None, w'') \<and>
    files w'' = files w \<and> mem w'' = mem w \<and> fdtab w'' = fdtab w"
proof -
  have ww: "with_files w (files w) w" using assms(1) by (simp add: with_files_def)
  obtain ys fs' where g: "grab_prefix (e_avail cfg w) (e_grab cfg w) os (files w) = (ys, fs')"
    and w': "with_files w fs' w'" and i: "i = length ys"
    using read_all_files [OF ww assms(2,5)] by auto
  have "take i (map Some os) = map Some ys" using grab_prefix_take [OF g] i by (metis take_map)
  then show ?thesis
    using write_back_restores [OF g assms(4,3,2) w'] by (auto simp: with_files_def rev_map)
qed

theorem esync_failed_attempt_restores_counters_witness:
  "\<exists>w' w''. read_all sample_ecfg 0 [Some sample_mutex, Some sample_sem] (sample_eclient 0) = Some (Some 1, w') \<and>
    ef_count (files w' 2) = 0 \<and>
    write_back sample_ecfg (rev (take 1 [Some sample_mutex, Some sample_sem])) w' = Some (None, w'') \<and>
    ef_count (files w'' 2) = 1"
proof -
  let ?w = "sample_eclient 0" and ?os = "[sample_mutex, sample_sem]"
  have q: "kintf ?w = []" "intf ?w = []" "fdtab ?w 12 = Some 2" "fdtab ?w 10 = Some 1" "mem ?w (13, W0) = 0"
    "files ?w 2 = \<lparr>ef_count = 1, ef_sem = False\<rparr>" "files ?w 1 = \<lparr>ef_count = 0, ef_sem = True\<rparr>"
    "\<forall>f. ef_count (files ?w f) \<le> EFD_MAX"
    by (simp_all add: sample_eclient_def EFD_MAX_def)
  let ?w1 = "kemit (KRead 2 1) (set_count 2 0 ?w)"
  have r: "read_all sample_ecfg 0 [Some sample_mutex, Some sample_sem] ?w = Some (Some 1, ?w1)"
    using q by (simp add: read_one_def shm_simps fd_read_calm [of _ _ 2] fd_read_calm [of _ _ 1])
  have "reachable_fds ?w ?os" using q by (simp add: reachable_fds_def)
  moreover have "grabs_cleanly (e_avail sample_ecfg ?w) (e_clean sample_ecfg ?w) (e_grab sample_ecfg ?w) ?os (files ?w)"
    using q by (simp add: e_avail_def e_clean_def e_grab_def ereads_def eowned_def)
  ultimately obtain w'' where "write_back sample_ecfg (rev (take 1 [Some sample_mutex, Some sample_sem])) ?w1 = Some (None, w'')"
      "files w'' = files ?w"
    using esync_failed_attempt_restores_counters [of ?w ?os sample_ecfg 1 ?w1] q(8) r by auto
  then show ?thesis using r q(6) by (intro exI [of _ ?w1] exI [of _ w'']) simp
qed

section \<open>A write back that signals an event\<close>

lemma eall_round_late:
  "poll_sequence cfg al e objs outs w = Some (Inr (outs', w1)) \<Longrightarrow>
   poll_now (map obj_fd objs) w1 = (length objs, w2) \<Longrightarrow> read_all cfg 0 objs w2 = Some (Some i, w3) \<Longrightarrow>
   write_back cfg (rev (take i objs)) w3 = Some (None, w4) \<Longrightarrow>
     eall_round cfg al e objs outs w = Some (Inr (outs', w4))"
  by (simp add: eall_round_def)

lemma fd_revents_cong:
  assumes "fdtab w' = fdtab w" and "files w' = files w"
  shows "fd_revents w' fd = fd_revents w fd"
  unfolding fd_revents_def assms by (rule refl)

text \<open>A system call that another thread precedes with \<open>g\<close>.\<close>

lemma do_poll_ready_after:
  assumes "kintf w = g # gs" and "fd_revents (w\<lparr>files := g (files w), kintf := gs\<rparr>) fd = RIn"
  shows "\<exists>w'. do_poll cfg [fd] e outs w = Some (PReady [RIn], outs, w') \<and>
    mem w' = mem w \<and> intf w' = intf w \<and> fdtab w' = fdtab w \<and> files w' = g (files w) \<and> kintf w' = gs"
proof -
  let ?w = "poll_timeout cfg e w"
  have u: "unseen w ?w" by simp
  have k: "kinterfere ?w = ?w\<lparr>files := g (files w), kintf := gs\<rparr>"
    using assms(1) u by (simp add: kinterfere_def unseen_def)
  have r: "fd_revents (?w\<lparr>files := g (files w), kintf := gs\<rparr>) fd = RIn"
    using assms(2) u
      fd_revents_cong [of "?w\<lparr>files := g (files w), kintf := gs\<rparr>" "w\<lparr>files := g (files w), kintf := gs\<rparr>"]
    by (simp add: unseen_def)
  have "sys_poll [fd] (e \<noteq> None) outs ?w = Some (PReady [RIn], outs, kinterfere ?w)"
    using k r by (cases outs) (simp_all add: Let_def)
  then show ?thesis
    using k u by (subst do_poll.simps) (simp add: unseen_def)
qed

text \<open>A failed attempt of a wait for all objects can signal a manual-reset event that was reset: if
  after the check that all are ready another thread resets the event and takes the last permit of a
  semaphore, the attempt reads nothing from the event, fails at the semaphore, and in putting
  everything back writes to the event, whose counter is then positive although nobody set it.\<close>
theorem esync_failed_attempt_signals_event:
  assumes "kintf w = [id, id, id, \<lambda>fs. fs(fe := (fs fe)\<lparr>ef_count := 0\<rparr>, fm := (fs fm)\<lparr>ef_count := 0\<rparr>)]"
    and "en_type ev = ESYNC_MANUAL_EVENT" and "en_type sem = ESYNC_SEMAPHORE" and "0 \<le> en_fd ev" and "0 \<le> en_fd sem"
    and "fdtab w (en_fd ev) = Some fe" and "fdtab w (en_fd sem) = Some fm" and "fe \<noteq> fm"
    and "0 < ef_count (files w fe)" and "0 < ef_count (files w fm)"
  shows "\<exists>w'. eall_round cfg False e [Some ev, Some sem] outs w = Some (Inr (outs, w')) \<and>
    ef_count (files w' fe) = 1 \<and> ef_count (files w' fm) = 0"
proof -
  let ?g = "\<lambda>fs :: nat \<Rightarrow> efd. fs(fe := (fs fe)\<lparr>ef_count := 0\<rparr>, fm := (fs fm)\<lparr>ef_count := 0\<rparr>)"
  obtain w1 where w1: "do_poll cfg [en_fd ev] e outs w = Some (PReady [RIn], outs, w1)"
      "fdtab w1 = fdtab w" "files w1 = files w" "kintf w1 = [id, id, ?g]"
    using do_poll_ready_after [OF assms(1), of "en_fd ev" cfg e outs] assms by (auto simp: fd_revents_def)
  obtain w2 where w2: "do_poll cfg [en_fd sem] e outs w1 = Some (PReady [RIn], outs, w2)"
      "fdtab w2 = fdtab w" "files w2 = files w" "kintf w2 = [id, ?g]"
    using do_poll_ready_after [OF w1(4), of "en_fd sem" cfg e outs] assms w1 by (auto simp: fd_revents_def)
  have seq: "poll_sequence cfg False e [Some ev, Some sem] outs w = Some (Inr (outs, w2))"
    using w1(1) w2(1) assms(2,3) by (simp add: obj_fd_def)
  let ?w3 = "w2\<lparr>kintf := [?g]\<rparr>"
  have k3: "kinterfere w2 = ?w3" using w2(4) by (simp add: kinterfere_def)
  have now: "poll_now (map obj_fd [Some ev, Some sem]) w2 = (length [Some ev, Some sem], ?w3)"
    using assms w2 by (simp add: poll_now_def k3 Let_def obj_fd_def fd_revents_def)
  let ?w4 = "?w3\<lparr>files := ?g (files w), kintf := []\<rparr>"
  have "kinterfere ?w3 = ?w4" using w2(3) by (simp add: kinterfere_def)
  then have "fd_read (en_fd sem) ?w3 = (Inl EAGAIN, ?w4)"
    using assms w2(2) by (simp add: fd_read_def Let_def)
  then have rd: "read_all cfg 0 [Some ev, Some sem] ?w3 = Some (Some 1, ?w4)"
    using assms by (simp add: read_one_def)
  let ?w5 = "kemit (KWrite fe 1) (set_count fe 1 ?w4)"
  have "fd_write (en_fd ev) 1 ?w4 = (Inr (), ?w5)"
    using assms w2(2) by (simp add: fd_write_calm [of _ _ fe] EFD_MAX_def)
  then have "write_back cfg (rev (take 1 [Some ev, Some sem])) ?w4 = Some (None, ?w5)"
    using assms by (simp add: write_back_one_def)
  then have "eall_round cfg False e [Some ev, Some sem] outs w = Some (Inr (outs, ?w5))"
    by (rule eall_round_late [OF seq now rd])
  then show ?thesis using assms(8) by (intro exI [of _ ?w5]) simp
qed

theorem esync_failed_attempt_signals_event_witness:
  "\<exists>w'. eall_round sample_ecfg False None [Some (sample_mutex\<lparr>en_type := ESYNC_MANUAL_EVENT\<rparr>), Some sample_sem] []
      ((sample_eclient 1)\<lparr>kintf := [id, id, id, \<lambda>fs. fs(2 := (fs 2)\<lparr>ef_count := 0\<rparr>, 1 := (fs 1)\<lparr>ef_count := 0\<rparr>)]\<rparr>) =
      Some (Inr ([], w')) \<and> ef_count (files w' 2) = 1"
proof -
  let ?w = "(sample_eclient 1)\<lparr>kintf := [id, id, id, \<lambda>fs. fs(2 := (fs 2)\<lparr>ef_count := 0\<rparr>, 1 := (fs 1)\<lparr>ef_count := 0\<rparr>)]\<rparr>"
  have "fdtab ?w 12 = Some 2" "fdtab ?w 10 = Some 1" "0 < ef_count (files ?w 2)" "0 < ef_count (files ?w 1)"
    by (simp_all add: sample_eclient_def)
  then show ?thesis
    using esync_failed_attempt_signals_event [of ?w 2 1 "sample_mutex\<lparr>en_type := ESYNC_MANUAL_EVENT\<rparr>" sample_sem sample_ecfg None "[]"]
    by auto
qed

end
