(* ===== verification/Esync_Objects.thy ===== *)
theory Esync_Objects
  imports Esync_Server
begin

text \<open>
  Properties of the eventfd objects of server/esync.c: a new object gets a slot inside the file whose
  contents agree with its counter, signaling keeps that agreement, and the death of a thread abandons
  its mutexes.
\<close>

section \<open>The file always covers the slot\<close>

text \<open>The loop that expands the file ends, since each turn adds a page.\<close>

lemma expand_ends:
  assumes "0 < e_pagesize os"
  shows "\<exists>n m. esync_expand_shm os idx st = Some (st\<lparr>eshm_size := n, efile_size := m\<rparr>) \<and>
    (idx * 8) mod 2 ^ 32 < n \<and> ((\<forall>s. e_ftruncate_ok os s) \<longrightarrow> efile_size st = eshm_size st \<longrightarrow> m = n)"
proof (induction "Suc ((idx * 8) mod 2 ^ 32) - eshm_size st" arbitrary: st rule: less_induct)
  case less
  show ?case
  proof (cases "(idx * 8) mod 2 ^ 32 < eshm_size st")
    case True
    then show ?thesis
      by (subst esync_expand_shm.simps) (rule exI [of _ "eshm_size st"], rule exI [of _ "efile_size st"], simp)
  next
    case False
    let ?s = "eshm_size st + e_pagesize os"
    let ?st = "st\<lparr>eshm_size := ?s, efile_size := (if e_ftruncate_ok os ?s then ?s else efile_size st)\<rparr>"
    have "Suc ((idx * 8) mod 2 ^ 32) - eshm_size ?st < Suc ((idx * 8) mod 2 ^ 32) - eshm_size st"
      using False assms by simp
    from less [OF this] obtain n m where nm: "esync_expand_shm os idx ?st = Some (?st\<lparr>eshm_size := n, efile_size := m\<rparr>)"
        "(idx * 8) mod 2 ^ 32 < n" "(\<forall>s. e_ftruncate_ok os s) \<longrightarrow> efile_size ?st = eshm_size ?st \<longrightarrow> m = n" by blast
    have "esync_expand_shm os idx st = Some (st\<lparr>eshm_size := n, efile_size := m\<rparr>)"
      using nm(1) False by (subst esync_expand_shm.simps) (simp add: Let_def)
    then show ?thesis using nm(2,3) by auto
  qed
qed

text \<open>An environment in which the system calls succeed, and a server without interference.\<close>

definition eos_good :: "eos \<Rightarrow> bool" where
  "eos_good os \<longleftrightarrow> 0 < e_pagesize os \<and> e_realloc_ok os \<and> (\<forall>i. e_mmap_ok os i) \<and> (\<forall>s. e_ftruncate_ok os s)"

definition esrv_ok :: "esrv \<Rightarrow> bool" where
  "esrv_ok st \<longleftrightarrow> kcalm st \<and> efile_size st = eshm_size st"

lemma get_slot:
  assumes "eos_good os" and "idx < 2 ^ 29" and "idx * 8 < efile_size st"
  shows "\<exists>pg. esync_get_shm os idx st = Some (idx, st\<lparr>epages := pg\<rparr>)"
  using assms by (auto simp: esync_get_shm_def eos_good_def Let_def)

lemma epages_sel [simp]:
  "mem (st\<lparr>epages := pg\<rparr>) = mem st" "intf (st\<lparr>epages := pg\<rparr>) = intf st"
  by simp_all

section \<open>Creating\<close>

text \<open>What the slot of a new object holds.\<close>

definition new_slot :: "esync_type \<Rightarrow> i32 \<Rightarrow> i32 \<Rightarrow> i32 \<Rightarrow> i32 \<times> i32" where
  "new_slot type current_id initval maximum =
     (case type of
        ESYNC_SEMAPHORE \<Rightarrow> (maximum, initval)
      | ESYNC_MUTEX \<Rightarrow> if initval \<noteq> 0 then (0, 0) else (current_id, 1)
      | _ \<Rightarrow> (if initval \<noteq> 0 then 1 else 0, 0))"

definition is_object_type :: "esync_type \<Rightarrow> bool" where
  "is_object_type t \<longleftrightarrow> t = ESYNC_SEMAPHORE \<or> t = ESYNC_AUTO_EVENT \<or> t = ESYNC_MANUAL_EVENT \<or> t = ESYNC_MUTEX"

definition slot_written :: "nat \<Rightarrow> i32 \<Rightarrow> i32 \<Rightarrow> esrv \<Rightarrow> esrv \<Rightarrow> bool" where
  "slot_written i a b st st' \<longleftrightarrow>
     mem st' = (mem st)((i, W0) := a, (i, W1) := b) \<and> files st' = files st \<and> fdtab st' = fdtab st \<and>
     eobjs st' = eobjs st \<and> kcalm st' \<and> efile_size st' = efile_size st \<and> eshm_size st' = eshm_size st"

lemma kcalm_esrv [simp]:
  "kcalm (st\<lparr>epages := pg\<rparr>) = kcalm st" "kcalm (st\<lparr>emutexes := ms\<rparr>) = kcalm st"
  "kcalm (st\<lparr>eobjs := os\<rparr>) = kcalm st" "kcalm (st\<lparr>eshm_size := n\<rparr>) = kcalm st"
  "kcalm (st\<lparr>efile_size := n\<rparr>) = kcalm st" "kcalm (st\<lparr>fdtab := t\<rparr>) = kcalm st"
  "kcalm (st\<lparr>files := fs\<rparr>) = kcalm st" "kcalm (st\<lparr>mem := ms'\<rparr>) = kcalm st"
  unfolding kcalm_def by simp_all

lemma put_mem_esrv [simp]:
  "eobjs (put_mem p v st) = eobjs st" "efile_size (put_mem p v st) = efile_size st"
  "eshm_size (put_mem p v st) = eshm_size st" "emutexes (put_mem p v st) = emutexes st"
  "mem (put_mem p v st) = (mem st)(p := v)"
  for st :: esrv
  unfolding put_mem_def by simp_all

lemma slot_writtenI:
  assumes "kcalm st"
  shows "slot_written i a b st (at_store (i, W1) b (at_store (i, W0) a (st\<lparr>epages := pg\<rparr>)))"
proof -
  have "intf st = []" using assms by simp
  then show ?thesis
    unfolding slot_written_def by (simp add: at_store_quiet assms)
qed

lemma esync_init_slot_spec:
  assumes os: "eos_good os" and st: "kcalm st" and ty: "is_object_type (eo_type es)"
    and i: "eo_shm_idx es < 2 ^ 29" "eo_shm_idx es * 8 < efile_size st"
  shows "\<exists>st'. esync_init_slot os tid oid es initval maximum st = Some st' \<and>
    slot_written (eo_shm_idx es) (fst (new_slot (eo_type es) tid initval maximum))
      (snd (new_slot (eo_type es) tid initval maximum)) st st' \<and>
    (emutexes st' = (if eo_type es = ESYNC_MUTEX then emutexes st @ [oid] else emutexes st))"
proof -
  let ?i = "eo_shm_idx es"
  obtain pg where pg: "esync_get_shm os ?i st = Some (?i, st\<lparr>epages := pg\<rparr>)"
    using get_slot [OF os i] by blast
  note w = slot_writtenI [OF st, where pg = pg and i = ?i]
  have m: "slot_written ?i a b st st' \<Longrightarrow> slot_written ?i a b st (st'\<lparr>emutexes := ms\<rparr>)" for a b st' ms
    unfolding slot_written_def by simp
  have e: "emutexes (at_store p v x) = emutexes x" for p v and x :: esrv
    by (simp add: at_store_def put_mem_def interfere_def split: list.splits)
  consider "eo_type es = ESYNC_SEMAPHORE" | "eo_type es = ESYNC_AUTO_EVENT"
    | "eo_type es = ESYNC_MANUAL_EVENT" | "eo_type es = ESYNC_MUTEX"
    using ty by (auto simp: is_object_type_def)
  then show ?thesis
  proof cases
    case 1
    then have "esync_init_slot os tid oid es initval maximum st =
        Some (at_store (?i, W1) initval (at_store (?i, W0) maximum (st\<lparr>epages := pg\<rparr>)))"
      unfolding esync_init_slot_def by (simp add: pg)
    then show ?thesis using 1 w by (simp add: new_slot_def e)
  next
    case 2
    then have "esync_init_slot os tid oid es initval maximum st =
        Some (at_store (?i, W1) 0 (at_store (?i, W0) (if initval \<noteq> 0 then 1 else 0) (st\<lparr>epages := pg\<rparr>)))"
      unfolding esync_init_slot_def by (simp add: pg)
    then show ?thesis using 2 w by (simp add: new_slot_def e)
  next
    case 3
    then have "esync_init_slot os tid oid es initval maximum st =
        Some (at_store (?i, W1) 0 (at_store (?i, W0) (if initval \<noteq> 0 then 1 else 0) (st\<lparr>epages := pg\<rparr>)))"
      unfolding esync_init_slot_def by (simp add: pg)
    then show ?thesis using 3 w by (simp add: new_slot_def e)
  next
    case 4
    let ?st' = "at_store (?i, W1) (if initval \<noteq> 0 then 0 else 1)
      (at_store (?i, W0) (if initval \<noteq> 0 then 0 else tid) (st\<lparr>epages := pg\<rparr>))"
    have "esync_init_slot os tid oid es initval maximum st = Some (?st'\<lparr>emutexes := emutexes st @ [oid]\<rparr>)"
      unfolding esync_init_slot_def by (simp add: pg 4 e Let_def)
    moreover have "slot_written ?i (fst (new_slot (eo_type es) tid initval maximum))
      (snd (new_slot (eo_type es) tid initval maximum)) st ?st'"
      using w by (simp add: 4 new_slot_def)
    ultimately show ?thesis using 4 m by simp
  qed
qed

definition with_counter :: "int \<Rightarrow> nat \<Rightarrow> i32 \<Rightarrow> esync_type \<Rightarrow> nat \<Rightarrow> esrv \<Rightarrow> esrv" where
  "with_counter fd f initval type oid st = st\<lparr>fdtab := (fdtab st)(fd \<mapsto> f),
     files := (files st)(f := \<lparr>ef_count = unat initval, ef_sem = (type = ESYNC_SEMAPHORE)\<rparr>),
     eobjs := (eobjs st)(oid \<mapsto> \<lparr>eo_fd = fd, eo_type = type, eo_shm_idx = nat (fd + 1)\<rparr>)\<rparr>"

lemma with_counter_sel [simp]:
  "mem (with_counter fd f initval type oid st) = mem st"
  "fdtab (with_counter fd f initval type oid st) = (fdtab st)(fd \<mapsto> f)"
  "files (with_counter fd f initval type oid st) =
     (files st)(f := \<lparr>ef_count = unat initval, ef_sem = (type = ESYNC_SEMAPHORE)\<rparr>)"
  "eobjs (with_counter fd f initval type oid st) =
     (eobjs st)(oid \<mapsto> \<lparr>eo_fd = fd, eo_type = type, eo_shm_idx = nat (fd + 1)\<rparr>)"
  "kcalm (with_counter fd f initval type oid st) = kcalm st"
  "efile_size (with_counter fd f initval type oid st) = efile_size st"
  "eshm_size (with_counter fd f initval type oid st) = eshm_size st"
  "emutexes (with_counter fd f initval type oid st) = emutexes st"
  by (simp_all add: with_counter_def)

lemma create_new:
  assumes os: "eos_good os" and st: "esrv_ok st" and ty: "is_object_type type"
    and fd: "0 \<le> fd" "nat (fd + 1) < 2 ^ 29"
  shows "\<exists>st' st0. esync_create os tid err junk (Inr (fd, f)) (Some (oid, False)) initval maximum type st =
      Some (Some oid, None, [], st') \<and>
    slot_written (nat (fd + 1)) (fst (new_slot type tid initval maximum)) (snd (new_slot type tid initval maximum))
      st0 st' \<and>
    (\<exists>n. st0 = with_counter fd f initval type oid st\<lparr>eshm_size := n, efile_size := n\<rparr> \<and> nat (fd + 1) * 8 < n) \<and>
    emutexes st' = (if type = ESYNC_MUTEX then emutexes st @ [oid] else emutexes st)"
proof -
  let ?i = "nat (fd + 1)"
  let ?es = "\<lparr>eo_fd = fd, eo_type = type, eo_shm_idx = ?i\<rparr>"
  let ?st2 = "with_counter fd f initval type oid st"
  have ps: "0 < e_pagesize os" and ft: "\<forall>s. e_ftruncate_ok os s" using os by (simp_all add: eos_good_def)
  have sz: "efile_size ?st2 = eshm_size ?st2" and q: "kcalm st" using st by (simp_all add: esrv_ok_def)
  have i: "(?i * 8) mod 2 ^ 32 = ?i * 8" using fd by (intro mod_less) simp
  from expand_ends [OF ps, of ?i ?st2]
  obtain n m where nm0: "esync_expand_shm os ?i ?st2 = Some (?st2\<lparr>eshm_size := n, efile_size := m\<rparr>)"
      "(?i * 8) mod 2 ^ 32 < n"
      "(\<forall>s. e_ftruncate_ok os s) \<longrightarrow> efile_size ?st2 = eshm_size ?st2 \<longrightarrow> m = n" by blast
  have "m = n" using nm0(3) ft sz by blast
  then have nm: "esync_expand_shm os ?i ?st2 = Some (?st2\<lparr>eshm_size := n, efile_size := n\<rparr>)" "?i * 8 < n"
    using nm0(1,2) i by simp_all
  let ?st3 = "?st2\<lparr>eshm_size := n, efile_size := n\<rparr>"
  have q3: "kcalm ?st3" using q by simp
  have ty': "is_object_type (eo_type ?es)" using ty by simp
  have ix: "eo_shm_idx ?es < 2 ^ 29" "eo_shm_idx ?es * 8 < efile_size ?st3" using fd nm(2) by simp_all
  from esync_init_slot_spec [OF os q3 ty' ix, of tid oid initval maximum]
  obtain st' where st': "esync_init_slot os tid oid ?es initval maximum ?st3 = Some st'"
      "slot_written ?i (fst (new_slot type tid initval maximum)) (snd (new_slot type tid initval maximum)) ?st3 st'"
      "emutexes st' = (if type = ESYNC_MUTEX then emutexes st @ [oid] else emutexes st)"
    by auto
  have "esync_create os tid err junk (Inr (fd, f)) (Some (oid, False)) initval maximum type st =
      do { st3 \<leftarrow> esync_expand_shm os ?i ?st2;
           st4 \<leftarrow> esync_init_slot os tid oid ?es initval maximum st3;
           Some (Some oid, None, [], st4) }"
    by (simp add: esync_create_def sys_eventfd_def Let_def with_counter_def)
  then have c: "esync_create os tid err junk (Inr (fd, f)) (Some (oid, False)) initval maximum type st =
      Some (Some oid, None, [], st')"
    using nm(1) st'(1) by simp
  show ?thesis using c st'(2,3) nm(2) by blast
qed

section \<open>Agreement of slot and counter\<close>

text \<open>
  What ties the slot to the counter while nobody is inside an operation: a semaphore's slot holds the
  counter, an event's slot tells whether the counter is positive, and a mutex has no owner (it is free
  or abandoned) exactly when its counter is positive.
\<close>

definition slot_agrees :: "esync_type \<Rightarrow> nat \<Rightarrow> efd \<Rightarrow> esrv \<Rightarrow> bool" where
  "slot_agrees type i c st \<longleftrightarrow>
     (case type of
        ESYNC_SEMAPHORE \<Rightarrow> ef_sem c \<and> ef_count c = unat (mem st (esem_count i))
      | ESYNC_MUTEX \<Rightarrow> \<not> ef_sem c \<and> (mem st (emutex_tid i) = 0 \<or> mem st (emutex_tid i) = - 1 \<longleftrightarrow> 0 < ef_count c)
      | _ \<Rightarrow> \<not> ef_sem c \<and> (mem st (eev_signaled i) \<noteq> 0 \<longleftrightarrow> 0 < ef_count c))"

text \<open>
  Creating a new object when the system calls succeed: the server returns the new object, its
  descriptor refers to a fresh counter holding the initial value, its slot lies inside the shared file
  and agrees with the counter (the creator owns a mutex created with initial value zero), and no
  other slot, counter or object changes. The loop that grows the file ends.
\<close>
theorem esync_create_agrees:
  assumes "eos_good os" and "esrv_ok st" and "is_object_type type" and "0 \<le> fd" and "nat (fd + 1) < 2 ^ 29"
    and "tid \<noteq> 0" and "tid \<noteq> - 1"
  shows "\<exists>st'. esync_create os tid err junk (Inr (fd, f)) (Some (oid, False)) initval maximum type st =
      Some (Some oid, None, [], st') \<and>
    eobjs st' = (eobjs st)(oid \<mapsto> \<lparr>eo_fd = fd, eo_type = type, eo_shm_idx = nat (fd + 1)\<rparr>) \<and>
    fdtab st' = (fdtab st)(fd \<mapsto> f) \<and>
    files st' = (files st)(f := \<lparr>ef_count = unat initval, ef_sem = (type = ESYNC_SEMAPHORE)\<rparr>) \<and>
    mem st' = (mem st)((nat (fd + 1), W0) := fst (new_slot type tid initval maximum),
                       (nat (fd + 1), W1) := snd (new_slot type tid initval maximum)) \<and>
    slot_agrees type (nat (fd + 1)) (files st' f) st' \<and>
    nat (fd + 1) * 8 < efile_size st' \<and> esrv_ok st' \<and>
    emutexes st' = (if type = ESYNC_MUTEX then emutexes st @ [oid] else emutexes st)"
proof -
  from create_new [OF assms(1-5), of tid err junk f oid initval maximum]
  obtain st' st0 n where c: "esync_create os tid err junk (Inr (fd, f)) (Some (oid, False)) initval maximum type st =
      Some (Some oid, None, [], st')"
    and w: "slot_written (nat (fd + 1)) (fst (new_slot type tid initval maximum))
      (snd (new_slot type tid initval maximum)) st0 st'"
    and st0: "st0 = with_counter fd f initval type oid st\<lparr>eshm_size := n, efile_size := n\<rparr>" "nat (fd + 1) * 8 < n"
    and ms: "emutexes st' = (if type = ESYNC_MUTEX then emutexes st @ [oid] else emutexes st)" by blast
  have sel: "mem st' = (mem st)((nat (fd + 1), W0) := fst (new_slot type tid initval maximum),
                       (nat (fd + 1), W1) := snd (new_slot type tid initval maximum))"
    "files st' = (files st)(f := \<lparr>ef_count = unat initval, ef_sem = (type = ESYNC_SEMAPHORE)\<rparr>)"
    "fdtab st' = (fdtab st)(fd \<mapsto> f)" "efile_size st' = n" "eshm_size st' = n" "kcalm st'"
    "eobjs st' = (eobjs st)(oid \<mapsto> \<lparr>eo_fd = fd, eo_type = type, eo_shm_idx = nat (fd + 1)\<rparr>)"
    using w st0(1) by (simp_all add: slot_written_def)
  have "slot_agrees type (nat (fd + 1)) (files st' f) st'"
    using assms(3,6,7) by (cases type) (auto simp: slot_agrees_def sel new_slot_def is_object_type_def unat_gt_0)
  then show ?thesis
    using c sel ms st0(2) by (intro exI [of _ st']) (simp add: esrv_ok_def)
qed

definition sample_eos :: eos where
  "sample_eos = \<lparr>e_pagesize = 4096, e_realloc_ok = True, e_mmap_ok = (\<lambda>_. True), e_ftruncate_ok = (\<lambda>_. True)\<rparr>"

definition sample_esrv :: esrv where
  "sample_esrv = \<lparr>mem = (\<lambda>_. 0), intf = [], acts = [], fdtab = (\<lambda>_. None),
     files = (\<lambda>_. \<lparr>ef_count = 0, ef_sem = False\<rparr>), kintf = [], kacts = [],
     eobjs = (\<lambda>_. None), emutexes = [], eshm_size = 0, efile_size = 0, epages = []\<rparr>"

lemma sample_esrv_ok [simp]: "eos_good sample_eos" "esrv_ok sample_esrv"
  by (simp_all add: eos_good_def sample_eos_def esrv_ok_def kcalm_def sample_esrv_def)

theorem esync_create_agrees_witness:
  "\<exists>st'. esync_create sample_eos 12 (\<lambda>_. 1) None (Inr (3, 7)) (Some (5, False)) 0 0 ESYNC_MUTEX sample_esrv =
      Some (Some 5, None, [], st') \<and> emutexes st' = [5] \<and> slot_agrees ESYNC_MUTEX 4 (files st' 7) st'"
proof -
  have "esrv_ok sample_esrv" and "is_object_type ESYNC_MUTEX" and "emutexes sample_esrv = []"
    by (simp_all add: is_object_type_def) (simp add: sample_esrv_def)
  with esync_create_agrees [of sample_eos sample_esrv ESYNC_MUTEX 3 12 "\<lambda>_. 1" None 7 5 0 0]
  show ?thesis by auto
qed

section \<open>Events signaled by the server\<close>

lemma lock_free:
  assumes "intf st = []" and "mem st (eev_locked i) = 0"
  shows "spin_lock (eev_locked i) st = Some (put_mem (eev_locked i) 1 st)"
  using assms by (subst spin_lock.simps) (simp add: at_cas_quiet)

definition event_type :: "esync_type \<Rightarrow> bool" where
  "event_type t \<longleftrightarrow> t = ESYNC_AUTO_EVENT \<or> t = ESYNC_MANUAL_EVENT"

text \<open>What the server relies on when it signals one of its events while nobody else is at work.\<close>

definition event_ready :: "eos \<Rightarrow> esync_obj \<Rightarrow> nat \<Rightarrow> esrv \<Rightarrow> bool" where
  "event_ready os es f st \<longleftrightarrow> eos_good os \<and> esrv_ok st \<and> event_type (eo_type es) \<and> eo_shm_idx es < 2 ^ 29 \<and>
     eo_shm_idx es * 8 < efile_size st \<and> fdtab st (eo_fd es) = Some f \<and>
     mem st (eev_locked (eo_shm_idx es)) = 0 \<and> slot_agrees (eo_type es) (eo_shm_idx es) (files st f) st"

definition event_after :: "nat \<Rightarrow> nat \<Rightarrow> i32 \<Rightarrow> nat \<Rightarrow> esrv \<Rightarrow> esrv \<Rightarrow> bool" where
  "event_after i f v n st s \<longleftrightarrow> mem s = (mem st)((i, W0) := v) \<and>
     files s = (files st)(f := (files st f)\<lparr>ef_count := n\<rparr>) \<and> fdtab s = fdtab st \<and> kcalm s \<and>
     efile_size s = efile_size st \<and> eshm_size s = eshm_size st"

lemma kworld_esrv [simp]:
  "efile_size (kemit a st) = efile_size st" "eshm_size (kemit a st) = eshm_size st"
  "efile_size (set_count f n st) = efile_size st" "eshm_size (set_count f n st) = eshm_size st"
  for st :: esrv
  by (simp_all add: kemit_def set_count_def)

lemma same_count: "(fs :: nat \<Rightarrow> efd)(f := (fs f)\<lparr>ef_count := ef_count (fs f)\<rparr>) = fs"
  by simp

lemma event_after_intro:
  assumes "kcalm st" and "mem st (i, W1) = 0"
  shows "event_after i f v (ef_count (files st f)) st (put_mem (i, W0) v (st\<lparr>epages := pg\<rparr>))"
    and "event_after i f v (ef_count (files st f)) st
      (put_mem (i, W1) 0 (put_mem (i, W0) v (put_mem (i, W1) 1 (st\<lparr>epages := pg\<rparr>))))"
    and "event_after i f v n st (kemit a (set_count f n (put_mem (i, W0) v (st\<lparr>epages := pg\<rparr>))))"
    and "event_after i f v n st
      (put_mem (i, W1) 0 (kemit a (set_count f n (put_mem (i, W0) v (put_mem (i, W1) 1 (st\<lparr>epages := pg\<rparr>))))))"
  using assms unfolding event_after_def by (simp_all add: fun_eq_iff)

lemma server_set_event:
  assumes ok: "event_ready os es f st"
  shows "\<exists>s. esync_set_event os es st = Some s \<and>
    event_after (eo_shm_idx es) f 1 (if ef_count (files st f) = 0 then 1 else ef_count (files st f)) st s"
proof -
  let ?i = "eo_shm_idx es"
  have q: "kcalm st" "intf st = []" "kintf st = []" and l: "mem st (?i, W1) = 0" and fd: "fdtab st (eo_fd es) = Some f"
    using ok by (simp_all add: event_ready_def esrv_ok_def)
  have ev: "(mem st (?i, W0) \<noteq> 0) = (0 < ef_count (files st f))" "event_type (eo_type es)"
    using ok by (auto simp: event_ready_def slot_agrees_def event_type_def)
  obtain pg where pg: "esync_get_shm os ?i st = Some (?i, st\<lparr>epages := pg\<rparr>)"
    using get_slot [of os ?i st] ok by (auto simp: event_ready_def)
  note after = event_after_intro [OF q(1) l]
  show ?thesis
    using ev after(1) [of f 1 pg] after(2) [of f 1 pg] after(3,4) [of f 1 1 "KWrite f 1" pg] unfolding esync_set_event_def
    by (cases "eo_type es = ESYNC_MANUAL_EVENT"; cases "mem st (?i, W0) = 0")
      (simp_all add: pg lock_event_def unlock_event_def lock_free at_xchg_quiet at_store_quiet fd_write_calm q l fd
        EFD_MAX_def)
qed

lemma server_reset_event:
  assumes ok: "event_ready os es f st"
  shows "\<exists>s. esync_reset_event os es st = Some s \<and> event_after (eo_shm_idx es) f 0 0 st s"
proof -
  let ?i = "eo_shm_idx es"
  have q: "kcalm st" "intf st = []" "kintf st = []" and l: "mem st (?i, W1) = 0" and fd: "fdtab st (eo_fd es) = Some f"
    using ok by (simp_all add: event_ready_def esrv_ok_def)
  have ev: "(mem st (?i, W0) \<noteq> 0) = (0 < ef_count (files st f))" "event_type (eo_type es)" "\<not> ef_sem (files st f)"
    using ok by (auto simp: event_ready_def slot_agrees_def event_type_def)
  obtain pg where pg: "esync_get_shm os ?i st = Some (?i, st\<lparr>epages := pg\<rparr>)"
    using get_slot [of os ?i st] ok by (auto simp: event_ready_def)
  note after = event_after_intro [OF q(1) l]
  show ?thesis
    using ev after(1) [of f 0 pg] after(2) [of f 0 pg] after(3,4) [of f 0 0 "KRead f (ef_count (files st f))" pg]
    unfolding esync_reset_event_def
    by (cases "eo_type es = ESYNC_MANUAL_EVENT"; cases "mem st (?i, W0) = 0")
      (simp_all add: pg lock_event_def unlock_event_def lock_free at_xchg_quiet at_store_quiet fd_read_calm q l fd Let_def)
qed

lemma event_ready_after:
  assumes "event_ready os es f st" and "event_after (eo_shm_idx es) f v n st s" and "(v \<noteq> 0) = (0 < n)"
  shows "event_ready os es f s" and "ef_count (files s f) = n"
    and "n = ef_count (files st f) \<Longrightarrow> files s = files st"
    and "g \<noteq> f \<Longrightarrow> files s g = files st g" and "fst p \<noteq> eo_shm_idx es \<Longrightarrow> mem s p = mem st p"
  using assms
  by (auto simp: event_ready_def event_after_def esrv_ok_def slot_agrees_def event_type_def same_count)

text \<open>
  The server sets or resets an event while nobody else is at work: the operation ends, the counter is
  positive exactly after a set, slot and counter agree again, the spin lock is free again, and no other
  counter and no other slot changes. Setting a set event or resetting a reset one changes no counter.
\<close>
theorem esync_server_event_agrees:
  assumes "event_ready os es f st"
  shows "(\<exists>s. esync_set_event os es st = Some s \<and> event_ready os es f s \<and> 0 < ef_count (files s f) \<and>
      (0 < ef_count (files st f) \<longrightarrow> files s = files st) \<and>
      (\<forall>g. g \<noteq> f \<longrightarrow> files s g = files st g) \<and> (\<forall>p. fst p \<noteq> eo_shm_idx es \<longrightarrow> mem s p = mem st p)) \<and>
    (\<exists>s. esync_reset_event os es st = Some s \<and> event_ready os es f s \<and> ef_count (files s f) = 0 \<and>
      (ef_count (files st f) = 0 \<longrightarrow> files s = files st) \<and>
      (\<forall>g. g \<noteq> f \<longrightarrow> files s g = files st g) \<and> (\<forall>p. fst p \<noteq> eo_shm_idx es \<longrightarrow> mem s p = mem st p))"
proof (rule conjI)
  let ?n = "if ef_count (files st f) = 0 then 1 else ef_count (files st f)"
  obtain s where s: "esync_set_event os es st = Some s" "event_after (eo_shm_idx es) f 1 ?n st s"
    using server_set_event [OF assms] by blast
  have n: "((1 :: i32) \<noteq> 0) = (0 < ?n)" by simp
  note a = event_ready_after [OF assms s(2) n]
  show "\<exists>s. esync_set_event os es st = Some s \<and> event_ready os es f s \<and> 0 < ef_count (files s f) \<and>
      (0 < ef_count (files st f) \<longrightarrow> files s = files st) \<and>
      (\<forall>g. g \<noteq> f \<longrightarrow> files s g = files st g) \<and> (\<forall>p. fst p \<noteq> eo_shm_idx es \<longrightarrow> mem s p = mem st p)"
    using s(1) a by (intro exI [of _ s]) simp
next
  obtain s where s: "esync_reset_event os es st = Some s" "event_after (eo_shm_idx es) f 0 0 st s"
    using server_reset_event [OF assms] by blast
  have n: "((0 :: i32) \<noteq> 0) = (0 < (0 :: nat))" by simp
  note a = event_ready_after [OF assms s(2) n]
  show "\<exists>s. esync_reset_event os es st = Some s \<and> event_ready os es f s \<and> ef_count (files s f) = 0 \<and>
      (ef_count (files st f) = 0 \<longrightarrow> files s = files st) \<and>
      (\<forall>g. g \<noteq> f \<longrightarrow> files s g = files st g) \<and> (\<forall>p. fst p \<noteq> eo_shm_idx es \<longrightarrow> mem s p = mem st p)"
    using s(1) a by (intro exI [of _ s]) simp
qed

definition sample_event :: esync_obj where
  "sample_event = \<lparr>eo_fd = 3, eo_type = ESYNC_AUTO_EVENT, eo_shm_idx = 4\<rparr>"

definition sample_event_state :: esrv where
  "sample_event_state = sample_esrv\<lparr>fdtab := [3 \<mapsto> 7], eshm_size := 4096, efile_size := 4096\<rparr>"

lemma sample_event_ready: "event_ready sample_eos sample_event 7 sample_event_state"
  using sample_esrv_ok
  by (simp add: event_ready_def sample_event_def sample_event_state_def event_type_def slot_agrees_def esrv_ok_def)
    (simp add: sample_esrv_def)

theorem esync_server_event_agrees_witness:
  "\<exists>s. esync_set_event sample_eos sample_event sample_event_state = Some s \<and> 0 < ef_count (files s 7)"
  using esync_server_event_agrees [OF sample_event_ready] by blast

text \<open>
  The server sets an auto-reset event in the window in which a waiter has taken the counter but not
  yet cleared the flag: the flag is still one, so the server does not write, and the counter stays
  zero. The waiters that sleep on the counter are not woken and the event is lost. The client's version
  of the same operation writes in this case.
\<close>
theorem esync_server_set_event_lost:
  assumes "eos_good os" and "esrv_ok st" and "eo_type es = ESYNC_AUTO_EVENT" and "eo_shm_idx es < 2 ^ 29"
    and "eo_shm_idx es * 8 < efile_size st" and "mem st (eev_signaled (eo_shm_idx es)) = 1"
  shows "\<exists>s. esync_set_event os es st = Some s \<and> files s = files st \<and> mem s = mem st \<and> kacts s = kacts st"
proof -
  let ?i = "eo_shm_idx es"
  obtain pg where pg: "esync_get_shm os ?i st = Some (?i, st\<lparr>epages := pg\<rparr>)"
    using get_slot [OF assms(1,4,5)] by blast
  have "intf st = []" using assms(2) by (simp add: esrv_ok_def)
  moreover have "(mem st)((?i, W0) := 1) = mem st" using assms(6) by (simp add: fun_eq_iff)
  moreover have "kacts (put_mem p v x) = kacts x" for p v and x :: esrv by (simp add: put_mem_def)
  ultimately show ?thesis
    using assms(3,6) by (simp add: esync_set_event_def pg lock_event_def unlock_event_def at_xchg_quiet)
qed

definition sample_taken_state :: esrv where
  "sample_taken_state = put_mem (4, W0) 1 sample_event_state"

theorem esync_server_set_event_lost_witness:
  "\<exists>s. esync_set_event sample_eos sample_event sample_taken_state = Some s \<and> files s = files sample_taken_state"
proof -
  have "esrv_ok sample_taken_state" "efile_size sample_taken_state = 4096" "mem sample_taken_state (4, W0) = 1"
    using sample_event_ready
    by (simp_all add: sample_taken_state_def esrv_ok_def event_ready_def) (simp add: sample_event_state_def)
  with esync_server_set_event_lost [of sample_eos sample_taken_state sample_event]
  show ?thesis by (auto simp: sample_event_def)
qed

section \<open>The death of a thread\<close>

text \<open>The live mutexes, each with a slot inside the file and a counter, none of them shared.\<close>

definition emutex_at :: "esrv \<Rightarrow> nat \<Rightarrow> nat \<Rightarrow> nat \<Rightarrow> bool" where
  "emutex_at st oid i f \<longleftrightarrow> (\<exists>es. eobjs st oid = Some es \<and> eo_shm_idx es = i \<and> fdtab st (eo_fd es) = Some f)"

definition emutexes_apart :: "(nat \<Rightarrow> nat \<Rightarrow> nat \<Rightarrow> bool) \<Rightarrow> nat list \<Rightarrow> bool" where
  "emutexes_apart at oids \<longleftrightarrow> distinct oids \<and>
     (\<forall>oid \<in> set oids. \<forall>oid' \<in> set oids. \<forall>i f i' f'. at oid i f \<longrightarrow> at oid' i' f' \<longrightarrow>
        oid \<noteq> oid' \<longrightarrow> i \<noteq> i' \<and> f \<noteq> f')"

definition emutexes_ok :: "esrv \<Rightarrow> nat list \<Rightarrow> bool" where
  "emutexes_ok st oids \<longleftrightarrow> emutexes_apart (emutex_at st) oids \<and>
     (\<forall>oid \<in> set oids. \<exists>i f. emutex_at st oid i f \<and> i < 2 ^ 29 \<and> i * 8 < efile_size st \<and>
        slot_agrees ESYNC_MUTEX i (files st f) st)"

lemma emutexes_apart_Cons: "emutexes_apart at (oid # oids) \<Longrightarrow> emutexes_apart at oids"
  by (simp add: emutexes_apart_def)

lemma emutexes_apartD:
  assumes "emutexes_apart at (oid # oids)" and "oid' \<in> set oids" and "at oid i f" and "at oid' i' f'"
  shows "i' \<noteq> i \<and> f' \<noteq> f"
proof -
  have "oid \<noteq> oid'" using assms(1,2) by (auto simp: emutexes_apart_def)
  then show ?thesis using assms unfolding emutexes_apart_def by (metis list.set_intros(1,2))
qed

lemma emutex_at_unique: "emutex_at st oid i f \<Longrightarrow> emutex_at st oid i' f' \<Longrightarrow> i' = i \<and> f' = f"
  by (auto simp: emutex_at_def)

text \<open>The state after the mutexes of a list that the thread owns were abandoned.\<close>

definition abandoned_in :: "i32 \<Rightarrow> nat list \<Rightarrow> esrv \<Rightarrow> esrv \<Rightarrow> bool" where
  "abandoned_in tid oids st s \<longleftrightarrow> eobjs s = eobjs st \<and> fdtab s = fdtab st \<and> efile_size s = efile_size st \<and>
     esrv_ok s \<and>
     (\<forall>oid \<in> set oids. \<forall>i f. emutex_at st oid i f \<longrightarrow>
        (if mem st (emutex_tid i) = tid
         then mem s (emutex_tid i) = - 1 \<and> mem s (emutex_count i) = 0 \<and> ef_count (files s f) = 1 \<and> \<not> ef_sem (files s f)
         else mem s (emutex_tid i) = mem st (emutex_tid i) \<and> mem s (emutex_count i) = mem st (emutex_count i) \<and>
           files s f = files st f)) \<and>
     (\<forall>p. (\<forall>oid \<in> set oids. \<forall>f. \<not> emutex_at st oid (fst p) f) \<longrightarrow> mem s p = mem st p) \<and>
     (\<forall>g. (\<forall>oid \<in> set oids. \<forall>i. \<not> emutex_at st oid i g) \<longrightarrow> files s g = files st g)"

text \<open>What one turn of the loop does to the state.\<close>

definition abandon_one :: "i32 \<Rightarrow> nat \<Rightarrow> nat \<Rightarrow> esrv \<Rightarrow> esrv \<Rightarrow> bool" where
  "abandon_one tid i f st s \<longleftrightarrow> eobjs s = eobjs st \<and> fdtab s = fdtab st \<and> efile_size s = efile_size st \<and> esrv_ok s \<and>
     mem s = (if mem st (emutex_tid i) = tid then (mem st)(emutex_tid i := - 1, emutex_count i := 0) else mem st) \<and>
     files s = (if mem st (emutex_tid i) = tid then (files st)(f := (files st f)\<lparr>ef_count := 1\<rparr>) else files st)"

lemma abandon_turn:
  assumes os: "eos_good os" and st: "esrv_ok st" and tid: "tid \<noteq> 0" "tid \<noteq> - 1"
    and at: "emutex_at st oid i f" "i < 2 ^ 29" "i * 8 < efile_size st" "slot_agrees ESYNC_MUTEX i (files st f) st"
  shows "\<exists>s. abandon_one tid i f st s \<and>
    esync_abandon_loop os tid (oid # oids) st = esync_abandon_loop os tid oids s"
proof -
  obtain es where es: "eobjs st oid = Some es" "eo_shm_idx es = i" "fdtab st (eo_fd es) = Some f"
    using at(1) by (auto simp: emutex_at_def)
  obtain pg where pg: "esync_get_shm os i st = Some (i, st\<lparr>epages := pg\<rparr>)"
    using get_slot [OF os at(2,3)] by blast
  have q: "intf st = []" "kintf st = []" "kcalm st" using st by (simp_all add: esrv_ok_def)
  let ?st = "st\<lparr>epages := pg\<rparr>"
  have zero: "ef_count (files st f) = 0" if "mem st (emutex_tid i) = tid"
    using that at(4) tid by (simp add: slot_agrees_def)
  let ?m = "put_mem (emutex_count i) 0 (put_mem (emutex_tid i) (- 1) ?st)"
  let ?s = "if mem st (emutex_tid i) = tid then kemit (KWrite f 1) (set_count f 1 ?m) else ?st"
  have wake: "esync_wake_fd (eo_fd es) (at_store (emutex_count i) 0 (at_store (emutex_tid i) (- 1) ?st)) =
      kemit (KWrite f 1) (set_count f 1 ?m)" if "mem st (emutex_tid i) = tid"
    using zero [OF that] q es(3) by (simp add: esync_wake_fd_def at_store_quiet fd_write_calm EFD_MAX_def)
  have "esync_abandon_loop os tid (oid # oids) st = esync_abandon_loop os tid oids ?s"
    by (simp add: es(1,2) pg at_load_quiet q wake)
  moreover have "eobjs (kemit a x) = eobjs x" "eobjs (set_count f n x) = eobjs x" for a n and x :: esrv
    by (simp_all add: kemit_def set_count_def)
  then have "abandon_one tid i f st ?s"
    using st by (simp add: abandon_one_def esrv_ok_def)
  ultimately show ?thesis by blast
qed

lemma emutex_at_cong: "eobjs s = eobjs st \<Longrightarrow> fdtab s = fdtab st \<Longrightarrow> emutex_at s = emutex_at st"
  by (simp add: emutex_at_def fun_eq_iff)

text \<open>The mutexes of the rest of the list do not notice the turn.\<close>

lemma abandon_one_rest:
  assumes one: "abandon_one tid i f st s" and ok: "emutexes_ok st (oid # oids)" and at: "emutex_at st oid i f"
  shows "emutexes_ok s oids"
    and "oid' \<in> set oids \<Longrightarrow> emutex_at st oid' i' f' \<Longrightarrow>
      mem s (i', x) = mem st (i', x) \<and> files s f' = files st f'"
proof -
  have e: "emutex_at s = emutex_at st" "efile_size s = efile_size st"
    using one unfolding abandon_one_def by (blast intro: emutex_at_cong)+
  have other: "mem s (i', x) = mem st (i', x) \<and> files s f' = files st f'"
    if "oid' \<in> set oids" "emutex_at st oid' i' f'" for oid' i' f' x
  proof -
    have "i' \<noteq> i \<and> f' \<noteq> f"
      using emutexes_apartD [of "emutex_at st" oid oids oid' i f i' f'] ok at that by (simp add: emutexes_ok_def)
    then show ?thesis using one by (simp add: abandon_one_def)
  qed
  show "oid' \<in> set oids \<Longrightarrow> emutex_at st oid' i' f' \<Longrightarrow>
      mem s (i', x) = mem st (i', x) \<and> files s f' = files st f'" by (rule other)
  have "\<exists>i f. emutex_at st oid' i f \<and> i < 2 ^ 29 \<and> i * 8 < efile_size st \<and> slot_agrees ESYNC_MUTEX i (files s f) s"
    if r: "oid' \<in> set oids" for oid'
  proof -
    obtain i' f' where a: "emutex_at st oid' i' f'" "i' < 2 ^ 29" "i' * 8 < efile_size st"
        "slot_agrees ESYNC_MUTEX i' (files st f') st"
      using ok r unfolding emutexes_ok_def by auto
    then have "slot_agrees ESYNC_MUTEX i' (files s f') s"
      using other [OF r a(1)] by (simp add: slot_agrees_def)
    with a show ?thesis by blast
  qed
  moreover have "emutexes_apart (emutex_at st) oids"
    using ok emutexes_apart_Cons unfolding emutexes_ok_def by blast
  ultimately show "emutexes_ok s oids"
    unfolding emutexes_ok_def e by blast
qed

lemma abandoned_in_Cons:
  assumes one: "abandon_one tid i f st s" and rest: "abandoned_in tid oids s t"
    and ok: "emutexes_ok st (oid # oids)" and at: "emutex_at st oid i f"
    and agr: "slot_agrees ESYNC_MUTEX i (files st f) st"
  shows "abandoned_in tid (oid # oids) st t"
proof -
  have e: "emutex_at s = emutex_at st" using one unfolding abandon_one_def by (blast intro: emutex_at_cong)
  note other = abandon_one_rest(2) [OF one ok at]
  have apart: "\<not> emutex_at st oid' i f'" "\<not> emutex_at st oid' i' f" if "oid' \<in> set oids" for oid' i' f'
    using emutexes_apartD [of "emutex_at st" oid oids oid' i f] ok at that unfolding emutexes_ok_def by blast+
  have sem: "\<not> ef_sem (files st f)" using agr by (simp add: slot_agrees_def)
  have tf: "files t f = files s f" and tm: "\<And>x. mem t (i, x) = mem s (i, x)"
    using rest apart unfolding abandoned_in_def e by (blast, metis fst_conv)
  have head: "if mem st (emutex_tid i) = tid
         then mem t (emutex_tid i) = - 1 \<and> mem t (emutex_count i) = 0 \<and> ef_count (files t f) = 1 \<and> \<not> ef_sem (files t f)
         else mem t (emutex_tid i) = mem st (emutex_tid i) \<and> mem t (emutex_count i) = mem st (emutex_count i) \<and>
           files t f = files st f"
    using one sem by (simp add: abandon_one_def tf tm)
  have tail: "if mem st (emutex_tid i') = tid
         then mem t (emutex_tid i') = - 1 \<and> mem t (emutex_count i') = 0 \<and> ef_count (files t f') = 1 \<and> \<not> ef_sem (files t f')
         else mem t (emutex_tid i') = mem st (emutex_tid i') \<and> mem t (emutex_count i') = mem st (emutex_count i') \<and>
           files t f' = files st f'" if "oid' \<in> set oids" "emutex_at st oid' i' f'" for oid' i' f'
    using rest that other [OF that] by (simp add: abandoned_in_def e split: if_splits)
  have m: "mem t p = mem st p" if "\<forall>oid \<in> set (oid # oids). \<forall>f. \<not> emutex_at st oid (fst p) f" for p
  proof -
    have "fst p \<noteq> i" using that at by auto
    then have "mem s p = mem st p" using one by (auto simp: abandon_one_def)
    moreover have "mem t p = mem s p"
      using rest that unfolding abandoned_in_def e by (meson list.set_intros(2))
    ultimately show ?thesis by simp
  qed
  have g: "files t g = files st g" if "\<forall>oid \<in> set (oid # oids). \<forall>i. \<not> emutex_at st oid i g" for g
  proof -
    have "g \<noteq> f" using that at by auto
    then have "files s g = files st g" using one by (simp add: abandon_one_def)
    moreover have "files t g = files s g"
      using rest that unfolding abandoned_in_def e by (meson list.set_intros(2))
    ultimately show ?thesis by simp
  qed
  show ?thesis
    unfolding abandoned_in_def
  proof (intro conjI ballI allI impI)
    fix oid' i' f' assume o: "oid' \<in> set (oid # oids)" "emutex_at st oid' i' f'"
    show "if mem st (emutex_tid i') = tid
         then mem t (emutex_tid i') = - 1 \<and> mem t (emutex_count i') = 0 \<and> ef_count (files t f') = 1 \<and> \<not> ef_sem (files t f')
         else mem t (emutex_tid i') = mem st (emutex_tid i') \<and> mem t (emutex_count i') = mem st (emutex_count i') \<and>
           files t f' = files st f'"
    proof (cases "oid' = oid")
      case True
      then have "i' = i \<and> f' = f" using emutex_at_unique [OF at] o(2) by blast
      then show ?thesis using head by simp
    next
      case False
      then show ?thesis using tail o by simp
    qed
  next
    fix p :: addr assume "\<forall>oid \<in> set (oid # oids). \<forall>f. \<not> emutex_at st oid (fst p) f"
    then show "mem t p = mem st p" by (rule m)
  next
    fix g' assume "\<forall>oid \<in> set (oid # oids). \<forall>i. \<not> emutex_at st oid i g'"
    then show "files t g' = files st g'" by (rule g)
  qed (use one rest in \<open>auto simp: abandoned_in_def abandon_one_def\<close>)
qed

lemma abandon_all:
  assumes "eos_good os" and "tid \<noteq> 0" and "tid \<noteq> - 1"
  shows "esrv_ok st \<Longrightarrow> emutexes_ok st oids \<Longrightarrow>
    \<exists>s. esync_abandon_loop os tid oids st = Some s \<and> abandoned_in tid oids st s"
proof (induction oids arbitrary: st)
  case Nil
  then show ?case by (simp add: abandoned_in_def)
next
  case (Cons oid oids)
  obtain i f where at: "emutex_at st oid i f" "i < 2 ^ 29" "i * 8 < efile_size st"
      "slot_agrees ESYNC_MUTEX i (files st f) st"
    using Cons.prems(2) unfolding emutexes_ok_def by auto
  obtain s where s: "abandon_one tid i f st s"
      "esync_abandon_loop os tid (oid # oids) st = esync_abandon_loop os tid oids s"
    using abandon_turn [OF assms(1) Cons.prems(1) assms(2,3) at] by blast
  have "esrv_ok s" using s(1) by (simp add: abandon_one_def)
  from Cons.IH [OF this abandon_one_rest(1) [OF s(1) Cons.prems(2) at(1)]]
  obtain t where t: "esync_abandon_loop os tid oids s = Some t" "abandoned_in tid oids s t" by blast
  then show ?case
    using s(2) abandoned_in_Cons [OF s(1) t(2) Cons.prems(2) at(1,4)] by auto
qed

text \<open>
  C12: When a thread dies, every mutex it owns becomes abandoned with count zero and its counter goes to
  one, which wakes a waiter; every other mutex, slot and counter stays as it was. In particular slot
  and counter of every mutex agree again.
\<close>
theorem esync_abandon_marks_and_wakes:
  assumes "eos_good os" and "tid \<noteq> 0" and "tid \<noteq> - 1" and "esrv_ok st" and "emutexes_ok st (emutexes st)"
  shows "\<exists>s. esync_abandon_mutexes os tid st = Some s \<and> abandoned_in tid (emutexes st) st s"
  using abandon_all [OF assms] by (simp add: esync_abandon_mutexes_def)

definition sample_mutexes :: esrv where
  "sample_mutexes = sample_esrv\<lparr>fdtab := [3 \<mapsto> 7, 4 \<mapsto> 8], eshm_size := 4096, efile_size := 4096,
     mem := (\<lambda>_. 0)((4, W0) := 12, (4, W1) := 2, (5, W0) := 13, (5, W1) := 1),
     eobjs := [20 \<mapsto> \<lparr>eo_fd = 3, eo_type = ESYNC_MUTEX, eo_shm_idx = 4\<rparr>,
               21 \<mapsto> \<lparr>eo_fd = 4, eo_type = ESYNC_MUTEX, eo_shm_idx = 5\<rparr>], emutexes := [20, 21]\<rparr>"

lemma sample_mutexes_at:
  "emutex_at sample_mutexes 20 i f \<longleftrightarrow> i = 4 \<and> f = 7" "emutex_at sample_mutexes 21 i f \<longleftrightarrow> i = 5 \<and> f = 8"
  by (auto simp: emutex_at_def sample_mutexes_def)

theorem esync_abandon_marks_and_wakes_witness:
  "\<exists>s. esync_abandon_mutexes sample_eos 12 sample_mutexes = Some s \<and>
    mem s (4, W0) = - 1 \<and> ef_count (files s 7) = 1 \<and> mem s (5, W0) = 13 \<and> ef_count (files s 8) = 0"
proof -
  have ms: "emutexes sample_mutexes = [20, 21]" "efile_size sample_mutexes = 4096"
    "mem sample_mutexes (4, W0) = 12" "mem sample_mutexes (5, W0) = 13"
    "files sample_mutexes = (\<lambda>_. \<lparr>ef_count = 0, ef_sem = False\<rparr>)"
    by (simp_all add: sample_mutexes_def) (simp add: sample_esrv_def)
  have "emutexes_ok sample_mutexes (emutexes sample_mutexes)"
  proof -
    have "\<exists>i f. emutex_at sample_mutexes 20 i f \<and> i < 2 ^ 29 \<and> i * 8 < 4096 \<and>
        slot_agrees ESYNC_MUTEX i (files sample_mutexes f) sample_mutexes"
      by (intro exI [of _ 4] exI [of _ 7]) (simp add: ms sample_mutexes_at slot_agrees_def)
    then have "\<exists>i f. emutex_at sample_mutexes 20 i f \<and> i < 2 ^ 29 \<and> i * 8 < efile_size sample_mutexes \<and>
        slot_agrees ESYNC_MUTEX i (files sample_mutexes f) sample_mutexes" unfolding ms .
    moreover have "\<exists>i f. emutex_at sample_mutexes 21 i f \<and> i < 2 ^ 29 \<and> i * 8 < 4096 \<and>
        slot_agrees ESYNC_MUTEX i (files sample_mutexes f) sample_mutexes"
      by (intro exI [of _ 5] exI [of _ 8]) (simp add: ms sample_mutexes_at slot_agrees_def)
    moreover have "emutexes_apart (emutex_at sample_mutexes) [20, 21]"
      by (simp add: emutexes_apart_def sample_mutexes_at)
    ultimately show ?thesis unfolding emutexes_ok_def ms by simp
  qed
  moreover have "esrv_ok sample_mutexes"
    using sample_esrv_ok(2) by (simp add: sample_mutexes_def esrv_ok_def)
  ultimately obtain s where "esync_abandon_mutexes sample_eos 12 sample_mutexes = Some s"
      and "abandoned_in 12 [20, 21] sample_mutexes s"
    using esync_abandon_marks_and_wakes [of sample_eos 12 sample_mutexes] by (auto simp: ms)
  then show ?thesis
    by (intro exI [of _ s]) (simp add: abandoned_in_def sample_mutexes_at ms)
qed

end
