(* ===== verification/Sysvshm.thy ===== *)
theory Sysvshm
  imports Prelude
begin

text \<open>
  path/android_sysvshm.c: the System V shared memory calls of a process, on top of a server that hands
  out memory file descriptors over a socket. The table of segments is the list \<open>shmemories\<close>. Every call
  opens its own connection and runs under one mutex, so a call is one step; what the system calls and
  the server answer during a call is a record of answers. A fault or a call that blocks for ever is
  \<open>None\<close>. Shrinking a block with \<open>realloc\<close> always succeeds here.
\<close>

section \<open>State\<close>

record shmem =
  sm_id :: i32
  sm_addr :: u64
  sm_fd :: int
  sm_size :: u64
  sm_marked :: bool

datatype sact =
    ASocket int
  | ASend int "8 word list"
  | AClose int
  | AMmap u64 bool int
  | AMunmap u64 u64

record shmstate =
  shmemories :: "shmem list"
  sysvshm_server_fd :: int
  shm_locked :: bool
  shm_acts :: "sact list"

datatype cres = Connected | CInterrupted | CRefused

record shmenv =
  ve_path :: bool           \<comment> \<open>the environment variable is set\<close>
  ve_socket :: int
  ve_connect :: "cres list"
  ve_send1 :: bool          \<comment> \<open>the first write succeeds\<close>
  ve_shmid :: "i32 option"  \<comment> \<open>the four bytes read, if they were four\<close>
  ve_send2 :: bool
  ve_fd :: int              \<comment> \<open>the descriptor received, or \<open>- 1\<close>\<close>
  ve_realloc :: bool
  ve_mmap :: "u64 option"
  ve_pagesize :: i32
  ve_uid :: u32
  ve_gid :: u32

definition shm_emit :: "sact \<Rightarrow> shmstate \<Rightarrow> shmstate" where
  "shm_emit a st = st\<lparr>shm_acts := shm_acts st @ [a]\<rparr>"

definition shm_lock :: "shmstate \<Rightarrow> shmstate option" where
  "shm_lock st = (if shm_locked st then None else Some (st\<lparr>shm_locked := True\<rparr>))"

definition shm_unlock :: "shmstate \<Rightarrow> shmstate" where
  "shm_unlock st = st\<lparr>shm_locked := False\<rparr>"

section \<open>The connection\<close>

text \<open>The index of a segment, \<open>None\<close> for the value \<open>- 1\<close>.\<close>

fun find_from :: "(shmem \<Rightarrow> bool) \<Rightarrow> nat \<Rightarrow> shmem list \<Rightarrow> nat option" where
  "find_from p i [] = None"
| "find_from p i (s # ss) = (if p s then Some i else find_from p (Suc i) ss)"

definition find_shmemory_index :: "i32 \<Rightarrow> shmstate \<Rightarrow> nat option" where
  "find_shmemory_index shmid st = find_from (\<lambda>s. sm_id s = shmid) 0 (shmemories st)"

text \<open>The loop around \<open>connect\<close>: \<open>None\<close> if it never gets another answer.\<close>

fun connect_loop :: "cres list \<Rightarrow> bool option" where
  "connect_loop [] = None"
| "connect_loop (Connected # rs) = Some True"
| "connect_loop (CRefused # rs) = Some False"
| "connect_loop (CInterrupted # rs) = connect_loop rs"

definition sysvshm_connect :: "shmenv \<Rightarrow> shmstate \<Rightarrow> shmstate option" where
  "sysvshm_connect env st =
     (if 0 \<le> sysvshm_server_fd st then Some st
      else if ve_socket env < 0 then Some st
      else let st1 = shm_emit (ASocket (ve_socket env)) st
           in if \<not> ve_path env then None
              else do {
                connected \<leftarrow> connect_loop (ve_connect env);
                Some (if connected then st1\<lparr>sysvshm_server_fd := ve_socket env\<rparr>
                      else shm_emit (AClose (ve_socket env)) st1)
              })"

definition sysvshm_close :: "shmstate \<Rightarrow> shmstate" where
  "sysvshm_close st =
     (if 0 \<le> sysvshm_server_fd st
      then (shm_emit (AClose (sysvshm_server_fd st)) st)\<lparr>sysvshm_server_fd := - 1\<rparr> else st)"

text \<open>A request is a code and the lowest four bytes of a value, least significant byte first.\<close>

definition low_bytes :: "'a::len word \<Rightarrow> 8 word list" where
  "low_bytes v = map (\<lambda>i. ucast (drop_bit (8 * i) v)) [0..<4]"

definition sysvshm_shmget_request :: "shmenv \<Rightarrow> u64 \<Rightarrow> shmstate \<Rightarrow> i32 \<times> shmstate" where
  "sysvshm_shmget_request env sz st =
     (if sysvshm_server_fd st < 0 then (0, st)
      else let st1 = shm_emit (ASend (sysvshm_server_fd st) (0 # low_bytes sz)) st
           in if \<not> ve_send1 env then (0, st1)
              else (case ve_shmid env of None \<Rightarrow> (0, st1) | Some shmid \<Rightarrow> (shmid, st1)))"

definition sysvshm_get_fd_request :: "shmenv \<Rightarrow> i32 \<Rightarrow> shmstate \<Rightarrow> int \<times> shmstate" where
  "sysvshm_get_fd_request env shmid st =
     (if sysvshm_server_fd st < 0 then (0, st)
      else let st1 = shm_emit (ASend (sysvshm_server_fd st) (1 # low_bytes shmid)) st
           in (if \<not> ve_send2 env then - 1 else ve_fd env, st1))"

definition sysvshm_delete_request :: "i32 \<Rightarrow> shmstate \<Rightarrow> shmstate" where
  "sysvshm_delete_request shmid st =
     (if sysvshm_server_fd st < 0 then st
      else shm_emit (ASend (sysvshm_server_fd st) (2 # low_bytes shmid)) st)"

definition sysvshm_delete :: "shmenv \<Rightarrow> nat \<Rightarrow> shmstate \<Rightarrow> shmstate option" where
  "sysvshm_delete env index st =
     do {
       st1 \<leftarrow> sysvshm_connect env st;
       let st2 = sysvshm_close (sysvshm_delete_request (sm_id (shmemories st1 ! index)) st1);
       let fd = sm_fd (shmemories st2 ! index);
       let st3 = (if 0 \<le> fd then shm_emit (AClose fd) st2 else st2);
       Some (st3\<lparr>shmemories := take index (shmemories st3) @ drop (Suc index) (shmemories st3)\<rparr>)
     }"

section \<open>The calls\<close>

abbreviation (input) IPC_PRIVATE :: i32 where "IPC_PRIVATE \<equiv> 0"
abbreviation (input) IPC_RMID :: i32 where "IPC_RMID \<equiv> 0"
abbreviation (input) IPC_STAT :: i32 where "IPC_STAT \<equiv> 2"

text \<open>\<open>ROUND_UP\<close> in the unsigned arithmetic of \<open>size_t\<close>.\<close>

definition round_up :: "u64 \<Rightarrow> i32 \<Rightarrow> u64" where
  "round_up n s = (let s' = scast s in ((n + s' - 1) div s') * s')"

definition shmget :: "shmenv \<Rightarrow> i32 \<Rightarrow> u64 \<Rightarrow> shmstate \<Rightarrow> (i32 \<times> shmstate) option" where
  "shmget env key sz st =
     (if key \<noteq> IPC_PRIVATE then Some (- 1, st)
      else do {
        st1 \<leftarrow> shm_lock st;
        st2 \<leftarrow> sysvshm_connect env st1;
        let (shmid, st3) = sysvshm_shmget_request env sz st2;
        if shmid = 0 then Some (- 1, shm_unlock (sysvshm_close st3))
        else if \<not> ve_realloc env then None
        else do {
          let (fd, st4) = sysvshm_get_fd_request env shmid st3;
          let entry = \<lparr>sm_id = shmid, sm_addr = 0, sm_fd = fd, sm_size = round_up sz (ve_pagesize env),
                       sm_marked = False\<rparr>;
          let st5 = sysvshm_close (st4\<lparr>shmemories := shmemories st4 @ [entry]\<rparr>);
          if fd < 0 then Some (- 1, shm_unlock (st5\<lparr>shmemories := butlast (shmemories st5)\<rparr>))
          else Some (shmid, shm_unlock st5)
        }
      })"

definition shmat :: "shmenv \<Rightarrow> i32 \<Rightarrow> i32 \<Rightarrow> shmstate \<Rightarrow> (u64 \<times> shmstate) option" where
  "shmat env shmid shmflg st =
     do {
       st1 \<leftarrow> shm_lock st;
       let (addr, st2) =
         (case find_shmemory_index shmid st1 of
            None \<Rightarrow> (0, st1)
          | Some index \<Rightarrow>
              let s = shmemories st1 ! index;
                  st2 = (if sm_addr s = 0
                         then (shm_emit (AMmap (sm_size s) (shmflg = 0) (sm_fd s)) st1)
                              \<lparr>shmemories := (shmemories st1)
                                 [index := s\<lparr>sm_addr := (case ve_mmap env of None \<Rightarrow> 0 | Some a \<Rightarrow> a)\<rparr>]\<rparr>
                         else st1)
              in (sm_addr (shmemories st2 ! index), st2));
       Some (if addr \<noteq> 0 then addr else - 1, shm_unlock st2)
     }"

definition shmdt :: "shmenv \<Rightarrow> u64 \<Rightarrow> shmstate \<Rightarrow> (i32 \<times> shmstate) option" where
  "shmdt env shmaddr st =
     do {
       st1 \<leftarrow> shm_lock st;
       st2 \<leftarrow>
         (case find_from (\<lambda>s. sm_addr s = shmaddr) 0 (shmemories st1) of
            None \<Rightarrow> Some st1
          | Some i \<Rightarrow>
              let s = shmemories st1 ! i;
                  st2 = (shm_emit (AMunmap (sm_addr s) (sm_size s)) st1)
                        \<lparr>shmemories := (shmemories st1)[i := s\<lparr>sm_addr := 0\<rparr>]\<rparr>
              in if sm_marked s then sysvshm_delete env i st2 else Some st2);
       Some (0, shm_unlock st2)
     }"

record shmid_ds =
  shm_segsz :: u64
  shm_nattch :: nat
  perm_key :: i32
  perm_uid :: u32
  perm_gid :: u32
  perm_cuid :: u32
  perm_cgid :: u32
  perm_mode :: nat
  perm_seq :: nat

text \<open>\<open>buf\<close> tells whether the caller passed a buffer; the result holds what is written into it.\<close>

definition shmctl :: "shmenv \<Rightarrow> i32 \<Rightarrow> i32 \<Rightarrow> bool \<Rightarrow> shmstate \<Rightarrow> ((i32 \<times> shmid_ds option) \<times> shmstate) option" where
  "shmctl env shmid cmd buf st =
     (if cmd = IPC_RMID then do {
        st1 \<leftarrow> shm_lock st;
        st2 \<leftarrow>
          (case find_shmemory_index shmid st1 of
             None \<Rightarrow> Some st1
           | Some index \<Rightarrow>
               let s = shmemories st1 ! index
               in if sm_addr s \<noteq> 0
                  then Some (st1\<lparr>shmemories := (shmemories st1)[index := s\<lparr>sm_marked := True\<rparr>]\<rparr>)
                  else sysvshm_delete env index st1);
        Some ((0, None), shm_unlock st2)
      }
      else if cmd = IPC_STAT then do {
        st1 \<leftarrow> shm_lock st;
        case find_shmemory_index shmid st1 of
          None \<Rightarrow> Some ((- 1, None), shm_unlock st1)
        | Some index \<Rightarrow>
            if \<not> buf then Some ((- 1, None), shm_unlock st1)
            else Some ((0, Some \<lparr>shm_segsz = sm_size (shmemories st1 ! index), shm_nattch = 1, perm_key = IPC_PRIVATE,
                   perm_uid = ve_uid env, perm_gid = ve_gid env, perm_cuid = ve_uid env, perm_cgid = ve_gid env,
                   perm_mode = 438, perm_seq = 1\<rparr>), shm_unlock st1)
      }
      else Some ((- 1, None), st))"

text \<open>A call of a client, and what it returns.\<close>

datatype shm_call = Shmget i32 u64 | Shmat i32 i32 | Shmdt u64 | Shmctl i32 i32 bool

datatype shm_result = RInt i32 | RAddr u64 | RCtl i32 "shmid_ds option"

fun sysv_call :: "shmenv \<Rightarrow> shm_call \<Rightarrow> shmstate \<Rightarrow> (shm_result \<times> shmstate) option" where
  "sysv_call env (Shmget key sz) st = map_option (map_prod RInt id) (shmget env key sz st)"
| "sysv_call env (Shmat shmid flg) st = map_option (map_prod RAddr id) (shmat env shmid flg st)"
| "sysv_call env (Shmdt a) st = map_option (map_prod RInt id) (shmdt env a st)"
| "sysv_call env (Shmctl shmid cmd buf) st =
     map_option (map_prod (\<lambda>(r, ds). RCtl r ds) id) (shmctl env shmid cmd buf st)"

fun sysv_run :: "(shmenv \<times> shm_call) list \<Rightarrow> shmstate \<Rightarrow> (shm_result list \<times> shmstate) option" where
  "sysv_run [] st = Some ([], st)"
| "sysv_run ((env, c) # cs) st =
     do {
       (r, st1) \<leftarrow> sysv_call env c st;
       (rs, st2) \<leftarrow> sysv_run cs st1;
       Some (r # rs, st2)
     }"

section \<open>What the calls promise\<close>

text \<open>
  The abstract segments of a process: size, address if attached, whether a removal is pending. A
  segment that is removed while it is attached goes away with its detachment.
\<close>

record seg =
  seg_size :: u64
  seg_addr :: u64
  seg_doomed :: bool

type_synonym segs = "i32 \<Rightarrow> seg option"

definition env_connects :: "shmenv \<Rightarrow> bool" where
  "env_connects env \<longleftrightarrow> 0 \<le> ve_socket env \<and> connect_loop (ve_connect env) = Some True"

text \<open>The identifier of the segment that the server creates and hands over, if it does.\<close>

definition new_segment :: "shmenv \<Rightarrow> i32 option" where
  "new_segment env =
     (if env_connects env \<and> ve_send1 env \<and> ve_send2 env \<and> 0 \<le> ve_fd env \<and> ve_shmid env \<noteq> Some 0
      then ve_shmid env else None)"

text \<open>Result, segments afterwards, and the identifiers whose deletion the server is asked for.\<close>

fun seg_call :: "shmenv \<Rightarrow> shm_call \<Rightarrow> segs \<Rightarrow> shm_result \<times> segs \<times> i32 set" where
  "seg_call env (Shmget key sz) m =
     (if key \<noteq> IPC_PRIVATE then (RInt (- 1), m, {})
      else case new_segment env of
        None \<Rightarrow> (RInt (- 1), m, {})
      | Some shmid \<Rightarrow>
          (RInt shmid, m(shmid \<mapsto> \<lparr>seg_size = round_up sz (ve_pagesize env), seg_addr = 0, seg_doomed = False\<rparr>), {}))"
| "seg_call env (Shmat shmid flg) m =
     (case m shmid of
        None \<Rightarrow> (RAddr (- 1), m, {})
      | Some s \<Rightarrow>
          if seg_addr s \<noteq> 0 then (RAddr (seg_addr s), m, {})
          else (case ve_mmap env of
                  None \<Rightarrow> (RAddr (- 1), m, {})
                | Some a \<Rightarrow> (RAddr a, m(shmid \<mapsto> s\<lparr>seg_addr := a\<rparr>), {})))"
| "seg_call env (Shmdt a) m =
     (RInt 0,
      (\<lambda>shmid. case m shmid of
         None \<Rightarrow> None
       | Some s \<Rightarrow> if seg_addr s = a then (if seg_doomed s then None else Some (s\<lparr>seg_addr := 0\<rparr>)) else Some s),
      {shmid. \<exists>s. m shmid = Some s \<and> seg_addr s = a \<and> seg_doomed s})"
| "seg_call env (Shmctl shmid cmd buf) m =
     (if cmd = IPC_RMID then
        (case m shmid of
           None \<Rightarrow> (RCtl 0 None, m, {})
         | Some s \<Rightarrow>
             if seg_addr s \<noteq> 0 then (RCtl 0 None, m(shmid \<mapsto> s\<lparr>seg_doomed := True\<rparr>), {})
             else (RCtl 0 None, m(shmid := None), {shmid}))
      else if cmd = IPC_STAT then
        (case m shmid of
           None \<Rightarrow> (RCtl (- 1) None, m, {})
         | Some s \<Rightarrow>
             if buf then (RCtl 0 (Some \<lparr>shm_segsz = seg_size s, shm_nattch = 1, perm_key = IPC_PRIVATE,
                   perm_uid = ve_uid env, perm_gid = ve_gid env, perm_cuid = ve_uid env, perm_cgid = ve_gid env,
                   perm_mode = 438, perm_seq = 1\<rparr>), m, {})
             else (RCtl (- 1) None, m, {}))
      else (RCtl (- 1) None, m, {}))"

section \<open>The requests on the wire\<close>

definition of_low_bytes :: "8 word list \<Rightarrow> i32" where
  "of_low_bytes bs = foldr (\<lambda>b v. ucast b OR push_bit 8 v) bs 0"

lemma of_low_bytes_low: "of_low_bytes (low_bytes v) = ucast (v :: 'a::len word)"
proof (rule bit_word_eqI)
  fix n assume "n < LENGTH(32)"
  then have "n < 32" by simp
  then have "n < 8 \<or> (\<exists>m < 8. n = 8 + m) \<or> (\<exists>m < 8. n = 16 + m) \<or> (\<exists>m < 8. n = 24 + m)" by presburger
  then show "bit (of_low_bytes (low_bytes v)) n \<longleftrightarrow> bit (ucast v :: i32) n"
    by (elim disjE exE conjE) (auto simp: of_low_bytes_def low_bytes_def upt_rec bit_simps)
qed

text \<open>The identifiers of the deletion requests.\<close>

fun deletions :: "sact list \<Rightarrow> i32 list" where
  "deletions [] = []"
| "deletions (ASend fd (c # bs) # as) = (if c = 2 then of_low_bytes bs # deletions as else deletions as)"
| "deletions (a # as) = deletions as"

lemma deletions_append [simp]: "deletions (as @ bs) = deletions as @ deletions bs"
  by (induction as rule: deletions.induct) auto

lemma shm_emit_sel [simp]:
  "shmemories (shm_emit a st) = shmemories st" "sysvshm_server_fd (shm_emit a st) = sysvshm_server_fd st"
  "shm_locked (shm_emit a st) = shm_locked st" "shm_acts (shm_emit a st) = shm_acts st @ [a]"
  by (simp_all add: shm_emit_def)

section \<open>The table\<close>

lemma find_from_None: "find_from p i ss = None \<longleftrightarrow> (\<forall>s \<in> set ss. \<not> p s)"
  by (induction ss arbitrary: i) auto

lemma find_from_Some: "find_from p i ss = Some j \<Longrightarrow>
    i \<le> j \<and> j - i < length ss \<and> p (ss ! (j - i)) \<and> (\<forall>k < j - i. \<not> p (ss ! k))"
proof (induction ss arbitrary: i)
  case (Cons s ss)
  show ?case
  proof (cases "p s")
    case False
    with Cons have "Suc i \<le> j \<and> j - Suc i < length ss \<and> p (ss ! (j - Suc i)) \<and> (\<forall>k < j - Suc i. \<not> p (ss ! k))"
      by simp
    moreover from this have "j - i = Suc (j - Suc i)" by linarith
    ultimately show ?thesis using False by (auto simp: less_Suc_eq_0_disj)
  qed (use Cons in simp)
qed simp

definition seg_of :: "shmem \<Rightarrow> seg" where
  "seg_of s = \<lparr>seg_size = sm_size s, seg_addr = sm_addr s, seg_doomed = sm_marked s\<rparr>"

definition segs_of :: "shmem list \<Rightarrow> segs" where
  "segs_of ss = map_of (map (\<lambda>s. (sm_id s, seg_of s)) ss)"

text \<open>
  Identifiers are distinct, no two segments are attached at one address, a pending removal means that
  the segment is attached, every segment has a descriptor.
\<close>

definition table_ok :: "shmem list \<Rightarrow> bool" where
  "table_ok ss \<longleftrightarrow> distinct (map sm_id ss) \<and>
     distinct (removeAll 0 (map sm_addr ss)) \<and>
     (\<forall>s \<in> set ss. (sm_marked s \<longrightarrow> sm_addr s \<noteq> 0) \<and> 0 \<le> sm_fd s)"

lemma segs_of_find:
  assumes "distinct (map sm_id ss)" and "find_from (\<lambda>s. sm_id s = k) 0 ss = r"
  shows "segs_of ss k = map_option (\<lambda>i. seg_of (ss ! i)) r"
proof (cases r)
  case None
  then show ?thesis using assms(2) by (force simp: find_from_None segs_of_def map_of_eq_None_iff)
next
  case (Some i)
  then have i: "i < length ss" "sm_id (ss ! i) = k" using find_from_Some [of _ 0 ss i] assms(2) by auto
  have "map_of (map (\<lambda>s. (sm_id s, seg_of s)) ss) k = Some (seg_of (ss ! i))"
    using assms(1) i by (intro map_of_is_SomeI) (auto simp: comp_def)
  then show ?thesis using Some by (simp add: segs_of_def)
qed

text \<open>Splitting the table at an index.\<close>

lemma table_split:
  assumes "i < length ss"
  obtains xs ys where "ss = xs @ ss ! i # ys" "length xs = i" "ss[i := s] = xs @ s # ys"
    "take i ss @ drop (Suc i) ss = xs @ ys"
proof
  show "ss = take i ss @ ss ! i # drop (Suc i) ss" using assms by (rule id_take_nth_drop)
  show "ss[i := s] = take i ss @ s # drop (Suc i) ss" using assms by (rule upd_conv_take_nth_drop)
qed (use assms in simp_all)

lemma segs_of_split:
  assumes "distinct (map sm_id (xs @ s # ys))"
  shows "segs_of (xs @ s # ys) (sm_id s) = Some (seg_of s)"
    and "sm_id s' = sm_id s \<Longrightarrow> segs_of (xs @ s' # ys) = (segs_of (xs @ s # ys))(sm_id s \<mapsto> seg_of s')"
    and "segs_of (xs @ ys) = (segs_of (xs @ s # ys))(sm_id s := None)"
proof -
  have n: "map_of (map (\<lambda>s. (sm_id s, seg_of s)) zs) (sm_id s) = None" if "sm_id s \<notin> sm_id ` set zs" for zs
    using that by (auto simp: map_of_eq_None_iff image_iff)
  have a: "sm_id s \<notin> sm_id ` set xs" "sm_id s \<notin> sm_id ` set ys" using assms by auto
  show "segs_of (xs @ s # ys) (sm_id s) = Some (seg_of s)"
    by (simp add: segs_of_def map_add_def n [OF a(1)])
  show "segs_of (xs @ s' # ys) = (segs_of (xs @ s # ys))(sm_id s \<mapsto> seg_of s')" if "sm_id s' = sm_id s"
    using that by (auto simp: segs_of_def map_add_def n [OF a(1)] fun_eq_iff split: option.splits)
  show "segs_of (xs @ ys) = (segs_of (xs @ s # ys))(sm_id s := None)"
    by (auto simp: segs_of_def map_add_def n [OF a(1)] n [OF a(2)] fun_eq_iff split: option.splits)
qed

lemma segs_of_at:
  assumes "k \<noteq> sm_id s"
  shows "segs_of (xs @ s # ys) k = segs_of (xs @ ys) k"
  using assms by (auto simp: segs_of_def map_add_def split: option.splits)

lemma segs_of_SomeD: "segs_of ss k = Some g \<Longrightarrow> \<exists>s \<in> set ss. sm_id s = k \<and> g = seg_of s"
  by (auto simp: segs_of_def dest!: map_of_SomeD)

section \<open>The connection of a call\<close>

text \<open>Between the calls there is no connection and the mutex is free.\<close>

definition shm_idle :: "shmstate \<Rightarrow> bool" where
  "shm_idle st \<longleftrightarrow> sysvshm_server_fd st = - 1 \<and> \<not> shm_locked st"

text \<open>The attempts to connect come to an end.\<close>

definition env_answers :: "shmenv \<Rightarrow> bool" where
  "env_answers env \<longleftrightarrow> ve_socket env < 0 \<or> ve_path env \<and> connect_loop (ve_connect env) \<noteq> None"

lemma connect_spec:
  assumes "sysvshm_server_fd st = - 1" and "env_answers env"
  shows "sysvshm_connect env st = Some
    (if env_connects env then (shm_emit (ASocket (ve_socket env)) st)\<lparr>sysvshm_server_fd := ve_socket env\<rparr>
     else if ve_socket env < 0 then st
     else shm_emit (AClose (ve_socket env)) (shm_emit (ASocket (ve_socket env)) st))"
  using assms by (auto simp: sysvshm_connect_def env_answers_def env_connects_def)

lemma close_spec: "sysvshm_close st = (if 0 \<le> sysvshm_server_fd st
    then st\<lparr>sysvshm_server_fd := - 1, shm_acts := shm_acts st @ [AClose (sysvshm_server_fd st)]\<rparr> else st)"
  by (simp add: sysvshm_close_def shm_emit_def)

text \<open>The system calls of a connection with the requests made on it.\<close>

definition session :: "shmenv \<Rightarrow> 8 word list list \<Rightarrow> sact list" where
  "session env reqs =
     (if env_connects env then ASocket (ve_socket env) # map (ASend (ve_socket env)) reqs @ [AClose (ve_socket env)]
      else if ve_socket env < 0 then [] else [ASocket (ve_socket env), AClose (ve_socket env)])"

lemma delete_spec:
  assumes "sysvshm_server_fd st = - 1" and "env_answers env" and "i < length (shmemories st)"
    and "0 \<le> sm_fd (shmemories st ! i)"
  shows "sysvshm_delete env i st = Some (st\<lparr>shmemories := take i (shmemories st) @ drop (Suc i) (shmemories st),
    shm_acts := shm_acts st @ session env [2 # low_bytes (sm_id (shmemories st ! i))] @ [AClose (sm_fd (shmemories st ! i))]\<rparr>)"
  using assms unfolding sysvshm_delete_def connect_spec [OF assms(1,2)]
  by (auto simp: sysvshm_delete_request_def close_spec session_def shm_emit_def Let_def env_connects_def)

section \<open>Each call implements its specification\<close>

text \<open>
  What the calls rely on: the attempts to connect end, allocation succeeds, the identifier of a new
  segment is not in use, a mapping does not lie at address zero or \<open>- 1\<close> nor over an attached segment.
\<close>

definition env_ok :: "shmenv \<Rightarrow> segs \<Rightarrow> bool" where
  "env_ok env m \<longleftrightarrow> env_answers env \<and> ve_realloc env \<and>
     (\<forall>k. new_segment env = Some k \<longrightarrow> m k = None) \<and>
     (\<forall>a. ve_mmap env = Some a \<longrightarrow> a \<noteq> 0 \<and> a \<noteq> - 1 \<and> (\<forall>k s. m k = Some s \<longrightarrow> seg_addr s \<noteq> a))"

definition shm_ok :: "shmstate \<Rightarrow> bool" where
  "shm_ok st \<longleftrightarrow> shm_idle st \<and> table_ok (shmemories st)"

abbreviation shm_abs :: "shmstate \<Rightarrow> segs" where "shm_abs st \<equiv> segs_of (shmemories st)"

text \<open>The state after a call: a new table and a list of system calls.\<close>

definition shm_after :: "shmem list \<Rightarrow> sact list \<Rightarrow> shmstate \<Rightarrow> shmstate" where
  "shm_after ss as st = st\<lparr>shmemories := ss, shm_acts := shm_acts st @ as\<rparr>"

lemma shm_after_sel [simp]:
  "shmemories (shm_after ss as st) = ss" "shm_acts (shm_after ss as st) = shm_acts st @ as"
  "shm_idle (shm_after ss as st) = shm_idle st"
  by (simp_all add: shm_after_def shm_idle_def)

lemma shm_state_eqI:
  "shmemories s = shmemories t \<Longrightarrow> sysvshm_server_fd s = sysvshm_server_fd t \<Longrightarrow> shm_locked s = shm_locked t \<Longrightarrow>
   shm_acts s = shm_acts t \<Longrightarrow> s = (t :: shmstate)"
  by (cases s; cases t) simp

lemma deletions_session [simp]:
  "deletions (session env [0 # bs]) = []" "deletions (session env [0 # bs, 1 # cs]) = []"
  "deletions (session env [2 # low_bytes k]) = (if env_connects env then [k] else [])" for k :: i32
  by (simp_all add: session_def of_low_bytes_low)

definition new_entry :: "shmenv \<Rightarrow> u64 \<Rightarrow> i32 \<Rightarrow> shmem" where
  "new_entry env sz shmid = \<lparr>sm_id = shmid, sm_addr = 0, sm_fd = ve_fd env, sm_size = round_up sz (ve_pagesize env),
     sm_marked = False\<rparr>"

lemma shmget_spec:
  assumes "shm_idle st" and "env_answers env" and "ve_realloc env"
  shows "shmget env key sz st =
    (if key \<noteq> 0 then Some (- 1, st)
     else case new_segment env of
       None \<Rightarrow> Some (- 1, shm_after (shmemories st)
         (session env (if ve_send1 env \<and> ve_shmid env \<noteq> None \<and> ve_shmid env \<noteq> Some 0
                       then [0 # low_bytes sz, 1 # low_bytes (the (ve_shmid env))] else [0 # low_bytes sz])) st)
     | Some shmid \<Rightarrow> Some (shmid, shm_after (shmemories st @ [new_entry env sz shmid])
         (session env [0 # low_bytes sz, 1 # low_bytes shmid]) st))"
proof (cases "key = 0")
  case True
  let ?st = "st\<lparr>shm_locked := True\<rparr>"
  have l: "shm_lock st = Some ?st" "sysvshm_server_fd ?st = - 1"
    using assms(1) by (simp_all add: shm_lock_def shm_idle_def)
  have st: "st = st\<lparr>shm_locked := False, sysvshm_server_fd := - 1\<rparr>"
    using assms(1) by (simp add: shm_idle_def)
  show ?thesis
  proof (cases "env_connects env")
    case True
    then have fd: "0 \<le> ve_socket env" by (simp add: env_connects_def)
    show ?thesis
      using True fd \<open>key = 0\<close> assms(1,3) unfolding shmget_def l(1) bind.bind_lunit connect_spec [OF l(2) assms(2)]
      by (cases "ve_send1 env"; cases "ve_shmid env"; cases "ve_shmid env = Some 0"; cases "ve_send2 env \<and> 0 \<le> ve_fd env")
        (auto simp: sysvshm_shmget_request_def sysvshm_get_fd_request_def close_spec shm_unlock_def shm_after_def
          session_def new_segment_def shm_idle_def new_entry_def shm_emit_def Let_def intro!: shm_state_eqI)
  next
    case False
    then have n: "new_segment env = None" by (simp add: new_segment_def)
    show ?thesis
      using False \<open>key = 0\<close> assms(1) unfolding shmget_def l(1) bind.bind_lunit connect_spec [OF l(2) assms(2)] n
      by (auto simp: sysvshm_shmget_request_def close_spec shm_unlock_def shm_after_def session_def shm_idle_def
          shm_emit_def Let_def intro!: shm_state_eqI)
  qed
qed (simp add: shmget_def)

lemma idle_lock:
  assumes "shm_idle st"
  shows "shm_lock st = Some (st\<lparr>shm_locked := True\<rparr>)"
    and "shm_unlock (st\<lparr>shm_locked := True\<rparr>) = st"
    and "shm_unlock (st\<lparr>shm_locked := True, shmemories := ss\<rparr>) = shm_after ss [] st"
    and "shm_unlock ((shm_emit a (st\<lparr>shm_locked := True\<rparr>))\<lparr>shmemories := ss\<rparr>) = shm_after ss [a] st"
    and "shm_unlock (st\<lparr>shm_locked := True, shmemories := ss, shm_acts := as\<rparr>) = st\<lparr>shmemories := ss, shm_acts := as\<rparr>"
  using assms
  by (auto simp: shm_lock_def shm_unlock_def shm_after_def shm_emit_def shm_idle_def intro!: shm_state_eqI)

lemma shmat_spec:
  assumes "shm_idle st"
  shows "shmat env k flg st =
    (case find_shmemory_index k st of
       None \<Rightarrow> Some (- 1, st)
     | Some i \<Rightarrow> let s = shmemories st ! i in
         if sm_addr s \<noteq> 0 then Some (sm_addr s, st)
         else Some (case ve_mmap env of None \<Rightarrow> - 1 | Some a \<Rightarrow> if a \<noteq> 0 then a else - 1,
           shm_after ((shmemories st)[i := s\<lparr>sm_addr := (case ve_mmap env of None \<Rightarrow> 0 | Some a \<Rightarrow> a)\<rparr>])
             [AMmap (sm_size s) (flg = 0) (sm_fd s)] st))"
proof (cases "find_shmemory_index k st")
  case None
  then show ?thesis
    using assms by (simp add: shmat_def idle_lock find_shmemory_index_def)
next
  case (Some i)
  then have i: "i < length (shmemories st)"
    using find_from_Some [of _ 0 "shmemories st" i] by (simp add: find_shmemory_index_def)
  have f: "find_shmemory_index k (st\<lparr>shm_locked := True\<rparr>) = Some i"
    using Some by (simp add: find_shmemory_index_def)
  show ?thesis
    using i by (simp add: shmat_def idle_lock [OF assms] f Some Let_def split: option.splits)
qed

lemma shmdt_spec:
  assumes "shm_idle st" and "env_answers env" and "\<forall>s \<in> set (shmemories st). 0 \<le> sm_fd s"
  shows "shmdt env a st =
    (case find_from (\<lambda>s. sm_addr s = a) 0 (shmemories st) of
       None \<Rightarrow> Some (0, st)
     | Some i \<Rightarrow> let s = shmemories st ! i in
         if sm_marked s
         then Some (0, shm_after (take i (shmemories st) @ drop (Suc i) (shmemories st))
                (AMunmap a (sm_size s) # session env [2 # low_bytes (sm_id s)] @ [AClose (sm_fd s)]) st)
         else Some (0, shm_after ((shmemories st)[i := s\<lparr>sm_addr := 0\<rparr>]) [AMunmap a (sm_size s)] st))"
proof (cases "find_from (\<lambda>s. sm_addr s = a) 0 (shmemories st)")
  case None
  then show ?thesis using assms by (simp add: shmdt_def idle_lock)
next
  case (Some i)
  then have i: "i < length (shmemories st)" "sm_addr (shmemories st ! i) = a"
    using find_from_Some [of _ 0 "shmemories st" i] by auto
  let ?s = "shmemories st ! i"
  let ?ss = "(shmemories st)[i := ?s\<lparr>sm_addr := 0\<rparr>]"
  let ?st = "(shm_emit (AMunmap a (sm_size ?s)) (st\<lparr>shm_locked := True\<rparr>))\<lparr>shmemories := ?ss\<rparr>"
  have "sysvshm_server_fd ?st = - 1" "i < length (shmemories ?st)" "0 \<le> sm_fd (shmemories ?st ! i)"
    using assms(1,3) i by (simp_all add: shm_idle_def)
  from delete_spec [OF this(1) assms(2) this(2,3)]
  have "sysvshm_delete env i ?st = Some (?st\<lparr>shmemories := take i ?ss @ drop (Suc i) ?ss,
      shm_acts := shm_acts ?st @ session env [2 # low_bytes (sm_id ?s)] @ [AClose (sm_fd ?s)]\<rparr>)"
    using i by simp
  then show ?thesis
    using i assms(1) by (auto simp: shmdt_def idle_lock [OF assms(1)] Some Let_def shm_unlock_def shm_after_def
        shm_emit_def shm_idle_def intro!: shm_state_eqI)
qed

lemma shmctl_spec:
  assumes "shm_idle st" and "env_answers env" and "\<forall>s \<in> set (shmemories st). 0 \<le> sm_fd s"
  shows "shmctl env k cmd buf st =
    (if cmd = IPC_RMID then
       (case find_shmemory_index k st of
          None \<Rightarrow> Some ((0, None), st)
        | Some i \<Rightarrow> let s = shmemories st ! i in
            if sm_addr s \<noteq> 0
            then Some ((0, None), shm_after ((shmemories st)[i := s\<lparr>sm_marked := True\<rparr>]) [] st)
            else Some ((0, None), shm_after (take i (shmemories st) @ drop (Suc i) (shmemories st))
                   (session env [2 # low_bytes (sm_id s)] @ [AClose (sm_fd s)]) st))
     else if cmd = IPC_STAT then
       (case find_shmemory_index k st of
          None \<Rightarrow> Some ((- 1, None), st)
        | Some i \<Rightarrow>
            if buf then Some ((0, Some \<lparr>shm_segsz = sm_size (shmemories st ! i), shm_nattch = 1, perm_key = IPC_PRIVATE,
                   perm_uid = ve_uid env, perm_gid = ve_gid env, perm_cuid = ve_uid env, perm_cgid = ve_gid env,
                   perm_mode = 438, perm_seq = 1\<rparr>), st)
            else Some ((- 1, None), st))
     else Some ((- 1, None), st))"
proof (cases "find_shmemory_index k st")
  case None
  then show ?thesis using assms by (auto simp: shmctl_def idle_lock find_shmemory_index_def)
next
  case (Some i)
  then have i: "i < length (shmemories st)"
    using find_from_Some [of _ 0 "shmemories st" i] by (simp add: find_shmemory_index_def)
  have f: "find_shmemory_index k (st\<lparr>shm_locked := True\<rparr>) = Some i"
    using Some by (simp add: find_shmemory_index_def)
  let ?s = "shmemories st ! i"
  let ?st = "st\<lparr>shm_locked := True\<rparr>"
  have "sysvshm_server_fd ?st = - 1" "i < length (shmemories ?st)" "0 \<le> sm_fd (shmemories ?st ! i)"
    using assms(1,3) i by (simp_all add: shm_idle_def)
  from delete_spec [OF this(1) assms(2) this(2,3)]
  have d: "sysvshm_delete env i ?st = Some (?st\<lparr>shmemories := take i (shmemories st) @ drop (Suc i) (shmemories st),
      shm_acts := shm_acts st @ session env [2 # low_bytes (sm_id ?s)] @ [AClose (sm_fd ?s)]\<rparr>)"
    by simp
  show ?thesis
    using assms(1) by (auto simp: shmctl_def idle_lock [OF assms(1)] f Some Let_def d shm_unlock_def shm_after_def
        shm_idle_def intro!: shm_state_eqI)
qed

section \<open>The refinement\<close>

lemma table_ok_change:
  assumes "table_ok (xs @ s # ys)" and "sm_id s' = sm_id s" and "0 \<le> sm_fd s'" and "sm_marked s' \<longrightarrow> sm_addr s' \<noteq> 0"
    and "sm_addr s' = 0 \<or> sm_addr s' = sm_addr s \<or> (\<forall>t \<in> set (xs @ ys). sm_addr t \<noteq> sm_addr s')"
  shows "table_ok (xs @ s' # ys)"
proof -
  have "distinct (removeAll 0 (map sm_addr (xs @ s' # ys)))"
    using assms(1,5) unfolding table_ok_def
    by (cases "sm_addr s = 0") (auto simp: image_iff dest: sym)
  moreover have "distinct (map sm_id (xs @ s' # ys))" using assms(1,2) unfolding table_ok_def by simp
  moreover have "\<forall>t \<in> set (xs @ s' # ys). (sm_marked t \<longrightarrow> sm_addr t \<noteq> 0) \<and> 0 \<le> sm_fd t"
    using assms(1,3,4) unfolding table_ok_def by auto
  ultimately show ?thesis unfolding table_ok_def by blast
qed

lemma table_ok_remove: "table_ok (xs @ s # ys) \<Longrightarrow> table_ok (xs @ ys)"
  unfolding table_ok_def by (auto split: if_splits)

lemma table_ok_other:
  assumes "table_ok (xs @ s # ys)" and "sm_addr s \<noteq> 0" and "t \<in> set (xs @ ys)"
  shows "sm_addr t \<noteq> sm_addr s"
proof
  assume "sm_addr t = sm_addr s"
  then have "sm_addr s \<in> sm_addr ` set (xs @ ys)" using assms(3) by (metis image_eqI)
  then show False using assms(1,2) by (auto simp: table_ok_def)
qed

lemma table_ok_distinct: "table_ok ss \<Longrightarrow> distinct (map sm_id ss)"
  by (simp add: table_ok_def)

text \<open>One call, from the point of view of the abstract segments.\<close>

definition refines_call :: "shmenv \<Rightarrow> shm_call \<Rightarrow> shmstate \<Rightarrow> bool" where
  "refines_call env c st \<longleftrightarrow> (\<exists>r st' as D. sysv_call env c st = Some (r, st') \<and> shm_ok st' \<and>
     shm_acts st' = shm_acts st @ as \<and> seg_call env c (shm_abs st) = (r, shm_abs st', D) \<and>
     distinct (deletions as) \<and> set (deletions as) = (if env_connects env then D else {}))"

lemma refines_callI:
  assumes "sysv_call env c st = Some (r, st')" and "shm_ok st'" and "shm_acts st' = shm_acts st @ as"
    and "seg_call env c (shm_abs st) = (r, shm_abs st', D)" and "distinct (deletions as)"
    and "set (deletions as) = (if env_connects env then D else {})"
  shows "refines_call env c st"
  using assms unfolding refines_call_def by blast

lemma abs_find:
  assumes "table_ok (shmemories st)"
  shows "shm_abs st k = map_option (\<lambda>i. seg_of (shmemories st ! i)) (find_shmemory_index k st)"
  unfolding find_shmemory_index_def by (rule segs_of_find) (use assms in \<open>auto simp: table_ok_def\<close>)

lemma find_index_at:
  assumes "find_shmemory_index k st = Some i"
  shows "i < length (shmemories st)" and "sm_id (shmemories st ! i) = k"
  using find_from_Some [of _ 0 "shmemories st" i] assms by (auto simp: find_shmemory_index_def)

lemma get_refines:
  assumes "shm_ok st" and "env_ok env (shm_abs st)"
  shows "refines_call env (Shmget key sz) st"
proof -
  have i: "shm_idle st" "table_ok (shmemories st)" and e: "env_answers env" "ve_realloc env"
    using assms by (simp_all add: shm_ok_def env_ok_def)
  note spec = shmget_spec [OF i(1) e, of key sz]
  show ?thesis
  proof (cases "key = 0 \<and> new_segment env \<noteq> None")
    case True
    then obtain k where k: "new_segment env = Some k" by auto
    then have f: "shm_abs st k = None" "0 \<le> ve_fd env" using assms(2) by (auto simp: env_ok_def new_segment_def split: if_splits)
    then have "k \<notin> sm_id ` set (shmemories st)" by (auto simp: segs_of_def map_of_eq_None_iff image_image)
    then have "table_ok (shmemories st @ [new_entry env sz k])"
      using i(2) f(2) by (auto simp: table_ok_def new_entry_def)
    moreover have "segs_of (shmemories st @ [new_entry env sz k]) = (shm_abs st)(k \<mapsto> seg_of (new_entry env sz k))"
      using f(1) by (auto simp: segs_of_def map_add_def new_entry_def fun_eq_iff split: option.splits)
    ultimately show ?thesis
      using True k i(1) by (intro refines_callI [of _ _ _ "RInt k"
          "shm_after (shmemories st @ [new_entry env sz k]) (session env [0 # low_bytes sz, 1 # low_bytes k]) st" "session env [0 # low_bytes sz, 1 # low_bytes k]" "{}"])
        (simp_all add: shmget_spec [OF i(1) e, of 0 sz] shm_ok_def seg_of_def new_entry_def)
  next
    case False
    then show ?thesis
    proof (cases "key = 0")
      case True
      then have n: "new_segment env = None" using False by simp
      show ?thesis
        unfolding refines_call_def using True i by (auto simp: shmget_spec [OF i(1) e, of 0 sz] n shm_ok_def)
    next
      case k: False
      show ?thesis
        using k assms(1) by (intro refines_callI [of _ _ _ "RInt (- 1)" st "[]" "{}"]) (simp_all add: spec)
    qed
  qed
qed

lemma at_refines:
  assumes "shm_ok st" and "env_ok env (shm_abs st)"
  shows "refines_call env (Shmat k flg) st"
proof -
  have i: "shm_idle st" "table_ok (shmemories st)" using assms(1) by (simp_all add: shm_ok_def)
  note spec = shmat_spec [OF i(1), of env k flg] and abs = abs_find [OF i(2), of k]
  show ?thesis
  proof (cases "find_shmemory_index k st")
    case None
    then show ?thesis
      using assms(1) by (intro refines_callI [of _ _ _ "RAddr (- 1)" st "[]" "{}"]) (simp_all add: spec abs)
  next
    case (Some n)
    let ?s = "shmemories st ! n"
    note n = find_index_at [OF Some]
    show ?thesis
    proof (cases "sm_addr ?s = 0")
      case False
      then show ?thesis
        using assms(1) Some by (intro refines_callI [of _ _ _ "RAddr (sm_addr ?s)" st "[]" "{}"])
          (simp_all add: spec abs seg_of_def Let_def)
    next
      case True
      obtain xs ys where s: "shmemories st = xs @ ?s # ys" "length xs = n"
          "\<And>t. (shmemories st)[n := t] = xs @ t # ys"
        using id_take_nth_drop [OF n(1)] upd_conv_take_nth_drop [OF n(1)] n(1) by (metis length_take min.absorb4)
      let ?a = "case ve_mmap env of None \<Rightarrow> 0 | Some a \<Rightarrow> a"
      let ?t = "?s\<lparr>sm_addr := ?a\<rparr>"
      have fresh: "\<forall>t \<in> set (shmemories st). sm_addr t \<noteq> a" if "ve_mmap env = Some a" for a
      proof
        fix t assume t: "t \<in> set (shmemories st)"
        have "map_of (map (\<lambda>s. (sm_id s, seg_of s)) (shmemories st)) (sm_id t) = Some (seg_of t)"
          using t table_ok_distinct [OF i(2)] by (intro map_of_is_SomeI) (auto simp: comp_def)
        then have "shm_abs st (sm_id t) = Some (seg_of t)" by (simp add: segs_of_def)
        then have "seg_addr (seg_of t) \<noteq> a" using assms(2) that unfolding env_ok_def by blast
        then show "sm_addr t \<noteq> a" by (simp add: seg_of_def)
      qed
      have s_in: "?s \<in> set (shmemories st)" using n(1) by simp
      have t: "table_ok (xs @ ?t # ys)"
      proof (rule table_ok_change [of _ ?s])
        show "table_ok (xs @ ?s # ys)" using i(2) s(1) by simp
        show "0 \<le> sm_fd ?t" "sm_marked ?t \<longrightarrow> sm_addr ?t \<noteq> 0" using i(2) True s_in by (auto simp: table_ok_def)
        show "sm_addr ?t = 0 \<or> sm_addr ?t = sm_addr ?s \<or> (\<forall>t' \<in> set (xs @ ys). sm_addr t' \<noteq> sm_addr ?t)"
          using fresh by (subst (asm) s(1)) (auto split: option.splits)
      qed simp
      have "distinct (map sm_id (xs @ ?s # ys))" using table_ok_distinct [OF i(2)] s(1) by simp
      then have u: "segs_of (xs @ ?t # ys) = (shm_abs st)(k \<mapsto> seg_of ?t)"
        using segs_of_split(2) [of xs ?s ys ?t] s(1) n(2) by simp
      show ?thesis
      proof (cases "ve_mmap env")
        case None
        have "(shm_abs st)(k \<mapsto> seg_of ?t) = shm_abs st"
          using abs None True Some by (auto simp: fun_eq_iff seg_of_def)
        then show ?thesis
          using True Some t u None i(1) s
          by (intro refines_callI [of _ _ _ "RAddr (- 1)"
              "shm_after (xs @ ?t # ys) [AMmap (sm_size ?s) (flg = 0) (sm_fd ?s)] st" "[AMmap (sm_size ?s) (flg = 0) (sm_fd ?s)]" "{}"])
            (simp_all add: spec abs seg_of_def shm_ok_def Let_def)
      next
        case (Some a)
        have "a \<noteq> 0" using assms(2) Some by (simp add: env_ok_def)
        then show ?thesis
          using True \<open>find_shmemory_index k st = Some n\<close> t u Some i(1) s
          by (intro refines_callI [of _ _ _ "RAddr a"
              "shm_after (xs @ ?t # ys) [AMmap (sm_size ?s) (flg = 0) (sm_fd ?s)] st" "[AMmap (sm_size ?s) (flg = 0) (sm_fd ?s)]" "{}"])
            (simp_all add: spec abs seg_of_def shm_ok_def Let_def)
      qed
    qed
  qed
qed

lemma split_at:
  assumes "i < length ss"
  obtains xs ys where "ss = xs @ ss ! i # ys" "length xs = i" "\<And>t. ss[i := t] = xs @ t # ys"
    "take i ss @ drop (Suc i) ss = xs @ ys"
proof
  show "ss = take i ss @ ss ! i # drop (Suc i) ss" using assms by (rule id_take_nth_drop)
  show "ss[i := t] = take i ss @ t # drop (Suc i) ss" for t using assms by (rule upd_conv_take_nth_drop)
qed (use assms in simp_all)

lemma dt_refines:
  assumes "shm_ok st" and "env_ok env (shm_abs st)"
  shows "refines_call env (Shmdt a) st"
proof -
  have i: "shm_idle st" "table_ok (shmemories st)" and e: "env_answers env"
    using assms by (simp_all add: shm_ok_def env_ok_def)
  have fds: "\<forall>s \<in> set (shmemories st). 0 \<le> sm_fd s" using i(2) by (simp add: table_ok_def)
  note spec = shmdt_spec [OF i(1) e fds, of a]
  let ?m = "\<lambda>shmid. case shm_abs st shmid of None \<Rightarrow> None
       | Some s \<Rightarrow> if seg_addr s = a then (if seg_doomed s then None else Some (s\<lparr>seg_addr := 0\<rparr>)) else Some s"
  let ?D = "{shmid. \<exists>s. shm_abs st shmid = Some s \<and> seg_addr s = a \<and> seg_doomed s}"
  have call: "seg_call env (Shmdt a) (shm_abs st) = (RInt 0, ?m, ?D)" by simp
  show ?thesis
  proof (cases "find_from (\<lambda>s. sm_addr s = a) 0 (shmemories st)")
    case None
    then have n: "seg_addr g \<noteq> a" if "shm_abs st k = Some g" for k g
      using segs_of_SomeD [OF that] by (auto simp: find_from_None seg_of_def)
    then have "?m = shm_abs st" "?D = {}" by (auto simp: fun_eq_iff split: option.splits)
    with call show ?thesis
      using assms(1) None by (intro refines_callI [of _ _ _ "RInt 0" st "[]" "{}"]) (simp_all add: spec)
  next
    case (Some n)
    let ?s = "shmemories st ! n"
    have n: "n < length (shmemories st)" "sm_addr ?s = a" using find_from_Some [OF Some] by auto
    obtain xs ys where s: "shmemories st = xs @ ?s # ys" "length xs = n" "\<And>t. (shmemories st)[n := t] = xs @ t # ys"
        "take n (shmemories st) @ drop (Suc n) (shmemories st) = xs @ ys"
      using split_at [OF n(1)] by blast
    have ok: "table_ok (xs @ ?s # ys)" using i(2) s(1) by simp
    have d: "distinct (map sm_id (xs @ ?s # ys))" using table_ok_distinct [OF ok] .
    note sp = segs_of_split [OF d]
    have abs: "shm_abs st = segs_of (xs @ ?s # ys)" using s(1) by simp
    have other: "seg_addr g \<noteq> a \<or> a = 0 \<and> \<not> seg_doomed g" if g: "shm_abs st k = Some g" "k \<noteq> sm_id ?s" for k g
    proof -
      have "segs_of (xs @ ys) k = Some g" using g abs segs_of_at [OF g(2), of xs ys] by simp
      then obtain t where t: "t \<in> set (xs @ ys)" "g = seg_of t" using segs_of_SomeD by blast
      moreover have "sm_marked t \<longrightarrow> sm_addr t \<noteq> 0" using ok t(1) by (auto simp: table_ok_def)
      ultimately show ?thesis using table_ok_other [OF ok] n(2) by (auto simp: seg_of_def)
    qed
    have here: "shm_abs st (sm_id ?s) = Some (seg_of ?s)" using sp(1) abs by simp
    show ?thesis
    proof (cases "sm_marked ?s")
      case True
      then have a0: "a \<noteq> 0" using ok n(2) by (auto simp: table_ok_def)
      have "?m = (shm_abs st)(sm_id ?s := None)"
        using other here True n(2) a0 by (auto simp: fun_eq_iff seg_of_def split: option.splits)
      moreover have "?D = {sm_id ?s}"
        using other here True n(2) a0 by (auto simp: seg_of_def)
      ultimately have "seg_call env (Shmdt a) (shm_abs st) = (RInt 0, segs_of (xs @ ys), {sm_id ?s})"
        using call sp(3) abs by simp
      then show ?thesis
        using True Some i(1) s(4) table_ok_remove [OF ok]
        by (intro refines_callI [of _ _ _ "RInt 0" "shm_after (xs @ ys)
              (AMunmap a (sm_size ?s) # session env [2 # low_bytes (sm_id ?s)] @ [AClose (sm_fd ?s)]) st"
              "AMunmap a (sm_size ?s) # session env [2 # low_bytes (sm_id ?s)] @ [AClose (sm_fd ?s)]" "{sm_id ?s}"])
          (simp_all add: spec Let_def shm_ok_def)
    next
      case False
      let ?t = "?s\<lparr>sm_addr := 0\<rparr>"
      have "?m = (shm_abs st)(sm_id ?s \<mapsto> seg_of ?t)"
        using other here False n(2) by (auto simp: fun_eq_iff seg_of_def split: option.splits)
      moreover have "\<not> (seg_addr g = a \<and> seg_doomed g)" if "shm_abs st k = Some g" for k g
        using other [OF that] here that False by (cases "k = sm_id ?s") (auto simp: seg_of_def)
      then have "?D = {}" by blast
      moreover have "segs_of (xs @ ?t # ys) = (shm_abs st)(sm_id ?s \<mapsto> seg_of ?t)"
        using sp(2) [of ?t] abs by simp
      ultimately have c: "seg_call env (Shmdt a) (shm_abs st) = (RInt 0, segs_of (xs @ ?t # ys), {})"
        using call by simp
      have "table_ok (xs @ ?t # ys)"
        using ok False fds n(1) by (intro table_ok_change [OF ok]) simp_all
      with c show ?thesis
        using False Some i(1) s(3)
        by (intro refines_callI [of _ _ _ "RInt 0" "shm_after (xs @ ?t # ys) [AMunmap a (sm_size ?s)] st"
              "[AMunmap a (sm_size ?s)]" "{}"]) (simp_all add: spec Let_def shm_ok_def)
    qed
  qed
qed

lemma ctl_refines:
  assumes "shm_ok st" and "env_ok env (shm_abs st)"
  shows "refines_call env (Shmctl k cmd buf) st"
proof -
  have i: "shm_idle st" "table_ok (shmemories st)" and e: "env_answers env"
    using assms by (simp_all add: shm_ok_def env_ok_def)
  have fds: "\<forall>s \<in> set (shmemories st). 0 \<le> sm_fd s" using i(2) by (simp add: table_ok_def)
  note spec = shmctl_spec [OF i(1) e fds] and abs = abs_find [OF i(2), of k]
  show ?thesis
  proof (cases "cmd = IPC_RMID \<and> find_shmemory_index k st \<noteq> None")
    case False
    then obtain r ds where "seg_call env (Shmctl k cmd buf) (shm_abs st) = (RCtl r ds, shm_abs st, {})"
        "shmctl env k cmd buf st = Some ((r, ds), st)"
      by (cases "cmd = IPC_RMID"; cases "cmd = IPC_STAT"; cases "find_shmemory_index k st"; cases buf)
        (simp_all add: spec abs seg_of_def)
    then show ?thesis
      using assms(1) by (intro refines_callI [of _ _ _ "RCtl r ds" st "[]" "{}"]) simp_all
  next
    case True
    then obtain n where Some: "find_shmemory_index k st = Some n" and cmd: "cmd = IPC_RMID" by auto
    let ?s = "shmemories st ! n"
    note n = find_index_at [OF Some]
    obtain xs ys where s: "shmemories st = xs @ ?s # ys" "length xs = n" "\<And>t. (shmemories st)[n := t] = xs @ t # ys"
        "take n (shmemories st) @ drop (Suc n) (shmemories st) = xs @ ys"
      using split_at [OF n(1)] by blast
    have ok: "table_ok (xs @ ?s # ys)" using i(2) s(1) by simp
    note sp = segs_of_split [OF table_ok_distinct [OF ok]]
    have abs': "shm_abs st = segs_of (xs @ ?s # ys)" using s(1) by simp
    have here: "shm_abs st k = Some (seg_of ?s)" using sp(1) abs' n(2) by simp
    show ?thesis
    proof (cases "sm_addr ?s = 0")
      case True
      have c: "seg_call env (Shmctl k cmd buf) (shm_abs st) = (RCtl 0 None, segs_of (xs @ ys), {k})"
        using sp(3) abs' here True cmd n(2) by (simp add: seg_of_def)
      show ?thesis
        using True Some i(1) s(4) table_ok_remove [OF ok] c n(2) cmd
        by (intro refines_callI [of _ _ _ "RCtl 0 None" "shm_after (xs @ ys)
              (session env [2 # low_bytes (sm_id ?s)] @ [AClose (sm_fd ?s)]) st"
              "session env [2 # low_bytes (sm_id ?s)] @ [AClose (sm_fd ?s)]" "{k}"])
          (simp_all add: spec Let_def shm_ok_def)
    next
      case False
      let ?t = "?s\<lparr>sm_marked := True\<rparr>"
      have "segs_of (xs @ ?t # ys) = (shm_abs st)(k \<mapsto> seg_of ?t)"
        using sp(2) [of ?t] abs' n(2) by simp
      then have c: "seg_call env (Shmctl k cmd buf) (shm_abs st) = (RCtl 0 None, segs_of (xs @ ?t # ys), {})"
        using here False cmd by (simp add: seg_of_def)
      have "table_ok (xs @ ?t # ys)"
        using ok False fds n(1) by (intro table_ok_change [OF ok]) simp_all
      with c show ?thesis
        using False Some i(1) s(3) cmd
        by (intro refines_callI [of _ _ _ "RCtl 0 None" "shm_after (xs @ ?t # ys) [] st" "[]" "{}"])
          (simp_all add: spec Let_def shm_ok_def)
    qed
  qed
qed

lemma call_refines: "shm_ok st \<Longrightarrow> env_ok env (shm_abs st) \<Longrightarrow> refines_call env c st"
  by (cases c) (simp_all add: get_refines at_refines dt_refines ctl_refines del: seg_call.simps sysv_call.simps)

text \<open>A sequence of calls.\<close>

fun seg_run :: "(shmenv \<times> shm_call) list \<Rightarrow> segs \<Rightarrow> shm_result list \<times> segs \<times> i32 set list" where
  "seg_run [] m = ([], m, [])"
| "seg_run ((env, c) # cs) m =
     (let (r, m1, D) = seg_call env c m; (rs, m2, Ds) = seg_run cs m1
      in (r # rs, m2, (if env_connects env then D else {}) # Ds))"

fun seg_run_ok :: "(shmenv \<times> shm_call) list \<Rightarrow> segs \<Rightarrow> bool" where
  "seg_run_ok [] m \<longleftrightarrow> True"
| "seg_run_ok ((env, c) # cs) m \<longleftrightarrow> env_ok env m \<and> seg_run_ok cs (fst (snd (seg_call env c m)))"

lemma segs_run_refines:
  assumes "shm_ok st" and "seg_run_ok cs (shm_abs st)"
  shows "\<exists>rs st' as Ds. sysv_run cs st = Some (rs, st') \<and> shm_ok st' \<and> shm_acts st' = shm_acts st @ as \<and>
    seg_run cs (shm_abs st) = (rs, shm_abs st', Ds) \<and> set (deletions as) = \<Union> (set Ds)"
  using assms
proof (induction cs arbitrary: st)
  case (Cons ec cs)
  obtain env c where ec: "ec = (env, c)" by (cases ec)
  have "env_ok env (shm_abs st)" using Cons.prems(2) ec by simp
  from call_refines [OF Cons.prems(1) this, of c]
  obtain r st1 as1 D where 1: "sysv_call env c st = Some (r, st1)" "shm_ok st1" "shm_acts st1 = shm_acts st @ as1"
      "seg_call env c (shm_abs st) = (r, shm_abs st1, D)" "set (deletions as1) = (if env_connects env then D else {})"
    unfolding refines_call_def by blast
  have "seg_run_ok cs (shm_abs st1)" using Cons.prems(2) ec 1(4) by simp
  from Cons.IH [OF 1(2) this]
  obtain rs st2 as2 Ds where 2: "sysv_run cs st1 = Some (rs, st2)" "shm_ok st2" "shm_acts st2 = shm_acts st1 @ as2"
      "seg_run cs (shm_abs st1) = (rs, shm_abs st2, Ds)" "set (deletions as2) = \<Union> (set Ds)" by blast
  show ?case
    by (rule exI [of _ "r # rs"], rule exI [of _ st2], rule exI [of _ "as1 @ as2"],
        rule exI [of _ "(if env_connects env then D else {}) # Ds"])
      (simp add: ec 1 2)
qed simp

text \<open>
  C24: The shared memory calls refine the specification of the segments of a process: for every sequence
  of calls, however the connections to the server go, the code returns what the specification returns,
  its table holds the specified segments, the mutex is free and the connection closed after each call,
  and the server is asked to delete exactly the segments that were removed while it could be reached.
\<close>
theorem sysvshm_refines_segments:
  assumes "shm_ok st" and "seg_run_ok cs (shm_abs st)"
  shows "\<exists>rs st' as Ds. sysv_run cs st = Some (rs, st') \<and> shm_ok st' \<and> shm_acts st' = shm_acts st @ as \<and>
    seg_run cs (shm_abs st) = (rs, shm_abs st', Ds) \<and> set (deletions as) = \<Union> (set Ds)"
  by (rule segs_run_refines [OF assms])

definition sample_shmenv :: shmenv where
  "sample_shmenv = \<lparr>ve_path = True, ve_socket = 9, ve_connect = [CInterrupted, Connected], ve_send1 = True,
     ve_shmid = Some 5, ve_send2 = True, ve_fd = 11, ve_realloc = True, ve_mmap = Some 4096, ve_pagesize = 4096,
     ve_uid = 0, ve_gid = 0\<rparr>"

definition sample_shmstate :: shmstate where
  "sample_shmstate = \<lparr>shmemories = [], sysvshm_server_fd = - 1, shm_locked = False, shm_acts = []\<rparr>"

definition sample_shm_calls :: "(shmenv \<times> shm_call) list" where
  "sample_shm_calls = [(sample_shmenv, Shmget 0 100), (sample_shmenv\<lparr>ve_shmid := None\<rparr>, Shmat 5 0),
     (sample_shmenv\<lparr>ve_mmap := None, ve_shmid := None\<rparr>, Shmctl 5 0 False),
     (sample_shmenv\<lparr>ve_mmap := None, ve_shmid := None\<rparr>, Shmdt 4096)]"

theorem sysvshm_refines_segments_witness:
  "\<exists>st' as. sysv_run sample_shm_calls sample_shmstate = Some ([RInt 5, RAddr 4096, RCtl 0 None, RInt 0], st') \<and>
    shm_acts st' = as \<and> set (deletions as) = {5}"
proof -
  have a: "shm_abs sample_shmstate = (\<lambda>_. None)" "shm_acts sample_shmstate = []"
    by (simp_all add: sample_shmstate_def segs_of_def)
  have "shm_ok sample_shmstate" by (simp add: shm_ok_def shm_idle_def table_ok_def sample_shmstate_def)
  moreover have "seg_run_ok sample_shm_calls (\<lambda>_. None)"
    by (simp add: sample_shm_calls_def sample_shmenv_def env_ok_def env_answers_def new_segment_def env_connects_def)
  moreover have "fst (seg_run sample_shm_calls (\<lambda>_. None)) = [RInt 5, RAddr 4096, RCtl 0 None, RInt 0]"
    and "snd (snd (seg_run sample_shm_calls (\<lambda>_. None))) = [{}, {}, {}, {5}]"
    by (auto simp: sample_shm_calls_def sample_shmenv_def env_answers_def new_segment_def env_connects_def)
  ultimately show ?thesis
    using sysvshm_refines_segments [of sample_shmstate sample_shm_calls] by (auto simp: a)
qed

section \<open>Errors\<close>

text \<open>
  When the server creates a segment but its descriptor does not arrive, shmget fails and leaves the
  table as it was, but it does not ask the server to delete the segment, which stays allocated.
\<close>
theorem sysvshm_failed_get_leaks_segment:
  assumes "shm_idle st" and "env_answers env" and "ve_realloc env" and "env_connects env"
    and "ve_send1 env" and "ve_shmid env = Some shmid" and "shmid \<noteq> 0" and "\<not> ve_send2 env \<or> ve_fd env < 0"
  shows "\<exists>st'. shmget env IPC_PRIVATE sz st = Some (- 1, st') \<and> shm_idle st' \<and> shmemories st' = shmemories st \<and>
    shm_acts st' = shm_acts st @ session env [0 # low_bytes sz, 1 # low_bytes shmid] \<and>
    deletions (session env [0 # low_bytes sz, 1 # low_bytes shmid]) = []"
proof -
  have "new_segment env = None" using assms(8) by (auto simp: new_segment_def)
  then show ?thesis using assms shmget_spec [OF assms(1-3), of 0 sz] by simp
qed

theorem sysvshm_failed_get_leaks_segment_witness:
  "\<exists>st'. shmget (sample_shmenv\<lparr>ve_fd := - 1\<rparr>) 0 100 sample_shmstate = Some (- 1, st') \<and>
    shmemories st' = [] \<and> deletions (shm_acts st') = []"
proof -
  have "shm_idle sample_shmstate" "shmemories sample_shmstate = []" "shm_acts sample_shmstate = []"
    by (simp_all add: shm_idle_def sample_shmstate_def)
  moreover have "env_answers (sample_shmenv\<lparr>ve_fd := - 1\<rparr>)" "env_connects (sample_shmenv\<lparr>ve_fd := - 1\<rparr>)"
    by (simp_all add: env_answers_def env_connects_def sample_shmenv_def)
  ultimately show ?thesis
    using sysvshm_failed_get_leaks_segment [of sample_shmstate "sample_shmenv\<lparr>ve_fd := - 1\<rparr>" 5 100]
    by (auto simp: sample_shmenv_def)
qed

text \<open>
  The request for a segment carries only the lowest 32 bits of its size, while the table keeps the
  whole size: a segment of 4 GiB or more is requested smaller than it is later mapped.
\<close>
theorem sysvshm_size_truncated:
  assumes "shm_idle st" and "env_answers env" and "ve_realloc env" and "new_segment env = Some shmid"
    and "2 ^ 32 \<le> unat sz"
  shows "\<exists>st'. shmget env IPC_PRIVATE sz st = Some (shmid, st') \<and>
    ASend (ve_socket env) (0 # low_bytes sz) \<in> set (shm_acts st') \<and>
    unat (of_low_bytes (low_bytes sz)) = unat sz mod 2 ^ 32 \<and> unat (of_low_bytes (low_bytes sz)) < unat sz \<and>
    sm_size (last (shmemories st')) = round_up sz (ve_pagesize env)"
proof -
  have "env_connects env" using assms(4) by (simp add: new_segment_def split: if_splits)
  moreover have "unat (of_low_bytes (low_bytes sz)) = unat sz mod 2 ^ 32"
    by (simp add: of_low_bytes_low unsigned_ucast_eq take_bit_eq_mod)
  moreover have "unat sz mod 2 ^ 32 < unat sz"
    by (rule less_le_trans [OF _ assms(5)]) simp
  ultimately show ?thesis
    using assms shmget_spec [OF assms(1-3), of 0 sz] by (simp add: session_def new_entry_def)
qed

theorem sysvshm_size_truncated_witness:
  "\<exists>st'. shmget sample_shmenv 0 0x100000001 sample_shmstate = Some (5, st') \<and>
    ASend 9 (0 # low_bytes (0x100000001 :: u64)) \<in> set (shm_acts st') \<and>
    unat (of_low_bytes (low_bytes (0x100000001 :: u64))) = 1"
proof -
  have "shm_idle sample_shmstate" by (simp add: shm_idle_def sample_shmstate_def)
  moreover have "env_answers sample_shmenv" "ve_realloc sample_shmenv" "new_segment sample_shmenv = Some 5"
      "ve_socket sample_shmenv = 9"
    by (simp_all add: env_answers_def env_connects_def sample_shmenv_def new_segment_def)
  ultimately show ?thesis
    using sysvshm_size_truncated [of sample_shmstate sample_shmenv 5 "0x100000001"] by auto
qed

end
