(* ===== verification/Ntsync.thy ===== *)
theory Ntsync
  imports Prelude
begin

text \<open>
  dlls/ntdll/unix/sync.c: the operations on synchronization objects that live in the kernel driver
  \<open>/dev/ntsync\<close>, or in the userspace library that mirrors it. Driver and library are not part of the
  program: they are a record of functions over a state of any type, one for each. The code reaches the
  driver with \<open>ioctl\<close>, which fails with \<open>errno\<close>, and the library with calls that return a negative error.
\<close>

section \<open>Driver and configuration\<close>

datatype nerr = NEOVERFLOW | NEPERM | NEOWNERDEAD | NETIMEDOUT | NEINTR | NEOther nat

record wait_args =
  wa_timeout :: u64
  wa_realtime :: bool
  wa_objs :: "int list"
  wa_owner :: u32
  wa_alert :: int

text \<open>A failed wait still reports an index, which the code reads when the owner of a mutex has died.\<close>

record 'k ntapi =
  nt_sem_release :: "int \<Rightarrow> u32 \<Rightarrow> 'k \<Rightarrow> (nerr + u32) \<times> 'k"
  nt_sem_read :: "int \<Rightarrow> 'k \<Rightarrow> nerr + u32 \<times> u32"
  nt_event_set :: "int \<Rightarrow> 'k \<Rightarrow> (nerr + u32) \<times> 'k"
  nt_event_reset :: "int \<Rightarrow> 'k \<Rightarrow> (nerr + u32) \<times> 'k"
  nt_event_pulse :: "int \<Rightarrow> 'k \<Rightarrow> (nerr + u32) \<times> 'k"
  nt_event_read :: "int \<Rightarrow> 'k \<Rightarrow> nerr + bool \<times> u32"
  nt_mutex_unlock :: "int \<Rightarrow> u32 \<Rightarrow> 'k \<Rightarrow> (nerr + u32) \<times> 'k"
  nt_mutex_read :: "int \<Rightarrow> 'k \<Rightarrow> nerr + u32 \<times> u32"
  nt_wait :: "bool \<Rightarrow> wait_args \<Rightarrow> 'k \<Rightarrow> (nerr \<times> u32 + u32) \<times> 'k"
  nt_close :: "int \<Rightarrow> 'k \<Rightarrow> 'k"

record 'k ntcfg =
  nc_userspace :: bool             \<comment> \<open>\<open>ntsync_userspace\<close>\<close>
  nc_kernel :: "'k ntapi"
  nc_user :: "'k ntapi"
  nc_tid :: u32
  nc_errno :: "nerr \<Rightarrow> ntstatus"   \<comment> \<open>\<open>errno_to_status\<close>\<close>
  nc_now :: "u64 \<times> u64"            \<comment> \<open>the monotonic clock: seconds, nanoseconds\<close>
  nc_server_wait :: ntstatus

abbreviation (input) STATUS_MUTANT_LIMIT_EXCEEDED :: ntstatus where "STATUS_MUTANT_LIMIT_EXCEEDED \<equiv> 0xC0000191"

section \<open>Semaphores and events\<close>

text \<open>Each result is the status, the value stored for the caller, and the state of the objects.\<close>

definition userspace_release_semaphore_obj ::
  "'k ntcfg \<Rightarrow> int \<Rightarrow> u32 \<Rightarrow> 'k \<Rightarrow> (ntstatus \<times> u32 option) \<times> 'k" where
  "userspace_release_semaphore_obj cfg obj count k =
     (case nt_sem_release (nc_user cfg) obj count k of
        (Inl e, k1) \<Rightarrow> ((if e = NEOVERFLOW then STATUS_SEMAPHORE_LIMIT_EXCEEDED else nc_errno cfg e, None), k1)
      | (Inr prev, k1) \<Rightarrow> ((STATUS_SUCCESS, Some prev), k1))"

definition linux_release_semaphore_obj ::
  "'k ntcfg \<Rightarrow> int \<Rightarrow> u32 \<Rightarrow> 'k \<Rightarrow> (ntstatus \<times> u32 option) \<times> 'k" where
  "linux_release_semaphore_obj cfg obj count k =
     (if nc_userspace cfg then userspace_release_semaphore_obj cfg obj count k
      else case nt_sem_release (nc_kernel cfg) obj count k of
        (Inl e, k1) \<Rightarrow> ((if e = NEOVERFLOW then STATUS_SEMAPHORE_LIMIT_EXCEEDED else nc_errno cfg e, None), k1)
      | (Inr prev, k1) \<Rightarrow> ((STATUS_SUCCESS, Some prev), k1))"

definition userspace_query_semaphore_obj :: "'k ntcfg \<Rightarrow> int \<Rightarrow> 'k \<Rightarrow> ntstatus \<times> (u32 \<times> u32) option" where
  "userspace_query_semaphore_obj cfg obj k =
     (case nt_sem_read (nc_user cfg) obj k of
        Inl e \<Rightarrow> (nc_errno cfg e, None)
      | Inr (count, maximum) \<Rightarrow> (STATUS_SUCCESS, Some (count, maximum)))"

definition linux_query_semaphore_obj :: "'k ntcfg \<Rightarrow> int \<Rightarrow> 'k \<Rightarrow> ntstatus \<times> (u32 \<times> u32) option" where
  "linux_query_semaphore_obj cfg obj k =
     (if nc_userspace cfg then userspace_query_semaphore_obj cfg obj k
      else case nt_sem_read (nc_kernel cfg) obj k of
        Inl e \<Rightarrow> (nc_errno cfg e, None)
      | Inr (count, maximum) \<Rightarrow> (STATUS_SUCCESS, Some (count, maximum)))"

definition userspace_set_event_obj :: "'k ntcfg \<Rightarrow> int \<Rightarrow> 'k \<Rightarrow> (ntstatus \<times> u32 option) \<times> 'k" where
  "userspace_set_event_obj cfg obj k =
     (case nt_event_set (nc_user cfg) obj k of
        (Inl e, k1) \<Rightarrow> ((nc_errno cfg e, None), k1)
      | (Inr prev, k1) \<Rightarrow> ((STATUS_SUCCESS, Some prev), k1))"

definition linux_set_event_obj :: "'k ntcfg \<Rightarrow> int \<Rightarrow> 'k \<Rightarrow> (ntstatus \<times> u32 option) \<times> 'k" where
  "linux_set_event_obj cfg obj k =
     (if nc_userspace cfg then userspace_set_event_obj cfg obj k
      else case nt_event_set (nc_kernel cfg) obj k of
        (Inl e, k1) \<Rightarrow> ((nc_errno cfg e, None), k1)
      | (Inr prev, k1) \<Rightarrow> ((STATUS_SUCCESS, Some prev), k1))"

definition userspace_reset_event_obj :: "'k ntcfg \<Rightarrow> int \<Rightarrow> 'k \<Rightarrow> (ntstatus \<times> u32 option) \<times> 'k" where
  "userspace_reset_event_obj cfg obj k =
     (case nt_event_reset (nc_user cfg) obj k of
        (Inl e, k1) \<Rightarrow> ((nc_errno cfg e, None), k1)
      | (Inr prev, k1) \<Rightarrow> ((STATUS_SUCCESS, Some prev), k1))"

definition linux_reset_event_obj :: "'k ntcfg \<Rightarrow> int \<Rightarrow> 'k \<Rightarrow> (ntstatus \<times> u32 option) \<times> 'k" where
  "linux_reset_event_obj cfg obj k =
     (if nc_userspace cfg then userspace_reset_event_obj cfg obj k
      else case nt_event_reset (nc_kernel cfg) obj k of
        (Inl e, k1) \<Rightarrow> ((nc_errno cfg e, None), k1)
      | (Inr prev, k1) \<Rightarrow> ((STATUS_SUCCESS, Some prev), k1))"

definition userspace_pulse_event_obj :: "'k ntcfg \<Rightarrow> int \<Rightarrow> 'k \<Rightarrow> (ntstatus \<times> u32 option) \<times> 'k" where
  "userspace_pulse_event_obj cfg obj k =
     (case nt_event_pulse (nc_user cfg) obj k of
        (Inl e, k1) \<Rightarrow> ((nc_errno cfg e, None), k1)
      | (Inr prev, k1) \<Rightarrow> ((STATUS_SUCCESS, Some prev), k1))"

definition linux_pulse_event_obj :: "'k ntcfg \<Rightarrow> int \<Rightarrow> 'k \<Rightarrow> (ntstatus \<times> u32 option) \<times> 'k" where
  "linux_pulse_event_obj cfg obj k =
     (if nc_userspace cfg then userspace_pulse_event_obj cfg obj k
      else case nt_event_pulse (nc_kernel cfg) obj k of
        (Inl e, k1) \<Rightarrow> ((nc_errno cfg e, None), k1)
      | (Inr prev, k1) \<Rightarrow> ((STATUS_SUCCESS, Some prev), k1))"

text \<open>The state, and whether the type is \<open>NotificationEvent\<close>.\<close>

definition userspace_query_event_obj :: "'k ntcfg \<Rightarrow> int \<Rightarrow> 'k \<Rightarrow> ntstatus \<times> (u32 \<times> bool) option" where
  "userspace_query_event_obj cfg obj k =
     (case nt_event_read (nc_user cfg) obj k of
        Inl e \<Rightarrow> (nc_errno cfg e, None)
      | Inr (manual, signaled) \<Rightarrow> (STATUS_SUCCESS, Some (signaled, manual)))"

definition linux_query_event_obj :: "'k ntcfg \<Rightarrow> int \<Rightarrow> 'k \<Rightarrow> ntstatus \<times> (u32 \<times> bool) option" where
  "linux_query_event_obj cfg obj k =
     (if nc_userspace cfg then userspace_query_event_obj cfg obj k
      else case nt_event_read (nc_kernel cfg) obj k of
        Inl e \<Rightarrow> (nc_errno cfg e, None)
      | Inr (manual, signaled) \<Rightarrow> (STATUS_SUCCESS, Some (signaled, manual)))"

section \<open>Mutexes\<close>

definition userspace_release_mutex_obj :: "'k ntcfg \<Rightarrow> int \<Rightarrow> 'k \<Rightarrow> (ntstatus \<times> i32 option) \<times> 'k" where
  "userspace_release_mutex_obj cfg obj k =
     (case nt_mutex_unlock (nc_user cfg) obj (nc_tid cfg) k of
        (Inl e, k1) \<Rightarrow> ((if e = NEOVERFLOW then STATUS_MUTANT_LIMIT_EXCEEDED
                        else if e = NEPERM then STATUS_MUTANT_NOT_OWNED else nc_errno cfg e, None), k1)
      | (Inr count, k1) \<Rightarrow> ((STATUS_SUCCESS, Some (1 - count)), k1))"

definition linux_release_mutex_obj :: "'k ntcfg \<Rightarrow> int \<Rightarrow> 'k \<Rightarrow> (ntstatus \<times> i32 option) \<times> 'k" where
  "linux_release_mutex_obj cfg obj k =
     (if nc_userspace cfg then userspace_release_mutex_obj cfg obj k
      else case nt_mutex_unlock (nc_kernel cfg) obj (nc_tid cfg) k of
        (Inl e, k1) \<Rightarrow> ((if e = NEOVERFLOW then STATUS_MUTANT_LIMIT_EXCEEDED
                        else if e = NEPERM then STATUS_MUTANT_NOT_OWNED else nc_errno cfg e, None), k1)
      | (Inr count, k1) \<Rightarrow> ((STATUS_SUCCESS, Some (1 - count)), k1))"

text \<open>Current count, owned by the caller, abandoned.\<close>

definition userspace_query_mutex_obj :: "'k ntcfg \<Rightarrow> int \<Rightarrow> 'k \<Rightarrow> ntstatus \<times> (i32 \<times> bool \<times> bool) option" where
  "userspace_query_mutex_obj cfg obj k =
     (case nt_mutex_read (nc_user cfg) obj k of
        Inl e \<Rightarrow> if e = NEOWNERDEAD then (STATUS_SUCCESS, Some (1, False, True)) else (nc_errno cfg e, None)
      | Inr (owner, count) \<Rightarrow> (STATUS_SUCCESS, Some (1 - count, owner = nc_tid cfg, False)))"

definition linux_query_mutex_obj :: "'k ntcfg \<Rightarrow> int \<Rightarrow> 'k \<Rightarrow> ntstatus \<times> (i32 \<times> bool \<times> bool) option" where
  "linux_query_mutex_obj cfg obj k =
     (if nc_userspace cfg then userspace_query_mutex_obj cfg obj k
      else case nt_mutex_read (nc_kernel cfg) obj k of
        Inl e \<Rightarrow> if e = NEOWNERDEAD then (STATUS_SUCCESS, Some (1, False, True)) else (nc_errno cfg e, None)
      | Inr (owner, count) \<Rightarrow> (STATUS_SUCCESS, Some (1 - count, owner = nc_tid cfg, False)))"

section \<open>Waiting\<close>

text \<open>The timeout in nanoseconds and whether it is on the real-time clock; all in 64 bits.\<close>

definition wait_timeout :: "u64 \<times> u64 \<Rightarrow> u64 option \<Rightarrow> u64 \<times> bool" where
  "wait_timeout now timeout =
     (case timeout of
        None \<Rightarrow> (- 1, False)
      | Some t \<Rightarrow>
          if t = TIMEOUT_INFINITE then (- 1, False)
          else if sint t \<le> 0 then (fst now * NSECPERSEC + snd now + (- t * 100), False)
          else (t * 100 - SECS_1601_TO_1970 * NSECPERSEC, True))"

definition wait_args_of :: "'k ntcfg \<Rightarrow> int list \<Rightarrow> int \<Rightarrow> u64 option \<Rightarrow> wait_args" where
  "wait_args_of cfg objs alert_fd timeout =
     \<lparr>wa_timeout = fst (wait_timeout (nc_now cfg) timeout), wa_realtime = snd (wait_timeout (nc_now cfg) timeout),
      wa_objs = objs, wa_owner = nc_tid cfg, wa_alert = alert_fd\<rparr>"

text \<open>What the code makes of the answer to a wait; \<open>None\<close> is the failed assert after an alert.\<close>

definition wait_result :: "'k ntcfg \<Rightarrow> nat \<Rightarrow> bool \<Rightarrow> (nerr \<times> u32 + u32) \<Rightarrow> ntstatus option" where
  "wait_result cfg count wait_all r =
     (case r of
        Inr index \<Rightarrow>
          if unat index = count
          then (if nc_server_wait cfg = STATUS_USER_APC then Some (nc_server_wait cfg) else None)
          else Some (if wait_all then 0 else unat index)
      | Inl (e, index) \<Rightarrow>
          Some (if e = NEOWNERDEAD then STATUS_ABANDONED + (if wait_all then 0 else unat index)
                else if e = NETIMEDOUT then STATUS_TIMEOUT else nc_errno cfg e))"

definition userspace_wait_objs :: "'k ntcfg \<Rightarrow> int list \<Rightarrow> bool \<Rightarrow> int \<Rightarrow> u64 option \<Rightarrow> 'k \<Rightarrow> (ntstatus \<times> 'k) option" where
  "userspace_wait_objs cfg objs wait_all alert_fd timeout k =
     (let (r, k1) = nt_wait (nc_user cfg) (wait_all \<and> length objs \<noteq> 1) (wait_args_of cfg objs alert_fd timeout) k
      in do { st \<leftarrow> wait_result cfg (length objs) wait_all r; Some (st, k1) })"

text \<open>The loop that repeats an interrupted \<open>ioctl\<close>.\<close>

partial_function (option) ioctl_wait ::
  "'k ntapi \<Rightarrow> bool \<Rightarrow> wait_args \<Rightarrow> 'k \<Rightarrow> ((nerr \<times> u32 + u32) \<times> 'k) option" where
  "ioctl_wait api wait_all args k =
     (let (r, k1) = nt_wait api wait_all args k
      in case r of
           Inl (e, index) \<Rightarrow> if e = NEINTR then ioctl_wait api wait_all args k1 else Some (r, k1)
         | Inr index \<Rightarrow> Some (r, k1))"

definition linux_wait_objs :: "'k ntcfg \<Rightarrow> int list \<Rightarrow> bool \<Rightarrow> int \<Rightarrow> u64 option \<Rightarrow> 'k \<Rightarrow> (ntstatus \<times> 'k) option" where
  "linux_wait_objs cfg objs wait_all alert_fd timeout k =
     (if nc_userspace cfg then userspace_wait_objs cfg objs wait_all alert_fd timeout k
      else do {
        (r, k1) \<leftarrow> ioctl_wait (nc_kernel cfg) (wait_all \<and> length objs \<noteq> 1) (wait_args_of cfg objs alert_fd timeout) k;
        st \<leftarrow> wait_result cfg (length objs) wait_all r;
        Some (st, k1)
      })"

section \<open>The timeout\<close>

text \<open>The number of nanoseconds from 1601 to 1970.\<close>

abbreviation (input) EPOCH_NS :: nat where "EPOCH_NS \<equiv> 11644473600000000000"

lemma wait_timeout_relative:
  assumes "sint t \<le> 0" and "- (2 ^ 56) \<le> sint t" and "unat sec * 10 ^ 9 + unat nsec < 2 ^ 62"
  shows "unat (fst (wait_timeout (sec, nsec) (Some t))) = unat sec * 10 ^ 9 + unat nsec + 100 * nat (- sint t)"
    and "\<not> snd (wait_timeout (sec, nsec) (Some t))"
proof -
  have ni: "t \<noteq> TIMEOUT_INFINITE" using assms(1) by auto
  have t: "t = - word_of_nat (nat (- sint t))" using assms(1) by (simp add: word_of_int_eq_iff)
  have "fst (wait_timeout (sec, nsec) (Some t)) = sec * NSECPERSEC + nsec + word_of_nat (nat (- sint t)) * 100"
    using ni assms(1) t by (simp add: wait_timeout_def)
  also have "\<dots> = word_of_nat (unat sec * 10 ^ 9 + unat nsec + 100 * nat (- sint t))"
    by simp
  finally have w: "fst (wait_timeout (sec, nsec) (Some t)) = word_of_nat (unat sec * 10 ^ 9 + unat nsec + 100 * nat (- sint t))" .
  have "nat (- sint t) \<le> 2 ^ 56" using assms(2) by simp
  then have "unat sec * 10 ^ 9 + unat nsec + 100 * nat (- sint t) < 2 ^ 64" using assms(3) by simp
  then show "unat (fst (wait_timeout (sec, nsec) (Some t))) = unat sec * 10 ^ 9 + unat nsec + 100 * nat (- sint t)"
    unfolding w by (intro of_nat_inverse [OF refl]) simp
  show "\<not> snd (wait_timeout (sec, nsec) (Some t))" using ni assms(1) by (simp add: wait_timeout_def)
qed

lemma wait_timeout_absolute:
  assumes "0 < sint t" and "t \<noteq> TIMEOUT_INFINITE"
  shows "fst (wait_timeout now (Some t)) = word_of_int (100 * sint t - int EPOCH_NS)"
    and "snd (wait_timeout now (Some t))"
proof -
  have "t = word_of_int (sint t)" by simp
  then have "t * 100 = word_of_int (sint t * 100)" by (metis of_int_mult of_int_numeral)
  then show "fst (wait_timeout now (Some t)) = word_of_int (100 * sint t - int EPOCH_NS)"
    using assms by (simp add: wait_timeout_def mult.commute)
  show "snd (wait_timeout now (Some t))" using assms by (simp add: wait_timeout_def)
qed

text \<open>
  The deadline a wait hands to the driver. A relative timeout (not positive) becomes the monotonic
  time plus its length, to the nanosecond; an absolute one from 1970 on becomes the nanoseconds since
  1970 on the real-time clock; one before 1970, which has long passed, wraps around to a deadline at
  least 6.8e18 nanoseconds (over 200 years) after 1970, so that the wait does not time out.
\<close>
theorem ntsync_deadline:
  assumes "t \<noteq> TIMEOUT_INFINITE"
  shows "(sint t \<le> 0 \<longrightarrow> - (2 ^ 56) \<le> sint t \<longrightarrow> unat sec * 10 ^ 9 + unat nsec < 2 ^ 62 \<longrightarrow>
      \<not> snd (wait_timeout (sec, nsec) (Some t)) \<and>
      unat (fst (wait_timeout (sec, nsec) (Some t))) = unat sec * 10 ^ 9 + unat nsec + 100 * nat (- sint t)) \<and>
    (0 < sint t \<longrightarrow> snd (wait_timeout (sec, nsec) (Some t)) \<and>
      (int EPOCH_NS \<le> 100 * sint t \<longrightarrow> 100 * sint t < int EPOCH_NS + 2 ^ 64 \<longrightarrow>
         int (unat (fst (wait_timeout (sec, nsec) (Some t)))) = 100 * sint t - int EPOCH_NS) \<and>
      (100 * sint t < int EPOCH_NS \<longrightarrow> 6800000000000000000 \<le> unat (fst (wait_timeout (sec, nsec) (Some t)))))"
proof (intro conjI impI)
  assume "sint t \<le> 0" "- (2 ^ 56) \<le> sint t" "unat sec * 10 ^ 9 + unat nsec < 2 ^ 62"
  from wait_timeout_relative [OF this]
  show "\<not> snd (wait_timeout (sec, nsec) (Some t))"
    and "unat (fst (wait_timeout (sec, nsec) (Some t))) = unat sec * 10 ^ 9 + unat nsec + 100 * nat (- sint t)" by simp_all
next
  assume t: "0 < sint t"
  note abs = wait_timeout_absolute [OF t assms, of "(sec, nsec)"]
  show "snd (wait_timeout (sec, nsec) (Some t))" by (rule abs(2))
  have u: "int (unat (fst (wait_timeout (sec, nsec) (Some t)))) = (100 * sint t - int EPOCH_NS) mod 2 ^ 64"
  proof -
    have "int (unat (word_of_int x :: u64)) = x mod 2 ^ 64" for x by (simp add: uint_word_of_int)
    then show ?thesis unfolding abs(1) .
  qed
  show "int (unat (fst (wait_timeout (sec, nsec) (Some t)))) = 100 * sint t - int EPOCH_NS"
    if "int EPOCH_NS \<le> 100 * sint t" "100 * sint t < int EPOCH_NS + 2 ^ 64"
    unfolding u using that by (intro mod_pos_pos_trivial) simp_all
  show "6800000000000000000 \<le> unat (fst (wait_timeout (sec, nsec) (Some t)))" if "100 * sint t < int EPOCH_NS"
  proof -
    have "(100 * sint t - int EPOCH_NS + 2 ^ 64) mod 2 ^ 64 = 100 * sint t - int EPOCH_NS + 2 ^ 64"
      using that t by (intro mod_pos_pos_trivial) simp_all
    moreover have "(100 * sint t - int EPOCH_NS + 2 ^ 64) mod 2 ^ 64 = (100 * sint t - int EPOCH_NS) mod 2 ^ 64"
      by (rule mod_add_self2)
    ultimately have "int (unat (fst (wait_timeout (sec, nsec) (Some t)))) = 100 * sint t - int EPOCH_NS + 2 ^ 64"
      using u by metis
    then have "uint (fst (wait_timeout (sec, nsec) (Some t))) = 6802270473709551616 + 100 * sint t" by simp
    then show ?thesis using t by (simp flip: nat_uint_eq)
  qed
qed

theorem ntsync_deadline_witness:
  "unat (fst (wait_timeout (100, 5) (Some (- 30)))) = 100000003005 \<and>
   int (unat (fst (wait_timeout (100, 5) (Some 116444736000000010)))) = 1000 \<and>
   6800000000000000000 \<le> unat (fst (wait_timeout (100, 5) (Some 1000)))"
proof -
  have s: "sint (- 30 :: u64) = - 30" "sint (116444736000000010 :: u64) = 116444736000000010" "sint (1000 :: u64) = 1000"
    by simp_all
  show ?thesis
    using ntsync_deadline [of "- 30" 100 5] ntsync_deadline [of 116444736000000010 100 5] ntsync_deadline [of 1000 100 5]
    by (simp add: s)
qed

section \<open>Driver and library\<close>

lemma ioctl_wait_uninterrupted:
  assumes "\<forall>index k1. nt_wait api all_objs args k \<noteq> (Inl (NEINTR, index), k1)"
  shows "ioctl_wait api all_objs args k = Some (nt_wait api all_objs args k)"
  using assms by (subst ioctl_wait.simps) (auto split: prod.splits sum.splits)

text \<open>
  Through the library, every operation returns the same status, the same value and the same objects
  as through the driver, when the library answers as the driver does and waits are not interrupted.
\<close>
theorem ntsync_userspace_equals_kernel:
  assumes "nc_user cfg = nc_kernel cfg" and "\<forall>all_objs args k index k1. nt_wait (nc_kernel cfg) all_objs args k \<noteq> (Inl (NEINTR, index), k1)"
  shows "linux_release_semaphore_obj (cfg\<lparr>nc_userspace := True\<rparr>) obj n k =
      linux_release_semaphore_obj (cfg\<lparr>nc_userspace := False\<rparr>) obj n k \<and>
    linux_query_semaphore_obj (cfg\<lparr>nc_userspace := True\<rparr>) obj k = linux_query_semaphore_obj (cfg\<lparr>nc_userspace := False\<rparr>) obj k \<and>
    linux_set_event_obj (cfg\<lparr>nc_userspace := True\<rparr>) obj k = linux_set_event_obj (cfg\<lparr>nc_userspace := False\<rparr>) obj k \<and>
    linux_reset_event_obj (cfg\<lparr>nc_userspace := True\<rparr>) obj k = linux_reset_event_obj (cfg\<lparr>nc_userspace := False\<rparr>) obj k \<and>
    linux_pulse_event_obj (cfg\<lparr>nc_userspace := True\<rparr>) obj k = linux_pulse_event_obj (cfg\<lparr>nc_userspace := False\<rparr>) obj k \<and>
    linux_query_event_obj (cfg\<lparr>nc_userspace := True\<rparr>) obj k = linux_query_event_obj (cfg\<lparr>nc_userspace := False\<rparr>) obj k \<and>
    linux_release_mutex_obj (cfg\<lparr>nc_userspace := True\<rparr>) obj k = linux_release_mutex_obj (cfg\<lparr>nc_userspace := False\<rparr>) obj k \<and>
    linux_query_mutex_obj (cfg\<lparr>nc_userspace := True\<rparr>) obj k = linux_query_mutex_obj (cfg\<lparr>nc_userspace := False\<rparr>) obj k \<and>
    linux_wait_objs (cfg\<lparr>nc_userspace := True\<rparr>) objs wait_all alert timeout k =
      linux_wait_objs (cfg\<lparr>nc_userspace := False\<rparr>) objs wait_all alert timeout k"
proof -
  have w: "ioctl_wait (nc_kernel cfg) all_objs args k = Some (nt_wait (nc_kernel cfg) all_objs args k)" for all_objs args
    by (rule ioctl_wait_uninterrupted) (use assms(2) in blast)
  have a: "wait_args_of (cfg\<lparr>nc_userspace := b\<rparr>) = wait_args_of cfg"
      "wait_result (cfg\<lparr>nc_userspace := b\<rparr>) c x r = wait_result cfg c x r" for b c x r
    by (simp add: fun_eq_iff wait_args_of_def) (simp add: wait_result_def split: sum.split prod.split)
  have ww: "linux_wait_objs (cfg\<lparr>nc_userspace := True\<rparr>) objs wait_all alert timeout k =
      linux_wait_objs (cfg\<lparr>nc_userspace := False\<rparr>) objs wait_all alert timeout k"
    by (simp add: linux_wait_objs_def userspace_wait_objs_def w a assms(1) Let_def case_prod_beta)
  show ?thesis
    by (intro conjI ww) (simp_all add: assms(1) linux_release_semaphore_obj_def userspace_release_semaphore_obj_def
        linux_query_semaphore_obj_def userspace_query_semaphore_obj_def linux_set_event_obj_def userspace_set_event_obj_def
        linux_reset_event_obj_def userspace_reset_event_obj_def linux_pulse_event_obj_def userspace_pulse_event_obj_def
        linux_query_event_obj_def userspace_query_event_obj_def linux_release_mutex_obj_def userspace_release_mutex_obj_def
        linux_query_mutex_obj_def userspace_query_mutex_obj_def split: sum.split prod.split)
qed

text \<open>A small driver of auto-reset events: a state tells which are signaled.\<close>

definition sample_ntapi :: "(int \<Rightarrow> bool) ntapi" where
  "sample_ntapi = \<lparr>nt_sem_release = (\<lambda>obj n k. (Inl (NEOther 22), k)), nt_sem_read = (\<lambda>obj k. Inl (NEOther 22)),
     nt_event_set = (\<lambda>obj k. (Inr (of_bool (k obj)), k(obj := True))),
     nt_event_reset = (\<lambda>obj k. (Inr (of_bool (k obj)), k(obj := False))),
     nt_event_pulse = (\<lambda>obj k. (Inr (of_bool (k obj)), k(obj := False))),
     nt_event_read = (\<lambda>obj k. Inr (False, of_bool (k obj))),
     nt_mutex_unlock = (\<lambda>obj t k. (Inl (NEOther 22), k)), nt_mutex_read = (\<lambda>obj k. Inl (NEOther 22)),
     nt_wait = (\<lambda>all_objs args k. case wa_objs args of
        [] \<Rightarrow> (Inl (NETIMEDOUT, 0), k)
      | obj # objs \<Rightarrow> if k obj then (Inr 0, k(obj := False)) else (Inl (NETIMEDOUT, 0), k)),
     nt_close = (\<lambda>obj k. k)\<rparr>"

definition sample_ntcfg :: "(int \<Rightarrow> bool) ntcfg" where
  "sample_ntcfg = \<lparr>nc_userspace = False, nc_kernel = sample_ntapi, nc_user = sample_ntapi, nc_tid = 12,
     nc_errno = (\<lambda>_. STATUS_INVALID_PARAMETER), nc_now = (0, 0), nc_server_wait = STATUS_USER_APC\<rparr>"

theorem ntsync_userspace_equals_kernel_witness:
  "linux_wait_objs (sample_ntcfg\<lparr>nc_userspace := True\<rparr>) [7] False 0 None (\<lambda>_. True) =
   linux_wait_objs (sample_ntcfg\<lparr>nc_userspace := False\<rparr>) [7] False 0 None (\<lambda>_. True)"
proof -
  have "nt_wait (nc_kernel sample_ntcfg) all_objs args k \<noteq> (Inl (NEINTR, index), k1)" for all_objs args k index k1
    by (simp add: sample_ntcfg_def sample_ntapi_def split: list.split)
  moreover have "nc_user sample_ntcfg = nc_kernel sample_ntcfg" by (simp add: sample_ntcfg_def)
  ultimately show ?thesis
    using ntsync_userspace_equals_kernel [of sample_ntcfg 7 1 "\<lambda>_. True" "[7]" False 0 None] by blast
qed

end
