(* ===== verification/Inproc_Cache.thy ===== *)
theory Inproc_Cache
  imports Fsync_Wait_All Ntsync
begin

text \<open>
  dlls/ntdll/unix/sync.c: the cache of synchronization objects by handle, with reference counts that are
  changed by atomic operations only. An object that cannot be cached lives on the stack of the
  operation that uses it. What other threads do to the cache while an operation runs is the list
  \<open>iintf\<close>; each atomic access lets the next of them happen first. A failed assert or a loop that does
  not end is \<open>None\<close>.
\<close>

section \<open>State\<close>

datatype inproc_sync_type =
    INPROC_SYNC_UNKNOWN | INPROC_SYNC_INTERNAL | INPROC_SYNC_EVENT | INPROC_SYNC_MUTEX | INPROC_SYNC_SEMAPHORE

record inproc_sync =
  is_refcount :: i32
  is_fd :: int
  is_access :: u32
  is_type :: inproc_sync_type
  is_closed :: bool

definition zero_sync :: inproc_sync where
  "zero_sync = \<lparr>is_refcount = 0, is_fd = 0, is_access = 0, is_type = INPROC_SYNC_UNKNOWN, is_closed = False\<rparr>"

type_synonym icache = "nat \<Rightarrow> (nat \<Rightarrow> inproc_sync) option"

text \<open>
  The cache, the objects on the stack, the objects of the driver, the state of the fsync client that
  takes over when fsync is in use, the alert descriptor of the thread, and the descriptors closed.
\<close>

record 'k iworld =
  icache :: icache
  istack :: "nat \<Rightarrow> inproc_sync"
  iintf :: "(icache \<Rightarrow> icache) list"
  kobjs :: 'k
  fsy :: fclient
  ialert_fd :: int
  iclosed :: "int list"

text \<open>
  The answer of the server to \<open>get_inproc_sync_fd\<close> is a status, or a descriptor with the handle it was
  sent for, the access rights and the type. \<open>ic_srv_alert\<close> is the answer to \<open>get_inproc_alert_fd\<close>.
\<close>

record 'k icfg =
  ic_nt :: "'k ntcfg"
  ic_do_fsync :: bool
  ic_fsync :: fcfg
  ic_device_fd :: int
  ic_mmap_ok :: "nat \<Rightarrow> bool"
  ic_srv_sync :: "u64 \<Rightarrow> ntstatus + u64 \<times> int \<times> u32 \<times> inproc_sync_type"
  ic_srv_alert :: "(u64 \<times> u64 \<times> int) option"

datatype iptr = PCache nat nat | PStack nat

definition iinterfere :: "'k iworld \<Rightarrow> 'k iworld" where
  "iinterfere w = (case iintf w of [] \<Rightarrow> w | f # fs \<Rightarrow> w\<lparr>icache := f (icache w), iintf := fs\<rparr>)"

fun sync_at :: "iptr \<Rightarrow> 'k iworld \<Rightarrow> inproc_sync" where
  "sync_at (PCache entry idx) w = (case icache w entry of None \<Rightarrow> zero_sync | Some block \<Rightarrow> block idx)"
| "sync_at (PStack n) w = istack w n"

fun set_sync :: "iptr \<Rightarrow> inproc_sync \<Rightarrow> 'k iworld \<Rightarrow> 'k iworld" where
  "set_sync (PCache entry idx) s w =
     (case icache w entry of None \<Rightarrow> w | Some block \<Rightarrow> w\<lparr>icache := (icache w)(entry \<mapsto> block(idx := s))\<rparr>)"
| "set_sync (PStack n) s w = w\<lparr>istack := (istack w)(n := s)\<rparr>"

section \<open>Atomic accesses\<close>

definition ref_load :: "iptr \<Rightarrow> 'k iworld \<Rightarrow> i32 \<times> 'k iworld" where
  "ref_load p w = (let w1 = iinterfere w in (is_refcount (sync_at p w1), w1))"

definition ref_set :: "iptr \<Rightarrow> i32 \<Rightarrow> 'k iworld \<Rightarrow> 'k iworld" where
  "ref_set p v w = set_sync p ((sync_at p w)\<lparr>is_refcount := v\<rparr>) w"

definition ref_cas :: "iptr \<Rightarrow> i32 \<Rightarrow> i32 \<Rightarrow> 'k iworld \<Rightarrow> i32 \<times> 'k iworld" where
  "ref_cas p old new w =
     (let w1 = iinterfere w; r = is_refcount (sync_at p w1)
      in (r, if r = old then ref_set p new w1 else w1))"

definition ref_xchg :: "iptr \<Rightarrow> i32 \<Rightarrow> 'k iworld \<Rightarrow> i32 \<times> 'k iworld" where
  "ref_xchg p v w = (let w1 = iinterfere w in (is_refcount (sync_at p w1), ref_set p v w1))"

text \<open>\<open>InterlockedDecrement\<close> returns the new value.\<close>

definition ref_dec :: "iptr \<Rightarrow> 'k iworld \<Rightarrow> i32 \<times> 'k iworld" where
  "ref_dec p w = (let w1 = iinterfere w; r = is_refcount (sync_at p w1) - 1 in (r, ref_set p r w1))"

partial_function (option) inc_loop :: "iptr \<Rightarrow> i32 \<Rightarrow> 'k iworld \<Rightarrow> (i32 \<times> 'k iworld) option" where
  "inc_loop p val w =
     (if val = 0 then Some (val, w)
      else let (tmp, w1) = ref_cas p val (val + 1) w
           in if tmp = val then Some (val, w1) else inc_loop p tmp w1)"

text \<open>The previous value.\<close>

definition interlocked_inc_if_nonzero :: "iptr \<Rightarrow> 'k iworld \<Rightarrow> (i32 \<times> 'k iworld) option" where
  "interlocked_inc_if_nonzero p w = (let (val, w1) = ref_load p w in inc_loop p val w1)"

section \<open>The cache\<close>

abbreviation (input) INPROC_SYNC_CACHE_BLOCK_SIZE :: nat where "INPROC_SYNC_CACHE_BLOCK_SIZE \<equiv> 4096"
abbreviation (input) INPROC_SYNC_CACHE_ENTRIES :: nat where "INPROC_SYNC_CACHE_ENTRIES \<equiv> 128"

text \<open>\<open>wine_server_obj_handle\<close> keeps the low half of a handle.\<close>

definition inproc_sync_handle_to_index :: "u64 \<Rightarrow> nat \<times> nat" where
  "inproc_sync_handle_to_index handle =
     (let idx = unat (drop_bit 2 (ucast handle :: u32) - 1)
      in (idx div INPROC_SYNC_CACHE_BLOCK_SIZE, idx mod INPROC_SYNC_CACHE_BLOCK_SIZE))"

definition is_pseudo_handle :: "u64 \<Rightarrow> bool" where
  "is_pseudo_handle handle \<longleftrightarrow> 0xfffffffa \<le> (ucast handle :: u32)"

definition cache_inproc_sync :: "'k icfg \<Rightarrow> u64 \<Rightarrow> nat \<Rightarrow> 'k iworld \<Rightarrow> (iptr \<times> 'k iworld) option" where
  "cache_inproc_sync cfg handle stack w =
     (let (entry, idx) = inproc_sync_handle_to_index handle; sync = sync_at (PStack stack) w
      in if is_pseudo_handle handle then Some (PStack stack, w)
         else if INPROC_SYNC_CACHE_ENTRIES \<le> entry then Some (PStack stack, w)
         else if icache w entry = None \<and> entry \<noteq> 0 \<and> \<not> ic_mmap_ok cfg entry then Some (PStack stack, w)
         else let w1 = (if icache w entry = None
                        then w\<lparr>icache := (icache w)(entry \<mapsto> (\<lambda>_. zero_sync))\<rparr> else w);
                  p = PCache entry idx;
                  (busy, w2) = ref_cas p 0 0 w1
              in if busy \<noteq> 0 then Some (PStack stack, w2)
                 else let w3 = set_sync p ((sync_at p w2)\<lparr>is_fd := is_fd sync, is_access := is_access sync,
                                 is_type := is_type sync, is_closed := is_closed sync\<rparr>) w2;
                          (refcount, w4) = ref_xchg p 2 w3
                      in if refcount \<noteq> 0 \<or> is_refcount sync \<noteq> 1 then None
                         else Some (p, set_sync (PStack stack) zero_sync w4))"

definition close_fd :: "'k icfg \<Rightarrow> int \<Rightarrow> 'k iworld \<Rightarrow> 'k iworld" where
  "close_fd cfg fd w = w\<lparr>kobjs := nt_close (nc_kernel (ic_nt cfg)) fd (kobjs w), iclosed := iclosed w @ [fd]\<rparr>"

definition release_inproc_sync :: "'k icfg \<Rightarrow> iptr \<Rightarrow> 'k iworld \<Rightarrow> 'k iworld option" where
  "release_inproc_sync cfg p w =
     (let fd = is_fd (sync_at p w); (ref, w1) = ref_dec p w
      in if sint ref < 0 then None
         else Some (if ref = 0 \<and> \<not> nc_userspace (ic_nt cfg) then close_fd cfg fd w1 else w1))"

definition get_cached_inproc_sync :: "'k icfg \<Rightarrow> u64 \<Rightarrow> 'k iworld \<Rightarrow> (iptr option \<times> 'k iworld) option" where
  "get_cached_inproc_sync cfg handle w =
     (let (entry, idx) = inproc_sync_handle_to_index handle
      in if INPROC_SYNC_CACHE_ENTRIES \<le> entry \<or> icache w entry = None then Some (None, w)
         else do {
           let p = PCache entry idx;
           (val, w1) \<leftarrow> interlocked_inc_if_nonzero p w;
           if val = 0 then Some (None, w1)
           else let w2 = iinterfere w1
                in if is_closed (sync_at p w2)
                   then do { w3 \<leftarrow> release_inproc_sync cfg p w2; Some (None, w3) }
                   else Some (Some p, w2)
         })"

definition get_server_inproc_sync :: "'k icfg \<Rightarrow> u64 \<Rightarrow> nat \<Rightarrow> 'k iworld \<Rightarrow> (ntstatus \<times> 'k iworld) option" where
  "get_server_inproc_sync cfg handle stack w =
     (case ic_srv_sync cfg handle of
        Inl st \<Rightarrow> Some (st, w)
      | Inr (fd_handle, fd, access, type) \<Rightarrow>
          if \<not> nc_userspace (ic_nt cfg) \<and> fd_handle \<noteq> handle then None
          else Some (STATUS_SUCCESS, set_sync (PStack stack)
                 \<lparr>is_refcount = 1, is_fd = fd, is_access = access, is_type = type, is_closed = False\<rparr> w))"

definition get_inproc_sync ::
  "'k icfg \<Rightarrow> u64 \<Rightarrow> inproc_sync_type \<Rightarrow> u32 \<Rightarrow> nat \<Rightarrow> 'k iworld \<Rightarrow> ((ntstatus + iptr) \<times> 'k iworld) option" where
  "get_inproc_sync cfg handle desired_type desired_access stack w =
     do {
       (cached, w1) \<leftarrow> get_cached_inproc_sync cfg handle w;
       (found, w4) \<leftarrow>
         (case cached of
            Some p \<Rightarrow> Some (Inr p, w1)
          | None \<Rightarrow> do {
              (cached, w2) \<leftarrow> get_cached_inproc_sync cfg handle w1;
              case cached of
                Some p \<Rightarrow> Some (Inr p, w2)
              | None \<Rightarrow> do {
                  (ret, w3) \<leftarrow> get_server_inproc_sync cfg handle stack w2;
                  if ret \<noteq> STATUS_SUCCESS then Some (Inl ret, w3)
                  else do { (p, w4) \<leftarrow> cache_inproc_sync cfg handle stack w3; Some (Inr p, w4) }
                }
            });
       case found of
         Inl ret \<Rightarrow> Some (Inl ret, w4)
       | Inr p \<Rightarrow>
           if desired_type \<noteq> INPROC_SYNC_UNKNOWN \<and> desired_type \<noteq> is_type (sync_at p w4)
           then do { w5 \<leftarrow> release_inproc_sync cfg p w4; Some (Inl STATUS_OBJECT_TYPE_MISMATCH, w5) }
           else if is_access (sync_at p w4) AND desired_access \<noteq> desired_access
           then do { w5 \<leftarrow> release_inproc_sync cfg p w4; Some (Inl STATUS_ACCESS_DENIED, w5) }
           else Some (Inr p, w4)
     }"

text \<open>The handle of a cached object is closed; the caller holds the lock of the cache.\<close>

definition close_inproc_sync :: "'k icfg \<Rightarrow> u64 \<Rightarrow> 'k iworld \<Rightarrow> 'k iworld option" where
  "close_inproc_sync cfg handle w =
     (if ic_do_fsync cfg then Some (w\<lparr>fsy := snd (fsync_close handle (fsy w))\<rparr>)
      else if ic_device_fd cfg < 0 then Some w
      else do {
        (cached, w1) \<leftarrow> get_cached_inproc_sync cfg handle w;
        case cached of
          None \<Rightarrow> Some w1
        | Some p \<Rightarrow> do {
            w2 \<leftarrow> release_inproc_sync cfg p (set_sync p ((sync_at p w1)\<lparr>is_closed := True\<rparr>) w1);
            release_inproc_sync cfg p w2
          }
      })"

end
