(* ===== verification/Inproc_Sync.thy ===== *)
theory Inproc_Sync
  imports Inproc_Cache
begin

text \<open>
  dlls/ntdll/unix/sync.c: the operations on in-process synchronization objects. Each goes to fsync when
  that is in use, reports that it is not implemented when there is no device, and otherwise takes a
  reference to the object of the handle, calls the driver and gives the reference back.
\<close>

abbreviation (input) EVENT_QUERY_STATE :: u32 where "EVENT_QUERY_STATE \<equiv> 1"
abbreviation (input) EVENT_MODIFY_STATE :: u32 where "EVENT_MODIFY_STATE \<equiv> 2"
abbreviation (input) SEMAPHORE_QUERY_STATE :: u32 where "SEMAPHORE_QUERY_STATE \<equiv> 1"
abbreviation (input) SEMAPHORE_MODIFY_STATE :: u32 where "SEMAPHORE_MODIFY_STATE \<equiv> 2"
abbreviation (input) MUTANT_QUERY_STATE :: u32 where "MUTANT_QUERY_STATE \<equiv> 1"
abbreviation (input) SYNCHRONIZE :: u32 where "SYNCHRONIZE \<equiv> 0x100000"

section \<open>One object\<close>

text \<open>What all operations on one object share: guards, reference, driver call, release.\<close>

definition on_inproc_sync ::
  "'k icfg \<Rightarrow> u64 \<Rightarrow> inproc_sync_type \<Rightarrow> u32 \<Rightarrow> (int \<Rightarrow> 'k \<Rightarrow> (ntstatus \<times> 'r option) \<times> 'k) \<Rightarrow> 'k iworld \<Rightarrow>
     ((ntstatus \<times> 'r option) \<times> 'k iworld) option" where
  "on_inproc_sync cfg handle type access act w =
     (if ic_device_fd cfg < 0 then Some ((STATUS_NOT_IMPLEMENTED, None), w)
      else do {
        (r, w1) \<leftarrow> get_inproc_sync cfg handle type access 0 w;
        case r of
          Inl ret \<Rightarrow> Some ((ret, None), w1)
        | Inr p \<Rightarrow> do {
            let (ret, k) = act (is_fd (sync_at p w1)) (kobjs w1);
            w2 \<leftarrow> release_inproc_sync cfg p (w1\<lparr>kobjs := k\<rparr>);
            Some (ret, w2)
          }
      })"

definition via_fsync :: "((ntstatus \<times> 'r option) \<times> fclient) option \<Rightarrow> 'k iworld \<Rightarrow>
    ((ntstatus \<times> 'r option) \<times> 'k iworld) option" where
  "via_fsync r w = map_option (\<lambda>(ret, f). (ret, w\<lparr>fsy := f\<rparr>)) r"

definition inproc_release_semaphore ::
  "'k icfg \<Rightarrow> u64 \<Rightarrow> u32 \<Rightarrow> 'k iworld \<Rightarrow> ((ntstatus \<times> u32 option) \<times> 'k iworld) option" where
  "inproc_release_semaphore cfg handle count w =
     (if ic_do_fsync cfg then via_fsync (fsync_release_semaphore (ic_fsync cfg) handle count (fsy w)) w
      else on_inproc_sync cfg handle INPROC_SYNC_SEMAPHORE SEMAPHORE_MODIFY_STATE
             (\<lambda>fd k. linux_release_semaphore_obj (ic_nt cfg) fd count k) w)"

definition inproc_query_semaphore ::
  "'k icfg \<Rightarrow> u64 \<Rightarrow> 'k iworld \<Rightarrow> ((ntstatus \<times> (u32 \<times> u32) option) \<times> 'k iworld) option" where
  "inproc_query_semaphore cfg handle w =
     (if ic_do_fsync cfg then via_fsync (fsync_query_semaphore (ic_fsync cfg) handle (fsy w)) w
      else on_inproc_sync cfg handle INPROC_SYNC_SEMAPHORE SEMAPHORE_QUERY_STATE
             (\<lambda>fd k. (linux_query_semaphore_obj (ic_nt cfg) fd k, k)) w)"

definition inproc_set_event :: "'k icfg \<Rightarrow> u64 \<Rightarrow> 'k iworld \<Rightarrow> ((ntstatus \<times> i32 option) \<times> 'k iworld) option" where
  "inproc_set_event cfg handle w =
     (if ic_do_fsync cfg then via_fsync (client_set_event (ic_fsync cfg) handle (fsy w)) w
      else on_inproc_sync cfg handle INPROC_SYNC_EVENT EVENT_MODIFY_STATE
             (\<lambda>fd k. linux_set_event_obj (ic_nt cfg) fd k) w)"

definition inproc_reset_event :: "'k icfg \<Rightarrow> u64 \<Rightarrow> 'k iworld \<Rightarrow> ((ntstatus \<times> i32 option) \<times> 'k iworld) option" where
  "inproc_reset_event cfg handle w =
     (if ic_do_fsync cfg then via_fsync (client_reset_event (ic_fsync cfg) handle (fsy w)) w
      else on_inproc_sync cfg handle INPROC_SYNC_EVENT EVENT_MODIFY_STATE
             (\<lambda>fd k. linux_reset_event_obj (ic_nt cfg) fd k) w)"

definition inproc_pulse_event :: "'k icfg \<Rightarrow> u64 \<Rightarrow> 'k iworld \<Rightarrow> ((ntstatus \<times> i32 option) \<times> 'k iworld) option" where
  "inproc_pulse_event cfg handle w =
     (if ic_do_fsync cfg then via_fsync (client_pulse_event (ic_fsync cfg) handle (fsy w)) w
      else on_inproc_sync cfg handle INPROC_SYNC_EVENT EVENT_MODIFY_STATE
             (\<lambda>fd k. linux_pulse_event_obj (ic_nt cfg) fd k) w)"

text \<open>The state, and whether it is a manual-reset event.\<close>

definition inproc_query_event ::
  "'k icfg \<Rightarrow> u64 \<Rightarrow> 'k iworld \<Rightarrow> ((ntstatus \<times> (i32 \<times> bool) option) \<times> 'k iworld) option" where
  "inproc_query_event cfg handle w =
     (if ic_do_fsync cfg then via_fsync
       (map_option (map_prod (map_prod id (map_option (map_prod id Not))) id)
          (client_query_event (ic_fsync cfg) handle (fsy w))) w
      else on_inproc_sync cfg handle INPROC_SYNC_EVENT EVENT_QUERY_STATE
             (\<lambda>fd k. (linux_query_event_obj (ic_nt cfg) fd k, k)) w)"

definition inproc_release_mutex :: "'k icfg \<Rightarrow> u64 \<Rightarrow> 'k iworld \<Rightarrow> ((ntstatus \<times> i32 option) \<times> 'k iworld) option" where
  "inproc_release_mutex cfg handle w =
     (if ic_do_fsync cfg then via_fsync (fsync_release_mutex (ic_fsync cfg) handle (fsy w)) w
      else on_inproc_sync cfg handle INPROC_SYNC_MUTEX 0
             (\<lambda>fd k. linux_release_mutex_obj (ic_nt cfg) fd k) w)"

definition inproc_query_mutex ::
  "'k icfg \<Rightarrow> u64 \<Rightarrow> 'k iworld \<Rightarrow> ((ntstatus \<times> (i32 \<times> bool \<times> bool) option) \<times> 'k iworld) option" where
  "inproc_query_mutex cfg handle w =
     (if ic_do_fsync cfg then via_fsync (fsync_query_mutex (ic_fsync cfg) handle (fsy w)) w
      else on_inproc_sync cfg handle INPROC_SYNC_MUTEX MUTANT_QUERY_STATE
             (\<lambda>fd k. (linux_query_mutex_obj (ic_nt cfg) fd k, k)) w)"

section \<open>Waiting\<close>

text \<open>The alert descriptor of the thread, asked from the server on first use.\<close>

definition get_inproc_alert_fd :: "'k icfg \<Rightarrow> 'k iworld \<Rightarrow> (int \<times> 'k iworld) option" where
  "get_inproc_alert_fd cfg w =
     (if 0 \<le> ialert_fd w then Some (ialert_fd w, w)
      else case ic_srv_alert cfg of
        None \<Rightarrow> Some (ialert_fd w, w)
      | Some (reply_handle, token, fd) \<Rightarrow>
          if \<not> nc_userspace (ic_nt cfg) \<and> token \<noteq> reply_handle then None
          else Some (fd, w\<lparr>ialert_fd := fd\<rparr>))"

definition check_signal_access :: "inproc_sync \<Rightarrow> ntstatus option" where
  "check_signal_access sync =
     (case is_type sync of
        INPROC_SYNC_INTERNAL \<Rightarrow> Some STATUS_OBJECT_TYPE_MISMATCH
      | INPROC_SYNC_EVENT \<Rightarrow>
          Some (if is_access sync AND EVENT_MODIFY_STATE = 0 then STATUS_ACCESS_DENIED else STATUS_SUCCESS)
      | INPROC_SYNC_MUTEX \<Rightarrow>
          Some (if is_access sync AND SYNCHRONIZE = 0 then STATUS_ACCESS_DENIED else STATUS_SUCCESS)
      | INPROC_SYNC_SEMAPHORE \<Rightarrow>
          Some (if is_access sync AND SEMAPHORE_MODIFY_STATE = 0 then STATUS_ACCESS_DENIED else STATUS_SUCCESS)
      | INPROC_SYNC_UNKNOWN \<Rightarrow> None)"

text \<open>References to all objects of a wait, or the status of the first failure with those before given back.\<close>

fun release_all :: "'k icfg \<Rightarrow> iptr list \<Rightarrow> 'k iworld \<Rightarrow> 'k iworld option" where
  "release_all cfg [] w = Some w"
| "release_all cfg (p # ps) w = do { w1 \<leftarrow> release_inproc_sync cfg p w; release_all cfg ps w1 }"

fun get_wait_syncs :: "'k icfg \<Rightarrow> nat \<Rightarrow> iptr list \<Rightarrow> int list \<Rightarrow> u64 list \<Rightarrow> 'k iworld \<Rightarrow>
    ((ntstatus + iptr list \<times> int list) \<times> 'k iworld) option" where
  "get_wait_syncs cfg i ps objs [] w = Some (Inr (ps, objs), w)"
| "get_wait_syncs cfg i ps objs (h # hs) w =
     do {
       (r, w1) \<leftarrow> get_inproc_sync cfg h INPROC_SYNC_UNKNOWN SYNCHRONIZE i w;
       case r of
         Inl ret \<Rightarrow> do { w2 \<leftarrow> release_all cfg (rev ps) w1; Some (Inl ret, w2) }
       | Inr p \<Rightarrow> get_wait_syncs cfg (Suc i) (ps @ [p]) (objs @ [is_fd (sync_at p w1)]) hs w1
     }"

definition inproc_wait ::
  "'k icfg \<Rightarrow> u64 list \<Rightarrow> bool \<Rightarrow> bool \<Rightarrow> u64 option \<Rightarrow> fwres list \<Rightarrow> 'k iworld \<Rightarrow> (ntstatus \<times> 'k iworld) option" where
  "inproc_wait cfg handles wait_all alertable timeout outs w =
     (if ic_do_fsync cfg
      then map_option (\<lambda>(ret, f). (ret, w\<lparr>fsy := f\<rparr>))
             (fsync_wait_objects (ic_fsync cfg) handles (\<not> wait_all) alertable timeout outs (fsy w))
      else if ic_device_fd cfg < 0 then Some (STATUS_NOT_IMPLEMENTED, w)
      else if 64 < length handles then None
      else do {
        (r, w1) \<leftarrow> get_wait_syncs cfg 0 [] [] handles w;
        case r of
          Inl ret \<Rightarrow> Some (ret, w1)
        | Inr (ps, objs) \<Rightarrow> do {
            (alert_fd, w2) \<leftarrow> (if alertable then get_inproc_alert_fd cfg w1 else Some (0, w1));
            (ret, k) \<leftarrow> linux_wait_objs (ic_nt cfg) objs wait_all alert_fd timeout (kobjs w2);
            w3 \<leftarrow> release_all cfg (rev ps) (w2\<lparr>kobjs := k\<rparr>);
            Some (ret, w3)
          }
      })"

text \<open>The signal of signal-and-wait, according to the type of the object.\<close>

definition signal_obj :: "'k icfg \<Rightarrow> inproc_sync \<Rightarrow> 'k \<Rightarrow> (ntstatus \<times> 'k) option" where
  "signal_obj cfg sync k =
     (case is_type sync of
        INPROC_SYNC_EVENT \<Rightarrow> Some (case linux_set_event_obj (ic_nt cfg) (is_fd sync) k of ((ret, _), k1) \<Rightarrow> (ret, k1))
      | INPROC_SYNC_MUTEX \<Rightarrow> Some (case linux_release_mutex_obj (ic_nt cfg) (is_fd sync) k of ((ret, _), k1) \<Rightarrow> (ret, k1))
      | INPROC_SYNC_SEMAPHORE \<Rightarrow>
          Some (case linux_release_semaphore_obj (ic_nt cfg) (is_fd sync) 1 k of ((ret, _), k1) \<Rightarrow> (ret, k1))
      | _ \<Rightarrow> None)"

text \<open>With references to both objects: signal, wait if that succeeded, give back the second reference.\<close>

definition signal_then_wait ::
  "'k icfg \<Rightarrow> iptr \<Rightarrow> iptr \<Rightarrow> bool \<Rightarrow> u64 option \<Rightarrow> 'k iworld \<Rightarrow> (ntstatus \<times> 'k iworld) option" where
  "signal_then_wait cfg sp wp alertable timeout w2 =
     do {
       (ret, k) \<leftarrow> signal_obj cfg (sync_at sp w2) (kobjs w2);
       let w3 = w2\<lparr>kobjs := k\<rparr>;
       (ret, w5) \<leftarrow>
         (if ret \<noteq> STATUS_SUCCESS then Some (ret, w3)
          else do {
            (alert_fd, w4) \<leftarrow> (if alertable then get_inproc_alert_fd cfg w3 else Some (0, w3));
            (ret, k) \<leftarrow> linux_wait_objs (ic_nt cfg) [is_fd (sync_at wp w4)] False alert_fd timeout (kobjs w4);
            Some (ret, w4\<lparr>kobjs := k\<rparr>)
          });
       w6 \<leftarrow> release_inproc_sync cfg wp w5;
       Some (ret, w6)
     }"

definition check_then_signal ::
  "'k icfg \<Rightarrow> iptr \<Rightarrow> u64 \<Rightarrow> bool \<Rightarrow> u64 option \<Rightarrow> 'k iworld \<Rightarrow> (ntstatus \<times> 'k iworld) option" where
  "check_then_signal cfg sp wait alertable timeout w1 =
     do {
       checked \<leftarrow> check_signal_access (sync_at sp w1);
       if checked \<noteq> STATUS_SUCCESS then Some (checked, w1)
       else do {
         (r, w2) \<leftarrow> get_inproc_sync cfg wait INPROC_SYNC_UNKNOWN SYNCHRONIZE 1 w1;
         case r of
           Inl ret \<Rightarrow> Some (ret, w2)
         | Inr wp \<Rightarrow> signal_then_wait cfg sp wp alertable timeout w2
       }
     }"

definition inproc_signal_and_wait ::
  "'k icfg \<Rightarrow> u64 \<Rightarrow> u64 \<Rightarrow> bool \<Rightarrow> u64 option \<Rightarrow> fwres list \<Rightarrow> 'k iworld \<Rightarrow> (ntstatus \<times> 'k iworld) option" where
  "inproc_signal_and_wait cfg signal wait alertable timeout outs w =
     (if ic_do_fsync cfg
      then map_option (\<lambda>(ret, f). (ret, w\<lparr>fsy := f\<rparr>))
             (fsync_signal_and_wait (ic_fsync cfg) signal wait alertable timeout outs (fsy w))
      else if ic_device_fd cfg < 0 then Some (STATUS_NOT_IMPLEMENTED, w)
      else do {
        (r, w1) \<leftarrow> get_inproc_sync cfg signal INPROC_SYNC_UNKNOWN 0 0 w;
        case r of
          Inl ret \<Rightarrow> Some (ret, w1)
        | Inr sp \<Rightarrow> do {
            (ret, w2) \<leftarrow> check_then_signal cfg sp wait alertable timeout w1;
            w3 \<leftarrow> release_inproc_sync cfg sp w2;
            Some (ret, w3)
          }
      })"

end
