(* ===== verification/Inproc_Refs.thy ===== *)
theory Inproc_Refs
  imports Inproc_Sync
begin

text \<open>
  Properties of the in-process synchronization objects of a client: operations on a cached object give
  back the reference they take, closing a handle hides the object and closes its descriptor with the
  last reference, and signal-and-wait does both of its parts or neither.
\<close>

section \<open>Undisturbed accesses\<close>

lemma iinterfere_quiet [simp]: "iintf w = [] \<Longrightarrow> iinterfere w = w"
  by (simp add: iinterfere_def)

lemma set_sync_sel [simp]:
  "iintf (set_sync p s w) = iintf w" "kobjs (set_sync p s w) = kobjs w" "fsy (set_sync p s w) = fsy w"
  "ialert_fd (set_sync p s w) = ialert_fd w" "iclosed (set_sync p s w) = iclosed w"
  by (cases p; simp split: option.split)+

text \<open>A pointer that can be written: its block is mapped.\<close>

fun mapped :: "iptr \<Rightarrow> 'k iworld \<Rightarrow> bool" where
  "mapped (PCache entry idx) w \<longleftrightarrow> icache w entry \<noteq> None"
| "mapped (PStack n) w \<longleftrightarrow> True"

lemma sync_at_set [simp]: "mapped p w \<Longrightarrow> sync_at p (set_sync p s w) = s"
  by (cases p) auto

lemma mapped_set [simp]: "mapped p (set_sync q s w) = mapped p w"
  by (cases p; cases q) (auto split: option.split)

lemma set_set [simp]: "set_sync p s (set_sync p t w) = set_sync p s w"
  by (cases p) (auto split: option.split)

lemma set_same: "set_sync p (sync_at p w) w = w"
  by (cases p) (auto simp: fun_upd_idem split: option.split)

lemma sync_at_other: "p \<noteq> q \<Longrightarrow> sync_at p (set_sync q s w) = sync_at p w"
  by (cases p; cases q) (auto split: option.split)

lemma sync_at_upd [simp]:
  "sync_at p (w\<lparr>kobjs := k\<rparr>) = sync_at p w" "sync_at p (w\<lparr>ialert_fd := a\<rparr>) = sync_at p w"
  "sync_at p (w\<lparr>iclosed := c\<rparr>) = sync_at p w"
  by (cases p; simp)+

lemma set_sync_kobjs: "set_sync p s (w\<lparr>kobjs := k\<rparr>) = (set_sync p s w)\<lparr>kobjs := k\<rparr>"
  by (cases p) (auto split: option.split)

definition add_ref :: "i32 \<Rightarrow> iptr \<Rightarrow> 'k iworld \<Rightarrow> 'k iworld" where
  "add_ref n p w = set_sync p ((sync_at p w)\<lparr>is_refcount := is_refcount (sync_at p w) + n\<rparr>) w"

lemma add_ref_add: "mapped p w \<Longrightarrow> add_ref m p (add_ref n p w) = add_ref (n + m) p w"
  by (simp add: add_ref_def add.assoc)

lemma add_ref_0 [simp]: "add_ref 0 p w = w"
  by (simp add: add_ref_def set_same)

lemma add_ref_sel [simp]:
  "iintf (add_ref n p w) = iintf w" "kobjs (add_ref n p w) = kobjs w" "iclosed (add_ref n p w) = iclosed w"
  "mapped q (add_ref n p w) = mapped q w"
  by (simp_all add: add_ref_def)

lemma sync_at_add_ref [simp]:
  "mapped p w \<Longrightarrow> sync_at p (add_ref n p w) = (sync_at p w)\<lparr>is_refcount := is_refcount (sync_at p w) + n\<rparr>"
  by (simp add: add_ref_def)

lemma add_ref_kobjs: "add_ref n p (w\<lparr>kobjs := k\<rparr>) = (add_ref n p w)\<lparr>kobjs := k\<rparr>"
  by (simp add: add_ref_def set_sync_kobjs)

text \<open>A reference count that leaves room for one more reference.\<close>

definition ref_ok :: "i32 \<Rightarrow> bool" where
  "ref_ok r \<longleftrightarrow> 0 < sint r \<and> sint r < 2 ^ 31 - 1"

lemma sint_pred:
  assumes "ref_ok r"
  shows "sint (r - 1) = sint r - 1"
proof -
  have "sint (word_of_int (sint r - 1) :: i32) = signed_take_bit 31 (sint r - 1)"
    unfolding signed_of_int by simp
  moreover have "word_of_int (sint r - 1) = r - 1" by simp
  ultimately show ?thesis using assms by (simp add: ref_ok_def signed_take_bit_int_eq_self)
qed

lemma inc_quiet:
  assumes "iintf w = []"
  shows "interlocked_inc_if_nonzero p w =
    Some (is_refcount (sync_at p w), if is_refcount (sync_at p w) = 0 then w else add_ref 1 p w)"
proof -
  have "interlocked_inc_if_nonzero p w = inc_loop p (is_refcount (sync_at p w)) w"
    using assms by (simp add: interlocked_inc_if_nonzero_def ref_load_def Let_def)
  then show ?thesis
    using assms by (subst (asm) inc_loop.simps) (simp add: ref_cas_def ref_set_def add_ref_def Let_def)
qed

text \<open>Giving back a reference that is not the last one.\<close>

lemma release_quiet:
  assumes "iintf w = []" and "0 < sint (is_refcount (sync_at p w) - 1)"
  shows "release_inproc_sync cfg p w = Some (add_ref (- 1) p w)"
  using assms by (auto simp: release_inproc_sync_def ref_dec_def ref_set_def add_ref_def Let_def)

text \<open>Giving back the last one.\<close>

lemma release_last:
  assumes "iintf w = []" and "is_refcount (sync_at p w) = 1"
  shows "release_inproc_sync cfg p w = Some (if nc_userspace (ic_nt cfg) then add_ref (- 1) p w
    else close_fd cfg (is_fd (sync_at p w)) (add_ref (- 1) p w))"
  using assms by (simp add: release_inproc_sync_def ref_dec_def ref_set_def add_ref_def Let_def)

section \<open>Cached objects\<close>

text \<open>The handle is open and its object is in the cache.\<close>

definition cached_at :: "u64 \<Rightarrow> iptr \<Rightarrow> 'k iworld \<Rightarrow> bool" where
  "cached_at handle p w \<longleftrightarrow>
     (\<exists>entry idx. inproc_sync_handle_to_index handle = (entry, idx) \<and> entry < INPROC_SYNC_CACHE_ENTRIES \<and>
        p = PCache entry idx \<and> mapped p w) \<and>
     ref_ok (is_refcount (sync_at p w)) \<and> \<not> is_closed (sync_at p w)"

lemma get_cached_hit:
  assumes "iintf w = []" and "cached_at handle p w"
  shows "get_cached_inproc_sync cfg handle w = Some (Some p, add_ref 1 p w)"
proof -
  obtain entry idx where p: "inproc_sync_handle_to_index handle = (entry, idx)" "entry < INPROC_SYNC_CACHE_ENTRIES"
      "p = PCache entry idx" "mapped p w" "icache w entry \<noteq> None"
    using assms(2) unfolding cached_at_def by auto
  have r: "is_refcount (sync_at p w) \<noteq> 0" "\<not> is_closed (sync_at p w)"
    using assms(2) by (auto simp: cached_at_def ref_ok_def)
  then show ?thesis
    using p assms(1) by (simp add: get_cached_inproc_sync_def inc_quiet Let_def del: sync_at.simps)
qed

lemma release_added:
  assumes "iintf w = []" and "cached_at handle p w"
  shows "release_inproc_sync cfg p ((add_ref 1 p w)\<lparr>kobjs := k\<rparr>) = Some (w\<lparr>kobjs := k\<rparr>)"
proof -
  have m: "mapped p w" and r: "ref_ok (is_refcount (sync_at p w))" using assms(2) by (auto simp: cached_at_def)
  have "add_ref (- 1) p ((add_ref 1 p w)\<lparr>kobjs := k\<rparr>) = w\<lparr>kobjs := k\<rparr>"
    using m by (simp add: add_ref_kobjs add_ref_add)
  moreover have "0 < sint (is_refcount (sync_at p ((add_ref 1 p w)\<lparr>kobjs := k\<rparr>)) - 1)"
    using m r by (simp add: ref_ok_def)
  ultimately show ?thesis using release_quiet [of "(add_ref 1 p w)\<lparr>kobjs := k\<rparr>" p cfg] assms(1) by simp
qed

lemma kobjs_same: "kobjs w = k \<Longrightarrow> w\<lparr>kobjs := k\<rparr> = w"
  by auto

lemma release_added':
  "iintf w = [] \<Longrightarrow> cached_at handle p w \<Longrightarrow> release_inproc_sync cfg p (add_ref 1 p w) = Some w"
  using release_added [of w handle p cfg "kobjs w"] kobjs_same [of "add_ref 1 p w" "kobjs w"] kobjs_same [of w "kobjs w"]
  by simp

lemma get_inproc_hit:
  assumes "iintf w = []" and "cached_at handle p w"
  shows "get_inproc_sync cfg handle type access n w = Some
    (if type \<noteq> INPROC_SYNC_UNKNOWN \<and> type \<noteq> is_type (sync_at p w) then (Inl STATUS_OBJECT_TYPE_MISMATCH, w)
     else if is_access (sync_at p w) AND access \<noteq> access then (Inl STATUS_ACCESS_DENIED, w)
     else (Inr p, add_ref 1 p w))"
proof -
  have "mapped p w" using assms(2) by (auto simp: cached_at_def)
  then show ?thesis
    by (simp add: get_inproc_sync_def get_cached_hit [OF assms] release_added' [OF assms])
qed

lemma on_cached:
  assumes "iintf w = []" and "cached_at handle p w" and "0 \<le> ic_device_fd cfg" and "type \<noteq> INPROC_SYNC_UNKNOWN"
  shows "on_inproc_sync cfg handle type access act w =
    (if is_type (sync_at p w) \<noteq> type then Some ((STATUS_OBJECT_TYPE_MISMATCH, None), w)
     else if is_access (sync_at p w) AND access \<noteq> access then Some ((STATUS_ACCESS_DENIED, None), w)
     else (let (ret, k) = act (is_fd (sync_at p w)) (kobjs w) in Some (ret, w\<lparr>kobjs := k\<rparr>)))"
proof -
  have "mapped p w" using assms(2) by (auto simp: cached_at_def)
  then show ?thesis
    using assms(3,4) by (auto simp: on_inproc_sync_def get_inproc_hit [OF assms(1,2)] release_added [OF assms(1,2)] split: prod.split)
qed

text \<open>
  An operation on a handle whose object is cached, undisturbed: it checks the type of the object, then
  the access rights of the handle, and only when both fit it calls the driver, once, on the object's
  descriptor; in every case the reference it took is given back and the cache is as before, so no
  descriptor is closed.
\<close>
theorem inproc_cached_operations:
  assumes "iintf w = []" and "cached_at handle p w" and "0 \<le> ic_device_fd cfg" and "\<not> ic_do_fsync cfg"
  shows "inproc_release_semaphore cfg handle count w = Some
      (if is_type (sync_at p w) \<noteq> INPROC_SYNC_SEMAPHORE then ((STATUS_OBJECT_TYPE_MISMATCH, None), w)
       else if is_access (sync_at p w) AND SEMAPHORE_MODIFY_STATE \<noteq> SEMAPHORE_MODIFY_STATE then ((STATUS_ACCESS_DENIED, None), w)
       else (let (ret, k) = linux_release_semaphore_obj (ic_nt cfg) (is_fd (sync_at p w)) count (kobjs w) in (ret, w\<lparr>kobjs := k\<rparr>))) \<and>
    inproc_set_event cfg handle w = Some
      (if is_type (sync_at p w) \<noteq> INPROC_SYNC_EVENT then ((STATUS_OBJECT_TYPE_MISMATCH, None), w)
       else if is_access (sync_at p w) AND EVENT_MODIFY_STATE \<noteq> EVENT_MODIFY_STATE then ((STATUS_ACCESS_DENIED, None), w)
       else (let (ret, k) = linux_set_event_obj (ic_nt cfg) (is_fd (sync_at p w)) (kobjs w) in (ret, w\<lparr>kobjs := k\<rparr>))) \<and>
    inproc_release_mutex cfg handle w = Some
      (if is_type (sync_at p w) \<noteq> INPROC_SYNC_MUTEX then ((STATUS_OBJECT_TYPE_MISMATCH, None), w)
       else (let (ret, k) = linux_release_mutex_obj (ic_nt cfg) (is_fd (sync_at p w)) (kobjs w) in (ret, w\<lparr>kobjs := k\<rparr>)))"
  using assms(4)
  by (simp add: inproc_release_semaphore_def inproc_set_event_def inproc_release_mutex_def
      on_cached [OF assms(1-3)] case_prod_beta Let_def)

section \<open>Closing a handle\<close>

lemma get_cached_miss:
  assumes "iintf w = []" and "inproc_sync_handle_to_index handle = (entry, idx)"
    and "is_refcount (sync_at (PCache entry idx) w) = 0"
  shows "get_cached_inproc_sync cfg handle w = Some (None, w)"
  using assms(1,3) by (simp add: get_cached_inproc_sync_def assms(2) inc_quiet Let_def del: sync_at.simps)

lemma get_cached_closed:
  assumes "iintf w = []" and "inproc_sync_handle_to_index handle = (entry, idx)"
    and "ref_ok (is_refcount (sync_at (PCache entry idx) w))" and "is_closed (sync_at (PCache entry idx) w)"
    and "mapped (PCache entry idx) w"
  shows "get_cached_inproc_sync cfg handle w = Some (None, w)"
proof -
  let ?p = "PCache entry idx"
  have "is_refcount (sync_at ?p w) \<noteq> 0" "0 < sint (is_refcount (sync_at ?p (add_ref 1 ?p w)) - 1)"
    using assms(3,5) by (auto simp: ref_ok_def simp del: sync_at.simps)
  moreover from release_quiet [OF _ this(2), of cfg] assms(1,5)
  have "release_inproc_sync cfg ?p (add_ref 1 ?p w) = Some w" by (simp add: add_ref_add del: sync_at.simps)
  ultimately show ?thesis
    using assms(1,4,5) by (simp add: get_cached_inproc_sync_def assms(2) inc_quiet Let_def del: sync_at.simps)
qed

text \<open>The state after the handle of a cached object was closed.\<close>

definition closed_state :: "'k icfg \<Rightarrow> iptr \<Rightarrow> 'k iworld \<Rightarrow> 'k iworld" where
  "closed_state cfg p w =
     (let w1 = set_sync p ((sync_at p w)\<lparr>is_refcount := is_refcount (sync_at p w) - 1, is_closed := True\<rparr>) w
      in if is_refcount (sync_at p w) = 1 \<and> \<not> nc_userspace (ic_nt cfg) then close_fd cfg (is_fd (sync_at p w)) w1 else w1)"

lemma close_cached:
  assumes "iintf w = []" and "cached_at handle p w" and "0 \<le> ic_device_fd cfg" and "\<not> ic_do_fsync cfg"
  shows "close_inproc_sync cfg handle w = Some (closed_state cfg p w)"
proof -
  let ?s = "sync_at p w"
  have m: "mapped p w" and r: "ref_ok (is_refcount ?s)" using assms(2) by (auto simp: cached_at_def)
  define w1 where "w1 = set_sync p ((sync_at p (add_ref 1 p w))\<lparr>is_closed := True\<rparr>) (add_ref 1 p w)"
  have m1: "mapped p w1" and i1: "iintf w1 = []" using m assms(1) by (simp_all add: w1_def)
  have s1: "sync_at p w1 = ?s\<lparr>is_refcount := is_refcount ?s + 1, is_closed := True\<rparr>"
    using m by (simp add: w1_def)
  have "0 < sint (is_refcount (sync_at p w1) - 1)" using r by (simp add: s1 ref_ok_def)
  from release_quiet [OF i1 this, of cfg]
  have rel1: "release_inproc_sync cfg p w1 = Some (add_ref (- 1) p w1)" .
  define w2 where "w2 = add_ref (- 1) p w1"
  have m2: "mapped p w2" and i2: "iintf w2 = []" using m1 i1 by (simp_all add: w2_def)
  have s2: "sync_at p w2 = ?s\<lparr>is_closed := True\<rparr>" using m1 by (simp add: w2_def s1)
  have w2: "add_ref (- 1) p w2 = set_sync p (?s\<lparr>is_refcount := is_refcount ?s - 1, is_closed := True\<rparr>) w"
  proof -
    have c: "x\<lparr>is_closed := True, is_refcount := r\<rparr> = x\<lparr>is_refcount := r, is_closed := True\<rparr>" for x :: inproc_sync and r
      by (cases x) simp
    show ?thesis using m by (simp add: add_ref_def s2) (simp add: w2_def w1_def add_ref_def c)
  qed
  have "release_inproc_sync cfg p w2 = Some (closed_state cfg p w)"
  proof (cases "is_refcount ?s = 1")
    case True
    then show ?thesis
      using release_last [OF i2, of p cfg] by (simp add: s2 w2 closed_state_def)
  next
    case False
    have "sint (is_refcount ?s) \<noteq> sint (1 :: i32)" using False signed_word_eqI by blast
    then have "sint (is_refcount ?s) \<noteq> 1" by simp
    then have "0 < sint (is_refcount ?s - 1)"
      using r sint_pred [OF r] unfolding ref_ok_def by simp
    then show ?thesis
      using release_quiet [OF i2, of p cfg] False by (simp add: s2 w2 closed_state_def)
  qed
  then show ?thesis
    using assms(3,4) rel1 by (simp add: close_inproc_sync_def get_cached_hit [OF assms(1,2)] w1_def w2_def)
qed

lemma mapped_upd [simp]:
  "mapped p (w\<lparr>kobjs := k\<rparr>) = mapped p w" "mapped p (w\<lparr>iclosed := c\<rparr>) = mapped p w"
  by (cases p; simp)+

lemma close_fd_sel [simp]:
  "iintf (close_fd cfg fd w) = iintf w" "mapped q (close_fd cfg fd w) = mapped q w"
  "sync_at q (close_fd cfg fd w) = sync_at q w" "iclosed (close_fd cfg fd w) = iclosed w @ [fd]"
  by (simp_all add: close_fd_def)

lemma closed_state_sel [simp]:
  "iintf (closed_state cfg p w) = iintf w" "mapped q (closed_state cfg p w) = mapped q w"
  "mapped p w \<Longrightarrow> sync_at p (closed_state cfg p w) =
     (sync_at p w)\<lparr>is_refcount := is_refcount (sync_at p w) - 1, is_closed := True\<rparr>"
  "iclosed (closed_state cfg p w) =
     (if is_refcount (sync_at p w) = 1 \<and> \<not> nc_userspace (ic_nt cfg) then iclosed w @ [is_fd (sync_at p w)] else iclosed w)"
  by (simp_all add: closed_state_def Let_def)

lemma sint_count: "n < 2 ^ 31 \<Longrightarrow> sint (of_nat n :: i32) = int n"
  by (simp add: signed_of_nat signed_take_bit_int_eq_self)

text \<open>Giving back \<open>m\<close> of \<open>n\<close> references.\<close>

lemma release_many:
  assumes "iintf w = []" and "mapped p w" and "is_refcount (sync_at p w) = of_nat n" and "n < 2 ^ 31"
    and "m \<le> n" and "\<not> nc_userspace (ic_nt cfg)"
  shows "\<exists>w2. release_all cfg (replicate m p) w = Some w2 \<and>
    iclosed w2 = (if m = n \<and> 0 < m then iclosed w @ [is_fd (sync_at p w)] else iclosed w)"
  using assms
proof (induction m arbitrary: w n)
  case (Suc m)
  then obtain k where k: "n = Suc k" by (cases n) auto
  have r: "is_refcount (sync_at p w) - 1 = of_nat k" using Suc.prems(3) by (simp add: k)
  show ?case
  proof (cases "k = 0")
    case True
    then have "m = 0" using Suc.prems(5) k by simp
    then show ?thesis
      using release_last [OF Suc.prems(1), of p cfg] Suc.prems True by (simp add: k)
  next
    case False
    have "0 < sint (is_refcount (sync_at p w) - 1)"
      unfolding r using False Suc.prems(4) k by (subst sint_count) simp_all
    from release_quiet [OF Suc.prems(1) this]
    have rel: "release_inproc_sync cfg p w = Some (add_ref (- 1) p w)" .
    have "is_refcount (sync_at p (add_ref (- 1) p w)) = of_nat k" using Suc.prems(2) r by simp
    from Suc.IH [of "add_ref (- 1) p w" k] this Suc.prems k
    show ?thesis using False by (auto simp: rel)
  qed
qed simp

text \<open>
  Closing the handle of a cached object, undisturbed: from then on the handle is not found in the cache,
  so that the server is asked; the descriptor is closed at once exactly when no operation holds a
  reference, and otherwise when the last of the n references is given back, and only then.
\<close>
theorem inproc_close_hides_then_closes:
  assumes "iintf w = []" and "cached_at handle p w" and "0 \<le> ic_device_fd cfg" and "\<not> ic_do_fsync cfg"
    and "\<not> nc_userspace (ic_nt cfg)" and "is_refcount (sync_at p w) = 1 + of_nat n" and "n < 2 ^ 31 - 2"
  shows "\<exists>w1. close_inproc_sync cfg handle w = Some w1 \<and>
    get_cached_inproc_sync cfg handle w1 = Some (None, w1) \<and>
    iclosed w1 = (if n = 0 then iclosed w @ [is_fd (sync_at p w)] else iclosed w) \<and>
    (\<forall>m \<le> n. \<exists>w2. release_all cfg (replicate m p) w1 = Some w2 \<and>
      iclosed w2 = (if m = n then iclosed w @ [is_fd (sync_at p w)] else iclosed w))"
proof -
  obtain entry idx where p: "inproc_sync_handle_to_index handle = (entry, idx)" "p = PCache entry idx"
    and m: "mapped p w" using assms(2) by (auto simp: cached_at_def)
  let ?w = "closed_state cfg p w"
  have r: "is_refcount (sync_at p ?w) = of_nat n" using m assms(6) by simp
  have "get_cached_inproc_sync cfg handle ?w = Some (None, ?w)"
  proof (cases "n = 0")
    case True
    then show ?thesis using get_cached_miss [of ?w handle entry idx cfg] p r assms(1) by simp
  next
    case False
    have "sint (of_nat n :: i32) = int n" using assms(7) by (intro sint_count) simp
    then have "ref_ok (is_refcount (sync_at p ?w))"
      using False assms(7) unfolding r ref_ok_def by simp
    moreover have "is_closed (sync_at p ?w)" using m by simp
    ultimately show ?thesis using get_cached_closed [of ?w handle entry idx cfg] p m assms(1) by simp
  qed
  moreover have one: "is_refcount (sync_at p w) = 1 \<longleftrightarrow> n = 0"
  proof -
    have "unat (of_nat n :: i32) = n" using assms(7) by (intro of_nat_inverse [OF refl]) simp
    then show ?thesis using assms(6) by auto
  qed
  moreover have "\<exists>w2. release_all cfg (replicate k p) ?w = Some w2 \<and>
      iclosed w2 = (if k = n then iclosed w @ [is_fd (sync_at p w)] else iclosed w)" if k: "k \<le> n" for k
  proof -
    have "iintf ?w = []" "mapped p ?w" "n < 2 ^ 31" "is_fd (sync_at p ?w) = is_fd (sync_at p w)"
      using assms(1,7) m by simp_all
    from release_many [OF this(1,2) r this(3) k assms(5)] this(4)
    obtain w2 where "release_all cfg (replicate k p) ?w = Some w2"
      "iclosed w2 = (if k = n \<and> 0 < k then iclosed ?w @ [is_fd (sync_at p w)] else iclosed ?w)" by auto
    then show ?thesis using one assms(5) k by (cases "n = 0") auto
  qed
  ultimately show ?thesis
    using assms(5) close_cached [OF assms(1-4)] one by (intro exI [of _ ?w]) simp
qed

section \<open>Signal and wait\<close>

text \<open>The driver's objects after some descriptors were closed.\<close>

definition closes :: "'k icfg \<Rightarrow> int list \<Rightarrow> 'k \<Rightarrow> 'k" where
  "closes cfg cs k = fold (nt_close (nc_kernel (ic_nt cfg))) cs k"

lemma closes_closes: "closes cfg cs2 (closes cfg cs1 k) = closes cfg (cs1 @ cs2) k"
  by (simp add: closes_def)

lemma closes_Nil [simp]: "closes cfg [] k = k"
  by (simp add: closes_def)

lemma iinterfere_kobjs [simp]: "kobjs (iinterfere w) = kobjs w"
  by (simp add: iinterfere_def split: list.split)

lemma ref_kobjs [simp]:
  "kobjs (snd (ref_load p w)) = kobjs w" "kobjs (snd (ref_cas p a b w)) = kobjs w"
  "kobjs (snd (ref_xchg p v w)) = kobjs w" "kobjs (snd (ref_dec p w)) = kobjs w" "kobjs (ref_set p v w) = kobjs w"
  by (simp_all add: ref_load_def ref_cas_def ref_xchg_def ref_dec_def ref_set_def Let_def)

lemma inc_loop_kobjs: "inc_loop p val w = Some y \<Longrightarrow> kobjs (snd y) = kobjs w"
proof (rule inc_loop.raw_induct [where P = "\<lambda>p val w y. kobjs (snd y) = kobjs w", rotated])
  fix g :: "iptr \<Rightarrow> i32 \<Rightarrow> 'a iworld \<Rightarrow> (i32 \<times> 'a iworld) option" and p val w y
  assume IH: "\<And>p val w y. g p val w = Some y \<Longrightarrow> kobjs (snd y) = kobjs w"
    and step: "(if val = 0 then Some (val, w)
      else let (tmp, w1) = ref_cas p val (val + 1) w in if tmp = val then Some (val, w1) else g p tmp w1) = Some y"
  obtain tmp w1 where r: "ref_cas p val (val + 1) w = (tmp, w1)" by fastforce
  then have "kobjs w1 = kobjs w" using ref_kobjs(2) [of p val "val + 1" w] by simp
  then show "kobjs (snd y) = kobjs w" using step IH [of p tmp w1] by (auto simp: r split: if_splits)
qed

lemma inc_kobjs: "interlocked_inc_if_nonzero p w = Some (v, w') \<Longrightarrow> kobjs w' = kobjs w"
  using inc_loop_kobjs [of p "fst (ref_load p w)" "snd (ref_load p w)" "(v, w')"]
  by (simp add: interlocked_inc_if_nonzero_def case_prod_beta)

lemma release_kobjs: "release_inproc_sync cfg p w = Some w' \<Longrightarrow> \<exists>cs. kobjs w' = closes cfg cs (kobjs w)"
proof -
  assume r: "release_inproc_sync cfg p w = Some w'"
  have k: "kobjs (snd (ref_dec p w)) = kobjs w" by simp
  have "kobjs w' = closes cfg [] (kobjs w) \<or> kobjs w' = closes cfg [is_fd (sync_at p w)] (kobjs w)"
    using r k by (auto simp: release_inproc_sync_def case_prod_beta close_fd_def closes_def Let_def split: if_splits)
  then show ?thesis by blast
qed

lemma get_cached_kobjs:
  assumes "get_cached_inproc_sync cfg handle w = Some (r, w')"
  shows "\<exists>cs. kobjs w' = closes cfg cs (kobjs w)"
proof -
  obtain entry idx where h: "inproc_sync_handle_to_index handle = (entry, idx)" by fastforce
  show ?thesis
  proof (cases "INPROC_SYNC_CACHE_ENTRIES \<le> entry \<or> icache w entry = None")
    case True
    then show ?thesis using assms by (auto simp: get_cached_inproc_sync_def h intro: exI [of _ "[]"])
  next
    case False
    then obtain v w1 where i: "interlocked_inc_if_nonzero (PCache entry idx) w = Some (v, w1)"
      using assms by (auto simp: get_cached_inproc_sync_def h Let_def split: bind_splits)
    note k = inc_kobjs [OF i]
    show ?thesis
    proof (cases "v \<noteq> 0 \<and> is_closed (sync_at (PCache entry idx) (iinterfere w1))")
      case True
      then have "release_inproc_sync cfg (PCache entry idx) (iinterfere w1) = Some w'"
        using assms False i by (auto simp: get_cached_inproc_sync_def h Let_def simp del: sync_at.simps split: bind_splits)
      from release_kobjs [OF this] show ?thesis by (simp add: k)
    next
      case no: False
      then have "kobjs w' = kobjs w"
        using assms False i k by (auto simp: get_cached_inproc_sync_def h Let_def simp del: sync_at.simps split: if_splits)
      then show ?thesis by (intro exI [of _ "[]"]) simp
    qed
  qed
qed

lemma cache_kobjs:
  assumes "cache_inproc_sync cfg handle n w = Some (p, w')"
  shows "kobjs w' = kobjs w"
  using assms
  by (auto simp: cache_inproc_sync_def Let_def case_prod_beta simp del: sync_at.simps set_sync.simps split: if_splits)

lemma get_server_kobjs: "get_server_inproc_sync cfg handle n w = Some (st, w') \<Longrightarrow> kobjs w' = kobjs w"
  by (auto simp: get_server_inproc_sync_def simp del: set_sync.simps split: sum.splits prod.splits if_splits)

lemma get_inproc_kobjs:
  assumes "get_inproc_sync cfg handle type access n w = Some (r, w')"
  shows "\<exists>cs. kobjs w' = closes cfg cs (kobjs w)"
proof -
  let ?K = "\<lambda>x. \<exists>cs. kobjs x = closes cfg cs (kobjs w)"
  have step: "?K y" if "?K x" "\<exists>cs. kobjs y = closes cfg cs (kobjs x)" for x y
    using that by (auto simp: closes_closes)
  have same: "?K y" if "?K x" "kobjs y = kobjs x" for x y using that by simp
  have start: "?K w" by (rule exI [of _ "[]"]) simp
  obtain c1 w1 where c1: "get_cached_inproc_sync cfg handle w = Some (c1, w1)"
    using assms by (auto simp: get_inproc_sync_def split: bind_splits)
  have k1: "?K w1" by (rule get_cached_kobjs [OF c1])
  obtain found w4 where f: "(case c1 of
            Some p \<Rightarrow> Some (Inr p, w1)
          | None \<Rightarrow> do {
              (cached, w2) \<leftarrow> get_cached_inproc_sync cfg handle w1;
              case cached of
                Some p \<Rightarrow> Some (Inr p, w2)
              | None \<Rightarrow> do {
                  (ret, w3) \<leftarrow> get_server_inproc_sync cfg handle n w2;
                  if ret \<noteq> STATUS_SUCCESS then Some (Inl ret, w3)
                  else do { (p, w4) \<leftarrow> cache_inproc_sync cfg handle n w3; Some (Inr p, w4) }
                }
            }) = Some (found, w4)"
    using assms by (auto simp: get_inproc_sync_def c1 split: bind_splits)
  have k4: "?K w4"
  proof (cases c1)
    case (Some p)
    then show ?thesis using f k1 by simp
  next
    case None
    then obtain c2 w2 where c2: "get_cached_inproc_sync cfg handle w1 = Some (c2, w2)"
      using f by (auto split: bind_splits)
    have k2: "?K w2" by (rule step [OF k1 get_cached_kobjs [OF c2]])
    show ?thesis
    proof (cases c2)
      case (Some p)
      then show ?thesis using f None c2 k2 by simp
    next
      case n2: None
      then obtain ret w3 where s: "get_server_inproc_sync cfg handle n w2 = Some (ret, w3)"
        using f None c2 by (auto split: bind_splits)
      have k3: "?K w3" by (rule same [OF k2 get_server_kobjs [OF s]])
      show ?thesis
      proof (cases "ret = STATUS_SUCCESS")
        case True
        then obtain p where "cache_inproc_sync cfg handle n w3 = Some (p, w4)"
          using f None c2 n2 s by (auto split: bind_splits)
        then show ?thesis using same [OF k3] cache_kobjs by blast
      next
        case False
        then show ?thesis using f None c2 n2 s k3 by simp
      qed
    qed
  qed
  show ?thesis
    using assms k4 step [OF k4 release_kobjs]
    by (auto simp: get_inproc_sync_def c1 f split: sum.splits if_splits bind_splits)
qed

lemma get_inproc_fails:
  assumes "get_inproc_sync cfg handle type access n w = Some (Inl ret, w')"
  shows "ret \<noteq> STATUS_SUCCESS"
  using assms
  by (auto simp: get_inproc_sync_def split: bind_splits option.splits sum.splits if_splits prod.splits)

lemma alert_kobjs: "get_inproc_alert_fd cfg w = Some (fd, w') \<Longrightarrow> kobjs w' = kobjs w"
  by (auto simp: get_inproc_alert_fd_def split: if_splits option.splits prod.splits)

text \<open>
  What a part of signal-and-wait did to the driver's objects: nothing but closing descriptors, with a
  failure, or a signal and, if that succeeded, the wait whose status is returned.
\<close>

definition both_or_neither :: "'k icfg \<Rightarrow> u64 option \<Rightarrow> ntstatus \<Rightarrow> 'k \<Rightarrow> 'k \<Rightarrow> bool" where
  "both_or_neither cfg timeout ret k k' \<longleftrightarrow>
     (ret \<noteq> STATUS_SUCCESS \<and> (\<exists>cs. k' = closes cfg cs k)) \<or>
     (\<exists>sync fd alert cs1 cs2 st k1. signal_obj cfg sync (closes cfg cs1 k) = Some (st, k1) \<and>
       (st \<noteq> STATUS_SUCCESS \<and> ret = st \<and> k' = closes cfg cs2 k1 \<or>
        st = STATUS_SUCCESS \<and> (\<exists>k2. linux_wait_objs (ic_nt cfg) [fd] False alert timeout k1 = Some (ret, k2) \<and>
          k' = closes cfg cs2 k2)))"

lemma both_or_neither_closes:
  assumes "both_or_neither cfg timeout ret (closes cfg cs k) k1" and "k' = closes cfg cs' k1"
  shows "both_or_neither cfg timeout ret k k'"
proof -
  have k: "k1 = closes cfg cs2 k2 \<Longrightarrow> k' = closes cfg (cs2 @ cs') k2" for cs2 k2
    using assms(2) by (simp add: closes_closes)
  consider (fail) cs2 where "ret \<noteq> STATUS_SUCCESS" "k1 = closes cfg cs2 (closes cfg cs k)"
    | (signal) sync cs1 st k2 cs2 where "signal_obj cfg sync (closes cfg (cs @ cs1) k) = Some (st, k2)"
        "st \<noteq> STATUS_SUCCESS" "ret = st" "k1 = closes cfg cs2 k2"
    | (both) sync cs1 k2 fd alert k3 cs2 where "signal_obj cfg sync (closes cfg (cs @ cs1) k) = Some (STATUS_SUCCESS, k2)"
        "linux_wait_objs (ic_nt cfg) [fd] False alert timeout k2 = Some (ret, k3)" "k1 = closes cfg cs2 k3"
    using assms(1) unfolding both_or_neither_def closes_closes [of cfg _ cs] by blast
  then show ?thesis
  proof cases
    case fail
    then have "k' = closes cfg (cs @ cs2 @ cs') k" using k [OF fail(2)] by (simp add: closes_closes)
    then show ?thesis using fail(1) unfolding both_or_neither_def by blast
  next
    case signal
    then show ?thesis using k [OF signal(4)] unfolding both_or_neither_def by blast
  next
    case both
    then show ?thesis using k [OF both(3)] unfolding both_or_neither_def by blast
  qed
qed

lemma both_or_neither_fail: "ret \<noteq> STATUS_SUCCESS \<Longrightarrow> both_or_neither cfg timeout ret k k"
  unfolding both_or_neither_def by (intro disjI1) (auto intro: exI [of _ "[]"])

lemma signal_then_wait_objs:
  assumes "signal_then_wait cfg sp wp alertable timeout w2 = Some (ret, w6)"
  shows "both_or_neither cfg timeout ret (kobjs w2) (kobjs w6)"
proof -
  obtain st k1 where s: "signal_obj cfg (sync_at sp w2) (kobjs w2) = Some (st, k1)"
    using assms by (auto simp: signal_then_wait_def split: bind_splits)
  then have s0: "signal_obj cfg (sync_at sp w2) (closes cfg [] (kobjs w2)) = Some (st, k1)" by simp
  show ?thesis
  proof (cases "st = STATUS_SUCCESS")
    case False
    then have "ret = st" "release_inproc_sync cfg wp (w2\<lparr>kobjs := k1\<rparr>) = Some w6"
      using assms s by (auto simp: signal_then_wait_def Let_def split: bind_splits)
    moreover from release_kobjs [OF this(2)] obtain cs where "kobjs w6 = closes cfg cs k1" by auto
    ultimately show ?thesis unfolding both_or_neither_def using s0 False by blast
  next
    case True
    then obtain alert w4 where a: "(if alertable then get_inproc_alert_fd cfg (w2\<lparr>kobjs := k1\<rparr>) else Some (0, w2\<lparr>kobjs := k1\<rparr>)) = Some (alert, w4)"
      using assms s by (auto simp: signal_then_wait_def Let_def split: bind_splits)
    then have k4: "kobjs w4 = k1" using alert_kobjs [of cfg "w2\<lparr>kobjs := k1\<rparr>" alert w4] by (auto split: if_splits)
    obtain r k2 where l: "linux_wait_objs (ic_nt cfg) [is_fd (sync_at wp w4)] False alert timeout k1 = Some (r, k2)"
      using assms s a True k4 by (auto simp: signal_then_wait_def Let_def split: bind_splits)
    then have "r = ret" "release_inproc_sync cfg wp (w4\<lparr>kobjs := k2\<rparr>) = Some w6"
      using assms s a True k4 by (auto simp: signal_then_wait_def Let_def split: bind_splits)
    moreover from release_kobjs [OF this(2)] obtain cs where "kobjs w6 = closes cfg cs k2" by auto
    ultimately show ?thesis unfolding both_or_neither_def using s0 True l by blast
  qed
qed

lemma check_then_signal_objs:
  assumes "check_then_signal cfg sp wait alertable timeout w1 = Some (ret, w2)"
  shows "both_or_neither cfg timeout ret (kobjs w1) (kobjs w2)"
proof -
  obtain checked where c: "check_signal_access (sync_at sp w1) = Some checked"
    using assms by (auto simp: check_then_signal_def split: bind_splits)
  show ?thesis
  proof (cases "checked = STATUS_SUCCESS")
    case False
    then show ?thesis using assms c by (auto simp: check_then_signal_def intro: both_or_neither_fail)
  next
    case True
    then obtain r v where g: "get_inproc_sync cfg wait INPROC_SYNC_UNKNOWN SYNCHRONIZE 1 w1 = Some (r, v)"
      using assms c by (auto simp: check_then_signal_def split: bind_splits)
    obtain cs where k: "kobjs v = closes cfg cs (kobjs w1)" using get_inproc_kobjs [OF g] by blast
    have "both_or_neither cfg timeout ret (kobjs v) (kobjs w2)"
    proof (cases r)
      case (Inl st)
      then have "ret = st" "w2 = v" using assms c True g by (simp_all add: check_then_signal_def)
      then show ?thesis using get_inproc_fails g Inl by (blast intro: both_or_neither_fail)
    next
      case (Inr wp)
      then show ?thesis using assms c True g signal_then_wait_objs by (simp add: check_then_signal_def)
    qed
    then show ?thesis using both_or_neither_closes [of cfg timeout ret cs "kobjs w1" "kobjs w2" _ "[]"] k by simp
  qed
qed

text \<open>
  C28: Signal-and-wait does both of its parts or neither, whatever other threads do to the cache: either it
  fails before the driver was asked for anything but closing descriptors, or it signaled the object,
  and then it waited if and only if the signal succeeded, and it returns what the wait returned. In
  particular a handle that cannot be waited on is noticed before the signal.
\<close>
theorem inproc_signal_and_wait_both_or_neither:
  assumes "inproc_signal_and_wait cfg signal wait alertable timeout outs w = Some (ret, w')"
    and "\<not> ic_do_fsync cfg" and "0 \<le> ic_device_fd cfg"
  shows "(ret \<noteq> STATUS_SUCCESS \<and> (\<exists>cs. kobjs w' = closes cfg cs (kobjs w))) \<or>
    (\<exists>sync fd alert cs1 cs2 st k1. signal_obj cfg sync (closes cfg cs1 (kobjs w)) = Some (st, k1) \<and>
      (st \<noteq> STATUS_SUCCESS \<and> ret = st \<and> kobjs w' = closes cfg cs2 k1 \<or>
       st = STATUS_SUCCESS \<and> (\<exists>k2. linux_wait_objs (ic_nt cfg) [fd] False alert timeout k1 = Some (ret, k2) \<and>
         kobjs w' = closes cfg cs2 k2)))"
  unfolding both_or_neither_def [symmetric]
proof -
  obtain r w1 where g: "get_inproc_sync cfg signal INPROC_SYNC_UNKNOWN 0 0 w = Some (r, w1)"
    using assms by (auto simp: inproc_signal_and_wait_def split: bind_splits)
  obtain cs where k: "kobjs w1 = closes cfg cs (kobjs w)" using get_inproc_kobjs [OF g] by blast
  show "both_or_neither cfg timeout ret (kobjs w) (kobjs w')"
  proof (cases r)
    case (Inl st)
    then have "ret = st" "w' = w1" using assms g by (simp_all add: inproc_signal_and_wait_def)
    moreover have "st \<noteq> STATUS_SUCCESS" using get_inproc_fails g Inl by blast
    ultimately show ?thesis unfolding both_or_neither_def using k by blast
  next
    case (Inr sp)
    then obtain w2 where "check_then_signal cfg sp wait alertable timeout w1 = Some (ret, w2)"
        "release_inproc_sync cfg sp w2 = Some w'"
      using assms g by (auto simp: inproc_signal_and_wait_def split: bind_splits)
    then obtain cs' where "both_or_neither cfg timeout ret (kobjs w1) (kobjs w2)" "kobjs w' = closes cfg cs' (kobjs w2)"
      using check_then_signal_objs release_kobjs by blast
    then show ?thesis using both_or_neither_closes [of cfg timeout ret cs "kobjs w" "kobjs w2" "kobjs w'" cs'] k by simp
  qed
qed

section \<open>Examples\<close>

definition sample_isync :: "int \<Rightarrow> i32 \<Rightarrow> inproc_sync" where
  "sample_isync fd n = \<lparr>is_refcount = n, is_fd = fd, is_access = 0x100002, is_type = INPROC_SYNC_EVENT, is_closed = False\<rparr>"

text \<open>Two events under the handles 4 and 12, the second one signaled.\<close>

definition sample_iworld :: "(int \<Rightarrow> bool) iworld" where
  "sample_iworld = \<lparr>icache = [0 \<mapsto> (\<lambda>_. zero_sync)(0 := sample_isync 7 1, 2 := sample_isync 9 3)],
     istack = (\<lambda>_. zero_sync), iintf = [], kobjs = (\<lambda>fd. fd = 9), fsy = sample_client FSYNC_AUTO_EVENT (\<lambda>_. 0),
     ialert_fd = - 1, iclosed = []\<rparr>"

definition sample_icfg :: "(int \<Rightarrow> bool) icfg" where
  "sample_icfg = \<lparr>ic_nt = sample_ntcfg, ic_do_fsync = False, ic_fsync = sample_cfg, ic_device_fd = 3,
     ic_mmap_ok = (\<lambda>_. True), ic_srv_sync = (\<lambda>_. Inl STATUS_INVALID_HANDLE), ic_srv_alert = None\<rparr>"

lemma sample_icfg_sel [simp]: "0 \<le> ic_device_fd sample_icfg" "\<not> ic_do_fsync sample_icfg"
    "ic_nt sample_icfg = sample_ntcfg" "\<not> nc_userspace sample_ntcfg"
  by (simp_all add: sample_icfg_def sample_ntcfg_def)

lemma sample_handles: "inproc_sync_handle_to_index 4 = (0, 0)" "inproc_sync_handle_to_index 12 = (0, 2)"
  by (simp_all add: inproc_sync_handle_to_index_def drop_bit_eq_div Let_def)

lemma sample_icached: "cached_at 4 (PCache 0 0) sample_iworld" "cached_at 12 (PCache 0 2) sample_iworld"
  by (simp_all add: cached_at_def sample_handles sample_iworld_def sample_isync_def ref_ok_def)

lemma sample_quiet: "iintf sample_iworld = []"
  by (simp add: sample_iworld_def)

theorem inproc_cached_operations_witness:
  "inproc_set_event sample_icfg 4 sample_iworld = Some ((STATUS_SUCCESS, Some 0), sample_iworld\<lparr>kobjs := (\<lambda>fd. fd = 9)(7 := True)\<rparr>)"
proof -
  have "sync_at (PCache 0 0) sample_iworld = sample_isync 7 1" "kobjs sample_iworld = (\<lambda>fd. fd = 9)"
    by (simp_all add: sample_iworld_def)
  then show ?thesis
    using inproc_cached_operations [OF sample_quiet sample_icached(1) sample_icfg_sel(1,2), of 1]
    by (simp add: sample_isync_def linux_set_event_obj_def sample_ntcfg_def sample_ntapi_def)
qed

theorem inproc_close_hides_then_closes_witness:
  "\<exists>w1. close_inproc_sync sample_icfg 12 sample_iworld = Some w1 \<and> iclosed w1 = [] \<and>
    (\<exists>w2. release_all sample_icfg (replicate 2 (PCache 0 2)) w1 = Some w2 \<and> iclosed w2 = [9])"
proof -
  have "sync_at (PCache 0 2) sample_iworld = sample_isync 9 3" "iclosed sample_iworld = []"
    by (simp_all add: sample_iworld_def)
  then show ?thesis
    using inproc_close_hides_then_closes [OF sample_quiet sample_icached(2) sample_icfg_sel(1,2), of 2]
    by (auto simp: sample_isync_def simp del: sync_at.simps)
qed

theorem inproc_signal_and_wait_both_or_neither_witness:
  "\<exists>w'. inproc_signal_and_wait sample_icfg 4 12 False None [] sample_iworld = Some (STATUS_SUCCESS, w') \<and>
    (\<exists>sync cs1 st k1. signal_obj sample_icfg sync (closes sample_icfg cs1 (kobjs sample_iworld)) = Some (st, k1))"
proof -
  let ?p = "PCache 0 0" and ?q = "PCache 0 2"
  have s: "sync_at ?p sample_iworld = sample_isync 7 1" "sync_at ?q sample_iworld = sample_isync 9 3"
    and k: "kobjs sample_iworld = (\<lambda>fd. fd = 9)"
    by (simp_all add: sample_iworld_def)
  define w1 where "w1 = add_ref 1 ?p sample_iworld"
  have g1: "get_inproc_sync sample_icfg 4 INPROC_SYNC_UNKNOWN 0 0 sample_iworld = Some (Inr ?p, w1)"
    using get_inproc_hit [OF sample_quiet sample_icached(1)] by (simp add: w1_def)
  have "mapped ?p sample_iworld" using sample_icached(1) by (simp add: cached_at_def del: mapped.simps)
  then have s1: "sync_at ?p w1 = sample_isync 7 2" "sync_at ?q w1 = sample_isync 9 3" "iintf w1 = []" "kobjs w1 = (\<lambda>fd. fd = 9)"
    using s k sample_quiet by (simp_all add: w1_def sample_isync_def add_ref_def sync_at_other del: sync_at.simps set_sync.simps)
  have c8: "cached_at 12 ?q w1"
    using sample_icached(2) s s1(2) by (simp add: cached_at_def w1_def del: sync_at.simps mapped.simps)
  from get_inproc_hit [OF s1(3) c8]
  have g2: "get_inproc_sync sample_icfg 12 INPROC_SYNC_UNKNOWN SYNCHRONIZE 1 w1 = Some (Inr ?q, add_ref 1 ?q w1)"
    by (simp add: s1 sample_isync_def del: sync_at.simps)
  have c: "check_signal_access (sync_at ?p w1) = Some STATUS_SUCCESS"
    by (simp add: s1 check_signal_access_def sample_isync_def del: sync_at.simps)
  define k1 where "k1 = (\<lambda>fd :: int. fd = 9)(7 := True)"
  define k2 where "k2 = k1(9 := False)"
  have s2: "sync_at ?p (add_ref 1 ?q w1) = sample_isync 7 2" "kobjs (add_ref 1 ?q w1) = (\<lambda>fd. fd = 9)"
    by (simp_all add: add_ref_def sync_at_other s1 del: sync_at.simps set_sync.simps)
  have so: "signal_obj sample_icfg (sample_isync 7 2) (\<lambda>fd. fd = 9) = Some (STATUS_SUCCESS, k1)"
    by (simp add: signal_obj_def sample_isync_def linux_set_event_obj_def sample_ntcfg_def sample_ntapi_def k1_def)
  have "is_fd (sync_at ?q (add_ref 1 ?q w1)) = 9"
    using c8 by (simp add: cached_at_def s1 sample_isync_def del: sync_at.simps mapped.simps)
  moreover have "linux_wait_objs sample_ntcfg [9] False 0 None k1 = Some (STATUS_SUCCESS, k2)"
  proof -
    have "ioctl_wait sample_ntapi False (wait_args_of sample_ntcfg [9] 0 None) k1 = Some (Inr 0, k2)"
      by (subst ioctl_wait_uninterrupted) (simp_all add: sample_ntapi_def wait_args_of_def k1_def k2_def)
    then show ?thesis by (simp add: linux_wait_objs_def sample_ntcfg_def wait_result_def)
  qed
  moreover have "release_inproc_sync sample_icfg ?q ((add_ref 1 ?q w1)\<lparr>kobjs := k2\<rparr>) = Some (w1\<lparr>kobjs := k2\<rparr>)"
    by (rule release_added [OF s1(3) c8])
  ultimately have "signal_then_wait sample_icfg ?p ?q False None (add_ref 1 ?q w1) = Some (STATUS_SUCCESS, w1\<lparr>kobjs := k2\<rparr>)"
    unfolding signal_then_wait_def s2 so by (simp add: Let_def)
  moreover have "release_inproc_sync sample_icfg ?p (w1\<lparr>kobjs := k2\<rparr>) = Some (sample_iworld\<lparr>kobjs := k2\<rparr>)"
    unfolding w1_def by (rule release_added [OF sample_quiet sample_icached(1)])
  ultimately have run: "inproc_signal_and_wait sample_icfg 4 12 False None [] sample_iworld =
      Some (STATUS_SUCCESS, sample_iworld\<lparr>kobjs := k2\<rparr>)"
    unfolding inproc_signal_and_wait_def check_then_signal_def by (simp add: g1 g2 [unfolded One_nat_def] c not_less del: sync_at.simps)
  from inproc_signal_and_wait_both_or_neither [OF run] show ?thesis using run by auto
qed

end
