(* ===== verification/Inproc_Machine.thy ===== *)
theory Inproc_Machine
  imports Inproc_Refs
begin

text \<open>
  Any number of threads on one entry of the cache of in-process synchronization objects, as a state
  machine whose steps are the atomic accesses of \<open>get_cached_inproc_sync\<close>, \<open>release_inproc_sync\<close>,
  \<open>cache_inproc_sync\<close> and \<open>close_inproc_sync\<close>. Descriptors are numbered so that each received one is new.
\<close>

section \<open>The machine\<close>

datatype cpc =
    COut              \<comment> \<open>no reference\<close>
  | CGot nat          \<comment> \<open>counted, has not looked at \<open>closed\<close> yet\<close>
  | CUsing nat      \<comment> \<open>holds a reference; one that saw \<open>closed\<close> gives it back next\<close>
  | CHiding nat       \<comment> \<open>set \<open>closed\<close>; its own reference and the one of the handle to give back\<close>
  | CDropping nat     \<comment> \<open>has read the descriptor, about to count down\<close>
  | CClosing nat      \<comment> \<open>counted down to zero, about to close the descriptor\<close>
  | CStoring nat      \<comment> \<open>has written the fields, about to publish them\<close>

record slot =
  srefs :: nat
  sfd :: nat
  sclosed :: bool
  shandle :: bool          \<comment> \<open>the reference of the handle\<close>
  slocked :: bool          \<comment> \<open>\<open>fd_cache_mutex\<close> held for populating\<close>
  sfds :: "nat set"        \<comment> \<open>descriptors received so far\<close>
  sdone :: "nat list"      \<comment> \<open>descriptors closed, in order\<close>
  spcs :: "nat \<Rightarrow> cpc"

definition at_pc :: "nat \<Rightarrow> cpc \<Rightarrow> slot \<Rightarrow> slot" where
  "at_pc t pc s = s\<lparr>spcs := (spcs s)(t := pc)\<rparr>"

inductive slot_step :: "nat set \<Rightarrow> slot \<Rightarrow> slot \<Rightarrow> bool" for T where
  count: "t \<in> T \<Longrightarrow> spcs s t = COut \<Longrightarrow> 0 < srefs s \<Longrightarrow>
    slot_step T s (at_pc t (CGot (sfd s)) (s\<lparr>srefs := srefs s + 1\<rparr>))"
| look: "t \<in> T \<Longrightarrow> spcs s t = CGot f \<Longrightarrow> slot_step T s (at_pc t (CUsing f) s)"
| read_fd: "t \<in> T \<Longrightarrow> spcs s t = CUsing f \<Longrightarrow> slot_step T s (at_pc t (CDropping (sfd s)) s)"
| drop: "t \<in> T \<Longrightarrow> spcs s t = CDropping f \<Longrightarrow> 1 < srefs s \<Longrightarrow>
    slot_step T s (at_pc t COut (s\<lparr>srefs := srefs s - 1\<rparr>))"
| drop_last: "t \<in> T \<Longrightarrow> spcs s t = CDropping f \<Longrightarrow> srefs s = 1 \<Longrightarrow>
    slot_step T s (at_pc t (CClosing f) (s\<lparr>srefs := 0\<rparr>))"
| close: "t \<in> T \<Longrightarrow> spcs s t = CClosing f \<Longrightarrow> slot_step T s (at_pc t COut (s\<lparr>sdone := sdone s @ [f]\<rparr>))"
| hide: "t \<in> T \<Longrightarrow> spcs s t = CUsing f \<Longrightarrow> shandle s \<Longrightarrow> \<not> slocked s \<Longrightarrow>
    slot_step T s (at_pc t (CHiding f) (s\<lparr>sclosed := True, shandle := False\<rparr>))"
| drop_handle: "t \<in> T \<Longrightarrow> spcs s t = CHiding f \<Longrightarrow>
    slot_step T s (at_pc t (CUsing f) (s\<lparr>srefs := srefs s - 1\<rparr>))"
| store: "t \<in> T \<Longrightarrow> spcs s t = COut \<Longrightarrow> \<not> slocked s \<Longrightarrow> srefs s = 0 \<Longrightarrow> f \<notin> sfds s \<Longrightarrow>
    slot_step T s (at_pc t (CStoring f) (s\<lparr>slocked := True, sfd := f, sclosed := False, sfds := insert f (sfds s)\<rparr>))"
| publish: "t \<in> T \<Longrightarrow> spcs s t = CStoring f \<Longrightarrow>
    slot_step T s (at_pc t (CUsing f) (s\<lparr>srefs := 2, shandle := True, slocked := False\<rparr>))"

definition slot_start :: slot where
  "slot_start = \<lparr>srefs = 0, sfd = 0, sclosed = False, shandle = False, slocked = False, sfds = {}, sdone = [],
     spcs = (\<lambda>_. COut)\<rparr>"

inductive slot_reachable :: "nat set \<Rightarrow> slot \<Rightarrow> bool" for T where
  start: "slot_reachable T slot_start"
| step: "slot_reachable T s \<Longrightarrow> slot_step T s s' \<Longrightarrow> slot_reachable T s'"

section \<open>The invariant\<close>

fun pc_refs :: "cpc \<Rightarrow> nat" where
  "pc_refs (CGot f) = 1"
| "pc_refs (CUsing f) = 1"
| "pc_refs (CDropping f) = 1"
| "pc_refs (CHiding f) = 2"
| "pc_refs pc = 0"

text \<open>The descriptor a thread may still use or has yet to close.\<close>

fun pc_fd :: "cpc \<Rightarrow> nat option" where
  "pc_fd COut = None"
| "pc_fd (CGot f) = Some f"
| "pc_fd (CUsing f) = Some f"
| "pc_fd (CHiding f) = Some f"
| "pc_fd (CDropping f) = Some f"
| "pc_fd (CClosing f) = Some f"
| "pc_fd (CStoring f) = Some f"

text \<open>
  The count is the number of references; a thread with references knows the descriptor of the entry;
  the descriptors in the hands of threads are open; two threads that close, or one that closes and
  the entry in use, have different descriptors; no descriptor was closed twice or lost.
\<close>

definition refs_inv :: "nat set \<Rightarrow> slot \<Rightarrow> bool" where
  "refs_inv T s \<longleftrightarrow> srefs s = of_bool (shandle s) + (\<Sum>t \<in> T. pc_refs (spcs s t)) \<and> (\<forall>t. t \<notin> T \<longrightarrow> spcs s t = COut)"

definition pcs_inv :: "slot \<Rightarrow> bool" where
  "pcs_inv s \<longleftrightarrow>
     (\<forall>t f. pc_fd (spcs s t) = Some f \<longrightarrow> f \<in> sfds s \<and> f \<notin> set (sdone s)) \<and>
     (\<forall>t f. pc_fd (spcs s t) = Some f \<longrightarrow> spcs s t \<noteq> CClosing f \<longrightarrow> f = sfd s) \<and>
     (\<forall>t u f. spcs s t = CClosing f \<longrightarrow> pc_fd (spcs s u) = Some f \<longrightarrow> t = u)"

definition lock_inv :: "slot \<Rightarrow> bool" where
  "lock_inv s \<longleftrightarrow>
     (\<forall>t f. spcs s t = CStoring f \<longrightarrow> srefs s = 0 \<and> slocked s) \<and>
     (\<forall>t u f g. spcs s t = CStoring f \<longrightarrow> spcs s u = CStoring g \<longrightarrow> t = u) \<and>
     (slocked s \<longrightarrow> (\<exists>t f. spcs s t = CStoring f))"

definition fds_inv :: "slot \<Rightarrow> bool" where
  "fds_inv s \<longleftrightarrow>
     (0 < srefs s \<longrightarrow> sfd s \<in> sfds s \<and> sfd s \<notin> set (sdone s) \<and> (\<forall>t. spcs s t \<noteq> CClosing (sfd s))) \<and>
     distinct (sdone s) \<and> set (sdone s) \<subseteq> sfds s \<and>
     (\<forall>f \<in> sfds s. f \<in> set (sdone s) \<or> (f = sfd s \<and> (0 < srefs s \<or> slocked s)) \<or> (\<exists>t. spcs s t = CClosing f))"

definition slot_inv :: "nat set \<Rightarrow> slot \<Rightarrow> bool" where
  "slot_inv T s \<longleftrightarrow> refs_inv T s \<and> pcs_inv s \<and> lock_inv s \<and> fds_inv s"

lemma refs_upd:
  assumes "finite T" and "t \<in> T"
  shows "(\<Sum>u \<in> T. pc_refs ((pcs(t := pc)) u)) + pc_refs (pcs t) = (\<Sum>u \<in> T. pc_refs (pcs u)) + pc_refs pc"
proof -
  have "(\<Sum>u \<in> T. pc_refs ((pcs(t := pc)) u)) = pc_refs pc + (\<Sum>u \<in> T - {t}. pc_refs (pcs u))"
    using assms by (simp add: sum.remove)
  moreover have "(\<Sum>u \<in> T. pc_refs (pcs u)) = pc_refs (pcs t) + (\<Sum>u \<in> T - {t}. pc_refs (pcs u))"
    using assms by (simp add: sum.remove)
  ultimately show ?thesis by simp
qed

lemma at_pc_sel [simp]:
  "srefs (at_pc t pc s) = srefs s" "sfd (at_pc t pc s) = sfd s" "sclosed (at_pc t pc s) = sclosed s"
  "shandle (at_pc t pc s) = shandle s" "slocked (at_pc t pc s) = slocked s" "sfds (at_pc t pc s) = sfds s"
  "sdone (at_pc t pc s) = sdone s" "spcs (at_pc t pc s) = (spcs s)(t := pc)"
  by (simp_all add: at_pc_def)

text \<open>What the count says about threads with references.\<close>

lemma refs_of_thread:
  assumes "finite T" and "refs_inv T s" and "t \<in> T"
  shows "of_bool (shandle s) + pc_refs (spcs s t) \<le> srefs s"
    and "u \<noteq> t \<Longrightarrow> of_bool (shandle s) + pc_refs (spcs s t) + pc_refs (spcs s u) \<le> srefs s"
proof -
  have s: "srefs s = of_bool (shandle s) + pc_refs (spcs s t) + (\<Sum>v \<in> T - {t}. pc_refs (spcs s v))"
    using assms by (simp add: refs_inv_def sum.remove)
  then show "of_bool (shandle s) + pc_refs (spcs s t) \<le> srefs s" by simp
  show "of_bool (shandle s) + pc_refs (spcs s t) + pc_refs (spcs s u) \<le> srefs s" if "u \<noteq> t"
  proof (cases "u \<in> T")
    case True
    then have "pc_refs (spcs s u) \<le> (\<Sum>v \<in> T - {t}. pc_refs (spcs s v))"
      using assms(1) that by (intro member_le_sum) auto
    then show ?thesis using s by simp
  next
    case False
    then show ?thesis using assms(2) s by (simp add: refs_inv_def)
  qed
qed

lemma refs_inv_at:
  assumes "finite T" and "refs_inv T s" and "t \<in> T" and "spcs s' = (spcs s)(t := pc)"
    and "srefs s' + of_bool (shandle s) + pc_refs (spcs s t) = srefs s + of_bool (shandle s') + pc_refs pc"
  shows "refs_inv T s'"
  using refs_upd [OF assms(1,3), of "spcs s" pc] assms(2-) unfolding refs_inv_def by simp

lemma refs_inv_step:
  assumes "slot_step T s s'" and fin: "finite T" and "slot_inv T s"
  shows "refs_inv T s'"
proof -
  have r: "refs_inv T s" and l: "lock_inv s" using assms(3) by (simp_all add: slot_inv_def)
  note at = refs_inv_at [OF fin r] and one = refs_of_thread(1) [OF fin r]
  from assms(1) show ?thesis
  proof cases
    case (publish t f)
    then have z: "srefs s = 0" using l by (auto simp: lock_inv_def)
    then have "\<not> shandle s" using r by (auto simp: refs_inv_def)
    then show ?thesis using publish z by (intro at [of t _ "CUsing f"]) simp_all
  next
    case (drop_handle t f)
    then show ?thesis using one [of t] by (intro at [of t _ "CUsing f"]) simp_all
  next
    case (count t)
    then show ?thesis by (intro at [of t _ "CGot (sfd s)"]) simp_all
  next
    case (look t f)
    then show ?thesis by (intro at [of t _ "CUsing f"]) simp_all
  next
    case (read_fd t f)
    then show ?thesis by (intro at [of t _ "CDropping (sfd s)"]) simp_all
  next
    case (drop t f)
    then show ?thesis by (intro at [of t _ COut]) simp_all
  next
    case (drop_last t f)
    then show ?thesis by (intro at [of t _ "CClosing f"]) simp_all
  next
    case (close t f)
    then show ?thesis by (intro at [of t _ COut]) simp_all
  next
    case (hide t f)
    then show ?thesis by (intro at [of t _ "CHiding f"]) simp_all
  next
    case (store t f)
    then show ?thesis by (intro at [of t _ "CStoring f"]) simp_all
  qed
qed

text \<open>Threads with references and the other threads, when the last reference goes.\<close>

lemma pc_refs_0: "pc_refs pc = 0 \<longleftrightarrow> pc = COut \<or> (\<exists>f. pc = CClosing f \<or> pc = CStoring f)"
  by (cases pc) auto

lemma last_reference:
  assumes "finite T" and "refs_inv T s" and "t \<in> T" and "spcs s t = CDropping f" and "srefs s = 1" and "u \<noteq> t"
  shows "spcs s u = COut \<or> (\<exists>f. spcs s u = CClosing f \<or> spcs s u = CStoring f)"
  using refs_of_thread(2) [OF assms(1-3,6)] assms(4,5) by (simp add: pc_refs_0 [symmetric])

lemma no_reference:
  assumes "finite T" and "refs_inv T s" and "srefs s = 0"
  shows "spcs s u = COut \<or> (\<exists>f. spcs s u = CClosing f \<or> spcs s u = CStoring f)"
proof (cases "u \<in> T")
  case True
  then show ?thesis using refs_of_thread(1) [OF assms(1,2), of u] assms(3) by (simp add: pc_refs_0 [symmetric])
next
  case False
  then show ?thesis using assms(2) by (simp add: refs_inv_def)
qed

lemma lock_inv_step:
  assumes "slot_step T s s'" and "finite T" and "slot_inv T s"
  shows "lock_inv s'"
proof -
  have r: "refs_inv T s" and l: "lock_inv s" using assms(3) by (simp_all add: slot_inv_def)
  from assms(1) show ?thesis
  proof cases
    case (publish t f)
    then have "spcs s u \<noteq> CStoring g" if "u \<noteq> t" for u g using l that unfolding lock_inv_def by blast
    then show ?thesis using publish by (auto simp: lock_inv_def)
  next
    case (store t f)
    then show ?thesis using l by (auto simp: lock_inv_def)
  next
    case (count t)
    then have "\<not> (\<exists>u g. spcs s u = CStoring g)" using l unfolding lock_inv_def by force
    then show ?thesis using count l by (auto simp: lock_inv_def)
  next
    case (drop t f)
    then have "\<not> (\<exists>u g. spcs s u = CStoring g)" using l unfolding lock_inv_def by force
    then show ?thesis using drop l by (auto simp: lock_inv_def)
  next
    case (drop_last t f)
    then have "\<not> (\<exists>u g. spcs s u = CStoring g)" using l unfolding lock_inv_def by force
    then show ?thesis using drop_last l by (auto simp: lock_inv_def)
  next
    case (drop_handle t f)
    then have "\<not> (\<exists>u g. spcs s u = CStoring g)"
      using l refs_of_thread(1) [OF assms(2) r, of t] unfolding lock_inv_def by force
    then show ?thesis using drop_handle l by (auto simp: lock_inv_def)
  next
    case (look t f)
    then show ?thesis using l unfolding lock_inv_def by (auto; metis cpc.distinct)
  next
    case (read_fd t f)
    then show ?thesis using l unfolding lock_inv_def by (auto; metis cpc.distinct)
  next
    case (close t f)
    then show ?thesis using l unfolding lock_inv_def by (auto; metis cpc.distinct)
  next
    case (hide t f)
    then show ?thesis using l unfolding lock_inv_def by (auto; metis cpc.distinct)
  qed
qed

text \<open>A thread moves to another point with the same descriptor.\<close>

lemma pcs_inv_move:
  assumes "pcs_inv s" and "pc_fd (spcs s t) = Some f" and "pc_fd pc = Some f" and "\<forall>g. pc \<noteq> CClosing g"
    and "\<forall>g. spcs s t \<noteq> CClosing g"
    and "spcs s' = (spcs s)(t := pc)" and "sfd s' = sfd s" and "sfds s' = sfds s" and "sdone s' = sdone s"
  shows "pcs_inv s'"
proof -
  have f: "f \<in> sfds s" "f \<notin> set (sdone s)" "f = sfd s" "spcs s u \<noteq> CClosing f" for u
    using assms(1,2,5) unfolding pcs_inv_def by blast+
  show ?thesis
    using assms(1,3,4) f unfolding pcs_inv_def assms(6-9) fun_upd_apply by (auto split: if_splits)
qed

lemma pcs_inv_leave:
  assumes "pcs_inv s" and "spcs s' = (spcs s)(t := COut)" and "sfd s' = sfd s" and "sfds s' = sfds s" and "sdone s' = sdone s"
  shows "pcs_inv s'"
  using assms(1) unfolding pcs_inv_def assms(2-5) fun_upd_apply by (auto split: if_splits)

lemma pcs_inv_step:
  assumes "slot_step T s s'" and fin: "finite T" and "slot_inv T s"
  shows "pcs_inv s'"
proof -
  have r: "refs_inv T s" and p: "pcs_inv s" and l: "lock_inv s" and d: "fds_inv s"
    using assms(3) by (simp_all add: slot_inv_def)
  note move = pcs_inv_move [OF p] and leave = pcs_inv_leave [OF p]
  from assms(1) show ?thesis
  proof cases
    case (count t)
    then have "sfd s \<in> sfds s" "sfd s \<notin> set (sdone s)" "\<And>u. spcs s u \<noteq> CClosing (sfd s)" using d by (auto simp: fds_inv_def)
    then show ?thesis using count p unfolding pcs_inv_def by auto
  next
    case (look t f)
    then show ?thesis by (intro move [of t f "CUsing f"]) simp_all
  next
    case (read_fd t f)
    then have "pc_fd (spcs s t) = Some f" "spcs s t \<noteq> CClosing f" by simp_all
    then have "f = sfd s" using p unfolding pcs_inv_def by blast
    then show ?thesis using read_fd by (intro move [of t f "CDropping f"]) simp_all
  next
    case (drop t f)
    then show ?thesis by (intro leave [of _ t]) simp_all
  next
    case (drop_last t f)
    have "pc_fd (spcs s u) = Some f \<longrightarrow> u = t" for u
    proof (rule impI, rule ccontr)
      assume u: "pc_fd (spcs s u) = Some f" "u \<noteq> t"
      have "spcs s u = COut \<or> (\<exists>g. spcs s u = CClosing g \<or> spcs s u = CStoring g)"
        using last_reference [OF fin r] drop_last u(2) by blast
      moreover have "spcs s u \<noteq> CClosing f"
        using p drop_last u(2) unfolding pcs_inv_def by (metis pc_fd.simps(5))
      moreover have "spcs s u \<noteq> CStoring g" for g
        using l drop_last unfolding lock_inv_def by fastforce
      ultimately show False using u(1) by auto
    qed
    moreover have "f \<in> sfds s \<and> f \<notin> set (sdone s)"
      using p drop_last unfolding pcs_inv_def by (metis pc_fd.simps(5))
    ultimately show ?thesis using p drop_last unfolding pcs_inv_def by (auto split: if_splits)
  next
    case (close t f)
    then have "pc_fd (spcs s u) = Some f \<longrightarrow> u = t" for u using p unfolding pcs_inv_def by metis
    then show ?thesis using close p unfolding pcs_inv_def by (auto split: if_splits)
  next
    case (hide t f)
    then show ?thesis by (intro move [of t f "CHiding f"]) simp_all
  next
    case (drop_handle t f)
    then show ?thesis by (intro move [of t f "CUsing f"]) simp_all
  next
    case (store t f)
    then have out: "spcs s u = COut \<or> (\<exists>g. spcs s u = CClosing g)" for u
      using no_reference [OF fin r, of u] l by (auto simp: lock_inv_def)
    have old: "spcs s u = CClosing g \<and> g \<in> sfds s \<and> g \<notin> set (sdone s) \<and> g \<noteq> f" if u: "pc_fd (spcs s u) = Some g" for u g
    proof -
      have "spcs s u = CClosing g" using out [of u] u by auto
      moreover have "g \<in> sfds s" "g \<notin> set (sdone s)" using p u unfolding pcs_inv_def by blast+
      ultimately show ?thesis using store(6) by blast
    qed
    have fresh: "f \<notin> set (sdone s)" using d store by (auto simp: fds_inv_def)
    have uniq: "u = v" if "spcs s u = CClosing g" "pc_fd (spcs s v) = Some g" for u v g
      using p that unfolding pcs_inv_def by blast
    have s': "spcs s' = (spcs s)(t := CStoring f)" "sfd s' = f" "sfds s' = insert f (sfds s)" "sdone s' = sdone s"
      using store(1) by simp_all
    show ?thesis unfolding pcs_inv_def s' fun_upd_apply
    proof (intro conjI allI impI)
      fix u g assume "pc_fd (if u = t then CStoring f else spcs s u) = Some g"
      then show "g \<in> insert f (sfds s)" "g \<notin> set (sdone s)" using old [of u g] fresh by (auto split: if_splits)
    next
      fix u g assume "pc_fd (if u = t then CStoring f else spcs s u) = Some g"
        "(if u = t then CStoring f else spcs s u) \<noteq> CClosing g"
      then show "g = f" using old [of u g] by (auto split: if_splits)
    next
      fix u v g assume u: "(if u = t then CStoring f else spcs s u) = CClosing g"
        and v: "pc_fd (if v = t then CStoring f else spcs s v) = Some g"
      from u have u': "spcs s u = CClosing g" by (auto split: if_splits)
      then have "g \<noteq> f" using old [of u g] by simp
      then have "pc_fd (spcs s v) = Some g" using v by (auto split: if_splits)
      then show "u = v" using u' uniq by blast
    qed
  next
    case (publish t f)
    then show ?thesis by (intro move [of t f "CUsing f"]) simp_all
  qed
qed

lemma fds_inv_step:
  assumes "slot_step T s s'" and fin: "finite T" and "slot_inv T s"
  shows "fds_inv s'"
proof -
  have r: "refs_inv T s" and p: "pcs_inv s" and l: "lock_inv s" and d: "fds_inv s"
    using assms(3) by (simp_all add: slot_inv_def)
  have keep: "fds_inv s'" if "spcs s' = (spcs s)(t := pc)" "sfd s' = sfd s" "sfds s' = sfds s" "sdone s' = sdone s"
      "slocked s' = slocked s" "0 < srefs s" "0 < srefs s'" "\<forall>g. pc \<noteq> CClosing g" "\<forall>g. spcs s t \<noteq> CClosing g" for t pc
  proof -
    have cl: "spcs s' u = CClosing g \<longleftrightarrow> spcs s u = CClosing g" for u g using that(1,8,9) by auto
    show ?thesis using d that(2-7) unfolding fds_inv_def cl by auto
  qed
  have pos: "0 < srefs s" if "t \<in> T" "pc_refs (spcs s t) \<noteq> 0" for t
    using refs_of_thread(1) [OF fin r that(1)] that(2) by linarith
  from assms(1) show ?thesis
  proof cases
    case (count t)
    then show ?thesis by (intro keep [of t "CGot (sfd s)"]) simp_all
  next
    case (look t f)
    then show ?thesis using pos [of t] by (intro keep [of t "CUsing f"]) simp_all
  next
    case (read_fd t f)
    then show ?thesis using pos [of t] by (intro keep [of t "CDropping (sfd s)"]) simp_all
  next
    case (drop t f)
    then show ?thesis by (intro keep [of t COut]) simp_all
  next
    case (drop_last t f)
    then have f: "f = sfd s" using p unfolding pcs_inv_def by (metis cpc.simps pc_fd.simps(5))
    have other: "spcs s' u = CClosing g" if "spcs s u = CClosing g" for u g using drop_last that by auto
    have mine: "spcs s' t = CClosing f" using drop_last by simp
    have "g \<in> set (sdone s) \<or> (\<exists>u. spcs s' u = CClosing g)" if "g \<in> sfds s" for g
      using d that other mine f unfolding fds_inv_def by blast
    moreover have "srefs s' = 0" "sfds s' = sfds s" "sdone s' = sdone s" using drop_last by simp_all
    ultimately show ?thesis using d unfolding fds_inv_def by (simp, blast)
  next
    case (close t f)
    have f: "f \<in> sfds s" "f \<notin> set (sdone s)" using p close unfolding pcs_inv_def by (metis pc_fd.simps(6))+
    have "0 < srefs s \<longrightarrow> sfd s \<noteq> f" using d close unfolding fds_inv_def by blast
    moreover have s': "srefs s' = srefs s" "slocked s' = slocked s" "sfd s' = sfd s" "sfds s' = sfds s" "sdone s' = sdone s @ [f]"
      using close(1) by simp_all
    moreover have cl: "spcs s' u = CClosing g \<longleftrightarrow> spcs s u = CClosing g \<and> u \<noteq> t" for u g using close(1) by auto
    have "g \<in> set (sdone s') \<or> (g = sfd s' \<and> (0 < srefs s' \<or> slocked s')) \<or> (\<exists>u. spcs s' u = CClosing g)"
      if "g \<in> sfds s" for g
    proof (cases "g = f")
      case False
      then have "\<not> (spcs s t = CClosing g)" using close by simp
      then show ?thesis using d that unfolding fds_inv_def s' cl by (metis Un_iff set_append)
    qed (simp add: s')
    ultimately show ?thesis using d f unfolding fds_inv_def cl by simp
  next
    case (hide t f)
    then show ?thesis using pos [of t] by (intro keep [of t "CHiding f"]) simp_all
  next
    case (drop_handle t f)
    then show ?thesis using pos [of t] refs_of_thread(1) [OF fin r, of t] by (intro keep [of t "CUsing f"]) simp_all
  next
    case (store t f)
    then have s': "srefs s' = 0" "slocked s'" "sfd s' = f" "sfds s' = insert f (sfds s)" "sdone s' = sdone s" by simp_all
    have cl: "spcs s' u = CClosing g \<longleftrightarrow> spcs s u = CClosing g" for u g using store by auto
    show ?thesis using d store(4,5) s'(2) unfolding fds_inv_def s'(1,3-) cl by auto
  next
    case (publish t f)
    then have t: "pc_fd (spcs s t) = Some f" "spcs s t \<noteq> CClosing g" for g by simp_all
    have f: "f \<in> sfds s" "f \<notin> set (sdone s)" "f = sfd s" "\<And>u. spcs s u \<noteq> CClosing f"
      using p t unfolding pcs_inv_def by metis+
    have s': "srefs s' = 2" "sfd s' = sfd s" "sfds s' = sfds s" "sdone s' = sdone s" using publish by simp_all
    have cl: "spcs s' u = CClosing g \<longleftrightarrow> spcs s u = CClosing g" for u g using publish by auto
    show ?thesis using d f unfolding fds_inv_def s' cl by auto
  qed
qed

lemma slot_inv_step [inv_intros]: "slot_step T s s' \<Longrightarrow> finite T \<Longrightarrow> slot_inv T s \<Longrightarrow> slot_inv T s'"
  using refs_inv_step pcs_inv_step lock_inv_step fds_inv_step unfolding slot_inv_def [of T s'] by blast

lemma slot_reachable_inv: "slot_reachable T s \<Longrightarrow> finite T \<Longrightarrow> slot_inv T s"
proof (induction rule: slot_reachable.induct)
  case start
  then show ?case by (simp add: slot_inv_def refs_inv_def pcs_inv_def lock_inv_def fds_inv_def slot_start_def)
next
  case (step s s')
  then show ?case using slot_inv_step by blast
qed

section \<open>Properties\<close>

text \<open>Nobody holds a reference and nothing is in progress.\<close>

definition slot_idle :: "nat set \<Rightarrow> slot \<Rightarrow> bool" where
  "slot_idle T s \<longleftrightarrow> (\<forall>t \<in> T. spcs s t = COut) \<and> \<not> shandle s"

lemma slot_idle_closed:
  assumes "slot_inv T s" and "slot_idle T s"
  shows "sfds s = set (sdone s)"
proof -
  have out: "spcs s t = COut" for t using assms by (cases "t \<in> T") (auto simp: slot_inv_def refs_inv_def slot_idle_def)
  then have "srefs s = 0" using assms by (simp add: slot_inv_def refs_inv_def slot_idle_def)
  moreover have "\<not> slocked s" using assms(1) out by (simp add: slot_inv_def lock_inv_def)
  ultimately show ?thesis using assms(1) out by (auto simp: slot_inv_def fds_inv_def)
qed


text \<open>
  Thread 0 caches descriptor 5, thread 1 looks it up, thread 0 closes the handle and gives its
  reference back, and thread 1 closes the descriptor.
\<close>

definition sample_slot :: slot where
  "sample_slot = \<lparr>srefs = 0, sfd = 5, sclosed = True, shandle = False, slocked = False, sfds = {5}, sdone = [5],
     spcs = (\<lambda>_. COut)\<rparr>"

definition sample_slot_at :: "nat \<Rightarrow> bool \<Rightarrow> bool \<Rightarrow> cpc \<Rightarrow> cpc \<Rightarrow> slot" where
  "sample_slot_at n c h pc0 pc1 = \<lparr>srefs = n, sfd = 5, sclosed = c, shandle = h, slocked = False, sfds = {5}, sdone = [],
     spcs = (\<lambda>_. COut)(0 := pc0, 1 := pc1)\<rparr>"

lemma sample_slot_filled: "slot_reachable {0, 1} (sample_slot_at 2 False True (CUsing 5) COut)"
proof -
  note run = slot_reachable.step and st = slot_step.intros [of _ "{0, 1}"]
  from run [OF slot_reachable.start st(9) [of 0 _ 5]]
  have "slot_reachable {0, 1} (at_pc 0 (CStoring 5) (slot_start\<lparr>slocked := True, sfd := 5, sclosed := False, sfds := {5}\<rparr>))"
    (is "slot_reachable _ ?s") by (simp add: slot_start_def)
  from run [OF this st(10) [of 0 _ 5]]
  have "slot_reachable {0, 1} (at_pc 0 (CUsing 5) (?s\<lparr>srefs := 2, shandle := True, slocked := False\<rparr>))" by simp
  moreover have "at_pc 0 (CUsing 5) (?s\<lparr>srefs := 2, shandle := True, slocked := False\<rparr>) =
      sample_slot_at 2 False True (CUsing 5) COut"
    by (auto simp: at_pc_def slot_start_def sample_slot_at_def)
  ultimately show ?thesis by simp
qed

lemmas sample_slot_defs = sample_slot_at_def sample_slot_def at_pc_def fun_eq_iff

lemma slot_stepI: "slot_step T s s1 \<Longrightarrow> s1 = s' \<Longrightarrow> slot_reachable T s \<Longrightarrow> slot_reachable T s'"
  using slot_reachable.step by blast

lemma sample_slot_hidden: "slot_reachable {0, 1} (sample_slot_at 2 True False (CUsing 5) (CGot 5))"
proof -
  have "slot_reachable {0, 1} (sample_slot_at 3 False True (CUsing 5) (CGot 5))"
    by (rule slot_stepI [OF slot_step.count [of 1] _ sample_slot_filled]) (simp_all add: sample_slot_defs)
  then have "slot_reachable {0, 1} (sample_slot_at 3 True False (CHiding 5) (CGot 5))"
    by (rule slot_stepI [OF slot_step.hide [of 0 _ _ 5], rotated -1]) (simp_all add: sample_slot_defs)
  then show ?thesis
    by (rule slot_stepI [OF slot_step.drop_handle [of 0 _ _ 5], rotated -1]) (simp_all add: sample_slot_defs)
qed

lemma sample_slot_left: "slot_reachable {0, 1} (sample_slot_at 1 True False COut (CUsing 5))"
proof -
  have "slot_reachable {0, 1} (sample_slot_at 2 True False (CDropping 5) (CGot 5))"
    by (rule slot_stepI [OF slot_step.read_fd [of 0 _ _ 5] _ sample_slot_hidden]) (simp_all add: sample_slot_defs)
  then have "slot_reachable {0, 1} (sample_slot_at 1 True False COut (CGot 5))"
    by (rule slot_stepI [OF slot_step.drop [of 0 _ _ 5], rotated -1]) (simp_all add: sample_slot_defs)
  then show ?thesis
    by (rule slot_stepI [OF slot_step.look [of 1 _ _ 5], rotated -1]) (simp_all add: sample_slot_defs)
qed

lemma sample_slot_ends: "slot_reachable {0, 1} sample_slot"
proof -
  have "slot_reachable {0, 1} (sample_slot_at 1 True False COut (CDropping 5))"
    by (rule slot_stepI [OF slot_step.read_fd [of 1 _ _ 5] _ sample_slot_left]) (simp_all add: sample_slot_defs)
  then have "slot_reachable {0, 1} (sample_slot_at 0 True False COut (CClosing 5))"
    by (rule slot_stepI [OF slot_step.drop_last [of 1 _ _ 5], rotated -1]) (simp_all add: sample_slot_defs)
  then show ?thesis
    by (rule slot_stepI [OF slot_step.close [of 1 _ _ 5], rotated -1]) (simp_all add: sample_slot_defs)
qed


end
