(* ===== verification/Free_Ranges.thy ===== *)
theory Free_Ranges
  imports Prelude
begin

text \<open>
  dlls/ntdll/unix/virtual.c: the sequence of free address ranges that the allocator searches, kept in step
  with the views of the process. Ranges begin and end at multiples of 64 KiB while views are only
  page aligned. Addresses are natural numbers, with the wrap-around of pointer sums written out.
  A failed assert, or a read past the end of the sequence, is \<open>None\<close>.
\<close>

section \<open>Addresses\<close>

definition add64 :: "nat \<Rightarrow> nat \<Rightarrow> nat" where
  "add64 a b = (a + b) mod 2 ^ 64"

abbreviation (input) granularity_mask :: nat where "granularity_mask \<equiv> 0xffff"
abbreviation (input) page_mask :: nat where "page_mask \<equiv> 0xfff"

text \<open>\<open>ROUND_ADDR\<close>; masks are one less than a power of two.\<close>

definition round_addr :: "nat \<Rightarrow> nat \<Rightarrow> nat" where
  "round_addr addr m = addr div (m + 1) * (m + 1)"

section \<open>The sequence\<close>

record range_entry =
  r_base :: nat
  r_end :: nat

text \<open>The array of ranges shares its block with nothing else and holds this many entries.\<close>

abbreviation (input) max_ranges :: nat where "max_ranges \<equiv> 131072"

function lower_bound_loop :: "range_entry list \<Rightarrow> nat \<Rightarrow> nat \<Rightarrow> nat \<Rightarrow> nat" where
  "lower_bound_loop fr addr b e =
     (if b < e
      then let mid = b + (e - b) div 2
           in if r_end (fr ! mid) < addr then lower_bound_loop fr addr (mid + 1) e
              else lower_bound_loop fr addr b mid
      else b)"
  by pat_completeness auto
termination by (relation "measure (\<lambda>(fr, addr, b, e). e - b)") auto

declare lower_bound_loop.simps [simp del]

definition free_ranges_lower_bound :: "range_entry list \<Rightarrow> nat \<Rightarrow> nat" where
  "free_ranges_lower_bound fr addr = lower_bound_loop fr addr 0 (length fr)"

text \<open>The granules of a view: its base rounded down and its end rounded up.\<close>

definition granule_base :: "nat \<Rightarrow> nat" where
  "granule_base base = round_addr base granularity_mask"

definition granule_end :: "nat \<Rightarrow> nat \<Rightarrow> nat" where
  "granule_end base sz = round_addr (add64 (add64 base sz) granularity_mask) granularity_mask"

text \<open>A piece is cut out of a range, which it splits, shrinks or uses up.\<close>

definition carve_range :: "nat \<Rightarrow> nat \<Rightarrow> nat \<Rightarrow> range_entry list \<Rightarrow> range_entry list option" where
  "carve_range i view_base view_end fr =
     (let range = fr ! i
      in if \<not> (r_base range \<le> view_base \<and> view_end \<le> r_end range) then None
         else if r_base range < view_base \<and> view_end < r_end range
         then if max_ranges < length fr + 1 then None
              else Some (take i fr @ range\<lparr>r_end := view_base\<rparr> #
                         \<lparr>r_base = view_end, r_end = r_end range\<rparr> # drop (Suc i) fr)
         else let range' = (if r_base range < view_base then range\<lparr>r_end := view_base\<rparr>
                            else range\<lparr>r_base := view_end\<rparr>)
              in if r_base range' < r_end range' then Some (fr[i := range'])
                 else if length fr - 1 = 0 then None
                 else Some (take i fr @ drop (Suc i) fr))"

definition free_ranges_insert_view :: "nat \<Rightarrow> nat \<Rightarrow> range_entry list \<Rightarrow> range_entry list option" where
  "free_ranges_insert_view base sz fr =
     (let view_base = granule_base base; view_end = granule_end base sz;
          i = free_ranges_lower_bound fr view_base; range = fr ! i
      in if length fr \<le> i then None
         else if \<not> (view_base < r_end range \<or> Suc i \<noteq> length fr) then None
         else let view_base = (if view_base < r_base range then r_base range else view_base);
                  view_end = (if r_end range < view_end then r_end range else view_end)
              in if r_end range = view_base \<and> length fr \<le> Suc i then None
                 else let view_end = (if r_end range = view_base \<and> view_end \<le> r_base (fr ! Suc i) then view_base else view_end)
                      in if view_end \<le> view_base then Some fr
                         else carve_range i view_base view_end fr)"

text \<open>A piece is given back: it joins one or both of its neighbours or becomes a range of its own.\<close>

definition return_range :: "nat \<Rightarrow> nat \<Rightarrow> nat \<Rightarrow> range_entry list \<Rightarrow> range_entry list option" where
  "return_range i view_base view_end fr =
     (let range = fr ! i
      in if r_base range \<le> view_base \<and> view_end \<le> r_end range then Some fr
         else if \<not> (r_end range \<le> view_base \<or> view_end \<le> r_base range) then None
         else if r_end range = view_base \<and> length fr \<le> Suc i then None
         else if r_end range = view_base \<and> r_base (fr ! Suc i) = view_end
         then if length fr - 1 = 0 then None
              else Some (take i fr @ range\<lparr>r_end := r_end (fr ! Suc i)\<rparr> # drop (i + 2) fr)
         else if r_end range = view_base then Some (fr[i := range\<lparr>r_end := view_end\<rparr>])
         else if r_base range = view_end then Some (fr[i := range\<lparr>r_base := view_base\<rparr>])
         else if max_ranges < length fr + 1 then None
         else Some (take i fr @ \<lparr>r_base = view_base, r_end = view_end\<rparr> # drop i fr))"

text \<open>The neighbours of the view in the tree are given by base and size.\<close>

definition free_ranges_remove_view ::
  "(nat \<times> nat) option \<Rightarrow> (nat \<times> nat) option \<Rightarrow> nat \<Rightarrow> nat \<Rightarrow> range_entry list \<Rightarrow> range_entry list option" where
  "free_ranges_remove_view prev_view next_view base sz fr =
     (let view_base = granule_base base; view_end = granule_end base sz;
          i = free_ranges_lower_bound fr view_base;
          prev_base = (case prev_view of None \<Rightarrow> 0 | Some (b, s) \<Rightarrow> granule_base b);
          prev_end = (case prev_view of None \<Rightarrow> 0 | Some (b, s) \<Rightarrow> granule_end b s);
          next_base = (case next_view of None \<Rightarrow> 0 | Some (b, s) \<Rightarrow> granule_base b);
          next_end = (case next_view of None \<Rightarrow> 0 | Some (b, s) \<Rightarrow> granule_end b s);
          view_base = (if prev_end \<noteq> 0 \<and> view_base < prev_end \<and> prev_base < view_end then prev_end else view_base);
          view_end = (if next_base \<noteq> 0 \<and> next_base < view_end \<and> view_base < next_end then next_base else view_end)
      in if view_end \<le> view_base then Some fr
         else if length fr \<le> i then None
         else if \<not> (view_base < r_end (fr ! i) \<or> Suc i \<noteq> length fr) then None
         else return_range i view_base view_end fr)"

section \<open>Well-formed sequences\<close>

text \<open>Nonempty ranges in ascending order, with something between any two of them.\<close>

definition ranges_ok :: "range_entry list \<Rightarrow> bool" where
  "ranges_ok fr \<longleftrightarrow> (\<forall>x \<in> set fr. r_base x < r_end x) \<and> sorted_wrt (\<lambda>x y. r_end x < r_base y) fr"

definition free_set :: "range_entry list \<Rightarrow> nat set" where
  "free_set fr = (\<Union>x \<in> set fr. {r_base x..<r_end x})"

lemma free_set_simps [simp]:
  "free_set [] = {}" "free_set (x # fr) = {r_base x..<r_end x} \<union> free_set fr"
  "free_set (fr @ fr') = free_set fr \<union> free_set fr'"
  by (auto simp: free_set_def)

lemma ranges_ok_split:
  "ranges_ok (P @ S) \<longleftrightarrow> ranges_ok P \<and> ranges_ok S \<and> (\<forall>x \<in> set P. \<forall>y \<in> set S. r_end x < r_base y)"
  by (auto simp: ranges_ok_def sorted_wrt_append)

lemma ranges_ok_Cons:
  "ranges_ok (x # S) \<longleftrightarrow> r_base x < r_end x \<and> (\<forall>y \<in> set S. r_end x < r_base y) \<and> ranges_ok S"
  by (auto simp: ranges_ok_def)

lemma ranges_ok_Nil [simp]: "ranges_ok []"
  by (simp add: ranges_ok_def)

lemma ranges_ok_ends:
  assumes "ranges_ok fr" and "j < k" and "k < length fr"
  shows "r_end (fr ! j) < r_end (fr ! k)"
proof -
  have "r_end (fr ! j) < r_base (fr ! k)"
    using assms unfolding ranges_ok_def by (auto simp: sorted_wrt_iff_nth_less)
  moreover have "r_base (fr ! k) < r_end (fr ! k)" using assms by (auto simp: ranges_ok_def)
  ultimately show ?thesis by simp
qed

text \<open>The binary search returns the first range whose end is not below the address.\<close>

lemma lower_bound_loop:
  assumes "ranges_ok fr" and "b \<le> e" and "e \<le> length fr"
    and "\<forall>j < b. r_end (fr ! j) < addr" and "\<forall>j. e \<le> j \<and> j < length fr \<longrightarrow> addr \<le> r_end (fr ! j)"
  shows "b \<le> lower_bound_loop fr addr b e \<and> lower_bound_loop fr addr b e \<le> e \<and>
    (\<forall>j < lower_bound_loop fr addr b e. r_end (fr ! j) < addr) \<and>
    (\<forall>j. lower_bound_loop fr addr b e \<le> j \<and> j < length fr \<longrightarrow> addr \<le> r_end (fr ! j))"
  using assms
proof (induction fr addr b e rule: lower_bound_loop.induct)
  case (1 fr addr b e)
  show ?case
  proof (cases "b < e")
    case True
    define m where "m = b + (e - b) div 2"
    have m: "b \<le> m" "m < e" using True by (auto simp: m_def)
    show ?thesis
    proof (cases "r_end (fr ! m) < addr")
      case True
      have below: "\<forall>j < m + 1. r_end (fr ! j) < addr"
        using ranges_ok_ends [OF "1.prems"(1), of _ m] True m "1.prems"(3)
        by (metis less_antisym less_trans Suc_eq_plus1 order_less_le_trans)
      have eq: "lower_bound_loop fr addr b e = lower_bound_loop fr addr (m + 1) e"
        using \<open>b < e\<close> True by (subst lower_bound_loop.simps) (simp add: m_def [symmetric] Let_def)
      have "m + 1 \<le> e" using m by simp
      from "1.IH"(1) [OF \<open>b < e\<close> m_def True "1.prems"(1) this "1.prems"(3) below "1.prems"(5)]
      show ?thesis unfolding eq using m(1) by (intro conjI) (elim conjE, linarith, blast+)
    next
      case False
      have above: "\<forall>j. m \<le> j \<and> j < length fr \<longrightarrow> addr \<le> r_end (fr ! j)"
        using ranges_ok_ends [OF "1.prems"(1), of m] False by (metis le_less linorder_not_less order.trans)
      have eq: "lower_bound_loop fr addr b e = lower_bound_loop fr addr b m"
        using \<open>b < e\<close> False by (subst lower_bound_loop.simps) (simp add: m_def [symmetric] Let_def)
      have "m \<le> length fr" using m "1.prems"(3) by simp
      from "1.IH"(2) [OF \<open>b < e\<close> m_def False "1.prems"(1) m(1) this "1.prems"(4) above]
      show ?thesis unfolding eq using m(2) by (intro conjI) (blast, elim conjE, linarith, blast+)
    qed
  next
    case False
    then have "lower_bound_loop fr addr b e = b" by (subst lower_bound_loop.simps) simp
    then show ?thesis using "1.prems" False by simp
  qed
qed

text \<open>The sequence around the range that the search finds.\<close>

lemma lower_bound_split:
  assumes "ranges_ok fr" and "\<exists>x \<in> set fr. addr \<le> r_end x"
  obtains P x S where "fr = P @ x # S" "free_ranges_lower_bound fr addr = length P"
    "\<forall>y \<in> set P. r_end y < addr" "addr \<le> r_end x"
proof -
  define i where "i = free_ranges_lower_bound fr addr"
  have i: "i \<le> length fr" "\<forall>j < i. r_end (fr ! j) < addr" "\<forall>j. i \<le> j \<and> j < length fr \<longrightarrow> addr \<le> r_end (fr ! j)"
    using lower_bound_loop [OF assms(1), of 0 "length fr" addr] by (auto simp: i_def free_ranges_lower_bound_def)
  have "i < length fr"
  proof (rule ccontr)
    assume "\<not> i < length fr"
    then have "\<forall>y \<in> set fr. r_end y < addr" using i(1,2) by (auto simp: in_set_conv_nth)
    then show False using assms(2) by auto
  qed
  show thesis
  proof (rule that)
    show "fr = take i fr @ fr ! i # drop (Suc i) fr" by (rule id_take_nth_drop) fact
    show "free_ranges_lower_bound fr addr = length (take i fr)" using i(1) by (simp add: i_def)
    show "\<forall>y \<in> set (take i fr). r_end y < addr" using i(1,2) by (auto simp: in_set_conv_nth)
    show "addr \<le> r_end (fr ! i)" using i(3) \<open>i < length fr\<close> by simp
  qed
qed

section \<open>Taking and giving back a view\<close>

lemma split_sel [simp]:
  "(P @ x # S) ! length P = x" "take (length P) (P @ x # S) = P" "drop (Suc (length P)) (P @ x # S) = S"
  "(P @ x # S)[length P := y] = P @ y # S" "drop (length P) (P @ x # S) = x # S"
  by (auto simp: drop_Cons' list_update_append)

lemma split_next [simp]: "(P @ x # y # S) ! Suc (length P) = y" "drop (Suc (Suc (length P))) (P @ x # y # S) = S"
  by (auto simp: nth_append)

lemma carve_range_spec:
  assumes ok: "ranges_ok (P @ x # S)" and len: "length (P @ x # S) < max_ranges"
    and vb: "r_base x \<le> vb" and mid: "vb < ve" and ve: "ve \<le> r_end x" and top: "P @ S \<noteq> [] \<or> ve < r_end x"
  shows "\<exists>fr'. carve_range (length P) vb ve (P @ x # S) = Some fr' \<and> ranges_ok fr' \<and>
    free_set fr' = free_set P \<union> {r_base x..<vb} \<union> {ve..<r_end x} \<union> free_set S \<and> length fr' \<le> length P + length S + 2"
proof -
  have ne: "r_base x < r_end x" and S: "\<forall>y \<in> set S. r_end x < r_base y" and okP: "ranges_ok P" and okS: "ranges_ok S"
    and PS: "\<forall>y \<in> set P. \<forall>z \<in> set S. r_end y < r_base z" and Px: "\<forall>y \<in> set P. r_end y < r_base x"
    using ok unfolding ranges_ok_split ranges_ok_Cons by auto
  consider (split) "r_base x < vb" "ve < r_end x" | (front) "r_base x < vb" "ve = r_end x"
    | (rear) "r_base x = vb" "ve < r_end x" | (all) "r_base x = vb" "ve = r_end x"
    using vb ve by linarith
  then show ?thesis
  proof cases
    case split
    let ?fr = "P @ x\<lparr>r_end := vb\<rparr> # \<lparr>r_base = ve, r_end = r_end x\<rparr> # S"
    have "carve_range (length P) vb ve (P @ x # S) = Some ?fr"
      using split mid len by (simp add: carve_range_def)
    moreover have "ranges_ok ?fr" using okP okS S PS Px split mid unfolding ranges_ok_split ranges_ok_Cons by auto
    ultimately show ?thesis by (intro exI [of _ ?fr]) auto
  next
    case front
    let ?fr = "P @ x\<lparr>r_end := vb\<rparr> # S"
    have "carve_range (length P) vb ve (P @ x # S) = Some ?fr"
      using front mid by (simp add: carve_range_def)
    moreover have "ranges_ok ?fr" using okP okS S PS Px front mid unfolding ranges_ok_split ranges_ok_Cons by auto
    ultimately show ?thesis using front by (intro exI [of _ ?fr]) auto
  next
    case rear
    let ?fr = "P @ x\<lparr>r_base := ve\<rparr> # S"
    have "carve_range (length P) vb ve (P @ x # S) = Some ?fr"
      using rear mid by (simp add: carve_range_def)
    moreover have "ranges_ok ?fr" using okP okS S PS Px rear mid unfolding ranges_ok_split ranges_ok_Cons by auto
    ultimately show ?thesis using rear by (intro exI [of _ ?fr]) auto
  next
    case all
    have "carve_range (length P) vb ve (P @ x # S) = Some (P @ S)"
      using all mid top by (auto simp: carve_range_def)
    moreover have "ranges_ok (P @ S)" using okP okS PS unfolding ranges_ok_split by blast
    ultimately show ?thesis using all by (intro exI [of _ "P @ S"]) auto
  qed
qed

text \<open>
  A view can be taken when the free part of its granules is one piece that begins with the first
  granule, or when the granule below is not free.
\<close>

lemma insert_view_spec:
  assumes ok: "ranges_ok fr" and len: "length fr < max_ranges"
    and vb: "vb = granule_base base" and ve: "ve = granule_end base sz" and less: "vb < ve"
    and top: "\<exists>x \<in> set fr. ve < r_end x"
    and piece: "free_set fr \<inter> {vb..<ve} = {a..<b}"
    and start: "vb \<in> free_set fr \<or> vb = 0 \<or> vb - 1 \<notin> free_set fr \<or> free_set fr \<inter> {vb..<ve} = {}"
  shows "\<exists>fr'. free_ranges_insert_view base sz fr = Some fr' \<and> ranges_ok fr' \<and>
    free_set fr' = free_set fr - {vb..<ve} \<and> length fr' \<le> length fr + 1"
proof -
  have "\<exists>x \<in> set fr. vb \<le> r_end x" using top less by (meson less_imp_le less_trans)
  then obtain P x S where fr: "fr = P @ x # S" and i: "free_ranges_lower_bound fr vb = length P"
      and P: "\<forall>y \<in> set P. r_end y < vb" and x: "vb \<le> r_end x"
    by (rule lower_bound_split [OF ok])
  have ne: "r_base x < r_end x" and S: "\<forall>y \<in> set S. r_end x < r_base y" and okP: "ranges_ok P" and okS: "ranges_ok S"
    and PS: "\<forall>y \<in> set P. \<forall>z \<in> set S. r_end y < r_base z" and Px: "\<forall>y \<in> set P. r_end y < r_base x"
    using ok unfolding fr ranges_ok_split ranges_ok_Cons by auto
  have Pf: "v \<notin> free_set P" if "vb \<le> v + 1" for v using P that by (fastforce simp: free_set_def)
  have Sf: "v \<notin> free_set S" if "v \<le> r_end x" for v using S that by (fastforce simp: free_set_def)
  note def = free_ranges_insert_view_def [of base sz fr, folded vb ve, unfolded i Let_def]
  show ?thesis
  proof (cases "r_end x = vb")
    case True
    then have "S \<noteq> []" using top P less unfolding fr by auto
    then obtain y S' where S': "S = y # S'" by (cases S) auto
    have "vb \<noteq> 0" "vb - 1 \<in> free_set fr" using True ne unfolding fr by auto
    moreover have "vb \<notin> free_set fr" using Pf [of vb] Sf [of vb] True unfolding fr by auto
    ultimately have "free_set fr \<inter> {vb..<ve} = {}" using start by blast
    then have "free_set fr - {vb..<ve} = free_set fr" by blast
    moreover have "free_ranges_insert_view base sz fr = Some fr"
      unfolding def unfolding fr S' using True ne less by simp
    ultimately show ?thesis using ok by auto
  next
    case False
    define vb1 where "vb1 = max vb (r_base x)"
    define ve1 where "ve1 = min (r_end x) ve"
    have b1: "(if vb < r_base x then r_base x else vb) = vb1" and e1: "(if r_end x < ve then r_end x else ve) = ve1"
      by (auto simp: vb1_def ve1_def)
    have nb: "r_end x \<noteq> vb1" "vb < r_end x" using False x ne by (auto simp: vb1_def)
    have step: "free_ranges_insert_view base sz fr = (if ve1 \<le> vb1 then Some fr else carve_range (length P) vb1 ve1 fr)"
      unfolding def unfolding fr split_sel b1 e1 using nb by simp
    show ?thesis
    proof (cases "ve1 \<le> vb1")
      case True
      then have "ve \<le> r_base x" using nb ne less by (auto simp: vb1_def ve1_def)
      then have "free_set fr - {vb..<ve} = free_set fr"
        using Pf Sf ne unfolding fr by (fastforce simp: free_set_def)
      then show ?thesis using ok True step by auto
    next
      case False
      then have mid: "vb1 < ve1" by simp
      have nextend: "r_end x \<notin> free_set fr" using Pf [of "r_end x"] Sf [of "r_end x"] nb unfolding fr by auto
      have Sv: "free_set S \<inter> {vb..<ve} = {}"
      proof (rule ccontr)
        assume "free_set S \<inter> {vb..<ve} \<noteq> {}"
        then obtain v where v: "v \<in> free_set S" "vb \<le> v" "v < ve" by auto
        then have "r_end x < v" using Sf [of v] by (cases "v \<le> r_end x") auto
        moreover have "vb1 \<in> {a..<b}" using mid nb unfolding piece [symmetric] fr by (auto simp: vb1_def ve1_def)
        moreover have "v \<in> {a..<b}" using v unfolding piece [symmetric] fr by simp
        ultimately have "r_end x \<in> {a..<b}" using mid by (auto simp: ve1_def)
        then show False using nextend unfolding piece [symmetric] by simp
      qed
      have "free_set fr - {vb..<ve} = free_set P \<union> {r_base x..<vb1} \<union> {ve1..<r_end x} \<union> free_set S"
        using Sv Pf mid unfolding fr by (auto simp: vb1_def ve1_def)
      moreover have "P @ S \<noteq> [] \<or> ve1 < r_end x" using top unfolding fr by (auto simp: ve1_def)
      moreover have "r_base x \<le> vb1" "ve1 \<le> r_end x" by (auto simp: vb1_def ve1_def)
      ultimately show ?thesis
        using carve_range_spec [of P x S vb1 ve1] ok len mid step unfolding fr by auto
    qed
  qed
qed

text \<open>The piece that becomes free, found from the range around the base of the view.\<close>

lemma return_range_spec:
  assumes ok: "ranges_ok fr" and len: "length fr < max_ranges"
    and i: "i = free_ranges_lower_bound fr vb0" and vb0: "vb0 \<le> vb" and less: "vb < ve"
    and top: "\<exists>x \<in> set fr. ve < r_end x"
    and used: "free_set fr \<inter> {vb0..<ve} = {}"
    and start: "vb = vb0 \<or> vb0 = 0 \<or> vb0 - 1 \<notin> free_set fr"
  shows "i < length fr" and "vb < r_end (fr ! i) \<or> Suc i \<noteq> length fr"
    and "\<exists>fr'. return_range i vb ve fr = Some fr' \<and> ranges_ok fr' \<and>
      free_set fr' = free_set fr \<union> {vb..<ve} \<and> length fr' \<le> length fr + 1"
proof -
  have "\<exists>x \<in> set fr. vb0 \<le> r_end x" using top less vb0 by (meson less_imp_le le_trans less_trans)
  then obtain P x S where fr: "fr = P @ x # S" and iP: "free_ranges_lower_bound fr vb0 = length P"
      and P: "\<forall>y \<in> set P. r_end y < vb0" and x: "vb0 \<le> r_end x"
    by (rule lower_bound_split [OF ok])
  have ne: "r_base x < r_end x" and S: "\<forall>y \<in> set S. r_end x < r_base y" and okP: "ranges_ok P" and okS: "ranges_ok S"
    and PS: "\<forall>y \<in> set P. \<forall>z \<in> set S. r_end y < r_base z" and Px: "\<forall>y \<in> set P. r_end y < r_base x"
    using ok unfolding fr ranges_ok_split ranges_ok_Cons by auto
  show il: "i < length fr" using i iP unfolding fr by simp
  show "vb < r_end (fr ! i) \<or> Suc i \<noteq> length fr"
    using i iP top P vb0 less unfolding fr by fastforce
  show "\<exists>fr'. return_range i vb ve fr = Some fr' \<and> ranges_ok fr' \<and>
      free_set fr' = free_set fr \<union> {vb..<ve} \<and> length fr' \<le> length fr + 1"
  proof (cases "r_end x = vb0")
    case True
    have "vb0 \<noteq> 0" "vb0 - 1 \<in> free_set fr" using True ne unfolding fr by auto
    then have vb: "vb = vb0" using start by blast
    have "S \<noteq> []" using top P True vb0 less unfolding fr by fastforce
    then obtain y S' where S': "S = y # S'" by (cases S) auto
    have y: "r_base y < r_end y" "\<forall>z \<in> set S'. r_end y < r_base z" "ranges_ok S'"
      using okS unfolding S' ranges_ok_Cons by auto
    have yb: "ve \<le> r_base y"
    proof (rule ccontr)
      assume "\<not> ve \<le> r_base y"
      then have "r_base y \<in> {vb0..<ve}" using S True unfolding S' by auto
      moreover have "r_base y \<in> free_set fr" using y(1) unfolding fr S' by auto
      ultimately show False using used by blast
    qed
    have base: "r_base x < vb" using ne True vb by simp
    show ?thesis
    proof (cases "r_base y = ve")
      case eq: True
      let ?fr = "P @ x\<lparr>r_end := r_end y\<rparr> # S'"
      have "return_range i vb ve fr = Some ?fr"
        using True vb base less eq unfolding i iP unfolding fr S' by (simp add: return_range_def)
      moreover have "ranges_ok ?fr"
        using okP Px PS y ne S eq less True vb unfolding S' ranges_ok_split ranges_ok_Cons by fastforce
      moreover have "free_set ?fr = free_set fr \<union> {vb..<ve}"
        using base less eq y(1) True vb unfolding fr S' by auto
      ultimately show ?thesis unfolding fr S' by (intro exI [of _ ?fr]) simp
    next
      case False
      let ?fr = "P @ x\<lparr>r_end := ve\<rparr> # S"
      have "return_range i vb ve fr = Some ?fr"
        using True vb base less False unfolding i iP unfolding fr S' by (simp add: return_range_def)
      moreover have "ranges_ok ?fr"
        using okP okS Px PS yb y False base less unfolding S' ranges_ok_split ranges_ok_Cons by fastforce
      moreover have "free_set ?fr = free_set fr \<union> {vb..<ve}"
        using base less True vb unfolding fr by auto
      ultimately show ?thesis unfolding fr by (intro exI [of _ ?fr]) simp
    qed
  next
    case False
    have xb: "ve \<le> r_base x"
    proof (rule ccontr)
      assume "\<not> ve \<le> r_base x"
      then have "max vb0 (r_base x) \<in> {vb0..<ve}" using vb0 less by auto
      moreover have "max vb0 (r_base x) \<in> free_set fr" using ne x False unfolding fr by auto
      ultimately show False using used by blast
    qed
    have Pvb: "\<forall>y \<in> set P. r_end y < vb" using P vb0 by auto
    show ?thesis
    proof (cases "r_base x = ve")
      case True
      let ?fr = "P @ x\<lparr>r_base := vb\<rparr> # S"
      have "return_range i vb ve fr = Some ?fr"
        using True less ne unfolding i iP unfolding fr by (simp add: return_range_def)
      moreover have "ranges_ok ?fr"
        using okP okS Pvb PS S ne True less unfolding ranges_ok_split ranges_ok_Cons by auto
      moreover have "free_set ?fr = free_set fr \<union> {vb..<ve}"
        using True less ne unfolding fr by auto
      ultimately show ?thesis unfolding fr by (intro exI [of _ ?fr]) simp
    next
      case False
      let ?fr = "P @ \<lparr>r_base = vb, r_end = ve\<rparr> # x # S"
      have "return_range i vb ve fr = Some ?fr"
        using False less ne xb len unfolding i iP unfolding fr by (simp add: return_range_def)
      moreover have "ranges_ok ?fr"
        using okP okS Pvb PS Px S ne False xb less unfolding ranges_ok_split ranges_ok_Cons by fastforce
      moreover have "free_set ?fr = free_set fr \<union> {vb..<ve}"
        using less unfolding fr by auto
      ultimately show ?thesis unfolding fr by (intro exI [of _ ?fr]) simp
    qed
  qed
qed

end
