(* ===== verification/View_Ranges.thy ===== *)
theory View_Ranges
  imports Free_Ranges
begin

text \<open>
  The free ranges follow the views: for views in ascending order that do not overlap, the sequence after
  a view was added or removed is again the complement of the granules of the views.
\<close>

section \<open>Views and granules\<close>

type_synonym span = "nat \<times> nat"

definition granules :: "span \<Rightarrow> nat set" where
  "granules v = {granule_base (fst v)..<granule_end (fst v) (snd v)}"

text \<open>Only the first view may use the low 64 KiB (the DOS area), and none comes near the end of the space.\<close>

definition spans_ok :: "span list \<Rightarrow> bool" where
  "spans_ok vs \<longleftrightarrow> (\<forall>(b, s) \<in> set vs. 0 < s \<and> b + s + 0x20000 \<le> 2 ^ 64) \<and>
     sorted_wrt (\<lambda>(b, s) (b', s'). b + s \<le> b' \<and> 0x10000 \<le> b') vs"

definition ranges_track :: "span list \<Rightarrow> range_entry list \<Rightarrow> bool" where
  "ranges_track vs fr \<longleftrightarrow> ranges_ok fr \<and> free_set fr = {0..<2 ^ 64 - 1} - (\<Union>v \<in> set vs. granules v)"

text \<open>
  A view begins cleanly among others when none below it reaches into its first granule, as is the case
  when it begins at a multiple of 64 KiB, or when the granule below that is in use.
\<close>

definition clean_start :: "span list \<Rightarrow> nat \<Rightarrow> bool" where
  "clean_start vs b \<longleftrightarrow> (\<forall>(b', s') \<in> set vs. b' < b \<longrightarrow> granule_end b' s' \<le> granule_base b) \<or>
     granule_base b = 0 \<or> granule_base b - 1 \<in> (\<Union>v \<in> set vs. granules v)"

lemma granule_base_le: "granule_base b \<le> b" "b < granule_base b + 0x10000" "0x10000 dvd granule_base b"
  unfolding granule_base_def round_addr_def by (simp_all add: div_times_less_eq_dividend)

lemma granule_end_le:
  assumes "b + s + 0x20000 \<le> 2 ^ 64"
  shows "b + s \<le> granule_end b s" "granule_end b s < b + s + 0x10000" "0x10000 dvd granule_end b s"
proof -
  have "granule_end b s = (b + s + 0xffff) div 0x10000 * 0x10000"
    using assms by (simp add: granule_end_def add64_def round_addr_def)
  then show "b + s \<le> granule_end b s" "granule_end b s < b + s + 0x10000" "0x10000 dvd granule_end b s"
    by simp_all
qed

lemma aligned_less: "x + 0x10000 \<le> y" if "0x10000 dvd x" "0x10000 dvd y" "x < y" for x y :: nat
  using that by (auto elim!: dvdE)

lemma aligned_base: "0x10000 dvd x \<Longrightarrow> x \<le> b \<Longrightarrow> x \<le> granule_base b"
  using granule_base_le [of b] aligned_less [of "granule_base b" x] by linarith

lemma granule_base_mono: "b \<le> b' \<Longrightarrow> granule_base b \<le> granule_base b'"
  by (simp add: granule_base_def round_addr_def div_le_mono)

lemma clean_start_aligned:
  assumes "0x10000 dvd b" and "\<forall>(b', s') \<in> set vs. b' + s' + 0x20000 \<le> 2 ^ 64 \<and> (b' < b \<longrightarrow> b' + s' \<le> b)"
  shows "clean_start vs b"
proof -
  have "granule_base b = b" using assms(1) aligned_base [of b b] granule_base_le(1) [of b] by simp
  moreover have "granule_end b' s' \<le> b" if "(b', s') \<in> set vs" "b' < b" for b' s'
  proof -
    have s: "b' + s' + 0x20000 \<le> 2 ^ 64" "b' + s' \<le> b" using assms(2) that by auto
    show ?thesis
      using aligned_less [OF assms(1) granule_end_le(3) [OF s(1)]] granule_end_le(2) [OF s(1)] s(2) by linarith
  qed
  ultimately show ?thesis by (auto simp: clean_start_def)
qed

section \<open>One view among the others\<close>

lemma spans_ok_mid:
  assumes "spans_ok (L @ (b, s) # R)"
  shows "0 < s" "b + s + 0x20000 \<le> 2 ^ 64" "spans_ok (L @ R)"
    and "\<forall>(b', s') \<in> set L. 0 < s' \<and> b' + s' \<le> b \<and> b' + s' + 0x20000 \<le> 2 ^ 64"
    and "\<forall>(b', s') \<in> set R. 0 < s' \<and> b + s \<le> b' \<and> 0x10000 \<le> b' \<and> b' + s' + 0x20000 \<le> 2 ^ 64"
  using assms by (fastforce simp: spans_ok_def sorted_wrt_append)+

text \<open>What the other views leave of the granules of a view: one piece.\<close>

definition piece_base :: "span list \<Rightarrow> nat \<Rightarrow> nat" where
  "piece_base L b = (if \<exists>(b', s') \<in> set L. granule_base b < granule_end b' s' then granule_base b + 0x10000 else granule_base b)"

definition piece_end :: "span list \<Rightarrow> nat \<Rightarrow> nat \<Rightarrow> nat" where
  "piece_end R b s = (if \<exists>(b', s') \<in> set R. granule_base b' < granule_end b s then granule_end b s - 0x10000 else granule_end b s)"

lemma view_piece:
  assumes "spans_ok (L @ (b, s) # R)"
  shows "granules (b, s) - (\<Union>v \<in> set (L @ R). granules v) = {piece_base L b..<piece_end R b s}"
    and "granule_base b < granule_end b s"
    and "granule_end b s + 0x10000 \<le> 2 ^ 64"
    and "\<forall>(b', s') \<in> set L. granule_base b < granule_end b' s' \<longrightarrow> granule_end b' s' = granule_base b + 0x10000"
    and "\<forall>(b', s') \<in> set R. granule_base b' < granule_end b s \<longrightarrow> granule_base b' = granule_end b s - 0x10000"
    and "\<forall>(b', s') \<in> set R. granule_end b s \<le> granule_end b' s'"
proof -
  note mid = spans_ok_mid [OF assms]
  note gb = granule_base_le [of b] and ge = granule_end_le [OF mid(2)]
  show less: "granule_base b < granule_end b s" using gb ge mid(1) by linarith
  show "granule_end b s + 0x10000 \<le> 2 ^ 64" using ge mid(2) by linarith
  have L: "granule_base b' \<le> granule_base b \<and> (granule_base b < granule_end b' s' \<longrightarrow> granule_end b' s' = granule_base b + 0x10000)"
    if "(b', s') \<in> set L" for b' s'
  proof -
    have s: "b' + s' \<le> b" "b' + s' + 0x20000 \<le> 2 ^ 64" using mid(4) that by auto
    have "granule_end b' s' < granule_base b + 0x10000 + 0x10000" using granule_end_le(2) [OF s(2)] gb(2) s(1) by linarith
    then show ?thesis
      using aligned_less [OF gb(3) granule_end_le(3) [OF s(2)]] aligned_less [of "granule_base b + 0x10000" "granule_end b' s'"]
        granule_end_le(3) [OF s(2)] gb(3) granule_base_mono [of b' b] s(1) by fastforce
  qed
  have R: "granule_end b s \<le> granule_end b' s' \<and> (granule_base b' < granule_end b s \<longrightarrow> granule_base b' = granule_end b s - 0x10000)"
    if "(b', s') \<in> set R" for b' s'
  proof -
    have s: "0 < s'" "b + s \<le> b'" "b' + s' + 0x20000 \<le> 2 ^ 64" using mid(5) that by auto
    note ge' = granule_end_le [OF s(3)]
    have "granule_end b s \<le> granule_end b' s'"
      using aligned_less [OF ge'(3) ge(3)] ge'(1) ge(2) s(1,2) by linarith
    moreover have "granule_base b' = granule_end b s - 0x10000" if "granule_base b' < granule_end b s"
    proof -
      have le: "granule_base b' + 0x10000 \<le> granule_end b s" by (rule aligned_less [OF granule_base_le(3) ge(3) that])
      have "\<not> granule_base b' + 0x10000 < granule_end b s"
      proof
        assume lt: "granule_base b' + 0x10000 < granule_end b s"
        have "0x10000 dvd granule_base b' + 0x10000" using granule_base_le(3) [of b'] by simp
        from aligned_less [OF this ge(3) lt] show False using granule_base_le(2) [of b'] ge(2) s(2) by linarith
      qed
      then show ?thesis using le by linarith
    qed
    ultimately show ?thesis by blast
  qed
  show "\<forall>(b', s') \<in> set L. granule_base b < granule_end b' s' \<longrightarrow> granule_end b' s' = granule_base b + 0x10000"
    using L by blast
  show "\<forall>(b', s') \<in> set R. granule_base b' < granule_end b s \<longrightarrow> granule_base b' = granule_end b s - 0x10000"
    using R by blast
  show "\<forall>(b', s') \<in> set R. granule_end b s \<le> granule_end b' s'" using R by blast
  show "granules (b, s) - (\<Union>v \<in> set (L @ R). granules v) = {piece_base L b..<piece_end R b s}"
  proof (intro equalityI subsetI)
    fix v assume v: "v \<in> granules (b, s) - (\<Union>v \<in> set (L @ R). granules v)"
    then have vb: "granule_base b \<le> v" "v < granule_end b s" by (auto simp: granules_def)
    have "granule_base b + 0x10000 \<le> v" if "(b', s') \<in> set L" "granule_base b < granule_end b' s'" for b' s'
    proof -
      have "v \<notin> granules (b', s')" using v that(1) by auto
      then show ?thesis using L [OF that(1)] that(2) vb(1) by (auto simp: granules_def)
    qed
    moreover have "v < granule_end b s - 0x10000" if "(b', s') \<in> set R" "granule_base b' < granule_end b s" for b' s'
    proof -
      have "v \<notin> granules (b', s')" using v that(1) by auto
      then show ?thesis using R [OF that(1)] that(2) vb(2) by (auto simp: granules_def)
    qed
    ultimately show "v \<in> {piece_base L b..<piece_end R b s}" using vb by (auto simp: piece_base_def piece_end_def)
  next
    fix v assume v: "v \<in> {piece_base L b..<piece_end R b s}"
    then have vb: "granule_base b \<le> v" "v < granule_end b s" by (auto simp: piece_base_def piece_end_def split: if_splits)
    have "v \<notin> granules (b', s')" if "(b', s') \<in> set L" for b' s'
    proof (cases "granule_base b < granule_end b' s'")
      case True
      with that have "\<exists>(b', s') \<in> set L. granule_base b < granule_end b' s'" by blast
      then have "granule_base b + 0x10000 \<le> v" using v by (simp add: piece_base_def)
      then show ?thesis using L [OF that] True by (auto simp: granules_def)
    next
      case False
      then show ?thesis using vb by (auto simp: granules_def)
    qed
    moreover have "v \<notin> granules (b', s')" if "(b', s') \<in> set R" for b' s'
    proof (cases "granule_base b' < granule_end b s")
      case True
      with that have "\<exists>(b', s') \<in> set R. granule_base b' < granule_end b s" by blast
      then have "v < granule_end b s - 0x10000" using v by (simp add: piece_end_def)
      then show ?thesis using R [OF that] True by (auto simp: granules_def)
    next
      case False
      then show ?thesis using vb by (auto simp: granules_def)
    qed
    ultimately show "v \<in> granules (b, s) - (\<Union>v \<in> set (L @ R). granules v)"
      using vb by (auto simp: granules_def)
  qed
qed

lemma clean_piece:
  assumes "spans_ok (L @ (b, s) # R)" and "clean_start (L @ R) b"
  shows "piece_base L b = granule_base b \<or> granule_base b = 0 \<or> granule_base b - 1 \<in> (\<Union>v \<in> set (L @ R). granules v)"
proof -
  have below: "b' < b" if "(b', s') \<in> set L" for b' s' using spans_ok_mid(4) [OF assms(1)] that by fastforce
  show ?thesis
  proof (cases "\<forall>(b', s') \<in> set (L @ R). b' < b \<longrightarrow> granule_end b' s' \<le> granule_base b")
    case True
    have "granule_end b' s' \<le> granule_base b" if "(b', s') \<in> set L" for b' s'
      using True below [OF that] that by auto
    then have "\<not> (\<exists>(b', s') \<in> set L. granule_base b < granule_end b' s')" by (force simp: not_less [symmetric])
    then show ?thesis by (simp add: piece_base_def)
  next
    case False
    then show ?thesis using assms(2) unfolding clean_start_def by blast
  qed
qed

text \<open>The last range always reaches the end of the space.\<close>

lemma ranges_top:
  assumes "ranges_track vs fr" and "\<forall>(b, s) \<in> set vs. b + s + 0x20000 \<le> 2 ^ 64"
    and "y + 0x10000 \<le> 2 ^ 64"
  shows "\<exists>x \<in> set fr. y < r_end x"
proof -
  have "2 ^ 64 - 2 \<notin> granules (b, s)" if "(b, s) \<in> set vs" for b s
    using granule_end_le(2) [of b s] assms(2) that by (fastforce simp: granules_def)
  then have "2 ^ 64 - 2 \<in> free_set fr" using assms(1) by (auto simp: ranges_track_def)
  then obtain x where "x \<in> set fr" "2 ^ 64 - 2 < r_end x" by (auto simp: free_set_def)
  moreover have "y \<le> 2 ^ 64 - 2" using assms(3) by simp
  ultimately show ?thesis by (intro bexI [of _ x]) simp_all
qed

lemma view_in_space:
  assumes "spans_ok (L @ (b, s) # R)"
  shows "granules (b, s) \<subseteq> {0..<2 ^ 64 - 1}"
  using view_piece(3) [OF assms] by (auto simp: granules_def)

theorem insert_view_tracks:
  assumes "spans_ok (L @ (b, s) # R)" and "ranges_track (L @ R) fr" and "length fr < max_ranges"
    and "clean_start (L @ R) b"
  shows "\<exists>fr'. free_ranges_insert_view b s fr = Some fr' \<and> ranges_track (L @ (b, s) # R) fr' \<and> length fr' \<le> length fr + 1"
proof -
  note piece = view_piece [OF assms(1)] and V = view_in_space [OF assms(1)]
  let ?vb = "granule_base b" and ?ve = "granule_end b s" and ?U = "\<Union>v \<in> set (L @ R). granules v"
  have F: "ranges_ok fr" "free_set fr = {0..<2 ^ 64 - 1} - ?U" using assms(2) by (simp_all add: ranges_track_def)
  have "free_set fr \<inter> {?vb..<?ve} = granules (b, s) - ?U" using V unfolding F by (auto simp: granules_def)
  then have one: "free_set fr \<inter> {?vb..<?ve} = {piece_base L b..<piece_end R b s}" using piece(1) by simp
  have start: "?vb \<in> free_set fr \<or> ?vb = 0 \<or> ?vb - 1 \<notin> free_set fr \<or> free_set fr \<inter> {?vb..<?ve} = {}"
    using clean_piece [OF assms(1,4)]
  proof (elim disjE)
    assume a: "piece_base L b = ?vb"
    show ?thesis
    proof (cases "?vb < piece_end R b s")
      case True
      then have "?vb \<in> free_set fr" using a one by auto
      then show ?thesis by blast
    qed (use a one in simp)
  qed (use F in auto)
  have "\<forall>(b, s) \<in> set (L @ R). b + s + 0x20000 \<le> 2 ^ 64" using spans_ok_mid(3) [OF assms(1)] by (auto simp: spans_ok_def)
  from ranges_top [OF assms(2) this piece(3)] have top: "\<exists>x \<in> set fr. ?ve < r_end x" .
  from insert_view_spec [OF F(1) assms(3) refl refl piece(2) top one start]
  obtain fr' where "free_ranges_insert_view b s fr = Some fr'" "ranges_ok fr'" "length fr' \<le> length fr + 1"
      "free_set fr' = free_set fr - {?vb..<?ve}" by blast
  then show ?thesis by (auto simp: ranges_track_def F granules_def)
qed

lemma piece_base_prev:
  assumes "spans_ok (L @ (b, s) # R)" and "L \<noteq> []"
  shows "piece_base L b = (if granule_base b < granule_end (fst (last L)) (snd (last L))
    then granule_end (fst (last L)) (snd (last L)) else granule_base b)"
proof -
  obtain L' pb ps where L: "L = L' @ [(pb, ps)]" using assms(2) by (metis append_butlast_last_id surj_pair)
  have p: "pb + ps + 0x20000 \<le> 2 ^ 64" using spans_ok_mid(4) [OF assms(1)] unfolding L by auto
  have le: "granule_end b' s' \<le> granule_end pb ps" if "(b', s') \<in> set L'" for b' s'
  proof -
    have s: "b' + s' \<le> pb" "b' + s' + 0x20000 \<le> 2 ^ 64"
      using assms(1) that unfolding L by (auto simp: spans_ok_def sorted_wrt_append)
    show ?thesis
      using aligned_less [OF granule_end_le(3) [OF p] granule_end_le(3) [OF s(2)]] granule_end_le(2) [OF s(2)]
        granule_end_le(1) [OF p] s(1) by linarith
  qed
  have "(\<exists>(b', s') \<in> set L. granule_base b < granule_end b' s') \<longleftrightarrow> granule_base b < granule_end pb ps"
    using le unfolding L by (fastforce intro: less_le_trans)
  moreover have "granule_base b < granule_end pb ps \<Longrightarrow> granule_end pb ps = granule_base b + 0x10000"
    using view_piece(4) [OF assms(1)] unfolding L by auto
  ultimately show ?thesis by (simp add: piece_base_def L)
qed

lemma piece_end_next:
  assumes "spans_ok (L @ (b, s) # (nb, ns) # R)"
  shows "piece_end ((nb, ns) # R) b s = (if granule_base nb < granule_end b s then granule_base nb else granule_end b s)"
proof -
  have le: "granule_base nb \<le> granule_base b'" if "(b', s') \<in> set R" for b' s'
    using assms that by (intro granule_base_mono) (auto simp: spans_ok_def sorted_wrt_append)
  have "(\<exists>(b', s') \<in> set ((nb, ns) # R). granule_base b' < granule_end b s) \<longleftrightarrow> granule_base nb < granule_end b s"
    using le by (fastforce intro: le_less_trans)
  moreover have "granule_base nb < granule_end b s \<Longrightarrow> granule_base nb = granule_end b s - 0x10000"
    using view_piece(5) [OF assms] by auto
  ultimately show ?thesis by (simp add: piece_end_def)
qed

definition prev_span :: "span list \<Rightarrow> span option" where
  "prev_span L = (if L = [] then None else Some (last L))"

definition next_span :: "span list \<Rightarrow> span option" where
  "next_span R = (case R of [] \<Rightarrow> None | v # _ \<Rightarrow> Some v)"

lemma remove_view_step:
  assumes "spans_ok (L @ (b, s) # R)"
  shows "free_ranges_remove_view (prev_span L) (next_span R) b s fr =
    (let A = piece_base L b; B = piece_end R b s; i = free_ranges_lower_bound fr (granule_base b)
     in if B \<le> A then Some fr
        else if length fr \<le> i then None
        else if \<not> (A < r_end (fr ! i) \<or> Suc i \<noteq> length fr) then None
        else return_range i A B fr)"
proof -
  note piece = view_piece [OF assms]
  let ?vb = "granule_base b" and ?ve = "granule_end b s"
  define pe where "pe = (case prev_span L of None \<Rightarrow> 0 | Some (b, s) \<Rightarrow> granule_end b s)"
  define pb where "pb = (case prev_span L of None \<Rightarrow> 0 | Some (b, s) \<Rightarrow> granule_base b)"
  define ne where "ne = (case next_span R of None \<Rightarrow> 0 | Some (b, s) \<Rightarrow> granule_end b s)"
  define nb where "nb = (case next_span R of None \<Rightarrow> 0 | Some (b, s) \<Rightarrow> granule_base b)"
  have A: "(if pe \<noteq> 0 \<and> ?vb < pe \<and> pb < ?ve then pe else ?vb) = piece_base L b"
  proof (cases "L = []")
    case True
    then show ?thesis by (simp add: pe_def prev_span_def piece_base_def)
  next
    case False
    obtain b' s' where l: "last L = (b', s')" by fastforce
    then have "(b', s') \<in> set L" using False by (metis last_in_set)
    then have "b' + s' \<le> b" using spans_ok_mid(4) [OF assms] by auto
    then have "granule_base b' < ?ve" using granule_base_mono [of b' b] piece(2) by linarith
    then show ?thesis using piece_base_prev [OF assms False] False by (simp add: pe_def pb_def prev_span_def l)
  qed
  have Ave: "piece_base L b \<le> ?ve"
    using aligned_less [OF granule_base_le(3) granule_end_le(3) [OF spans_ok_mid(2) [OF assms]] piece(2)] piece(2)
    by (simp add: piece_base_def)
  have B: "(if nb \<noteq> 0 \<and> nb < ?ve \<and> piece_base L b < ne then nb else ?ve) = piece_end R b s \<or>
      (?ve \<le> piece_base L b \<and> piece_end R b s \<le> piece_base L b)"
  proof (cases R)
    case Nil
    then show ?thesis by (simp add: nb_def next_span_def piece_end_def)
  next
    case (Cons v R')
    obtain b' s' where v: "v = (b', s')" by fastforce
    have "0x10000 \<le> b'" using spans_ok_mid(5) [OF assms] by (auto simp: Cons v)
    then have "granule_base b' \<noteq> 0" using granule_base_le(2) [of b'] by linarith
    moreover have "?ve \<le> granule_end b' s'" using piece(6) by (simp add: Cons v)
    moreover have "piece_end R b s = (if granule_base b' < ?ve then granule_base b' else ?ve)"
      using piece_end_next [of L b s b' s' R'] assms by (simp add: Cons v)
    ultimately show ?thesis using Ave by (auto simp: nb_def ne_def next_span_def Cons v)
  qed
  have "free_ranges_remove_view (prev_span L) (next_span R) b s fr =
    (let A = piece_base L b; B = (if nb \<noteq> 0 \<and> nb < ?ve \<and> A < ne then nb else ?ve); i = free_ranges_lower_bound fr ?vb
     in if B \<le> A then Some fr
        else if length fr \<le> i then None
        else if \<not> (A < r_end (fr ! i) \<or> Suc i \<noteq> length fr) then None
        else return_range i A B fr)"
    unfolding free_ranges_remove_view_def Let_def pe_def [symmetric] pb_def [symmetric] ne_def [symmetric] nb_def [symmetric] A ..
  then show ?thesis using B by (auto simp: Let_def)
qed

theorem remove_view_tracks:
  assumes "spans_ok (L @ (b, s) # R)" and "ranges_track (L @ (b, s) # R) fr" and "length fr < max_ranges"
    and "clean_start (L @ R) b"
  shows "\<exists>fr'. free_ranges_remove_view (prev_span L) (next_span R) b s fr = Some fr' \<and> ranges_track (L @ R) fr' \<and>
    length fr' \<le> length fr + 1"
proof -
  note piece = view_piece [OF assms(1)] and V = view_in_space [OF assms(1)]
  let ?vb = "granule_base b" and ?ve = "granule_end b s" and ?U = "\<Union>v \<in> set (L @ R). granules v"
  let ?A = "piece_base L b" and ?B = "piece_end R b s"
  have F: "ranges_ok fr" "free_set fr = {0..<2 ^ 64 - 1} - (granules (b, s) \<union> ?U)"
    using assms(2) by (auto simp: ranges_track_def)
  have goal: "{0..<2 ^ 64 - 1} - ?U = free_set fr \<union> {?A..<?B}"
    using V unfolding piece(1) [symmetric] F by auto
  show ?thesis
  proof (cases "?B \<le> ?A")
    case True
    then show ?thesis
      unfolding remove_view_step [OF assms(1)] using F(1) goal by (auto simp: Let_def ranges_track_def)
  next
    case False
    have AB: "?vb \<le> ?A" "?B \<le> ?ve" by (auto simp: piece_base_def piece_end_def)
    have start: "?A = ?vb \<or> ?vb = 0 \<or> ?vb - 1 \<notin> free_set fr"
      using clean_piece [OF assms(1,4)] F by auto
    have used: "free_set fr \<inter> {?vb..<?B} = {}" using AB(2) unfolding F by (auto simp: granules_def)
    have "\<forall>(b, s) \<in> set (L @ (b, s) # R). b + s + 0x20000 \<le> 2 ^ 64" using assms(1) by (auto simp: spans_ok_def)
    from ranges_top [OF assms(2) this, of ?B] have top: "\<exists>x \<in> set fr. ?B < r_end x" using piece(3) AB(2) by linarith
    note spec = return_range_spec [OF F(1) assms(3) refl AB(1) _ top used start]
    from False have less: "?A < ?B" by simp
    from spec(3) [OF less] obtain fr' where "return_range (free_ranges_lower_bound fr ?vb) ?A ?B fr = Some fr'" "ranges_ok fr'"
        "free_set fr' = free_set fr \<union> {?A..<?B}" "length fr' \<le> length fr + 1" by blast
    then show ?thesis
      unfolding remove_view_step [OF assms(1)] using spec(1,2) [OF less] less goal
      by (simp add: Let_def ranges_track_def not_le)
  qed
qed

section \<open>A granule that is shared\<close>

text \<open>
  C29: A view is not recorded when it begins in a granule that another view uses while the granule below
  is free. The search then finds the free range that ends where the granule begins, and insertion
  returns without a change: all further granules of the view stay in the free ranges.
\<close>
theorem insert_view_shared_granule:
  assumes "ranges_ok fr" and "granule_base b \<notin> free_set fr" and "granule_base b - 1 \<in> free_set fr" and "0 < granule_base b"
    and "\<exists>x \<in> set fr. granule_base b < r_end x"
  shows "free_ranges_insert_view b s fr = Some fr"
proof -
  let ?vb = "granule_base b"
  from assms(5) obtain z where "z \<in> set fr" "?vb \<le> r_end z" by (blast dest: less_imp_le)
  then have "\<exists>x \<in> set fr. ?vb \<le> r_end x" ..
  then obtain P x S where fr: "fr = P @ x # S" and i: "free_ranges_lower_bound fr ?vb = length P"
      and P: "\<forall>y \<in> set P. r_end y < ?vb" and x: "?vb \<le> r_end x"
    by (rule lower_bound_split [OF assms(1)])
  have S: "\<forall>y \<in> set S. r_end x < r_base y" and ne: "r_base x < r_end x"
    using assms(1) unfolding fr ranges_ok_split ranges_ok_Cons by auto
  have "?vb - 1 \<notin> free_set P"
  proof
    assume "?vb - 1 \<in> free_set P"
    then obtain y where "y \<in> set P" "?vb - 1 < r_end y" by (auto simp: free_set_def)
    moreover from this(1) have "r_end y < ?vb" using P by blast
    ultimately show False by linarith
  qed
  moreover have "?vb - 1 \<notin> free_set S"
  proof
    assume "?vb - 1 \<in> free_set S"
    then obtain y where "y \<in> set S" "r_base y \<le> ?vb - 1" by (auto simp: free_set_def)
    moreover from this(1) have "r_end x < r_base y" using S by blast
    ultimately show False using x by linarith
  qed
  ultimately have "r_base x \<le> ?vb - 1" using assms(3) unfolding fr by simp
  then have "r_end x = ?vb" using assms(2,4) x unfolding fr by auto
  moreover from this have "S \<noteq> []" using assms(5) P unfolding fr by auto
  then obtain y S' where "S = y # S'" by (cases S) auto
  ultimately show ?thesis
    unfolding free_ranges_insert_view_def Let_def i unfolding fr using ne by simp
qed

theorem insert_view_shared_granule_witness:
  "let fr = [\<lparr>r_base = 0x10000, r_end = 0x20000\<rparr>, \<lparr>r_base = 0x30000, r_end = 0x7fffffff0000\<rparr>]
   in free_ranges_insert_view 0x21000 0x5f000 fr = Some fr"
proof -
  have "granule_base 0x21000 = 0x20000" by (simp add: granule_base_def round_addr_def)
  then show ?thesis
    using insert_view_shared_granule [of "[\<lparr>r_base = 0x10000, r_end = 0x20000\<rparr>, \<lparr>r_base = 0x30000, r_end = 0x7fffffff0000\<rparr>]" "0x21000" "0x5f000"]
    by (simp add: ranges_ok_Cons)
qed

end
