(* ===== verification/Page_Vprot.thy ===== *)
theory Page_Vprot
  imports Free_Ranges
begin

text \<open>
  dlls/ntdll/unix/virtual.c: the table with one protection byte per page. It has two levels: a directory of
  blocks of \<open>2 ^ 20\<close> bytes that are allocated on demand. A pointer into the table is a directory index
  and an offset; an access to a block that is not there, or past its end, is \<open>None\<close>.
\<close>

section \<open>The table\<close>

type_synonym u8 = "8 word"
type_synonym vprot_table = "nat \<Rightarrow> (nat \<Rightarrow> u8) option"

abbreviation (input) VPROT_READ :: "'a::len word" where "VPROT_READ \<equiv> 0x01"
abbreviation (input) VPROT_WRITE :: "'a::len word" where "VPROT_WRITE \<equiv> 0x02"
abbreviation (input) VPROT_EXEC :: "'a::len word" where "VPROT_EXEC \<equiv> 0x04"
abbreviation (input) VPROT_WRITECOPY :: "'a::len word" where "VPROT_WRITECOPY \<equiv> 0x08"
abbreviation (input) VPROT_GUARD :: "'a::len word" where "VPROT_GUARD \<equiv> 0x10"
abbreviation (input) VPROT_COMMITTED :: "'a::len word" where "VPROT_COMMITTED \<equiv> 0x20"
abbreviation (input) VPROT_WRITEWATCH :: "'a::len word" where "VPROT_WRITEWATCH \<equiv> 0x40"
abbreviation (input) VPROT_COPIED :: "'a::len word" where "VPROT_COPIED \<equiv> 0x80"

abbreviation (input) block_pages :: nat where "block_pages \<equiv> 1048576"

definition page_of :: "nat \<Rightarrow> nat" where
  "page_of addr = addr div 4096"

text \<open>The page after the last one of a range.\<close>

definition page_end :: "nat \<Rightarrow> nat \<Rightarrow> nat" where
  "page_end addr sz = page_of (add64 (add64 addr sz) page_mask)"

definition is_vprot_exec_write :: "u8 \<Rightarrow> bool" where
  "is_vprot_exec_write vprot \<longleftrightarrow> vprot AND VPROT_EXEC \<noteq> 0 \<and> vprot AND (VPROT_WRITE OR VPROT_WRITECOPY) \<noteq> 0"

definition vprot_at :: "vprot_table \<Rightarrow> nat \<Rightarrow> u8 option" where
  "vprot_at tbl idx = map_option (\<lambda>block. block (idx mod block_pages)) (tbl (idx div block_pages))"

definition get_page_vprot :: "nat \<Rightarrow> nat \<Rightarrow> vprot_table \<Rightarrow> u8" where
  "get_page_vprot dirs addr tbl =
     (let idx = page_of addr
      in if dirs \<le> idx div block_pages then 0
         else case vprot_at tbl idx of None \<Rightarrow> 0 | Some vprot \<Rightarrow> vprot)"

text \<open>\<open>memset\<close> inside one block; nothing is accessed when the length is zero.\<close>

definition block_fill :: "nat \<Rightarrow> nat \<Rightarrow> nat \<Rightarrow> u8 \<Rightarrow> vprot_table \<Rightarrow> vprot_table option" where
  "block_fill dir off n vprot tbl =
     (if n = 0 then Some tbl
      else case tbl dir of
        None \<Rightarrow> None
      | Some block \<Rightarrow>
          if block_pages < off + n then None
          else Some (tbl(dir \<mapsto> (\<lambda>i. if off \<le> i \<and> i < off + n then vprot else block i))))"

partial_function (option) fill_loop :: "nat \<Rightarrow> nat \<Rightarrow> u8 \<Rightarrow> vprot_table \<Rightarrow> vprot_table option" where
  "fill_loop idx end vprot tbl =
     (if idx div block_pages \<noteq> end div block_pages
      then do {
        let dir_size = block_pages - idx mod block_pages;
        tbl \<leftarrow> block_fill (idx div block_pages) (idx mod block_pages) dir_size vprot tbl;
        fill_loop (idx + dir_size) end vprot tbl
      }
      else if end < idx then None
      else block_fill (idx div block_pages) (idx mod block_pages) (end - idx) vprot tbl)"

definition set_page_vprot :: "nat \<Rightarrow> nat \<Rightarrow> u8 \<Rightarrow> vprot_table \<Rightarrow> vprot_table option" where
  "set_page_vprot addr sz vprot tbl = fill_loop (page_of addr) (page_end addr sz) vprot tbl"

definition upd_vprot :: "nat \<Rightarrow> (u8 \<Rightarrow> u8) \<Rightarrow> vprot_table \<Rightarrow> vprot_table option" where
  "upd_vprot idx f tbl =
     (case tbl (idx div block_pages) of
        None \<Rightarrow> None
      | Some block \<Rightarrow> Some (tbl(idx div block_pages \<mapsto> block(idx mod block_pages := f (block (idx mod block_pages))))))"

function bits_loop :: "nat \<Rightarrow> nat \<Rightarrow> u8 \<Rightarrow> u8 \<Rightarrow> vprot_table \<Rightarrow> vprot_table option" where
  "bits_loop idx end setb clear tbl =
     (if idx < end
      then do { tbl \<leftarrow> upd_vprot idx (\<lambda>v. (v AND NOT clear) OR setb) tbl; bits_loop (idx + 1) end setb clear tbl }
      else Some tbl)"
  by pat_completeness auto
termination by (relation "measure (\<lambda>(idx, end, setb, clear, tbl). end - idx)") auto

definition set_page_vprot_bits :: "nat \<Rightarrow> nat \<Rightarrow> u8 \<Rightarrow> u8 \<Rightarrow> vprot_table \<Rightarrow> vprot_table option" where
  "set_page_vprot_bits addr sz setb clear tbl = bits_loop (page_of addr) (page_end addr sz) setb clear tbl"

function exec_write_loop :: "nat \<Rightarrow> nat \<Rightarrow> bool \<Rightarrow> vprot_table \<Rightarrow> (bool \<times> vprot_table) option" where
  "exec_write_loop idx end ret tbl =
     (if idx < end
      then do {
        vprot \<leftarrow> vprot_at tbl idx;
        if \<not> is_vprot_exec_write vprot then exec_write_loop (idx + 1) end ret tbl
        else do { tbl \<leftarrow> upd_vprot idx (\<lambda>v. v OR VPROT_WRITEWATCH) tbl; exec_write_loop (idx + 1) end True tbl }
      }
      else Some (ret, tbl))"
  by pat_completeness auto
termination by (relation "measure (\<lambda>(idx, end, ret, tbl). end - idx)") auto

definition set_page_vprot_exec_write_protect :: "nat \<Rightarrow> nat \<Rightarrow> vprot_table \<Rightarrow> (bool \<times> vprot_table) option" where
  "set_page_vprot_exec_write_protect addr sz tbl = exec_write_loop (page_of addr) (page_end addr sz) False tbl"

text \<open>Blocks are allocated for a range, with zero bytes; \<open>mmap_ok\<close> says which allocations succeed.\<close>

function alloc_blocks :: "(nat \<Rightarrow> bool) \<Rightarrow> nat \<Rightarrow> nat \<Rightarrow> vprot_table \<Rightarrow> bool \<times> vprot_table" where
  "alloc_blocks mmap_ok i n tbl =
     (if i < n
      then if tbl i \<noteq> None then alloc_blocks mmap_ok (i + 1) n tbl
           else if \<not> mmap_ok i then (False, tbl)
           else alloc_blocks mmap_ok (i + 1) n (tbl(i \<mapsto> (\<lambda>_. 0)))
      else (True, tbl))"
  by pat_completeness auto
termination by (relation "measure (\<lambda>(mmap_ok, i, n, tbl). n - i)") auto

definition alloc_pages_vprot :: "nat \<Rightarrow> (nat \<Rightarrow> bool) \<Rightarrow> nat \<Rightarrow> nat \<Rightarrow> vprot_table \<Rightarrow> (bool \<times> vprot_table) option" where
  "alloc_pages_vprot dirs mmap_ok addr sz tbl =
     (if dirs * block_pages < page_end addr sz then None
      else Some (alloc_blocks mmap_ok (page_of addr div block_pages)
        ((page_end addr sz + (block_pages - 1)) div block_pages) tbl))"

declare bits_loop.simps [simp del] exec_write_loop.simps [simp del] alloc_blocks.simps [simp del]

section \<open>The size of a region with equal bytes\<close>

text \<open>Eight bytes of a block read as one little-endian word.\<close>

fun word_of_bytes :: "u8 list \<Rightarrow> u64" where
  "word_of_bytes [] = 0"
| "word_of_bytes (b # bs) = ucast b + 256 * word_of_bytes bs"

definition read_byte :: "vprot_table \<Rightarrow> nat \<times> nat \<Rightarrow> u8 option" where
  "read_byte tbl p =
     (if snd p < block_pages then map_option (\<lambda>block. block (snd p)) (tbl (fst p)) else None)"

definition read_word :: "vprot_table \<Rightarrow> nat \<times> nat \<Rightarrow> u64 option" where
  "read_word tbl p =
     (if snd p + 8 \<le> block_pages
      then map_option (\<lambda>block. word_of_bytes (map (\<lambda>k. block (snd p + k)) [0..<8])) (tbl (fst p)) else None)"

text \<open>Byte by byte up to a bound: the index where the bytes begin to differ, or the bound, and the pointer there.\<close>

function byte_loop :: "vprot_table \<Rightarrow> u8 \<Rightarrow> u8 \<Rightarrow> nat \<Rightarrow> nat \<Rightarrow> nat \<times> nat \<Rightarrow> (bool \<times> nat \<times> (nat \<times> nat)) option" where
  "byte_loop tbl vprot msk cur bound p =
     (if cur < bound
      then do {
        b \<leftarrow> read_byte tbl p;
        if (vprot XOR b) AND msk \<noteq> 0 then Some (True, cur, p)
        else byte_loop tbl vprot msk (cur + 1) bound (fst p, snd p + 1)
      }
      else Some (False, cur, p))"
  by pat_completeness auto
termination by (relation "measure (\<lambda>(tbl, vprot, msk, cur, bound, p). bound - cur)") auto

function word_loop :: "vprot_table \<Rightarrow> u8 \<Rightarrow> u8 \<Rightarrow> nat \<Rightarrow> nat \<Rightarrow> nat \<Rightarrow> nat \<Rightarrow> nat \<times> nat \<Rightarrow> nat option" where
  "word_loop tbl vprot msk sz start cur bound p =
     (if cur < bound
      then do {
        let p = (if cur mod block_pages = 0 then (cur div block_pages, 0) else p);
        w \<leftarrow> read_word tbl p;
        if (0x101010101010101 * ucast vprot XOR w) AND (0x101010101010101 * ucast msk) \<noteq> 0
        then do { (found, cur, p) \<leftarrow> byte_loop tbl vprot msk cur bound p; Some ((cur - start) * 4096) }
        else word_loop tbl vprot msk sz start (cur + 8) bound (fst p, snd p + 8)
      }
      else Some sz)"
  by pat_completeness auto
termination by (relation "measure (\<lambda>(tbl, vprot, msk, sz, start, cur, bound, p). bound - cur)") auto

declare byte_loop.simps [simp del] word_loop.simps [simp del]

text \<open>The size and the byte of the first page.\<close>

definition get_vprot_range_size :: "nat \<Rightarrow> nat \<Rightarrow> u8 \<Rightarrow> vprot_table \<Rightarrow> (nat \<times> u8) option" where
  "get_vprot_range_size base sz msk tbl =
     (let start = page_of base; end = start + page_of sz;
          aligned = (start + 7) div 8 * 8; aligned = (if end < aligned then end else aligned);
          p = (start div block_pages, start mod block_pages)
      in do {
           vprot \<leftarrow> read_byte tbl p;
           (found, cur, p) \<leftarrow> byte_loop tbl vprot msk start aligned p;
           if found then Some ((cur - start) * 4096, vprot)
           else do { n \<leftarrow> word_loop tbl vprot msk sz start cur end p; Some (n, vprot) }
         })"

section \<open>Words of bytes\<close>

lemma bit_ucast_add_shift:
  fixes b :: u8 and w :: u64
  shows "bit (ucast b + 256 * w) n \<longleftrightarrow> (if n < 8 then bit b n else n < 64 \<and> bit w (n - 8))"
proof -
  have "256 * w = push_bit 8 w" by (simp add: push_bit_eq_mult mult.commute)
  moreover have "ucast b + push_bit 8 w = ucast b OR push_bit 8 w"
    by (rule disjunctive_add) (auto simp: bit_simps dest: bit_imp_le_length)
  ultimately show ?thesis by (auto simp: bit_simps dest: bit_imp_le_length)
qed

lemma bit_word_of_bytes:
  "length bs \<le> 8 \<Longrightarrow> bit (word_of_bytes bs) n \<longleftrightarrow> n div 8 < length bs \<and> bit (bs ! (n div 8)) (n mod 8)"
proof (induction bs arbitrary: n)
  case (Cons b bs)
  show ?case
  proof (cases "n < 8")
    case True
    then show ?thesis by (simp add: bit_ucast_add_shift)
  next
    case False
    then have "n div 8 = Suc ((n - 8) div 8)" "n mod 8 = (n - 8) mod 8" by (simp_all add: le_div_geq le_mod_geq)
    moreover have "(n - 8) div 8 < length bs \<Longrightarrow> n < 64" using Cons.prems by simp
    ultimately show ?thesis using False Cons by (auto simp: bit_ucast_add_shift)
  qed
qed simp

lemma word_from_byte: "0x101010101010101 * ucast v = word_of_bytes (replicate 8 v)"
  by (simp add: numeral_eq_Suc)

lemma words_differ:
  assumes "length bs = 8"
  shows "(0x101010101010101 * ucast v XOR word_of_bytes bs) AND (0x101010101010101 * ucast msk) \<noteq> 0 \<longleftrightarrow>
    (\<exists>k < 8. (v XOR bs ! k) AND msk \<noteq> 0)"
proof -
  have bits: "bit ((0x101010101010101 * ucast v XOR word_of_bytes bs) AND (0x101010101010101 * ucast msk)) n \<longleftrightarrow>
      n div 8 < 8 \<and> bit ((v XOR bs ! (n div 8)) AND msk) (n mod 8)" for n
    using assms unfolding word_from_byte by (auto simp: bit_simps bit_word_of_bytes)
  show ?thesis
  proof
    assume "(0x101010101010101 * ucast v XOR word_of_bytes bs) AND (0x101010101010101 * ucast msk) \<noteq> 0"
    then obtain n where "n div 8 < 8" "bit ((v XOR bs ! (n div 8)) AND msk) (n mod 8)"
      using bits by (metis bit_0_eq bot_apply bot_bool_def bit_eq_iff)
    then show "\<exists>k < 8. (v XOR bs ! k) AND msk \<noteq> 0" by (intro exI [of _ "n div 8"]) auto
  next
    assume "\<exists>k < 8. (v XOR bs ! k) AND msk \<noteq> 0"
    then obtain k j where "k < 8" "bit ((v XOR bs ! k) AND msk) j" by (auto simp: bit_eq_iff)
    moreover from this have "j < 8" using bit_imp_le_length by fastforce
    ultimately have "bit ((0x101010101010101 * ucast v XOR word_of_bytes bs) AND (0x101010101010101 * ucast msk)) (8 * k + j)"
      unfolding bits by simp
    then show "(0x101010101010101 * ucast v XOR word_of_bytes bs) AND (0x101010101010101 * ucast msk) \<noteq> 0"
      by (metis bit_0_eq bot_apply bot_bool_def)
  qed
qed

section \<open>The region with equal bytes\<close>

text \<open>The byte of a page whose block is there.\<close>

definition vbyte :: "vprot_table \<Rightarrow> nat \<Rightarrow> u8" where
  "vbyte tbl idx = (case vprot_at tbl idx of None \<Rightarrow> 0 | Some vprot \<Rightarrow> vprot)"

definition has_pages :: "vprot_table \<Rightarrow> nat \<Rightarrow> nat \<Rightarrow> bool" where
  "has_pages tbl a b \<longleftrightarrow> (\<forall>idx. a \<le> idx \<and> idx < b \<longrightarrow> tbl (idx div block_pages) \<noteq> None)"

text \<open>The first index from \<open>a\<close> on where the bytes differ from \<open>v\<close> under the mask, or \<open>b\<close>.\<close>

definition first_diff :: "vprot_table \<Rightarrow> u8 \<Rightarrow> u8 \<Rightarrow> nat \<Rightarrow> nat \<Rightarrow> nat" where
  "first_diff tbl v msk a b = a + length (takeWhile (\<lambda>idx. (v XOR vbyte tbl idx) AND msk = 0) [a..<b])"

lemma first_diff_end [simp]: "first_diff tbl v msk b b = b"
  by (simp add: first_diff_def)

lemma first_diff_step:
  "a < b \<Longrightarrow> first_diff tbl v msk a b =
     (if (v XOR vbyte tbl a) AND msk = 0 then first_diff tbl v msk (a + 1) b else a)"
  by (simp add: first_diff_def upt_conv_Cons)

lemma first_diff_le: "a \<le> b \<Longrightarrow> a \<le> first_diff tbl v msk a b \<and> first_diff tbl v msk a b \<le> b"
  using length_takeWhile_le [of "\<lambda>idx. (v XOR vbyte tbl idx) AND msk = 0" "[a..<b]"] by (simp add: first_diff_def)

lemma upt_split: "a \<le> c \<Longrightarrow> c \<le> b \<Longrightarrow> [a..<b] = [a..<c] @ [c..<b]"
  using upt_add_eq_append [of a c "b - c"] by simp

lemma first_diff_skip:
  assumes "a \<le> c" and "c \<le> b" and "\<forall>idx. a \<le> idx \<and> idx < c \<longrightarrow> (v XOR vbyte tbl idx) AND msk = 0"
  shows "first_diff tbl v msk a b = first_diff tbl v msk c b"
proof -
  have "[a..<b] = [a..<c] @ [c..<b]" using assms(1,2) by (rule upt_split)
  then have "takeWhile (\<lambda>idx. (v XOR vbyte tbl idx) AND msk = 0) [a..<b] =
      [a..<c] @ takeWhile (\<lambda>idx. (v XOR vbyte tbl idx) AND msk = 0) [c..<b]"
    using assms(3) by (simp add: takeWhile_append)
  then show ?thesis using assms(1) by (simp add: first_diff_def)
qed

lemma first_diff_at:
  assumes "a \<le> c" and "c < b" and "(v XOR vbyte tbl c) AND msk \<noteq> 0"
  shows "first_diff tbl v msk a b \<le> c"
proof (rule ccontr)
  let ?P = "\<lambda>idx. (v XOR vbyte tbl idx) AND msk = 0"
  assume "\<not> first_diff tbl v msk a b \<le> c"
  then have l: "c - a < length (takeWhile ?P [a..<b])" using assms(1) unfolding first_diff_def by linarith
  then have "takeWhile ?P [a..<b] ! (c - a) = [a..<b] ! (c - a)" by (rule takeWhile_nth)
  then have "takeWhile ?P [a..<b] ! (c - a) = c" using assms(1,2) by simp
  then have "?P c" using nth_mem [OF l] by (auto dest: set_takeWhileD)
  then show False using assms(3) by simp
qed

lemma byte_loop_spec:
  assumes "p = (dir, off)" and "dir = cur div block_pages" and "off = cur mod block_pages" and "tbl dir = Some block"
    and "cur \<le> bound" and "off + (bound - cur) \<le> block_pages \<or> off + (first_diff tbl v msk cur bound - cur) < block_pages"
  shows "byte_loop tbl v msk cur bound p =
    Some (first_diff tbl v msk cur bound < bound, first_diff tbl v msk cur bound,
      (dir, off + (first_diff tbl v msk cur bound - cur)))"
  using assms
proof (induction "bound - cur" arbitrary: cur p off)
  case 0
  then show ?case by (subst byte_loop.simps) simp
next
  case (Suc n)
  then have cur: "cur < bound" and off: "off < block_pages" by auto
  have b: "read_byte tbl p = Some (vbyte tbl cur)"
    using Suc.prems off by (simp add: read_byte_def vbyte_def vprot_at_def)
  show ?case
  proof (cases "(v XOR vbyte tbl cur) AND msk = 0")
    case False
    then show ?thesis using cur b Suc.prems by (subst byte_loop.simps) (simp add: first_diff_step)
  next
    case True
    have step: "byte_loop tbl v msk cur bound p = byte_loop tbl v msk (cur + 1) bound (dir, off + 1)"
      using cur b True Suc.prems(1) by (subst byte_loop.simps) simp
    have fd: "first_diff tbl v msk cur bound = first_diff tbl v msk (cur + 1) bound"
      using cur True by (simp add: first_diff_step)
    show ?thesis
    proof (cases "cur + 1 = bound")
      case True
      then show ?thesis unfolding step fd by (subst byte_loop.simps) simp
    next
      case False
      have fdl: "cur + 1 \<le> first_diff tbl v msk (cur + 1) bound" using first_diff_le [of "cur + 1" bound tbl v msk] cur by simp
      then have lt: "off + 1 < block_pages" using Suc.prems(6) cur False unfolding fd by linarith
      then have "dir = (cur + 1) div block_pages" "off + 1 = (cur + 1) mod block_pages"
        using Suc.prems(2,3) by (simp_all add: div_Suc mod_Suc)
      moreover have "n = bound - (cur + 1)" "cur + 1 \<le> bound"
        using Suc.hyps(2) cur by linarith+
      moreover have "off + 1 + (bound - (cur + 1)) \<le> block_pages \<or>
          off + 1 + (first_diff tbl v msk (cur + 1) bound - (cur + 1)) < block_pages"
        using Suc.prems(6) cur fdl unfolding fd by linarith
      ultimately have ih: "byte_loop tbl v msk (cur + 1) bound (dir, off + 1) =
          Some (first_diff tbl v msk (cur + 1) bound < bound, first_diff tbl v msk (cur + 1) bound,
            (dir, off + 1 + (first_diff tbl v msk (cur + 1) bound - (cur + 1))))"
        using Suc.hyps(1) [of "cur + 1" "(dir, off + 1)" "off + 1"] Suc.prems(4) by blast
      show ?thesis unfolding step fd ih using fdl by simp
    qed
  qed
qed

lemma same_block:
  assumes "cur mod block_pages + k < block_pages"
  shows "(cur + k) div block_pages = cur div block_pages" "(cur + k) mod block_pages = cur mod block_pages + k"
proof -
  have "cur + k = cur div block_pages * block_pages + (cur mod block_pages + k)" by simp
  then show "(cur + k) div block_pages = cur div block_pages" "(cur + k) mod block_pages = cur mod block_pages + k"
    using assms by (metis add.commute add_cancel_right_left div_less div_mult_self3 numeral_neq_zero) (metis assms \<open>cur + k = _\<close> mod_less mod_mult_self3)
qed

lemma word_loop_spec:
  assumes "cur mod block_pages \<noteq> 0 \<Longrightarrow> p = (cur div block_pages, cur mod block_pages)" and "cur mod 8 = 0"
    and "has_pages tbl cur bound" and "sz = (bound - start) * 4096"
  shows "word_loop tbl v msk sz start cur bound p =
    Some (if cur \<le> bound then (first_diff tbl v msk cur bound - start) * 4096 else sz)"
  using assms
proof (induction "bound - cur" arbitrary: cur p rule: less_induct)
  case less
  show ?case
  proof (cases "cur < bound")
    case False
    then show ?thesis using less.prems(4) by (subst word_loop.simps) simp
  next
    case True
    define dir off where "dir = cur div block_pages" and "off = cur mod block_pages"
    obtain block where block: "tbl dir = Some block"
      using less.prems(3) True unfolding has_pages_def dir_def by blast
    have "off mod 8 = 0" using less.prems(2) unfolding off_def by (subst mod_mod_cancel) simp_all
    moreover have "off < block_pages" by (simp add: off_def)
    ultimately have off8: "off + 8 \<le> block_pages" by (auto simp flip: dvd_eq_mod_eq_0 elim!: dvdE)
    have p: "(if cur mod block_pages = 0 then (cur div block_pages, 0) else p) = (dir, off)"
      using less.prems(1) by (auto simp: dir_def off_def)
    have byte: "vbyte tbl (cur + k) = block (off + k)" if "k < 8" for k
    proof -
      have "cur mod block_pages + k < block_pages" using that off8 by (simp add: off_def)
      from same_block [OF this] have "(cur + k) div block_pages = dir" "(cur + k) mod block_pages = off + k"
        by (simp_all add: dir_def off_def)
      then show ?thesis using block by (simp add: vbyte_def vprot_at_def)
    qed
    define bs where "bs = map (\<lambda>k. block (off + k)) [0..<8]"
    have w: "read_word tbl (dir, off) = Some (word_of_bytes bs)"
      using off8 block by (simp add: read_word_def bs_def del: upt_rec_numeral)
    have differ: "(0x101010101010101 * ucast v XOR word_of_bytes bs) AND (0x101010101010101 * ucast msk) \<noteq> 0 \<longleftrightarrow>
        (\<exists>k < 8. (v XOR vbyte tbl (cur + k)) AND msk \<noteq> 0)"
      using byte by (subst words_differ) (auto simp: bs_def simp del: upt_rec_numeral)
    show ?thesis
    proof (cases "\<exists>k < 8. (v XOR vbyte tbl (cur + k)) AND msk \<noteq> 0")
      case ex: True
      then obtain k where k: "k < 8" "(v XOR vbyte tbl (cur + k)) AND msk \<noteq> 0" by blast
      have "off + (bound - cur) \<le> block_pages \<or> off + (first_diff tbl v msk cur bound - cur) < block_pages"
      proof (cases "cur + k < bound")
        case True
        then have "first_diff tbl v msk cur bound \<le> cur + k" using k(2) by (intro first_diff_at) simp_all
        then show ?thesis using k(1) off8 by linarith
      next
        case False
        then show ?thesis using k(1) off8 by linarith
      qed
      from byte_loop_spec [OF refl dir_def off_def block _ this]
      have "byte_loop tbl v msk cur bound (dir, off) = Some (first_diff tbl v msk cur bound < bound,
          first_diff tbl v msk cur bound, dir, off + (first_diff tbl v msk cur bound - cur))" using True by simp
      moreover have "word_loop tbl v msk sz start cur bound p =
          (do { (found, cur, p) \<leftarrow> byte_loop tbl v msk cur bound (dir, off); Some ((cur - start) * 4096) })"
        using True ex unfolding differ [symmetric] by (subst word_loop.simps) (simp only: p w Let_def if_True not_False_eq_True bind.bind_lunit)
      ultimately show ?thesis using True by simp
    next
      case same: False
      have step: "word_loop tbl v msk sz start cur bound p = word_loop tbl v msk sz start (cur + 8) bound (dir, off + 8)"
        using True same unfolding differ [symmetric] by (subst word_loop.simps) (simp only: p w Let_def if_True if_False not_True_eq_False bind.bind_lunit fst_conv snd_conv)
      have all: "(v XOR vbyte tbl idx) AND msk = 0" if "cur \<le> idx" "idx < cur + 8" for idx
        using same that by (metis add_diff_inverse_nat less_diff_conv2 linorder_not_less nat_add_left_cancel_less)
      have ih: "word_loop tbl v msk sz start (cur + 8) bound (dir, off + 8) =
          Some (if cur + 8 \<le> bound then (first_diff tbl v msk (cur + 8) bound - start) * 4096 else sz)"
      proof (rule less.hyps)
        show "bound - (cur + 8) < bound - cur" using True by simp
        show "(dir, off + 8) = ((cur + 8) div block_pages, (cur + 8) mod block_pages)" if "(cur + 8) mod block_pages \<noteq> 0"
        proof -
          have "off + 8 \<noteq> block_pages" using that mod_add_left_eq [of cur block_pages 8] unfolding off_def by auto
          then have "off + 8 < block_pages" using off8 by simp
          then show ?thesis using same_block [of cur 8] by (simp add: dir_def off_def)
        qed
        show "(cur + 8) mod 8 = 0" using less.prems(2) by simp
        show "has_pages tbl (cur + 8) bound" using less.prems(3) by (auto simp: has_pages_def)
        show "sz = (bound - start) * 4096" by (rule less.prems(4))
      qed
      show ?thesis
      proof (cases "cur + 8 \<le> bound")
        case True
        then have "first_diff tbl v msk cur bound = first_diff tbl v msk (cur + 8) bound"
          using all by (intro first_diff_skip) auto
        then show ?thesis unfolding step ih using True by simp
      next
        case False
        have "first_diff tbl v msk cur bound = first_diff tbl v msk bound bound"
          using all False True by (intro first_diff_skip) auto
        then show ?thesis unfolding step ih using False True less.prems(4) by simp
      qed
    qed
  qed
qed

lemma first_diff_prefix:
  assumes "a \<le> c" and "c \<le> b" and "first_diff tbl v msk a c < c"
  shows "first_diff tbl v msk a b = first_diff tbl v msk a c"
proof -
  let ?P = "\<lambda>idx. (v XOR vbyte tbl idx) AND msk = 0"
  have "length (takeWhile ?P [a..<c]) < length [a..<c]" using assms(1,3) by (simp add: first_diff_def)
  then have "\<not> ?P ([a..<c] ! length (takeWhile ?P [a..<c]))" by (rule nth_length_takeWhile)
  moreover have "[a..<c] ! length (takeWhile ?P [a..<c]) \<in> set [a..<c]"
    using \<open>length (takeWhile ?P [a..<c]) < length [a..<c]\<close> by (rule nth_mem)
  ultimately have "takeWhile ?P ([a..<c] @ [c..<b]) = takeWhile ?P [a..<c]" by (intro takeWhile_append1)
  then show ?thesis by (simp add: first_diff_def upt_split [OF assms(1,2)])
qed

lemma first_diff_all:
  "first_diff tbl v msk a b = b \<Longrightarrow> a \<le> b \<Longrightarrow> a \<le> idx \<Longrightarrow> idx < b \<Longrightarrow> (v XOR vbyte tbl idx) AND msk = 0"
  using first_diff_at [of a idx b v tbl msk] by fastforce

lemma round_up_8:
  fixes start :: nat
  shows "start \<le> (start + 7) div 8 * 8" and "start mod block_pages + ((start + 7) div 8 * 8 - start) \<le> block_pages"
    and "((start + 7) div 8 * 8) mod 8 = 0"
proof -
  show "start \<le> (start + 7) div 8 * 8" by simp
  define off where "off = start mod block_pages"
  define d where "d = start div block_pages"
  have s: "start = (d * 131072) * 8 + off" by (simp add: d_def off_def)
  have "(start + 7) div 8 = d * 131072 + (off + 7) div 8" unfolding s by simp
  moreover have "off < block_pages" by (simp add: off_def)
  then have "(off + 7) div 8 \<le> 131072" by simp
  ultimately have "(start + 7) div 8 * 8 \<le> d * 1048576 + 1048576" by simp
  then show "start mod block_pages + ((start + 7) div 8 * 8 - start) \<le> block_pages"
    unfolding off_def [symmetric] using s by linarith
qed simp

lemma vprot_range_first_diff:
  assumes "base mod 4096 = 0" and "sz mod 4096 = 0" and "0 < sz"
    and "has_pages tbl (page_of base) (page_of base + page_of sz)"
  shows "get_vprot_range_size base sz msk tbl = Some
    ((first_diff tbl (vbyte tbl (page_of base)) msk (page_of base) (page_of base + page_of sz) - page_of base) * 4096,
     vbyte tbl (page_of base))"
proof -
  define start bound where "start = page_of base" and "bound = start + page_of sz"
  define up where "up = (start + 7) div 8 * 8"
  define aligned where "aligned = (if bound < up then bound else up)"
  define dir off where "dir = start div block_pages" and "off = start mod block_pages"
  define v where "v = vbyte tbl start"
  let ?fd = "first_diff tbl v msk"
  have sz: "sz = (bound - start) * 4096" "start < bound"
    using assms(2,3) by (auto simp: bound_def page_of_def)
  note r8 = round_up_8 [of start, folded up_def]
  have al: "start \<le> aligned" "aligned \<le> bound" using r8(1) sz(2) by (auto simp: aligned_def)
  have hp: "has_pages tbl start bound" using assms(4) by (simp add: start_def bound_def)
  then obtain block where block: "tbl dir = Some block" using sz(2) unfolding has_pages_def dir_def by blast
  have rb: "read_byte tbl (dir, off) = Some v"
    using block by (simp add: read_byte_def v_def vbyte_def vprot_at_def dir_def off_def)
  have inb: "off + (aligned - start) \<le> block_pages"
    using r8(2) al unfolding aligned_def off_def by (auto split: if_splits)
  have bl: "byte_loop tbl v msk start aligned (dir, off) =
      Some (?fd start aligned < aligned, ?fd start aligned, dir, off + (?fd start aligned - start))"
    using inb al(1) block by (intro byte_loop_spec) (simp_all add: dir_def off_def)
  have eq: "get_vprot_range_size base sz msk tbl =
      (if ?fd start aligned < aligned then Some ((?fd start aligned - start) * 4096, v)
       else do { n \<leftarrow> word_loop tbl v msk sz start (?fd start aligned) bound (dir, off + (?fd start aligned - start)); Some (n, v) })"
    unfolding get_vprot_range_size_def Let_def start_def [symmetric] bound_def [symmetric] up_def [symmetric]
      aligned_def [symmetric] dir_def [symmetric] off_def [symmetric]
    by (simp add: rb bl)
  show ?thesis
  proof (cases "?fd start aligned < aligned")
    case True
    then have "?fd start bound = ?fd start aligned" using al by (intro first_diff_prefix)
    then show ?thesis unfolding eq using True by (simp add: start_def bound_def v_def)
  next
    case False
    then have fd: "?fd start aligned = aligned" using first_diff_le [OF al(1), of tbl v msk] by simp
    then have skip: "?fd start bound = ?fd aligned bound"
      using first_diff_all [OF fd al(1)] al by (intro first_diff_skip) auto
    have "word_loop tbl v msk sz start aligned bound (dir, off + (aligned - start)) = Some ((?fd aligned bound - start) * 4096)"
    proof (cases "aligned = bound")
      case True
      then show ?thesis using sz(1) by (subst word_loop.simps) simp
    next
      case False
      then have "aligned mod 8 = 0" using r8(3) al by (auto simp: aligned_def split: if_splits)
      moreover have "(dir, off + (aligned - start)) = (aligned div block_pages, aligned mod block_pages)"
        if "aligned mod block_pages \<noteq> 0"
      proof -
        have "aligned = start + (aligned - start)" using al by simp
        moreover have "off + (aligned - start) \<noteq> block_pages"
          using that mod_add_left_eq [of start block_pages "aligned - start"] al(1) unfolding off_def by auto
        then have "start mod block_pages + (aligned - start) < block_pages" using inb by (simp add: off_def)
        ultimately show ?thesis using same_block [of start "aligned - start"] by (simp add: dir_def off_def)
      qed
      moreover have "has_pages tbl aligned bound" using hp al(1) by (auto simp: has_pages_def)
      ultimately show ?thesis using word_loop_spec [of aligned "(dir, off + (aligned - start))" tbl bound sz start v msk] sz(1) al(2)
        by simp
    qed
    then show ?thesis unfolding eq using fd skip by (simp add: start_def bound_def v_def)
  qed
qed

section \<open>Changing the bytes of a range\<close>

text \<open>The bytes of the pages from \<open>a\<close> up to \<open>b\<close> are changed by \<open>f\<close>, nothing else.\<close>

definition bytes_changed :: "nat \<Rightarrow> nat \<Rightarrow> (u8 \<Rightarrow> u8) \<Rightarrow> vprot_table \<Rightarrow> vprot_table \<Rightarrow> bool" where
  "bytes_changed a b f tbl tbl' \<longleftrightarrow> (\<forall>d. tbl' d = None \<longleftrightarrow> tbl d = None) \<and>
     (\<forall>i. vbyte tbl' i = (if a \<le> i \<and> i < b then f (vbyte tbl i) else vbyte tbl i))"

lemma bytes_changed_empty [simp]: "b \<le> a \<Longrightarrow> bytes_changed a b f tbl tbl"
  by (auto simp: bytes_changed_def)

lemma bytes_changed_trans:
  assumes "bytes_changed a b f tbl tbl'" and "bytes_changed b c f tbl' tbl''" and "a \<le> b" and "b \<le> c"
  shows "bytes_changed a c f tbl tbl''"
  using assms unfolding bytes_changed_def by auto

lemma bytes_changed_pages: "bytes_changed a b f tbl tbl' \<Longrightarrow> has_pages tbl' c d \<longleftrightarrow> has_pages tbl c d"
  by (simp add: bytes_changed_def has_pages_def)

lemma has_pages_mono: "has_pages tbl a b \<Longrightarrow> a \<le> c \<Longrightarrow> d \<le> b \<Longrightarrow> has_pages tbl c d"
  by (auto simp: has_pages_def)

lemma upd_vprot_spec:
  assumes "has_pages tbl idx (Suc idx)"
  shows "\<exists>tbl'. upd_vprot idx f tbl = Some tbl' \<and> bytes_changed idx (Suc idx) f tbl tbl'"
proof -
  obtain block where b: "tbl (idx div block_pages) = Some block" using assms by (auto simp: has_pages_def)
  let ?tbl = "tbl(idx div block_pages \<mapsto> block(idx mod block_pages := f (block (idx mod block_pages))))"
  have "vbyte ?tbl i = (if i = idx then f (vbyte tbl i) else vbyte tbl i)" for i
  proof (cases "i div block_pages = idx div block_pages")
    case True
    then have "i mod block_pages = idx mod block_pages \<longleftrightarrow> i = idx" by (metis div_mod_decomp)
    then show ?thesis using b True by (auto simp: vbyte_def vprot_at_def)
  next
    case False
    then show ?thesis by (auto simp: vbyte_def vprot_at_def)
  qed
  then have "bytes_changed idx (Suc idx) f tbl ?tbl" using b by (auto simp: bytes_changed_def less_Suc_eq_le)
  then show ?thesis using b by (simp add: upd_vprot_def)
qed

lemma block_fill_spec:
  assumes "has_pages tbl idx (idx + n)" and "idx mod block_pages + n \<le> block_pages"
  shows "\<exists>tbl'. block_fill (idx div block_pages) (idx mod block_pages) n v tbl = Some tbl' \<and>
    bytes_changed idx (idx + n) (\<lambda>_. v) tbl tbl'"
proof (cases "n = 0")
  case False
  define dir off where "dir = idx div block_pages" and "off = idx mod block_pages"
  obtain block where b: "tbl dir = Some block" using assms(1) False by (auto simp: has_pages_def dir_def)
  let ?tbl = "tbl(dir \<mapsto> (\<lambda>i. if off \<le> i \<and> i < off + n then v else block i))"
  have "vbyte ?tbl i = (if idx \<le> i \<and> i < idx + n then v else vbyte tbl i)" for i
  proof (cases "i div block_pages = dir")
    case True
    have "i = dir * block_pages + i mod block_pages" "idx = dir * block_pages + off"
      using True div_mult_mod_eq [of i block_pages] div_mult_mod_eq [of idx block_pages] by (auto simp: dir_def off_def)
    then have "off \<le> i mod block_pages \<and> i mod block_pages < off + n \<longleftrightarrow> idx \<le> i \<and> i < idx + n" by linarith
    then show ?thesis using b True by (auto simp: vbyte_def vprot_at_def)
  next
    case False
    have "\<not> (idx \<le> i \<and> i < idx + n)"
    proof
      assume i: "idx \<le> i \<and> i < idx + n"
      then have "idx mod block_pages + (i - idx) < block_pages" using assms(2) by linarith
      from same_block(1) [OF this] i show False using False by (simp add: dir_def)
    qed
    then show ?thesis using False by (auto simp: vbyte_def vprot_at_def)
  qed
  then have "bytes_changed idx (idx + n) (\<lambda>_. v) tbl ?tbl" using b by (auto simp: bytes_changed_def)
  then show ?thesis using b assms(2) False unfolding dir_def off_def by (simp add: block_fill_def)
qed (simp add: block_fill_def)

lemma fill_loop_spec:
  assumes "idx \<le> bound" and "has_pages tbl idx bound"
  shows "\<exists>tbl'. fill_loop idx bound v tbl = Some tbl' \<and> bytes_changed idx bound (\<lambda>_. v) tbl tbl'"
  using assms
proof (induction "bound - idx" arbitrary: idx tbl rule: less_induct)
  case less
  have off: "idx mod block_pages < block_pages" by simp
  show ?case
  proof (cases "idx div block_pages = bound div block_pages")
    case True
    then have "idx mod block_pages + (bound - idx) \<le> block_pages"
      using less.prems(1) div_mult_mod_eq [of idx block_pages] div_mult_mod_eq [of bound block_pages]
        mod_less_divisor [of block_pages bound] by linarith
    then obtain tbl' where "block_fill (idx div block_pages) (idx mod block_pages) (bound - idx) v tbl = Some tbl'"
        "bytes_changed idx (idx + (bound - idx)) (\<lambda>_. v) tbl tbl'"
      using block_fill_spec [of tbl idx "bound - idx" v] less.prems by auto
    moreover from this(1) have "fill_loop idx bound v tbl = Some tbl'"
      using True less.prems(1) by (subst fill_loop.simps) simp
    ultimately show ?thesis using less.prems(1) by simp
  next
    case False
    define n where "n = block_pages - idx mod block_pages"
    have n: "0 < n" "idx mod block_pages + n \<le> block_pages" using off by (auto simp: n_def)
    have "idx div block_pages < bound div block_pages" using False less.prems(1) by (simp add: div_le_mono le_neq_implies_less)
    moreover have "idx + (m - idx mod m) \<le> bound" if "idx div m < bound div m" "0 < m" for m
    proof -
      have "(idx div m + 1) * m \<le> bound div m * m" using that(1) by (intro mult_le_mono1) simp
      then have "idx div m * m + m \<le> bound div m * m" by (simp add: algebra_simps)
      moreover have "bound div m * m \<le> bound" by (rule div_times_less_eq_dividend)
      ultimately show ?thesis using div_mult_mod_eq [of idx m] mod_less_divisor [OF that(2), of idx] by linarith
    qed
    ultimately have nb: "idx + n \<le> bound" by (simp add: n_def)
    obtain tbl1 where t1: "block_fill (idx div block_pages) (idx mod block_pages) n v tbl = Some tbl1"
        "bytes_changed idx (idx + n) (\<lambda>_. v) tbl tbl1"
      using block_fill_spec [of tbl idx n v] n(2) has_pages_mono [OF less.prems(2) order_refl nb] by blast
    have "has_pages tbl1 (idx + n) bound"
      using bytes_changed_pages [OF t1(2)] has_pages_mono [OF less.prems(2), of "idx + n" bound] by simp
    then obtain tbl' where "fill_loop (idx + n) bound v tbl1 = Some tbl'" "bytes_changed (idx + n) bound (\<lambda>_. v) tbl1 tbl'"
      using less.hyps [OF _ nb] n(1) nb by (metis diff_less_mono2 less_add_same_cancel1 order_less_le_trans)
    moreover have "fill_loop idx bound v tbl = fill_loop (idx + n) bound v tbl1"
      using False t1(1) by (subst fill_loop.simps) (simp add: n_def Let_def)
    ultimately show ?thesis using bytes_changed_trans [OF t1(2)] nb by auto
  qed
qed

lemma bits_loop_spec:
  assumes "has_pages tbl idx bound"
  shows "\<exists>tbl'. bits_loop idx bound on off tbl = Some tbl' \<and> bytes_changed idx bound (\<lambda>v. (v AND NOT off) OR on) tbl tbl'"
  using assms
proof (induction "bound - idx" arbitrary: idx tbl)
  case 0
  then show ?case by (subst bits_loop.simps) simp
next
  case (Suc n)
  let ?f = "\<lambda>v. (v AND NOT off) OR on"
  have lt: "idx < bound" using Suc.hyps(2) by simp
  obtain tbl1 where t1: "upd_vprot idx ?f tbl = Some tbl1" "bytes_changed idx (Suc idx) ?f tbl tbl1"
    using upd_vprot_spec [of tbl idx ?f] has_pages_mono [OF Suc.prems, of idx "Suc idx"] lt by auto
  have "has_pages tbl1 (Suc idx) bound"
    using bytes_changed_pages [OF t1(2)] has_pages_mono [OF Suc.prems, of "Suc idx" bound] by simp
  moreover have "n = bound - Suc idx" using Suc.hyps(2) by simp
  ultimately obtain tbl' where "bits_loop (Suc idx) bound on off tbl1 = Some tbl'" "bytes_changed (Suc idx) bound ?f tbl1 tbl'"
    using Suc.hyps(1) by blast
  then show ?case using bytes_changed_trans [OF t1(2)] t1(1) lt by (subst bits_loop.simps) auto
qed

lemma exec_write_loop_spec:
  assumes "has_pages tbl idx bound"
  shows "\<exists>tbl'. exec_write_loop idx bound ret tbl =
      Some (ret \<or> (\<exists>i. idx \<le> i \<and> i < bound \<and> is_vprot_exec_write (vbyte tbl i)), tbl') \<and>
    bytes_changed idx bound (\<lambda>v. if is_vprot_exec_write v then v OR VPROT_WRITEWATCH else v) tbl tbl'"
  using assms
proof (induction "bound - idx" arbitrary: idx tbl ret)
  case 0
  then show ?case by (subst exec_write_loop.simps) auto
next
  case (Suc n)
  let ?f = "\<lambda>v. if is_vprot_exec_write v then v OR VPROT_WRITEWATCH else v :: u8"
  have lt: "idx < bound" using Suc.hyps(2) by simp
  have n: "n = bound - Suc idx" using Suc.hyps(2) by simp
  have hp: "has_pages tbl idx (Suc idx)" using has_pages_mono [OF Suc.prems, of idx "Suc idx"] lt by simp
  then have at: "vprot_at tbl idx = Some (vbyte tbl idx)" by (auto simp: has_pages_def vbyte_def vprot_at_def)
  show ?case
  proof (cases "is_vprot_exec_write (vbyte tbl idx)")
    case False
    have "has_pages tbl (Suc idx) bound" using has_pages_mono [OF Suc.prems, of "Suc idx" bound] by simp
    from Suc.hyps(1) [OF n this, of ret] obtain tbl' where
        t: "exec_write_loop (Suc idx) bound ret tbl = Some (ret \<or> (\<exists>i. Suc idx \<le> i \<and> i < bound \<and> is_vprot_exec_write (vbyte tbl i)), tbl')"
        "bytes_changed (Suc idx) bound ?f tbl tbl'" by blast
    have "bytes_changed idx (Suc idx) ?f tbl tbl" using False by (auto simp: bytes_changed_def le_less_Suc_eq)
    then have "bytes_changed idx bound ?f tbl tbl'" using bytes_changed_trans [OF _ t(2)] lt by simp
    moreover have "(\<exists>i. Suc idx \<le> i \<and> i < bound \<and> is_vprot_exec_write (vbyte tbl i)) \<longleftrightarrow>
        (\<exists>i. idx \<le> i \<and> i < bound \<and> is_vprot_exec_write (vbyte tbl i))"
      using False by (metis Suc_leD Suc_leI le_neq_implies_less)
    ultimately show ?thesis using at False lt t(1) by (subst exec_write_loop.simps) simp
  next
    case True
    obtain tbl1 where t1: "upd_vprot idx (\<lambda>v. v OR VPROT_WRITEWATCH) tbl = Some tbl1"
        "bytes_changed idx (Suc idx) (\<lambda>v. v OR VPROT_WRITEWATCH) tbl tbl1"
      using upd_vprot_spec [OF hp] by blast
    have c1: "bytes_changed idx (Suc idx) ?f tbl tbl1" using t1(2) True by (auto simp: bytes_changed_def le_less_Suc_eq)
    have "has_pages tbl1 (Suc idx) bound"
      using bytes_changed_pages [OF t1(2)] has_pages_mono [OF Suc.prems, of "Suc idx" bound] by simp
    from Suc.hyps(1) [OF n this, of True] obtain tbl' where
        t: "exec_write_loop (Suc idx) bound True tbl1 = Some (True, tbl')" "bytes_changed (Suc idx) bound ?f tbl1 tbl'" by auto
    have "bytes_changed idx bound ?f tbl tbl'" using bytes_changed_trans [OF c1 t(2)] lt by simp
    then show ?thesis using at True lt t(1) t1(1) by (subst exec_write_loop.simps) auto
  qed
qed

text \<open>A range without wrap-around.\<close>

lemma page_end_nat: "addr + sz + 4095 < 2 ^ 64 \<Longrightarrow> page_end addr sz = (addr + sz + 4095) div 4096"
  by (simp add: page_end_def page_of_def add64_def)

lemma page_of_le_end: "addr + sz + 4095 < 2 ^ 64 \<Longrightarrow> page_of addr \<le> page_end addr sz"
  by (simp add: page_end_nat page_of_def div_le_mono)

lemma set_page_vprot_spec:
  assumes "addr + sz + 4095 < 2 ^ 64" and "has_pages tbl (page_of addr) (page_end addr sz)"
  shows "\<exists>tbl'. set_page_vprot addr sz v tbl = Some tbl' \<and>
    bytes_changed (page_of addr) (page_end addr sz) (\<lambda>_. v) tbl tbl'"
  using fill_loop_spec [OF page_of_le_end [OF assms(1)] assms(2)] by (simp add: set_page_vprot_def)

lemma set_page_vprot_bits_spec:
  assumes "has_pages tbl (page_of addr) (page_end addr sz)"
  shows "\<exists>tbl'. set_page_vprot_bits addr sz on off tbl = Some tbl' \<and>
    bytes_changed (page_of addr) (page_end addr sz) (\<lambda>v. (v AND NOT off) OR on) tbl tbl'"
  using bits_loop_spec [OF assms] by (simp add: set_page_vprot_bits_def)

text \<open>Blocks that are allocated are zero, and blocks that were there are kept.\<close>

lemma alloc_blocks_keeps: "tbl d = Some block \<Longrightarrow> snd (alloc_blocks ok i n tbl) d = Some block"
proof (induction ok i n tbl rule: alloc_blocks.induct)
  case (1 ok i n tbl)
  then show ?case by (cases "d = i"; subst alloc_blocks.simps) (auto simp flip: fun_upd_def)
qed

lemma alloc_blocks_vbyte: "vbyte (snd (alloc_blocks ok i n tbl)) idx = vbyte tbl idx"
proof (induction ok i n tbl rule: alloc_blocks.induct)
  case (1 ok i n tbl)
  have "tbl i = None \<Longrightarrow> vbyte (tbl(i \<mapsto> (\<lambda>_. 0))) idx = vbyte tbl idx" by (auto simp: vbyte_def vprot_at_def)
  then show ?case using 1 by (subst alloc_blocks.simps) (auto simp flip: fun_upd_def)
qed

lemma alloc_blocks_there:
  "fst (alloc_blocks ok i n tbl) \<Longrightarrow> i \<le> d \<Longrightarrow> d < n \<Longrightarrow> snd (alloc_blocks ok i n tbl) d \<noteq> None"
proof (induction ok i n tbl rule: alloc_blocks.induct)
  case (1 ok i n tbl)
  have lt: "i < n" using 1(4,5) by simp
  show ?case
  proof (cases "tbl i \<noteq> None")
    case True
    then have eq: "alloc_blocks ok i n tbl = alloc_blocks ok (i + 1) n tbl" using lt by (subst alloc_blocks.simps) simp
    show ?thesis
    proof (cases "d = i")
      case True
      then show ?thesis using alloc_blocks_keeps [of tbl i _ ok "i + 1" n] \<open>tbl i \<noteq> None\<close> unfolding eq by auto
    next
      case False
      then show ?thesis using 1(1) [OF lt True] 1(3-) unfolding eq by simp
    qed
  next
    case none: False
    then have ok: "ok i" using 1(3) lt by (subst (asm) alloc_blocks.simps) (auto split: if_splits)
    let ?tbl = "tbl(i \<mapsto> (\<lambda>_. 0))"
    have eq: "alloc_blocks ok i n tbl = alloc_blocks ok (i + 1) n ?tbl"
      using lt none ok by (subst alloc_blocks.simps) simp
    show ?thesis
    proof (cases "d = i")
      case True
      then show ?thesis using alloc_blocks_keeps [of ?tbl i _ ok "i + 1" n] unfolding eq by auto
    next
      case False
      then show ?thesis using 1(2) [OF lt none] ok 1(3-) unfolding eq by (simp flip: fun_upd_def)
    qed
  qed
qed

section \<open>Properties\<close>

text \<open>
  C30: The size of a region is found by comparing eight protection bytes at a time, over the blocks of the table;
  the result is what a comparison page by page gives: the longest run of pages from the first one
  whose bytes agree with its byte under the mask.
\<close>
theorem range_size_page_by_page:
  assumes "base mod 4096 = 0" and "sz mod 4096 = 0" and "0 < sz"
    and "has_pages tbl (page_of base) (page_of base + page_of sz)"
  shows "get_vprot_range_size base sz msk tbl = Some
    (4096 * length (takeWhile (\<lambda>idx. (vbyte tbl (page_of base) XOR vbyte tbl idx) AND msk = 0)
       [page_of base..<page_of base + page_of sz]),
     vbyte tbl (page_of base))"
  using vprot_range_first_diff [OF assms, of msk] by (simp add: first_diff_def)

text \<open>Nineteen committed pages from page 5 on, the last four writable; the mask selects the write bit.\<close>

definition sample_vprot :: vprot_table where
  "sample_vprot = [0 \<mapsto> (\<lambda>i. if 20 \<le> i then 0x23 else 0x21)]"

theorem range_size_page_by_page_witness:
  "get_vprot_range_size 0x5000 0x13000 VPROT_WRITE sample_vprot = Some (0xf000, 0x21)"
proof -
  have "has_pages sample_vprot (page_of 0x5000) (page_of 0x5000 + page_of 0x13000)"
    by (auto simp: has_pages_def sample_vprot_def page_of_def)
  from range_size_page_by_page [OF _ _ _ this] show ?thesis
    by (simp add: page_of_def sample_vprot_def vbyte_def vprot_at_def upt_rec)
qed

end
