(* ===== verification/Page_Prot.thy ===== *)
theory Page_Prot
  imports Page_Vprot
begin

text \<open>
  dlls/ntdll/unix/virtual.c: from the protection of the caller to the protection byte of a page and from
  there to the protection that the kernel enforces. The kernel is a map from pages to protections;
  which calls of \<open>mprotect\<close> succeed is a parameter.
\<close>

section \<open>Protections\<close>

abbreviation (input) PAGE_NOACCESS :: u32 where "PAGE_NOACCESS \<equiv> 0x01"
abbreviation (input) PAGE_READONLY :: u32 where "PAGE_READONLY \<equiv> 0x02"
abbreviation (input) PAGE_READWRITE :: u32 where "PAGE_READWRITE \<equiv> 0x04"
abbreviation (input) PAGE_WRITECOPY :: u32 where "PAGE_WRITECOPY \<equiv> 0x08"
abbreviation (input) PAGE_EXECUTE :: u32 where "PAGE_EXECUTE \<equiv> 0x10"
abbreviation (input) PAGE_EXECUTE_READ :: u32 where "PAGE_EXECUTE_READ \<equiv> 0x20"
abbreviation (input) PAGE_EXECUTE_READWRITE :: u32 where "PAGE_EXECUTE_READWRITE \<equiv> 0x40"
abbreviation (input) PAGE_EXECUTE_WRITECOPY :: u32 where "PAGE_EXECUTE_WRITECOPY \<equiv> 0x80"
abbreviation (input) PAGE_GUARD :: u32 where "PAGE_GUARD \<equiv> 0x100"
abbreviation (input) PAGE_NOCACHE :: u32 where "PAGE_NOCACHE \<equiv> 0x200"

abbreviation (input) SEC_FILE :: u32 where "SEC_FILE \<equiv> 0x800000"
abbreviation (input) SEC_IMAGE :: u32 where "SEC_IMAGE \<equiv> 0x1000000"
abbreviation (input) SEC_RESERVE :: u32 where "SEC_RESERVE \<equiv> 0x4000000"
abbreviation (input) SEC_COMMIT :: u32 where "SEC_COMMIT \<equiv> 0x8000000"
abbreviation (input) SEC_NOCACHE :: u32 where "SEC_NOCACHE \<equiv> 0x10000000"

abbreviation (input) PROT_NONE :: u32 where "PROT_NONE \<equiv> 0"
abbreviation (input) PROT_READ :: u32 where "PROT_READ \<equiv> 1"
abbreviation (input) PROT_WRITE :: u32 where "PROT_WRITE \<equiv> 2"
abbreviation (input) PROT_EXEC :: u32 where "PROT_EXEC \<equiv> 4"

abbreviation (input) STATUS_INVALID_PAGE_PROTECTION :: ntstatus where "STATUS_INVALID_PAGE_PROTECTION \<equiv> 0xC0000045"

text \<open>\<open>use_kernel_writewatch\<close>, \<open>force_exec_prot\<close>, \<open>enable_write_exceptions\<close>, and the outcome of \<open>mprotect\<close>.\<close>

record protcfg =
  pc_kernel_watch :: bool
  pc_force_exec :: bool
  pc_write_exceptions :: bool
  pc_mprotect_ok :: "nat \<Rightarrow> nat \<Rightarrow> u32 \<Rightarrow> bool"

definition VIRTUAL_Win32Flags :: "u32 list" where
  "VIRTUAL_Win32Flags =
     [PAGE_NOACCESS, PAGE_READONLY, PAGE_READWRITE, PAGE_READWRITE,
      PAGE_EXECUTE, PAGE_EXECUTE_READ, PAGE_EXECUTE_READWRITE, PAGE_EXECUTE_READWRITE,
      PAGE_WRITECOPY, PAGE_WRITECOPY, PAGE_WRITECOPY, PAGE_WRITECOPY,
      PAGE_EXECUTE_WRITECOPY, PAGE_EXECUTE_WRITECOPY, PAGE_EXECUTE_WRITECOPY, PAGE_EXECUTE_WRITECOPY]"

definition get_win32_prot :: "u8 \<Rightarrow> u32 \<Rightarrow> u32" where
  "get_win32_prot vprot map_prot =
     (let vprot = (if vprot AND (VPROT_COPIED OR VPROT_WRITECOPY) = VPROT_COPIED OR VPROT_WRITECOPY
                   then (vprot AND NOT VPROT_WRITECOPY) OR VPROT_WRITE else vprot);
          ret = VIRTUAL_Win32Flags ! unat (vprot AND 0x0f);
          ret = (if vprot AND VPROT_GUARD \<noteq> 0 then ret OR PAGE_GUARD else ret)
      in if map_prot AND SEC_NOCACHE \<noteq> 0 then ret OR PAGE_NOCACHE else ret)"

definition get_vprot_flags :: "u32 \<Rightarrow> bool \<Rightarrow> ntstatus + u32" where
  "get_vprot_flags protect img =
     (let guard = (\<lambda>v. Inr (if protect AND PAGE_GUARD \<noteq> 0 then v OR VPROT_GUARD else v))
      in if protect AND 0xff = PAGE_READONLY then guard VPROT_READ
         else if protect AND 0xff = PAGE_READWRITE
         then guard (if img then VPROT_READ OR VPROT_WRITECOPY else VPROT_READ OR VPROT_WRITE)
         else if protect AND 0xff = PAGE_WRITECOPY then guard (VPROT_READ OR VPROT_WRITECOPY)
         else if protect AND 0xff = PAGE_EXECUTE then guard VPROT_EXEC
         else if protect AND 0xff = PAGE_EXECUTE_READ then guard (VPROT_EXEC OR VPROT_READ)
         else if protect AND 0xff = PAGE_EXECUTE_READWRITE
         then guard (if img then VPROT_EXEC OR VPROT_READ OR VPROT_WRITECOPY else VPROT_EXEC OR VPROT_READ OR VPROT_WRITE)
         else if protect AND 0xff = PAGE_EXECUTE_WRITECOPY then guard (VPROT_EXEC OR VPROT_READ OR VPROT_WRITECOPY)
         else if protect AND 0xff = PAGE_NOACCESS then guard 0
         else Inl STATUS_INVALID_PAGE_PROTECTION)"

definition get_unix_prot :: "protcfg \<Rightarrow> u8 \<Rightarrow> u32" where
  "get_unix_prot cfg vprot =
     (if vprot AND VPROT_COMMITTED \<noteq> 0 \<and> vprot AND VPROT_GUARD = 0
      then let prot = (if vprot AND VPROT_READ \<noteq> 0 then PROT_READ else 0);
               prot = (if vprot AND VPROT_WRITE \<noteq> 0 then prot OR PROT_WRITE OR PROT_READ else prot);
               prot = (if vprot AND VPROT_WRITECOPY \<noteq> 0 then prot OR PROT_WRITE OR PROT_READ else prot);
               prot = (if vprot AND VPROT_EXEC \<noteq> 0 then prot OR PROT_EXEC OR PROT_READ else prot);
               prot = (if vprot AND VPROT_WRITEWATCH \<noteq> 0 \<and> \<not> pc_kernel_watch cfg then prot AND NOT PROT_WRITE else prot)
           in prot
      else PROT_NONE)"

section \<open>The kernel\<close>

type_synonym kprot = "nat \<Rightarrow> u32"

text \<open>\<open>mprotect\<close> on whole pages; a failed call changes nothing.\<close>

definition kernel_mprotect :: "protcfg \<Rightarrow> nat \<Rightarrow> nat \<Rightarrow> u32 \<Rightarrow> kprot \<Rightarrow> bool \<times> kprot" where
  "kernel_mprotect cfg base sz prot k =
     (if pc_mprotect_ok cfg base sz prot
      then (True, \<lambda>p. if page_of base \<le> p \<and> p < page_of base + sz div 4096 then prot else k p)
      else (False, k))"

definition mprotect_exec :: "protcfg \<Rightarrow> nat \<Rightarrow> nat \<Rightarrow> u32 \<Rightarrow> kprot \<Rightarrow> bool \<times> kprot" where
  "mprotect_exec cfg base sz prot k =
     (if pc_force_exec cfg \<and> prot AND PROT_READ \<noteq> 0 \<and> prot AND PROT_EXEC = 0
      then let (ok, k1) = kernel_mprotect cfg base sz (prot OR PROT_EXEC) k
           in if ok then (True, k1)
              else if prot AND PROT_WRITE = 0 then (False, k1)
              else kernel_mprotect cfg base sz prot k1
      else kernel_mprotect cfg base sz prot k)"

text \<open>Pages with equal protections are changed by one call; \<open>prots\<close> gives the protection at an address.\<close>

function mprotect_loop :: "protcfg \<Rightarrow> (nat \<Rightarrow> u32) \<Rightarrow> nat \<Rightarrow> nat \<Rightarrow> nat \<Rightarrow> nat \<Rightarrow> u32 \<Rightarrow> kprot \<Rightarrow> kprot" where
  "mprotect_loop cfg prots i n count addr prot k =
     (if i < n
      then let nxt = prots (add64 addr (count * 4096))
           in if nxt = prot then mprotect_loop cfg prots (i + 1) n (count + 1) addr prot k
              else mprotect_loop cfg prots (i + 1) n 1 (add64 addr (count * 4096)) nxt
                     (snd (mprotect_exec cfg addr (count * 4096) prot k))
      else if count \<noteq> 0 then snd (mprotect_exec cfg addr (count * 4096) prot k) else k)"
  by pat_completeness auto
termination by (relation "measure (\<lambda>(cfg, prots, i, n, count, addr, prot, k). n - i)") auto

declare mprotect_loop.simps [simp del]

definition mprotect_range :: "protcfg \<Rightarrow> nat \<Rightarrow> vprot_table \<Rightarrow> nat \<Rightarrow> nat \<Rightarrow> u8 \<Rightarrow> u8 \<Rightarrow> kprot \<Rightarrow> kprot" where
  "mprotect_range cfg dirs tbl base sz on off k =
     (let addr = round_addr base page_mask;
          sz = round_addr (add64 (add64 sz (base mod 4096)) page_mask) page_mask;
          prots = (\<lambda>a. get_unix_prot cfg ((get_page_vprot dirs a tbl AND NOT off) OR on))
      in mprotect_loop cfg prots 1 (page_of sz) 1 addr (prots addr) k)"

text \<open>The protection of a range of pages changes; \<open>view_protect\<close> are the flags of the view.\<close>

definition set_vprot ::
  "protcfg \<Rightarrow> nat \<Rightarrow> u32 \<Rightarrow> nat \<Rightarrow> nat \<Rightarrow> u8 \<Rightarrow> vprot_table \<times> kprot \<Rightarrow> (bool \<times> vprot_table \<times> kprot) option" where
  "set_vprot cfg dirs view_protect base sz vprot tk =
     (let (tbl, k) = tk
      in if \<not> pc_kernel_watch cfg \<and> view_protect AND VPROT_WRITEWATCH \<noteq> 0
         then do {
           tbl \<leftarrow> set_page_vprot_bits base sz (vprot AND NOT VPROT_WRITEWATCH) (NOT vprot AND NOT VPROT_WRITEWATCH) tbl;
           Some (True, tbl, mprotect_range cfg dirs tbl base sz 0 0 k)
         }
         else let vprot = (if pc_write_exceptions cfg \<and> is_vprot_exec_write vprot then vprot OR VPROT_WRITEWATCH else vprot);
                  (ok, k) = mprotect_exec cfg base sz (get_unix_prot cfg vprot) k
              in if \<not> ok then Some (False, tbl, k)
                 else do { tbl \<leftarrow> set_page_vprot base sz vprot tbl; Some (True, tbl, k) })"

text \<open>Setting and clearing the watch flag; kernel write watches are not under the control of this code.\<close>

definition update_write_watches ::
  "protcfg \<Rightarrow> nat \<Rightarrow> nat \<Rightarrow> nat \<Rightarrow> nat \<Rightarrow> vprot_table \<times> kprot \<Rightarrow> (vprot_table \<times> kprot) option" where
  "update_write_watches cfg dirs base sz accessed_size tk =
     do {
       tbl \<leftarrow> set_page_vprot_bits base accessed_size 0 VPROT_WRITEWATCH (fst tk);
       Some (tbl, mprotect_range cfg dirs tbl base sz 0 0 (snd tk))
     }"

definition reset_write_watches ::
  "protcfg \<Rightarrow> nat \<Rightarrow> nat \<Rightarrow> nat \<Rightarrow> vprot_table \<times> kprot \<Rightarrow> (vprot_table \<times> kprot) option" where
  "reset_write_watches cfg dirs base sz tk =
     (if pc_kernel_watch cfg then Some tk
      else do {
        tbl \<leftarrow> set_page_vprot_bits base sz VPROT_WRITEWATCH 0 (fst tk);
        Some (tbl, mprotect_range cfg dirs tbl base sz 0 0 (snd tk))
      })"

section \<open>Protections of the caller\<close>

lemma and_one_bit: "w AND 2 ^ k = (if bit w k then 2 ^ k else 0)" for w :: "'a::len word"
  by (rule bit_eqI) (auto simp: bit_simps)

text \<open>
  C31: The protection of the caller survives the translation to a protection byte and back: a status is
  returned for anything but the eight protections; otherwise a later query gives the same protection
  with its guard flag, except that in an image a writable page is a write-copy page.
\<close>
theorem protection_roundtrip:
  "(case get_vprot_flags protect img of
      Inl status \<Rightarrow> status = STATUS_INVALID_PAGE_PROTECTION \<and>
        protect AND 0xff \<notin> {PAGE_NOACCESS, PAGE_READONLY, PAGE_READWRITE, PAGE_WRITECOPY,
          PAGE_EXECUTE, PAGE_EXECUTE_READ, PAGE_EXECUTE_READWRITE, PAGE_EXECUTE_WRITECOPY}
    | Inr v \<Rightarrow> get_win32_prot (ucast (v OR VPROT_COMMITTED)) 0 =
        (if img \<and> protect AND 0xff = PAGE_READWRITE then PAGE_WRITECOPY
         else if img \<and> protect AND 0xff = PAGE_EXECUTE_READWRITE then PAGE_EXECUTE_WRITECOPY
         else protect AND 0xff) OR protect AND PAGE_GUARD)"
proof -
  consider (guard) "protect AND PAGE_GUARD = PAGE_GUARD" | (plain) "protect AND PAGE_GUARD = 0"
  proof -
    have "protect AND PAGE_GUARD = (if bit protect 8 then PAGE_GUARD else 0)" using and_one_bit [of protect 8] by simp
    then show thesis using that by (auto split: if_splits)
  qed
  then show ?thesis
  proof cases
    case guard
    then show ?thesis
      by (auto simp: get_vprot_flags_def get_win32_prot_def VIRTUAL_Win32Flags_def Let_def)
  next
    case plain
    then show ?thesis
      by (auto simp: get_vprot_flags_def get_win32_prot_def VIRTUAL_Win32Flags_def Let_def)
  qed
qed

section \<open>Protections in the kernel\<close>

text \<open>Pages that are readable are also executable when that is forced.\<close>

definition forced_prot :: "protcfg \<Rightarrow> u32 \<Rightarrow> u32" where
  "forced_prot cfg prot =
     (if pc_force_exec cfg \<and> prot AND PROT_READ \<noteq> 0 \<and> prot AND PROT_EXEC = 0 then prot OR PROT_EXEC else prot)"

definition mprotect_works :: "protcfg \<Rightarrow> bool" where
  "mprotect_works cfg \<longleftrightarrow> (\<forall>base sz prot. pc_mprotect_ok cfg base sz prot)"

lemma mprotect_exec_works:
  "mprotect_works cfg \<Longrightarrow> mprotect_exec cfg base sz prot k =
     (True, \<lambda>p. if page_of base \<le> p \<and> p < page_of base + sz div 4096 then forced_prot cfg prot else k p)"
  by (auto simp: mprotect_exec_def kernel_mprotect_def mprotect_works_def forced_prot_def)

lemma page_of_mult [simp]: "page_of (a * 4096) = a"
  by (simp add: page_of_def)

lemma one_page: "\<forall>p. a \<le> p \<and> p < a + 1 \<longrightarrow> prots (p * 4096) = prots (a * 4096)" for a :: nat
  by (metis Suc_eq_plus1 le_antisym less_Suc_eq_le)

lemma mprotect_loop_spec:
  assumes "mprotect_works cfg" and "(a + count + (n - i)) * 4096 \<le> 2 ^ 64" and "0 < count"
    and "\<forall>p. a \<le> p \<and> p < a + count \<longrightarrow> prots (p * 4096) = prot"
  shows "mprotect_loop cfg prots i n count (a * 4096) prot k =
    (\<lambda>p. if a \<le> p \<and> p < a + count + (n - i) then forced_prot cfg (prots (p * 4096)) else k p)"
  using assms
proof (induction "n - i" arbitrary: i count a prot k)
  case 0
  then show ?case by (subst mprotect_loop.simps) (auto simp: mprotect_exec_works fun_eq_iff)
next
  case (Suc m)
  have lt: "i < n" and m: "m = n - (i + 1)" using Suc.hyps(2) by linarith+
  have nxt: "add64 (a * 4096) (count * 4096) = (a + count) * 4096"
  proof -
    have "(a + count) * 4096 < (a + count + (n - i)) * 4096" using lt by simp
    then have "(a + count) * 4096 < 2 ^ 64" using Suc.prems(2) by (rule less_le_trans)
    then show ?thesis by (simp only: add64_def add_mult_distrib [symmetric] mod_less)
  qed
  show ?case
  proof (cases "prots ((a + count) * 4096) = prot")
    case True
    have "mprotect_loop cfg prots i n count (a * 4096) prot k = mprotect_loop cfg prots (i + 1) n (count + 1) (a * 4096) prot k"
      using lt True nxt by (subst mprotect_loop.simps) simp
    moreover have "\<forall>p. a \<le> p \<and> p < a + (count + 1) \<longrightarrow> prots (p * 4096) = prot"
      using Suc.prems(4) True by (auto simp: less_Suc_eq)
    moreover have eq: "a + (count + 1) + (n - (i + 1)) = a + count + (n - i)" using lt by simp
    ultimately show ?thesis
      using Suc.hyps(1) [OF m Suc.prems(1), of a "count + 1" prot k, unfolded eq, OF Suc.prems(2)] by simp
  next
    case False
    define k1 where "k1 = (\<lambda>p. if a \<le> p \<and> p < a + count then forced_prot cfg prot else k p)"
    have "snd (mprotect_exec cfg (a * 4096) (count * 4096) prot k) = k1"
      using Suc.prems(1) by (simp add: mprotect_exec_works k1_def)
    then have "mprotect_loop cfg prots i n count (a * 4096) prot k =
        mprotect_loop cfg prots (i + 1) n 1 ((a + count) * 4096) (prots ((a + count) * 4096)) k1"
      using lt False nxt by (subst mprotect_loop.simps) simp
    also have "\<dots> = (\<lambda>p. if a + count \<le> p \<and> p < a + count + 1 + (n - (i + 1)) then forced_prot cfg (prots (p * 4096)) else k1 p)"
      using Suc.prems(2) lt by (intro Suc.hyps(1) [OF m Suc.prems(1)] one_page) simp_all
    also have "\<dots> = (\<lambda>p. if a \<le> p \<and> p < a + count + (n - i) then forced_prot cfg (prots (p * 4096)) else k p)"
      using lt Suc.prems(4) by (auto simp: fun_eq_iff k1_def)
    finally show ?thesis .
  qed
qed

lemma mprotect_loop_first:
  assumes "mprotect_works cfg" and "(a + n) * 4096 \<le> 2 ^ 64" and "0 < n"
  shows "mprotect_loop cfg prots 1 n 1 (a * 4096) (prots (a * 4096)) k =
    (\<lambda>p. if a \<le> p \<and> p < a + n then forced_prot cfg (prots (p * 4096)) else k p)"
  using mprotect_loop_spec [of cfg a 1 n 1 prots "prots (a * 4096)" k, OF assms(1) _ _ one_page] assms(2,3) by simp

text \<open>The directory of the table reaches as far as the range.\<close>

definition table_covers :: "nat \<Rightarrow> vprot_table \<Rightarrow> nat \<Rightarrow> nat \<Rightarrow> bool" where
  "table_covers dirs tbl base sz \<longleftrightarrow> base + sz + 4095 < 2 ^ 64 \<and> page_end base sz \<le> dirs * block_pages \<and>
     has_pages tbl (page_of base) (page_end base sz)"

lemma get_page_vprot_there:
  "p < dirs * block_pages \<Longrightarrow> get_page_vprot dirs (p * 4096) tbl = vbyte tbl p"
  using less_mult_imp_div_less [of p dirs block_pages] by (simp add: get_page_vprot_def Let_def vbyte_def)

lemma page_end_split:
  assumes "base + sz + 4095 < 2 ^ 64"
  shows "page_end base sz = page_of base + (sz + base mod 4096 + 4095) div 4096"
proof -
  have "base + sz + 4095 = (sz + base mod 4096 + 4095) + page_of base * 4096"
    using div_mult_mod_eq [of base 4096] by (simp add: page_of_def)
  then show ?thesis using assms by (simp add: page_end_nat)
qed

lemma mprotect_range_spec:
  assumes "mprotect_works cfg" and "table_covers dirs tbl base sz" and "0 < sz"
  shows "mprotect_range cfg dirs tbl base sz on off k =
    (\<lambda>p. if page_of base \<le> p \<and> p < page_end base sz
          then forced_prot cfg (get_unix_prot cfg ((vbyte tbl p AND NOT off) OR on)) else k p)"
proof -
  have t: "base + sz + 4095 < 2 ^ 64" "page_end base sz \<le> dirs * block_pages" using assms(2) by (auto simp: table_covers_def)
  define a where "a = page_of base"
  define n where "n = (sz + base mod 4096 + 4095) div 4096"
  have n: "0 < n" "page_end base sz = a + n"
    using assms(3) page_end_split [OF t(1)] by (auto simp: n_def a_def)
  have "sz + base mod 4096 + 4095 < 2 ^ 64" using t(1) mod_less_eq_dividend [of base 4096] by linarith
  then have size: "page_of (round_addr (add64 (add64 sz (base mod 4096)) page_mask) page_mask) = n"
    by (simp add: add64_def round_addr_def n_def)
  have addr: "round_addr base page_mask = a * 4096" by (simp add: round_addr_def a_def page_of_def)
  have "(a + n) * 4096 \<le> base + sz + 4095"
    unfolding n(2) [symmetric] page_end_nat [OF t(1)] by (rule div_times_less_eq_dividend)
  then have "(a + n) * 4096 \<le> 2 ^ 64" using t(1) by (meson le_less_trans less_imp_le)
  then have "mprotect_range cfg dirs tbl base sz on off k = (\<lambda>p. if a \<le> p \<and> p < a + n
      then forced_prot cfg (get_unix_prot cfg ((get_page_vprot dirs (p * 4096) tbl AND NOT off) OR on)) else k p)"
    unfolding mprotect_range_def Let_def size addr
    using n(1) by (intro mprotect_loop_first assms(1))
  then show ?thesis using t(2) n by (auto simp: fun_eq_iff get_page_vprot_there a_def)
qed

text \<open>The kernel enforces the protection bytes of a range.\<close>

definition kernel_agrees :: "protcfg \<Rightarrow> vprot_table \<Rightarrow> kprot \<Rightarrow> nat \<Rightarrow> nat \<Rightarrow> bool" where
  "kernel_agrees cfg tbl k a b \<longleftrightarrow> (\<forall>p. a \<le> p \<and> p < b \<longrightarrow> k p = forced_prot cfg (get_unix_prot cfg (vbyte tbl p)))"

text \<open>The byte a page gets: pages of a view with write watches keep their own watch flag.\<close>

definition new_vprot :: "protcfg \<Rightarrow> u32 \<Rightarrow> u8 \<Rightarrow> u8 \<Rightarrow> u8" where
  "new_vprot cfg view_protect vprot old =
     (if \<not> pc_kernel_watch cfg \<and> view_protect AND VPROT_WRITEWATCH \<noteq> 0
      then (vprot AND NOT VPROT_WRITEWATCH) OR (old AND VPROT_WRITEWATCH)
      else if pc_write_exceptions cfg \<and> is_vprot_exec_write vprot then vprot OR VPROT_WRITEWATCH else vprot)"

lemma watch_bits:
  fixes old vprot watch :: u8
  shows "(old AND NOT (NOT vprot AND NOT watch)) OR (vprot AND NOT watch) = (vprot AND NOT watch) OR (old AND watch)"
  by (rule bit_eqI) (auto simp: bit_simps)

lemma no_change: "(v AND NOT 0) OR 0 = v" for v :: u8
  by (rule bit_eqI) (auto simp: bit_simps)

lemma set_vprot_spec:
  assumes "mprotect_works cfg" and "table_covers dirs tbl base sz" and "0 < sz" and "base mod 4096 = 0" and "sz mod 4096 = 0"
  shows "\<exists>tbl' k'. set_vprot cfg dirs view_protect base sz vprot (tbl, k) = Some (True, tbl', k') \<and>
    bytes_changed (page_of base) (page_end base sz) (new_vprot cfg view_protect vprot) tbl tbl' \<and>
    kernel_agrees cfg tbl' k' (page_of base) (page_end base sz) \<and>
    (\<forall>p. \<not> (page_of base \<le> p \<and> p < page_end base sz) \<longrightarrow> k' p = k p)"
proof -
  have t: "base + sz + 4095 < 2 ^ 64" "has_pages tbl (page_of base) (page_end base sz)" using assms(2) by (auto simp: table_covers_def)
  have covers: "table_covers dirs tbl' base sz" if "bytes_changed a b f tbl tbl'" for a b f tbl'
    using assms(2) bytes_changed_pages [OF that] by (simp add: table_covers_def)
  show ?thesis
  proof (cases "\<not> pc_kernel_watch cfg \<and> view_protect AND VPROT_WRITEWATCH \<noteq> 0")
    case True
    then have new: "new_vprot cfg view_protect vprot = (\<lambda>old. (vprot AND NOT VPROT_WRITEWATCH) OR (old AND VPROT_WRITEWATCH))"
      by (simp add: new_vprot_def fun_eq_iff)
    obtain tbl' where b: "set_page_vprot_bits base sz (vprot AND NOT VPROT_WRITEWATCH) (NOT vprot AND NOT VPROT_WRITEWATCH) tbl = Some tbl'"
        "bytes_changed (page_of base) (page_end base sz) (new_vprot cfg view_protect vprot) tbl tbl'"
      using set_page_vprot_bits_spec [OF t(2), of "vprot AND NOT VPROT_WRITEWATCH" "NOT vprot AND NOT VPROT_WRITEWATCH"]
      unfolding new watch_bits by blast
    have m: "mprotect_range cfg dirs tbl' base sz 0 0 k = (\<lambda>p. if page_of base \<le> p \<and> p < page_end base sz
        then forced_prot cfg (get_unix_prot cfg (vbyte tbl' p)) else k p)"
      using mprotect_range_spec [OF assms(1) covers [OF b(2)] assms(3), of 0 0 k] unfolding no_change .
    have "set_vprot cfg dirs view_protect base sz vprot (tbl, k) = Some (True, tbl', mprotect_range cfg dirs tbl' base sz 0 0 k)"
      using True b(1) by (simp add: set_vprot_def)
    then show ?thesis using b(2) unfolding m by (auto simp: kernel_agrees_def)
  next
    case False
    define v where "v = (if pc_write_exceptions cfg \<and> is_vprot_exec_write vprot then vprot OR VPROT_WRITEWATCH else vprot)"
    have new: "new_vprot cfg view_protect vprot = (\<lambda>_. v)" using False by (auto simp: new_vprot_def v_def fun_eq_iff)
    obtain tbl' where b: "set_page_vprot base sz v tbl = Some tbl'"
        "bytes_changed (page_of base) (page_end base sz) (\<lambda>_. v) tbl tbl'"
      using set_page_vprot_spec [OF t, of v] by blast
    have pe: "page_end base sz = page_of base + sz div 4096"
    proof -
      have "sz mod 4096 = 0" "base mod 4096 = 0" by fact+
      then have "(sz + base mod 4096 + 4095) div 4096 = sz div 4096" by (auto simp flip: dvd_eq_mod_eq_0 elim!: dvdE)
      then show ?thesis using page_end_split [OF t(1)] by simp
    qed
    define k' where "k' = (\<lambda>p. if page_of base \<le> p \<and> p < page_end base sz then forced_prot cfg (get_unix_prot cfg v) else k p)"
    have "set_vprot cfg dirs view_protect base sz vprot (tbl, k) = Some (True, tbl', k')"
      using b(1) unfolding set_vprot_def Let_def prod.case if_not_P [OF False] v_def [symmetric] k'_def pe
      by (simp add: mprotect_exec_works [OF assms(1)])
    then show ?thesis using b(2) unfolding new by (auto simp: kernel_agrees_def k'_def bytes_changed_def)
  qed
qed

text \<open>
  C32: The kernel's protections follow the protection bytes: calls of mprotect are made for runs of pages with equal
  protections, and the outcome is the one of a call per page; every page of the range, and no other,
  gets the protection of its byte after the given flags were cleared and set.
\<close>
theorem mprotect_range_page_by_page:
  assumes "mprotect_works cfg" and "table_covers dirs tbl base sz" and "0 < sz"
  shows "mprotect_range cfg dirs tbl base sz on off k p =
    (if page_of base \<le> p \<and> p < page_end base sz
     then forced_prot cfg (get_unix_prot cfg ((vbyte tbl p AND NOT off) OR on)) else k p)"
  by (simp add: mprotect_range_spec [OF assms])

definition sample_protcfg :: protcfg where
  "sample_protcfg = \<lparr>pc_kernel_watch = False, pc_force_exec = False, pc_write_exceptions = False, pc_mprotect_ok = (\<lambda>_ _ _. True)\<rparr>"

theorem mprotect_range_page_by_page_witness:
  "mprotect_range sample_protcfg 1 sample_vprot 0x12000 0x4000 0 0 (\<lambda>_. 7) 19 = PROT_READ \<and>
   mprotect_range sample_protcfg 1 sample_vprot 0x12000 0x4000 0 0 (\<lambda>_. 7) 20 = PROT_READ OR PROT_WRITE \<and>
   mprotect_range sample_protcfg 1 sample_vprot 0x12000 0x4000 0 0 (\<lambda>_. 7) 22 = 7"
proof -
  have works: "mprotect_works sample_protcfg" by (simp add: mprotect_works_def sample_protcfg_def)
  have pages: "page_end 0x12000 0x4000 = 22" "page_of 0x12000 = 18" by (simp_all add: page_end_nat page_of_def)
  then have covers: "table_covers 1 sample_vprot 0x12000 0x4000"
    by (simp add: table_covers_def has_pages_def sample_vprot_def)
  have size: "(0 :: nat) < 0x4000" by simp
  show ?thesis
    unfolding mprotect_range_page_by_page [OF works covers size] pages
    by (simp add: sample_vprot_def sample_protcfg_def vbyte_def vprot_at_def get_unix_prot_def forced_prot_def)
qed

end
