(* ===== verification/View_Tree.thy ===== *)
theory View_Tree
  imports View_Ranges Page_Prot "HOL-Library.Tree"
begin

text \<open>
  dlls/ntdll/unix/virtual.c: the tree of the views of the process and the searches in it. The red-black
  tree itself is a library (\<open>wine/rbtree.h\<close>): insertion and removal are parameters with what the tree's
  documentation promises of the order of the entries, and the searches, which the code programs itself,
  walk the tree.
\<close>

section \<open>Views\<close>

record file_view =
  v_base :: nat
  v_size :: nat
  v_protect :: u32

definition span :: "file_view \<Rightarrow> span" where
  "span v = (v_base v, v_size v)"

definition view_end :: "file_view \<Rightarrow> nat" where
  "view_end v = add64 (v_base v) (v_size v)"

record rbtree_ops =
  rb_put :: "file_view \<Rightarrow> file_view tree \<Rightarrow> file_view tree"
  rb_remove :: "file_view \<Rightarrow> file_view tree \<Rightarrow> file_view tree"

text \<open>Entries are in the order of their bases, as \<open>compare_view\<close> says.\<close>

definition compare_view :: "nat \<Rightarrow> file_view \<Rightarrow> int" where
  "compare_view addr v = (if addr < v_base v then - 1 else if v_base v < addr then 1 else 0)"

definition rbtree_ok :: "rbtree_ops \<Rightarrow> bool" where
  "rbtree_ok rb \<longleftrightarrow>
     (\<forall>t L R v. inorder t = L @ R \<longrightarrow> (\<forall>w \<in> set L. compare_view (v_base v) w = 1) \<longrightarrow>
        (\<forall>w \<in> set R. compare_view (v_base v) w = - 1) \<longrightarrow> inorder (rb_put rb v t) = L @ v # R) \<and>
     (\<forall>t L R v. inorder t = L @ v # R \<longrightarrow> sorted_wrt (\<lambda>w w'. compare_view (v_base w') w = 1) (inorder t) \<longrightarrow>
        inorder (rb_remove rb v t) = L @ R)"

fun search_view :: "nat \<Rightarrow> nat \<Rightarrow> file_view tree \<Rightarrow> file_view option" where
  "search_view addr sz \<langle>\<rangle> = None"
| "search_view addr sz \<langle>l, v, r\<rangle> =
     (if addr < v_base v then search_view addr sz l
      else if view_end v \<le> addr then search_view addr sz r
      else if view_end v < add64 addr sz then None
      else Some v)"

text \<open>The guard is for sizes that wrap around.\<close>

definition find_view :: "nat \<Rightarrow> nat \<Rightarrow> file_view tree \<Rightarrow> file_view option" where
  "find_view addr sz t = (if add64 addr sz < addr then None else search_view addr sz t)"

definition is_write_watch_range :: "nat \<Rightarrow> nat \<Rightarrow> file_view tree \<Rightarrow> bool" where
  "is_write_watch_range addr sz t =
     (case find_view addr sz t of None \<Rightarrow> False | Some v \<Rightarrow> v_protect v AND VPROT_WRITEWATCH \<noteq> 0)"

fun find_view_range :: "nat \<Rightarrow> nat \<Rightarrow> file_view tree \<Rightarrow> file_view option" where
  "find_view_range addr sz \<langle>\<rangle> = None"
| "find_view_range addr sz \<langle>l, v, r\<rangle> =
     (if add64 addr sz \<le> v_base v then find_view_range addr sz l
      else if view_end v \<le> addr then find_view_range addr sz r
      else Some v)"

definition is_view_valloc :: "file_view \<Rightarrow> bool" where
  "is_view_valloc v \<longleftrightarrow> v_protect v AND (SEC_FILE OR SEC_RESERVE OR SEC_COMMIT) = 0"

text \<open>\<open>rb_prev\<close> and \<open>rb_next\<close> of an entry.\<close>

fun view_prev :: "nat \<Rightarrow> file_view list \<Rightarrow> file_view option" where
  "view_prev base (v # w # vs) = (if v_base w = base then Some v else view_prev base (w # vs))"
| "view_prev base vs = None"

fun view_next :: "nat \<Rightarrow> file_view list \<Rightarrow> file_view option" where
  "view_next base (v # w # vs) = (if v_base v = base then Some w else view_next base (w # vs))"
| "view_next base vs = None"

section \<open>What the searches find\<close>

definition views_ok :: "file_view list \<Rightarrow> bool" where
  "views_ok vs \<longleftrightarrow> spans_ok (map span vs)"

lemma views_ok_split:
  assumes "views_ok (L @ v # R)"
  shows "views_ok L" "views_ok R" "views_ok (L @ R)" "0 < v_size v" "v_base v + v_size v + 0x20000 \<le> 2 ^ 64"
    and "\<forall>w \<in> set L. 0 < v_size w \<and> v_base w + v_size w \<le> v_base v"
    and "\<forall>w \<in> set R. 0 < v_size w \<and> v_base v + v_size v \<le> v_base w \<and> 0x10000 \<le> v_base w"
  using assms by (fastforce simp: views_ok_def spans_ok_def span_def sorted_wrt_append sorted_wrt_map)+

lemma views_ok_mid:
  "views_ok (L @ v # R) \<longleftrightarrow> views_ok (L @ R) \<and> 0 < v_size v \<and> v_base v + v_size v + 0x20000 \<le> 2 ^ 64 \<and>
     (\<forall>w \<in> set L. v_base w + v_size w \<le> v_base v) \<and> (L \<noteq> [] \<longrightarrow> 0x10000 \<le> v_base v) \<and>
     (\<forall>w \<in> set R. v_base v + v_size v \<le> v_base w \<and> 0x10000 \<le> v_base w)"
  by (cases L) (auto simp: views_ok_def spans_ok_def span_def sorted_wrt_append sorted_wrt_map)

lemma view_end_nat: "v_base v + v_size v + 0x20000 \<le> 2 ^ 64 \<Longrightarrow> view_end v = v_base v + v_size v"
  by (simp add: view_end_def add64_def)

lemma views_ok_in:
  assumes "views_ok vs" and "v \<in> set vs"
  shows "0 < v_size v" "view_end v = v_base v + v_size v" "v_base v + v_size v + 0x20000 \<le> 2 ^ 64"
  using assms by (auto simp: views_ok_def spans_ok_def span_def intro!: view_end_nat)

lemma search_view_spec:
  assumes "views_ok (inorder t)" and "addr + sz < 2 ^ 64"
  shows "search_view addr sz t = Some v \<longleftrightarrow>
    v \<in> set (inorder t) \<and> v_base v \<le> addr \<and> addr < v_base v + v_size v \<and> addr + sz \<le> v_base v + v_size v"
  using assms(1)
proof (induction t)
  case (Node l w r)
  have ok: "views_ok (inorder l @ w # inorder r)" using Node.prems by simp
  note s = views_ok_split [OF ok]
  have e: "view_end w = v_base w + v_size w" "add64 addr sz = addr + sz"
    using view_end_nat [OF s(5)] assms(2) by (simp_all add: add64_def)
  have left: "u \<in> set (inorder l) \<Longrightarrow> v_base u + v_size u \<le> v_base w" for u using s(6) by blast
  have right: "u \<in> set (inorder r) \<Longrightarrow> v_base w + v_size w \<le> v_base u" for u using s(7) by blast
  consider (less) "addr < v_base w" | (greater) "v_base w \<le> addr" "v_base w + v_size w \<le> addr"
    | (here) "v_base w \<le> addr" "addr < v_base w + v_size w" by linarith
  then show ?case
  proof cases
    case less
    then have "search_view addr sz \<langle>l, w, r\<rangle> = search_view addr sz l" by simp
    then show ?thesis using Node.IH(1) [OF s(1)] less right by fastforce
  next
    case greater
    then have "search_view addr sz \<langle>l, w, r\<rangle> = search_view addr sz r" using s(4) by (simp add: e)
    then show ?thesis using Node.IH(2) [OF s(2)] greater left by fastforce
  next
    case here
    then have "search_view addr sz \<langle>l, w, r\<rangle> = (if v_base w + v_size w < addr + sz then None else Some w)" by (simp add: e)
    then have "search_view addr sz \<langle>l, w, r\<rangle> = Some v \<longleftrightarrow> v = w \<and> addr + sz \<le> v_base w + v_size w"
      by (simp only: not_less [symmetric] if_split) auto
    moreover have "v = w" if "v \<in> set (inorder \<langle>l, w, r\<rangle>)" "v_base v \<le> addr" "addr < v_base v + v_size v"
    proof -
      have "v \<in> set (inorder l) \<or> v = w \<or> v \<in> set (inorder r)" using that(1) by auto
      then show ?thesis using that(2,3) here left [of v] right [of v] by linarith
    qed
    moreover have "w \<in> set (inorder \<langle>l, w, r\<rangle>)" by simp
    ultimately show ?thesis using here by blast
  qed
qed simp

lemma find_view_spec:
  assumes "views_ok (inorder t)" and "addr < 2 ^ 64" and "sz < 2 ^ 64"
  shows "find_view addr sz t = Some v \<longleftrightarrow>
    v \<in> set (inorder t) \<and> v_base v \<le> addr \<and> addr < v_base v + v_size v \<and> addr + sz \<le> v_base v + v_size v"
proof (cases "addr + sz < 2 ^ 64")
  case True
  then show ?thesis using search_view_spec [OF assms(1) True] by (simp add: find_view_def add64_def)
next
  case False
  then have "(addr + sz) mod 2 ^ 64 = addr + sz - 2 ^ 64" using assms(2,3) by (simp add: mod_if)
  moreover have "addr + sz - 2 ^ 64 < addr" using assms(3) False by linarith
  ultimately have "add64 addr sz < addr" unfolding add64_def by simp
  then have "find_view addr sz t = None" by (simp add: find_view_def)
  then show ?thesis using views_ok_in(3) [OF assms(1), of v] False by fastforce
qed

definition overlaps :: "nat \<Rightarrow> nat \<Rightarrow> file_view \<Rightarrow> bool" where
  "overlaps addr sz v \<longleftrightarrow> v_base v < addr + sz \<and> addr < v_base v + v_size v"

lemma find_view_range_spec:
  assumes "views_ok (inorder t)" and "addr + sz < 2 ^ 64"
  shows "(case find_view_range addr sz t of
      Some v \<Rightarrow> v \<in> set (inorder t) \<and> overlaps addr sz v
    | None \<Rightarrow> \<forall>v \<in> set (inorder t). \<not> overlaps addr sz v)"
  using assms(1)
proof (induction t)
  case (Node l w r)
  have ok: "views_ok (inorder l @ w # inorder r)" using Node.prems by simp
  note s = views_ok_split [OF ok]
  have e: "view_end w = v_base w + v_size w" "add64 addr sz = addr + sz"
    using view_end_nat [OF s(5)] assms(2) by (simp_all add: add64_def)
  consider (less) "addr + sz \<le> v_base w" | (greater) "v_base w < addr + sz" "v_base w + v_size w \<le> addr"
    | (here) "v_base w < addr + sz" "addr < v_base w + v_size w" by linarith
  then show ?case
  proof cases
    case less
    then have "find_view_range addr sz \<langle>l, w, r\<rangle> = find_view_range addr sz l" by (simp add: e)
    moreover have "\<not> overlaps addr sz u" if "u \<in> set (inorder r)" for u
      using s(7) that less by (fastforce simp: overlaps_def)
    ultimately show ?thesis
      using Node.IH(1) [OF s(1)] less by (auto simp: overlaps_def split: option.splits)
  next
    case greater
    then have "find_view_range addr sz \<langle>l, w, r\<rangle> = find_view_range addr sz r" by (simp add: e)
    moreover have "\<not> overlaps addr sz u" if "u \<in> set (inorder l)" for u
      using s(6) that greater by (fastforce simp: overlaps_def)
    ultimately show ?thesis
      using Node.IH(2) [OF s(2)] greater by (auto simp: overlaps_def split: option.splits)
  next
    case here
    then show ?thesis by (simp add: e overlaps_def)
  qed
qed simp

lemma views_sorted: "views_ok vs \<Longrightarrow> sorted_wrt (\<lambda>w w'. compare_view (v_base w') w = 1) vs"
  unfolding views_ok_def spans_ok_def sorted_wrt_map
  by (elim conjE, erule sorted_wrt_mono_rel [rotated]) (force simp: span_def compare_view_def)

lemma rb_put_spec:
  assumes "rbtree_ok rb" and "inorder t = L @ R" and "views_ok (L @ v # R)"
  shows "inorder (rb_put rb v t) = L @ v # R"
proof -
  have "\<forall>w \<in> set L. compare_view (v_base v) w = 1" "\<forall>w \<in> set R. compare_view (v_base v) w = - 1"
    using views_ok_split(4,6,7) [OF assms(3)] by (force simp: compare_view_def)+
  then show ?thesis using assms(1,2) unfolding rbtree_ok_def by blast
qed

lemma rb_remove_spec:
  assumes "rbtree_ok rb" and "inorder t = L @ v # R" and "views_ok (inorder t)"
  shows "inorder (rb_remove rb v t) = L @ R"
  using assms views_sorted [OF assms(3)] unfolding rbtree_ok_def by blast

lemma view_prev_spec:
  "views_ok (L @ v # R) \<Longrightarrow> view_prev (v_base v) (L @ v # R) = (if L = [] then None else Some (last L))"
proof (induction L rule: induct_list012)
  case 1
  then show ?case
  proof (cases R)
    case (Cons w R')
    then have "view_prev (v_base v) (w # R') = None"
    proof -
      have "view_prev b vs = None" if "\<forall>u \<in> set vs. b < v_base u" for b vs
        using that by (induction vs rule: view_prev.induct) auto
      moreover have "\<forall>u \<in> set (w # R'). v_base v < v_base u"
        using views_ok_split(4,7) [of "[]" v R] 1 Cons by fastforce
      ultimately show ?thesis by blast
    qed
    moreover have "v_base w \<noteq> v_base v" using views_ok_split(4,7) [of "[]" v R] 1 Cons by fastforce
    ultimately show ?thesis using Cons by simp
  qed simp
next
  case (2 w)
  then show ?case by simp
next
  case (3 x y L)
  have "v_base y \<noteq> v_base v" using views_ok_split(6) [OF "3.prems"] by fastforce
  moreover have "views_ok ((y # L) @ v # R)" using views_ok_split(2) [of "[]" x "(y # L) @ v # R"] "3.prems" by simp
  ultimately show ?case using "3.IH"(2) by simp
qed

lemma view_next_spec:
  "views_ok (L @ v # R) \<Longrightarrow> view_next (v_base v) (L @ v # R) = (case R of [] \<Rightarrow> None | w # _ \<Rightarrow> Some w)"
proof (induction L)
  case Nil
  then show ?case by (cases R) simp_all
next
  case (Cons x L)
  have "v_base x \<noteq> v_base v" using views_ok_split(4,6) [OF Cons.prems] by fastforce
  moreover have "views_ok (L @ v # R)" using views_ok_split(2) [of "[]" x "L @ v # R"] Cons.prems by simp
  ultimately show ?case using Cons.IH by (cases L; cases R) simp_all
qed

text \<open>
  The searches in the view tree, for views in order that do not overlap: the first finds exactly the view that
  contains the whole block, also when the size wraps around, where there is none; the second finds a
  view that overlaps the block whenever there is one.
\<close>
theorem view_searches_correct:
  assumes "views_ok (inorder t)" and "addr < 2 ^ 64" and "sz < 2 ^ 64"
  shows "(find_view addr sz t = Some v \<longleftrightarrow>
      v \<in> set (inorder t) \<and> v_base v \<le> addr \<and> addr < v_base v + v_size v \<and> addr + sz \<le> v_base v + v_size v) \<and>
    (addr + sz < 2 ^ 64 \<longrightarrow> (case find_view_range addr sz t of
        None \<Rightarrow> \<forall>w \<in> set (inorder t). \<not> overlaps addr sz w
      | Some w \<Rightarrow> w \<in> set (inorder t) \<and> overlaps addr sz w))"
  using find_view_spec [OF assms] find_view_range_spec [OF assms(1), of addr sz] by blast

definition sample_views :: "file_view tree" where
  "sample_views = \<langle>\<langle>\<langle>\<rangle>, \<lparr>v_base = 0x10000, v_size = 0x20000, v_protect = 0x23\<rparr>, \<langle>\<rangle>\<rangle>,
     \<lparr>v_base = 0x40000, v_size = 0x1000, v_protect = 0x23\<rparr>, \<langle>\<rangle>\<rangle>"

theorem view_searches_correct_witness:
  "find_view 0x2f000 0x1000 sample_views = Some \<lparr>v_base = 0x10000, v_size = 0x20000, v_protect = 0x23\<rparr> \<and>
   filter (overlaps 0x30000 0x10000) (inorder sample_views) = [] \<and>
   \<lparr>v_base = 0x40000, v_size = 0x1000, v_protect = 0x23\<rparr> \<in> set (inorder sample_views)"
proof -
  have ok: "views_ok (inorder sample_views)" by (simp add: sample_views_def views_ok_def spans_ok_def span_def)
  have "find_view_range 0x30000 0x10000 sample_views = None"
    by (simp add: sample_views_def view_end_def add64_def)
  then have "filter (overlaps 0x30000 0x10000) (inorder sample_views) = []"
    using view_searches_correct [OF ok, of "0x30000" "0x10000"] by (simp add: filter_empty_conv)
  moreover have "find_view_range 0x30000 0x10001 sample_views = Some \<lparr>v_base = 0x40000, v_size = 0x1000, v_protect = 0x23\<rparr>"
    by (simp add: sample_views_def view_end_def add64_def)
  then have "\<lparr>v_base = 0x40000, v_size = 0x1000, v_protect = 0x23\<rparr> \<in> set (inorder sample_views)"
    using view_searches_correct [OF ok, of "0x30000" "0x10001"] by simp
  moreover have "find_view 0x2f000 0x1000 sample_views = Some \<lparr>v_base = 0x10000, v_size = 0x20000, v_protect = 0x23\<rparr>"
    using view_searches_correct [OF ok, of "0x2f000" "0x1000" "\<lparr>v_base = 0x10000, v_size = 0x20000, v_protect = 0x23\<rparr>"]
    by (simp add: sample_views_def)
  ultimately show ?thesis by blast
qed

end
