(* ===== verification/Reserved_Areas.thy ===== *)
theory Reserved_Areas
  imports View_Ranges
begin

text \<open>
  dlls/ntdll/unix/virtual.c: the list of address areas that were reserved when the process started. It is
  kept in ascending order; areas that touch are merged. \<open>malloc_ok\<close> tells whether a new list entry can
  be allocated.
\<close>

section \<open>The list\<close>

definition area_end :: "span \<Rightarrow> nat" where
  "area_end a = add64 (fst a) (snd a)"

text \<open>A size whose end is the end of the address space is taken one smaller.\<close>

definition no_wrap :: "nat \<Rightarrow> nat \<Rightarrow> nat" where
  "no_wrap addr sz = (if add64 addr sz = 0 then sz - 1 else sz)"

text \<open>The following areas that an area up to \<open>end\<close> swallows, the new end, and the areas that stay.\<close>

fun merge_following :: "nat \<Rightarrow> span list \<Rightarrow> nat \<times> span list" where
  "merge_following end [] = (end, [])"
| "merge_following end (n # as) =
     (if end < fst n then (end, n # as)
      else if end \<le> area_end n then (area_end n, as)
      else merge_following end as)"

fun add_area :: "bool \<Rightarrow> nat \<Rightarrow> nat \<Rightarrow> span list \<Rightarrow> span list" where
  "add_area malloc_ok addr sz [] = (if malloc_ok then [(addr, sz)] else [])"
| "add_area malloc_ok addr sz (a # as) =
     (let end = add64 addr sz
      in if end < fst a then (if malloc_ok then (addr, sz) # a # as else a # as)
         else if area_end a < addr then a # add_area malloc_ok addr sz as
         else let a' = (if addr < fst a then (addr, snd a + (fst a - addr)) else a)
              in if end \<le> area_end a then a' # as
                 else let (end, as) = merge_following end as in (fst a', end - fst a') # as)"

definition mmap_add_reserved_area :: "bool \<Rightarrow> nat \<Rightarrow> nat \<Rightarrow> span list \<Rightarrow> span list" where
  "mmap_add_reserved_area malloc_ok addr sz as = add_area malloc_ok addr (no_wrap addr sz) as"

fun remove_area :: "bool \<Rightarrow> nat \<Rightarrow> nat \<Rightarrow> span list \<Rightarrow> span list" where
  "remove_area malloc_ok addr sz [] = []"
| "remove_area malloc_ok addr sz (a # as) =
     (let end = add64 addr sz
      in if end \<le> fst a then a # as
         else if addr < area_end a
         then if addr \<le> fst a
              then if end < area_end a then (end, snd a - (end - fst a)) # as
                   else remove_area malloc_ok addr sz as
              else if end < area_end a
                   then (fst a, addr - fst a) # (if malloc_ok then (end, area_end a - end) # as else as)
                   else (fst a, addr - fst a) # remove_area malloc_ok addr sz as
         else a # remove_area malloc_ok addr sz as)"

definition mmap_remove_reserved_area :: "bool \<Rightarrow> nat \<Rightarrow> nat \<Rightarrow> span list \<Rightarrow> span list" where
  "mmap_remove_reserved_area malloc_ok addr sz as = remove_area malloc_ok addr (no_wrap addr sz) as"

fun mmap_is_in_reserved_area :: "nat \<Rightarrow> nat \<Rightarrow> span list \<Rightarrow> int" where
  "mmap_is_in_reserved_area addr sz [] = 0"
| "mmap_is_in_reserved_area addr sz (a # as) =
     (if addr < fst a then 0
      else if area_end a \<le> addr then mmap_is_in_reserved_area addr sz as
      else if area_end a < add64 addr sz then - 1
      else 1)"

section \<open>The reserved addresses\<close>

definition areas_ok :: "span list \<Rightarrow> bool" where
  "areas_ok as \<longleftrightarrow> (\<forall>a \<in> set as. 0 < snd a \<and> fst a + snd a < 2 ^ 64) \<and>
     sorted_wrt (\<lambda>a a'. fst a + snd a < fst a') as"

definition area_set :: "span list \<Rightarrow> nat set" where
  "area_set as = (\<Union>a \<in> set as. {fst a..<fst a + snd a})"

lemma area_set_simps [simp]:
  "area_set [] = {}" "area_set (a # as) = {fst a..<fst a + snd a} \<union> area_set as"
  by (auto simp: area_set_def)

lemma areas_ok_Nil [simp]: "areas_ok []"
  by (simp add: areas_ok_def)

lemma areas_ok_Cons:
  "areas_ok (a # as) \<longleftrightarrow> 0 < snd a \<and> fst a + snd a < 2 ^ 64 \<and> (\<forall>a' \<in> set as. fst a + snd a < fst a') \<and> areas_ok as"
  by (auto simp: areas_ok_def)

lemma area_end_nat: "fst a + snd a < 2 ^ 64 \<Longrightarrow> area_end a = fst a + snd a"
  by (simp add: area_end_def add64_def)

lemma merge_following_spec:
  assumes "areas_ok as" and "\<forall>a \<in> set as. b < fst a" and "b < end" and "end < 2 ^ 64"
    and "merge_following end as = (end', as')"
  shows "end \<le> end'" "end' < 2 ^ 64" "areas_ok as'" "\<forall>a \<in> set as'. end' < fst a" "set as' \<subseteq> set as"
    "{b..<end'} \<union> area_set as' = {b..<end} \<union> area_set as"
proof -
  have "end \<le> end' \<and> end' < 2 ^ 64 \<and> areas_ok as' \<and> (\<forall>a \<in> set as'. end' < fst a) \<and> set as' \<subseteq> set as \<and>
    {b..<end'} \<union> area_set as' = {b..<end} \<union> area_set as"
    using assms
  proof (induction as)
    case (Cons n as)
    have n: "0 < snd n" "fst n + snd n < 2 ^ 64" "\<forall>a \<in> set as. fst n + snd n < fst a" "areas_ok as" "b < fst n"
      using Cons.prems(1,2) by (auto simp: areas_ok_Cons)
    have e: "area_end n = fst n + snd n" using n(2) by (rule area_end_nat)
    consider (stop) "end < fst n" | (last) "fst n \<le> end" "end \<le> fst n + snd n" | (inner) "fst n \<le> end" "fst n + snd n < end"
      by linarith
    then show ?case
    proof cases
      case stop
      moreover have "end < fst a" if "a \<in> set as" for a using n(3) that stop by fastforce
      ultimately show ?thesis using Cons.prems n by (auto simp: areas_ok_Cons)
    next
      case last
      then have "end' = fst n + snd n" "as' = as" using Cons.prems(5) by (auto simp: e)
      then show ?thesis using n last Cons.prems(3) by auto
    next
      case inner
      then have m: "merge_following end as = (end', as')" using Cons.prems(5) by (simp add: e)
      have "\<forall>a \<in> set as. b < fst a" using Cons.prems(2) by simp
      from Cons.IH [OF n(4) this Cons.prems(3,4) m] show ?thesis using inner n by auto
    qed
  qed auto
  then show "end \<le> end'" "end' < 2 ^ 64" "areas_ok as'" "\<forall>a \<in> set as'. end' < fst a" "set as' \<subseteq> set as"
    "{b..<end'} \<union> area_set as' = {b..<end} \<union> area_set as" by blast+
qed

lemma add_area_spec:
  assumes "areas_ok as" and "0 < sz" and "addr + sz < 2 ^ 64"
  shows "areas_ok (add_area True addr sz as) \<and> area_set (add_area True addr sz as) = area_set as \<union> {addr..<addr + sz} \<and>
    (\<forall>a \<in> set (add_area True addr sz as). \<exists>b \<in> insert addr (fst ` set as). b \<le> fst a)"
  using assms(1)
proof (induction as)
  case Nil
  then show ?case using assms(2,3) by (simp add: areas_ok_Cons)
next
  case (Cons a as)
  have a: "0 < snd a" "fst a + snd a < 2 ^ 64" "\<forall>a' \<in> set as. fst a + snd a < fst a'" "areas_ok as"
    using Cons.prems by (auto simp: areas_ok_Cons)
  have e: "area_end a = fst a + snd a" "add64 addr sz = addr + sz"
    using a(2) assms(3) by (simp_all add: area_end_nat add64_def)
  consider (before) "addr + sz < fst a" | (after) "fst a + snd a < addr"
    | (inside) "fst a \<le> addr + sz" "addr \<le> fst a + snd a" "addr + sz \<le> fst a + snd a"
    | (beyond) "fst a \<le> addr + sz" "addr \<le> fst a + snd a" "fst a + snd a < addr + sz"
    by linarith
  then show ?case
  proof cases
    case before
    then show ?thesis using a assms(2,3) by (fastforce simp: e areas_ok_Cons)
  next
    case after
    then have "add_area True addr sz (a # as) = a # add_area True addr sz as"
      using assms(2) by (simp add: e)
    moreover note IH = Cons.IH [OF a(4)]
    moreover have "fst a + snd a < fst a'" if "a' \<in> set (add_area True addr sz as)" for a'
      using IH that a(3) after by fastforce
    ultimately show ?thesis using a by (auto simp: areas_ok_Cons)
  next
    case inside
    then show ?thesis using a assms(2) by (auto simp: e areas_ok_Cons)
  next
    case beyond
    define b where "b = min addr (fst a)"
    obtain end' as' where m: "merge_following (addr + sz) as = (end', as')" by fastforce
    have "\<forall>a' \<in> set as. b < fst a'" "b < addr + sz" using a(1,3) assms(2) by (auto simp: b_def)
    note spec = merge_following_spec [OF a(4) this assms(3) m]
    have "add_area True addr sz (a # as) = (b, end' - b) # as'"
      using beyond m by (auto simp: e b_def Let_def split: if_splits)
    moreover have "b < end'" using spec(1) assms(2) by (auto simp: b_def)
    moreover have "{b..<addr + sz} = {fst a..<fst a + snd a} \<union> {addr..<addr + sz}"
      using beyond by (auto simp: b_def)
    ultimately show ?thesis using spec by (auto simp: areas_ok_Cons b_def)
  qed
qed

lemma remove_area_spec:
  assumes "areas_ok as" and "0 < sz" and "addr + sz < 2 ^ 64"
  shows "areas_ok (remove_area True addr sz as) \<and> area_set (remove_area True addr sz as) = area_set as - {addr..<addr + sz} \<and>
    (\<forall>a \<in> set (remove_area True addr sz as). \<exists>b \<in> set as. fst b \<le> fst a)"
  using assms(1)
proof (induction as)
  case (Cons a as)
  have a: "0 < snd a" "fst a + snd a < 2 ^ 64" "\<forall>a' \<in> set as. fst a + snd a < fst a'" "areas_ok as"
    using Cons.prems by (auto simp: areas_ok_Cons)
  have e: "area_end a = fst a + snd a" "add64 addr sz = addr + sz"
    using a(2) assms(3) by (simp_all add: area_end_nat add64_def)
  have rest: "v \<notin> area_set as" if "v \<le> fst a + snd a" for v using a(3) that by (fastforce simp: area_set_def)
  note IH = Cons.IH [OF a(4)]
  have later: "fst a + snd a < fst a'" if "a' \<in> set (remove_area True addr sz as)" for a'
    using IH that a(3) by fastforce
  consider (before) "addr + sz \<le> fst a" | (after) "fst a + snd a \<le> addr" "fst a < addr + sz"
    | (front) "addr \<le> fst a" "fst a < addr + sz" "addr + sz < fst a + snd a"
    | (all) "addr \<le> fst a" "fst a < addr + sz" "fst a + snd a \<le> addr + sz"
    | (middle) "fst a < addr" "addr + sz < fst a + snd a"
    | (tail) "fst a < addr" "addr < fst a + snd a" "fst a + snd a \<le> addr + sz"
    by linarith
  then show ?case
  proof cases
    case before
    then have "area_set as \<inter> {addr..<addr + sz} = {}" using rest by auto
    then show ?thesis using before Cons.prems by (auto simp: e)
  next
    case after
    then have "remove_area True addr sz (a # as) = a # remove_area True addr sz as" by (simp add: e)
    then show ?thesis using IH later a after by (fastforce simp: areas_ok_Cons)
  next
    case front
    then have "area_set as \<inter> {addr..<addr + sz} = {}" using rest by auto
    moreover have "remove_area True addr sz (a # as) = (addr + sz, snd a - (addr + sz - fst a)) # as"
      using front assms(2) by (simp add: e Let_def)
    ultimately show ?thesis using front a by (auto simp: areas_ok_Cons)
  next
    case all
    then have "remove_area True addr sz (a # as) = remove_area True addr sz as" using a(1) by (simp add: e)
    then show ?thesis using IH all by auto
  next
    case middle
    then have "area_set as \<inter> {addr..<addr + sz} = {}" using rest by auto
    moreover have "remove_area True addr sz (a # as) =
        (fst a, addr - fst a) # (addr + sz, fst a + snd a - (addr + sz)) # as"
      using middle assms(2) by (simp add: e Let_def)
    ultimately show ?thesis using middle a assms(2) by (auto simp: areas_ok_Cons)
  next
    case tail
    then have "remove_area True addr sz (a # as) = (fst a, addr - fst a) # remove_area True addr sz as" by (simp add: e)
    then show ?thesis using IH later a tail by (fastforce simp: areas_ok_Cons)
  qed
qed simp

lemma is_in_reserved_spec:
  assumes "areas_ok as" and "0 < sz" and "addr + sz < 2 ^ 64"
  shows "mmap_is_in_reserved_area addr sz as = (if {addr..<addr + sz} \<subseteq> area_set as then 1
    else if addr \<in> area_set as then - 1 else 0)"
  using assms(1)
proof (induction as)
  case Nil
  then show ?case using assms(2) by simp
next
  case (Cons a as)
  have a: "0 < snd a" "fst a + snd a < 2 ^ 64" "\<forall>a' \<in> set as. fst a + snd a < fst a'" "areas_ok as"
    using Cons.prems by (auto simp: areas_ok_Cons)
  have e: "area_end a = fst a + snd a" "add64 addr sz = addr + sz"
    using a(2) assms(3) by (simp_all add: area_end_nat add64_def)
  have rest: "v \<notin> area_set as" if "v \<le> fst a + snd a" for v using a(3) that by (fastforce simp: area_set_def)
  consider (before) "addr < fst a" | (after) "fst a + snd a \<le> addr" | (part) "fst a \<le> addr" "addr < fst a + snd a" "fst a + snd a < addr + sz"
    | (all) "fst a \<le> addr" "addr < fst a + snd a" "addr + sz \<le> fst a + snd a" by linarith
  then show ?case
  proof cases
    case before
    then have "addr \<notin> area_set (a # as)" using rest [of addr] by simp
    moreover have "addr \<in> {addr..<addr + sz}" using assms(2) by simp
    ultimately have "\<not> {addr..<addr + sz} \<subseteq> area_set (a # as)" by blast
    then show ?thesis using before \<open>addr \<notin> area_set (a # as)\<close> by simp
  next
    case after
    then have "mmap_is_in_reserved_area addr sz (a # as) = mmap_is_in_reserved_area addr sz as" using a(1) by (simp add: e)
    moreover have "addr \<in> area_set (a # as) \<longleftrightarrow> addr \<in> area_set as"
      "{addr..<addr + sz} \<subseteq> area_set (a # as) \<longleftrightarrow> {addr..<addr + sz} \<subseteq> area_set as" using after by auto
    ultimately show ?thesis using Cons.IH [OF a(4)] by simp
  next
    case part
    then have "fst a + snd a \<in> {addr..<addr + sz}" "fst a + snd a \<notin> area_set (a # as)" using rest by auto
    then have "\<not> {addr..<addr + sz} \<subseteq> area_set (a # as)" by blast
    then show ?thesis using part by (simp add: e)
  next
    case all
    then have "{addr..<addr + sz} \<subseteq> area_set (a # as)" by auto
    then show ?thesis using all by (simp add: e)
  qed
qed

text \<open>
  C33: The list of reserved areas is a faithful set of addresses: adding and removing an area adds and removes
  exactly its addresses and keeps the list in order with gaps between the areas, and the membership
  test answers 1 when the whole block is reserved, -1 when only its beginning is, and 0 otherwise.
\<close>
theorem reserved_areas_are_a_set:
  assumes "areas_ok as" and "0 < sz" and "addr + sz < 2 ^ 64"
  shows "areas_ok (mmap_add_reserved_area True addr sz as) \<and> areas_ok (mmap_remove_reserved_area True addr sz as) \<and>
    area_set (mmap_add_reserved_area True addr sz as) = area_set as \<union> {addr..<addr + sz} \<and>
    area_set (mmap_remove_reserved_area True addr sz as) = area_set as - {addr..<addr + sz} \<and>
    mmap_is_in_reserved_area addr sz as = (if {addr..<addr + sz} \<subseteq> area_set as then 1
      else if addr \<in> area_set as then - 1 else 0)"
proof -
  have "add64 addr sz \<noteq> 0" using assms(2,3) by (simp add: add64_def)
  then have "no_wrap addr sz = sz" by (simp add: no_wrap_def)
  then show ?thesis
    using add_area_spec [OF assms] remove_area_spec [OF assms] is_in_reserved_spec [OF assms]
    by (simp add: mmap_add_reserved_area_def mmap_remove_reserved_area_def)
qed

theorem reserved_areas_are_a_set_witness:
  "mmap_add_reserved_area True 0x20000 0x10000 [(0x10000, 0x10000), (0x30000, 0x8000)] = [(0x10000, 0x28000)] \<and>
   area_set (mmap_add_reserved_area True 0x20000 0x10000 [(0x10000, 0x10000), (0x30000, 0x8000)]) =
     area_set [(0x10000, 0x10000), (0x30000, 0x8000)] \<union> {0x20000..<0x20000 + 0x10000}"
proof -
  have "areas_ok [(0x10000, 0x10000), (0x30000, 0x8000)]" by (simp add: areas_ok_Cons)
  from reserved_areas_are_a_set [OF this, where sz = "0x10000" and addr = "0x20000"] show ?thesis
    by (simp add: mmap_add_reserved_area_def no_wrap_def add64_def area_end_def Let_def del: area_set_simps)
qed

end
