(* ===== verification/Arm64ec_Map.thy ===== *)
theory Arm64ec_Map
  imports Page_Vprot
begin

text \<open>
  dlls/ntdll/unix/virtual.c: the map of ARM64EC code, one bit per page in words of 64 bits. Ranges are set and
  cleared a word at a time with masks at both ends.
\<close>

type_synonym ecmap = "nat \<Rightarrow> u64"

definition maskbits :: "nat \<Rightarrow> u64" where
  "maskbits idx = push_bit (idx mod 64) (- 1)"

text \<open>Whole words are written from \<open>pos\<close> up to \<open>end_pos\<close>.\<close>

function fill_words :: "nat \<Rightarrow> nat \<Rightarrow> u64 \<Rightarrow> ecmap \<Rightarrow> ecmap" where
  "fill_words pos end_pos w mp =
     (if pos < end_pos then fill_words (pos + 1) end_pos w (mp(pos := w)) else mp)"
  by pat_completeness auto
termination by (relation "measure (\<lambda>(pos, end_pos, w, mp). end_pos - pos)") auto

declare fill_words.simps [simp del]

definition set_arm64ec_range :: "nat \<Rightarrow> nat \<Rightarrow> ecmap \<Rightarrow> ecmap" where
  "set_arm64ec_range addr sz mp =
     (let idx = page_of addr; end = page_end addr sz; pos = idx div 64; end_pos = end div 64
      in if pos < end_pos
         then let mp = mp(pos := mp pos OR maskbits idx);
                  mp = fill_words (pos + 1) end_pos (- 1) mp
              in if end mod 64 \<noteq> 0 then mp(end_pos := mp end_pos OR NOT (maskbits end)) else mp
         else mp(pos := mp pos OR (maskbits idx AND NOT (maskbits end))))"

definition clear_arm64ec_range :: "nat \<Rightarrow> nat \<Rightarrow> ecmap \<Rightarrow> ecmap" where
  "clear_arm64ec_range addr sz mp =
     (let idx = page_of addr; end = page_end addr sz; pos = idx div 64; end_pos = end div 64
      in if pos < end_pos
         then let mp = mp(pos := mp pos AND NOT (maskbits idx));
                  mp = fill_words (pos + 1) end_pos 0 mp
              in if end mod 64 \<noteq> 0 then mp(end_pos := mp end_pos AND maskbits end) else mp
         else mp(pos := mp pos AND (NOT (maskbits idx) OR maskbits end)))"

text \<open>The bit of a page.\<close>

definition ec_page :: "ecmap \<Rightarrow> nat \<Rightarrow> bool" where
  "ec_page mp p \<longleftrightarrow> bit (mp (p div 64)) (p mod 64)"

lemma bit_maskbits: "bit (maskbits idx) n \<longleftrightarrow> idx mod 64 \<le> n \<and> n < 64"
  by (auto simp: maskbits_def bit_simps)

lemma fill_words_eq: "fill_words pos end_pos w mp = (\<lambda>i. if pos \<le> i \<and> i < end_pos then w else mp i)"
proof (induction pos end_pos w mp rule: fill_words.induct)
  case (1 pos end_pos w mp)
  show ?case
  proof (cases "pos < end_pos")
    case True
    then have "fill_words pos end_pos w mp = fill_words (pos + 1) end_pos w (mp(pos := w))"
      by (subst fill_words.simps) simp
    then show ?thesis unfolding "1" [OF True] using True by (auto simp: fun_eq_iff)
  next
    case False
    then show ?thesis by (subst fill_words.simps) (auto simp: fun_eq_iff)
  qed
qed

text \<open>Pages in the order of their words and bits.\<close>

lemma page_less: "p < q \<longleftrightarrow> p div 64 < q div 64 \<or> (p div 64 = q div 64 \<and> p mod 64 < q mod 64)" for p q :: nat
proof (cases "p div 64 = q div 64")
  case True
  have "p = p div 64 * 64 + p mod 64" "q = q div 64 * 64 + q mod 64" by simp_all
  then show ?thesis using True by linarith
next
  case False
  then show ?thesis by (metis div_le_mono div_less_iff_less_mult le_neq_implies_less linorder_not_less order_less_imp_le)
qed

lemma set_range_word:
  "set_arm64ec_range addr sz mp w =
    (let a = page_of addr; b = page_end addr sz
     in if a div 64 < b div 64
        then if w = a div 64 then mp w OR maskbits a
             else if a div 64 < w \<and> w < b div 64 then - 1
             else if w = b div 64 \<and> b mod 64 \<noteq> 0 then mp w OR NOT (maskbits b) else mp w
        else if w = a div 64 then mp w OR (maskbits a AND NOT (maskbits b)) else mp w)"
  by (auto simp: set_arm64ec_range_def Let_def fill_words_eq)

lemma clear_range_word:
  "clear_arm64ec_range addr sz mp w =
    (let a = page_of addr; b = page_end addr sz
     in if a div 64 < b div 64
        then if w = a div 64 then mp w AND NOT (maskbits a)
             else if a div 64 < w \<and> w < b div 64 then 0
             else if w = b div 64 \<and> b mod 64 \<noteq> 0 then mp w AND maskbits b else mp w
        else if w = a div 64 then mp w AND (NOT (maskbits a) OR maskbits b) else mp w)"
  by (auto simp: clear_arm64ec_range_def Let_def fill_words_eq)

lemma bit_set_word:
  fixes w r a b :: nat
  assumes "r < 64" and "a div 64 \<le> b div 64"
  shows "bit (if a div 64 < b div 64
        then if w = a div 64 then m OR maskbits a
             else if a div 64 < w \<and> w < b div 64 then - 1
             else if w = b div 64 \<and> b mod 64 \<noteq> 0 then m OR NOT (maskbits b) else m
        else if w = a div 64 then m OR (maskbits a AND NOT (maskbits b)) else m) r \<longleftrightarrow>
    bit m r \<or> ((a div 64 < w \<or> a div 64 = w \<and> a mod 64 \<le> r) \<and> (w < b div 64 \<or> w = b div 64 \<and> r < b mod 64))"
  using assms by (cases "a div 64 < b div 64"; cases "w = a div 64"; cases "w = b div 64")
    (auto simp: bit_simps bit_maskbits not_le)

lemma bit_clear_word:
  fixes w r a b :: nat
  assumes "r < 64" and "a div 64 \<le> b div 64"
  shows "bit (if a div 64 < b div 64
        then if w = a div 64 then m AND NOT (maskbits a)
             else if a div 64 < w \<and> w < b div 64 then 0
             else if w = b div 64 \<and> b mod 64 \<noteq> 0 then m AND maskbits b else m
        else if w = a div 64 then m AND (NOT (maskbits a) OR maskbits b) else m) r \<longleftrightarrow>
    bit m r \<and> \<not> ((a div 64 < w \<or> a div 64 = w \<and> a mod 64 \<le> r) \<and> (w < b div 64 \<or> w = b div 64 \<and> r < b mod 64))"
  using assms by (cases "a div 64 < b div 64"; cases "w = a div 64"; cases "w = b div 64")
    (auto simp: bit_simps bit_maskbits not_le)

text \<open>
  The ARM64EC map is written a word at a time, with masks for the words at both ends; the outcome is that
  the bits of the pages of the range, and no others, are set or cleared.
\<close>
theorem arm64ec_range_page_by_page:
  assumes "addr + sz + 4095 < 2 ^ 64"
  shows "(ec_page (set_arm64ec_range addr sz mp) p \<longleftrightarrow>
      (page_of addr \<le> p \<and> p < page_end addr sz) \<or> ec_page mp p) \<and>
    (ec_page (clear_arm64ec_range addr sz mp) p \<longleftrightarrow>
      \<not> (page_of addr \<le> p \<and> p < page_end addr sz) \<and> ec_page mp p)"
proof -
  have d: "page_of addr div 64 \<le> page_end addr sz div 64" using page_of_le_end [OF assms] by (rule div_le_mono)
  have inr: "page_of addr \<le> p \<and> p < page_end addr sz \<longleftrightarrow>
      (page_of addr div 64 < p div 64 \<or> page_of addr div 64 = p div 64 \<and> page_of addr mod 64 \<le> p mod 64) \<and>
      (p div 64 < page_end addr sz div 64 \<or> p div 64 = page_end addr sz div 64 \<and> p mod 64 < page_end addr sz mod 64)"
    using page_less [of p "page_of addr"] page_less [of p "page_end addr sz"] by linarith
  show ?thesis
    unfolding ec_page_def set_range_word clear_range_word Let_def inr
    using bit_set_word [OF _ d, of "p mod 64" "p div 64"] bit_clear_word [OF _ d, of "p mod 64" "p div 64"] by auto
qed

theorem arm64ec_range_page_by_page_witness:
  "set_arm64ec_range 0x3f000 0x3000 (\<lambda>_. 0) 0 = 0x8000000000000000 \<and>
   set_arm64ec_range 0x3f000 0x3000 (\<lambda>_. 0) 1 = 3 \<and>
   ec_page (set_arm64ec_range 0x3f000 0x3000 (\<lambda>_. 0)) 64"
proof -
  have "page_of 0x3f000 = 63" "page_end 0x3f000 0x3000 = 66" by (simp_all add: page_end_nat page_of_def)
  then show ?thesis
    using arm64ec_range_page_by_page [of "0x3f000" "0x3000" "\<lambda>_. 0" 64]
    by (simp add: set_range_word maskbits_def push_bit_eq_mult)
qed

end
