(* ===== verification/Virtual_Views.thy ===== *)
theory Virtual_Views
  imports View_Tree Reserved_Areas Arm64ec_Map
begin

text \<open>
  dlls/ntdll/unix/virtual.c: the memory of a process as this code keeps it - the tree of views, the free
  ranges, the protection bytes, the reserved areas and the ARM64EC map - and the creation and deletion
  of views. The kernel's side are the protections of pages and which pages are mapped. Outcomes of
  system calls and of allocations are parameters; a failed assert or a fault is \<open>None\<close>.
\<close>

abbreviation (input) VPROT_ARM64EC :: u32 where "VPROT_ARM64EC \<equiv> 0x0100"
abbreviation (input) VPROT_SYSTEM :: u32 where "VPROT_SYSTEM \<equiv> 0x0200"
abbreviation (input) VPROT_PLACEHOLDER :: u32 where "VPROT_PLACEHOLDER \<equiv> 0x0400"
abbreviation (input) VPROT_FREE_PLACEHOLDER :: u32 where "VPROT_FREE_PLACEHOLDER \<equiv> 0x0800"
abbreviation (input) VPROT_NATIVE :: u32 where "VPROT_NATIVE \<equiv> 0x1000"

abbreviation (input) STATUS_CONFLICTING_ADDRESSES :: ntstatus where "STATUS_CONFLICTING_ADDRESSES \<equiv> 0xC0000018"
abbreviation (input) STATUS_INVALID_PARAMETER_3 :: ntstatus where "STATUS_INVALID_PARAMETER_3 \<equiv> 0xC00000F1"
abbreviation (input) STATUS_INVALID_PARAMETER_4 :: ntstatus where "STATUS_INVALID_PARAMETER_4 \<equiv> 0xC00000F2"

record vmem =
  vm_views :: "file_view tree"
  vm_ranges :: "range_entry list"
  vm_tbl :: vprot_table
  vm_reserved :: "span list"
  vm_ecmap :: ecmap
  vm_kprot :: kprot
  vm_mapped :: "nat \<Rightarrow> bool"
  vm_working_set :: nat

text \<open>
  \<open>vc_alloc_view\<close>: a view structure can be allocated; \<open>vc_block_ok\<close>: a block of the protection table;
  \<open>vc_fixed_ok\<close>: an anonymous mapping at a fixed address.
\<close>

record vcfg =
  vc_prot :: protcfg
  vc_rb :: rbtree_ops
  vc_dirs :: nat
  vc_alloc_view :: bool
  vc_block_ok :: "nat \<Rightarrow> bool"
  vc_fixed_ok :: "nat \<Rightarrow> nat \<Rightarrow> bool"
  vc_malloc_ok :: bool
  vc_user_limit :: nat

section \<open>Mappings\<close>

definition in_pages :: "nat \<Rightarrow> nat \<Rightarrow> nat \<Rightarrow> bool" where
  "in_pages addr sz p \<longleftrightarrow> page_of addr \<le> p \<and> p < page_of addr + page_of sz"

definition munmap :: "nat \<Rightarrow> nat \<Rightarrow> vmem \<Rightarrow> vmem" where
  "munmap addr sz st = st\<lparr>vm_mapped := (\<lambda>p. if in_pages addr sz p then False else vm_mapped st p),
     vm_kprot := (\<lambda>p. if in_pages addr sz p then PROT_NONE else vm_kprot st p)\<rparr>"

definition anon_mmap_fixed :: "vcfg \<Rightarrow> nat \<Rightarrow> nat \<Rightarrow> u32 \<Rightarrow> vmem \<Rightarrow> bool \<times> vmem" where
  "anon_mmap_fixed cfg addr sz prot st =
     (if vc_fixed_ok cfg addr sz
      then (True, st\<lparr>vm_mapped := (\<lambda>p. if in_pages addr sz p then True else vm_mapped st p),
              vm_kprot := (\<lambda>p. if in_pages addr sz p then prot else vm_kprot st p)\<rparr>)
      else (False, st))"

definition unmap_area_above_user_limit :: "vcfg \<Rightarrow> nat \<Rightarrow> nat \<Rightarrow> vmem \<Rightarrow> nat \<times> vmem" where
  "unmap_area_above_user_limit cfg addr sz st =
     (let limit = vc_user_limit cfg
      in if addr < limit \<and> sz \<le> limit - addr then (sz, st)
         else let ret = (if addr < limit then limit - addr else 0);
                  sz = sz - ret; addr = (if addr < limit then limit else addr);
                  st = snd (anon_mmap_fixed cfg addr sz PROT_NONE st)
              in (ret, st\<lparr>vm_reserved := mmap_add_reserved_area (vc_malloc_ok cfg) addr sz (vm_reserved st)\<rparr>))"

text \<open>Parts of an area that are in reserved areas are mapped without access, the others are unmapped.\<close>

fun unmap_loop :: "vcfg \<Rightarrow> span list \<Rightarrow> nat \<Rightarrow> nat \<Rightarrow> vmem \<Rightarrow> vmem" where
  "unmap_loop cfg [] start end st = munmap start (end - start) st"
| "unmap_loop cfg (a # as) start end st =
     (if end \<le> fst a then munmap start (end - start) st
      else if area_end a \<le> start then unmap_loop cfg as start end st
      else let st = (if start < fst a then munmap start (fst a - start) st else st);
               start = (if start < fst a then fst a else start)
           in if end \<le> area_end a then snd (anon_mmap_fixed cfg start (end - start) PROT_NONE st)
              else unmap_loop cfg as (area_end a) end (snd (anon_mmap_fixed cfg start (area_end a - start) PROT_NONE st)))"

definition unmap_area :: "vcfg \<Rightarrow> nat \<Rightarrow> nat \<Rightarrow> vmem \<Rightarrow> vmem" where
  "unmap_area cfg start sz st =
     (let (sz, st) = unmap_area_above_user_limit cfg start sz st
      in if sz = 0 then st else unmap_loop cfg (vm_reserved st) start (add64 start sz) st)"

section \<open>Views\<close>

definition prev_of :: "file_view \<Rightarrow> vmem \<Rightarrow> span option" where
  "prev_of v st = map_option span (view_prev (v_base v) (inorder (vm_views st)))"

definition next_of :: "file_view \<Rightarrow> vmem \<Rightarrow> span option" where
  "next_of v st = map_option span (view_next (v_base v) (inorder (vm_views st)))"

definition unregister_view :: "vcfg \<Rightarrow> file_view \<Rightarrow> vmem \<Rightarrow> vmem option" where
  "unregister_view cfg v st =
     do {
       fr \<leftarrow> free_ranges_remove_view (prev_of v st) (next_of v st) (v_base v) (v_size v) (vm_ranges st);
       Some (st\<lparr>vm_ranges := fr, vm_views := rb_remove (vc_rb cfg) v (vm_views st)\<rparr>)
     }"

definition register_view :: "vcfg \<Rightarrow> file_view \<Rightarrow> vmem \<Rightarrow> vmem option" where
  "register_view cfg v st =
     do {
       fr \<leftarrow> free_ranges_insert_view (v_base v) (v_size v) (vm_ranges st);
       Some (st\<lparr>vm_ranges := fr, vm_views := rb_put (vc_rb cfg) v (vm_views st)\<rparr>)
     }"

definition fill_vprot :: "nat \<Rightarrow> nat \<Rightarrow> u8 \<Rightarrow> vmem \<Rightarrow> vmem option" where
  "fill_vprot addr sz vprot st = map_option (\<lambda>tbl. st\<lparr>vm_tbl := tbl\<rparr>) (set_page_vprot addr sz vprot (vm_tbl st))"

definition change_vprot_bits :: "nat \<Rightarrow> nat \<Rightarrow> u8 \<Rightarrow> u8 \<Rightarrow> vmem \<Rightarrow> vmem option" where
  "change_vprot_bits addr sz on off st =
     map_option (\<lambda>tbl. st\<lparr>vm_tbl := tbl\<rparr>) (set_page_vprot_bits addr sz on off (vm_tbl st))"

definition delete_view :: "vcfg \<Rightarrow> file_view \<Rightarrow> vmem \<Rightarrow> vmem option" where
  "delete_view cfg v st =
     do {
       let st = (if v_protect v AND VPROT_SYSTEM = 0 then unmap_area cfg (v_base v) (v_size v) st else st);
       st \<leftarrow> fill_vprot (v_base v) (v_size v) 0 st;
       let st = (if v_protect v AND VPROT_ARM64EC \<noteq> 0
                 then st\<lparr>vm_ecmap := clear_arm64ec_range (v_base v) (v_size v) (vm_ecmap st)\<rparr> else st);
       unregister_view cfg v st
     }"

text \<open>Views that overlap a new one must be system views; they are deleted.\<close>

partial_function (option) delete_overlapping :: "vcfg \<Rightarrow> nat \<Rightarrow> nat \<Rightarrow> vmem \<Rightarrow> vmem option" where
  "delete_overlapping cfg base sz st =
     (case find_view_range base sz (vm_views st) of
        None \<Rightarrow> Some st
      | Some v \<Rightarrow>
          if v_protect v AND VPROT_SYSTEM = 0 then None
          else do { st \<leftarrow> delete_view cfg v st; delete_overlapping cfg base sz st })"

definition create_view :: "vcfg \<Rightarrow> nat \<Rightarrow> nat \<Rightarrow> u32 \<Rightarrow> vmem \<Rightarrow> ((ntstatus + file_view) \<times> vmem) option" where
  "create_view cfg base sz vprot st =
     (if base mod 4096 \<noteq> 0 \<or> sz mod 4096 \<noteq> 0 then None
      else do {
        let unix_prot = get_unix_prot (vc_prot cfg) (ucast vprot);
        st \<leftarrow> delete_overlapping cfg base sz st;
        (ok, tbl) \<leftarrow> alloc_pages_vprot (vc_dirs cfg) (vc_block_ok cfg) base sz (vm_tbl st);
        let st = st\<lparr>vm_tbl := tbl\<rparr>;
        if \<not> ok then Some (Inl STATUS_NO_MEMORY, st)
        else if \<not> vc_alloc_view cfg then Some (Inl STATUS_NO_MEMORY, st)
        else do {
          let v = \<lparr>v_base = base, v_size = sz, v_protect = vprot\<rparr>;
          st \<leftarrow> fill_vprot base sz (ucast vprot) st;
          st \<leftarrow> register_view cfg v st;
          let st = (if pc_force_exec (vc_prot cfg) \<and> unix_prot AND PROT_READ \<noteq> 0 \<and> unix_prot AND PROT_EXEC = 0
                    then st\<lparr>vm_kprot := snd (kernel_mprotect (vc_prot cfg) base sz (unix_prot OR PROT_EXEC) (vm_kprot st))\<rparr>
                    else st);
          Some (Inr v, st)
        }
      })"

text \<open>Pages are taken out of a view, from its beginning or end, or from the middle, which leaves two views.\<close>

definition remove_pages_from_view ::
  "vcfg \<Rightarrow> file_view \<Rightarrow> nat \<Rightarrow> nat \<Rightarrow> vmem \<Rightarrow> (ntstatus \<times> vmem) option" where
  "remove_pages_from_view cfg v base sz st =
     (if v_size v \<le> sz then None
      else if v_base v \<noteq> base \<and> add64 base sz \<noteq> view_end v
      then if \<not> vc_alloc_view cfg then Some (STATUS_NO_MEMORY, st)
           else do {
             let new_base = add64 base sz;
             let new_view = \<lparr>v_base = new_base, v_size = view_end v - new_base, v_protect = v_protect v\<rparr>;
             st \<leftarrow> unregister_view cfg v st;
             st \<leftarrow> register_view cfg (v\<lparr>v_size := base - v_base v\<rparr>) st;
             st \<leftarrow> register_view cfg new_view st;
             Some (STATUS_SUCCESS, st)
           }
      else do {
        st \<leftarrow> unregister_view cfg v st;
        let v = (if v_base v = base then v\<lparr>v_base := add64 base sz, v_size := v_size v - sz\<rparr>
                 else v\<lparr>v_size := base - v_base v\<rparr>);
        st \<leftarrow> register_view cfg v st;
        Some (STATUS_SUCCESS, st)
      })"

text \<open>The protection flags of a view that stays in the tree change.\<close>

definition set_protect :: "nat \<Rightarrow> u32 \<Rightarrow> vmem \<Rightarrow> vmem" where
  "set_protect base protect st =
     st\<lparr>vm_views := map_tree (\<lambda>v. if v_base v = base then v\<lparr>v_protect := protect\<rparr> else v) (vm_views st)\<rparr>"

definition free_pages :: "vcfg \<Rightarrow> file_view \<Rightarrow> nat \<Rightarrow> nat \<Rightarrow> vmem \<Rightarrow> (ntstatus \<times> vmem) option" where
  "free_pages cfg v base sz st =
     (if sz = v_size v
      then if base \<noteq> v_base v then None
           else do { st \<leftarrow> delete_view cfg v st; Some (STATUS_SUCCESS, st) }
      else do {
        (status, st) \<leftarrow> remove_pages_from_view cfg v base sz st;
        if status \<noteq> STATUS_SUCCESS then Some (status, st)
        else do {
          st \<leftarrow> fill_vprot base sz 0 st;
          let st = (if v_protect v AND VPROT_ARM64EC \<noteq> 0
                    then st\<lparr>vm_ecmap := clear_arm64ec_range base sz (vm_ecmap st)\<rparr> else st);
          Some (status, unmap_area cfg base sz st)
        }
      })"

definition free_pages_preserve_placeholder ::
  "vcfg \<Rightarrow> file_view \<Rightarrow> nat \<Rightarrow> nat \<Rightarrow> vmem \<Rightarrow> (ntstatus \<times> vmem) option" where
  "free_pages_preserve_placeholder cfg v base sz st =
     (if sz = 0 then Some (STATUS_INVALID_PARAMETER_3, st)
      else if v_protect v AND VPROT_PLACEHOLDER = 0 then Some (STATUS_CONFLICTING_ADDRESSES, st)
      else if v_protect v AND VPROT_FREE_PLACEHOLDER \<noteq> 0 \<and> sz = v_size v then Some (STATUS_CONFLICTING_ADDRESSES, st)
      else do {
        (r, st) \<leftarrow>
          (if sz < v_size v
           then do {
             (status, st) \<leftarrow> remove_pages_from_view cfg v base sz st;
             if status \<noteq> STATUS_SUCCESS then Some (Inl status, st)
             else create_view cfg base sz (VPROT_PLACEHOLDER OR VPROT_FREE_PLACEHOLDER) st
           }
           else Some (Inr v, st));
        case r of
          Inl status \<Rightarrow> Some (status, st)
        | Inr v \<Rightarrow> do {
            let st = set_protect (v_base v) (VPROT_PLACEHOLDER OR VPROT_FREE_PLACEHOLDER) st;
            st \<leftarrow> fill_vprot (v_base v) (v_size v) 0 st;
            Some (STATUS_SUCCESS, snd (anon_mmap_fixed cfg (v_base v) (v_size v) PROT_NONE st))
          }
      })"

definition decommit_pages :: "vcfg \<Rightarrow> file_view \<Rightarrow> nat \<Rightarrow> nat \<Rightarrow> vmem \<Rightarrow> (ntstatus \<times> vmem) option" where
  "decommit_pages cfg v start sz st =
     (let sz = (if sz = 0 then v_size v else sz);
          (ok, st) = anon_mmap_fixed cfg (add64 (v_base v) start) sz PROT_NONE st
      in if ok then do {
           st \<leftarrow> change_vprot_bits (add64 (v_base v) start) sz 0 VPROT_COMMITTED st;
           Some (STATUS_SUCCESS, st)
         }
         else Some (STATUS_NO_MEMORY, st))"

text \<open>
  Adjacent free placeholders from a view on: how many of them, and their sizes together. The walk stops
  when the size that was asked for is reached.
\<close>

fun coalesce_count :: "nat \<Rightarrow> nat \<Rightarrow> nat \<Rightarrow> file_view list \<Rightarrow> nat \<times> nat" where
  "coalesce_count sz n sum_size [] = (n, sum_size)"
| "coalesce_count sz n sum_size (v # vs) =
     (if v_protect v AND VPROT_FREE_PLACEHOLDER = 0 then (n, sum_size)
      else let n = n + 1; sum_size = sum_size + v_size v
           in if sz \<le> sum_size then (n, sum_size)
              else case vs of
                [] \<Rightarrow> (n, sum_size)
              | w # _ \<Rightarrow> if view_end v \<noteq> v_base w then (n, sum_size) else coalesce_count sz n sum_size vs)"

fun unregister_following :: "vcfg \<Rightarrow> nat \<Rightarrow> file_view \<Rightarrow> vmem \<Rightarrow> vmem option" where
  "unregister_following cfg 0 v st = Some st"
| "unregister_following cfg (Suc n) v st =
     (case view_next (v_base v) (inorder (vm_views st)) of
        None \<Rightarrow> None
      | Some w \<Rightarrow> do { st \<leftarrow> unregister_view cfg w st; unregister_following cfg n v st })"

definition coalesce_placeholders ::
  "vcfg \<Rightarrow> file_view \<Rightarrow> nat \<Rightarrow> nat \<Rightarrow> vmem \<Rightarrow> (ntstatus \<times> vmem) option" where
  "coalesce_placeholders cfg v base sz st =
     (if sz = 0 then Some (STATUS_INVALID_PARAMETER_3, st)
      else if base \<noteq> v_base v then Some (STATUS_CONFLICTING_ADDRESSES, st)
      else let (n, sum_size) = coalesce_count sz 0 0 (dropWhile (\<lambda>w. v_base w \<noteq> v_base v) (inorder (vm_views st)))
           in if n < 2 \<or> sz \<noteq> sum_size then Some (STATUS_CONFLICTING_ADDRESSES, st)
              else do {
                st \<leftarrow> unregister_following cfg (n - 1) v st;
                st \<leftarrow> unregister_view cfg v st;
                st \<leftarrow> register_view cfg (v\<lparr>v_size := sum_size\<rparr>) st;
                Some (STATUS_SUCCESS, st)
              })"

end
