(* ===== verification/Virtual_Inv.thy ===== *)
theory Virtual_Inv
  imports Virtual_Views
begin

text \<open>
  The invariant of the memory of a process and its preservation by the steps of which the memory calls
  are made: registering and unregistering views, deleting and creating them, unmapping.
\<close>

section \<open>The invariant\<close>

abbreviation (input) views :: "vmem \<Rightarrow> file_view list" where "views st \<equiv> inorder (vm_views st)"

definition in_view :: "file_view \<Rightarrow> nat \<Rightarrow> bool" where
  "in_view v p \<longleftrightarrow> page_of (v_base v) \<le> p \<and> p < page_of (v_base v + v_size v)"

text \<open>
  A view is made of whole pages, begins at a multiple of 64 KiB and lies below the limit of the protection
  table and of the user space.
\<close>

definition view_aligned :: "vcfg \<Rightarrow> file_view \<Rightarrow> bool" where
  "view_aligned cfg v \<longleftrightarrow> 0x10000 dvd v_base v \<and> 4096 dvd v_size v \<and>
     page_of (v_base v + v_size v) \<le> vc_dirs cfg * block_pages \<and> v_base v + v_size v \<le> vc_user_limit cfg"

text \<open>
  The free ranges are what the views leave; pages of views have protection bytes, which are zero outside
  of the views.
\<close>

definition vm_ok :: "vcfg \<Rightarrow> vmem \<Rightarrow> bool" where
  "vm_ok cfg st \<longleftrightarrow> views_ok (views st) \<and> (\<forall>v \<in> set (views st). view_aligned cfg v) \<and>
     ranges_track (map span (views st)) (vm_ranges st) \<and>
     (\<forall>v \<in> set (views st). has_pages (vm_tbl st) (page_of (v_base v)) (page_of (v_base v + v_size v))) \<and>
     (\<forall>p. (\<forall>v \<in> set (views st). \<not> in_view v p) \<longrightarrow> vbyte (vm_tbl st) p = 0)"

text \<open>The kernel enforces the protection bytes of the views that this code controls.\<close>

definition kernel_ok :: "vcfg \<Rightarrow> vmem \<Rightarrow> bool" where
  "kernel_ok cfg st \<longleftrightarrow> (\<forall>v \<in> set (views st). v_protect v AND VPROT_SYSTEM = 0 \<longrightarrow>
     kernel_agrees (vc_prot cfg) (vm_tbl st) (vm_kprot st) (page_of (v_base v)) (page_of (v_base v + v_size v)))"

text \<open>The sequence of free ranges has room, and system calls and allocations succeed.\<close>

definition ranges_room :: "nat \<Rightarrow> vmem \<Rightarrow> bool" where
  "ranges_room n st \<longleftrightarrow> length (vm_ranges st) + n \<le> max_ranges"

definition calls_work :: "vcfg \<Rightarrow> bool" where
  "calls_work cfg \<longleftrightarrow> rbtree_ok (vc_rb cfg) \<and> mprotect_works (vc_prot cfg) \<and> vc_alloc_view cfg \<and>
     (\<forall>i. vc_block_ok cfg i) \<and> (\<forall>a n. vc_fixed_ok cfg a n)"

section \<open>Registering views\<close>

lemma page_of_aligned: "4096 dvd a \<Longrightarrow> page_of a * 4096 = a"
  by (simp add: page_of_def)

lemma page_of_mono: "a \<le> b \<Longrightarrow> page_of a \<le> page_of b"
  by (simp add: page_of_def div_le_mono)

lemma page_end_aligned:
  "4096 dvd a \<Longrightarrow> 4096 dvd n \<Longrightarrow> a + n + 4095 < 2 ^ 64 \<Longrightarrow> page_end a n = page_of (a + n)"
  by (auto simp: page_end_nat page_of_def elim!: dvdE)

lemma page_of_add: "4096 dvd a \<Longrightarrow> page_of (a + n) = page_of a + page_of n"
  by (auto simp: page_of_def elim!: dvdE)

lemma clean_start_views:
  assumes "views_ok (L @ v # R)" and "0x10000 dvd v_base v"
  shows "clean_start (map span (L @ R)) (v_base v)"
proof (rule clean_start_aligned [OF assms(2)])
  note s = views_ok_split [OF assms(1)]
  have "v_base w + v_size w + 0x20000 \<le> 2 ^ 64" if "w \<in> set (L @ R)" for w
    using views_ok_in(3) [OF s(3) that] .
  moreover have "v_base w + v_size w \<le> v_base v" if "w \<in> set (L @ R)" "v_base w < v_base v" for w
    using that s(4,6,7) by force
  ultimately show "\<forall>(b', s') \<in> set (map span (L @ R)). b' + s' + 0x20000 \<le> 2 ^ 64 \<and> (b' < v_base v \<longrightarrow> b' + s' \<le> v_base v)"
    by (auto simp: span_def)
qed

lemma last_map_span: "L \<noteq> [] \<Longrightarrow> last (map span L) = span (last L)"
  by (simp add: last_map)

lemma prev_of_spec: "views st = L @ v # R \<Longrightarrow> views_ok (views st) \<Longrightarrow> prev_of v st = prev_span (map span L)"
  using view_prev_spec [of L v R] by (simp add: prev_of_def prev_span_def last_map_span)

lemma next_of_spec: "views st = L @ v # R \<Longrightarrow> views_ok (views st) \<Longrightarrow> next_of v st = next_span (map span R)"
  using view_next_spec [of L v R] by (cases R) (simp_all add: next_of_def next_span_def)

lemma unregister_spec:
  assumes "rbtree_ok (vc_rb cfg)" and "views st = L @ v # R" and "views_ok (views st)"
    and "ranges_track (map span (views st)) (vm_ranges st)" and "ranges_room 1 st"
    and "clean_start (map span (L @ R)) (v_base v)"
  shows "\<exists>fr t. unregister_view cfg v st = Some (st\<lparr>vm_ranges := fr, vm_views := t\<rparr>) \<and> inorder t = L @ R \<and>
    ranges_track (map span (L @ R)) fr \<and> length fr \<le> length (vm_ranges st) + 1"
proof -
  have sp: "map span (L @ v # R) = map span L @ (v_base v, v_size v) # map span R" by (simp add: span_def)
  have "spans_ok (map span L @ (v_base v, v_size v) # map span R)"
    using assms(2,3) sp by (simp add: views_ok_def)
  moreover have "ranges_track (map span L @ (v_base v, v_size v) # map span R) (vm_ranges st)"
    using assms(2,4) sp by simp
  moreover have "length (vm_ranges st) < max_ranges" using assms(5) by (simp add: ranges_room_def)
  moreover have "clean_start (map span L @ map span R) (v_base v)" using assms(6) by simp
  ultimately obtain fr where "free_ranges_remove_view (prev_span (map span L)) (next_span (map span R)) (v_base v) (v_size v) (vm_ranges st) = Some fr"
      "ranges_track (map span L @ map span R) fr" "length fr \<le> length (vm_ranges st) + 1"
    using remove_view_tracks by blast
  moreover have "inorder (rb_remove (vc_rb cfg) v (vm_views st)) = L @ R"
    using rb_remove_spec [OF assms(1,2,3)] .
  ultimately show ?thesis
    by (intro exI [of _ fr] exI [of _ "rb_remove (vc_rb cfg) v (vm_views st)"])
      (simp add: unregister_view_def prev_of_spec [OF assms(2,3)] next_of_spec [OF assms(2,3)])
qed

lemma register_spec:
  assumes "rbtree_ok (vc_rb cfg)" and "views st = L @ R" and "views_ok (L @ v # R)"
    and "ranges_track (map span (views st)) (vm_ranges st)" and "ranges_room 1 st"
    and "clean_start (map span (L @ R)) (v_base v)"
  shows "\<exists>fr t. register_view cfg v st = Some (st\<lparr>vm_ranges := fr, vm_views := t\<rparr>) \<and> inorder t = L @ v # R \<and>
    ranges_track (map span (L @ v # R)) fr \<and> length fr \<le> length (vm_ranges st) + 1"
proof -
  have sp: "map span (L @ v # R) = map span L @ (v_base v, v_size v) # map span R" by (simp add: span_def)
  have "spans_ok (map span L @ (v_base v, v_size v) # map span R)"
    using assms(3) sp by (simp add: views_ok_def)
  moreover have "ranges_track (map span L @ map span R) (vm_ranges st)" using assms(2,4) by simp
  moreover have "length (vm_ranges st) < max_ranges" using assms(5) by (simp add: ranges_room_def)
  moreover have "clean_start (map span L @ map span R) (v_base v)" using assms(6) by simp
  ultimately obtain fr where "free_ranges_insert_view (v_base v) (v_size v) (vm_ranges st) = Some fr"
      "ranges_track (map span L @ (v_base v, v_size v) # map span R) fr" "length fr \<le> length (vm_ranges st) + 1"
    using insert_view_tracks by blast
  moreover have "inorder (rb_put (vc_rb cfg) v (vm_views st)) = L @ v # R"
    using rb_put_spec [OF assms(1,2,3)] .
  ultimately show ?thesis
    by (intro exI [of _ fr] exI [of _ "rb_put (vc_rb cfg) v (vm_views st)"]) (simp add: register_view_def span_def)
qed

section \<open>Unmapping\<close>

text \<open>Unmapping concerns the kernel and the reserved areas only, and leaves no access to the pages.\<close>

lemma munmap_sel [simp]:
  "vm_views (munmap a n st) = vm_views st" "vm_ranges (munmap a n st) = vm_ranges st" "vm_tbl (munmap a n st) = vm_tbl st"
  "vm_ecmap (munmap a n st) = vm_ecmap st" "vm_reserved (munmap a n st) = vm_reserved st"
  "vm_kprot (munmap a n st) p = (if in_pages a n p then PROT_NONE else vm_kprot st p)"
  by (simp_all add: munmap_def)

lemma anon_fixed_sel [simp]:
  "vm_views (snd (anon_mmap_fixed cfg a n pr st)) = vm_views st" "vm_ranges (snd (anon_mmap_fixed cfg a n pr st)) = vm_ranges st"
  "vm_tbl (snd (anon_mmap_fixed cfg a n pr st)) = vm_tbl st" "vm_ecmap (snd (anon_mmap_fixed cfg a n pr st)) = vm_ecmap st"
  "vm_reserved (snd (anon_mmap_fixed cfg a n pr st)) = vm_reserved st"
  "fst (anon_mmap_fixed cfg a n pr st) = vc_fixed_ok cfg a n"
  "vm_kprot (snd (anon_mmap_fixed cfg a n pr st)) p = (if vc_fixed_ok cfg a n \<and> in_pages a n p then pr else vm_kprot st p)"
  by (simp_all add: anon_mmap_fixed_def)

lemma unmap_loop_sel [simp]:
  "vm_views (unmap_loop cfg as s e st) = vm_views st" "vm_ranges (unmap_loop cfg as s e st) = vm_ranges st"
  "vm_tbl (unmap_loop cfg as s e st) = vm_tbl st" "vm_ecmap (unmap_loop cfg as s e st) = vm_ecmap st"
  "vm_reserved (unmap_loop cfg as s e st) = vm_reserved st"
  by (induction as arbitrary: s st) (simp_all add: Let_def)

lemma above_limit_sel [simp]:
  "vm_views (snd (unmap_area_above_user_limit cfg a n st)) = vm_views st"
  "vm_ranges (snd (unmap_area_above_user_limit cfg a n st)) = vm_ranges st"
  "vm_tbl (snd (unmap_area_above_user_limit cfg a n st)) = vm_tbl st"
  "vm_ecmap (snd (unmap_area_above_user_limit cfg a n st)) = vm_ecmap st"
  by (simp_all add: unmap_area_above_user_limit_def Let_def)

lemma unmap_area_sel [simp]:
  "vm_views (unmap_area cfg a n st) = vm_views st" "vm_ranges (unmap_area cfg a n st) = vm_ranges st"
  "vm_tbl (unmap_area cfg a n st) = vm_tbl st" "vm_ecmap (unmap_area cfg a n st) = vm_ecmap st"
  by (simp_all add: unmap_area_def case_prod_beta)

text \<open>Page-aligned reserved areas.\<close>

definition areas_paged :: "span list \<Rightarrow> bool" where
  "areas_paged as \<longleftrightarrow> areas_ok as \<and> (\<forall>a \<in> set as. 4096 dvd fst a \<and> 4096 dvd snd a)"

lemma in_pages_iff: "4096 dvd a \<Longrightarrow> in_pages a n p \<longleftrightarrow> page_of a \<le> p \<and> p < page_of (a + n)"
  by (simp add: in_pages_def page_of_add)

lemma unmap_loop_kprot:
  assumes "areas_paged as" and "4096 dvd s" and "s < e" and "\<forall>a n. vc_fixed_ok cfg a n"
  shows "vm_kprot (unmap_loop cfg as s e st) p = (if page_of s \<le> p \<and> p < page_of e then PROT_NONE else vm_kprot st p)"
  using assms(1-3)
proof (induction as arbitrary: s st)
  case Nil
  then show ?case by (simp add: in_pages_iff)
next
  case (Cons a as)
  have a: "areas_paged as" "4096 dvd fst a" "4096 dvd snd a" "area_end a = fst a + snd a" "fst a < area_end a"
    using Cons.prems(1) by (auto simp: areas_paged_def areas_ok_Cons area_end_nat)
  then have d: "4096 dvd area_end a" by simp
  consider (before) "e \<le> fst a" | (after) "fst a < e" "area_end a \<le> s"
    | (meet) "fst a < e" "s < area_end a" by linarith
  then show ?case
  proof cases
    case before
    then show ?thesis using Cons.prems(2,3) by (simp add: in_pages_iff)
  next
    case after
    then show ?thesis using Cons.IH [OF a(1) Cons.prems(2,3)] by simp
  next
    case meet
    define s1 where "s1 = (if s < fst a then fst a else s)"
    define st1 where "st1 = (if s < fst a then munmap s (fst a - s) st else st)"
    have s1: "4096 dvd s1" "s \<le> s1" "s1 < area_end a" "s1 < e" using meet a(2,5) Cons.prems(2,3) by (auto simp: s1_def)
    have k1: "vm_kprot st1 q = (if page_of s \<le> q \<and> q < page_of s1 then PROT_NONE else vm_kprot st q)" for q
      using Cons.prems(2) by (auto simp: st1_def s1_def in_pages_iff)
    have le: "page_of s \<le> page_of s1" using page_of_mono [OF s1(2)] .
    have step: "unmap_loop cfg (a # as) s e st =
        (if e \<le> area_end a then snd (anon_mmap_fixed cfg s1 (e - s1) PROT_NONE st1)
         else unmap_loop cfg as (area_end a) e (snd (anon_mmap_fixed cfg s1 (area_end a - s1) PROT_NONE st1)))"
      using meet by (simp add: Let_def s1_def [symmetric] st1_def [symmetric])
    show ?thesis
    proof (cases "e \<le> area_end a")
      case True
      then show ?thesis using step s1 assms(4) le page_of_mono [of s1 e] by (auto simp: in_pages_iff k1)
    next
      case False
      then have "area_end a < e" by simp
      have "page_of s1 \<le> page_of (area_end a)" "page_of (area_end a) \<le> page_of e"
        using page_of_mono [of s1 "area_end a"] page_of_mono [of "area_end a" e] \<open>area_end a < e\<close> s1(3) by simp_all
      then show ?thesis
        unfolding step using False s1 assms(4) le Cons.IH [OF a(1) d \<open>area_end a < e\<close>]
        by (auto simp: in_pages_iff k1)
    qed
  qed
qed

lemma unmap_area_kprot:
  assumes "areas_paged (vm_reserved st)" and "4096 dvd a" and "a + n \<le> vc_user_limit cfg" and "a + n < 2 ^ 64"
    and "0 < n" and "\<forall>a n. vc_fixed_ok cfg a n"
  shows "vm_kprot (unmap_area cfg a n st) p = (if page_of a \<le> p \<and> p < page_of (a + n) then PROT_NONE else vm_kprot st p)"
    and "vm_reserved (unmap_area cfg a n st) = vm_reserved st"
proof -
  have s: "unmap_area_above_user_limit cfg a n st = (n, st)"
    using assms(3,5) by (auto simp: unmap_area_above_user_limit_def Let_def)
  show "vm_kprot (unmap_area cfg a n st) p = (if page_of a \<le> p \<and> p < page_of (a + n) then PROT_NONE else vm_kprot st p)"
    using s unmap_loop_kprot [OF assms(1,2) _ assms(6), of "a + n" st p] assms(4,5)
    by (simp add: unmap_area_def add64_def)
  show "vm_reserved (unmap_area cfg a n st) = vm_reserved st"
    using s assms(5) by (simp add: unmap_area_def)
qed

end
