(* ===== verification/Virtual_Keep.thy ===== *)
theory Virtual_Keep
  imports Virtual_Inv
begin

text \<open>
  What the calls that take pages out of views leave: the invariant, the agreement with the kernel, and
  for every page the view flags and the protection byte it had, but for the pages taken.
\<close>

section \<open>Pages of views\<close>

text \<open>What a process sees of a page: the flags of its view and its protection byte, or that it is free.\<close>

definition vm_page :: "vmem \<Rightarrow> nat \<Rightarrow> (u32 \<times> u8) option" where
  "vm_page st p = map_option (\<lambda>v. (v_protect v, vbyte (vm_tbl st) p)) (find (\<lambda>v. in_view v p) (views st))"

lemma views_apart:
  assumes "views_ok (L @ v # R)" and "w \<in> set (L @ R)" and "in_view v p"
  shows "\<not> in_view w p"
proof -
  have "w \<in> set L \<or> w \<in> set R" using assms(2) by simp
  then have "v_base w + v_size w \<le> v_base v \<or> v_base v + v_size v \<le> v_base w"
  proof
    assume "w \<in> set L"
    from bspec [OF views_ok_split(6) [OF assms(1)] this] show ?thesis by simp
  next
    assume "w \<in> set R"
    from bspec [OF views_ok_split(7) [OF assms(1)] this] show ?thesis by simp
  qed
  then have "page_of (v_base w + v_size w) \<le> page_of (v_base v) \<or> page_of (v_base v + v_size v) \<le> page_of (v_base w)"
    by (elim disj_forward page_of_mono)
  then show ?thesis using assms(3) unfolding in_view_def by linarith
qed

lemma find_unique:
  assumes "v \<in> set vs" and "P v" and "\<forall>w \<in> set vs. P w \<longrightarrow> f w = f v"
  shows "map_option f (find P vs) = Some (f v)"
proof (cases "find P vs")
  case None
  then show ?thesis using assms(1,2) by (simp add: find_None_iff)
next
  case (Some w)
  then have "w \<in> set vs \<and> P w" by (auto simp: find_Some_iff)
  then show ?thesis using assms(3) Some by simp
qed

lemma view_unique:
  assumes "views_ok vs" and "v \<in> set vs" and "in_view v p" and "w \<in> set vs" and "in_view w p"
  shows "w = v"
proof -
  obtain L R where vs: "vs = L @ v # R" using assms(2) by (auto simp: in_set_conv_decomp)
  then show ?thesis using views_apart [of L v R w p] assms by auto
qed

lemma vm_page_in:
  "views_ok (views st) \<Longrightarrow> v \<in> set (views st) \<Longrightarrow> in_view v p \<Longrightarrow> vm_page st p = Some (v_protect v, vbyte (vm_tbl st) p)"
  unfolding vm_page_def by (rule find_unique) (auto dest: view_unique)

lemma vm_page_out: "\<forall>v \<in> set (views st). \<not> in_view v p \<Longrightarrow> vm_page st p = None"
  unfolding vm_page_def by (simp add: find_None_iff)

section \<open>Cutting a view\<close>

text \<open>
  A part of a view that can be taken: whole pages, at the end of the view or up to a multiple of 64 KiB.
\<close>

definition cut_ok :: "file_view \<Rightarrow> nat \<Rightarrow> nat \<Rightarrow> bool" where
  "cut_ok v base sz \<longleftrightarrow> 0 < sz \<and> 4096 dvd base \<and> 4096 dvd sz \<and> v_base v \<le> base \<and> base + sz \<le> v_base v + v_size v \<and>
     (base + sz = v_base v + v_size v \<or> 0x10000 dvd base + sz)"

text \<open>What is left: a part before, and a part after.\<close>

definition pieces :: "file_view \<Rightarrow> nat \<Rightarrow> nat \<Rightarrow> file_view list" where
  "pieces v base sz =
     (if base = v_base v then [] else [v\<lparr>v_size := base - v_base v\<rparr>]) @
     (if base + sz = v_base v + v_size v then []
      else [\<lparr>v_base = base + sz, v_size = v_base v + v_size v - (base + sz), v_protect = v_protect v\<rparr>])"

lemma pieces_protect: "w \<in> set (pieces v base sz) \<Longrightarrow> v_protect w = v_protect v"
  by (auto simp: pieces_def split: if_splits)

lemma pieces_pages:
  assumes "cut_ok v base sz"
  shows "(\<exists>w \<in> set (pieces v base sz). in_view w p) \<longleftrightarrow>
    in_view v p \<and> \<not> (page_of base \<le> p \<and> p < page_of (base + sz))"
  using assms page_of_mono [of "v_base v" base] page_of_mono [of base "base + sz"]
    page_of_mono [of "base + sz" "v_base v + v_size v"]
  by (auto simp: pieces_def cut_ok_def in_view_def)

lemma pieces_views_ok:
  assumes "views_ok (L @ v # R)" and "0x10000 dvd v_base v" and "cut_ok v base sz"
  shows "views_ok (L @ pieces v base sz @ R)"
proof -
  note s = views_ok_split [OF assms(1)]
  have low: "L \<noteq> [] \<Longrightarrow> 0x10000 \<le> v_base v" using assms(1) by (simp add: views_ok_mid)
  have c: "0 < sz" "v_base v \<le> base" "base + sz \<le> v_base v + v_size v" "v_base v < base + sz"
    "base + sz = v_base v + v_size v \<or> 0x10000 dvd base + sz"
    using assms(3) by (auto simp: cut_ok_def)
  then have high: "base + sz \<noteq> v_base v + v_size v \<Longrightarrow> 0x10000 \<le> base + sz" by (auto dest: dvd_imp_le)
  have after: "views_ok (L @ (if base + sz = v_base v + v_size v then []
      else [\<lparr>v_base = base + sz, v_size = v_base v + v_size v - (base + sz), v_protect = v_protect v\<rparr>]) @ R)" (is "views_ok (L @ ?A @ R)")
    using s c high by (auto simp: views_ok_mid)
  show ?thesis
  proof (cases "base = v_base v")
    case True
    then show ?thesis using after unfolding pieces_def True by simp
  next
    case False
    then have "views_ok (L @ v\<lparr>v_size := base - v_base v\<rparr> # ?A @ R)"
      using s c after low high unfolding views_ok_mid [of L "v\<lparr>v_size := base - v_base v\<rparr>"]
      by (force split: if_splits)
    then show ?thesis using False by (simp add: pieces_def)
  qed
qed

lemma pieces_aligned:
  assumes "view_aligned cfg v" and "cut_ok v base sz" and "w \<in> set (pieces v base sz)"
  shows "view_aligned cfg w" and "page_of (v_base v) \<le> page_of (v_base w)"
    and "page_of (v_base w + v_size w) \<le> page_of (v_base v + v_size v)"
proof -
  have a: "0x10000 dvd v_base v" "4096 dvd v_size v" "page_of (v_base v + v_size v) \<le> vc_dirs cfg * block_pages"
    "v_base v + v_size v \<le> vc_user_limit cfg" using assms(1) by (simp_all add: view_aligned_def)
  have c: "4096 dvd base" "4096 dvd sz" "v_base v \<le> base" "base + sz \<le> v_base v + v_size v"
    "base + sz = v_base v + v_size v \<or> 0x10000 dvd base + sz" using assms(2) by (simp_all add: cut_ok_def)
  have d: "4096 dvd v_base v" using a(1) by (rule dvd_trans [rotated]) simp
  have e: "v_base w + v_size w \<le> v_base v + v_size v" "v_base v \<le> v_base w" "0x10000 dvd v_base w" "4096 dvd v_size w"
    using assms(3) a c d by (auto simp: pieces_def dvd_diff_nat split: if_splits)
  show "page_of (v_base v) \<le> page_of (v_base w)" using e(2) by (rule page_of_mono)
  show "page_of (v_base w + v_size w) \<le> page_of (v_base v + v_size v)" using e(1) by (rule page_of_mono)
  then show "view_aligned cfg w" using a(3,4) e by (simp add: view_aligned_def)
qed

text \<open>Taking pages out: the views that are left, zero bytes for the pages taken, and ranges that follow.\<close>

abbreviation (input) in_cut :: "nat \<Rightarrow> nat \<Rightarrow> nat \<Rightarrow> bool" where
  "in_cut base sz p \<equiv> page_of base \<le> p \<and> p < page_of (base + sz)"

lemma vm_okD:
  assumes "vm_ok cfg st"
  shows "views_ok (views st)" "v \<in> set (views st) \<Longrightarrow> view_aligned cfg v" "ranges_track (map span (views st)) (vm_ranges st)"
    "v \<in> set (views st) \<Longrightarrow> has_pages (vm_tbl st) (page_of (v_base v)) (page_of (v_base v + v_size v))"
    "\<forall>v \<in> set (views st). \<not> in_view v p \<Longrightarrow> vbyte (vm_tbl st) p = 0"
  using assms by (simp_all add: vm_ok_def)

lemma cut_in_view:
  assumes "cut_ok v base sz" and "in_cut base sz p"
  shows "in_view v p"
  using assms page_of_mono [of "v_base v" base] page_of_mono [of "base + sz" "v_base v + v_size v"]
  by (simp add: cut_ok_def in_view_def)

definition pages_cut :: "vcfg \<Rightarrow> file_view list \<Rightarrow> file_view \<Rightarrow> file_view list \<Rightarrow> nat \<Rightarrow> nat \<Rightarrow> vmem \<Rightarrow> vmem \<Rightarrow> bool" where
  "pages_cut cfg L v R base sz st st' \<longleftrightarrow> vm_ok cfg st \<and> views st = L @ v # R \<and> cut_ok v base sz \<and>
     views st' = L @ pieces v base sz @ R \<and> ranges_track (map span (views st')) (vm_ranges st') \<and>
     bytes_changed (page_of base) (page_of (base + sz)) (\<lambda>_. 0) (vm_tbl st) (vm_tbl st')"

lemma pages_cutD:
  assumes "pages_cut cfg L v R base sz st st'"
  shows "vm_ok cfg st" "views st = L @ v # R" "cut_ok v base sz" "views st' = L @ pieces v base sz @ R"
    "ranges_track (map span (views st')) (vm_ranges st')"
    "bytes_changed (page_of base) (page_of (base + sz)) (\<lambda>_. 0) (vm_tbl st) (vm_tbl st')"
    "views_ok (L @ v # R)" "views_ok (views st')"
    "vbyte (vm_tbl st') p = (if in_cut base sz p then 0 else vbyte (vm_tbl st) p)"
proof -
  show c: "vm_ok cfg st" "views st = L @ v # R" "cut_ok v base sz" "views st' = L @ pieces v base sz @ R"
    "ranges_track (map span (views st')) (vm_ranges st')"
    "bytes_changed (page_of base) (page_of (base + sz)) (\<lambda>_. 0) (vm_tbl st) (vm_tbl st')"
    using assms unfolding pages_cut_def by blast+
  show vok: "views_ok (L @ v # R)" using vm_okD(1) [OF c(1)] by (simp add: c(2))
  have "0x10000 dvd v_base v" using vm_okD(2) [OF c(1), of v] by (simp add: c(2) view_aligned_def)
  then show "views_ok (views st')" unfolding c(4) by (rule pieces_views_ok [OF vok _ c(3)])
  show "vbyte (vm_tbl st') p = (if in_cut base sz p then 0 else vbyte (vm_tbl st) p)"
    using c(6) by (simp add: bytes_changed_def)
qed

lemma cut_cases:
  assumes "pages_cut cfg L v R base sz st st'" and "w \<in> set (views st')"
  obtains (old) "w \<in> set (L @ R)" "w \<in> set (views st)" | (piece) "w \<in> set (pieces v base sz)"
proof -
  have "w \<in> set (L @ R) \<and> w \<in> set (views st) \<or> w \<in> set (pieces v base sz)"
    using assms(2) pages_cutD(2,4) [OF assms(1)] by (simp only: set_append Un_iff list.set insert_iff) blast
  then show thesis using old piece by blast
qed

lemma cut_in_views:
  assumes "pages_cut cfg L v R base sz st st'"
  shows "(\<exists>w \<in> set (views st'). in_view w p) \<longleftrightarrow> (\<exists>w \<in> set (views st). in_view w p) \<and> \<not> in_cut base sz p"
proof -
  note c = pages_cutD [OF assms]
  have apart: "in_view w p \<Longrightarrow> \<not> in_cut base sz p" if "w \<in> set (L @ R)" for w
    using views_apart [OF c(7) that] cut_in_view [OF c(3)] by blast
  have "(\<exists>w \<in> set (views st'). in_view w p) \<longleftrightarrow>
      (\<exists>w \<in> set (L @ R). in_view w p) \<or> (\<exists>w \<in> set (pieces v base sz). in_view w p)" by (auto simp: c(4))
  also have "\<dots> \<longleftrightarrow> (\<exists>w \<in> set (L @ R). in_view w p) \<or> in_view v p \<and> \<not> in_cut base sz p"
    unfolding pieces_pages [OF c(3)] ..
  also have "\<dots> \<longleftrightarrow> ((\<exists>w \<in> set (L @ R). in_view w p) \<or> in_view v p) \<and> \<not> in_cut base sz p"
    using apart by blast
  also have "(\<exists>w \<in> set (L @ R). in_view w p) \<or> in_view v p \<longleftrightarrow> (\<exists>w \<in> set (views st). in_view w p)" by (auto simp: c(2))
  finally show ?thesis .
qed

lemma cut_keeps_ok:
  assumes "pages_cut cfg L v R base sz st st'"
  shows "vm_ok cfg st'"
  unfolding vm_ok_def
proof (intro conjI ballI allI impI)
  note c = pages_cutD [OF assms]
  show "views_ok (views st')" by (rule c(8))
  show "ranges_track (map span (views st')) (vm_ranges st')" by (rule c(5))
  have v: "v \<in> set (views st)" by (simp add: c(2))
  fix w assume w: "w \<in> set (views st')"
  show "view_aligned cfg w"
  proof (cases rule: cut_cases [OF assms w, case_names old piece])
    case old
    then show ?thesis by (intro vm_okD(2) [OF c(1)])
  next
    case piece
    then show ?thesis by (rule pieces_aligned(1) [OF vm_okD(2) [OF c(1) v] c(3)])
  qed
  have "has_pages (vm_tbl st) (page_of (v_base w)) (page_of (v_base w + v_size w))"
  proof (cases rule: cut_cases [OF assms w, case_names old piece])
    case old
    then show ?thesis by (intro vm_okD(4) [OF c(1)])
  next
    case piece
    show ?thesis
      by (rule has_pages_mono [OF vm_okD(4) [OF c(1) v] pieces_aligned(2,3) [OF vm_okD(2) [OF c(1) v] c(3) piece]])
  qed
  then show "has_pages (vm_tbl st') (page_of (v_base w)) (page_of (v_base w + v_size w))"
    by (simp only: bytes_changed_pages [OF c(6)])
next
  fix p assume "\<forall>w \<in> set (views st'). \<not> in_view w p"
  then have "in_cut base sz p \<or> (\<forall>w \<in> set (views st). \<not> in_view w p)" using cut_in_views [OF assms, of p] by blast
  then show "vbyte (vm_tbl st') p = 0"
    using vm_okD(5) [OF pages_cutD(1) [OF assms], of p] pages_cutD(9) [OF assms, of p] by auto
qed

text \<open>A view of the new state lies in one of the old state with the same flags.\<close>

lemma cut_from:
  assumes "pages_cut cfg L v R base sz st st'" and "w \<in> set (views st')" and "in_view w p"
  obtains u where "u \<in> set (views st)" "in_view u p" "v_protect u = v_protect w"
proof (cases rule: cut_cases [OF assms(1,2), case_names old piece])
  case old
  then show thesis using that assms(3) by blast
next
  case piece
  note c = pages_cutD [OF assms(1)]
  have "in_view v p" using pieces_pages [OF c(3), of p] piece assms(3) by blast
  then show thesis using that [of v] pieces_protect [OF piece] by (simp add: c(2))
qed

lemma cut_pages:
  assumes "pages_cut cfg L v R base sz st st'"
  shows "vm_page st' p = (if in_cut base sz p then None else vm_page st p)"
proof (cases "\<exists>w \<in> set (views st'). in_view w p")
  case True
  note c = pages_cutD [OF assms]
  obtain w where w: "w \<in> set (views st')" "in_view w p" using True by blast
  then obtain u where u: "u \<in> set (views st)" "in_view u p" "v_protect u = v_protect w" by (rule cut_from [OF assms])
  have nc: "\<not> in_cut base sz p" using True cut_in_views [OF assms] by blast
  have "vm_page st p = Some (v_protect w, vbyte (vm_tbl st) p)"
    using vm_page_in [OF vm_okD(1) [OF c(1)] u(1,2)] u(3) by simp
  then show ?thesis using nc vm_page_in [OF c(8) w] c(9) [of p] by auto
next
  case False
  then have "vm_page st' p = None" by (intro vm_page_out) blast
  moreover have "vm_page st p = None" if "\<not> in_cut base sz p"
    using False that cut_in_views [OF assms] by (intro vm_page_out) blast
  ultimately show ?thesis by simp
qed

lemma cut_keeps_kernel:
  assumes "pages_cut cfg L v R base sz st st'" and "kernel_ok cfg st"
    and "\<forall>p. \<not> in_cut base sz p \<longrightarrow> vm_kprot st' p = vm_kprot st p"
  shows "kernel_ok cfg st'"
  unfolding kernel_ok_def kernel_agrees_def
proof (intro ballI impI allI)
  fix w p assume w: "w \<in> set (views st')" "v_protect w AND VPROT_SYSTEM = 0"
    and p: "page_of (v_base w) \<le> p \<and> p < page_of (v_base w + v_size w)"
  then have inw: "in_view w p" by (simp add: in_view_def)
  then have nc: "\<not> in_cut base sz p" using cut_in_views [OF assms(1)] w(1) by blast
  obtain u where u: "u \<in> set (views st)" "in_view u p" "v_protect u = v_protect w"
    by (rule cut_from [OF assms(1) w(1) inw])
  then have "vm_kprot st p = forced_prot (vc_prot cfg) (get_unix_prot (vc_prot cfg) (vbyte (vm_tbl st) p))"
    using assms(2) w(2) unfolding kernel_ok_def kernel_agrees_def in_view_def by fastforce
  then show "vm_kprot st' p = forced_prot (vc_prot cfg) (get_unix_prot (vc_prot cfg) (vbyte (vm_tbl st') p))"
    using assms(3) nc pages_cutD(9) [OF assms(1), of p] by auto
qed

section \<open>The operations\<close>

lemma dvd_4096:
  fixes a :: nat
  assumes "0x10000 dvd a"
  shows "4096 dvd a"
  using assms by (rule dvd_trans [rotated]) simp

lemma fill_vprot_spec:
  assumes "4096 dvd a" and "4096 dvd n" and "a + n + 4095 < 2 ^ 64" and "has_pages (vm_tbl st) (page_of a) (page_of (a + n))"
  shows "\<exists>tbl. fill_vprot a n x st = Some (st\<lparr>vm_tbl := tbl\<rparr>) \<and>
    bytes_changed (page_of a) (page_of (a + n)) (\<lambda>_. x) (vm_tbl st) tbl"
  using set_page_vprot_spec [OF assms(3), of "vm_tbl st" x] assms(4) page_end_aligned [OF assms(1-3)]
  by (auto simp: fill_vprot_def)

text \<open>Registering a part of a view that was there.\<close>

lemma register_part:
  assumes "calls_work cfg" and "views st = L @ R" and "views_ok (L @ w # R)" and "0x10000 dvd v_base w"
    and "ranges_track (map span (views st)) (vm_ranges st)" and "ranges_room 1 st"
  shows "\<exists>fr t. register_view cfg w st = Some (st\<lparr>vm_ranges := fr, vm_views := t\<rparr>) \<and> inorder t = L @ w # R \<and>
    ranges_track (map span (L @ w # R)) fr \<and> length fr \<le> length (vm_ranges st) + 1"
  by (rule register_spec [OF _ assms(2,3,5,6) clean_start_views [OF assms(3,4)]]) (use assms(1) in \<open>simp add: calls_work_def\<close>)

lemma unregister_part:
  assumes "calls_work cfg" and "views st = L @ v # R" and "views_ok (L @ v # R)" and "0x10000 dvd v_base v"
    and "ranges_track (map span (views st)) (vm_ranges st)" and "ranges_room 1 st"
  shows "\<exists>fr t. unregister_view cfg v st = Some (st\<lparr>vm_ranges := fr, vm_views := t\<rparr>) \<and> inorder t = L @ R \<and>
    ranges_track (map span (L @ R)) fr \<and> length fr \<le> length (vm_ranges st) + 1"
  using unregister_spec [OF _ assms(2) _ assms(5,6) clean_start_views [OF assms(3,4)]] assms(1-3)
  by (simp add: calls_work_def)

lemma cut_bounds:
  assumes "vm_ok cfg st" and "views st = L @ v # R" and "cut_ok v base sz"
  shows "add64 base sz = base + sz" "view_end v = v_base v + v_size v" "base + sz + 4095 < 2 ^ 64"
    "base + sz \<le> vc_user_limit cfg" "base + sz < 2 ^ 64" "has_pages (vm_tbl st) (page_of base) (page_of (base + sz))"
proof -
  have ok: "views_ok (L @ v # R)" "view_aligned cfg v" "has_pages (vm_tbl st) (page_of (v_base v)) (page_of (v_base v + v_size v))"
    using vm_okD(1) [OF assms(1)] vm_okD(2,4) [OF assms(1), of v] assms(2) by simp_all
  have c: "v_base v \<le> base" "base + sz \<le> v_base v + v_size v" using assms(3) by (simp_all add: cut_ok_def)
  have e: "v_base v + v_size v + 0x20000 \<le> 2 ^ 64" by (rule views_ok_split(5) [OF ok(1)])
  show "view_end v = v_base v + v_size v" using e by (rule view_end_nat)
  show le: "base + sz + 4095 < 2 ^ 64" "base + sz < 2 ^ 64" using c e by simp_all
  then show "add64 base sz = base + sz" by (simp add: add64_def)
  show "base + sz \<le> vc_user_limit cfg" using ok(2) c by (simp add: view_aligned_def)
  show "has_pages (vm_tbl st) (page_of base) (page_of (base + sz))"
    by (rule has_pages_mono [OF ok(3) page_of_mono [OF c(1)] page_of_mono [OF c(2)]])
qed

lemma remove_pages_spec:
  assumes "calls_work cfg" and "vm_ok cfg st" and "views st = L @ v # R" and "cut_ok v base sz" and "sz < v_size v"
    and "ranges_room 3 st"
  shows "\<exists>fr t. remove_pages_from_view cfg v base sz st = Some (STATUS_SUCCESS, st\<lparr>vm_ranges := fr, vm_views := t\<rparr>) \<and>
    inorder t = L @ pieces v base sz @ R \<and> ranges_track (map span (L @ pieces v base sz @ R)) fr"
proof -
  note b = cut_bounds [OF assms(2-4)]
  have c: "v_base v \<le> base" "base + sz \<le> v_base v + v_size v" "base + sz = v_base v + v_size v \<or> 0x10000 dvd base + sz"
    using assms(4) by (simp_all add: cut_ok_def)
  have al: "0x10000 dvd v_base v" using vm_okD(2) [OF assms(2), of v] assms(3) by (simp add: view_aligned_def)
  have vv: "views_ok (L @ v # R)" using vm_okD(1) [OF assms(2)] assms(3) by simp
  then have vok: "views_ok (L @ pieces v base sz @ R)" by (rule pieces_views_ok [OF _ al assms(4)])
  obtain fr t where u: "unregister_view cfg v st = Some (st\<lparr>vm_ranges := fr, vm_views := t\<rparr>)" "inorder t = L @ R"
      "ranges_track (map span (L @ R)) fr" "length fr \<le> length (vm_ranges st) + 1"
    using unregister_part [OF assms(1,3) vv al vm_okD(3) [OF assms(2)]] assms(6) by (auto simp: ranges_room_def)
  define st1 where "st1 = st\<lparr>vm_ranges := fr, vm_views := t\<rparr>"
  have s1: "views st1 = L @ R" "ranges_track (map span (views st1)) (vm_ranges st1)" "ranges_room 2 st1"
    using u assms(6) by (simp_all add: st1_def ranges_room_def)
  have av: "vc_alloc_view cfg" using assms(1) by (simp add: calls_work_def)
  let ?v1 = "v\<lparr>v_size := base - v_base v\<rparr>"
  let ?v2 = "\<lparr>v_base = base + sz, v_size = v_base v + v_size v - (base + sz), v_protect = v_protect v\<rparr>"
  consider (mid) "base \<noteq> v_base v" "base + sz \<noteq> v_base v + v_size v" | (first) "base = v_base v" "base + sz \<noteq> v_base v + v_size v"
    | (last) "base \<noteq> v_base v" "base + sz = v_base v + v_size v" using assms(5) by fastforce
  then show ?thesis
  proof cases
    case mid
    have p: "pieces v base sz = [?v1, ?v2]" using mid by (simp add: pieces_def)
    have "views_ok (L @ ?v1 # R)" using vok views_ok_split(3) [of "L @ [?v1]" ?v2 R] by (simp add: p)
    then obtain fr2 t2 where r: "register_view cfg ?v1 st1 = Some (st1\<lparr>vm_ranges := fr2, vm_views := t2\<rparr>)" "inorder t2 = L @ ?v1 # R"
        "ranges_track (map span (L @ ?v1 # R)) fr2" "length fr2 \<le> length (vm_ranges st1) + 1"
      using register_part [OF assms(1) s1(1) _ _ s1(2), of ?v1] al s1(3) by (auto simp: ranges_room_def)
    define st2 where "st2 = st1\<lparr>vm_ranges := fr2, vm_views := t2\<rparr>"
    have s2: "views st2 = (L @ [?v1]) @ R" "ranges_track (map span (views st2)) (vm_ranges st2)" "ranges_room 1 st2"
      using r s1(3) by (simp_all add: st2_def ranges_room_def)
    have "views_ok ((L @ [?v1]) @ ?v2 # R)" using vok by (simp add: p)
    then obtain fr3 t3 where r3: "register_view cfg ?v2 st2 = Some (st2\<lparr>vm_ranges := fr3, vm_views := t3\<rparr>)"
        "inorder t3 = (L @ [?v1]) @ ?v2 # R" "ranges_track (map span ((L @ [?v1]) @ ?v2 # R)) fr3"
      using register_part [OF assms(1) s2(1) _ _ s2(2,3), of ?v2] c mid by auto
    have "remove_pages_from_view cfg v base sz st = Some (STATUS_SUCCESS, st\<lparr>vm_ranges := fr3, vm_views := t3\<rparr>)"
      using mid assms(5) av u(1) r(1) r3(1)
      by (simp add: remove_pages_from_view_def b(1,2) st1_def st2_def)
    then show ?thesis using r3 by (auto simp: p)
  next
    case first
    have p: "pieces v base sz = [?v2]" using first by (simp add: pieces_def)
    then obtain fr2 t2 where r: "register_view cfg ?v2 st1 = Some (st1\<lparr>vm_ranges := fr2, vm_views := t2\<rparr>)" "inorder t2 = L @ ?v2 # R"
        "ranges_track (map span (L @ ?v2 # R)) fr2"
      using register_part [OF assms(1) s1(1) _ _ s1(2), of ?v2] vok c first s1(3) by (auto simp: ranges_room_def)
    have v2: "v\<lparr>v_base := add64 (v_base v) sz, v_size := v_size v - sz\<rparr> =
        \<lparr>v_base = v_base v + sz, v_size = v_size v - sz, v_protect = v_protect v\<rparr>" using b(1) first by simp
    have "remove_pages_from_view cfg v base sz st = Some (STATUS_SUCCESS, st\<lparr>vm_ranges := fr2, vm_views := t2\<rparr>)"
      using first assms(5) u(1) r(1) by (simp add: remove_pages_from_view_def b(1,2) st1_def v2)
    then show ?thesis using r by (auto simp: p)
  next
    case last
    have p: "pieces v base sz = [?v1]" using last by (simp add: pieces_def)
    then obtain fr2 t2 where r: "register_view cfg ?v1 st1 = Some (st1\<lparr>vm_ranges := fr2, vm_views := t2\<rparr>)" "inorder t2 = L @ ?v1 # R"
        "ranges_track (map span (L @ ?v1 # R)) fr2"
      using register_part [OF assms(1) s1(1) _ _ s1(2), of ?v1] vok al s1(3) by (auto simp: ranges_room_def)
    have "remove_pages_from_view cfg v base sz st = Some (STATUS_SUCCESS, st\<lparr>vm_ranges := fr2, vm_views := t2\<rparr>)"
      using last assms(5) u(1) r(1) by (simp add: remove_pages_from_view_def b(1,2) st1_def)
    then show ?thesis using r by (auto simp: p)
  qed
qed

text \<open>Pages of a view are freed: all of them, or a part.\<close>

definition pages_freed ::
  "vcfg \<Rightarrow> file_view list \<Rightarrow> file_view \<Rightarrow> file_view list \<Rightarrow> nat \<Rightarrow> nat \<Rightarrow> vmem \<Rightarrow> vmem \<Rightarrow> bool" where
  "pages_freed cfg L v R base sz st st' \<longleftrightarrow> pages_cut cfg L v R base sz st st' \<and> vm_reserved st' = vm_reserved st \<and>
     (\<forall>p. \<not> in_cut base sz p \<longrightarrow> vm_kprot st' p = vm_kprot st p) \<and>
     (v_protect v AND VPROT_SYSTEM = 0 \<longrightarrow> (\<forall>p. in_cut base sz p \<longrightarrow> vm_kprot st' p = PROT_NONE))"

lemma delete_view_spec:
  assumes "calls_work cfg" and "vm_ok cfg st" and "views st = L @ v # R" and "areas_paged (vm_reserved st)"
    and "ranges_room 1 st"
  shows "\<exists>st'. delete_view cfg v st = Some st' \<and> pages_freed cfg L v R (v_base v) (v_size v) st st' \<and>
    length (vm_ranges st') \<le> length (vm_ranges st) + 1"
proof -
  have v: "v \<in> set (views st)" and vv: "views_ok (L @ v # R)" using assms(3) vm_okD(1) [OF assms(2)] by simp_all
  have al: "0x10000 dvd v_base v" "4096 dvd v_size v" using vm_okD(2) [OF assms(2) v] by (simp_all add: view_aligned_def)
  have cut: "cut_ok v (v_base v) (v_size v)"
    using al dvd_4096 views_ok_split(4) [OF vv] by (simp add: cut_ok_def)
  note b = cut_bounds [OF assms(2,3) cut]
  have works: "\<forall>a n. vc_fixed_ok cfg a n" using assms(1) by (simp add: calls_work_def)
  define st1 where "st1 = (if v_protect v AND VPROT_SYSTEM = 0 then unmap_area cfg (v_base v) (v_size v) st else st)"
  have s1: "views st1 = L @ v # R" "vm_ranges st1 = vm_ranges st" "vm_tbl st1 = vm_tbl st"
    using assms(3) by (simp_all add: st1_def)
  have un: "vm_reserved st1 = vm_reserved st"
    "v_protect v AND VPROT_SYSTEM = 0 \<Longrightarrow> vm_kprot st1 p = (if in_cut (v_base v) (v_size v) p then PROT_NONE else vm_kprot st p)"
    "v_protect v AND VPROT_SYSTEM \<noteq> 0 \<Longrightarrow> vm_kprot st1 p = vm_kprot st p" for p
    using unmap_area_kprot [OF assms(4) dvd_4096 [OF al(1)] b(4,5) views_ok_split(4) [OF vv] works]
    by (auto simp: st1_def)
  obtain tbl where f: "fill_vprot (v_base v) (v_size v) 0 st1 = Some (st1\<lparr>vm_tbl := tbl\<rparr>)"
      "bytes_changed (page_of (v_base v)) (page_of (v_base v + v_size v)) (\<lambda>_. 0) (vm_tbl st) tbl"
    using fill_vprot_spec [OF dvd_4096 [OF al(1)] al(2) b(3), of st1 0] b(6) unfolding s1 by auto
  define st2 where "st2 = (if v_protect v AND VPROT_ARM64EC \<noteq> 0
    then st1\<lparr>vm_tbl := tbl, vm_ecmap := clear_arm64ec_range (v_base v) (v_size v) (vm_ecmap st1)\<rparr> else st1\<lparr>vm_tbl := tbl\<rparr>)"
  have s2: "views st2 = L @ v # R" "vm_ranges st2 = vm_ranges st" "vm_tbl st2 = tbl" "vm_kprot st2 = vm_kprot st1"
    "vm_reserved st2 = vm_reserved st" using s1 un(1) by (simp_all add: st2_def)
  have "ranges_track (map span (views st2)) (vm_ranges st2)" "ranges_room 1 st2"
    using vm_okD(3) [OF assms(2)] assms(3,5) s2 by (simp_all add: ranges_room_def)
  then obtain fr t where u: "unregister_view cfg v st2 = Some (st2\<lparr>vm_ranges := fr, vm_views := t\<rparr>)" "inorder t = L @ R"
      "ranges_track (map span (L @ R)) fr" "length fr \<le> length (vm_ranges st) + 1"
    using unregister_part [OF assms(1) s2(1) vv al(1)] unfolding s2(2) by auto
  have "delete_view cfg v st = Some (st2\<lparr>vm_ranges := fr, vm_views := t\<rparr>)"
    using f(1) u(1) unfolding delete_view_def Let_def st1_def [symmetric] by (auto simp: st2_def split: if_splits)
  moreover have "pages_cut cfg L v R (v_base v) (v_size v) st (st2\<lparr>vm_ranges := fr, vm_views := t\<rparr>)"
    unfolding pages_cut_def using assms(2,3) cut u(2,3) f(2) s2 by (simp add: pieces_def)
  ultimately show ?thesis using un s2 u(4) by (cases "v_protect v AND VPROT_SYSTEM = 0") (auto simp: pages_freed_def)
qed

lemma free_pages_spec:
  assumes "calls_work cfg" and "vm_ok cfg st" and "views st = L @ v # R" and "areas_paged (vm_reserved st)"
    and "ranges_room 3 st" and "cut_ok v base sz"
  shows "\<exists>st'. free_pages cfg v base sz st = Some (STATUS_SUCCESS, st') \<and> pages_freed cfg L v R base sz st st'"
proof (cases "sz = v_size v")
  case True
  then have "base = v_base v" using assms(6) by (simp add: cut_ok_def)
  moreover have "ranges_room 1 st" using assms(5) by (simp add: ranges_room_def)
  ultimately show ?thesis using delete_view_spec [OF assms(1-4)] True by (auto simp: free_pages_def)
next
  case False
  note b = cut_bounds [OF assms(2,3,6)]
  have c: "4096 dvd base" "4096 dvd sz" "0 < sz" "sz < v_size v" using assms(6) False by (auto simp: cut_ok_def)
  have works: "\<forall>a n. vc_fixed_ok cfg a n" using assms(1) by (simp add: calls_work_def)
  obtain fr t where r: "remove_pages_from_view cfg v base sz st = Some (STATUS_SUCCESS, st\<lparr>vm_ranges := fr, vm_views := t\<rparr>)"
      "inorder t = L @ pieces v base sz @ R" "ranges_track (map span (L @ pieces v base sz @ R)) fr"
    using remove_pages_spec [OF assms(1-3,6) c(4) assms(5)] by blast
  define st1 where "st1 = st\<lparr>vm_ranges := fr, vm_views := t\<rparr>"
  obtain tbl where f: "fill_vprot base sz 0 st1 = Some (st1\<lparr>vm_tbl := tbl\<rparr>)"
      "bytes_changed (page_of base) (page_of (base + sz)) (\<lambda>_. 0) (vm_tbl st) tbl"
    using fill_vprot_spec [OF c(1,2) b(3), of st1 0] b(6) by (auto simp: st1_def)
  define st2 where "st2 = (if v_protect v AND VPROT_ARM64EC \<noteq> 0
    then st1\<lparr>vm_tbl := tbl, vm_ecmap := clear_arm64ec_range base sz (vm_ecmap st1)\<rparr> else st1\<lparr>vm_tbl := tbl\<rparr>)"
  have s2: "vm_views st2 = t" "vm_ranges st2 = fr" "vm_tbl st2 = tbl" "vm_kprot st2 = vm_kprot st"
    "vm_reserved st2 = vm_reserved st" by (simp_all add: st2_def st1_def)
  have eq: "free_pages cfg v base sz st = Some (STATUS_SUCCESS, unmap_area cfg base sz st2)"
    using False r(1) f(1) by (simp add: free_pages_def st1_def st2_def)
  have un: "vm_kprot (unmap_area cfg base sz st2) p = (if in_cut base sz p then PROT_NONE else vm_kprot st p)"
    "vm_reserved (unmap_area cfg base sz st2) = vm_reserved st" for p
    using unmap_area_kprot [OF _ c(1) b(4,5) c(3) works, of st2] assms(4) by (simp_all add: s2)
  have "pages_cut cfg L v R base sz st (unmap_area cfg base sz st2)"
    unfolding pages_cut_def using assms(2,3,6) r(2,3) f(2) by (simp add: s2)
  then show ?thesis using eq un by (auto simp: pages_freed_def)
qed

text \<open>The bytes of some pages of a view change, and the kernel follows.\<close>

definition pages_set :: "vcfg \<Rightarrow> file_view \<Rightarrow> nat \<Rightarrow> nat \<Rightarrow> (u8 \<Rightarrow> u8) \<Rightarrow> vmem \<Rightarrow> vmem \<Rightarrow> bool" where
  "pages_set cfg v a b f st st' \<longleftrightarrow> v \<in> set (views st) \<and> page_of (v_base v) \<le> a \<and> b \<le> page_of (v_base v + v_size v) \<and>
     vm_views st' = vm_views st \<and> vm_ranges st' = vm_ranges st \<and> vm_reserved st' = vm_reserved st \<and>
     bytes_changed a b f (vm_tbl st) (vm_tbl st') \<and> kernel_agrees (vc_prot cfg) (vm_tbl st') (vm_kprot st') a b \<and>
     (\<forall>p. \<not> (a \<le> p \<and> p < b) \<longrightarrow> vm_kprot st' p = vm_kprot st p)"

lemma set_keeps_ok:
  assumes "pages_set cfg v a b f st st'" and "vm_ok cfg st"
  shows "vm_ok cfg st'"
proof -
  have s: "vm_views st' = vm_views st" "vm_ranges st' = vm_ranges st" "bytes_changed a b f (vm_tbl st) (vm_tbl st')"
    and v: "v \<in> set (views st)" "page_of (v_base v) \<le> a" "b \<le> page_of (v_base v + v_size v)"
    using assms(1) by (simp_all add: pages_set_def)
  have "vbyte (vm_tbl st') p = 0" if p: "\<forall>w \<in> set (views st). \<not> in_view w p" for p
  proof -
    have "\<not> (a \<le> p \<and> p < b)" using bspec [OF p v(1)] v(2,3) by (auto simp: in_view_def)
    then have "vbyte (vm_tbl st') p = vbyte (vm_tbl st) p" using s(3) by (auto simp: bytes_changed_def)
    then show ?thesis using vm_okD(5) [OF assms(2) p] by simp
  qed
  then show ?thesis using assms(2) unfolding vm_ok_def s(1,2) bytes_changed_pages [OF s(3)] by blast
qed

lemma set_keeps_kernel:
  assumes "pages_set cfg v a b f st st'" and "kernel_ok cfg st"
  shows "kernel_ok cfg st'"
  unfolding kernel_ok_def kernel_agrees_def
proof (intro ballI impI allI)
  have s: "vm_views st' = vm_views st" "bytes_changed a b f (vm_tbl st) (vm_tbl st')"
    "kernel_agrees (vc_prot cfg) (vm_tbl st') (vm_kprot st') a b" "\<forall>p. \<not> (a \<le> p \<and> p < b) \<longrightarrow> vm_kprot st' p = vm_kprot st p"
    using assms(1) by (simp_all add: pages_set_def)
  fix w p assume w: "w \<in> set (views st')" "v_protect w AND VPROT_SYSTEM = 0"
    and p: "page_of (v_base w) \<le> p \<and> p < page_of (v_base w + v_size w)"
  show "vm_kprot st' p = forced_prot (vc_prot cfg) (get_unix_prot (vc_prot cfg) (vbyte (vm_tbl st') p))"
  proof (cases "a \<le> p \<and> p < b")
    case True
    then show ?thesis using s(3) by (simp add: kernel_agrees_def)
  next
    case False
    have "vm_kprot st p = forced_prot (vc_prot cfg) (get_unix_prot (vc_prot cfg) (vbyte (vm_tbl st) p))"
      using assms(2) w p unfolding kernel_ok_def kernel_agrees_def s(1) by blast
    moreover have "vbyte (vm_tbl st') p = vbyte (vm_tbl st) p" using s(2) False by (auto simp: bytes_changed_def)
    ultimately show ?thesis using s(4) False by simp
  qed
qed

lemma set_pages:
  assumes "pages_set cfg v a b f st st'" and "vm_ok cfg st"
  shows "vm_page st' p = (if a \<le> p \<and> p < b then Some (v_protect v, f (vbyte (vm_tbl st) p)) else vm_page st p)"
proof -
  have s: "vm_views st' = vm_views st" "v \<in> set (views st)" "page_of (v_base v) \<le> a" "b \<le> page_of (v_base v + v_size v)"
    "vbyte (vm_tbl st') p = (if a \<le> p \<and> p < b then f (vbyte (vm_tbl st) p) else vbyte (vm_tbl st) p)"
    using assms(1) by (simp_all add: pages_set_def bytes_changed_def)
  show ?thesis
  proof (cases "a \<le> p \<and> p < b")
    case True
    then have "in_view v p" using s(3,4) by (simp add: in_view_def)
    then show ?thesis
      using vm_page_in [of st' v p] vm_okD(1) [OF assms(2)] s(1,2,5) True by simp
  next
    case False
    then show ?thesis using s(1,5) unfolding vm_page_def by auto
  qed
qed

text \<open>A block of whole pages of a view.\<close>

definition block_ok :: "file_view \<Rightarrow> nat \<Rightarrow> nat \<Rightarrow> bool" where
  "block_ok v base sz \<longleftrightarrow> 0 < sz \<and> 4096 dvd base \<and> 4096 dvd sz \<and> v_base v \<le> base \<and> base + sz \<le> v_base v + v_size v"

lemma block_bounds:
  assumes "vm_ok cfg st" and "v \<in> set (views st)" and "block_ok v base sz"
  shows "page_of (v_base v) \<le> page_of base" "page_of (base + sz) \<le> page_of (v_base v + v_size v)"
    "has_pages (vm_tbl st) (page_of base) (page_of (base + sz))" "base + sz + 4095 < 2 ^ 64"
    "page_end base sz = page_of (base + sz)" "table_covers (vc_dirs cfg) (vm_tbl st) base sz"
proof -
  have c: "4096 dvd base" "4096 dvd sz" "v_base v \<le> base" "base + sz \<le> v_base v + v_size v"
    using assms(3) by (simp_all add: block_ok_def)
  show p: "page_of (v_base v) \<le> page_of base" "page_of (base + sz) \<le> page_of (v_base v + v_size v)"
    using page_of_mono c(3,4) by auto
  show h: "has_pages (vm_tbl st) (page_of base) (page_of (base + sz))"
    by (rule has_pages_mono [OF vm_okD(4) [OF assms(1,2)] p])
  have "v_base v + v_size v + 0x20000 \<le> 2 ^ 64" using views_ok_in(3) [OF vm_okD(1) [OF assms(1)] assms(2)] .
  then show b: "base + sz + 4095 < 2 ^ 64" using c by simp
  then show e: "page_end base sz = page_of (base + sz)" by (rule page_end_aligned [OF c(1,2)])
  have "page_of (v_base v + v_size v) \<le> vc_dirs cfg * block_pages"
    using vm_okD(2) [OF assms(1,2)] by (simp add: view_aligned_def)
  then show "table_covers (vc_dirs cfg) (vm_tbl st) base sz" using p(2) h b e by (simp add: table_covers_def)
qed

end
