(* ===== verification/Virtual_Calls.thy ===== *)
theory Virtual_Calls
  imports Virtual_Keep
begin

text \<open>
  dlls/ntdll/unix/virtual.c: the system calls that free, decommit and protect memory. A call for another
  process is an asynchronous call that the server passes on; what it answers is an argument.
\<close>

abbreviation (input) STATUS_NOT_COMMITTED :: ntstatus where "STATUS_NOT_COMMITTED \<equiv> 0xC000002D"
abbreviation (input) STATUS_MEMORY_NOT_ALLOCATED :: ntstatus where "STATUS_MEMORY_NOT_ALLOCATED \<equiv> 0xC00000A0"
abbreviation (input) STATUS_FREE_VM_NOT_AT_BASE :: ntstatus where "STATUS_FREE_VM_NOT_AT_BASE \<equiv> 0xC000009F"
abbreviation (input) STATUS_UNABLE_TO_FREE_VM :: ntstatus where "STATUS_UNABLE_TO_FREE_VM \<equiv> 0xC000001A"
abbreviation (input) STATUS_ACCESS_VIOLATION :: ntstatus where "STATUS_ACCESS_VIOLATION \<equiv> 0xC0000005"

abbreviation (input) MEM_COALESCE_PLACEHOLDERS :: u32 where "MEM_COALESCE_PLACEHOLDERS \<equiv> 0x1"
abbreviation (input) MEM_PRESERVE_PLACEHOLDER :: u32 where "MEM_PRESERVE_PLACEHOLDER \<equiv> 0x2"
abbreviation (input) MEM_DECOMMIT :: u32 where "MEM_DECOMMIT \<equiv> 0x4000"
abbreviation (input) MEM_RELEASE :: u32 where "MEM_RELEASE \<equiv> 0x8000"

definition round_size :: "nat \<Rightarrow> nat \<Rightarrow> nat" where
  "round_size addr sz = round_addr (add64 (add64 sz (addr mod 4096)) page_mask) page_mask"

section \<open>Protection\<close>

definition set_protection :: "vcfg \<Rightarrow> file_view \<Rightarrow> nat \<Rightarrow> nat \<Rightarrow> u32 \<Rightarrow> vmem \<Rightarrow> (ntstatus \<times> vmem) option" where
  "set_protection cfg view base sz protect st =
     (case get_vprot_flags protect (v_protect view AND SEC_IMAGE \<noteq> 0) of
        Inl status \<Rightarrow> Some (status, st)
      | Inr vprot \<Rightarrow>
          let access = vprot AND (VPROT_READ OR VPROT_WRITE OR VPROT_EXEC)
          in if is_view_valloc view \<and> vprot AND VPROT_WRITECOPY \<noteq> 0 then Some (STATUS_INVALID_PAGE_PROTECTION, st)
             else if \<not> is_view_valloc view \<and> v_protect view AND access \<noteq> access
             then Some (STATUS_INVALID_PAGE_PROTECTION, st)
             else do {
               (ok, tbl, k) \<leftarrow> set_vprot (vc_prot cfg) (vc_dirs cfg) (v_protect view) base sz
                 (ucast (vprot OR VPROT_COMMITTED)) (vm_tbl st, vm_kprot st);
               let st = st\<lparr>vm_tbl := tbl, vm_kprot := k\<rparr>;
               Some (if ok then STATUS_SUCCESS else STATUS_ACCESS_DENIED, st)
             })"

text \<open>
  The server knows which pages of a mapping that is committed on demand are committed: \<open>ask\<close> is its answer
  for a view and an offset, the size of the range and whether it is committed.
\<close>

definition get_committed_size ::
  "vcfg \<Rightarrow> (nat \<Rightarrow> nat \<Rightarrow> (nat \<times> bool) option) \<Rightarrow> file_view \<Rightarrow> nat \<Rightarrow> nat \<Rightarrow> u8 \<Rightarrow> vmem \<Rightarrow> ((nat \<times> u8) \<times> vmem) option" where
  "get_committed_size cfg ask view base max_size vprot_mask st =
     (let base = round_addr base page_mask; offset = base - v_base view
      in if v_protect view AND SEC_RESERVE \<noteq> 0
         then let vprot = get_page_vprot (vc_dirs cfg) base (vm_tbl st)
              in do {
                ((sz, vprot), st) \<leftarrow>
                  (case ask (v_base view) offset of
                     None \<Rightarrow> Some ((0, vprot), st)
                   | Some (rsize, committed) \<Rightarrow>
                       let sz = min rsize max_size
                       in if committed
                          then map_option (\<lambda>st. ((sz, vprot OR VPROT_COMMITTED), st)) (change_vprot_bits base sz VPROT_COMMITTED 0 st)
                          else Some ((sz, vprot), st));
                if sz = 0 \<or> vprot_mask AND NOT VPROT_COMMITTED = 0 then Some ((sz, vprot), st)
                else map_option (\<lambda>r. (r, st)) (get_vprot_range_size base sz vprot_mask (vm_tbl st))
              }
         else map_option (\<lambda>r. (r, st)) (get_vprot_range_size base (min (v_size view - offset) max_size) vprot_mask (vm_tbl st)))"

text \<open>
  What the call depends on besides the memory: the null check of a pointer, the answer for another
  process, the server, and the two special cases for single programs.
\<close>

record protect_env =
  pe_old_null :: bool
  pe_remote :: "(ntstatus \<times> ntstatus \<times> nat \<times> nat \<times> u32) option"
  pe_ask :: "nat \<Rightarrow> nat \<Rightarrow> (nat \<times> bool) option"
  pe_simulate_writecopy :: bool
  pe_image_base :: nat
  pe_gta5 :: bool

text \<open>The result: status, the address, size and old protection written back (none on failure), and the memory.\<close>

definition NtProtectVirtualMemory ::
  "vcfg \<Rightarrow> protect_env \<Rightarrow> nat \<Rightarrow> nat \<Rightarrow> u32 \<Rightarrow> vmem \<Rightarrow> ((ntstatus \<times> (nat \<times> nat \<times> u32) option) \<times> vmem) option" where
  "NtProtectVirtualMemory cfg env addr sz new_prot st =
     (if pe_old_null env then Some ((STATUS_ACCESS_VIOLATION, None), st)
      else case pe_remote env of
        Some (status, result, raddr, rsize, rprot) \<Rightarrow>
          Some (if status \<noteq> STATUS_SUCCESS then (status, None)
                else (result, if result = STATUS_SUCCESS then Some (raddr, rsize, rprot) else None), st)
      | None \<Rightarrow>
          let sz = round_size addr sz; base = round_addr addr page_mask
          in case find_view base sz (vm_views st) of
               None \<Rightarrow> Some ((STATUS_INVALID_PARAMETER, None), st)
             | Some view \<Rightarrow> do {
                 ((csize, vprot), st) \<leftarrow> get_committed_size cfg (pe_ask env) view base sz VPROT_COMMITTED st;
                 if \<not> (sz \<le> csize \<and> vprot AND VPROT_COMMITTED \<noteq> 0) then Some ((STATUS_NOT_COMMITTED, None), st)
                 else do {
                   let old = get_win32_prot vprot (v_protect view);
                   (status, st) \<leftarrow> set_protection cfg view base sz new_prot st;
                   (old, st) \<leftarrow>
                     (if pe_simulate_writecopy env \<and> status = STATUS_SUCCESS \<and> (old = PAGE_WRITECOPY \<or> old = PAGE_EXECUTE_WRITECOPY)
                      then map_option (\<lambda>st. (get_win32_prot (vprot OR VPROT_COPIED) (v_protect view), st))
                             (change_vprot_bits base sz VPROT_COPIED 0 st)
                      else if status = STATUS_SUCCESS \<and> v_protect view AND SEC_IMAGE \<noteq> 0 \<and> base = pe_image_base env \<and> pe_gta5 env
                      then map_option (\<lambda>st. (old, st)) (change_vprot_bits base 0x1000 VPROT_COPIED 0 st)
                      else Some (old, st));
                   Some ((status, if status = STATUS_SUCCESS then Some (base, sz, old) else None), st)
                 }
               })"

section \<open>Freeing\<close>

text \<open>The base of a view that was found, and what is checked before the operation is chosen.\<close>

definition NtFreeVirtualMemory ::
  "vcfg \<Rightarrow> (ntstatus \<times> ntstatus \<times> nat \<times> nat) option \<Rightarrow> nat \<Rightarrow> nat \<Rightarrow> u32 \<Rightarrow> vmem \<Rightarrow>
     ((ntstatus \<times> (nat \<times> nat) option) \<times> vmem) option" where
  "NtFreeVirtualMemory cfg remote addr sz type st =
     (case remote of
        Some (status, result, raddr, rsize) \<Rightarrow>
          Some (if status \<noteq> STATUS_SUCCESS then (status, None)
                else (result, if result = STATUS_SUCCESS then Some (raddr, rsize) else None), st)
      | None \<Rightarrow>
          let sz = (if sz \<noteq> 0 then round_size addr sz else 0); base = round_addr addr page_mask
          in do {
            ((status, sz), st) \<leftarrow>
              (if base = 0 then Some ((STATUS_INVALID_PARAMETER, sz), st)
               else case find_view base 0 (vm_views st) of
                 None \<Rightarrow> Some ((STATUS_MEMORY_NOT_ALLOCATED, sz), st)
               | Some view \<Rightarrow>
                   if \<not> is_view_valloc view then Some ((STATUS_INVALID_PARAMETER, sz), st)
                   else if sz = 0 \<and> base \<noteq> v_base view then Some ((STATUS_FREE_VM_NOT_AT_BASE, sz), st)
                   else if view_end view - base < sz \<and> type AND MEM_COALESCE_PLACEHOLDERS = 0
                   then Some ((STATUS_UNABLE_TO_FREE_VM, sz), st)
                   else if type = MEM_DECOMMIT
                   then map_option (\<lambda>(s, st). ((s, sz), st)) (decommit_pages cfg view (base - v_base view) sz st)
                   else if type = MEM_RELEASE
                   then let sz = (if sz = 0 then v_size view else sz)
                        in map_option (\<lambda>(s, st). ((s, sz), st)) (free_pages cfg view base sz st)
                   else if type = MEM_RELEASE OR MEM_PRESERVE_PLACEHOLDER
                   then map_option (\<lambda>(s, st). ((s, sz), st)) (free_pages_preserve_placeholder cfg view base sz st)
                   else if type = MEM_RELEASE OR MEM_COALESCE_PLACEHOLDERS
                   then map_option (\<lambda>(s, st). ((s, sz), st)) (coalesce_placeholders cfg view base sz st)
                   else if type = MEM_COALESCE_PLACEHOLDERS then Some ((STATUS_INVALID_PARAMETER_4, sz), st)
                   else Some ((STATUS_INVALID_PARAMETER, sz), st));
            Some ((status, if status = STATUS_SUCCESS then Some (base, sz) else None), st)
          })"

section \<open>What the calls do\<close>

lemma not_committed: "(x AND NOT VPROT_COMMITTED) AND VPROT_COMMITTED = (0 :: u8)"
  by (rule bit_eqI) (auto simp: bit_simps)

lemma decommitted_prot: "forced_prot cfg (get_unix_prot cfg (x AND NOT VPROT_COMMITTED)) = PROT_NONE"
  using not_committed [of x] by (simp add: get_unix_prot_def forced_prot_def)

lemma decommit_spec:
  assumes "calls_work cfg" and "vm_ok cfg st" and "v \<in> set (views st)" and "block_ok v base (if sz = 0 then v_size v else sz)"
  shows "\<exists>st'. decommit_pages cfg v (base - v_base v) sz st = Some (STATUS_SUCCESS, st') \<and>
    pages_set cfg v (page_of base) (page_of (base + (if sz = 0 then v_size v else sz))) (\<lambda>x. x AND NOT VPROT_COMMITTED) st st'"
proof -
  define n where "n = (if sz = 0 then v_size v else sz)"
  have blk: "block_ok v base n" using assms(4) by (simp add: n_def)
  note b = block_bounds [OF assms(2,3) blk]
  have c: "v_base v \<le> base" "4096 dvd base" using blk by (simp_all add: block_ok_def)
  have start: "add64 (v_base v) (base - v_base v) = base" using c b(4) by (simp add: add64_def)
  have fixed: "vc_fixed_ok cfg base n" using assms(1) by (simp add: calls_work_def)
  define st1 where "st1 = snd (anon_mmap_fixed cfg base n PROT_NONE st)"
  have s1: "vm_tbl st1 = vm_tbl st" "anon_mmap_fixed cfg base n PROT_NONE st = (True, st1)"
    "vm_kprot st1 p = (if in_cut base n p then PROT_NONE else vm_kprot st p)" for p
    using fixed c(2) by (simp_all add: st1_def in_pages_iff anon_mmap_fixed_def)
  obtain tbl where t: "set_page_vprot_bits base n 0 VPROT_COMMITTED (vm_tbl st1) = Some tbl"
      "bytes_changed (page_of base) (page_of (base + n)) (\<lambda>x. x AND NOT VPROT_COMMITTED) (vm_tbl st) tbl"
    using set_page_vprot_bits_spec [of "vm_tbl st" base n 0 VPROT_COMMITTED] b(3) unfolding b(5) s1(1) by auto
  have "decommit_pages cfg v (base - v_base v) sz st = Some (STATUS_SUCCESS, st1\<lparr>vm_tbl := tbl\<rparr>)"
    unfolding decommit_pages_def n_def [symmetric] start Let_def s1(2) using t(1) by (simp add: change_vprot_bits_def)
  moreover have "kernel_agrees (vc_prot cfg) tbl (vm_kprot st1) (page_of base) (page_of (base + n))"
    using t(2) by (simp add: kernel_agrees_def bytes_changed_def s1(3) decommitted_prot [simplified])
  then have "pages_set cfg v (page_of base) (page_of (base + n)) (\<lambda>x. x AND NOT VPROT_COMMITTED) st (st1\<lparr>vm_tbl := tbl\<rparr>)"
    using assms(3) b(1,2) t(2) by (auto simp: pages_set_def s1(3)) (simp_all add: st1_def)
  ultimately show ?thesis unfolding n_def by blast
qed

text \<open>Protections that a view accepts.\<close>

definition protect_ok :: "file_view \<Rightarrow> u32 \<Rightarrow> u32 \<Rightarrow> bool" where
  "protect_ok v protect vprot \<longleftrightarrow> get_vprot_flags protect (v_protect v AND SEC_IMAGE \<noteq> 0) = Inr vprot \<and>
     (if is_view_valloc v then vprot AND VPROT_WRITECOPY = 0
      else v_protect v AND (vprot AND (VPROT_READ OR VPROT_WRITE OR VPROT_EXEC)) = vprot AND (VPROT_READ OR VPROT_WRITE OR VPROT_EXEC))"

lemma set_protection_spec:
  assumes "calls_work cfg" and "vm_ok cfg st" and "v \<in> set (views st)" and "block_ok v base sz" and "protect_ok v protect vprot"
  shows "\<exists>st'. set_protection cfg v base sz protect st = Some (STATUS_SUCCESS, st') \<and>
    pages_set cfg v (page_of base) (page_of (base + sz))
      (new_vprot (vc_prot cfg) (v_protect v) (ucast (vprot OR VPROT_COMMITTED))) st st'"
proof -
  note b = block_bounds [OF assms(2-4)]
  have c: "0 < sz" "base mod 4096 = 0" "sz mod 4096 = 0" using assms(4) by (simp_all add: block_ok_def mod_eq_0_iff_dvd)
  have w: "mprotect_works (vc_prot cfg)" using assms(1) by (simp add: calls_work_def)
  from set_vprot_spec [OF w b(6) c, of "v_protect v" "ucast (vprot OR VPROT_COMMITTED)" "vm_kprot st"]
  obtain tbl k where s: "set_vprot (vc_prot cfg) (vc_dirs cfg) (v_protect v) base sz (ucast (vprot OR VPROT_COMMITTED))
        (vm_tbl st, vm_kprot st) = Some (True, tbl, k)"
      "bytes_changed (page_of base) (page_of (base + sz)) (new_vprot (vc_prot cfg) (v_protect v) (ucast (vprot OR VPROT_COMMITTED))) (vm_tbl st) tbl"
      "kernel_agrees (vc_prot cfg) tbl k (page_of base) (page_of (base + sz))"
      "\<forall>p. \<not> (page_of base \<le> p \<and> p < page_of (base + sz)) \<longrightarrow> k p = vm_kprot st p"
    unfolding b(5) by blast
  have "set_protection cfg v base sz protect st = Some (STATUS_SUCCESS, st\<lparr>vm_tbl := tbl, vm_kprot := k\<rparr>)"
    using assms(5) s(1) by (auto simp: set_protection_def protect_ok_def Let_def split: if_splits)
  then show ?thesis using assms(3) b(1,2) s(2-4) by (auto simp: pages_set_def)
qed

text \<open>The view of a block is found.\<close>

lemma find_block:
  assumes "vm_ok cfg st" and "v \<in> set (views st)" and "v_base v \<le> base" and "base < v_base v + v_size v"
    and "base + sz \<le> v_base v + v_size v"
  shows "find_view base sz (vm_views st) = Some v"
proof -
  have "v_base v + v_size v + 0x20000 \<le> 2 ^ 64" using views_ok_in(3) [OF vm_okD(1) [OF assms(1)] assms(2)] .
  then have "base < 2 ^ 64" "sz < 2 ^ 64" using assms(4,5) by simp_all
  then show ?thesis using find_view_spec [OF vm_okD(1) [OF assms(1)]] assms(2-5) by blast
qed

lemma round_addr_dvd: "4096 dvd round_addr a page_mask"
  by (simp add: round_addr_def)

lemma round_addr_same: "4096 dvd a \<Longrightarrow> round_addr a page_mask = a"
  by (simp add: round_addr_def)

lemma committed_size_spec:
  assumes "vm_ok cfg st" and "v \<in> set (views st)" and "block_ok v base sz" and "v_protect v AND SEC_RESERVE = 0"
    and "\<forall>p. in_cut base sz p \<longrightarrow> vbyte (vm_tbl st) p AND VPROT_COMMITTED \<noteq> 0"
  shows "get_committed_size cfg ask v base sz VPROT_COMMITTED st = Some ((sz, vbyte (vm_tbl st) (page_of base)), st)"
proof -
  note b = block_bounds [OF assms(1-3)]
  have c: "4096 dvd base" "4096 dvd sz" "0 < sz" "v_base v \<le> base" "base + sz \<le> v_base v + v_size v"
    using assms(3) by (simp_all add: block_ok_def)
  have m: "min (v_size v - (base - v_base v)) sz = sz" using c(4,5) by simp
  have pages: "page_of base + page_of sz = page_of (base + sz)" using page_of_add [OF c(1)] by simp
  have two: "x AND VPROT_COMMITTED = (if bit x 5 then VPROT_COMMITTED else 0)" for x :: u8
    using and_one_bit [of x 5] by simp
  have "bit (vbyte (vm_tbl st) p) 5" if "in_cut base sz p" for p
    using assms(5) that two [of "vbyte (vm_tbl st) p"] by (auto split: if_splits)
  moreover have "in_cut base sz (page_of base)"
    unfolding pages [symmetric] using c(2,3) by (auto simp: page_of_def elim!: dvdE)
  ultimately have "(vbyte (vm_tbl st) (page_of base) XOR vbyte (vm_tbl st) p) AND VPROT_COMMITTED = 0" if "in_cut base sz p" for p
    using that unfolding two by (simp add: bit_simps)
  then have "first_diff (vm_tbl st) (vbyte (vm_tbl st) (page_of base)) VPROT_COMMITTED (page_of base) (page_of (base + sz)) = page_of (base + sz)"
    using first_diff_skip [of "page_of base" "page_of (base + sz)" "page_of (base + sz)"] page_of_mono [of base "base + sz"] by simp
  then have "get_vprot_range_size base sz VPROT_COMMITTED (vm_tbl st) = Some (sz, vbyte (vm_tbl st) (page_of base))"
    using vprot_range_first_diff [of base sz "vm_tbl st" VPROT_COMMITTED] b(3) c(1-3) page_of_aligned [OF c(2)]
    unfolding pages by (simp add: mod_eq_0_iff_dvd pages [symmetric])
  then show ?thesis
    using assms(4) by (simp add: get_committed_size_def round_addr_same [OF c(1)] m)
qed

text \<open>The call after its checks, for a block of a view that was found.\<close>

lemma free_found:
  assumes "base = round_addr addr page_mask" and "sz1 = (if sz \<noteq> 0 then round_size addr sz else 0)"
    and "base \<noteq> 0" and "find_view base 0 (vm_views st) = Some v" and "is_view_valloc v"
    and "\<not> (sz1 = 0 \<and> base \<noteq> v_base v)" and "\<not> view_end v - base < sz1"
  shows "type = MEM_DECOMMIT \<Longrightarrow> NtFreeVirtualMemory cfg None addr sz type st =
      map_option (\<lambda>(s, st). ((s, if s = STATUS_SUCCESS then Some (base, sz1) else None), st)) (decommit_pages cfg v (base - v_base v) sz1 st)"
    and "type = MEM_RELEASE \<Longrightarrow> NtFreeVirtualMemory cfg None addr sz type st =
      map_option (\<lambda>(s, st). ((s, if s = STATUS_SUCCESS then Some (base, if sz1 = 0 then v_size v else sz1) else None), st))
        (free_pages cfg v base (if sz1 = 0 then v_size v else sz1) st)"
  unfolding NtFreeVirtualMemory_def Let_def unfolding assms(1,2) [symmetric]
  using assms(3-7) by (auto simp: map_option_case split: option.splits)

text \<open>A release of pages of a view.\<close>

lemma release_spec:
  assumes "calls_work cfg" and "vm_ok cfg st" and "areas_paged (vm_reserved st)" and "ranges_room 3 st"
    and "views st = L @ v # R" and "is_view_valloc v" and "base = round_addr addr page_mask" and "base \<noteq> 0"
    and "n = (if sz = 0 then v_size v else round_size addr sz)" and "cut_ok v base n"
  shows "\<exists>st'. NtFreeVirtualMemory cfg None addr sz MEM_RELEASE st = Some ((STATUS_SUCCESS, Some (base, n)), st') \<and>
    pages_freed cfg L v R base n st st'"
proof -
  have v: "v \<in> set (views st)" by (simp add: assms(5))
  have c: "0 < n" "v_base v \<le> base" "base + n \<le> v_base v + v_size v" using assms(10) by (simp_all add: cut_ok_def)
  have e: "view_end v = v_base v + v_size v" by (rule cut_bounds(2) [OF assms(2,5,10)])
  have f: "find_view base 0 (vm_views st) = Some v" using find_block [OF assms(2) v, of base 0] c by simp
  obtain st' where s: "free_pages cfg v base n st = Some (STATUS_SUCCESS, st')" "pages_freed cfg L v R base n st st'"
    using free_pages_spec [OF assms(1,2,5,3,4,10)] by blast
  define sz1 where "sz1 = (if sz \<noteq> 0 then round_size addr sz else 0)"
  have z: "sz1 = 0 \<Longrightarrow> base = v_base v" "(if sz1 = 0 then v_size v else sz1) = n" "sz1 \<le> v_base v + v_size v - base"
    using c assms(9) by (auto simp: sz1_def split: if_splits)
  have h: "\<not> (sz1 = 0 \<and> base \<noteq> v_base v)" "\<not> view_end v - base < sz1" using z e by auto
  have "NtFreeVirtualMemory cfg None addr sz MEM_RELEASE st = Some ((STATUS_SUCCESS, Some (base, n)), st')"
    using free_found(2) [OF assms(7) sz1_def assms(8) f assms(6) h refl, of cfg] s(1) z(2) by simp
  then show ?thesis using s(2) by blast
qed

section \<open>The calls as operations on pages\<close>

text \<open>
  C17: Releasing pages of a view (all of it, its end, or pages up to a multiple of 64 KiB): the call succeeds and
  returns the block; the invariant of views, free ranges and protection bytes holds again, the kernel still agrees
  with the bytes, exactly the pages of the block are free now, and the kernel denies access to them.
\<close>
theorem release_frees_pages:
  assumes "calls_work cfg" and "vm_ok cfg st" and "kernel_ok cfg st" and "areas_paged (vm_reserved st)" and "ranges_room 3 st"
    and "v \<in> set (views st)" and "is_view_valloc v" and "round_addr addr page_mask \<noteq> 0"
    and "cut_ok v (round_addr addr page_mask) (if sz = 0 then v_size v else round_size addr sz)"
  shows "\<exists>st' base n. base = round_addr addr page_mask \<and> n = (if sz = 0 then v_size v else round_size addr sz) \<and>
    NtFreeVirtualMemory cfg None addr sz MEM_RELEASE st = Some ((STATUS_SUCCESS, Some (base, n)), st') \<and>
    vm_ok cfg st' \<and> kernel_ok cfg st' \<and>
    (\<forall>p. vm_page st' p = (if in_cut base n p then None else vm_page st p)) \<and>
    (\<forall>p. in_cut base n p \<and> v_protect v AND VPROT_SYSTEM = 0 \<longrightarrow> vm_kprot st' p = PROT_NONE)"
proof -
  define base n where "base = round_addr addr page_mask" and "n = (if sz = 0 then v_size v else round_size addr sz)"
  obtain L R where vs: "views st = L @ v # R" using split_list [OF assms(6)] by blast
  obtain st' where s: "NtFreeVirtualMemory cfg None addr sz MEM_RELEASE st = Some ((STATUS_SUCCESS, Some (base, n)), st')"
      "pages_freed cfg L v R base n st st'"
    using release_spec [OF assms(1,2,4,5) vs assms(7) base_def _ n_def] assms(8,9) unfolding base_def [symmetric] n_def [symmetric] by blast
  have p: "pages_cut cfg L v R base n st st'" using s(2) by (simp add: pages_freed_def)
  have "kernel_ok cfg st'" using cut_keeps_kernel [OF p assms(3)] s(2) by (simp add: pages_freed_def)
  moreover have "\<forall>p. in_cut base n p \<and> v_protect v AND VPROT_SYSTEM = 0 \<longrightarrow> vm_kprot st' p = PROT_NONE"
    using s(2) by (simp add: pages_freed_def)
  ultimately show ?thesis using s(1) cut_keeps_ok [OF p] cut_pages [OF p] by (auto simp: base_def n_def)
qed

text \<open>
  Decommitting pages of a view keeps the view: the pages lose their committed flag, and with it all access, and
  keep the rest of their protection; other pages and all views stay as they were.
\<close>
theorem decommit_keeps_reservation:
  assumes "calls_work cfg" and "vm_ok cfg st" and "kernel_ok cfg st"
    and "v \<in> set (views st)" and "is_view_valloc v" and "round_addr addr page_mask \<noteq> 0"
    and "block_ok v (round_addr addr page_mask) (if sz = 0 then v_size v else round_size addr sz)"
  shows "\<exists>st' base n. base = round_addr addr page_mask \<and> n = (if sz = 0 then v_size v else round_size addr sz) \<and>
    NtFreeVirtualMemory cfg None addr sz MEM_DECOMMIT st =
      Some ((STATUS_SUCCESS, Some (base, if sz = 0 then 0 else n)), st') \<and>
    vm_ok cfg st' \<and> kernel_ok cfg st' \<and> views st' = views st \<and>
    (\<forall>p. vm_page st' p = (if in_cut base n p then Some (v_protect v, vbyte (vm_tbl st) p AND NOT VPROT_COMMITTED) else vm_page st p)) \<and>
    (\<forall>p. in_cut base n p \<longrightarrow> vm_kprot st' p = PROT_NONE)"
proof -
  define base n where "base = round_addr addr page_mask" and "n = (if sz = 0 then v_size v else round_size addr sz)"
  define sz1 where "sz1 = (if sz \<noteq> 0 then round_size addr sz else 0)"
  have blk: "block_ok v base n" using assms(7) by (simp add: base_def n_def)
  then have c: "0 < n" "v_base v \<le> base" "base + n \<le> v_base v + v_size v" by (simp_all add: block_ok_def)
  have n1: "(if sz1 = 0 then v_size v else sz1) = n" using c(1) by (auto simp: n_def sz1_def split: if_splits)
  have e: "view_end v = v_base v + v_size v" using views_ok_in(2) [OF vm_okD(1) [OF assms(2)] assms(4)] .
  have f: "find_view base 0 (vm_views st) = Some v" using find_block [OF assms(2,4), of base 0] c by simp
  obtain st' where s: "decommit_pages cfg v (base - v_base v) sz1 st = Some (STATUS_SUCCESS, st')"
      "pages_set cfg v (page_of base) (page_of (base + n)) (\<lambda>x. x AND NOT VPROT_COMMITTED) st st'"
    using decommit_spec [OF assms(1,2,4), of base sz1] blk unfolding n1 by blast
  have z: "sz1 = 0 \<Longrightarrow> base = v_base v" "sz1 \<le> v_base v + v_size v - base" using c n1 by (auto split: if_splits)
  have h: "base \<noteq> 0" "\<not> (sz1 = 0 \<and> base \<noteq> v_base v)" "\<not> view_end v - base < sz1"
    using assms(6) z e by (auto simp: base_def)
  have "NtFreeVirtualMemory cfg None addr sz MEM_DECOMMIT st = Some ((STATUS_SUCCESS, Some (base, sz1)), st')"
    using free_found(1) [OF base_def sz1_def h(1) f assms(5) h(2,3) refl, of cfg] s(1) by simp
  moreover have "\<forall>p. in_cut base n p \<longrightarrow> vm_kprot st' p = PROT_NONE"
    using s(2) by (auto simp: pages_set_def kernel_agrees_def bytes_changed_def decommitted_prot [simplified])
  moreover have "views st' = views st" "sz1 = (if sz = 0 then 0 else n)"
    using s(2) by (simp_all add: pages_set_def sz1_def n_def)
  ultimately show ?thesis
    using set_keeps_ok [OF s(2) assms(2)] set_keeps_kernel [OF s(2) assms(3)] set_pages [OF s(2) assms(2)]
    unfolding base_def [symmetric] n_def [symmetric] by blast
qed

text \<open>
  C34: Changing the protection of committed pages: the call succeeds and returns the old protection of the first page;
  every page of the block gets the byte of the new protection (with the watch flags that apply), no other page
  changes, and the kernel agrees with the bytes.
\<close>
theorem protect_changes_pages:
  assumes "calls_work cfg" and "vm_ok cfg st" and "kernel_ok cfg st"
    and "v \<in> set (views st)" and "v_protect v AND SEC_RESERVE = 0" and "protect_ok v new_prot vprot"
    and "block_ok v (round_addr addr page_mask) (round_size addr sz)"
    and "\<forall>p. in_cut (round_addr addr page_mask) (round_size addr sz) p \<longrightarrow> vbyte (vm_tbl st) p AND VPROT_COMMITTED \<noteq> 0"
    and "\<not> pe_old_null env" and "pe_remote env = None" and "\<not> pe_simulate_writecopy env" and "\<not> pe_gta5 env"
  shows "\<exists>st' base n. base = round_addr addr page_mask \<and> n = round_size addr sz \<and>
    NtProtectVirtualMemory cfg env addr sz new_prot st =
      Some ((STATUS_SUCCESS, Some (base, n, get_win32_prot (vbyte (vm_tbl st) (page_of base)) (v_protect v))), st') \<and>
    vm_ok cfg st' \<and> kernel_ok cfg st' \<and> views st' = views st \<and>
    (\<forall>p. vm_page st' p = (if in_cut base n p
      then Some (v_protect v, new_vprot (vc_prot cfg) (v_protect v) (ucast (vprot OR VPROT_COMMITTED)) (vbyte (vm_tbl st) p))
      else vm_page st p))"
proof -
  define base n where "base = round_addr addr page_mask" and "n = round_size addr sz"
  have blk: "block_ok v base n" using assms(7) by (simp add: base_def n_def)
  then have c: "0 < n" "v_base v \<le> base" "base + n \<le> v_base v + v_size v" by (simp_all add: block_ok_def)
  have f: "find_view base n (vm_views st) = Some v" using find_block [OF assms(2,4), of base n] c by simp
  have com: "\<forall>p. in_cut base n p \<longrightarrow> vbyte (vm_tbl st) p AND VPROT_COMMITTED \<noteq> 0" using assms(8) by (simp add: base_def n_def)
  have "4096 dvd base" by (simp add: base_def round_addr_dvd)
  moreover have "0 < page_of n" using blk by (auto simp: block_ok_def page_of_def elim!: dvdE)
  ultimately have first: "vbyte (vm_tbl st) (page_of base) AND VPROT_COMMITTED \<noteq> 0"
    using com page_of_add [of base n] by simp
  obtain st' where s: "set_protection cfg v base n new_prot st = Some (STATUS_SUCCESS, st')"
      "pages_set cfg v (page_of base) (page_of (base + n)) (new_vprot (vc_prot cfg) (v_protect v) (ucast (vprot OR VPROT_COMMITTED))) st st'"
    using set_protection_spec [OF assms(1,2,4) blk assms(6)] by blast
  have "NtProtectVirtualMemory cfg env addr sz new_prot st =
      Some ((STATUS_SUCCESS, Some (base, n, get_win32_prot (vbyte (vm_tbl st) (page_of base)) (v_protect v))), st')"
    using assms(9-12) f s(1) first committed_size_spec [OF assms(2,4) blk assms(5) com, of "pe_ask env"]
    unfolding NtProtectVirtualMemory_def base_def [symmetric] n_def [symmetric] by (simp add: Let_def)
  moreover have "views st' = views st" using s(2) by (simp add: pages_set_def)
  ultimately show ?thesis
    using set_keeps_ok [OF s(2) assms(2)] set_keeps_kernel [OF s(2) assms(3)] set_pages [OF s(2) assms(2)]
    unfolding base_def [symmetric] n_def [symmetric] by blast
qed

text \<open>
  C36: A call that fails changes nothing: whenever freeing or decommitting returns an error, the memory is as before and
  no address or size is written back; turning pages into a placeholder is the exception.
\<close>
theorem failed_free_changes_nothing:
  assumes "NtFreeVirtualMemory cfg remote addr sz type st = Some ((status, out), st')" and "status \<noteq> STATUS_SUCCESS"
    and "type \<noteq> MEM_RELEASE OR MEM_PRESERVE_PLACEHOLDER"
  shows "st' = st \<and> out = None"
proof -
  have d: "s = STATUS_SUCCESS \<or> st1 = st" if "decommit_pages cfg v a n st = Some (s, st1)" for v a n s st1
    using that by (auto simp: decommit_pages_def anon_mmap_fixed_def Let_def split: if_splits option.splits bind_splits)
  have r: "s = STATUS_SUCCESS \<or> st1 = st" if "remove_pages_from_view cfg v a n st = Some (s, st1)" for v a n s st1
    using that by (auto simp: remove_pages_from_view_def Let_def split: if_splits bind_splits)
  have f: "s = STATUS_SUCCESS \<or> st1 = st" if "free_pages cfg v a n st = Some (s, st1)" for v a n s st1
    using that by (auto simp: free_pages_def Let_def split: if_splits bind_splits dest: r)
  have c: "s = STATUS_SUCCESS \<or> st1 = st" if "coalesce_placeholders cfg v a n st = Some (s, st1)" for v a n s st1
    using that by (auto simp: coalesce_placeholders_def Let_def split: if_splits bind_splits prod.splits)
  show ?thesis
  proof (cases remote)
    case None
    show ?thesis
      using assms unfolding NtFreeVirtualMemory_def None
      by (auto simp: Let_def split: if_splits option.splits bind_splits dest: d f c)
  next
    case (Some r)
    then show ?thesis using assms by (cases r) (auto simp: NtFreeVirtualMemory_def split: if_splits)
  qed
qed

text \<open>
  C37: A size close to the top of the address space wraps around when it is rounded up to pages: to release, from the
  base of a view, a block that cannot exist is the same call as to release the whole view.
\<close>
theorem huge_size_frees_whole_view:
  assumes "addr mod 4096 = 0" and "2 ^ 64 - 4095 \<le> sz" and "sz < 2 ^ 64"
  shows "NtFreeVirtualMemory cfg None addr sz type st = NtFreeVirtualMemory cfg None addr 0 type st"
proof -
  have "(sz + 4095) mod 2 ^ 64 = sz + 4095 - 2 ^ 64" using assms(2,3) by (simp add: mod_if)
  then have "(sz + 4095) mod 2 ^ 64 < 4096" using assms(3) by simp
  then have "round_size addr sz = 0" using assms(1,3) by (simp add: round_size_def round_addr_def add64_def)
  then show ?thesis using assms(2) by (simp add: NtFreeVirtualMemory_def)
qed

section \<open>An example\<close>

text \<open>The tree library by a tree that is a list, and a process with one view of 32 committed pages.\<close>

definition list_tree :: "file_view list \<Rightarrow> file_view tree" where
  "list_tree vs = foldr (\<lambda>v t. \<langle>\<langle>\<rangle>, v, t\<rangle>) vs \<langle>\<rangle>"

definition sample_rb :: rbtree_ops where
  "sample_rb = \<lparr>
     rb_put = (\<lambda>v t. list_tree (takeWhile (\<lambda>w. compare_view (v_base v) w = 1) (inorder t) @
       v # dropWhile (\<lambda>w. compare_view (v_base v) w = 1) (inorder t))),
     rb_remove = (\<lambda>v t. list_tree (remove1 v (inorder t)))\<rparr>"

lemma inorder_list_tree [simp]: "inorder (list_tree vs) = vs"
  by (induction vs) (simp_all add: list_tree_def)

lemma sample_rb_ok: "rbtree_ok sample_rb"
  unfolding rbtree_ok_def
proof (intro conjI allI impI)
  fix t :: "file_view tree" and L R :: "file_view list" and v :: file_view
  assume t: "inorder t = L @ R" and L: "\<forall>w \<in> set L. compare_view (v_base v) w = 1" and R: "\<forall>w \<in> set R. compare_view (v_base v) w = - 1"
  have "takeWhile (\<lambda>w. compare_view (v_base v) w = 1) R = []" "dropWhile (\<lambda>w. compare_view (v_base v) w = 1) R = R"
    using R by (cases R; simp)+
  then show "inorder (rb_put sample_rb v t) = L @ v # R"
    using t L by (simp add: sample_rb_def takeWhile_append dropWhile_append)
next
  fix t :: "file_view tree" and L R :: "file_view list" and v :: file_view
  assume t: "inorder t = L @ v # R" and s: "sorted_wrt (\<lambda>w w'. compare_view (v_base w') w = 1) (inorder t)"
  have "v \<notin> set L"
  proof
    assume "v \<in> set L"
    then have "compare_view (v_base v) v = 1" using s by (auto simp: t sorted_wrt_append)
    then show False by (simp add: compare_view_def)
  qed
  then show "inorder (rb_remove sample_rb v t) = L @ R" using t by (simp add: sample_rb_def remove1_append)
qed

definition sample_vcfg :: vcfg where
  "sample_vcfg = \<lparr>vc_prot = sample_protcfg, vc_rb = sample_rb, vc_dirs = 1, vc_alloc_view = True, vc_block_ok = (\<lambda>_. True),
     vc_fixed_ok = (\<lambda>_ _. True), vc_malloc_ok = True, vc_user_limit = 0x7fffffff0000\<rparr>"

definition sample_view :: file_view where
  "sample_view = \<lparr>v_base = 0x10000, v_size = 0x20000, v_protect = 0x23\<rparr>"

definition sample_vm :: vmem where
  "sample_vm = \<lparr>vm_views = \<langle>\<langle>\<rangle>, sample_view, \<langle>\<rangle>\<rangle>,
     vm_ranges = [\<lparr>r_base = 0, r_end = 0x10000\<rparr>, \<lparr>r_base = 0x30000, r_end = 2 ^ 64 - 1\<rparr>],
     vm_tbl = [0 \<mapsto> (\<lambda>i. if 16 \<le> i \<and> i < 48 then 0x23 else 0)], vm_reserved = [], vm_ecmap = (\<lambda>_. 0),
     vm_kprot = (\<lambda>p. if 16 \<le> p \<and> p < 48 then 3 else 0), vm_mapped = (\<lambda>p. 16 \<le> p \<and> p < 48),
     vm_working_set = 0x7fffffff0000\<rparr>"

lemma sample_works: "calls_work sample_vcfg"
  by (simp add: calls_work_def sample_vcfg_def sample_rb_ok mprotect_works_def sample_protcfg_def)

lemma sample_vbyte: "vbyte (vm_tbl sample_vm) p = (if 16 \<le> p \<and> p < 48 then 0x23 else 0)"
proof (cases "p < block_pages")
  case False
  then have "p div block_pages \<noteq> 0" by (simp add: div_eq_0_iff)
  then show ?thesis using False by (simp add: sample_vm_def vbyte_def vprot_at_def)
qed (simp add: sample_vm_def vbyte_def vprot_at_def)

lemma sample_views: "views sample_vm = [sample_view]" "v_base sample_view = 0x10000" "v_size sample_view = 0x20000"
  "v_protect sample_view = 0x23" "vm_reserved sample_vm = []"
  by (simp_all add: sample_vm_def sample_view_def)

lemma sample_vm_ok: "vm_ok sample_vcfg sample_vm"
proof -
  have "granule_base 0x10000 = 0x10000" "granule_end 0x10000 0x20000 = 0x30000"
    by (simp_all add: granule_base_def granule_end_def add64_def round_addr_def)
  then have "ranges_track (map span (views sample_vm)) (vm_ranges sample_vm)"
    by (auto simp: ranges_track_def sample_views span_def granules_def ranges_ok_Cons sample_vm_def)
  moreover have "views_ok (views sample_vm)" by (simp add: sample_views views_ok_def spans_ok_def span_def)
  moreover have "has_pages (vm_tbl sample_vm) 16 48" by (auto simp: has_pages_def sample_vm_def)
  moreover have "view_aligned sample_vcfg sample_view" by (simp add: view_aligned_def sample_views sample_vcfg_def page_of_def)
  ultimately show ?thesis
    by (auto simp: vm_ok_def sample_views page_of_def in_view_def sample_vbyte)
qed

lemma sample_kernel_ok: "kernel_ok sample_vcfg sample_vm"
proof -
  have "vm_kprot sample_vm = (\<lambda>p. if 16 \<le> p \<and> p < 48 then 3 else 0)" by (simp add: sample_vm_def)
  then show ?thesis
    by (auto simp: kernel_ok_def kernel_agrees_def sample_views page_of_def sample_vbyte sample_vcfg_def sample_protcfg_def
        get_unix_prot_def forced_prot_def)
qed

lemma sample_page: "16 \<le> p \<Longrightarrow> p < 48 \<Longrightarrow> vm_page sample_vm p = Some (0x23, 0x23)"
  using vm_page_in [OF vm_okD(1) [OF sample_vm_ok], of sample_view p]
  by (simp add: sample_views sample_vbyte in_view_def page_of_def)

lemma sample_rest: "areas_paged (vm_reserved sample_vm)" "ranges_room 3 sample_vm" "is_view_valloc sample_view"
  "sample_view \<in> set (views sample_vm)"
  by (simp_all add: sample_views areas_paged_def ranges_room_def is_view_valloc_def) (simp_all add: sample_vm_def)

theorem release_frees_pages_witness:
  "\<exists>st'. NtFreeVirtualMemory sample_vcfg None 0x28123 0x7000 MEM_RELEASE sample_vm =
      Some ((STATUS_SUCCESS, Some (0x28000, 0x8000)), st') \<and>
    vm_page st' 0x2a = None \<and> vm_page st' 0x20 = Some (0x23, 0x23) \<and> vm_kprot st' 0x2a = PROT_NONE"
proof -
  have r: "round_addr 0x28123 page_mask = 0x28000" "round_size 0x28123 0x7000 = 0x8000"
    by (simp_all add: round_addr_def round_size_def add64_def)
  have "cut_ok sample_view 0x28000 0x8000" by (simp add: cut_ok_def sample_views)
  from release_frees_pages [OF sample_works sample_vm_ok sample_kernel_ok sample_rest(1,2,4,3), of "0x28123" "0x7000", unfolded r, simplified, OF this]
  obtain st' where s: "NtFreeVirtualMemory sample_vcfg None 0x28123 0x7000 MEM_RELEASE sample_vm = Some ((STATUS_SUCCESS, Some (0x28000, 0x8000)), st')"
      "\<forall>p. vm_page st' p = (if in_cut 0x28000 0x8000 p then None else vm_page sample_vm p)"
      "\<forall>p. in_cut 0x28000 0x8000 p \<and> v_protect sample_view AND VPROT_SYSTEM = 0 \<longrightarrow> vm_kprot st' p = PROT_NONE" by auto
  then have "vm_page st' 0x2a = None \<and> vm_page st' 0x20 = Some (0x23, 0x23) \<and> vm_kprot st' 0x2a = PROT_NONE"
    using sample_page [of "0x20"] by (simp add: page_of_def sample_views)
  then show ?thesis using s(1) by blast
qed

theorem decommit_keeps_reservation_witness:
  "\<exists>st'. NtFreeVirtualMemory sample_vcfg None 0x12000 0x1000 MEM_DECOMMIT sample_vm =
      Some ((STATUS_SUCCESS, Some (0x12000, 0x1000)), st') \<and>
    vm_page st' 0x12 = Some (0x23, 0x03) \<and> vm_page st' 0x13 = Some (0x23, 0x23) \<and> vm_kprot st' 0x12 = PROT_NONE"
proof -
  have r: "round_addr 0x12000 page_mask = 0x12000" "round_size 0x12000 0x1000 = 0x1000"
    by (simp_all add: round_addr_def round_size_def add64_def)
  have "block_ok sample_view 0x12000 0x1000" by (simp add: block_ok_def sample_views)
  from decommit_keeps_reservation [OF sample_works sample_vm_ok sample_kernel_ok sample_rest(4,3), of "0x12000" "0x1000", unfolded r, simplified, OF this]
  obtain st' where s: "NtFreeVirtualMemory sample_vcfg None 0x12000 0x1000 MEM_DECOMMIT sample_vm = Some ((STATUS_SUCCESS, Some (0x12000, 0x1000)), st')"
      "\<forall>p. vm_page st' p = (if in_cut 0x12000 0x1000 p
        then Some (v_protect sample_view, vbyte (vm_tbl sample_vm) p AND - 33) else vm_page sample_vm p)"
      "\<forall>p. in_cut 0x12000 0x1000 p \<longrightarrow> vm_kprot st' p = PROT_NONE" by auto
  then have "vm_page st' 0x12 = Some (0x23, 0x03) \<and> vm_page st' 0x13 = Some (0x23, 0x23) \<and> vm_kprot st' 0x12 = PROT_NONE"
    using sample_page [of "0x13"] by (simp add: page_of_def sample_views sample_vbyte)
  then show ?thesis using s(1) by blast
qed

definition sample_env :: protect_env where
  "sample_env = \<lparr>pe_old_null = False, pe_remote = None, pe_ask = (\<lambda>_ _. None), pe_simulate_writecopy = False, pe_image_base = 0, pe_gta5 = False\<rparr>"

theorem protect_changes_pages_witness:
  "\<exists>st'. NtProtectVirtualMemory sample_vcfg sample_env 0x12800 0x1000 PAGE_EXECUTE_READ sample_vm =
      Some ((STATUS_SUCCESS, Some (0x12000, 0x2000, PAGE_READWRITE)), st') \<and>
    vm_page st' 0x13 = Some (0x23, 0x25) \<and> vm_page st' 0x14 = Some (0x23, 0x23)"
proof -
  have r: "round_addr 0x12800 page_mask = 0x12000" "round_size 0x12800 0x1000 = 0x2000"
    by (simp_all add: round_addr_def round_size_def add64_def)
  have b: "block_ok sample_view 0x12000 0x2000" by (simp add: block_ok_def sample_views)
  have p: "protect_ok sample_view PAGE_EXECUTE_READ 5"
    by (simp add: protect_ok_def get_vprot_flags_def sample_views is_view_valloc_def)
  have c: "\<forall>p. in_cut 0x12000 0x2000 p \<longrightarrow> vbyte (vm_tbl sample_vm) p AND VPROT_COMMITTED \<noteq> 0"
    by (simp add: page_of_def sample_vbyte)
  have s: "v_protect sample_view AND SEC_RESERVE = 0" by (simp add: sample_views)
  have e: "\<not> pe_old_null sample_env" "pe_remote sample_env = None" "\<not> pe_simulate_writecopy sample_env" "\<not> pe_gta5 sample_env"
    by (simp_all add: sample_env_def)
  from protect_changes_pages [OF sample_works sample_vm_ok sample_kernel_ok sample_rest(4) s p, of "0x12800" "0x1000", unfolded r, OF b c e]
  obtain st' where t: "NtProtectVirtualMemory sample_vcfg sample_env 0x12800 0x1000 PAGE_EXECUTE_READ sample_vm =
        Some ((STATUS_SUCCESS, Some (0x12000, 0x2000, get_win32_prot (vbyte (vm_tbl sample_vm) (page_of 0x12000)) (v_protect sample_view))), st')"
      "\<forall>p. vm_page st' p = (if in_cut 0x12000 0x2000 p then Some (v_protect sample_view,
          new_vprot (vc_prot sample_vcfg) (v_protect sample_view) (ucast (5 OR VPROT_COMMITTED :: u32)) (vbyte (vm_tbl sample_vm) p))
        else vm_page sample_vm p)" by auto
  have "get_win32_prot (vbyte (vm_tbl sample_vm) (page_of 0x12000)) (v_protect sample_view) = PAGE_READWRITE"
    by (simp add: page_of_def sample_vbyte sample_views get_win32_prot_def VIRTUAL_Win32Flags_def)
  moreover have "vm_page st' 0x13 = Some (0x23, 0x25) \<and> vm_page st' 0x14 = Some (0x23, 0x23)"
    using t(2) sample_page [of "0x14"]
    by (simp add: page_of_def sample_views new_vprot_def sample_vcfg_def sample_protcfg_def)
  ultimately show ?thesis using t(1) by auto
qed

theorem failed_free_changes_nothing_witness:
  "NtFreeVirtualMemory sample_vcfg None 0x12000 0 MEM_RELEASE sample_vm = Some ((STATUS_FREE_VM_NOT_AT_BASE, None), sample_vm)"
proof -
  have "find_view 0x12000 0 (vm_views sample_vm) = Some sample_view"
    using find_block [OF sample_vm_ok sample_rest(4), of "0x12000" 0] by (simp add: sample_views)
  then have "NtFreeVirtualMemory sample_vcfg None 0x12000 0 MEM_RELEASE sample_vm =
      Some ((STATUS_FREE_VM_NOT_AT_BASE, None), sample_vm)"
    by (simp add: NtFreeVirtualMemory_def round_addr_def sample_rest sample_views Let_def)
  from failed_free_changes_nothing [OF this] this show ?thesis by simp
qed

theorem huge_size_frees_whole_view_witness:
  "NtFreeVirtualMemory sample_vcfg None 0x10000 0xffffffffffffffff MEM_RELEASE sample_vm =
   NtFreeVirtualMemory sample_vcfg None 0x10000 0 MEM_RELEASE sample_vm"
  by (rule huge_size_frees_whole_view) simp_all

end
