(* ===== verification/Virtual_Alloc.thy ===== *)
theory Virtual_Alloc
  imports Virtual_Calls
begin

text \<open>
  dlls/ntdll/unix/virtual.c: the search for free memory and the allocation of it, at a fixed address or anywhere
  in the free ranges. Pointers are natural numbers with 0 for NULL.
\<close>

abbreviation (input) STATUS_WORKING_SET_LIMIT_RANGE :: ntstatus where "STATUS_WORKING_SET_LIMIT_RANGE \<equiv> 0x40000002"
abbreviation (input) STATUS_NOT_MAPPED_VIEW :: ntstatus where "STATUS_NOT_MAPPED_VIEW \<equiv> 0xC0000019"
abbreviation (input) STATUS_ALREADY_COMMITTED :: ntstatus where "STATUS_ALREADY_COMMITTED \<equiv> 0xC0000021"

abbreviation (input) MEM_COMMIT :: u32 where "MEM_COMMIT \<equiv> 0x1000"
abbreviation (input) MEM_RESERVE :: u32 where "MEM_RESERVE \<equiv> 0x2000"
abbreviation (input) MEM_REPLACE_PLACEHOLDER :: u32 where "MEM_REPLACE_PLACEHOLDER \<equiv> 0x4000"
abbreviation (input) MEM_RESERVE_PLACEHOLDER :: u32 where "MEM_RESERVE_PLACEHOLDER \<equiv> 0x40000"
abbreviation (input) MEM_RESET :: u32 where "MEM_RESET \<equiv> 0x80000"
abbreviation (input) MEM_TOP_DOWN :: u32 where "MEM_TOP_DOWN \<equiv> 0x100000"
abbreviation (input) MEM_WRITE_WATCH :: u32 where "MEM_WRITE_WATCH \<equiv> 0x200000"

datatype errno = ENOMEM | EEXIST | EOTHER

text \<open>
  What the search depends on: mmap at an address that may be in use (the error, or where the kernel put the
  mapping), the error of a failed fixed mapping, the limits of the address space, the area the preloader holds,
  and the environment variables of the limit workaround.
\<close>

record alloc_env =
  ae_tryfixed :: "(nat \<Rightarrow> bool) \<Rightarrow> nat \<Rightarrow> nat \<Rightarrow> errno + nat"
  ae_fixed_errno :: "nat \<Rightarrow> nat \<Rightarrow> errno"
  ae_space_start :: nat
  ae_space_limit :: nat
  ae_host_limit :: nat
  ae_preload :: "nat \<times> nat"
  ae_increase_step :: bool
  ae_limit_address_space :: "string option"
  ae_steam_game :: "string option"

definition is_beyond_limit :: "nat \<Rightarrow> nat \<Rightarrow> nat \<Rightarrow> bool" where
  "is_beyond_limit addr sz limit \<longleftrightarrow> limit \<le> addr \<or> limit < add64 addr sz"

definition anon_mmap_tryfixed ::
  "vcfg \<Rightarrow> alloc_env \<Rightarrow> nat \<Rightarrow> nat \<Rightarrow> u32 \<Rightarrow> vmem \<Rightarrow> (errno + nat) \<times> vmem" where
  "anon_mmap_tryfixed cfg env start sz prot st =
     (case ae_tryfixed env (vm_mapped st) start sz of
        Inl err \<Rightarrow> (Inl err, st)
      | Inr ptr \<Rightarrow>
          let st = st\<lparr>vm_mapped := (\<lambda>p. in_pages ptr sz p \<or> vm_mapped st p),
                      vm_kprot := (\<lambda>p. if in_pages ptr sz p then prot else vm_kprot st p)\<rparr>
          in if ptr \<noteq> start
             then let (sz, st) = unmap_area_above_user_limit cfg ptr sz st
                  in (Inl EEXIST, if sz \<noteq> 0 then munmap ptr sz st else st)
             else (Inr start, st))"

section \<open>The search for a free area\<close>

record alloc_area =
  aa_size :: nat
  aa_step :: int
  aa_prot :: u32
  aa_top_down :: bool
  aa_align_mask :: nat
  aa_native :: nat
  aa_native_size :: nat

text \<open>Addresses are tried one step apart; steps may double. The result is 0 when none could be mapped.\<close>

function try_map_loop ::
  "vcfg \<Rightarrow> alloc_env \<Rightarrow> nat \<Rightarrow> nat \<Rightarrow> nat \<Rightarrow> int \<Rightarrow> nat \<Rightarrow> alloc_area \<Rightarrow> vmem \<Rightarrow> nat \<times> alloc_area \<times> vmem" where
  "try_map_loop cfg env base lim abs_step step start area st =
     (if start \<noteq> 0 \<and> base \<le> start \<and> add64 start (aa_size area) \<le> lim
      then case anon_mmap_tryfixed cfg env start (aa_size area) (aa_prot area) st of
        (Inr _, st) \<Rightarrow> (start, area, st)
      | (Inl err, st) \<Rightarrow>
          if err \<noteq> EEXIST then (0, area, st)
          else let area = (if aa_native area = 0 \<and> step \<noteq> 0 \<and> abs_step < 0x20000
                           then area\<lparr>aa_native := start, aa_native_size := min abs_step (lim - start)\<rparr> else area)
               in if step > 0 \<and> int lim - int start < step \<or> step < 0 \<and> int start - int base < - step \<or> step = 0
                  then (0, area, st)
                  else try_map_loop cfg env base lim abs_step
                         (if ae_increase_step env \<and> \<bar>step\<bar> < 0x40000000 then step * 2 else step)
                         (nat (int start + step)) area st
      else (0, area, st))"
  by pat_completeness auto
termination
  by (relation "measure (\<lambda>(cfg, env, base, lim, abs_step, step, start, area, st). if step > 0 then lim - start else start)")
    (auto simp: zero_less_mult_iff)

declare try_map_loop.simps [simp del]

definition try_map_free_area ::
  "vcfg \<Rightarrow> alloc_env \<Rightarrow> alloc_area \<Rightarrow> nat \<Rightarrow> nat \<Rightarrow> nat \<Rightarrow> vmem \<Rightarrow> nat \<times> alloc_area \<times> vmem" where
  "try_map_free_area cfg env area base lim start st =
     try_map_loop cfg env base lim (nat \<bar>aa_step area\<bar>) (aa_step area) start area st"

definition try_map_free_area_range ::
  "vcfg \<Rightarrow> alloc_env \<Rightarrow> alloc_area \<Rightarrow> nat \<Rightarrow> nat \<Rightarrow> vmem \<Rightarrow> nat \<times> alloc_area \<times> vmem" where
  "try_map_free_area_range cfg env area start lim st =
     (if aa_top_down area
      then if lim - start < aa_size area then (0, area, st)
           else let alloc_start = round_addr (lim - aa_size area) (aa_align_mask area)
                in try_map_free_area cfg env area start (add64 alloc_start (aa_size area)) alloc_start st
      else try_map_free_area cfg env area start lim
             (round_addr (add64 start (aa_align_mask area)) (aa_align_mask area)) st)"

text \<open>
  A mapping in a reserved area replaces what is there; when it fails, the result is MAP_FAILED, which is not NULL.
\<close>

definition map_in_reserved :: "vcfg \<Rightarrow> alloc_area \<Rightarrow> nat \<Rightarrow> vmem \<Rightarrow> nat \<times> alloc_area \<times> vmem" where
  "map_in_reserved cfg area alloc_start st =
     (let (ok, st) = anon_mmap_fixed cfg alloc_start (aa_size area) (aa_prot area) st
      in (if ok then alloc_start else 2 ^ 64 - 1, area, st))"

text \<open>Reserved areas in descending order for an allocation from the top, and in ascending order else.\<close>

primrec in_range_down :: "vcfg \<Rightarrow> alloc_env \<Rightarrow> nat \<Rightarrow> nat \<Rightarrow> span list \<Rightarrow> alloc_area \<Rightarrow> vmem \<Rightarrow> nat \<times> alloc_area \<times> vmem" where
  "in_range_down cfg env base lim [] area st = try_map_free_area_range cfg env area base lim st"
| "in_range_down cfg env base lim (r # rs) area st =
     (if lim \<le> fst r then in_range_down cfg env base lim rs area st
      else if area_end r \<le> base then try_map_free_area_range cfg env area base lim st
      else let i_start = max (fst r) base; i_end = min (area_end r) lim;
               (result, area, st) = try_map_free_area_range cfg env area i_end lim st;
               alloc_start = round_addr (i_end - aa_size area) (aa_align_mask area)
           in if result \<noteq> 0 then (result, area, st)
              else if aa_size area \<le> i_end - i_start \<and> i_start \<le> alloc_start then map_in_reserved cfg area alloc_start st
              else if i_start - base < aa_size area then (0, area, st)
              else in_range_down cfg env base i_start rs area st)"

primrec in_range_up :: "vcfg \<Rightarrow> alloc_env \<Rightarrow> nat \<Rightarrow> nat \<Rightarrow> span list \<Rightarrow> alloc_area \<Rightarrow> vmem \<Rightarrow> nat \<times> alloc_area \<times> vmem" where
  "in_range_up cfg env base lim [] area st = try_map_free_area_range cfg env area base lim st"
| "in_range_up cfg env base lim (r # rs) area st =
     (if area_end r \<le> base then in_range_up cfg env base lim rs area st
      else if lim \<le> fst r then try_map_free_area_range cfg env area base lim st
      else let i_start = max (fst r) base; i_end = min (area_end r) lim;
               (result, area, st) = try_map_free_area_range cfg env area base i_start st;
               alloc_start = round_addr (add64 i_start (aa_align_mask area)) (aa_align_mask area)
           in if result \<noteq> 0 then (result, area, st)
              else if aa_size area \<le> i_end - i_start \<and> add64 alloc_start (aa_size area) \<le> i_end
              then map_in_reserved cfg area alloc_start st
              else if lim - i_end < aa_size area then (0, area, st)
              else in_range_up cfg env i_end lim rs area st)"

definition alloc_free_area_in_range ::
  "vcfg \<Rightarrow> alloc_env \<Rightarrow> alloc_area \<Rightarrow> nat \<Rightarrow> nat \<Rightarrow> vmem \<Rightarrow> nat \<times> alloc_area \<times> vmem" where
  "alloc_free_area_in_range cfg env area base lim st =
     (if lim \<le> base then (0, area, st)
      else if aa_top_down area
      then if lim < aa_size area then (0, area, st)
           else let alloc_start = round_addr (lim - aa_size area) (aa_align_mask area)
                in if lim \<le> alloc_start \<or> alloc_start < base then (0, area, st)
                   else in_range_down cfg env base lim (rev (vm_reserved st)) area st
      else if add64 base (aa_align_mask area) < base then (0, area, st)
      else let alloc_start = round_addr (add64 base (aa_align_mask area)) (aa_align_mask area)
           in if lim \<le> alloc_start \<or> lim - alloc_start < aa_size area then (0, area, st)
              else in_range_up cfg env base lim (vm_reserved st) area st)"

text \<open>The free ranges in the order of the search, each without the area that the preloader holds.\<close>

primrec alloc_ranges ::
  "vcfg \<Rightarrow> alloc_env \<Rightarrow> nat \<Rightarrow> nat \<Rightarrow> range_entry list \<Rightarrow> alloc_area \<Rightarrow> vmem \<Rightarrow> nat \<times> alloc_area \<times> vmem" where
  "alloc_ranges cfg env low high [] area st = (0, area, st)"
| "alloc_ranges cfg env low high (r # rs) area st =
     (let (reserve_start, reserve_end) = ae_preload env;
          base = (if r_base r < low then low else r_base r);
          lim = (if high < r_end r then high else r_end r)
      in if lim < base \<or> lim - base < aa_size area then alloc_ranges cfg env low high rs area st
         else if base \<le> reserve_end \<and> lim \<le> reserve_end \<and> reserve_start \<le> base then alloc_ranges cfg env low high rs area st
         else let (result, area, st) =
                    (if base \<le> reserve_end \<and> reserve_end < lim \<and> base < reserve_start
                     then alloc_free_area_in_range cfg env area base reserve_start st else (0, area, st));
                  lim1 = (if base \<le> reserve_end \<and> lim \<le> reserve_end \<and> reserve_start < lim then reserve_start else lim);
                  base1 = (if base \<le> reserve_end \<and> reserve_end < lim then reserve_end else base)
              in if result \<noteq> 0 then (result, area, st)
                 else let (result, area, st) = alloc_free_area_in_range cfg env area base1 lim1 st
                      in if result \<noteq> 0 then (result, area, st) else alloc_ranges cfg env low high rs area st)"

text \<open>
  Memory that the search found in use although it belongs to no view is recorded as a native view, joined with the
  native views next to it.
\<close>

definition record_native :: "vcfg \<Rightarrow> nat \<Rightarrow> nat \<Rightarrow> vmem \<Rightarrow> vmem option" where
  "record_native cfg nstart nend st =
     (let found = find_view_range (nstart - 1) (nend - nstart + 2) (vm_views st);
          (prev, nxt) = (case found of
             None \<Rightarrow> (None, None)
           | Some v \<Rightarrow> if nend \<le> v_base v then (view_prev (v_base v) (inorder (vm_views st)), Some v)
                       else (Some v, view_next (v_base v) (inorder (vm_views st))))
      in do {
        (nstart, st) \<leftarrow>
          (case prev of
             Some v \<Rightarrow> if v_protect v AND VPROT_NATIVE \<noteq> 0 \<and> nstart \<le> view_end v
                        then if view_end v \<noteq> nstart then None else map_option (\<lambda>st. (v_base v, st)) (delete_view cfg v st)
                        else Some (nstart, st)
           | None \<Rightarrow> Some (nstart, st));
        (nend, st) \<leftarrow>
          (case nxt of
             Some v \<Rightarrow> if v_protect v AND VPROT_NATIVE \<noteq> 0 \<and> v_base v \<le> nend
                        then if nend \<noteq> v_base v then None else map_option (\<lambda>st. (view_end v, st)) (delete_view cfg v st)
                        else Some (nend, st)
           | None \<Rightarrow> Some (nend, st));
        (_, st) \<leftarrow> create_view cfg nstart (nend - nstart) (VPROT_SYSTEM OR VPROT_NATIVE) st;
        Some st
      })"

definition alloc_free_area ::
  "vcfg \<Rightarrow> alloc_env \<Rightarrow> nat \<Rightarrow> nat \<Rightarrow> nat \<Rightarrow> bool \<Rightarrow> u32 \<Rightarrow> nat \<Rightarrow> vmem \<Rightarrow> (nat \<times> vmem) option" where
  "alloc_free_area cfg env low high sz top_down prot align_mask st =
     (let area = \<lparr>aa_size = sz, aa_step = (if top_down then - (int align_mask + 1) else int align_mask + 1), aa_prot = prot,
                  aa_top_down = top_down, aa_align_mask = align_mask, aa_native = 0, aa_native_size = 0\<rparr>;
          (result, area, st) = alloc_ranges cfg env low high (if top_down then rev (vm_ranges st) else vm_ranges st) area st;
          nstart = round_addr (aa_native area) granularity_mask;
          nend = round_addr (add64 (add64 (aa_native area) (aa_native_size area)) granularity_mask) granularity_mask
      in if aa_native area \<noteq> 0 \<and> (nend \<le> result \<or> add64 result sz < nstart)
         then map_option (\<lambda>st. (result, st)) (record_native cfg nstart nend st)
         else Some (result, st))"

end
