(* ===== verification/Virtual_Map.thy ===== *)
theory Virtual_Map
  imports Virtual_Alloc
begin

text \<open>
  dlls/ntdll/unix/virtual.c: creating mappings, and the system calls that reserve and commit memory. \<open>view_visits\<close>
  are the views that the tree library's destructor loop visits; the 64-bit build is modelled.
\<close>

record map_env =
  me_alloc :: alloc_env
  me_visits :: "file_view tree \<Rightarrow> file_view list"
  me_ec_view :: "file_view option"
  me_wow_limit :: "nat option"

section \<open>Mapping at a fixed address\<close>

text \<open>The parts outside of reserved areas must not be in use, those inside are replaced. An error comes with the place it happened.\<close>

fun map_fixed_loop ::
  "vcfg \<Rightarrow> alloc_env \<Rightarrow> u32 \<Rightarrow> span list \<Rightarrow> nat \<Rightarrow> nat \<Rightarrow> vmem \<Rightarrow> (errno \<times> nat) option \<times> vmem" where
  "map_fixed_loop cfg env prot [] start lim st =
     (case anon_mmap_tryfixed cfg env start (lim - start) prot st of
        (Inl err, st) \<Rightarrow> (Some (err, start), st)
      | (Inr _, st) \<Rightarrow> (None, st))"
| "map_fixed_loop cfg env prot (a # as) start lim st =
     (if lim \<le> fst a then map_fixed_loop cfg env prot [] start lim st
      else if area_end a \<le> start then map_fixed_loop cfg env prot as start lim st
      else let (before, st) = (if start < fst a then anon_mmap_tryfixed cfg env start (fst a - start) prot st else (Inr start, st))
           in case before of
                Inl err \<Rightarrow> (Some (err, start), st)
              | Inr _ \<Rightarrow>
                  let start = (if start < fst a then fst a else start);
                      stop = (if lim \<le> area_end a then lim else area_end a);
                      (ok, st) = anon_mmap_fixed cfg start (stop - start) prot st
                  in if \<not> ok then (Some (ae_fixed_errno env start (stop - start), start), st)
                     else if lim \<le> area_end a then (None, st)
                     else map_fixed_loop cfg env prot as (area_end a) lim st)"

definition map_fixed_area :: "vcfg \<Rightarrow> alloc_env \<Rightarrow> nat \<Rightarrow> nat \<Rightarrow> u32 \<Rightarrow> vmem \<Rightarrow> ntstatus \<times> vmem" where
  "map_fixed_area cfg env base sz vprot st =
     (if find_view_range base sz (vm_views st) \<noteq> None then (STATUS_CONFLICTING_ADDRESSES, st)
      else case map_fixed_loop cfg env (get_unix_prot (vc_prot cfg) (ucast vprot)) (vm_reserved st) base (add64 base sz) st of
        (None, st) \<Rightarrow> (STATUS_SUCCESS, st)
      | (Some (err, start), st) \<Rightarrow>
          (case err of ENOMEM \<Rightarrow> STATUS_NO_MEMORY | EEXIST \<Rightarrow> STATUS_CONFLICTING_ADDRESSES | EOTHER \<Rightarrow> STATUS_INVALID_PARAMETER,
           unmap_area cfg base (start - base) st))"

section \<open>Views for mappings\<close>

primrec delete_native :: "vcfg \<Rightarrow> file_view list \<Rightarrow> vmem \<Rightarrow> vmem option" where
  "delete_native cfg [] st = Some st"
| "delete_native cfg (v # vs) st =
     (if v_protect v AND VPROT_NATIVE \<noteq> 0
      then do { st \<leftarrow> delete_view cfg v st; delete_native cfg vs st }
      else delete_native cfg vs st)"

definition clear_native_views :: "vcfg \<Rightarrow> map_env \<Rightarrow> vmem \<Rightarrow> vmem option" where
  "clear_native_views cfg env st = delete_native cfg (me_visits env (vm_views st)) st"

definition limit_cached :: "string option \<Rightarrow> string option \<Rightarrow> bool" where
  "limit_cached e sgi =
     (case e of Some s \<Rightarrow> s = '''' \<or> hd s \<noteq> CHR ''0''
      | None \<Rightarrow> sgi = Some ''3092660'' \<or> sgi = Some ''3681810'')"

definition fixup_effective_user_space_limit :: "alloc_env \<Rightarrow> nat \<Rightarrow> nat" where
  "fixup_effective_user_space_limit env limit =
     (if limit_cached (ae_limit_address_space env) (ae_steam_game env) then min limit 0x700000000000 else limit)"

definition replace_placeholder :: "vcfg \<Rightarrow> nat \<Rightarrow> nat \<Rightarrow> u32 \<Rightarrow> vmem \<Rightarrow> ((ntstatus + file_view) \<times> vmem) option" where
  "replace_placeholder cfg base sz vprot st =
     (case find_view base 0 (vm_views st) of
        None \<Rightarrow> Some (Inl STATUS_INVALID_PARAMETER, st)
      | Some view \<Rightarrow>
          if v_base view \<noteq> base \<or> v_size view \<noteq> sz then Some (Inl STATUS_CONFLICTING_ADDRESSES, st)
          else if v_protect view AND VPROT_FREE_PLACEHOLDER = 0 then Some (Inl STATUS_INVALID_PARAMETER, st)
          else do {
            let view = view\<lparr>v_protect := vprot OR VPROT_PLACEHOLDER\<rparr>;
            let st = set_protect base (vprot OR VPROT_PLACEHOLDER) st;
            (_, tbl, k) \<leftarrow> set_vprot (vc_prot cfg) (vc_dirs cfg) (v_protect view) base sz (ucast vprot) (vm_tbl st, vm_kprot st);
            (tbl, k) \<leftarrow> (if vprot AND VPROT_WRITEWATCH \<noteq> 0
                        then reset_write_watches (vc_prot cfg) (vc_dirs cfg) base sz (tbl, k) else Some (tbl, k));
            Some (Inr view, st\<lparr>vm_tbl := tbl, vm_kprot := k\<rparr>)
          })"

text \<open>The address range is mapped first, then the view is created for it.\<close>

definition map_memory ::
  "vcfg \<Rightarrow> map_env \<Rightarrow> nat \<Rightarrow> nat \<Rightarrow> u32 \<Rightarrow> u32 \<Rightarrow> nat \<Rightarrow> nat \<Rightarrow> nat \<Rightarrow> vmem \<Rightarrow> ((ntstatus + nat) \<times> vmem) option" where
  "map_memory cfg env base sz alloc_type vprot limit_low limit_high align_mask st =
     (let ae = me_alloc env;
          effective_limit = fixup_effective_user_space_limit ae (min (vc_user_limit cfg) (ae_host_limit ae))
      in if base \<noteq> 0
         then if is_beyond_limit base sz (ae_space_limit ae) then Some (Inl STATUS_WORKING_SET_LIMIT_RANGE, st)
              else if limit_low \<noteq> 0 \<and> base < limit_low then Some (Inl STATUS_CONFLICTING_ADDRESSES, st)
              else if limit_high \<noteq> 0 \<and> is_beyond_limit base sz limit_high then Some (Inl STATUS_CONFLICTING_ADDRESSES, st)
              else if is_beyond_limit base sz (ae_host_limit ae) then Some (Inl STATUS_CONFLICTING_ADDRESSES, st)
              else let (status, st) = map_fixed_area cfg ae base sz vprot st
                   in if status \<noteq> STATUS_SUCCESS then Some (Inl status, st)
                      else Some (Inr base, if is_beyond_limit base sz (vm_working_set st)
                                           then st\<lparr>vm_working_set := ae_space_limit ae\<rparr> else st)
         else let high = (if limit_high \<noteq> 0 then min (add64 limit_high 1) effective_limit else effective_limit);
                  low = (if limit_low < ae_space_start ae then ae_space_start ae else limit_low);
                  align_mask = (if align_mask = 0 then granularity_mask else align_mask);
                  alloc = alloc_free_area cfg ae low high sz (alloc_type AND MEM_TOP_DOWN \<noteq> 0)
                            (get_unix_prot (vc_prot cfg) (ucast vprot)) align_mask
              in do {
                (ptr, st) \<leftarrow> alloc st;
                if ptr \<noteq> 0 then Some (Inr ptr, st)
                else do {
                  st \<leftarrow> clear_native_views cfg env st;
                  (ptr, st) \<leftarrow> alloc st;
                  Some (if ptr = 0 then Inl STATUS_NO_MEMORY else Inr ptr, st)
                }
              })"

definition map_view ::
  "vcfg \<Rightarrow> map_env \<Rightarrow> nat \<Rightarrow> nat \<Rightarrow> u32 \<Rightarrow> u32 \<Rightarrow> nat \<Rightarrow> nat \<Rightarrow> nat \<Rightarrow> vmem \<Rightarrow> ((ntstatus + file_view) \<times> vmem) option" where
  "map_view cfg env base sz alloc_type vprot limit_low limit_high align_mask st =
     (if alloc_type AND MEM_REPLACE_PLACEHOLDER \<noteq> 0 then replace_placeholder cfg base sz vprot st
      else if limit_high \<noteq> 0 \<and> limit_high \<le> limit_low then Some (Inl STATUS_INVALID_PARAMETER, st)
      else do {
        (mapped, st) \<leftarrow> map_memory cfg env base sz alloc_type vprot limit_low limit_high align_mask st;
        case mapped of
          Inl status \<Rightarrow> Some (Inl status, st)
        | Inr ptr \<Rightarrow> do {
            (r, st) \<leftarrow> create_view cfg ptr sz vprot st;
            case r of Inl status \<Rightarrow> Some (Inl status, unmap_area cfg ptr sz st) | Inr view \<Rightarrow> Some (Inr view, st)
          }
      })"

text \<open>The DOS area: the first 64 KiB are taken too when they can be.\<close>

definition allocate_dos_memory :: "vcfg \<Rightarrow> map_env \<Rightarrow> u32 \<Rightarrow> vmem \<Rightarrow> ((ntstatus + file_view) \<times> vmem) option" where
  "allocate_dos_memory cfg env vprot st =
     (let ae = me_alloc env; prot = get_unix_prot (vc_prot cfg) (ucast vprot)
      in if find_view_range 0 0x110000 (vm_views st) \<noteq> None then Some (Inl STATUS_CONFLICTING_ADDRESSES, st)
         else let (high, st) =
                    (if mmap_is_in_reserved_area 0x10000 (0x110000 - 0x10000) (vm_reserved st) \<noteq> 1
                     then anon_mmap_tryfixed cfg ae 0x10000 (0x110000 - 0x10000) prot st else (Inr 0, st))
              in case high of
                   Inl _ \<Rightarrow> map_view cfg env 0 0x110000 0 vprot 0 0 0 st
                 | Inr addr \<Rightarrow>
                     let (addr, st) =
                           (if mmap_is_in_reserved_area 0 0x10000 (vm_reserved st) \<noteq> 1
                            then case anon_mmap_tryfixed cfg ae 0x1000 (0x10000 - 0x1000) prot st of
                              (Inr low, st) \<Rightarrow> (let (ok, st) = anon_mmap_fixed cfg 0 0x1000 prot st in (if ok then 0 else low, st))
                            | (Inl _, st) \<Rightarrow> (0x10000, st)
                            else (addr, st));
                         (_, st) = anon_mmap_fixed cfg addr (0x110000 - addr) prot st
                     in create_view cfg addr (0x110000 - addr) vprot st)"

section \<open>The system calls\<close>

definition sub64 :: "nat \<Rightarrow> nat \<Rightarrow> nat" where
  "sub64 a b = (a + 2 ^ 64 - b) mod 2 ^ 64"

definition commit_arm64ec_map :: "vcfg \<Rightarrow> file_view \<Rightarrow> file_view \<Rightarrow> vmem \<Rightarrow> vmem option" where
  "commit_arm64ec_map cfg ec view st =
     (let start = page_of (v_base view) div 8; lim = page_of (add64 (v_base view) (v_size view)) div 8;
          sz = round_size start (lim + 1 - start); base = round_addr (add64 (v_base ec) start) page_mask;
          st = set_protect (v_base view) (v_protect view OR VPROT_ARM64EC) st
      in map_option (\<lambda>(_, tbl, k). st\<lparr>vm_tbl := tbl, vm_kprot := k\<rparr>)
           (set_vprot (vc_prot cfg) (vc_dirs cfg) (v_protect ec) base sz (VPROT_READ OR VPROT_WRITE OR VPROT_COMMITTED)
              (vm_tbl st, vm_kprot st)))"

definition vprot_of_type :: "u32 \<Rightarrow> u32 \<Rightarrow> u32 \<Rightarrow> u32" where
  "vprot_of_type type protect vprot =
     (let vprot = (if type AND MEM_COMMIT \<noteq> 0 then vprot OR VPROT_COMMITTED else vprot);
          vprot = (if type AND MEM_WRITE_WATCH \<noteq> 0 then vprot OR VPROT_WRITEWATCH else vprot);
          vprot = (if type AND MEM_RESERVE_PLACEHOLDER \<noteq> 0 then vprot OR VPROT_PLACEHOLDER OR VPROT_FREE_PLACEHOLDER else vprot)
      in if protect AND PAGE_NOCACHE \<noteq> 0 then vprot OR SEC_NOCACHE else vprot)"

text \<open>Rounding of the block, and whether it is one that may be used; the flag says that it is the DOS area.\<close>

definition round_block :: "map_env \<Rightarrow> nat \<Rightarrow> nat \<Rightarrow> u32 \<Rightarrow> ntstatus + nat \<times> nat \<times> bool" where
  "round_block env addr sz type =
     (if addr \<noteq> 0
      then let base = (if type AND MEM_RESERVE \<noteq> 0 \<and> type AND MEM_REPLACE_PLACEHOLDER = 0
                       then round_addr addr granularity_mask else round_addr addr page_mask);
               sz = sub64 (round_addr (add64 (add64 addr sz) page_mask) page_mask) base
           in if base < 0x10000 \<or> add64 base sz < base \<or> is_beyond_limit base sz (ae_space_limit (me_alloc env))
              then if base = 0 \<and> addr = 1 \<and> sz = 0x110000 then Inr (base, sz, True) else Inl STATUS_INVALID_PARAMETER
              else Inr (base, sz, False)
      else Inr (0, round_addr (add64 sz page_mask) page_mask, False))"

definition reserve_memory ::
  "vcfg \<Rightarrow> map_env \<Rightarrow> nat \<Rightarrow> nat \<Rightarrow> bool \<Rightarrow> u32 \<Rightarrow> u32 \<Rightarrow> nat \<Rightarrow> nat \<Rightarrow> nat \<Rightarrow> vmem \<Rightarrow> ((ntstatus + file_view) \<times> vmem) option" where
  "reserve_memory cfg env base sz is_dos type protect limit_low limit_high align st =
     (case get_vprot_flags protect False of
        Inl status \<Rightarrow> Some (Inl status, st)
      | Inr vprot \<Rightarrow>
          let vprot = vprot_of_type type protect vprot
          in if vprot AND VPROT_WRITECOPY \<noteq> 0 then Some (Inl STATUS_INVALID_PAGE_PROTECTION, st)
             else if is_dos then allocate_dos_memory cfg env vprot st
             else map_view cfg env base sz type vprot limit_low limit_high (if align \<noteq> 0 then align - 1 else granularity_mask) st)"

definition commit_memory ::
  "vcfg \<Rightarrow> nat \<Rightarrow> nat \<Rightarrow> u32 \<Rightarrow> vmem \<Rightarrow> ((ntstatus + file_view) \<times> vmem) option" where
  "commit_memory cfg base sz protect st =
     (case find_view base sz (vm_views st) of
        None \<Rightarrow> Some (Inl STATUS_NOT_MAPPED_VIEW, st)
      | Some view \<Rightarrow>
          if v_protect view AND SEC_FILE \<noteq> 0 then Some (Inl STATUS_ALREADY_COMMITTED, st)
          else if v_protect view AND VPROT_FREE_PLACEHOLDER \<noteq> 0 then Some (Inl STATUS_CONFLICTING_ADDRESSES, st)
          else map_option (\<lambda>(status, st). (if status \<noteq> STATUS_SUCCESS then Inl status else Inr view, st))
                 (set_protection cfg view base sz protect st))"

abbreviation (input) MEM_EXTENDED_PARAMETER_EC_CODE :: u32 where "MEM_EXTENDED_PARAMETER_EC_CODE \<equiv> 0x40"

definition allocate_virtual_memory ::
  "vcfg \<Rightarrow> map_env \<Rightarrow> nat \<Rightarrow> nat \<Rightarrow> u32 \<Rightarrow> u32 \<Rightarrow> nat \<Rightarrow> nat \<Rightarrow> nat \<Rightarrow> u32 \<Rightarrow> vmem \<Rightarrow>
     ((ntstatus \<times> (nat \<times> nat) option) \<times> vmem) option" where
  "allocate_virtual_memory cfg env addr sz type protect limit_low limit_high align attributes st =
     (if is_beyond_limit 0 sz (vm_working_set st) then Some ((STATUS_WORKING_SET_LIMIT_RANGE, None), st)
      else case round_block env addr sz type of
        Inl status \<Rightarrow> Some ((status, None), st)
      | Inr (base, sz, is_dos) \<Rightarrow>
          if type AND (MEM_COMMIT OR MEM_RESERVE OR MEM_RESET) = 0 \<or> type AND MEM_REPLACE_PLACEHOLDER \<noteq> 0 \<and> type AND MEM_RESERVE = 0
          then Some ((STATUS_INVALID_PARAMETER, None), st)
          else if type AND MEM_RESERVE_PLACEHOLDER \<noteq> 0 \<and> protect \<noteq> PAGE_NOACCESS then Some ((STATUS_INVALID_PARAMETER, None), st)
          else if me_ec_view env = None \<and> attributes AND MEM_EXTENDED_PARAMETER_EC_CODE \<noteq> 0
          then Some ((STATUS_INVALID_PARAMETER, None), st)
          else do {
            let reserve = (type AND MEM_RESERVE \<noteq> 0 \<or> base = 0);
            (r, st) \<leftarrow>
              (if reserve then reserve_memory cfg env base sz is_dos type protect limit_low limit_high align st
               else if type AND MEM_RESET \<noteq> 0
               then Some (case find_view base sz (vm_views st) of None \<Rightarrow> Inl STATUS_NOT_MAPPED_VIEW | Some view \<Rightarrow> Inr view, st)
               else commit_memory cfg base sz protect st);
            case r of
              Inl status \<Rightarrow> Some ((status, None), st)
            | Inr view \<Rightarrow> do {
                let base = (if reserve then v_base view else base);
                st \<leftarrow> (case me_ec_view env of
                         Some ec \<Rightarrow> if attributes AND MEM_EXTENDED_PARAMETER_EC_CODE \<noteq> 0
                           then map_option (\<lambda>st. st\<lparr>vm_ecmap := set_arm64ec_range base sz (vm_ecmap st)\<rparr>) (commit_arm64ec_map cfg ec view st)
                           else Some st
                       | None \<Rightarrow> Some st);
                Some ((STATUS_SUCCESS, Some (base, sz)), st)
              }
          })"

text \<open>The highest address for a count of zero bits or a mask.\<close>

definition get_zero_bits_limit :: "nat \<Rightarrow> nat" where
  "get_zero_bits_limit zero_bits =
     (if zero_bits = 0 then 0
      else let shift = (if zero_bits < 32 then 32 + zero_bits
             else let (s, z) = (63, zero_bits);
                      (s, z) = (if z div 2 ^ 32 \<noteq> 0 then (s - 32, z div 2 ^ 32) else (s, z));
                      (s, z) = (if z div 2 ^ 16 \<noteq> 0 then (s - 16, z div 2 ^ 16) else (s, z));
                      (s, z) = (if z div 2 ^ 8 \<noteq> 0 then (s - 8, z div 2 ^ 8) else (s, z));
                      (s, z) = (if z div 2 ^ 4 \<noteq> 0 then (s - 4, z div 2 ^ 4) else (s, z));
                      (s, z) = (if z div 2 ^ 2 \<noteq> 0 then (s - 2, z div 2 ^ 2) else (s, z))
                  in if z div 2 \<noteq> 0 then s - 1 else s)
           in (2 ^ 64 - 1) div 2 ^ shift)"

text \<open>A call for another process is passed on; \<open>remote\<close> is the server's answer.\<close>

definition NtAllocateVirtualMemory ::
  "vcfg \<Rightarrow> map_env \<Rightarrow> (ntstatus \<times> ntstatus \<times> nat \<times> nat) option \<Rightarrow> nat \<Rightarrow> nat \<Rightarrow> nat \<Rightarrow> u32 \<Rightarrow> u32 \<Rightarrow> vmem \<Rightarrow>
     ((ntstatus \<times> (nat \<times> nat) option) \<times> vmem) option" where
  "NtAllocateVirtualMemory cfg env remote addr zero_bits sz type protect st =
     (if sz = 0 then Some ((STATUS_INVALID_PARAMETER, None), st)
      else if 21 < zero_bits \<and> zero_bits < 32 then Some ((STATUS_INVALID_PARAMETER_3, None), st)
      else if 32 < zero_bits \<and> zero_bits < granularity_mask then Some ((STATUS_INVALID_PARAMETER_3, None), st)
      else if type AND NOT (MEM_COMMIT OR MEM_RESERVE OR MEM_TOP_DOWN OR MEM_WRITE_WATCH OR MEM_RESET) \<noteq> 0
      then Some ((STATUS_INVALID_PARAMETER, None), st)
      else case remote of
        Some (status, result, raddr, rsize) \<Rightarrow>
          Some (if status \<noteq> STATUS_SUCCESS then (status, None)
                else (result, if result = STATUS_SUCCESS then Some (raddr, rsize) else None), st)
      | None \<Rightarrow> allocate_virtual_memory cfg env addr sz type protect 0
                  (if addr = 0 then get_zero_bits_limit zero_bits else 0) 0 0 st)"

section \<open>Extended parameters\<close>

datatype ext_param =
    AddressRequirements (ar_low: nat) (ar_high: nat) (ar_align: nat)
  | AttributeFlags (af_flags: u32)
  | ImageMachine (im_machine: u32)
  | Unsupported (us_type: nat)
  | Unknown (uk_type: nat)

text \<open>\<open>MemExtendedParameterType\<close>: address requirements 1, NUMA node 2, partition 3, user handle 4, attributes 5, machine 6.\<close>

definition param_type :: "ext_param \<Rightarrow> nat" where
  "param_type p = (case p of AddressRequirements _ _ _ \<Rightarrow> 1 | AttributeFlags _ \<Rightarrow> 5 | ImageMachine _ \<Rightarrow> 6
     | Unsupported t \<Rightarrow> t | Unknown t \<Rightarrow> t)"

record ext_result =
  er_low :: nat
  er_high :: nat
  er_align :: nat
  er_attributes :: u32
  er_machine :: u32

definition address_requirements :: "nat \<Rightarrow> nat \<Rightarrow> nat \<Rightarrow> nat \<Rightarrow> ext_result \<Rightarrow> ntstatus + ext_result" where
  "address_requirements limit low high align r =
     (if align \<noteq> 0 \<and> ((of_nat align :: u64) AND (of_nat align - 1) \<noteq> 0 \<or> align - 1 < granularity_mask) then Inl STATUS_INVALID_PARAMETER
      else let r = (if align \<noteq> 0 then r\<lparr>er_align := align\<rparr> else r)
           in if low \<noteq> 0 \<and> (limit \<le> low \<or> low mod 0x10000 \<noteq> 0) then Inl STATUS_INVALID_PARAMETER
              else let r = (if low \<noteq> 0 then r\<lparr>er_low := low\<rparr> else r)
                   in if high \<noteq> 0 \<and> (limit < high \<or> high \<le> er_low r \<or> (of_nat high + 1 :: u64) AND of_nat (page_mask - 1) \<noteq> 0)
                      then Inl STATUS_INVALID_PARAMETER
                      else Inr (if high \<noteq> 0 then r\<lparr>er_high := high\<rparr> else r))"

primrec ext_params_loop :: "nat \<Rightarrow> nat set \<Rightarrow> ext_param list \<Rightarrow> ext_result \<Rightarrow> ntstatus + ext_result" where
  "ext_params_loop limit present [] r = Inr r"
| "ext_params_loop limit present (p # ps) r =
     (if 32 \<le> param_type p then Inl STATUS_INVALID_PARAMETER
      else if param_type p \<in> present then Inl STATUS_INVALID_PARAMETER
      else case (case p of
             AddressRequirements low high align \<Rightarrow> address_requirements limit low high align r
           | AttributeFlags flags \<Rightarrow> Inr (r\<lparr>er_attributes := flags\<rparr>)
           | ImageMachine machine \<Rightarrow> Inr (r\<lparr>er_machine := machine\<rparr>)
           | Unsupported t \<Rightarrow> Inr r
           | Unknown t \<Rightarrow> Inl STATUS_INVALID_PARAMETER) of
        Inl status \<Rightarrow> Inl status
      | Inr r \<Rightarrow> ext_params_loop limit (insert (param_type p) present) ps r)"

definition get_extended_params :: "vcfg \<Rightarrow> map_env \<Rightarrow> ext_param list option \<Rightarrow> nat \<Rightarrow> ext_result \<Rightarrow> ntstatus + ext_result" where
  "get_extended_params cfg env parameters count r =
     (case parameters of
        None \<Rightarrow> if count \<noteq> 0 then Inl STATUS_INVALID_PARAMETER else Inr r
      | Some ps \<Rightarrow>
          let limit = (case me_wow_limit env of Some l \<Rightarrow> round_addr l granularity_mask | None \<Rightarrow> vc_user_limit cfg)
          in ext_params_loop limit {} (take count ps) r)"

definition NtAllocateVirtualMemoryEx ::
  "vcfg \<Rightarrow> map_env \<Rightarrow> (ntstatus \<times> ntstatus \<times> nat \<times> nat) option \<Rightarrow> nat \<Rightarrow> nat \<Rightarrow> u32 \<Rightarrow> u32 \<Rightarrow> ext_param list option \<Rightarrow> nat \<Rightarrow>
     vmem \<Rightarrow> ((ntstatus \<times> (nat \<times> nat) option) \<times> vmem) option" where
  "NtAllocateVirtualMemoryEx cfg env remote addr sz type protect parameters count st =
     (case get_extended_params cfg env parameters count \<lparr>er_low = 0, er_high = 0, er_align = 0, er_attributes = 0, er_machine = 0\<rparr> of
        Inl status \<Rightarrow> Some ((status, None), st)
      | Inr r \<Rightarrow>
          if type AND NOT (MEM_COMMIT OR MEM_RESERVE OR MEM_TOP_DOWN OR MEM_WRITE_WATCH OR MEM_RESET OR
                           MEM_RESERVE_PLACEHOLDER OR MEM_REPLACE_PLACEHOLDER) \<noteq> 0
          then Some ((STATUS_INVALID_PARAMETER, None), st)
          else if addr \<noteq> 0 \<and> (er_align r \<noteq> 0 \<or> er_low r \<noteq> 0 \<or> er_high r \<noteq> 0) then Some ((STATUS_INVALID_PARAMETER, None), st)
          else if sz = 0 then Some ((STATUS_INVALID_PARAMETER, None), st)
          else case remote of
            Some (status, result, raddr, rsize) \<Rightarrow>
              Some (if status \<noteq> STATUS_SUCCESS then (status, None)
                    else (result, if result = STATUS_SUCCESS then Some (raddr, rsize) else None), st)
          | None \<Rightarrow> allocate_virtual_memory cfg env addr sz type protect (er_low r) (er_high r) (er_align r) (er_attributes r) st)"

end
