(* ===== verification/Virtual_Create.thy ===== *)
theory Virtual_Create
  imports Virtual_Map
begin

text \<open>
  Creating views keeps the invariant: a block that overlaps no view and that the kernel maps with the right
  protection becomes a view of its own.
\<close>

section \<open>The place of a new view\<close>

lemma split_views:
  assumes "views_ok vs" and "\<forall>w \<in> set vs. \<not> overlaps base sz w" and "0 < sz"
  obtains L R where "vs = L @ R" "\<forall>w \<in> set L. v_base w + v_size w \<le> base" "\<forall>w \<in> set R. base + sz \<le> v_base w"
proof -
  define L R where "L = takeWhile (\<lambda>w. v_base w + v_size w \<le> base) vs" and "R = dropWhile (\<lambda>w. v_base w + v_size w \<le> base) vs"
  have vs: "vs = L @ R" by (simp add: L_def R_def)
  have L: "\<forall>w \<in> set L. v_base w + v_size w \<le> base" by (auto simp: L_def dest: set_takeWhileD)
  have "\<forall>w \<in> set R. base + sz \<le> v_base w"
  proof (cases R)
    case (Cons r R')
    then have "\<not> v_base r + v_size r \<le> base" using hd_dropWhile [of "\<lambda>w. v_base w + v_size w \<le> base" vs] by (simp add: R_def)
    moreover have "\<not> overlaps base sz r" using assms(2) by (simp add: vs Cons)
    ultimately have r: "base + sz \<le> v_base r" by (simp add: overlaps_def)
    have "views_ok (L @ r # R')" using assms(1) by (simp add: vs Cons)
    from views_ok_split(4,7) [OF this] have "\<forall>w \<in> set R'. v_base r \<le> v_base w" by force
    then show ?thesis using r by (auto simp: Cons)
  qed simp
  then show thesis using that vs L by blast
qed

definition new_view_ok :: "vcfg \<Rightarrow> vmem \<Rightarrow> nat \<Rightarrow> nat \<Rightarrow> bool" where
  "new_view_ok cfg st base sz \<longleftrightarrow> 0 < sz \<and> 0x10000 dvd base \<and> 4096 dvd sz \<and> base + sz + 0x20000 \<le> 2 ^ 64 \<and>
     page_of (base + sz) \<le> vc_dirs cfg * block_pages \<and> base + sz \<le> vc_user_limit cfg \<and>
     (\<forall>w \<in> set (views st). \<not> overlaps base sz w)"

text \<open>The state after a view was created in \<open>L @ R\<close>.\<close>

definition view_created :: "vcfg \<Rightarrow> file_view list \<Rightarrow> file_view \<Rightarrow> file_view list \<Rightarrow> vmem \<Rightarrow> vmem \<Rightarrow> bool" where
  "view_created cfg L v R st st' \<longleftrightarrow> views st = L @ R \<and> views st' = L @ v # R \<and> views_ok (L @ v # R) \<and> view_aligned cfg v \<and>
     ranges_track (map span (L @ v # R)) (vm_ranges st') \<and> length (vm_ranges st') \<le> length (vm_ranges st) + 1 \<and>
     vm_reserved st' = vm_reserved st \<and>
     (\<forall>d. vm_tbl st d \<noteq> None \<longrightarrow> vm_tbl st' d \<noteq> None) \<and>
     has_pages (vm_tbl st') (page_of (v_base v)) (page_of (v_base v + v_size v)) \<and>
     (\<forall>p. vbyte (vm_tbl st') p = (if in_view v p then ucast (v_protect v) else vbyte (vm_tbl st) p))"

lemma created_keeps_ok:
  assumes "view_created cfg L v R st st'" and "vm_ok cfg st"
  shows "vm_ok cfg st'"
  unfolding vm_ok_def
proof (intro conjI ballI allI impI)
  have c: "views st = L @ R" "views st' = L @ v # R" "views_ok (L @ v # R)" "view_aligned cfg v"
    "ranges_track (map span (L @ v # R)) (vm_ranges st')" "\<And>d. vm_tbl st d \<noteq> None \<Longrightarrow> vm_tbl st' d \<noteq> None"
    "has_pages (vm_tbl st') (page_of (v_base v)) (page_of (v_base v + v_size v))"
    "\<And>p. vbyte (vm_tbl st') p = (if in_view v p then ucast (v_protect v) else vbyte (vm_tbl st) p)"
    using assms(1) unfolding view_created_def by blast+
  show "views_ok (views st')" "ranges_track (map span (views st')) (vm_ranges st')" unfolding c(2) by (rule c(3,5))+
  {
    fix w assume "w \<in> set (views st')"
    then have "w = v \<or> w \<in> set (views st)" unfolding c(1,2) by (simp only: set_append list.set) blast
    then show "view_aligned cfg w" "has_pages (vm_tbl st') (page_of (v_base w)) (page_of (v_base w + v_size w))"
      using c(4,7) vm_okD(2,4) [OF assms(2)] c(6) unfolding has_pages_def by blast+
  }
  fix p assume p: "\<forall>w \<in> set (views st'). \<not> in_view w p"
  have "v \<in> set (views st')" "set (views st) \<subseteq> set (views st')" unfolding c(1,2) by (simp only: set_append list.set, blast)+
  then show "vbyte (vm_tbl st') p = 0" using p vm_okD(5) [OF assms(2)] c(8) by (metis subsetD)
qed

lemma created_pages:
  assumes "view_created cfg L v R st st'" and "vm_ok cfg st"
  shows "vm_page st' p = (if in_view v p then Some (v_protect v, ucast (v_protect v)) else vm_page st p)"
proof -
  have c: "views st = L @ R" "views st' = L @ v # R" "views_ok (L @ v # R)"
    "\<And>p. vbyte (vm_tbl st') p = (if in_view v p then ucast (v_protect v) else vbyte (vm_tbl st) p)"
    using assms(1) unfolding view_created_def by blast+
  show ?thesis
  proof (cases "in_view v p")
    case True
    then show ?thesis using vm_page_in [of st' v p] c(2,3,4) by simp
  next
    case False
    then have "find (\<lambda>w. in_view w p) (L @ v # R) = find (\<lambda>w. in_view w p) (L @ R)" by (induction L) auto
    then show ?thesis using False c by (auto simp: vm_page_def)
  qed
qed

lemma created_keeps_kernel:
  assumes "view_created cfg L v R st st'" and "kernel_ok cfg st"
    and "\<forall>p. \<not> in_view v p \<longrightarrow> vm_kprot st' p = vm_kprot st p"
    and "\<forall>p. in_view v p \<longrightarrow> vm_kprot st' p = forced_prot (vc_prot cfg) (get_unix_prot (vc_prot cfg) (ucast (v_protect v)))"
  shows "kernel_ok cfg st'"
  unfolding kernel_ok_def kernel_agrees_def
proof (intro ballI impI allI)
  have c: "views st = L @ R" "views st' = L @ v # R" "views_ok (L @ v # R)"
    "\<And>p. vbyte (vm_tbl st') p = (if in_view v p then ucast (v_protect v) else vbyte (vm_tbl st) p)"
    using assms(1) unfolding view_created_def by blast+
  fix w p assume w: "w \<in> set (views st')" "v_protect w AND VPROT_SYSTEM = 0"
    and p: "page_of (v_base w) \<le> p \<and> p < page_of (v_base w + v_size w)"
  then have inw: "in_view w p" by (simp add: in_view_def)
  show "vm_kprot st' p = forced_prot (vc_prot cfg) (get_unix_prot (vc_prot cfg) (vbyte (vm_tbl st') p))"
  proof (cases "in_view v p")
    case True
    then show ?thesis using assms(4) c(4) by simp
  next
    case False
    then have "w \<in> set (views st)" using w(1) inw unfolding c(1,2) by auto
    then have "vm_kprot st p = forced_prot (vc_prot cfg) (get_unix_prot (vc_prot cfg) (vbyte (vm_tbl st) p))"
      using assms(2) w(2) p unfolding kernel_ok_def kernel_agrees_def by blast
    then show ?thesis using assms(3) False c(4) by simp
  qed
qed

section \<open>Creating a view\<close>

lemma alloc_blocks_ok: "fst (alloc_blocks (\<lambda>_. True) i n tbl)"
proof (induction "\<lambda>_ :: nat. True" i n tbl rule: alloc_blocks.induct)
  case (1 i n tbl)
  then show ?case by (subst alloc_blocks.simps) (auto simp flip: fun_upd_def)
qed

lemma alloc_pages_spec:
  assumes "\<forall>i. ok i" and "page_end base sz \<le> dirs * block_pages"
  shows "\<exists>tbl'. alloc_pages_vprot dirs ok base sz tbl = Some (True, tbl') \<and> has_pages tbl' (page_of base) (page_end base sz) \<and>
    (\<forall>d. tbl d \<noteq> None \<longrightarrow> tbl' d \<noteq> None) \<and> (\<forall>p. vbyte tbl' p = vbyte tbl p)"
proof -
  define i n where "i = page_of base div block_pages" and "n = (page_end base sz + (block_pages - 1)) div block_pages"
  define r where "r = alloc_blocks ok i n tbl"
  have "ok = (\<lambda>_. True)" using assms(1) by auto
  then have r: "fst r" by (simp add: r_def alloc_blocks_ok)
  have "snd r (idx div block_pages) \<noteq> None" if "page_of base \<le> idx" "idx < page_end base sz" for idx
  proof -
    have "i \<le> idx div block_pages" unfolding i_def using that(1) by (rule div_le_mono)
    moreover have "idx div block_pages * block_pages \<le> idx" by (rule div_times_less_eq_dividend)
    then have "Suc (idx div block_pages) * block_pages \<le> page_end base sz + (block_pages - 1)" using that(2) by simp
    then have "Suc (idx div block_pages) \<le> n" unfolding n_def by (subst less_eq_div_iff_mult_less_eq) simp_all
    then have "idx div block_pages < n" by simp
    ultimately show ?thesis using alloc_blocks_there r unfolding r_def by blast
  qed
  then have "has_pages (snd r) (page_of base) (page_end base sz)" by (simp add: has_pages_def)
  moreover have "alloc_pages_vprot dirs ok base sz tbl = Some (True, snd r)"
    using assms(2) r by (simp add: alloc_pages_vprot_def i_def n_def r_def prod_eq_iff)
  moreover have "\<forall>d. tbl d \<noteq> None \<longrightarrow> snd r d \<noteq> None"
    using alloc_blocks_keeps unfolding r_def by (metis not_None_eq)
  moreover have "\<forall>p. vbyte (snd r) p = vbyte tbl p" by (simp add: r_def alloc_blocks_vbyte)
  ultimately show ?thesis by blast
qed

lemma no_overlap_found:
  assumes "views_ok (views st)" and "base + sz < 2 ^ 64" and "\<forall>w \<in> set (views st). \<not> overlaps base sz w"
  shows "find_view_range base sz (vm_views st) = None"
  using find_view_range_spec [OF assms(1,2)] assms(3) by (auto split: option.splits)

lemma create_view_spec:
  assumes "calls_work cfg" and "vm_ok cfg st" and "new_view_ok cfg st base sz" and "ranges_room 1 st"
    and "\<forall>p. in_cut base sz p \<longrightarrow> vm_kprot st p = get_unix_prot (vc_prot cfg) (ucast vprot)"
  shows "\<exists>st' L R. create_view cfg base sz vprot st = Some (Inr \<lparr>v_base = base, v_size = sz, v_protect = vprot\<rparr>, st') \<and>
    view_created cfg L \<lparr>v_base = base, v_size = sz, v_protect = vprot\<rparr> R st st' \<and>
    (\<forall>p. vm_kprot st' p = (if in_cut base sz p then forced_prot (vc_prot cfg) (get_unix_prot (vc_prot cfg) (ucast vprot)) else vm_kprot st p))"
proof -
  define v where "v = \<lparr>v_base = base, v_size = sz, v_protect = vprot\<rparr>"
  define up where "up = get_unix_prot (vc_prot cfg) (ucast vprot)"
  have n: "0 < sz" "0x10000 dvd base" "4096 dvd sz" "base + sz + 0x20000 \<le> 2 ^ 64" "page_of (base + sz) \<le> vc_dirs cfg * block_pages"
    "base + sz \<le> vc_user_limit cfg" "\<forall>w \<in> set (views st). \<not> overlaps base sz w"
    using assms(3) unfolding new_view_ok_def by blast+
  have al: "4096 dvd base" using n(2) by (rule dvd_4096)
  have b: "base + sz + 4095 < 2 ^ 64" "base + sz < 2 ^ 64" using n(4) by simp_all
  have pe: "page_end base sz = page_of (base + sz)" using page_end_aligned [OF al n(3) b(1)] .
  note ok = vm_okD [OF assms(2)]
  have works: "rbtree_ok (vc_rb cfg)" "mprotect_works (vc_prot cfg)" "vc_alloc_view cfg" "\<forall>i. vc_block_ok cfg i"
    using assms(1) by (simp_all add: calls_work_def)
  obtain L R where vs: "views st = L @ R" and L: "\<forall>w \<in> set L. v_base w + v_size w \<le> base" and R: "\<forall>w \<in> set R. base + sz \<le> v_base w"
    using split_views [OF ok(1) n(7,1)] by blast
  have big: "0x10000 \<le> v_base w" if "w \<in> set R" for w
  proof -
    have "w \<in> set (views st)" using that vs by simp
    then have "0x10000 dvd v_base w" using ok(2) by (simp add: view_aligned_def)
    moreover have "0 < v_base w" using bspec [OF R that] n(1) by simp
    ultimately show ?thesis by (rule dvd_imp_le)
  qed
  have first: "0x10000 \<le> base" if "L \<noteq> []"
  proof -
    from that obtain w where w: "w \<in> set L" by (cases L) auto
    then have "w \<in> set (views st)" by (simp add: vs)
    then have "0 < v_size w" using views_ok_in(1) [OF ok(1)] by blast
    then have "0 < base" using bspec [OF L w] by simp
    with n(2) show ?thesis by (rule dvd_imp_le)
  qed
  have vv: "views_ok (L @ v # R)"
    unfolding views_ok_mid using ok(1) n(1,4) L R big first by (simp add: vs v_def)
  obtain tbl1 where t1: "alloc_pages_vprot (vc_dirs cfg) (vc_block_ok cfg) base sz (vm_tbl st) = Some (True, tbl1)"
      "has_pages tbl1 (page_of base) (page_of (base + sz))" "\<forall>d. vm_tbl st d \<noteq> None \<longrightarrow> tbl1 d \<noteq> None"
      "\<forall>p. vbyte tbl1 p = vbyte (vm_tbl st) p"
    using alloc_pages_spec [OF works(4), of base sz "vc_dirs cfg" "vm_tbl st"] n(5) unfolding pe by blast
  define st1 where "st1 = st\<lparr>vm_tbl := tbl1\<rparr>"
  obtain tbl2 where t2: "fill_vprot base sz (ucast vprot) st1 = Some (st1\<lparr>vm_tbl := tbl2\<rparr>)"
      "bytes_changed (page_of base) (page_of (base + sz)) (\<lambda>_. ucast vprot) tbl1 tbl2"
    using fill_vprot_spec [OF al n(3) b(1), of st1 "ucast vprot"] t1(2) by (auto simp: st1_def)
  define st2 where "st2 = st1\<lparr>vm_tbl := tbl2\<rparr>"
  have s2: "views st2 = L @ R" "ranges_track (map span (views st2)) (vm_ranges st2)" "ranges_room 1 st2"
    "vm_kprot st2 = vm_kprot st" "vm_tbl st2 = tbl2" "vm_reserved st2 = vm_reserved st"
    using ok(3) vs assms(4) by (simp_all add: st2_def st1_def ranges_room_def)
  obtain fr t where r: "register_view cfg v st2 = Some (st2\<lparr>vm_ranges := fr, vm_views := t\<rparr>)" "inorder t = L @ v # R"
      "ranges_track (map span (L @ v # R)) fr" "length fr \<le> length (vm_ranges st2) + 1"
    using register_part [OF assms(1) s2(1) vv _ s2(2,3)] n(2) by (auto simp: v_def)
  define st3 where "st3 = st2\<lparr>vm_ranges := fr, vm_views := t\<rparr>"
  define st4 where "st4 = (if pc_force_exec (vc_prot cfg) \<and> up AND PROT_READ \<noteq> 0 \<and> up AND PROT_EXEC = 0
    then st3\<lparr>vm_kprot := snd (kernel_mprotect (vc_prot cfg) base sz (up OR PROT_EXEC) (vm_kprot st3))\<rparr> else st3)"
  have del: "delete_overlapping cfg base sz st = Some st"
    by (subst delete_overlapping.simps) (simp add: no_overlap_found [OF ok(1) b(2) n(7)])
  have m: "base mod 4096 = 0" "sz mod 4096 = 0" using al n(3) by (simp_all add: mod_eq_0_iff_dvd)
  have eq: "create_view cfg base sz vprot st = Some (Inr v, st4)"
    unfolding create_view_def using m del t1(1) works(3) t2(1) r(1)
    by (simp add: up_def [symmetric] st1_def [symmetric] st2_def [symmetric] v_def [symmetric] st3_def [symmetric] st4_def Let_def)
  have k: "vm_kprot st4 p = (if in_cut base sz p then forced_prot (vc_prot cfg) up else vm_kprot st p)" for p
  proof -
    have "page_of base + sz div 4096 = page_of (base + sz)" using page_of_add [OF al, of sz] by (simp add: page_of_def)
    then show ?thesis
      using assms(5) works(2) by (auto simp: st4_def st3_def s2(4) kernel_mprotect_def mprotect_works_def forced_prot_def up_def)
  qed
  have s4: "vm_views st4 = t" "vm_ranges st4 = fr" "vm_tbl st4 = tbl2" "vm_reserved st4 = vm_reserved st"
    using s2 by (simp_all add: st4_def st3_def)
  have iv: "in_view v p \<longleftrightarrow> in_cut base sz p" for p by (simp add: in_view_def v_def)
  have "view_created cfg L v R st st4"
    unfolding view_created_def
  proof (intro conjI)
    show "has_pages (vm_tbl st4) (page_of (v_base v)) (page_of (v_base v + v_size v))"
      using t1(2) bytes_changed_pages [OF t2(2)] by (simp add: s4 v_def)
    show "\<forall>d. vm_tbl st d \<noteq> None \<longrightarrow> vm_tbl st4 d \<noteq> None"
      using t1(3) t2(2) unfolding s4 bytes_changed_def by blast
    show "\<forall>p. vbyte (vm_tbl st4) p = (if in_view v p then ucast (v_protect v) else vbyte (vm_tbl st) p)"
      using t1(4) t2(2) unfolding s4 bytes_changed_def iv by (simp add: v_def)
    show "view_aligned cfg v" using n by (simp add: view_aligned_def v_def)
    show "views st = L @ R" "views_ok (L @ v # R)" by fact+
    show "views st4 = L @ v # R" "ranges_track (map span (L @ v # R)) (vm_ranges st4)" "vm_reserved st4 = vm_reserved st"
      "length (vm_ranges st4) \<le> length (vm_ranges st) + 1"
      using r(2-4) s4 by (simp_all add: st2_def st1_def)
  qed
  then show ?thesis using eq k unfolding v_def up_def by blast
qed

section \<open>Mapping at a fixed address\<close>

text \<open>
  A mapping that must not replace another one (\<open>MAP_FIXED_NOREPLACE\<close>) is made exactly when no page of it is in use.
\<close>

definition tryfixed_ok :: "alloc_env \<Rightarrow> bool" where
  "tryfixed_ok env \<longleftrightarrow> (\<forall>m a n. ae_tryfixed env m a n = (if \<exists>p. in_pages a n p \<and> m p then Inl EEXIST else Inr a))"

definition same_book :: "vmem \<Rightarrow> vmem \<Rightarrow> bool" where
  "same_book st st' \<longleftrightarrow> vm_views st' = vm_views st \<and> vm_ranges st' = vm_ranges st \<and> vm_tbl st' = vm_tbl st \<and>
     vm_reserved st' = vm_reserved st \<and> vm_ecmap st' = vm_ecmap st \<and> vm_working_set st' = vm_working_set st"

text \<open>The pages from one address up to another are mapped with a protection, and nothing else changes.\<close>

definition pages_mapped :: "nat \<Rightarrow> nat \<Rightarrow> u32 \<Rightarrow> vmem \<Rightarrow> vmem \<Rightarrow> bool" where
  "pages_mapped a b prot st st' \<longleftrightarrow> same_book st st' \<and>
     (\<forall>p. vm_kprot st' p = (if page_of a \<le> p \<and> p < page_of b then prot else vm_kprot st p)) \<and>
     (\<forall>p. vm_mapped st' p \<longleftrightarrow> page_of a \<le> p \<and> p < page_of b \<or> vm_mapped st p)"

lemma pages_mapped_trans:
  "pages_mapped a b prot st st1 \<Longrightarrow> pages_mapped b c prot st1 st2 \<Longrightarrow> a \<le> b \<Longrightarrow> b \<le> c \<Longrightarrow> pages_mapped a c prot st st2"
  using page_of_mono [of a b] page_of_mono [of b c] by (auto simp: pages_mapped_def same_book_def)

lemma pages_mapped_refl: "pages_mapped a a prot st st"
  by (auto simp: pages_mapped_def same_book_def)

lemma tryfixed_maps:
  assumes "tryfixed_ok env" and "4096 dvd a" and "a < b" and "\<forall>p. page_of a \<le> p \<and> p < page_of b \<longrightarrow> \<not> vm_mapped st p"
  shows "\<exists>st'. anon_mmap_tryfixed cfg env a (b - a) prot st = (Inr a, st') \<and> pages_mapped a b prot st st'"
proof -
  have p: "in_pages a (b - a) p \<longleftrightarrow> page_of a \<le> p \<and> p < page_of b" for p
    using in_pages_iff [OF assms(2), of "b - a" p] assms(3) by simp
  then have "ae_tryfixed env (vm_mapped st) a (b - a) = Inr a" using assms(1,4) by (auto simp: tryfixed_ok_def)
  then show ?thesis by (auto simp: anon_mmap_tryfixed_def pages_mapped_def same_book_def p)
qed

lemma fixed_maps:
  assumes "vc_fixed_ok cfg a (b - a)" and "4096 dvd a" and "a < b"
  shows "\<exists>st'. anon_mmap_fixed cfg a (b - a) prot st = (True, st') \<and> pages_mapped a b prot st st'"
proof -
  have p: "in_pages a (b - a) p \<longleftrightarrow> page_of a \<le> p \<and> p < page_of b" for p
    using in_pages_iff [OF assms(2), of "b - a" p] assms(3) by simp
  then show ?thesis using assms(1) by (auto simp: anon_mmap_fixed_def pages_mapped_def same_book_def)
qed

definition in_areas :: "span list \<Rightarrow> nat \<Rightarrow> bool" where
  "in_areas as p \<longleftrightarrow> (\<exists>a \<in> set as. page_of (fst a) \<le> p \<and> p < page_of (area_end a))"

lemma areas_paged_Cons:
  assumes "areas_paged (a # as)"
  shows "areas_paged as" "4096 dvd fst a" "4096 dvd area_end a" "fst a < area_end a" "in_areas as p \<Longrightarrow> page_of (area_end a) \<le> p"
proof -
  show a: "areas_paged as" "4096 dvd fst a" "fst a < area_end a" "4096 dvd area_end a"
    using assms by (auto simp: areas_paged_def areas_ok_Cons area_end_nat)
  assume "in_areas as p"
  then obtain b where b: "b \<in> set as" "page_of (fst b) \<le> p" by (auto simp: in_areas_def)
  then have "area_end a \<le> fst b" using assms by (auto simp: areas_paged_def areas_ok_Cons area_end_nat)
  then show "page_of (area_end a) \<le> p" using page_of_mono b(2) by (meson le_trans)
qed

lemma map_fixed_loop_spec:
  assumes "tryfixed_ok env" and "\<forall>a n. vc_fixed_ok cfg a n" and "areas_paged as" and "4096 dvd start" and "start < lim"
    and "\<forall>p. page_of start \<le> p \<and> p < page_of lim \<and> vm_mapped st p \<longrightarrow> in_areas as p"
  shows "\<exists>st'. map_fixed_loop cfg env prot as start lim st = (None, st') \<and> pages_mapped start lim prot st st'"
  using assms(3-6)
proof (induction as arbitrary: start st)
  case Nil
  then show ?case using tryfixed_maps [OF assms(1) Nil(2,3), of st cfg prot] by (auto simp: in_areas_def)
next
  case (Cons a as)
  note a = areas_paged_Cons [OF Cons.prems(1)]
  have low: "page_of (fst a) \<le> p" if "in_areas (a # as) p" for p
  proof -
    have "page_of (fst a) \<le> p \<or> in_areas as p" using that by (auto simp: in_areas_def)
    then show ?thesis using a(5) [of p] page_of_mono [of "fst a" "area_end a"] a(4) by (auto intro: le_trans)
  qed
  consider (before) "lim \<le> fst a" | (after) "fst a < lim" "area_end a \<le> start"
    | (meet) "fst a < lim" "start < area_end a" by linarith
  then show ?case
  proof cases
    case before
    then have "\<forall>p. page_of start \<le> p \<and> p < page_of lim \<longrightarrow> \<not> vm_mapped st p"
      using Cons.prems(4) low page_of_mono [OF before] by (meson leD le_trans)
    then show ?thesis using tryfixed_maps [OF assms(1) Cons.prems(2,3), of st cfg prot] before by auto
  next
    case after
    have "\<forall>p. page_of start \<le> p \<and> p < page_of lim \<and> vm_mapped st p \<longrightarrow> in_areas as p"
      using Cons.prems(4) page_of_mono [OF after(2)] by (fastforce simp: in_areas_def)
    from Cons.IH [OF a(1) Cons.prems(2,3) this] show ?thesis using after by simp
  next
    case meet
    define s1 where "s1 = max start (fst a)"
    define stop where "stop = min lim (area_end a)"
    have s1: "4096 dvd s1" "start \<le> s1" "s1 < stop" "stop \<le> lim" using meet a(2,4) Cons.prems(2,3) by (auto simp: s1_def stop_def max_def)
    obtain st1 where st1: "(if start < fst a then anon_mmap_tryfixed cfg env start (fst a - start) prot st else (Inr start, st)) = (Inr start, st1)"
        "pages_mapped start s1 prot st st1"
    proof (cases "start < fst a")
      case True
      have "\<forall>p. page_of start \<le> p \<and> p < page_of (fst a) \<longrightarrow> \<not> vm_mapped st p"
        using Cons.prems(4) low page_of_mono [of "fst a" lim] meet(1) by (meson leD less_imp_le less_le_trans)
      then show thesis using tryfixed_maps [OF assms(1) Cons.prems(2) True, of st cfg prot] that True by (auto simp: s1_def)
    next
      case False
      then show thesis using that [of st] pages_mapped_refl by (simp add: s1_def max_def)
    qed
    obtain st2 where st2: "anon_mmap_fixed cfg s1 (stop - s1) prot st1 = (True, st2)" "pages_mapped s1 stop prot st1 st2"
      using fixed_maps [OF _ s1(1,3), of cfg prot st1] assms(2) by blast
    have m: "pages_mapped start stop prot st st2" using pages_mapped_trans [OF st1(2) st2(2)] s1 by simp
    have step: "map_fixed_loop cfg env prot (a # as) start lim st =
        (if lim \<le> area_end a then (None, st2) else map_fixed_loop cfg env prot as (area_end a) lim st2)"
      using meet st1(1) st2(1) by (auto simp: s1_def stop_def max_def min_def split: if_splits)
    show ?thesis
    proof (cases "lim \<le> area_end a")
      case True
      then show ?thesis using step m by (auto simp: stop_def)
    next
      case False
      then have e: "area_end a < lim" "stop = area_end a" by (auto simp: stop_def)
      have "in_areas as p" if p: "page_of (area_end a) \<le> p \<and> p < page_of lim \<and> vm_mapped st2 p" for p
      proof -
        have "page_of start \<le> page_of (area_end a)" using page_of_mono [of start "area_end a"] s1 e by simp
        then have "vm_mapped st p" "in_areas (a # as) p" using p m Cons.prems(4) by (auto simp: pages_mapped_def e)
        then show ?thesis using p by (auto simp: in_areas_def)
      qed
      then obtain st3 where st3: "map_fixed_loop cfg env prot as (area_end a) lim st2 = (None, st3)"
          "pages_mapped (area_end a) lim prot st2 st3"
        using Cons.IH [OF a(1,3) e(1)] by blast
      have "pages_mapped start lim prot st st3"
        using pages_mapped_trans [OF m [unfolded e(2)] st3(2)] e(1) s1 by (simp add: e(2))
      then show ?thesis using step st3(1) False by simp
    qed
  qed
qed

end
