(* ===== verification/Virtual_Reserve.thy ===== *)
theory Virtual_Reserve
  imports Virtual_Create
begin

text \<open>
  Reserving memory at an address, as an operation on pages, and that releasing it undoes it.
\<close>

section \<open>Flags\<close>

lemma vprot_flags_small: "get_vprot_flags protect img = Inr v \<Longrightarrow> v AND NOT 0x1f = 0"
  by (auto simp: get_vprot_flags_def Let_def split: if_splits)

lemma or_and_zero: "a AND m = 0 \<Longrightarrow> b AND m = 0 \<Longrightarrow> (a OR b) AND m = 0" for a b m :: u32
  by (rule bit_eqI) (auto simp: bit_simps bit_eq_iff)

lemma small_and_zero:
  fixes v m :: u32
  assumes "v AND NOT 0x1f = 0" and "m AND 0x1f = 0"
  shows "v AND m = 0"
proof (rule bit_word_eqI)
  fix n assume "n < LENGTH(32)"
  moreover have "bit (v AND NOT 0x1f) n = False" "bit (m AND 0x1f) n = False" using assms by simp_all
  ultimately show "bit (v AND m) n = bit 0 n" by (auto simp: bit_simps)
qed

lemma type_bits_valloc:
  assumes "get_vprot_flags protect False = Inr vprot"
  shows "is_view_valloc \<lparr>v_base = base, v_size = sz, v_protect = vprot_of_type type protect vprot\<rparr>"
    and "type AND MEM_RESERVE_PLACEHOLDER = 0 \<Longrightarrow> vprot_of_type type protect vprot AND VPROT_SYSTEM = 0"
    and "vprot_of_type type protect vprot AND VPROT_WRITECOPY = vprot AND VPROT_WRITECOPY"
proof -
  note small = vprot_flags_small [OF assms]
  show "is_view_valloc \<lparr>v_base = base, v_size = sz, v_protect = vprot_of_type type protect vprot\<rparr>"
    using small_and_zero [OF small, of "SEC_FILE OR SEC_RESERVE OR SEC_COMMIT"]
    by (simp add: is_view_valloc_def vprot_of_type_def or_and_zero)
  show "type AND MEM_RESERVE_PLACEHOLDER = 0 \<Longrightarrow> vprot_of_type type protect vprot AND VPROT_SYSTEM = 0"
    using small_and_zero [OF small, of VPROT_SYSTEM] by (simp add: vprot_of_type_def or_and_zero)
  have "(v OR b) AND VPROT_WRITECOPY = v AND VPROT_WRITECOPY" if "b AND VPROT_WRITECOPY = 0" for v b :: u32
    using that by (intro bit_eqI) (auto simp: bit_simps bit_eq_iff)
  then show "vprot_of_type type protect vprot AND VPROT_WRITECOPY = vprot AND VPROT_WRITECOPY"
    by (simp add: vprot_of_type_def)
qed

section \<open>Mapping and the view\<close>

lemma same_book_ok:
  "same_book st st1 \<Longrightarrow> vm_ok cfg st1 = vm_ok cfg st"
  "same_book st st1 \<Longrightarrow> new_view_ok cfg st1 base sz = new_view_ok cfg st base sz"
  "same_book st st1 \<Longrightarrow> ranges_room n st1 = ranges_room n st"
  "same_book st st1 \<Longrightarrow> vm_page st1 p = vm_page st p"
  by (simp_all add: same_book_def vm_ok_def new_view_ok_def ranges_room_def vm_page_def)

lemma new_view_apart:
  assumes "new_view_ok cfg st base sz" and "w \<in> set (views st)" and "in_view w p"
  shows "\<not> in_cut base sz p"
proof -
  have "\<not> overlaps base sz w" using assms(1,2) unfolding new_view_ok_def by blast
  then have "base + sz \<le> v_base w \<or> v_base w + v_size w \<le> base" by (auto simp: overlaps_def)
  then have "page_of (base + sz) \<le> page_of (v_base w) \<or> page_of (v_base w + v_size w) \<le> page_of base"
    by (elim disj_forward page_of_mono)
  then show ?thesis using assms(3) unfolding in_view_def by linarith
qed

text \<open>Everything that is mapped belongs to a view or to a reserved area, and calls do what they should.\<close>

definition alloc_ready :: "vcfg \<Rightarrow> map_env \<Rightarrow> vmem \<Rightarrow> bool" where
  "alloc_ready cfg env st \<longleftrightarrow> calls_work cfg \<and> tryfixed_ok (me_alloc env) \<and> vm_ok cfg st \<and> kernel_ok cfg st \<and>
     areas_paged (vm_reserved st) \<and>
     (\<forall>p. vm_mapped st p \<longrightarrow> (\<exists>w \<in> set (views st). in_view w p) \<or> in_areas (vm_reserved st) p)"

lemma map_fixed_spec:
  assumes "alloc_ready cfg env st" and "new_view_ok cfg st base sz"
  shows "\<exists>st1. map_fixed_area cfg (me_alloc env) base sz vprot st = (STATUS_SUCCESS, st1) \<and>
    pages_mapped base (base + sz) (get_unix_prot (vc_prot cfg) (ucast vprot)) st st1"
proof -
  have n: "0 < sz" "0x10000 dvd base" "base + sz < 2 ^ 64" "\<forall>w \<in> set (views st). \<not> overlaps base sz w"
    using assms(2) by (auto simp: new_view_ok_def)
  have r: "calls_work cfg" "tryfixed_ok (me_alloc env)" "vm_ok cfg st" "areas_paged (vm_reserved st)"
    "\<And>p. vm_mapped st p \<Longrightarrow> (\<exists>w \<in> set (views st). in_view w p) \<or> in_areas (vm_reserved st) p"
    using assms(1) unfolding alloc_ready_def by blast+
  have fixed: "\<forall>a n. vc_fixed_ok cfg a n" and less: "base < base + sz" using r(1) n(1) by (simp_all add: calls_work_def)
  have "find_view_range base sz (vm_views st) = None" by (rule no_overlap_found [OF vm_okD(1) [OF r(3)] n(3,4)])
  moreover have "\<forall>p. page_of base \<le> p \<and> p < page_of (base + sz) \<and> vm_mapped st p \<longrightarrow> in_areas (vm_reserved st) p"
    using r(5) new_view_apart [OF assms(2)] by blast
  then obtain st1 where "map_fixed_loop cfg (me_alloc env) (get_unix_prot (vc_prot cfg) (ucast vprot)) (vm_reserved st) base (base + sz) st = (None, st1)"
      "pages_mapped base (base + sz) (get_unix_prot (vc_prot cfg) (ucast vprot)) st st1"
    using map_fixed_loop_spec [OF r(2) fixed r(4) dvd_4096 [OF n(2)] less] by blast
  moreover have "add64 base sz = base + sz" using n(3) by (simp add: add64_def)
  ultimately show ?thesis by (auto simp: map_fixed_area_def)
qed

text \<open>Limits and flags that a reservation at an address must respect.\<close>

definition reserve_ok :: "map_env \<Rightarrow> nat \<Rightarrow> nat \<Rightarrow> u32 \<Rightarrow> vmem \<Rightarrow> bool" where
  "reserve_ok env base sz type st \<longleftrightarrow> 0x10000 \<le> base \<and> base + sz \<le> ae_space_limit (me_alloc env) \<and>
     base + sz \<le> ae_host_limit (me_alloc env) \<and> sz \<le> vm_working_set st \<and> type AND MEM_RESERVE \<noteq> 0 \<and>
     type AND NOT (MEM_COMMIT OR MEM_RESERVE OR MEM_TOP_DOWN OR MEM_WRITE_WATCH OR MEM_RESET) = 0"

lemma map_view_spec:
  assumes "alloc_ready cfg env st" and "new_view_ok cfg st base sz" and "ranges_room 1 st" and "reserve_ok env base sz type st"
    and "type AND MEM_REPLACE_PLACEHOLDER = 0"
  shows "\<exists>st1 st2 L R. map_view cfg env base sz type vprot 0 0 granularity_mask st =
      Some (Inr \<lparr>v_base = base, v_size = sz, v_protect = vprot\<rparr>, st2) \<and>
    pages_mapped base (base + sz) (get_unix_prot (vc_prot cfg) (ucast vprot)) st st1 \<and>
    view_created cfg L \<lparr>v_base = base, v_size = sz, v_protect = vprot\<rparr> R st st2 \<and>
    (\<forall>p. vm_kprot st2 p = (if in_cut base sz p then forced_prot (vc_prot cfg) (get_unix_prot (vc_prot cfg) (ucast vprot)) else vm_kprot st p))"
proof -
  obtain st1 where m: "map_fixed_area cfg (me_alloc env) base sz vprot st = (STATUS_SUCCESS, st1)"
      "pages_mapped base (base + sz) (get_unix_prot (vc_prot cfg) (ucast vprot)) st st1"
    using map_fixed_spec [OF assms(1,2)] by blast
  define st1' where "st1' = (if is_beyond_limit base sz (vm_working_set st1) then st1\<lparr>vm_working_set := ae_space_limit (me_alloc env)\<rparr> else st1)"
  have s1: "vm_views st1' = vm_views st" "vm_ranges st1' = vm_ranges st" "vm_tbl st1' = vm_tbl st" "vm_reserved st1' = vm_reserved st"
    "vm_kprot st1' = vm_kprot st1" using m(2) by (auto simp: st1'_def pages_mapped_def same_book_def)
  have k1: "vm_kprot st1 p = (if in_cut base sz p then get_unix_prot (vc_prot cfg) (ucast vprot) else vm_kprot st p)" for p
    using m(2) by (simp add: pages_mapped_def)
  have ok: "vm_ok cfg st1'" "new_view_ok cfg st1' base sz" "ranges_room 1 st1'" "calls_work cfg"
    using assms(1-3) s1 by (simp_all add: alloc_ready_def vm_ok_def new_view_ok_def ranges_room_def)
  obtain st2 L R where c: "create_view cfg base sz vprot st1' = Some (Inr \<lparr>v_base = base, v_size = sz, v_protect = vprot\<rparr>, st2)"
      "view_created cfg L \<lparr>v_base = base, v_size = sz, v_protect = vprot\<rparr> R st1' st2"
      "\<forall>p. vm_kprot st2 p = (if in_cut base sz p then forced_prot (vc_prot cfg) (get_unix_prot (vc_prot cfg) (ucast vprot)) else vm_kprot st1' p)"
    using create_view_spec [OF ok(4,1,2,3), of vprot] k1 by (auto simp: s1)
  have n: "0 < sz" "base + sz < 2 ^ 64" using assms(2) by (auto simp: new_view_ok_def)
  have l: "\<not> is_beyond_limit base sz (ae_space_limit (me_alloc env))" "\<not> is_beyond_limit base sz (ae_host_limit (me_alloc env))" "base \<noteq> 0"
    using assms(4) n by (auto simp: is_beyond_limit_def add64_def reserve_ok_def)
  have "map_memory cfg env base sz type vprot 0 0 granularity_mask st = Some (Inr base, st1')"
    using l m(1) by (simp add: map_memory_def Let_def st1'_def)
  then have "map_view cfg env base sz type vprot 0 0 granularity_mask st =
      Some (Inr \<lparr>v_base = base, v_size = sz, v_protect = vprot\<rparr>, st2)"
    using c(1) assms(5) by (simp add: map_view_def)
  moreover have "view_created cfg L \<lparr>v_base = base, v_size = sz, v_protect = vprot\<rparr> R st st2"
    using c(2) unfolding view_created_def s1 .
  ultimately show ?thesis using m(2) c(3) k1 unfolding s1 by auto
qed

lemma reserve_spec:
  assumes "alloc_ready cfg env st" and "new_view_ok cfg st base sz" and "ranges_room 1 st" and "reserve_ok env base sz type st"
    and "get_vprot_flags protect False = Inr vprot" and "vprot AND VPROT_WRITECOPY = 0"
  shows "\<exists>st' L R v. v = \<lparr>v_base = base, v_size = sz, v_protect = vprot_of_type type protect vprot\<rparr> \<and>
    NtAllocateVirtualMemory cfg env None base 0 sz type protect st = Some ((STATUS_SUCCESS, Some (base, sz)), st') \<and>
    view_created cfg L v R st st' \<and> kernel_ok cfg st' \<and> (\<forall>p. \<not> in_cut base sz p \<longrightarrow> vm_kprot st' p = vm_kprot st p)"
proof -
  define w where "w = vprot_of_type type protect vprot"
  define v where "v = \<lparr>v_base = base, v_size = sz, v_protect = w\<rparr>"
  have r: "0x10000 \<le> base" "base + sz \<le> ae_space_limit (me_alloc env)" "sz \<le> vm_working_set st" "type AND MEM_RESERVE \<noteq> 0"
    and m: "type AND NOT (MEM_COMMIT OR MEM_RESERVE OR MEM_TOP_DOWN OR MEM_WRITE_WATCH OR MEM_RESET) = 0"
    using assms(4) unfolding reserve_ok_def by blast+
  have n: "0 < sz" "0x10000 dvd base" "4096 dvd sz" "base + sz + 0x20000 \<le> 2 ^ 64"
    using assms(2) unfolding new_view_ok_def by blast+
  have bits: "\<not> bit type 14" "\<not> bit type 18"
  proof -
    have "bit (type AND NOT (MEM_COMMIT OR MEM_RESERVE OR MEM_TOP_DOWN OR MEM_WRITE_WATCH OR MEM_RESET)) 14 = False"
      "bit (type AND NOT (MEM_COMMIT OR MEM_RESERVE OR MEM_TOP_DOWN OR MEM_WRITE_WATCH OR MEM_RESET)) 18 = False"
      unfolding m by simp_all
    then show "\<not> bit type 14" "\<not> bit type 18" by (simp_all add: bit_simps)
  qed
  have t: "type AND MEM_REPLACE_PLACEHOLDER = 0" "type AND MEM_RESERVE_PLACEHOLDER = 0"
    using and_one_bit [of type 14] and_one_bit [of type 18] bits by simp_all
  obtain st2 L R where mv: "map_view cfg env base sz type w 0 0 granularity_mask st = Some (Inr v, st2)"
      "view_created cfg L v R st st2"
      "\<forall>p. vm_kprot st2 p = (if in_cut base sz p then forced_prot (vc_prot cfg) (get_unix_prot (vc_prot cfg) (ucast w)) else vm_kprot st p)"
    using map_view_spec [OF assms(1-4) t(1), of w] unfolding v_def by blast
  have k: "kernel_ok cfg st2"
    by (rule created_keeps_kernel [OF mv(2)]) (use assms(1) mv(3) in \<open>auto simp: alloc_ready_def in_view_def v_def\<close>)
  have res: "reserve_memory cfg env base sz False type protect 0 0 0 st = Some (Inr v, st2)"
    using mv(1) assms(5,6) type_bits_valloc(3) [OF assms(5), of type] by (simp add: reserve_memory_def w_def)
  have blk: "round_block env base sz type = Inr (base, sz, False)"
  proof -
    have "round_addr base granularity_mask = base" using n(2) by (simp add: round_addr_def)
    moreover have "round_addr (add64 (add64 base sz) page_mask) page_mask = base + sz"
    proof -
      have "4096 dvd base + sz" using dvd_4096 [OF n(2)] n(3) by simp
      then have "(base + sz + 4095) div 4096 * 4096 = base + sz" by (auto elim!: dvdE)
      then show ?thesis using n(4) by (simp add: round_addr_def add64_def)
    qed
    moreover have "sub64 (base + sz) base = sz" using n(4) by (simp add: sub64_def)
    moreover have "add64 base sz = base + sz" using n(4) by (simp add: add64_def)
    ultimately show ?thesis using r t(1) n(1,4) by (simp add: round_block_def is_beyond_limit_def Let_def)
  qed
  have tb: "type AND (MEM_COMMIT OR MEM_RESERVE OR MEM_RESET) \<noteq> 0"
  proof
    assume z: "type AND (MEM_COMMIT OR MEM_RESERVE OR MEM_RESET) = 0"
    have "bit (type AND (MEM_COMMIT OR MEM_RESERVE OR MEM_RESET)) 13 = False" unfolding z by simp
    then have "\<not> bit type 13" by (simp add: bit_simps)
    then show False using r(4) and_one_bit [of type 13] by simp
  qed
  have ws: "\<not> is_beyond_limit 0 sz (vm_working_set st)" using r(3) n(1,4) by (simp add: is_beyond_limit_def add64_def)
  have "allocate_virtual_memory cfg env base sz type protect 0 0 0 0 st = Some ((STATUS_SUCCESS, Some (base, sz)), st2)"
    unfolding allocate_virtual_memory_def using ws blk tb t r(1,4) res
    by (simp add: v_def split: option.splits)
  then have "NtAllocateVirtualMemory cfg env None base 0 sz type protect st = Some ((STATUS_SUCCESS, Some (base, sz)), st2)"
    using n(1) m r(1) by (simp add: NtAllocateVirtualMemory_def)
  then show ?thesis using mv(2,3) k unfolding v_def w_def by auto
qed

section \<open>Reserving and releasing\<close>

text \<open>
  C20: Reserving memory at an address: when the block is aligned, within the limits and overlaps no view, the call
  succeeds and returns the block; its pages belong to a new view with the protection that was asked for, all other
  pages are as before, and the invariant and the agreement with the kernel hold again.
\<close>
theorem reserve_adds_pages:
  assumes "alloc_ready cfg env st" and "new_view_ok cfg st base sz" and "ranges_room 1 st" and "reserve_ok env base sz type st"
    and "get_vprot_flags protect False = Inr vprot" and "vprot AND VPROT_WRITECOPY = 0"
  shows "\<exists>st' w. w = vprot_of_type type protect vprot \<and>
    NtAllocateVirtualMemory cfg env None base 0 sz type protect st = Some ((STATUS_SUCCESS, Some (base, sz)), st') \<and>
    vm_ok cfg st' \<and> kernel_ok cfg st' \<and>
    (\<forall>p. vm_page st' p = (if in_cut base sz p then Some (w, ucast w) else vm_page st p))"
proof -
  have ok: "vm_ok cfg st" using assms(1) by (simp add: alloc_ready_def)
  obtain st' L R v where v: "v = \<lparr>v_base = base, v_size = sz, v_protect = vprot_of_type type protect vprot\<rparr>"
      and s: "NtAllocateVirtualMemory cfg env None base 0 sz type protect st = Some ((STATUS_SUCCESS, Some (base, sz)), st')"
        "view_created cfg L v R st st'" "kernel_ok cfg st'"
    using reserve_spec [OF assms] by blast
  then show ?thesis using created_keeps_ok [OF s(2) ok] created_pages [OF s(2) ok] by (auto simp: v in_view_def)
qed

text \<open>
  C18: Releasing what was reserved undoes it: reserve (and commit) a block, then release it by its base; views, free
  ranges and the contents of the page map are those from before.
\<close>
theorem reserve_release_roundtrip:
  assumes "alloc_ready cfg env st" and "new_view_ok cfg st base sz" and "ranges_room 4 st" and "reserve_ok env base sz type st"
    and "get_vprot_flags protect False = Inr vprot" and "vprot AND VPROT_WRITECOPY = 0"
  shows "\<exists>st1 st2. NtAllocateVirtualMemory cfg env None base 0 sz type protect st = Some ((STATUS_SUCCESS, Some (base, sz)), st1) \<and>
    NtFreeVirtualMemory cfg None base 0 MEM_RELEASE st1 = Some ((STATUS_SUCCESS, Some (base, sz)), st2) \<and>
    vm_ok cfg st2 \<and> kernel_ok cfg st2 \<and> views st2 = views st \<and> free_set (vm_ranges st2) = free_set (vm_ranges st) \<and>
    (\<forall>p. vm_page st2 p = vm_page st p)"
proof -
  have ok: "vm_ok cfg st" "calls_work cfg" "areas_paged (vm_reserved st)" using assms(1) by (simp_all add: alloc_ready_def)
  have room: "ranges_room 1 st" using assms(3) by (simp add: ranges_room_def)
  obtain st1 L R v where v: "v = \<lparr>v_base = base, v_size = sz, v_protect = vprot_of_type type protect vprot\<rparr>"
      and s1: "NtAllocateVirtualMemory cfg env None base 0 sz type protect st = Some ((STATUS_SUCCESS, Some (base, sz)), st1)"
        "view_created cfg L v R st st1" "kernel_ok cfg st1"
    using reserve_spec [OF assms(1,2) room assms(4-6)] by blast
  have c: "views st = L @ R" "views st1 = L @ v # R" "vm_reserved st1 = vm_reserved st" "ranges_room 3 st1"
    using s1(2) assms(3) by (auto simp: view_created_def ranges_room_def)
  have ok1: "vm_ok cfg st1" by (rule created_keeps_ok [OF s1(2) ok(1)])
  have n: "0 < sz" "0x10000 dvd base" "4096 dvd sz" "0x10000 \<le> base"
    using assms(2,4) by (auto simp: new_view_ok_def reserve_ok_def)
  have al: "4096 dvd base" using n(2) by (rule dvd_4096)
  have base: "base = round_addr base page_mask" using round_addr_same [OF al] by simp
  have val: "is_view_valloc v" unfolding v by (rule type_bits_valloc(1) [OF assms(5)])
  have cut: "cut_ok v base sz" using n al by (simp add: cut_ok_def v)
  have size: "sz = (if (0 :: nat) = 0 then v_size v else round_size base 0)" by (simp add: v)
  have ar: "areas_paged (vm_reserved st1)" "base \<noteq> 0" using ok(3) c(3) n(4) by simp_all
  obtain st2 where s2: "NtFreeVirtualMemory cfg None base 0 MEM_RELEASE st1 = Some ((STATUS_SUCCESS, Some (base, sz)), st2)"
      "pages_freed cfg L v R base sz st1 st2"
    using release_spec [OF ok(2) ok1 ar(1) c(4,2) val base ar(2) size cut] by blast
  have p: "pages_cut cfg L v R base sz st1 st2" using s2(2) by (simp add: pages_freed_def)
  have vs: "views st2 = views st" using pages_cutD(4) [OF p] by (simp add: c(1) pieces_def v)
  have "kernel_ok cfg st2" using cut_keeps_kernel [OF p s1(3)] s2(2) by (simp add: pages_freed_def)
  moreover have "free_set (vm_ranges st2) = free_set (vm_ranges st)"
    using vm_okD(3) [OF ok(1)] pages_cutD(5) [OF p] unfolding vs by (simp add: ranges_track_def)
  moreover have "vm_page st2 q = vm_page st q" for q
  proof (cases "in_cut base sz q")
    case True
    then have "\<forall>w \<in> set (views st). \<not> in_view w q" using new_view_apart [OF assms(2)] by blast
    then show ?thesis using cut_pages [OF p, of q] True vm_page_out [of st q] by simp
  next
    case False
    then show ?thesis
      using cut_pages [OF p, of q] created_pages [OF s1(2) ok(1), of q] by (auto simp: in_view_def v)
  qed
  ultimately show ?thesis using s1(1) s2(1) cut_keeps_ok [OF p] vs by blast
qed

section \<open>An example\<close>

definition sample_map_env :: map_env where
  "sample_map_env = \<lparr>me_alloc = \<lparr>
       ae_tryfixed = (\<lambda>m a n. if list_ex m [page_of a..<page_of a + page_of n] then Inl EEXIST else Inr a),
       ae_fixed_errno = (\<lambda>_ _. ENOMEM), ae_space_start = 0x10000, ae_space_limit = 0x7fffffff0000, ae_host_limit = 0x7fffffff0000,
       ae_preload = (0, 0), ae_increase_step = True, ae_limit_address_space = None, ae_steam_game = None\<rparr>,
     me_visits = inorder, me_ec_view = None, me_wow_limit = None\<rparr>"

lemma sample_alloc_ready: "alloc_ready sample_vcfg sample_map_env sample_vm"
proof -
  have "tryfixed_ok (me_alloc sample_map_env)"
    by (auto simp: tryfixed_ok_def sample_map_env_def list_ex_iff in_pages_def)
  moreover have "\<exists>w \<in> set (views sample_vm). in_view w p" if "vm_mapped sample_vm p" for p
    using that by (simp add: sample_views in_view_def page_of_def) (simp add: sample_vm_def)
  ultimately show ?thesis
    using sample_works sample_vm_ok sample_kernel_ok sample_rest(1) unfolding alloc_ready_def by blast
qed

lemma sample_new_view: "new_view_ok sample_vcfg sample_vm 0x40000 0x3000"
  by (simp add: new_view_ok_def sample_views overlaps_def page_of_def sample_vcfg_def)

lemma sample_reserve: "reserve_ok sample_map_env 0x40000 0x3000 (MEM_RESERVE OR MEM_COMMIT) sample_vm"
  by (simp add: reserve_ok_def sample_map_env_def) (simp add: sample_vm_def)

lemma sample_room: "ranges_room 4 sample_vm" "ranges_room 1 sample_vm"
  by (simp_all add: ranges_room_def sample_vm_def)

theorem reserve_adds_pages_witness:
  "\<exists>st'. NtAllocateVirtualMemory sample_vcfg sample_map_env None 0x40000 0 0x3000 (MEM_RESERVE OR MEM_COMMIT) PAGE_READONLY sample_vm =
      Some ((STATUS_SUCCESS, Some (0x40000, 0x3000)), st') \<and>
    vm_page st' 0x42 = Some (0x21, 0x21) \<and> vm_page st' 0x43 = None \<and> vm_page st' 0x20 = Some (0x23, 0x23)"
proof -
  have f: "get_vprot_flags PAGE_READONLY False = Inr 1" by (simp add: get_vprot_flags_def)
  have w: "vprot_of_type (MEM_RESERVE OR MEM_COMMIT) PAGE_READONLY 1 = 0x21" by (simp add: vprot_of_type_def)
  from reserve_adds_pages [OF sample_alloc_ready sample_new_view sample_room(2) sample_reserve f]
  obtain st' where s: "NtAllocateVirtualMemory sample_vcfg sample_map_env None 0x40000 0 0x3000 (MEM_RESERVE OR MEM_COMMIT) PAGE_READONLY sample_vm =
      Some ((STATUS_SUCCESS, Some (0x40000, 0x3000)), st')"
      "\<forall>p. vm_page st' p = (if in_cut 0x40000 0x3000 p then Some (0x21, ucast (0x21 :: u32)) else vm_page sample_vm p)"
    unfolding w by auto
  have "vm_page sample_vm 0x43 = None" by (rule vm_page_out) (simp add: sample_views in_view_def page_of_def)
  then have "vm_page st' 0x42 = Some (0x21, 0x21) \<and> vm_page st' 0x43 = None \<and> vm_page st' 0x20 = Some (0x23, 0x23)"
    using s(2) sample_page [of "0x20"] by (simp add: page_of_def)
  then show ?thesis using s(1) by blast
qed

theorem reserve_release_roundtrip_witness:
  "\<exists>st1 st2. NtAllocateVirtualMemory sample_vcfg sample_map_env None 0x40000 0 0x3000 (MEM_RESERVE OR MEM_COMMIT) PAGE_READONLY sample_vm =
      Some ((STATUS_SUCCESS, Some (0x40000, 0x3000)), st1) \<and>
    NtFreeVirtualMemory sample_vcfg None 0x40000 0 MEM_RELEASE st1 = Some ((STATUS_SUCCESS, Some (0x40000, 0x3000)), st2) \<and>
    views st2 = [sample_view]"
proof -
  have f: "get_vprot_flags PAGE_READONLY False = Inr 1" by (simp add: get_vprot_flags_def)
  from reserve_release_roundtrip [OF sample_alloc_ready sample_new_view sample_room(1) sample_reserve f]
  show ?thesis by (auto simp: sample_views)
qed

end
