(* ===== verification/Virtual_Search.thy ===== *)
theory Virtual_Search
  imports Virtual_Reserve
begin

text \<open>
  Where the search for free memory finds a place: inside one free range and the limits, aligned, and outside of the
  area that the preloader holds; so memory of a view is never taken.
\<close>

definition area_ok :: "alloc_area \<Rightarrow> bool" where
  "area_ok area \<longleftrightarrow> 0 < aa_size area \<and> aa_size area < 0x4000000000000000 \<and> aa_align_mask area < 0x4000000000000000 \<and>
     int (aa_align_mask area + 1) dvd aa_step area"

definition area_same :: "alloc_area \<Rightarrow> alloc_area \<Rightarrow> bool" where
  "area_same a a' \<longleftrightarrow> aa_size a' = aa_size a \<and> aa_align_mask a' = aa_align_mask a \<and> aa_step a' = aa_step a \<and>
     aa_top_down a' = aa_top_down a \<and> aa_prot a' = aa_prot a"

definition found_in :: "nat \<Rightarrow> nat \<Rightarrow> alloc_area \<Rightarrow> nat \<times> alloc_area \<times> vmem \<Rightarrow> bool" where
  "found_in base lim area r \<longleftrightarrow> area_same area (fst (snd r)) \<and>
     (fst r \<noteq> 0 \<longrightarrow> base \<le> fst r \<and> fst r + aa_size area \<le> lim \<and> aa_align_mask area + 1 dvd fst r)"

lemma area_same_refl [simp]: "area_same a a"
  by (simp add: area_same_def)

lemma found_none [simp]: "found_in base lim area (0, area, st)"
  by (simp add: found_in_def)

lemma found_widen: "found_in b l area r \<Longrightarrow> base \<le> b \<Longrightarrow> l \<le> lim \<Longrightarrow> found_in base lim area r"
  by (auto simp: found_in_def)

lemma found_same: "found_in b l area' r \<Longrightarrow> area_same area area' \<Longrightarrow> found_in b l area r"
  by (auto simp: found_in_def area_same_def)

lemma area_ok_same: "area_same area area' \<Longrightarrow> area_ok area \<Longrightarrow> area_ok area'"
  by (auto simp: area_same_def area_ok_def)

lemma round_addr_le: "round_addr a m \<le> a"
  unfolding round_addr_def by (rule div_times_less_eq_dividend)

lemma round_addr_aligned: "m + 1 dvd round_addr a m"
  unfolding round_addr_def by (rule dvd_triv_right)

lemma try_map_loop_found:
  assumes "lim < 0x4000000000000000" and "start < 0x8000000000000000" and "aa_size area < 0x4000000000000000"
    and "aa_align_mask area + 1 dvd start" and "int (aa_align_mask area + 1) dvd step"
  shows "found_in base lim area (try_map_loop cfg env base lim abs_step step start area st)"
  using assms
proof (induction cfg env base lim abs_step step start area st rule: try_map_loop.induct)
  case (1 cfg env base lim abs_step step start area st)
  show ?case
  proof (cases "start \<noteq> 0 \<and> base \<le> start \<and> add64 start (aa_size area) \<le> lim")
    case False
    then show ?thesis by (subst try_map_loop.simps) auto
  next
    case go: True
    have sum: "add64 start (aa_size area) = start + aa_size area" using "1.prems"(2,3) by (simp add: add64_def)
    obtain r st1 where r: "anon_mmap_tryfixed cfg env start (aa_size area) (aa_prot area) st = (r, st1)" by fastforce
    show ?thesis
    proof (cases r)
      case (Inr ptr)
      then show ?thesis using go r sum "1.prems"(4) by (subst try_map_loop.simps) (simp add: found_in_def)
    next
      case (Inl err)
      define area1 where "area1 = (if aa_native area = 0 \<and> step \<noteq> 0 \<and> abs_step < 0x20000
        then area\<lparr>aa_native := start, aa_native_size := min abs_step (lim - start)\<rparr> else area)"
      have same: "area_same area area1" by (simp add: area1_def area_same_def)
      define stop where "stop \<longleftrightarrow> step > 0 \<and> int lim - int start < step \<or> step < 0 \<and> int start - int base < - step \<or> step = 0"
      define step1 where "step1 = (if ae_increase_step env \<and> \<bar>step\<bar> < 0x40000000 then step * 2 else step)"
      have eq: "try_map_loop cfg env base lim abs_step step start area st =
          (if err \<noteq> EEXIST then (0, area, st1) else if stop then (0, area1, st1)
           else try_map_loop cfg env base lim abs_step step1 (nat (int start + step)) area1 st1)"
        using go r Inl by (subst try_map_loop.simps) (simp add: area1_def stop_def step1_def Let_def)
      have none: "found_in base lim area (0, area1, st1)" using same by (simp add: found_in_def)
      show ?thesis
      proof (cases "err = EEXIST \<and> \<not> stop")
        case False
        then show ?thesis unfolding eq using none by auto
      next
        case True
        have nxt: "nat (int start + step) < 0x8000000000000000" using True "1.prems"(1,2) by (auto simp: stop_def)
        have "int (aa_align_mask area + 1) dvd int start" using "1.prems"(4) by (simp only: int_dvd_int_iff)
        then have "int (aa_align_mask area + 1) dvd int start + step" using "1.prems"(5) by (rule dvd_add)
        moreover have "0 \<le> int start + step" using True go by (auto simp: stop_def)
        ultimately have dvd: "aa_align_mask area + 1 dvd nat (int start + step)" by (metis int_dvd_int_iff nat_0_le)
        have "found_in base lim area1 (try_map_loop cfg env base lim abs_step step1 (nat (int start + step)) area1 st1)"
          unfolding step1_def
        proof (rule "1.IH" [OF go r [symmetric] Inl _ area1_def])
          show "lim < 0x4000000000000000" by fact
          show "nat (int start + step) < 0x8000000000000000" by fact
        qed (use True nxt dvd "1.prems" same in \<open>auto simp: stop_def area_same_def\<close>)
        then show ?thesis unfolding eq using True found_same same by simp
      qed
    qed
  qed
qed

lemma try_map_range_found:
  assumes "area_ok area" and "lim < 0x4000000000000000" and "base \<le> lim"
  shows "found_in base lim area (try_map_free_area_range cfg env area base lim st)"
proof (cases "aa_top_down area")
  case True
  define s where "s = round_addr (lim - aa_size area) (aa_align_mask area)"
  show ?thesis
  proof (cases "lim - base < aa_size area")
    case True
    then show ?thesis using \<open>aa_top_down area\<close> by (simp add: try_map_free_area_range_def)
  next
    case False
    have al: "aa_align_mask area + 1 dvd s" unfolding s_def by (rule round_addr_aligned)
    have s: "s \<le> lim - aa_size area" unfolding s_def by (rule round_addr_le)
    then have e: "add64 s (aa_size area) = s + aa_size area" "s + aa_size area \<le> lim"
      using assms(1,2) False by (auto simp: add64_def area_ok_def)
    have "found_in base (s + aa_size area) area (try_map_free_area cfg env area base (s + aa_size area) s st)"
      unfolding try_map_free_area_def
      by (rule try_map_loop_found) (use assms(1,2) e s al in \<open>auto simp: area_ok_def\<close>)
    then show ?thesis
      using True False e found_widen by (auto simp: try_map_free_area_range_def s_def [symmetric])
  qed
next
  case False
  define s where "s = round_addr (add64 base (aa_align_mask area)) (aa_align_mask area)"
  have "add64 base (aa_align_mask area) = base + aa_align_mask area" using assms by (simp add: add64_def area_ok_def)
  then have "s < 0x8000000000000000"
    using round_addr_le [of "add64 base (aa_align_mask area)" "aa_align_mask area"] assms by (simp add: s_def area_ok_def)
  moreover have "aa_align_mask area + 1 dvd s" unfolding s_def by (rule round_addr_aligned)
  ultimately have "found_in base lim area (try_map_free_area cfg env area base lim s st)"
    unfolding try_map_free_area_def
    by (intro try_map_loop_found) (use assms(1,2) in \<open>auto simp: area_ok_def\<close>)
  then show ?thesis using False by (simp add: try_map_free_area_range_def s_def)
qed

lemma map_in_reserved_found:
  assumes "\<forall>a n. vc_fixed_ok cfg a n" and "base \<le> s" and "s + aa_size area \<le> lim" and "aa_align_mask area + 1 dvd s"
  shows "found_in base lim area (map_in_reserved cfg area s st)"
  using assms by (auto simp: found_in_def map_in_reserved_def anon_mmap_fixed_def)

lemma in_range_down_found:
  assumes "\<forall>a n. vc_fixed_ok cfg a n" and "area_ok area" and "lim < 0x4000000000000000" and "base < lim"
  shows "found_in base lim area (in_range_down cfg env base lim rs area st)"
  using assms(2-4)
proof (induction rs arbitrary: lim area st)
  case Nil
  then show ?case by (simp add: try_map_range_found)
next
  case (Cons r rs)
  consider (skip) "lim \<le> fst r" | (stop) "fst r < lim" "area_end r \<le> base" | (meet) "fst r < lim" "base < area_end r"
    by linarith
  then show ?case
  proof cases
    case skip
    then show ?thesis using Cons by simp
  next
    case stop
    then show ?thesis using Cons.prems by (simp add: try_map_range_found)
  next
    case meet
    define i_start i_end where "i_start = max (fst r) base" and "i_end = min (area_end r) lim"
    have i: "base \<le> i_start" "i_start < lim" "base < i_end" "i_end \<le> lim" using meet Cons.prems by (auto simp: i_start_def i_end_def)
    obtain p area1 st1 where t: "try_map_free_area_range cfg env area i_end lim st = (p, area1, st1)" by (metis prod_cases3)
    define s where "s = round_addr (i_end - aa_size area1) (aa_align_mask area1)"
    have f: "found_in i_end lim area (p, area1, st1)"
      using try_map_range_found [OF Cons.prems(1,2) i(4), of cfg env st] unfolding t .
    then have same: "area_same area area1" by (simp add: found_in_def)
    have ok1: "area_ok area1" by (rule area_ok_same [OF same Cons.prems(1)])
    have eq: "in_range_down cfg env base lim (r # rs) area st =
        (if p \<noteq> 0 then (p, area1, st1)
         else if aa_size area1 \<le> i_end - i_start \<and> i_start \<le> s then map_in_reserved cfg area1 s st1
         else if i_start - base < aa_size area1 then (0, area1, st1)
         else in_range_down cfg env base i_start rs area1 st1)"
      using meet t by (simp add: i_start_def [symmetric] i_end_def [symmetric] s_def Let_def)
    have s: "s \<le> i_end - aa_size area1" "aa_align_mask area1 + 1 dvd s"
      unfolding s_def by (rule round_addr_le, rule round_addr_aligned)
    have m: "found_in base lim area1 (map_in_reserved cfg area1 s st1)" if "aa_size area1 \<le> i_end - i_start \<and> i_start \<le> s"
      by (rule map_in_reserved_found [OF assms(1)]) (use that s i in auto)
    have n: "found_in base lim area1 (in_range_down cfg env base i_start rs area1 st1)" if "aa_size area1 \<le> i_start - base"
    proof (rule found_widen [OF Cons.IH [OF ok1]])
      show "base < i_start" using that ok1 by (auto simp: area_ok_def)
    qed (use i Cons.prems(2) in auto)
    have f1: "found_in base lim area (p, area1, st1)" by (rule found_widen [OF f]) (use i in auto)
    consider "p \<noteq> 0" | "p = 0" "aa_size area1 \<le> i_end - i_start \<and> i_start \<le> s" | "p = 0" "\<not> (aa_size area1 \<le> i_end - i_start \<and> i_start \<le> s)" by blast
    then show ?thesis
    proof cases
      case 1
      then show ?thesis unfolding eq using f1 by simp
    next
      case 2
      then show ?thesis unfolding eq using found_same [OF m same] by simp
    next
      case 3
      show ?thesis
      proof (cases "i_start - base < aa_size area1")
        case True
        then show ?thesis unfolding eq if_not_P [OF 3(2)] using 3(1) same by (simp add: found_in_def)
      next
        case False
        then show ?thesis unfolding eq if_not_P [OF 3(2)] using 3(1) found_same [OF n same] by (simp add: not_less)
      qed
    qed
  qed
qed

lemma in_range_up_found:
  assumes "\<forall>a n. vc_fixed_ok cfg a n" and "area_ok area" and "lim < 0x4000000000000000" and "base < lim"
  shows "found_in base lim area (in_range_up cfg env base lim rs area st)"
  using assms(2,4)
proof (induction rs arbitrary: base area st)
  case Nil
  then show ?case using assms(3) by (simp add: try_map_range_found)
next
  case (Cons r rs)
  consider (skip) "area_end r \<le> base" | (stop) "base < area_end r" "lim \<le> fst r" | (meet) "fst r < lim" "base < area_end r"
    by linarith
  then show ?case
  proof cases
    case skip
    then show ?thesis using Cons by simp
  next
    case stop
    then show ?thesis using Cons.prems assms(3) by (simp add: try_map_range_found)
  next
    case meet
    define i_start i_end where "i_start = max (fst r) base" and "i_end = min (area_end r) lim"
    have i: "base \<le> i_start" "i_start < lim" "base < i_end" "i_end \<le> lim" using meet Cons.prems by (auto simp: i_start_def i_end_def)
    obtain p area1 st1 where t: "try_map_free_area_range cfg env area base i_start st = (p, area1, st1)" by (metis prod_cases3)
    define s where "s = round_addr (add64 i_start (aa_align_mask area1)) (aa_align_mask area1)"
    have f: "found_in base i_start area (p, area1, st1)"
      using try_map_range_found [OF Cons.prems(1) _ i(1), of cfg env st] i(2) assms(3) unfolding t by simp
    then have same: "area_same area area1" by (simp add: found_in_def)
    have ok1: "area_ok area1" by (rule area_ok_same [OF same Cons.prems(1)])
    have eq: "in_range_up cfg env base lim (r # rs) area st =
        (if p \<noteq> 0 then (p, area1, st1)
         else if aa_size area1 \<le> i_end - i_start \<and> add64 s (aa_size area1) \<le> i_end then map_in_reserved cfg area1 s st1
         else if lim - i_end < aa_size area1 then (0, area1, st1)
         else in_range_up cfg env i_end lim rs area1 st1)"
      using meet t by (simp add: i_start_def [symmetric] i_end_def [symmetric] s_def Let_def)
    have a: "add64 i_start (aa_align_mask area1) = i_start + aa_align_mask area1"
      using ok1 i(2) assms(3) by (simp add: add64_def area_ok_def)
    have s: "s \<le> i_start + aa_align_mask area1" "aa_align_mask area1 + 1 dvd s"
      unfolding s_def a by (rule round_addr_le, rule round_addr_aligned)
    have low: "i_start \<le> s"
    proof -
      have "i_start + aa_align_mask area1 < s + (aa_align_mask area1 + 1)"
        using dividend_less_div_times [of "aa_align_mask area1 + 1" "i_start + aa_align_mask area1"]
        by (simp add: s_def a round_addr_def)
      then show ?thesis by simp
    qed
    have e: "add64 s (aa_size area1) = s + aa_size area1" using s(1) ok1 i(2) assms(3) by (simp add: add64_def area_ok_def)
    have m: "found_in base lim area1 (map_in_reserved cfg area1 s st1)" if "s + aa_size area1 \<le> i_end"
      by (rule map_in_reserved_found [OF assms(1)]) (use that s low i in auto)
    have n: "found_in base lim area1 (in_range_up cfg env i_end lim rs area1 st1)" if "aa_size area1 \<le> lim - i_end"
    proof (rule found_widen [OF Cons.IH [OF ok1]])
      show "i_end < lim" using that ok1 by (auto simp: area_ok_def)
    qed (use i in auto)
    have f1: "found_in base lim area (p, area1, st1)" by (rule found_widen [OF f]) (use i in auto)
    consider "p \<noteq> 0" | "p = 0" "aa_size area1 \<le> i_end - i_start \<and> s + aa_size area1 \<le> i_end" | "p = 0" "\<not> (aa_size area1 \<le> i_end - i_start \<and> s + aa_size area1 \<le> i_end)" by blast
    then show ?thesis
    proof cases
      case 1
      then show ?thesis unfolding eq using f1 by simp
    next
      case 2
      then show ?thesis unfolding eq using found_same [OF m same] e by simp
    next
      case 3
      show ?thesis
      proof (cases "lim - i_end < aa_size area1")
        case True
        then show ?thesis unfolding eq e if_not_P [OF 3(2)] using 3(1) same by (simp add: found_in_def)
      next
        case False
        then show ?thesis unfolding eq e if_not_P [OF 3(2)] using 3(1) found_same [OF n same] by (simp add: not_less)
      qed
    qed
  qed
qed

lemma alloc_in_range_found:
  assumes "\<forall>a n. vc_fixed_ok cfg a n" and "area_ok area" and "lim < 0x4000000000000000"
  shows "found_in base lim area (alloc_free_area_in_range cfg env area base lim st)"
  using in_range_down_found [OF assms] in_range_up_found [OF assms]
  by (simp add: alloc_free_area_in_range_def Let_def)

text \<open>The place is in one of the ranges, within the limits and beside the preloader's area.\<close>

definition found_free :: "alloc_env \<Rightarrow> nat \<Rightarrow> nat \<Rightarrow> range_entry list \<Rightarrow> alloc_area \<Rightarrow> nat \<times> alloc_area \<times> vmem \<Rightarrow> bool" where
  "found_free env low high rs area r \<longleftrightarrow> area_same area (fst (snd r)) \<and>
     (fst r \<noteq> 0 \<longrightarrow> low \<le> fst r \<and> fst r + aa_size area \<le> high \<and> aa_align_mask area + 1 dvd fst r \<and>
        (\<exists>x \<in> set rs. r_base x \<le> fst r \<and> fst r + aa_size area \<le> r_end x) \<and>
        (fst r + aa_size area \<le> fst (ae_preload env) \<or> snd (ae_preload env) \<le> fst r))"

lemma alloc_ranges_found:
  assumes "\<forall>a n. vc_fixed_ok cfg a n" and "area_ok area" and "high < 0x4000000000000000" and "fst (ae_preload env) \<le> snd (ae_preload env)"
  shows "found_free env low high rs area (alloc_ranges cfg env low high rs area st)"
  using assms(2)
proof (induction rs arbitrary: area st)
  case Nil
  then show ?case by (simp add: found_free_def)
next
  case (Cons r rs)
  define s e where "s = fst (ae_preload env)" and "e = snd (ae_preload env)"
  have pre: "ae_preload env = (s, e)" "s \<le> e" using assms(4) by (simp_all add: s_def e_def)
  define base lim where "base = (if r_base r < low then low else r_base r)" and "lim = (if high < r_end r then high else r_end r)"
  define lim1 base1 where "lim1 = (if base \<le> e \<and> lim \<le> e \<and> s < lim then s else lim)" and "base1 = (if base \<le> e \<and> e < lim then e else base)"
  have b: "low \<le> base" "r_base r \<le> base" "lim \<le> high" "lim \<le> r_end r" "lim < 0x4000000000000000"
    using assms(3) by (auto simp: base_def lim_def)
  have step: "found_free env low high (r # rs) area0 x" if "found_in b1 l1 area0 x" "base \<le> b1" "l1 \<le> lim" "l1 \<le> s \<or> e \<le> b1" for area0 b1 l1 x
    using that b unfolding found_free_def found_in_def pre fst_conv snd_conv by (auto intro: order_trans)
  have rest: "found_free env low high (r # rs) area0 x" if "found_free env low high rs area0 x" for area0 x
    using that by (auto simp: found_free_def)
  have same: "found_free env low high rs' area0 x" if "found_free env low high rs' area1 x" "area_same area0 area1" for area0 area1 rs' x
    using that by (auto simp: found_free_def area_same_def)
  obtain p1 area1 st1 where t1: "(if base \<le> e \<and> e < lim \<and> base < s then alloc_free_area_in_range cfg env area base s st else (0, area, st)) = (p1, area1, st1)"
    by (metis prod_cases3)
  have f1: "found_free env low high (r # rs) area (p1, area1, st1)"
  proof (cases "base \<le> e \<and> e < lim \<and> base < s")
    case True
    then have "found_in base s area (p1, area1, st1)"
      using alloc_in_range_found [OF assms(1) Cons.prems, of s base env st] t1 b(5) pre(2) by simp
    then show ?thesis by (rule step) (use True pre(2) in auto)
  next
    case False
    then show ?thesis using t1 by (auto simp: found_free_def)
  qed
  then have same1: "area_same area area1" by (simp add: found_free_def)
  have ok1: "area_ok area1" by (rule area_ok_same [OF same1 Cons.prems])
  obtain p2 area2 st2 where t2: "alloc_free_area_in_range cfg env area1 base1 lim1 st1 = (p2, area2, st2)" by (metis prod_cases3)
  have f2: "found_free env low high (r # rs) area1 (p2, area2, st2)" if "\<not> (base \<le> e \<and> lim \<le> e \<and> s \<le> base)"
  proof (rule step)
    show "found_in base1 lim1 area1 (p2, area2, st2)"
      using alloc_in_range_found [OF assms(1) ok1, of lim1 base1 env st1] t2 b(5) by (simp add: lim1_def)
  qed (use that pre(2) in \<open>auto simp: base1_def lim1_def\<close>)
  then have same2: "area_same area1 area2" if "\<not> (base \<le> e \<and> lim \<le> e \<and> s \<le> base)" using that by (simp add: found_free_def)
  have eq: "alloc_ranges cfg env low high (r # rs) area st =
      (if lim < base \<or> lim - base < aa_size area then alloc_ranges cfg env low high rs area st
       else if base \<le> e \<and> lim \<le> e \<and> s \<le> base then alloc_ranges cfg env low high rs area st
       else if p1 \<noteq> 0 then (p1, area1, st1)
       else if p2 \<noteq> 0 then (p2, area2, st2) else alloc_ranges cfg env low high rs area2 st2)"
    using t1 t2 unfolding alloc_ranges.simps pre Let_def prod.case base_def [symmetric] lim_def [symmetric]
      lim1_def [symmetric] base1_def [symmetric] by simp
  consider (small) "lim < base \<or> lim - base < aa_size area" | (held) "\<not> (lim < base \<or> lim - base < aa_size area)" "base \<le> e \<and> lim \<le> e \<and> s \<le> base"
    | (go) "\<not> (lim < base \<or> lim - base < aa_size area)" "\<not> (base \<le> e \<and> lim \<le> e \<and> s \<le> base)" by blast
  then show ?case
  proof cases
    case small
    then show ?thesis unfolding eq if_P [OF small] by (intro rest Cons.IH Cons.prems)
  next
    case held
    then show ?thesis unfolding eq if_not_P [OF held(1)] if_P [OF held(2)] by (intro rest Cons.IH Cons.prems)
  next
    case go
    note g = f2 [OF go(2)] same2 [OF go(2)]
    have "found_free env low high (r # rs) area2 (alloc_ranges cfg env low high rs area2 st2)"
      by (intro rest Cons.IH area_ok_same [OF g(2) ok1])
    then show ?thesis
      unfolding eq if_not_P [OF go(1)] if_not_P [OF go(2)] using f1 same [OF g(1) same1] same [OF same [OF _ g(2)] same1] by simp
  qed
qed

section \<open>What the search promises\<close>

lemma free_apart:
  assumes "vm_ok cfg st" and "w \<in> set (views st)" and "{p..<p + sz} \<subseteq> free_set (vm_ranges st)" and "0 < sz"
  shows "\<not> overlaps p sz w"
proof
  assume o: "overlaps p sz w"
  define x where "x = max p (v_base w)"
  note ok = vm_okD [OF assms(1)]
  have w: "0 < v_size w" "v_base w + v_size w + 0x20000 \<le> 2 ^ 64" using views_ok_in(1,3) [OF ok(1) assms(2)] .
  have x: "x \<in> {p..<p + sz}" "v_base w \<le> x" "x < v_base w + v_size w" using o w(1) assms(4) by (auto simp: x_def overlaps_def)
  have "x \<in> granules (span w)"
    using x(2,3) granule_base_le(1) [of "v_base w"] granule_end_le(1) [OF w(2)] by (simp add: granules_def span_def)
  then have "x \<notin> free_set (vm_ranges st)" using ok(3) assms(2) by (auto simp: ranges_track_def)
  then show False using x(1) assms(3) by blast
qed

text \<open>
  C19: Where free memory is found: a block that the search returns lies inside one free range, within the limits, at an
  address of the alignment, beside the area that the preloader holds, and overlaps no view, although parts of it
  may be mapped over what was there (in reserved areas).
\<close>
theorem free_area_overlaps_no_view:
  assumes "vm_ok cfg st" and "\<forall>a n. vc_fixed_ok cfg a n" and "fst (ae_preload env) \<le> snd (ae_preload env)"
    and "0 < sz" and "sz < 2 ^ 62" and "align_mask < 2 ^ 62" and "high < 2 ^ 62"
    and "alloc_free_area cfg env low high sz top_down prot align_mask st = Some (p, st')" and "p \<noteq> 0"
  shows "low \<le> p \<and> p + sz \<le> high \<and> align_mask + 1 dvd p \<and> {p..<p + sz} \<subseteq> free_set (vm_ranges st) \<and>
    (p + sz \<le> fst (ae_preload env) \<or> snd (ae_preload env) \<le> p) \<and> (\<forall>w \<in> set (views st). \<not> overlaps p sz w)"
proof -
  define area where "area = \<lparr>aa_size = sz, aa_step = (if top_down then - (int align_mask + 1) else int align_mask + 1),
    aa_prot = prot, aa_top_down = top_down, aa_align_mask = align_mask, aa_native = 0, aa_native_size = 0\<rparr>"
  define rs where "rs = (if top_down then rev (vm_ranges st) else vm_ranges st)"
  have "1 + int align_mask dvd - 1 - int align_mask" using dvd_minus_iff [of "1 + int align_mask" "1 + int align_mask"] by simp
  then have ok: "area_ok area" using assms(4-6) by (auto simp: area_ok_def area_def algebra_simps)
  obtain q area1 st1 where r: "alloc_ranges cfg env low high rs area st = (q, area1, st1)" by (metis prod_cases3)
  have "q = p"
    using assms(8) r unfolding alloc_free_area_def Let_def area_def [symmetric] rs_def [symmetric] by (auto split: if_splits)
  moreover have "found_free env low high rs area (q, area1, st1)"
    using alloc_ranges_found [OF assms(2) ok, of high env low rs st] assms(3,7) r by simp
  ultimately have f: "low \<le> p" "p + sz \<le> high" "align_mask + 1 dvd p"
      "\<exists>x \<in> set rs. r_base x \<le> p \<and> p + sz \<le> r_end x" "p + sz \<le> fst (ae_preload env) \<or> snd (ae_preload env) \<le> p"
    using assms(9) by (simp_all add: found_free_def area_def)
  obtain x where x: "x \<in> set (vm_ranges st)" "r_base x \<le> p" "p + sz \<le> r_end x" using f(4) by (auto simp: rs_def split: if_splits)
  then have "{p..<p + sz} \<subseteq> free_set (vm_ranges st)" by (auto simp: free_set_def intro!: bexI [of _ x])
  then show ?thesis using f free_apart [OF assms(1) _ _ assms(4)] by blast
qed

text \<open>
  C35: Views that the kernel holds on its own account may be in the way of a new view; the loop that deletes them
  ends, for any number of them, and leaves exactly the views that do not overlap, with the invariant intact.
\<close>
theorem overlapping_views_deleted:
  assumes "calls_work cfg" and "vm_ok cfg st" and "areas_paged (vm_reserved st)" and "base + sz < 2 ^ 64"
    and "ranges_room (length (filter (overlaps base sz) (views st))) st"
    and "\<forall>w \<in> set (views st). overlaps base sz w \<longrightarrow> v_protect w AND VPROT_SYSTEM \<noteq> 0"
  shows "\<exists>st'. delete_overlapping cfg base sz st = Some st' \<and> vm_ok cfg st' \<and>
    views st' = filter (\<lambda>w. \<not> overlaps base sz w) (views st)"
  using assms(2,3,5,6)
proof (induction "length (filter (overlaps base sz) (views st))" arbitrary: st)
  case 0
  then have none: "\<forall>w \<in> set (views st). \<not> overlaps base sz w" by (simp add: filter_empty_conv)
  then have "find_view_range base sz (vm_views st) = None" by (rule no_overlap_found [OF vm_okD(1) [OF 0(2)] assms(4)])
  then have "delete_overlapping cfg base sz st = Some st" by (subst delete_overlapping.simps) simp
  moreover have "filter (\<lambda>w. \<not> overlaps base sz w) (views st) = views st" using none by (simp add: filter_id_conv)
  ultimately show ?case using 0(2) by simp
next
  case (Suc n)
  obtain v where v: "find_view_range base sz (vm_views st) = Some v" "v \<in> set (views st)" "overlaps base sz v"
  proof (cases "find_view_range base sz (vm_views st)")
    case None
    then have "\<forall>w \<in> set (views st). \<not> overlaps base sz w"
      using find_view_range_spec [OF vm_okD(1) [OF Suc.prems(1)] assms(4)] by simp
    then show thesis using Suc.hyps(2) by (simp add: filter_False)
  next
    case (Some w)
    then show thesis using find_view_range_spec [OF vm_okD(1) [OF Suc.prems(1)] assms(4)] that by simp
  qed
  obtain L R where vs: "views st = L @ v # R" using split_list [OF v(2)] by blast
  have len: "n = length (filter (overlaps base sz) (L @ R))" using Suc.hyps(2) v(3) by (simp add: vs)
  have room: "ranges_room 1 st" using Suc.prems(3) Suc.hyps(2) by (simp add: ranges_room_def)
  obtain st1 where d: "delete_view cfg v st = Some st1" "pages_freed cfg L v R (v_base v) (v_size v) st st1"
      "length (vm_ranges st1) \<le> length (vm_ranges st) + 1"
    using delete_view_spec [OF assms(1) Suc.prems(1) vs Suc.prems(2) room] by blast
  have p: "pages_cut cfg L v R (v_base v) (v_size v) st st1" "vm_reserved st1 = vm_reserved st"
    using d(2) by (simp_all add: pages_freed_def)
  have vs1: "views st1 = L @ R" using pages_cutD(4) [OF p(1)] by (simp add: pieces_def)
  have "ranges_room (length (filter (overlaps base sz) (views st1))) st1"
    using Suc.prems(3) d(3) Suc.hyps(2) len by (simp add: ranges_room_def vs1)
  moreover have "\<forall>w \<in> set (views st1). overlaps base sz w \<longrightarrow> v_protect w AND VPROT_SYSTEM \<noteq> 0"
    using Suc.prems(4) unfolding vs vs1 by (simp only: set_append list.set) blast
  ultimately obtain st2 where s2: "delete_overlapping cfg base sz st1 = Some st2" "vm_ok cfg st2"
      "views st2 = filter (\<lambda>w. \<not> overlaps base sz w) (views st1)"
    using Suc.hyps(1) [of st1] len cut_keeps_ok [OF p(1)] p(2) Suc.prems(2) by (auto simp: vs1)
  have "v_protect v AND VPROT_SYSTEM \<noteq> 0" using Suc.prems(4) v(2,3) by blast
  then have "delete_overlapping cfg base sz st = Some st2"
    using v(1) d(1) s2(1) by (subst delete_overlapping.simps) simp
  then show ?case using s2(2,3) v(3) by (simp add: vs vs1)
qed

section \<open>Examples\<close>

lemma sample_free_area:
  "alloc_free_area sample_vcfg (me_alloc sample_map_env) 0x10000 0x7fffffff0000 0x3000 False 1 0xffff sample_vm =
   Some (0x30000, snd (anon_mmap_tryfixed sample_vcfg (me_alloc sample_map_env) 0x30000 0x3000 1 sample_vm))"
proof -
  define env where "env = me_alloc sample_map_env"
  define area where "area = \<lparr>aa_size = 0x3000, aa_step = 0x10000, aa_prot = 1, aa_top_down = False,
    aa_align_mask = 0xffff, aa_native = 0, aa_native_size = 0\<rparr>"
  define st1 where "st1 = snd (anon_mmap_tryfixed sample_vcfg env 0x30000 0x3000 1 sample_vm)"
  have t: "anon_mmap_tryfixed sample_vcfg env 0x30000 0x3000 1 sample_vm = (Inr 0x30000, st1)"
    by (simp add: st1_def anon_mmap_tryfixed_def env_def sample_map_env_def page_of_def sample_vm_def list_ex_iff)
  have e: "ae_preload env = (0, 0)" by (simp add: env_def sample_map_env_def)
  have a: "aa_size area = 0x3000" "aa_prot area = 1" "aa_step area = 0x10000" "\<not> aa_top_down area"
      "aa_align_mask area = 0xffff" "aa_native area = 0"
    by (simp_all add: area_def)
  have "try_map_loop sample_vcfg env 0x30000 0x7fffffff0000 0x10000 0x10000 0x30000 area sample_vm = (0x30000, area, st1)"
    by (subst try_map_loop.simps) (simp add: t a add64_def)
  then have range: "alloc_free_area_in_range sample_vcfg env area 0x30000 0x7fffffff0000 sample_vm = (0x30000, area, st1)"
    by (simp add: alloc_free_area_in_range_def try_map_free_area_range_def try_map_free_area_def a add64_def round_addr_def
        sample_vm_def)
  have rs: "vm_ranges sample_vm = [\<lparr>r_base = 0, r_end = 0x10000\<rparr>, \<lparr>r_base = 0x30000, r_end = 0xffffffffffffffff\<rparr>]"
    by (simp add: sample_vm_def)
  have "alloc_ranges sample_vcfg env 0x10000 0x7fffffff0000 (vm_ranges sample_vm) area sample_vm = (0x30000, area, st1)"
    by (simp add: rs e range a)
  then show ?thesis
    unfolding alloc_free_area_def env_def [symmetric] st1_def [symmetric] using a(6) by (simp add: area_def)
qed

theorem free_area_overlaps_no_view_witness:
  "\<exists>st'. alloc_free_area sample_vcfg (me_alloc sample_map_env) 0x10000 0x7fffffff0000 0x3000 False 1 0xffff sample_vm =
      Some (0x30000, st') \<and> filter (overlaps 0x30000 0x3000) (views sample_vm) = []"
proof -
  have f: "\<forall>a n. vc_fixed_ok sample_vcfg a n" by (simp add: sample_vcfg_def)
  have e: "fst (ae_preload (me_alloc sample_map_env)) \<le> snd (ae_preload (me_alloc sample_map_env))" by (simp add: sample_map_env_def)
  from free_area_overlaps_no_view [OF sample_vm_ok f e _ _ _ _ sample_free_area]
  have "\<forall>w \<in> set (views sample_vm). \<not> overlaps 0x30000 0x3000 w" by simp
  then have "filter (overlaps 0x30000 0x3000) (views sample_vm) = []" by (simp add: filter_empty_conv)
  then show ?thesis using sample_free_area by blast
qed

definition system_vm :: vmem where
  "system_vm = set_protect 0x10000 (VPROT_SYSTEM OR VPROT_NATIVE) sample_vm"

theorem overlapping_views_deleted_witness:
  "\<exists>st'. delete_overlapping sample_vcfg 0x20000 0x40000 system_vm = Some st' \<and> views st' = []"
proof -
  have vs: "views system_vm = [\<lparr>v_base = 0x10000, v_size = 0x20000, v_protect = 0x1200\<rparr>]"
    and fr: "vm_ranges system_vm = vm_ranges sample_vm" "vm_tbl system_vm = vm_tbl sample_vm" "vm_reserved system_vm = []"
    by (simp_all add: system_vm_def set_protect_def sample_vm_def sample_view_def)
  have "vm_ok sample_vcfg system_vm"
    using sample_vm_ok unfolding vm_ok_def fr vs
    by (simp add: sample_views views_ok_def span_def view_aligned_def in_view_def)
  moreover have "ranges_room 1 system_vm" using sample_room(2) by (simp add: ranges_room_def fr)
  ultimately have "\<exists>st'. delete_overlapping sample_vcfg 0x20000 0x40000 system_vm = Some st' \<and> vm_ok sample_vcfg st' \<and>
      views st' = filter (\<lambda>w. \<not> overlaps 0x20000 0x40000 w) (views system_vm)"
    by (intro overlapping_views_deleted sample_works) (simp_all add: vs fr overlaps_def areas_paged_def)
  then show ?thesis by (auto simp: vs overlaps_def)
qed

end
