(* ===== verification/Virtual_Place.thy ===== *)
theory Virtual_Place
  imports Virtual_Search
begin

text \<open>
  What the search for free memory does to the memory: when all that is mapped belongs to views or reserved areas, the
  first place that it tries can be mapped, exactly the pages of the block are mapped then, and a search without a result
  changes nothing.
\<close>

definition place_ok :: "alloc_area \<Rightarrow> bool" where
  "place_ok area \<longleftrightarrow> area_ok area \<and> 4096 dvd aa_size area \<and> 4096 dvd aa_align_mask area + 1"

definition placed :: "alloc_area \<Rightarrow> vmem \<Rightarrow> nat \<times> alloc_area \<times> vmem \<Rightarrow> bool" where
  "placed area st r \<longleftrightarrow> fst (snd r) = area \<and>
     (if fst r = 0 then snd (snd r) = st else pages_mapped (fst r) (fst r + aa_size area) (aa_prot area) st (snd (snd r)))"

text \<open>Mapped bytes of a range lie in one of the areas.\<close>

definition mapped_in :: "span list \<Rightarrow> nat \<Rightarrow> nat \<Rightarrow> vmem \<Rightarrow> bool" where
  "mapped_in as b e st \<longleftrightarrow> (\<forall>x. b \<le> x \<and> x < e \<and> vm_mapped st (page_of x) \<longrightarrow> (\<exists>a \<in> set as. fst a \<le> x \<and> x < area_end a))"

lemma placed_none [simp]: "placed area st (0, area, st)"
  by (simp add: placed_def)

lemma mapped_in_mono: "mapped_in as b e st \<Longrightarrow> b \<le> b' \<Longrightarrow> e' \<le> e \<Longrightarrow> mapped_in as b' e' st"
  by (auto simp: mapped_in_def)

lemma mapped_in_drop:
  "mapped_in (a # as) b e st \<Longrightarrow> area_end a \<le> b \<or> e \<le> fst a \<Longrightarrow> mapped_in as b e st"
  unfolding mapped_in_def by (fastforce simp: not_le)

lemma mapped_in_none:
  "mapped_in as b e st \<Longrightarrow> \<forall>a \<in> set as. area_end a \<le> b \<or> e \<le> fst a \<Longrightarrow> mapped_in [] b e st"
  unfolding mapped_in_def by (meson le_trans not_le)

lemma mapped_in_empty [simp]: "e \<le> b \<Longrightarrow> mapped_in as b e st"
  by (auto simp: mapped_in_def)

lemma place_dvd: "place_ok area \<Longrightarrow> aa_align_mask area + 1 dvd s \<Longrightarrow> 4096 dvd s"
  unfolding place_ok_def by (meson dvd_trans)

section \<open>Gaps\<close>

lemma unmapped_pages:
  assumes "mapped_in [] b e st" and "b \<le> s" and "t \<le> e" and "4096 dvd s" and "4096 dvd t" and "page_of s \<le> p" and "p < page_of t"
  shows "\<not> vm_mapped st p"
proof -
  have "s \<le> p * 4096" using assms(6) page_of_aligned [OF assms(4)] by linarith
  moreover have "p * 4096 < t" using assms(7) page_of_aligned [OF assms(5)] by linarith
  moreover have "page_of (p * 4096) = p" by (simp add: page_of_def)
  ultimately show ?thesis using assms(1-3) unfolding mapped_in_def by (metis empty_iff le_trans list.set(1) less_le_trans)
qed

lemma try_map_placed:
  assumes "tryfixed_ok env" and "place_ok area" and "4096 dvd start" and "b \<le> start" and "lim \<le> e"
    and "mapped_in [] b e st" and "start < 0x8000000000000000"
  shows "placed area st (try_map_free_area cfg env area base lim start st)"
proof (cases "start \<noteq> 0 \<and> base \<le> start \<and> add64 start (aa_size area) \<le> lim")
  case False
  then show ?thesis unfolding try_map_free_area_def by (subst try_map_loop.simps) auto
next
  case True
  have a: "0 < aa_size area" "aa_size area < 0x4000000000000000" "4096 dvd aa_size area"
    using assms(2) by (simp_all add: place_ok_def area_ok_def)
  have sum: "add64 start (aa_size area) = start + aa_size area" using a(2) assms(7) by (simp add: add64_def)
  have "4096 dvd start + aa_size area" using assms(3) a(3) by simp
  then have "\<forall>p. page_of start \<le> p \<and> p < page_of (start + aa_size area) \<longrightarrow> \<not> vm_mapped st p"
    using unmapped_pages [OF assms(6,4) _ assms(3)] True sum assms(5) by (metis le_trans)
  then obtain st1 where "anon_mmap_tryfixed cfg env start (aa_size area) (aa_prot area) st = (Inr start, st1)"
      "pages_mapped start (start + aa_size area) (aa_prot area) st st1"
    using tryfixed_maps [OF assms(1,3), of "start + aa_size area" st cfg "aa_prot area"] a(1) by auto
  then show ?thesis using True unfolding try_map_free_area_def by (subst try_map_loop.simps) (simp add: placed_def)
qed

lemma round_up_ge:
  assumes "a + m < 2 ^ 64"
  shows "a \<le> round_addr (add64 a m) m" and "round_addr (add64 a m) m \<le> a + m"
proof -
  have e: "add64 a m = a + m" using assms by (simp add: add64_def)
  show "round_addr (add64 a m) m \<le> a + m" using round_addr_le [of "a + m" m] by (simp add: e)
  have "a + m < round_addr (a + m) m + (m + 1)"
    using dividend_less_div_times [of "m + 1" "a + m"] by (simp add: round_addr_def)
  then show "a \<le> round_addr (add64 a m) m" by (simp add: e)
qed

lemma try_range_placed:
  assumes "tryfixed_ok env" and "place_ok area" and "mapped_in [] base lim st" and "base \<le> lim" and "lim < 0x4000000000000000"
  shows "placed area st (try_map_free_area_range cfg env area base lim st)"
proof -
  have a: "0 < aa_size area" "aa_size area < 0x4000000000000000" "aa_align_mask area < 0x4000000000000000"
    using assms(2) by (simp_all add: place_ok_def area_ok_def)
  have al: "4096 dvd round_addr x (aa_align_mask area)" for x by (rule place_dvd [OF assms(2) round_addr_aligned])
  show ?thesis
  proof (cases "aa_top_down area")
    case False
    have b: "base + aa_align_mask area < 2 ^ 64" using assms(4,5) a(3) by simp
    then have "placed area st (try_map_free_area cfg env area base lim
        (round_addr (add64 base (aa_align_mask area)) (aa_align_mask area)) st)"
      using round_up_ge [OF b] a(3) assms(4,5)
      by (intro try_map_placed [OF assms(1,2) al _ le_refl assms(3)]) auto
    then show ?thesis using False by (simp add: try_map_free_area_range_def)
  next
    case True
    show ?thesis
    proof (cases "lim - base < aa_size area")
      case True
      then show ?thesis using \<open>aa_top_down area\<close> by (simp add: try_map_free_area_range_def)
    next
      case False
      define s where "s = round_addr (lim - aa_size area) (aa_align_mask area)"
      have s: "s \<le> lim - aa_size area" unfolding s_def by (rule round_addr_le)
      then have e: "add64 s (aa_size area) = s + aa_size area" "s + aa_size area \<le> lim" using assms(5) a False by (auto simp: add64_def)
      have "placed area st (try_map_free_area cfg env area base (s + aa_size area) s st)"
      proof (cases "base \<le> s")
        case True
        then show ?thesis
          using e s assms(5) al [of "lim - aa_size area"] by (intro try_map_placed [OF assms(1,2) _ _ _ assms(3)]) (auto simp: s_def)
      next
        case False
        then show ?thesis unfolding try_map_free_area_def by (subst try_map_loop.simps) simp
      qed
      then show ?thesis using True False e by (simp add: try_map_free_area_range_def s_def [symmetric])
    qed
  qed
qed

lemma map_in_reserved_placed:
  assumes "\<forall>a n. vc_fixed_ok cfg a n" and "place_ok area" and "4096 dvd s" and "0 < s"
  shows "placed area st (map_in_reserved cfg area s st)"
proof -
  have a: "0 < aa_size area" "4096 dvd aa_size area" using assms(2) by (simp_all add: place_ok_def area_ok_def)
  obtain st1 where "anon_mmap_fixed cfg s (aa_size area) (aa_prot area) st = (True, st1)"
      "pages_mapped s (s + aa_size area) (aa_prot area) st st1"
    using fixed_maps [of cfg s "s + aa_size area" "aa_prot area" st] assms(1,3) a(1) by auto
  then show ?thesis using assms(4) by (simp add: map_in_reserved_def placed_def)
qed

section \<open>Around reserved areas\<close>

text \<open>A first attempt with a second one if it found nothing.\<close>

lemma placed_cases:
  assumes "placed area st (p, area1, st1)"
  obtains (none) "p = 0" "area1 = area" "st1 = st" | (some) "p \<noteq> 0" "placed area st (p, area1, st1)" "area1 = area"
  using assms by (auto simp: placed_def split: if_splits)

lemma in_range_down_placed:
  assumes "tryfixed_ok env" and "\<forall>a n. vc_fixed_ok cfg a n" and "place_ok area" and "0 < base" and "base < lim"
    and "lim < 0x4000000000000000" and "sorted_wrt (\<lambda>a b. area_end b \<le> fst a) rs" and "\<forall>a \<in> set rs. fst a \<le> area_end a"
    and "mapped_in rs base lim st"
  shows "placed area st (in_range_down cfg env base lim rs area st)"
  using assms(5-9)
proof (induction rs arbitrary: lim)
  case Nil
  then show ?case using try_range_placed [OF assms(1,3) Nil(5)] by simp
next
  case (Cons r rs)
  note tail = Cons.prems(3,4)
  have low: "\<forall>a \<in> set rs. area_end a \<le> fst r" using tail(1) by simp
  have rest: "sorted_wrt (\<lambda>a b. area_end b \<le> fst a) rs" "\<forall>a \<in> set rs. fst a \<le> area_end a" using tail by simp_all
  consider (skip) "lim \<le> fst r" | (stop) "fst r < lim" "area_end r \<le> base" | (meet) "fst r < lim" "base < area_end r"
    by linarith
  then show ?case
  proof cases
    case skip
    have "mapped_in rs base lim st" by (rule mapped_in_drop [OF Cons.prems(5)]) (simp add: skip)
    then show ?thesis using Cons.IH [OF Cons.prems(1,2) rest] skip by simp
  next
    case stop
    have "mapped_in [] base lim st"
      by (rule mapped_in_none [OF Cons.prems(5)]) (use stop low tail(2) in \<open>auto intro: le_trans\<close>)
    then show ?thesis using try_range_placed [OF assms(1,3) _ _ Cons.prems(2)] Cons.prems(1) stop by simp
  next
    case meet
    define i_start i_end where "i_start = max (fst r) base" and "i_end = min (area_end r) lim"
    have i: "base \<le> i_start" "i_start < lim" "i_end \<le> lim" using meet Cons.prems(1) by (auto simp: i_start_def i_end_def)
    have gap: "mapped_in [] i_end lim st"
    proof (cases "area_end r \<le> lim")
      case True
      have e: "i_end = area_end r" using True by (simp add: i_end_def)
      have "mapped_in (r # rs) i_end lim st"
        by (rule mapped_in_mono [OF Cons.prems(5)]) (use meet in \<open>auto simp: e\<close>)
      moreover have "area_end a \<le> i_end" if "a \<in> set (r # rs)" for a
        using that low tail(2) by (auto simp: e intro: le_trans)
      ultimately show ?thesis by (intro mapped_in_none [of "r # rs"]) blast+
    qed (simp add: i_end_def)
    define s where "s = round_addr (i_end - aa_size area) (aa_align_mask area)"
    obtain p area1 st1 where t: "try_map_free_area_range cfg env area i_end lim st = (p, area1, st1)" by (metis prod_cases3)
    have "placed area st (p, area1, st1)" using try_range_placed [OF assms(1,3) gap i(3) Cons.prems(2), of cfg] unfolding t .
    then show ?thesis
    proof (cases rule: placed_cases)
      case some
      then show ?thesis using meet t by (simp add: i_end_def [symmetric] Let_def)
    next
      case none
      have eq: "in_range_down cfg env base lim (r # rs) area st =
        (if aa_size area \<le> i_end - i_start \<and> i_start \<le> s then map_in_reserved cfg area s st
         else if i_start - base < aa_size area then (0, area, st)
         else in_range_down cfg env base i_start rs area st)"
        using meet t none by (simp add: i_start_def [symmetric] i_end_def [symmetric] s_def Let_def)
      have m: "placed area st (map_in_reserved cfg area s st)" if "i_start \<le> s"
      proof (rule map_in_reserved_placed [OF assms(2,3)])
        show "4096 dvd s" unfolding s_def by (rule place_dvd [OF assms(3) round_addr_aligned])
      qed (use that i(1) assms(4) in auto)
      have n: "placed area st (in_range_down cfg env base i_start rs area st)" if "\<not> i_start - base < aa_size area"
      proof (rule Cons.IH [OF _ _ rest])
        have sz: "0 < aa_size area" using assms(3) by (simp add: place_ok_def area_ok_def)
        then show "base < i_start" using that by linarith
        then have f: "i_start = fst r" by (auto simp: i_start_def max_def)
        have "mapped_in (r # rs) base i_start st" by (rule mapped_in_mono [OF Cons.prems(5)]) (use i in auto)
        then show "mapped_in rs base i_start st" by (rule mapped_in_drop) (simp add: f)
      qed (use i Cons.prems(2) in auto)
      show ?thesis unfolding eq using m n by simp
    qed
  qed
qed

lemma in_range_up_placed:
  assumes "tryfixed_ok env" and "\<forall>a n. vc_fixed_ok cfg a n" and "place_ok area" and "0 < base" and "base < lim"
    and "lim < 0x4000000000000000" and "sorted_wrt (\<lambda>a b. area_end a \<le> fst b) rs" and "\<forall>a \<in> set rs. fst a \<le> area_end a"
    and "mapped_in rs base lim st"
  shows "placed area st (in_range_up cfg env base lim rs area st)"
  using assms(4,5,7-9)
proof (induction rs arbitrary: base)
  case Nil
  then show ?case using try_range_placed [OF assms(1,3) Nil(5)] assms(6) by simp
next
  case (Cons r rs)
  note tail = Cons.prems(3,4)
  have high: "\<forall>a \<in> set rs. area_end r \<le> fst a" using tail(1) by simp
  have rest: "sorted_wrt (\<lambda>a b. area_end a \<le> fst b) rs" "\<forall>a \<in> set rs. fst a \<le> area_end a" using tail by simp_all
  consider (skip) "area_end r \<le> base" | (stop) "base < area_end r" "lim \<le> fst r" | (meet) "fst r < lim" "base < area_end r"
    by linarith
  then show ?case
  proof cases
    case skip
    have "mapped_in rs base lim st" by (rule mapped_in_drop [OF Cons.prems(5)]) (simp add: skip)
    then show ?thesis using Cons.IH [OF Cons.prems(1,2) rest] skip by simp
  next
    case stop
    have "mapped_in [] base lim st"
    proof (rule mapped_in_none [OF Cons.prems(5)])
      have "lim \<le> fst a" if "a \<in> set (r # rs)" for a
      proof (cases "a = r")
        case False
        then have "area_end r \<le> fst a" using that high by simp
        moreover have "fst r \<le> area_end r" using tail(2) by simp
        ultimately show ?thesis using stop(2) by linarith
      qed (simp add: stop)
      then show "\<forall>a \<in> set (r # rs). area_end a \<le> base \<or> lim \<le> fst a" by blast
    qed
    then show ?thesis using try_range_placed [OF assms(1,3) _ _ assms(6)] Cons.prems(2) stop by simp
  next
    case meet
    define i_start i_end where "i_start = max (fst r) base" and "i_end = min (area_end r) lim"
    have i: "base \<le> i_start" "i_start < lim" "base < i_end" "i_end \<le> lim" using meet Cons.prems(2) by (auto simp: i_start_def i_end_def)
    have gap: "mapped_in [] base i_start st"
    proof (cases "base \<le> fst r")
      case True
      have e: "i_start = fst r" using True by (simp add: i_start_def)
      have "mapped_in (r # rs) base i_start st" by (rule mapped_in_mono [OF Cons.prems(5)]) (use i in auto)
      moreover have "i_start \<le> fst a" if "a \<in> set (r # rs)" for a
      proof (cases "a = r")
        case False
        then have "area_end r \<le> fst a" using that high by simp
        then show ?thesis using tail(2) by (simp add: e)
      qed (simp add: e)
      ultimately show ?thesis by (intro mapped_in_none [of "r # rs"]) blast+
    qed (simp add: i_start_def)
    define s where "s = round_addr (add64 i_start (aa_align_mask area)) (aa_align_mask area)"
    obtain p area1 st1 where t: "try_map_free_area_range cfg env area base i_start st = (p, area1, st1)" by (metis prod_cases3)
    have "placed area st (p, area1, st1)"
      using try_range_placed [OF assms(1,3) gap i(1), of cfg] i(2) assms(6) unfolding t by simp
    then show ?thesis
    proof (cases rule: placed_cases)
      case some
      then show ?thesis using meet t by (simp add: i_start_def [symmetric] Let_def)
    next
      case none
      have eq: "in_range_up cfg env base lim (r # rs) area st =
        (if aa_size area \<le> i_end - i_start \<and> add64 s (aa_size area) \<le> i_end then map_in_reserved cfg area s st
         else if lim - i_end < aa_size area then (0, area, st)
         else in_range_up cfg env i_end lim rs area st)"
        using meet t none by (simp add: i_start_def [symmetric] i_end_def [symmetric] s_def Let_def)
      have "i_start + aa_align_mask area < 2 ^ 64"
        using i(2) assms(3,6) by (simp add: place_ok_def area_ok_def)
      then have up: "i_start \<le> s" unfolding s_def by (rule round_up_ge(1))
      have m: "placed area st (map_in_reserved cfg area s st)"
      proof (rule map_in_reserved_placed [OF assms(2,3)])
        show "4096 dvd s" unfolding s_def by (rule place_dvd [OF assms(3) round_addr_aligned])
      qed (use up i(1) Cons.prems(1) in auto)
      have n: "placed area st (in_range_up cfg env i_end lim rs area st)" if "\<not> lim - i_end < aa_size area"
      proof (rule Cons.IH [OF _ _ rest])
        have sz: "0 < aa_size area" using assms(3) by (simp add: place_ok_def area_ok_def)
        then show "i_end < lim" using that by linarith
        then have f: "i_end = area_end r" by (auto simp: i_end_def min_def split: if_splits)
        have "mapped_in (r # rs) i_end lim st" by (rule mapped_in_mono [OF Cons.prems(5)]) (use i in auto)
        then show "mapped_in rs i_end lim st" by (rule mapped_in_drop) (simp add: f)
      qed (use i Cons.prems(1) in auto)
      show ?thesis unfolding eq using m n by simp
    qed
  qed
qed

section \<open>The whole search\<close>

lemma area_end_ok: "areas_ok as \<Longrightarrow> a \<in> set as \<Longrightarrow> area_end a = fst a + snd a"
  by (cases a) (auto simp: areas_ok_def area_end_nat)

lemma areas_sorted:
  assumes "areas_ok as"
  shows "sorted_wrt (\<lambda>a b. area_end a \<le> fst b) as" and "\<forall>a \<in> set as. fst a \<le> area_end a"
    and "sorted_wrt (\<lambda>a b. area_end b \<le> fst a) (rev as)"
proof -
  have "sorted_wrt (\<lambda>a a'. fst a + snd a < fst a') as" using assms by (simp add: areas_ok_def)
  then show asc: "sorted_wrt (\<lambda>a b. area_end a \<le> fst b) as"
    by (rule sorted_wrt_mono_rel [rotated]) (use area_end_ok [OF assms] in auto)
  then show "sorted_wrt (\<lambda>a b. area_end b \<le> fst a) (rev as)" by (simp add: sorted_wrt_rev)
  show "\<forall>a \<in> set as. fst a \<le> area_end a" using area_end_ok [OF assms] by simp
qed

lemma alloc_in_range_placed:
  assumes "tryfixed_ok env" and "\<forall>a n. vc_fixed_ok cfg a n" and "place_ok area" and "0 < base"
    and "lim < 0x4000000000000000" and "areas_ok (vm_reserved st)" and "mapped_in (vm_reserved st) base lim st"
  shows "placed area st (alloc_free_area_in_range cfg env area base lim st)"
proof (cases "base < lim")
  case True
  note so = areas_sorted [OF assms(6)]
  have "mapped_in (rev (vm_reserved st)) base lim st" using assms(7) by (simp add: mapped_in_def)
  then have d: "placed area st (in_range_down cfg env base lim (rev (vm_reserved st)) area st)"
    using so by (intro in_range_down_placed [OF assms(1-4) True assms(5)]) simp_all
  have u: "placed area st (in_range_up cfg env base lim (vm_reserved st) area st)"
    by (rule in_range_up_placed [OF assms(1-4) True assms(5) so(1,2) assms(7)])
  from d u show ?thesis by (simp add: alloc_free_area_in_range_def Let_def)
qed (simp add: alloc_free_area_in_range_def)

lemma alloc_ranges_placed:
  assumes "tryfixed_ok env" and "\<forall>a n. vc_fixed_ok cfg a n" and "place_ok area" and "0 < low" and "high < 0x4000000000000000"
    and "areas_ok (vm_reserved st)" and "fst (ae_preload env) \<le> snd (ae_preload env)"
    and "\<forall>r \<in> set rs. mapped_in (vm_reserved st) (r_base r) (r_end r) st"
  shows "placed area st (alloc_ranges cfg env low high rs area st)"
  using assms(8)
proof (induction rs)
  case Nil
  then show ?case by simp
next
  case (Cons r rs)
  define s e where "s = fst (ae_preload env)" and "e = snd (ae_preload env)"
  have pre: "ae_preload env = (s, e)" by (simp add: s_def e_def)
  define base lim where "base = (if r_base r < low then low else r_base r)" and "lim = (if high < r_end r then high else r_end r)"
  define lim1 where "lim1 = (if base \<le> e \<and> lim \<le> e \<and> s < lim then s else lim)"
  define base1 where "base1 = (if base \<le> e \<and> e < lim then e else base)"
  have b: "0 < base" "r_base r \<le> base" "lim \<le> r_end r" "lim < 0x4000000000000000" "0 < base1" "base \<le> base1" "lim1 \<le> lim"
    using assms(4,5) by (auto simp: base_def lim_def base1_def lim1_def)
  have m: "mapped_in (vm_reserved st) b' l' st" if "base \<le> b'" "l' \<le> lim" for b' l'
    by (rule mapped_in_mono [of _ "r_base r" "r_end r"]) (use Cons.prems that b in auto)
  obtain p1 area1 st1 where t1: "(if base \<le> e \<and> e < lim \<and> base < s then alloc_free_area_in_range cfg env area base s st
      else (0, area, st)) = (p1, area1, st1)" by (metis prod_cases3)
  have "placed area st (if base \<le> e \<and> e < lim \<and> base < s then alloc_free_area_in_range cfg env area base s st else (0, area, st))"
  proof (cases "base \<le> e \<and> e < lim \<and> base < s")
    case True
    then have "s \<le> lim" using assms(7) by (simp add: s_def e_def)
    then show ?thesis using True alloc_in_range_placed [OF assms(1-3) b(1) _ assms(6) m [of base s]] b(4) by simp
  qed auto
  then have p1: "placed area st (p1, area1, st1)" unfolding t1 .
  have p2: "placed area st (alloc_free_area_in_range cfg env area base1 lim1 st)"
    by (rule alloc_in_range_placed [OF assms(1-3) b(5) _ assms(6) m]) (use b in auto)
  obtain q area2 st2 where t2: "alloc_free_area_in_range cfg env area base1 lim1 st = (q, area2, st2)" by (metis prod_cases3)
  have ih: "placed area st (alloc_ranges cfg env low high rs area st)" by (rule Cons.IH) (use Cons.prems in simp)
  have eq: "alloc_ranges cfg env low high (r # rs) area st =
      (if lim < base \<or> lim - base < aa_size area then alloc_ranges cfg env low high rs area st
       else if base \<le> e \<and> lim \<le> e \<and> s \<le> base then alloc_ranges cfg env low high rs area st
       else if p1 \<noteq> 0 then (p1, area1, st1)
       else let (q, area2, st2) = alloc_free_area_in_range cfg env area1 base1 lim1 st1
            in if q \<noteq> 0 then (q, area2, st2) else alloc_ranges cfg env low high rs area2 st2)"
    using t1 unfolding alloc_ranges.simps pre Let_def prod.case base_def [symmetric] lim_def [symmetric]
      lim1_def [symmetric] base1_def [symmetric] by simp
  from p1 show ?case
  proof (cases rule: placed_cases)
    case some
    then show ?thesis unfolding eq using ih by simp
  next
    case none
    have eq2: "alloc_ranges cfg env low high (r # rs) area st =
        (if lim < base \<or> lim - base < aa_size area then alloc_ranges cfg env low high rs area st
         else if base \<le> e \<and> lim \<le> e \<and> s \<le> base then alloc_ranges cfg env low high rs area st
         else if q \<noteq> 0 then (q, area2, st2) else alloc_ranges cfg env low high rs area2 st2)"
      unfolding eq none by (simp add: t2)
    from p2 [unfolded t2] show ?thesis unfolding eq2 by (cases rule: placed_cases) (simp_all add: ih)
  qed
qed

text \<open>Free ranges contain no byte of a view, so what is mapped there lies in reserved areas.\<close>

lemma free_not_view:
  assumes "vm_ok cfg st" and "w \<in> set (views st)" and "x \<in> free_set (vm_ranges st)"
  shows "\<not> in_view w (page_of x)"
proof
  assume v: "in_view w (page_of x)"
  note ok = vm_okD(1,2) [OF assms(1)]
  have w: "v_base w + v_size w + 0x20000 \<le> 2 ^ 64" using views_ok_in(3) [OF ok(1) assms(2)] .
  have d: "4096 dvd v_base w" "4096 dvd v_base w + v_size w"
    using ok(2) [OF assms(2)] dvd_4096 by (auto simp: view_aligned_def intro: dvd_add)
  have x: "page_of x * 4096 \<le> x" "x < (page_of x + 1) * 4096" by (simp_all add: page_of_def)
  have "v_base w \<le> x" using v page_of_aligned [OF d(1)] x(1) by (simp add: in_view_def)
  moreover have "x < v_base w + v_size w"
  proof -
    have "page_of x + 1 \<le> page_of (v_base w + v_size w)" using v by (simp add: in_view_def)
    then have "(page_of x + 1) * 4096 \<le> page_of (v_base w + v_size w) * 4096" by (rule mult_le_mono1)
    then show ?thesis using x(2) page_of_aligned [OF d(2)] by simp
  qed
  ultimately have "x \<in> granules (span w)"
    using granule_base_le(1) [of "v_base w"] granule_end_le(1) [OF w] by (simp add: granules_def span_def)
  then show False using assms(2,3) vm_okD(3) [OF assms(1)] by (auto simp: ranges_track_def)
qed

text \<open>All that is mapped belongs to a view or lies in a reserved area.\<close>

definition mapped_known :: "vmem \<Rightarrow> bool" where
  "mapped_known st \<longleftrightarrow> (\<forall>p. vm_mapped st p \<longrightarrow> (\<exists>w \<in> set (views st). in_view w p) \<or> in_areas (vm_reserved st) p)"

lemma in_areas_byte:
  assumes "areas_paged as" and "in_areas as (page_of x)"
  shows "\<exists>a \<in> set as. fst a \<le> x \<and> x < area_end a"
proof -
  obtain a where a: "a \<in> set as" "page_of (fst a) \<le> page_of x" "page_of x < page_of (area_end a)"
    using assms(2) by (auto simp: in_areas_def)
  have "4096 dvd fst a" "4096 dvd area_end a"
    using assms(1) a(1) area_end_ok [of as a] by (auto simp: areas_paged_def)
  then have "fst a = page_of (fst a) * 4096" "area_end a = page_of (area_end a) * 4096" by (simp_all add: page_of_aligned)
  moreover have "page_of x * 4096 \<le> x" "x < (page_of x + 1) * 4096" by (simp_all add: page_of_def)
  moreover have "page_of (fst a) * 4096 \<le> page_of x * 4096" "(page_of x + 1) * 4096 \<le> page_of (area_end a) * 4096"
    using a(2,3) by simp_all
  ultimately show ?thesis using a(1) by (metis le_trans less_le_trans)
qed

lemma free_mapped_in:
  assumes "vm_ok cfg st" and "areas_paged (vm_reserved st)" and "mapped_known st" and "r \<in> set (vm_ranges st)"
  shows "mapped_in (vm_reserved st) (r_base r) (r_end r) st"
  unfolding mapped_in_def
proof (intro allI impI)
  fix x assume x: "r_base r \<le> x \<and> x < r_end r \<and> vm_mapped st (page_of x)"
  then have "x \<in> free_set (vm_ranges st)" using assms(4) by (auto simp: free_set_def)
  then have "in_areas (vm_reserved st) (page_of x)"
    using free_not_view [OF assms(1)] assms(3) x unfolding mapped_known_def by blast
  then show "\<exists>a \<in> set (vm_reserved st). fst a \<le> x \<and> x < area_end a" by (rule in_areas_byte [OF assms(2)])
qed

text \<open>
  A block of whole pages at a multiple of 64 KiB: the search finds no room and changes nothing, or it maps the pages
  of a block that is free.
\<close>

lemma alloc_free_area_spec:
  assumes "tryfixed_ok env" and "\<forall>a n. vc_fixed_ok cfg a n" and "fst (ae_preload env) \<le> snd (ae_preload env)"
    and "vm_ok cfg st" and "areas_paged (vm_reserved st)" and "mapped_known st"
    and "0 < sz" and "sz < 2 ^ 62" and "4096 dvd sz" and "0 < low" and "high < 2 ^ 62"
  obtains (none) "alloc_free_area cfg env low high sz top_down prot granularity_mask st = Some (0, st)"
  | (found) p st' where "alloc_free_area cfg env low high sz top_down prot granularity_mask st = Some (p, st')" "p \<noteq> 0"
      "pages_mapped p (p + sz) prot st st'" "low \<le> p" "p + sz \<le> high" "0x10000 dvd p"
      "\<forall>w \<in> set (views st). \<not> overlaps p sz w"
proof -
  define area where "area = \<lparr>aa_size = sz, aa_step = (if top_down then - (int granularity_mask + 1) else int granularity_mask + 1),
    aa_prot = prot, aa_top_down = top_down, aa_align_mask = granularity_mask, aa_native = 0, aa_native_size = 0\<rparr>"
  define rs where "rs = (if top_down then rev (vm_ranges st) else vm_ranges st)"
  have ok: "place_ok area" using assms(7-9) by (simp add: place_ok_def area_ok_def area_def)
  then have aok: "area_ok area" by (simp add: place_ok_def)
  have rset: "set rs = set (vm_ranges st)" by (simp add: rs_def)
  have areas: "areas_ok (vm_reserved st)" using assms(5) by (simp add: areas_paged_def)
  obtain p area1 st1 where r: "alloc_ranges cfg env low high rs area st = (p, area1, st1)" by (metis prod_cases3)
  have high: "high < 0x4000000000000000" using assms(11) by simp
  have pl: "placed area st (p, area1, st1)"
    using alloc_ranges_placed [OF assms(1,2) ok assms(10) high areas assms(3), of rs]
      free_mapped_in [OF assms(4-6)] unfolding rset r by blast
  have fo: "found_free env low high rs area (p, area1, st1)"
    using alloc_ranges_found [OF assms(2) aok high assms(3), of low rs st] unfolding r .
  have "aa_native area1 = 0" using pl by (simp add: placed_def area_def)
  then have res: "alloc_free_area cfg env low high sz top_down prot granularity_mask st = Some (p, st1)"
    using r unfolding alloc_free_area_def Let_def area_def [symmetric] rs_def [symmetric] by (simp add: area_def)
  show thesis
  proof (cases "p = 0")
    case True
    then show thesis using res pl none by (simp add: placed_def)
  next
    case False
    have f: "low \<le> p" "p + sz \<le> high" "0x10000 dvd p" "\<exists>x \<in> set rs. r_base x \<le> p \<and> p + sz \<le> r_end x"
      using fo False by (simp_all add: found_free_def area_def)
    obtain x where "x \<in> set (vm_ranges st)" "r_base x \<le> p" "p + sz \<le> r_end x" using f(4) unfolding rset by blast
    then have "{p..<p + sz} \<subseteq> free_set (vm_ranges st)" by (auto simp: free_set_def intro!: bexI [of _ x])
    then have "\<forall>w \<in> set (views st). \<not> overlaps p sz w" using free_apart [OF assms(4) _ _ assms(7)] by blast
    then show thesis using found [OF res False _ f(1-3)] pl False by (simp add: placed_def area_def)
  qed
qed

end
