(* ===== verification/Virtual_Machine.thy ===== *)
theory Virtual_Machine
  imports Virtual_Place
begin

text \<open>
  The memory of a process under any sequence of the memory calls: no call runs into a failed assertion, and the
  invariant of views, free ranges, protection bytes and kernel protections always holds.
\<close>

section \<open>The invariant\<close>

text \<open>Views of memory that was allocated: no file, section, placeholder or system memory.\<close>

definition plain_view :: "file_view \<Rightarrow> bool" where
  "plain_view v \<longleftrightarrow> v_protect v AND (SEC_FILE OR SEC_RESERVE OR SEC_COMMIT OR SEC_IMAGE OR VPROT_SYSTEM OR
     VPROT_PLACEHOLDER OR VPROT_FREE_PLACEHOLDER OR VPROT_NATIVE) = 0"

definition proc_ok :: "vcfg \<Rightarrow> vmem \<Rightarrow> bool" where
  "proc_ok cfg st \<longleftrightarrow> vm_ok cfg st \<and> kernel_ok cfg st \<and> areas_paged (vm_reserved st) \<and> mapped_known st \<and>
     (\<forall>v \<in> set (views st). plain_view v) \<and> vm_working_set st < 2 ^ 61"

text \<open>What the calls rely on: calls of the kernel succeed, and the limits of the address space.\<close>

definition env_ready :: "vcfg \<Rightarrow> map_env \<Rightarrow> bool" where
  "env_ready cfg env \<longleftrightarrow> calls_work cfg \<and> tryfixed_ok (me_alloc env) \<and>
     fst (ae_preload (me_alloc env)) \<le> snd (ae_preload (me_alloc env)) \<and> 0 < ae_space_start (me_alloc env) \<and>
     ae_space_limit (me_alloc env) \<le> vc_user_limit cfg \<and> vc_user_limit cfg < 2 ^ 61 \<and>
     page_of (vc_user_limit cfg) \<le> vc_dirs cfg * block_pages \<and> (\<forall>t. set (me_visits env t) = set (inorder t))"

lemma and_zero_part:
  assumes "x AND m = 0" and "m AND k = k"
  shows "x AND k = (0 :: u32)"
proof -
  have "x AND k = (x AND m) AND k" using assms(2) by (metis and.assoc)
  then show ?thesis using assms(1) by simp
qed

lemma plain_viewD:
  assumes "plain_view v"
  shows "is_view_valloc v" "v_protect v AND SEC_FILE = 0" "v_protect v AND SEC_RESERVE = 0" "v_protect v AND SEC_IMAGE = 0"
    "v_protect v AND VPROT_SYSTEM = 0" "v_protect v AND VPROT_PLACEHOLDER = 0" "v_protect v AND VPROT_FREE_PLACEHOLDER = 0"
    "v_protect v AND VPROT_NATIVE = 0"
proof -
  note p = and_zero_part [OF assms [unfolded plain_view_def]]
  show "v_protect v AND SEC_FILE = 0" "v_protect v AND SEC_RESERVE = 0" "v_protect v AND SEC_IMAGE = 0"
    "v_protect v AND VPROT_SYSTEM = 0" "v_protect v AND VPROT_PLACEHOLDER = 0" "v_protect v AND VPROT_FREE_PLACEHOLDER = 0"
    "v_protect v AND VPROT_NATIVE = 0" by (rule p, simp)+
  show "is_view_valloc v" unfolding is_view_valloc_def by (rule p, simp)
qed

lemma plain_same: "v_protect w = v_protect v \<Longrightarrow> plain_view v \<Longrightarrow> plain_view w"
  by (simp add: plain_view_def)

lemma plain_allocated:
  assumes "get_vprot_flags protect False = Inr vprot" and "type AND MEM_RESERVE_PLACEHOLDER = 0"
  shows "plain_view \<lparr>v_base = base, v_size = sz, v_protect = vprot_of_type type protect vprot\<rparr>"
  using small_and_zero [OF vprot_flags_small [OF assms(1)], of "SEC_FILE OR SEC_RESERVE OR SEC_COMMIT OR SEC_IMAGE OR VPROT_SYSTEM OR
     VPROT_PLACEHOLDER OR VPROT_FREE_PLACEHOLDER OR VPROT_NATIVE"] assms(2)
  by (simp add: plain_view_def vprot_of_type_def or_and_zero)

lemma proc_okD:
  assumes "proc_ok cfg st"
  shows "vm_ok cfg st" "kernel_ok cfg st" "areas_paged (vm_reserved st)" "mapped_known st"
    "v \<in> set (views st) \<Longrightarrow> plain_view v" "vm_working_set st < 2 ^ 61"
  using assms by (simp_all add: proc_ok_def)

lemma env_readyD:
  assumes "env_ready cfg env"
  shows "calls_work cfg" "tryfixed_ok (me_alloc env)" "fst (ae_preload (me_alloc env)) \<le> snd (ae_preload (me_alloc env))"
    "0 < ae_space_start (me_alloc env)" "ae_space_limit (me_alloc env) \<le> vc_user_limit cfg" "vc_user_limit cfg < 2 ^ 61"
    "page_of (vc_user_limit cfg) \<le> vc_dirs cfg * block_pages" "set (me_visits env t) = set (inorder t)"
    "vc_fixed_ok cfg a n"
  using assms by (simp_all add: env_ready_def calls_work_def)

section \<open>What is mapped\<close>

lemma unmap_loop_mapped:
  assumes "areas_paged as" and "4096 dvd s" and "s < e" and "vm_mapped (unmap_loop cfg as s e st) p"
  shows "in_areas as p \<or> vm_mapped st p \<and> \<not> (page_of s \<le> p \<and> p < page_of e)"
  using assms
proof (induction as arbitrary: s st)
  case Nil
  then show ?case by (auto simp: in_pages_iff munmap_def split: if_splits)
next
  case (Cons a as)
  note a = areas_paged_Cons [OF Cons.prems(1)]
  have more: "in_areas as p \<Longrightarrow> in_areas (a # as) p" "page_of (fst a) \<le> p \<Longrightarrow> p < page_of (area_end a) \<Longrightarrow> in_areas (a # as) p"
    by (auto simp: in_areas_def)
  consider (before) "e \<le> fst a" | (after) "fst a < e" "area_end a \<le> s" | (meet) "fst a < e" "s < area_end a" by linarith
  then show ?case
  proof cases
    case before
    then show ?thesis using Cons.prems by (auto simp: in_pages_iff munmap_def split: if_splits)
  next
    case after
    then show ?thesis using Cons.IH [OF a(1) Cons.prems(2,3)] Cons.prems(4) more(1) by auto
  next
    case meet
    define s1 where "s1 = (if s < fst a then fst a else s)"
    define st1 where "st1 = (if s < fst a then munmap s (fst a - s) st else st)"
    have s1: "4096 dvd s1" "s \<le> s1" "s1 < area_end a" "s1 < e" "fst a \<le> s1" using meet a(2,4) Cons.prems(2,3) by (auto simp: s1_def)
    have k1: "vm_mapped st1 q \<Longrightarrow> vm_mapped st q \<and> \<not> (page_of s \<le> q \<and> q < page_of s1)" for q
      using Cons.prems(2) by (auto simp: st1_def s1_def in_pages_iff munmap_def split: if_splits)
    have le: "page_of s \<le> page_of s1" "page_of (fst a) \<le> page_of s1" using page_of_mono s1(2,5) by auto
    have step: "unmap_loop cfg (a # as) s e st =
        (if e \<le> area_end a then snd (anon_mmap_fixed cfg s1 (e - s1) PROT_NONE st1)
         else unmap_loop cfg as (area_end a) e (snd (anon_mmap_fixed cfg s1 (area_end a - s1) PROT_NONE st1)))"
      using meet by (simp add: Let_def s1_def [symmetric] st1_def [symmetric])
    have fx: "vm_mapped (snd (anon_mmap_fixed cfg s1 (t - s1) PROT_NONE st1)) p \<Longrightarrow>
        in_areas (a # as) p \<or> vm_mapped st p \<and> \<not> (page_of s \<le> p \<and> p < page_of s1)" if "s1 < t" "t \<le> area_end a" for t
      using that s1(1) more(2) le k1 page_of_mono [of t "area_end a"]
      by (auto simp: anon_mmap_fixed_def in_pages_iff split: if_splits)
    show ?thesis
    proof (cases "e \<le> area_end a")
      case True
      have "in_areas (a # as) p" if "page_of s1 \<le> p" "p < page_of e"
        using that more(2) le page_of_mono [OF True] by simp
      then show ?thesis using fx [of e] Cons.prems(4) True s1 unfolding step by auto
    next
      case False
      then have lt: "area_end a < e" by simp
      have d: "4096 dvd area_end a" by (rule a(3))
      have m: "page_of s1 \<le> page_of (area_end a)" "page_of (area_end a) \<le> page_of e"
        using page_of_mono [of s1 "area_end a"] page_of_mono [of "area_end a" e] lt s1(3) by simp_all
      have in_a: "in_areas (a # as) p" if "page_of s1 \<le> p" "p < page_of (area_end a)" using that more(2) le by simp
      from Cons.IH [OF a(1) d lt, of "snd (anon_mmap_fixed cfg s1 (area_end a - s1) PROT_NONE st1)"]
      show ?thesis using fx [of "area_end a"] Cons.prems(4) False s1 in_a more(1) unfolding step by auto
    qed
  qed
qed

lemma unmap_area_mapped:
  assumes "areas_paged (vm_reserved st)" and "4096 dvd a" and "a + n \<le> vc_user_limit cfg" and "a + n < 2 ^ 64" and "0 < n"
    and "vm_mapped (unmap_area cfg a n st) p"
  shows "in_areas (vm_reserved st) p \<or> vm_mapped st p \<and> \<not> in_cut a n p"
proof -
  have s: "unmap_area_above_user_limit cfg a n st = (n, st)"
    using assms(3,5) by (auto simp: unmap_area_above_user_limit_def Let_def)
  show ?thesis
    using s unmap_loop_mapped [OF assms(1,2), of "a + n" cfg st p] assms(4-6) by (simp add: unmap_area_def add64_def)
qed

lemma unmap_loop_ws: "vm_working_set (unmap_loop cfg as s e st) = vm_working_set st"
  by (induction as arbitrary: s st) (simp_all add: Let_def munmap_def anon_mmap_fixed_def)

lemma unmap_area_ws: "vm_working_set (unmap_area cfg a n st) = vm_working_set st"
  by (simp add: unmap_area_def unmap_loop_ws unmap_area_above_user_limit_def anon_mmap_fixed_def Let_def)

section \<open>Steps that keep the invariant\<close>

lemma mapped_kept:
  assumes "mapped_known st" and "vm_reserved st' = vm_reserved st" and "vm_views st' = vm_views st"
    and "\<forall>p. vm_mapped st' p \<longrightarrow> vm_mapped st p \<or> (\<exists>w \<in> set (views st). in_view w p)"
  shows "mapped_known st'"
  using assms unfolding mapped_known_def by auto

lemma set_keeps_proc:
  assumes "proc_ok cfg st" and "pages_set cfg v a b f st st'" and "vm_working_set st' = vm_working_set st"
    and "\<forall>p. vm_mapped st' p \<longrightarrow> vm_mapped st p \<or> a \<le> p \<and> p < b"
  shows "proc_ok cfg st'"
proof -
  note s = proc_okD [OF assms(1)]
  have p: "vm_views st' = vm_views st" "vm_reserved st' = vm_reserved st" "v \<in> set (views st)"
    "page_of (v_base v) \<le> a" "b \<le> page_of (v_base v + v_size v)" using assms(2) by (simp_all add: pages_set_def)
  have "in_view v p" if "a \<le> p" "p < b" for p using that p(4,5) by (simp add: in_view_def)
  then have "mapped_known st'" using mapped_kept [OF s(4) p(2,1)] assms(4) p(3) by blast
  then show ?thesis
    using set_keeps_ok [OF assms(2) s(1)] set_keeps_kernel [OF assms(2) s(2)] s(3,5,6) assms(3)
    unfolding proc_ok_def p(1,2) by auto
qed

lemma freed_keeps_proc:
  assumes "proc_ok cfg st" and "pages_freed cfg L v R base sz st st'" and "vm_working_set st' = vm_working_set st"
    and "\<forall>p. vm_mapped st' p \<longrightarrow> in_areas (vm_reserved st) p \<or> vm_mapped st p \<and> \<not> in_cut base sz p"
  shows "proc_ok cfg st'"
proof -
  note s = proc_okD [OF assms(1)]
  have c: "pages_cut cfg L v R base sz st st'" "vm_reserved st' = vm_reserved st"
    "\<forall>p. \<not> in_cut base sz p \<longrightarrow> vm_kprot st' p = vm_kprot st p" using assms(2) by (simp_all add: pages_freed_def)
  note d = pages_cutD [OF c(1)]
  have pl: "plain_view w" if "w \<in> set (views st')" for w
    using c(1) that
  proof (cases rule: cut_cases)
    case old
    then show ?thesis using s(5) by blast
  next
    case piece
    have "v \<in> set (views st)" unfolding d(2) by (simp only: set_append list.set) blast
    then show ?thesis using plain_same [OF pieces_protect [OF piece]] s(5) by blast
  qed
  have "mapped_known st'"
    unfolding mapped_known_def c(2)
  proof (intro allI impI)
    fix p assume "vm_mapped st' p"
    then consider "in_areas (vm_reserved st) p" | "vm_mapped st p" "\<not> in_cut base sz p" using assms(4) by blast
    then show "(\<exists>w \<in> set (views st'). in_view w p) \<or> in_areas (vm_reserved st) p"
    proof cases
      case 2
      then have "(\<exists>w \<in> set (views st). in_view w p) \<or> in_areas (vm_reserved st) p" using s(4) by (simp add: mapped_known_def)
      then show ?thesis
      proof
        assume "\<exists>w \<in> set (views st). in_view w p"
        then obtain w where w: "w \<in> set (views st)" "in_view w p" by blast
        then have "w = v \<or> w \<in> set L \<or> w \<in> set R" unfolding d(2) by (simp only: set_append list.set) blast
        moreover have "\<exists>u \<in> set (pieces v base sz). in_view u p" if "w = v"
          using pieces_pages [OF d(3), of p] w(2) 2(2) that by blast
        ultimately show ?thesis using w(2) unfolding d(4) by (simp only: set_append) blast
      qed blast
    qed blast
  qed
  then show ?thesis
    using cut_keeps_ok [OF c(1)] cut_keeps_kernel [OF c(1) s(2)] c(2,3) s(3,6) pl assms(3) by (auto simp: proc_ok_def)
qed

text \<open>The outcome of a call: it returns, and the invariant holds.\<close>

definition runs :: "vcfg \<Rightarrow> ('a \<times> vmem) option \<Rightarrow> bool" where
  "runs cfg r \<longleftrightarrow> (\<exists>x st'. r = Some (x, st') \<and> proc_ok cfg st')"

lemma runs_same [intro, simp]: "proc_ok cfg st \<Longrightarrow> runs cfg (Some (x, st))"
  by (simp add: runs_def)

lemma runs_if: "(c \<Longrightarrow> runs cfg a) \<Longrightarrow> (\<not> c \<Longrightarrow> runs cfg b) \<Longrightarrow> runs cfg (if c then a else b)"
  by simp

lemma runs_map: "runs cfg r \<Longrightarrow> runs cfg (map_option (\<lambda>(x, st). (f x, st)) r)"
  by (auto simp: runs_def)

section \<open>Protecting\<close>

lemma set_protection_frame:
  assumes "set_protection cfg v base sz protect st = Some (s, st')"
  shows "vm_mapped st' = vm_mapped st" and "vm_working_set st' = vm_working_set st"
  using assms by (auto simp: set_protection_def Let_def split: sum.splits if_splits bind_splits)

lemma set_protection_runs:
  assumes "calls_work cfg" and "proc_ok cfg st" and "v \<in> set (views st)" and "block_ok v base sz"
  shows "runs cfg (set_protection cfg v base sz protect st)"
proof -
  note s = proc_okD [OF assms(2)]
  have pl: "is_view_valloc v" using plain_viewD(1) [OF s(5) [OF assms(3)]] .
  show ?thesis
  proof (cases "\<exists>vprot. protect_ok v protect vprot")
    case True
    then obtain vprot where "protect_ok v protect vprot" by blast
    from set_protection_spec [OF assms(1) s(1) assms(3,4) this]
    obtain st' where p: "set_protection cfg v base sz protect st = Some (STATUS_SUCCESS, st')"
        "pages_set cfg v (page_of base) (page_of (base + sz)) (new_vprot (vc_prot cfg) (v_protect v) (ucast (vprot OR VPROT_COMMITTED))) st st'"
      by blast
    then show ?thesis
      using set_keeps_proc [OF assms(2) p(2)] set_protection_frame [OF p(1)] by (simp add: runs_def)
  next
    case False
    then have "\<exists>status. set_protection cfg v base sz protect st = Some (status, st)"
      using pl by (auto simp: set_protection_def protect_ok_def split: sum.splits)
    then show ?thesis using assms(2) by (auto simp: runs_def)
  qed
qed

text \<open>A view that was found covers the block.\<close>

lemma found_block:
  assumes "proc_ok cfg st" and "find_view base sz (vm_views st) = Some v" and "base < 2 ^ 64" and "sz < 2 ^ 64"
  shows "v \<in> set (views st)" and "v_base v \<le> base" and "base < v_base v + v_size v" and "base + sz \<le> v_base v + v_size v"
  using find_view_spec [OF vm_okD(1) [OF proc_okD(1) [OF assms(1)]] assms(3,4)] assms(2) by auto

lemma round_addr_small: "round_addr a m \<le> a" "a < 2 ^ 64 \<Longrightarrow> round_addr a m < 2 ^ 64"
  using round_addr_le [of a m] by (auto intro: le_less_trans)

lemma round_size_small: "round_size a n < 2 ^ 64" "4096 dvd round_size a n"
proof -
  have "add64 x y < 2 ^ 64" for x y by (simp add: add64_def)
  then show "round_size a n < 2 ^ 64" unfolding round_size_def by (intro round_addr_small(2))
  show "4096 dvd round_size a n" unfolding round_size_def by (rule round_addr_dvd)
qed

lemma committed_size_total:
  assumes "proc_ok cfg st" and "v \<in> set (views st)" and "block_ok v base sz"
  shows "\<exists>r. get_committed_size cfg ask v base sz VPROT_COMMITTED st = Some (r, st)"
proof -
  note s = proc_okD [OF assms(1)]
  note b = block_bounds [OF s(1) assms(2,3)]
  have c: "4096 dvd base" "4096 dvd sz" "0 < sz" "v_base v \<le> base" "base + sz \<le> v_base v + v_size v"
    using assms(3) by (simp_all add: block_ok_def)
  have m: "min (v_size v - (base - v_base v)) sz = sz" using c(4,5) by simp
  have "page_of base + page_of sz = page_of (base + sz)" using page_of_add [OF c(1)] by simp
  then have "\<exists>r. get_vprot_range_size base sz VPROT_COMMITTED (vm_tbl st) = Some r"
    using vprot_range_first_diff [of base sz "vm_tbl st" VPROT_COMMITTED] b(3) c(1-3) by (simp add: mod_eq_0_iff_dvd)
  then show ?thesis
    using plain_viewD(3) [OF s(5) [OF assms(2)]] by (auto simp: get_committed_size_def round_addr_same [OF c(1)] m)
qed

lemma protect_runs:
  assumes "calls_work cfg" and "proc_ok cfg st" and "pe_remote penv = None" and "\<not> pe_simulate_writecopy penv"
    and "addr < 2 ^ 64" and "round_size addr sz \<noteq> 0"
  shows "runs cfg (NtProtectVirtualMemory cfg penv addr sz prot st)"
proof (cases "find_view (round_addr addr page_mask) (round_size addr sz) (vm_views st)")
  case None
  then show ?thesis using assms(2,3) by (simp add: NtProtectVirtualMemory_def Let_def)
next
  case (Some v)
  define base n where "base = round_addr addr page_mask" and "n = round_size addr sz"
  have f: "v \<in> set (views st)" "v_base v \<le> base" "base + n \<le> v_base v + v_size v"
    using found_block [OF assms(2) Some round_addr_small(2) [OF assms(5)] round_size_small(1)] by (simp_all add: base_def n_def)
  then have blk: "block_ok v base n"
    using round_addr_dvd [of addr] round_size_small(2) [of addr sz] assms(6) by (simp add: block_ok_def base_def n_def)
  obtain c vp where g: "get_committed_size cfg (pe_ask penv) v base n VPROT_COMMITTED st = Some ((c, vp), st)"
    using committed_size_total [OF assms(2) f(1) blk, of "pe_ask penv"] by auto
  obtain status st' where p: "set_protection cfg v base n prot st = Some (status, st')" "proc_ok cfg st'"
    using set_protection_runs [OF assms(1,2) f(1) blk, of prot] by (auto simp: runs_def)
  have im: "v_protect v AND SEC_IMAGE = 0" by (rule plain_viewD(4) [OF proc_okD(5) [OF assms(2) f(1)]])
  have "find_view base n (vm_views st) = Some v" using Some by (simp add: base_def n_def)
  then show ?thesis
    using assms(2-4) g p im unfolding NtProtectVirtualMemory_def Let_def base_def [symmetric] n_def [symmetric]
    by (simp add: runs_def)
qed

section \<open>Freeing\<close>

text \<open>The steps over the tables leave the mappings alone.\<close>

definition tables_only :: "vmem \<Rightarrow> vmem \<Rightarrow> bool" where
  "tables_only st st' \<longleftrightarrow> vm_mapped st' = vm_mapped st \<and> vm_working_set st' = vm_working_set st \<and> vm_reserved st' = vm_reserved st"

lemma tables_only_refl [simp]: "tables_only st st"
  by (simp add: tables_only_def)

lemma tables_only_trans: "tables_only st st1 \<Longrightarrow> tables_only st1 st2 \<Longrightarrow> tables_only st st2"
  by (simp add: tables_only_def)

lemma tables_only_steps:
  "fill_vprot a n b st = Some st' \<Longrightarrow> tables_only st st'"
  "unregister_view cfg v st = Some st' \<Longrightarrow> tables_only st st'"
  "register_view cfg v st = Some st' \<Longrightarrow> tables_only st st'"
  by (auto simp: fill_vprot_def unregister_view_def register_view_def tables_only_def split: bind_splits)

lemma remove_pages_tables:
  assumes "remove_pages_from_view cfg v base sz st = Some (s, st')"
  shows "tables_only st st'"
  using assms unfolding remove_pages_from_view_def
  by (auto simp: Let_def tables_only_def split: if_splits bind_splits
      dest!: tables_only_steps [unfolded tables_only_def])

lemma delete_view_frame:
  assumes "delete_view cfg v st = Some st'" and "v_protect v AND VPROT_SYSTEM = 0"
  shows "tables_only (unmap_area cfg (v_base v) (v_size v) st) st'"
proof -
  obtain st1 where f: "fill_vprot (v_base v) (v_size v) 0 (unmap_area cfg (v_base v) (v_size v) st) = Some st1"
      "unregister_view cfg v (if v_protect v AND VPROT_ARM64EC \<noteq> 0
        then st1\<lparr>vm_ecmap := clear_arm64ec_range (v_base v) (v_size v) (vm_ecmap st1)\<rparr> else st1) = Some st'"
    using assms by (auto simp: delete_view_def Let_def split: bind_splits)
  show ?thesis
    using tables_only_steps(1) [OF f(1)] tables_only_steps(2) [OF f(2)] by (simp add: tables_only_def split: if_splits)
qed

lemma free_pages_frame:
  assumes "free_pages cfg v base sz st = Some (s, st')" and "v_protect v AND VPROT_SYSTEM = 0" and "s = STATUS_SUCCESS"
  shows "\<exists>st1 st2. tables_only st st1 \<and> st2 = unmap_area cfg base sz st1 \<and> tables_only st2 st'"
proof (cases "sz = v_size v")
  case True
  then have "base = v_base v" "delete_view cfg v st = Some st'"
    using assms(1) by (auto simp: free_pages_def split: if_splits bind_splits)
  then show ?thesis using delete_view_frame [OF _ assms(2)] True tables_only_refl by blast
next
  case False
  then obtain st1 st2 where f: "remove_pages_from_view cfg v base sz st = Some (STATUS_SUCCESS, st1)"
      "fill_vprot base sz 0 st1 = Some st2"
      "st' = unmap_area cfg base sz (if v_protect v AND VPROT_ARM64EC \<noteq> 0
        then st2\<lparr>vm_ecmap := clear_arm64ec_range base sz (vm_ecmap st2)\<rparr> else st2)"
    using assms(1,3) by (auto simp: free_pages_def Let_def split: if_splits bind_splits)
  have "tables_only st2 (if v_protect v AND VPROT_ARM64EC \<noteq> 0
        then st2\<lparr>vm_ecmap := clear_arm64ec_range base sz (vm_ecmap st2)\<rparr> else st2)" by (simp add: tables_only_def)
  then have "tables_only st (if v_protect v AND VPROT_ARM64EC \<noteq> 0
        then st2\<lparr>vm_ecmap := clear_arm64ec_range base sz (vm_ecmap st2)\<rparr> else st2)"
    using remove_pages_tables [OF f(1)] tables_only_steps(1) [OF f(2)] tables_only_trans by blast
  then show ?thesis using f(3) tables_only_refl by blast
qed

lemma free_pages_runs:
  assumes "calls_work cfg" and "proc_ok cfg st" and "ranges_room 3 st" and "v \<in> set (views st)" and "cut_ok v base sz"
  shows "runs cfg (free_pages cfg v base sz st)"
proof -
  note s = proc_okD [OF assms(2)]
  obtain L R where vs: "views st = L @ v # R" using split_list [OF assms(4)] by blast
  obtain st' where f: "free_pages cfg v base sz st = Some (STATUS_SUCCESS, st')" "pages_freed cfg L v R base sz st st'"
    using free_pages_spec [OF assms(1) s(1) vs s(3) assms(3,5)] by blast
  have sys: "v_protect v AND VPROT_SYSTEM = 0" by (rule plain_viewD(5) [OF s(5) [OF assms(4)]])
  note b = cut_bounds [OF s(1) vs assms(5)]
  have c: "0 < sz" "4096 dvd base" using assms(5) by (simp_all add: cut_ok_def)
  obtain st1 where fr: "tables_only st st1" "tables_only (unmap_area cfg base sz st1) st'"
    using free_pages_frame [OF f(1) sys refl] by blast
  have r: "vm_reserved st1 = vm_reserved st" "vm_mapped st1 = vm_mapped st" "vm_working_set st1 = vm_working_set st"
    "vm_mapped st' = vm_mapped (unmap_area cfg base sz st1)" "vm_working_set st' = vm_working_set (unmap_area cfg base sz st1)"
    using fr by (simp_all add: tables_only_def)
  have a1: "areas_paged (vm_reserved st1)" using s(3) by (simp add: r(1))
  have "vm_mapped st' p \<longrightarrow> in_areas (vm_reserved st) p \<or> vm_mapped st p \<and> \<not> in_cut base sz p" for p
    using unmap_area_mapped [OF a1 c(2) b(4,5) c(1), of p] unfolding r(1,2,4) by blast
  moreover have "vm_working_set st' = vm_working_set st" using r(3,5) by (simp add: unmap_area_ws)
  ultimately have "proc_ok cfg st'" using freed_keeps_proc [OF assms(2) f(2)] by blast
  then show ?thesis using f(1) by (simp add: runs_def)
qed

lemma decommit_runs:
  assumes "calls_work cfg" and "proc_ok cfg st" and "v \<in> set (views st)" and "block_ok v base (if sz = 0 then v_size v else sz)"
  shows "runs cfg (decommit_pages cfg v (base - v_base v) sz st)"
proof -
  define n where "n = (if sz = 0 then v_size v else sz)"
  note s = proc_okD [OF assms(2)]
  obtain st' where d: "decommit_pages cfg v (base - v_base v) sz st = Some (STATUS_SUCCESS, st')"
      "pages_set cfg v (page_of base) (page_of (base + n)) (\<lambda>x. x AND NOT VPROT_COMMITTED) st st'"
    using decommit_spec [OF assms(1) s(1) assms(3,4)] unfolding n_def by blast
  have blk: "block_ok v base n" using assms(4) by (simp add: n_def)
  have c: "v_base v \<le> base" "4096 dvd base" using blk by (simp_all add: block_ok_def)
  have start: "add64 (v_base v) (base - v_base v) = base"
    using c block_bounds(4) [OF s(1) assms(3) blk] by (simp add: add64_def)
  have fr: "vm_working_set st' = vm_working_set st" "\<forall>p. vm_mapped st' p \<longrightarrow> vm_mapped st p \<or> page_of base \<le> p \<and> p < page_of (base + n)"
    using d(1) c(2) unfolding decommit_pages_def n_def [symmetric] start
    by (auto simp: anon_mmap_fixed_def change_vprot_bits_def Let_def in_pages_iff split: if_splits bind_splits)
  then show ?thesis using set_keeps_proc [OF assms(2) d(2)] d(1) by (simp add: runs_def)
qed

text \<open>Pages that are released from a view go up to its end or to a multiple of 64 KiB.\<close>

definition release_aligned :: "vmem \<Rightarrow> nat \<Rightarrow> nat \<Rightarrow> bool" where
  "release_aligned st addr sz \<longleftrightarrow>
     (let base = round_addr addr page_mask; n = (if sz = 0 then 0 else round_size addr sz)
      in \<forall>v \<in> set (views st). n \<noteq> 0 \<and> v_base v \<le> base \<and> base + n < v_base v + v_size v \<longrightarrow> 0x10000 dvd base + n)"

lemma view_bounds:
  assumes "vm_ok cfg st" and "v \<in> set (views st)"
  shows "view_end v = v_base v + v_size v" "v_base v + v_size v < 2 ^ 64" "4096 dvd v_base v" "4096 dvd v_size v"
    "0x10000 dvd v_base v" "0 < v_size v" "page_of (v_base v) \<le> page_of (v_base v + v_size v)"
proof -
  have w: "0 < v_size v" "v_base v + v_size v + 0x20000 \<le> 2 ^ 64" using views_ok_in(1,3) [OF vm_okD(1) [OF assms(1)] assms(2)] .
  then show "view_end v = v_base v + v_size v" "v_base v + v_size v < 2 ^ 64" "0 < v_size v" by (simp_all add: view_end_def add64_def)
  show "0x10000 dvd v_base v" "4096 dvd v_size v" using vm_okD(2) [OF assms] by (simp_all add: view_aligned_def)
  then show "4096 dvd v_base v" using dvd_4096 by blast
  show "page_of (v_base v) \<le> page_of (v_base v + v_size v)" by (rule page_of_mono) simp
qed

lemma free_runs:
  assumes "calls_work cfg" and "proc_ok cfg st" and "ranges_room 3 st" and "addr < 2 ^ 64"
    and "type = MEM_RELEASE \<longrightarrow> release_aligned st addr sz"
  shows "runs cfg (NtFreeVirtualMemory cfg None addr sz type st)"
proof -
  note s = proc_okD [OF assms(2)]
  define base n where "base = round_addr addr page_mask" and "n = (if sz \<noteq> 0 then round_size addr sz else 0)"
  have base64: "base < 2 ^ 64" "4096 dvd base" using round_addr_small(2) [OF assms(4)] round_addr_dvd by (simp_all add: base_def)
  have n4: "4096 dvd n" using round_size_small(2) by (simp add: n_def)
  show ?thesis
  proof (cases "find_view base 0 (vm_views st)")
    case None
    then show ?thesis
      using assms(2) unfolding NtFreeVirtualMemory_def Let_def base_def [symmetric] n_def [symmetric] by simp
  next
    case (Some v)
    have v: "v \<in> set (views st)" "v_base v \<le> base" "base < v_base v + v_size v"
      using found_block [OF assms(2) Some base64(1)] by simp_all
    note vb = view_bounds [OF s(1) v(1)]
    note pl = plain_viewD [OF s(5) [OF v(1)]]
    have eq: "NtFreeVirtualMemory cfg None addr sz type st =
        do {
          ((status, n), st) \<leftarrow>
            (if base = 0 then Some ((STATUS_INVALID_PARAMETER, n), st)
             else if n = 0 \<and> base \<noteq> v_base v then Some ((STATUS_FREE_VM_NOT_AT_BASE, n), st)
             else if view_end v - base < n \<and> type AND MEM_COALESCE_PLACEHOLDERS = 0 then Some ((STATUS_UNABLE_TO_FREE_VM, n), st)
             else if type = MEM_DECOMMIT then map_option (\<lambda>(s, st). ((s, n), st)) (decommit_pages cfg v (base - v_base v) n st)
             else if type = MEM_RELEASE
             then map_option (\<lambda>(s, st). ((s, if n = 0 then v_size v else n), st)) (free_pages cfg v base (if n = 0 then v_size v else n) st)
             else if type = MEM_RELEASE OR MEM_PRESERVE_PLACEHOLDER
             then map_option (\<lambda>(s, st). ((s, n), st)) (free_pages_preserve_placeholder cfg v base n st)
             else if type = MEM_RELEASE OR MEM_COALESCE_PLACEHOLDERS
             then map_option (\<lambda>(s, st). ((s, n), st)) (coalesce_placeholders cfg v base n st)
             else if type = MEM_COALESCE_PLACEHOLDERS then Some ((STATUS_INVALID_PARAMETER_4, n), st)
             else Some ((STATUS_INVALID_PARAMETER, n), st));
          Some ((status, if status = STATUS_SUCCESS then Some (base, n) else None), st)
        }"
      using Some pl(1) unfolding NtFreeVirtualMemory_def Let_def base_def [symmetric] n_def [symmetric] by simp
    have finish: "runs cfg (do { ((status, n), st) \<leftarrow> r; Some ((status, if status = STATUS_SUCCESS then Some (base, n) else None), st) })"
      if "runs cfg r" for r :: "((ntstatus \<times> nat) \<times> vmem) option"
      using that by (auto simp: runs_def)
    have same: "runs cfg (Some ((x, n), st))" for x :: ntstatus using assms(2) by simp
    have fits: "base + n \<le> v_base v + v_size v" if "\<not> (view_end v - base < n \<and> type AND MEM_COALESCE_PLACEHOLDERS = 0)"
        "type AND MEM_COALESCE_PLACEHOLDERS = 0"
      using that v(2,3) by (simp add: vb(1))
    have d: "runs cfg (decommit_pages cfg v (base - v_base v) n st)" if "\<not> (n = 0 \<and> base \<noteq> v_base v)" "base + n \<le> v_base v + v_size v"
      by (rule decommit_runs [OF assms(1,2) v(1)]) (use that v(2) vb base64(2) n4 in \<open>auto simp: block_ok_def\<close>)
    have f: "runs cfg (free_pages cfg v base (if n = 0 then v_size v else n) st)"
      if h: "\<not> (n = 0 \<and> base \<noteq> v_base v)" "base + n \<le> v_base v + v_size v" "type = MEM_RELEASE"
    proof (rule free_pages_runs [OF assms(1-3) v(1)])
      have "n \<noteq> 0 \<Longrightarrow> base + n < v_base v + v_size v \<Longrightarrow> 0x10000 dvd base + n"
        using assms(5) h(3) v(1,2) unfolding release_aligned_def Let_def base_def [symmetric] n_def by (auto split: if_splits)
      then have "n = 0 \<or> base + n = v_base v + v_size v \<or> 0x10000 dvd base + n" using h(2) le_neq_implies_less by blast
      then show "cut_ok v base (if n = 0 then v_size v else n)" using h(1,2) v(2) vb base64(2) n4 by (auto simp: cut_ok_def)
    qed
    have p: "runs cfg (free_pages_preserve_placeholder cfg v base n st)"
      using assms(2) pl(6) by (simp add: free_pages_preserve_placeholder_def)
    have c: "runs cfg (coalesce_placeholders cfg v base n st)"
    proof -
      have none: "fst (coalesce_count n 0 0 ws) = 0" if "set ws \<subseteq> set (views st)" for ws
        using that plain_viewD(7) [OF s(5)] by (cases ws) auto
      have "fst (coalesce_count n 0 0 (dropWhile (\<lambda>w. v_base w \<noteq> v_base v) (views st))) = 0"
        by (rule none) (meson set_dropWhileD subsetI)
      then show ?thesis using assms(2) by (auto simp: coalesce_placeholders_def Let_def split: prod.splits)
    qed
    note m = runs_map [OF d, of "\<lambda>s. (s, n)"] runs_map [OF f, of "\<lambda>s. (s, if n = 0 then v_size v else n)"]
      runs_map [OF p, of "\<lambda>s. (s, n)"] runs_map [OF c, of "\<lambda>s. (s, n)"]
    show ?thesis unfolding eq
      by (rule finish, intro runs_if m same) (use fits in auto)
  qed
qed

section \<open>Allocating\<close>

lemma no_placeholders:
  assumes "type AND NOT (MEM_COMMIT OR MEM_RESERVE OR MEM_TOP_DOWN OR MEM_WRITE_WATCH OR MEM_RESET) = 0"
  shows "type AND MEM_REPLACE_PLACEHOLDER = 0" "type AND MEM_RESERVE_PLACEHOLDER = 0"
  using and_zero_part [OF assms, of MEM_REPLACE_PLACEHOLDER] and_zero_part [OF assms, of MEM_RESERVE_PLACEHOLDER] by simp_all

lemma create_view_frame:
  assumes "create_view cfg base sz vprot st = Some (r, st')" and "find_view_range base sz (vm_views st) = None"
  shows "tables_only st st'"
proof -
  have "delete_overlapping cfg base sz st = Some st" using assms(2) by (subst delete_overlapping.simps) simp
  then show ?thesis
    using assms(1) unfolding create_view_def
    by (auto simp: Let_def tables_only_def split: if_splits bind_splits dest!: tables_only_steps [unfolded tables_only_def])
qed

text \<open>A view is created for pages that were mapped for it.\<close>

lemma create_runs:
  assumes "calls_work cfg" and "proc_ok cfg st" and "new_view_ok cfg st base sz" and "ranges_room 1 st"
    and "pages_mapped base (base + sz) (get_unix_prot (vc_prot cfg) (ucast vprot)) st st0"
    and "st1 = st0 \<or> st1 = st0\<lparr>vm_working_set := ws\<rparr>" and "ws < 2 ^ 61"
    and "plain_view \<lparr>v_base = base, v_size = sz, v_protect = vprot\<rparr>"
  shows "\<exists>L R st'. create_view cfg base sz vprot st1 = Some (Inr \<lparr>v_base = base, v_size = sz, v_protect = vprot\<rparr>, st') \<and> proc_ok cfg st' \<and>
    view_created cfg L \<lparr>v_base = base, v_size = sz, v_protect = vprot\<rparr> R st st'"
proof -
  define v where "v = \<lparr>v_base = base, v_size = sz, v_protect = vprot\<rparr>"
  note s = proc_okD [OF assms(2)]
  have s1: "vm_views st1 = vm_views st" "vm_ranges st1 = vm_ranges st" "vm_tbl st1 = vm_tbl st" "vm_reserved st1 = vm_reserved st"
    and k1: "vm_kprot st1 p = (if in_cut base sz p then get_unix_prot (vc_prot cfg) (ucast vprot) else vm_kprot st p)"
    and m1: "vm_mapped st1 p \<longleftrightarrow> in_cut base sz p \<or> vm_mapped st p" and w1: "vm_working_set st1 < 2 ^ 61" for p
    using assms(5-7) s(6) by (auto simp: pages_mapped_def same_book_def)
  have ok: "vm_ok cfg st1" "new_view_ok cfg st1 base sz" "ranges_room 1 st1"
    using s(1) assms(3,4) s1 by (simp_all add: vm_ok_def new_view_ok_def ranges_room_def)
  obtain st2 L R where c: "create_view cfg base sz vprot st1 = Some (Inr v, st2)" "view_created cfg L v R st1 st2"
      "\<forall>p. vm_kprot st2 p = (if in_cut base sz p then forced_prot (vc_prot cfg) (get_unix_prot (vc_prot cfg) (ucast vprot)) else vm_kprot st1 p)"
    using create_view_spec [OF assms(1) ok, of vprot] k1 unfolding v_def by auto
  have vc: "view_created cfg L v R st st2" using c(2) unfolding view_created_def s1 .
  have inv: "in_view v p \<longleftrightarrow> in_cut base sz p" for p by (simp add: in_view_def v_def)
  have prot: "v_protect v = vprot" by (simp add: v_def)
  have kp: "kernel_ok cfg st2"
    by (rule created_keeps_kernel [OF vc s(2)]) (use c(3) k1 prot in \<open>auto simp: inv\<close>)
  have vs: "views st2 = L @ v # R" "views st = L @ R" "vm_reserved st2 = vm_reserved st" using vc by (simp_all add: view_created_def)
  have sub: "set (views st2) = insert v (set (views st))" unfolding vs(1,2) by (simp only: set_append list.set) blast
  have "\<forall>w \<in> set (views st). \<not> overlaps base sz w" "base + sz < 2 ^ 64" using assms(3) by (simp_all add: new_view_ok_def)
  then have "find_view_range base sz (vm_views st1) = None"
    using no_overlap_found [OF vm_okD(1) [OF s(1)], of base sz] by (simp add: s1(1))
  from create_view_frame [OF c(1) this] have fr: "vm_mapped st2 = vm_mapped st1" "vm_working_set st2 < 2 ^ 61"
    using w1 by (simp_all add: tables_only_def)
  have "mapped_known st2"
    unfolding mapped_known_def fr(1) m1 sub vs(3) using s(4) inv by (auto simp: mapped_known_def)
  moreover have "\<forall>w \<in> set (views st2). plain_view w" unfolding sub using s(5) assms(8) by (auto simp: v_def)
  ultimately have "proc_ok cfg st2"
    using created_keeps_ok [OF vc s(1)] kp s(3) fr(2) vs(3) by (simp add: proc_ok_def)
  then show ?thesis using c(1) vc unfolding v_def by blast
qed

text \<open>The block of a call, rounded to pages.\<close>

lemma round_block_cases:
  assumes "addr < 2 ^ 64" and "addr \<noteq> 0" and "addr \<noteq> 1" and "0 < sz" and "sz < 2 ^ 61" and "type AND MEM_REPLACE_PLACEHOLDER = 0"
  obtains (bad) status where "round_block env addr sz type = Inl status"
  | (good) base n where "round_block env addr sz type = Inr (base, n, False)" "0x10000 \<le> base" "0 < n" "4096 dvd base" "4096 dvd n"
      "base + n < 2 ^ 64" "base + n \<le> ae_space_limit (me_alloc env)" "type AND MEM_RESERVE \<noteq> 0 \<Longrightarrow> 0x10000 dvd base"
proof -
  define base where "base = (if type AND MEM_RESERVE \<noteq> 0 \<and> type AND MEM_REPLACE_PLACEHOLDER = 0
    then round_addr addr granularity_mask else round_addr addr page_mask)"
  define w where "w = round_addr (add64 (add64 addr sz) page_mask) page_mask"
  define n where "n = sub64 w base"
  have b: "base \<le> addr" "4096 dvd base" "type AND MEM_RESERVE \<noteq> 0 \<Longrightarrow> 0x10000 dvd base"
    using assms(6) round_addr_le dvd_4096 by (auto simp: base_def round_addr_def)
  have w: "w < 2 ^ 64" "4096 dvd w" using round_addr_small(2) round_addr_dvd by (simp_all add: w_def add64_def)
  have eq: "round_block env addr sz type =
      (if base < 0x10000 \<or> add64 base n < base \<or> is_beyond_limit base n (ae_space_limit (me_alloc env))
       then Inl STATUS_INVALID_PARAMETER else Inr (base, n, False))"
    using assms(2,3) by (simp add: round_block_def Let_def base_def [symmetric] w_def [symmetric] n_def [symmetric])
  show thesis
  proof (cases "base < 0x10000 \<or> add64 base n < base \<or> is_beyond_limit base n (ae_space_limit (me_alloc env))")
    case True
    then show thesis using eq bad by simp
  next
    case False
    have b64: "base < 2 ^ 64" using b(1) assms(1) by simp
    have sum: "add64 base n = w" using w(1) b64 by (simp add: n_def add64_def sub64_def mod_simps)
    then have le: "base \<le> w" using False by simp
    have shift: "w + 2 ^ 64 - base = (w - base) + 2 ^ 64" using le by simp
    have "n = ((w - base) + 2 ^ 64) mod 2 ^ 64" unfolding n_def sub64_def shift ..
    then have nn: "n = w - base" using w(1) by simp
    have "addr < round_addr addr granularity_mask + 65536" "addr < round_addr addr page_mask + 4096"
      using dividend_less_div_times [of 65536 addr] dividend_less_div_times [of 4096 addr] by (simp_all add: round_addr_def)
    then have small: "addr < base + 65536" unfolding base_def by (cases "type AND MEM_RESERVE \<noteq> 0 \<and> type AND MEM_REPLACE_PLACEHOLDER = 0") simp_all
    have w_eq: "w = round_addr ((addr + sz + 4095) mod 2 ^ 64) page_mask" unfolding w_def add64_def by (simp only: mod_add_left_eq)
    have room: "addr + sz + 4095 < 2 ^ 64"
    proof (rule ccontr)
      assume h: "\<not> addr + sz + 4095 < 2 ^ 64"
      then have "(addr + sz + 4095) mod 2 ^ 64 = addr + sz + 4095 - 2 ^ 64" using assms(1,5) by (simp add: mod_if)
      then have "w \<le> addr + sz + 4095 - 2 ^ 64" using round_addr_le unfolding w_eq by metis
      then show False using small assms(1,5) h le by simp
    qed
    then have "addr + sz \<le> w" using dividend_less_div_times [of 4096 "addr + sz + 4095"] by (simp add: w_eq round_addr_def)
    then have pos: "0 < n" using assms(4) b(1) by (simp add: nn)
    have e: "base + n = w" using le by (simp add: nn)
    have d: "4096 dvd n" unfolding nn using w(2) b(2) by (rule dvd_diff_nat)
    have lim: "base + n \<le> ae_space_limit (me_alloc env)" using False sum e by (simp add: is_beyond_limit_def)
    show thesis
      by (rule good [OF _ _ pos b(2) d _ lim b(3)]) (use False eq e w(1) in auto)
  qed
qed

lemma round_new_block:
  assumes "0 < sz" and "sz < 2 ^ 61"
  obtains n where "round_block env 0 sz type = Inr (0, n, False)" "0 < n" "n < 2 ^ 62" "4096 dvd n"
proof
  have "sz + 4095 < 2 ^ 64" using assms(2) by simp
  then have e: "add64 sz page_mask = sz + 4095" by (simp add: add64_def)
  show "round_block env 0 sz type = Inr (0, round_addr (add64 sz page_mask) page_mask, False)" by (simp add: round_block_def)
  show "4096 dvd round_addr (add64 sz page_mask) page_mask" by (rule round_addr_dvd)
  show "0 < round_addr (add64 sz page_mask) page_mask"
    using assms(1) dividend_less_div_times [of 4096 "sz + 4095"] unfolding e by (simp add: round_addr_def)
  show "round_addr (add64 sz page_mask) page_mask < 2 ^ 62"
    using round_addr_le [of "sz + 4095" page_mask] assms(2) unfolding e by simp
qed

text \<open>Mapping at the address of the caller.\<close>

lemma table_room:
  assumes "env_ready cfg env" and "b \<le> vc_user_limit cfg"
  shows "page_of b \<le> vc_dirs cfg * block_pages" "b + 0x20000 \<le> 2 ^ 64"
  using env_readyD(6,7) [OF assms(1)] page_of_mono [OF assms(2)] assms(2) by (auto intro: le_trans)

lemma map_here_runs:
  assumes "env_ready cfg env" and "proc_ok cfg st" and "ranges_room 1 st" and "type AND MEM_REPLACE_PLACEHOLDER = 0"
    and "0x10000 dvd base" and "0x10000 \<le> base" and "0 < n" and "4096 dvd n" and "base + n \<le> ae_space_limit (me_alloc env)"
    and "plain_view \<lparr>v_base = base, v_size = n, v_protect = vprot\<rparr>"
  shows "runs cfg (map_view cfg env base n type vprot 0 0 granularity_mask st)"
proof -
  note s = proc_okD [OF assms(2)] and e = env_readyD [OF assms(1)]
  have lim: "base + n \<le> vc_user_limit cfg" using assms(9) e(5) by simp
  then have b: "base + n < 2 ^ 64" using e(6) by simp
  then have sum: "add64 base n = base + n" by (simp add: add64_def)
  have nb: "\<not> is_beyond_limit base n (ae_space_limit (me_alloc env))" "base \<noteq> 0"
    using assms(6,7,9) sum by (simp_all add: is_beyond_limit_def)
  show ?thesis
  proof (cases "is_beyond_limit base n (ae_host_limit (me_alloc env)) \<or> (\<exists>w \<in> set (views st). overlaps base n w)")
    case True
    have "\<exists>status. map_memory cfg env base n type vprot 0 0 granularity_mask st = Some (Inl status, st)"
    proof (cases "is_beyond_limit base n (ae_host_limit (me_alloc env))")
      case True
      then show ?thesis using nb by (simp add: map_memory_def)
    next
      case False
      then have "find_view_range base n (vm_views st) \<noteq> None"
        using True find_view_range_spec [OF vm_okD(1) [OF s(1)] b] by (auto split: option.splits)
      then show ?thesis using nb False by (simp add: map_memory_def map_fixed_area_def)
    qed
    then show ?thesis using assms(2,4) by (auto simp: map_view_def)
  next
    case False
    then have new: "new_view_ok cfg st base n"
      using assms(5,7,8) lim table_room [OF assms(1) lim] by (auto simp: new_view_ok_def)
    have ready: "alloc_ready cfg env st" using s e(1,2) by (simp add: alloc_ready_def mapped_known_def)
    obtain st0 where m: "map_fixed_area cfg (me_alloc env) base n vprot st = (STATUS_SUCCESS, st0)"
        "pages_mapped base (base + n) (get_unix_prot (vc_prot cfg) (ucast vprot)) st st0"
      using map_fixed_spec [OF ready new] by blast
    define st1 where "st1 = (if is_beyond_limit base n (vm_working_set st0) then st0\<lparr>vm_working_set := ae_space_limit (me_alloc env)\<rparr> else st0)"
    have "st1 = st0 \<or> st1 = st0\<lparr>vm_working_set := ae_space_limit (me_alloc env)\<rparr>" by (simp add: st1_def)
    moreover have "ae_space_limit (me_alloc env) < 2 ^ 61" using e(5,6) by simp
    ultimately obtain v st' where "create_view cfg base n vprot st1 = Some (Inr v, st')" "proc_ok cfg st'"
      using create_runs [OF e(1) assms(2) new assms(3) m(2) _ _ assms(10)] by blast
    moreover have "map_memory cfg env base n type vprot 0 0 granularity_mask st = Some (Inr base, st1)"
      using nb m(1) False by (simp add: map_memory_def Let_def st1_def)
    ultimately show ?thesis using assms(4) by (simp add: map_view_def runs_def)
  qed
qed

text \<open>Mapping where the search finds room.\<close>

lemma delete_native_none: "\<forall>v \<in> set vs. v_protect v AND VPROT_NATIVE = 0 \<Longrightarrow> delete_native cfg vs st = Some st"
  by (induction vs) simp_all

lemma map_anywhere_spec:
  assumes "env_ready cfg env" and "proc_ok cfg st" and "ranges_room 1 st" and "type AND MEM_REPLACE_PLACEHOLDER = 0"
    and "0 < n" and "n < 2 ^ 62" and "4096 dvd n" and "\<And>b. plain_view \<lparr>v_base = b, v_size = n, v_protect = vprot\<rparr>"
    and "a = 0 \<or> a = granularity_mask"
  obtains (failed) status where "map_view cfg env 0 n type vprot limit_low limit_high a st = Some (Inl status, st)"
  | (mapped) v st' L R where "map_view cfg env 0 n type vprot limit_low limit_high a st = Some (Inr v, st')"
      "v_size v = n" "v_protect v = vprot" "proc_ok cfg st'" "view_created cfg L v R st st'"
proof (cases "limit_high \<noteq> 0 \<and> limit_high \<le> limit_low")
  case True
  then show thesis using failed assms(4) by (simp add: map_view_def)
next
  case lims: False
  note s = proc_okD [OF assms(2)] and e = env_readyD [OF assms(1)]
  define eff where "eff = fixup_effective_user_space_limit (me_alloc env) (min (vc_user_limit cfg) (ae_host_limit (me_alloc env)))"
  define high where "high = (if limit_high \<noteq> 0 then min (add64 limit_high 1) eff else eff)"
  define prot where "prot = get_unix_prot (vc_prot cfg) (ucast vprot)"
  define low where "low = (if limit_low < ae_space_start (me_alloc env) then ae_space_start (me_alloc env) else limit_low)"
  define search where "search = alloc_free_area cfg (me_alloc env) low high n (type AND MEM_TOP_DOWN \<noteq> 0) prot granularity_mask"
  have "eff \<le> vc_user_limit cfg" by (auto simp: eff_def fixup_effective_user_space_limit_def)
  then have high: "high \<le> vc_user_limit cfg" by (auto simp: high_def)
  then have high': "high < 2 ^ 62" using e(6) by simp
  have fixed: "\<forall>a n. vc_fixed_ok cfg a n" using e(9) by blast
  have clear: "clear_native_views cfg env st = Some st"
    unfolding clear_native_views_def by (rule delete_native_none) (use e(8) s(5) plain_viewD(8) in blast)
  have mm: "map_memory cfg env 0 n type vprot limit_low limit_high a st =
      do { (ptr, st) \<leftarrow> search st;
           if ptr \<noteq> 0 then Some (Inr ptr, st)
           else do { st \<leftarrow> clear_native_views cfg env st; (ptr, st) \<leftarrow> search st; Some (if ptr = 0 then Inl STATUS_NO_MEMORY else Inr ptr, st) } }"
    using assms(9) unfolding map_memory_def Let_def eff_def [symmetric] search_def high_def low_def prot_def by auto
  have mv: "map_view cfg env 0 n type vprot limit_low limit_high a st =
      do { (mapped, st) \<leftarrow> map_memory cfg env 0 n type vprot limit_low limit_high a st;
           case mapped of Inl status \<Rightarrow> Some (Inl status, st)
           | Inr ptr \<Rightarrow> do { (r, st) \<leftarrow> create_view cfg ptr n vprot st;
               case r of Inl status \<Rightarrow> Some (Inl status, unmap_area cfg ptr n st) | Inr view \<Rightarrow> Some (Inr view, st) } }"
    using assms(4) lims by (auto simp: map_view_def)
  have low: "0 < low" using e(4) by (simp add: low_def)
  from alloc_free_area_spec [OF e(2) fixed e(3) s(1,3,4) assms(5-7) low high', of "type AND MEM_TOP_DOWN \<noteq> 0" prot]
  consider "search st = Some (0, st)"
    | p st' where "search st = Some (p, st')" "p \<noteq> 0" "pages_mapped p (p + n) prot st st'" "p + n \<le> high" "0x10000 dvd p"
      "\<forall>w \<in> set (views st). \<not> overlaps p n w"
    unfolding search_def by metis
  then show thesis
  proof cases
    case 1
    then show thesis by (intro failed [of STATUS_NO_MEMORY]) (simp add: mv mm clear)
  next
    case 2
    have lim: "p + n \<le> vc_user_limit cfg" using 2(4) high by simp
    have new: "new_view_ok cfg st p n"
      using 2(5,6) assms(5,7) lim table_room [OF assms(1) lim] by (auto simp: new_view_ok_def)
    obtain L R st2 where "create_view cfg p n vprot st' = Some (Inr \<lparr>v_base = p, v_size = n, v_protect = vprot\<rparr>, st2)" "proc_ok cfg st2"
        "view_created cfg L \<lparr>v_base = p, v_size = n, v_protect = vprot\<rparr> R st st2"
      using create_runs [OF e(1) assms(2) new assms(3) 2(3) [unfolded prot_def], of st' 0] assms(8) by auto
    then show thesis using 2(1,2) by (intro mapped) (simp_all add: mv mm)
  qed
qed

lemma map_anywhere_runs:
  assumes "env_ready cfg env" and "proc_ok cfg st" and "ranges_room 1 st" and "type AND MEM_REPLACE_PLACEHOLDER = 0"
    and "0 < n" and "n < 2 ^ 62" and "4096 dvd n" and "\<And>b. plain_view \<lparr>v_base = b, v_size = n, v_protect = vprot\<rparr>"
  shows "runs cfg (map_view cfg env 0 n type vprot 0 limit_high granularity_mask st)"
  using assms(2) by (cases rule: map_anywhere_spec [OF assms, of granularity_mask 0 limit_high, OF disjI2 [OF refl], case_names failed mapped]) (simp_all add: runs_def)

lemma reserve_runs:
  assumes "env_ready cfg env" and "proc_ok cfg st" and "ranges_room 1 st"
    and "type AND NOT (MEM_COMMIT OR MEM_RESERVE OR MEM_TOP_DOWN OR MEM_WRITE_WATCH OR MEM_RESET) = 0"
    and "0 < n" and "4096 dvd n"
    and "base = 0 \<and> n < 2 ^ 62 \<or>
      limit_high = 0 \<and> 0x10000 dvd base \<and> 0x10000 \<le> base \<and> base + n \<le> ae_space_limit (me_alloc env)"
  shows "runs cfg (reserve_memory cfg env base n False type protect 0 limit_high 0 st)"
proof (cases "get_vprot_flags protect False")
  case (Inl status)
  then show ?thesis using assms(2) by (simp add: reserve_memory_def)
next
  case (Inr vprot)
  note t = no_placeholders [OF assms(4)]
  have plain: "plain_view \<lparr>v_base = b, v_size = n, v_protect = vprot_of_type type protect vprot\<rparr>" for b
    by (rule plain_allocated [OF Inr t(2)])
  have "runs cfg (map_view cfg env base n type (vprot_of_type type protect vprot) 0 limit_high granularity_mask st)"
    using assms(7)
  proof
    assume "base = 0 \<and> n < 2 ^ 62"
    then show ?thesis using map_anywhere_runs [OF assms(1-3) t(1) assms(5) _ assms(6) plain] by simp
  next
    assume "limit_high = 0 \<and> 0x10000 dvd base \<and> 0x10000 \<le> base \<and> base + n \<le> ae_space_limit (me_alloc env)"
    then show ?thesis using map_here_runs [OF assms(1-3) t(1) _ _ assms(5,6) _ plain] by simp
  qed
  then show ?thesis using assms(2) Inr by (simp add: reserve_memory_def Let_def)
qed

lemma commit_runs:
  assumes "calls_work cfg" and "proc_ok cfg st" and "4096 dvd base" and "0 < n" and "4096 dvd n" and "base + n < 2 ^ 64"
  shows "runs cfg (commit_memory cfg base n protect st)"
proof (cases "find_view base n (vm_views st)")
  case None
  then show ?thesis using assms(2) by (simp add: commit_memory_def)
next
  case (Some v)
  have b: "base < 2 ^ 64" "n < 2 ^ 64" using assms(6) by simp_all
  have v: "v \<in> set (views st)" "v_base v \<le> base" "base + n \<le> v_base v + v_size v"
    using found_block [OF assms(2) Some b] by simp_all
  then have blk: "block_ok v base n" using assms(3-5) by (simp add: block_ok_def)
  note pl = plain_viewD(2,7) [OF proc_okD(5) [OF assms(2) v(1)]]
  have "runs cfg (map_option (\<lambda>(status, st). (if status \<noteq> STATUS_SUCCESS then Inl status else Inr v, st))
      (set_protection cfg v base n protect st))"
    by (rule runs_map [OF set_protection_runs [OF assms(1,2) v(1) blk]])
  then show ?thesis using Some pl by (simp add: commit_memory_def)
qed

lemma allocate_runs:
  assumes "env_ready cfg env" and "proc_ok cfg st" and "ranges_room 1 st" and "addr < 2 ^ 64" and "addr \<noteq> 1" and "sz < 2 ^ 64"
  shows "runs cfg (NtAllocateVirtualMemory cfg env None addr zero_bits sz type protect st)"
proof -
  note s = proc_okD [OF assms(2)]
  define limit where "limit = (if addr = 0 then get_zero_bits_limit zero_bits else 0)"
  have "runs cfg (allocate_virtual_memory cfg env addr sz type protect 0 limit 0 0 st)"
    if sz: "sz \<noteq> 0" and ty: "type AND NOT (MEM_COMMIT OR MEM_RESERVE OR MEM_TOP_DOWN OR MEM_WRITE_WATCH OR MEM_RESET) = 0"
  proof (cases "is_beyond_limit 0 sz (vm_working_set st)")
    case True
    then show ?thesis using assms(2) by (simp add: allocate_virtual_memory_def)
  next
    case False
    note t = no_placeholders [OF ty]
    have sz61: "sz < 2 ^ 61" using False s(6) assms(6) by (auto simp: is_beyond_limit_def add64_def)
    have sz0: "0 < sz" using sz by simp
    have ws: "\<not> is_beyond_limit 0 sz (vm_working_set st)" by (rule False)
    have fail: "runs cfg (Some ((status, None :: (nat \<times> nat) option), st))" for status :: ntstatus using assms(2) by simp
    define rest :: "nat \<Rightarrow> nat \<Rightarrow> ((ntstatus \<times> (nat \<times> nat) option) \<times> vmem) option" where
      "rest base n = do {
         let reserve = (type AND MEM_RESERVE \<noteq> 0 \<or> base = 0);
         (r, st) \<leftarrow>
           (if reserve then reserve_memory cfg env base n False type protect 0 limit 0 st
            else if type AND MEM_RESET \<noteq> 0
            then Some (case find_view base n (vm_views st) of None \<Rightarrow> Inl STATUS_NOT_MAPPED_VIEW | Some view \<Rightarrow> Inr view, st)
            else commit_memory cfg base n protect st);
         case r of
           Inl status \<Rightarrow> Some ((status, None), st)
         | Inr view \<Rightarrow> Some ((STATUS_SUCCESS, Some (if reserve then v_base view else base, n)), st)
       }" for base n
    have refused: "allocate_virtual_memory cfg env addr sz type protect 0 limit 0 0 st = Some ((status, None), st)"
      if "round_block env addr sz type = Inl status" for status
      using ws that by (simp add: allocate_virtual_memory_def)
    have alloc: "allocate_virtual_memory cfg env addr sz type protect 0 limit 0 0 st =
        (if type AND (MEM_COMMIT OR MEM_RESERVE OR MEM_RESET) = 0 then Some ((STATUS_INVALID_PARAMETER, None), st) else rest base n)"
      if "round_block env addr sz type = Inr (base, n, False)" for base n
      unfolding allocate_virtual_memory_def rest_def Let_def using ws t that
      by (cases "me_ec_view env") (simp_all cong del: sum.case_cong_weak option.case_cong_weak)
    have rest: "runs cfg (rest base n)"
      if "type AND MEM_RESERVE \<noteq> 0 \<or> base = 0 \<Longrightarrow> runs cfg (reserve_memory cfg env base n False type protect 0 limit 0 st)"
        "base \<noteq> 0 \<Longrightarrow> runs cfg (commit_memory cfg base n protect st)" for base n
    proof -
      define act where "act = (if type AND MEM_RESERVE \<noteq> 0 \<or> base = 0 then reserve_memory cfg env base n False type protect 0 limit 0 st
            else if type AND MEM_RESET \<noteq> 0
            then Some (case find_view base n (vm_views st) of None \<Rightarrow> Inl STATUS_NOT_MAPPED_VIEW | Some view \<Rightarrow> Inr view, st)
            else commit_memory cfg base n protect st)"
      have "runs cfg act" unfolding act_def by (intro runs_if that) (use assms(2) in auto)
      then obtain r st' where r: "act = Some (r, st')" "proc_ok cfg st'" by (auto simp: runs_def)
      then show ?thesis unfolding rest_def Let_def act_def [symmetric] by (cases r) (simp_all add: runs_def)
    qed
    show ?thesis
    proof (cases "addr = 0")
      case True
      obtain n where n: "round_block env 0 sz type = Inr (0, n, False)" "0 < n" "n < 2 ^ 62" "4096 dvd n"
        using round_new_block [OF sz0 sz61] by blast
      have "runs cfg (rest 0 n)"
        by (rule rest) (use reserve_runs [OF assms(1-3) ty n(2,4)] n(3) in auto)
      then show ?thesis using alloc [of 0 n] True n(1) fail by simp
    next
      case nz: False
      then have l0: "limit = 0" by (simp add: limit_def)
      from assms(4) nz assms(5) sz0 sz61 t(1) show ?thesis
      proof (cases rule: round_block_cases [where env = env])
        case (bad status)
        then show ?thesis using refused fail by simp
      next
        case (good base n)
        have "runs cfg (rest base n)"
        proof (rule rest)
          assume "type AND MEM_RESERVE \<noteq> 0 \<or> base = 0"
          then have "0x10000 dvd base" using good(2,8) by auto
          then show "runs cfg (reserve_memory cfg env base n False type protect 0 limit 0 st)"
            using reserve_runs [OF assms(1-3) ty good(3,5)] good(2,7) l0 by simp
        next
          show "runs cfg (commit_memory cfg base n protect st)"
            by (rule commit_runs [OF env_readyD(1) [OF assms(1)] assms(2) good(4,3,5,6)])
        qed
        then show ?thesis using alloc good(1) fail by simp
      qed
    qed
  qed
  then show ?thesis using assms(2) unfolding NtAllocateVirtualMemory_def limit_def [symmetric] by simp
qed

section \<open>Sequences of calls\<close>

datatype vm_call =
    Allocate (al_addr: nat) (al_zero_bits: nat) (al_size: nat) (al_type: u32) (al_protect: u32)
  | Free (fr_addr: nat) (fr_size: nat) (fr_type: u32)
  | Protect (pr_addr: nat) (pr_size: nat) (pr_protect: u32)

definition run_call :: "vcfg \<Rightarrow> map_env \<Rightarrow> protect_env \<Rightarrow> vm_call \<Rightarrow> vmem \<Rightarrow> (ntstatus \<times> vmem) option" where
  "run_call cfg env penv c st =
     (case c of
        Allocate addr zero_bits sz type protect \<Rightarrow>
          map_option (\<lambda>(r, st). (fst r, st)) (NtAllocateVirtualMemory cfg env None addr zero_bits sz type protect st)
      | Free addr sz type \<Rightarrow> map_option (\<lambda>(r, st). (fst r, st)) (NtFreeVirtualMemory cfg None addr sz type st)
      | Protect addr sz protect \<Rightarrow> map_option (\<lambda>(r, st). (fst r, st)) (NtProtectVirtualMemory cfg penv addr sz protect st))"

text \<open>
  The calls considered: any arguments, except the magic address of the DOS area, a release up to an address inside
  of a view that is no multiple of 64 KiB, and a protection change of no page.
\<close>

definition call_ok :: "vmem \<Rightarrow> vm_call \<Rightarrow> bool" where
  "call_ok st c \<longleftrightarrow>
     (case c of
        Allocate addr zero_bits sz type protect \<Rightarrow> addr < 2 ^ 64 \<and> addr \<noteq> 1 \<and> sz < 2 ^ 64
      | Free addr sz type \<Rightarrow> addr < 2 ^ 64 \<and> (type = MEM_RELEASE \<longrightarrow> release_aligned st addr sz)
      | Protect addr sz protect \<Rightarrow> addr < 2 ^ 64 \<and> round_size addr sz \<noteq> 0)"

inductive vm_reach :: "vcfg \<Rightarrow> map_env \<Rightarrow> protect_env \<Rightarrow> vmem \<Rightarrow> vmem \<Rightarrow> bool" for cfg env penv st0 where
  start: "vm_reach cfg env penv st0 st0"
| step: "vm_reach cfg env penv st0 st \<Longrightarrow> call_ok st c \<Longrightarrow> ranges_room 3 st \<Longrightarrow> run_call cfg env penv c st = Some (s, st') \<Longrightarrow>
    vm_reach cfg env penv st0 st'"

lemma call_runs:
  assumes "env_ready cfg env" and "pe_remote penv = None" and "\<not> pe_simulate_writecopy penv"
    and "proc_ok cfg st" and "call_ok st c" and "ranges_room 3 st"
  shows "runs cfg (run_call cfg env penv c st)"
proof -
  note w = env_readyD(1) [OF assms(1)]
  have room: "ranges_room 1 st" using assms(6) by (simp add: ranges_room_def)
  show ?thesis
  proof (cases c)
    case (Allocate addr zero_bits sz type protect)
    then have "runs cfg (NtAllocateVirtualMemory cfg env None addr zero_bits sz type protect st)"
      using allocate_runs [OF assms(1,4) room] assms(5) by (simp add: call_ok_def)
    then show ?thesis using runs_map by (simp add: Allocate run_call_def)
  next
    case (Free addr sz type)
    then have "runs cfg (NtFreeVirtualMemory cfg None addr sz type st)"
      using free_runs [OF w assms(4,6)] assms(5) by (simp add: call_ok_def)
    then show ?thesis using runs_map by (simp add: Free run_call_def)
  next
    case (Protect addr sz protect)
    then have "runs cfg (NtProtectVirtualMemory cfg penv addr sz protect st)"
      using protect_runs [OF w assms(4,2,3)] assms(5) by (simp add: call_ok_def)
    then show ?thesis using runs_map by (simp add: Protect run_call_def)
  qed
qed


section \<open>An example\<close>

definition machine_cfg :: vcfg where
  "machine_cfg = sample_vcfg\<lparr>vc_dirs := 0x8000\<rparr>"

lemma machine_ready: "env_ready machine_cfg sample_map_env"
  using sample_works sample_alloc_ready
  by (simp add: env_ready_def alloc_ready_def calls_work_def machine_cfg_def) (simp add: sample_vcfg_def sample_map_env_def page_of_def)

lemma machine_start: "proc_ok machine_cfg sample_vm"
proof -
  have "vm_ok machine_cfg sample_vm"
    using sample_vm_ok by (simp add: vm_ok_def sample_views view_aligned_def machine_cfg_def) (simp add: sample_vcfg_def page_of_def)
  moreover have "kernel_ok machine_cfg sample_vm" using sample_kernel_ok by (simp add: kernel_ok_def machine_cfg_def)
  moreover have "vm_working_set sample_vm < 2 ^ 61" by (simp add: sample_vm_def)
  ultimately show ?thesis
    using sample_alloc_ready by (simp add: proc_ok_def alloc_ready_def mapped_known_def sample_views plain_view_def)
qed


end
