(* ===== verification/Virtual_Faults.thy ===== *)
theory Virtual_Faults
  imports Virtual_Machine
begin

text \<open>
  Page faults (\<open>virtual_handle_fault\<close>): guard pages and the growth of thread stacks, write watches; the calls that read
  and reset write watches, and the accesses that the system makes to watched memory of the program.
\<close>

abbreviation (input) STATUS_GUARD_PAGE_VIOLATION :: ntstatus where "STATUS_GUARD_PAGE_VIOLATION \<equiv> 0x80000001"
abbreviation (input) STATUS_IN_PAGE_ERROR :: ntstatus where "STATUS_IN_PAGE_ERROR \<equiv> 0xC0000006"
abbreviation (input) STATUS_STACK_OVERFLOW :: ntstatus where "STATUS_STACK_OVERFLOW \<equiv> 0xC00000FD"
abbreviation (input) STATUS_INVALID_USER_BUFFER :: ntstatus where "STATUS_INVALID_USER_BUFFER \<equiv> 0xC00000E8"
abbreviation (input) STATUS_EXECUTABLE_MEMORY_WRITE :: ntstatus where "STATUS_EXECUTABLE_MEMORY_WRITE \<equiv> 0xC0000723"
abbreviation (input) EXCEPTION_WRITE_FAULT :: u32 where "EXCEPTION_WRITE_FAULT \<equiv> 1"
abbreviation (input) WRITE_WATCH_FLAG_RESET :: u32 where "WRITE_WATCH_FLAG_RESET \<equiv> 1"

text \<open>Flags of pages change and the kernel is told: the pair of calls of which most operations here are made.\<close>

definition change_pages :: "vcfg \<Rightarrow> nat \<Rightarrow> nat \<Rightarrow> u8 \<Rightarrow> u8 \<Rightarrow> vmem \<Rightarrow> vmem option" where
  "change_pages cfg addr sz on off st =
     map_option (\<lambda>tbl. st\<lparr>vm_tbl := tbl, vm_kprot := mprotect_range (vc_prot cfg) (vc_dirs cfg) tbl addr sz 0 0 (vm_kprot st)\<rparr>)
       (set_page_vprot_bits addr sz on off (vm_tbl st))"

section \<open>Thread stacks\<close>

record thread_stack =
  ts_start :: nat
  ts_limit :: nat
  ts_end :: nat
  ts_guaranteed :: nat

text \<open>A thread: its stack, the stack of its 32-bit side, and whether it may write to executable memory.\<close>

record thread_mem =
  tm_stack :: thread_stack
  tm_wow :: "thread_stack option"
  tm_allow_writes :: bool

record thread_stack_info =
  si_start :: nat
  si_limit :: nat
  si_end :: nat
  si_guaranteed :: nat
  si_is_wow :: bool

definition info_of :: "thread_stack \<Rightarrow> nat \<Rightarrow> bool \<Rightarrow> thread_stack_info" where
  "info_of ts least wow = \<lparr>si_start = ts_start ts, si_limit = ts_limit ts, si_end = ts_end ts,
     si_guaranteed = max (ts_guaranteed ts) least, si_is_wow = wow\<rparr>"

definition is_inside_thread_stack :: "nat \<Rightarrow> thread_mem \<Rightarrow> bool \<times> thread_stack_info" where
  "is_inside_thread_stack ptr th =
     (let stack = info_of (tm_stack th) (0x1000 * 2) False
      in if si_start stack < ptr \<and> ptr \<le> si_end stack then (True, stack)
         else case tm_wow th of
           None \<Rightarrow> (False, stack)
         | Some ts \<Rightarrow> let stack = info_of ts 0x1000 True in (si_start stack < ptr \<and> ptr \<le> si_end stack, stack))"

definition set_stack_limit :: "bool \<Rightarrow> nat \<Rightarrow> thread_mem \<Rightarrow> thread_mem" where
  "set_stack_limit wow page th =
     (if wow then th\<lparr>tm_wow := map_option (\<lambda>ts. ts\<lparr>ts_limit := page\<rparr>) (tm_wow th)\<rparr>
      else th\<lparr>tm_stack := tm_stack th\<lparr>ts_limit := page\<rparr>\<rparr>)"

definition grow_thread_stack ::
  "vcfg \<Rightarrow> nat \<Rightarrow> thread_stack_info \<Rightarrow> vmem \<Rightarrow> thread_mem \<Rightarrow> (ntstatus \<times> vmem \<times> thread_mem) option" where
  "grow_thread_stack cfg page info st th =
     do {
       st \<leftarrow> change_pages cfg page 0x1000 VPROT_COMMITTED VPROT_GUARD st;
       if si_start info + 0x1000 + si_guaranteed info \<le> page
       then do {
         st \<leftarrow> change_pages cfg (page - 0x1000) 0x1000 (VPROT_COMMITTED OR VPROT_GUARD) 0 st;
         Some (STATUS_SUCCESS, st, set_stack_limit (si_is_wow info) page th)
       }
       else do {
         let page = si_start info + 0x1000;
         st \<leftarrow> change_pages cfg page (si_guaranteed info) VPROT_COMMITTED VPROT_GUARD st;
         Some (STATUS_STACK_OVERFLOW, st, set_stack_limit (si_is_wow info) page th)
       }
     }"

section \<open>Faults\<close>

definition is_system_range :: "nat \<Rightarrow> nat \<Rightarrow> vmem \<Rightarrow> bool" where
  "is_system_range addr sz st = (case find_view addr sz (vm_views st) of None \<Rightarrow> False | Some v \<Rightarrow> v_protect v AND VPROT_SYSTEM \<noteq> 0)"

text \<open>
  The kind of the access, whether it was made on the signal stack, and whether the kernel says (\<open>mincore\<close>) that a page is
  present. The result: the status, the third parameter of the exception if there is one, the memory, the thread.
\<close>

record fault_env =
  fe_signal_stack :: bool
  fe_resident :: "nat \<Rightarrow> bool"

definition watch_fault ::
  "vcfg \<Rightarrow> nat \<Rightarrow> u8 \<Rightarrow> vmem \<Rightarrow> thread_mem \<Rightarrow> ((ntstatus \<times> ntstatus option) \<times> vmem) option" where
  "watch_fault cfg page vprot st th =
     do {
       ((ret, param), st) \<leftarrow>
         (if vprot AND VPROT_WRITEWATCH \<noteq> 0
          then if pc_write_exceptions (vc_prot cfg) \<and> is_vprot_exec_write vprot \<and> \<not> tm_allow_writes th
               then Some ((STATUS_IN_PAGE_ERROR, Some STATUS_EXECUTABLE_MEMORY_WRITE), st)
               else map_option (\<lambda>st. ((STATUS_ACCESS_VIOLATION, None), st)) (change_pages cfg page 0x1000 0 VPROT_WRITEWATCH st)
          else Some ((STATUS_ACCESS_VIOLATION, None), st));
       Some (if get_unix_prot (vc_prot cfg) (get_page_vprot (vc_dirs cfg) page (vm_tbl st)) AND PROT_WRITE \<noteq> 0 \<and>
                (vprot AND VPROT_WRITEWATCH \<noteq> 0 \<or> is_write_watch_range page 0x1000 (vm_views st))
             then (STATUS_SUCCESS, param) else (ret, param), st)
     }"

definition system_fault :: "vcfg \<Rightarrow> fault_env \<Rightarrow> nat \<Rightarrow> u8 \<Rightarrow> vmem \<Rightarrow> (ntstatus \<times> vmem) option" where
  "system_fault cfg env page vprot st =
     (let st = st\<lparr>vm_kprot := mprotect_range (vc_prot cfg) (vc_dirs cfg) (vm_tbl st) page 0x1000 0 0 (vm_kprot st)\<rparr>
      in if fe_resident env (page_of page) then Some (STATUS_SUCCESS, st)
         else let (ok, st) = anon_mmap_fixed cfg page 0x1000 (get_unix_prot (vc_prot cfg) vprot) st
              in if ok then Some (STATUS_SUCCESS, st)
                 else map_option (\<lambda>st. (STATUS_ACCESS_VIOLATION, st)) (change_vprot_bits page 0x1000 0 (VPROT_READ OR VPROT_EXEC) st))"

definition virtual_handle_fault ::
  "vcfg \<Rightarrow> fault_env \<Rightarrow> u32 \<Rightarrow> nat \<Rightarrow> vmem \<Rightarrow> thread_mem \<Rightarrow> ((ntstatus \<times> ntstatus option) \<times> vmem \<times> thread_mem) option" where
  "virtual_handle_fault cfg env err addr st th =
     (let page = round_addr addr page_mask;
          vprot = get_page_vprot (vc_dirs cfg) page (vm_tbl st)
      in if \<not> fe_signal_stack env \<and> vprot AND VPROT_GUARD \<noteq> 0
         then let (inside, info) = is_inside_thread_stack page th
              in if \<not> inside
                 then map_option (\<lambda>st. ((STATUS_GUARD_PAGE_VIOLATION, None), st, th)) (change_pages cfg page 0x1000 0 VPROT_GUARD st)
                 else map_option (\<lambda>(ret, st, th). ((ret, None), st, th)) (grow_thread_stack cfg page info st th)
         else if \<not> pc_kernel_watch (vc_prot cfg) \<and> err AND EXCEPTION_WRITE_FAULT \<noteq> 0
         then map_option (\<lambda>(r, st). (r, st, th)) (watch_fault cfg page vprot st th)
         else if err = 0 \<and> get_unix_prot (vc_prot cfg) vprot AND PROT_READ \<noteq> 0 \<and> is_system_range page 0x1000 st
         then map_option (\<lambda>(ret, st). ((ret, None), st, th)) (system_fault cfg env page vprot st)
         else Some ((STATUS_ACCESS_VIOLATION, None), st, th))"

text \<open>Room on the stack for an exception: the thread is aborted, or the new stack pointer and whether the stack overflowed.\<close>

datatype setup_result = Aborted | Frame nat bool

definition virtual_setup_exception ::
  "vcfg \<Rightarrow> bool \<Rightarrow> nat \<Rightarrow> nat \<Rightarrow> vmem \<Rightarrow> thread_mem \<Rightarrow> (setup_result \<times> vmem \<times> thread_mem) option" where
  "virtual_setup_exception cfg on_signal_stack stack sz st th =
     (let (inside, info) = is_inside_thread_stack stack th
      in if \<not> inside then Some (if on_signal_stack then Aborted else Frame (sub64 stack sz) False, st, th)
         else let stack = sub64 stack sz
              in if stack < si_start info + 0x1000 then Some (Aborted, st, th)
                 else if stack < si_limit info \<and> get_page_vprot (vc_dirs cfg) stack (vm_tbl st) AND VPROT_GUARD \<noteq> 0
                 then map_option (\<lambda>(ret, st, th). (Frame stack (ret \<noteq> STATUS_SUCCESS), st, th))
                        (grow_thread_stack cfg (round_addr stack page_mask) info st th)
                 else Some (Frame stack False, st, th))"

section \<open>Accesses of the system to memory of the program\<close>

text \<open>Whether a range may be written; pages that are watched are made writable for a while. The loop goes over \<open>n\<close> pages.\<close>

primrec check_pages :: "vcfg \<Rightarrow> vprot_table \<Rightarrow> nat \<Rightarrow> nat \<Rightarrow> bool \<Rightarrow> bool \<times> bool" where
  "check_pages cfg tbl 0 addr has_write_watch = (True, has_write_watch)"
| "check_pages cfg tbl (Suc n) addr has_write_watch =
     (let vprot = get_page_vprot (vc_dirs cfg) addr tbl;
          has_write_watch = (has_write_watch \<or> \<not> pc_kernel_watch (vc_prot cfg) \<and> vprot AND VPROT_WRITEWATCH \<noteq> 0)
      in if get_unix_prot (vc_prot cfg) (vprot AND NOT VPROT_WRITEWATCH) AND PROT_WRITE = 0 then (False, has_write_watch)
         else check_pages cfg tbl n (add64 addr 0x1000) has_write_watch)"

definition check_write_access :: "vcfg \<Rightarrow> nat \<Rightarrow> nat \<Rightarrow> bool \<Rightarrow> vmem \<Rightarrow> (ntstatus \<times> bool) \<times> vmem" where
  "check_write_access cfg base sz has_write_watch st =
     (let addr = round_addr base page_mask; sz = round_size base sz;
          (ok, has_write_watch) = check_pages cfg (vm_tbl st) (page_of sz) addr has_write_watch
      in if \<not> ok then ((STATUS_INVALID_USER_BUFFER, has_write_watch), st)
         else ((STATUS_SUCCESS, has_write_watch),
               if \<not> pc_kernel_watch (vc_prot cfg) \<and> has_write_watch
               then st\<lparr>vm_kprot := mprotect_range (vc_prot cfg) (vc_dirs cfg) (vm_tbl st) addr sz 0 VPROT_WRITEWATCH (vm_kprot st)\<rparr>
               else st))"

definition update_watches :: "vcfg \<Rightarrow> nat \<Rightarrow> nat \<Rightarrow> nat \<Rightarrow> vmem \<Rightarrow> vmem option" where
  "update_watches cfg base sz accessed_size st =
     map_option (\<lambda>(tbl, k). st\<lparr>vm_tbl := tbl, vm_kprot := k\<rparr>)
       (update_write_watches (vc_prot cfg) (vc_dirs cfg) base sz accessed_size (vm_tbl st, vm_kprot st))"

text \<open>The outcome of a system call that writes to a buffer: the size written, a fault of the buffer, or another error.\<close>

datatype io_result = Written nat | Faulted | Failed

definition locked_io :: "vcfg \<Rightarrow> io_result \<Rightarrow> io_result \<Rightarrow> nat \<Rightarrow> nat \<Rightarrow> vmem \<Rightarrow> (io_result \<times> vmem) option" where
  "locked_io cfg first again addr sz st =
     (if first \<noteq> Faulted \<or> pc_kernel_watch (vc_prot cfg) then Some (first, st)
      else let ((status, has_write_watch), st) = check_write_access cfg addr sz False st
           in if status \<noteq> STATUS_SUCCESS then Some (Faulted, st)
              else map_option (\<lambda>st. (again, st))
                     (if has_write_watch then update_watches cfg addr sz (case again of Written n \<Rightarrow> n | _ \<Rightarrow> 0) st else Some st))"

definition virtual_locked_read :: "vcfg \<Rightarrow> io_result \<Rightarrow> io_result \<Rightarrow> nat \<Rightarrow> nat \<Rightarrow> vmem \<Rightarrow> (io_result \<times> vmem) option" where
  "virtual_locked_read cfg first again addr sz st = locked_io cfg first again addr sz st"

definition virtual_locked_pread :: "vcfg \<Rightarrow> io_result \<Rightarrow> io_result \<Rightarrow> nat \<Rightarrow> nat \<Rightarrow> vmem \<Rightarrow> (io_result \<times> vmem) option" where
  "virtual_locked_pread cfg first again addr sz st = locked_io cfg first again addr sz st"

text \<open>The server's answer is its status and the size of the reply.\<close>

definition virtual_locked_server_call ::
  "vcfg \<Rightarrow> ntstatus \<times> nat \<Rightarrow> nat \<Rightarrow> nat \<Rightarrow> vmem \<Rightarrow> (ntstatus \<times> vmem) option" where
  "virtual_locked_server_call cfg answer addr sz st =
     (if sz = 0 then Some (fst answer, st)
      else let ((status, has_write_watch), st) = check_write_access cfg addr sz False st
           in if status \<noteq> STATUS_SUCCESS then Some (status, st)
              else map_option (\<lambda>st. (fst answer, st)) (if has_write_watch then update_watches cfg addr sz (snd answer) st else Some st))"

text \<open>Several buffers; \<open>done\<close> are those that were checked, the last one first, as the code goes back over them.\<close>

primrec check_buffers :: "vcfg \<Rightarrow> (nat \<times> nat) list \<Rightarrow> (nat \<times> nat) list \<Rightarrow> bool \<Rightarrow> vmem \<Rightarrow> (bool \<times> (nat \<times> nat) list \<times> bool) \<times> vmem" where
  "check_buffers cfg [] checked has_write_watch st = ((True, checked, has_write_watch), st)"
| "check_buffers cfg (b # bs) checked has_write_watch st =
     (let ((status, has_write_watch), st) = check_write_access cfg (fst b) (snd b) has_write_watch st
      in if status \<noteq> STATUS_SUCCESS then ((False, checked, has_write_watch), st)
         else check_buffers cfg bs (b # checked) has_write_watch st)"

primrec update_buffers :: "vcfg \<Rightarrow> (nat \<times> nat) list \<Rightarrow> vmem \<Rightarrow> vmem option" where
  "update_buffers cfg [] st = Some st"
| "update_buffers cfg (b # bs) st = do { st \<leftarrow> update_watches cfg (fst b) (snd b) 0 st; update_buffers cfg bs st }"

definition virtual_locked_recvmsg ::
  "vcfg \<Rightarrow> io_result \<Rightarrow> io_result \<Rightarrow> (nat \<times> nat) list \<Rightarrow> vmem \<Rightarrow> (io_result \<times> vmem) option" where
  "virtual_locked_recvmsg cfg first again iov st =
     (if first \<noteq> Faulted \<or> pc_kernel_watch (vc_prot cfg) then Some (first, st)
      else let ((all_ok, checked, has_write_watch), st) = check_buffers cfg iov [] False st
           in map_option (\<lambda>st. (if all_ok then again else Faulted, st))
                (if has_write_watch then update_buffers cfg checked st else Some st))"

definition virtual_uninterrupted_write_memory :: "vcfg \<Rightarrow> nat \<Rightarrow> nat \<Rightarrow> vmem \<Rightarrow> (ntstatus \<times> vmem) option" where
  "virtual_uninterrupted_write_memory cfg addr sz st =
     (if sz = 0 then Some (STATUS_SUCCESS, st)
      else let ((status, has_write_watch), st) = check_write_access cfg addr sz False st
           in if status \<noteq> STATUS_SUCCESS then Some (status, st)
              else map_option (\<lambda>st. (STATUS_SUCCESS, st)) (if has_write_watch then update_watches cfg addr sz sz st else Some st))"

text \<open>How many bytes can be read: pages are read as long as they are readable.\<close>

function read_loop :: "vcfg \<Rightarrow> vprot_table \<Rightarrow> nat \<Rightarrow> nat \<Rightarrow> nat \<Rightarrow> nat" where
  "read_loop cfg tbl addr sz bytes_read =
     (if bytes_read < sz \<and> get_unix_prot (vc_prot cfg) (get_page_vprot (vc_dirs cfg) addr tbl) AND PROT_READ \<noteq> 0
      then let block_size = min (sz - bytes_read) (0x1000 - addr mod 0x1000)
           in read_loop cfg tbl (add64 addr block_size) sz (bytes_read + block_size)
      else bytes_read)"
  by pat_completeness auto
termination by (relation "measure (\<lambda>(cfg, tbl, addr, sz, bytes_read). sz - bytes_read)") auto

declare read_loop.simps [simp del]

definition virtual_uninterrupted_read_memory :: "vcfg \<Rightarrow> nat \<Rightarrow> nat \<Rightarrow> vmem \<Rightarrow> nat" where
  "virtual_uninterrupted_read_memory cfg addr sz st =
     (if sz = 0 then 0
      else case find_view addr sz (vm_views st) of
        None \<Rightarrow> 0
      | Some view \<Rightarrow> if v_protect view AND VPROT_SYSTEM = 0 then read_loop cfg (vm_tbl st) addr sz 0 else 0)"

definition virtual_is_valid_code_address :: "nat \<Rightarrow> nat \<Rightarrow> vmem \<Rightarrow> bool" where
  "virtual_is_valid_code_address addr sz st =
     (case find_view addr sz (vm_views st) of None \<Rightarrow> False | Some view \<Rightarrow> v_protect view AND VPROT_SYSTEM = 0)"

section \<open>Reading and resetting write watches\<close>

text \<open>The addresses of pages without the flag, at most \<open>count\<close> of them, and where the walk stopped.\<close>

function watch_loop :: "nat \<Rightarrow> vprot_table \<Rightarrow> nat \<Rightarrow> nat \<Rightarrow> nat \<Rightarrow> nat list \<times> nat" where
  "watch_loop dirs tbl count addr end =
     (if 0 < count \<and> addr < end
      then if get_page_vprot dirs addr tbl AND VPROT_WRITEWATCH = 0
           then let (rest, stop) = watch_loop dirs tbl (count - 1) (addr + 0x1000) end in (addr # rest, stop)
           else watch_loop dirs tbl count (addr + 0x1000) end
      else ([], addr))"
  by pat_completeness auto
termination by (relation "measure (\<lambda>(dirs, tbl, count, addr, end). end - addr)") auto

declare watch_loop.simps [simp del]

definition reset_watches :: "vcfg \<Rightarrow> nat \<Rightarrow> nat \<Rightarrow> vmem \<Rightarrow> vmem option" where
  "reset_watches cfg base sz st =
     map_option (\<lambda>(tbl, k). st\<lparr>vm_tbl := tbl, vm_kprot := k\<rparr>)
       (reset_write_watches (vc_prot cfg) (vc_dirs cfg) base sz (vm_tbl st, vm_kprot st))"

text \<open>
  \<open>watched\<close> is the answer of the kernel where it keeps the watches; \<open>count\<close> is the room of the caller, or a null pointer.
  On success the addresses come back, and with them their number and the size of a page.
\<close>

definition NtGetWriteWatch ::
  "vcfg \<Rightarrow> ntstatus \<times> nat list \<Rightarrow> u32 \<Rightarrow> nat \<Rightarrow> nat \<Rightarrow> bool \<Rightarrow> nat option \<Rightarrow> bool \<Rightarrow> vmem \<Rightarrow> ((ntstatus \<times> nat list option) \<times> vmem) option" where
  "NtGetWriteWatch cfg watched flags base sz has_addresses count has_granularity st =
     (let sz = round_size base sz; base = round_addr base page_mask
      in case (if has_granularity then count else None) of
           None \<Rightarrow> Some ((STATUS_ACCESS_VIOLATION, None), st)
         | Some n \<Rightarrow>
             if n = 0 \<or> sz = 0 then Some ((STATUS_INVALID_PARAMETER, None), st)
             else if flags AND NOT WRITE_WATCH_FLAG_RESET \<noteq> 0 then Some ((STATUS_INVALID_PARAMETER, None), st)
             else if \<not> has_addresses then Some ((STATUS_ACCESS_VIOLATION, None), st)
             else if \<not> is_write_watch_range base sz (vm_views st) then Some ((STATUS_INVALID_PARAMETER, None), st)
             else if pc_kernel_watch (vc_prot cfg)
             then Some ((fst watched, if fst watched = STATUS_SUCCESS then Some (snd watched) else None), st)
             else let (addresses, stop) = watch_loop (vc_dirs cfg) (vm_tbl st) n base (add64 base sz)
                  in map_option (\<lambda>st. ((STATUS_SUCCESS, Some addresses), st))
                       (if flags AND WRITE_WATCH_FLAG_RESET \<noteq> 0 then reset_watches cfg base (stop - base) st else Some st))"

definition NtResetWriteWatch :: "vcfg \<Rightarrow> nat \<Rightarrow> nat \<Rightarrow> vmem \<Rightarrow> (ntstatus \<times> vmem) option" where
  "NtResetWriteWatch cfg base sz st =
     (let sz = round_size base sz; base = round_addr base page_mask
      in if sz = 0 then Some (STATUS_INVALID_PARAMETER, st)
         else if is_write_watch_range base sz (vm_views st)
         then map_option (\<lambda>st. (STATUS_SUCCESS, st)) (reset_watches cfg base sz st)
         else Some (STATUS_INVALID_PARAMETER, st))"

end
