(* ===== verification/Virtual_Watch.thy ===== *)
theory Virtual_Watch
  imports Virtual_Faults
begin

text \<open>
  Write watches from end to end: what the program writes after a reset is what it is told when it asks, page by page;
  and what system calls write for the program.
\<close>

section \<open>Changing flags of pages of a view\<close>

lemma change_pages_spec:
  assumes "calls_work cfg" and "vm_ok cfg st" and "v \<in> set (views st)" and "block_ok v base sz"
  obtains st' where "change_pages cfg base sz on off st = Some st'"
    "pages_set cfg v (page_of base) (page_of (base + sz)) (\<lambda>x. (x AND NOT off) OR on) st st'"
    "tables_only st st'"
proof -
  note b = block_bounds [OF assms(2-4)]
  have w: "mprotect_works (vc_prot cfg)" and n: "0 < sz" using assms(1,4) by (simp_all add: calls_work_def block_ok_def)
  obtain tbl where t: "set_page_vprot_bits base sz on off (vm_tbl st) = Some tbl"
      "bytes_changed (page_of base) (page_of (base + sz)) (\<lambda>x. (x AND NOT off) OR on) (vm_tbl st) tbl"
    using set_page_vprot_bits_spec [of "vm_tbl st" base sz on off] b(3) unfolding b(5) by blast
  define st' where "st' = st\<lparr>vm_tbl := tbl, vm_kprot := mprotect_range (vc_prot cfg) (vc_dirs cfg) tbl base sz 0 0 (vm_kprot st)\<rparr>"
  have "table_covers (vc_dirs cfg) tbl base sz"
    using b(6) bytes_changed_pages [OF t(2)] by (simp add: table_covers_def)
  from mprotect_range_spec [OF w this n, of 0 0 "vm_kprot st"]
  have k: "vm_kprot st' p = (if page_of base \<le> p \<and> p < page_of (base + sz)
      then forced_prot (vc_prot cfg) (get_unix_prot (vc_prot cfg) (vbyte tbl p)) else vm_kprot st p)" for p
    by (simp add: st'_def b(5))
  have "pages_set cfg v (page_of base) (page_of (base + sz)) (\<lambda>x. (x AND NOT off) OR on) st st'"
    using assms(3) b(1,2) t(2) k by (auto simp: pages_set_def kernel_agrees_def) (simp_all add: st'_def)
  moreover have "change_pages cfg base sz on off st = Some st'" using t(1) by (simp add: change_pages_def st'_def)
  moreover have "tables_only st st'" by (simp add: tables_only_def st'_def)
  ultimately show thesis using that by blast
qed

lemma reset_is_change:
  assumes "\<not> pc_kernel_watch (vc_prot cfg)"
  shows "reset_watches cfg base sz st = change_pages cfg base sz VPROT_WRITEWATCH 0 st"
  using assms by (auto simp: reset_watches_def reset_write_watches_def change_pages_def split: bind_splits)

lemma get_page_view:
  assumes "vm_ok cfg st" and "v \<in> set (views st)" and "in_view v p"
  shows "get_page_vprot (vc_dirs cfg) (p * 4096) (vm_tbl st) = vbyte (vm_tbl st) p"
proof (rule get_page_vprot_there)
  show "p < vc_dirs cfg * block_pages" using vm_okD(2) [OF assms(1,2)] assms(3) by (simp add: view_aligned_def in_view_def)
qed

section \<open>Watched memory\<close>

text \<open>A byte of a page that could be written if it were not watched.\<close>

definition writable_byte :: "protcfg \<Rightarrow> u8 \<Rightarrow> bool" where
  "writable_byte cfg b \<longleftrightarrow> b AND VPROT_COMMITTED \<noteq> 0 \<and> b AND VPROT_GUARD = 0 \<and> get_unix_prot cfg (b AND NOT VPROT_WRITEWATCH) AND PROT_WRITE \<noteq> 0"

definition watched_block :: "vcfg \<Rightarrow> file_view \<Rightarrow> nat \<Rightarrow> nat \<Rightarrow> vmem \<Rightarrow> bool" where
  "watched_block cfg v base sz st \<longleftrightarrow> vm_ok cfg st \<and> kernel_ok cfg st \<and> v \<in> set (views st) \<and> block_ok v base sz \<and>
     v_protect v AND VPROT_WRITEWATCH \<noteq> 0 \<and> v_protect v AND VPROT_SYSTEM = 0 \<and>
     (\<forall>p. in_cut base sz p \<longrightarrow> writable_byte (vc_prot cfg) (vbyte (vm_tbl st) p))"

text \<open>The pages of a block that were written since the last reset.\<close>

definition touched :: "nat \<Rightarrow> nat \<Rightarrow> vmem \<Rightarrow> nat \<Rightarrow> bool" where
  "touched base sz st p \<longleftrightarrow> in_cut base sz p \<and> vbyte (vm_tbl st) p AND VPROT_WRITEWATCH = 0"

text \<open>A write of the program: the processor asks the kernel's protection; after a fault that was handled it tries again.\<close>

definition program_write :: "vcfg \<Rightarrow> fault_env \<Rightarrow> thread_mem \<Rightarrow> nat \<Rightarrow> vmem \<Rightarrow> vmem option" where
  "program_write cfg env th addr st =
     (if vm_kprot st (page_of addr) AND PROT_WRITE \<noteq> 0 then Some st
      else case virtual_handle_fault cfg env EXCEPTION_WRITE_FAULT addr st th of
        Some ((ret, _), st, _) \<Rightarrow> if ret = STATUS_SUCCESS \<and> vm_kprot st (page_of addr) AND PROT_WRITE \<noteq> 0 then Some st else None
      | None \<Rightarrow> None)"

primrec program_writes :: "vcfg \<Rightarrow> fault_env \<Rightarrow> thread_mem \<Rightarrow> nat list \<Rightarrow> vmem \<Rightarrow> vmem option" where
  "program_writes cfg env th [] st = Some st"
| "program_writes cfg env th (x # xs) st = do { st \<leftarrow> program_write cfg env th x st; program_writes cfg env th xs st }"

subsection \<open>Bits\<close>

lemma forced_write: "forced_prot cfg prot AND PROT_WRITE = prot AND PROT_WRITE"
proof -
  have "(prot OR PROT_EXEC) AND PROT_WRITE = prot AND PROT_WRITE" by (simp add: bit.conj_disj_distrib2)
  then show ?thesis by (simp add: forced_prot_def)
qed

lemma watch_idem:
  fixes b :: u8
  assumes "b AND VPROT_WRITEWATCH = 0"
  shows "b AND NOT VPROT_WRITEWATCH = b"
proof (rule bit_eqI)
  fix n
  have "bit (b AND VPROT_WRITEWATCH) n = False" using assms by simp
  then show "bit (b AND NOT VPROT_WRITEWATCH) n = bit b n" using bit_imp_le_length [of b n] by (auto simp: bit_simps)
qed

lemma watched_no_write: "\<not> pc_kernel_watch cfg \<Longrightarrow> b AND VPROT_WRITEWATCH \<noteq> 0 \<Longrightarrow> get_unix_prot cfg b AND PROT_WRITE = 0"
  by (auto simp: get_unix_prot_def Let_def)

lemma writable_write:
  assumes "\<not> pc_kernel_watch cfg" and "writable_byte cfg b"
  shows "forced_prot cfg (get_unix_prot cfg b) AND PROT_WRITE = 0 \<longleftrightarrow> b AND VPROT_WRITEWATCH \<noteq> 0"
  using watched_no_write [OF assms(1), of b] watch_idem [of b] assms(2) unfolding forced_write writable_byte_def by auto

lemma writable_cleared: "writable_byte cfg b \<Longrightarrow> writable_byte cfg (b AND NOT VPROT_WRITEWATCH)"
  and writable_set: "writable_byte cfg b \<Longrightarrow> writable_byte cfg (b OR VPROT_WRITEWATCH)"
proof -
  have c: "(b AND NOT VPROT_WRITEWATCH) AND VPROT_COMMITTED = b AND VPROT_COMMITTED" "(b AND NOT VPROT_WRITEWATCH) AND VPROT_GUARD = b AND VPROT_GUARD"
    "(b OR VPROT_WRITEWATCH) AND VPROT_COMMITTED = b AND VPROT_COMMITTED" "(b OR VPROT_WRITEWATCH) AND VPROT_GUARD = b AND VPROT_GUARD"
    by (simp_all add: bit.conj_disj_distrib2 and.assoc)
  have n: "(b AND NOT VPROT_WRITEWATCH) AND NOT VPROT_WRITEWATCH = b AND NOT VPROT_WRITEWATCH"
    "(b OR VPROT_WRITEWATCH) AND NOT VPROT_WRITEWATCH = b AND NOT VPROT_WRITEWATCH"
    by (simp_all add: bit.conj_disj_distrib2 and.assoc)
  show "writable_byte cfg b \<Longrightarrow> writable_byte cfg (b AND NOT VPROT_WRITEWATCH)" unfolding writable_byte_def c n by simp
  show "writable_byte cfg b \<Longrightarrow> writable_byte cfg (b OR VPROT_WRITEWATCH)" unfolding writable_byte_def c n by simp
qed

lemma cleared_watch: "(b AND NOT VPROT_WRITEWATCH) AND VPROT_WRITEWATCH = (0 :: u8)"
  by (simp add: and.assoc)

lemma set_watch: "(b OR VPROT_WRITEWATCH) AND VPROT_WRITEWATCH \<noteq> (0 :: u8)"
  by (simp add: bit.conj_disj_distrib2)

subsection \<open>Steps\<close>

text \<open>Flags of pages of the block change and all of them stay writable.\<close>

lemma change_keeps_watched:
  assumes "watched_block cfg v base sz st" and "pages_set cfg v a b f st st'"
    and "\<forall>p. a \<le> p \<and> p < b \<longrightarrow> in_cut base sz p" and "\<And>x. writable_byte (vc_prot cfg) x \<Longrightarrow> writable_byte (vc_prot cfg) (f x)"
  shows "watched_block cfg v base sz st'"
proof -
  have w: "vm_ok cfg st" "kernel_ok cfg st" using assms(1) by (simp_all add: watched_block_def)
  have f: "vm_views st' = vm_views st" "vbyte (vm_tbl st') p = (if a \<le> p \<and> p < b then f (vbyte (vm_tbl st) p) else vbyte (vm_tbl st) p)" for p
    using assms(2) by (simp_all add: pages_set_def bytes_changed_def)
  show ?thesis
    using assms(1,4) set_keeps_ok [OF assms(2) w(1)] set_keeps_kernel [OF assms(2) w(2)] unfolding watched_block_def f by auto
qed

lemma block_pages_of:
  assumes "block_ok v base sz" and "base \<le> addr" and "addr < base + sz"
  shows "in_cut base sz (page_of addr)" "round_addr addr page_mask = page_of addr * 4096" "block_ok v (page_of addr * 4096) 0x1000"
    "page_of (page_of addr * 4096 + 0x1000) = page_of addr + 1"
proof -
  have b: "4096 dvd base" "4096 dvd base + sz" "v_base v \<le> base" "base + sz \<le> v_base v + v_size v"
    using assms(1) by (auto simp: block_ok_def)
  show r: "round_addr addr page_mask = page_of addr * 4096" by (simp add: round_addr_def page_of_def)
  have "addr < (page_of addr + 1) * 4096" "page_of addr * 4096 \<le> addr" by (simp_all add: page_of_def)
  then have "page_of addr * 4096 < page_of (base + sz) * 4096" using page_of_aligned [OF b(2)] assms(3) by simp
  then have lt: "page_of addr < page_of (base + sz)" by simp
  moreover have ge: "page_of base \<le> page_of addr" by (rule page_of_mono) (rule assms(2))
  ultimately show "in_cut base sz (page_of addr)" by simp
  have "base \<le> page_of addr * 4096" using page_of_aligned [OF b(1)] ge by (metis mult_le_mono1)
  moreover have "page_of addr * 4096 + 4096 \<le> base + sz"
    using lt page_of_aligned [OF b(2)] by (metis Suc_leI add.commute mult_Suc mult_le_mono1)
  ultimately show "block_ok v (page_of addr * 4096) 0x1000" using b(3,4) by (simp add: block_ok_def)
  show "page_of (page_of addr * 4096 + 0x1000) = page_of addr + 1" by (simp add: page_of_def)
qed

lemma write_step:
  assumes "calls_work cfg" and "\<not> pc_kernel_watch (vc_prot cfg)" and "\<not> pc_write_exceptions (vc_prot cfg)"
    and "watched_block cfg v base sz st" and "base \<le> addr" and "addr < base + sz"
  obtains st' where "program_write cfg env th addr st = Some st'" "watched_block cfg v base sz st'"
    "\<forall>p. touched base sz st' p \<longleftrightarrow> p = page_of addr \<or> touched base sz st p"
proof -
  define p where "p = page_of addr"
  define b where "b = vbyte (vm_tbl st) p"
  have w: "vm_ok cfg st" "kernel_ok cfg st" "v \<in> set (views st)" "block_ok v base sz" "v_protect v AND VPROT_WRITEWATCH \<noteq> 0"
    "v_protect v AND VPROT_SYSTEM = 0" "\<And>p. in_cut base sz p \<Longrightarrow> writable_byte (vc_prot cfg) (vbyte (vm_tbl st) p)"
    using assms(4) unfolding watched_block_def by blast+
  note q = block_pages_of [OF w(4) assms(5,6), folded p_def]
  note bb = block_bounds(1,2) [OF w(1,3,4)]
  have inv: "in_view v p" using q(1) bb by (simp add: in_view_def)
  have wb: "writable_byte (vc_prot cfg) b" using w(7) [OF q(1)] by (simp add: b_def)
  have k: "vm_kprot st p = forced_prot (vc_prot cfg) (get_unix_prot (vc_prot cfg) b)"
    using w(2,3,6) inv unfolding kernel_ok_def kernel_agrees_def b_def in_view_def by blast
  have kw: "vm_kprot st p AND PROT_WRITE = 0 \<longleftrightarrow> b AND VPROT_WRITEWATCH \<noteq> 0" unfolding k by (rule writable_write [OF assms(2) wb])
  show thesis
  proof (cases "vm_kprot st p AND PROT_WRITE = 0")
    case False
    then have "touched base sz st p" using q(1) kw by (simp add: touched_def b_def)
    moreover have "program_write cfg env th addr st = Some st" using False by (simp add: program_write_def p_def)
    ultimately show thesis using that [of st] assms(4) by (auto simp: p_def)
  next
    case True
    then have ww: "b AND VPROT_WRITEWATCH \<noteq> 0" using kw by simp
    have ng: "b AND VPROT_GUARD = 0" using wb by (simp add: writable_byte_def)
    obtain st' where c: "change_pages cfg (p * 4096) 0x1000 0 VPROT_WRITEWATCH st = Some st'"
        "pages_set cfg v p (p + 1) (\<lambda>x. (x AND NOT VPROT_WRITEWATCH) OR 0) st st'"
      using change_pages_spec [OF assms(1) w(1,3) q(3), of 0 VPROT_WRITEWATCH] unfolding q(4) page_of_mult by blast
    have f: "vm_views st' = vm_views st" "vbyte (vm_tbl st') i = (if i = p then vbyte (vm_tbl st) i AND NOT VPROT_WRITEWATCH else vbyte (vm_tbl st) i)"
      "kernel_agrees (vc_prot cfg) (vm_tbl st') (vm_kprot st') p (p + 1)" for i
      using c(2) by (auto simp: pages_set_def bytes_changed_def)
    have w': "watched_block cfg v base sz st'"
      by (rule change_keeps_watched [OF assms(4) c(2)]) (use q(1) writable_cleared in \<open>auto simp: le_Suc_eq less_Suc_eq\<close>)
    have g: "get_page_vprot (vc_dirs cfg) (p * 4096) (vm_tbl st) = b" using get_page_view [OF w(1,3) inv] by (simp add: b_def)
    have b': "vbyte (vm_tbl st') p = b AND NOT VPROT_WRITEWATCH" by (simp add: f(2) b_def)
    have "vm_ok cfg st'" "v \<in> set (views st')" using w' by (simp_all add: watched_block_def)
    then have g': "get_page_vprot (vc_dirs cfg) (p * 4096) (vm_tbl st') = b AND NOT VPROT_WRITEWATCH"
      using get_page_view [of cfg st' v p] inv b' by simp
    have pw: "get_unix_prot (vc_prot cfg) (b AND NOT VPROT_WRITEWATCH) AND PROT_WRITE \<noteq> 0" using wb by (simp add: writable_byte_def)
    have "watch_fault cfg (p * 4096) b st th = Some ((STATUS_SUCCESS, None), st')"
      using ww assms(3) c(1) g' pw by (simp add: watch_fault_def)
    then have "virtual_handle_fault cfg env EXCEPTION_WRITE_FAULT addr st th = Some ((STATUS_SUCCESS, None), st', th)"
      using ng assms(2) g by (simp add: virtual_handle_fault_def q(2) Let_def)
    moreover have "vm_kprot st' p AND PROT_WRITE \<noteq> 0"
      using f(3) pw by (simp add: kernel_agrees_def forced_write b')
    ultimately have "program_write cfg env th addr st = Some st'" using True by (simp add: program_write_def p_def)
    moreover have "touched base sz st' i \<longleftrightarrow> i = p \<or> touched base sz st i" for i
      using q(1) by (auto simp: touched_def f(2) cleared_watch [simplified])
    ultimately show thesis using that w' by (simp add: p_def)
  qed
qed

lemma writes_spec:
  assumes "calls_work cfg" and "\<not> pc_kernel_watch (vc_prot cfg)" and "\<not> pc_write_exceptions (vc_prot cfg)"
    and "watched_block cfg v base sz st" and "\<forall>x \<in> set xs. base \<le> x \<and> x < base + sz"
  obtains st' where "program_writes cfg env th xs st = Some st'" "watched_block cfg v base sz st'"
    "\<forall>p. touched base sz st' p \<longleftrightarrow> p \<in> page_of ` set xs \<or> touched base sz st p"
  using assms(4,5)
proof (induction xs arbitrary: st thesis)
  case Nil
  then show ?case by simp
next
  case (Cons x xs)
  obtain st1 where s1: "program_write cfg env th x st = Some st1" "watched_block cfg v base sz st1"
      "\<forall>p. touched base sz st1 p \<longleftrightarrow> p = page_of x \<or> touched base sz st p"
    using write_step [OF assms(1-3) Cons.prems(2), of x env th] Cons.prems(3) by auto
  obtain st2 where s2: "program_writes cfg env th xs st1 = Some st2" "watched_block cfg v base sz st2"
      "\<forall>p. touched base sz st2 p \<longleftrightarrow> p \<in> page_of ` set xs \<or> touched base sz st1 p"
    using Cons.IH [OF _ s1(2)] Cons.prems(3) by auto
  show ?case using Cons.prems(1) [of st2] s1 s2 by auto
qed

subsection \<open>Asking and resetting\<close>

lemma watch_loop_spec:
  assumes "\<And>p. a \<le> p \<Longrightarrow> p < b \<Longrightarrow> get_page_vprot dirs (p * 4096) tbl = vbyte tbl p" and "a \<le> b"
  shows "fst (watch_loop dirs tbl n (a * 4096) (b * 4096)) =
    take n (map (\<lambda>p. p * 4096) (filter (\<lambda>p. vbyte tbl p AND VPROT_WRITEWATCH = 0) [a..<b]))"
  using assms
proof (induction "b - a" arbitrary: a n)
  case 0
  then show ?case by (subst watch_loop.simps) simp
next
  case (Suc k)
  have lt: "a < b" and k: "k = b - (a + 1)" using Suc.hyps(2) by simp_all
  have g: "get_page_vprot dirs (a * 4096) tbl = vbyte tbl a" using Suc.prems(1) lt by simp
  have up: "[a..<b] = a # [a + 1..<b]" using lt by (simp add: upt_conv_Cons)
  have nxt: "a * 4096 + 0x1000 = (a + 1) * 4096" by simp
  show ?case
  proof (cases n)
    case 0
    then show ?thesis by (subst watch_loop.simps) simp
  next
    case (Suc m)
    have ih: "fst (watch_loop dirs tbl j ((a + 1) * 4096) (b * 4096)) =
        take j (map (\<lambda>p. p * 4096) (filter (\<lambda>p. vbyte tbl p AND VPROT_WRITEWATCH = 0) [a + 1..<b]))" for j
      by (rule Suc.hyps(1) [OF k]) (use Suc.prems lt in auto)
    show ?thesis
      using lt ih [of m] ih [of n] Suc unfolding up
      by (subst watch_loop.simps) (simp add: g nxt case_prod_beta del: upt_Suc mult_Suc)
  qed
qed

lemma watch_view_found:
  assumes "watched_block cfg v base sz st"
  shows "is_write_watch_range base sz (vm_views st)" "round_size base sz = sz" "round_addr base page_mask = base" "0 < sz"
    "add64 base sz = base + sz" "base = page_of base * 4096" "base + sz = page_of (base + sz) * 4096" "page_of base \<le> page_of (base + sz)"
proof -
  have w: "vm_ok cfg st" "v \<in> set (views st)" "block_ok v base sz" "v_protect v AND VPROT_WRITEWATCH \<noteq> 0"
    using assms unfolding watched_block_def by blast+
  have c: "0 < sz" "4096 dvd base" "4096 dvd sz" "v_base v \<le> base" "base + sz \<le> v_base v + v_size v" using w(3) by (simp_all add: block_ok_def)
  have "find_view base sz (vm_views st) = Some v" using find_block [OF w(1,2)] c by simp
  then show "is_write_watch_range base sz (vm_views st)" using w(4) by (simp add: is_write_watch_range_def)
  show "0 < sz" by (rule c(1))
  have s: "base + sz + 4095 < 2 ^ 64" by (rule block_bounds(4) [OF w(1-3)])
  show "add64 base sz = base + sz" using s by (simp add: add64_def)
  show r: "round_addr base page_mask = base" by (rule round_addr_same [OF c(2)])
  show "base = page_of base * 4096" "base + sz = page_of (base + sz) * 4096" using page_of_aligned c(2,3) by (simp_all add: dvd_add)
  show "page_of base \<le> page_of (base + sz)" by (rule page_of_mono) simp
  have "sz + 4095 < 2 ^ 64" using s by simp
  moreover have "(sz + 4095) div 4096 * 4096 = sz" using c(3) by (auto elim!: dvdE)
  ultimately show "round_size base sz = sz" using c(2) by (simp add: round_size_def add64_def round_addr_def mod_eq_0_iff_dvd [symmetric])
qed

lemma reset_spec:
  assumes "calls_work cfg" and "\<not> pc_kernel_watch (vc_prot cfg)" and "watched_block cfg v base sz st"
  obtains st' where "NtResetWriteWatch cfg base sz st = Some (STATUS_SUCCESS, st')" "watched_block cfg v base sz st'"
    "\<forall>p. \<not> touched base sz st' p"
proof -
  note r = watch_view_found [OF assms(3)]
  have w: "vm_ok cfg st" "v \<in> set (views st)" "block_ok v base sz" using assms(3) unfolding watched_block_def by blast+
  obtain st' where c: "change_pages cfg base sz VPROT_WRITEWATCH 0 st = Some st'"
      "pages_set cfg v (page_of base) (page_of (base + sz)) (\<lambda>x. (x AND NOT 0) OR VPROT_WRITEWATCH) st st'"
    using change_pages_spec [OF assms(1) w] by blast
  have "watched_block cfg v base sz st'"
    by (rule change_keeps_watched [OF assms(3) c(2)]) (use writable_set in auto)
  moreover have "\<not> touched base sz st' p" for p
    using c(2) set_watch [of "vbyte (vm_tbl st) p"] by (auto simp: touched_def pages_set_def bytes_changed_def)
  moreover have "NtResetWriteWatch cfg base sz st = Some (STATUS_SUCCESS, st')"
    using r(1-4) c(1) by (simp add: NtResetWriteWatch_def reset_is_change [OF assms(2)])
  ultimately show thesis using that by blast
qed

lemma get_spec:
  assumes "\<not> pc_kernel_watch (vc_prot cfg)" and "watched_block cfg v base sz st" and "0 < n"
  shows "NtGetWriteWatch cfg watched 0 base sz True (Some n) True st =
    Some ((STATUS_SUCCESS, Some (take n (map (\<lambda>p. p * 4096) (filter (touched base sz st) [page_of base..<page_of (base + sz)])))), st)"
proof -
  note r = watch_view_found [OF assms(2)]
  have w: "vm_ok cfg st" "v \<in> set (views st)" "block_ok v base sz" using assms(2) unfolding watched_block_def by blast+
  have g: "get_page_vprot (vc_dirs cfg) (p * 4096) (vm_tbl st) = vbyte (vm_tbl st) p" if "page_of base \<le> p" "p < page_of (base + sz)" for p
    using get_page_view [OF w(1,2)] block_bounds(1,2) [OF w] that by (simp add: in_view_def)
  have f: "filter (touched base sz st) [page_of base..<page_of (base + sz)] =
      filter (\<lambda>p. vbyte (vm_tbl st) p AND VPROT_WRITEWATCH = 0) [page_of base..<page_of (base + sz)]"
    by (rule filter_cong) (auto simp: touched_def)
  have "fst (watch_loop (vc_dirs cfg) (vm_tbl st) n base (base + sz)) =
      take n (map (\<lambda>p. p * 4096) (filter (touched base sz st) [page_of base..<page_of (base + sz)]))"
    using watch_loop_spec [of "page_of base" "page_of (base + sz)" "vc_dirs cfg" "vm_tbl st" n] g r(8) unfolding f r(6,7) [symmetric] by blast
  then show ?thesis
    using r(1-5) assms(1,3) by (simp add: NtGetWriteWatch_def case_prod_beta)
qed

text \<open>
  C21: Write watches from end to end: after a reset of a block of watched memory, the program writes anywhere in it, any
  number of times; all of the writes succeed, and the call that asks for the written pages returns their addresses in
  ascending order, each once, up to the room of the caller.
\<close>
theorem watched_writes_reported:
  assumes "calls_work cfg" and "\<not> pc_kernel_watch (vc_prot cfg)" and "\<not> pc_write_exceptions (vc_prot cfg)"
    and "watched_block cfg v base sz st" and "\<forall>x \<in> set xs. base \<le> x \<and> x < base + sz" and "0 < n"
  shows "\<exists>st1 st2. NtResetWriteWatch cfg base sz st = Some (STATUS_SUCCESS, st1) \<and> program_writes cfg env th xs st1 = Some st2 \<and>
    NtGetWriteWatch cfg watched 0 base sz True (Some n) True st2 =
      Some ((STATUS_SUCCESS, Some (take n (map (\<lambda>p. p * 4096) (filter (\<lambda>p. p \<in> page_of ` set xs) [page_of base..<page_of (base + sz)])))), st2)"
proof -
  obtain st1 where s1: "NtResetWriteWatch cfg base sz st = Some (STATUS_SUCCESS, st1)" "watched_block cfg v base sz st1"
      "\<forall>p. \<not> touched base sz st1 p"
    using reset_spec [OF assms(1,2,4)] by blast
  obtain st2 where s2: "program_writes cfg env th xs st1 = Some st2" "watched_block cfg v base sz st2"
      "\<forall>p. touched base sz st2 p \<longleftrightarrow> p \<in> page_of ` set xs \<or> touched base sz st1 p"
    using writes_spec [OF assms(1-3) s1(2) assms(5)] by blast
  have "touched base sz st2 = (\<lambda>p. p \<in> page_of ` set xs)" using s2(3) s1(3) by (simp add: fun_eq_iff)
  then show ?thesis using s1(1) s2(1) get_spec [OF assms(2) s2(2) assms(6), of watched] by auto
qed

section \<open>System calls that write to watched memory\<close>

lemma check_pages_spec:
  assumes "\<not> pc_kernel_watch (vc_prot cfg)" and "(a + n) * 4096 < 2 ^ 64"
    and "\<And>p. a \<le> p \<Longrightarrow> p < a + n \<Longrightarrow> get_page_vprot (vc_dirs cfg) (p * 4096) tbl = vbyte tbl p \<and> writable_byte (vc_prot cfg) (vbyte tbl p)"
  shows "check_pages cfg tbl n (a * 4096) has = (True, has \<or> (\<exists>p. a \<le> p \<and> p < a + n \<and> vbyte tbl p AND VPROT_WRITEWATCH \<noteq> 0))"
  using assms(2,3)
proof (induction n arbitrary: a has)
  case 0
  then show ?case by auto
next
  case (Suc n)
  have g: "get_page_vprot (vc_dirs cfg) (a * 4096) tbl = vbyte tbl a" "writable_byte (vc_prot cfg) (vbyte tbl a)" using Suc.prems(2) [of a] by simp_all
  have nxt: "add64 (a * 4096) 0x1000 = (a + 1) * 4096" using Suc.prems(1) by (simp add: add64_def)
  have ih: "check_pages cfg tbl n ((a + 1) * 4096) h = (True, h \<or> (\<exists>p. a + 1 \<le> p \<and> p < a + 1 + n \<and> vbyte tbl p AND VPROT_WRITEWATCH \<noteq> 0))" for h
    by (rule Suc.IH) (use Suc.prems in auto)
  have ex: "(\<exists>p. a \<le> p \<and> p < a + Suc n \<and> P p) \<longleftrightarrow> P a \<or> (\<exists>p. a + 1 \<le> p \<and> p < a + 1 + n \<and> P p)" for P :: "nat \<Rightarrow> bool"
  proof -
    have "a \<le> p \<and> p < a + Suc n \<longleftrightarrow> p = a \<or> a + 1 \<le> p \<and> p < a + 1 + n" for p by auto
    then have "(\<exists>p. a \<le> p \<and> p < a + Suc n \<and> P p) \<longleftrightarrow> (\<exists>p. (p = a \<or> a + 1 \<le> p \<and> p < a + 1 + n) \<and> P p)" by metis
    then show ?thesis by blast
  qed
  show ?case
    using g assms(1) unfolding check_pages.simps nxt ih ex by (auto simp: writable_byte_def Let_def)
qed

text \<open>The state while a system call may write, and after it.\<close>

lemma check_write_spec:
  assumes "\<not> pc_kernel_watch (vc_prot cfg)" and "watched_block cfg v base sz st"
  obtains has st' where "check_write_access cfg base sz h st = ((STATUS_SUCCESS, h \<or> has), st')"
    "has \<longleftrightarrow> (\<exists>p. in_cut base sz p \<and> \<not> touched base sz st p)" "vm_tbl st' = vm_tbl st"
proof -
  note r = watch_view_found [OF assms(2)]
  have w: "vm_ok cfg st" "v \<in> set (views st)" "block_ok v base sz" using assms(2) unfolding watched_block_def by blast+
  have c: "4096 dvd base" "4096 dvd sz" using w(3) by (simp_all add: block_ok_def)
  have e: "page_of base + page_of sz = page_of (base + sz)" using page_of_add [OF c(1)] by simp
  define has where "has \<longleftrightarrow> (\<exists>p. page_of base \<le> p \<and> p < page_of base + page_of sz \<and> vbyte (vm_tbl st) p AND VPROT_WRITEWATCH \<noteq> 0)"
  have "check_pages cfg (vm_tbl st) (page_of sz) (page_of base * 4096) h = (True, h \<or> has)"
    unfolding has_def
  proof (rule check_pages_spec [OF assms(1)])
    show "(page_of base + page_of sz) * 4096 < 2 ^ 64" using r(7) block_bounds(4) [OF w] unfolding e by simp
  next
    fix p assume "page_of base \<le> p" "p < page_of base + page_of sz"
    then have p: "in_cut base sz p" "in_view v p" using e block_bounds(1,2) [OF w] by (simp_all add: in_view_def)
    then show "get_page_vprot (vc_dirs cfg) (p * 4096) (vm_tbl st) = vbyte (vm_tbl st) p \<and> writable_byte (vc_prot cfg) (vbyte (vm_tbl st) p)"
      using get_page_view [OF w(1,2)] assms(2) unfolding watched_block_def by blast
  qed
  then have cp: "check_pages cfg (vm_tbl st) (page_of sz) base h = (True, h \<or> has)" using r(6) by simp
  define st' where "st' = (if h \<or> has
    then st\<lparr>vm_kprot := mprotect_range (vc_prot cfg) (vc_dirs cfg) (vm_tbl st) base sz 0 VPROT_WRITEWATCH (vm_kprot st)\<rparr> else st)"
  have "check_write_access cfg base sz h st = ((STATUS_SUCCESS, h \<or> has), st')"
    using cp assms(1) by (simp add: check_write_access_def r(2,3) st'_def)
  moreover have "has \<longleftrightarrow> (\<exists>p. in_cut base sz p \<and> \<not> touched base sz st p)" unfolding has_def e touched_def by blast
  moreover have "vm_tbl st' = vm_tbl st" by (simp add: st'_def)
  ultimately show thesis using that by blast
qed

lemma update_watches_spec:
  assumes "watched_block cfg v base sz st" and "vm_tbl st1 = vm_tbl st" and "m \<le> sz"
  obtains st' where "update_watches cfg base sz m st1 = Some st'"
    "\<forall>p. touched base sz st' p \<longleftrightarrow> touched base sz st p \<or> page_of base \<le> p \<and> p < page_of (base + m + 4095)"
proof -
  have w: "vm_ok cfg st" "v \<in> set (views st)" "block_ok v base sz" using assms(1) unfolding watched_block_def by blast+
  note b = block_bounds [OF w]
  have e: "page_end base m = page_of (base + m + 4095)" using b(4) assms(3) by (simp add: page_end_nat page_of_def)
  have le: "page_of (base + m + 4095) \<le> page_of (base + sz)"
    using page_of_mono [of "base + m + 4095" "base + sz + 4095"] assms(3) page_end_nat [OF b(4)] b(5) by (simp add: page_of_def)
  have h: "has_pages (vm_tbl st1) (page_of base) (page_end base m)"
    unfolding e assms(2) by (rule has_pages_mono [OF b(3) le_refl le])
  obtain tbl where t: "set_page_vprot_bits base m 0 VPROT_WRITEWATCH (vm_tbl st1) = Some tbl"
      "bytes_changed (page_of base) (page_end base m) (\<lambda>x. (x AND NOT VPROT_WRITEWATCH) OR 0) (vm_tbl st1) tbl"
    using set_page_vprot_bits_spec [OF h] by blast
  define st' where "st' = st1\<lparr>vm_tbl := tbl, vm_kprot := mprotect_range (vc_prot cfg) (vc_dirs cfg) tbl base sz 0 0 (vm_kprot st1)\<rparr>"
  have "update_watches cfg base sz m st1 = Some st'"
    using t(1) by (simp add: update_watches_def update_write_watches_def st'_def)
  moreover have "touched base sz st' p \<longleftrightarrow> touched base sz st p \<or> page_of base \<le> p \<and> p < page_of (base + m + 4095)" for p
    using t(2) le unfolding e assms(2) by (auto simp: touched_def st'_def bytes_changed_def cleared_watch [simplified])
  ultimately show thesis using that by blast
qed


section \<open>An example\<close>

text \<open>One view of 32 pages whose writes are watched; two of them were written.\<close>

definition watched_vm :: vmem where
  "watched_vm = \<lparr>vm_views = \<langle>\<langle>\<rangle>, \<lparr>v_base = 0x10000, v_size = 0x20000, v_protect = 0x63\<rparr>, \<langle>\<rangle>\<rangle>,
     vm_ranges = [\<lparr>r_base = 0, r_end = 0x10000\<rparr>, \<lparr>r_base = 0x30000, r_end = 2 ^ 64 - 1\<rparr>],
     vm_tbl = [0 \<mapsto> (\<lambda>i. if 16 \<le> i \<and> i < 48 then if i < 18 then 0x23 else 0x63 else 0)], vm_reserved = [], vm_ecmap = (\<lambda>_. 0),
     vm_kprot = (\<lambda>p. if 16 \<le> p \<and> p < 48 then if p < 18 then 3 else 1 else 0), vm_mapped = (\<lambda>p. 16 \<le> p \<and> p < 48),
     vm_working_set = 0x7fffffff0000\<rparr>"

definition watched_view :: file_view where
  "watched_view = \<lparr>v_base = 0x10000, v_size = 0x20000, v_protect = 0x63\<rparr>"

lemma watched_vbyte: "vbyte (vm_tbl watched_vm) p = (if 16 \<le> p \<and> p < 48 then if p < 18 then 0x23 else 0x63 else 0)"
proof (cases "p < block_pages")
  case False
  then have "p div block_pages \<noteq> 0" by (simp add: div_eq_0_iff)
  then show ?thesis using False by (simp add: watched_vm_def vbyte_def vprot_at_def)
qed (simp add: watched_vm_def vbyte_def vprot_at_def)

lemma watched_views: "views watched_vm = [watched_view]" "v_base watched_view = 0x10000" "v_size watched_view = 0x20000"
  "v_protect watched_view = 0x63"
  by (simp_all add: watched_vm_def watched_view_def)

lemma watched_sample:
  "watched_block sample_vcfg watched_view 0x12000 0x8000 watched_vm"
  "\<not> pc_kernel_watch (vc_prot sample_vcfg)" "\<not> pc_write_exceptions (vc_prot sample_vcfg)"
proof -
  have "granule_base 0x10000 = 0x10000" "granule_end 0x10000 0x20000 = 0x30000"
    by (simp_all add: granule_base_def granule_end_def add64_def round_addr_def)
  then have "ranges_track (map span (views watched_vm)) (vm_ranges watched_vm)"
    by (auto simp: ranges_track_def watched_views span_def granules_def ranges_ok_Cons watched_vm_def)
  moreover have "views_ok (views watched_vm)" by (simp add: watched_views views_ok_def spans_ok_def span_def)
  moreover have "has_pages (vm_tbl watched_vm) 16 48" by (auto simp: has_pages_def watched_vm_def)
  moreover have "view_aligned sample_vcfg watched_view" by (simp add: view_aligned_def watched_views sample_vcfg_def page_of_def)
  ultimately have ok: "vm_ok sample_vcfg watched_vm"
    by (auto simp: vm_ok_def watched_views page_of_def in_view_def watched_vbyte)
  have "vm_kprot watched_vm = (\<lambda>p. if 16 \<le> p \<and> p < 48 then if p < 18 then 3 else 1 else 0)" by (simp add: watched_vm_def)
  then have "kernel_ok sample_vcfg watched_vm"
    by (auto simp: kernel_ok_def kernel_agrees_def watched_views page_of_def watched_vbyte sample_vcfg_def sample_protcfg_def
        get_unix_prot_def forced_prot_def)
  moreover have "writable_byte (vc_prot sample_vcfg) 0x23" "writable_byte (vc_prot sample_vcfg) 0x63"
    by (simp_all add: writable_byte_def get_unix_prot_def sample_vcfg_def sample_protcfg_def)
  ultimately show "watched_block sample_vcfg watched_view 0x12000 0x8000 watched_vm"
    using ok by (simp add: watched_block_def watched_views block_ok_def page_of_def watched_vbyte)
  show "\<not> pc_kernel_watch (vc_prot sample_vcfg)" "\<not> pc_write_exceptions (vc_prot sample_vcfg)"
    by (simp_all add: sample_vcfg_def sample_protcfg_def)
qed

definition sample_thread :: thread_mem where
  "sample_thread = \<lparr>tm_stack = \<lparr>ts_start = 0x100000, ts_limit = 0x1f0000, ts_end = 0x200000, ts_guaranteed = 0\<rparr>, tm_wow = None, tm_allow_writes = False\<rparr>"

theorem watched_writes_reported_witness:
  "\<exists>st1 st2. NtResetWriteWatch sample_vcfg 0x12000 0x8000 watched_vm = Some (STATUS_SUCCESS, st1) \<and>
    program_writes sample_vcfg \<lparr>fe_signal_stack = False, fe_resident = (\<lambda>_. True)\<rparr> sample_thread [0x15004, 0x12ffc, 0x15008] st1 = Some st2 \<and>
    NtGetWriteWatch sample_vcfg (0, []) 0 0x12000 0x8000 True (Some 10) True st2 = Some ((STATUS_SUCCESS, Some [0x12000, 0x15000]), st2)"
proof -
  have "map (\<lambda>p. p * 4096) (filter (\<lambda>p. p \<in> page_of ` set [0x15004, 0x12ffc, 0x15008]) [page_of 0x12000..<page_of (0x12000 + 0x8000)]) = [0x12000, 0x15000]"
    by (simp add: page_of_def upt_rec)
  moreover have "\<forall>x \<in> set [0x15004, 0x12ffc, 0x15008 :: nat]. 0x12000 \<le> x \<and> x < 0x12000 + 0x8000" by simp
  ultimately show ?thesis
    using watched_writes_reported [OF sample_works watched_sample(2,3,1), of "[0x15004, 0x12ffc, 0x15008]" 10
        "\<lparr>fe_signal_stack = False, fe_resident = (\<lambda>_. True)\<rparr>" sample_thread] by simp
qed


end
