(* ===== verification/Virtual_Query.thy ===== *)
theory Virtual_Query
  imports Virtual_Watch
begin

text \<open>
  What a program is told about its memory: the basic information about a region, and the size of the committed part of
  a view (\<open>NtQueryVirtualMemory\<close> for these two classes).
\<close>

abbreviation (input) STATUS_INFO_LENGTH_MISMATCH :: ntstatus where "STATUS_INFO_LENGTH_MISMATCH \<equiv> 0xC0000004"
abbreviation (input) STATUS_NOT_IMPLEMENTED :: ntstatus where "STATUS_NOT_IMPLEMENTED \<equiv> 0xC0000002"
abbreviation (input) STATUS_INVALID_ADDRESS :: ntstatus where "STATUS_INVALID_ADDRESS \<equiv> 0xC0000141"
abbreviation (input) MEM_FREE :: u32 where "MEM_FREE \<equiv> 0x10000"
abbreviation (input) MEM_PRIVATE :: u32 where "MEM_PRIVATE \<equiv> 0x20000"
abbreviation (input) MEM_MAPPED :: u32 where "MEM_MAPPED \<equiv> 0x40000"
abbreviation (input) MEM_IMAGE :: u32 where "MEM_IMAGE \<equiv> 0x1000000"

section \<open>Regions\<close>

text \<open>The view of an address and its borders, or the borders of the gap between views.\<close>

fun region_search :: "nat \<Rightarrow> file_view tree \<Rightarrow> nat \<Rightarrow> nat \<Rightarrow> file_view option \<times> nat \<times> nat" where
  "region_search base \<langle>\<rangle> region_start region_end = (None, region_start, region_end)"
| "region_search base \<langle>l, view, r\<rangle> region_start region_end =
     (if base < v_base view then region_search base l region_start (v_base view)
      else if view_end view \<le> base then region_search base r (view_end view) region_end
      else (Some view, v_base view, view_end view))"

definition get_memory_region_size :: "nat \<Rightarrow> vmem \<Rightarrow> file_view option \<times> nat \<times> nat" where
  "get_memory_region_size base st = region_search base (vm_views st) 0 (vm_working_set st)"

section \<open>Basic information\<close>

record basic_info =
  bi_base :: nat
  bi_alloc_base :: nat
  bi_alloc_protect :: u32
  bi_size :: nat
  bi_state :: u32
  bi_protect :: u32
  bi_type :: u32

definition fill_basic_memory_info ::
  "vcfg \<Rightarrow> (nat \<Rightarrow> nat \<Rightarrow> (nat \<times> bool) option) \<Rightarrow> nat \<Rightarrow> vmem \<Rightarrow> ((ntstatus + basic_info) \<times> vmem) option" where
  "fill_basic_memory_info cfg ask addr st =
     (let base = round_addr addr page_mask
      in if is_beyond_limit base 1 (vm_working_set st) then Some (Inl STATUS_INVALID_PARAMETER, st)
         else let (view, alloc_base, alloc_end) = get_memory_region_size base st
              in case view of
                   None \<Rightarrow> Some (Inr \<lparr>bi_base = base, bi_alloc_base = 0, bi_alloc_protect = 0, bi_size = alloc_end - base,
                                    bi_state = MEM_FREE, bi_protect = PAGE_NOACCESS, bi_type = 0\<rparr>, st)
                 | Some v \<Rightarrow> do {
                     ((sz, vprot), st) \<leftarrow> get_committed_size cfg ask v base (2 ^ 64 - 1) (NOT VPROT_WRITEWATCH) st;
                     Some (Inr \<lparr>bi_base = base, bi_alloc_base = alloc_base,
                       bi_alloc_protect = get_win32_prot (ucast (v_protect v)) (v_protect v), bi_size = sz,
                       bi_state = (if vprot AND VPROT_COMMITTED \<noteq> 0 then MEM_COMMIT else MEM_RESERVE),
                       bi_protect = (if vprot AND VPROT_COMMITTED \<noteq> 0 then get_win32_prot vprot (v_protect v) else 0),
                       bi_type = (if v_protect v AND SEC_IMAGE \<noteq> 0 then MEM_IMAGE
                                  else if v_protect v AND (SEC_FILE OR SEC_RESERVE OR SEC_COMMIT) \<noteq> 0 then MEM_MAPPED
                                  else MEM_PRIVATE)\<rparr>, st)
                   })"

text \<open>The answer of another process: the status of the call to it, its own status, and the information.\<close>

definition get_basic_memory_info ::
  "vcfg \<Rightarrow> (nat \<Rightarrow> nat \<Rightarrow> (nat \<times> bool) option) \<Rightarrow> (ntstatus \<times> ntstatus \<times> basic_info) option \<Rightarrow> nat \<Rightarrow> nat \<Rightarrow> vmem \<Rightarrow>
     ((ntstatus + basic_info) \<times> vmem) option" where
  "get_basic_memory_info cfg ask remote addr len st =
     (if len < 48 then Some (Inl STATUS_INFO_LENGTH_MISMATCH, st)
      else case remote of
        Some (status, result, info) \<Rightarrow>
          Some (if status \<noteq> STATUS_SUCCESS then Inl status
                else if result = STATUS_SUCCESS then Inr info else Inl result, st)
      | None \<Rightarrow> fill_basic_memory_info cfg ask addr st)"

section \<open>Information about a view\<close>

record region_info =
  ri_alloc_base :: nat
  ri_alloc_protect :: u32
  ri_size :: "nat option"
  ri_commit_size :: "nat option"

text \<open>Runs of pages with equal flags are added up when they are committed and, in sections, copied on write (the code names
  the bit by the constant of the caller's protections, \<open>PAGE_WRITECOPY\<close>, which has the same value).\<close>

partial_function (option) commit_loop ::
  "vcfg \<Rightarrow> (nat \<Rightarrow> nat \<Rightarrow> (nat \<times> bool) option) \<Rightarrow> file_view \<Rightarrow> u8 \<Rightarrow> nat \<Rightarrow> nat \<Rightarrow> nat \<Rightarrow> vmem \<Rightarrow> (nat \<times> vmem) option" where
  "commit_loop cfg ask view vprot_mask base region_end commit st =
     (if base = region_end then Some (commit, st)
      else do {
        ((sz, vprot), st) \<leftarrow> get_committed_size cfg ask view base (2 ^ 64 - 1) vprot_mask st;
        if sz = 0 then Some (commit, st)
        else commit_loop cfg ask view vprot_mask (add64 base sz) region_end
               (if vprot AND vprot_mask = vprot_mask then commit + sz else commit) st
      })"

text \<open>The sizes are filled in when there is room for them: the fields begin at the offsets 24 and 32.\<close>

definition get_memory_region_info ::
  "vcfg \<Rightarrow> (nat \<Rightarrow> nat \<Rightarrow> (nat \<times> bool) option) \<Rightarrow> bool \<Rightarrow> nat \<Rightarrow> nat \<Rightarrow> vmem \<Rightarrow> ((ntstatus + region_info) \<times> vmem) option" where
  "get_memory_region_info cfg ask own_process addr len st =
     (if len < 24 then Some (Inl STATUS_INFO_LENGTH_MISMATCH, st)
      else if \<not> own_process then Some (Inl STATUS_NOT_IMPLEMENTED, st)
      else let base = round_addr addr page_mask
           in if is_beyond_limit base 1 (vm_working_set st) then Some (Inl STATUS_INVALID_PARAMETER, st)
              else case get_memory_region_size base st of
                (None, _, _) \<Rightarrow> Some (Inl STATUS_INVALID_ADDRESS, st)
              | (Some v, region_start, region_end) \<Rightarrow> do {
                  (commit, st) \<leftarrow>
                    (if 32 \<le> len
                     then map_option (\<lambda>(n, st). (Some n, st))
                            (commit_loop cfg ask v (if is_view_valloc v then VPROT_COMMITTED else VPROT_COMMITTED OR VPROT_WRITECOPY)
                               region_start region_end 0 st)
                     else Some (None, st));
                  Some (Inr \<lparr>ri_alloc_base = v_base v, ri_alloc_protect = get_win32_prot (ucast (v_protect v)) (v_protect v),
                             ri_size = Some (v_size v), ri_commit_size = commit\<rparr>, st)
                })"

section \<open>The answers are true\<close>

text \<open>A gap: every view ends below it or begins above it, and its borders are those of views, or of the search.\<close>

definition gap_ok :: "file_view set \<Rightarrow> nat \<Rightarrow> nat \<Rightarrow> nat \<Rightarrow> nat \<Rightarrow> nat \<Rightarrow> bool" where
  "gap_ok vs base s e a b \<longleftrightarrow>
     (\<forall>w \<in> vs. v_base w + v_size w \<le> base \<and> v_base w + v_size w \<le> a \<or> base < v_base w \<and> b \<le> v_base w) \<and>
     (a = s \<or> (\<exists>w \<in> vs. a = v_base w + v_size w)) \<and> (b = e \<or> (\<exists>w \<in> vs. base < v_base w \<and> b = v_base w))"

lemma region_search_spec:
  assumes "views_ok (inorder t)"
  shows "(case region_search base t s e of
      (Some v, a, b) \<Rightarrow> v \<in> set (inorder t) \<and> v_base v \<le> base \<and> base < v_base v + v_size v \<and> a = v_base v \<and> b = v_base v + v_size v
    | (None, a, b) \<Rightarrow> gap_ok (set (inorder t)) base s e a b)"
  using assms
proof (induction base t s e rule: region_search.induct)
  case (1 base s e)
  then show ?case by (simp add: gap_ok_def)
next
  case (2 base l v r s e)
  have ok: "views_ok (inorder l @ v # inorder r)" using 2(3) by simp
  note p = views_ok_split [OF ok]
  have ve: "view_end v = v_base v + v_size v" by (rule view_end_nat [OF p(5)])
  have un: "set (inorder \<langle>l, v, r\<rangle>) = insert v (set (inorder l) \<union> set (inorder r))" by simp
  consider (left) "base < v_base v" | (right) "\<not> base < v_base v" "v_base v + v_size v \<le> base"
    | (here) "\<not> base < v_base v" "\<not> v_base v + v_size v \<le> base" by linarith
  then show ?case
  proof cases
    case left
    have ih: "case region_search base l s (v_base v) of
        (Some v, a, b) \<Rightarrow> v \<in> set (inorder l) \<and> v_base v \<le> base \<and> base < v_base v + v_size v \<and> a = v_base v \<and> b = v_base v + v_size v
      | (None, a, b) \<Rightarrow> gap_ok (set (inorder l)) base s (v_base v) a b"
      by (rule 2(1) [OF left p(1)])
    have up: "gap_ok (set (inorder \<langle>l, v, r\<rangle>)) base s e a b" if g: "gap_ok (set (inorder l)) base s (v_base v) a b" for a b
    proof -
      have "b \<le> v_base v" using g p(6) unfolding gap_ok_def by (auto intro: order_trans [OF le_add1])
      then show ?thesis using g left p(7) unfolding gap_ok_def un by fastforce
    qed
    then show ?thesis using ih left by (auto simp del: inorder.simps simp: un split: prod.splits option.splits)
  next
    case right
    have ih: "case region_search base r (v_base v + v_size v) e of
        (Some v, a, b) \<Rightarrow> v \<in> set (inorder r) \<and> v_base v \<le> base \<and> base < v_base v + v_size v \<and> a = v_base v \<and> b = v_base v + v_size v
      | (None, a, b) \<Rightarrow> gap_ok (set (inorder r)) base (v_base v + v_size v) e a b"
      by (rule 2(2) [OF right(1) _ p(2), unfolded ve]) (rule right(2))
    have up: "gap_ok (set (inorder \<langle>l, v, r\<rangle>)) base s e a b" if g: "gap_ok (set (inorder r)) base (v_base v + v_size v) e a b" for a b
    proof -
      have "v_base v + v_size v \<le> a" using g p(7) unfolding gap_ok_def by (auto intro: trans_le_add1)
      then show ?thesis using g right p(6) unfolding gap_ok_def un by fastforce
    qed
    then show ?thesis using ih right ve by (auto simp del: inorder.simps simp: un split: prod.splits option.splits)
  next
    case here
    then show ?thesis using ve by simp
  qed
qed

text \<open>Runs of equal bytes.\<close>

lemma first_diff_run:
  assumes "a \<le> b"
  shows "\<forall>p. a \<le> p \<and> p < first_diff tbl v msk a b \<longrightarrow> (v XOR vbyte tbl p) AND msk = 0"
    and "first_diff tbl v msk a b = b \<or> (v XOR vbyte tbl (first_diff tbl v msk a b)) AND msk \<noteq> 0"
  using assms
proof (induction "b - a" arbitrary: a)
  case 0
  {
    case 1
    have "a = b" using 1 0 by simp
    then show ?case by auto
  next
    case 2
    have "a = b" using 2 0 by simp
    then show ?case by (simp add: first_diff_def)
  }
next
  case (Suc n)
  have n: "n = b - (a + 1)" "a + 1 \<le> b" using Suc.hyps(3) by simp_all
  note ih = Suc.hyps(1,2) [OF n]
  have st: "first_diff tbl v msk a b = (if (v XOR vbyte tbl a) AND msk = 0 then first_diff tbl v msk (a + 1) b else a)"
    using n(2) by (intro first_diff_step) simp
  {
    case 1
    show ?case
    proof (intro allI impI)
      fix p assume p: "a \<le> p \<and> p < first_diff tbl v msk a b"
      show "(v XOR vbyte tbl p) AND msk = 0"
        using p ih(1) unfolding st by (cases "p = a") (auto split: if_splits)
    qed
  next
    case 2
    show ?case unfolding st using ih(2) by auto
  }
qed

lemma committed_run:
  assumes "vm_ok cfg st" and "v \<in> set (views st)" and "v_protect v AND SEC_RESERVE = 0"
    and "4096 dvd base" and "v_base v \<le> base" and "base < v_base v + v_size v"
  obtains n where "get_committed_size cfg ask v base (2 ^ 64 - 1) msk st = Some ((n * 4096, vbyte (vm_tbl st) (page_of base)), st)"
    "0 < n" "base + n * 4096 \<le> v_base v + v_size v"
    "\<forall>p. page_of base \<le> p \<and> p < page_of base + n \<longrightarrow> (vbyte (vm_tbl st) (page_of base) XOR vbyte (vm_tbl st) p) AND msk = 0"
    "base + n * 4096 = v_base v + v_size v \<or>
      (vbyte (vm_tbl st) (page_of base) XOR vbyte (vm_tbl st) (page_of base + n)) AND msk \<noteq> 0"
proof -
  note vb = view_bounds [OF assms(1,2)]
  define sz where "sz = v_base v + v_size v - base"
  define c where "c = vbyte (vm_tbl st) (page_of base)"
  have sz: "0 < sz" "base + sz = v_base v + v_size v" "4096 dvd sz" "sz < 2 ^ 64"
    using assms(4-6) vb by (auto simp: sz_def intro: dvd_diff_nat)
  have blk: "block_ok v base sz" using sz assms(4,5) by (simp add: block_ok_def)
  note b = block_bounds [OF assms(1,2) blk]
  have e: "page_of base + page_of sz = page_of (base + sz)" using page_of_add [OF assms(4)] by simp
  have m: "min (v_size v - (base - v_base v)) (2 ^ 64 - 1) = sz" using assms(5) sz(4) by (simp add: sz_def)
  define d where "d = first_diff (vm_tbl st) c msk (page_of base) (page_of (base + sz))"
  have le: "page_of base \<le> page_of (base + sz)" by (rule page_of_mono) simp
  have lt: "page_of base < page_of (base + sz)" 
  proof -
    have "0 < page_of sz" using sz(1,3) by (auto simp: page_of_def elim!: dvdE)
    then show ?thesis using e by linarith
  qed
  have d: "page_of base < d" "d \<le> page_of (base + sz)"
  proof -
    show "d \<le> page_of (base + sz)" using first_diff_le [OF le] by (simp add: d_def)
    have "d \<noteq> page_of base" using first_diff_run(2) [OF le, of "vm_tbl st" c msk] lt by (auto simp: d_def c_def)
    then show "page_of base < d" using first_diff_le [OF le, of "vm_tbl st" c msk] by (simp add: d_def)
  qed
  have "get_vprot_range_size base sz msk (vm_tbl st) = Some ((d - page_of base) * 4096, c)"
    using vprot_range_first_diff [of base sz "vm_tbl st" msk] b(3) sz(1,3) assms(4) unfolding d_def c_def e by (simp add: mod_eq_0_iff_dvd)
  then have g: "get_committed_size cfg ask v base (2 ^ 64 - 1) msk st = Some (((d - page_of base) * 4096, c), st)"
    using assms(3) m by (simp add: get_committed_size_def round_addr_same [OF assms(4)])
  have bd: "base + (d - page_of base) * 4096 = d * 4096"
    using d(1) page_of_aligned [OF assms(4)] by (simp add: diff_mult_distrib)
  have end_eq: "page_of (base + sz) * 4096 = base + sz" by (rule page_of_aligned) (use assms(4) sz(3) in simp)
  have pd: "page_of base + (d - page_of base) = d" using d(1) by simp
  show thesis
  proof (rule that [of "d - page_of base"])
    show "get_committed_size cfg ask v base (2 ^ 64 - 1) msk st = Some (((d - page_of base) * 4096, vbyte (vm_tbl st) (page_of base)), st)"
      using g by (simp add: c_def)
    show "0 < d - page_of base" using d(1) by simp
    show "base + (d - page_of base) * 4096 \<le> v_base v + v_size v"
      using mult_le_mono1 [OF d(2), of 4096] bd end_eq sz(2) by linarith
    show "\<forall>p. page_of base \<le> p \<and> p < page_of base + (d - page_of base) \<longrightarrow> (vbyte (vm_tbl st) (page_of base) XOR vbyte (vm_tbl st) p) AND msk = 0"
      unfolding pd using first_diff_run(1) [OF le, of "vm_tbl st" c msk] by (simp add: d_def c_def)
    show "base + (d - page_of base) * 4096 = v_base v + v_size v \<or>
        (vbyte (vm_tbl st) (page_of base) XOR vbyte (vm_tbl st) (page_of base + (d - page_of base))) AND msk \<noteq> 0"
      unfolding bd pd using first_diff_run(2) [OF le, of "vm_tbl st" c msk] end_eq sz(2) by (auto simp: d_def c_def)
  qed
qed

text \<open>The view of an address is found with its borders.\<close>

lemma in_view_iff:
  assumes "vm_ok cfg st" and "w \<in> set (views st)"
  shows "in_view w (page_of addr) \<longleftrightarrow> v_base w \<le> page_of addr * 4096 \<and> page_of addr * 4096 < v_base w + v_size w"
proof -
  note vb = view_bounds [OF assms]
  have "4096 dvd v_base w + v_size w" using vb(3,4) by simp
  then have e: "page_of (v_base w) * 4096 = v_base w" "page_of (v_base w + v_size w) * 4096 = v_base w + v_size w"
    using page_of_aligned vb(3) by blast+
  have "page_of (v_base w) \<le> page_of addr \<longleftrightarrow> page_of (v_base w) * 4096 \<le> page_of addr * 4096" by simp
  moreover have "page_of addr < page_of (v_base w + v_size w) \<longleftrightarrow> page_of addr * 4096 < page_of (v_base w + v_size w) * 4096" by simp
  ultimately show ?thesis unfolding e in_view_def by simp
qed

lemma region_found:
  assumes "vm_ok cfg st" and "v \<in> set (views st)" and "in_view v (page_of addr)"
  shows "get_memory_region_size (page_of addr * 4096) st = (Some v, v_base v, v_base v + v_size v)"
proof -
  obtain vo a b where g: "get_memory_region_size (page_of addr * 4096) st = (vo, a, b)" by (metis prod_cases3)
  note sp = region_search_spec [OF vm_okD(1) [OF assms(1)], of "page_of addr * 4096" 0 "vm_working_set st",
      folded get_memory_region_size_def, unfolded g prod.case]
  have iv: "v_base v \<le> page_of addr * 4096" "page_of addr * 4096 < v_base v + v_size v"
    using in_view_iff [OF assms(1,2)] assms(3) by blast+
  show ?thesis
  proof (cases vo)
    case None
    then have "gap_ok (set (views st)) (page_of addr * 4096) 0 (vm_working_set st) a b" using sp by simp
    then show ?thesis using assms(2) iv unfolding gap_ok_def by fastforce
  next
    case (Some w)
    then have w: "w \<in> set (views st)" "v_base w \<le> page_of addr * 4096" "page_of addr * 4096 < v_base w + v_size w"
      "a = v_base w" "b = v_base w + v_size w" using sp by simp_all
    have "in_view w (page_of addr)" using in_view_iff [OF assms(1) w(1)] w(2,3) by blast
    then have "w = v" using view_unique [OF vm_okD(1) [OF assms(1)] assms(2,3) w(1)] by blast
    then show ?thesis using g Some w(4,5) by simp
  qed
qed

section \<open>The committed part of a view\<close>

lemma same_masked: "(a XOR b) AND m = 0 \<Longrightarrow> b AND m = a AND m" for a b m :: "'a::len word"
  by (auto simp: bit_eq_iff bit_and_iff bit_xor_iff)

lemma commit_loop_sum:
  assumes "vm_ok cfg st" and "v \<in> set (views st)" and "v_protect v AND SEC_RESERVE = 0"
    and "4096 dvd base" and "v_base v \<le> base" and "base \<le> v_base v + v_size v"
  shows "commit_loop cfg ask v msk base (v_base v + v_size v) commit st =
    Some (commit + 4096 * card {p. page_of base \<le> p \<and> p < page_of (v_base v + v_size v) \<and> vbyte (vm_tbl st) p AND msk = msk}, st)"
  using assms(4-6)
proof (induction "v_base v + v_size v - base" arbitrary: base commit rule: less_induct)
  case less
  let ?e = "v_base v + v_size v" and ?c = "\<lambda>a. {p. a \<le> p \<and> p < page_of (v_base v + v_size v) \<and> vbyte (vm_tbl st) p AND msk = msk}"
  show ?case
  proof (cases "base = ?e")
    case True
    then have none: "?c (page_of base) = {}" by auto
    show ?thesis unfolding none by (subst commit_loop.simps) (simp add: True)
  next
    case False
    then have lt: "base < ?e" using less.prems(3) by simp
    obtain n where n: "get_committed_size cfg ask v base (2 ^ 64 - 1) msk st = Some ((n * 4096, vbyte (vm_tbl st) (page_of base)), st)"
        "0 < n" "base + n * 4096 \<le> ?e"
        "\<forall>p. page_of base \<le> p \<and> p < page_of base + n \<longrightarrow> (vbyte (vm_tbl st) (page_of base) XOR vbyte (vm_tbl st) p) AND msk = 0"
      using committed_run [OF assms(1-3) less.prems(1,2) lt] by blast
    have b: "add64 base (n * 4096) = base + n * 4096"
      using n(3) view_bounds [OF assms(1,2)] by (simp add: add64_def)
    have pg: "page_of (base + n * 4096) = page_of base + n"
      unfolding page_of_add [OF less.prems(1)] by (simp add: page_of_def)
    have ih: "commit_loop cfg ask v msk (base + n * 4096) ?e c st = Some (c + 4096 * card (?c (page_of base + n)), st)" for c
      using less.hyps [of "base + n * 4096" c] n(2,3) less.prems(1,2) lt unfolding pg by simp
    have le: "page_of base + n \<le> page_of ?e" using page_of_mono [OF n(3)] unfolding pg .
    let ?r = "if vbyte (vm_tbl st) (page_of base) AND msk = msk then {page_of base..<page_of base + n} else {}"
    have same: "vbyte (vm_tbl st) p AND msk = vbyte (vm_tbl st) (page_of base) AND msk" if "page_of base \<le> p" "p < page_of base + n" for p
      using n(4) that same_masked by blast
    have cut: "?c (page_of base) = ?r \<union> ?c (page_of base + n)"
      using le same by (auto simp: not_less) (metis not_less)+
    have "card (?c (page_of base)) = card ?r + card (?c (page_of base + n))"
      unfolding cut by (rule card_Un_disjoint) auto
    then have sum: "4096 * card (?c (page_of base)) =
        (if vbyte (vm_tbl st) (page_of base) AND msk = msk then n * 4096 else 0) + 4096 * card (?c (page_of base + n))"
      by simp
    show ?thesis
      unfolding sum by (subst commit_loop.simps) (use False n(1,2) b ih in simp)
  qed
qed

lemma committed_bit: "b AND VPROT_COMMITTED = VPROT_COMMITTED \<longleftrightarrow> b AND VPROT_COMMITTED \<noteq> 0" for b :: u8
proof -
  have "bit (2 ^ 5 :: u8) n \<longleftrightarrow> n = 5" for n by (simp only: bit_exp_iff) auto
  then have n: "bit (0x20 :: u8) n \<longleftrightarrow> n = 5" for n by simp
  have "b AND VPROT_COMMITTED = (if bit b 5 then VPROT_COMMITTED else 0)"
    by (rule bit_word_eqI, cases "bit b 5") (auto simp only: bit_and_iff n if_True if_False bit_0_eq bot_apply bot_bool_def)
  then show ?thesis by simp
qed

text \<open>
  C40: The committed size that is reported for an allocation is the number of its committed pages, and the count comes
  to an end. It is the size of the whole view that is reported with it, whatever address in the view was asked for.
\<close>
theorem region_commit_size:
  assumes "vm_ok cfg st" and "v \<in> set (views st)" and "is_view_valloc v"
    and "in_view v (page_of addr)" and "addr < vm_working_set st" and "vm_working_set st < 2 ^ 62" and "32 \<le> len"
  shows "\<exists>info. get_memory_region_info cfg ask True addr len st = Some (Inr info, st) \<and>
    ri_alloc_base info = v_base v \<and> ri_size info = Some (v_size v) \<and>
    ri_commit_size info = Some (4096 * card {p. in_view v p \<and> vbyte (vm_tbl st) p AND VPROT_COMMITTED \<noteq> 0})"
proof -
  let ?base = "page_of addr * 4096" and ?e = "v_base v + v_size v"
  have r: "round_addr addr page_mask = ?base" by (simp add: round_addr_def page_of_def)
  have "?base \<le> addr" by (simp add: page_of_def)
  then have lim: "\<not> is_beyond_limit ?base 1 (vm_working_set st)"
    using assms(5,6) by (simp add: is_beyond_limit_def add64_def)
  have nr: "v_protect v AND SEC_RESERVE = 0" by (rule and_zero_part [OF assms(3) [unfolded is_view_valloc_def]]) simp
  have al: "4096 dvd v_base v" using view_bounds [OF assms(1,2)] by simp
  have set: "{p. page_of (v_base v) \<le> p \<and> p < page_of ?e \<and> vbyte (vm_tbl st) p AND VPROT_COMMITTED = VPROT_COMMITTED} =
      {p. in_view v p \<and> vbyte (vm_tbl st) p AND VPROT_COMMITTED \<noteq> 0}"
    using committed_bit by (auto simp: in_view_def)
  have "commit_loop cfg ask v VPROT_COMMITTED (v_base v) ?e 0 st =
      Some (4096 * card {p. in_view v p \<and> vbyte (vm_tbl st) p AND VPROT_COMMITTED \<noteq> 0}, st)"
    using commit_loop_sum [OF assms(1,2) nr al, of ask VPROT_COMMITTED 0] unfolding set by simp
  then show ?thesis
    using assms(3,7) lim region_found [OF assms(1,2,4)] unfolding get_memory_region_info_def r by (simp add: Let_def)
qed



text \<open>The whole view is committed, and the answer for an address inside it is about all of it.\<close>

theorem region_commit_size_witness:
  "\<exists>info. get_memory_region_info sample_vcfg (\<lambda>_ _. None) True 0x12345 40 watched_vm = Some (Inr info, watched_vm) \<and>
    ri_alloc_base info = 0x10000 \<and> ri_size info = Some 0x20000 \<and> ri_commit_size info = Some 0x20000"
proof -
  note ok = watched_sample(1) [unfolded watched_block_def]
  have pre: "vm_ok sample_vcfg watched_vm" "watched_view \<in> set (views watched_vm)" "is_view_valloc watched_view"
    "in_view watched_view (page_of 0x12345)" "0x12345 < vm_working_set watched_vm" "vm_working_set watched_vm < 2 ^ 62" "32 \<le> (40 :: nat)"
    using ok by (simp_all add: watched_views in_view_def page_of_def is_view_valloc_def) (simp_all add: watched_vm_def)
  have "{p. in_view watched_view p \<and> vbyte (vm_tbl watched_vm) p AND VPROT_COMMITTED \<noteq> 0} = {16..<48}"
    by (auto simp: in_view_def watched_views page_of_def watched_vbyte)
  then show ?thesis
    using region_commit_size [OF pre, of "\<lambda>_ _. None"] by (simp add: watched_views)
qed

end
