(* ===== verification/Virtual_Stack.thy ===== *)
theory Virtual_Stack
  imports Virtual_Query
begin

text \<open>
  The stack of a new thread (\<open>virtual_alloc_thread_stack\<close>) and the faults at its lower end: the guard page reports the
  overflow and gives the thread room to handle it, the last page stays without access.
\<close>

text \<open>What the thread block is filled with; \<open>main_image\<close> holds the two stack sizes of the main image.\<close>

record initial_teb =
  it_dealloc :: nat
  it_base :: nat
  it_limit :: nat

definition stack_size :: "nat \<times> nat \<Rightarrow> nat \<Rightarrow> nat \<Rightarrow> nat" where
  "stack_size main_image reserve_size commit_size =
     (let reserve_size = (if reserve_size = 0 then fst main_image else reserve_size);
          commit_size = (if commit_size = 0 then snd main_image else commit_size);
          sz = max reserve_size commit_size;
          sz = (if sz < 1024 * 1024 then 1024 * 1024 else sz)
      in round_addr (add64 sz 0xffff) 0xffff)"

definition protect_stack_end :: "vcfg \<Rightarrow> bool \<Rightarrow> nat \<Rightarrow> vmem \<Rightarrow> vmem option" where
  "protect_stack_end cfg guard_page base st =
     do {
       (sz, st) \<leftarrow>
         (if guard_page
          then do {
            st \<leftarrow> fill_vprot base 0x1000 0 st;
            st \<leftarrow> fill_vprot (add64 base 0x1000) 0x1000 (VPROT_READ OR VPROT_WRITE OR VPROT_COMMITTED OR VPROT_GUARD) st;
            Some (2 * 0x1000, st)
          }
          else map_option (\<lambda>st. (0x1000, st)) (fill_vprot base 0x1000 (VPROT_COMMITTED OR VPROT_READ) st));
       Some (st\<lparr>vm_kprot := mprotect_range (vc_prot cfg) (vc_dirs cfg) (vm_tbl st) base sz 0 0 (vm_kprot st)\<rparr>)
     }"

definition virtual_alloc_thread_stack ::
  "vcfg \<Rightarrow> map_env \<Rightarrow> nat \<times> nat \<Rightarrow> nat \<Rightarrow> nat \<Rightarrow> nat \<Rightarrow> nat \<Rightarrow> bool \<Rightarrow> vmem \<Rightarrow> ((ntstatus + initial_teb) \<times> vmem) option" where
  "virtual_alloc_thread_stack cfg env main_image limit_low limit_high reserve_size commit_size guard_page st =
     do {
       (r, st) \<leftarrow> map_view cfg env 0 (stack_size main_image reserve_size commit_size) 0
                    (VPROT_READ OR VPROT_WRITE OR VPROT_COMMITTED) limit_low limit_high 0 st;
       case r of
         Inl status \<Rightarrow> Some (Inl status, st)
       | Inr view \<Rightarrow> do {
           st \<leftarrow> protect_stack_end cfg guard_page (v_base view) st;
           Some (Inr \<lparr>it_dealloc = v_base view, it_base = view_end view,
                      it_limit = (if guard_page then add64 (v_base view) (2 * 0x1000) else v_base view)\<rparr>, st)
         }
     }"

section \<open>The new stack\<close>

text \<open>A stack as it is allocated: a page without access, the guard page, and pages that can be written.\<close>

definition stack_view :: "vcfg \<Rightarrow> file_view \<Rightarrow> vmem \<Rightarrow> bool" where
  "stack_view cfg v st \<longleftrightarrow> proc_ok cfg st \<and> v \<in> set (views st) \<and> 0x100000 \<le> v_size v \<and>
     (\<forall>p. in_view v p \<longrightarrow> vbyte (vm_tbl st) p = (if p = page_of (v_base v) then 0 else if p = page_of (v_base v) + 1 then 0x33 else 0x23))"

lemma stack_size_bounds:
  assumes "fst m < 2 ^ 61" and "snd m < 2 ^ 61" and "r < 2 ^ 61" and "c < 2 ^ 61"
  shows "0x100000 \<le> stack_size m r c" "stack_size m r c < 2 ^ 62" "4096 dvd stack_size m r c"
proof -
  define sz where "sz = max (if r = 0 then fst m else r) (if c = 0 then snd m else c)"
  define t where "t = (if sz < 1024 * 1024 then 1024 * 1024 else sz)"
  have t: "0x100000 \<le> t" "t < 2 ^ 61" using assms by (auto simp: t_def sz_def)
  have "stack_size m r c = round_addr (t + 0xffff) 0xffff"
    using t(2) unfolding stack_size_def Let_def sz_def [symmetric] t_def [symmetric] by (simp add: add64_def)
  then have e: "stack_size m r c = (t + 0xffff) div 0x10000 * 0x10000" by (simp add: round_addr_def)
  show "4096 dvd stack_size m r c" unfolding e by (rule dvd_4096) simp
  show "0x100000 \<le> stack_size m r c" unfolding e using div_le_mono [of "0x100000" "t + 0xffff" "0x10000"] t(1) by simp
  have "(t + 0xffff) div 0x10000 * 0x10000 \<le> t + 0xffff" by (rule div_times_less_eq_dividend)
  then show "stack_size m r c < 2 ^ 62" unfolding e using t(2) by simp
qed

lemma protect_end_spec:
  assumes "calls_work cfg" and "proc_ok cfg st" and "v \<in> set (views st)" and "0x100000 \<le> v_size v"
    and "\<forall>p. in_view v p \<longrightarrow> vbyte (vm_tbl st) p = 0x23"
  obtains st' where "protect_stack_end cfg True (v_base v) st = Some st'" "stack_view cfg v st'" "views st' = views st"
    "\<forall>p. \<not> in_view v p \<longrightarrow> vbyte (vm_tbl st') p = vbyte (vm_tbl st) p"
proof -
  define b where "b = v_base v"
  define p where "p = page_of b"
  note s = proc_okD [OF assms(2)]
  note vb = view_bounds [OF s(1) assms(3), folded b_def]
  have w: "mprotect_works (vc_prot cfg)" using assms(1) by (simp add: calls_work_def)
  have blk: "block_ok v b 0x2000" "block_ok v b 0x1000" "block_ok v (b + 0x1000) 0x1000"
    using vb(3) assms(4) by (simp_all add: block_ok_def b_def)
  have pg: "page_of (b + 0x1000) = p + 1" "page_of (b + 0x2000) = p + 2" "b + 0x1000 + 0x1000 = b + 0x2000"
    by (simp_all add: p_def page_of_def)
  note bb = block_bounds [OF s(1) assms(3) blk(1), folded p_def, unfolded pg, folded b_def]
  have a: "add64 b 0x1000 = b + 0x1000" using bb(4) by (simp add: add64_def)
  obtain t1 where t1: "fill_vprot b 0x1000 0 st = Some (st\<lparr>vm_tbl := t1\<rparr>)" "bytes_changed p (p + 1) (\<lambda>_. 0) (vm_tbl st) t1"
    using fill_vprot_spec [of b "0x1000" st 0] vb(3) bb(4) has_pages_mono [OF bb(3), of p "p + 1"] unfolding p_def [symmetric] pg by auto
  obtain t2 where t2: "fill_vprot (b + 0x1000) 0x1000 0x33 (st\<lparr>vm_tbl := t1\<rparr>) = Some (st\<lparr>vm_tbl := t2\<rparr>)"
      "bytes_changed (p + 1) (p + 2) (\<lambda>_. 0x33) t1 t2"
    using fill_vprot_spec [of "b + 0x1000" "0x1000" "st\<lparr>vm_tbl := t1\<rparr>" "0x33"] vb(3) bb(4)
      has_pages_mono [OF bb(3), of "p + 1" "p + 2"] bytes_changed_pages [OF t1(2)]
    unfolding pg by auto
  define k where "k = mprotect_range (vc_prot cfg) (vc_dirs cfg) t2 b (2 * 0x1000) 0 0 (vm_kprot st)"
  define st' where "st' = st\<lparr>vm_tbl := t2, vm_kprot := k\<rparr>"
  have cov: "table_covers (vc_dirs cfg) t2 b 0x2000"
    using bb(6) bytes_changed_pages [OF t1(2)] bytes_changed_pages [OF t2(2)] by (simp add: table_covers_def)
  have k: "k i = (if p \<le> i \<and> i < p + 2 then forced_prot (vc_prot cfg) (get_unix_prot (vc_prot cfg) (vbyte t2 i)) else vm_kprot st i)" for i
    unfolding k_def using mprotect_range_spec [OF w cov, of 0 0 "vm_kprot st"] bb(5) by (simp add: p_def)
  have y: "vbyte t2 i = (if i = p then 0 else if i = p + 1 then 0x33 else vbyte (vm_tbl st) i)" for i
    using t1(2) t2(2) by (auto simp: bytes_changed_def)
  define sa where "sa = st\<lparr>vm_tbl := t1, vm_kprot := (vm_kprot st)(p := k p)\<rparr>"
  have iv: "in_view v p" "in_view v (p + 1)" using bb(1,2) by (simp_all add: in_view_def b_def [symmetric])
  have "pages_set cfg v p (p + 1) (\<lambda>_. 0) st sa"
    using assms(3) bb(1,2) t1(2) k [of p] y [of p]
    by (auto simp: pages_set_def kernel_agrees_def sa_def bytes_changed_def le_Suc_eq b_def [symmetric])
  then have sa: "proc_ok cfg sa" by (rule set_keeps_proc [OF assms(2)]) (simp_all add: sa_def)
  have "pages_set cfg v (p + 1) (p + 2) (\<lambda>_. 0x33) sa st'"
    using assms(3) bb(1,2) t2(2) k
    by (auto simp: pages_set_def kernel_agrees_def sa_def st'_def b_def [symmetric])
  then have ok: "proc_ok cfg st'" by (rule set_keeps_proc [OF sa]) (simp_all add: sa_def st'_def)
  have "stack_view cfg v st'"
    using ok assms(3-5) y by (simp add: stack_view_def st'_def b_def [symmetric] p_def [symmetric])
  moreover have "protect_stack_end cfg True b st = Some st'"
    using t1(1) t2(1) by (simp add: protect_stack_end_def a st'_def k_def)
  moreover have "\<forall>i. \<not> in_view v i \<longrightarrow> vbyte (vm_tbl st') i = vbyte (vm_tbl st) i"
    using y iv by (auto simp: st'_def)
  ultimately show thesis using that by (simp add: b_def st'_def)
qed

text \<open>A view with the bytes of a stack, made where the search finds room.\<close>

lemma alloc_stack_spec:
  assumes "env_ready cfg env" and "proc_ok cfg st" and "ranges_room 1 st"
    and "fst m < 2 ^ 61" and "snd m < 2 ^ 61" and "r < 2 ^ 61" and "c < 2 ^ 61"
  obtains (failed) status where "virtual_alloc_thread_stack cfg env m low high r c True st = Some (Inl status, st)"
  | (new) v st' where "virtual_alloc_thread_stack cfg env m low high r c True st =
        Some (Inr \<lparr>it_dealloc = v_base v, it_base = v_base v + v_size v, it_limit = v_base v + 0x2000\<rparr>, st')"
      "stack_view cfg v st'" "v_size v = stack_size m r c" "\<forall>p. \<not> in_view v p \<longrightarrow> vm_page st' p = vm_page st p"
proof -
  note z = stack_size_bounds [OF assms(4-7)]
  have n: "0 < stack_size m r c" using z(1) by simp
  have t: "(0 :: u32) AND MEM_REPLACE_PLACEHOLDER = 0" by simp
  have pl: "plain_view \<lparr>v_base = b, v_size = stack_size m r c, v_protect = 0x23\<rparr>" for b by (simp add: plain_view_def)
  note w = env_readyD(1) [OF assms(1)]
  show thesis
  proof (cases rule: map_anywhere_spec [OF assms(1-3) t n z(2,3) pl, of 0 low high, OF disjI1 [OF refl], case_names failed mapped])
    case (failed status)
    then show thesis using that(1) by (simp add: virtual_alloc_thread_stack_def)
  next
    case (mapped v st1 L R)
    have vs: "views st1 = L @ v # R" "\<And>p. vbyte (vm_tbl st1) p = (if in_view v p then 0x23 else vbyte (vm_tbl st) p)"
      using mapped(5,3) by (simp_all add: view_created_def)
    have v: "v \<in> set (views st1)" unfolding vs(1) by (simp only: set_append list.set) blast
    have big: "0x100000 \<le> v_size v" using z(1) mapped(2) by simp
    obtain st2 where p: "protect_stack_end cfg True (v_base v) st1 = Some st2" "stack_view cfg v st2" "views st2 = views st1"
        "\<forall>p. \<not> in_view v p \<longrightarrow> vbyte (vm_tbl st2) p = vbyte (vm_tbl st1) p"
      using protect_end_spec [OF w mapped(4) v big] vs(2) by auto
    note vb = view_bounds [OF proc_okD(1) [OF mapped(4)] v]
    have lim: "add64 (v_base v) 0x2000 = v_base v + 0x2000" using vb(2) big by (simp add: add64_def)
    have "vm_page st2 q = vm_page st q" if "\<not> in_view v q" for q
      using created_pages [OF mapped(5) proc_okD(1) [OF assms(2)], of q] p(3,4) that by (simp add: vm_page_def)
    then show thesis
      using that(2) [OF _ p(2) mapped(2)] mapped(1) p(1) lim vb(1) by (simp add: virtual_alloc_thread_stack_def)
  qed
qed

section \<open>Faults at the end of the stack\<close>

text \<open>A page that the thread can read and write.\<close>

definition usable :: "vmem \<Rightarrow> nat \<Rightarrow> bool" where
  "usable st p \<longleftrightarrow> vm_kprot st p AND PROT_READ \<noteq> 0 \<and> vm_kprot st p AND PROT_WRITE \<noteq> 0"

lemma stack_page_usable:
  assumes "proc_ok cfg st" and "v \<in> set (views st)" and "in_view v p" and "vbyte (vm_tbl st) p = 0x23"
  shows "usable st p"
proof -
  have "v_protect v AND VPROT_SYSTEM = 0" using plain_viewD(5) [OF proc_okD(5) [OF assms(1,2)]] .
  then have "vm_kprot st p = forced_prot (vc_prot cfg) (get_unix_prot (vc_prot cfg) 0x23)"
    using proc_okD(2) [OF assms(1)] assms(2-4) unfolding kernel_ok_def kernel_agrees_def in_view_def by fastforce
  then show ?thesis by (simp add: usable_def forced_prot_def get_unix_prot_def)
qed

text \<open>A thread whose stack was allocated this way.\<close>

definition runs_on :: "initial_teb \<Rightarrow> thread_mem \<Rightarrow> bool" where
  "runs_on teb th \<longleftrightarrow> tm_stack th = \<lparr>ts_start = it_dealloc teb, ts_limit = it_limit teb, ts_end = it_base teb, ts_guaranteed = 0\<rparr>"

lemma page_round: "round_addr addr page_mask = page_of addr * 4096"
  by (simp add: round_addr_def page_of_def)

lemma last_page_fault:
  assumes "stack_view cfg v st" and "page_of addr = page_of (v_base v)"
  shows "virtual_handle_fault cfg fenv err addr st th = Some ((STATUS_ACCESS_VIOLATION, None), st, th)"
proof -
  have ok: "proc_ok cfg st" "v \<in> set (views st)" using assms(1) by (simp_all add: stack_view_def)
  note vb = view_bounds [OF proc_okD(1) [OF ok(1)] ok(2)]
  have "page_of (v_base v) * 4096 < page_of (v_base v + v_size v) * 4096"
    using vb(3,4,6) page_of_aligned [of "v_base v"] page_of_aligned [of "v_base v + v_size v"] by simp
  then have iv: "in_view v (page_of addr)" by (simp add: in_view_def assms(2))
  then have "vbyte (vm_tbl st) (page_of addr) = 0" using assms by (simp add: stack_view_def)
  then have g: "get_page_vprot (vc_dirs cfg) (page_of addr * 4096) (vm_tbl st) = 0"
    using get_page_view [OF proc_okD(1) [OF ok(1)] ok(2) iv] by simp
  have "get_unix_prot (vc_prot cfg) 0 = 0" by (simp add: get_unix_prot_def)
  then show ?thesis using g by (simp add: virtual_handle_fault_def page_round Let_def watch_fault_def)
qed

lemma guard_page_fault:
  assumes "calls_work cfg" and "stack_view cfg v st" and "page_of addr = page_of (v_base v) + 1" and "\<not> fe_signal_stack fenv"
    and "runs_on \<lparr>it_dealloc = v_base v, it_base = v_base v + v_size v, it_limit = l\<rparr> th"
  obtains st' where "virtual_handle_fault cfg fenv err addr st th =
      Some ((STATUS_STACK_OVERFLOW, None), st', th\<lparr>tm_stack := (tm_stack th)\<lparr>ts_limit := v_base v + 0x1000\<rparr>\<rparr>)"
    "proc_ok cfg st'" "views st' = views st"
    "\<forall>p. vbyte (vm_tbl st') p = (if p = page_of (v_base v) + 1 then 0x23 else vbyte (vm_tbl st) p)"
proof -
  define b where "b = v_base v"
  define p where "p = page_of b"
  have ok: "proc_ok cfg st" "v \<in> set (views st)" "0x100000 \<le> v_size v"
    "\<And>i. in_view v i \<Longrightarrow> vbyte (vm_tbl st) i = (if i = p then 0 else if i = p + 1 then 0x33 else 0x23)"
    using assms(2) by (simp_all add: stack_view_def p_def b_def)
  note s = proc_okD [OF ok(1)]
  note vb = view_bounds [OF s(1) ok(2), folded b_def]
  have b: "b = p * 4096" using page_of_aligned [OF vb(3)] by (simp add: p_def)
  have blk: "block_ok v (b + 0x1000) 0x1000" "block_ok v (b + 0x1000) 0x2000"
    using vb(3) ok(3) by (simp_all add: block_ok_def b_def)
  have pg: "page_of (b + 0x1000) = p + 1" "page_of (b + 0x1000 + 0x1000) = p + 2" "page_of (b + 0x1000 + 0x2000) = p + 3"
    "page_of addr * 4096 = b + 0x1000"
    using assms(3) by (simp_all add: b page_of_def p_def [symmetric] b_def [symmetric])
  note bb = block_bounds(1,2) [OF s(1) ok(2) blk(2), unfolded pg]
  have iv: "in_view v (p + 1)" using bb by (simp add: in_view_def b_def [symmetric])
  have g: "get_page_vprot (vc_dirs cfg) (b + 0x1000) (vm_tbl st) = 0x33"
    using get_page_view [OF s(1) ok(2) iv] ok(4) [OF iv] by (simp add: b add.commute)
  obtain s1 where s1: "change_pages cfg (b + 0x1000) 0x1000 VPROT_COMMITTED VPROT_GUARD st = Some s1"
      "pages_set cfg v (p + 1) (p + 2) (\<lambda>x. (x AND NOT VPROT_GUARD) OR VPROT_COMMITTED) st s1" "tables_only st s1"
    using change_pages_spec [OF assms(1) s(1) ok(2) blk(1), of VPROT_COMMITTED VPROT_GUARD] unfolding pg by metis
  have ok1: "proc_ok cfg s1" by (rule set_keeps_proc [OF ok(1) s1(2)]) (use s1(3) in \<open>simp_all add: tables_only_def\<close>)
  have v1: "v \<in> set (views s1)" using s1(2) ok(2) by (simp add: pages_set_def)
  obtain s2 where s2: "change_pages cfg (b + 0x1000) 0x2000 VPROT_COMMITTED VPROT_GUARD s1 = Some s2"
      "pages_set cfg v (p + 1) (p + 3) (\<lambda>x. (x AND NOT VPROT_GUARD) OR VPROT_COMMITTED) s1 s2" "tables_only s1 s2"
    using change_pages_spec [OF assms(1) proc_okD(1) [OF ok1] v1 blk(2), of VPROT_COMMITTED VPROT_GUARD] unfolding pg by metis
  have ok2: "proc_ok cfg s2" by (rule set_keeps_proc [OF ok1 s2(2)]) (use s2(3) in \<open>simp_all add: tables_only_def\<close>)
  have st: "tm_stack th = \<lparr>ts_start = b, ts_limit = l, ts_end = b + v_size v, ts_guaranteed = 0\<rparr>"
    using assms(5) by (simp add: runs_on_def b_def)
  have ins: "is_inside_thread_stack (b + 0x1000) th =
      (True, \<lparr>si_start = b, si_limit = l, si_end = b + v_size v, si_guaranteed = 0x2000, si_is_wow = False\<rparr>)"
    using ok(3) by (simp add: is_inside_thread_stack_def info_of_def st)
  have "virtual_handle_fault cfg fenv err addr st th =
      Some ((STATUS_STACK_OVERFLOW, None), s2, th\<lparr>tm_stack := (tm_stack th)\<lparr>ts_limit := b + 0x1000\<rparr>\<rparr>)"
    using assms(4) g s1(1) s2(1) ins
    by (simp add: virtual_handle_fault_def page_round pg(4) grow_thread_stack_def set_stack_limit_def)
  moreover have "views s2 = views st" using s1(2) s2(2) by (simp add: pages_set_def)
  moreover have "vbyte (vm_tbl s2) i = (if i = p + 1 then 0x23 else vbyte (vm_tbl st) i)" for i
  proof -
    have g: "i = p + 1 \<Longrightarrow> vbyte (vm_tbl st) i = 0x33" "i = p + 2 \<Longrightarrow> vbyte (vm_tbl st) i = 0x23"
      using ok(4) [OF iv] ok(4) [of "p + 2"] bb by (simp_all add: in_view_def b_def [symmetric])
    have y: "vbyte (vm_tbl s2) i = (if p + 1 \<le> i \<and> i < p + 3 then (vbyte (vm_tbl s1) i AND NOT VPROT_GUARD) OR VPROT_COMMITTED else vbyte (vm_tbl s1) i)"
        "vbyte (vm_tbl s1) i = (if p + 1 \<le> i \<and> i < p + 2 then (vbyte (vm_tbl st) i AND NOT VPROT_GUARD) OR VPROT_COMMITTED else vbyte (vm_tbl st) i)"
      using s1(2) s2(2) unfolding pages_set_def bytes_changed_def by blast+
    consider "i = p + 1" | "i = p + 2" | "\<not> (p + 1 \<le> i \<and> i < p + 3)" by linarith
    then show ?thesis
    proof cases
      case 3
      then have n: "\<not> (p + 1 \<le> i \<and> i < p + 2)" "i \<noteq> p + 1" by auto
      show ?thesis unfolding y(1) if_not_P [OF 3] y(2) if_not_P [OF n(1)] using n(2) by simp
    qed (use y g in simp_all)
  qed
  ultimately show thesis using that ok2 unfolding b_def p_def by blast
qed

text \<open>
  C22: The stack of a new thread. Either the allocation fails with a status and changes nothing, or every page of the stack
  above the limit can be read and written, and no other memory changed. The first access to the guard page below
  the limit is reported as a stack overflow, once: the limit moves down by a page, and the guard page and all pages
  above it can then be used to handle it. An access to the page below it stays a plain access violation.
\<close>
theorem stack_overflow_reported:
  assumes "env_ready cfg env" and "proc_ok cfg st" and "ranges_room 1 st" and "\<not> fe_signal_stack fenv"
    and "fst m < 2 ^ 61" and "snd m < 2 ^ 61" and "r < 2 ^ 61" and "c < 2 ^ 61"
  shows "case virtual_alloc_thread_stack cfg env m low high r c True st of
      None \<Rightarrow> False
    | Some (Inl status, st1) \<Rightarrow> st1 = st
    | Some (Inr teb, st1) \<Rightarrow>
        it_dealloc teb + 0x100000 \<le> it_base teb \<and>
        (\<forall>p. it_limit teb \<le> p * 0x1000 \<and> p * 0x1000 < it_base teb \<longrightarrow> usable st1 p) \<and>
        (\<forall>p. p * 0x1000 < it_dealloc teb \<or> it_base teb \<le> p * 0x1000 \<longrightarrow> vm_page st1 p = vm_page st p) \<and>
        (\<forall>th err addr. runs_on teb th \<and> it_limit teb - 0x1000 \<le> addr \<and> addr < it_limit teb \<longrightarrow>
          (\<exists>st2. virtual_handle_fault cfg fenv err addr st1 th =
              Some ((STATUS_STACK_OVERFLOW, None), st2, th\<lparr>tm_stack := (tm_stack th)\<lparr>ts_limit := it_limit teb - 0x1000\<rparr>\<rparr>) \<and>
            proc_ok cfg st2 \<and> (\<forall>p. it_limit teb - 0x1000 \<le> p * 0x1000 \<and> p * 0x1000 < it_base teb \<longrightarrow> usable st2 p))) \<and>
        (\<forall>th err addr. it_dealloc teb \<le> addr \<and> addr < it_limit teb - 0x1000 \<longrightarrow>
          virtual_handle_fault cfg fenv err addr st1 th = Some ((STATUS_ACCESS_VIOLATION, None), st1, th))"
proof (cases rule: alloc_stack_spec [OF assms(1-3,5-8), of low high, case_names failed new])
  case (failed status)
  then show ?thesis by simp
next
  case (new v st1)
  have ok: "proc_ok cfg st1" "v \<in> set (views st1)" "0x100000 \<le> v_size v"
    "\<And>i. in_view v i \<Longrightarrow> vbyte (vm_tbl st1) i = (if i = page_of (v_base v) then 0 else if i = page_of (v_base v) + 1 then 0x33 else 0x23)"
    using new(2) by (simp_all add: stack_view_def)
  note vb = view_bounds [OF proc_okD(1) [OF ok(1)] ok(2)]
  define p0 where "p0 = page_of (v_base v)"
  define p1 where "p1 = page_of (v_base v + v_size v)"
  have e: "v_base v = p0 * 0x1000" "v_base v + v_size v = p1 * 0x1000"
    using page_of_aligned [of "v_base v"] page_of_aligned [of "v_base v + v_size v"] vb(3,4) by (simp_all add: p0_def p1_def)
  have iv: "in_view v p \<longleftrightarrow> p0 \<le> p \<and> p < p1" for p by (simp add: in_view_def p0_def p1_def)
  define teb where "teb = \<lparr>it_dealloc = v_base v, it_base = v_base v + v_size v, it_limit = v_base v + 0x2000\<rparr>"
  have d: "it_limit teb = (p0 + 2) * 0x1000" "it_dealloc teb = p0 * 0x1000" "it_base teb = p1 * 0x1000"
    "(p0 + 2) * 0x1000 - 0x1000 = (p0 + 1) * 0x1000"
    unfolding teb_def by (simp_all add: e(1)) (use e in simp)
  have up: "usable st1 p" if "p0 + 2 \<le> p" "p < p1" for p
    by (rule stack_page_usable [OF ok(1,2)]) (use that iv ok(4) [of p] in \<open>simp_all add: p0_def [symmetric]\<close>)
  have guard: "\<exists>st2. virtual_handle_fault cfg fenv err addr st1 th =
        Some ((STATUS_STACK_OVERFLOW, None), st2, th\<lparr>tm_stack := (tm_stack th)\<lparr>ts_limit := (p0 + 1) * 0x1000\<rparr>\<rparr>) \<and>
      proc_ok cfg st2 \<and> (\<forall>p. p0 + 1 \<le> p \<and> p < p1 \<longrightarrow> usable st2 p)"
    if a: "runs_on teb th"
      "(p0 + 1) * 0x1000 \<le> addr" "addr < (p0 + 2) * 0x1000" for th err addr
  proof -
    have pa: "page_of addr = page_of (v_base v) + 1" using a(2,3) by (simp add: p0_def [symmetric]) (simp add: page_of_def)
    obtain st2 where f: "virtual_handle_fault cfg fenv err addr st1 th =
          Some ((STATUS_STACK_OVERFLOW, None), st2, th\<lparr>tm_stack := (tm_stack th)\<lparr>ts_limit := v_base v + 0x1000\<rparr>\<rparr>)"
        "proc_ok cfg st2" "views st2 = views st1"
        "\<forall>p. vbyte (vm_tbl st2) p = (if p = page_of (v_base v) + 1 then 0x23 else vbyte (vm_tbl st1) p)"
      by (rule guard_page_fault [OF env_readyD(1) [OF assms(1)] new(2) pa assms(4) a(1) [unfolded teb_def]])
    have "usable st2 p" if "p0 + 1 \<le> p" "p < p1" for p
      by (rule stack_page_usable [OF f(2)]) (use that iv ok(2) ok(4) [of p] f(3,4) in \<open>auto simp: p0_def [symmetric]\<close>)
    moreover have "v_base v + 0x1000 = (p0 + 1) * 0x1000" by (simp add: e)
    ultimately show ?thesis using f(1,2) by auto
  qed
  have low: "virtual_handle_fault cfg fenv err addr st1 th = Some ((STATUS_ACCESS_VIOLATION, None), st1, th)"
    if "p0 * 0x1000 \<le> addr" "addr < (p0 + 1) * 0x1000" for th err addr
    by (rule last_page_fault [OF new(2)]) (use that in \<open>simp add: p0_def [symmetric], simp add: page_of_def\<close>)
  have rest: "vm_page st1 p = vm_page st p" if "p < p0 \<or> p1 \<le> p" for p
  proof -
    have "\<not> in_view v p" unfolding iv using that by linarith
    then show ?thesis using new(4) by blast
  qed
  have m: "a * 0x1000 \<le> b * 0x1000 \<longleftrightarrow> a \<le> b" "a * 0x1000 < b * 0x1000 \<longleftrightarrow> a < b" for a b :: nat by simp_all
  have big: "p0 * 0x1000 + 0x100000 \<le> p1 * 0x1000" using ok(3) e by simp
  show ?thesis
    unfolding new(1) [folded teb_def] option.case prod.case sum.case d m
  proof (intro conjI allI impI)
    show "p0 * 0x1000 + 0x100000 \<le> p1 * 0x1000" by (rule big)
  next
    fix p assume "p0 + 2 \<le> p \<and> p < p1"
    then show "usable st1 p" using up by blast
  next
    fix p assume "p < p0 \<or> p1 \<le> p"
    then show "vm_page st1 p = vm_page st p" by (rule rest)
  next
    fix th err addr assume "runs_on teb th \<and> (p0 + 1) * 0x1000 \<le> addr \<and> addr < (p0 + 2) * 0x1000"
    then show "\<exists>st2. virtual_handle_fault cfg fenv err addr st1 th =
          Some ((STATUS_STACK_OVERFLOW, None), st2, th\<lparr>tm_stack := (tm_stack th)\<lparr>ts_limit := (p0 + 1) * 0x1000\<rparr>\<rparr>) \<and>
        proc_ok cfg st2 \<and> (\<forall>p. p0 + 1 \<le> p \<and> p < p1 \<longrightarrow> usable st2 p)" by (elim conjE) (rule guard)
  next
    fix th err addr assume "p0 * 0x1000 \<le> addr \<and> addr < (p0 + 1) * 0x1000"
    then show "virtual_handle_fault cfg fenv err addr st1 th = Some ((STATUS_ACCESS_VIOLATION, None), st1, th)" by (elim conjE) (rule low)
  qed
qed

section \<open>An example\<close>

lemma sample_room_found:
  "alloc_free_area machine_cfg (me_alloc sample_map_env) 0x10000 0x7fffffff0000 0x100000 False 3 granularity_mask sample_vm =
    Some (0x30000, sample_vm\<lparr>vm_mapped := (\<lambda>p. in_pages 0x30000 0x100000 p \<or> vm_mapped sample_vm p),
                             vm_kprot := (\<lambda>p. if in_pages 0x30000 0x100000 p then 3 else vm_kprot sample_vm p)\<rparr>)"
proof -
  have t: "ae_tryfixed (me_alloc sample_map_env) (vm_mapped sample_vm) 0x30000 0x100000 = Inr 0x30000"
    by (simp add: sample_map_env_def page_of_def list_ex_iff del: upt_rec_numeral list.pred_inject) (simp add: sample_vm_def)
  have sel: "ae_preload (me_alloc sample_map_env) = (0, 0)" "vm_reserved sample_vm = []"
    "vm_ranges sample_vm = [\<lparr>r_base = 0, r_end = 0x10000\<rparr>, \<lparr>r_base = 0x30000, r_end = 2 ^ 64 - 1\<rparr>]"
    by (simp_all add: sample_map_env_def sample_vm_def)
  show ?thesis
    by (simp add: alloc_free_area_def sel alloc_free_area_in_range_def try_map_free_area_range_def try_map_free_area_def
        try_map_loop.simps [where start = "0x30000"] anon_mmap_tryfixed_def t round_addr_def add64_def)
qed

lemma sample_stack:
  obtains st' where "map_view machine_cfg sample_map_env 0 0x100000 0 0x23 0 0 0 sample_vm =
    Some (Inr \<lparr>v_base = 0x30000, v_size = 0x100000, v_protect = 0x23\<rparr>, st')"
proof -
  define st0 where "st0 = sample_vm\<lparr>vm_mapped := (\<lambda>p. in_pages 0x30000 0x100000 p \<or> vm_mapped sample_vm p),
    vm_kprot := (\<lambda>p. if in_pages 0x30000 0x100000 p then 3 else vm_kprot sample_vm p)\<rparr>"
  have up: "get_unix_prot (vc_prot machine_cfg) 0x23 = 3" by (simp add: get_unix_prot_def)
  have new: "new_view_ok machine_cfg sample_vm 0x30000 0x100000"
    by (simp add: new_view_ok_def sample_views overlaps_def page_of_def machine_cfg_def) (simp add: sample_vcfg_def)
  have "pages_mapped 0x30000 (0x30000 + 0x100000) (get_unix_prot (vc_prot machine_cfg) (ucast (0x23 :: u32))) sample_vm st0"
    by (simp add: pages_mapped_def same_book_def st0_def up in_pages_def page_of_def)
  moreover have "plain_view \<lparr>v_base = 0x30000, v_size = 0x100000, v_protect = 0x23\<rparr>" by (simp add: plain_view_def)
  ultimately obtain st' where c: "create_view machine_cfg 0x30000 0x100000 0x23 st0 =
      Some (Inr \<lparr>v_base = 0x30000, v_size = 0x100000, v_protect = 0x23\<rparr>, st')"
    using create_runs [OF env_readyD(1) [OF machine_ready] machine_start new sample_room(2), of "0x23" st0 st0 0] by auto
  have env: "ae_space_start (me_alloc sample_map_env) = 0x10000" "vc_user_limit machine_cfg = 0x7fffffff0000"
    "ae_host_limit (me_alloc sample_map_env) = 0x7fffffff0000" "ae_limit_address_space (me_alloc sample_map_env) = None"
    "ae_steam_game (me_alloc sample_map_env) = None"
    by (simp_all add: sample_map_env_def machine_cfg_def sample_vcfg_def)
  have "map_memory machine_cfg sample_map_env 0 0x100000 0 0x23 0 0 0 sample_vm = Some (Inr 0x30000, st0)"
    using sample_room_found by (simp add: map_memory_def Let_def env fixup_effective_user_space_limit_def limit_cached_def up st0_def)
  then show thesis using that c by (simp add: map_view_def)
qed

definition sample_stack_thread :: thread_mem where
  "sample_stack_thread = \<lparr>tm_stack = \<lparr>ts_start = 0x30000, ts_limit = 0x32000, ts_end = 0x130000, ts_guaranteed = 0\<rparr>, tm_wow = None, tm_allow_writes = False\<rparr>"

text \<open>A stack of the smallest size: the guard page is hit, and can be used then; the page below it cannot.\<close>

theorem stack_overflow_reported_witness:
  "\<exists>teb st1 st2 th. virtual_alloc_thread_stack machine_cfg sample_map_env (0x100000, 0x1000) 0 0 0 0 True sample_vm = Some (Inr teb, st1) \<and>
    teb = \<lparr>it_dealloc = 0x30000, it_base = 0x130000, it_limit = 0x32000\<rparr> \<and>
    virtual_handle_fault machine_cfg \<lparr>fe_signal_stack = False, fe_resident = (\<lambda>_. True)\<rparr> 1 0x31ff8 st1 sample_stack_thread =
      Some ((STATUS_STACK_OVERFLOW, None), st2, th) \<and> ts_limit (tm_stack th) = 0x31000 \<and> usable st2 0x31 \<and>
    virtual_handle_fault machine_cfg \<lparr>fe_signal_stack = False, fe_resident = (\<lambda>_. True)\<rparr> 1 0x30ff8 st1 sample_stack_thread =
      Some ((STATUS_ACCESS_VIOLATION, None), st1, sample_stack_thread)"
proof -
  let ?fenv = "\<lparr>fe_signal_stack = False, fe_resident = (\<lambda>_. True)\<rparr>"
  let ?alloc = "virtual_alloc_thread_stack machine_cfg sample_map_env (0x100000, 0x1000) 0 0 0 0 True sample_vm"
  have "\<not> fe_signal_stack ?fenv" "fst (0x100000 :: nat, 0x1000 :: nat) < 2 ^ 61" "snd (0x100000 :: nat, 0x1000 :: nat) < 2 ^ 61" "(0 :: nat) < 2 ^ 61" by simp_all
  note r = stack_overflow_reported [OF machine_ready machine_start sample_room(2) this this(4), of 0 0]
  have sz: "stack_size (0x100000, 0x1000) 0 0 = 0x100000" by (simp add: stack_size_def add64_def round_addr_def)
  obtain st' where m: "map_view machine_cfg sample_map_env 0 0x100000 0 0x23 0 0 0 sample_vm =
      Some (Inr \<lparr>v_base = 0x30000, v_size = 0x100000, v_protect = 0x23\<rparr>, st')" by (rule sample_stack)
  define teb where "teb = \<lparr>it_dealloc = 0x30000, it_base = 0x130000, it_limit = 0x32000\<rparr>"
  have "?alloc = map_option (\<lambda>st. (Inr teb, st)) (protect_stack_end machine_cfg True 0x30000 st')"
    using m by (simp add: virtual_alloc_thread_stack_def sz view_end_def add64_def teb_def) (cases "protect_stack_end machine_cfg True 0x30000 st'", simp_all)
  then obtain st1 where a: "?alloc = Some (Inr teb, st1)" using r by (auto split: option.splits)
  note f = r [unfolded a option.case prod.case sum.case]
  have on: "runs_on teb sample_stack_thread" by (simp add: runs_on_def teb_def sample_stack_thread_def)
  have g: "runs_on teb sample_stack_thread \<and> it_limit teb - 0x1000 \<le> 0x31ff8 \<and> 0x31ff8 < it_limit teb"
    using on by (simp add: teb_def)
  from f [THEN conjunct2, THEN conjunct2, THEN conjunct2, THEN conjunct1, rule_format (no_asm), of sample_stack_thread "0x31ff8", OF g, of 1]
  obtain st2 where s2: "virtual_handle_fault machine_cfg ?fenv 1 0x31ff8 st1 sample_stack_thread =
        Some ((STATUS_STACK_OVERFLOW, None), st2, sample_stack_thread\<lparr>tm_stack := (tm_stack sample_stack_thread)\<lparr>ts_limit := it_limit teb - 0x1000\<rparr>\<rparr>)"
      "\<forall>p. it_limit teb - 0x1000 \<le> p * 0x1000 \<and> p * 0x1000 < it_base teb \<longrightarrow> usable st2 p" by blast
  have "usable st2 0x31" by (rule s2(2) [rule_format]) (simp add: teb_def)
  moreover have "virtual_handle_fault machine_cfg ?fenv 1 0x30ff8 st1 sample_stack_thread = Some ((STATUS_ACCESS_VIOLATION, None), st1, sample_stack_thread)"
    by (rule f [THEN conjunct2, THEN conjunct2, THEN conjunct2, THEN conjunct2, rule_format]) (simp add: teb_def)
  moreover have "ts_limit (tm_stack (sample_stack_thread\<lparr>tm_stack := (tm_stack sample_stack_thread)\<lparr>ts_limit := it_limit teb - 0x1000\<rparr>\<rparr>)) = 0x31000"
    by (simp add: teb_def)
  ultimately show ?thesis using a s2(1) teb_def by blast
qed

end
