(* ===== verification/Spec2Isabelle.thy ===== *)
theory Spec2Isabelle
  imports Fsync_Machine Sync_Equiv Esync_All Esync_Objects Sysvshm Inproc_Machine Virtual_Stack
begin

text \<open>
  The parts of this repository that implement Windows synchronization objects and the address space of a
  process on Linux and Android: the shared-memory synchronization "fsync" and "esync" (server and client
  side), the in-process synchronization over the ntsync driver, System V shared memory for Android,
  and the views, page protections and free ranges of the virtual memory manager.

  \<^bold>\<open>Conventions.\<close> Machine words keep their width where overflow matters (\<open>32 word\<close>, \<open>64 word\<close>); addresses and sizes
  of the memory manager are natural numbers with \<open>add64\<close> where the code's sums can wrap around. A failed
  assert, a fault, or a read outside of an array is the value \<open>None\<close>; an error status is a value of the
  result. What the kernel, the server on the other side, an allocator or a library does is a parameter
  or an argument of the definitions, and what the code relies on is a named hypothesis (\<open>rbtree_ok\<close>,
  \<open>mprotect_works\<close>, the contracts of the locales). Changes that other threads make between two atomic accesses
  are arguments (interference) or steps of an inductive relation.

  \<^bold>\<open>fsync, server/fsync.c.\<close> \<open>Shm_Index\<close> is the allocator of slots in the shared memory with its free bitmap and
  reference counts (\<open>fsync_alloc_shm\<close>, \<open>fsync_free_shm_idx\<close>), \<open>Fsync_Server\<close> the objects and requests on it,
  \<open>Index_Pool\<close> the contract (a locale) that the allocator gives to its clients. \<open>Shm_Memory\<close> is the memory of slots
  with its atomic operations.

  \<^bold>\<open>fsync, dlls/ntdll/unix/fsync.c.\<close> \<open>Handle_Cache\<close> and \<open>Fsync_Client\<close> model the cache of handles, the references
  and the operations on objects; \<open>Fsync_Wait\<close> and \<open>Fsync_Wait_All\<close> the two waits; \<open>Fsync_Grab\<close> shows what a wait for
  any object acquires under arbitrary interference, \<open>Fsync_Quiet\<close> and \<open>Fsync_All_Quiet\<close> what waits do without it.
  \<open>Fsync_Machine\<close> interleaves any number of threads (mutual exclusion, conservation of permits). \<open>Sync_Spec\<close> is the
  abstract specification of objects, which \<open>Fsync_Refine\<close> and \<open>Esync_Refine\<close> show to be implemented; \<open>Sync_Equiv\<close>
  composes the two simulations.

  \<^bold>\<open>esync, server/esync.c and dlls/ntdll/unix/esync.c.\<close> \<open>Eventfd\<close> is the counter of an eventfd, \<open>Esync_Server\<close> the objects
  and requests, \<open>Esync_Client\<close> the operations, \<open>Esync_Wait\<close> the waits, \<open>Esync_All\<close> and \<open>Esync_Objects\<close> their properties.
  \<open>Waitable\<close> holds what the waits of both implementations share.

  \<^bold>\<open>In-process synchronization, dlls/ntdll/unix/sync.c.\<close> \<open>Ntsync\<close> models the operations over the driver and over its
  userspace library, \<open>Inproc_Cache\<close> the cache with reference counts, \<open>Inproc_Sync\<close> the operations, \<open>Inproc_Refs\<close> what
  they promise, \<open>Inproc_Machine\<close> one cache entry used by any number of threads.

  \<^bold>\<open>System V shared memory, path/android\_sysvshm.c.\<close> \<open>Sysvshm\<close> models the table of segments of a process.

  \<^bold>\<open>Virtual memory, dlls/ntdll/unix/virtual10.c.\<close> \<open>Free_Ranges\<close> and \<open>View_Ranges\<close>: the sequence of free ranges, which stays
  the complement of the views. \<open>Page_Vprot\<close>: the two-level table of protection bytes. \<open>Page_Prot\<close>: conversions between
  the protections of Windows, of the table and of the kernel, and the grouped system calls.
  \<open>Reserved_Areas\<close>: the list of reserved areas as a set of addresses. \<open>View_Tree\<close>: the searches in the tree of
  views. \<open>Arm64ec_Map\<close>: the bit map of code pages. \<open>Virtual_Views\<close>: creation, deletion, splitting and joining of
  views over all of these. \<open>Virtual_Inv\<close>: the invariant that ties them together, and \<open>Virtual_Keep\<close>: what taking
  pages out of a view, deleting it and changing its pages do to the pages of the process (\<open>vm_page\<close>), and that they
  keep the invariant. \<open>Virtual_Calls\<close>: the system calls that protect and free pages. \<open>Virtual_Alloc\<close>: the search for
  free addresses; \<open>Virtual_Map\<close>: mapping at a fixed address or where the search finds room, and the system calls that
  allocate. \<open>Virtual_Create\<close> and \<open>Virtual_Reserve\<close>: a new view keeps the invariant, reserving adds
  exactly its pages, releasing them undoes it. \<open>Virtual_Search\<close>: what the search finds overlaps no view.

  \<^bold>\<open>Bounds and termination.\<close> Loops that end by a measure are total functions. Loops that another thread may keep
  alive are \<open>partial_function\<close>s whose results are proved under a stated condition. The sequence of free ranges
  holds at most \<open>max_ranges\<close> entries, as its block does.

  \<^bold>\<open>Not modelled.\<close> The kernel's write tracking, the contents of pages, files mapped into views, mapping of images,
  thread blocks and queries of virtual10.c, and its 32-bit build; what the server records about sections;
  the other versions of that file (virtual\_pro10.c, 09virtual.c, 11\_17virtual.c), of which one is built; the start-up of
  the unix side (env), the connection to the server, the event loop of the server with its processes and
  threads, the generated protocol files, the PulseAudio driver, and the patches of the build.
\<close>

end
